(* ===== verification/Prelude.thy ===== *)
theory Prelude
  imports Main "HOL-Library.Word" "HOL-Library.Multiset"
begin

text \<open>
  Shared vocabulary of the development: the kernel's integer types, the result type of
  code that can stop (\<open>PANIC\<close>, \<open>VERIFY\<close>, an access through a null pointer, a lock that
  is not free), the round-up and round-down macros, generic facts on words, lists and
  function updates, and the locale of transition systems in which every interleaving
  model of the development is interpreted.
\<close>

unbundle bit_operations_syntax

section \<open>Types\<close>

text \<open>The integer types of \<open>osrt/types.h\<close>; in the kernel \<open>uint\<close>, \<open>size_t\<close>, \<open>uintptr\<close> and
  \<open>boolean\<close> are all 64 bits wide.\<close>

type_synonym u8 = "8 word"
type_synonym u16 = "16 word"
type_synonym u32 = "32 word"
type_synonym u64 = "64 word"

named_theorems res_simps \<open>evaluation of the result monad\<close>
named_theorems frame \<open>fields an operation leaves alone\<close>

section \<open>Results of code that can stop\<close>

text \<open>
  \<open>Panic\<close> is the \<open>PANIC\<close> macro or a failed \<open>VERIFY\<close>; \<open>NullDeref\<close> is a read or write
  through a null pointer; \<open>Blocked\<close> is a mutex or spinlock that is not free when it is
  taken (the code spins until another processor releases it, and for ever if the caller
  itself is the owner); \<open>DivZero\<close> is an integer division by zero; \<open>NoReturn\<close> is a loop that
  runs for ever; \<open>PageFault\<close> is an access to a page that is not present; \<open>WildCall\<close> is a call
  through a word outside the table it should be read from.  The build never
  defines \<open>_KDEBUG\<close>, so \<open>ASSERT\<close> does nothing and has no counterpart in the model.
\<close>

datatype fault = Panic string | NullDeref | Blocked | DivZero | NoReturn | PageFault | WildCall

datatype 'a res = Ok 'a | Fail fault

definition bind_res :: "'a res \<Rightarrow> ('a \<Rightarrow> 'b res) \<Rightarrow> 'b res" where
  "bind_res m f = (case m of Ok x \<Rightarrow> f x | Fail e \<Rightarrow> Fail e)"

definition verify :: "bool \<Rightarrow> string \<Rightarrow> 'a res \<Rightarrow> 'a res" where
  "verify b msg k = (if b then k else Fail (Panic msg))"

text \<open>An access through the pointer \<open>p\<close>.\<close>

definition nonnull :: "u64 \<Rightarrow> 'a res \<Rightarrow> 'a res" where
  "nonnull p k = (if p = 0 then Fail NullDeref else k)"

fun is_ok :: "'a res \<Rightarrow> bool" where
  "is_ok (Ok _) = True"
| "is_ok (Fail _) = False"

text \<open>A loop modelled by a partial function: \<open>None\<close> is a loop that never ends.\<close>

definition ends :: "'a res option \<Rightarrow> 'a res" where
  "ends r = (case r of Some x \<Rightarrow> x | None \<Rightarrow> Fail NoReturn)"

section \<open>Rounding\<close>

text \<open>\<open>ALIGNDOWN\<close>, \<open>ALIGNUP\<close> and \<open>DIV_CEIL\<close> of \<open>k_memory.c\<close>, on 64-bit words.\<close>

definition ALIGNDOWN :: "u64 \<Rightarrow> u64 \<Rightarrow> u64" where
  "ALIGNDOWN x r = x AND NOT (r - 1)"

definition ALIGNUP :: "u64 \<Rightarrow> u64 \<Rightarrow> u64" where
  "ALIGNUP x r = ALIGNDOWN (x - 1) r + r"

definition DIV_CEIL :: "u64 \<Rightarrow> u64 \<Rightarrow> u64" where
  "DIV_CEIL a b = ((a - 1) div b) + 1"

section \<open>Transition systems\<close>

inductive reach :: "('s \<Rightarrow> bool) \<Rightarrow> ('s \<Rightarrow> 's \<Rightarrow> bool) \<Rightarrow> 's \<Rightarrow> bool"
  for init :: "'s \<Rightarrow> bool" and step :: "'s \<Rightarrow> 's \<Rightarrow> bool" where
  reach_init: "init s \<Longrightarrow> reach init step s"
| reach_step: "reach init step s \<Longrightarrow> step s t \<Longrightarrow> reach init step t"

text \<open>An inductive invariant of a transition system holds in every reachable state.\<close>

locale inductive_invariant =
  fixes init :: "'s \<Rightarrow> bool"
    and step :: "'s \<Rightarrow> 's \<Rightarrow> bool"
    and inv :: "'s \<Rightarrow> bool"
  assumes inv_init: "init s \<Longrightarrow> inv s"
    and inv_step: "inv s \<Longrightarrow> step s t \<Longrightarrow> inv t"
begin

lemma reach_inv: "reach init step s \<Longrightarrow> inv s"
proof (induction rule: reach.induct)
  case (reach_init s)
  then show ?case by (rule inv_init)
next
  case (reach_step s t)
  then show ?case by (blast intro: inv_step)
qed

lemma run_inv: "step\<^sup>*\<^sup>* s t \<Longrightarrow> inv s \<Longrightarrow> inv t"
  by (induction rule: rtranclp_induct) (auto intro: inv_step)

end

section \<open>Allocators\<close>

text \<open>The contract of an allocator: \<open>live s\<close> are the objects handed out and not yet returned.
  A successful allocation hands out an object that was not live, a failed one changes
  nothing, and giving an object back ends its life only.\<close>

locale allocator =
  fixes inv :: "'s \<Rightarrow> bool"
    and live :: "'s \<Rightarrow> 'a set"
    and alloc :: "'s \<Rightarrow> 'a option \<times> 's"
    and free :: "'a \<Rightarrow> 's \<Rightarrow> 's"
  assumes alloc_some: "inv s \<Longrightarrow> alloc s = (Some a, t) \<Longrightarrow> inv t \<and> a \<notin> live s \<and> live t = insert a (live s)"
    and alloc_none: "inv s \<Longrightarrow> alloc s = (None, t) \<Longrightarrow> inv t \<and> live t = live s"
    and free_live: "inv s \<Longrightarrow> alloc s = (Some a, t) \<Longrightarrow> live (free a t) = live s"
begin

text \<open>The results of \<open>n\<close> requests in a row, failures left out.\<close>

fun alloc_n :: "nat \<Rightarrow> 's \<Rightarrow> 'a list \<times> 's" where
  "alloc_n 0 s = ([], s)"
| "alloc_n (Suc n) s = (case alloc s of
     (None, t) \<Rightarrow> alloc_n n t
   | (Some a, t) \<Rightarrow> (let (as, u) = alloc_n n t in (a # as, u)))"

lemma alloc_n_live:
  "inv s \<Longrightarrow> alloc_n n s = (as, t) \<Longrightarrow>
     inv t \<and> live t = live s \<union> set as \<and> distinct as \<and> set as \<inter> live s = {}"
proof (induction n arbitrary: s as t)
  case 0
  then show ?case by auto
next
  case (Suc n)
  obtain r u where r: "alloc s = (r, u)" by (cases "alloc s")
  show ?case
  proof (cases r)
    case None
    then show ?thesis using Suc.IH[of u as t] Suc.prems r alloc_none[of s u] by auto
  next
    case (Some a)
    obtain bs v where bs: "alloc_n n u = (bs, v)" by (cases "alloc_n n u")
    have u: "inv u" "a \<notin> live s" "live u = insert a (live s)"
      using alloc_some Suc.prems(1) r Some by blast+
    show ?thesis using Suc.IH[OF u(1) bs] Suc.prems(2) r Some bs u by auto
  qed
qed

lemma alloc_n_distinct: "inv s \<Longrightarrow> distinct (fst (alloc_n n s))"
  using alloc_n_live by (metis prod.collapse)

end

text \<open>An allocator whose objects have one owner: returning any live object ends its life.\<close>

locale exclusive_allocator = allocator inv live alloc free
  for inv :: "'s \<Rightarrow> bool"
    and live :: "'s \<Rightarrow> 'a set"
    and alloc :: "'s \<Rightarrow> 'a option \<times> 's"
    and free :: "'a \<Rightarrow> 's \<Rightarrow> 's" +
  assumes free_any: "inv s \<Longrightarrow> a \<in> live s \<Longrightarrow> inv (free a s) \<and> live (free a s) = live s - {a}"
begin

text \<open>\<open>free_all\<close> returns a list of objects one after the other.\<close>

fun free_all :: "'a list \<Rightarrow> 's \<Rightarrow> 's" where
  "free_all [] s = s"
| "free_all (a # as) s = free_all as (free a s)"

lemma free_all_live:
  "inv s \<Longrightarrow> distinct as \<Longrightarrow> set as \<subseteq> live s \<Longrightarrow>
     inv (free_all as s) \<and> live (free_all as s) = live s - set as"
proof (induction as arbitrary: s)
  case (Cons a as)
  have "inv (free a s)" "live (free a s) = live s - {a}" using free_any[of s a] Cons.prems by auto
  moreover have "set as \<subseteq> live s - {a}" using Cons.prems by auto
  ultimately show ?case using Cons.IH[of "free a s"] Cons.prems by auto
qed simp

text \<open>Whatever a sequence of requests hands out can be returned in any order, and then the
  live objects are those of the start.\<close>

lemma alloc_n_free_all:
  assumes "inv s" "alloc_n n s = (as, t)" "mset bs = mset as"
  shows "inv (free_all bs t) \<and> live (free_all bs t) = live s"
proof -
  have a: "inv t" "live t = live s \<union> set as" "distinct as" "set as \<inter> live s = {}"
    using alloc_n_live[OF assms(1,2)] by auto
  have "set bs = set as" "distinct bs"
    using assms(3) a(3) by (metis set_mset_mset, metis mset_eq_imp_distinct_iff)
  then show ?thesis using free_all_live[of t bs] a by auto
qed

end

section \<open>Priority queues\<close>

text \<open>A priority queue whose deletion may fail; what it does hand out is a minimum.\<close>

locale priority_queue =
  fixes pq_inv :: "'q \<Rightarrow> bool"
    and elems :: "'q \<Rightarrow> 'e multiset"
    and key :: "'e \<Rightarrow> 'k::linorder"
    and get_min :: "'q \<Rightarrow> 'e"
    and del_min :: "'q \<Rightarrow> 'q option"
  assumes get_min: "pq_inv q \<Longrightarrow> elems q \<noteq> {#} \<Longrightarrow>
      get_min q \<in># elems q \<and> (\<forall>x \<in># elems q. key (get_min q) \<le> key x)"
    and del_min: "pq_inv q \<Longrightarrow> elems q \<noteq> {#} \<Longrightarrow> del_min q = Some r \<Longrightarrow>
      pq_inv r \<and> elems q = add_mset (get_min q) (elems r)"
begin

text \<open>The elements that up to \<open>n\<close> deletions hand out.\<close>

fun drain :: "nat \<Rightarrow> 'q \<Rightarrow> 'e list" where
  "drain 0 q = []"
| "drain (Suc n) q = (if elems q = {#} then []
     else get_min q # (case del_min q of None \<Rightarrow> [] | Some r \<Rightarrow> drain n r))"

lemma drain_sub: "pq_inv q \<Longrightarrow> mset (drain n q) \<subseteq># elems q"
proof (induction n arbitrary: q)
  case (Suc n)
  show ?case
  proof (cases "elems q = {#}")
    case False
    show ?thesis
    proof (cases "del_min q")
      case None
      then show ?thesis using get_min[OF Suc.prems False] False by simp
    next
      case (Some r)
      then show ?thesis using del_min[OF Suc.prems False Some] Suc.IH[of r] False by simp
    qed
  qed simp
qed simp

lemma drain_sorted: "pq_inv q \<Longrightarrow> sorted (map key (drain n q))"
proof (induction n arbitrary: q)
  case (Suc n)
  show ?case
  proof (cases "elems q = {#}")
    case False
    show ?thesis
    proof (cases "del_min q")
      case None
      then show ?thesis using False by simp
    next
      case (Some r)
      note d = del_min[OF Suc.prems False Some]
      have "key (get_min q) \<le> key x" if "x \<in> set (drain n r)" for x
        using get_min[OF Suc.prems False] drain_sub[of r n] d that
        by (metis mset_subset_eqD set_mset_mset union_iff add_mset_add_single)
      then show ?thesis using d Suc.IH[of r] Some False by auto
    qed
  qed simp
qed simp

end

lemma reach_rtranclp: "step\<^sup>*\<^sup>* s t \<Longrightarrow> reach init step s \<Longrightarrow> reach init step t"
  by (induction rule: rtranclp_induct) (auto intro: reach_step)

section \<open>The result monad\<close>

lemma bind_res_simps [simp, res_simps]:
  "bind_res (Ok x) f = f x"
  "bind_res (Fail e) f = Fail e"
  by (simp_all add: bind_res_def)

lemma bind_res_Ok_iff: "bind_res m f = Ok y \<longleftrightarrow> (\<exists>x. m = Ok x \<and> f x = Ok y)"
  by (cases m) auto

lemma bind_res_Fail_iff:
  "bind_res m f = Fail e \<longleftrightarrow> m = Fail e \<or> (\<exists>x. m = Ok x \<and> f x = Fail e)"
  by (cases m) auto

lemma bind_res_assoc: "bind_res (bind_res m f) g = bind_res m (\<lambda>x. bind_res (f x) g)"
  by (cases m) auto

lemma verify_simps [simp, res_simps]:
  "verify True msg k = k"
  "verify False msg k = Fail (Panic msg)"
  by (simp_all add: verify_def)

lemma verify_Ok_iff: "verify b msg k = Ok x \<longleftrightarrow> b \<and> k = Ok x"
  by (simp add: verify_def)

lemma nonnull_simps [simp, res_simps]:
  "nonnull 0 k = Fail NullDeref"
  "p \<noteq> 0 \<Longrightarrow> nonnull p k = k"
  by (simp_all add: nonnull_def)

lemma nonnull_Ok_iff: "nonnull p k = Ok x \<longleftrightarrow> p \<noteq> 0 \<and> k = Ok x"
  by (simp add: nonnull_def)

lemma is_ok_iff: "is_ok r \<longleftrightarrow> (\<exists>x. r = Ok x)"
  by (cases r) auto

lemma ends_simps [simp, res_simps]:
  "ends (Some x) = x"
  "ends None = Fail NoReturn"
  by (simp_all add: ends_def)

section \<open>Words\<close>

lemma unat_le_less_pow: "unat (x :: 'a::len word) < 2 ^ LENGTH('a)"
  by (rule unsigned_less)

lemma unat_u64_less: "unat (x :: u64) < 18446744073709551616"
  using unat_le_less_pow[of x] by simp

lemma unat_add_no_wrap:
  fixes a b :: "'a::len word"
  shows "unat a + unat b < 2 ^ LENGTH('a) \<Longrightarrow> unat (a + b) = unat a + unat b"
  by (simp add: unat_word_ariths(1))

lemma unat_sub_le:
  fixes a b :: "'a::len word"
  shows "b \<le> a \<Longrightarrow> unat (a - b) = unat a - unat b"
  by (rule unat_sub)

lemma unat_sub_wrap:
  fixes a b :: u64
  shows "unat a < unat b \<Longrightarrow> unat (a - b) = 2 ^ 64 + unat a - unat b"
  by (simp add: unat_sub_if')

lemma unat_of_nat_small:
  "n < 2 ^ LENGTH('a) \<Longrightarrow> unat (of_nat n :: 'a::len word) = n"
  by (simp add: unat_of_nat)

lemma word_add_of_nat_eq_iff:
  fixes a :: "'a::len word"
  assumes "i < 2 ^ LENGTH('a)" "j < 2 ^ LENGTH('a)"
  shows "a + of_nat i = a + of_nat j \<longleftrightarrow> i = j"
  using assms by (metis add_left_cancel unat_of_nat_small)

lemma word_offset:
  fixes a b :: "'a::len word"
  shows "a + of_nat (unat (b - a)) = b"
  by simp

lemma unat_inc: "(i :: u64) < n \<Longrightarrow> unat (i + 1) = Suc (unat i)"
  using unat_add_no_wrap[of i 1] unat_le_less_pow[of n] by (simp add: word_less_nat_alt)

lemma word_count_up [termination_simp]:
  "(i :: u64) < n \<Longrightarrow> unat n - unat (i + 1) < unat n - unat i"
  by (simp add: unat_inc word_less_nat_alt diff_less_mono2)

section \<open>Rounding\<close>

lemma and_not_mask:
  fixes x :: u64
  shows "x AND NOT (mask k) = push_bit k (drop_bit k x)"
  by (rule bit_word_eqI) (auto simp: bit_and_iff bit_not_iff bit_mask_iff bit_push_bit_iff bit_drop_bit_eq)

lemma unat_ALIGNDOWN:
  assumes "k < 64"
  shows "unat (ALIGNDOWN x (2 ^ k)) = unat x div 2 ^ k * 2 ^ k"
proof -
  have "(2 :: nat) ^ k < 2 ^ 64" using assms by (intro power_strict_increasing) simp_all
  then have p: "unat (2 ^ k :: u64) = 2 ^ k" using unat_of_nat_small[of "2 ^ k", where 'a = 64] by simp
  have "ALIGNDOWN x (2 ^ k) = push_bit k (drop_bit k x)"
    unfolding ALIGNDOWN_def and_not_mask[symmetric] mask_eq_decr_exp ..
  also have "unat \<dots> = (unat x div 2 ^ k * 2 ^ k) mod 2 ^ 64"
    by (simp add: push_bit_eq_mult drop_bit_eq_div unat_word_ariths(2) unat_div p)
  also have "\<dots> = unat x div 2 ^ k * 2 ^ k"
  proof (rule mod_less)
    have "unat x div 2 ^ k * 2 ^ k \<le> unat x" by simp
    also have "\<dots> < 2 ^ 64" using unat_le_less_pow[of x] by simp
    finally show "unat x div 2 ^ k * 2 ^ k < 2 ^ 64" .
  qed
  finally show ?thesis .
qed

lemma unat_ucast_u32: "unat (ucast (x :: u32) :: u64) = unat x"
  by (simp only: unsigned_ucast_eq) (rule take_bit_nat_eq_self, rule less_trans[OF unsigned_less], simp)

lemma sint_unat: "sint (x :: u64) = (if 2 ^ 63 \<le> unat x then int (unat x) - 2 ^ 64 else int (unat x))"
proof -
  have u: "uint x < 2 ^ 64" "0 \<le> uint x" using uint_lt2p[of x] by simp_all
  have "sint x = signed_take_bit 63 (uint x)" by (simp add: sint_uint)
  also have "\<dots> = take_bit 64 (uint x) - 2 ^ 64 * of_bool (bit (uint x) 63)"
    by (simp only: signed_take_bit_eq_take_bit_minus) simp
  also have "take_bit 64 (uint x) = uint x" using u by (simp add: take_bit_int_eq_self)
  also have "bit (uint x) 63 \<longleftrightarrow> 2 ^ 63 \<le> uint x"
  proof (cases "2 ^ 63 \<le> uint x")
    case True
    then have "uint x div 2 ^ 63 = 1" using u div_pos_geq[of "2 ^ 63" "uint x"] by simp
    then show ?thesis using True by (simp only: bit_iff_odd) simp
  next
    case False
    then have "uint x div 2 ^ 63 = 0" using u by simp
    then show ?thesis using False by (simp only: bit_iff_odd) simp
  qed
  finally have "sint x = uint x - 2 ^ 64 * of_bool (2 ^ 63 \<le> uint x)" .
  moreover have "2 ^ 63 \<le> unat x \<longleftrightarrow> 2 ^ 63 \<le> uint x" 
    by (simp only: unat_eq_nat_uint le_nat_iff[OF u(2)]) simp
  ultimately show ?thesis by simp
qed

end
