(* ===== verification/K_mutex.thy ===== *)
theory K_mutex
  imports Prelude
begin

text \<open>
  \<open>k_mutex.c\<close> and \<open>k_spinlock.c\<close>.  The operations are state transformers on the owner
  words of all locks, so that the components above can record which locks every path
  takes and gives back; taking a lock that is not free is \<open>Blocked\<close>.
  \<open>mutex_acquire_loop\<close> is the loop of the code, with its spinning and its \<open>sched_resched\<close> after
  every pass, and \<open>mutex_acquire\<close>, which the other components use, is that loop for a
  \<open>sched_resched\<close> that returns to the caller with nothing changed.  The second half is
  the interleaving model of \<open>mutex_acquire_dual\<close> and \<open>mutex_release_dual\<close>: any number of
  threads, one atomic exchange per step, between two of which any other thread may run.
\<close>

section \<open>Mutexes\<close>

text \<open>The kernel's mutexes: the five static ones, and those embedded in address spaces,
  processes, kernel objects (by table and index) and ports.\<close>

datatype lockid =
    PmMapLock | VmKernTableLock | KheapLock | PidBitmapLock | PortHashLock
  | AsLock u64 | ProcLock u64 | KobjLock u64 nat | PortLock u64

text \<open>\<open>mutex_owner l\<close> is the \<open>owner\<close> word (0 is \<open>NULL\<close>); \<open>current_process\<close> is \<open>CURRENT_PROCESS\<close> of the
  running processor, 0 before the scheduler starts.\<close>

record lock_state =
  mutex_owner :: "lockid \<Rightarrow> u64"
  current_process :: u64

definition STUB_THREAD :: u64 where
  "STUB_THREAD = 0xffef000000000000"

definition get_current_proc :: "'a lock_state_scheme \<Rightarrow> u64" where
  "get_current_proc s = (if current_process s \<noteq> 0 then current_process s else STUB_THREAD)"

definition mutex_init :: "lockid \<Rightarrow> 'a lock_state_scheme \<Rightarrow> 'a lock_state_scheme" where
  "mutex_init m s = s\<lparr>mutex_owner := (mutex_owner s)(m := 0)\<rparr>"

definition mutex_try_acquire :: "lockid \<Rightarrow> 'a lock_state_scheme \<Rightarrow> bool \<times> 'a lock_state_scheme" where
  "mutex_try_acquire m s =
     (if mutex_owner s m = 0
      then (True, s\<lparr>mutex_owner := (mutex_owner s)(m := get_current_proc s)\<rparr>)
      else (False, s))"

text \<open>The loop of \<open>mutex_acquire\<close>: up to \<open>MUTEX_ADAPTIVE_SPIN\<close> exchanges, then \<open>sched_resched\<close>, after a
  pass that succeeded too.  \<open>resched\<close> is what that call does before it comes back to the
  caller: other processes run, and may release the mutex.  The \<open>ASSERT\<close> is empty without
  \<open>_KDEBUG\<close>.\<close>

definition MUTEX_ADAPTIVE_SPIN :: nat where
  "MUTEX_ADAPTIVE_SPIN = 100"

primrec mutex_spin :: "nat \<Rightarrow> lockid \<Rightarrow> 'a lock_state_scheme \<Rightarrow> bool \<times> 'a lock_state_scheme" where
  "mutex_spin 0 m s = (False, s)"
| "mutex_spin (Suc n) m s =
     (case mutex_try_acquire m s of (True, s') \<Rightarrow> (True, s') | (False, s') \<Rightarrow> mutex_spin n m s')"

partial_function (option) mutex_acquire_loop ::
    "('a lock_state_scheme \<Rightarrow> 'a lock_state_scheme) \<Rightarrow> lockid \<Rightarrow> 'a lock_state_scheme \<Rightarrow>
     'a lock_state_scheme option" where
  "mutex_acquire_loop resched m s =
     (let r = mutex_spin MUTEX_ADAPTIVE_SPIN m s; s = resched (snd r)
      in if fst r then Some s else mutex_acquire_loop resched m s)"

text \<open>The loop when \<open>sched_resched\<close> picks the caller again, or scheduling is off: a mutex that is
  held is never given back.\<close>

definition mutex_acquire :: "lockid \<Rightarrow> 'a lock_state_scheme \<Rightarrow> 'a lock_state_scheme res" where
  "mutex_acquire m s =
     (case mutex_try_acquire m s of (True, s') \<Rightarrow> Ok s' | (False, _) \<Rightarrow> Fail Blocked)"

definition mutex_release :: "lockid \<Rightarrow> 'a lock_state_scheme \<Rightarrow> 'a lock_state_scheme res" where
  "mutex_release m s = (let
     ow = mutex_owner s m;
     s = s\<lparr>mutex_owner := (mutex_owner s)(m := 0)\<rparr>
   in verify (ow = get_current_proc s) ''invalid release'' (Ok s))"

text \<open>\<open>addr m\<close> is the address of the mutex, by which the two are ordered.\<close>

definition mutex_acquire_dual ::
    "(lockid \<Rightarrow> u64) \<Rightarrow> lockid \<Rightarrow> lockid \<Rightarrow> 'a lock_state_scheme \<Rightarrow> 'a lock_state_scheme res" where
  "mutex_acquire_dual addr m1 m2 s =
     (if addr m1 < addr m2
      then bind_res (mutex_acquire m1 s) (mutex_acquire m2)
      else bind_res (mutex_acquire m2 s) (mutex_acquire m1))"

definition mutex_release_dual ::
    "(lockid \<Rightarrow> u64) \<Rightarrow> lockid \<Rightarrow> lockid \<Rightarrow> 'a lock_state_scheme \<Rightarrow> 'a lock_state_scheme res" where
  "mutex_release_dual addr m1 m2 s =
     (if addr m1 < addr m2
      then bind_res (mutex_release m2 s) (mutex_release m1)
      else bind_res (mutex_release m1 s) (mutex_release m2))"

section \<open>Spinlocks\<close>

record spinlock =
  sl_locked :: bool
  sl_owner :: u64

text \<open>One processor's view: its number and its interrupt flag.\<close>

record cpu_state =
  cpu_id :: u64
  cpu_if :: bool

text \<open>\<open>kmemset(lock, 0, sizeof(lock))\<close> clears the eight bytes of a pointer's size, which is the
  \<open>locked\<close> word only.\<close>

definition spinlock_init :: "spinlock \<Rightarrow> spinlock" where
  "spinlock_init l = l\<lparr>sl_locked := False\<rparr>"

definition interrupt_save_flag :: "cpu_state \<Rightarrow> bool" where
  "interrupt_save_flag c = cpu_if c"

definition interrupt_enable_preemption :: "cpu_state \<Rightarrow> cpu_state" where
  "interrupt_enable_preemption c = c\<lparr>cpu_if := True\<rparr>"

definition interrupt_disable_preemption :: "cpu_state \<Rightarrow> cpu_state" where
  "interrupt_disable_preemption c = c\<lparr>cpu_if := False\<rparr>"

definition interrupt_load_flag :: "bool \<Rightarrow> cpu_state \<Rightarrow> cpu_state" where
  "interrupt_load_flag flag c =
     (if flag then interrupt_enable_preemption c else interrupt_disable_preemption c)"

definition spinlock_try_lock ::
    "spinlock \<Rightarrow> cpu_state \<Rightarrow> bool \<times> bool \<times> spinlock \<times> cpu_state" where
  "spinlock_try_lock l c = (let
     flag = interrupt_save_flag c;
     c = interrupt_disable_preemption c
   in if sl_locked l then (False, flag, l, interrupt_load_flag flag c)
      else (True, flag, l\<lparr>sl_locked := True, sl_owner := cpu_id c\<rparr>, c))"

definition spinlock_lock :: "spinlock \<Rightarrow> cpu_state \<Rightarrow> (bool \<times> spinlock \<times> cpu_state) res" where
  "spinlock_lock l c = (let
     flag = interrupt_save_flag c;
     c = interrupt_disable_preemption c
   in if sl_locked l then Fail Blocked
      else Ok (flag, l\<lparr>sl_locked := True, sl_owner := cpu_id c\<rparr>, c))"

definition spinlock_unlock :: "spinlock \<Rightarrow> bool \<Rightarrow> cpu_state \<Rightarrow> (spinlock \<times> cpu_state) res" where
  "spinlock_unlock l flag c =
     verify (sl_locked l) ''unlocking an unlocked lock''
       (verify (sl_owner l = cpu_id c) ''unlocking spinlock owned by another''
         (Ok (l\<lparr>sl_locked := False\<rparr>, interrupt_load_flag flag c)))"

section \<open>Threads that take two mutexes\<close>

text \<open>
  Threads and mutexes are identified by their addresses, which are never 0.  \<open>Fst\<close>: about
  to exchange the lower mutex; \<open>Snd\<close>: holds it and is about to exchange the higher one;
  \<open>Crit\<close>: holds both; \<open>Rel\<close>: has given the higher one back.
\<close>

datatype dual_pc = Idle | Fst | Snd | Crit | Rel

record dual_sys =
  d_owner :: "u64 \<Rightarrow> u64"
  d_pc :: "u64 \<Rightarrow> dual_pc"
  d_lo :: "u64 \<Rightarrow> u64"
  d_hi :: "u64 \<Rightarrow> u64"

definition dual_init :: "dual_sys \<Rightarrow> bool" where
  "dual_init s \<longleftrightarrow> (\<forall>l. d_owner s l = 0) \<and> (\<forall>t. d_pc s t = Idle)"

text \<open>The steps of a thread inside \<open>mutex_acquire_dual\<close> and \<open>mutex_release_dual\<close>.\<close>

inductive dual_move :: "u64 \<Rightarrow> dual_sys \<Rightarrow> dual_sys \<Rightarrow> bool" where
  dual_acquire1: "d_pc s t = Fst \<Longrightarrow> d_owner s (d_lo s t) = 0 \<Longrightarrow>
    dual_move t s (s\<lparr>d_pc := (d_pc s)(t := Snd), d_owner := (d_owner s)(d_lo s t := t)\<rparr>)"
| dual_acquire2: "d_pc s t = Snd \<Longrightarrow> d_owner s (d_hi s t) = 0 \<Longrightarrow>
    dual_move t s (s\<lparr>d_pc := (d_pc s)(t := Crit), d_owner := (d_owner s)(d_hi s t := t)\<rparr>)"
| dual_release1: "d_pc s t = Crit \<Longrightarrow>
    dual_move t s (s\<lparr>d_pc := (d_pc s)(t := Rel), d_owner := (d_owner s)(d_hi s t := 0)\<rparr>)"
| dual_release2: "d_pc s t = Rel \<Longrightarrow>
    dual_move t s (s\<lparr>d_pc := (d_pc s)(t := Idle), d_owner := (d_owner s)(d_lo s t := 0)\<rparr>)"

text \<open>A run: an idle thread calls \<open>mutex_acquire_dual\<close>, or one that is inside moves on.\<close>

inductive dual_step :: "dual_sys \<Rightarrow> dual_sys \<Rightarrow> bool" where
  dual_call: "t \<noteq> 0 \<Longrightarrow> d_pc s t = Idle \<Longrightarrow> m1 \<noteq> m2 \<Longrightarrow>
    dual_step s (s\<lparr>d_pc := (d_pc s)(t := Fst),
      d_lo := (d_lo s)(t := if m1 < m2 then m1 else m2),
      d_hi := (d_hi s)(t := if m1 < m2 then m2 else m1)\<rparr>)"
| dual_run: "dual_move t s s' \<Longrightarrow> dual_step s s'"

text \<open>The mutexes a thread holds, the one it asks for next, and the thread it waits for.\<close>

definition dual_held :: "dual_sys \<Rightarrow> u64 \<Rightarrow> u64 set" where
  "dual_held s t = (case d_pc s t of Idle \<Rightarrow> {} | Fst \<Rightarrow> {} | Snd \<Rightarrow> {d_lo s t}
     | Crit \<Rightarrow> {d_lo s t, d_hi s t} | Rel \<Rightarrow> {d_lo s t})"

definition asks_for :: "dual_sys \<Rightarrow> u64 \<Rightarrow> u64 option" where
  "asks_for s t = (case d_pc s t of Fst \<Rightarrow> Some (d_lo s t) | Snd \<Rightarrow> Some (d_hi s t) | _ \<Rightarrow> None)"

definition waits_for :: "dual_sys \<Rightarrow> u64 \<Rightarrow> u64 \<Rightarrow> bool" where
  "waits_for s t u \<longleftrightarrow> (case asks_for s t of Some l \<Rightarrow> l \<in> dual_held s u | None \<Rightarrow> False)"

definition dual_inv :: "dual_sys \<Rightarrow> bool" where
  "dual_inv s \<longleftrightarrow>
     (\<forall>t. d_pc s t \<noteq> Idle \<longrightarrow> t \<noteq> 0 \<and> d_lo s t < d_hi s t) \<and>
     (\<forall>t l. t \<noteq> 0 \<longrightarrow> (d_owner s l = t \<longleftrightarrow> l \<in> dual_held s t))"

section \<open>Lemmas\<close>

lemmas mutex_defs = mutex_acquire_def mutex_try_acquire_def mutex_release_def

lemma STUB_THREAD_nonzero [simp]: "STUB_THREAD \<noteq> 0"
  by (simp add: STUB_THREAD_def)

lemma get_current_proc_nonzero [simp]: "get_current_proc s \<noteq> 0"
  by (simp add: get_current_proc_def)

lemma get_current_proc_upd [simp]:
  "get_current_proc (s\<lparr>mutex_owner := f\<rparr>) = get_current_proc s"
  by (simp add: get_current_proc_def)

lemma mutex_acquire_free [simp]:
  "mutex_owner s m = 0 \<Longrightarrow>
     mutex_acquire m s = Ok (s\<lparr>mutex_owner := (mutex_owner s)(m := get_current_proc s)\<rparr>)"
  by (simp add: mutex_defs)

lemma mutex_acquire_busy [simp]: "mutex_owner s m \<noteq> 0 \<Longrightarrow> mutex_acquire m s = Fail Blocked"
  by (simp add: mutex_defs)

lemma mutex_acquire_Ok_iff:
  "mutex_acquire m s = Ok t \<longleftrightarrow>
     mutex_owner s m = 0 \<and> t = s\<lparr>mutex_owner := (mutex_owner s)(m := get_current_proc s)\<rparr>"
  by (auto simp: mutex_defs)

lemma mutex_release_own [simp]:
  "mutex_owner s m = get_current_proc s \<Longrightarrow>
     mutex_release m s = Ok (s\<lparr>mutex_owner := (mutex_owner s)(m := 0)\<rparr>)"
  by (simp add: mutex_defs)

lemma mutex_release_not_own [simp]:
  "mutex_owner s m \<noteq> get_current_proc s \<Longrightarrow> mutex_release m s = Fail (Panic ''invalid release'')"
  by (simp add: mutex_defs)

lemma mutex_release_Ok_iff:
  "mutex_release m s = Ok t \<longleftrightarrow>
     mutex_owner s m = get_current_proc s \<and> t = s\<lparr>mutex_owner := (mutex_owner s)(m := 0)\<rparr>"
  by (cases "mutex_owner s m = get_current_proc s") auto

lemma mutex_acquire_release:
  assumes "mutex_acquire m s = Ok t"
  shows "mutex_release m t = Ok s"
proof -
  from assms have "mutex_owner s m = 0" "t = s\<lparr>mutex_owner := (mutex_owner s)(m := get_current_proc s)\<rparr>"
    by (auto simp: mutex_acquire_Ok_iff)
  moreover have "(mutex_owner s)(m := 0) = mutex_owner s" using calculation(1) by auto
  ultimately show ?thesis by simp
qed

lemma mutex_acquire_dual_same: "mutex_acquire_dual addr m m s = Fail Blocked"
  by (cases "mutex_owner s m = 0") (simp_all add: mutex_acquire_dual_def)

lemma mutex_acquire_release_dual:
  assumes "mutex_acquire_dual addr m1 m2 s = Ok t"
  shows "mutex_release_dual addr m1 m2 t = Ok s"
proof (cases "addr m1 < addr m2")
  case True
  then obtain u where "mutex_acquire m1 s = Ok u" "mutex_acquire m2 u = Ok t"
    using assms by (auto simp: mutex_acquire_dual_def bind_res_Ok_iff)
  then show ?thesis
    using True by (simp add: mutex_release_dual_def mutex_acquire_release)
next
  case False
  then obtain u where "mutex_acquire m2 s = Ok u" "mutex_acquire m1 u = Ok t"
    using assms by (auto simp: mutex_acquire_dual_def bind_res_Ok_iff)
  then show ?thesis
    using False by (simp add: mutex_release_dual_def mutex_acquire_release)
qed

lemma spinlock_roundtrip:
  assumes "spinlock_lock l c = Ok (flag, l', c')"
  shows "spinlock_unlock l' flag c' = Ok (l'\<lparr>sl_locked := False\<rparr>, c)" and "\<not> cpu_if c'"
  using assms
  by (auto simp: spinlock_lock_def spinlock_unlock_def Let_def interrupt_load_flag_def
      interrupt_save_flag_def interrupt_enable_preemption_def interrupt_disable_preemption_def
      split: if_splits)

subsection \<open>The acquire loop\<close>

lemma mutex_spin_try: "0 < n \<Longrightarrow> mutex_spin n m s = mutex_try_acquire m s"
proof (induction n)
  case (Suc n)
  then show ?case by (cases n) (auto simp: mutex_try_acquire_def)
qed simp

lemma mutex_acquire_loop_unfold:
  "mutex_acquire_loop resched m s =
     (if mutex_owner s m = 0
      then Some (resched (s\<lparr>mutex_owner := (mutex_owner s)(m := get_current_proc s)\<rparr>))
      else mutex_acquire_loop resched m (resched s))"
  by (subst mutex_acquire_loop.simps)
    (simp add: mutex_spin_try MUTEX_ADAPTIVE_SPIN_def mutex_try_acquire_def)


lemma mutex_acquire_loop_SomeD:
  assumes "mutex_acquire_loop resched m s = Some t"
  shows "\<exists>n. mutex_owner ((resched ^^ n) s) m = 0"
proof (rule mutex_acquire_loop.raw_induct[where P = "\<lambda>resched m s t. \<exists>n. mutex_owner ((resched ^^ n) s) m = 0", OF _ assms])
  fix loop resched m s t
  assume 1: "\<And>resched m s t. loop resched m s = Some t \<Longrightarrow> \<exists>n. mutex_owner ((resched ^^ n) s) m = 0"
    "(let r = mutex_spin MUTEX_ADAPTIVE_SPIN m s; s = resched (snd r) in if fst r then Some s else loop resched m s) = Some t"
  show "\<exists>n. mutex_owner ((resched ^^ n) s) m = 0"
  proof (cases "mutex_owner s m = 0")
    case True
    then show ?thesis by (intro exI[of _ 0]) simp
  next
    case False
    then have "loop resched m (resched s) = Some t"
      using 1(2) by (simp add: mutex_spin_try MUTEX_ADAPTIVE_SPIN_def mutex_try_acquire_def)
    from 1(1)[OF this] obtain n where "mutex_owner ((resched ^^ n) (resched s)) m = 0" by blast
    then show ?thesis by (intro exI[of _ "Suc n"]) (simp add: funpow_swap1)
  qed
qed

lemma mutex_acquire_is_loop:
  "mutex_acquire m s = Ok t \<longleftrightarrow> mutex_acquire_loop (\<lambda>s. s) m s = Some t"
proof (cases "mutex_owner s m = 0")
  case True
  then show ?thesis by (subst mutex_acquire_loop_unfold) auto
next
  case False
  have "((\<lambda>s. s) ^^ n) s = s" for n by (induction n) auto
  then show ?thesis using False mutex_acquire_loop_SomeD[of "\<lambda>s. s" m s t] by auto
qed

subsection \<open>Mutual exclusion and absence of deadlock\<close>

inductive_cases dual_stepE: "dual_step s t"
inductive_cases dual_moveE: "dual_move t s s'"

lemmas dual_held_defs = dual_held_def asks_for_def waits_for_def

lemma dual_inv_init: "dual_init s \<Longrightarrow> dual_inv s"
  by (auto simp: dual_inv_def dual_init_def dual_held_def)

text \<open>A step of thread \<open>x\<close> keeps the invariant if the owner words change with what \<open>x\<close> holds.\<close>

lemma dual_inv_frame:
  assumes inv: "dual_inv s" and x: "x \<noteq> 0" "d_lo t x < d_hi t x"
    and same: "\<And>v. v \<noteq> x \<Longrightarrow> d_pc t v = d_pc s v \<and> d_lo t v = d_lo s v \<and> d_hi t v = d_hi s v"
    and own: "\<And>l. d_owner t l = (if l \<in> dual_held t x then x else if d_owner s l = x then 0 else d_owner s l)"
    and new: "\<And>l. l \<in> dual_held t x \<Longrightarrow> d_owner s l = 0 \<or> d_owner s l = x"
  shows "dual_inv t"
proof -
  have "dual_held t v = dual_held s v" if "v \<noteq> x" for v using same[OF that] by (simp add: dual_held_def split: dual_pc.split)
  moreover have "d_owner s l = v \<longleftrightarrow> l \<in> dual_held s v" if "v \<noteq> 0" for v l
    using inv that by (simp add: dual_inv_def)
  ultimately have "d_owner t l = v \<longleftrightarrow> l \<in> dual_held t v" if "v \<noteq> 0" for v l
    using that x(1) own[of l] new[of l] by (metis (full_types))
  moreover have "v \<noteq> 0 \<and> d_lo t v < d_hi t v" if "d_pc t v \<noteq> Idle" for v
    using that x same[of v] inv by (cases "v = x") (auto simp: dual_inv_def)
  ultimately show ?thesis by (simp add: dual_inv_def)
qed

lemma dual_inv_own:
  assumes "dual_inv s" "d_pc s x \<noteq> Idle"
  shows "x \<noteq> 0" "d_lo s x < d_hi s x" "d_owner s l = x \<longleftrightarrow> l \<in> dual_held s x"
  using assms by (auto simp: dual_inv_def)

lemma dual_inv_move:
  assumes "dual_inv s" "dual_move x s t"
  shows "dual_inv t"
  using assms(2)
proof (cases rule: dual_move.cases)
  case dual_acquire1
  with dual_inv_own[OF assms(1), of x] show ?thesis
    by (intro dual_inv_frame[OF assms(1), of x]) (auto simp: dual_held_def)
next
  case dual_acquire2
  with dual_inv_own[OF assms(1), of x] show ?thesis
    by (intro dual_inv_frame[OF assms(1), of x]) (auto simp: dual_held_def)
next
  case dual_release1
  with dual_inv_own[OF assms(1), of x] show ?thesis
    by (intro dual_inv_frame[OF assms(1), of x]) (auto simp: dual_held_def)
next
  case dual_release2
  with dual_inv_own[OF assms(1), of x] show ?thesis
    by (intro dual_inv_frame[OF assms(1), of x]) (auto simp: dual_held_def)
qed

lemma dual_inv_step:
  assumes "dual_inv s" "dual_step s t"
  shows "dual_inv t"
  using assms(2)
proof (cases rule: dual_step.cases)
  case (dual_call x m1 m2)
  then have "d_owner s l \<noteq> x" for l using assms(1) by (auto simp: dual_inv_def dual_held_def)
  with dual_call show ?thesis by (intro dual_inv_frame[OF assms(1), of x]) (auto simp: dual_held_def)
qed (rule dual_inv_move[OF assms(1)])

interpretation dual: inductive_invariant dual_init dual_step dual_inv
  by unfold_locales (fact dual_inv_init, fact dual_inv_step)

lemma held_owner: "dual_inv s \<Longrightarrow> l \<in> dual_held s t \<Longrightarrow> d_owner s l = t"
  by (cases "d_pc s t = Idle") (auto simp: dual_inv_own(3) dual_held_def)

lemma owner_held: "dual_inv s \<Longrightarrow> d_owner s l \<noteq> 0 \<Longrightarrow> l \<in> dual_held s (d_owner s l)"
  by (auto simp: dual_inv_def)

text \<open>A thread either moves or waits for one that holds the mutex it asks for.\<close>

lemma dual_move_or_wait:
  assumes "dual_inv s" "d_pc s t \<noteq> Idle"
  shows "(\<exists>s'. dual_move t s s') \<or> (\<exists>u. waits_for s t u)"
proof (cases "asks_for s t")
  case None
  then show ?thesis using assms(2)
    by (auto simp: asks_for_def split: dual_pc.splits intro: dual_release1 dual_release2)
next
  case (Some l)
  show ?thesis
  proof (cases "d_owner s l = 0")
    case True
    then show ?thesis using Some
      by (auto simp: asks_for_def split: dual_pc.splits intro: dual_acquire1 dual_acquire2)
  next
    case False
    then show ?thesis using owner_held[OF assms(1)] Some by (auto simp: waits_for_def)
  qed
qed

text \<open>The mutexes asked for go up along a chain of waits, so that it cannot close.\<close>

lemma waits_for_up:
  assumes "dual_inv s" "waits_for s t u" "asks_for s t = Some l" "asks_for s u = Some l'"
  shows "l < l'"
  using assms by (auto simp: dual_held_defs dual_inv_def split: dual_pc.splits)

lemma waits_chain_up:
  assumes "(waits_for s)\<^sup>+\<^sup>+ t u" "dual_inv s" "asks_for s t = Some l" "asks_for s u = Some l'"
  shows "l < l'"
  using assms
proof (induction arbitrary: l' rule: tranclp_induct)
  case (base u)
  then show ?case by (blast intro: waits_for_up)
next
  case (step u v)
  then obtain k where k: "asks_for s u = Some k" by (auto simp: waits_for_def split: option.splits)
  then have "l < k" using step by blast
  also have "k < l'" using waits_for_up[OF step.prems(1) step.hyps(2) k step.prems(3)] .
  finally show ?case .
qed

lemma waits_acyclic:
  assumes "dual_inv s"
  shows "\<not> (waits_for s)\<^sup>+\<^sup>+ t t"
proof
  assume c: "(waits_for s)\<^sup>+\<^sup>+ t t"
  then obtain u where "waits_for s t u" by (blast dest: tranclpD)
  then obtain l where "asks_for s t = Some l" by (auto simp: waits_for_def split: option.splits)
  with waits_chain_up[OF c assms] show False by blast
qed

lemma waits_chain_ends:
  assumes inv: "dual_inv s" and t: "d_pc s t \<noteq> Idle"
  shows "\<exists>u s'. (waits_for s)\<^sup>*\<^sup>* t u \<and> dual_move u s s'"
  using t
proof (induction "case asks_for s t of Some l \<Rightarrow> 2 ^ 64 - unat l | None \<Rightarrow> 0" arbitrary: t rule: less_induct)
  case less
  from dual_move_or_wait[OF inv less.prems] show ?case
  proof (elim disjE exE)
    fix u assume w: "waits_for s t u"
    then obtain l where l: "asks_for s t = Some l" "l \<in> dual_held s u"
      by (auto simp: waits_for_def split: option.splits)
    then have u: "d_pc s u \<noteq> Idle" by (auto simp: dual_held_def)
    show ?case
    proof (cases "asks_for s u")
      case None
      then have "\<exists>s'. dual_move u s s'" using dual_move_or_wait[OF inv u] by (simp add: waits_for_def)
      then show ?thesis using w by blast
    next
      case (Some k)
      have "l < k" using waits_for_up[OF inv w l(1) Some] .
      moreover have "unat k < 2 ^ 64" using unsigned_less[of k] by simp
      ultimately have "2 ^ 64 - unat k < 2 ^ 64 - unat l" by (simp add: word_less_nat_alt)
      then have "\<exists>v s'. (waits_for s)\<^sup>*\<^sup>* u v \<and> dual_move v s s'"
        using less.hyps[of u] l(1) Some u by simp
      then show ?thesis using w by (meson converse_rtranclp_into_rtranclp)
    qed
  qed blast
qed

section \<open>Properties\<close>

text \<open>The witness run: thread 8 has mutexes 16 and 24, thread 10 has 32 and 40, and thread 9 has
  12 and waits for 16.\<close>

definition demo_dual :: dual_sys where
  "demo_dual = \<lparr>d_owner = (\<lambda>_. 0), d_pc = (\<lambda>_. Idle), d_lo = (\<lambda>_. 0), d_hi = (\<lambda>_. 0)\<rparr>"

definition demo_dual_crit :: dual_sys where
  "demo_dual_crit = \<lparr>d_owner = (\<lambda>_. 0)(16 := 8, 24 := 8, 32 := 10, 40 := 10, 12 := 9),
     d_pc = (\<lambda>_. Idle)(8 := Crit, 10 := Crit, 9 := Snd),
     d_lo = (\<lambda>_. 0)(8 := 16, 10 := 32, 9 := 12), d_hi = (\<lambda>_. 0)(8 := 24, 10 := 40, 9 := 16)\<rparr>"

lemma dual_enter:
  assumes "reach dual_init dual_step s" "t \<noteq> 0" "d_pc s t = Idle" "m1 < m2" "d_owner s m1 = 0"
  shows "reach dual_init dual_step (s\<lparr>d_lo := (d_lo s)(t := m1), d_hi := (d_hi s)(t := m2),
    d_pc := (d_pc s)(t := Snd), d_owner := (d_owner s)(m1 := t)\<rparr>)" (is "reach _ _ ?u")
proof -
  let ?s = "s\<lparr>d_pc := (d_pc s)(t := Fst), d_lo := (d_lo s)(t := m1), d_hi := (d_hi s)(t := m2)\<rparr>"
  have "dual_step s ?s" using dual_call[of t s m1 m2] assms by (simp add: not_less_iff_gr_or_eq)
  moreover have "dual_move t ?s ?u" using dual_acquire1[of ?s t] assms by simp
  ultimately show ?thesis by (meson assms(1) reach_step dual_run)
qed

lemma dual_enter2:
  assumes "reach dual_init dual_step s" "d_pc s t = Snd" "d_owner s (d_hi s t) = 0"
  shows "reach dual_init dual_step
    (s\<lparr>d_pc := (d_pc s)(t := Crit), d_owner := (d_owner s)(d_hi s t := t)\<rparr>)"
  by (rule reach_step[OF assms(1) dual_run[OF dual_acquire2[OF assms(2,3)]]])

lemma demo_dual_reach: "reach dual_init dual_step demo_dual_crit"
proof -
  have 0: "reach dual_init dual_step demo_dual"
    by (rule reach_init) (simp add: dual_init_def demo_dual_def)
  note 1 = dual_enter[OF 0, of 8 16 24]
  note 2 = dual_enter2[OF 1, of 8]
  note 3 = dual_enter[OF 2, of 10 32 40]
  note 4 = dual_enter2[OF 3, of 10]
  note 5 = dual_enter[OF 4, of 9 12 16]
  show ?thesis using 5 by (simp add: demo_dual_def demo_dual_crit_def)
qed

text \<open>C5: however the threads interleave, no mutex is held by two threads at the same time; a
  thread between its \<open>mutex_acquire_dual\<close> and its \<open>mutex_release_dual\<close> holds both of its mutexes,
  and their owner words name it.\<close>

theorem dual_mutual_exclusion:
  assumes "reach dual_init dual_step s"
  shows "(t \<noteq> u \<longrightarrow> dual_held s t \<inter> dual_held s u = {}) \<and>
    (d_pc s t = Crit \<longrightarrow>
       dual_held s t = {d_lo s t, d_hi s t} \<and> d_owner s (d_lo s t) = t \<and> d_owner s (d_hi s t) = t)"
proof (intro conjI impI)
  note own = held_owner[OF dual.reach_inv[OF assms]]
  show "dual_held s t \<inter> dual_held s u = {}" if "t \<noteq> u" using own that by blast
  assume "d_pc s t = Crit"
  then show h: "dual_held s t = {d_lo s t, d_hi s t}" by (simp add: dual_held_def)
  show "d_owner s (d_lo s t) = t" "d_owner s (d_hi s t) = t" using own[of "d_lo s t" t] own[of "d_hi s t" t] h by simp_all
qed

theorem dual_mutual_exclusion_witness:
  "reach dual_init dual_step demo_dual_crit \<and> d_pc demo_dual_crit 8 = Crit \<and> d_pc demo_dual_crit 10 = Crit \<and>
   dual_held demo_dual_crit 8 \<inter> dual_held demo_dual_crit 10 = {} \<and> dual_held demo_dual_crit 8 = {16, 24} \<and>
   dual_held demo_dual_crit 8 \<inter> dual_held demo_dual_crit 9 = {} \<and> dual_held demo_dual_crit 9 = {12}"
  using demo_dual_reach dual_mutual_exclusion[OF demo_dual_reach, of 8 10]
    dual_mutual_exclusion[OF demo_dual_reach, of 8 9]
  by (simp add: demo_dual_crit_def dual_held_def)

text \<open>C6: the address order of \<open>mutex_acquire_dual\<close>, called with two different mutexes, excludes deadlock: no set of threads waits for
  each other in a circle, and from every thread that is between its call and its last release the
  chain of waits leads to a thread, itself between its call and its last release, that can move on.\<close>

theorem dual_no_deadlock:
  assumes "reach dual_init dual_step s"
  shows "\<not> (waits_for s)\<^sup>+\<^sup>+ t t \<and>
    (d_pc s t \<noteq> Idle \<longrightarrow> (\<exists>u s'. (waits_for s)\<^sup>*\<^sup>* t u \<and> d_pc s u \<noteq> Idle \<and> dual_move u s s'))"
proof (intro conjI impI)
  note inv = dual.reach_inv[OF assms]
  show "\<not> (waits_for s)\<^sup>+\<^sup>+ t t" by (rule waits_acyclic[OF inv])
  assume "d_pc s t \<noteq> Idle"
  then show "\<exists>u s'. (waits_for s)\<^sup>*\<^sup>* t u \<and> d_pc s u \<noteq> Idle \<and> dual_move u s s'"
    using waits_chain_ends[OF inv] by (metis dual_moveE dual_pc.distinct(1,3,5,7))
qed

theorem dual_no_deadlock_witness:
  "waits_for demo_dual_crit 9 8 \<and> \<not> (waits_for demo_dual_crit)\<^sup>+\<^sup>+ 9 9 \<and>
   (\<exists>u s'. (waits_for demo_dual_crit)\<^sup>*\<^sup>* 9 u \<and> d_pc demo_dual_crit u \<noteq> Idle \<and> dual_move u demo_dual_crit s')"
proof -
  have "waits_for demo_dual_crit 9 8" "d_pc demo_dual_crit 9 \<noteq> Idle"
    by (simp_all add: demo_dual_crit_def dual_held_defs)
  then show ?thesis using dual_no_deadlock[OF demo_dual_reach, of 9] by blast
qed





end
