(* ===== verification/K_pma.thy ===== *)
theory K_pma
  imports K_mutex
begin

text \<open>
  Physical memory allocation (\<open>k_memory.c\<close>, first part): one byte of reference count per
  2 MB frame.  The sequential operations are state transformers; \<open>pma_step\<close> is the
  interleaving of several processors inside the lock-free \<open>pma_alloc\<close>.
\<close>

section \<open>State\<close>

definition KMEM_PAGE_SIZE :: u64 where
  "KMEM_PAGE_SIZE = 2097152"

definition PM_MAP_ELEMENTS :: nat where
  "PM_MAP_ELEMENTS = 4194304"

text \<open>Entries of \<open>pm_map\<close> from \<open>PM_MAP_ELEMENTS\<close> on stand for whatever follows the array in
  memory.\<close>

record pma_state = lock_state +
  pm_map :: "nat \<Rightarrow> u8"
  pm_upper_limit :: u64

definition pm_fill :: "nat \<Rightarrow> nat \<Rightarrow> u8 \<Rightarrow> (nat \<Rightarrow> u8) \<Rightarrow> nat \<Rightarrow> u8" where
  "pm_fill base n c pm = (\<lambda>i. if base \<le> i \<and> i < base + n then c else pm i)"

section \<open>Set-up\<close>

definition pma_init :: "'a pma_state_scheme \<Rightarrow> 'a pma_state_scheme" where
  "pma_init s = (let s = mutex_init PmMapLock s
     in s\<lparr>pm_map := pm_fill 0 PM_MAP_ELEMENTS 0xff (pm_map s)\<rparr>)"

definition pma_mark_usable :: "u64 \<Rightarrow> u64 \<Rightarrow> 'a pma_state_scheme \<Rightarrow> 'a pma_state_scheme" where
  "pma_mark_usable base sz s = (let
     s = (if base + sz > pm_upper_limit s then s\<lparr>pm_upper_limit := base + sz\<rparr> else s);
     base = base div KMEM_PAGE_SIZE;
     sz = sz div KMEM_PAGE_SIZE
   in s\<lparr>pm_map := pm_fill (unat base) (unat sz) 0 (pm_map s)\<rparr>)"

definition pma_mark_reserved :: "u64 \<Rightarrow> u64 \<Rightarrow> 'a pma_state_scheme \<Rightarrow> 'a pma_state_scheme" where
  "pma_mark_reserved base sz s = (let
     s = (if base + sz > pm_upper_limit s then s\<lparr>pm_upper_limit := base + sz\<rparr> else s);
     base = base div KMEM_PAGE_SIZE;
     sz = DIV_CEIL sz KMEM_PAGE_SIZE
   in s\<lparr>pm_map := pm_fill (unat base) (unat sz) 0xff (pm_map s)\<rparr>)"

section \<open>Reference counts\<close>

fun pm_add_loop :: "nat \<Rightarrow> u8 \<Rightarrow> nat \<Rightarrow> (nat \<Rightarrow> u8) \<Rightarrow> nat \<Rightarrow> u8" where
  "pm_add_loop 0 d i pm = pm"
| "pm_add_loop (Suc n) d i pm = pm_add_loop n d (Suc i) (pm(i := pm i + d))"

definition pma_inc_ref_count :: "u64 \<Rightarrow> u64 \<Rightarrow> 'a pma_state_scheme \<Rightarrow> 'a pma_state_scheme" where
  "pma_inc_ref_count base sz s = (let
     base = base div KMEM_PAGE_SIZE; sz = sz div KMEM_PAGE_SIZE
   in s\<lparr>pm_map := pm_add_loop (unat sz) 1 (unat base) (pm_map s)\<rparr>)"

definition pma_dec_ref_count :: "u64 \<Rightarrow> u64 \<Rightarrow> 'a pma_state_scheme \<Rightarrow> 'a pma_state_scheme" where
  "pma_dec_ref_count base sz s = (let
     base = base div KMEM_PAGE_SIZE; sz = sz div KMEM_PAGE_SIZE
   in s\<lparr>pm_map := pm_add_loop (unat sz) (-1) (unat base) (pm_map s)\<rparr>)"

definition pma_free :: "u64 \<Rightarrow> u64 \<Rightarrow> 'a pma_state_scheme \<Rightarrow> 'a pma_state_scheme" where
  "pma_free base sz s = pma_dec_ref_count base sz s"

section \<open>Allocation\<close>

text \<open>The inner loop of \<open>pma_alloc_contiguous\<close>: are the \<open>n\<close> frames from \<open>j\<close> all free?\<close>

fun pm_run_free :: "(nat \<Rightarrow> u8) \<Rightarrow> nat \<Rightarrow> nat \<Rightarrow> bool" where
  "pm_run_free pm j 0 = True"
| "pm_run_free pm j (Suc n) = (if pm j \<noteq> 0 then False else pm_run_free pm (Suc j) n)"

function pm_find_run :: "(nat \<Rightarrow> u8) \<Rightarrow> nat \<Rightarrow> nat \<Rightarrow> nat option" where
  "pm_find_run pm page_count i =
     (if i < PM_MAP_ELEMENTS - page_count
      then if pm i \<noteq> 0 then pm_find_run pm page_count (Suc i)
           else if pm_run_free pm i page_count then Some i
           else pm_find_run pm page_count (Suc i)
      else None)"
  by pat_completeness auto
termination
  by (relation "measure (\<lambda>(m, n, i). PM_MAP_ELEMENTS - n - i)") auto

definition pma_alloc_contiguous ::
    "u64 \<Rightarrow> 'a pma_state_scheme \<Rightarrow> (u64 \<times> 'a pma_state_scheme) res" where
  "pma_alloc_contiguous sz s = (let
     page_count = DIV_CEIL sz KMEM_PAGE_SIZE
   in if page_count > of_nat PM_MAP_ELEMENTS then Ok (0, s)
      else bind_res (mutex_acquire PmMapLock s) (\<lambda>s.
        case pm_find_run (pm_map s) (unat page_count) 0 of
          Some i \<Rightarrow> (let s = s\<lparr>pm_map := pm_fill i (unat page_count) 1 (pm_map s)\<rparr>
            in bind_res (mutex_release PmMapLock s) (\<lambda>s. Ok (of_nat i * KMEM_PAGE_SIZE, s)))
        | None \<Rightarrow> bind_res (mutex_release PmMapLock s) (\<lambda>s. Ok (0, s))))"

text \<open>The search for the first free frame, shared by the locked and the lock-free version.\<close>

function pm_find_free :: "(nat \<Rightarrow> u8) \<Rightarrow> nat \<Rightarrow> nat option" where
  "pm_find_free pm i =
     (if i < PM_MAP_ELEMENTS
      then if pm i \<noteq> 0 then pm_find_free pm (Suc i) else Some i
      else None)"
  by pat_completeness auto
termination
  by (relation "measure (\<lambda>(m, i). PM_MAP_ELEMENTS - i)") auto

text \<open>On success the lock is still held when \<open>_pma_alloc_locked\<close> returns.\<close>

definition pma_alloc_locked :: "'a pma_state_scheme \<Rightarrow> (u64 \<times> 'a pma_state_scheme) res" where
  "pma_alloc_locked s = bind_res (mutex_acquire PmMapLock s) (\<lambda>s.
     case pm_find_free (pm_map s) 0 of
       Some i \<Rightarrow> Ok (of_nat i * KMEM_PAGE_SIZE, s\<lparr>pm_map := (pm_map s)(i := pm_map s i + 1)\<rparr>)
     | None \<Rightarrow> bind_res (mutex_release PmMapLock s) (\<lambda>s. Ok (0, s)))"

definition pma_alloc :: "'a pma_state_scheme \<Rightarrow> (u64 \<times> 'a pma_state_scheme) res" where
  "pma_alloc s = (case pm_find_free (pm_map s) 0 of
     Some i \<Rightarrow> (let
       v = pm_map s i + 1;
       s = s\<lparr>pm_map := (pm_map s)(i := v)\<rparr>;
       s = (if v \<noteq> 1 then s\<lparr>pm_map := (pm_map s)(i := pm_map s i - 1)\<rparr> else s)
     in Ok (of_nat i * KMEM_PAGE_SIZE, s))
   | None \<Rightarrow> pma_alloc_locked s)"

section \<open>Several processors in \<open>pma_alloc\<close>\<close>

text \<open>\<open>Scanning i\<close>: about to read \<open>pm_map[i]\<close>; \<open>Claiming i\<close>: has read 0 there and is about to
  increment it; \<open>Undoing i\<close>: its increment did not give 1; \<open>Returned i\<close>: has returned frame
  \<open>i\<close>.\<close>

datatype pma_pc = Scanning nat | Claiming nat | Undoing nat | Returned nat

record pma_sys =
  ps_map :: "nat \<Rightarrow> u8"
  ps_pc :: "nat \<Rightarrow> pma_pc"

inductive pma_step :: "pma_sys \<Rightarrow> pma_sys \<Rightarrow> bool" where
  pma_skip: "ps_pc s t = Scanning i \<Longrightarrow> i < PM_MAP_ELEMENTS \<Longrightarrow> ps_map s i \<noteq> 0 \<Longrightarrow>
    pma_step s (s\<lparr>ps_pc := (ps_pc s)(t := Scanning (Suc i))\<rparr>)"
| pma_see_free: "ps_pc s t = Scanning i \<Longrightarrow> i < PM_MAP_ELEMENTS \<Longrightarrow> ps_map s i = 0 \<Longrightarrow>
    pma_step s (s\<lparr>ps_pc := (ps_pc s)(t := Claiming i)\<rparr>)"
| pma_inc: "ps_pc s t = Claiming i \<Longrightarrow>
    pma_step s (s\<lparr>ps_map := (ps_map s)(i := ps_map s i + 1),
      ps_pc := (ps_pc s)(t := if ps_map s i + 1 \<noteq> 1 then Undoing i else Returned i)\<rparr>)"
| pma_undo: "ps_pc s t = Undoing i \<Longrightarrow>
    pma_step s (s\<lparr>ps_map := (ps_map s)(i := ps_map s i - 1),
      ps_pc := (ps_pc s)(t := Returned i)\<rparr>)"

definition pma_sys_init :: "(nat \<Rightarrow> u8) \<Rightarrow> pma_sys \<Rightarrow> bool" where
  "pma_sys_init pm s \<longleftrightarrow> ps_map s = pm \<and> (\<forall>t. ps_pc s t = Scanning 0)"

section \<open>Lemmas\<close>

declare pm_find_run.simps [simp del] pm_find_free.simps [simp del]

lemma KMEM_PAGE_SIZE_nat: "unat KMEM_PAGE_SIZE = 2097152"
  by (simp add: KMEM_PAGE_SIZE_def)

lemma pm_find_free_Some:
  "pm_find_free pm i = Some j \<Longrightarrow> i \<le> j \<and> j < PM_MAP_ELEMENTS \<and> pm j = 0 \<and> (\<forall>k. i \<le> k \<and> k < j \<longrightarrow> pm k \<noteq> 0)"
proof (induction pm i rule: pm_find_free.induct)
  case (1 pm i)
  show ?case
  proof (cases "i < PM_MAP_ELEMENTS \<and> pm i \<noteq> 0")
    case True
    then have "pm_find_free pm (Suc i) = Some j"
      using "1.prems" by (simp add: pm_find_free.simps[of pm i])
    then have "Suc i \<le> j \<and> j < PM_MAP_ELEMENTS \<and> pm j = 0 \<and> (\<forall>k. Suc i \<le> k \<and> k < j \<longrightarrow> pm k \<noteq> 0)"
      using "1.IH" True by blast
    then show ?thesis using True by (metis Suc_leI le_neq_implies_less Suc_leD)
  next
    case False
    then show ?thesis using "1.prems" by (auto simp: pm_find_free.simps[of pm i] split: if_splits)
  qed
qed

lemma pm_find_free_None:
  "pm_find_free pm i = None \<longleftrightarrow> (\<forall>k. i \<le> k \<and> k < PM_MAP_ELEMENTS \<longrightarrow> pm k \<noteq> 0)"
proof (induction pm i rule: pm_find_free.induct)
  case (1 pm i)
  show ?case
  proof (cases "i < PM_MAP_ELEMENTS \<and> pm i \<noteq> 0")
    case True
    then have "pm_find_free pm i = pm_find_free pm (Suc i)" by (simp add: pm_find_free.simps[of pm i])
    with "1.IH" True show ?thesis by (metis Suc_leD Suc_leI le_neq_implies_less)
  next
    case False
    then show ?thesis by (auto simp: pm_find_free.simps[of pm i])
  qed
qed

lemma pm_run_free_iff: "pm_run_free pm j n \<longleftrightarrow> (\<forall>k. j \<le> k \<and> k < j + n \<longrightarrow> pm k = 0)"
proof (induction n arbitrary: j)
  case (Suc n)
  then show ?case by (auto simp: Suc_le_eq) (metis le_neq_implies_less add_Suc_right)
qed auto

lemma pm_find_run_Some:
  "pm_find_run pm n i = Some j \<Longrightarrow>
     i \<le> j \<and> j + n < PM_MAP_ELEMENTS \<and> pm_run_free pm j n"
proof (induction pm n i rule: pm_find_run.induct)
  case (1 pm n i)
  show ?case
  proof (cases "i < PM_MAP_ELEMENTS - n")
    case True
    show ?thesis
    proof (cases "pm i = 0 \<and> pm_run_free pm i n")
      case hit: True
      then show ?thesis using "1.prems" True by (simp add: pm_find_run.simps[of pm n i])
    next
      case False
      then have "pm_find_run pm n (Suc i) = Some j"
        using "1.prems" True by (auto simp: pm_find_run.simps[of pm n i] split: if_splits)
      then show ?thesis using "1.IH" True False by (metis Suc_leD)
    qed
  next
    case False
    then show ?thesis using "1.prems" by (simp add: pm_find_run.simps[of pm n i])
  qed
qed

lemma pm_add_loop_eq:
  "pm_add_loop n d i pm = (\<lambda>k. if i \<le> k \<and> k < i + n then pm k + d else pm k)"
  by (induction n arbitrary: i pm) (auto simp: fun_eq_iff)

text \<open>The effect of \<open>pma_alloc\<close>: the first free frame, its count set to 1.\<close>

lemma pma_alloc_some:
  assumes "pm_find_free (pm_map s) 0 = Some i"
  shows "pma_alloc s = Ok (of_nat i * KMEM_PAGE_SIZE, s\<lparr>pm_map := (pm_map s)(i := 1)\<rparr>)"
  using pm_find_free_Some[OF assms] by (simp add: pma_alloc_def assms Let_def)

lemma pma_alloc_none:
  assumes "pm_find_free (pm_map s) 0 = None"
  shows "pma_alloc s = (if mutex_owner s PmMapLock = 0 then Ok (0, s) else Fail Blocked)"
proof -
  have "(mutex_owner s)(PmMapLock := 0) = mutex_owner s" if "mutex_owner s PmMapLock = 0"
    using that by auto
  then show ?thesis by (simp add: pma_alloc_def pma_alloc_locked_def assms)
qed

lemma frame_addr:
  assumes "i < PM_MAP_ELEMENTS"
  shows "unat (of_nat i * KMEM_PAGE_SIZE) = i * 2097152"
    and "of_nat i * KMEM_PAGE_SIZE div KMEM_PAGE_SIZE = of_nat i"
    and "unat (of_nat i :: u64) = i"
proof -
  show i: "unat (of_nat i :: u64) = i" using assms by (simp add: PM_MAP_ELEMENTS_def unat_of_nat)
  show u: "unat (of_nat i * KMEM_PAGE_SIZE) = i * 2097152"
    using assms i by (simp add: unat_word_ariths(2) KMEM_PAGE_SIZE_nat PM_MAP_ELEMENTS_def)
  have "unat (of_nat i * KMEM_PAGE_SIZE div KMEM_PAGE_SIZE) = unat (of_nat i :: u64)"
    by (simp add: unat_div u i KMEM_PAGE_SIZE_nat)
  then show "of_nat i * KMEM_PAGE_SIZE div KMEM_PAGE_SIZE = of_nat i" by (simp only: word_unat_eq_iff)
qed

lemma frame_addr_inj:
  assumes "i < PM_MAP_ELEMENTS" "j < PM_MAP_ELEMENTS"
  shows "(of_nat i * KMEM_PAGE_SIZE = of_nat j * KMEM_PAGE_SIZE) \<longleftrightarrow> i = j"
proof
  assume "of_nat i * KMEM_PAGE_SIZE = of_nat j * KMEM_PAGE_SIZE"
  then have "unat (of_nat i * KMEM_PAGE_SIZE) = unat (of_nat j * KMEM_PAGE_SIZE)" by (rule arg_cong)
  then show "i = j" unfolding frame_addr(1)[OF assms(1)] frame_addr(1)[OF assms(2)] by linarith
qed (rule arg_cong)

lemma frame_addr_nonzero:
  assumes "i < PM_MAP_ELEMENTS" "i \<noteq> 0"
  shows "of_nat i * KMEM_PAGE_SIZE \<noteq> 0"
proof
  assume "of_nat i * KMEM_PAGE_SIZE = 0"
  then have "unat (of_nat i * KMEM_PAGE_SIZE) = unat (0 :: u64)" by (rule arg_cong)
  then show False unfolding frame_addr(1)[OF assms(1)] using assms(2) by simp
qed

text \<open>What a caller sees: no frame, and at most frame 0 lost; or a frame that was free.\<close>

lemma pma_alloc_cases:
  assumes "pma_alloc s = Ok (r, t)"
  obtains (none) pm where "r = 0" "t = s\<lparr>pm_map := pm\<rparr>" "\<And>i. pm_map s i \<noteq> 0 \<Longrightarrow> pm i = pm_map s i"
  | (some) i where "i < PM_MAP_ELEMENTS" "i \<noteq> 0" "pm_map s i = 0" "r = of_nat i * KMEM_PAGE_SIZE" "r \<noteq> 0"
      "t = s\<lparr>pm_map := (pm_map s)(i := 1)\<rparr>"
proof (cases "pm_find_free (pm_map s) 0")
  case None
  then have "r = 0" "t = s" using assms pma_alloc_none[OF None] by (simp_all split: if_splits)
  then show thesis using none[of "pm_map s"] by simp
next
  case (Some i)
  have i: "i < PM_MAP_ELEMENTS" "pm_map s i = 0" using pm_find_free_Some[OF Some] by simp_all
  have r: "r = of_nat i * KMEM_PAGE_SIZE" "t = s\<lparr>pm_map := (pm_map s)(i := 1)\<rparr>"
    using assms pma_alloc_some[OF Some] by simp_all
  show thesis
  proof (cases "i = 0")
    case True
    have "((pm_map s)(i := 1)) j = pm_map s j" if "pm_map s j \<noteq> 0" for j
      using that i(2) by (cases "j = i") simp_all
    with True r show thesis by (intro none[of "(pm_map s)(i := 1)"]) simp_all
  next
    case False
    then show thesis using r i frame_addr_nonzero[OF i(1) False] some[of i] by metis
  qed
qed

lemma pma_free_frame:
  assumes "i < PM_MAP_ELEMENTS"
  shows "pma_free (of_nat i * KMEM_PAGE_SIZE) KMEM_PAGE_SIZE s
    = s\<lparr>pm_map := (pm_map s)(i := pm_map s i - 1)\<rparr>"
proof -
  have "pm_add_loop 1 (-1) i (pm_map s) = (pm_map s)(i := pm_map s i - 1)" by simp
  moreover have "KMEM_PAGE_SIZE div KMEM_PAGE_SIZE = 1" by (simp add: KMEM_PAGE_SIZE_def)
  ultimately show ?thesis
    using assms by (simp add: pma_free_def pma_dec_ref_count_def frame_addr Let_def)
qed

section \<open>The frame allocator as an allocator\<close>

definition pma_inv :: "'a pma_state_scheme \<Rightarrow> bool" where
  "pma_inv s \<longleftrightarrow> pm_map s 0 \<noteq> 0 \<and> mutex_owner s PmMapLock = 0"

definition pma_live :: "'a pma_state_scheme \<Rightarrow> u64 set" where
  "pma_live s = {of_nat i * KMEM_PAGE_SIZE | i. i < PM_MAP_ELEMENTS \<and> pm_map s i \<noteq> 0}"

definition pma_request :: "'a pma_state_scheme \<Rightarrow> u64 option \<times> 'a pma_state_scheme" where
  "pma_request s = (case pma_alloc s of
     Ok (r, t) \<Rightarrow> (if r = 0 then None else Some r, t)
   | Fail _ \<Rightarrow> (None, s))"

definition pma_give_back :: "u64 \<Rightarrow> 'a pma_state_scheme \<Rightarrow> 'a pma_state_scheme" where
  "pma_give_back a s = pma_free a KMEM_PAGE_SIZE s"

lemma pma_request_cases:
  assumes "pma_inv s"
  obtains (none) "pm_find_free (pm_map s) 0 = None" "pma_request s = (None, s)"
  | (some) i where "i < PM_MAP_ELEMENTS" "i \<noteq> 0" "pm_map s i = 0"
      "pma_request s = (Some (of_nat i * KMEM_PAGE_SIZE), s\<lparr>pm_map := (pm_map s)(i := 1)\<rparr>)"
proof (cases "pm_find_free (pm_map s) 0")
  case None
  then have "pma_request s = (None, s)"
    using assms by (simp add: pma_request_def pma_alloc_none pma_inv_def)
  with None show thesis by (rule none)
next
  case (Some i)
  note i = pm_find_free_Some[OF Some]
  have nz: "i \<noteq> 0"
  proof
    assume "i = 0"
    with i assms show False unfolding pma_inv_def by simp
  qed
  have "of_nat i * KMEM_PAGE_SIZE \<noteq> 0" by (rule frame_addr_nonzero) (use i nz in simp_all)
  then have "pma_request s = (Some (of_nat i * KMEM_PAGE_SIZE), s\<lparr>pm_map := (pm_map s)(i := 1)\<rparr>)"
    unfolding pma_request_def pma_alloc_some[OF Some] by simp
  with i nz show thesis by (intro some[of i]) simp_all
qed

interpretation pma: allocator pma_inv pma_live pma_request pma_give_back
proof unfold_locales
  fix s t :: "'a pma_state_scheme" and a :: u64
  assume inv: "pma_inv s" and r: "pma_request s = (Some a, t)"
  from inv show "pma_inv t \<and> a \<notin> pma_live s \<and> pma_live t = insert a (pma_live s)"
  proof (cases rule: pma_request_cases)
    case none
    then show ?thesis using r by simp
  next
    case (some i)
    then have a: "a = of_nat i * KMEM_PAGE_SIZE" "t = s\<lparr>pm_map := (pm_map s)(i := 1)\<rparr>"
      using r by simp_all
    have "a \<notin> pma_live s"
      unfolding pma_live_def a using some(1,3) frame_addr_inj[OF some(1)] by blast
    moreover have "pma_live t = insert a (pma_live s)"
      unfolding pma_live_def a using some(1) by (auto split: if_splits)
    moreover have "pma_inv t" using inv some by (simp add: pma_inv_def a)
    ultimately show ?thesis by blast
  qed
next
  fix s t :: "'a pma_state_scheme"
  assume inv: "pma_inv s" and r: "pma_request s = (None, t)"
  from inv show "pma_inv t \<and> pma_live t = pma_live s"
    by (cases rule: pma_request_cases) (use inv r in auto)
next
  fix s t :: "'a pma_state_scheme" and a :: u64
  assume inv: "pma_inv s" and r: "pma_request s = (Some a, t)"
  from inv show "pma_live (pma_give_back a t) = pma_live s"
  proof (cases rule: pma_request_cases)
    case none
    then show ?thesis using r by simp
  next
    case (some i)
    then have a: "a = of_nat i * KMEM_PAGE_SIZE" "t = s\<lparr>pm_map := (pm_map s)(i := 1)\<rparr>"
      using r by simp_all
    have "pma_give_back a t = s\<lparr>pm_map := (pm_map s)(i := 0)\<rparr>"
      using some by (simp add: pma_give_back_def a pma_free_frame)
    moreover have "(pm_map s)(i := 0) = pm_map s" using some by auto
    ultimately show ?thesis by simp
  qed
qed

section \<open>The race\<close>

lemma pma_scan_to:
  assumes "\<And>k. k < i \<Longrightarrow> ps_map s k \<noteq> 0" "i \<le> PM_MAP_ELEMENTS" "ps_pc s t = Scanning 0"
  shows "pma_step\<^sup>*\<^sup>* s (s\<lparr>ps_pc := (ps_pc s)(t := Scanning i)\<rparr>)"
  using assms(1,2)
proof (induction i)
  case 0
  have "(ps_pc s)(t := Scanning 0) = ps_pc s" using assms(3) by auto
  then show ?case by simp
next
  case (Suc i)
  let ?s = "s\<lparr>ps_pc := (ps_pc s)(t := Scanning i)\<rparr>"
  have "pma_step ?s (?s\<lparr>ps_pc := (ps_pc ?s)(t := Scanning (Suc i))\<rparr>)"
    by (rule pma_step.pma_skip) (use Suc.prems in auto)
  then have st: "pma_step ?s (s\<lparr>ps_pc := (ps_pc s)(t := Scanning (Suc i))\<rparr>)" by simp
  have "pma_step\<^sup>*\<^sup>* s ?s" by (rule Suc.IH) (use Suc.prems in auto)
  from this st show ?case by (rule rtranclp.rtrancl_into_rtrancl)
qed

text \<open>The steps on an explicit pair of map and program counters.\<close>

lemma pma_pair_steps:
  "p t = Scanning i \<Longrightarrow> i < PM_MAP_ELEMENTS \<Longrightarrow> m i = 0 \<Longrightarrow>
     pma_step \<lparr>ps_map = m, ps_pc = p\<rparr> \<lparr>ps_map = m, ps_pc = p(t := Claiming i)\<rparr>"
  "p t = Claiming i \<Longrightarrow> m i = 0 \<Longrightarrow>
     pma_step \<lparr>ps_map = m, ps_pc = p\<rparr> \<lparr>ps_map = m(i := 1), ps_pc = p(t := Returned i)\<rparr>"
  "p t = Claiming i \<Longrightarrow> m i = 1 \<Longrightarrow>
     pma_step \<lparr>ps_map = m, ps_pc = p\<rparr> \<lparr>ps_map = m(i := 2), ps_pc = p(t := Undoing i)\<rparr>"
  "p t = Undoing i \<Longrightarrow>
     pma_step \<lparr>ps_map = m, ps_pc = p\<rparr> \<lparr>ps_map = m(i := m i - 1), ps_pc = p(t := Returned i)\<rparr>"
  using pma_see_free[of "\<lparr>ps_map = m, ps_pc = p\<rparr>" t i] pma_inc[of "\<lparr>ps_map = m, ps_pc = p\<rparr>" t i]
    pma_undo[of "\<lparr>ps_map = m, ps_pc = p\<rparr>" t i] by simp_all

lemma pma_pair_scan:
  assumes "pm_find_free m 0 = Some i" "p t = Scanning 0"
  shows "pma_step\<^sup>*\<^sup>* \<lparr>ps_map = m, ps_pc = p\<rparr> \<lparr>ps_map = m, ps_pc = p(t := Scanning i)\<rparr>"
  using pma_scan_to[of i "\<lparr>ps_map = m, ps_pc = p\<rparr>" t] pm_find_free_Some[OF assms(1)] assms(2)
  by simp

lemmas pma_reach_step = reach_step[where step = pma_step]
lemmas pma_reach_scan = reach_rtranclp[where step = pma_step, rotated]

lemma pma_race_lemma:
  assumes f: "pm_find_free pm 0 = Some i" and tu: "t \<noteq> u"
  shows "\<exists>s. reach (pma_sys_init pm) pma_step s \<and> ps_pc s t = Returned i \<and> ps_pc s u = Returned i"
proof -
  have i: "i < PM_MAP_ELEMENTS" "pm i = 0" using pm_find_free_Some[OF f] by simp_all
  define p0 :: "nat \<Rightarrow> pma_pc" where "p0 = (\<lambda>_. Scanning 0)"
  define p2 where "p2 = p0(t := Scanning i, u := Scanning i)"
  define p4 where "p4 = p2(t := Claiming i, u := Claiming i)"
  define p6 where "p6 = p4(t := Returned i, u := Undoing i)"
  let ?R = "\<lambda>m p. reach (pma_sys_init pm) pma_step \<lparr>ps_map = m, ps_pc = p\<rparr>"
  have "?R pm p0" by (rule reach_init) (simp add: pma_sys_init_def p0_def)
  then have "?R pm (p0(t := Scanning i))"
    by (rule pma_reach_scan[OF _ pma_pair_scan[OF f]]) (simp add: p0_def)
  then have "?R pm p2" unfolding p2_def
    by (rule pma_reach_scan[OF _ pma_pair_scan[OF f]]) (use tu in \<open>simp add: p0_def\<close>)
  then have "?R pm (p2(t := Claiming i))"
    by (rule pma_reach_step[OF _ pma_pair_steps(1)]) (use tu i in \<open>simp_all add: p2_def\<close>)
  then have "?R pm p4" unfolding p4_def
    by (rule pma_reach_step[OF _ pma_pair_steps(1)]) (use tu i in \<open>simp_all add: p2_def\<close>)
  then have "?R (pm(i := 1)) (p4(t := Returned i))"
    by (rule pma_reach_step[OF _ pma_pair_steps(2)]) (use tu i in \<open>simp_all add: p4_def\<close>)
  then have "?R (pm(i := 1, i := 2)) p6" unfolding p6_def
    by (rule pma_reach_step[OF _ pma_pair_steps(3)]) (use tu in \<open>simp_all add: p4_def\<close>)
  then have "?R ((pm(i := 1, i := 2))(i := (pm(i := 1, i := 2)) i - 1)) (p6(u := Returned i))"
    by (rule pma_reach_step[OF _ pma_pair_steps(4)]) (simp add: p6_def)
  moreover have "(p6(u := Returned i)) t = Returned i" "(p6(u := Returned i)) u = Returned i"
    using tu by (simp_all add: p6_def)
  ultimately show ?thesis by (metis pma_sys.select_convs(2))
qed

section \<open>Properties\<close>

definition demo_pma :: pma_state where
  "demo_pma = \<lparr>mutex_owner = (\<lambda>_. 0), current_process = 0,
     pm_map = (\<lambda>i. if i < 2 \<or> 4 \<le> i then 255 else 0), pm_upper_limit = 0x800000\<rparr>"

text \<open>C7: on one processor, the frames that a sequence of \<open>pma_alloc\<close> calls hands out are
  pairwise distinct and none of them was in use.\<close>

theorem pma_alloc_distinct:
  assumes "pma_inv s"
  shows "distinct (fst (pma.alloc_n n s)) \<and> set (fst (pma.alloc_n n s)) \<inter> pma_live s = {}"
  using pma.alloc_n_live[OF assms, of n "fst (pma.alloc_n n s)" "snd (pma.alloc_n n s)"] by simp

theorem pma_alloc_distinct_witness:
  "distinct (fst (pma.alloc_n 3 demo_pma)) \<and> set (fst (pma.alloc_n 3 demo_pma)) \<inter> pma_live demo_pma = {}"
  by (rule pma_alloc_distinct) (simp add: pma_inv_def demo_pma_def)

text \<open>C8: with several processors, two \<open>pma_alloc\<close> calls can return the same frame: the caller
  whose increment came second undoes it and returns the frame all the same.\<close>

theorem pma_alloc_race:
  assumes "pm_find_free pm 0 = Some i" "t \<noteq> u"
  shows "\<exists>s. reach (pma_sys_init pm) pma_step s \<and> ps_pc s t = Returned i \<and> ps_pc s u = Returned i"
  by (rule pma_race_lemma[OF assms])

theorem pma_alloc_race_witness:
  "\<exists>s. reach (pma_sys_init (\<lambda>i. if i = 0 then 255 else 0)) pma_step s \<and>
     ps_pc s 0 = Returned 1 \<and> ps_pc s 1 = Returned 1"
  by (rule pma_alloc_race) (simp_all add: pm_find_free.simps PM_MAP_ELEMENTS_def)

end
