(* ===== verification/Machine.thy ===== *)
theory Machine
  imports Prelude
begin

text \<open>
  Byte-addressed memory and the x86 string instructions that \<open>k_string.c\<close> and the C
  library's \<open>string.c\<close> are written with.  The direction flag is clear, so every
  instruction walks upwards one byte at a time and addresses wrap at 64 bits.
\<close>

type_synonym mem = "u64 \<Rightarrow> u8"

section \<open>Instructions\<close>

text \<open>\<open>rep movsb\<close>: while the counter is not zero, copy one byte and step both pointers.\<close>

fun rep_movsb :: "nat \<Rightarrow> u64 \<Rightarrow> u64 \<Rightarrow> mem \<Rightarrow> mem" where
  "rep_movsb 0 dst src m = m"
| "rep_movsb (Suc n) dst src m = rep_movsb n (dst + 1) (src + 1) (m(dst := m src))"

text \<open>\<open>rep stosb\<close>: store the same byte \<open>n\<close> times.\<close>

fun rep_stosb :: "nat \<Rightarrow> u64 \<Rightarrow> u8 \<Rightarrow> mem \<Rightarrow> mem" where
  "rep_stosb 0 dst c m = m"
| "rep_stosb (Suc n) dst c m = rep_stosb n (dst + 1) c (m(dst := c))"

text \<open>\<open>repne scasb\<close>: the counter left over when the scan stops; the matching byte is
  counted as scanned.\<close>

fun repne_scasb :: "nat \<Rightarrow> u64 \<Rightarrow> u8 \<Rightarrow> mem \<Rightarrow> nat" where
  "repne_scasb 0 s c m = 0"
| "repne_scasb (Suc n) s c m = (if m s = c then n else repne_scasb n (s + 1) c m)"

text \<open>What a copy of \<open>n\<close> bytes means when source and destination may overlap: every
  destination byte gets the value its source byte had before the copy.\<close>

definition copied :: "nat \<Rightarrow> u64 \<Rightarrow> u64 \<Rightarrow> mem \<Rightarrow> mem" where
  "copied n dst src m = (\<lambda>a. if unat (a - dst) < n then m (src + (a - dst)) else m a)"

definition filled :: "nat \<Rightarrow> u64 \<Rightarrow> u8 \<Rightarrow> mem \<Rightarrow> mem" where
  "filled n dst c m = (\<lambda>a. if unat (a - dst) < n then c else m a)"

section \<open>Facts\<close>

lemma unat_sub_Suc_less:
  fixes a d :: u64
  assumes "n < 2 ^ 64"
  shows "unat (a - (d + 1)) < n \<and> a \<noteq> d \<longleftrightarrow> 0 < unat (a - d) \<and> unat (a - d) < Suc n"
proof (cases "a = d")
  case False
  then have "0 < unat (a - d)" by (simp add: unat_gt_0)
  moreover have "unat (a - d - 1) = unat (a - d) - 1"
    using False by (metis right_minus_eq unat_minus_one)
  ultimately show ?thesis using False by (auto simp: diff_diff_eq)
qed simp

lemma rep_stosb_filled: "n < 2 ^ 64 \<Longrightarrow> rep_stosb n dst c m = filled n dst c m"
proof (induction n arbitrary: dst m)
  case 0
  then show ?case by (simp add: filled_def)
next
  case (Suc n)
  then have IH: "rep_stosb n (dst + 1) c (m(dst := c)) = filled n (dst + 1) c (m(dst := c))"
    by simp
  show ?case
  proof (rule ext)
    fix a
    show "rep_stosb (Suc n) dst c m a = filled (Suc n) dst c m a"
      using unat_sub_Suc_less[of n a dst] Suc.prems
      by (cases "a = dst") (auto simp: IH filled_def unat_gt_0)
  qed
qed

text \<open>
  The exact effect of a forward byte copy.  With \<open>d = dst - src\<close>, a byte the copy has
  already written is read again exactly when \<open>0 < d < n\<close>; then the first \<open>d\<close> source bytes
  are repeated with period \<open>d\<close>.  In every other case the copy is the simultaneous one.
\<close>

lemma rep_movsb_copied:
  assumes "n < 2 ^ 64" and "n \<le> unat (dst - src) \<or> dst = src"
  shows "rep_movsb n dst src m = copied n dst src m"
  using assms
proof (induction n arbitrary: dst src m)
  case 0
  then show ?case by (simp add: copied_def)
next
  case (Suc n)
  have IH: "rep_movsb n (dst + 1) (src + 1) (m(dst := m src))
      = copied n (dst + 1) (src + 1) (m(dst := m src))"
    using Suc by (intro Suc.IH) auto
  show ?case
  proof (rule ext)
    fix a
    have shift: "src + 1 + (a - (dst + 1)) = src + (a - dst)" by simp
    have ne: "m (src + (a - dst)) = (m(dst := m src)) (src + (a - dst))"
      if "unat (a - dst) < Suc n" "a \<noteq> dst"
    proof (cases "dst = src")
      case False
      then have "Suc n \<le> unat (dst - src)" using Suc.prems by simp
      then have "src + (a - dst) \<noteq> dst"
        using that by (metis add_diff_cancel_left' leD)
      then show ?thesis by simp
    qed auto
    show "rep_movsb (Suc n) dst src m a = copied (Suc n) dst src m a"
      using unat_sub_Suc_less[of n a dst] Suc.prems ne shift
      by (cases "a = dst") (auto simp: IH copied_def unat_gt_0)
  qed
qed

lemma rep_movsb_outside:
  assumes "n < 2 ^ 64" and "n \<le> unat (a - dst)"
  shows "rep_movsb n dst src m a = m a"
  using assms
proof (induction n arbitrary: dst src m)
  case (Suc n)
  then have "a \<noteq> dst" by auto
  then have "n \<le> unat (a - (dst + 1))"
    using unat_sub_Suc_less[of n a dst] Suc.prems by (auto simp: unat_gt_0)
  with Suc \<open>a \<noteq> dst\<close> show ?case by simp
qed simp

lemma rep_movsb_append:
  "rep_movsb (n + k) dst src m
     = rep_movsb k (dst + of_nat n) (src + of_nat n) (rep_movsb n dst src m)"
proof (induction n arbitrary: dst src m)
  case (Suc n)
  have e: "x + 1 + of_nat n = x + of_nat (Suc n)" for x :: u64 by simp
  show ?case using Suc[of "dst + 1" "src + 1" "m(dst := m src)"] by (simp only: e add_Suc rep_movsb.simps)
qed simp

lemma rep_movsb_periodic:
  assumes d: "dst = src + of_nat d" "0 < d" and n: "n < 2 ^ 64" "d + n \<le> 2 ^ 64" and i: "i < n"
  shows "rep_movsb n dst src m (dst + of_nat i) = m (src + of_nat (i mod d))"
  using n i
proof (induction n arbitrary: i)
  case 0
  then show ?case by simp
next
  case (Suc n)
  let ?m = "rep_movsb n dst src m"
  have dlt: "d < 2 ^ 64" using Suc.prems by simp
  have step: "rep_movsb (Suc n) dst src m = ?m(dst + of_nat n := ?m (src + of_nat n))"
    using rep_movsb_append[of n 1 dst src m] by simp
  have src_n: "?m (src + of_nat n) = m (src + of_nat (n mod d))"
  proof (cases "n < d")
    case True
    have "unat (src + of_nat n - dst) = unat (of_nat n - of_nat d :: u64)"
      by (simp add: d)
    also have "\<dots> = 2 ^ 64 - d + n"
      using True dlt by (simp add: unat_sub_if' unat_of_nat word_le_nat_alt)
    finally have "n \<le> unat (src + of_nat n - dst)" using dlt by simp
    then show ?thesis using rep_movsb_outside Suc.prems True by simp
  next
    case False
    then have eq: "src + of_nat n = dst + of_nat (n - d)" by (simp add: d)
    have "?m (dst + of_nat (n - d)) = m (src + of_nat ((n - d) mod d))"
      using False Suc.prems assms(2) by (intro Suc.IH) auto
    then show ?thesis using False unfolding eq by (simp add: le_mod_geq)
  qed
  show ?case
  proof (cases "i = n")
    case True
    then show ?thesis using src_n unfolding step by simp
  next
    case False
    then have "i < n" using Suc.prems by simp
    then have "dst + of_nat i \<noteq> dst + (of_nat n :: u64)"
      using word_add_of_nat_eq_iff[of i n dst] Suc.prems by simp
    then show ?thesis using Suc \<open>i < n\<close> unfolding step by simp
  qed
qed

lemma repne_scasb_spec:
  "n - repne_scasb n s c m =
     (if \<exists>i<n. m (s + of_nat i) = c
      then Suc (LEAST i. m (s + of_nat i) = c) else n)"
proof (induction n arbitrary: s)
  case (Suc n)
  have shift: "s + 1 + of_nat i = s + of_nat (Suc i)" for i :: nat by simp
  show ?case
  proof (cases "m s = c")
    case True
    have ex: "\<exists>i<Suc n. m (s + of_nat i) = c"
      by (rule exI[of _ 0]) (use True in simp)
    have least: "(LEAST i. m (s + of_nat i) = c) = 0" by (rule Least_eq_0) (use True in simp)
    show ?thesis unfolding if_P[OF ex] least by (simp add: True)
  next
    case False
    have ex: "(\<exists>i<Suc n. m (s + of_nat i) = c) \<longleftrightarrow> (\<exists>i<n. m (s + 1 + of_nat i) = c)"
    proof
      assume "\<exists>i<Suc n. m (s + of_nat i) = c"
      then obtain i where i: "i < Suc n" "m (s + of_nat i) = c" by blast
      with False obtain j where "i = Suc j" by (cases i) auto
      with i show "\<exists>i<n. m (s + 1 + of_nat i) = c" by (auto simp only: shift intro!: exI[of _ j])
    next
      assume "\<exists>i<n. m (s + 1 + of_nat i) = c"
      then show "\<exists>i<Suc n. m (s + of_nat i) = c" by (metis Suc_less_eq shift)
    qed
    have lt: "repne_scasb n s c m \<le> n" for n s
      by (induction n arbitrary: s) (auto intro: le_SucI)
    have least: "(LEAST i. m (s + of_nat i) = c) = Suc (LEAST i. m (s + 1 + of_nat i) = c)"
      if h: "\<exists>i<n. m (s + 1 + of_nat i) = c"
    proof -
      from h obtain i where "m (s + of_nat (Suc i)) = c" unfolding shift by blast
      then have "(LEAST i. m (s + of_nat i) = c) = Suc (LEAST i. m (s + of_nat (Suc i)) = c)"
        using False by (intro Least_Suc[of _ "Suc i"]) auto
      then show ?thesis unfolding shift .
    qed
    show ?thesis
      using Suc.IH[of "s + 1"] False lt[of n "s + 1"] least by (auto simp: ex Suc_diff_le)
  qed
qed simp

end
