(* ===== verification/K_string.thy ===== *)
theory K_string
  imports Machine
begin

text \<open>
  \<open>kernel/k_string.c\<close> on byte memory: bounded string length, comparison, copy and hash,
  and the three memory primitives.  A C string is read through \<open>cstring\<close>, the bytes before
  the first zero among the first \<open>max_scan\<close> bytes.  The copies are compared with \<open>copied\<close>,
  the simultaneous copy.
\<close>

section \<open>Strings\<close>

function kstrlen_loop :: "mem \<Rightarrow> u64 \<Rightarrow> u64 \<Rightarrow> u64 \<Rightarrow> u64" where
  "kstrlen_loop m max_scan str ret =
     (if ret < max_scan
      then if m (str + ret) = 0 then ret else kstrlen_loop m max_scan str (ret + 1)
      else ret)"
  by pat_completeness auto
termination
  by (relation "measure (\<lambda>(m, mx, s, r). unat mx - unat r)") (auto simp: word_count_up)

definition kstrlen :: "u64 \<Rightarrow> u64 \<Rightarrow> mem \<Rightarrow> u64" where
  "kstrlen max_scan str m = kstrlen_loop m max_scan str 0"

function kstrequ_loop :: "mem \<Rightarrow> u64 \<Rightarrow> u64 \<Rightarrow> u64 \<Rightarrow> u64 \<Rightarrow> bool" where
  "kstrequ_loop m a b sa i =
     (if i < sa
      then if m (a + i) \<noteq> m (b + i) then False else kstrequ_loop m a b sa (i + 1)
      else True)"
  by pat_completeness auto
termination
  by (relation "measure (\<lambda>(m, a, b, sa, i). unat sa - unat i)") (auto simp: word_count_up)

definition kstrequ :: "u64 \<Rightarrow> u64 \<Rightarrow> u64 \<Rightarrow> mem \<Rightarrow> bool" where
  "kstrequ max_scan a b m =
     (let sa = kstrlen max_scan a m; sb = kstrlen max_scan b m
      in if sa \<noteq> sb then False else kstrequ_loop m a b sa 0)"

text \<open>\<open>char\<close> is signed on amd64, so each byte is sign-extended before it is added.\<close>

function kstr_hash_loop :: "mem \<Rightarrow> u64 \<Rightarrow> u64 \<Rightarrow> u64 \<Rightarrow> u64 \<Rightarrow> u64" where
  "kstr_hash_loop m str strlen i ret =
     (if i < strlen
      then kstr_hash_loop m str strlen (i + 1) (push_bit 5 ret + ret + scast (m (str + i)))
      else ret)"
  by pat_completeness auto
termination
  by (relation "measure (\<lambda>(m, s, l, i, r). unat l - unat i)") (auto simp: word_count_up)

definition kstr_hash :: "u64 \<Rightarrow> u64 \<Rightarrow> mem \<Rightarrow> u64" where
  "kstr_hash str strlen m = kstr_hash_loop m str strlen 0 0"

section \<open>Memory\<close>

definition do_memcpy :: "u64 \<Rightarrow> u64 \<Rightarrow> u64 \<Rightarrow> mem \<Rightarrow> mem" where
  "do_memcpy dst src sz m = rep_movsb (unat sz) dst src m"

definition kmemcpy :: "u64 \<Rightarrow> u64 \<Rightarrow> u64 \<Rightarrow> mem \<Rightarrow> mem" where
  "kmemcpy dst src sz m = do_memcpy dst src sz m"

definition kmemset :: "u64 \<Rightarrow> u8 \<Rightarrow> u64 \<Rightarrow> mem \<Rightarrow> mem" where
  "kmemset dst c sz m = rep_stosb (unat sz) dst c m"

definition kmemmov :: "u64 \<Rightarrow> u64 \<Rightarrow> u64 \<Rightarrow> mem \<Rightarrow> mem" where
  "kmemmov dst src sz m = (let
     src_end = src + sz
   in if dst \<ge> src \<and> dst \<le> src_end then (let
        o_begin = dst;
        o_end = src_end;
        o_dst = dst + (dst - src);
        m = do_memcpy o_dst o_begin (o_end - o_begin) m;
        src_end = dst
      in do_memcpy dst src (src_end - src) m)
      else do_memcpy dst src (src_end - src) m)"

definition kstrcpy :: "u64 \<Rightarrow> u64 \<Rightarrow> u64 \<Rightarrow> mem \<Rightarrow> u64 \<times> mem" where
  "kstrcpy max_copy dst src m = (let
     src_len = kstrlen max_copy src m
   in if src_len = max_copy then (-1, m)
      else (let m = kmemcpy dst src src_len m
            in (src_len, m(dst + (src_len + 1) := 0))))"

section \<open>Specification\<close>

definition bytes_at :: "mem \<Rightarrow> u64 \<Rightarrow> nat \<Rightarrow> u8 list" where
  "bytes_at m p n = map (\<lambda>i. m (p + of_nat i)) [0..<n]"

definition cstring :: "mem \<Rightarrow> u64 \<Rightarrow> u64 \<Rightarrow> u8 list" where
  "cstring m max_scan p = takeWhile (\<lambda>c. c \<noteq> 0) (bytes_at m p (unat max_scan))"

fun hash33 :: "u64 \<Rightarrow> u8 list \<Rightarrow> u64" where
  "hash33 h [] = h"
| "hash33 h (c # cs) = hash33 (33 * h + scast c) cs"

section \<open>Lemmas\<close>

declare kstrlen_loop.simps [simp del] kstrequ_loop.simps [simp del] kstr_hash_loop.simps [simp del]

lemma length_bytes_at [simp]: "length (bytes_at m p n) = n"
  by (simp add: bytes_at_def)

lemma nth_bytes_at [simp]: "i < n \<Longrightarrow> bytes_at m p n ! i = m (p + of_nat i)"
  by (simp add: bytes_at_def)

lemma bytes_at_Suc: "bytes_at m p (Suc n) = m p # bytes_at m (p + 1) n"
  by (rule nth_equalityI) (auto simp: nth_Cons add.assoc split: nat.split)

text \<open>One step of a loop that reads the bytes from \<open>i\<close> to \<open>n\<close>.\<close>

lemma bytes_at_step:
  assumes "(i :: u64) < n"
  shows "bytes_at m (p + i) (unat n - unat i) = m (p + i) # bytes_at m (p + (i + 1)) (unat n - unat (i + 1))"
proof -
  have "unat n - unat i = Suc (unat n - unat (i + 1))" using unat_inc[OF assms] assms by (simp add: word_less_nat_alt)
  then show ?thesis by (simp add: bytes_at_Suc add.assoc)
qed

lemma bytes_at_done: "bytes_at m p 0 = []"
  by (simp add: bytes_at_def)

lemma take_bytes_at: "take k (bytes_at m p n) = bytes_at m p (min k n)"
  by (simp add: bytes_at_def take_map min_def)

lemma kstrlen_loop_spec:
  assumes "ret \<le> max_scan"
  shows "unat (kstrlen_loop m max_scan str ret) =
    unat ret + length (takeWhile (\<lambda>c. c \<noteq> 0) (bytes_at m (str + ret) (unat max_scan - unat ret)))"
  using assms
proof (induction m max_scan str ret rule: kstrlen_loop.induct)
  case (1 m mx s r)
  show ?case
  proof (cases "r < mx")
    case True
    then have le: "r + 1 \<le> mx" by (simp add: inc_le)
    note b = bytes_at_step[OF True, of m s]
    show ?thesis
    proof (cases "m (s + r) = 0")
      case True
      with \<open>r < mx\<close> show ?thesis unfolding b by (simp add: kstrlen_loop.simps[of m mx s r])
    next
      case False
      have "unat (kstrlen_loop m mx s (r + 1)) = unat (r + 1)
          + length (takeWhile (\<lambda>c. c \<noteq> 0) (bytes_at m (s + (r + 1)) (unat mx - unat (r + 1))))"
        by (rule "1.IH"[OF True False le])
      with False True show ?thesis
        unfolding b by (simp add: kstrlen_loop.simps[of m mx s r] unat_inc[OF True])
    qed
  next
    case False
    with "1.prems" have "r = mx" by simp
    then show ?thesis by (simp add: kstrlen_loop.simps bytes_at_def)
  qed
qed

lemma unat_kstrlen: "unat (kstrlen max_scan str m) = length (cstring m max_scan str)"
  using kstrlen_loop_spec[of 0 max_scan m str] by (simp add: kstrlen_def cstring_def)

lemma cstring_bytes: "cstring m mx p = bytes_at m p (length (cstring m mx p))"
proof -
  have "cstring m mx p = take (length (cstring m mx p)) (bytes_at m p (unat mx))"
    unfolding cstring_def by (rule takeWhile_eq_take)
  moreover have "length (cstring m mx p) \<le> unat mx"
    unfolding cstring_def using length_takeWhile_le[of _ "bytes_at m p (unat mx)"] by simp
  ultimately show ?thesis by (simp add: take_bytes_at)
qed

lemma kstrequ_loop_spec:
  "i \<le> sa \<Longrightarrow> kstrequ_loop m a b sa i \<longleftrightarrow>
     bytes_at m (a + i) (unat sa - unat i) = bytes_at m (b + i) (unat sa - unat i)"
proof (induction m a b sa i rule: kstrequ_loop.induct)
  case (1 m a b sa i)
  show ?case
  proof (cases "i < sa")
    case True
    then have le: "i + 1 \<le> sa" by (simp add: inc_le)
    note b = bytes_at_step[OF True, of m]
    show ?thesis
    proof (cases "m (a + i) = m (b + i)")
      case False
      then show ?thesis unfolding b using True by (simp add: kstrequ_loop.simps[of m a b sa i])
    next
      case eq: True
      have "kstrequ_loop m a b sa (i + 1) \<longleftrightarrow>
          bytes_at m (a + (i + 1)) (unat sa - unat (i + 1)) =
          bytes_at m (b + (i + 1)) (unat sa - unat (i + 1))"
        using "1.IH" True eq le by simp
      then show ?thesis unfolding b using True eq by (simp add: kstrequ_loop.simps[of m a b sa i])
    qed
  next
    case False
    with "1.prems" have "i = sa" by simp
    then show ?thesis by (simp add: kstrequ_loop.simps bytes_at_def)
  qed
qed

lemma kstr_hash_loop_spec:
  "i \<le> n \<Longrightarrow> kstr_hash_loop m s n i h = hash33 h (bytes_at m (s + i) (unat n - unat i))"
proof (induction m s n i h rule: kstr_hash_loop.induct)
  case (1 m s n i h)
  show ?case
  proof (cases "i < n")
    case True
    then have le: "i + 1 \<le> n" by (simp add: inc_le)
    note b = bytes_at_step[OF True, of m s]
    have h: "push_bit 5 h + h + c = 33 * h + c" for c :: u64
      by (simp add: push_bit_eq_mult)
    show ?thesis
      unfolding b kstr_hash_loop.simps[of m s n i h] using True "1.IH"[OF True le] by (simp add: h)
  next
    case False
    with "1.prems" have "i = n" by simp
    then show ?thesis by (simp add: kstr_hash_loop.simps bytes_at_def)
  qed
qed

lemma kstrequ_iff: "kstrequ mx a b m \<longleftrightarrow> cstring m mx a = cstring m mx b"
proof -
  have l: "kstrlen mx a m = kstrlen mx b m \<longleftrightarrow> length (cstring m mx a) = length (cstring m mx b)"
    by (simp add: word_unat_eq_iff unat_kstrlen)
  show ?thesis
  proof (cases "length (cstring m mx a) = length (cstring m mx b)")
    case True
    then have "kstrequ mx a b m \<longleftrightarrow> bytes_at m a (length (cstring m mx a)) = bytes_at m b (length (cstring m mx a))"
      using kstrequ_loop_spec[of 0 "kstrlen mx a m" m a b] l by (simp add: kstrequ_def unat_kstrlen)
    then show ?thesis using cstring_bytes[of m mx a] cstring_bytes[of m mx b] True by simp
  next
    case False
    then show ?thesis using l by (auto simp: kstrequ_def)
  qed
qed

lemma kstr_hash_bytes: "kstr_hash p n m = hash33 0 (bytes_at m p (unat n))"
  using kstr_hash_loop_spec[of 0 n m p 0] by (simp add: kstr_hash_def)

lemma kstr_hash_cstring: "kstr_hash p (kstrlen mx p m) m = hash33 0 (cstring m mx p)"
  by (simp add: kstr_hash_bytes unat_kstrlen cstring_bytes[symmetric])

lemma kmemset_filled: "kmemset dst c sz m = filled (unat sz) dst c m"
  unfolding kmemset_def by (rule rep_stosb_filled) (simp add: unat_u64_less)

lemma kmemcpy_copied:
  assumes "sz \<le> dst - src \<or> dst = src"
  shows "kmemcpy dst src sz m = copied (unat sz) dst src m"
  unfolding kmemcpy_def do_memcpy_def
  by (rule rep_movsb_copied) (use assms in \<open>auto simp: word_le_nat_alt unat_u64_less\<close>)

text \<open>The two halves of an overlapping move, for a destination \<open>d\<close> bytes above the source.\<close>

lemma copied_halves:
  assumes d: "unat (dst - src) = d" "d \<le> n" "d + n \<le> 2 ^ 64"
  shows "copied d dst src (copied (n - d) (dst + (dst - src)) dst m) = copied n dst src m"
proof (rule ext)
  fix a :: u64
  let ?D = "dst - src" and ?k = "unat (a - dst)"
  have D: "unat ?D = d" by (rule d(1))
  show "copied d dst src (copied (n - d) (dst + ?D) dst m) a = copied n dst src m a"
  proof (cases "?k < d")
    case True
    have "src + (a - dst) - (dst + ?D) = (a - dst) - (?D + ?D)" by simp
    moreover have "\<not> unat ((a - dst) - (?D + ?D)) < n - d"
    proof
      assume lt: "unat ((a - dst) - (?D + ?D)) < n - d"
      have "unat ((a - dst) - ?D) = 2 ^ 64 + ?k - d"
        using True D unat_sub_wrap[of "a - dst" ?D] by simp
      moreover have "(a - dst) - (?D + ?D) = (a - dst) - ?D - ?D" by simp
      moreover have "d \<le> 2 ^ 64 + ?k - d" using d by simp
      ultimately have "unat ((a - dst) - (?D + ?D)) = 2 ^ 64 + ?k - d - d"
        using D unat_sub_le[of ?D "(a - dst) - ?D"] unfolding word_le_nat_alt by presburger
      then show False using lt d by simp
    qed
    ultimately have "copied (n - d) (dst + ?D) dst m (src + (a - dst)) = m (src + (a - dst))"
      unfolding copied_def by (simp only: if_False)
    moreover have "copied d dst src m' a = m' (src + (a - dst))" for m'
      using True by (simp add: copied_def)
    moreover have "copied n dst src m a = m (src + (a - dst))" using True d by (simp add: copied_def)
    ultimately show ?thesis by (simp only:)
  next
    case False
    have "unat (a - (dst + ?D)) = ?k - d"
      using False D unat_sub_le[of ?D "a - dst"] by (simp add: word_le_nat_alt diff_diff_eq)
    moreover have "dst + (a - (dst + ?D)) = src + (a - dst)" by simp
    ultimately have "copied (n - d) (dst + ?D) dst m a = (if ?k - d < n - d then m (src + (a - dst)) else m a)"
      unfolding copied_def by (simp only:)
    moreover have "copied d dst src m' a = m' a" for m' using False by (simp add: copied_def)
    ultimately show ?thesis using False d(2) by (auto simp: copied_def[of n])
  qed
qed

lemma kmemmov_copied:
  assumes nw: "unat src + unat sz < 2 ^ 64" "unat dst + unat sz < 2 ^ 64"
    and c: "dst \<le> src \<or> src + sz \<le> dst \<or> unat sz \<le> 2 * (unat dst - unat src)"
  shows "kmemmov dst src sz m = copied (unat sz) dst src m"
proof -
  let ?n = "unat sz"
  have se: "unat (src + sz) = unat src + ?n" using nw by (simp add: unat_add_no_wrap)
  show ?thesis
  proof (cases "dst \<ge> src \<and> dst \<le> src + sz")
    case True
    define d where "d = unat (dst - src)"
    have d: "d = unat dst - unat src" using True by (simp add: d_def unat_sub_le)
    have le: "unat src \<le> unat dst" "unat dst \<le> unat src + ?n"
      using True se by (auto simp: word_le_nat_alt)
    have cnt: "unat (src + sz - dst) = ?n - d" using True se le d by (simp add: unat_sub_le)
    have off: "dst + (dst - src) - dst = dst - src" by simp
    have "do_memcpy (dst + (dst - src)) dst (src + sz - dst) m
        = copied (?n - d) (dst + (dst - src)) dst m"
      unfolding do_memcpy_def cnt
    proof (rule rep_movsb_copied)
      show "?n - d < 2 ^ 64" using unat_u64_less[of sz] by simp
      have "d = 0 \<or> ?n - d \<le> d" using c le se d by (auto simp: word_le_nat_alt)
      then show "?n - d \<le> unat (dst + (dst - src) - dst) \<or> dst + (dst - src) = dst"
        unfolding off d_def[symmetric] by (auto simp: d_def unat_eq_0)
    qed
    moreover have "do_memcpy dst src (dst - src) m' = copied d dst src m'" for m'
      unfolding do_memcpy_def d_def by (rule rep_movsb_copied) (auto simp: unat_u64_less)
    moreover have "copied d dst src (copied (?n - d) (dst + (dst - src)) dst m) = copied ?n dst src m"
      by (rule copied_halves) (use le nw d d_def in auto)
    ultimately show ?thesis using True by (simp add: kmemmov_def Let_def)
  next
    case False
    have "kmemmov dst src sz m = do_memcpy dst src sz m" using False by (auto simp: kmemmov_def Let_def)
    also have "\<dots> = copied ?n dst src m"
      unfolding do_memcpy_def
    proof (rule rep_movsb_copied)
      show "?n \<le> unat (dst - src) \<or> dst = src"
        using False nw se by (auto simp: unat_sub_if' word_le_nat_alt)
    qed (simp add: unat_u64_less)
    finally show ?thesis .
  qed
qed

text \<open>Outside that range the move repeats the first \<open>d = dst - src\<close> bytes of the overlap
  with period \<open>d\<close>.\<close>

lemma kmemmov_overlap:
  assumes nw: "unat src + unat sz < 2 ^ 64" "unat dst + unat sz < 2 ^ 64"
    and d: "dst = src + of_nat d" "0 < d" "d \<le> unat sz" "d < 2 ^ 64" "i < unat sz - d"
  shows "kmemmov dst src sz m (dst + of_nat (d + i)) = m (dst + of_nat (i mod d))"
proof -
  let ?n = "unat sz"
  have ud: "unat (of_nat d :: u64) = d" using d(4) by (simp add: unat_of_nat)
  have uD: "unat (dst - src) = d" using d ud by simp
  have dn: "unat dst = unat src + d" using d nw ud by (simp add: unat_add_no_wrap)
  have se: "unat (src + sz) = unat src + ?n" using nw by (simp add: unat_add_no_wrap)
  have t: "dst \<ge> src \<and> dst \<le> src + sz" using dn se d by (simp add: word_le_nat_alt)
  have cnt: "unat (src + sz - dst) = ?n - d" using t se dn by (simp add: unat_sub_le)
  let ?m = "rep_movsb (?n - d) (dst + (dst - src)) dst m"
  have "kmemmov dst src sz m = rep_movsb d dst src ?m"
    using t by (simp add: kmemmov_def Let_def do_memcpy_def cnt uD)
  moreover have "rep_movsb d dst src ?m (dst + of_nat (d + i)) = ?m (dst + of_nat (d + i))"
    by (rule rep_movsb_outside) (use d nw dn in \<open>auto simp: unat_of_nat simp del: of_nat_add\<close>)
  moreover have "dst + of_nat (d + i) = dst + (dst - src) + of_nat i" using d(1) by simp
  moreover have "?m (dst + (dst - src) + of_nat i) = m (dst + of_nat (i mod d))"
    by (rule rep_movsb_periodic) (use d nw dn in auto)
  ultimately show ?thesis by (simp only:)
qed

section \<open>Properties\<close>

text \<open>\<open>kstrequ\<close> decides equality of the two strings up to the scan limit, and \<open>kstr_hash\<close>
  is the multiply-by-33 hash of the bytes, so equal strings have equal hashes.\<close>

theorem kstrequ_equality:
  "(kstrequ mx a b m \<longleftrightarrow> cstring m mx a = cstring m mx b) \<and>
   kstr_hash p n m = hash33 0 (bytes_at m p (unat n))"
  by (simp add: kstrequ_iff kstr_hash_bytes)

text \<open>With the destination \<open>d\<close> bytes above the source and a size above \<open>d\<close>, the bytes that
  \<open>kmemmov\<close> leaves from offset \<open>d\<close> on repeat the first \<open>d\<close> old destination bytes with period
  \<open>d\<close>, so a move with \<open>size > 2 * d\<close> is not a copy of the source.\<close>

theorem kmemmov_repeats:
  assumes "unat src + unat sz < 2 ^ 64" "unat dst + unat sz < 2 ^ 64"
    and "dst = src + of_nat d" "0 < d" "d \<le> unat sz" "d < 2 ^ 64" "i < unat sz - d"
  shows "kmemmov dst src sz m (dst + of_nat (d + i)) = m (dst + of_nat (i mod d))"
  using assms by (rule kmemmov_overlap)

theorem kmemmov_repeats_witness:
  "kmemmov 1 0 4 (\<lambda>a. ucast a) 3 = 1 \<and> copied 4 1 0 (\<lambda>a. ucast a) 3 = 2"
proof
  have "(1 :: u64) = 0 + of_nat 1" by simp
  from kmemmov_repeats[of 0 4 1 1 1 "\<lambda>a. ucast a", OF _ _ this]
  show "kmemmov 1 0 4 (\<lambda>a. ucast a) 3 = 1" by simp
  show "copied 4 1 0 (\<lambda>a. ucast a) 3 = 2" by (simp add: copied_def)
qed

end
