(* ===== verification/Phys.thy ===== *)
theory Phys
  imports Machine
begin

text \<open>
  64-bit words in byte memory and the bit fields of page-table entries: little-endian loads and
  stores, the read and write of a C bit field, and their interaction.
\<close>

section \<open>Words in memory\<close>

definition rd64 :: "mem \<Rightarrow> u64 \<Rightarrow> u64" where
  "rd64 m a = ucast (m a) OR push_bit 8 (ucast (m (a + 1))) OR push_bit 16 (ucast (m (a + 2)))
     OR push_bit 24 (ucast (m (a + 3))) OR push_bit 32 (ucast (m (a + 4)))
     OR push_bit 40 (ucast (m (a + 5))) OR push_bit 48 (ucast (m (a + 6)))
     OR push_bit 56 (ucast (m (a + 7)))"

definition wr64 :: "u64 \<Rightarrow> u64 \<Rightarrow> mem \<Rightarrow> mem" where
  "wr64 a v m = (\<lambda>b. if b - a < 8 then ucast (drop_bit (8 * unat (b - a)) v) else m b)"

section \<open>Bit fields\<close>

definition bf_get :: "nat \<Rightarrow> nat \<Rightarrow> u64 \<Rightarrow> u64" where
  "bf_get lo n w = take_bit n (drop_bit lo w)"

definition bf_set :: "nat \<Rightarrow> nat \<Rightarrow> u64 \<Rightarrow> u64 \<Rightarrow> u64" where
  "bf_set lo n v w = (w AND NOT (push_bit lo (mask n))) OR push_bit lo (take_bit n v)"

section \<open>Lemmas\<close>

lemma bit_rd64:
  assumes "q < 8" "r < 8"
  shows "bit (rd64 m a) (8 * q + r) = bit (m (a + of_nat q)) r"
proof -
  have "q = 0 \<or> q = 1 \<or> q = 2 \<or> q = 3 \<or> q = 4 \<or> q = 5 \<or> q = 6 \<or> q = 7" using assms(1) by auto
  moreover have "\<not> bit (x :: u8) n" if "8 \<le> n" for x n using that bit_imp_le_length[of x n] by fastforce
  ultimately show ?thesis
    using assms(2)
    by (elim disjE) (simp_all add: rd64_def bit_or_iff bit_push_bit_iff bit_unsigned_iff)
qed

lemma rd64_eqI:
  assumes "\<And>q r. q < 8 \<Longrightarrow> r < 8 \<Longrightarrow> bit (m (a + of_nat q)) r = bit v (8 * q + r)"
  shows "rd64 m a = v"
proof (rule bit_word_eqI)
  fix n assume "n < LENGTH(64)"
  then have "n div 8 < 8" "n mod 8 < 8" "8 * (n div 8) + n mod 8 = n" by auto
  then show "bit (rd64 m a) n = bit v n" using bit_rd64 assms by metis
qed

lemma rd64_cong: "(\<And>q. q < 8 \<Longrightarrow> m (a + of_nat q) = m' (a + of_nat q)) \<Longrightarrow> rd64 m a = rd64 m' a"
  by (rule rd64_eqI) (simp add: bit_rd64)

lemma rd64_wr64_same [simp]: "rd64 (wr64 a v m) a = v"
proof (rule rd64_eqI)
  fix q r :: nat assume qr: "q < 8" "r < 8"
  have q: "unat (of_nat q :: u64) = q" using qr(1) by (simp add: unat_of_nat)
  then have "(of_nat q :: u64) < 8" using qr(1) by (simp add: word_less_nat_alt)
  then show "bit (wr64 a v m (a + of_nat q)) r = bit v (8 * q + r)"
    using qr q by (simp add: wr64_def bit_unsigned_iff bit_drop_bit_eq)
qed

lemma wr64_far: "8 \<le> b - a \<Longrightarrow> wr64 a v m b = m b"
  by (simp add: wr64_def not_less[symmetric])

lemma aligned_sub_far:
  fixes a b :: u64
  assumes "8 dvd unat a" "8 dvd unat b" "a \<noteq> b" "q < 8"
  shows "8 \<le> unat (b + of_nat q - a)"
proof -
  have d: "8 dvd unat (b - a)" "unat (b - a) \<noteq> 0"
  proof -
    show "unat (b - a) \<noteq> 0" using assms(3) by (simp add: unat_eq_0)
    have "8 dvd (2::nat) ^ 64" by simp
    then show "8 dvd unat (b - a)"
      using assms(1,2) by (simp add: unat_sub_if' dvd_add dvd_diff_nat)
  qed
  then obtain k where k: "unat (b - a) = 8 * k" "0 < k" by (metis dvdE gr0I mult_0_right)
  have "8 * k < 18446744073709551616" using unat_u64_less[of "b - a"] k by simp
  then have "8 * k + q < 18446744073709551616" using assms(4) by presburger
  moreover have "unat (of_nat q :: u64) = q" using assms(4) by (simp add: unat_of_nat)
  ultimately have "unat ((b - a) + of_nat q) = 8 * k + q"
    using unat_add_no_wrap[of "b - a" "of_nat q"] k by simp
  moreover have "b + of_nat q - a = (b - a) + of_nat q" by simp
  ultimately have "unat (b + of_nat q - a) = 8 * k + q" by (simp only:)
  then show ?thesis using k by linarith
qed

lemma rd64_wr64_other:
  assumes "8 dvd unat a" "8 dvd unat b" "a \<noteq> b"
  shows "rd64 (wr64 a v m) b = rd64 m b"
proof (rule rd64_cong)
  fix q :: nat assume "q < 8"
  then have "8 \<le> unat (b + of_nat q - a)" by (rule aligned_sub_far[OF assms])
  then show "wr64 a v m (b + of_nat q) = m (b + of_nat q)"
    by (intro wr64_far) (simp add: word_le_nat_alt)
qed

lemma wr64_twice [simp]: "wr64 a v (wr64 a u m) = wr64 a v m"
  by (simp add: wr64_def fun_eq_iff)

lemma rd64_filled_inside:
  assumes "unat (a - p) + 8 \<le> n" "n \<le> 2 ^ 64"
  shows "rd64 (filled n p 0 m) a = 0"
proof (rule rd64_eqI)
  fix q r :: nat assume q: "q < 8"
  have "unat (a - p) + unat (of_nat q :: u64) < 2 ^ 64" using assms q by (simp add: unat_of_nat)
  then have "unat (a - p + of_nat q) = unat (a - p) + q"
    using q unat_add_no_wrap[of "a - p" "of_nat q"] by (simp add: unat_of_nat)
  moreover have "a + of_nat q - p = a - p + of_nat q" by simp
  ultimately have "unat (a + of_nat q - p) < n" using assms(1) q by (simp only:)
  then show "bit (filled n p 0 m (a + of_nat q)) r = bit (0 :: u64) (8 * q + r)"
    by (simp add: filled_def)
qed

lemma rd64_filled_outside:
  assumes "\<And>q. q < 8 \<Longrightarrow> n \<le> unat (a + of_nat q - p)"
  shows "rd64 (filled n p c m) a = rd64 m a"
  by (rule rd64_cong) (use assms in \<open>simp add: filled_def leD\<close>)

lemma bit_bf_set:
  assumes "k < 64"
  shows "bit (bf_set lo n v w) k = (if lo \<le> k \<and> k < lo + n then bit v (k - lo) else bit w k)"
  using assms
  by (auto simp: bf_set_def bit_or_iff bit_and_iff bit_not_iff bit_push_bit_iff bit_mask_iff
      bit_take_bit_iff)

lemma bit_bf_get: "bit (bf_get lo n w) k = (k < n \<and> bit w (lo + k))"
  by (auto simp: bf_get_def bit_take_bit_iff bit_drop_bit_eq)

lemma bf_get_set_same:
  assumes "lo + n \<le> 64"
  shows "bf_get lo n (bf_set lo n v w) = take_bit n v"
proof (rule bit_word_eqI)
  fix k assume "k < LENGTH(64)"
  then show "bit (bf_get lo n (bf_set lo n v w)) k = bit (take_bit n v) k"
    using assms by (auto simp: bit_bf_get bit_bf_set bit_take_bit_iff)
qed

lemma bf_get_set_other:
  assumes "lo + n \<le> 64" "lo + n \<le> lo' \<or> lo' + n' \<le> lo"
  shows "bf_get lo n (bf_set lo' n' v w) = bf_get lo n w"
proof (rule bit_word_eqI)
  fix k assume "k < LENGTH(64)"
  then show "bit (bf_get lo n (bf_set lo' n' v w)) k = bit (bf_get lo n w) k"
    using assms by (auto simp: bit_bf_get bit_bf_set)
qed

lemma bf_set_idem: "lo + n \<le> 64 \<Longrightarrow> bf_set lo n v (bf_set lo n u w) = bf_set lo n v w"
  by (rule bit_word_eqI) (auto simp: bit_bf_set)

lemma bf_get_zero [simp]: "bf_get lo n 0 = 0"
  by (simp add: bf_get_def)

end
