(* ===== verification/K_paging.thy ===== *)
theory K_paging
  imports K_pma K_string Phys
begin

text \<open>
  Page tables (\<open>k_memory.c\<close>, second part).  Tables live in physical memory, entries are
  64-bit words with the bit fields of \<open>pml4e_t\<close>, \<open>pdpe_t\<close> and \<open>pde_t\<close>.  A pointer to an
  entry is modelled by the entry's physical address: the code reaches it through the
  direct map at \<open>PM_MAP_BASE\<close> or through the recursive slot 256, whose walk by the
  processor is \<open>table_walk\<close>.
\<close>

section \<open>State\<close>

text \<open>\<open>as_pml4_paddr\<close> and \<open>as_ref_count\<close> are the fields of the \<open>address_space_t\<close> at a pointer.\<close>

record vm_state = pma_state +
  phys :: mem
  cr3 :: u64
  as_pml4_paddr :: "u64 \<Rightarrow> u64"
  as_ref_count :: "u64 \<Rightarrow> u64"

definition VM_PAGE_PRESENT :: u64 where "VM_PAGE_PRESENT = 1"
definition VM_PAGE_WRITABLE :: u64 where "VM_PAGE_WRITABLE = 2"
definition VM_PAGE_PRIVILEGED :: u64 where "VM_PAGE_PRIVILEGED = 4"
definition VM_PAGE_EXECUTABLE :: u64 where "VM_PAGE_EXECUTABLE = 8"
definition VM_PAGE_GLOBAL :: u64 where "VM_PAGE_GLOBAL = 256"

definition KERNEL_VADDR_BEGIN :: u64 where "KERNEL_VADDR_BEGIN = 0xffffffff80000000"
definition KERNEL_VADDR_END :: u64 where "KERNEL_VADDR_END = 0xffffffffffffffff"
definition USERLAND_VADDR_BEGIN :: u64 where "USERLAND_VADDR_BEGIN = 0x200000"
definition USERLAND_VADDR_END :: u64 where "USERLAND_VADDR_END = 0x800000000000"
definition PM_MAP_BASE :: u64 where "PM_MAP_BASE = 0xffff808000000000"

definition VM_OFFSET_PAGE_2M :: "u64 \<Rightarrow> u64" where "VM_OFFSET_PAGE_2M va = va AND 0x1fffff"
definition VM_ALIGN_PAGE_2M :: "u64 \<Rightarrow> u64" where "VM_ALIGN_PAGE_2M va = va AND NOT 0x1fffff"

section \<open>Entries\<close>

definition e_present :: "u64 \<Rightarrow> u64" where "e_present = bf_get 0 1"
definition e_rw :: "u64 \<Rightarrow> u64" where "e_rw = bf_get 1 1"
definition e_privileged :: "u64 \<Rightarrow> u64" where "e_privileged = bf_get 2 1"
definition e_page_size :: "u64 \<Rightarrow> u64" where "e_page_size = bf_get 7 1"
definition e_global :: "u64 \<Rightarrow> u64" where "e_global = bf_get 8 1"
definition e_addr :: "u64 \<Rightarrow> u64" where "e_addr = bf_get 12 40"
definition e_nx :: "u64 \<Rightarrow> u64" where "e_nx = bf_get 62 1"

definition set_present :: "u64 \<Rightarrow> u64 \<Rightarrow> u64" where "set_present = bf_set 0 1"
definition set_rw :: "u64 \<Rightarrow> u64 \<Rightarrow> u64" where "set_rw = bf_set 1 1"
definition set_privileged :: "u64 \<Rightarrow> u64 \<Rightarrow> u64" where "set_privileged = bf_set 2 1"
definition set_page_size :: "u64 \<Rightarrow> u64 \<Rightarrow> u64" where "set_page_size = bf_set 7 1"
definition set_global :: "u64 \<Rightarrow> u64 \<Rightarrow> u64" where "set_global = bf_set 8 1"
definition set_addr :: "u64 \<Rightarrow> u64 \<Rightarrow> u64" where "set_addr = bf_set 12 40"
definition set_nx :: "u64 \<Rightarrow> u64 \<Rightarrow> u64" where "set_nx = bf_set 62 1"

definition PML4IDX :: "u64 \<Rightarrow> u64" where "PML4IDX va = drop_bit 39 va AND 511"
definition PDPIDX :: "u64 \<Rightarrow> u64" where "PDPIDX va = drop_bit 30 va AND 511"
definition PDIDX :: "u64 \<Rightarrow> u64" where "PDIDX va = drop_bit 21 va AND 511"

text \<open>The table an entry points to, and the processor's walk through a list of indices.\<close>

definition table_next :: "mem \<Rightarrow> u64 \<Rightarrow> u64 \<Rightarrow> u64" where
  "table_next m p i = push_bit 12 (e_addr (rd64 m (p + 8 * i)))"

definition table_walk :: "mem \<Rightarrow> u64 \<Rightarrow> u64 list \<Rightarrow> u64" where
  "table_walk m = foldl (table_next m)"

definition RECURSIVE_PML4 :: "'a vm_state_scheme \<Rightarrow> u64" where
  "RECURSIVE_PML4 s = table_walk (phys s) (cr3 s) [256, 256, 256, 256]"

definition RECURSIVE_PDP :: "u64 \<Rightarrow> 'a vm_state_scheme \<Rightarrow> u64" where
  "RECURSIVE_PDP va s = table_walk (phys s) (cr3 s) [256, 256, 256, PML4IDX va]"

definition RECURSIVE_PD :: "u64 \<Rightarrow> 'a vm_state_scheme \<Rightarrow> u64" where
  "RECURSIVE_PD va s = table_walk (phys s) (cr3 s) [256, 256, PML4IDX va, PDPIDX va]"

definition vm_get_vma_for_pma :: "u64 \<Rightarrow> u64" where
  "vm_get_vma_for_pma pma = pma + PM_MAP_BASE"

definition get_pml4e :: "u64 \<Rightarrow> u64 \<Rightarrow> 'a vm_state_scheme \<Rightarrow> u64" where
  "get_pml4e as pml4_idx s =
     (if as \<noteq> 0 then as_pml4_paddr s as else RECURSIVE_PML4 s) + 8 * pml4_idx"

definition get_pdpe :: "u64 \<Rightarrow> u64 \<Rightarrow> 'a vm_state_scheme \<Rightarrow> u64" where
  "get_pdpe pml4e pdp_idx s = push_bit 12 (e_addr (rd64 (phys s) pml4e)) + 8 * pdp_idx"

definition get_pde :: "u64 \<Rightarrow> u64 \<Rightarrow> 'a vm_state_scheme \<Rightarrow> u64" where
  "get_pde pdpe pd_idx s = push_bit 12 (e_addr (rd64 (phys s) pdpe)) + 8 * pd_idx"

definition sign_extend :: "u64 \<Rightarrow> u64" where
  "sign_extend address = (let
     extended = (if address AND push_bit 47 1 \<noteq> 0 then NOT 0 else 0)
   in (extended AND 0xffff000000000000) OR (address AND 0xffffffffffff))"

definition get_page :: "u64 \<Rightarrow> u64 \<Rightarrow> u64 \<Rightarrow> u64" where
  "get_page pml4_idx pdp_idx pd_idx =
     sign_extend (push_bit 39 pml4_idx OR push_bit 30 pdp_idx OR push_bit 21 pd_idx)"

text \<open>Read-modify-write of one entry, and byte fills of physical memory.\<close>

definition upd_entry :: "u64 \<Rightarrow> (u64 \<Rightarrow> u64) \<Rightarrow> 'a vm_state_scheme \<Rightarrow> 'a vm_state_scheme" where
  "upd_entry p f s = s\<lparr>phys := wr64 p (f (rd64 (phys s) p)) (phys s)\<rparr>"

definition phys_set :: "u64 \<Rightarrow> u8 \<Rightarrow> u64 \<Rightarrow> 'a vm_state_scheme \<Rightarrow> 'a vm_state_scheme" where
  "phys_set p c sz s = s\<lparr>phys := filled (unat sz) p c (phys s)\<rparr>"

definition phys_copy :: "u64 \<Rightarrow> u64 \<Rightarrow> u64 \<Rightarrow> 'a vm_state_scheme \<Rightarrow> 'a vm_state_scheme" where
  "phys_copy dst src sz s = s\<lparr>phys := copied (unat sz) dst src (phys s)\<rparr>"

section \<open>Look-up\<close>

text \<open>\<open>None\<close> is the null pointer.\<close>

definition get_pde_by_vma :: "u64 \<Rightarrow> u64 \<Rightarrow> 'a vm_state_scheme \<Rightarrow> u64 option" where
  "get_pde_by_vma pml4 vma s = (let
     pml4e = pml4 + 8 * PML4IDX vma
   in if e_present (rd64 (phys s) pml4e) = 0 then None
      else (let pdpe = get_pdpe pml4e (PDPIDX vma) s
        in if e_present (rd64 (phys s) pdpe) = 0 then None
           else Some (get_pde pdpe (PDIDX vma) s)))"

definition vm_get_pma_by_vma :: "u64 \<Rightarrow> u64 \<Rightarrow> 'a vm_state_scheme \<Rightarrow> u64" where
  "vm_get_pma_by_vma pml4 vma s = (case get_pde_by_vma pml4 vma s of
     Some pde \<Rightarrow> (let e = rd64 (phys s) pde
       in if e_present e \<noteq> 0 then push_bit 12 (e_addr e) + VM_OFFSET_PAGE_2M vma else 0)
   | None \<Rightarrow> 0)"

definition get_attrs_by_vma :: "u64 \<Rightarrow> u64" where
  "get_attrs_by_vma e = (let
     ret = 0;
     ret = (if e_present e \<noteq> 0 then ret OR VM_PAGE_PRESENT else ret);
     ret = (if e_privileged e = 0 then ret OR VM_PAGE_PRIVILEGED else ret);
     ret = (if e_rw e \<noteq> 0 then ret OR VM_PAGE_WRITABLE else ret);
     ret = (if e_nx e = 0 then ret OR VM_PAGE_EXECUTABLE else ret);
     ret = (if e_global e \<noteq> 0 then ret OR VM_PAGE_GLOBAL else ret)
   in ret)"

definition vm_check_attr :: "u64 \<Rightarrow> u64 \<Rightarrow> u64 \<Rightarrow> 'a vm_state_scheme \<Rightarrow> u64 res" where
  "vm_check_attr pml4 vma attr s = (case get_pde_by_vma pml4 vma s of
     Some pde \<Rightarrow> Ok (attr AND get_attrs_by_vma (rd64 (phys s) pde))
   | None \<Rightarrow> Fail NullDeref)"

definition vm_is_mapped :: "u64 \<Rightarrow> u64 \<Rightarrow> 'a vm_state_scheme \<Rightarrow> bool" where
  "vm_is_mapped as vma s = (let
     pml4e = get_pml4e as (PML4IDX vma) s
   in if e_present (rd64 (phys s) pml4e) = 0 then False
      else (let pdpe = get_pdpe pml4e (PDPIDX vma) s
        in if e_present (rd64 (phys s) pdpe) = 0 then False
           else e_present (rd64 (phys s) (get_pde pdpe (PDIDX vma) s)) \<noteq> 0))"

text \<open>The two loops of \<open>vm_alloc_vaddr\<close>; pointers wrap around at the end of the address
  space.\<close>

partial_function (option) vm_scan ::
    "(u64 \<Rightarrow> bool) \<Rightarrow> u64 \<Rightarrow> u64 \<Rightarrow> (bool \<times> u64) option" where
  "vm_scan mapped q lim =
     (if q < lim
      then if mapped q then Some (False, q) else vm_scan mapped (q + KMEM_PAGE_SIZE) lim
      else Some (True, q))"

partial_function (option) vm_alloc_loop ::
    "(u64 \<Rightarrow> bool) \<Rightarrow> u64 \<Rightarrow> u64 \<Rightarrow> u64 \<Rightarrow> u64 option" where
  "vm_alloc_loop mapped p vaddr_end sz =
     (if p < vaddr_end - sz
      then if mapped p then vm_alloc_loop mapped (p + KMEM_PAGE_SIZE) vaddr_end sz
           else Option.bind (vm_scan mapped p (p + sz)) (\<lambda>r.
             if fst r then Some p else vm_alloc_loop mapped (snd r) vaddr_end sz)
      else Some 0)"

definition vm_alloc_vaddr :: "u64 \<Rightarrow> u64 \<Rightarrow> u64 \<Rightarrow> u64 \<Rightarrow> 'a vm_state_scheme \<Rightarrow> u64 option" where
  "vm_alloc_vaddr as vaddr_begin vaddr_end sz s =
     vm_alloc_loop (\<lambda>va. vm_is_mapped as va s) vaddr_begin vaddr_end sz"

section \<open>Mapping and unmapping\<close>

definition alloc_pt :: "'a vm_state_scheme \<Rightarrow> (u64 \<times> 'a vm_state_scheme) res" where
  "alloc_pt s = pma_alloc s"

definition free_pt :: "u64 \<Rightarrow> 'a vm_state_scheme \<Rightarrow> 'a vm_state_scheme" where
  "free_pt pt s = pma_free pt KMEM_PAGE_SIZE s"

definition swap_cr3 :: "u64 \<Rightarrow> 'a vm_state_scheme \<Rightarrow> u64 \<times> 'a vm_state_scheme" where
  "swap_cr3 v s = (cr3 s, s\<lparr>cr3 := v\<rparr>)"

text \<open>The common part of the two middle levels of \<open>vm_map_page\<close>: when the entry is not
  present, allocate a table, clear its frame and link it.  The flag is false when the
  caller returns \<open>NULL\<close>.\<close>

definition ensure_table :: "u64 \<Rightarrow> 'a vm_state_scheme \<Rightarrow> (bool \<times> 'a vm_state_scheme) res" where
  "ensure_table e s =
     (if e_present (rd64 (phys s) e) \<noteq> 0 then Ok (True, s)
      else bind_res (alloc_pt s) (\<lambda>(pa, s).
        if pa = 0 then Ok (False, s)
        else (let
          s = phys_set pa 0 KMEM_PAGE_SIZE s;
          s = upd_entry e (set_rw 1) s;
          s = upd_entry e (set_present 1) s;
          s = upd_entry e (set_addr (drop_bit 12 pa)) s
        in Ok (True, s))))"

definition attr_privileged :: "u64 \<Rightarrow> u64" where
  "attr_privileged attr = drop_bit 2 attr XOR 1"

definition attr_rw :: "u64 \<Rightarrow> u64" where
  "attr_rw attr = drop_bit 1 attr AND 1"

definition attr_nx :: "u64 \<Rightarrow> u64" where
  "attr_nx attr = drop_bit 3 attr XOR 1"

definition attr_global :: "u64 \<Rightarrow> u64" where
  "attr_global attr = drop_bit 8 attr AND 1"

definition vm_map_page ::
    "u64 \<Rightarrow> u64 \<Rightarrow> u64 \<Rightarrow> u64 \<Rightarrow> 'a vm_state_scheme \<Rightarrow> (u64 \<times> 'a vm_state_scheme) res" where
  "vm_map_page as vma pma attr s = (let
     pml4e = get_pml4e as (PML4IDX vma) s
   in bind_res (ensure_table pml4e s) (\<lambda>(ok, s).
     if \<not> ok then Ok (0, s)
     else (let pdpe = get_pdpe pml4e (PDPIDX vma) s
       in bind_res (ensure_table pdpe s) (\<lambda>(ok, s).
         if \<not> ok then Ok (0, s)
         else (let pde = get_pde pdpe (PDIDX vma) s
           in if e_present (rd64 (phys s) pde) \<noteq> 0
              then if drop_bit 12 pma = e_addr (rd64 (phys s) pde) then Ok (vma, s)
                   else Fail (Panic ''remapping a mapped page'')
              else (let
                s = upd_entry pml4e (\<lambda>e. set_privileged (e_privileged e OR attr_privileged attr) e) s;
                s = upd_entry pml4e (\<lambda>e. set_rw (e_rw e OR attr_rw attr) e) s;
                s = upd_entry pml4e (\<lambda>e. set_nx (e_nx e AND attr_nx attr) e) s;
                s = upd_entry pdpe (set_privileged (attr_privileged attr)) s;
                s = upd_entry pdpe (set_rw (attr_rw attr)) s;
                s = upd_entry pdpe (set_nx (attr_nx attr)) s;
                s = upd_entry pde (set_present 1) s;
                s = upd_entry pde (set_privileged (attr_privileged attr)) s;
                s = upd_entry pde (set_page_size 1) s;
                s = upd_entry pde (set_rw (attr_rw attr)) s;
                s = upd_entry pde (set_nx (attr_nx attr)) s;
                s = upd_entry pde (set_global (attr_global attr)) s;
                s = upd_entry pde (set_addr (drop_bit 12 pma)) s
              in Ok (vma, s)))))))"

definition vm_unmap_page :: "u64 \<Rightarrow> u64 \<Rightarrow> 'a vm_state_scheme \<Rightarrow> (u64 \<times> 'a vm_state_scheme) res" where
  "vm_unmap_page as vma s = (let
     pml4e = get_pml4e as (PML4IDX vma) s
   in verify (e_present (rd64 (phys s) pml4e) \<noteq> 0) ''unmapping an non-existing page'' (let
     pdpe = get_pdpe pml4e (PDPIDX vma) s
   in verify (e_present (rd64 (phys s) pdpe) \<noteq> 0) ''unmapping an non-existing page'' (let
     pde = get_pde pdpe (PDIDX vma) s
   in verify (e_present (rd64 (phys s) pde) \<noteq> 0) ''unmapping an non-existing page'' (let
     ret = push_bit 12 (e_addr (rd64 (phys s) pde));
     s = s\<lparr>phys := wr64 pde 0 (phys s)\<rparr>
   in Ok (ret, s)))))"

partial_function (option) vm_unmap_loop ::
    "u64 \<Rightarrow> u64 \<Rightarrow> u64 \<Rightarrow> 'a vm_state_scheme \<Rightarrow> 'a vm_state_scheme res option" where
  "vm_unmap_loop as p e s =
     (if p < e
      then case vm_unmap_page as p s of
          Ok r \<Rightarrow> vm_unmap_loop as (p + KMEM_PAGE_SIZE) e (snd r)
        | Fail f \<Rightarrow> Some (Fail f)
      else Some (Ok s))"

definition vm_unmap_n :: "u64 \<Rightarrow> u64 \<Rightarrow> u64 \<Rightarrow> 'a vm_state_scheme \<Rightarrow> 'a vm_state_scheme res" where
  "vm_unmap_n as vma sz s =
     (if sz = 0 then Ok s
      else ends (vm_unmap_loop as (ALIGNDOWN vma KMEM_PAGE_SIZE) (vma + sz) s))"

definition vm_kern_map_page :: "u64 \<Rightarrow> u64 \<Rightarrow> 'a vm_state_scheme \<Rightarrow> (u64 \<times> 'a vm_state_scheme) res" where
  "vm_kern_map_page vma pma s =
     bind_res (mutex_acquire VmKernTableLock s) (\<lambda>s.
     bind_res (vm_map_page 0 vma pma
       (VM_PAGE_WRITABLE OR VM_PAGE_EXECUTABLE OR VM_PAGE_PRIVILEGED OR VM_PAGE_GLOBAL) s) (\<lambda>(ret, s).
     bind_res (mutex_release VmKernTableLock s) (\<lambda>s. Ok (ret, s))))"

partial_function (option) vm_kern_rollback ::
    "u64 \<Rightarrow> u64 \<Rightarrow> 'a vm_state_scheme \<Rightarrow> 'a vm_state_scheme res option" where
  "vm_kern_rollback rp vma s =
     (if rp < vma
      then case vm_unmap_page 0 rp s of
          Ok r \<Rightarrow> vm_kern_rollback (rp + KMEM_PAGE_SIZE) vma (pma_free (fst r) KMEM_PAGE_SIZE (snd r))
        | Fail f \<Rightarrow> Some (Fail f)
      else Some (Ok s))"

fun vm_kern_alloc_loop ::
    "nat \<Rightarrow> u64 \<Rightarrow> u64 \<Rightarrow> 'a vm_state_scheme \<Rightarrow> (u64 \<times> 'a vm_state_scheme) res" where
  "vm_kern_alloc_loop 0 ret vma s =
     bind_res (mutex_release VmKernTableLock s) (\<lambda>s. Ok (ret, s))"
| "vm_kern_alloc_loop (Suc n) ret vma s =
     bind_res (pma_alloc s) (\<lambda>(pma, s).
     let rollback = (\<lambda>s. bind_res (ends (vm_kern_rollback ret vma s)) (\<lambda>s.
           bind_res (mutex_release VmKernTableLock s) (\<lambda>s. Ok (0, s))))
     in if pma = 0 then rollback s
        else bind_res (vm_kern_map_page vma pma s) (\<lambda>(r, s).
          if r = 0 then rollback s
          else vm_kern_alloc_loop n ret (vma + KMEM_PAGE_SIZE) s))"

definition vm_kern_alloc_anywhere :: "u64 \<Rightarrow> 'a vm_state_scheme \<Rightarrow> (u64 \<times> 'a vm_state_scheme) res" where
  "vm_kern_alloc_anywhere sz s = (let
     page_count = DIV_CEIL sz KMEM_PAGE_SIZE
   in bind_res (mutex_acquire VmKernTableLock s) (\<lambda>s.
      case vm_alloc_vaddr 0 KERNEL_VADDR_BEGIN KERNEL_VADDR_END sz s of
        None \<Rightarrow> Fail NoReturn
      | Some vma \<Rightarrow>
          if vma = 0 then bind_res (mutex_release VmKernTableLock s) (\<lambda>s. Ok (0, s))
          else vm_kern_alloc_loop (unat page_count) vma vma s))"

section \<open>Whole address spaces\<close>

fun vm_empty_pd_loop :: "nat list \<Rightarrow> u64 \<Rightarrow> 'a vm_state_scheme \<Rightarrow> 'a vm_state_scheme" where
  "vm_empty_pd_loop [] pd s = s"
| "vm_empty_pd_loop (i # is) pd s = (let
     e = pd + 8 * of_nat i; v = rd64 (phys s) e
   in if e_present v = 0 then vm_empty_pd_loop is pd s
      else vm_empty_pd_loop is pd
        (upd_entry e (set_present 0) (pma_free (push_bit 12 (e_addr v)) KMEM_PAGE_SIZE s)))"

definition vm_empty_pd :: "u64 \<Rightarrow> 'a vm_state_scheme \<Rightarrow> 'a vm_state_scheme" where
  "vm_empty_pd pd = vm_empty_pd_loop [0..<512] pd"

fun vm_empty_pdp_loop :: "nat list \<Rightarrow> u64 \<Rightarrow> 'a vm_state_scheme \<Rightarrow> 'a vm_state_scheme" where
  "vm_empty_pdp_loop [] pdp s = s"
| "vm_empty_pdp_loop (i # is) pdp s = (let
     e = pdp + 8 * of_nat i; v = rd64 (phys s) e
   in if e_present v = 0 then vm_empty_pdp_loop is pdp s
      else (let
        s = vm_empty_pd (push_bit 12 (e_addr v)) s;
        s = free_pt (push_bit 12 (e_addr (rd64 (phys s) e))) s
      in vm_empty_pdp_loop is pdp (upd_entry e (set_present 0) s)))"

definition vm_empty_pdp :: "u64 \<Rightarrow> 'a vm_state_scheme \<Rightarrow> 'a vm_state_scheme" where
  "vm_empty_pdp pdp = vm_empty_pdp_loop [0..<512] pdp"

fun vm_empty_userland_loop :: "nat list \<Rightarrow> u64 \<Rightarrow> 'a vm_state_scheme \<Rightarrow> 'a vm_state_scheme" where
  "vm_empty_userland_loop [] pml4 s = s"
| "vm_empty_userland_loop (i # is) pml4 s = (let
     e = pml4 + 8 * of_nat i; v = rd64 (phys s) e
   in if e_present v = 0 then vm_empty_userland_loop is pml4 s
      else (let
        s = vm_empty_pdp (push_bit 12 (e_addr v)) s;
        s = upd_entry e (set_present 0) s
      in vm_empty_userland_loop is pml4 (free_pt (push_bit 12 (e_addr (rd64 (phys s) e))) s)))"

definition vm_empty_userland :: "u64 \<Rightarrow> 'a vm_state_scheme \<Rightarrow> 'a vm_state_scheme" where
  "vm_empty_userland pml4 = vm_empty_userland_loop [0..<256] pml4"

text \<open>The flag of the clone loops is false when the function returns 0.\<close>

fun vm_clone_pd_loop ::
    "nat list \<Rightarrow> u64 \<Rightarrow> u64 \<Rightarrow> 'a vm_state_scheme \<Rightarrow> (bool \<times> 'a vm_state_scheme) res" where
  "vm_clone_pd_loop [] src_pd dst_pd s = Ok (True, s)"
| "vm_clone_pd_loop (i # is) src_pd dst_pd s =
     (if e_present (rd64 (phys s) (src_pd + 8 * of_nat i)) = 0
      then vm_clone_pd_loop is src_pd dst_pd s
      else bind_res (pma_alloc s) (\<lambda>(pm, s).
        if pm = 0 then Ok (False, s)
        else (let
          src_page = push_bit 12 (e_addr (rd64 (phys s) (src_pd + 8 * of_nat i)));
          s = phys_copy pm src_page KMEM_PAGE_SIZE s;
          s = upd_entry (dst_pd + 8 * of_nat i) (set_addr (drop_bit 12 pm)) s
        in vm_clone_pd_loop is src_pd dst_pd s)))"

definition vm_clone_pd :: "u64 \<Rightarrow> 'a vm_state_scheme \<Rightarrow> (u64 \<times> 'a vm_state_scheme) res" where
  "vm_clone_pd pd_paddr s = bind_res (alloc_pt s) (\<lambda>(ret, s).
     if ret = 0 then Ok (0, s)
     else if vm_get_vma_for_pma ret = 0 then Ok (0, free_pt ret s)
     else bind_res (vm_clone_pd_loop [0..<512] pd_paddr ret (phys_copy ret pd_paddr 4096 s))
       (\<lambda>(ok, s). Ok (if ok then ret else 0, s)))"

fun vm_clone_pdp_loop ::
    "nat list \<Rightarrow> u64 \<Rightarrow> u64 \<Rightarrow> 'a vm_state_scheme \<Rightarrow> (bool \<times> 'a vm_state_scheme) res" where
  "vm_clone_pdp_loop [] src_pdp dst_pdp s = Ok (True, s)"
| "vm_clone_pdp_loop (i # is) src_pdp dst_pdp s = (let
     v = rd64 (phys s) (src_pdp + 8 * of_nat i)
   in if e_present v = 0 then vm_clone_pdp_loop is src_pdp dst_pdp s
      else bind_res (vm_clone_pd (push_bit 12 (e_addr v)) s) (\<lambda>(pm, s).
        if pm = 0 then Ok (False, s)
        else vm_clone_pdp_loop is src_pdp dst_pdp
          (upd_entry (dst_pdp + 8 * of_nat i) (set_addr (drop_bit 12 pm)) s)))"

definition vm_clone_pdp :: "u64 \<Rightarrow> 'a vm_state_scheme \<Rightarrow> (u64 \<times> 'a vm_state_scheme) res" where
  "vm_clone_pdp pdp_paddr s = bind_res (alloc_pt s) (\<lambda>(ret, s).
     if ret = 0 then Ok (0, s)
     else if vm_get_vma_for_pma ret = 0 then Ok (0, free_pt ret s)
     else bind_res (vm_clone_pdp_loop [0..<512] pdp_paddr ret (phys_copy ret pdp_paddr 4096 s))
       (\<lambda>(ok, s). Ok (if ok then ret else 0, s)))"

text \<open>The roll-back empties the table behind entry \<open>i\<close> on each of its rounds \<open>j\<close>.\<close>

fun vm_clone_rollback ::
    "nat list \<Rightarrow> nat \<Rightarrow> u64 \<Rightarrow> 'a vm_state_scheme \<Rightarrow> 'a vm_state_scheme" where
  "vm_clone_rollback [] i dst_pml4 s = s"
| "vm_clone_rollback (j # js) i dst_pml4 s = (let
     s = vm_empty_pdp (table_next (phys s) dst_pml4 (of_nat i)) s;
     s = free_pt (table_next (phys s) dst_pml4 (of_nat j)) s
   in vm_clone_rollback js i dst_pml4 s)"

fun vm_clone_pml4_loop ::
    "nat list \<Rightarrow> u64 \<Rightarrow> u64 \<Rightarrow> 'a vm_state_scheme \<Rightarrow> (bool \<times> 'a vm_state_scheme) res" where
  "vm_clone_pml4_loop [] src_pml4 dst_pml4 s = Ok (True, s)"
| "vm_clone_pml4_loop (i # is) src_pml4 dst_pml4 s = (let
     v = rd64 (phys s) (src_pml4 + 8 * of_nat i)
   in if e_present v = 0 then vm_clone_pml4_loop is src_pml4 dst_pml4 s
      else bind_res (vm_clone_pdp (push_bit 12 (e_addr v)) s) (\<lambda>(pm, s).
        if pm = 0 then Ok (False, vm_clone_rollback [0..<i] i dst_pml4 s)
        else vm_clone_pml4_loop is src_pml4 dst_pml4
          (upd_entry (dst_pml4 + 8 * of_nat i) (set_addr (drop_bit 12 pm)) s)))"

definition vm_clone_pml4 :: "u64 \<Rightarrow> u64 \<Rightarrow> 'a vm_state_scheme \<Rightarrow> (u64 \<times> 'a vm_state_scheme) res" where
  "vm_clone_pml4 src_paddr dst_paddr s =
     (if vm_get_vma_for_pma dst_paddr = 0 then Ok (0, free_pt dst_paddr s)
      else bind_res (vm_clone_pml4_loop [0..<256] src_paddr dst_paddr
          (phys_copy dst_paddr src_paddr 4096 s))
        (\<lambda>(ok, s). Ok (if ok then dst_paddr else 0, s)))"

section \<open>The direct map\<close>

definition vm_init_page :: "u64 \<Rightarrow> 'a vm_state_scheme \<Rightarrow> 'a vm_state_scheme res" where
  "vm_init_page p s = (let
     va = p + PM_MAP_BASE;
     pml4e = RECURSIVE_PML4 s + 8 * PML4IDX va
   in bind_res
       (if e_present (rd64 (phys s) pml4e) \<noteq> 0 then Ok s
        else bind_res (alloc_pt s) (\<lambda>(pt, s). (let
          s = upd_entry pml4e (set_present 1) s;
          s = upd_entry pml4e (set_addr (drop_bit 12 pt)) s
        in Ok (phys_set (RECURSIVE_PDP va s) 0 4096 s))))
     (\<lambda>s. let pdpe = RECURSIVE_PDP va s + 8 * PDPIDX va
     in bind_res
       (if e_present (rd64 (phys s) pdpe) \<noteq> 0 then Ok s
        else bind_res (alloc_pt s) (\<lambda>(pt, s). (let
          s = upd_entry pdpe (set_present 1) s;
          s = upd_entry pdpe (set_addr (drop_bit 12 pt)) s
        in Ok (phys_set (RECURSIVE_PD va s) 0 4096 s))))
     (\<lambda>s. let
       pd = RECURSIVE_PD va s + 8 * PDIDX va;
       s = upd_entry pd (set_page_size 1) s;
       s = upd_entry pd (set_present 1) s;
       s = upd_entry pd (set_global 1) s;
       s = upd_entry pd (set_addr (drop_bit 12 p)) s
     in Ok s)))"

partial_function (option) vm_init_loop ::
    "u64 \<Rightarrow> 'a vm_state_scheme \<Rightarrow> 'a vm_state_scheme res option" where
  "vm_init_loop p s =
     (if p < pm_upper_limit s
      then case vm_init_page p s of
          Ok s' \<Rightarrow> vm_init_loop (p + KMEM_PAGE_SIZE) s'
        | Fail f \<Rightarrow> Some (Fail f)
      else Some (Ok s))"

definition vm_init :: "'a vm_state_scheme \<Rightarrow> 'a vm_state_scheme res" where
  "vm_init s = ends (vm_init_loop 0 (mutex_init VmKernTableLock s))"

end
