(* ===== verification/Paging_Map.thy ===== *)
theory Paging_Map
  imports K_paging
begin

text \<open>
  The page tables of one address space as a map from pages to entries: the tables form a
  tree of distinct frames in use (\<open>tables_wf\<close>), and \<open>vm_map_page\<close> and \<open>vm_unmap_page\<close>
  are update and deletion of that map.  Slot 256, which points back to the root, is not
  part of the tree.
\<close>

section \<open>The tree of tables\<close>

datatype node = N4 | N3 u64 | N2 u64 u64

definition tbl_below :: "mem \<Rightarrow> u64 \<Rightarrow> u64 \<Rightarrow> u64 option" where
  "tbl_below m p i =
     (if i < 512 \<and> e_present (rd64 m (p + 8 * i)) \<noteq> 0 then Some (table_next m p i) else None)"

fun tbl :: "mem \<Rightarrow> u64 \<Rightarrow> node \<Rightarrow> u64 option" where
  "tbl m root N4 = Some root"
| "tbl m root (N3 i) = (if i \<noteq> 256 then tbl_below m root i else None)"
| "tbl m root (N2 i j) =
     (if i \<noteq> 256 then Option.bind (tbl_below m root i) (\<lambda>p. tbl_below m p j) else None)"

definition frame_of :: "u64 \<Rightarrow> nat" where
  "frame_of t = unat t div 2097152"

definition tables_wf :: "(nat \<Rightarrow> u8) \<Rightarrow> mem \<Rightarrow> u64 \<Rightarrow> bool" where
  "tables_wf pm m root \<longleftrightarrow> 4096 dvd unat root \<and>
     (\<forall>n n' t. tbl m root n = Some t \<and> tbl m root n' = Some t \<longrightarrow> n = n') \<and>
     (\<forall>n t. tbl m root n = Some t \<longrightarrow> pm (frame_of t) \<noteq> 0)"

text \<open>The map: the entry of the page with the given three indices.\<close>

definition vm_pages :: "mem \<Rightarrow> u64 \<Rightarrow> u64 \<times> u64 \<times> u64 \<Rightarrow> u64 option" where
  "vm_pages m root = (\<lambda>(i, j, k). case tbl m root (N2 i j) of None \<Rightarrow> None
     | Some p \<Rightarrow> let e = rd64 m (p + 8 * k) in if e_present e = 0 then None else Some e)"

definition page_of :: "u64 \<Rightarrow> u64 \<times> u64 \<times> u64" where
  "page_of va = (PML4IDX va, PDPIDX va, PDIDX va)"

section \<open>Fields of an entry\<close>

lemmas entry_defs = e_present_def e_rw_def e_privileged_def e_page_size_def e_global_def
  e_addr_def e_nx_def set_present_def set_rw_def set_privileged_def set_page_size_def
  set_global_def set_addr_def set_nx_def

lemma entry_get_set [simp]:
  "e_present (set_present v e) = take_bit 1 v" "e_present (set_rw v e) = e_present e"
  "e_present (set_privileged v e) = e_present e" "e_present (set_page_size v e) = e_present e"
  "e_present (set_global v e) = e_present e" "e_present (set_addr v e) = e_present e"
  "e_present (set_nx v e) = e_present e"
  "e_rw (set_rw v e) = take_bit 1 v" "e_rw (set_present v e) = e_rw e"
  "e_rw (set_privileged v e) = e_rw e" "e_rw (set_page_size v e) = e_rw e"
  "e_rw (set_global v e) = e_rw e" "e_rw (set_addr v e) = e_rw e" "e_rw (set_nx v e) = e_rw e"
  "e_addr (set_addr v e) = take_bit 40 v" "e_addr (set_present v e) = e_addr e"
  "e_addr (set_rw v e) = e_addr e" "e_addr (set_privileged v e) = e_addr e"
  "e_addr (set_page_size v e) = e_addr e" "e_addr (set_global v e) = e_addr e"
  "e_addr (set_nx v e) = e_addr e"
  by (simp_all add: entry_defs bf_get_set_same bf_get_set_other)

lemma entry_get_set_flags [simp]:
  "e_privileged (set_privileged v e) = take_bit 1 v" "e_privileged (set_present v e) = e_privileged e"
  "e_privileged (set_rw v e) = e_privileged e" "e_privileged (set_page_size v e) = e_privileged e"
  "e_privileged (set_global v e) = e_privileged e" "e_privileged (set_addr v e) = e_privileged e"
  "e_privileged (set_nx v e) = e_privileged e"
  "e_nx (set_nx v e) = take_bit 1 v" "e_nx (set_present v e) = e_nx e"
  "e_nx (set_rw v e) = e_nx e" "e_nx (set_page_size v e) = e_nx e"
  "e_nx (set_global v e) = e_nx e" "e_nx (set_addr v e) = e_nx e"
  "e_nx (set_privileged v e) = e_nx e"
  "e_global (set_global v e) = take_bit 1 v" "e_global (set_present v e) = e_global e"
  "e_global (set_rw v e) = e_global e" "e_global (set_page_size v e) = e_global e"
  "e_global (set_nx v e) = e_global e" "e_global (set_addr v e) = e_global e"
  "e_global (set_privileged v e) = e_global e"
  by (simp_all add: entry_defs bf_get_set_same bf_get_set_other)

lemma e_zero [simp]: "e_present 0 = 0"
  by (simp add: entry_defs)

lemma PML4IDX_less [simp]: "PML4IDX va < 512"
  and PDPIDX_less [simp]: "PDPIDX va < 512"
  and PDIDX_less [simp]: "PDIDX va < 512"
  unfolding PML4IDX_def PDPIDX_def PDIDX_def
  by (rule le_less_trans[OF word_and_le1], simp)+

section \<open>Addresses of entries\<close>

lemma aligned_push_bit: "4096 dvd unat (push_bit 12 (x :: u64))"
proof -
  have "unat (push_bit 12 x) = (unat x * 4096) mod 2 ^ 64"
    by (simp add: push_bit_eq_mult unat_word_ariths(2) mult.commute)
  also have "\<dots> = 4096 * (unat x mod 2 ^ 52)" using mod_mult_mult1[of 4096 "unat x" "2 ^ 52"]
    by (simp add: mult.commute)
  finally show ?thesis by simp
qed

lemma entry_addr:
  assumes "4096 dvd unat (t :: u64)" "k < 512"
  shows "unat (t + 8 * k) = unat t + 8 * unat k"
proof -
  obtain c where c: "unat t = 4096 * c" using assms(1) by blast
  have k: "unat k < 512" using assms(2) by (simp add: word_less_nat_alt)
  have "unat (8 * k) = 8 * unat k" using k by (simp add: unat_word_ariths(2))
  moreover have "4096 * c + 8 * unat k < 2 ^ 64" using c k unat_u64_less[of t] by simp
  ultimately show ?thesis using unat_add_no_wrap[of t "8 * k"] c by simp
qed

lemma entry_aligned: "4096 dvd unat (t :: u64) \<Longrightarrow> k < 512 \<Longrightarrow> 8 dvd unat (t + 8 * k)"
  unfolding entry_addr by (rule dvd_add) (auto intro: dvd_trans[of 8 4096])

lemma entry_inj:
  assumes "4096 dvd unat (t :: u64)" "k < 512" "4096 dvd unat t'" "k' < 512"
    and eq: "t + 8 * k = t' + 8 * k'"
  shows "t = t' \<and> k = k'"
proof -
  have "unat (t + 8 * k) = unat (t' + 8 * k')" by (rule arg_cong[OF eq])
  then have e: "unat t + 8 * unat k = unat t' + 8 * unat k'"
    unfolding entry_addr[OF assms(1,2)] entry_addr[OF assms(3,4)] .
  have k: "unat k < 512" "unat k' < 512" using assms(2,4) by (simp_all add: word_less_nat_alt)
  obtain c c' where c: "unat t = 4096 * c" "unat t' = 4096 * c'" using assms(1,3) by (meson dvdE)
  have "c = c'" using e k unfolding c by linarith
  with e c have "unat t = unat t'" "unat k = unat k'" by simp_all
  then show ?thesis by (simp add: word_unat_eq_iff)
qed

lemma table_next_aligned: "4096 dvd unat (table_next m p i)"
  unfolding table_next_def by (rule aligned_push_bit)

lemma tbl_aligned: "tables_wf pm m root \<Longrightarrow> tbl m root n = Some t \<Longrightarrow> 4096 dvd unat t"
  by (cases n) (auto simp: tables_wf_def tbl_below_def table_next_aligned bind_eq_Some_conv split: if_splits)

lemma tbl_N2: "tbl m root (N2 i j) = Option.bind (tbl m root (N3 i)) (\<lambda>p. tbl_below m p j)"
  by simp

lemma tbl_inj: "tables_wf pm m root \<Longrightarrow> tbl m root n = Some t \<Longrightarrow> tbl m root n' = Some t \<Longrightarrow> n = n'"
  unfolding tables_wf_def by blast

section \<open>Stores into the tables\<close>

lemma write_entry_other:
  assumes wf: "tables_wf pm m root" and n: "tbl m root n = Some t" "k < 512"
    and n': "tbl m root n' = Some t'" "k' < 512" and ne: "(n, k) \<noteq> (n', k')"
  shows "rd64 (wr64 (t + 8 * k) v m) (t' + 8 * k') = rd64 m (t' + 8 * k')"
proof (rule rd64_wr64_other)
  note a = tbl_aligned[OF wf n(1)] and a' = tbl_aligned[OF wf n'(1)]
  show "8 dvd unat (t + 8 * k)" "8 dvd unat (t' + 8 * k')"
    using entry_aligned a a' n n' by blast+
  show "t + 8 * k \<noteq> t' + 8 * k'"
    using entry_inj[OF a n(2) a' n'(2)] tbl_inj[OF wf n(1)] n'(1) ne by blast
qed

definition same_link :: "u64 \<Rightarrow> u64 \<Rightarrow> bool" where
  "same_link v e \<longleftrightarrow> e_present v = e_present e \<and> e_addr v = e_addr e"

definition is_leaf :: "node \<Rightarrow> bool" where
  "is_leaf n = (case n of N2 _ _ \<Rightarrow> True | _ \<Rightarrow> False)"

lemma tbl_write:
  assumes wf: "tables_wf pm m root" and n: "tbl m root n = Some t" "k < 512"
    and v: "is_leaf n \<or> same_link v (rd64 m (t + 8 * k))"
  shows "tbl (wr64 (t + 8 * k) v m) root n' = tbl m root n'"
proof -
  let ?m = "wr64 (t + 8 * k) v m"
  have link: "tbl_below ?m p i = tbl_below m p i"
    if "tbl m root q = Some p" "\<not> is_leaf q" for q p i
  proof (cases "i < 512 \<and> (n, k) \<noteq> (q, i)")
    case True
    then show ?thesis using write_entry_other[OF wf n that(1)] by (simp add: tbl_below_def table_next_def)
  next
    case False
    then have "\<not> i < 512 \<or> n = q \<and> t = p \<and> i = k" using that(1) n(1) by auto
    then show ?thesis using v that(2) by (auto simp: tbl_below_def table_next_def same_link_def)
  qed
  have n3: "tbl ?m root (N3 i) = tbl m root (N3 i)" for i
    using link[of N4 root i] by (simp add: is_leaf_def)
  show ?thesis
  proof (cases n')
    case (N2 i j)
    show ?thesis
      unfolding N2 tbl_N2 n3 using link[of "N3 i" _ j]
      by (cases "tbl m root (N3 i)") (simp_all add: is_leaf_def del: tbl.simps)
  qed (use n3 in simp_all)
qed

lemma tables_wf_cong:
  assumes "tables_wf pm m root" "\<And>n. tbl m' root n = tbl m root n" "\<And>i. pm i \<noteq> 0 \<Longrightarrow> pm' i \<noteq> 0"
  shows "tables_wf pm' m' root"
  using assms unfolding tables_wf_def by metis

lemma vm_pages_write_leaf:
  assumes wf: "tables_wf pm m root" and n: "tbl m root (N2 i j) = Some t" "k < 512"
    and q: "i' < 512" "j' < 512" "k' < 512"
  shows "vm_pages (wr64 (t + 8 * k) v m) root (i', j', k') =
    (if (i', j', k') = (i, j, k) then if e_present v = 0 then None else Some v
     else vm_pages m root (i', j', k'))"
proof -
  let ?m = "wr64 (t + 8 * k) v m"
  have tb: "tbl ?m root n' = tbl m root n'" for n'
    by (rule tbl_write[OF wf n]) (simp add: is_leaf_def)
  show ?thesis
  proof (cases "tbl m root (N2 i' j')")
    case None
    then show ?thesis using n(1) by (auto simp: vm_pages_def tb simp del: tbl.simps)
  next
    case (Some t')
    show ?thesis
    proof (cases "(i', j', k') = (i, j, k)")
      case True
      then show ?thesis using n(1) by (simp add: vm_pages_def tb del: tbl.simps)
    next
      case False
      then have "rd64 ?m (t' + 8 * k') = rd64 m (t' + 8 * k')"
        by (intro write_entry_other[OF wf n Some q(3)]) auto
      then show ?thesis using False Some by (auto simp: vm_pages_def tb simp del: tbl.simps)
    qed
  qed
qed

lemma vm_pages_write_link:
  assumes wf: "tables_wf pm m root" and n: "tbl m root n = Some t" "k < 512" "\<not> is_leaf n"
    and v: "same_link v (rd64 m (t + 8 * k))" and q: "k' < 512"
  shows "vm_pages (wr64 (t + 8 * k) v m) root (i', j', k') = vm_pages m root (i', j', k')"
proof -
  let ?m = "wr64 (t + 8 * k) v m"
  have tb: "tbl ?m root n' = tbl m root n'" for n'
    by (rule tbl_write[OF wf n(1,2)]) (simp add: v)
  show ?thesis
  proof (cases "tbl m root (N2 i' j')")
    case None
    then show ?thesis by (simp add: vm_pages_def tb del: tbl.simps)
  next
    case (Some t')
    have "rd64 ?m (t' + 8 * k') = rd64 m (t' + 8 * k')"
      by (rule write_entry_other[OF wf n(1,2) Some q]) (use n(3) in \<open>auto simp: is_leaf_def\<close>)
    then show ?thesis using Some by (simp add: vm_pages_def tb del: tbl.simps)
  qed
qed

section \<open>Fresh frames\<close>

lemma page_addr_roundtrip:
  assumes "4096 dvd unat (f :: u64)" "unat f < 2 ^ 52"
  shows "push_bit 12 (take_bit 40 (drop_bit 12 f)) = f"
proof -
  have "unat (take_bit 12 f) = 0"
    unfolding unsigned_take_bit_eq unfolding take_bit_eq_mod using assms(1) by simp
  then have lo: "\<not> bit f n" if "n < 12" for n
    using that bit_take_bit_iff[of 12 f n] by (simp add: unat_eq_0)
  have "unat (take_bit 52 f) = unat f"
    unfolding unsigned_take_bit_eq unfolding take_bit_eq_mod using assms(2) by simp
  then have "take_bit 52 f = f" by (simp add: word_unat_eq_iff)
  then have hi: "\<not> bit f n" if "52 \<le> n" for n
    using that bit_take_bit_iff[of 52 f n] by simp
  show ?thesis
  proof (rule bit_word_eqI)
    fix n assume "n < LENGTH(64)"
    then show "bit (push_bit 12 (take_bit 40 (drop_bit 12 f))) n = bit f n"
      using lo[of n] hi[of n]
      by (cases "12 \<le> n \<and> n < 52") (auto simp: bit_push_bit_iff bit_take_bit_iff bit_drop_bit_eq)
  qed
qed

lemma frame_aligned:
  assumes "i < PM_MAP_ELEMENTS"
  shows "4096 dvd unat (of_nat i * KMEM_PAGE_SIZE)" "unat (of_nat i * KMEM_PAGE_SIZE) < 2 ^ 52"
    "frame_of (of_nat i * KMEM_PAGE_SIZE) = i"
proof -
  have e: "unat (of_nat i * KMEM_PAGE_SIZE) = i * 2097152" by (rule frame_addr(1)[OF assms])
  have "i * 2097152 = 4096 * (i * 512)" by simp
  then show "4096 dvd unat (of_nat i * KMEM_PAGE_SIZE)" unfolding e by (metis dvd_triv_left)
  show "unat (of_nat i * KMEM_PAGE_SIZE) < 2 ^ 52" unfolding e using assms by (simp add: PM_MAP_ELEMENTS_def)
  show "frame_of (of_nat i * KMEM_PAGE_SIZE) = i" unfolding frame_of_def e by simp
qed

lemma frame_far:
  assumes "i < PM_MAP_ELEMENTS" "frame_of x \<noteq> i"
  shows "2097152 \<le> unat (x - of_nat i * KMEM_PAGE_SIZE)"
proof -
  define f where "f = of_nat i * KMEM_PAGE_SIZE"
  have e: "unat f = i * 2097152" unfolding f_def by (rule frame_addr(1)[OF assms(1)])
  have f: "i * 2097152 \<le> 8796093022208" using assms(1) by (simp add: PM_MAP_ELEMENTS_def)
  show ?thesis
  proof (cases "f \<le> x")
    case True
    then have "i * 2097152 \<le> unat x" using e by (simp add: word_le_nat_alt)
    then have "i \<le> frame_of x" unfolding frame_of_def by (simp add: less_eq_div_iff_mult_less_eq)
    then have "Suc i \<le> frame_of x" using assms(2) by simp
    then have "Suc i * 2097152 \<le> unat x" unfolding frame_of_def by (simp add: less_eq_div_iff_mult_less_eq)
    then show ?thesis using unat_sub_le[OF True] e by (simp add: f_def)
  next
    case False
    then have "unat x < unat f" by (simp add: word_le_nat_alt)
    then show ?thesis using unat_sub_wrap[of x f] e f by (simp add: f_def)
  qed
qed

lemma frame_of_entry:
  assumes "4096 dvd unat (t :: u64)" "k < 512" "q < 8"
  shows "frame_of (t + 8 * k + of_nat q) = frame_of t"
proof -
  obtain c where c: "unat t = 4096 * c" using assms(1) by blast
  have k: "unat k < 512" using assms(2) by (simp add: word_less_nat_alt)
  have q: "unat (of_nat q :: u64) = q" using assms(3) by (simp add: unat_of_nat)
  have lt: "4096 * c + 8 * unat k + q < 2 ^ 64" using c k assms(3) unat_u64_less[of t] by simp
  have "unat (t + 8 * k + of_nat q) = 4096 * c + (8 * unat k + q)"
    using unat_add_no_wrap[of "t + 8 * k" "of_nat q"] lt q
    unfolding entry_addr[OF assms(1,2)] c by simp
  moreover have "8 * unat k + q < 4096" using k assms(3) by simp
  ultimately show ?thesis
    unfolding frame_of_def c using div_mult2_eq[of _ 4096 512] by simp
qed

lemma fill_entry_other:
  assumes wf: "tables_wf pm m root" and n: "tbl m root n = Some t" "k < 512"
    and f: "i < PM_MAP_ELEMENTS" "pm i = 0"
  shows "rd64 (filled 2097152 (of_nat i * KMEM_PAGE_SIZE) c m) (t + 8 * k) = rd64 m (t + 8 * k)"
proof (rule rd64_filled_outside)
  fix q :: nat assume "q < 8"
  then have "frame_of (t + 8 * k + of_nat q) = frame_of t"
    by (rule frame_of_entry[OF tbl_aligned[OF wf n(1)] n(2)])
  moreover have "pm (frame_of t) \<noteq> 0" using wf n(1) unfolding tables_wf_def by blast
  ultimately show "2097152 \<le> unat (t + 8 * k + of_nat q - of_nat i * KMEM_PAGE_SIZE)"
    using f by (intro frame_far) auto
qed

lemma tbl_fill:
  assumes wf: "tables_wf pm m root" and f: "i < PM_MAP_ELEMENTS" "pm i = 0"
  shows "tbl (filled 2097152 (of_nat i * KMEM_PAGE_SIZE) c m) root n = tbl m root n"
    (is "tbl ?m _ _ = _")
proof -
  have link: "tbl_below ?m p j = tbl_below m p j" if "tbl m root q = Some p" for q p j
    using fill_entry_other[OF wf that _ f, of j c]
    by (cases "j < 512") (simp_all add: tbl_below_def table_next_def)
  have n3: "tbl ?m root (N3 j) = tbl m root (N3 j)" for j using link[of N4 root j] by simp
  show ?thesis
  proof (cases n)
    case (N2 a b)
    show ?thesis unfolding N2 tbl_N2 n3 using link[of "N3 a" _ b]
      by (cases "tbl m root (N3 a)") (simp_all del: tbl.simps)
  qed (use n3 in simp_all)
qed

lemma vm_pages_fill:
  assumes wf: "tables_wf pm m root" and f: "i < PM_MAP_ELEMENTS" "pm i = 0" and k: "k < 512"
  shows "vm_pages (filled 2097152 (of_nat i * KMEM_PAGE_SIZE) c m) root (a, b, k) = vm_pages m root (a, b, k)"
  using fill_entry_other[OF wf _ k f, of "N2 a b" _ c]
  by (cases "tbl m root (N2 a b)") (simp_all add: vm_pages_def tbl_fill[OF wf f] del: tbl.simps)

text \<open>Memory outside the frames of the tables does not matter to the map.\<close>

lemma tbl_frames_cong:
  assumes wf: "tables_wf pm m root"
    and eq: "\<And>n t a. tbl m root n = Some t \<Longrightarrow> frame_of a = frame_of t \<Longrightarrow> m' a = m a"
  shows "tbl m' root n = tbl m root n" and "k < 512 \<Longrightarrow> vm_pages m' root (i, j, k) = vm_pages m root (i, j, k)"
proof -
  have rd: "rd64 m' (t + 8 * k) = rd64 m (t + 8 * k)" if "tbl m root q = Some t" "k < 512" for q t k
    by (rule rd64_cong) (rule eq[OF that(1)], rule frame_of_entry[OF tbl_aligned[OF wf that(1)] that(2)])
  have link: "tbl_below m' p j = tbl_below m p j" if "tbl m root q = Some p" for q p j
    using rd[OF that, of j] by (cases "j < 512") (simp_all add: tbl_below_def table_next_def)
  have n3: "tbl m' root (N3 j) = tbl m root (N3 j)" for j using link[of N4 root j] by simp
  show T: "tbl m' root n = tbl m root n" for n
  proof (cases n)
    case (N2 a b)
    show ?thesis unfolding N2 tbl_N2 n3 using link[of "N3 a" _ b]
      by (cases "tbl m root (N3 a)") (simp_all del: tbl.simps)
  qed (use n3 in simp_all)
  show "vm_pages m' root (i, j, k) = vm_pages m root (i, j, k)" if "k < 512"
    using rd[of "N2 i j" _ k] T[of "N2 i j"] that
    by (cases "tbl m root (N2 i j)") (simp_all add: vm_pages_def del: tbl.simps)
qed

section \<open>Linking a fresh table\<close>

definition link_entry :: "u64 \<Rightarrow> u64 \<Rightarrow> u64" where
  "link_entry f e = set_addr (drop_bit 12 f) (set_present 1 (set_rw 1 e))"

lemma link_entry [simp]:
  assumes "i < PM_MAP_ELEMENTS"
  shows "e_present (link_entry (of_nat i * KMEM_PAGE_SIZE) e) = 1"
    "push_bit 12 (e_addr (link_entry (of_nat i * KMEM_PAGE_SIZE) e)) = of_nat i * KMEM_PAGE_SIZE"
  using page_addr_roundtrip[OF frame_aligned(1,2)[OF assms]] by (simp_all add: link_entry_def)

text \<open>The memory after \<open>ensure_table\<close> has cleared frame \<open>i\<close> and linked it at entry \<open>k\<close> of \<open>t\<close>.\<close>

definition linked :: "nat \<Rightarrow> u64 \<Rightarrow> mem \<Rightarrow> mem" where
  "linked i e m = (let m1 = filled 2097152 (of_nat i * KMEM_PAGE_SIZE) 0 m
     in wr64 e (link_entry (of_nat i * KMEM_PAGE_SIZE) (rd64 m1 e)) m1)"

lemma fresh_entry:
  assumes "k < 512"
  shows "rd64 (filled 2097152 f 0 m) (f + 8 * k) = 0"
proof (rule rd64_filled_inside)
  have "unat k < 512" using assms by (simp add: word_less_nat_alt)
  then show "unat (f + 8 * k - f) + 8 \<le> 2097152" by (simp add: unat_word_ariths(2))
qed simp

lemma linked_reads:
  assumes wf: "tables_wf pm m root" and n: "tbl m root n = Some t" "k < 512"
    and f: "i < PM_MAP_ELEMENTS" "pm i = 0"
  defines "m' \<equiv> linked i (t + 8 * k) m"
  shows "tbl_below m' t k = Some (of_nat i * KMEM_PAGE_SIZE)"
    and "tbl m root n' = Some t' \<Longrightarrow> k' < 512 \<Longrightarrow> (n, k) \<noteq> (n', k') \<Longrightarrow>
      rd64 m' (t' + 8 * k') = rd64 m (t' + 8 * k')"
    and "k' < 512 \<Longrightarrow> rd64 m' (of_nat i * KMEM_PAGE_SIZE + 8 * k') = 0"
proof -
  let ?f = "of_nat i * KMEM_PAGE_SIZE"
  let ?m1 = "filled 2097152 ?f 0 m"
  let ?v = "link_entry ?f (rd64 ?m1 (t + 8 * k))"
  have m': "m' = wr64 (t + 8 * k) ?v ?m1" by (simp add: m'_def linked_def Let_def)
  have wf1: "tables_wf pm ?m1 root" by (rule tables_wf_cong[OF wf tbl_fill[OF wf f]])
  have n1: "tbl ?m1 root n = Some t" using n(1) tbl_fill[OF wf f] by simp
  have "rd64 m' (t + 8 * k) = ?v" by (simp add: m')
  then show "tbl_below m' t k = Some ?f" using n(2) f(1) by (simp add: tbl_below_def table_next_def)
  show "rd64 m' (t' + 8 * k') = rd64 m (t' + 8 * k')"
    if "tbl m root n' = Some t'" "k' < 512" "(n, k) \<noteq> (n', k')"
    using write_entry_other[OF wf1 n1 n(2) _ that(2,3), of t' ?v] tbl_fill[OF wf f] that
      fill_entry_other[OF wf that(1,2) f] by (simp add: m')
  show "rd64 m' (?f + 8 * k') = 0" if k': "k' < 512"
  proof -
    have al: "4096 dvd unat t" by (rule tbl_aligned[OF wf n(1)])
    have "pm (frame_of t) \<noteq> 0" using wf n(1) unfolding tables_wf_def by blast
    then have "t \<noteq> ?f" using f frame_aligned(3)[OF f(1)] by metis
    then have "t + 8 * k \<noteq> ?f + 8 * k'"
      using entry_inj[OF al n(2) frame_aligned(1)[OF f(1)] k'] by blast
    then have "rd64 m' (?f + 8 * k') = rd64 ?m1 (?f + 8 * k')"
      unfolding m' by (intro rd64_wr64_other entry_aligned al n(2) frame_aligned(1)[OF f(1)] k')
    then show ?thesis using fresh_entry[OF k'] by simp
  qed
qed

text \<open>\<open>child n k\<close> is the node below entry \<open>k\<close> of \<open>n\<close>.\<close>

fun child :: "node \<Rightarrow> u64 \<Rightarrow> node" where
  "child N4 k = N3 k"
| "child (N3 i) k = N2 i k"
| "child (N2 i j) k = N2 i j"

lemma tbl_child:
  assumes "\<not> is_leaf n" "tbl m root n = Some t" "n = N4 \<Longrightarrow> k \<noteq> 256"
  shows "tbl m root (child n k) = tbl_below m t k"
  using assms by (cases n) (auto simp: is_leaf_def split: if_splits)

lemma tbl_linked:
  assumes wf: "tables_wf pm m root" and n: "tbl m root n = Some t" "k < 512" "\<not> is_leaf n"
    and k: "n = N4 \<Longrightarrow> k \<noteq> 256" and e: "tbl_below m t k = None"
    and f: "i < PM_MAP_ELEMENTS" "pm i = 0"
  shows "tbl (linked i (t + 8 * k) m) root n' =
    (if n' = child n k then Some (of_nat i * KMEM_PAGE_SIZE) else tbl m root n')"
proof -
  let ?m = "linked i (t + 8 * k) m" and ?f = "of_nat i * KMEM_PAGE_SIZE"
  note R = linked_reads[OF wf n(1,2) f]
  have old: "tbl_below ?m p j = tbl_below m p j" if "tbl m root q = Some p" "(n, k) \<noteq> (q, j)" for q p j
    using R(2)[OF that(1) _ that(2)] by (cases "j < 512") (simp_all add: tbl_below_def table_next_def)
  have new: "tbl_below ?m ?f j = None" for j using R(3)[of j] by (simp add: tbl_below_def)
  show ?thesis
  proof (cases n)
    case N4
    then have t: "t = root" using n(1) by simp
    have n3: "tbl ?m root (N3 j) = (if j = k then Some ?f else tbl m root (N3 j))" for j
      using old[of N4 root j] R(1) N4 k t by simp
    show ?thesis
    proof (cases n')
      case (N2 a b)
      then show ?thesis unfolding N2 tbl_N2 n3 using old[of "N3 a" _ b] new[of b] N4 e t
        by (cases "tbl m root (N3 a)") (auto simp del: tbl.simps simp: tbl.simps(2)[of m root k] split: if_splits)
    qed (use n3 N4 in simp_all)
  next
    case (N3 a)
    have n3: "tbl ?m root (N3 j) = tbl m root (N3 j)" for j using old[of N4 root j] N3 by simp
    show ?thesis
    proof (cases n')
      case (N2 b c)
      then show ?thesis unfolding N2 tbl_N2 n3 using old[of "N3 b" _ c] R(1) N3 n(1)
        by (cases "tbl m root (N3 b)") (auto simp del: tbl.simps)
    qed (use n3 N3 in simp_all)
  next
    case (N2 a b)
    then show ?thesis using n(3) by (simp add: is_leaf_def)
  qed
qed

lemma linked_wf:
  assumes wf: "tables_wf pm m root" and n: "tbl m root n = Some t" "k < 512" "\<not> is_leaf n"
    and k: "n = N4 \<Longrightarrow> k \<noteq> 256" and e: "tbl_below m t k = None"
    and f: "i < PM_MAP_ELEMENTS" "pm i = 0"
  shows "tables_wf (pm(i := 1)) (linked i (t + 8 * k) m) root"
proof -
  let ?f = "of_nat i * KMEM_PAGE_SIZE"
  have T: "tbl (linked i (t + 8 * k) m) root n' =
    (if n' = child n k then Some ?f else tbl m root n')" for n'
    by (rule tbl_linked[OF wf n k e f])
  have "tbl m root n' \<noteq> Some ?f" for n'
    using wf f frame_aligned(3)[OF f(1)] unfolding tables_wf_def by metis
  then show ?thesis using wf frame_aligned(3)[OF f(1)] unfolding tables_wf_def T
    by (auto split: if_splits)
qed

lemma linked_pages:
  assumes wf: "tables_wf pm m root" and n: "tbl m root n = Some t" "k < 512" "\<not> is_leaf n"
    and k: "n = N4 \<Longrightarrow> k \<noteq> 256" and e: "tbl_below m t k = None"
    and f: "i < PM_MAP_ELEMENTS" "pm i = 0" and c: "c < 512"
  shows "vm_pages (linked i (t + 8 * k) m) root (a, b, c) = vm_pages m root (a, b, c)"
proof (cases "N2 a b = child n k")
  case True
  then have "tbl m root (N2 a b) = None" using tbl_child[OF n(3,1) k] e by simp
  then show ?thesis
    using tbl_linked[OF wf n k e f, of "N2 a b"] True linked_reads(3)[OF wf n(1,2) f c]
    by (simp add: vm_pages_def del: tbl.simps)
next
  case False
  have "n \<noteq> N2 a b" using n(3) by (auto simp: is_leaf_def)
  then show ?thesis
    using tbl_linked[OF wf n k e f, of "N2 a b"] linked_reads(2)[OF wf n(1,2) f _ c, of "N2 a b"] False
    by (cases "tbl m root (N2 a b)") (auto simp: vm_pages_def simp del: tbl.simps)
qed

section \<open>\<open>ensure_table\<close>\<close>

lemma upd_entry_twice [simp]:
  "upd_entry p f (upd_entry p g s) = upd_entry p (\<lambda>e. f (g e)) s"
  by (simp add: upd_entry_def)

lemma ensure_table_cases:
  assumes "ensure_table e s = Ok (ok, t)"
  obtains (present) "e_present (rd64 (phys s) e) \<noteq> 0" "ok" "t = s"
  | (oom) pm where "\<not> ok" "t = s\<lparr>pm_map := pm\<rparr>" "\<And>i. pm_map s i \<noteq> 0 \<Longrightarrow> pm i = pm_map s i"
  | (new) i where "e_present (rd64 (phys s) e) = 0" "ok" "i < PM_MAP_ELEMENTS" "pm_map s i = 0"
      "t = s\<lparr>pm_map := (pm_map s)(i := 1), phys := linked i e (phys s)\<rparr>"
proof (cases "e_present (rd64 (phys s) e) = 0")
  case False
  then show thesis using assms by (intro present) (simp_all add: ensure_table_def)
next
  case True
  then obtain r u where a: "pma_alloc s = Ok (r, u)"
    using assms by (auto simp: ensure_table_def alloc_pt_def bind_res_Ok_iff)
  from a show thesis
  proof (cases rule: pma_alloc_cases)
    case (none pm)
    then show thesis using assms True a by (intro oom[of pm]) (simp_all add: ensure_table_def alloc_pt_def)
  next
    case (some i)
    have "unat KMEM_PAGE_SIZE = 2097152" by (rule KMEM_PAGE_SIZE_nat)
    then have "t = s\<lparr>pm_map := (pm_map s)(i := 1), phys := linked i e (phys s)\<rparr>" "ok"
      using assms True a some
      by (simp_all add: ensure_table_def alloc_pt_def Let_def phys_set_def upd_entry_def linked_def link_entry_def)
    then show thesis using True some by (intro new[of i])
  qed
qed

lemma ensure_table_wf:
  assumes wf: "tables_wf (pm_map s) (phys s) root" and n: "tbl (phys s) root n = Some t" "k < 512" "\<not> is_leaf n"
    and k: "n = N4 \<Longrightarrow> k \<noteq> 256" and r: "ensure_table (t + 8 * k) s = Ok (ok, s')"
  shows "tables_wf (pm_map s') (phys s') root" (is ?W)
    and "c < 512 \<Longrightarrow> vm_pages (phys s') root (a, b, c) = vm_pages (phys s) root (a, b, c)"
    and "tbl (phys s) root n' = Some t' \<Longrightarrow> tbl (phys s') root n' = Some t'"
    and "ok \<Longrightarrow> tbl (phys s') root (child n k) = Some (table_next (phys s') t k)"
    and "\<exists>pm m. s' = s\<lparr>pm_map := pm, phys := m\<rparr>"
proof -
  have below: "tbl_below (phys s) t k = None" if "e_present (rd64 (phys s) (t + 8 * k)) = 0"
    using that by (simp add: tbl_below_def)
  have "?W \<and> (c < 512 \<longrightarrow> vm_pages (phys s') root (a, b, c) = vm_pages (phys s) root (a, b, c)) \<and>
    (tbl (phys s) root n' = Some t' \<longrightarrow> tbl (phys s') root n' = Some t') \<and>
    (ok \<longrightarrow> tbl (phys s') root (child n k) = Some (table_next (phys s') t k)) \<and>
    (\<exists>pm m. s' = s\<lparr>pm_map := pm, phys := m\<rparr>)"
    using r
  proof (cases rule: ensure_table_cases)
    case present
    have "s = s\<lparr>pm_map := pm_map s, phys := phys s\<rparr>" by simp
    moreover have "tbl (phys s) root (child n k) = Some (table_next (phys s) t k)"
      using tbl_child[OF n(3,1) k] present n(2) by (simp add: tbl_below_def)
    ultimately show ?thesis using wf present by blast
  next
    case (oom pm)
    have "tables_wf pm (phys s) root" by (rule tables_wf_cong[OF wf]) (use oom in simp_all)
    moreover have "s' = s\<lparr>pm_map := pm, phys := phys s\<rparr>" "phys s' = phys s" "pm_map s' = pm"
      using oom by simp_all
    ultimately show ?thesis using oom(1) by (simp only:) blast
  next
    case (new i)
    let ?m = "linked i (t + 8 * k) (phys s)"
    have T: "tbl ?m root q = (if q = child n k then Some (of_nat i * KMEM_PAGE_SIZE) else tbl (phys s) root q)" for q
      by (rule tbl_linked[OF wf n k below[OF new(1)] new(3,4)])
    have W: "tables_wf (pm_map s') (phys s') root"
      using linked_wf[OF wf n k below[OF new(1)] new(3,4)] new(5) by simp
    have t: "tbl (phys s) root (child n k) = None" using tbl_child[OF n(3,1) k] below[OF new(1)] by simp
    have nx: "table_next ?m t k = of_nat i * KMEM_PAGE_SIZE"
      using linked_reads(1)[OF wf n(1,2) new(3,4)] n(2) by (simp add: tbl_below_def split: if_splits)
    have "s' = s\<lparr>pm_map := (pm_map s)(i := 1), phys := ?m\<rparr>" by (rule new(5))
    moreover have "vm_pages ?m root (a, b, c) = vm_pages (phys s) root (a, b, c)" if "c < 512"
      by (rule linked_pages[OF wf n k below[OF new(1)] new(3,4) that])
    ultimately show ?thesis using W T[of n'] T[of "child n k"] t nx by auto
  qed
  then show ?W "c < 512 \<Longrightarrow> vm_pages (phys s') root (a, b, c) = vm_pages (phys s) root (a, b, c)"
    "tbl (phys s) root n' = Some t' \<Longrightarrow> tbl (phys s') root n' = Some t'"
    "ok \<Longrightarrow> tbl (phys s') root (child n k) = Some (table_next (phys s') t k)"
    "\<exists>pm m. s' = s\<lparr>pm_map := pm, phys := m\<rparr>" by blast+
qed

section \<open>\<open>vm_map_page\<close> is an update of the map\<close>

text \<open>The map by virtual address.\<close>

definition vm_entry :: "mem \<Rightarrow> u64 \<Rightarrow> u64 \<Rightarrow> u64 option" where
  "vm_entry m root va = vm_pages m root (page_of va)"

definition map_pml4e :: "u64 \<Rightarrow> u64 \<Rightarrow> u64" where
  "map_pml4e attr e = (let
     e = set_privileged (e_privileged e OR attr_privileged attr) e;
     e = set_rw (e_rw e OR attr_rw attr) e
   in set_nx (e_nx e AND attr_nx attr) e)"

definition map_pdpe :: "u64 \<Rightarrow> u64 \<Rightarrow> u64" where
  "map_pdpe attr e =
     set_nx (attr_nx attr) (set_rw (attr_rw attr) (set_privileged (attr_privileged attr) e))"

definition map_pde :: "u64 \<Rightarrow> u64 \<Rightarrow> u64 \<Rightarrow> u64" where
  "map_pde pma attr e = set_addr (drop_bit 12 pma) (set_global (attr_global attr)
     (set_nx (attr_nx attr) (set_rw (attr_rw attr) (set_page_size 1
       (set_privileged (attr_privileged attr) (set_present 1 e))))))"

lemma map_links: "same_link (map_pml4e attr e) e" "same_link (map_pdpe attr e) e"
  by (simp_all add: same_link_def map_pml4e_def map_pdpe_def Let_def)

lemma map_pde_fields:
  "e_present (map_pde pma attr e) = 1" "e_addr (map_pde pma attr e) = take_bit 40 (drop_bit 12 pma)"
  by (simp_all add: map_pde_def)

lemma upd_link:
  assumes wf: "tables_wf (pm_map s) (phys s) root" and n: "tbl (phys s) root n = Some t" "k < 512" "\<not> is_leaf n"
    and f: "\<And>e. same_link (f e) e"
  defines "s' \<equiv> upd_entry (t + 8 * k) f s"
  shows "tables_wf (pm_map s') (phys s') root" and "tbl (phys s') root n' = tbl (phys s) root n'"
    and "c < 512 \<Longrightarrow> vm_pages (phys s') root (a, b, c) = vm_pages (phys s) root (a, b, c)"
    and "tbl (phys s) root (N2 a b) = Some p \<Longrightarrow> c < 512 \<Longrightarrow> rd64 (phys s') (p + 8 * c) = rd64 (phys s) (p + 8 * c)"
proof -
  have T: "tbl (phys s') root q = tbl (phys s) root q" for q
    unfolding s'_def upd_entry_def by simp (rule tbl_write[OF wf n(1,2)], simp add: f)
  then show "tbl (phys s') root n' = tbl (phys s) root n'" .
  have "pm_map s' = pm_map s" by (simp add: s'_def upd_entry_def)
  then show "tables_wf (pm_map s') (phys s') root" by (intro tables_wf_cong[OF wf T]) simp
  show "vm_pages (phys s') root (a, b, c) = vm_pages (phys s) root (a, b, c)" if "c < 512"
    unfolding s'_def upd_entry_def by simp (rule vm_pages_write_link[OF wf n f that])
  show "rd64 (phys s') (p + 8 * c) = rd64 (phys s) (p + 8 * c)"
    if "tbl (phys s) root (N2 a b) = Some p" "c < 512"
    unfolding s'_def upd_entry_def using n(3)
    by simp (rule write_entry_other[OF wf n(1,2) that], auto simp: is_leaf_def)
qed

text \<open>Tables that \<open>ensure_table\<close> adds are in frames that were free.\<close>

lemma ensure_table_new:
  assumes wf: "tables_wf (pm_map s) (phys s) root" and n: "tbl (phys s) root n = Some t" "k < 512" "\<not> is_leaf n"
    and k: "n = N4 \<Longrightarrow> k \<noteq> 256" and r: "ensure_table (t + 8 * k) s = Ok (ok, s')"
  shows "tbl (phys s') root q = Some t' \<Longrightarrow> tbl (phys s) root q = Some t' \<or> pm_map s (frame_of t') = 0"
    and "pm_map s' i = 0 \<Longrightarrow> pm_map s i = 0"
proof -
  have "(tbl (phys s') root q = Some t' \<longrightarrow> tbl (phys s) root q = Some t' \<or> pm_map s (frame_of t') = 0) \<and>
    (pm_map s' i = 0 \<longrightarrow> pm_map s i = 0)"
    using r
  proof (cases rule: ensure_table_cases)
    case (oom pm)
    then show ?thesis using oom(3)[of i] by (cases "pm_map s i = 0") (simp_all del: tbl.simps)
  next
    case (new j)
    have "tbl_below (phys s) t k = None" using new(1) by (simp add: tbl_below_def)
    from tbl_linked[OF wf n k this new(3,4), of q] new frame_aligned(3)[OF new(3)]
    show ?thesis by (auto simp del: tbl.simps split: if_splits)
  qed simp
  then show "tbl (phys s') root q = Some t' \<Longrightarrow> tbl (phys s) root q = Some t' \<or> pm_map s (frame_of t') = 0"
    "pm_map s' i = 0 \<Longrightarrow> pm_map s i = 0" by blast+
qed

definition map_updates :: "u64 \<Rightarrow> u64 \<Rightarrow> u64 \<Rightarrow> u64 \<Rightarrow> u64 \<Rightarrow> 'a vm_state_scheme \<Rightarrow> 'a vm_state_scheme" where
  "map_updates pml4e pdpe pde pma attr s = upd_entry pde (map_pde pma attr)
     (upd_entry pdpe (map_pdpe attr) (upd_entry pml4e (map_pml4e attr) s))"

lemma vm_map_page_cases:
  assumes "vm_map_page as vma pma attr s = Ok (r, t)"
  defines "pml4e \<equiv> get_pml4e as (PML4IDX vma) s"
  obtains (oom1) "ensure_table pml4e s = Ok (False, t)" "r = 0"
  | (oom2) s1 where "ensure_table pml4e s = Ok (True, s1)"
      "ensure_table (get_pdpe pml4e (PDPIDX vma) s1) s1 = Ok (False, t)" "r = 0"
  | (remap) s1 where "ensure_table pml4e s = Ok (True, s1)"
      "ensure_table (get_pdpe pml4e (PDPIDX vma) s1) s1 = Ok (True, t)" "r = vma"
      "e_present (rd64 (phys t) (get_pde (get_pdpe pml4e (PDPIDX vma) s1) (PDIDX vma) t)) \<noteq> 0"
      "drop_bit 12 pma = e_addr (rd64 (phys t) (get_pde (get_pdpe pml4e (PDPIDX vma) s1) (PDIDX vma) t))"
  | (fresh) s1 s2 where "ensure_table pml4e s = Ok (True, s1)"
      "ensure_table (get_pdpe pml4e (PDPIDX vma) s1) s1 = Ok (True, s2)" "r = vma"
      "e_present (rd64 (phys s2) (get_pde (get_pdpe pml4e (PDPIDX vma) s1) (PDIDX vma) s2)) = 0"
      "t = map_updates pml4e (get_pdpe pml4e (PDPIDX vma) s1)
         (get_pde (get_pdpe pml4e (PDPIDX vma) s1) (PDIDX vma) s2) pma attr s2"
proof -
  obtain ok1 s1 where e1: "ensure_table pml4e s = Ok (ok1, s1)"
    using assms by (auto simp: vm_map_page_def Let_def bind_res_Ok_iff)
  show thesis
  proof (cases ok1)
    case False
    then show thesis using assms e1 oom1 by (simp add: vm_map_page_def Let_def)
  next
    case ok1: True
    obtain ok2 s2 where e2: "ensure_table (get_pdpe pml4e (PDPIDX vma) s1) s1 = Ok (ok2, s2)"
      using assms e1 ok1 by (auto simp: vm_map_page_def Let_def bind_res_Ok_iff)
    show thesis
    proof (cases ok2)
      case False
      then show thesis using assms e1 e2 ok1 oom2 by (simp add: vm_map_page_def Let_def)
    next
      case ok2: True
      let ?pde = "get_pde (get_pdpe pml4e (PDPIDX vma) s1) (PDIDX vma) s2"
      show thesis
      proof (cases "e_present (rd64 (phys s2) ?pde) = 0")
        case True
        then show thesis using assms e1 e2 ok1 ok2 fresh[of s1 s2]
          by (auto simp: vm_map_page_def Let_def map_updates_def map_pml4e_def[abs_def] map_pdpe_def[abs_def] map_pde_def[abs_def])
      next
        case False
        then show thesis using assms e1 e2 ok1 ok2 remap[of s1]
          by (simp add: vm_map_page_def Let_def split: if_splits)
      qed
    qed
  qed
qed

lemma get_pdpe_root: "get_pdpe (root + 8 * i) j s = table_next (phys s) root i + 8 * j"
  and get_pde_table: "get_pde (p + 8 * j) k s = table_next (phys s) p j + 8 * k"
  by (simp_all add: get_pdpe_def get_pde_def table_next_def)

lemma vm_entry_pages: "vm_entry m root va = vm_pages m root (PML4IDX va, PDPIDX va, PDIDX va)"
  by (simp add: vm_entry_def page_of_def)

lemma e_addr_take [simp]: "take_bit 40 (e_addr e) = e_addr e"
  by (simp add: e_addr_def bf_get_def)

text \<open>What \<open>vm_map_page\<close> does to the map of an address space with root \<open>root\<close>.\<close>

definition map_result :: "u64 \<Rightarrow> u64 \<Rightarrow> u64 \<Rightarrow> u64 \<Rightarrow> mem \<Rightarrow> u64 \<Rightarrow> mem \<Rightarrow> bool" where
  "map_result root vma pma attr m r m' \<longleftrightarrow>
     r = 0 \<and> (\<forall>va. vm_entry m' root va = vm_entry m root va) \<or>
     r = vma \<and> (\<exists>e. e_addr e = take_bit 40 (drop_bit 12 pma) \<and>
       (case vm_entry m root vma of None \<Rightarrow> \<exists>e0. e = map_pde pma attr e0 | Some e1 \<Rightarrow> e = e1) \<and>
       (\<forall>va. vm_entry m' root va = (if page_of va = page_of vma then Some e else vm_entry m root va)))"

lemma map_updates_entry:
  fixes pma attr :: u64
  assumes wf: "tables_wf (pm_map s) (phys s) root" and i: "i < 512" "i \<noteq> 256" "j < 512" "k < 512"
    and p: "tbl (phys s) root (N3 i) = Some p" and q: "tbl (phys s) root (N2 i j) = Some q"
  defines "t \<equiv> map_updates (root + 8 * i) (p + 8 * j) (q + 8 * k) pma attr s"
  shows "tables_wf (pm_map t) (phys t) root" and "tbl (phys t) root n = tbl (phys s) root n"
    and "a < 512 \<Longrightarrow> b < 512 \<Longrightarrow> c < 512 \<Longrightarrow> vm_pages (phys t) root (a, b, c) =
      (if (a, b, c) = (i, j, k) then Some (map_pde pma attr (rd64 (phys s) (q + 8 * k)))
       else vm_pages (phys s) root (a, b, c))"
proof -
  define s1 where "s1 = upd_entry (root + 8 * i) (map_pml4e attr) s"
  define s2 where "s2 = upd_entry (p + 8 * j) (map_pdpe attr) s1"
  have l: "\<not> is_leaf N4" "\<not> is_leaf (N3 i)" by (simp_all add: is_leaf_def)
  note u1 = upd_link[OF wf tbl.simps(1) i(1) l(1), where f = "map_pml4e attr", OF map_links(1), folded s1_def]
  have p1: "tbl (phys s1) root (N3 i) = Some p" using u1(2)[where n' = "N3 i"] p by (simp del: tbl.simps)
  have q1: "tbl (phys s1) root (N2 i j) = Some q" using u1(2)[where n' = "N2 i j"] q by (simp del: tbl.simps)
  note u2 = upd_link[OF u1(1) p1 i(3) l(2), where f = "map_pdpe attr", OF map_links(2), folded s2_def]
  have q2: "tbl (phys s2) root (N2 i j) = Some q" using u2(2)[where n' = "N2 i j"] q1 by (simp del: tbl.simps)
  have e: "rd64 (phys s2) (q + 8 * k) = rd64 (phys s) (q + 8 * k)"
    using u1(4)[OF q i(4)] u2(4)[OF q1 i(4)] by simp
  have t: "t = upd_entry (q + 8 * k) (map_pde pma attr) s2"
    by (simp add: t_def map_updates_def s1_def s2_def)
  have T: "tbl (phys t) root n = tbl (phys s2) root n" for n
    unfolding t upd_entry_def by simp (rule tbl_write[OF u2(1) q2 i(4)], simp add: is_leaf_def)
  then show "tbl (phys t) root n = tbl (phys s) root n" using u1(2) u2(2) by simp
  have "pm_map t = pm_map s2" by (simp add: t upd_entry_def)
  then show "tables_wf (pm_map t) (phys t) root" by (intro tables_wf_cong[OF u2(1) T]) simp
  show "vm_pages (phys t) root (a, b, c) = (if (a, b, c) = (i, j, k)
      then Some (map_pde pma attr (rd64 (phys s) (q + 8 * k))) else vm_pages (phys s) root (a, b, c))"
    if "a < 512" "b < 512" "c < 512"
    using vm_pages_write_leaf[OF u2(1) q2 i(4) that] u1(3)[OF that(3), where a = a and b = b] u2(3)[OF that(3), where a = a and b = b] e
    by (simp add: t upd_entry_def map_pde_fields)
qed

lemma page_of_eq: "page_of va = (a, b, c) \<longleftrightarrow> PML4IDX va = a \<and> PDPIDX va = b \<and> PDIDX va = c"
  by (simp add: page_of_def)

text \<open>The state between the two \<open>ensure_table\<close> calls and after them.\<close>

lemma ensure_both:
  assumes wf: "tables_wf (pm_map s) (phys s) root" and i: "PML4IDX vma \<noteq> 256"
    and e1: "ensure_table (root + 8 * PML4IDX vma) s = Ok (True, s1)"
    and e2: "ensure_table (get_pdpe (root + 8 * PML4IDX vma) (PDPIDX vma) s1) s1 = Ok (ok, s2)"
  shows "tables_wf (pm_map s2) (phys s2) root"
    and "vm_entry (phys s2) root va = vm_entry (phys s) root va"
    and "\<exists>pm m. s2 = s\<lparr>pm_map := pm, phys := m\<rparr>"
    and "ok \<Longrightarrow> \<exists>p q. get_pdpe (root + 8 * PML4IDX vma) (PDPIDX vma) s1 = p + 8 * PDPIDX vma \<and>
      get_pde (p + 8 * PDPIDX vma) (PDIDX vma) s2 = q + 8 * PDIDX vma \<and>
      tbl (phys s2) root (N3 (PML4IDX vma)) = Some p \<and>
      tbl (phys s2) root (N2 (PML4IDX vma) (PDPIDX vma)) = Some q"
proof -
  let ?i = "PML4IDX vma" and ?j = "PDPIDX vma"
  have l: "\<not> is_leaf N4" "\<not> is_leaf (N3 ?i)" by (simp_all add: is_leaf_def)
  note E1 = ensure_table_wf[OF wf tbl.simps(1) PML4IDX_less l(1) i e1]
  let ?p = "table_next (phys s1) root ?i"
  have p: "tbl (phys s1) root (N3 ?i) = Some ?p" using E1(4) by simp
  have g: "get_pdpe (root + 8 * ?i) ?j s1 = ?p + 8 * ?j" by (rule get_pdpe_root)
  have "N3 ?i \<noteq> N4" by simp
  note E2 = ensure_table_wf[OF E1(1) p PDPIDX_less l(2) _ e2[unfolded g]]
  show "tables_wf (pm_map s2) (phys s2) root" by (rule E2(1)) simp
  show "vm_entry (phys s2) root va = vm_entry (phys s) root va"
    unfolding vm_entry_pages using E1(2)[OF PDIDX_less] E2(2)[OF _ PDIDX_less] by simp
  obtain pm m where a: "s1 = s\<lparr>pm_map := pm, phys := m\<rparr>" using E1(5) by blast
  obtain pm' m' where b: "s2 = s1\<lparr>pm_map := pm', phys := m'\<rparr>" using E2(5) by auto
  have "s2 = s\<lparr>pm_map := pm', phys := m'\<rparr>" using a b by simp
  then show "\<exists>pm m. s2 = s\<lparr>pm_map := pm, phys := m\<rparr>" by blast
  assume ok
  have c: "tbl (phys s2) root (N2 ?i ?j) = Some (table_next (phys s2) ?p ?j)" using E2(4) \<open>ok\<close> by simp
  have d: "tbl (phys s2) root (N3 ?i) = Some ?p" by (rule E2(3)[OF _ p]) simp
  show "\<exists>p q. get_pdpe (root + 8 * ?i) ?j s1 = p + 8 * ?j \<and>
      get_pde (p + 8 * ?j) (PDIDX vma) s2 = q + 8 * PDIDX vma \<and>
      tbl (phys s2) root (N3 ?i) = Some p \<and> tbl (phys s2) root (N2 ?i ?j) = Some q"
    using g c d get_pde_table by blast
qed

lemma vm_map_page_map:
  assumes wf: "tables_wf (pm_map s) (phys s) root" and root: "\<And>i. get_pml4e as i s = root + 8 * i"
    and i: "PML4IDX vma \<noteq> 256" and r: "vm_map_page as vma pma attr s = Ok (r, t)"
  shows "tables_wf (pm_map t) (phys t) root \<and> map_result root vma pma attr (phys s) r (phys t) \<and>
    (\<exists>pm m. t = s\<lparr>pm_map := pm, phys := m\<rparr>)"
  using r
proof (cases rule: vm_map_page_cases)
  case oom1
  have l: "\<not> is_leaf N4" by (simp add: is_leaf_def)
  note E = ensure_table_wf[OF wf tbl.simps(1) PML4IDX_less l i oom1(1)[unfolded root]]
  show ?thesis using E(1,5) E(2)[OF PDIDX_less] oom1(2) by (simp add: map_result_def vm_entry_pages)
next
  case (oom2 s1)
  note E = ensure_both[OF wf i oom2(1,2)[unfolded root]]
  show ?thesis using E(1,2,3) oom2(3) by (simp add: map_result_def)
next
  case (remap s1)
  note E = ensure_both[OF wf i remap(1,2)[unfolded root]]
  obtain p q where pq: "get_pdpe (root + 8 * PML4IDX vma) (PDPIDX vma) s1 = p + 8 * PDPIDX vma"
    "get_pde (p + 8 * PDPIDX vma) (PDIDX vma) t = q + 8 * PDIDX vma"
    "tbl (phys t) root (N2 (PML4IDX vma) (PDPIDX vma)) = Some q" using E(4) by blast
  let ?e = "rd64 (phys t) (q + 8 * PDIDX vma)"
  note m = remap(4,5)[unfolded root pq]
  have v: "vm_entry (phys t) root vma = Some ?e"
    using pq(3) m(1) by (simp add: vm_entry_pages vm_pages_def del: tbl.simps)
  have "map_result root vma pma attr (phys s) r (phys t)"
    unfolding map_result_def using v E(2) m(2) remap(3)
    by (intro disjI2 conjI exI[of _ ?e]) (auto simp: vm_entry_def)
  then show ?thesis using E(1,3) by blast
next
  case (fresh s1 s2)
  note E = ensure_both[OF wf i fresh(1,2)[unfolded root]]
  obtain p q where pq: "get_pdpe (root + 8 * PML4IDX vma) (PDPIDX vma) s1 = p + 8 * PDPIDX vma"
    "get_pde (p + 8 * PDPIDX vma) (PDIDX vma) s2 = q + 8 * PDIDX vma"
    "tbl (phys s2) root (N3 (PML4IDX vma)) = Some p"
    "tbl (phys s2) root (N2 (PML4IDX vma) (PDPIDX vma)) = Some q" using E(4) by blast
  note m = fresh(4,5)[unfolded root pq]
  let ?e = "map_pde pma attr (rd64 (phys s2) (q + 8 * PDIDX vma))"
  note M = map_updates_entry[OF E(1) PML4IDX_less i PDPIDX_less PDIDX_less[of vma] pq(3,4), where pma = pma and attr = attr, folded m(2)]
  have none: "vm_entry (phys s) root vma = None"
    using E(2)[of vma] pq(4) m(1) by (simp add: vm_entry_pages vm_pages_def del: tbl.simps)
  have "vm_entry (phys t) root va = (if page_of va = page_of vma then Some ?e else vm_entry (phys s) root va)" for va
    using M(3)[OF PML4IDX_less[of va] PDPIDX_less[of va] PDIDX_less[of va]] E(2)[of va]
    by (simp add: vm_entry_pages page_of_def)
  then have "map_result root vma pma attr (phys s) r (phys t)"
    unfolding map_result_def using none fresh(3)
    by (intro disjI2 conjI exI[of _ ?e]) (auto simp: map_pde_fields)
  moreover obtain pm m where "s2 = s\<lparr>pm_map := pm, phys := m\<rparr>" using E(3) by blast
  then have "t = s\<lparr>pm_map := pm, phys := phys t\<rparr>"
    using m(2) by (simp add: map_updates_def upd_entry_def)
  ultimately show ?thesis using M(1) by blast
qed

lemma ensure_both_new:
  assumes wf: "tables_wf (pm_map s) (phys s) root" and i: "PML4IDX vma \<noteq> 256"
    and e1: "ensure_table (root + 8 * PML4IDX vma) s = Ok (True, s1)"
    and e2: "ensure_table (get_pdpe (root + 8 * PML4IDX vma) (PDPIDX vma) s1) s1 = Ok (ok, s2)"
    and q: "tbl (phys s2) root q = Some t'"
  shows "tbl (phys s) root q = Some t' \<or> pm_map s (frame_of t') = 0"
proof -
  let ?i = "PML4IDX vma" and ?j = "PDPIDX vma"
  have l: "\<not> is_leaf N4" "\<not> is_leaf (N3 ?i)" by (simp_all add: is_leaf_def)
  note E1 = ensure_table_wf[OF wf tbl.simps(1) PML4IDX_less l(1) i e1]
    and N1 = ensure_table_new[OF wf tbl.simps(1) PML4IDX_less l(1) i e1]
  have p: "tbl (phys s1) root (N3 ?i) = Some (table_next (phys s1) root ?i)" using E1(4) by simp
  note N2 = ensure_table_new[OF E1(1) p PDPIDX_less l(2) _ e2[unfolded get_pdpe_root]]
  from N2(1)[OF _ q] have "tbl (phys s1) root q = Some t' \<or> pm_map s1 (frame_of t') = 0" by simp
  then show ?thesis using N1 by blast
qed

lemma vm_map_page_new_tables:
  assumes wf: "tables_wf (pm_map s) (phys s) root" and root: "\<And>i. get_pml4e as i s = root + 8 * i"
    and i: "PML4IDX vma \<noteq> 256" and r: "vm_map_page as vma pma attr s = Ok (r, t)"
    and q: "tbl (phys t) root q = Some t'"
  shows "tbl (phys s) root q = Some t' \<or> pm_map s (frame_of t') = 0"
  using r
proof (cases rule: vm_map_page_cases)
  case oom1
  have l: "\<not> is_leaf N4" by (simp add: is_leaf_def)
  show ?thesis using ensure_table_new(1)[OF wf tbl.simps(1) PML4IDX_less l i oom1(1)[unfolded root] q] .
next
  case (oom2 s1)
  show ?thesis using ensure_both_new[OF wf i oom2(1,2)[unfolded root] q] .
next
  case (remap s1)
  show ?thesis using ensure_both_new[OF wf i remap(1,2)[unfolded root] q] .
next
  case (fresh s1 s2)
  note E = ensure_both[OF wf i fresh(1,2)[unfolded root]]
  obtain p d where pq: "get_pdpe (root + 8 * PML4IDX vma) (PDPIDX vma) s1 = p + 8 * PDPIDX vma"
    "get_pde (p + 8 * PDPIDX vma) (PDIDX vma) s2 = d + 8 * PDIDX vma"
    "tbl (phys s2) root (N3 (PML4IDX vma)) = Some p"
    "tbl (phys s2) root (N2 (PML4IDX vma) (PDPIDX vma)) = Some d" using E(4) by blast
  have "tbl (phys t) root q = tbl (phys s2) root q"
    using map_updates_entry(2)[OF E(1) PML4IDX_less i PDPIDX_less PDIDX_less[of vma] pq(3,4)]
    unfolding fresh(5)[unfolded root pq] by blast
  then show ?thesis using ensure_both_new[OF wf i fresh(1,2)[unfolded root]] q by metis
qed

section \<open>Look-up and unmapping on the map\<close>

lemma get_pde_by_vma_tbl:
  assumes "PML4IDX va \<noteq> 256"
  shows "get_pde_by_vma root va s =
    map_option (\<lambda>q. q + 8 * PDIDX va) (tbl (phys s) root (N2 (PML4IDX va) (PDPIDX va)))"
  using assms
  by (simp add: get_pde_by_vma_def Let_def tbl_below_def get_pdpe_root get_pde_table)

lemma vm_get_pma_by_vma_entry:
  assumes "PML4IDX va \<noteq> 256"
  shows "vm_get_pma_by_vma root va s = (case vm_entry (phys s) root va of None \<Rightarrow> 0
    | Some e \<Rightarrow> push_bit 12 (e_addr e) + VM_OFFSET_PAGE_2M va)"
  unfolding vm_get_pma_by_vma_def get_pde_by_vma_tbl[OF assms] vm_entry_pages vm_pages_def
  by (cases "tbl (phys s) root (N2 (PML4IDX va) (PDPIDX va))") (simp_all add: Let_def del: tbl.simps)

lemma vm_is_mapped_entry:
  assumes "PML4IDX va \<noteq> 256" "\<And>i. get_pml4e as i s = root + 8 * i"
  shows "vm_is_mapped as va s \<longleftrightarrow> vm_entry (phys s) root va \<noteq> None"
  using assms
  by (simp add: vm_is_mapped_def vm_entry_pages vm_pages_def Let_def tbl_below_def get_pdpe_root get_pde_table)

lemma vm_check_attr_entry:
  assumes "PML4IDX va \<noteq> 256" "vm_entry (phys s) root va = Some e"
  shows "vm_check_attr root va attr s = Ok (attr AND get_attrs_by_vma e)"
  using assms(2)
  unfolding vm_check_attr_def get_pde_by_vma_tbl[OF assms(1)] vm_entry_pages vm_pages_def
  by (cases "tbl (phys s) root (N2 (PML4IDX va) (PDPIDX va))") (auto simp: Let_def simp del: tbl.simps split: if_splits)

lemma vm_check_attr_null:
  assumes "PML4IDX va \<noteq> 256" "tbl (phys s) root (N2 (PML4IDX va) (PDPIDX va)) = None"
  shows "vm_check_attr root va attr s = Fail NullDeref"
  unfolding vm_check_attr_def get_pde_by_vma_tbl[OF assms(1)] assms(2) by simp

lemma vm_unmap_page_none:
  assumes "PML4IDX vma \<noteq> 256" "\<And>i. get_pml4e as i s = root + 8 * i" "vm_entry (phys s) root vma = None"
  shows "vm_unmap_page as vma s = Fail (Panic ''unmapping an non-existing page'')"
  using assms
  by (auto simp: vm_unmap_page_def Let_def verify_def vm_entry_pages vm_pages_def tbl_below_def
      get_pdpe_root get_pde_table split: if_splits)

lemma vm_unmap_page_some:
  assumes wf: "tables_wf (pm_map s) (phys s) root" and i: "PML4IDX vma \<noteq> 256"
    and root: "\<And>i. get_pml4e as i s = root + 8 * i" and e: "vm_entry (phys s) root vma = Some e"
  obtains t where "vm_unmap_page as vma s = Ok (push_bit 12 (e_addr e), t)"
    "tables_wf (pm_map t) (phys t) root" "t = s\<lparr>phys := phys t\<rparr>"
    "\<And>va. vm_entry (phys t) root va = (if page_of va = page_of vma then None else vm_entry (phys s) root va)"
proof -
  let ?i = "PML4IDX vma" and ?j = "PDPIDX vma" and ?k = "PDIDX vma"
  let ?p = "table_next (phys s) root ?i"
  let ?q = "table_next (phys s) ?p ?j"
  obtain q where q: "tbl (phys s) root (N2 ?i ?j) = Some q" "rd64 (phys s) (q + 8 * ?k) = e" "e_present e \<noteq> 0"
    using e by (auto simp: vm_entry_pages vm_pages_def Let_def simp del: tbl.simps split: option.splits if_splits)
  have p: "e_present (rd64 (phys s) (root + 8 * ?i)) \<noteq> 0" "e_present (rd64 (phys s) (?p + 8 * ?j)) \<noteq> 0" "q = ?q"
    using q(1) i by (auto simp: tbl_below_def bind_eq_Some_conv split: if_splits)
  define t where "t = s\<lparr>phys := wr64 (q + 8 * ?k) 0 (phys s)\<rparr>"
  have u: "vm_unmap_page as vma s = Ok (push_bit 12 (e_addr e), t)"
    unfolding vm_unmap_page_def using p q
    by (simp add: Let_def root get_pdpe_root get_pde_table t_def)
  have T: "tbl (phys t) root n = tbl (phys s) root n" for n
    unfolding t_def by simp (rule tbl_write[OF wf q(1) PDIDX_less], simp add: is_leaf_def)
  have w: "tables_wf (pm_map t) (phys t) root"
    by (rule tables_wf_cong[OF wf T]) (simp add: t_def)
  have "vm_entry (phys t) root va = (if page_of va = page_of vma then None else vm_entry (phys s) root va)" for va
    using vm_pages_write_leaf[OF wf q(1) PDIDX_less[of vma] PML4IDX_less[of va] PDPIDX_less[of va] PDIDX_less[of va], where v = 0]
    by (simp add: t_def vm_entry_pages page_of_def)
  moreover have "t = s\<lparr>phys := phys t\<rparr>" by (simp add: t_def)
  ultimately show thesis using that u w by blast
qed

subsection \<open>Attributes\<close>

lemma take_bit_1_eq: "take_bit 1 (w :: u64) = (if bit w 0 then 1 else 0)"
proof (rule bit_word_eqI)
  fix n assume "n < LENGTH(64)"
  show "bit (take_bit 1 w) n = bit (if bit w 0 then 1 else 0 :: u64) n"
    by (cases "n = 0"; cases "bit w 0") (simp_all only: bit_take_bit_iff bit_1_iff if_True if_False, auto)
qed

lemma and_push_bit_1: "(w :: u64) AND push_bit k 1 = (if bit w k then push_bit k 1 else 0)"
proof (rule bit_word_eqI)
  fix n assume n: "n < LENGTH(64)"
  have p: "bit (push_bit k (1 :: u64)) n \<longleftrightarrow> n = k"
    using n by (simp only: bit_push_bit_iff bit_1_iff) auto
  show "bit (w AND push_bit k 1) n = bit (if bit w k then push_bit k 1 else 0 :: u64) n"
    by (cases "bit w k") (simp_all only: bit_and_iff p if_True if_False, auto)
qed

lemma attr_bits:
  "bit (attr_privileged attr) 0 = (\<not> bit attr 2)" "bit (attr_rw attr) 0 = bit attr 1"
  "bit (attr_nx attr) 0 = (\<not> bit attr 3)" "bit (attr_global attr) 0 = bit attr 8"
  by (simp_all only: attr_privileged_def attr_rw_def attr_nx_def attr_global_def bit_xor_iff bit_and_iff
      bit_drop_bit_eq bit_1_iff o_apply) simp_all

lemma attr_mask:
  "attr AND (VM_PAGE_WRITABLE OR VM_PAGE_PRIVILEGED OR VM_PAGE_EXECUTABLE OR VM_PAGE_GLOBAL) =
     (if bit attr 1 then VM_PAGE_WRITABLE else 0) OR (if bit attr 2 then VM_PAGE_PRIVILEGED else 0)
     OR (if bit attr 3 then VM_PAGE_EXECUTABLE else 0) OR (if bit attr 8 then VM_PAGE_GLOBAL else 0)"
proof -
  have c: "VM_PAGE_WRITABLE = push_bit 1 1" "VM_PAGE_PRIVILEGED = push_bit 2 1"
    "VM_PAGE_EXECUTABLE = push_bit 3 1" "VM_PAGE_GLOBAL = push_bit 8 1"
    by (simp_all add: VM_PAGE_WRITABLE_def VM_PAGE_PRIVILEGED_def VM_PAGE_EXECUTABLE_def VM_PAGE_GLOBAL_def)
  show ?thesis unfolding c bit.conj_disj_distrib and_push_bit_1 ..
qed

text \<open>A page mapped with \<open>attr\<close> has the attributes of \<open>attr\<close> and \<open>VM_PAGE_PRESENT\<close>.\<close>

lemma get_attrs_map_pde:
  "get_attrs_by_vma (map_pde pma attr e) = VM_PAGE_PRESENT OR
     attr AND (VM_PAGE_WRITABLE OR VM_PAGE_PRIVILEGED OR VM_PAGE_EXECUTABLE OR VM_PAGE_GLOBAL)"
proof -
  have f: "e_present (map_pde pma attr e) = 1"
    "e_privileged (map_pde pma attr e) = take_bit 1 (attr_privileged attr)"
    "e_rw (map_pde pma attr e) = take_bit 1 (attr_rw attr)"
    "e_nx (map_pde pma attr e) = take_bit 1 (attr_nx attr)"
    "e_global (map_pde pma attr e) = take_bit 1 (attr_global attr)"
    unfolding map_pde_def by (simp_all only: entry_get_set entry_get_set_flags) simp
  show ?thesis
    unfolding get_attrs_by_vma_def f take_bit_1_eq attr_bits attr_mask
    by (simp add: Let_def or.assoc or.left_commute or.commute)
qed

lemma vm_entry_frames_cong:
  assumes "tables_wf pm m root"
    and "\<And>n t a. tbl m root n = Some t \<Longrightarrow> frame_of a = frame_of t \<Longrightarrow> m' a = m a"
  shows "vm_entry m' root va = vm_entry m root va"
  using tbl_frames_cong(2)[OF assms PDIDX_less] by (simp add: vm_entry_pages)

section \<open>When mapping succeeds\<close>

definition as_root :: "u64 \<Rightarrow> 'a vm_state_scheme \<Rightarrow> u64" where
  "as_root as s = (if as \<noteq> 0 then as_pml4_paddr s as else RECURSIVE_PML4 s)"

lemma get_pml4e_root: "get_pml4e as i s = as_root as s + 8 * i"
  by (simp add: get_pml4e_def as_root_def)

text \<open>\<open>n\<close> frames are free, and frame 0 is not one of them.\<close>

definition frames_left :: "(nat \<Rightarrow> u8) \<Rightarrow> nat \<Rightarrow> bool" where
  "frames_left pm n \<longleftrightarrow> pm 0 \<noteq> 0 \<and> n \<le> card {i. i < PM_MAP_ELEMENTS \<and> pm i = 0}"

lemma frames_left_alloc:
  assumes "frames_left (pm_map s) (Suc n)"
  obtains i where "i < PM_MAP_ELEMENTS" "pm_map s i = 0" "of_nat i * KMEM_PAGE_SIZE \<noteq> 0"
    "pma_alloc s = Ok (of_nat i * KMEM_PAGE_SIZE, s\<lparr>pm_map := (pm_map s)(i := 1)\<rparr>)"
    "frames_left ((pm_map s)(i := 1)) n"
proof -
  let ?F = "{i. i < PM_MAP_ELEMENTS \<and> pm_map s i = 0}"
  have c: "Suc n \<le> card ?F" "pm_map s 0 \<noteq> 0" using assms by (simp_all add: frames_left_def)
  then have "card ?F \<noteq> 0" by linarith
  then have "?F \<noteq> {}" by (metis card.empty)
  then obtain k where "k < PM_MAP_ELEMENTS" "pm_map s k = 0" by blast
  then have "pm_find_free (pm_map s) 0 \<noteq> None" unfolding pm_find_free_None by blast
  then obtain i where f: "pm_find_free (pm_map s) 0 = Some i" by blast
  have i: "i < PM_MAP_ELEMENTS" "pm_map s i = 0" using pm_find_free_Some[OF f] by simp_all
  have i0: "i \<noteq> 0" using i(2) c(2) by metis
  have "{j. j < PM_MAP_ELEMENTS \<and> ((pm_map s)(i := 1)) j = 0} = ?F - {i}" by auto
  moreover have "card (?F - {i}) = card ?F - 1" using i by (intro card_Diff_singleton) simp
  moreover have "((pm_map s)(i := 1)) 0 = pm_map s 0" using i0 by simp
  ultimately have "frames_left ((pm_map s)(i := 1)) n"
    unfolding frames_left_def using c by (simp only: not_False_eq_True simp_thms)
  then show thesis by (rule that[OF i frame_addr_nonzero[OF i(1) i0] pma_alloc_some[OF f]])
qed

lemma ensure_table_ok:
  assumes "frames_left (pm_map s) (Suc n)"
  obtains t where "ensure_table e s = Ok (True, t)" "frames_left (pm_map t) n"
proof (cases "e_present (rd64 (phys s) e) = 0")
  case True
  from frames_left_alloc[OF assms] obtain i where i: "of_nat i * KMEM_PAGE_SIZE \<noteq> 0"
    "pma_alloc s = Ok (of_nat i * KMEM_PAGE_SIZE, s\<lparr>pm_map := (pm_map s)(i := 1)\<rparr>)"
    "frames_left ((pm_map s)(i := 1)) n" by metis
  then show thesis using True that
    by (simp add: ensure_table_def alloc_pt_def Let_def phys_set_def upd_entry_def)
next
  case False
  have "frames_left (pm_map s) n" using assms by (simp add: frames_left_def)
  then show thesis using False that[of s] by (simp add: ensure_table_def)
qed

lemma vm_map_page_ok:
  assumes wf: "tables_wf (pm_map s) (phys s) (as_root as s)" and i: "PML4IDX vma \<noteq> 256"
    and n: "vm_entry (phys s) (as_root as s) vma = None" and f: "frames_left (pm_map s) 2"
  shows "\<exists>t. vm_map_page as vma pma attr s = Ok (vma, t)"
proof -
  let ?r = "as_root as s" and ?i = "PML4IDX vma" and ?j = "PDPIDX vma"
  have "frames_left (pm_map s) (Suc 1)" using f by (simp add: numeral_2_eq_2)
  then obtain s1 where e1: "ensure_table (?r + 8 * ?i) s = Ok (True, s1)" "frames_left (pm_map s1) (Suc 0)"
    using ensure_table_ok by (metis One_nat_def)
  obtain s2 where e2: "ensure_table (get_pdpe (?r + 8 * ?i) ?j s1) s1 = Ok (True, s2)"
    using ensure_table_ok[OF e1(2)] by metis
  note E = ensure_both[OF wf i e1(1) e2]
  obtain p q where pq: "get_pdpe (?r + 8 * ?i) ?j s1 = p + 8 * ?j"
    "get_pde (p + 8 * ?j) (PDIDX vma) s2 = q + 8 * PDIDX vma" "tbl (phys s2) ?r (N2 ?i ?j) = Some q"
    using E(4) by blast
  have "e_present (rd64 (phys s2) (q + 8 * PDIDX vma)) = 0"
    using E(2)[of vma] n pq(3) by (auto simp: vm_entry_pages vm_pages_def Let_def simp del: tbl.simps split: if_splits)
  then show ?thesis
    using e1(1) e2 pq by (simp add: vm_map_page_def Let_def get_pml4e_root)
qed

text \<open>A root whose entries are all absent.\<close>

lemma tables_wf_empty:
  assumes "4096 dvd unat root" "pm (frame_of root) \<noteq> 0" "\<And>k. e_present (rd64 m (root + 8 * k)) = 0"
  shows "tables_wf pm m root" and "vm_entry m root va = None"
proof -
  have T: "tbl m root n = (if n = N4 then Some root else None)" for n
    using assms(3) by (cases n) (simp_all add: tbl_below_def)
  show "tables_wf pm m root" using assms(1,2) by (auto simp: tables_wf_def T split: if_splits)
  show "vm_entry m root va = None" by (simp add: vm_entry_pages vm_pages_def T del: tbl.simps)
qed

section \<open>Properties\<close>

text \<open>The witness state: address space 64 with root \<open>0x200000\<close>, empty tables, four frames in use.\<close>

definition demo_vm :: vm_state where
  "demo_vm = \<lparr>mutex_owner = (\<lambda>_. 0), current_process = 0,
     pm_map = (\<lambda>i. if i < 4 then 255 else 0), pm_upper_limit = 0x10000000,
     phys = (\<lambda>_. 0), cr3 = 0x200000, as_pml4_paddr = (\<lambda>_. 0x200000), as_ref_count = (\<lambda>_. 0)\<rparr>"

lemma demo_vm_facts:
  "tables_wf (pm_map demo_vm) (phys demo_vm) (as_root 64 demo_vm)"
  "vm_entry (phys demo_vm) (as_root 64 demo_vm) va = None" "frames_left (pm_map demo_vm) 2"
proof -
  have z: "rd64 (phys demo_vm) a = 0" for a by (simp add: demo_vm_def rd64_def)
  have r: "as_root 64 demo_vm = 0x200000" by (simp add: as_root_def demo_vm_def)
  have a: "4096 dvd unat (0x200000 :: u64)" by simp
  have p: "pm_map demo_vm (frame_of 0x200000) \<noteq> 0" by (simp add: demo_vm_def frame_of_def)
  show "tables_wf (pm_map demo_vm) (phys demo_vm) (as_root 64 demo_vm)"
    unfolding r by (rule tables_wf_empty(1)[where pm = "pm_map demo_vm", OF a p]) (simp add: z)
  show "vm_entry (phys demo_vm) (as_root 64 demo_vm) va = None"
    unfolding r by (rule tables_wf_empty(2)[where pm = "pm_map demo_vm", OF a p]) (simp add: z)
  have "{4, 5} \<subseteq> {i. i < PM_MAP_ELEMENTS \<and> pm_map demo_vm i = 0}"
    by (simp add: demo_vm_def PM_MAP_ELEMENTS_def)
  then have "card {4, 5 :: nat} \<le> card {i. i < PM_MAP_ELEMENTS \<and> pm_map demo_vm i = 0}"
    by (rule card_mono[rotated]) simp
  then show "frames_left (pm_map demo_vm) 2" by (simp add: frames_left_def demo_vm_def)
qed

text \<open>C1: \<open>vm_map_page\<close> refines an update of the map from virtual pages to page entries.  When
  it returns the address, exactly the page of that address maps to the frame with the
  attributes asked for (or already did), every other page of the address space is
  untouched; when it returns \<open>NULL\<close> no page has changed.  The tree of tables stays
  well formed.\<close>

theorem vm_map_page_refines:
  assumes "tables_wf (pm_map s) (phys s) (as_root as s)" and "PML4IDX vma \<noteq> 256"
    and "vm_map_page as vma pma attr s = Ok (r, t)"
  shows "tables_wf (pm_map t) (phys t) (as_root as s) \<and>
    map_result (as_root as s) vma pma attr (phys s) r (phys t)"
  using vm_map_page_map[OF assms(1) get_pml4e_root assms(2,3)] by blast

theorem vm_map_page_refines_witness:
  "\<exists>t. vm_map_page 64 0x400000 0x600000 2 demo_vm = Ok (0x400000, t) \<and>
     tables_wf (pm_map t) (phys t) (as_root 64 demo_vm) \<and>
     map_result (as_root 64 demo_vm) 0x400000 0x600000 2 (phys demo_vm) 0x400000 (phys t)"
proof -
  have i: "PML4IDX 0x400000 \<noteq> 256" by (simp add: PML4IDX_def)
  obtain t where t: "vm_map_page 64 0x400000 0x600000 2 demo_vm = Ok (0x400000, t)"
    using vm_map_page_ok[OF demo_vm_facts(1) i demo_vm_facts(2,3)] by blast
  from vm_map_page_refines[OF demo_vm_facts(1) i t] t show ?thesis by blast
qed

text \<open>C2: on a page that is not mapped, \<open>vm_map_page\<close> succeeds whenever two frames are free
  for the tables, and the page then reads back: the translation is the frame plus the
  offset and the attributes are those of the request.\<close>

theorem vm_map_page_readback:
  assumes "tables_wf (pm_map s) (phys s) (as_root as s)" and "PML4IDX vma \<noteq> 256"
    and "vm_entry (phys s) (as_root as s) vma = None" and "frames_left (pm_map s) 2"
    and "4096 dvd unat pma" and "unat pma < 2 ^ 52" and "vma \<noteq> 0"
  shows "\<exists>t. vm_map_page as vma pma attr s = Ok (vma, t) \<and>
    vm_get_pma_by_vma (as_root as s) vma t = pma + VM_OFFSET_PAGE_2M vma \<and>
    vm_check_attr (as_root as s) vma 0xffff t = Ok (0xffff AND (VM_PAGE_PRESENT OR
      attr AND (VM_PAGE_WRITABLE OR VM_PAGE_PRIVILEGED OR VM_PAGE_EXECUTABLE OR VM_PAGE_GLOBAL)))"
proof -
  obtain t where t: "vm_map_page as vma pma attr s = Ok (vma, t)"
    using vm_map_page_ok[OF assms(1-4)] by blast
  have "map_result (as_root as s) vma pma attr (phys s) vma (phys t)"
    using vm_map_page_map[OF assms(1) get_pml4e_root assms(2) t] by blast
  then obtain e e0 where e: "e_addr e = take_bit 40 (drop_bit 12 pma)" "e = map_pde pma attr e0"
    "vm_entry (phys t) (as_root as s) vma = Some e"
    using assms(3,7) by (auto simp: map_result_def)
  have "push_bit 12 (e_addr e) = pma" using page_addr_roundtrip[OF assms(5,6)] e(1) by simp
  then have "vm_get_pma_by_vma (as_root as s) vma t = pma + VM_OFFSET_PAGE_2M vma"
    using e(3) by (simp add: vm_get_pma_by_vma_entry[OF assms(2)])
  moreover have "vm_check_attr (as_root as s) vma 0xffff t = Ok (0xffff AND get_attrs_by_vma e)"
    by (rule vm_check_attr_entry[OF assms(2) e(3)])
  ultimately show ?thesis using t unfolding e(2) get_attrs_map_pde by blast
qed

theorem vm_map_page_readback_witness:
  "\<exists>t. vm_map_page 64 0x412345 0x600000 2 demo_vm = Ok (0x412345, t) \<and>
     vm_get_pma_by_vma 0x200000 0x412345 t = 0x612345"
proof -
  have r: "as_root 64 demo_vm = 0x200000" by (simp add: as_root_def demo_vm_def)
  have i: "PML4IDX 0x412345 \<noteq> 256" by (simp add: PML4IDX_def)
  have "4096 dvd unat (0x600000 :: u64)" "unat (0x600000 :: u64) < 2 ^ 52" "(0x412345 :: u64) \<noteq> 0" by simp_all
  from vm_map_page_readback[OF demo_vm_facts(1) i demo_vm_facts(2,3) this, of 2]
  show ?thesis unfolding r by (auto simp: VM_OFFSET_PAGE_2M_def)
qed

text \<open>C3: \<open>vm_unmap_page\<close> on a mapped page returns the physical address of its frame and
  removes that page, and no other, from the map; on an unmapped page it panics.\<close>

theorem vm_unmap_page_refines:
  assumes "tables_wf (pm_map s) (phys s) (as_root as s)" and "PML4IDX vma \<noteq> 256"
  shows "case vm_entry (phys s) (as_root as s) vma of
      None \<Rightarrow> vm_unmap_page as vma s = Fail (Panic ''unmapping an non-existing page'')
    | Some e \<Rightarrow> \<exists>t. vm_unmap_page as vma s = Ok (push_bit 12 (e_addr e), t) \<and>
        tables_wf (pm_map t) (phys t) (as_root as s) \<and> t = s\<lparr>phys := phys t\<rparr> \<and>
        (\<forall>va. vm_entry (phys t) (as_root as s) va =
          (if page_of va = page_of vma then None else vm_entry (phys s) (as_root as s) va))"
proof (cases "vm_entry (phys s) (as_root as s) vma")
  case None
  then show ?thesis using vm_unmap_page_none[OF assms(2) get_pml4e_root None] by simp
next
  case (Some e)
  from vm_unmap_page_some[OF assms get_pml4e_root Some] obtain t where
    t: "vm_unmap_page as vma s = Ok (push_bit 12 (e_addr e), t)" "tables_wf (pm_map t) (phys t) (as_root as s)"
      "t = s\<lparr>phys := phys t\<rparr>"
    and u: "\<And>va. vm_entry (phys t) (as_root as s) va =
      (if page_of va = page_of vma then None else vm_entry (phys s) (as_root as s) va)" by metis
  show ?thesis unfolding Some option.case by (intro exI[of _ t] conjI allI) (fact t u)+
qed

theorem vm_unmap_page_refines_witness:
  "vm_unmap_page 64 0x400000 demo_vm = Fail (Panic ''unmapping an non-existing page'')"
proof -
  have i: "PML4IDX 0x400000 \<noteq> 256" by (simp add: PML4IDX_def)
  from vm_unmap_page_refines[OF demo_vm_facts(1) i] show ?thesis by (simp add: demo_vm_facts(2))
qed

end
