(* ===== verification/Vm_alloc.thy ===== *)
theory Vm_alloc
  imports Paging_Map
begin

text \<open>
  Address-range allocation: \<open>vm_alloc_vaddr\<close> ends and is a first-fit search as long as the
  range does not reach the last page of the address space; \<open>vm_kern_alloc_anywhere\<close>, which
  takes \<open>vm_kern_table_lock\<close> twice, can only succeed with an empty request.
\<close>

section \<open>Vocabulary\<close>

definition page_at :: "u64 \<Rightarrow> nat \<Rightarrow> u64" where
  "page_at p k = p + of_nat k * KMEM_PAGE_SIZE"

definition free_run :: "(u64 \<Rightarrow> bool) \<Rightarrow> u64 \<Rightarrow> u64 \<Rightarrow> bool" where
  "free_run mapped r sz \<longleftrightarrow> (\<forall>j. j * 2097152 < unat sz \<longrightarrow> \<not> mapped (page_at r j))"

section \<open>Pages of a range\<close>

lemma unat_page_at:
  assumes "unat p + k * 2097152 < 2 ^ 64"
  shows "unat (page_at p k) = unat p + k * 2097152"
proof -
  have k: "unat (of_nat k :: u64) = k" using assms by (simp add: unat_of_nat)
  have "unat (of_nat k * KMEM_PAGE_SIZE) = k * 2097152"
    using assms unfolding unat_word_ariths(2) k KMEM_PAGE_SIZE_nat by simp
  then show ?thesis using assms unat_add_no_wrap[of p "of_nat k * KMEM_PAGE_SIZE"]
    by (simp add: page_at_def)
qed

lemma page_at_0 [simp]: "page_at p 0 = p"
  by (simp add: page_at_def)

lemma page_at_Suc: "page_at (p + KMEM_PAGE_SIZE) k = page_at p (Suc k)"
  by (simp add: page_at_def algebra_simps)

lemma page_at_add: "page_at (page_at p n) k = page_at p (n + k)"
  by (simp add: page_at_def algebra_simps)

section \<open>The inner loop\<close>

text \<open>\<open>scan_hit\<close>: page \<open>n\<close> from \<open>q\<close> is the first mapped one below \<open>lim\<close>.\<close>

definition scan_hit :: "(u64 \<Rightarrow> bool) \<Rightarrow> u64 \<Rightarrow> u64 \<Rightarrow> nat \<Rightarrow> bool" where
  "scan_hit mapped q lim n \<longleftrightarrow> unat q + n * 2097152 < unat lim \<and> mapped (page_at q n) \<and>
     (\<forall>j<n. \<not> mapped (page_at q j))"

definition scan_free :: "(u64 \<Rightarrow> bool) \<Rightarrow> u64 \<Rightarrow> u64 \<Rightarrow> bool" where
  "scan_free mapped q lim \<longleftrightarrow> (\<forall>j. unat q + j * 2097152 < unat lim \<longrightarrow> \<not> mapped (page_at q j))"

lemma next_page: "unat q + 2097152 < 2 ^ 64 \<Longrightarrow> unat (q + KMEM_PAGE_SIZE) = unat q + 2097152"
  using unat_page_at[of q 1] by (simp add: page_at_def)

lemma vm_scan_spec:
  assumes lim: "unat lim + 2097152 < 2 ^ 64"
  shows "\<exists>n. vm_scan mapped q lim = Some (True, page_at q n) \<and> scan_free mapped q lim \<or>
      vm_scan mapped q lim = Some (False, page_at q n) \<and> scan_hit mapped q lim n"
proof (induction "unat lim - unat q" arbitrary: q rule: less_induct)
  case less
  show ?case
  proof (cases "q < lim")
    case False
    then have "vm_scan mapped q lim = Some (True, page_at q 0)" by (simp add: vm_scan.simps)
    moreover have "scan_free mapped q lim" using False by (auto simp: scan_free_def word_less_nat_alt)
    ultimately show ?thesis by blast
  next
    case lt: True
    show ?thesis
    proof (cases "mapped q")
      case True
      then have "vm_scan mapped q lim = Some (False, page_at q 0)" using lt by (simp add: vm_scan.simps)
      moreover have "scan_hit mapped q lim 0" using True lt by (simp add: scan_hit_def word_less_nat_alt)
      ultimately show ?thesis by blast
    next
      case False
      have u: "unat (q + KMEM_PAGE_SIZE) = unat q + 2097152"
        using lt lim by (intro next_page) (simp add: word_less_nat_alt)
      have eq: "vm_scan mapped q lim = vm_scan mapped (q + KMEM_PAGE_SIZE) lim"
        using lt False by (simp add: vm_scan.simps[of mapped q])
      have "unat lim - unat (q + KMEM_PAGE_SIZE) < unat lim - unat q"
        using lt u by (simp add: word_less_nat_alt)
      from less[OF this] obtain n where n:
        "vm_scan mapped q lim = Some (True, page_at q (Suc n)) \<and> scan_free mapped (q + KMEM_PAGE_SIZE) lim \<or>
         vm_scan mapped q lim = Some (False, page_at q (Suc n)) \<and> scan_hit mapped (q + KMEM_PAGE_SIZE) lim n"
        unfolding eq page_at_Suc by blast
      have "scan_free mapped q lim" if "scan_free mapped (q + KMEM_PAGE_SIZE) lim"
        unfolding scan_free_def
      proof (intro allI impI)
        fix j assume "unat q + j * 2097152 < unat lim"
        then show "\<not> mapped (page_at q j)"
          using that False by (cases j) (auto simp: scan_free_def u page_at_Suc)
      qed
      moreover have "scan_hit mapped q lim (Suc n)" if "scan_hit mapped (q + KMEM_PAGE_SIZE) lim n"
        using that False by (auto simp: scan_hit_def u page_at_Suc less_Suc_eq_0_disj)
      ultimately show ?thesis using n by blast
    qed
  qed
qed

section \<open>The outer loop\<close>

text \<open>\<open>first_fit\<close>: \<open>r\<close> is the first page from \<open>p\<close> with a free run of \<open>sz\<close> bytes, below
  \<open>vaddr_end - sz\<close>; 0 when there is none.\<close>

definition first_fit :: "(u64 \<Rightarrow> bool) \<Rightarrow> u64 \<Rightarrow> u64 \<Rightarrow> u64 \<Rightarrow> u64 \<Rightarrow> bool" where
  "first_fit mapped p vaddr_end sz r \<longleftrightarrow>
     (\<exists>k. r = page_at p k \<and> unat p + k * 2097152 < unat (vaddr_end - sz) \<and>
        free_run mapped (page_at p k) sz \<and> (\<forall>k'<k. \<not> free_run mapped (page_at p k') sz)) \<or>
     r = 0 \<and> (\<forall>k. unat p + k * 2097152 < unat (vaddr_end - sz) \<longrightarrow> \<not> free_run mapped (page_at p k) sz)"

lemma first_fit_skip:
  assumes "\<And>k'. k' < n \<Longrightarrow> \<not> free_run mapped (page_at p k') sz"
    and u: "unat (page_at p n) = unat p + n * 2097152"
    and "first_fit mapped (page_at p n) vaddr_end sz r"
  shows "first_fit mapped p vaddr_end sz r"
proof -
  have skip: "\<not> free_run mapped (page_at p k) sz" if "\<And>k'. k = n + k' \<Longrightarrow> \<not> free_run mapped (page_at p (n + k')) sz" for k
    using that[of "k - n"] assms(1)[of k] by (cases "k < n") simp_all
  have A: "unat p + n * 2097152 + k * 2097152 = unat p + (n + k) * 2097152" for k
    by (simp add: add_mult_distrib)
  from assms(3) consider
    (a) k where "r = page_at p (n + k)" "unat p + (n + k) * 2097152 < unat (vaddr_end - sz)"
      "free_run mapped (page_at p (n + k)) sz" "\<forall>k'<k. \<not> free_run mapped (page_at p (n + k')) sz"
  | (b) "r = 0" "\<forall>k. unat p + (n + k) * 2097152 < unat (vaddr_end - sz) \<longrightarrow> \<not> free_run mapped (page_at p (n + k)) sz"
    unfolding first_fit_def u page_at_add A by blast
  then show ?thesis
  proof cases
    case a
    have "\<not> free_run mapped (page_at p k') sz" if "k' < n + k" for k'
    proof (rule skip)
      fix d assume "k' = n + d"
      then show "\<not> free_run mapped (page_at p (n + d)) sz" using a(4) that by simp
    qed
    with a show ?thesis unfolding first_fit_def by blast
  next
    case b
    have "\<not> free_run mapped (page_at p k) sz" if "unat p + k * 2097152 < unat (vaddr_end - sz)" for k
    proof (rule skip)
      fix d assume "k = n + d"
      then show "\<not> free_run mapped (page_at p (n + d)) sz" using b(2) that by simp
    qed
    with b show ?thesis unfolding first_fit_def by blast
  qed
qed

lemma vm_alloc_loop_first_fit:
  assumes lim: "unat vaddr_end + 2097152 < 2 ^ 64" and sz: "0 < sz" "sz \<le> vaddr_end"
  shows "\<exists>r. vm_alloc_loop mapped p vaddr_end sz = Some r \<and> first_fit mapped p vaddr_end sz r"
proof (induction "unat vaddr_end - unat p" arbitrary: p rule: less_induct)
  case less
  have e: "unat (vaddr_end - sz) = unat vaddr_end - unat sz" by (rule unat_sub_le[OF sz(2)])
  have szn: "0 < unat sz" "unat sz \<le> unat vaddr_end" using sz by (simp_all add: word_less_nat_alt word_le_nat_alt)
  show ?case
  proof (cases "p < vaddr_end - sz")
    case False
    then show ?thesis by (auto simp: vm_alloc_loop.simps first_fit_def word_less_nat_alt)
  next
    case lt: True
    then have pl: "unat p < unat vaddr_end - unat sz" using e by (simp add: word_less_nat_alt)
    have go: "\<exists>r. vm_alloc_loop mapped p vaddr_end sz = Some r \<and> first_fit mapped p vaddr_end sz r"
      if eq: "vm_alloc_loop mapped p vaddr_end sz = vm_alloc_loop mapped (page_at p n) vaddr_end sz"
        and n: "0 < n" "unat p + n * 2097152 < 2 ^ 64"
        and no: "\<And>k'. k' < n \<Longrightarrow> \<not> free_run mapped (page_at p k') sz" for n
    proof -
      have u: "unat (page_at p n) = unat p + n * 2097152" by (rule unat_page_at[OF n(2)])
      have "unat vaddr_end - unat (page_at p n) < unat vaddr_end - unat p" using u n(1) pl by simp
      from less[OF this] obtain r where "vm_alloc_loop mapped p vaddr_end sz = Some r"
        "first_fit mapped (page_at p n) vaddr_end sz r" using eq by auto
      with first_fit_skip[OF no u] show ?thesis by blast
    qed
    show ?thesis
    proof (cases "mapped p")
      case True
      have "\<not> free_run mapped p sz" using True szn(1) unfolding free_run_def by (metis mult_0 page_at_0)
      then show ?thesis using True lt pl lim
        by (intro go[of 1]) (simp_all add: vm_alloc_loop.simps[of mapped p] page_at_def)
    next
      case False
      have add: "unat (p + sz) = unat p + unat sz" using pl lim by (intro unat_add_no_wrap) simp
      have "unat (p + sz) + 2097152 < 2 ^ 64" using add pl lim by simp
      from vm_scan_spec[OF this, of mapped p] obtain n where
        "vm_scan mapped p (p + sz) = Some (True, page_at p n) \<and> scan_free mapped p (p + sz) \<or>
         vm_scan mapped p (p + sz) = Some (False, page_at p n) \<and> scan_hit mapped p (p + sz) n" by blast
      then show ?thesis
      proof (elim disjE conjE)
        assume s: "vm_scan mapped p (p + sz) = Some (True, page_at p n)" "scan_free mapped p (p + sz)"
        then have "vm_alloc_loop mapped p vaddr_end sz = Some p"
          using lt False by (simp add: vm_alloc_loop.simps)
        moreover have "free_run mapped p sz" using s(2) add by (simp add: scan_free_def free_run_def)
        ultimately show ?thesis using pl e unfolding first_fit_def
          by (intro exI[of _ p] conjI disjI1 exI[of _ 0]) simp_all
      next
        assume s: "vm_scan mapped p (p + sz) = Some (False, page_at p n)" "scan_hit mapped p (p + sz) n"
        have n: "n * 2097152 < unat sz" "mapped (page_at p n)" using s(2) add by (simp_all add: scan_hit_def)
        have "n \<noteq> 0" using n(2) False by (metis page_at_0)
        have "\<not> free_run mapped (page_at p k') sz" if "k' < n" for k'
        proof
          assume f: "free_run mapped (page_at p k') sz"
          have "(n - k') * 2097152 \<le> n * 2097152" by simp
          then have "(n - k') * 2097152 < unat sz" using n(1) by linarith
          then have "\<not> mapped (page_at (page_at p k') (n - k'))" using f unfolding free_run_def by blast
          then show False using n(2) that by (simp add: page_at_add)
        qed
        then show ?thesis using lt False s n pl lim \<open>n \<noteq> 0\<close>
          by (intro go[of n]) (simp_all add: vm_alloc_loop.simps[of mapped p])
      qed
    qed
  qed
qed

section \<open>\<open>vm_kern_alloc_anywhere\<close>\<close>

text \<open>\<open>vm_kern_map_page\<close> blocks while its caller holds the lock, so the first round of the
  loop in \<open>vm_kern_alloc_anywhere\<close> cannot get past a successful frame allocation.\<close>

lemma vm_kern_map_page_blocked:
  "mutex_owner s VmKernTableLock \<noteq> 0 \<Longrightarrow> vm_kern_map_page vma pma s = Fail Blocked"
  by (simp add: vm_kern_map_page_def)

lemma vm_kern_alloc_loop_result:
  assumes "mutex_owner s VmKernTableLock = get_current_proc s" "0 < n"
    and "vm_kern_alloc_loop n ret ret s = Ok (r, t)"
  shows "r = 0 \<and> (\<exists>pm. t = s\<lparr>pm_map := pm, mutex_owner := (mutex_owner s)(VmKernTableLock := 0)\<rparr>)"
proof -
  obtain k where n: "n = Suc k" using assms(2) by (cases n) auto
  obtain pma u where a: "pma_alloc s = Ok (pma, u)" using assms(3) n by (auto simp: bind_res_Ok_iff)
  obtain pm where u: "u = s\<lparr>pm_map := pm\<rparr>" using a by (cases rule: pma_alloc_cases) auto
  have own: "mutex_owner u VmKernTableLock \<noteq> 0" "mutex_owner u VmKernTableLock = get_current_proc u"
    using assms(1) u by (simp_all add: get_current_proc_def)
  have "pma = 0" using assms(3) a n own(1)
    by (cases "pma = 0") (simp_all add: Let_def vm_kern_map_page_blocked)
  then have "r = 0 \<and> t = u\<lparr>mutex_owner := (mutex_owner u)(VmKernTableLock := 0)\<rparr>"
    using assms(3) a n own(2) by (simp add: Let_def vm_kern_rollback.simps)
  then show ?thesis using u by auto
qed

lemma page_count_nonzero: "0 < unat (DIV_CEIL sz KMEM_PAGE_SIZE)"
proof -
  let ?d = "unat ((sz - 1) div KMEM_PAGE_SIZE)"
  have "unat (sz - 1) div 2097152 < 2 ^ 43"
    using unat_u64_less[of "sz - 1"] by (simp add: less_mult_imp_div_less)
  then have d: "?d < 2 ^ 43" by (simp add: unat_div KMEM_PAGE_SIZE_nat)
  then have "unat ((sz - 1) div KMEM_PAGE_SIZE + 1) = ?d + 1" by (simp add: unat_word_ariths(1))
  then show ?thesis by (simp add: DIV_CEIL_def)
qed

lemma vm_kern_alloc_result:
  assumes "vm_kern_alloc_anywhere sz s = Ok (r, t)"
  shows "r = 0 \<and> (\<exists>pm. t = s\<lparr>pm_map := pm\<rparr>)"
proof -
  have free: "mutex_owner s VmKernTableLock = 0" using assms
    by (cases "mutex_owner s VmKernTableLock = 0") (simp_all add: vm_kern_alloc_anywhere_def)
  define u where "u = s\<lparr>mutex_owner := (mutex_owner s)(VmKernTableLock := get_current_proc s)\<rparr>"
  have own: "mutex_owner u VmKernTableLock = get_current_proc u" by (simp add: u_def)
  have bk: "u\<lparr>mutex_owner := (mutex_owner u)(VmKernTableLock := 0)\<rparr> = s"
    using free by (simp add: u_def fun_upd_idem)
  obtain vma where v: "vm_alloc_vaddr 0 KERNEL_VADDR_BEGIN KERNEL_VADDR_END sz u = Some vma"
    using assms free by (auto simp: vm_kern_alloc_anywhere_def Let_def u_def split: option.splits)
  show ?thesis
  proof (cases "vma = 0")
    case True
    then have "r = 0" "t = s" using assms free v own bk
      by (simp_all add: vm_kern_alloc_anywhere_def Let_def u_def[symmetric])
    then show ?thesis by (intro conjI exI[of _ "pm_map s"]) simp_all
  next
    case False
    then have "vm_kern_alloc_loop (unat (DIV_CEIL sz KMEM_PAGE_SIZE)) vma vma u = Ok (r, t)"
      using assms free v by (simp add: vm_kern_alloc_anywhere_def Let_def u_def[symmetric])
    from vm_kern_alloc_loop_result[OF own page_count_nonzero this]
    obtain pm where "r = 0" "t = u\<lparr>pm_map := pm, mutex_owner := (mutex_owner u)(VmKernTableLock := 0)\<rparr>" by blast
    moreover have "u\<lparr>pm_map := pm, mutex_owner := (mutex_owner u)(VmKernTableLock := 0)\<rparr> = s\<lparr>pm_map := pm\<rparr>"
      using free by (simp add: u_def fun_upd_idem)
    ultimately show ?thesis by auto
  qed
qed

lemma vm_is_mapped_mutex [simp]: "vm_is_mapped as va (s\<lparr>mutex_owner := f\<rparr>) = vm_is_mapped as va s"
  by (simp add: vm_is_mapped_def get_pml4e_def get_pdpe_def get_pde_def RECURSIVE_PML4_def)

lemma vm_kern_alloc_blocks:
  assumes "mutex_owner s VmKernTableLock = 0" "frames_left (pm_map s) 1" "vma \<noteq> 0"
    and "vm_alloc_vaddr 0 KERNEL_VADDR_BEGIN KERNEL_VADDR_END sz s = Some vma"
  shows "vm_kern_alloc_anywhere sz s = Fail Blocked"
proof -
  define u where "u = s\<lparr>mutex_owner := (mutex_owner s)(VmKernTableLock := get_current_proc s)\<rparr>"
  have "frames_left (pm_map u) (Suc 0)" using assms(2) by (simp add: u_def)
  from frames_left_alloc[OF this] obtain i where i: "of_nat i * KMEM_PAGE_SIZE \<noteq> 0"
    "pma_alloc u = Ok (of_nat i * KMEM_PAGE_SIZE, u\<lparr>pm_map := (pm_map u)(i := 1)\<rparr>)" by metis
  obtain n where n: "unat (DIV_CEIL sz KMEM_PAGE_SIZE) = Suc n"
    using page_count_nonzero[of sz] by (cases "unat (DIV_CEIL sz KMEM_PAGE_SIZE)") auto
  have "vm_kern_map_page vma (of_nat i * KMEM_PAGE_SIZE) (u\<lparr>pm_map := (pm_map u)(i := 1)\<rparr>) = Fail Blocked"
    by (rule vm_kern_map_page_blocked) (simp add: u_def)
  then have "vm_kern_alloc_loop (Suc n) vma vma u = Fail Blocked" using i by simp
  moreover have "vm_alloc_vaddr 0 KERNEL_VADDR_BEGIN KERNEL_VADDR_END sz u = Some vma"
    using assms(4) by (simp add: vm_alloc_vaddr_def u_def)
  ultimately show ?thesis
    using assms(1,3) by (simp add: vm_kern_alloc_anywhere_def Let_def n u_def[symmetric])
qed

section \<open>Properties\<close>

text \<open>C4: \<open>vm_alloc_vaddr\<close> returns for every range that ends more than a page below the top of
  the address space, and its result is the first fit: the lowest page from the start at
  which all pages of the request are unmapped, or \<open>NULL\<close> when there is none.\<close>

theorem vm_alloc_vaddr_first_fit:
  assumes "unat vaddr_end + 2097152 < 2 ^ 64" "0 < sz" "sz \<le> vaddr_end"
  shows "\<exists>r. vm_alloc_vaddr as vaddr_begin vaddr_end sz s = Some r \<and>
    first_fit (\<lambda>va. vm_is_mapped as va s) vaddr_begin vaddr_end sz r"
  unfolding vm_alloc_vaddr_def by (rule vm_alloc_loop_first_fit[OF assms])

theorem vm_alloc_vaddr_first_fit_witness:
  "\<exists>r. vm_alloc_vaddr 64 USERLAND_VADDR_BEGIN USERLAND_VADDR_END 0x400000 demo_vm = Some r \<and>
    first_fit (\<lambda>va. vm_is_mapped 64 va demo_vm) USERLAND_VADDR_BEGIN USERLAND_VADDR_END 0x400000 r"
  by (rule vm_alloc_vaddr_first_fit) (simp_all add: USERLAND_VADDR_END_def)

text \<open>\<open>vm_kern_alloc_anywhere\<close> holds \<open>vm_kern_table_lock\<close> when it calls \<open>vm_kern_map_page\<close>,
  which takes it again: it never returns an address, and when the lock, a virtual range and
  a frame are available it blocks on its own lock.\<close>

theorem vm_kern_alloc_anywhere_blocks:
  "(case vm_kern_alloc_anywhere sz s of Ok (r, t) \<Rightarrow> r = 0 | Fail _ \<Rightarrow> True) \<and>
   (mutex_owner s VmKernTableLock = 0 \<and> frames_left (pm_map s) 1 \<and> vma \<noteq> 0 \<and>
    vm_alloc_vaddr 0 KERNEL_VADDR_BEGIN KERNEL_VADDR_END sz s = Some vma \<longrightarrow>
    vm_kern_alloc_anywhere sz s = Fail Blocked)"
  using vm_kern_alloc_result[where sz = sz and s = s] vm_kern_alloc_blocks[where s = s and vma = vma and sz = sz]
  by (auto split: res.splits)

theorem vm_kern_alloc_anywhere_blocks_witness: "vm_kern_alloc_anywhere 0x1000 demo_vm = Fail Blocked"
proof -
  have z: "\<not> vm_is_mapped 0 va demo_vm" for va
    by (simp add: vm_is_mapped_def demo_vm_def rd64_def)
  have "vm_alloc_vaddr 0 KERNEL_VADDR_BEGIN KERNEL_VADDR_END 0x1000 demo_vm = Some KERNEL_VADDR_BEGIN"
    by (simp add: vm_alloc_vaddr_def vm_alloc_loop.simps vm_scan.simps z
        KERNEL_VADDR_BEGIN_def KERNEL_VADDR_END_def KMEM_PAGE_SIZE_def)
  moreover have "frames_left (pm_map demo_vm) 1" using demo_vm_facts(3) by (simp add: frames_left_def)
  moreover have "mutex_owner demo_vm VmKernTableLock = 0" "KERNEL_VADDR_BEGIN \<noteq> 0"
    by (simp_all add: demo_vm_def KERNEL_VADDR_BEGIN_def)
  ultimately show ?thesis using vm_kern_alloc_anywhere_blocks[where sz = "0x1000" and s = demo_vm and vma = KERNEL_VADDR_BEGIN] by blast
qed

end
