(* ===== verification/K_list.thy ===== *)
theory K_list
  imports Prelude
begin

text \<open>
  The intrusive doubly linked lists of \<open>k_list.h\<close>.  A list is a ring of nodes through a
  distinguished head node.  The heap is split by field: \<open>lprev\<close> and \<open>lnext\<close> give the two
  pointers of every node, and nodes are identified by a value of any type, so that a
  client can use the owner of the embedded node (a process, a heap chunk, a futex
  entry) as the node itself, which is what \<open>CONTAINER_OF\<close> computes.  The predicate \<open>ring\<close>
  relates the pointers to the list they represent, and the lemmas show that the pointer
  operations implement the list operations.
\<close>

section \<open>Operations\<close>

record 'n list_heap =
  lprev :: "'n \<Rightarrow> 'n"
  lnext :: "'n \<Rightarrow> 'n"

definition list_head_init :: "'n \<Rightarrow> 'n list_heap \<Rightarrow> 'n list_heap" where
  "list_head_init node h = (let
     h = h\<lparr>lprev := (lprev h)(node := node)\<rparr>
   in h\<lparr>lnext := (lnext h)(node := node)\<rparr>)"

definition list_insert :: "'n \<Rightarrow> 'n \<Rightarrow> 'n list_heap \<Rightarrow> 'n list_heap" where
  "list_insert node prv h = (let
     nxt = lnext h prv;
     h = h\<lparr>lnext := (lnext h)(node := nxt)\<rparr>;
     h = h\<lparr>lprev := (lprev h)(node := prv)\<rparr>;
     h = h\<lparr>lnext := (lnext h)(prv := node)\<rparr>
   in h\<lparr>lprev := (lprev h)(nxt := node)\<rparr>)"

definition list_remove :: "'n \<Rightarrow> 'n list_heap \<Rightarrow> 'n list_heap" where
  "list_remove node h = (let
     h = h\<lparr>lnext := (lnext h)(lprev h node := lnext h node)\<rparr>;
     h = h\<lparr>lprev := (lprev h)(lnext h node := lprev h node)\<rparr>;
     h = h\<lparr>lnext := (lnext h)(node := node)\<rparr>
   in h\<lparr>lprev := (lprev h)(node := node)\<rparr>)"

definition list_is_empty :: "'n \<Rightarrow> 'n list_heap \<Rightarrow> bool" where
  "list_is_empty hn h = (lnext h hn = hn)"

text \<open>\<open>LIST_FOREACH\<close>: the nodes the loop visits, for at most \<open>fuel\<close> of them; \<open>None\<close> when the
  head has not been met again.\<close>

fun list_foreach_from :: "nat \<Rightarrow> 'n list_heap \<Rightarrow> 'n \<Rightarrow> 'n \<Rightarrow> 'n list option" where
  "list_foreach_from fuel h hn p =
     (if p = hn then Some []
      else case fuel of 0 \<Rightarrow> None
        | Suc f \<Rightarrow> map_option ((#) p) (list_foreach_from f h hn (lnext h p)))"

definition LIST_FOREACH :: "nat \<Rightarrow> 'n list_heap \<Rightarrow> 'n \<Rightarrow> 'n list option" where
  "LIST_FOREACH fuel h hn = list_foreach_from fuel h hn (lnext h hn)"

section \<open>The list a ring represents\<close>

fun chain :: "('n \<Rightarrow> 'n) \<Rightarrow> 'n \<Rightarrow> 'n list \<Rightarrow> 'n \<Rightarrow> bool" where
  "chain f x [] y \<longleftrightarrow> f x = y"
| "chain f x (a # as) y \<longleftrightarrow> f x = a \<and> chain f a as y"

definition ring :: "'n list_heap \<Rightarrow> 'n \<Rightarrow> 'n list \<Rightarrow> bool" where
  "ring h hn xs \<longleftrightarrow>
     distinct (hn # xs) \<and> chain (lnext h) hn xs hn \<and> chain (lprev h) hn (rev xs) hn"

text \<open>A family of pairwise disjoint rings in one heap.\<close>

definition rings :: "'n list_heap \<Rightarrow> 'n set \<Rightarrow> ('n \<Rightarrow> 'n list) \<Rightarrow> bool" where
  "rings h H L \<longleftrightarrow>
     (\<forall>a\<in>H. ring h a (L a)) \<and>
     (\<forall>a\<in>H. \<forall>b\<in>H. a \<noteq> b \<longrightarrow> set (a # L a) \<inter> set (b # L b) = {})"

section \<open>Chains\<close>

lemma chain_append:
  "chain f x (as @ bs) y \<longleftrightarrow> (if bs = [] then chain f x as y
     else chain f x as (hd bs) \<and> chain f (hd bs) (tl bs) y)"
  by (induction as arbitrary: x) (auto simp: neq_Nil_conv split: if_splits)

lemma chain_snoc: "chain f x (as @ [b]) y \<longleftrightarrow> chain f x as b \<and> f b = y"
  by (induction as arbitrary: x) auto

lemma chain_mid: "chain f x (as @ b # bs) y \<longleftrightarrow> chain f x as b \<and> chain f b bs y"
  by (induction as arbitrary: x) auto

lemma chain_upd [simp]: "u \<noteq> x \<Longrightarrow> u \<notin> set as \<Longrightarrow> chain (f(u := v)) x as y = chain f x as y"
  by (induction as arbitrary: x) auto

lemma chain_cong:
  "(\<And>z. z \<in> set (x # as) \<Longrightarrow> f z = g z) \<Longrightarrow> chain f x as y = chain g x as y"
  by (induction as arbitrary: x) auto

lemma chain_last: "chain f x as y \<Longrightarrow> f (last (x # as)) = y"
  by (induction as arbitrary: x) auto

lemma chain_retarget:
  "distinct (x # as) \<Longrightarrow> chain f x as y \<Longrightarrow> chain (f(last (x # as) := z)) x as z"
  by (induction as arbitrary: x) auto

section \<open>Rings\<close>

lemma list_head_init_fields [simp]:
  "lprev (list_head_init n h) = (lprev h)(n := n)"
  "lnext (list_head_init n h) = (lnext h)(n := n)"
  by (simp_all add: list_head_init_def)

lemma list_insert_fields:
  "lnext (list_insert n p h) = (lnext h)(n := lnext h p, p := n)"
  "lprev (list_insert n p h) = (lprev h)(n := p, lnext h p := n)"
  by (simp_all add: list_insert_def Let_def)

lemma ring_init [simp]: "ring (list_head_init hn h) hn []"
  by (simp add: ring_def)

lemma ring_hd_notin: "ring h hn xs \<Longrightarrow> hn \<notin> set xs"
  and ring_distinct: "ring h hn xs \<Longrightarrow> distinct xs"
  by (simp_all add: ring_def)

lemma ring_first: "ring h hn xs \<Longrightarrow> lnext h hn = (case xs of [] \<Rightarrow> hn | x # _ \<Rightarrow> x)"
  by (cases xs) (auto simp: ring_def)

lemma ring_last: "ring h hn xs \<Longrightarrow> lprev h hn = (if xs = [] then hn else last xs)"
  by (cases xs rule: rev_cases) (auto simp: ring_def)

lemma ring_is_empty: "ring h hn xs \<Longrightarrow> list_is_empty hn h \<longleftrightarrow> xs = []"
  by (cases xs) (auto simp: ring_def list_is_empty_def)

lemma ring_cong:
  assumes "\<And>z. z \<in> set (hn # xs) \<Longrightarrow> lnext h z = lnext h' z \<and> lprev h z = lprev h' z"
  shows "ring h hn xs = ring h' hn xs"
proof -
  have "chain (lnext h) hn xs hn = chain (lnext h') hn xs hn"
    by (rule chain_cong) (use assms in auto)
  moreover have "chain (lprev h) hn (rev xs) hn = chain (lprev h') hn (rev xs) hn"
    by (rule chain_cong) (use assms in auto)
  ultimately show ?thesis by (simp add: ring_def)
qed

lemma ring_next_mid: "ring h hn (xs @ n # ys) \<Longrightarrow> lnext h n = (case ys of [] \<Rightarrow> hn | y # _ \<Rightarrow> y)"
  by (cases ys) (auto simp: ring_def chain_mid)

lemma ring_prev_mid: "ring h hn (xs @ n # ys) \<Longrightarrow> lprev h n = last (hn # xs)"
  by (cases xs rule: rev_cases) (auto simp: ring_def chain_mid)

lemma ring_last_next: "ring h hn (xs @ ys) \<Longrightarrow> lnext h (last (hn # xs)) = (case ys of [] \<Rightarrow> hn | y # _ \<Rightarrow> y)"
  by (cases xs rule: rev_cases; cases ys) (auto simp: ring_def chain_mid chain_snoc)

text \<open>Insertion after the node that ends the prefix \<open>xs\<close>.\<close>

lemma ring_insert:
  assumes r: "ring h hn (xs @ ys)" and n: "n \<noteq> hn" "n \<notin> set xs" "n \<notin> set ys"
  shows "ring (list_insert n (last (hn # xs)) h) hn (xs @ n # ys)"
proof -
  let ?p = "last (hn # xs)" and ?h = "list_insert n (last (hn # xs)) h"
  define q where "q = (case ys of [] \<Rightarrow> hn | y # _ \<Rightarrow> y)"
  have q: "lnext h ?p = q" using ring_last_next[OF r] by (simp add: q_def)
  have p_in: "?p \<in> set (hn # xs)" by (rule last_in_set) simp
  have dist: "distinct (hn # xs @ ys)" using r by (simp add: ring_def)
  have q_in: "q \<in> set (hn # ys)" by (simp add: q_def split: list.split)
  have np: "n \<noteq> ?p" using n p_in by auto
  have nq: "n \<noteq> q" using n q_in by auto
  have fwd: "chain (lnext ?h) hn (xs @ n # ys) hn"
  proof -
    have "chain (lnext h) hn xs q" and ysc: "chain ((lnext h)(n := q)) n ys hn"
      using r n unfolding q_def ring_def
      by (cases ys; simp add: chain_mid)+
    then have "chain ((lnext h)(?p := n)) hn xs n"
      using dist chain_retarget[of hn xs] by simp
    then have "chain ((lnext h)(n := q, ?p := n)) hn xs n"
      using n np by (subst fun_upd_twist) auto
    moreover have "chain ((lnext h)(n := q, ?p := n)) n ys hn"
      using ysc np p_in dist by (subst chain_upd) auto
    ultimately show ?thesis unfolding chain_mid list_insert_fields q by simp
  qed
  have bwd: "chain (lprev ?h) hn (rev (xs @ n # ys)) hn"
  proof -
    have "chain (lprev h) hn (rev ys) ?p" and xsc: "chain ((lprev h)(n := ?p)) n (rev xs) hn"
      using r n unfolding ring_def
      by (cases xs rule: rev_cases; simp add: chain_mid chain_append)+
    moreover have lastq: "last (hn # rev ys) = q" by (cases ys) (auto simp: q_def)
    ultimately have "chain ((lprev h)(q := n)) hn (rev ys) n"
      using dist chain_retarget[of hn "rev ys" "lprev h" ?p n] by simp
    then have "chain ((lprev h)(n := ?p, q := n)) hn (rev ys) n"
      using n nq by (subst fun_upd_twist) auto
    moreover have "chain ((lprev h)(n := ?p, q := n)) n (rev xs) hn"
      using xsc nq q_in dist by (subst chain_upd) auto
    ultimately show ?thesis
      unfolding rev_append rev.simps append_assoc append.simps chain_mid list_insert_fields q by simp
  qed
  show ?thesis using fwd bwd dist n by (auto simp: ring_def)
qed

lemma ring_push_front:
  "ring h hn xs \<Longrightarrow> n \<noteq> hn \<Longrightarrow> n \<notin> set xs \<Longrightarrow> ring (list_insert n hn h) hn (n # xs)"
  using ring_insert[of h hn "[]" xs n] by simp

lemma ring_push_back:
  assumes "ring h hn xs" "n \<noteq> hn" "n \<notin> set xs"
  shows "ring (list_insert n (lprev h hn) h) hn (xs @ [n])"
proof -
  have "lprev h hn = last (hn # xs)" using ring_last[OF assms(1)] by simp
  then show ?thesis using ring_insert[of h hn xs "[]" n] assms by simp
qed

lemma list_remove_fields:
  assumes "lprev h n \<noteq> n"
  shows "lnext (list_remove n h) = (lnext h)(lprev h n := lnext h n, n := n)"
    and "lprev (list_remove n h) = (lprev h)(lnext h n := lprev h n, n := n)"
  using assms by (simp_all add: list_remove_def Let_def)

lemma ring_remove:
  assumes r: "ring h hn (xs @ n # ys)"
  shows "ring (list_remove n h) hn (xs @ ys)" and "ring (list_remove n h) n []"
proof -
  let ?h = "list_remove n h"
  define p q where "p = last (hn # xs)" and "q = (case ys of [] \<Rightarrow> hn | y # _ \<Rightarrow> y)"
  have pn: "lprev h n = p" using ring_prev_mid[OF r] by (simp add: p_def)
  have qn: "lnext h n = q" using ring_next_mid[OF r] by (simp add: q_def)
  have dist: "distinct (hn # xs @ n # ys)" using r by (simp add: ring_def)
  have p_in: "p \<in> set (hn # xs)" unfolding p_def by (rule last_in_set) simp
  have q_in: "q \<in> set (hn # ys)" by (simp add: q_def split: list.split)
  have "p \<noteq> n" "q \<noteq> n" using p_in q_in dist by auto
  then have upd: "lnext ?h = (lnext h)(p := q, n := n)" "lprev ?h = (lprev h)(q := p, n := n)"
    by (simp_all add: list_remove_fields pn qn)
  have fwd: "chain (lnext ?h) hn (xs @ ys) hn"
  proof -
    have "chain (lnext h) hn xs n" "chain (lnext h) n ys hn" using r by (auto simp: ring_def chain_mid)
    then have a: "chain ((lnext h)(p := q)) hn xs q"
      using dist chain_retarget[of hn xs "lnext h" n q] by (simp add: p_def)
    show ?thesis
    proof (cases ys)
      case Nil
      then show ?thesis using a dist unfolding upd q_def by (subst chain_upd) auto
    next
      case (Cons y zs)
      then have "chain (lnext h) y zs hn" using r by (simp add: ring_def chain_mid)
      then have "chain ((lnext h)(p := q)) y zs hn" using p_in dist Cons by (subst chain_upd) auto
      then show ?thesis using a dist Cons chain_upd[of n hn xs] chain_upd[of n y zs]
        unfolding upd q_def by (auto simp: chain_mid)
    qed
  qed
  have bwd: "chain (lprev ?h) hn (rev (xs @ ys)) hn"
  proof -
    have "chain (lprev h) hn (rev ys) n" using r by (auto simp: ring_def chain_mid)
    moreover have lastq: "last (hn # rev ys) = q" by (cases ys) (auto simp: q_def)
    ultimately have a: "chain ((lprev h)(q := p)) hn (rev ys) p"
      using dist chain_retarget[of hn "rev ys" "lprev h" n p] by simp
    show ?thesis
    proof (cases xs rule: rev_cases)
      case Nil
      then show ?thesis using a dist unfolding upd p_def by (subst chain_upd) auto
    next
      case (snoc zs z)
      then have "chain (lprev h) z (rev zs) hn" using r by (simp add: ring_def chain_mid)
      then have "chain ((lprev h)(q := p)) z (rev zs) hn" using q_in dist snoc by (subst chain_upd) auto
      then show ?thesis using a dist snoc chain_upd[of n hn "rev ys"] chain_upd[of n z "rev zs"]
        unfolding upd p_def by (auto simp: chain_mid)
    qed
  qed
  show "ring ?h hn (xs @ ys)" using fwd bwd dist by (auto simp: ring_def)
  show "ring ?h n []" by (simp add: ring_def upd)
qed

lemma ring_remove_mem:
  assumes "ring h hn xs" "n \<in> set xs"
  shows "ring (list_remove n h) hn (remove1 n xs)"
proof -
  obtain as bs where xs: "xs = as @ n # bs" using assms(2) by (meson split_list)
  then have "n \<notin> set as" using assms(1) by (auto simp: ring_def)
  then show ?thesis using ring_remove(1) assms(1) xs by (simp add: remove1_append)
qed

section \<open>Families of rings\<close>

text \<open>An operation on one ring leaves every disjoint ring as it was.\<close>

lemma list_insert_frame:
  assumes "z \<notin> {n, p, lnext h p}"
  shows "lnext (list_insert n p h) z = lnext h z" "lprev (list_insert n p h) z = lprev h z"
  using assms by (simp_all add: list_insert_fields)

lemma list_remove_frame:
  assumes "z \<notin> {n, lprev h n, lnext h n}"
  shows "lnext (list_remove n h) z = lnext h z" "lprev (list_remove n h) z = lprev h z"
  using assms by (auto simp: list_remove_def Let_def)

lemma ring_insert_other:
  assumes "ring h a (as @ bs)" "p = last (a # as)" "ring h b xs"
    and "set (a # as @ bs) \<inter> set (b # xs) = {}" "n \<notin> set (b # xs)"
  shows "ring (list_insert n p h) b xs"
proof -
  have "lnext h p \<in> set (a # as @ bs)" using ring_last_next[OF assms(1)] assms(2)
    by (auto split: list.splits)
  moreover have "p \<in> set (a # as @ bs)" using assms(2) last_in_set[of "a # as"] by auto
  ultimately have dj: "set (b # xs) \<inter> {n, p, lnext h p} = {}" using assms(4,5) by auto
  have "lnext h z = lnext (list_insert n p h) z \<and> lprev h z = lprev (list_insert n p h) z"
    if "z \<in> set (b # xs)" for z
  proof -
    have "z \<notin> {n, p, lnext h p}" using that dj by blast
    then show ?thesis using list_insert_frame[of z n p h] by simp
  qed
  then have "ring h b xs = ring (list_insert n p h) b xs" by (rule ring_cong)
  then show ?thesis using assms(3) by simp
qed

lemma ring_remove_other:
  assumes "ring h a (as @ n # bs)" "ring h b xs" "set (a # as @ n # bs) \<inter> set (b # xs) = {}"
  shows "ring (list_remove n h) b xs"
proof -
  have "lprev h n \<in> set (a # as)" "lnext h n \<in> set (a # bs)"
    using ring_prev_mid[OF assms(1)] ring_next_mid[OF assms(1)] last_in_set[of "a # as"]
    by (auto split: list.splits)
  then have dj: "set (b # xs) \<inter> {n, lprev h n, lnext h n} = {}" using assms(3) by auto
  have "lnext h z = lnext (list_remove n h) z \<and> lprev h z = lprev (list_remove n h) z"
    if "z \<in> set (b # xs)" for z
  proof -
    have "z \<notin> {n, lprev h n, lnext h n}" using that dj by blast
    then show ?thesis using list_remove_frame[of z n h] by simp
  qed
  then have "ring h b xs = ring (list_remove n h) b xs" by (rule ring_cong)
  then show ?thesis using assms(2) by simp
qed

lemma ringsD: "rings h H L \<Longrightarrow> a \<in> H \<Longrightarrow> ring h a (L a)"
  by (simp add: rings_def)

lemma rings_disjoint:
  "rings h H L \<Longrightarrow> a \<in> H \<Longrightarrow> b \<in> H \<Longrightarrow> a \<noteq> b \<Longrightarrow> set (a # L a) \<inter> set (b # L b) = {}"
  by (simp add: rings_def)

lemma rings_insert:
  assumes R: "rings h H L" and a: "a \<in> H" "L a = as @ bs" "p = last (a # as)"
    and n: "\<And>b. b \<in> H \<Longrightarrow> n \<notin> set (b # L b)"
  shows "rings (list_insert n p h) H (L(a := as @ n # bs))"
proof -
  have "ring (list_insert n p h) a (as @ n # bs)"
    using ring_insert[of h a as bs n] ringsD[OF R a(1)] n[OF a(1)] a by simp
  moreover have "ring (list_insert n p h) b (L b)" if "b \<in> H" "b \<noteq> a" for b
    using ring_insert_other[of h a as bs p b "L b" n] ringsD[OF R a(1)] ringsD[OF R that(1)]
      rings_disjoint[OF R a(1) that(1)] n[OF that(1)] that a
    by auto
  moreover have "set (c # (L(a := as @ n # bs)) c) \<inter> set (b # (L(a := as @ n # bs)) b) = {}"
    if "c \<in> H" "b \<in> H" "c \<noteq> b" for b c
    using rings_disjoint[OF R that] n that a by auto
  ultimately show ?thesis by (auto simp: rings_def)
qed

lemma rings_push_back:
  assumes "rings h H L" "a \<in> H" "\<And>b. b \<in> H \<Longrightarrow> n \<notin> set (b # L b)"
  shows "rings (list_insert n (lprev h a) h) H (L(a := L a @ [n]))"
proof -
  have "lprev h a = last (a # L a)" using ring_last[OF ringsD] assms by fastforce
  then show ?thesis using rings_insert[of h H L a "L a" "[]" "lprev h a" n] assms by simp
qed

lemma rings_push_front:
  assumes "rings h H L" "a \<in> H" "\<And>b. b \<in> H \<Longrightarrow> n \<notin> set (b # L b)"
  shows "rings (list_insert n a h) H (L(a := n # L a))"
  using rings_insert[of h H L a "[]" "L a" a n] assms by simp

lemma rings_remove:
  assumes R: "rings h H L" and a: "a \<in> H" "n \<in> set (L a)"
  shows "rings (list_remove n h) H (L(a := remove1 n (L a)))"
proof -
  obtain as bs where ab: "L a = as @ n # bs" using a(2) by (meson split_list)
  have "ring (list_remove n h) a (remove1 n (L a))"
    using ring_remove_mem ringsD[OF R a(1)] a(2) by fast
  moreover have "ring (list_remove n h) b (L b)" if "b \<in> H" "b \<noteq> a" for b
    using ring_remove_other[of h a as n bs b "L b"] ringsD[OF R a(1)] ringsD[OF R that(1)]
      rings_disjoint[OF R a(1) that(1)] that ab
    by auto
  moreover have "set (c # (L(a := remove1 n (L a))) c) \<inter> set (b # (L(a := remove1 n (L a))) b) = {}"
    if "c \<in> H" "b \<in> H" "c \<noteq> b" for b c
    using rings_disjoint[OF R that] set_remove1_subset[of n "L a"] by (auto simp: fun_upd_def)
  ultimately show ?thesis by (auto simp: rings_def)
qed

section \<open>Traversal\<close>

declare list_foreach_from.simps [simp del]

lemma list_foreach_chain:
  assumes "chain (lnext h) x xs hn" "hn \<notin> set xs" "length xs \<le> fuel"
  shows "list_foreach_from fuel h hn (lnext h x) = Some xs"
  using assms
proof (induction xs arbitrary: x fuel)
  case Nil
  then show ?case by (subst list_foreach_from.simps) simp
next
  case (Cons a xs)
  then obtain f where f: "fuel = Suc f" "length xs \<le> f" by (cases fuel) auto
  then show ?case using Cons by (subst list_foreach_from.simps) auto
qed

lemma LIST_FOREACH_ring:
  "ring h hn xs \<Longrightarrow> length xs \<le> fuel \<Longrightarrow> LIST_FOREACH fuel h hn = Some xs"
  by (simp add: LIST_FOREACH_def ring_def list_foreach_chain)

lemma chain_unique:
  "chain f x xs y \<Longrightarrow> chain f x ys y \<Longrightarrow> y \<notin> set xs \<Longrightarrow> y \<notin> set ys \<Longrightarrow> xs = ys"
proof (induction xs arbitrary: x ys)
  case Nil
  then show ?case by (cases ys) auto
next
  case (Cons a xs)
  then show ?case by (cases ys) auto
qed

lemma ring_unique: "ring h hn xs \<Longrightarrow> ring h hn ys \<Longrightarrow> xs = ys"
  unfolding ring_def by (auto intro: chain_unique)

section \<open>Properties\<close>

text \<open>C9: in a family of disjoint rings, \<open>list_insert\<close> before the head appends to one list,
  \<open>list_insert\<close> after the head prepends, \<open>list_remove\<close> deletes the node from its list, no other
  list changes, and \<open>LIST_FOREACH\<close> visits exactly the list in order.\<close>

theorem list_operations:
  assumes "rings h H L" "a \<in> H"
  shows "(\<forall>n. (\<forall>b\<in>H. n \<notin> set (b # L b)) \<longrightarrow>
      rings (list_insert n (lprev h a) h) H (L(a := L a @ [n])) \<and>
      rings (list_insert n a h) H (L(a := n # L a))) \<and>
    (\<forall>n\<in>set (L a). rings (list_remove n h) H (L(a := remove1 n (L a)))) \<and>
    LIST_FOREACH (length (L a)) h a = Some (L a)"
  using rings_push_back[OF assms] rings_push_front[OF assms] rings_remove[OF assms]
    LIST_FOREACH_ring[OF ringsD[OF assms]] by blast

definition demo_ring :: "nat list_heap" where
  "demo_ring = list_head_init 3 \<lparr>lprev = id, lnext = id\<rparr>"

theorem list_operations_witness:
  "LIST_FOREACH 1 (list_insert 5 (lprev demo_ring 3) demo_ring) 3 = Some [5]"
proof -
  have r: "rings demo_ring {3} (\<lambda>_. [])" by (simp add: rings_def demo_ring_def)
  have "rings (list_insert 5 (lprev demo_ring 3) demo_ring) {3} ((\<lambda>_. [])(3 := [5]))"
    using list_operations[OF r, of 3] by simp
  from list_operations[OF this, of 3] show ?thesis by simp
qed

end
