(* ===== verification/K_heap.thy ===== *)
theory K_heap
  imports Vm_alloc K_list
begin

text \<open>
  The kernel heap (\<open>k_memory.c\<close>, third part).  Chunk headers live at kernel virtual
  addresses; the links are a \<open>list_heap\<close> over chunk addresses and the two other header
  words are read and written by address in \<open>kh_word\<close>, so that the header of an aligned
  allocation overlays the chunk header exactly as in the code.
\<close>

section \<open>State\<close>

text \<open>\<open>chunk_list_head\<close> is the address of the static list head.  \<open>kh_word a\<close> is the 64-bit word
  at kernel virtual address \<open>a\<close>: \<open>size\<close> of the chunk at \<open>c\<close> is the word at \<open>c + 16\<close>,
  \<open>magic\<close> the word at \<open>c + 24\<close>.\<close>

record kheap_state = vm_state +
  chunk_list_head :: u64
  kh_list :: "u64 list_heap"
  kh_word :: "u64 \<Rightarrow> u64"

definition KHEAP_MAGIC_FREE :: u64 where "KHEAP_MAGIC_FREE = 0xDEADBEEFDEADBEEF"
definition KHEAP_MAGIC_ALLOCATED :: u64 where "KHEAP_MAGIC_ALLOCATED = 0xDEADBABADEADBABA"
definition KHEAP_MAGIC_ALIGNED :: u64 where "KHEAP_MAGIC_ALIGNED = 0xBEEFBABADEADDEAD"
definition KHEAP_CHUNK_MIN_SIZE :: u64 where "KHEAP_CHUNK_MIN_SIZE = 32"

text \<open>\<open>sizeof(kheap_chunk_t)\<close> and \<open>sizeof(kheap_aligned_header_t)\<close>.\<close>

definition CHUNK_HDR :: u64 where "CHUNK_HDR = 32"
definition ALIGNED_HDR :: u64 where "ALIGNED_HDR = 16"

definition chunk_size :: "u64 \<Rightarrow> 'a kheap_state_scheme \<Rightarrow> u64" where
  "chunk_size c s = kh_word s (c + 16)"

definition chunk_magic :: "u64 \<Rightarrow> 'a kheap_state_scheme \<Rightarrow> u64" where
  "chunk_magic c s = kh_word s (c + 24)"

definition set_chunk_size :: "u64 \<Rightarrow> u64 \<Rightarrow> 'a kheap_state_scheme \<Rightarrow> 'a kheap_state_scheme" where
  "set_chunk_size c v s = s\<lparr>kh_word := (kh_word s)(c + 16 := v)\<rparr>"

definition set_chunk_magic :: "u64 \<Rightarrow> u64 \<Rightarrow> 'a kheap_state_scheme \<Rightarrow> 'a kheap_state_scheme" where
  "set_chunk_magic c v s = s\<lparr>kh_word := (kh_word s)(c + 24 := v)\<rparr>"

definition kh_insert :: "u64 \<Rightarrow> u64 \<Rightarrow> 'a kheap_state_scheme \<Rightarrow> 'a kheap_state_scheme" where
  "kh_insert n p s = s\<lparr>kh_list := list_insert n p (kh_list s)\<rparr>"

section \<open>Operations\<close>

definition kmem_heap_init :: "'a kheap_state_scheme \<Rightarrow> 'a kheap_state_scheme res" where
  "kmem_heap_init s = (let s = mutex_init KheapLock s in
     case vm_alloc_vaddr 0 KERNEL_VADDR_BEGIN KERNEL_VADDR_END KMEM_PAGE_SIZE s of
       None \<Rightarrow> Fail NoReturn
     | Some first_chunk \<Rightarrow>
       bind_res (pma_alloc s) (\<lambda>(first_chunk_pm, s).
       verify (first_chunk \<noteq> 0) ''failed to alloc vaddr for first chunk'' (
       verify (first_chunk_pm \<noteq> 0) ''failed to alloc paddr for first chunk'' (
       bind_res (vm_kern_map_page first_chunk first_chunk_pm s) (\<lambda>(r, s).
       verify (r \<noteq> 0) ''failed to map first chunk'' (let
         s = s\<lparr>kh_list := list_head_init (chunk_list_head s) (kh_list s)\<rparr>;
         s = set_chunk_size first_chunk (KMEM_PAGE_SIZE - CHUNK_HDR) s;
         s = set_chunk_magic first_chunk KHEAP_MAGIC_FREE s
       in Ok (kh_insert first_chunk (chunk_list_head s) s)))))))"

definition kheap_chunk_is_free :: "u64 \<Rightarrow> 'a kheap_state_scheme \<Rightarrow> bool res" where
  "kheap_chunk_is_free c s = (let mg = chunk_magic c s in
     verify (mg = KHEAP_MAGIC_FREE \<or> mg = KHEAP_MAGIC_ALLOCATED) ''invalid chunk magic''
       (Ok (mg = KHEAP_MAGIC_FREE)))"

definition kheap_expand :: "u64 \<Rightarrow> 'a kheap_state_scheme \<Rightarrow> (bool \<times> 'a kheap_state_scheme) res" where
  "kheap_expand min_expand_size s = (let
     min_expand_size = min_expand_size + CHUNK_HDR
   in bind_res (vm_kern_alloc_anywhere min_expand_size s) (\<lambda>(chunk, s).
     if chunk = 0 then Ok (False, s)
     else (let
       s = set_chunk_size chunk (ALIGNUP min_expand_size KMEM_PAGE_SIZE - CHUNK_HDR) s;
       s = set_chunk_magic chunk KHEAP_MAGIC_FREE s
     in Ok (True, kh_insert chunk (lprev (kh_list s) (chunk_list_head s)) s))))"

text \<open>The search loop of \<open>kmem_alloc\<close>: the chunk it stops at, or the list head.\<close>

partial_function (option) kheap_find :: "u64 \<Rightarrow> 'a kheap_state_scheme \<Rightarrow> u64 \<Rightarrow> u64 res option" where
  "kheap_find sz s i =
     (if i = chunk_list_head s then Some (Ok i)
      else case kheap_chunk_is_free i s of
          Fail e \<Rightarrow> Some (Fail e)
        | Ok fr \<Rightarrow> if \<not> fr then kheap_find sz s (lnext (kh_list s) i)
                   else if chunk_size i s \<ge> sz then Some (Ok i)
                   else kheap_find sz s (lnext (kh_list s) i))"

definition kheap_take :: "u64 \<Rightarrow> u64 \<Rightarrow> 'a kheap_state_scheme \<Rightarrow> 'a kheap_state_scheme" where
  "kheap_take p sz s = (let
     s = (if chunk_size p s - sz \<ge> KHEAP_CHUNK_MIN_SIZE + CHUNK_HDR
          then (let
            new_chunk = p + CHUNK_HDR + sz;
            s = set_chunk_size new_chunk (chunk_size p s - sz - CHUNK_HDR) s;
            s = set_chunk_magic new_chunk KHEAP_MAGIC_FREE s;
            s = set_chunk_size p sz s
          in kh_insert new_chunk p s)
          else s)
   in set_chunk_magic p KHEAP_MAGIC_ALLOCATED s)"

definition kmem_alloc :: "u64 \<Rightarrow> 'a kheap_state_scheme \<Rightarrow> (u64 \<times> 'a kheap_state_scheme) res" where
  "kmem_alloc sz s = bind_res (mutex_acquire KheapLock s) (\<lambda>s. let
     sz = ALIGNUP sz 32
   in bind_res (ends (kheap_find sz s (lnext (kh_list s) (chunk_list_head s)))) (\<lambda>i.
     let fin = (\<lambda>p s. bind_res (mutex_release KheapLock (kheap_take p sz s)) (\<lambda>s. Ok (p + CHUNK_HDR, s)))
     in if i = chunk_list_head s
        then bind_res (kheap_expand sz s) (\<lambda>(ok, s).
          if \<not> ok then bind_res (mutex_release KheapLock s) (\<lambda>s. Ok (0, s))
          else fin (lprev (kh_list s) (chunk_list_head s)) s)
        else fin i s))"

text \<open>\<open>kmem_alloc_zeroed\<close> also clears the block, the contents of which the model does not keep.\<close>

definition kmem_alloc_zeroed :: "u64 \<Rightarrow> 'a kheap_state_scheme \<Rightarrow> (u64 \<times> 'a kheap_state_scheme) res" where
  "kmem_alloc_zeroed sz s = bind_res (kmem_alloc sz s) (\<lambda>(ret, s).
     if ret = 0 then Ok (0, s) else Ok (ret, s))"

definition kmem_alloc_aligned ::
    "u64 \<Rightarrow> u64 \<Rightarrow> 'a kheap_state_scheme \<Rightarrow> (u64 \<times> 'a kheap_state_scheme) res" where
  "kmem_alloc_aligned sz align s =
     (if align < 32 then kmem_alloc sz s
      else bind_res (kmem_alloc (sz + align) s) (\<lambda>(ptr, s).
        if ptr = 0 then Ok (ptr, s)
        else (let ret = ALIGNUP ptr align
          in if ret = ptr then Ok (ret, s)
             else (let
               h = ret - ALIGNED_HDR;
               s = s\<lparr>kh_word := (kh_word s)(h := ptr)\<rparr>;
               s = s\<lparr>kh_word := (kh_word s)(h + 8 := KHEAP_MAGIC_ALIGNED)\<rparr>
             in Ok (ret, s)))))"

definition kheap_merge_chunk_into_prev ::
    "u64 \<Rightarrow> 'a kheap_state_scheme \<Rightarrow> u64 \<times> 'a kheap_state_scheme" where
  "kheap_merge_chunk_into_prev chunk s = (let
     prv = lprev (kh_list s) chunk;
     s = s\<lparr>kh_list := list_remove chunk (kh_list s)\<rparr>;
     s = set_chunk_size prv (chunk_size prv s + chunk_size chunk s) s;
     s = set_chunk_size prv (chunk_size prv s + CHUNK_HDR) s
   in (prv, s))"

definition kheap_chunk_from_ptr :: "u64 \<Rightarrow> u64" where
  "kheap_chunk_from_ptr ptr = ptr - CHUNK_HDR"

text \<open>\<open>if (c && kheap_chunk_is_free(c))\<close>, with 0 for \<open>NULL\<close>.\<close>

definition kheap_free_neighbour :: "u64 \<Rightarrow> 'a kheap_state_scheme \<Rightarrow> bool res" where
  "kheap_free_neighbour c s = (if c = 0 then Ok False else kheap_chunk_is_free c s)"

definition kmem_free :: "u64 \<Rightarrow> 'a kheap_state_scheme \<Rightarrow> 'a kheap_state_scheme res" where
  "kmem_free ptr s = bind_res (mutex_acquire KheapLock s) (\<lambda>s. let
     alignh = ptr - ALIGNED_HDR;
     ptr = (if kh_word s (alignh + 8) = KHEAP_MAGIC_ALIGNED then kh_word s alignh else ptr);
     chunk = kheap_chunk_from_ptr ptr
   in verify (chunk_magic chunk s = KHEAP_MAGIC_ALLOCATED) ''invalid free'' (let
     s = set_chunk_magic chunk KHEAP_MAGIC_FREE s;
     prv = (if lprev (kh_list s) chunk = chunk_list_head s then 0 else lprev (kh_list s) chunk);
     nxt = (if lnext (kh_list s) chunk = chunk_list_head s then 0 else lnext (kh_list s) chunk)
   in bind_res (kheap_free_neighbour prv s) (\<lambda>b.
     let s = (if b then snd (kheap_merge_chunk_into_prev chunk s) else s)
     in bind_res (kheap_free_neighbour nxt s) (\<lambda>b.
       let s = (if b then snd (kheap_merge_chunk_into_prev nxt s) else s)
       in mutex_release KheapLock s))))"

definition kmem_try_realloc :: "u64 \<Rightarrow> u64 \<Rightarrow> u64" where
  "kmem_try_realloc ptr new_size = 0"

text \<open>The second component is the number of bytes copied from the old block to the new one.\<close>

definition kmem_realloc ::
    "u64 \<Rightarrow> u64 \<Rightarrow> 'a kheap_state_scheme \<Rightarrow> (u64 \<times> u64 \<times> 'a kheap_state_scheme) res" where
  "kmem_realloc ptr new_size s = (let
     ret = kmem_try_realloc ptr new_size
   in if ret \<noteq> 0 then Ok (ret, 0, s)
      else bind_res (kmem_alloc new_size s) (\<lambda>(ret, s).
        if ret = 0 then Ok (0, 0, s)
        else verify (ptr \<noteq> 0) ''invalid ptr'' (let
          old_size = chunk_size (kheap_chunk_from_ptr ptr) s
        in bind_res (kmem_free ptr s) (\<lambda>s. Ok (ret, old_size, s)))))"

end
