(* ===== verification/Heap_Spec.thy ===== *)
theory Heap_Spec
  imports K_heap
begin

text \<open>
  The heap as a list of blocks that tile one address range.  \<open>h_alloc\<close> (first fit, split)
  and \<open>h_free\<close> (merge with free neighbours) are the specification; \<open>kmem_alloc\<close> and
  \<open>kmem_free\<close> implement them, and the heap is an exclusive allocator.
\<close>

section \<open>Specification\<close>

text \<open>A block: address of its header, size of its data, whether it is in use.\<close>

type_synonym block = "u64 \<times> u64 \<times> bool"

fun h_alloc :: "u64 \<Rightarrow> block list \<Rightarrow> (u64 \<times> block list) option" where
  "h_alloc n [] = None"
| "h_alloc n ((c, m, u) # bs) =
     (if \<not> u \<and> n \<le> m
      then Some (c, (if 64 \<le> m - n then [(c, n, True), (c + 32 + n, m - n - 32, False)] else [(c, m, True)]) @ bs)
      else map_option (\<lambda>(r, bs'). (r, (c, m, u) # bs')) (h_alloc n bs))"

text \<open>The free block at \<open>c\<close> absorbs a free successor.\<close>

fun merge_next :: "block list \<Rightarrow> block list" where
  "merge_next ((c, n, u) # (c2, n2, False) # bs) = (c, n + n2 + 32, u) # bs"
| "merge_next bs = bs"

text \<open>\<open>h_free c\<close>: mark the block at \<open>c\<close> free, merge it into a free predecessor, then merge
  a free successor.\<close>

fun h_free :: "u64 \<Rightarrow> block list \<Rightarrow> block list" where
  "h_free c [] = []"
| "h_free c [(b, n, u)] = (if b = c then [(b, n, False)] else [(b, n, u)])"
| "h_free c ((b, n, u) # (b2, n2, u2) # bs) =
     (if b = c then merge_next ((b, n, False) # (b2, n2, u2) # bs)
      else if b2 = c
      then if u then (b, n, u) # merge_next ((b2, n2, False) # bs)
           else merge_next ((b, n + n2 + 32, False) # bs)
      else (b, n, u) # h_free c ((b2, n2, u2) # bs))"

section \<open>Representation\<close>

fun tiled :: "nat \<Rightarrow> block list \<Rightarrow> nat \<Rightarrow> bool" where
  "tiled a [] e \<longleftrightarrow> a = e"
| "tiled a ((c, n, u) # bs) e \<longleftrightarrow> unat c = a \<and> tiled (a + 32 + unat n) bs e"

definition block_ok :: "(u64 \<Rightarrow> u64) \<Rightarrow> block \<Rightarrow> bool" where
  "block_ok w = (\<lambda>(c, n, u). w (c + 16) = n \<and>
     w (c + 24) = (if u then KHEAP_MAGIC_ALLOCATED else KHEAP_MAGIC_FREE))"

definition heap_rel :: "'a kheap_state_scheme \<Rightarrow> block list \<Rightarrow> bool" where
  "heap_rel s bs \<longleftrightarrow> ring (kh_list s) (chunk_list_head s) (map fst bs) \<and>
     (\<forall>b\<in>set bs. block_ok (kh_word s) b) \<and> (\<exists>a e. 0 < a \<and> e < 2 ^ 64 \<and> tiled a bs e \<and>
       (unat (chunk_list_head s) < a \<or> e \<le> unat (chunk_list_head s)))"

definition h_live :: "block list \<Rightarrow> u64 set" where
  "h_live bs = {c + 32 | c n. (c, n, True) \<in> set bs}"

section \<open>Tilings\<close>

lemma tiled_le: "tiled a bs e \<Longrightarrow> a \<le> e"
  by (induction a bs e rule: tiled.induct) auto

lemma tiled_append: "tiled a (xs @ ys) e \<longleftrightarrow> (\<exists>m. tiled a xs m \<and> tiled m ys e)"
  by (induction xs arbitrary: a) auto

lemma tiled_mem:
  assumes "tiled a bs e" "(c, n, u) \<in> set bs"
  shows "a \<le> unat c \<and> unat c + 32 + unat n \<le> e"
  using assms
proof (induction a bs e rule: tiled.induct)
  case (2 a c' n' u' bs e)
  then show ?case using tiled_le[of _ bs e] by auto
qed simp

lemma tiled_apart:
  assumes "tiled a (xs @ (c, n, u) # ys) e"
  shows "(c', n', u') \<in> set xs \<Longrightarrow> unat c' + 32 + unat n' \<le> unat c"
    and "(c', n', u') \<in> set ys \<Longrightarrow> unat c + 32 + unat n \<le> unat c'"
  using assms tiled_mem[of _ xs _ c' n' u'] tiled_mem[of _ ys _ c' n' u'] by (auto simp: tiled_append)

lemma tiled_distinct: "tiled a bs e \<Longrightarrow> distinct (map fst bs)"
proof (induction a bs e rule: tiled.induct)
  case (2 a c n u bs e)
  have "c \<notin> fst ` set bs"
  proof
    assume "c \<in> fst ` set bs"
    then obtain n' u' where "(c, n', u') \<in> set bs" by auto
    then have "a + 32 + unat n \<le> unat c" using tiled_mem 2(2) by fastforce
    then show False using 2(2) by simp
  qed
  then show ?case using 2 by simp
qed simp

text \<open>Header words of different blocks are different.\<close>

lemma hdr_distinct:
  fixes c c' :: u64
  assumes "unat c + 32 \<le> unat c' \<or> unat c' + 32 \<le> unat c" "unat c + 32 < 2 ^ 64" "unat c' + 32 < 2 ^ 64"
  shows "c + 16 \<noteq> c' + 16" "c + 16 \<noteq> c' + 24" "c + 24 \<noteq> c' + 16" "c + 24 \<noteq> c' + 24"
proof -
  have u: "unat (d + 16) = unat d + 16" "unat (d + 24) = unat d + 24" if "unat d + 32 < 2 ^ 64" for d :: u64
    using that by (simp_all add: unat_word_ariths(1))
  note U = u[OF assms(2)] u[OF assms(3)]
  show "c + 16 \<noteq> c' + 16" using assms(1) U by (intro notI) (drule arg_cong[where f = unat], linarith)
  show "c + 16 \<noteq> c' + 24" using assms(1) U by (intro notI) (drule arg_cong[where f = unat], linarith)
  show "c + 24 \<noteq> c' + 16" using assms(1) U by (intro notI) (drule arg_cong[where f = unat], linarith)
  show "c + 24 \<noteq> c' + 24" using assms(1) U by (intro notI) (drule arg_cong[where f = unat], linarith)
qed

lemma block_ok_frame:
  assumes "block_ok w (c', n', u')"
    and "unat c + 32 \<le> unat c' \<or> unat c' + 32 \<le> unat c" "unat c + 32 < 2 ^ 64" "unat c' + 32 < 2 ^ 64"
  shows "block_ok (w(c + 16 := x)) (c', n', u')" "block_ok (w(c + 24 := x)) (c', n', u')"
  using assms(1) hdr_distinct[OF assms(2-4)] by (auto simp: block_ok_def)

section \<open>The search\<close>

lemma magics [simp]: "KHEAP_MAGIC_ALLOCATED \<noteq> KHEAP_MAGIC_FREE" "KHEAP_MAGIC_ALLOCATED \<noteq> KHEAP_MAGIC_ALIGNED"
  "KHEAP_MAGIC_FREE \<noteq> KHEAP_MAGIC_ALLOCATED"
  by (simp_all add: KHEAP_MAGIC_ALLOCATED_def KHEAP_MAGIC_FREE_def KHEAP_MAGIC_ALIGNED_def)

lemma heap_rel_block:
  assumes "heap_rel s bs" "(c, n, u) \<in> set bs"
  shows "chunk_size c s = n" "kheap_chunk_is_free c s = Ok (\<not> u)" "0 < unat c" "c \<noteq> 0"
    "unat c + 32 + unat n < 2 ^ 64" "c \<noteq> chunk_list_head s"
proof -
  have b: "block_ok (kh_word s) (c, n, u)" using assms by (auto simp: heap_rel_def)
  then show "chunk_size c s = n" by (simp add: block_ok_def chunk_size_def)
  show "kheap_chunk_is_free c s = Ok (\<not> u)"
    using b by (cases u) (simp_all add: block_ok_def kheap_chunk_is_free_def chunk_magic_def Let_def)
  obtain a e where t: "tiled a bs e" "0 < a" "e < 2 ^ 64" using assms(1) by (auto simp: heap_rel_def)
  show "0 < unat c" "unat c + 32 + unat n < 2 ^ 64" using tiled_mem[OF t(1) assms(2)] t by simp_all
  then show "c \<noteq> 0" by auto
  show "c \<noteq> chunk_list_head s" using assms by (force simp: heap_rel_def ring_def)
qed

definition fits :: "u64 \<Rightarrow> block \<Rightarrow> bool" where
  "fits sz = (\<lambda>(c, n, u). \<not> u \<and> sz \<le> n)"

lemma kheap_find_spec:
  assumes "heap_rel s (xs @ ys)"
  shows "kheap_find sz s (case ys of [] \<Rightarrow> chunk_list_head s | b # _ \<Rightarrow> fst b) =
    Some (Ok (case List.find (fits sz) ys of None \<Rightarrow> chunk_list_head s | Some b \<Rightarrow> fst b))"
  using assms
proof (induction ys arbitrary: xs)
  case Nil
  then show ?case by (simp add: kheap_find.simps)
next
  case (Cons b ys)
  obtain c n u where b: "b = (c, n, u)" by (cases b)
  have m: "(c, n, u) \<in> set (xs @ b # ys)" by (simp add: b)
  note B = heap_rel_block[OF Cons.prems m]
  have "ring (kh_list s) (chunk_list_head s) (map fst xs @ c # map fst ys)"
    using Cons.prems by (simp add: heap_rel_def b)
  then have nx: "lnext (kh_list s) c = (case ys of [] \<Rightarrow> chunk_list_head s | b # _ \<Rightarrow> fst b)"
    using ring_next_mid by (fastforce split: list.splits)
  have "heap_rel s ((xs @ [b]) @ ys)" using Cons.prems by simp
  from Cons.IH[OF this] show ?case
    using B by (simp add: b kheap_find.simps[of sz s c] nx fits_def)
qed

lemma h_alloc_find:
  "h_alloc n bs = None \<and> List.find (fits n) bs = None \<or>
   (\<exists>xs c m ys. bs = xs @ (c, m, False) # ys \<and> n \<le> m \<and> List.find (fits n) bs = Some (c, m, False) \<and>
     h_alloc n bs = Some (c, xs @ (if 64 \<le> m - n then [(c, n, True), (c + 32 + n, m - n - 32, False)]
       else [(c, m, True)]) @ ys))"
proof (induction n bs rule: h_alloc.induct)
  case (2 n c m u bs)
  show ?case
  proof (cases "\<not> u \<and> n \<le> m")
    case True
    then show ?thesis by (intro disjI2 exI[of _ "[]"] exI[of _ c] exI[of _ m] exI[of _ bs]) (simp add: fits_def)
  next
    case False
    then have f: "h_alloc n ((c, m, u) # bs) = map_option (\<lambda>(r, bs'). (r, (c, m, u) # bs')) (h_alloc n bs)"
      "List.find (fits n) ((c, m, u) # bs) = List.find (fits n) bs" by (auto simp: fits_def)
    from 2[OF False] show ?thesis
    proof (elim disjE exE conjE)
      assume "h_alloc n bs = None" "List.find (fits n) bs = None"
      then show ?thesis unfolding f by simp
    next
      fix xs c' m' ys assume "bs = xs @ (c', m', False) # ys" "n \<le> m'" "List.find (fits n) bs = Some (c', m', False)"
        "h_alloc n bs = Some (c', xs @ (if 64 \<le> m' - n then [(c', n, True), (c' + 32 + n, m' - n - 32, False)]
          else [(c', m', True)]) @ ys)"
      then show ?thesis unfolding f
        by (intro disjI2 exI[of _ "(c, m, u) # xs"] exI[of _ c'] exI[of _ m'] exI[of _ ys]) simp
    qed
  qed
qed simp

section \<open>Taking a block\<close>

lemma block_ok_cong:
  "w (c + 16) = w' (c + 16) \<Longrightarrow> w (c + 24) = w' (c + 24) \<Longrightarrow> block_ok w (c, n, u) = block_ok w' (c, n, u)"
  by (simp add: block_ok_def)

lemma heap_rel_others:
  assumes "heap_rel s (xs @ (c, m, u) # ys)" "(c', n', u') \<in> set xs \<union> set ys"
  shows "unat c' + 32 \<le> unat c \<or> unat c + 32 + unat m \<le> unat c'" "unat c' + 32 < 2 ^ 64"
    "block_ok (kh_word s) (c', n', u')"
proof -
  obtain a e where t: "tiled a (xs @ (c, m, u) # ys) e" using assms(1) by (auto simp: heap_rel_def)
  from assms(2) show "unat c' + 32 \<le> unat c \<or> unat c + 32 + unat m \<le> unat c'"
    using tiled_apart[OF t, of c' n' u'] by auto
  have "(c', n', u') \<in> set (xs @ (c, m, u) # ys)" using assms(2) by auto
  from heap_rel_block(5)[OF assms(1) this] show "unat c' + 32 < 2 ^ 64" by simp
  show "block_ok (kh_word s) (c', n', u')" using assms by (auto simp: heap_rel_def)
qed

lemma take_whole:
  assumes r: "heap_rel s (xs @ (c, m, u) # ys)"
  shows "heap_rel (set_chunk_magic c (if v then KHEAP_MAGIC_ALLOCATED else KHEAP_MAGIC_FREE) s) (xs @ (c, m, v) # ys)"
    (is "heap_rel ?t _")
proof -
  have c: "unat c + 32 < 2 ^ 64" using heap_rel_block(5)[OF r, of c m u] by simp
  have "block_ok (kh_word ?t) b" if "b \<in> set xs \<union> set ys" for b
  proof -
    obtain c' n' u' where b: "b = (c', n', u')" by (cases b)
    have "unat c + 32 \<le> unat c' \<or> unat c' + 32 \<le> unat c" using heap_rel_others(1)[OF r that[unfolded b]] by linarith
    from block_ok_frame(2)[OF heap_rel_others(3)[OF r that[unfolded b]] this c heap_rel_others(2)[OF r that[unfolded b]]]
    show ?thesis by (simp add: b set_chunk_magic_def)
  qed
  moreover have "block_ok (kh_word ?t) (c, m, v)"
    using r by (auto simp: heap_rel_def block_ok_def set_chunk_magic_def)
  moreover obtain a e where "tiled a (xs @ (c, m, u) # ys) e" "0 < a" "e < 2 ^ 64"
    "unat (chunk_list_head s) < a \<or> e \<le> unat (chunk_list_head s)"
    using r by (auto simp: heap_rel_def)
  then have "\<exists>a e. 0 < a \<and> e < 2 ^ 64 \<and> tiled a (xs @ (c, m, v) # ys) e \<and>
      (unat (chunk_list_head s) < a \<or> e \<le> unat (chunk_list_head s))"
    by (intro exI[of _ a] exI[of _ e]) (simp add: tiled_append)
  ultimately show ?thesis using r by (auto simp: heap_rel_def set_chunk_magic_def)
qed

lemma word_split_sizes:
  fixes c m n :: u64
  assumes "unat c + 32 + unat m < 2 ^ 64" "n \<le> m" "64 \<le> m - n"
  shows "unat n + 64 \<le> unat m" "unat (c + 32 + n) = unat c + 32 + unat n"
    "unat (m - n - 32) = unat m - unat n - 32"
proof -
  have d: "unat (m - n) = unat m - unat n" by (rule unat_sub_le[OF assms(2)])
  have "64 \<le> unat (m - n)" using assms(3) by (simp add: word_le_nat_alt)
  then show a: "unat n + 64 \<le> unat m" using d by linarith
  have "unat (c + 32) = unat c + 32" using assms(1) by (simp add: unat_word_ariths(1))
  then show "unat (c + 32 + n) = unat c + 32 + unat n"
    using unat_add_no_wrap[of "c + 32" n] assms(1) a by simp
  have "32 \<le> m - n" using a d by (simp add: word_le_nat_alt)
  from unat_sub_le[OF this] d show "unat (m - n - 32) = unat m - unat n - 32" by simp
qed

lemma take_split:
  assumes r: "heap_rel s (xs @ (c, m, False) # ys)" and n: "n \<le> m" "64 \<le> m - n"
  shows "heap_rel (kheap_take c n s) (xs @ (c, n, True) # (c + 32 + n, m - n - 32, False) # ys)"
    (is "heap_rel ?t _")
proof -
  let ?d = "c + 32 + n"
  have "(c, m, False) \<in> set (xs @ (c, m, False) # ys)" by simp
  note B = heap_rel_block[OF r this]
  have W: "unat n + 64 \<le> unat m" "unat ?d = unat c + 32 + unat n" "unat (m - n - 32) = unat m - unat n - 32"
    by (rule word_split_sizes[OF B(5) n])+
  have far: "unat c + 32 \<le> unat ?d \<or> unat ?d + 32 \<le> unat c" "unat c + 32 < 2 ^ 64" "unat ?d + 32 < 2 ^ 64"
    using W B(5) by simp_all
  note H = hdr_distinct[OF far]
  define w where "w = (kh_word s)(?d + 16 := m - n - 32, ?d + 24 := KHEAP_MAGIC_FREE,
    c + 16 := n, c + 24 := KHEAP_MAGIC_ALLOCATED)"
  have t: "?t = s\<lparr>kh_word := w, kh_list := list_insert ?d c (kh_list s)\<rparr>"
    using n(2) B(1) by (simp add: kheap_take_def Let_def set_chunk_size_def set_chunk_magic_def kh_insert_def
        chunk_size_def KHEAP_CHUNK_MIN_SIZE_def CHUNK_HDR_def w_def)
  have others: "block_ok w (c', n', u')" if "(c', n', u') \<in> set xs \<union> set ys" for c' n' u'
  proof -
    note O = heap_rel_others[OF r that]
    have "unat c + 32 \<le> unat c' \<or> unat c' + 32 \<le> unat c" "unat ?d + 32 \<le> unat c' \<or> unat c' + 32 \<le> unat ?d"
      using O(1) W by linarith+
    then show ?thesis unfolding w_def
      by (intro block_ok_frame O far(2,3))
  qed
  have own: "block_ok w (c, n, True)" "block_ok w (?d, m - n - 32, False)"
    using H by (simp_all add: block_ok_def w_def)
  obtain a e where T: "tiled a (xs @ (c, m, False) # ys) e" "0 < a" "e < 2 ^ 64"
    "unat (chunk_list_head s) < a \<or> e \<le> unat (chunk_list_head s)"
    using r by (auto simp: heap_rel_def)
  have T': "tiled a (xs @ (c, n, True) # (?d, m - n - 32, False) # ys) e"
    using T(1) W by (auto simp: tiled_append add_ac)
  have dn: "distinct (map fst (xs @ (c, n, True) # (?d, m - n - 32, False) # ys))" by (rule tiled_distinct[OF T'])
  have "a \<le> unat ?d \<and> unat ?d + 32 \<le> e" using tiled_mem[OF T', of ?d "m - n - 32" False] by simp
  then have "?d \<noteq> chunk_list_head s" using T(4) by auto
  moreover have "ring (kh_list s) (chunk_list_head s) ((map fst xs @ [c]) @ map fst ys)"
    using r by (simp add: heap_rel_def)
  ultimately have "ring (list_insert ?d c (kh_list s)) (chunk_list_head s) ((map fst xs @ [c]) @ ?d # map fst ys)"
    using ring_insert[of "kh_list s" "chunk_list_head s" "map fst xs @ [c]" "map fst ys" ?d] dn by auto
  then show ?thesis using T T' own others by (auto simp: heap_rel_def t)
qed

lemma kheap_take_spec:
  assumes r: "heap_rel s (xs @ (c, m, False) # ys)" and n: "n \<le> m"
  shows "heap_rel (kheap_take c n s) (xs @ (if 64 \<le> m - n
    then [(c, n, True), (c + 32 + n, m - n - 32, False)] else [(c, m, True)]) @ ys)"
proof (cases "64 \<le> m - n")
  case True
  then show ?thesis using take_split[OF r n True] by simp
next
  case False
  have "chunk_size c s = m" by (rule heap_rel_block(1)[OF r, of _ _ False]) simp
  then have "kheap_take c n s = set_chunk_magic c KHEAP_MAGIC_ALLOCATED s"
    using False by (simp add: kheap_take_def KHEAP_CHUNK_MIN_SIZE_def CHUNK_HDR_def)
  then show ?thesis using take_whole[OF r, of True] False by simp
qed

section \<open>\<open>kmem_alloc\<close>\<close>

text \<open>The lock words and the page-level state do not matter to the block list.\<close>

lemma heap_rel_frame [simp]:
  "heap_rel (s\<lparr>mutex_owner := f\<rparr>) bs = heap_rel s bs" "heap_rel (s\<lparr>pm_map := pm\<rparr>) bs = heap_rel s bs"
  by (simp_all add: heap_rel_def)

lemma kheap_take_frame [simp]:
  "mutex_owner (kheap_take p n s) = mutex_owner s" "current_process (kheap_take p n s) = current_process s"
  by (simp_all add: kheap_take_def Let_def set_chunk_size_def set_chunk_magic_def kh_insert_def)

lemma kheap_take_mutex:
  "kheap_take p n (s\<lparr>mutex_owner := f\<rparr>) = (kheap_take p n s)\<lparr>mutex_owner := f\<rparr>"
  by (simp add: kheap_take_def Let_def set_chunk_size_def set_chunk_magic_def kh_insert_def chunk_size_def)

lemma kheap_expand_result:
  assumes "kheap_expand n s = Ok (ok, t)"
  shows "\<not> ok \<and> (\<exists>pm. t = s\<lparr>pm_map := pm\<rparr>)"
proof -
  obtain c u where "vm_kern_alloc_anywhere (n + CHUNK_HDR) s = Ok (c, u)"
    using assms by (auto simp: kheap_expand_def Let_def bind_res_Ok_iff)
  with vm_kern_alloc_result[OF this] assms show ?thesis
    by (auto simp: kheap_expand_def Let_def)
qed

lemma kheap_find_head:
  assumes r: "heap_rel s bs"
  shows "kheap_find n (s\<lparr>mutex_owner := f\<rparr>) (lnext (kh_list s) (chunk_list_head s)) =
    Some (Ok (case List.find (fits n) bs of None \<Rightarrow> chunk_list_head s | Some b \<Rightarrow> fst b))"
proof -
  have "lnext (kh_list s) (chunk_list_head s) = (case bs of [] \<Rightarrow> chunk_list_head s | b # _ \<Rightarrow> fst b)"
    using r ring_first by (fastforce simp: heap_rel_def split: list.splits)
  moreover have "heap_rel (s\<lparr>mutex_owner := f\<rparr>) ([] @ bs)" using r by simp
  from kheap_find_spec[OF this, of n]
  have "kheap_find n (s\<lparr>mutex_owner := f\<rparr>) (case bs of [] \<Rightarrow> chunk_list_head s | b # _ \<Rightarrow> fst b) =
    Some (Ok (case List.find (fits n) bs of None \<Rightarrow> chunk_list_head s | Some b \<Rightarrow> fst b))"
    by (simp cong: list.case_cong option.case_cong)
  ultimately show ?thesis by simp
qed

lemma kmem_alloc_hit:
  assumes r: "heap_rel s bs" and l: "mutex_owner s KheapLock = 0"
    and h: "h_alloc (ALIGNUP sz 32) bs = Some (c, bs')"
  shows "kmem_alloc sz s = Ok (c + 32, kheap_take c (ALIGNUP sz 32) s)"
    and "heap_rel (kheap_take c (ALIGNUP sz 32) s) bs'"
proof -
  let ?n = "ALIGNUP sz 32" and ?u = "s\<lparr>mutex_owner := (mutex_owner s)(KheapLock := get_current_proc s)\<rparr>"
  from h_alloc_find[of ?n bs] h obtain xs m ys where a: "bs = xs @ (c, m, False) # ys" "?n \<le> m"
    "List.find (fits ?n) bs = Some (c, m, False)"
    "bs' = xs @ (if 64 \<le> m - ?n then [(c, ?n, True), (c + 32 + ?n, m - ?n - 32, False)] else [(c, m, True)]) @ ys"
    by auto
  show "heap_rel (kheap_take c ?n s) bs'" using kheap_take_spec[of s xs c m ys ?n] r a by simp
  have f: "kheap_find ?n ?u (lnext (kh_list s) (chunk_list_head s)) = Some (Ok c)"
    using kheap_find_head[OF r, of ?n] a(3) by simp
  have c: "c \<noteq> chunk_list_head s" using heap_rel_block(6)[OF r, of c m False] a(1) by simp
  have m: "(mutex_owner s)(KheapLock := 0) = mutex_owner s" using l by (simp add: fun_upd_idem)
  show "kmem_alloc sz s = Ok (c + 32, kheap_take c ?n s)"
    using l f c by (simp add: kmem_alloc_def Let_def kheap_take_mutex CHUNK_HDR_def get_current_proc_def m)
qed

lemma kmem_alloc_miss:
  assumes r: "heap_rel s bs" and l: "mutex_owner s KheapLock = 0"
    and h: "h_alloc (ALIGNUP sz 32) bs = None" and a: "kmem_alloc sz s = Ok (p, t)"
  shows "p = 0 \<and> (\<exists>pm. t = s\<lparr>pm_map := pm\<rparr>)"
proof -
  let ?n = "ALIGNUP sz 32" and ?u = "s\<lparr>mutex_owner := (mutex_owner s)(KheapLock := get_current_proc s)\<rparr>"
  have "List.find (fits ?n) bs = None" using h_alloc_find[of ?n bs] h by auto
  then have f: "kheap_find ?n ?u (lnext (kh_list s) (chunk_list_head s)) = Some (Ok (chunk_list_head s))"
    using kheap_find_head[OF r, of ?n] by simp
  obtain ok v where e: "kheap_expand ?n ?u = Ok (ok, v)"
    using a l f by (auto simp: kmem_alloc_def Let_def bind_res_Ok_iff)
  obtain pm where v: "\<not> ok" "v = ?u\<lparr>pm_map := pm\<rparr>" using kheap_expand_result[OF e] by blast
  have m: "(mutex_owner s)(KheapLock := 0) = mutex_owner s" using l by (simp add: fun_upd_idem)
  have "p = 0" "t = s\<lparr>pm_map := pm\<rparr>"
    using a l f e v by (simp_all add: kmem_alloc_def Let_def get_current_proc_def m)
  then show ?thesis by blast
qed

section \<open>\<open>kmem_free\<close>\<close>

lemma merge_spec:
  assumes r: "heap_rel s (xs @ (p, np, up) # (c, n, uc) # ys)"
  shows "heap_rel (snd (kheap_merge_chunk_into_prev c s)) (xs @ (p, np + n + 32, up) # ys)"
    and "mutex_owner (snd (kheap_merge_chunk_into_prev c s)) = mutex_owner s"
    and "current_process (snd (kheap_merge_chunk_into_prev c s)) = current_process s"
    and "chunk_list_head (snd (kheap_merge_chunk_into_prev c s)) = chunk_list_head s"
proof -
  let ?t = "snd (kheap_merge_chunk_into_prev c s)"
  have mp: "(p, np, up) \<in> set (xs @ (p, np, up) # (c, n, uc) # ys)"
    and mc: "(c, n, uc) \<in> set (xs @ (p, np, up) # (c, n, uc) # ys)" by simp_all
  note P = heap_rel_block[OF r mp] and C = heap_rel_block[OF r mc]
  have rg: "ring (kh_list s) (chunk_list_head s) ((map fst xs @ [p]) @ c # map fst ys)"
    using r by (simp add: heap_rel_def)
  have prv: "lprev (kh_list s) c = p" using ring_prev_mid[OF rg] by simp
  define w where "w = (kh_word s)(p + 16 := np + n + 32)"
  have t: "?t = s\<lparr>kh_list := list_remove c (kh_list s), kh_word := w\<rparr>"
    using P(1) C(1) prv
    by (simp add: kheap_merge_chunk_into_prev_def Let_def set_chunk_size_def chunk_size_def CHUNK_HDR_def w_def)
  show "mutex_owner ?t = mutex_owner s" "current_process ?t = current_process s"
    "chunk_list_head ?t = chunk_list_head s" by (simp_all add: t)
  have r': "heap_rel s (xs @ (p, np, up) # ((c, n, uc) # ys))" using r by simp
  have others: "block_ok w (c', n', u')" if "(c', n', u') \<in> set xs \<union> set ys" for c' n' u'
  proof -
    have m: "(c', n', u') \<in> set xs \<union> set ((c, n, uc) # ys)" using that by auto
    note O = heap_rel_others[OF r' m]
    have "unat p + 32 \<le> unat c' \<or> unat c' + 32 \<le> unat p" using O(1) by linarith
    moreover have "unat p + 32 < 2 ^ 64" using P(5) by simp
    ultimately show ?thesis unfolding w_def by (intro block_ok_frame O)
  qed
  have "block_ok (kh_word s) (p, np, up)" using r by (simp add: heap_rel_def)
  then have own: "block_ok w (p, np + n + 32, up)" by (simp add: block_ok_def w_def)
  obtain a e where T: "tiled a (xs @ (p, np, up) # (c, n, uc) # ys) e" "0 < a" "e < 2 ^ 64"
    "unat (chunk_list_head s) < a \<or> e \<le> unat (chunk_list_head s)"
    using r by (auto simp: heap_rel_def)
  have cp: "unat c = unat p + 32 + unat np" using T(1) by (auto simp: tiled_append)
  have "unat (np + n) = unat np + unat n" using C(5) cp by (intro unat_add_no_wrap) simp
  then have "unat (np + n + 32) = unat np + unat n + 32"
    using C(5) cp unat_add_no_wrap[of "np + n" 32] by simp
  then have "tiled a (xs @ (p, np + n + 32, up) # ys) e" using T(1) cp by (auto simp: tiled_append add_ac)
  moreover have "ring (list_remove c (kh_list s)) (chunk_list_head s) ((map fst xs @ [p]) @ map fst ys)"
    by (rule ring_remove(1)[OF rg])
  ultimately show "heap_rel ?t (xs @ (p, np + n + 32, up) # ys)"
    using T own others by (auto simp: heap_rel_def t)
qed

lemma h_free_cases:
  assumes "c \<notin> fst ` set pre"
  shows "h_free c (pre @ (c, n, u) # post) =
    (if pre = [] then merge_next ((c, n, False) # post)
     else let (p, np, up) = last pre in
       if up then pre @ merge_next ((c, n, False) # post)
       else butlast pre @ merge_next ((p, np + n + 32, False) # post))"
  using assms
proof (induction pre)
  case Nil
  then show ?case by (cases post) (auto split: prod.splits)
next
  case (Cons b pre)
  obtain b1 b2 b3 where b: "b = (b1, b2, b3)" by (cases b)
  have ne: "b1 \<noteq> c" using Cons.prems b by auto
  show ?case
  proof (cases pre)
    case Nil
    then show ?thesis using ne b by (cases b3) simp_all
  next
    case (Cons d pre')
    obtain d1 d2 d3 where d: "d = (d1, d2, d3)" by (cases d)
    have "d1 \<noteq> c" using Cons.prems Cons d by auto
    then show ?thesis using Cons.IH Cons.prems ne b d Cons by (auto simp: Let_def split: prod.splits)
  qed
qed

text \<open>The second merge of \<open>kmem_free\<close>: the node \<open>nxt\<close> after the block at \<open>q\<close>.\<close>

lemma merge_next_spec:
  assumes r: "heap_rel s (xs @ (q, nq, False) # post)"
    and nxt: "nxt = (case post of [] \<Rightarrow> 0 | b # _ \<Rightarrow> fst b)"
  shows "\<exists>t. bind_res (kheap_free_neighbour nxt s) (\<lambda>b.
      let s = (if b then snd (kheap_merge_chunk_into_prev nxt s) else s) in f s) = f t \<and>
    heap_rel t (xs @ merge_next ((q, nq, False) # post)) \<and>
    mutex_owner t = mutex_owner s \<and> current_process t = current_process s"
proof (cases post)
  case Nil
  then show ?thesis using r nxt by (intro exI[of _ s]) (simp add: kheap_free_neighbour_def)
next
  case (Cons b bs)
  obtain c n u where b: "b = (c, n, u)" by (cases b)
  have m: "(c, n, u) \<in> set (xs @ (q, nq, False) # post)" by (simp add: Cons b)
  note B = heap_rel_block[OF r m]
  have c: "nxt = c" "kheap_free_neighbour nxt s = Ok (\<not> u)"
    using nxt Cons b B by (simp_all add: kheap_free_neighbour_def)
  show ?thesis
  proof (cases u)
    case True
    then show ?thesis using c r Cons b by (intro exI[of _ s]) simp
  next
    case False
    have "heap_rel s (xs @ (q, nq, False) # (c, n, False) # bs)" using r Cons b False by simp
    from merge_spec[OF this] show ?thesis
      using False c Cons b by (intro exI[of _ "snd (kheap_merge_chunk_into_prev c s)"]) simp
  qed
qed

text \<open>The first merge: the block at \<open>c\<close> into a free predecessor \<open>prv\<close>.\<close>

lemma merge_prev_spec:
  assumes r: "heap_rel s (pre @ (c, n, False) # post)"
    and prv: "prv = (if pre = [] then 0 else fst (last pre))"
  shows "\<exists>t xs q nq. bind_res (kheap_free_neighbour prv s) (\<lambda>b.
      let s = (if b then snd (kheap_merge_chunk_into_prev c s) else s) in f s) = f t \<and>
    heap_rel t (xs @ (q, nq, False) # post) \<and>
    xs @ merge_next ((q, nq, False) # post) = h_free c (pre @ (c, n, True) # post) \<and>
    mutex_owner t = mutex_owner s \<and> current_process t = current_process s \<and>
    chunk_list_head t = chunk_list_head s"
proof -
  obtain a e where "tiled a (pre @ (c, n, False) # post) e" using r by (auto simp: heap_rel_def)
  from tiled_distinct[OF this] have "c \<notin> fst ` set pre" by simp
  note F = h_free_cases[OF this, of n True post]
  show ?thesis
  proof (cases pre rule: rev_cases)
    case Nil
    then show ?thesis using r prv F
      by (intro exI[of _ s] exI[of _ "[]"] exI[of _ c] exI[of _ n]) (simp add: kheap_free_neighbour_def)
  next
    case (snoc ps b)
    obtain p np up where b: "b = (p, np, up)" by (cases b)
    have m: "(p, np, up) \<in> set (pre @ (c, n, False) # post)" by (simp add: snoc b)
    note B = heap_rel_block[OF r m]
    have k: "kheap_free_neighbour prv s = Ok (\<not> up)" using prv snoc b B by (simp add: kheap_free_neighbour_def)
    show ?thesis
    proof (cases up)
      case True
      then show ?thesis using r k F snoc b
        by (intro exI[of _ s] exI[of _ pre] exI[of _ c] exI[of _ n]) simp
    next
      case False
      have "heap_rel s (ps @ (p, np, False) # (c, n, False) # post)" using r snoc b False by simp
      from merge_spec[OF this] show ?thesis using False k F snoc b
        by (intro exI[of _ "snd (kheap_merge_chunk_into_prev c s)"] exI[of _ ps] exI[of _ p]
            exI[of _ "np + n + 32"]) simp
    qed
  qed
qed

lemma kmem_free_spec:
  assumes r: "heap_rel s bs" and l: "mutex_owner s KheapLock = 0" and m: "(c, n, True) \<in> set bs"
  shows "\<exists>t. kmem_free (c + 32) s = Ok t \<and> heap_rel t (h_free c bs) \<and> mutex_owner t = mutex_owner s"
proof -
  obtain pre post where bs: "bs = pre @ (c, n, True) # post" using m by (meson split_list)
  define u where "u = s\<lparr>mutex_owner := (mutex_owner s)(KheapLock := get_current_proc s)\<rparr>"
  have "heap_rel u (pre @ (c, n, True) # post)" using r bs by (simp add: u_def)
  from take_whole[OF this, of False]
  have r1: "heap_rel (set_chunk_magic c KHEAP_MAGIC_FREE u) (pre @ (c, n, False) # post)" by simp
  let ?s1 = "set_chunk_magic c KHEAP_MAGIC_FREE u"
  have rg: "ring (kh_list s) (chunk_list_head s) (map fst pre @ c # map fst post)"
    using r bs by (simp add: heap_rel_def)
  define prv nxt where "prv = (if pre = [] then 0 else fst (last pre))"
    and "nxt = (case post of [] \<Rightarrow> 0 | b # _ \<Rightarrow> fst b)"
  have nh: "x \<noteq> chunk_list_head s" if "x \<in> set (map fst pre @ c # map fst post)" for x
    using rg that by (auto simp: ring_def)
  have prv: "(if lprev (kh_list s) c = chunk_list_head s then 0 else lprev (kh_list s) c) = prv"
    using ring_prev_mid[OF rg] nh[of "fst (last pre)"] by (cases pre rule: rev_cases) (auto simp: prv_def)
  have nxt: "(if lnext (kh_list s) c = chunk_list_head s then 0 else lnext (kh_list s) c) = nxt"
    using ring_next_mid[OF rg] nh by (cases post) (auto simp: nxt_def)
  define fin where "fin = (\<lambda>s :: 'a kheap_state_scheme. bind_res (kheap_free_neighbour nxt s) (\<lambda>b.
      let s = (if b then snd (kheap_merge_chunk_into_prev nxt s) else s) in mutex_release KheapLock s))"
  have mg: "kh_word u (c + 24) = KHEAP_MAGIC_ALLOCATED"
    using r bs by (simp add: heap_rel_def block_ok_def u_def)
  then have al: "kh_word u (c + 24) \<noteq> KHEAP_MAGIC_ALIGNED" and mg': "chunk_magic c u = KHEAP_MAGIC_ALLOCATED"
    by (simp_all add: chunk_magic_def)
  have ac: "mutex_acquire KheapLock s = Ok u" using l by (simp add: u_def)
  have ad: "c + 32 - ALIGNED_HDR + 8 = c + 24" "kheap_chunk_from_ptr (c + 32) = c"
    by (simp_all add: ALIGNED_HDR_def CHUNK_HDR_def kheap_chunk_from_ptr_def)
  have fl: "kh_list ?s1 = kh_list s" "chunk_list_head ?s1 = chunk_list_head s"
    by (simp_all add: set_chunk_magic_def u_def)
  have "kmem_free (c + 32) s = bind_res (kheap_free_neighbour prv ?s1) (\<lambda>b.
      let s = (if b then snd (kheap_merge_chunk_into_prev c ?s1) else ?s1) in fin s)"
    unfolding kmem_free_def fin_def ac bind_res_simps Let_def ad if_not_P[OF al] mg' fl prv nxt
    by (simp only: verify_simps simp_thms)
  moreover obtain t1 xs q nq where t1: "bind_res (kheap_free_neighbour prv ?s1) (\<lambda>b.
      let s = (if b then snd (kheap_merge_chunk_into_prev c ?s1) else ?s1) in fin s) = fin t1"
    "heap_rel t1 (xs @ (q, nq, False) # post)" "xs @ merge_next ((q, nq, False) # post) = h_free c bs"
    "mutex_owner t1 = mutex_owner ?s1" "current_process t1 = current_process ?s1"
    using merge_prev_spec[OF r1 prv_def, of fin] unfolding bs by blast
  moreover obtain t2 where t2: "fin t1 = mutex_release KheapLock t2"
    "heap_rel t2 (h_free c bs)" "mutex_owner t2 = mutex_owner t1" "current_process t2 = current_process t1"
    using merge_next_spec[OF t1(2) nxt_def, of "mutex_release KheapLock"] t1(3) unfolding fin_def by auto
  moreover have "mutex_owner t2 = (mutex_owner s)(KheapLock := get_current_proc s)" "current_process t2 = current_process s"
    using t1(4,5) t2(3,4) by (simp_all add: set_chunk_magic_def u_def)
  moreover from this have "mutex_release KheapLock t2 = Ok (t2\<lparr>mutex_owner := mutex_owner s\<rparr>)"
    using l by (simp add: get_current_proc_def fun_upd_idem)
  ultimately show ?thesis by (intro exI[of _ "t2\<lparr>mutex_owner := mutex_owner s\<rparr>"]) simp
qed

section \<open>The heap as an exclusive allocator\<close>

lemma heap_rel_unique:
  assumes "heap_rel s bs" "heap_rel s bs'"
  shows "bs = bs'"
proof -
  have "ring (kh_list s) (chunk_list_head s) (map fst bs)" "ring (kh_list s) (chunk_list_head s) (map fst bs')"
    using assms by (simp_all add: heap_rel_def)
  then have eq: "map fst bs = map fst bs'" by (rule ring_unique)
  have get: "b = (fst b, chunk_size (fst b) s, chunk_magic (fst b) s = KHEAP_MAGIC_ALLOCATED)"
    if "heap_rel s as" "b \<in> set as" for as b
  proof -
    obtain c n u where b: "b = (c, n, u)" by (cases b)
    have "block_ok (kh_word s) b" using that by (simp add: heap_rel_def)
    then show ?thesis by (simp add: b block_ok_def chunk_size_def chunk_magic_def)
  qed
  let ?g = "\<lambda>c. (c, chunk_size c s, chunk_magic c s = KHEAP_MAGIC_ALLOCATED)"
  have m: "map ?g (map fst as) = as" if "heap_rel s as" for as
    unfolding map_map comp_def by (rule map_idI) (rule get[OF that, symmetric])
  show ?thesis using m[OF assms(1)] m[OF assms(2)] eq by simp
qed

lemma heap_rel_distinct: "heap_rel s bs \<Longrightarrow> distinct (map fst bs)"
  using tiled_distinct by (auto simp: heap_rel_def)

lemma h_live_simps [simp]:
  "h_live [] = {}" "h_live ((c, n, u) # bs) = (if u then insert (c + 32) (h_live bs) else h_live bs)"
  "h_live (xs @ ys) = h_live xs \<union> h_live ys"
  by (auto simp: h_live_def)

lemma h_live_mem: "a \<in> h_live bs \<longleftrightarrow> (\<exists>n. (a - 32, n, True) \<in> set bs)"
  by (auto simp: h_live_def) (metis diff_add_cancel)

lemma h_live_notin: "c \<notin> fst ` set bs \<Longrightarrow> c + 32 \<notin> h_live bs"
  by (force simp: h_live_def)

lemma h_alloc_live:
  assumes "h_alloc n bs = Some (c, bs')" "distinct (map fst bs)"
  shows "h_live bs' = insert (c + 32) (h_live bs)" "c + 32 \<notin> h_live bs"
proof -
  from h_alloc_find[of n bs] assms(1) obtain xs m ys where a: "bs = xs @ (c, m, False) # ys"
    "bs' = xs @ (if 64 \<le> m - n then [(c, n, True), (c + 32 + n, m - n - 32, False)] else [(c, m, True)]) @ ys"
    by auto
  then show "h_live bs' = insert (c + 32) (h_live bs)" by auto
  have "c \<notin> fst ` set xs" "c \<notin> fst ` set ys" using assms(2) a(1) by auto
  then show "c + 32 \<notin> h_live bs" using a(1) h_live_notin by auto
qed

lemma merge_next_live: "h_live (merge_next (b # post)) = h_live (b # post)"
proof -
  obtain c n u where b: "b = (c, n, u)" by (cases b)
  show ?thesis
  proof (cases post)
    case (Cons d post')
    obtain e m v where d: "d = (e, m, v)" by (cases d)
    show ?thesis by (cases v) (simp_all add: b d Cons)
  qed (simp add: b)
qed

lemma h_free_live:
  assumes "(c, n, True) \<in> set bs" "distinct (map fst bs)"
  shows "h_live (h_free c bs) = h_live bs - {c + 32}"
proof -
  obtain pre post where bs: "bs = pre @ (c, n, True) # post" using assms(1) by (meson split_list)
  have c: "c \<notin> fst ` set pre" "c \<notin> fst ` set post" using assms(2) bs by auto
  have l: "c + 32 \<notin> h_live pre" "c + 32 \<notin> h_live post" using c h_live_notin by auto
  show ?thesis
  proof (cases pre rule: rev_cases)
    case Nil
    then show ?thesis using h_free_cases[OF c(1)] bs l by (simp add: merge_next_live)
  next
    case (snoc ps b)
    obtain p np up where b: "b = (p, np, up)" by (cases b)
    show ?thesis using h_free_cases[OF c(1), of n True post] bs l snoc b by (auto simp: merge_next_live)
  qed
qed

definition kheap_inv :: "'a kheap_state_scheme \<Rightarrow> bool" where
  "kheap_inv s \<longleftrightarrow> (\<exists>bs. heap_rel s bs) \<and> mutex_owner s KheapLock = 0"

definition kheap_live :: "'a kheap_state_scheme \<Rightarrow> u64 set" where
  "kheap_live s = {a. \<exists>bs. heap_rel s bs \<and> a \<in> h_live bs}"

definition kheap_request :: "u64 \<Rightarrow> 'a kheap_state_scheme \<Rightarrow> u64 option \<times> 'a kheap_state_scheme" where
  "kheap_request sz s = (case kmem_alloc sz s of
     Ok (r, t) \<Rightarrow> (if r = 0 then None else Some r, t) | Fail _ \<Rightarrow> (None, s))"

definition kheap_give_back :: "u64 \<Rightarrow> 'a kheap_state_scheme \<Rightarrow> 'a kheap_state_scheme" where
  "kheap_give_back a s = (case kmem_free a s of Ok t \<Rightarrow> t | Fail _ \<Rightarrow> s)"

lemma kheap_live_rel: "heap_rel s bs \<Longrightarrow> kheap_live s = h_live bs"
  using heap_rel_unique by (auto simp: kheap_live_def)

lemma kheap_request_cases:
  assumes r: "heap_rel s bs" and l: "mutex_owner s KheapLock = 0"
  obtains (hit) c bs' t where "h_alloc (ALIGNUP sz 32) bs = Some (c, bs')" "kheap_request sz s = (Some (c + 32), t)"
      "heap_rel t bs'" "mutex_owner t = mutex_owner s"
  | (miss) t where "kheap_request sz s = (None, t)" "heap_rel t bs" "mutex_owner t = mutex_owner s"
proof (cases "h_alloc (ALIGNUP sz 32) bs")
  case None
  show thesis
  proof (cases "kmem_alloc sz s")
    case (Ok x)
    obtain p t where x: "x = (p, t)" by (cases x)
    obtain pm where "p = 0" "t = s\<lparr>pm_map := pm\<rparr>" using kmem_alloc_miss[OF r l None] Ok x by blast
    then show thesis using Ok x r by (intro miss[of t]) (simp_all add: kheap_request_def)
  next
    case (Fail e)
    then show thesis using r by (intro miss[of s]) (simp_all add: kheap_request_def)
  qed
next
  case (Some x)
  obtain c bs' where x: "h_alloc (ALIGNUP sz 32) bs = Some (c, bs')" using Some by (cases x) auto
  note H = kmem_alloc_hit[OF r l x]
  obtain xs n ys where "bs = xs @ (c, n, False) # ys" using h_alloc_find[of "ALIGNUP sz 32" bs] x by auto
  then have "(c, n, False) \<in> set bs" by simp
  from heap_rel_block(5)[OF r this] have "unat (c + 32) = unat c + 32" by (simp add: unat_word_ariths(1))
  then have "c + 32 \<noteq> 0" by (metis add_eq_0_iff_both_eq_0 unat_0 zero_neq_numeral)
  then show thesis using x H
    by (intro hit[of c bs' "kheap_take c (ALIGNUP sz 32) s"]) (simp_all add: kheap_request_def)
qed

interpretation kheap: exclusive_allocator kheap_inv kheap_live "kheap_request sz" kheap_give_back for sz
proof unfold_locales
  fix s t :: "'a kheap_state_scheme" and a :: u64
  assume i: "kheap_inv s" and q: "kheap_request sz s = (Some a, t)"
  then obtain bs where r: "heap_rel s bs" "mutex_owner s KheapLock = 0" by (auto simp: kheap_inv_def)
  have A: "kheap_inv t \<and> a \<notin> kheap_live s \<and> kheap_live t = insert a (kheap_live s)"
    using r
  proof (cases rule: kheap_request_cases[where sz = sz])
    case (hit c bs' t')
    then show ?thesis using q r h_alloc_live[OF hit(1) heap_rel_distinct[OF r(1)]]
      by (auto simp: kheap_inv_def kheap_live_rel)
  next
    case (miss t')
    then show ?thesis using q by simp
  qed
  then show "kheap_inv t \<and> a \<notin> kheap_live s \<and> kheap_live t = insert a (kheap_live s)" .
next
  fix s t :: "'a kheap_state_scheme"
  assume i: "kheap_inv s" and q: "kheap_request sz s = (None, t)"
  then obtain bs where r: "heap_rel s bs" "mutex_owner s KheapLock = 0" by (auto simp: kheap_inv_def)
  then show "kheap_inv t \<and> kheap_live t = kheap_live s"
    by (cases rule: kheap_request_cases[where sz = sz]) (use q r in \<open>auto simp: kheap_inv_def kheap_live_rel\<close>)
next
  have free: "kheap_inv (kheap_give_back a s) \<and> kheap_live (kheap_give_back a s) = kheap_live s - {a}"
    if i: "kheap_inv s" and al: "a \<in> kheap_live s" for s :: "'a kheap_state_scheme" and a
  proof -
    obtain bs where r: "heap_rel s bs" "mutex_owner s KheapLock = 0" using i by (auto simp: kheap_inv_def)
    then obtain n where n: "(a - 32, n, True) \<in> set bs" using al by (auto simp: kheap_live_rel h_live_mem)
    obtain t where t: "kmem_free a s = Ok t" "heap_rel t (h_free (a - 32) bs)" "mutex_owner t = mutex_owner s"
      using kmem_free_spec[OF r n] by auto
    then show ?thesis using r h_free_live[OF n heap_rel_distinct[OF r(1)]]
      by (auto simp: kheap_give_back_def kheap_inv_def kheap_live_rel)
  qed
  fix s t :: "'a kheap_state_scheme" and a
  show "kheap_inv s \<Longrightarrow> a \<in> kheap_live s \<Longrightarrow>
    kheap_inv (kheap_give_back a s) \<and> kheap_live (kheap_give_back a s) = kheap_live s - {a}" by (rule free)
  assume i: "kheap_inv s" and q: "kheap_request sz s = (Some a, t)"
  then obtain bs where r: "heap_rel s bs" "mutex_owner s KheapLock = 0" by (auto simp: kheap_inv_def)
  have "kheap_inv t" "kheap_live t = insert a (kheap_live s)" "a \<notin> kheap_live s"
    using r h_alloc_live[OF _ heap_rel_distinct[OF r(1)]] q
    by (cases rule: kheap_request_cases[where sz = sz]; auto simp: kheap_inv_def kheap_live_rel)+
  then show "kheap_live (kheap_give_back a t) = kheap_live s" using free[of t a] by auto
qed

section \<open>Aligned allocation\<close>

lemma ALIGNUP_32:
  assumes "unat sz \<le> 2 ^ 64 - 32"
  shows "unat sz \<le> unat (ALIGNUP sz 32)"
proof (cases "sz = 0")
  case False
  then have "1 \<le> sz" by (simp add: word_le_nat_alt unat_gt_0 Suc_le_eq)
  from unat_sub_le[OF this] have s1: "unat (sz - 1) = unat sz - 1" by simp
  have d: "unat (ALIGNDOWN (sz - 1) 32) = (unat sz - 1) div 32 * 32"
    using unat_ALIGNDOWN[of 5 "sz - 1"] s1 by simp
  have "(unat sz - 1) div 32 * 32 \<le> unat sz - 1" by simp
  then have "(unat sz - 1) div 32 * 32 + 32 < 2 ^ 64" using assms False by (simp add: unat_gt_0)
  then have "unat (ALIGNUP sz 32) = (unat sz - 1) div 32 * 32 + 32"
    unfolding ALIGNUP_def using unat_add_no_wrap[of "ALIGNDOWN (sz - 1) 32" 32] d by simp
  moreover have "unat sz \<le> (unat sz - 1) div 32 * 32 + 32" using dividend_less_div_times[of 32 "unat sz - 1"] by linarith
  ultimately show ?thesis by simp
qed simp

section \<open>Properties\<close>

text \<open>A heap of one free chunk of 4 kB at \<open>0x1000\<close>, list head at \<open>0x8000\<close>.\<close>

definition demo_heap :: kheap_state where
  "demo_heap = \<lparr>mutex_owner = (\<lambda>_. 0), current_process = 0, pm_map = (\<lambda>_. 255), pm_upper_limit = 0,
     phys = (\<lambda>_. 0), cr3 = 0, as_pml4_paddr = (\<lambda>_. 0), as_ref_count = (\<lambda>_. 0), chunk_list_head = 0x8000,
     kh_list = list_insert 0x1000 0x8000 (list_head_init 0x8000 \<lparr>lprev = id, lnext = id\<rparr>),
     kh_word = (\<lambda>_. 0)(0x1010 := 0xfe0, 0x1018 := KHEAP_MAGIC_FREE)\<rparr>"

lemma demo_heap_rel: "heap_rel demo_heap [(0x1000, 0xfe0, False)]" "mutex_owner demo_heap KheapLock = 0"
proof -
  have "ring (kh_list demo_heap) (chunk_list_head demo_heap) [0x1000]"
    using ring_push_front[OF ring_init, of "0x1000 :: u64" "0x8000"] by (simp add: demo_heap_def)
  moreover have "block_ok (kh_word demo_heap) (0x1000, 0xfe0, False)" by (simp add: block_ok_def demo_heap_def)
  moreover have "tiled 0x1000 [(0x1000, 0xfe0, False)] 0x2000" by simp
  ultimately show "heap_rel demo_heap [(0x1000, 0xfe0, False)]"
    unfolding heap_rel_def by (intro conjI exI[of _ "0x1000"] exI[of _ "0x2000"]) (simp_all add: demo_heap_def)
  show "mutex_owner demo_heap KheapLock = 0" by (simp add: demo_heap_def)
qed

text \<open>C10: \<open>kmem_alloc\<close> implements first fit with splitting on the list of blocks: when a free
  block is large enough it returns that block's data address and the blocks are those of
  the specification; otherwise it returns \<open>NULL\<close> with the blocks unchanged, or does not
  return.\<close>

theorem kmem_alloc_refines:
  assumes "heap_rel s bs" "mutex_owner s KheapLock = 0"
  shows "case h_alloc (ALIGNUP sz 32) bs of
      Some (c, bs') \<Rightarrow> (\<exists>t. kmem_alloc sz s = Ok (c + 32, t) \<and> heap_rel t bs' \<and> mutex_owner t = mutex_owner s)
    | None \<Rightarrow> (case kmem_alloc sz s of Ok (p, t) \<Rightarrow> p = 0 \<and> heap_rel t bs | Fail _ \<Rightarrow> True)"
proof (cases "h_alloc (ALIGNUP sz 32) bs")
  case None
  then show ?thesis using kmem_alloc_miss[OF assms None] assms(1) by (auto split: res.splits)
next
  case (Some x)
  obtain c bs' where x: "x = (c, bs')" by (cases x)
  then show ?thesis using kmem_alloc_hit[OF assms, of sz c bs'] Some by simp
qed

theorem kmem_alloc_refines_witness:
  "\<exists>t. kmem_alloc 100 demo_heap = Ok (0x1020, t) \<and>
     heap_rel t [(0x1000, 128, True), (0x10a0, 0xf40, False)]"
proof -
  have "ALIGNUP 100 32 = 128" by (simp add: ALIGNUP_def ALIGNDOWN_def)
  then show ?thesis using kmem_alloc_refines[OF demo_heap_rel, of 100] by auto
qed

text \<open>C11: the block that \<open>kmem_alloc\<close> returns has at least the size asked for, and its bytes,
  header included, are disjoint from those of every block in use, all of which stay in
  use.\<close>

theorem kmem_alloc_fresh:
  assumes "heap_rel s bs" "mutex_owner s KheapLock = 0" "unat sz \<le> 2 ^ 64 - 32"
    and "h_alloc (ALIGNUP sz 32) bs = Some (c, bs')"
  shows "\<exists>t n. kmem_alloc sz s = Ok (c + 32, t) \<and> heap_rel t bs' \<and> (c, n, True) \<in> set bs' \<and>
    unat sz \<le> unat n \<and> (\<forall>d m. (d, m, True) \<in> set bs \<longrightarrow> (d, m, True) \<in> set bs' \<and>
      (unat d + 32 + unat m \<le> unat c \<or> unat c + 32 + unat n \<le> unat d))"
proof -
  let ?n = "ALIGNUP sz 32"
  note H = kmem_alloc_hit[OF assms(1,2,4)]
  obtain xs m ys where a: "bs = xs @ (c, m, False) # ys" "?n \<le> m"
    "bs' = xs @ (if 64 \<le> m - ?n then [(c, ?n, True), (c + 32 + ?n, m - ?n - 32, False)] else [(c, m, True)]) @ ys"
    using h_alloc_find[of ?n bs] assms(4) by auto
  define n where "n = (if 64 \<le> m - ?n then ?n else m)"
  have n: "(c, n, True) \<in> set bs'" "unat sz \<le> unat n" "unat n \<le> unat m"
    using a ALIGNUP_32[OF assms(3)] by (auto simp: n_def word_le_nat_alt)
  obtain b e where t: "tiled b (xs @ (c, m, False) # ys) e" using assms(1) a(1) by (auto simp: heap_rel_def)
  have "(d, k, True) \<in> set bs' \<and> (unat d + 32 + unat k \<le> unat c \<or> unat c + 32 + unat n \<le> unat d)"
    if "(d, k, True) \<in> set bs" for d k
    using that a tiled_apart[OF t, of d k True] n(3) by auto
  then show ?thesis using H n by blast
qed

theorem kmem_alloc_fresh_witness:
  "\<exists>t n. kmem_alloc 100 demo_heap = Ok (0x1000 + 32, t) \<and> (0x1000, n :: u64, True) \<in> set [(0x1000 :: u64, 128, True), (0x10a0, 0xf40, False)] \<and>
     unat (100 :: u64) \<le> unat n"
proof -
  have "h_alloc (ALIGNUP 100 32) [(0x1000, 0xfe0, False)] = Some (0x1000, [(0x1000, 128, True), (0x10a0, 0xf40, False)])"
    by (simp add: ALIGNUP_def ALIGNDOWN_def)
  from kmem_alloc_fresh[OF demo_heap_rel _ this] show ?thesis by auto
qed

text \<open>C12: \<open>kmem_free\<close> on a block in use implements the specification: the block is marked free
  and merged with its free neighbours, and the lock is free again.\<close>

theorem kmem_free_refines:
  assumes "heap_rel s bs" "mutex_owner s KheapLock = 0" "(c, n, True) \<in> set bs"
  shows "\<exists>t. kmem_free (c + 32) s = Ok t \<and> heap_rel t (h_free c bs) \<and> mutex_owner t = mutex_owner s"
  by (rule kmem_free_spec[OF assms])

theorem kmem_free_refines_witness:
  "\<exists>s t. kmem_alloc 100 demo_heap = Ok (0x1020, s) \<and> kmem_free (0x1000 + 32) s = Ok t \<and>
     heap_rel t [(0x1000, 0xfe0, False)]"
proof -
  have "h_alloc (ALIGNUP 100 32) [(0x1000, 0xfe0, False)] = Some (0x1000, [(0x1000, 128, True), (0x10a0, 0xf40, False)])"
    by (simp add: ALIGNUP_def ALIGNDOWN_def)
  note H = kmem_alloc_hit[OF demo_heap_rel this]
  have "mutex_owner (kheap_take 0x1000 (ALIGNUP 100 32) demo_heap) KheapLock = 0"
    using demo_heap_rel(2) by simp
  from kmem_free_refines[OF H(2) this, of "0x1000" 128] H(1) show ?thesis by auto
qed

text \<open>C13: whatever a sequence of \<open>kmem_alloc\<close> calls hands out is pairwise distinct and was not
  in use, and freeing it in any order gives back exactly the blocks in use at the start.\<close>

theorem kmem_alloc_free_all:
  assumes "kheap_inv s" "kheap.alloc_n sz n s = (as, t)" "mset bs = mset as"
  shows "distinct as \<and> set as \<inter> kheap_live s = {} \<and> kheap_live (kheap.free_all bs t) = kheap_live s"
  using kheap.alloc_n_live[OF assms(1,2)] kheap.alloc_n_free_all[OF assms] by blast

theorem kmem_alloc_free_all_witness:
  "\<exists>as t. kheap.alloc_n 100 3 demo_heap = (as, t) \<and> kheap_live (kheap.free_all (rev as) t) = {}"
proof -
  obtain as t where a: "kheap.alloc_n 100 3 demo_heap = (as, t)" by fastforce
  have "kheap_inv demo_heap" using demo_heap_rel by (auto simp: kheap_inv_def)
  from kmem_alloc_free_all[OF this a, of "rev as"] show ?thesis
    using a kheap_live_rel[OF demo_heap_rel(1)] by auto
qed

end
