(* ===== verification/K_timer.thy ===== *)
theory K_timer
  imports K_heap
begin

text \<open>
  \<open>k_timer.c\<close>: the per-processor binary heap of deadlines.  The array is indexed from 1;
  element 0 is the sentinel with deadline 0.  The time-stamp counter \<open>tsc\<close> is advanced by
  the processor, between the operations of the model.
\<close>

section \<open>State\<close>

record timer_elem =
  te_deadline :: u64
  te_callback :: u64
  te_data :: u64

record timer_state = kheap_state +
  timer_heap :: u64
  timer_elems :: "nat \<Rightarrow> timer_elem"
  timer_heap_end :: nat
  timer_heap_size :: nat
  tsc :: u64
  tsc_count :: u64
  apic_timer_count :: u64

definition HEAP_INIT_SIZE :: nat where "HEAP_INIT_SIZE = 32"
definition TIMER_ELEM_SIZE :: u64 where "TIMER_ELEM_SIZE = 24"

section \<open>The heap\<close>

definition timer_heap_init :: "'a timer_state_scheme \<Rightarrow> 'a timer_state_scheme res" where
  "timer_heap_init s = bind_res (kmem_alloc (TIMER_ELEM_SIZE * 64) s) (\<lambda>(p, s). let
     s = s\<lparr>timer_heap := p\<rparr>;
     s = s\<lparr>timer_heap_end := 1\<rparr>;
     s = s\<lparr>timer_heap_size := HEAP_INIT_SIZE\<rparr>
   in nonnull p (Ok (s\<lparr>timer_elems := (timer_elems s)(0 := \<lparr>te_deadline = 0, te_callback = 0, te_data = 0\<rparr>)\<rparr>)))"

text \<open>The elements move with the block; \<open>timer_elems\<close> is indexed, so they stay.\<close>

definition timer_heap_expand :: "'a timer_state_scheme \<Rightarrow> 'a timer_state_scheme res" where
  "timer_heap_expand s = (let new_size = timer_heap_size s * 2
   in bind_res (kmem_realloc (timer_heap s) (of_nat new_size * TIMER_ELEM_SIZE) s) (\<lambda>(new_heap, _, s).
     if new_heap = 0 then Fail (Panic ''OOM in timer_heap_expand()'')
     else Ok (s\<lparr>timer_heap := new_heap, timer_heap_size := new_size\<rparr>)))"

definition timer_heap_empty :: "'a timer_state_scheme \<Rightarrow> bool" where
  "timer_heap_empty s = (timer_heap_end s = 1)"

definition timer_heap_top :: "'a timer_state_scheme \<Rightarrow> timer_elem" where
  "timer_heap_top s = timer_elems s 1"

definition timer_heap_parent :: "nat \<Rightarrow> nat" where
  "timer_heap_parent i = i div 2"

text \<open>\<open>None\<close> is the null pointer.\<close>

definition timer_heap_left_child :: "nat \<Rightarrow> nat \<Rightarrow> nat option" where
  "timer_heap_left_child e i = (let ret = 2 * i in if ret \<ge> e then None else Some ret)"

definition timer_heap_right_child :: "nat \<Rightarrow> nat \<Rightarrow> nat option" where
  "timer_heap_right_child e i = (let ret = 2 * i + 1 in if ret \<ge> e then None else Some ret)"

definition te_swap :: "nat \<Rightarrow> nat \<Rightarrow> (nat \<Rightarrow> timer_elem) \<Rightarrow> nat \<Rightarrow> timer_elem" where
  "te_swap i j h = h(i := h j, j := h i)"

text \<open>The loop of \<open>timer_heap_insert\<close>.  At index 0 the loop compares the sentinel with itself.\<close>

lemma timer_heap_parent_less [termination_simp]: "0 < i \<Longrightarrow> timer_heap_parent i < i"
  by (simp add: timer_heap_parent_def)

fun timer_sift_up :: "nat \<Rightarrow> (nat \<Rightarrow> timer_elem) \<Rightarrow> nat \<Rightarrow> timer_elem" where
  "timer_sift_up i h =
     (if i \<noteq> 0 \<and> te_deadline (h (timer_heap_parent i)) > te_deadline (h i)
      then timer_sift_up (timer_heap_parent i) (te_swap i (timer_heap_parent i) h)
      else h)"

declare timer_sift_up.simps [simp del]

definition timer_heap_insert ::
    "u64 \<Rightarrow> u64 \<Rightarrow> u64 \<Rightarrow> 'a timer_state_scheme \<Rightarrow> 'a timer_state_scheme res" where
  "timer_heap_insert deadline callback data s =
     bind_res (if timer_heap_end s \<ge> timer_heap_size s then timer_heap_expand s else Ok s) (\<lambda>s. let
       ptr = timer_heap_end s;
       s = s\<lparr>timer_heap_end := ptr + 1\<rparr>;
       s = s\<lparr>timer_elems := (timer_elems s)(ptr := \<lparr>te_deadline = deadline, te_callback = callback, te_data = data\<rparr>)\<rparr>
     in Ok (s\<lparr>timer_elems := timer_sift_up ptr (timer_elems s)\<rparr>))"

text \<open>The loop of \<open>timer_heap_extract\<close>; \<open>e\<close> is the end of the heap.  When neither child is
  smaller the loop breaks; the comparison of the left child with a missing right child reads
  through the null pointer.  When there is no left child there is no right child either, so
  the loop has always left through the first branch.  The index starts at 1 and only grows,
  so the first line of the definition is never used.\<close>

function timer_sift_down :: "nat \<Rightarrow> nat \<Rightarrow> (nat \<Rightarrow> timer_elem) \<Rightarrow> (nat \<Rightarrow> timer_elem) res" where
  "timer_sift_down e i h = (if i = 0 then Ok h else
     case timer_heap_left_child e i of
        None \<Rightarrow> (case timer_heap_right_child e i of
            None \<Rightarrow> Ok h
          | Some r \<Rightarrow> if te_deadline (h i) < te_deadline (h r) then Ok h
              else timer_sift_down e r (te_swap r i h))
      | Some l \<Rightarrow> (case timer_heap_right_child e i of
            None \<Rightarrow> if te_deadline (h i) < te_deadline (h l) then Ok h else Fail NullDeref
          | Some r \<Rightarrow>
              if te_deadline (h i) < te_deadline (h l) \<and> te_deadline (h i) < te_deadline (h r) then Ok h
              else if te_deadline (h l) < te_deadline (h r) then timer_sift_down e l (te_swap l i h)
              else timer_sift_down e r (te_swap r i h)))"
  by pat_completeness auto
termination
  by (relation "measure (\<lambda>(e, i, h). e - i)")
    (auto simp: timer_heap_left_child_def timer_heap_right_child_def Let_def split: if_splits)

declare timer_sift_down.simps [simp del]

definition timer_heap_extract :: "'a timer_state_scheme \<Rightarrow> 'a timer_state_scheme res" where
  "timer_heap_extract s = (let
     s = s\<lparr>timer_heap_end := timer_heap_end s - 1\<rparr>
   in if 1 = timer_heap_end s then Ok s
      else (let
        s = s\<lparr>timer_elems := (timer_elems s)(1 := timer_elems s (timer_heap_end s))\<rparr>
      in bind_res (timer_sift_down (timer_heap_end s) 1 (timer_elems s)) (\<lambda>h.
           Ok (s\<lparr>timer_elems := h\<rparr>))))"

section \<open>Timeouts\<close>

definition timer_get_timestamp :: "'a timer_state_scheme \<Rightarrow> u64 res" where
  "timer_get_timestamp s = (if tsc_count s = 0 then Fail DivZero else Ok (tsc s div tsc_count s * 10))"

definition timer_set_timeout ::
    "u64 \<Rightarrow> u64 \<Rightarrow> u64 \<Rightarrow> 'a timer_state_scheme \<Rightarrow> 'a timer_state_scheme res" where
  "timer_set_timeout timeout callback data s =
     bind_res (timer_get_timestamp s) (\<lambda>now. timer_heap_insert (now + timeout) callback data s)"

text \<open>\<open>call f d\<close> is the call of the function at address \<open>f\<close> with argument \<open>d\<close>.\<close>

partial_function (option) timer_exec_callbacks ::
    "(u64 \<Rightarrow> u64 \<Rightarrow> 'a timer_state_scheme \<Rightarrow> 'a timer_state_scheme res) \<Rightarrow>
     'a timer_state_scheme \<Rightarrow> 'a timer_state_scheme res option" where
  "timer_exec_callbacks call s =
     (if timer_heap_empty s then Some (Ok s)
      else case timer_get_timestamp s of Fail e \<Rightarrow> Some (Fail e)
      | Ok now \<Rightarrow>
          if te_deadline (timer_heap_top s) > now then Some (Ok s)
          else case timer_heap_extract s of Fail e \<Rightarrow> Some (Fail e)
            | Ok s' \<Rightarrow> (case call (te_callback (timer_heap_top s)) (te_data (timer_heap_top s)) s' of
                Fail e \<Rightarrow> Some (Fail e)
              | Ok s'' \<Rightarrow> timer_exec_callbacks call s''))"

definition timer_irq_handler ::
    "(u64 \<Rightarrow> u64 \<Rightarrow> 'a timer_state_scheme \<Rightarrow> 'a timer_state_scheme res) \<Rightarrow>
     'a timer_state_scheme \<Rightarrow> 'a timer_state_scheme res" where
  "timer_irq_handler call s =
     (if \<not> timer_heap_empty s then ends (timer_exec_callbacks call s) else Ok s)"

text \<open>The result of a calibration: the APIC counter and the time-stamp counter over 10 ms.\<close>

definition timer_calibrate :: "u32 \<Rightarrow> u64 \<Rightarrow> u64 \<Rightarrow> 'a timer_state_scheme \<Rightarrow> 'a timer_state_scheme" where
  "timer_calibrate val tsc_begin tsc_end s =
     s\<lparr>apic_timer_count := 0xffffffff - ucast val, tsc_count := tsc_end - tsc_begin\<rparr>"

end
