(* ===== verification/Timer_Spec.thy ===== *)
theory Timer_Spec
  imports K_timer
begin

text \<open>
  The timer heap is a priority queue: insertion and every extraction that returns keep the
  heap order and the multiset of timers.  Extraction faults when the element it moves down
  meets a node with a left child only that is not larger.
\<close>

section \<open>Invariant\<close>

definition dl :: "(nat \<Rightarrow> timer_elem) \<Rightarrow> nat \<Rightarrow> u64" where
  "dl h i = te_deadline (h i)"

definition heap_order :: "nat \<Rightarrow> (nat \<Rightarrow> timer_elem) \<Rightarrow> bool" where
  "heap_order e h \<longleftrightarrow> (\<forall>i. 2 \<le> i \<and> i < e \<longrightarrow> dl h (i div 2) \<le> dl h i)"

definition heap_mset :: "nat \<Rightarrow> (nat \<Rightarrow> timer_elem) \<Rightarrow> timer_elem multiset" where
  "heap_mset e h = mset (map h [1..<e])"

definition timer_inv :: "'a timer_state_scheme \<Rightarrow> bool" where
  "timer_inv s \<longleftrightarrow> heap_order (timer_heap_end s) (timer_elems s) \<and> dl (timer_elems s) 0 = 0 \<and>
     1 \<le> timer_heap_end s"

definition timer_mset :: "'a timer_state_scheme \<Rightarrow> timer_elem multiset" where
  "timer_mset s = heap_mset (timer_heap_end s) (timer_elems s)"

section \<open>Lemmas\<close>

lemma map_upd_range:
  assumes "1 \<le> i" "i < e"
  shows "map (h(i := x)) [1..<e] = (map h [1..<e])[i - 1 := x]"
  by (rule nth_equalityI) (use assms in \<open>auto simp: nth_list_update\<close>)

lemma heap_mset_swap:
  assumes "1 \<le> i" "i < e" "1 \<le> j" "j < e"
  shows "heap_mset e (te_swap i j h) = heap_mset e h"
proof -
  let ?xs = "map h [1..<e]"
  have l: "i - 1 < length ?xs" "j - 1 < length ?xs" using assms by auto
  have "map (te_swap i j h) [1..<e] = ?xs[i - 1 := ?xs ! (j - 1), j - 1 := ?xs ! (i - 1)]"
    unfolding te_swap_def using assms by (simp add: map_upd_range del: One_nat_def)
  then show ?thesis unfolding heap_mset_def using mset_swap[OF l(2,1)] by simp
qed

lemma dl_swap [simp]: "i \<noteq> j \<Longrightarrow> dl (te_swap i j h) i = dl h j" "dl (te_swap i j h) j = dl h i"
  "k \<noteq> i \<Longrightarrow> k \<noteq> j \<Longrightarrow> dl (te_swap i j h) k = dl h k"
  by (simp_all add: dl_def te_swap_def)

text \<open>Heap order except between \<open>i\<close> and its parent.\<close>

definition order_but_up :: "nat \<Rightarrow> nat \<Rightarrow> (nat \<Rightarrow> timer_elem) \<Rightarrow> bool" where
  "order_but_up e i h \<longleftrightarrow> (\<forall>j. 2 \<le> j \<and> j < e \<and> j \<noteq> i \<longrightarrow> dl h (j div 2) \<le> dl h j) \<and>
     (\<forall>j. 2 \<le> i \<and> j < e \<and> j div 2 = i \<longrightarrow> dl h (i div 2) \<le> dl h j)"

lemma order_but_up_swap:
  assumes o: "order_but_up e i h" and i: "2 \<le> i" "i < e" and gt: "dl h i < dl h (i div 2)"
  shows "order_but_up e (i div 2) (te_swap i (i div 2) h)"
proof -
  let ?p = "i div 2" and ?h = "te_swap i (i div 2) h"
  have ne: "i \<noteq> ?p" using i by simp
  have "dl ?h (j div 2) \<le> dl ?h j" if j: "2 \<le> j" "j < e" "j \<noteq> ?p" for j
  proof (cases "j = i")
    case True
    then show ?thesis using gt ne by simp
  next
    case False
    have "dl h (j div 2) \<le> dl h j" using o j False by (auto simp: order_but_up_def)
    moreover have "dl h ?p \<le> dl h j" if "j div 2 = i" using o j i that by (auto simp: order_but_up_def)
    ultimately show ?thesis using False j ne gt
      by (cases "j div 2 = i"; cases "j div 2 = ?p") auto
  qed
  moreover have "dl ?h (?p div 2) \<le> dl ?h j" if j: "2 \<le> ?p" "j < e" "j div 2 = ?p" for j
  proof -
    have "?p \<noteq> i" "?p < e" "?p div 2 \<noteq> i" "?p div 2 \<noteq> ?p" using i j by auto
    then have a: "dl h (?p div 2) \<le> dl h ?p" using o j by (auto simp: order_but_up_def)
    show ?thesis
    proof (cases "j = i")
      case True
      then show ?thesis using a ne \<open>?p div 2 \<noteq> i\<close> \<open>?p div 2 \<noteq> ?p\<close> by simp
    next
      case False
      have "j \<noteq> ?p" using j by auto
      have "2 \<le> j" using j by auto
      then have "dl h (j div 2) \<le> dl h j" using o j(2) False by (simp add: order_but_up_def)
      then have "dl h ?p \<le> dl h j" by (simp only: j(3))
      then show ?thesis using a False \<open>j \<noteq> ?p\<close> \<open>?p div 2 \<noteq> i\<close> \<open>?p div 2 \<noteq> ?p\<close> by simp
    qed
  qed
  ultimately show ?thesis unfolding order_but_up_def by blast
qed

lemma timer_sift_up_spec:
  assumes "order_but_up e i h" "1 \<le> i" "i < e" "dl h 0 = 0"
  shows "heap_order e (timer_sift_up i h) \<and> heap_mset e (timer_sift_up i h) = heap_mset e h \<and>
    dl (timer_sift_up i h) 0 = 0"
  using assms
proof (induction i h rule: timer_sift_up.induct)
  case (1 i h)
  show ?case
  proof (cases "te_deadline (h (timer_heap_parent i)) > te_deadline (h i)")
    case True
    then have gt: "dl h i < dl h (i div 2)" by (simp add: dl_def timer_heap_parent_def)
    have i2: "2 \<le> i" using gt "1.prems"(2,4) by (cases "i = 1") auto
    let ?h = "te_swap i (i div 2) h"
    have "order_but_up e (i div 2) ?h" by (rule order_but_up_swap) (use "1.prems" i2 gt in auto)
    moreover have "heap_mset e ?h = heap_mset e h" by (rule heap_mset_swap) (use "1.prems" i2 in auto)
    moreover have "dl ?h 0 = 0" using "1.prems"(4) i2 by simp
    moreover have "timer_sift_up i h = timer_sift_up (i div 2) ?h"
      using True i2 by (subst timer_sift_up.simps) (simp add: timer_heap_parent_def)
    ultimately show ?thesis using "1.IH" True "1.prems"(3) i2 by (simp add: timer_heap_parent_def)
  next
    case False
    then have eq: "timer_sift_up i h = h" by (subst timer_sift_up.simps) simp
    have "dl h (j div 2) \<le> dl h j" if "2 \<le> j" "j < e" for j
      using "1.prems"(1) that False by (cases "j = i") (auto simp: order_but_up_def dl_def timer_heap_parent_def)
    then show ?thesis using "1.prems"(4) by (simp add: eq heap_order_def)
  qed
qed

lemma heap_order_top:
  assumes "heap_order e h" "1 \<le> i" "i < e"
  shows "dl h 1 \<le> dl h i"
  using assms(2,3)
proof (induction i rule: less_induct)
  case (less i)
  show ?case
  proof (cases "i = 1")
    case False
    then have "dl h 1 \<le> dl h (i div 2)" using less by auto
    moreover have "dl h (i div 2) \<le> dl h i" using assms(1) less.prems False by (simp add: heap_order_def)
    ultimately show ?thesis by simp
  qed simp
qed

text \<open>Heap order except between \<open>i\<close> and its children.\<close>

definition order_but_down :: "nat \<Rightarrow> nat \<Rightarrow> (nat \<Rightarrow> timer_elem) \<Rightarrow> bool" where
  "order_but_down e i h \<longleftrightarrow> (\<forall>j. 2 \<le> j \<and> j < e \<and> j div 2 \<noteq> i \<longrightarrow> dl h (j div 2) \<le> dl h j) \<and>
     (\<forall>j. 2 \<le> i \<and> j < e \<and> j div 2 = i \<longrightarrow> dl h (i div 2) \<le> dl h j)"

lemma order_but_down_swap:
  assumes o: "order_but_down e i h" and i: "1 \<le> i" and c: "c div 2 = i" "c < e"
    and le: "dl h c \<le> dl h i"
    and least: "\<And>j. j < e \<Longrightarrow> j div 2 = i \<Longrightarrow> dl h c \<le> dl h j"
  shows "order_but_down e c (te_swap c i h)"
proof -
  let ?h = "te_swap c i h"
  have ne: "c \<noteq> i" "i div 2 \<noteq> i" "i div 2 \<noteq> c" "2 \<le> c" using i c by auto
  have down: "dl h c \<le> dl h j" if "j < e" "j div 2 = c" for j
  proof -
    have "2 \<le> j" "j div 2 \<noteq> i" using that ne by auto
    then have "dl h (j div 2) \<le> dl h j" using o that(1) by (simp add: order_but_down_def)
    then show ?thesis by (simp only: that(2))
  qed
  have "dl ?h (j div 2) \<le> dl ?h j" if j: "2 \<le> j" "j < e" "j div 2 \<noteq> c" for j
  proof (cases "j div 2 = i")
    case True
    then have "j \<noteq> i" using j by auto
    have "dl h c \<le> dl h j" by (rule least[OF j(2) True])
    then show ?thesis using True ne \<open>j \<noteq> i\<close> le by (cases "j = c") auto
  next
    case False
    have jc: "j \<noteq> c" using False c(1) by auto
    show ?thesis
    proof (cases "j = i")
      case True
      then have "dl h (i div 2) \<le> dl h c" using o c j by (simp add: order_but_down_def)
      then show ?thesis using True ne by simp
    next
      case False
      have "dl h (j div 2) \<le> dl h j" using o j \<open>j div 2 \<noteq> i\<close> by (simp add: order_but_down_def)
      then show ?thesis using False jc j(3) \<open>j div 2 \<noteq> i\<close> by simp
    qed
  qed
  moreover have "dl ?h (c div 2) \<le> dl ?h j" if j: "j < e" "j div 2 = c" for j
  proof -
    have "j \<noteq> c" "j \<noteq> i" using j c ne by auto
    then show ?thesis using down[OF j] ne c by simp
  qed
  ultimately show ?thesis unfolding order_but_down_def by blast
qed

lemma children: "(j :: nat) div 2 = i \<longleftrightarrow> j = 2 * i \<or> j = 2 * i + 1"
  by auto

lemma order_but_down_done:
  assumes "order_but_down e i h" "\<And>j. j < e \<Longrightarrow> j = 2 * i \<or> j = 2 * i + 1 \<Longrightarrow> dl h i \<le> dl h j"
  shows "heap_order e h"
  unfolding heap_order_def
proof (intro allI impI)
  fix j assume j: "2 \<le> j \<and> j < e"
  show "dl h (j div 2) \<le> dl h j"
  proof (cases "j div 2 = i")
    case True
    then show ?thesis using assms(2)[of j] j children[of j i] by simp
  next
    case False
    then show ?thesis using assms(1) j by (simp add: order_but_down_def)
  qed
qed

text \<open>A step of the loop with both children present.\<close>

lemma sift_down_two:
  assumes "1 \<le> i" "2 * i + 1 < e"
  shows "timer_sift_down e i h =
    (if dl h i < dl h (2 * i) \<and> dl h i < dl h (2 * i + 1) then Ok h
     else if dl h (2 * i) < dl h (2 * i + 1) then timer_sift_down e (2 * i) (te_swap (2 * i) i h)
     else timer_sift_down e (2 * i + 1) (te_swap (2 * i + 1) i h))"
  using assms by (subst timer_sift_down.simps)
    (simp add: timer_heap_left_child_def timer_heap_right_child_def Let_def dl_def)

lemma sift_down_one:
  assumes "1 \<le> i" "2 * i + 1 = e"
  shows "timer_sift_down e i h = (if dl h i < dl h (2 * i) then Ok h else Fail NullDeref)"
  using assms by (subst timer_sift_down.simps)
    (auto simp: timer_heap_left_child_def timer_heap_right_child_def Let_def dl_def)

lemma sift_down_none:
  assumes "1 \<le> i" "e \<le> 2 * i"
  shows "timer_sift_down e i h = Ok h"
  using assms by (subst timer_sift_down.simps)
    (simp add: timer_heap_left_child_def timer_heap_right_child_def Let_def)

lemma sift_down_cases:
  fixes i e :: nat
  obtains "2 * i + 1 < e" | "2 * i + 1 = e" | "e \<le> 2 * i"
  by linarith

lemma timer_sift_down_spec:
  assumes "order_but_down e i h" "1 \<le> i" "i < e" "timer_sift_down e i h = Ok h'"
  shows "heap_order e h' \<and> heap_mset e h' = heap_mset e h \<and> h' 0 = h 0"
  using assms
proof (induction "e - i" arbitrary: i h rule: less_induct)
  case less
  note o = less.prems(1) and i = less.prems(2,3)
  have go: ?case if c: "c div 2 = i" "c < e" and le: "dl h c \<le> dl h i"
    and least: "\<And>j. j < e \<Longrightarrow> j div 2 = i \<Longrightarrow> dl h c \<le> dl h j"
    and r: "timer_sift_down e c (te_swap c i h) = Ok h'" for c
  proof -
    have ci: "i < c" using c i by auto
    have "e - c < e - i" "1 \<le> c" using ci c i by auto
    moreover have "order_but_down e c (te_swap c i h)"
      by (rule order_but_down_swap) (use o i c le least in auto)
    ultimately have "heap_order e h' \<and> heap_mset e h' = heap_mset e (te_swap c i h) \<and>
        h' 0 = te_swap c i h 0"
      using less.hyps c(2) r by blast
    moreover have "heap_mset e (te_swap c i h) = heap_mset e h" by (rule heap_mset_swap) (use i ci c in auto)
    moreover have "te_swap c i h 0 = h 0" using ci i by (simp add: te_swap_def)
    ultimately show ?thesis by simp
  qed
  show ?case
  proof (cases rule: sift_down_cases[of i e])
    case 1
    note eq = less.prems(4)[unfolded sift_down_two[OF i(1) 1]]
    consider "dl h i < dl h (2 * i)" "dl h i < dl h (2 * i + 1)"
      | "\<not> (dl h i < dl h (2 * i) \<and> dl h i < dl h (2 * i + 1))" "dl h (2 * i) < dl h (2 * i + 1)"
      | "\<not> (dl h i < dl h (2 * i) \<and> dl h i < dl h (2 * i + 1))" "\<not> dl h (2 * i) < dl h (2 * i + 1)"
      by blast
    then show ?thesis
    proof cases
      case 1
      then have "heap_order e h" by (intro order_but_down_done[OF o]) auto
      then show ?thesis using eq 1 by simp
    next
      case 2
      show ?thesis by (rule go[of "2 * i"]) (use 1 2 eq in \<open>auto simp: children\<close>)
    next
      case 3
      have r: "timer_sift_down e (2 * i + 1) (te_swap (2 * i + 1) i h) = Ok h'"
        using eq unfolding if_not_P[OF 3(1)] if_not_P[OF 3(2)] .
      show ?thesis by (rule go[OF _ 1 _ _ r]) (use 3 in \<open>auto simp: children not_less\<close>)
    qed
  next
    case 2
    then have r: "dl h i < dl h (2 * i)" "h' = h"
      using less.prems(4) sift_down_one[OF i(1) 2, of h] by (auto split: if_splits)
    have "heap_order e h" by (rule order_but_down_done[OF o]) (use 2 r in auto)
    then show ?thesis using r by simp
  next
    case 3
    then have "h' = h" using less.prems(4) sift_down_none[OF i(1) 3] by simp
    moreover have "heap_order e h" by (rule order_but_down_done[OF o]) (use 3 in auto)
    ultimately show ?thesis by simp
  qed
qed

text \<open>Without a node that has one child only, the loop always ends normally.\<close>

lemma timer_sift_down_ok:
  assumes "even e" "1 \<le> i"
  shows "\<exists>h'. timer_sift_down e i h = Ok h'"
  using assms(2)
proof (induction "e - i" arbitrary: i h rule: less_induct)
  case less
  show ?case
  proof (cases rule: sift_down_cases[of i e])
    case 1
    have "\<exists>h'. timer_sift_down e (2 * i) g = Ok h'" "\<exists>h'. timer_sift_down e (2 * i + 1) g = Ok h'" for g
      using less.hyps[of "2 * i" g] less.hyps[of "2 * i + 1" g] less.prems 1 by auto
    then show ?thesis unfolding sift_down_two[OF less.prems 1] by simp
  next
    case 2
    then show ?thesis using assms(1) by auto
  next
    case 3
    then show ?thesis using sift_down_none[OF less.prems 3] by simp
  qed
qed

lemma heap_mset_Suc: "1 \<le> e \<Longrightarrow> heap_mset (Suc e) h = add_mset (h e) (heap_mset e h)"
  by (simp add: heap_mset_def)

lemma heap_mset_cong: "(\<And>i. 1 \<le> i \<Longrightarrow> i < e \<Longrightarrow> h i = g i) \<Longrightarrow> heap_mset e h = heap_mset e g"
  unfolding heap_mset_def by (intro arg_cong[where f = mset] map_cong) auto

section \<open>The queue operations\<close>

lemma timer_mset_empty: "timer_inv s \<Longrightarrow> timer_mset s = {#} \<longleftrightarrow> timer_heap_empty s"
  by (simp add: timer_mset_def heap_mset_def timer_heap_empty_def timer_inv_def mset_set_empty_iff) linarith

lemma timer_top_least:
  assumes "timer_inv s" "timer_mset s \<noteq> {#}"
  shows "timer_heap_top s \<in># timer_mset s \<and>
    (\<forall>x \<in># timer_mset s. te_deadline (timer_heap_top s) \<le> te_deadline x)"
proof
  have e: "1 < timer_heap_end s" using assms timer_mset_empty[OF assms(1)]
    by (auto simp: timer_heap_empty_def timer_inv_def)
  then show "timer_heap_top s \<in># timer_mset s"
    by (auto simp: timer_heap_top_def timer_mset_def heap_mset_def)
  show "\<forall>x \<in># timer_mset s. te_deadline (timer_heap_top s) \<le> te_deadline x"
    using heap_order_top[of "timer_heap_end s" "timer_elems s"] assms(1)
    by (auto simp: timer_heap_top_def timer_mset_def heap_mset_def timer_inv_def dl_def)
qed

lemma heap_order_cut:
  assumes "heap_order (Suc e) h" "1 < e"
  shows "order_but_down e 1 (h(1 := h e))"
  using assms by (auto simp: order_but_down_def heap_order_def dl_def)

lemma heap_mset_cut:
  assumes "1 < e"
  shows "heap_mset (Suc e) h = add_mset (h 1) (heap_mset e (h(1 := h e)))"
proof -
  have r: "[1..<e] = 1 # [2..<e]" using assms by (simp add: upt_conv_Cons numeral_2_eq_2)
  have "map (h(1 := h e)) [2..<e] = map h [2..<e]" by (rule map_cong) auto
  then have "heap_mset e (h(1 := h e)) = add_mset (h e) (mset (map h [2..<e]))"
    unfolding heap_mset_def r by simp
  moreover have "heap_mset e h = add_mset (h 1) (mset (map h [2..<e]))" unfolding heap_mset_def r by simp
  ultimately show ?thesis using heap_mset_Suc[of e h] assms by simp
qed

definition timer_del_min :: "'a timer_state_scheme \<Rightarrow> 'a timer_state_scheme option" where
  "timer_del_min s = (case timer_heap_extract s of Ok t \<Rightarrow> Some t | Fail _ \<Rightarrow> None)"

lemma timer_heap_extract_spec:
  assumes inv: "timer_inv s" and ne: "timer_mset s \<noteq> {#}" and t: "timer_heap_extract s = Ok t"
  shows "timer_inv t \<and> timer_mset s = add_mset (timer_heap_top s) (timer_mset t)"
proof -
  obtain e where e: "timer_heap_end s = Suc e" "1 \<le> e"
    using ne timer_mset_empty[OF inv] inv by (cases "timer_heap_end s")
      (auto simp: timer_heap_empty_def timer_inv_def)
  let ?h = "timer_elems s"
  show ?thesis
  proof (cases "e = 1")
    case True
    then have "t = s\<lparr>timer_heap_end := 1\<rparr>" using t e by (simp add: timer_heap_extract_def Let_def)
    then show ?thesis using inv e True
      by (simp add: timer_inv_def timer_mset_def heap_mset_def heap_order_def timer_heap_top_def)
  next
    case False
    then have e1: "1 < e" using e by simp
    obtain h' where h': "timer_sift_down e 1 (?h(1 := ?h e)) = Ok h'"
      and t': "timer_heap_end t = e" "timer_elems t = h'"
      using t e e1 by (auto simp: timer_heap_extract_def Let_def bind_res_Ok_iff)
    have "heap_order e h' \<and> heap_mset e h' = heap_mset e (?h(1 := ?h e)) \<and> h' 0 = (?h(1 := ?h e)) 0"
      by (rule timer_sift_down_spec[OF heap_order_cut _ _ h']) (use inv e e1 in \<open>auto simp: timer_inv_def\<close>)
    then show ?thesis using inv e e1 heap_mset_cut[OF e1, of ?h]
      by (simp add: timer_inv_def timer_mset_def t' timer_heap_top_def dl_def)
  qed
qed

interpretation timerq: priority_queue timer_inv timer_mset te_deadline timer_heap_top timer_del_min
proof
  fix s t :: "'a timer_state_scheme"
  assume s: "timer_inv s" "timer_mset s \<noteq> {#}"
  show "timer_heap_top s \<in># timer_mset s \<and> (\<forall>x \<in># timer_mset s. te_deadline (timer_heap_top s) \<le> te_deadline x)"
    using s by (rule timer_top_least)
  assume "timer_del_min s = Some t"
  then have "timer_heap_extract s = Ok t" by (simp add: timer_del_min_def split: res.splits)
  then show "timer_inv t \<and> timer_mset s = add_mset (timer_heap_top s) (timer_mset t)"
    by (rule timer_heap_extract_spec[OF s])
qed

lemma timer_insert_state:
  assumes "timer_inv s" "timer_heap_end s < timer_heap_size s"
  shows "\<exists>t. timer_heap_insert d c a s = Ok t \<and> timer_inv t \<and>
    timer_mset t = add_mset \<lparr>te_deadline = d, te_callback = c, te_data = a\<rparr> (timer_mset s)"
proof -
  let ?e = "timer_heap_end s" and ?x = "\<lparr>te_deadline = d, te_callback = c, te_data = a\<rparr>"
  let ?h = "(timer_elems s)(?e := ?x)"
  have e: "1 \<le> ?e" and o: "heap_order ?e (timer_elems s)" and z: "dl (timer_elems s) 0 = 0"
    using assms(1) by (simp_all add: timer_inv_def)
  have "order_but_up (Suc ?e) ?e ?h"
    using o e by (auto simp: order_but_up_def heap_order_def dl_def)
  then have "heap_order (Suc ?e) (timer_sift_up ?e ?h) \<and>
      heap_mset (Suc ?e) (timer_sift_up ?e ?h) = heap_mset (Suc ?e) ?h \<and> dl (timer_sift_up ?e ?h) 0 = 0"
    by (rule timer_sift_up_spec) (use e z in \<open>auto simp: dl_def\<close>)
  moreover have "heap_mset ?e ?h = heap_mset ?e (timer_elems s)" by (rule heap_mset_cong) auto
  ultimately show ?thesis using assms(2) e
    by (simp add: timer_heap_insert_def Let_def timer_inv_def timer_mset_def heap_mset_Suc)
qed

section \<open>Properties\<close>

definition demo_timer :: "u64 list \<Rightarrow> timer_state" where
  "demo_timer ds = \<lparr>mutex_owner = (\<lambda>_. 0), current_process = 0, pm_map = (\<lambda>_. 255), pm_upper_limit = 0,
     phys = (\<lambda>_. 0), cr3 = 0, as_pml4_paddr = (\<lambda>_. 0), as_ref_count = (\<lambda>_. 0),
     chunk_list_head = 0x8000, kh_list = \<lparr>lprev = id, lnext = id\<rparr>, kh_word = (\<lambda>_. 0),
     timer_heap = 0x1020,
     timer_elems = (\<lambda>i. \<lparr>te_deadline = if i = 0 then 0 else ds ! (i - 1), te_callback = 0, te_data = of_nat i\<rparr>),
     timer_heap_end = length ds + 1, timer_heap_size = 32, tsc = 0, tsc_count = 1, apic_timer_count = 1\<rparr>"

lemma demo_timer_inv: "timer_inv (demo_timer [10, 20])" "timer_inv (demo_timer [10, 20, 20])"
proof -
  have "2 \<le> i \<and> i < 3 \<longleftrightarrow> i = 2" "2 \<le> i \<and> i < 4 \<longleftrightarrow> i = 2 \<or> i = 3" for i :: nat by auto
  then have "heap_order 3 (timer_elems (demo_timer [10, 20]))" "heap_order 4 (timer_elems (demo_timer [10, 20, 20]))"
    unfolding heap_order_def by (simp_all add: dl_def demo_timer_def)
  moreover have "timer_heap_end (demo_timer [10, 20]) = 3" "timer_heap_end (demo_timer [10, 20, 20]) = 4"
    "dl (timer_elems (demo_timer ds)) 0 = 0" for ds by (simp_all add: demo_timer_def dl_def)
  ultimately show "timer_inv (demo_timer [10, 20])" "timer_inv (demo_timer [10, 20, 20])"
    unfolding timer_inv_def by simp_all
qed

text \<open>C15: Inserting a timer while the heap array has room succeeds, keeps the heap order, and
  adds exactly the new timer to the multiset of pending timers; the earliest of the pending
  deadlines is then at the top.\<close>

theorem timer_insert_ok:
  assumes "timer_inv s" "timer_heap_end s < timer_heap_size s"
  shows "\<exists>t. timer_heap_insert d c a s = Ok t \<and> timer_inv t \<and>
    timer_mset t = add_mset \<lparr>te_deadline = d, te_callback = c, te_data = a\<rparr> (timer_mset s) \<and>
    (\<forall>x \<in># timer_mset t. te_deadline (timer_heap_top t) \<le> te_deadline x)"
proof -
  obtain t where t: "timer_heap_insert d c a s = Ok t" "timer_inv t"
    "timer_mset t = add_mset \<lparr>te_deadline = d, te_callback = c, te_data = a\<rparr> (timer_mset s)"
    using timer_insert_state[OF assms] by blast
  then show ?thesis using timer_top_least[of t] by auto
qed

theorem timer_insert_ok_witness:
  "\<exists>t. timer_heap_insert 5 7 9 (demo_timer [10, 20]) = Ok t \<and> te_deadline (timer_heap_top t) \<le> 5"
proof -
  have "timer_heap_end (demo_timer [10, 20]) < timer_heap_size (demo_timer [10, 20])"
    by (simp add: demo_timer_def)
  from timer_insert_ok[OF demo_timer_inv(1) this, of 5 7 9] show ?thesis by fastforce
qed

text \<open>C16: The timers that successive extractions take off the heap come in the order of their
  deadlines and are pending timers; an extraction that returns removes exactly the timer at
  the top, and it does return when the number of timers left is odd or zero.\<close>

theorem timer_extract_sorted:
  assumes "timer_inv s" "timer_mset s \<noteq> {#}"
  shows "sorted (map te_deadline (timerq.drain n s)) \<and> mset (timerq.drain n s) \<subseteq># timer_mset s \<and>
    (\<forall>t. timer_heap_extract s = Ok t \<longrightarrow>
       timer_inv t \<and> timer_mset s = add_mset (timer_heap_top s) (timer_mset t)) \<and>
    (odd (timer_heap_end s) \<or> timer_heap_end s = 2 \<longrightarrow> is_ok (timer_heap_extract s))"
proof -
  have "is_ok (timer_heap_extract s)" if "odd (timer_heap_end s) \<or> timer_heap_end s = 2"
  proof (cases "timer_heap_end s = 2")
    case False
    then have "even (timer_heap_end s - 1)" using that by simp
    then obtain h' where "timer_sift_down (timer_heap_end s - 1) 1
        ((timer_elems s)(1 := timer_elems s (timer_heap_end s - 1))) = Ok h'"
      using timer_sift_down_ok[of "timer_heap_end s - 1" 1] by blast
    then show ?thesis by (simp add: timer_heap_extract_def Let_def)
  qed (simp add: timer_heap_extract_def)
  then show ?thesis using timerq.drain_sorted[OF assms(1)] timerq.drain_sub[OF assms(1)]
      timer_heap_extract_spec[OF assms] by blast
qed

theorem timer_extract_sorted_witness:
  "\<exists>t. timer_heap_extract (demo_timer [10, 20]) = Ok t \<and>
     timer_mset (demo_timer [10, 20]) = add_mset (timer_heap_top (demo_timer [10, 20])) (timer_mset t)"
proof -
  have "timer_mset (demo_timer [10, 20]) \<noteq> {#}"
    using timer_mset_empty[OF demo_timer_inv(1)] by (simp add: timer_heap_empty_def demo_timer_def)
  note T = timer_extract_sorted[OF demo_timer_inv(1) this]
  moreover have "odd (timer_heap_end (demo_timer [10, 20]))" by (simp add: demo_timer_def)
  ultimately show ?thesis by (auto simp: is_ok_iff)
qed

text \<open>With three timers pending, an extraction reads the deadline of the right child that
  the root no longer has, a null pointer, whenever the last timer is not earlier than the
  second one.\<close>

theorem timer_extract_null:
  assumes "timer_heap_end s = 4"
  shows "timer_heap_extract s =
    (if te_deadline (timer_elems s 3) < te_deadline (timer_elems s 2)
     then Ok (s\<lparr>timer_heap_end := 3, timer_elems := (timer_elems s)(1 := timer_elems s 3)\<rparr>)
     else Fail NullDeref)"
  using assms sift_down_one[of 1 3 "(timer_elems s)(1 := timer_elems s 3)"]
  by (simp add: timer_heap_extract_def Let_def dl_def)

theorem timer_extract_null_witness:
  "timer_inv (demo_timer [10, 20, 20]) \<and> timer_heap_extract (demo_timer [10, 20, 20]) = Fail NullDeref"
proof -
  have "timer_heap_end (demo_timer [10, 20, 20]) = 4" by (simp add: demo_timer_def)
  from timer_extract_null[OF this] show ?thesis using demo_timer_inv(2) by (simp add: demo_timer_def)
qed

end
