(* ===== verification/K_addrspace.thy ===== *)
theory K_addrspace
  imports K_heap
begin

text \<open>
  Address-space objects (\<open>k_memory.c\<close>): creation, cloning, destruction and loading.  The
  object at a heap pointer has the fields \<open>as_ref_count\<close>, \<open>as_pml4_paddr\<close> and the mutex
  \<open>AsLock\<close>.
\<close>

definition ADDRESS_SPACE_SIZE :: u64 where "ADDRESS_SPACE_SIZE = 24"

definition vm_address_space_load :: "u64 \<Rightarrow> 'a vm_state_scheme \<Rightarrow> 'a vm_state_scheme res" where
  "vm_address_space_load as s = nonnull as (Ok (s\<lparr>cr3 := as_pml4_paddr s as\<rparr>))"

definition vm_address_space_create :: "'a kheap_state_scheme \<Rightarrow> (u64 \<times> 'a kheap_state_scheme) res" where
  "vm_address_space_create s = bind_res (alloc_pt s) (\<lambda>(pm, s).
     if pm = 0 then Ok (0, s)
     else if vm_get_vma_for_pma pm = 0 then Ok (0, free_pt pm s)
     else (let
       current = get_pml4e 0 0 s;
       s = phys_set pm 0 (256 * 8) s;
       s = phys_copy (pm + 256 * 8) (current + 256 * 8) (256 * 8) s;
       s = upd_entry (pm + 256 * 8) (set_addr (drop_bit 12 pm)) s
     in bind_res (kmem_alloc ADDRESS_SPACE_SIZE s) (\<lambda>(ret, s).
       if ret = 0 then Ok (0, free_pt pm s)
       else (let
         s = s\<lparr>as_ref_count := (as_ref_count s)(ret := 0)\<rparr>;
         s = mutex_init (AsLock ret) s;
         s = s\<lparr>as_pml4_paddr := (as_pml4_paddr s)(ret := pm)\<rparr>
       in Ok (ret, s)))))"

definition vm_address_space_destroy :: "u64 \<Rightarrow> 'a kheap_state_scheme \<Rightarrow> 'a kheap_state_scheme res" where
  "vm_address_space_destroy ptr s = nonnull ptr (let
     s = (if as_pml4_paddr s ptr \<noteq> 0 then vm_empty_userland (as_pml4_paddr s ptr) s else s)
   in kmem_free ptr s)"

definition vm_address_space_clone ::
    "u64 \<Rightarrow> 'a kheap_state_scheme \<Rightarrow> (u64 \<times> 'a kheap_state_scheme) res" where
  "vm_address_space_clone src s = bind_res (vm_address_space_create s) (\<lambda>(ret, s).
     if ret = 0 then Ok (0, s)
     else nonnull src (bind_res (vm_clone_pml4 (as_pml4_paddr s src) (as_pml4_paddr s ret) s) (\<lambda>(r, s).
       if r = 0 then bind_res (vm_address_space_destroy ret s) (\<lambda>s. Ok (0, s))
       else Ok (ret, s))))"

end
