(* ===== verification/K_user_mem.thy ===== *)
theory K_user_mem
  imports Paging_Map
begin

text \<open>
  \<open>k_user_mem.c\<close>: access of the kernel to user memory.  A kernel buffer is a list of bytes:
  \<open>user_memory_read\<close> returns what it copies into the buffer, \<open>user_memory_write\<close> is given
  what it copies from it.
\<close>

section \<open>Definitions\<close>

partial_function (option) user_check_loop ::
    "u64 \<Rightarrow> u64 \<Rightarrow> u64 \<Rightarrow> u64 \<Rightarrow> u64 \<Rightarrow> 'a vm_state_scheme \<Rightarrow> bool res option" where
  "user_check_loop pml4 mask_attr want p e s =
     (if p < e
      then case vm_check_attr pml4 p mask_attr s of
          Fail f \<Rightarrow> Some (Fail f)
        | Ok attr \<Rightarrow> if attr \<noteq> want then Some (Ok False)
                     else user_check_loop pml4 mask_attr want (p + KMEM_PAGE_SIZE) e s
      else Some (Ok True))"

definition user_memory_check_read :: "u64 \<Rightarrow> u64 \<Rightarrow> u64 \<Rightarrow> 'a vm_state_scheme \<Rightarrow> bool res" where
  "user_memory_check_read as vma sz s = nonnull as (ends (user_check_loop (as_pml4_paddr s as)
     (VM_PAGE_PRESENT OR VM_PAGE_PRIVILEGED) VM_PAGE_PRESENT vma (vma + sz) s))"

definition user_memory_check_write :: "u64 \<Rightarrow> u64 \<Rightarrow> u64 \<Rightarrow> 'a vm_state_scheme \<Rightarrow> bool res" where
  "user_memory_check_write as vma sz s = nonnull as (ends (user_check_loop (as_pml4_paddr s as)
     (VM_PAGE_PRESENT OR VM_PAGE_WRITABLE OR VM_PAGE_PRIVILEGED) (VM_PAGE_PRESENT OR VM_PAGE_WRITABLE)
     vma (vma + sz) s))"

definition user_memory_read ::
    "u64 \<Rightarrow> u64 \<Rightarrow> u64 \<Rightarrow> 'a vm_state_scheme \<Rightarrow> (u8 list option \<times> 'a vm_state_scheme) res" where
  "user_memory_read as src sz s = nonnull as (bind_res (mutex_acquire (AsLock as) s) (\<lambda>s.
     bind_res (user_memory_check_read as src sz s) (\<lambda>ok.
       if \<not> ok then bind_res (mutex_release (AsLock as) s) (\<lambda>s. Ok (None, s))
       else (let
         src_pma = vm_get_pma_by_vma (as_pml4_paddr s as) src s;
         bs = bytes_at (phys s) src_pma (unat sz)
       in bind_res (mutex_release (AsLock as) s) (\<lambda>s. Ok (Some bs, s))))))"

text \<open>The store of a list of bytes into physical memory.\<close>

definition put_bytes :: "u64 \<Rightarrow> u8 list \<Rightarrow> mem \<Rightarrow> mem" where
  "put_bytes a bs m = (\<lambda>b. if unat (b - a) < length bs then bs ! unat (b - a) else m b)"

definition user_memory_write ::
    "u64 \<Rightarrow> u64 \<Rightarrow> u8 list \<Rightarrow> 'a vm_state_scheme \<Rightarrow> (bool \<times> 'a vm_state_scheme) res" where
  "user_memory_write as dst bs s = nonnull as (bind_res (mutex_acquire (AsLock as) s) (\<lambda>s.
     bind_res (user_memory_check_write as dst (of_nat (length bs)) s) (\<lambda>ok.
       if \<not> ok then bind_res (mutex_release (AsLock as) s) (\<lambda>s. Ok (False, s))
       else (let
         dst_pma = vm_get_pma_by_vma (as_pml4_paddr s as) dst s;
         s = s\<lparr>phys := put_bytes dst_pma bs (phys s)\<rparr>
       in bind_res (mutex_release (AsLock as) s) (\<lambda>s. Ok (True, s))))))"

text \<open>Results 1 (source not readable), -1 (destination not writable) and 0.  The lock of an
  address space is 8 bytes into the object.\<close>

definition as_lock_addr :: "lockid \<Rightarrow> u64" where
  "as_lock_addr l = (case l of AsLock as \<Rightarrow> as + 8 | _ \<Rightarrow> 0)"

definition user_memory_copy ::
    "u64 \<Rightarrow> u64 \<Rightarrow> u64 \<Rightarrow> u64 \<Rightarrow> u64 \<Rightarrow> 'a vm_state_scheme \<Rightarrow> (int \<times> 'a vm_state_scheme) res" where
  "user_memory_copy dst_as dst_vaddr src_as src_vaddr sz s = nonnull src_as (nonnull dst_as (
     bind_res (mutex_acquire_dual as_lock_addr (AsLock src_as) (AsLock dst_as) s) (\<lambda>s.
     let unlock = (\<lambda>s. mutex_release_dual as_lock_addr (AsLock src_as) (AsLock dst_as) s)
     in bind_res (user_memory_check_read src_as src_vaddr sz s) (\<lambda>ok.
       if \<not> ok then bind_res (unlock s) (\<lambda>s. Ok (1, s))
       else bind_res (user_memory_check_write dst_as dst_vaddr sz s) (\<lambda>ok.
         if \<not> ok then bind_res (unlock s) (\<lambda>s. Ok (-1, s))
         else (let
           src = vm_get_pma_by_vma (as_pml4_paddr s src_as) src_vaddr s;
           dst = vm_get_pma_by_vma (as_pml4_paddr s dst_as) dst_vaddr s;
           s = s\<lparr>phys := kmemmov dst src sz (phys s)\<rparr>
         in bind_res (unlock s) (\<lambda>s. Ok (0, s))))))))"

section \<open>One page\<close>

text \<open>\<open>data_page\<close>: \<open>va\<close> is mapped in \<open>as\<close>, for user mode and writable, to the frame at \<open>pa\<close>,
  which holds none of the tables.\<close>

definition data_page :: "u64 \<Rightarrow> u64 \<Rightarrow> u64 \<Rightarrow> 'a vm_state_scheme \<Rightarrow> bool" where
  "data_page as va pa s \<longleftrightarrow> as \<noteq> 0 \<and> mutex_owner s (AsLock as) = 0 \<and>
     tables_wf (pm_map s) (phys s) (as_pml4_paddr s as) \<and> PML4IDX va \<noteq> 256 \<and> unat va + 2097152 < 2 ^ 64 \<and>
     (\<exists>i. i < PM_MAP_ELEMENTS \<and> pa = of_nat i * KMEM_PAGE_SIZE) \<and>
     (\<forall>n t. tbl (phys s) (as_pml4_paddr s as) n = Some t \<longrightarrow> frame_of t \<noteq> frame_of pa) \<and>
     (\<exists>e. vm_entry (phys s) (as_pml4_paddr s as) va = Some e \<and> push_bit 12 (e_addr e) = pa \<and>
        get_attrs_by_vma e AND (VM_PAGE_PRESENT OR VM_PAGE_WRITABLE OR VM_PAGE_PRIVILEGED)
          = VM_PAGE_PRESENT OR VM_PAGE_WRITABLE)"

lemma user_check_once:
  assumes "unat va + 2097152 < 2 ^ 64" "0 < sz" "unat sz \<le> 2097152"
    and "vm_check_attr pml4 va msk s = Ok attr"
  shows "user_check_loop pml4 msk want va (va + sz) s = Some (Ok (attr = want))"
proof -
  have "unat (va + sz) = unat va + unat sz" using assms(1,3) by (intro unat_add_no_wrap) simp
  moreover have "unat (va + KMEM_PAGE_SIZE) = unat va + 2097152"
    using assms(1) by (simp add: unat_word_ariths(1) KMEM_PAGE_SIZE_nat)
  ultimately have "va < va + sz" "\<not> va + KMEM_PAGE_SIZE < va + sz"
    using assms(2,3) by (simp_all add: word_less_nat_alt)
  then show ?thesis
    using assms(4) by (simp add: user_check_loop.simps[of pml4 msk want va] user_check_loop.simps[of pml4 msk want "va + KMEM_PAGE_SIZE"])
qed

lemma attr_read_of_write:
  assumes "a AND (VM_PAGE_PRESENT OR VM_PAGE_WRITABLE OR VM_PAGE_PRIVILEGED) = VM_PAGE_PRESENT OR VM_PAGE_WRITABLE"
  shows "a AND (VM_PAGE_PRESENT OR VM_PAGE_PRIVILEGED) = VM_PAGE_PRESENT"
proof -
  have "a AND (VM_PAGE_PRESENT OR VM_PAGE_PRIVILEGED) =
    (a AND (VM_PAGE_PRESENT OR VM_PAGE_WRITABLE OR VM_PAGE_PRIVILEGED)) AND (VM_PAGE_PRESENT OR VM_PAGE_PRIVILEGED)"
    by (simp add: and.assoc VM_PAGE_PRESENT_def VM_PAGE_WRITABLE_def VM_PAGE_PRIVILEGED_def)
  then show ?thesis unfolding assms
    by (simp add: VM_PAGE_PRESENT_def VM_PAGE_WRITABLE_def VM_PAGE_PRIVILEGED_def)
qed

lemma vm_lookup_mutex [simp]:
  "vm_check_attr r va a (s\<lparr>mutex_owner := f\<rparr>) = vm_check_attr r va a s"
  "vm_get_pma_by_vma r va (s\<lparr>mutex_owner := f\<rparr>) = vm_get_pma_by_vma r va s"
proof -
  have "get_pde_by_vma r va (s\<lparr>mutex_owner := f\<rparr>) = get_pde_by_vma r va s"
    by (simp add: get_pde_by_vma_def get_pdpe_def get_pde_def Let_def)
  then show "vm_check_attr r va a (s\<lparr>mutex_owner := f\<rparr>) = vm_check_attr r va a s"
    "vm_get_pma_by_vma r va (s\<lparr>mutex_owner := f\<rparr>) = vm_get_pma_by_vma r va s"
    by (simp_all add: vm_check_attr_def vm_get_pma_by_vma_def Let_def cong: option.case_cong)
qed

lemma data_page_lookup:
  assumes "data_page as va pa s"
  shows "vm_get_pma_by_vma (as_pml4_paddr s as) va s = pa + VM_OFFSET_PAGE_2M va"
    and "0 < sz \<Longrightarrow> unat sz \<le> 2097152 \<Longrightarrow> user_memory_check_write as va sz (s\<lparr>mutex_owner := f\<rparr>) = Ok True"
    and "0 < sz \<Longrightarrow> unat sz \<le> 2097152 \<Longrightarrow> user_memory_check_read as va sz (s\<lparr>mutex_owner := f\<rparr>) = Ok True"
proof -
  let ?r = "as_pml4_paddr s as"
  from assms obtain e where e: "as \<noteq> 0" "PML4IDX va \<noteq> 256" "unat va + 2097152 < 2 ^ 64"
    "vm_entry (phys s) ?r va = Some e" "push_bit 12 (e_addr e) = pa"
    "get_attrs_by_vma e AND (VM_PAGE_PRESENT OR VM_PAGE_WRITABLE OR VM_PAGE_PRIVILEGED)
       = VM_PAGE_PRESENT OR VM_PAGE_WRITABLE" by (auto simp: data_page_def)
  show "vm_get_pma_by_vma ?r va s = pa + VM_OFFSET_PAGE_2M va"
    using e by (simp add: vm_get_pma_by_vma_entry)
  have c: "vm_check_attr ?r va a (s\<lparr>mutex_owner := f\<rparr>) = Ok (get_attrs_by_vma e AND a)" for a
    using vm_check_attr_entry[OF e(2,4)] by (simp add: and.commute)
  show "user_memory_check_write as va sz (s\<lparr>mutex_owner := f\<rparr>) = Ok True" if "0 < sz" "unat sz \<le> 2097152"
    using user_check_once[OF e(3) that c] e(1,6) by (simp add: user_memory_check_write_def)
  show "user_memory_check_read as va sz (s\<lparr>mutex_owner := f\<rparr>) = Ok True" if "0 < sz" "unat sz \<le> 2097152"
    using user_check_once[OF e(3) that c] e(1) attr_read_of_write[OF e(6)] by (simp add: user_memory_check_read_def)
qed

lemma user_memory_write_page:
  assumes d: "data_page as va pa s" and n: "0 < length bs" "length bs \<le> 2097152"
  shows "user_memory_write as va bs s =
    Ok (True, s\<lparr>phys := put_bytes (pa + VM_OFFSET_PAGE_2M va) bs (phys s)\<rparr>)"
proof -
  have u: "unat (of_nat (length bs) :: u64) = length bs" using n by (simp add: unat_of_nat)
  then have sz: "(0 :: u64) < of_nat (length bs)" "unat (of_nat (length bs) :: u64) \<le> 2097152"
    using n by (simp_all add: word_less_nat_alt)
  have l: "as \<noteq> 0" "mutex_owner s (AsLock as) = 0" using d by (auto simp: data_page_def)
  then show ?thesis
    using data_page_lookup(1)[OF d] data_page_lookup(2)[OF d sz]
    by (simp add: user_memory_write_def Let_def get_current_proc_def fun_upd_idem)
qed

lemma user_memory_read_page:
  assumes d: "data_page as va pa s" and n: "0 < sz" "unat sz \<le> 2097152"
  shows "user_memory_read as va sz s =
    Ok (Some (bytes_at (phys s) (pa + VM_OFFSET_PAGE_2M va) (unat sz)), s)"
proof -
  have l: "as \<noteq> 0" "mutex_owner s (AsLock as) = 0" using d by (auto simp: data_page_def)
  then show ?thesis
    using data_page_lookup(1)[OF d] data_page_lookup(3)[OF d n]
    by (simp add: user_memory_read_def Let_def get_current_proc_def fun_upd_idem)
qed

lemma bytes_at_put_bytes:
  assumes "length bs < 2 ^ 64"
  shows "bytes_at (put_bytes a bs m) a (length bs) = bs"
proof (rule nth_equalityI)
  fix i assume "i < length (bytes_at (put_bytes a bs m) a (length bs))"
  then have i: "i < length bs" by simp
  then have "unat (of_nat i :: u64) = i" using assms by (intro unat_of_nat_small) simp
  then show "bytes_at (put_bytes a bs m) a (length bs) ! i = bs ! i" using i by (simp add: put_bytes_def)
qed simp

section \<open>Properties\<close>

lemma offset_less: "unat (VM_OFFSET_PAGE_2M va) < 2097152"
proof -
  have "VM_OFFSET_PAGE_2M va \<le> 0x1fffff" unfolding VM_OFFSET_PAGE_2M_def by (rule word_and_le1)
  then show ?thesis by (simp add: word_le_nat_alt)
qed

text \<open>Bytes of a range inside the frame at \<open>pa\<close> change no other frame.\<close>

lemma put_bytes_frame:
  assumes i: "i < PM_MAP_ELEMENTS" and fit: "unat off + length bs \<le> 2097152" and x: "frame_of x \<noteq> i"
  shows "put_bytes (of_nat i * KMEM_PAGE_SIZE + off) bs m x = m x"
proof -
  let ?d = "x - of_nat i * KMEM_PAGE_SIZE"
  have far: "2097152 \<le> unat ?d" by (rule frame_far[OF i x])
  have "off \<le> ?d" using far fit by (simp add: word_le_nat_alt)
  from unat_sub_le[OF this] have "unat (?d - off) = unat ?d - unat off" .
  moreover have "x - (of_nat i * KMEM_PAGE_SIZE + off) = ?d - off" by simp
  ultimately have "length bs \<le> unat (x - (of_nat i * KMEM_PAGE_SIZE + off))" using far fit by (simp only:)
  then show ?thesis by (simp add: put_bytes_def)
qed

lemma data_page_write:
  assumes d: "data_page as va pa s" and fit: "unat (VM_OFFSET_PAGE_2M va) + length bs \<le> 2097152"
  shows "data_page as va pa (s\<lparr>phys := put_bytes (pa + VM_OFFSET_PAGE_2M va) bs (phys s)\<rparr>)" (is "data_page _ _ _ ?t")
proof -
  let ?r = "as_pml4_paddr s as" and ?m = "put_bytes (pa + VM_OFFSET_PAGE_2M va) bs (phys s)"
  obtain i where i: "i < PM_MAP_ELEMENTS" "pa = of_nat i * KMEM_PAGE_SIZE" using d by (auto simp: data_page_def)
  have f: "frame_of pa = i" using frame_aligned(3)[OF i(1)] i(2) by simp
  have wf: "tables_wf (pm_map s) (phys s) ?r" using d by (simp add: data_page_def)
  have eq: "?m a = phys s a" if "tbl (phys s) ?r n = Some t" "frame_of a = frame_of t" for n t a
  proof -
    have "frame_of a \<noteq> i" using d that f by (auto simp: data_page_def simp del: tbl.simps)
    from put_bytes_frame[OF i(1) fit this] show ?thesis by (simp add: i(2))
  qed
  note T = tbl_frames_cong(1)[OF wf eq] and E = vm_entry_frames_cong[OF wf eq]
  have "tables_wf (pm_map s) ?m ?r" by (rule tables_wf_cong[OF wf T])
  with d show ?thesis unfolding data_page_def by (simp add: T E del: tbl.simps)
qed

text \<open>The witness: \<open>demo_vm\<close> after mapping page \<open>0x400000\<close> to the frame at \<open>0x600000\<close>.\<close>

lemma demo_data_page:
  assumes "PML4IDX va \<noteq> 256" "page_of va = page_of 0x400000" "unat va + 2097152 < 2 ^ 64"
  shows "\<exists>t. vm_map_page 64 0x400000 0x600000 2 demo_vm = Ok (0x400000, t) \<and> data_page 64 va 0x600000 t"
proof -
  have i: "PML4IDX 0x400000 \<noteq> 256" by (simp add: PML4IDX_def)
  obtain t where t: "vm_map_page 64 0x400000 0x600000 2 demo_vm = Ok (0x400000, t)"
    using vm_map_page_ok[OF demo_vm_facts(1) i demo_vm_facts(2,3)] by blast
  note M = vm_map_page_map[OF demo_vm_facts(1) get_pml4e_root i t]
  have r: "as_root 64 demo_vm = 0x200000" "as_pml4_paddr demo_vm = (\<lambda>_. 0x200000)"
    by (simp_all add: as_root_def demo_vm_def)
  obtain pm m where tt: "t = demo_vm\<lparr>pm_map := pm, phys := m\<rparr>" using M by blast
  have pt: "as_pml4_paddr t 64 = 0x200000" "mutex_owner t (AsLock 64) = 0"
    using r by (simp_all add: tt demo_vm_def)
  have wf: "tables_wf (pm_map t) (phys t) 0x200000" using M r by simp
  obtain e e0 where e: "e_addr e = take_bit 40 (drop_bit 12 0x600000)" "e = map_pde 0x600000 2 e0"
    "vm_entry (phys t) 0x200000 va = Some e"
    using M assms(2) demo_vm_facts(2) unfolding r map_result_def by (auto simp: vm_entry_def)
  have pa: "push_bit 12 (e_addr e) = 0x600000" unfolding e(1) by (rule page_addr_roundtrip) simp_all
  have at: "get_attrs_by_vma e AND (VM_PAGE_PRESENT OR VM_PAGE_WRITABLE OR VM_PAGE_PRIVILEGED)
      = VM_PAGE_PRESENT OR VM_PAGE_WRITABLE"
    unfolding e(2) get_attrs_map_pde
    by (simp add: VM_PAGE_PRESENT_def VM_PAGE_WRITABLE_def VM_PAGE_PRIVILEGED_def VM_PAGE_EXECUTABLE_def VM_PAGE_GLOBAL_def)
  have fr: "frame_of u \<noteq> frame_of 0x600000" if "tbl (phys t) 0x200000 n = Some u" for n u
  proof -
    from vm_map_page_new_tables[OF demo_vm_facts(1) get_pml4e_root i t that[folded r(1)]]
    consider (a) "tbl (phys demo_vm) 0x200000 n = Some u" | (b) "pm_map demo_vm (frame_of u) = 0"
      unfolding r by blast
    then show ?thesis
    proof cases
      case a
      have z: "rd64 (phys demo_vm) a = 0" for a by (simp add: demo_vm_def rd64_def)
      have "u = 0x200000" using a by (cases n) (auto simp: tbl_below_def z split: if_splits)
      then show ?thesis by (simp add: frame_of_def)
    next
      case b
      then show ?thesis by (auto simp: demo_vm_def frame_of_def split: if_splits)
    qed
  qed
  have "(0x600000 :: u64) = of_nat 3 * KMEM_PAGE_SIZE" by (simp add: KMEM_PAGE_SIZE_def)
  moreover have "3 < PM_MAP_ELEMENTS" by (simp add: PM_MAP_ELEMENTS_def)
  ultimately have "\<exists>i. i < PM_MAP_ELEMENTS \<and> (0x600000 :: u64) = of_nat i * KMEM_PAGE_SIZE" by blast
  then have "data_page 64 va 0x600000 t"
    unfolding data_page_def pt using assms pt(2) wf fr e(3) pa at by simp
  then show ?thesis using t by blast
qed

text \<open>C14: a write to user memory that stays inside one mapped, user-writable page succeeds, a
  read of the same range returns the bytes written, and no byte outside the frame of that
  page changes.\<close>

theorem user_memory_roundtrip:
  assumes "data_page as va pa s" "0 < length bs" "unat (VM_OFFSET_PAGE_2M va) + length bs \<le> 2097152"
  shows "\<exists>t. user_memory_write as va bs s = Ok (True, t) \<and>
    user_memory_read as va (of_nat (length bs)) t = Ok (Some bs, t) \<and>
    (\<forall>x. frame_of x \<noteq> frame_of pa \<longrightarrow> phys t x = phys s x)"
proof -
  let ?t = "s\<lparr>phys := put_bytes (pa + VM_OFFSET_PAGE_2M va) bs (phys s)\<rparr>"
  have n: "length bs \<le> 2097152" using assms(3) by simp
  have u: "unat (of_nat (length bs) :: u64) = length bs" using n by (simp add: unat_of_nat)
  then have sz: "(0 :: u64) < of_nat (length bs)" "unat (of_nat (length bs) :: u64) \<le> 2097152"
    using n assms(2) by (simp_all add: word_less_nat_alt)
  have "user_memory_write as va bs s = Ok (True, ?t)" by (rule user_memory_write_page[OF assms(1,2) n])
  moreover have "user_memory_read as va (of_nat (length bs)) ?t = Ok (Some bs, ?t)"
    using user_memory_read_page[OF data_page_write[OF assms(1,3)] sz] u n by (simp add: bytes_at_put_bytes)
  moreover obtain i where i: "i < PM_MAP_ELEMENTS" "pa = of_nat i * KMEM_PAGE_SIZE"
    using assms(1) by (auto simp: data_page_def)
  then have "phys ?t x = phys s x" if "frame_of x \<noteq> frame_of pa" for x
    using put_bytes_frame[OF i(1) assms(3), of x] frame_aligned(3)[OF i(1)] that by simp
  ultimately show ?thesis by blast
qed

theorem user_memory_roundtrip_witness:
  "\<exists>s t. vm_map_page 64 0x400000 0x600000 2 demo_vm = Ok (0x400000, s) \<and>
     user_memory_write 64 0x400010 [1, 2, 3] s = Ok (True, t) \<and>
     user_memory_read 64 0x400010 3 t = Ok (Some [1, 2, 3], t)"
proof -
  have p: "PML4IDX 0x400010 \<noteq> 256" "page_of 0x400010 = page_of 0x400000"
    by (simp_all add: PML4IDX_def page_of_def PDPIDX_def PDIDX_def)
  obtain s where s: "vm_map_page 64 0x400000 0x600000 2 demo_vm = Ok (0x400000, s)"
    "data_page 64 0x400010 0x600000 s" using demo_data_page[OF p] by auto
  from user_memory_roundtrip[OF s(2), of "[1, 2, 3]"] s(1) show ?thesis
    by (auto simp: VM_OFFSET_PAGE_2M_def)
qed

text \<open>The permission check looks only at the pages that contain \<open>vma\<close>, \<open>vma\<close> plus 2 MB and so
  on, and the copy runs on physically: a write of at most 2 MB that crosses the end of its
  page succeeds without any check of the next page, and stores the rest into the frame that
  follows physically.\<close>

theorem user_memory_write_overrun:
  assumes "data_page as va pa s" "length bs \<le> 2097152"
    and "2097152 < unat (VM_OFFSET_PAGE_2M va) + length bs"
  shows "\<exists>t. user_memory_write as va bs s = Ok (True, t) \<and>
    phys t (pa + KMEM_PAGE_SIZE) = bs ! (2097152 - unat (VM_OFFSET_PAGE_2M va))"
proof -
  let ?o = "VM_OFFSET_PAGE_2M va"
  have o: "unat ?o < 2097152" by (rule offset_less)
  then have "0 < length bs" using assms(3) by linarith
  note w = user_memory_write_page[OF assms(1) this assms(2)]
  have "?o \<le> KMEM_PAGE_SIZE" using o by (simp add: word_le_nat_alt KMEM_PAGE_SIZE_nat)
  from unat_sub_le[OF this] have d: "unat (KMEM_PAGE_SIZE - ?o) = 2097152 - unat ?o" by (simp add: KMEM_PAGE_SIZE_nat)
  have "pa + KMEM_PAGE_SIZE - (pa + ?o) = KMEM_PAGE_SIZE - ?o" by simp
  then have "put_bytes (pa + ?o) bs (phys s) (pa + KMEM_PAGE_SIZE) = bs ! (2097152 - unat ?o)"
    unfolding put_bytes_def using d o assms(3) less_diff_conv2[of "unat ?o" 2097152 "length bs"] by simp
  with w show ?thesis by simp
qed

theorem user_memory_write_overrun_witness:
  "\<exists>s t. vm_map_page 64 0x400000 0x600000 2 demo_vm = Ok (0x400000, s) \<and>
     user_memory_write 64 0x5ffffe [1, 2, 3] s = Ok (True, t) \<and> phys t 0x800000 = 3"
proof -
  have p: "PML4IDX 0x5ffffe \<noteq> 256" "page_of 0x5ffffe = page_of 0x400000"
    by (simp_all add: PML4IDX_def page_of_def PDPIDX_def PDIDX_def)
  obtain s where s: "vm_map_page 64 0x400000 0x600000 2 demo_vm = Ok (0x400000, s)"
    "data_page 64 0x5ffffe 0x600000 s" using demo_data_page[OF p] by auto
  have o: "unat (VM_OFFSET_PAGE_2M 0x5ffffe) = 2097150" by (simp add: VM_OFFSET_PAGE_2M_def)
  from user_memory_write_overrun[OF s(2), of "[1, 2, 3]", unfolded o] s(1) show ?thesis
    by (auto simp: KMEM_PAGE_SIZE_def)
qed

end
