(* ===== verification/Proc_State.thy ===== *)
theory Proc_State
  imports K_timer K_addrspace K_user_mem
begin

text \<open>
  The data of the process layer: processes (\<open>k_proc.h\<close>), scheduler queues (\<open>k_sched.c\<close>), futex
  buckets (\<open>k_futex.c\<close>), kernel objects (\<open>k_kobj.h\<close>) and ports (\<open>k_port.h\<close>), as one record that
  extends the state of the timer, the heap and the page tables.  Every object is
  identified by its address.  All embedded list nodes of the layer live in one heap of nodes,
  \<open>lists\<close>; a node is named by the object it is embedded in.  Names and other byte strings in
  kernel memory are in \<open>kmem\<close>.  Stack frames are not modelled: a process that is not running
  resumes at the switch, or at the entry point it was started with.
\<close>

section \<open>Objects\<close>

datatype lnode =
    ReadyHead u64 u64 | SchedNode u64
  | ChildHead u64 | SiblingNode u64
  | FutexHead u64 | FutexNode u64
  | PortHashHead u64 nat | PortHashNode u64
  | ServerQueue u64 | ServerNode u64

datatype spinid = QueueLock u64 | BucketLock u64

text \<open>\<open>cpu_state.rip\<close> and what the stack at \<open>cpu_state.rsp\<close> holds: the label in
  \<open>__process_do_switch\<close>, or that of \<open>__process_do_start\<close> with the entry and its argument.\<close>

datatype resume = AtSwitch | AtStart u64 u64

record process =
  p_pid :: u64
  p_retval :: u64
  p_address_space :: u64
  p_state :: u64
  p_terminate_flag :: bool
  p_kobjects :: u64
  p_kobject_size :: u64
  p_parent :: u64
  p_exited_child_count :: u64
  p_resume :: resume
  p_interrupt_flag :: bool
  p_simd_state :: u64
  p_fsbase :: u64
  p_class :: u64
  p_cpu :: u64
  p_priority :: u64
  p_quantum :: u64
  p_kernel_stack :: u64

definition PROCESS_STATE_READY :: u64 where "PROCESS_STATE_READY = 1"
definition PROCESS_STATE_BLOCKED :: u64 where "PROCESS_STATE_BLOCKED = 2"
definition PROCESS_STATE_EXITED :: u64 where "PROCESS_STATE_EXITED = 3"

record kobject =
  ko_type :: u64
  ko_ptr :: u64

record port_request_t =
  rq_sender :: u64
  rq_val_small :: u64
  rq_data_sender_vaddr :: u64
  rq_data_size :: u64
  rq_retval_sender_vaddr :: u64
  rq_retval_size :: u64
  rq_finished :: bool
  rq_error :: u64

record port_t =
  po_name :: u64
  po_ref_count :: u64
  po_server_ref_count :: u64
  po_waiting_server_count :: u64

record port_server_ref_t =
  sr_port :: u64
  sr_holder :: u64
  sr_req :: u64

record port_client_ref_t =
  cr_port :: u64
  cr_holder :: u64

record port_hash_entry_t =
  he_key :: u64
  he_val :: u64

section \<open>State\<close>

record proc_state = timer_state +
  lists :: "lnode list_heap"
  procs :: "u64 \<Rightarrow> process"
  kernel_proc :: u64
  spins :: "spinid \<Rightarrow> spinlock"
  cpu :: cpu_state
  smp_cpu_count :: u64
  sched_enabled :: bool
  fsbase_msr :: u64
  tss_rsp0 :: u64
  current_kernel_stack :: u64
  sched_tick_addr :: u64
  queue :: u64
  process_count :: "u64 \<Rightarrow> u64"
  futex_hash :: u64
  futex_size :: u64
  bucket_waiters :: "u64 \<Rightarrow> u64"
  futex_entry_addr :: "u64 \<Rightarrow> u64"
  pid_bitmap :: "nat \<Rightarrow> u64"
  simd_state_size :: u64
  simd_state_alignment :: u64
  kobjs :: "u64 \<Rightarrow> nat \<Rightarrow> kobject"
  kmem :: mem
  ports :: "u64 \<Rightarrow> port_t"
  server_refs :: "u64 \<Rightarrow> port_server_ref_t"
  client_refs :: "u64 \<Rightarrow> port_client_ref_t"
  requests :: "u64 \<Rightarrow> port_request_t"
  hash_entries :: "u64 \<Rightarrow> port_hash_entry_t"
  port_hash :: u64
  hash_capacity :: u64
  hash_size :: u64
  port_ifce_hash :: "nat \<Rightarrow> u64"

definition upd_proc :: "u64 \<Rightarrow> (process \<Rightarrow> process) \<Rightarrow> 'a proc_state_scheme \<Rightarrow> 'a proc_state_scheme" where
  "upd_proc p f s = s\<lparr>procs := (procs s)(p := f (procs s p))\<rparr>"

definition upd_lists :: "(lnode list_heap \<Rightarrow> lnode list_heap) \<Rightarrow> 'a proc_state_scheme \<Rightarrow> 'a proc_state_scheme" where
  "upd_lists f s = s\<lparr>lists := f (lists s)\<rparr>"

definition smp_current_cpu_id :: "'a proc_state_scheme \<Rightarrow> u64" where
  "smp_current_cpu_id s = cpu_id (cpu s)"

text \<open>The spinlocks of the state: \<open>spinlock_lock\<close> and \<open>spinlock_unlock\<close> on one of them.\<close>

definition spin_lock :: "spinid \<Rightarrow> 'a proc_state_scheme \<Rightarrow> (bool \<times> 'a proc_state_scheme) res" where
  "spin_lock l s = bind_res (spinlock_lock (spins s l) (cpu s)) (\<lambda>(flag, sl, c).
     Ok (flag, s\<lparr>spins := (spins s)(l := sl), cpu := c\<rparr>))"

definition spin_unlock :: "spinid \<Rightarrow> bool \<Rightarrow> 'a proc_state_scheme \<Rightarrow> 'a proc_state_scheme res" where
  "spin_unlock l flag s = bind_res (spinlock_unlock (spins s l) flag (cpu s)) (\<lambda>(sl, c).
     Ok (s\<lparr>spins := (spins s)(l := sl), cpu := c\<rparr>))"

lemma upd_proc_fields [simp]:
  "procs (upd_proc p f s) = (procs s)(p := f (procs s p))"
  "lists (upd_proc p f s) = lists s"
  "process_count (upd_proc p f s) = process_count s"
  "spins (upd_proc p f s) = spins s"
  "cpu (upd_proc p f s) = cpu s"
  "smp_cpu_count (upd_proc p f s) = smp_cpu_count s"
  "bucket_waiters (upd_proc p f s) = bucket_waiters s"
  "futex_entry_addr (upd_proc p f s) = futex_entry_addr s"
  "current_process (upd_proc p f s) = current_process s"
  "mutex_owner (upd_proc p f s) = mutex_owner s"
  by (simp_all add: upd_proc_def)

lemma upd_lists_fields [simp]:
  "procs (upd_lists g s) = procs s"
  "lists (upd_lists g s) = g (lists s)"
  "process_count (upd_lists g s) = process_count s"
  "spins (upd_lists g s) = spins s"
  "cpu (upd_lists g s) = cpu s"
  "smp_cpu_count (upd_lists g s) = smp_cpu_count s"
  "bucket_waiters (upd_lists g s) = bucket_waiters s"
  "futex_entry_addr (upd_lists g s) = futex_entry_addr s"
  "current_process (upd_lists g s) = current_process s"
  "mutex_owner (upd_lists g s) = mutex_owner s"
  by (simp_all add: upd_lists_def)

end
