(* ===== verification/K_sched.thy ===== *)
theory K_sched
  imports Proc_State
begin

text \<open>
  \<open>k_sched.c\<close>, the ready queues: one list per processor and priority level, the choice of the
  processor and of the next process, quanta and priority classes.  The operations that switch
  to another process are in the theory \<open>K_switch\<close>.
\<close>

section \<open>Constants\<close>

definition TOTAL_LEVELS :: u64 where "TOTAL_LEVELS = 64"
definition NORMAL_LEVEL_MIN :: u64 where "NORMAL_LEVEL_MIN = 1"
definition NORMAL_LEVEL_MAX :: u64 where "NORMAL_LEVEL_MAX = 15"
definition DRIVER_LEVEL_MIN :: u64 where "DRIVER_LEVEL_MIN = 16"
definition DRIVER_LEVEL_MAX :: u64 where "DRIVER_LEVEL_MAX = 31"
definition RT_LEVEL_MIN :: u64 where "RT_LEVEL_MIN = 32"
definition RT_LEVEL_MAX :: u64 where "RT_LEVEL_MAX = 47"
definition RT_DRIVER_LEVEL_MIN :: u64 where "RT_DRIVER_LEVEL_MIN = 48"
definition RT_DRIVER_LEVEL_MAX :: u64 where "RT_DRIVER_LEVEL_MAX = 63"

definition SCHED_CLASS_IDLE :: u64 where "SCHED_CLASS_IDLE = 0"
definition SCHED_CLASS_NORMAL :: u64 where "SCHED_CLASS_NORMAL = 1"
definition SCHED_CLASS_DRIVER :: u64 where "SCHED_CLASS_DRIVER = 2"
definition SCHED_CLASS_RT :: u64 where "SCHED_CLASS_RT = 3"
definition SCHED_CLASS_RT_DRIVER :: u64 where "SCHED_CLASS_RT_DRIVER = 4"

lemmas level_defs = TOTAL_LEVELS_def NORMAL_LEVEL_MIN_def NORMAL_LEVEL_MAX_def DRIVER_LEVEL_MIN_def
  DRIVER_LEVEL_MAX_def RT_LEVEL_MIN_def RT_LEVEL_MAX_def RT_DRIVER_LEVEL_MIN_def RT_DRIVER_LEVEL_MAX_def
lemmas class_defs = SCHED_CLASS_IDLE_def SCHED_CLASS_NORMAL_def SCHED_CLASS_DRIVER_def
  SCHED_CLASS_RT_def SCHED_CLASS_RT_DRIVER_def

text \<open>\<open>sizeof(sched_queue_t)\<close>: the lock, the counter and 64 list heads.\<close>

definition SCHED_QUEUE_SIZE :: u64 where "SCHED_QUEUE_SIZE = 1048"

section \<open>Operations\<close>

function sched_pick_loop :: "(u64 \<Rightarrow> u64) \<Rightarrow> u64 \<Rightarrow> u64 \<Rightarrow> u64 \<Rightarrow> u64 \<Rightarrow> u64" where
  "sched_pick_loop cnt n i ret ret_count =
     (if i < n
      then (if cnt i < ret_count then sched_pick_loop cnt n (i + 1) i (cnt i)
            else sched_pick_loop cnt n (i + 1) ret ret_count)
      else ret)"
  by pat_completeness auto
termination
  by (relation "measure (\<lambda>(cnt, n, i, ret, rc). unat n - unat i)") (auto simp: word_count_up)

declare sched_pick_loop.simps [simp del]

definition sched_pick_cpu :: "'a proc_state_scheme \<Rightarrow> u64" where
  "sched_pick_cpu s = sched_pick_loop (process_count s) (smp_cpu_count s) 0 0 (-1)"

function sched_init_levels :: "u64 \<Rightarrow> u64 \<Rightarrow> lnode list_heap \<Rightarrow> lnode list_heap" where
  "sched_init_levels i j h =
     (if j < TOTAL_LEVELS then sched_init_levels i (j + 1) (list_head_init (ReadyHead i j) h) else h)"
  by pat_completeness auto
termination
  by (relation "measure (\<lambda>(i, j, h). unat TOTAL_LEVELS - unat j)") (auto simp: word_count_up)

declare sched_init_levels.simps [simp del]

function sched_init_loop :: "u64 \<Rightarrow> 'a proc_state_scheme \<Rightarrow> 'a proc_state_scheme" where
  "sched_init_loop i s =
     (if i < smp_cpu_count s
      then (let
        s = s\<lparr>spins := (spins s)(QueueLock i := spinlock_init (spins s (QueueLock i)))\<rparr>;
        s = upd_lists (sched_init_levels i 0) s;
        s = s\<lparr>process_count := (process_count s)(i := 0)\<rparr>
      in sched_init_loop (i + 1) s)
      else s)"
  by pat_completeness auto
termination
  by (relation "measure (\<lambda>(i, s). unat (smp_cpu_count s) - unat i)") (auto simp: word_count_up)

declare sched_init_loop.simps [simp del]

definition sched_init :: "'a proc_state_scheme \<Rightarrow> 'a proc_state_scheme res" where
  "sched_init s = bind_res (kmem_alloc (SCHED_QUEUE_SIZE * smp_cpu_count s) s) (\<lambda>(q, s).
     let s = s\<lparr>queue := q\<rparr>
     in verify (q \<noteq> 0) ''failed to allocate schedule queue'' (Ok (sched_init_loop 0 s)))"

definition do_sched_set_ready :: "u64 \<Rightarrow> 'a proc_state_scheme \<Rightarrow> 'a proc_state_scheme res" where
  "do_sched_set_ready proc s = (let c = sched_pick_cpu s in
     bind_res (spin_lock (QueueLock c) s) (\<lambda>(flag, s). let
       s = upd_lists (\<lambda>h. list_insert (SchedNode proc)
             (lprev h (ReadyHead c (p_priority (procs s proc)))) h) s;
       s = s\<lparr>process_count := (process_count s)(c := process_count s c + 1)\<rparr>;
       s = upd_proc proc (\<lambda>p. p\<lparr>p_cpu := c\<rparr>) s
     in spin_unlock (QueueLock c) flag s))"

definition do_sched_remove_ready :: "u64 \<Rightarrow> 'a proc_state_scheme \<Rightarrow> 'a proc_state_scheme res" where
  "do_sched_remove_ready process s = (let c = p_cpu (procs s process) in
     bind_res (spin_lock (QueueLock c) s) (\<lambda>(flag, s). let
       s = upd_lists (list_remove (SchedNode process)) s;
       s = s\<lparr>process_count := (process_count s)(c := process_count s c - 1)\<rparr>
     in spin_unlock (QueueLock c) flag s))"

definition LINEAR_QUANTUM :: "u64 \<Rightarrow> u64 \<Rightarrow> u64 \<Rightarrow> u64" where
  "LINEAR_QUANTUM p max_l unit_quantum = (max_l - p + 1) * unit_quantum"

definition get_quantum :: "process \<Rightarrow> u64 res" where
  "get_quantum p =
     (if p_class p = SCHED_CLASS_IDLE then Ok (-1)
      else if p_class p = SCHED_CLASS_NORMAL then Ok (LINEAR_QUANTUM (p_priority p) NORMAL_LEVEL_MAX 20)
      else if p_class p = SCHED_CLASS_DRIVER then Ok (LINEAR_QUANTUM (p_priority p) DRIVER_LEVEL_MAX 20)
      else if p_class p = SCHED_CLASS_RT then Ok (LINEAR_QUANTUM (p_priority p) RT_LEVEL_MAX 20)
      else if p_class p = SCHED_CLASS_RT_DRIVER then Ok (LINEAR_QUANTUM (p_priority p) RT_DRIVER_LEVEL_MAX 20)
      else Fail (Panic ''invalid schedule class''))"

definition get_priority :: "u64 \<Rightarrow> u64 res" where
  "get_priority c =
     (if c = SCHED_CLASS_IDLE then Ok 0
      else if c = SCHED_CLASS_NORMAL then Ok NORMAL_LEVEL_MAX
      else if c = SCHED_CLASS_DRIVER then Ok DRIVER_LEVEL_MAX
      else if c = SCHED_CLASS_RT then Ok RT_LEVEL_MAX
      else if c = SCHED_CLASS_RT_DRIVER then Ok RT_DRIVER_LEVEL_MAX
      else Fail (Panic ''invalid schedule class''))"

definition CLAMP_CASE :: "u64 \<Rightarrow> u64 \<Rightarrow> u64 \<Rightarrow> u64" where
  "CLAMP_CASE lo hi p = (if p > hi then hi else if p < lo then lo else p)"

text \<open>The case of the idle class has no \<open>break\<close>: it goes on into that of the normal class.\<close>

definition clampped_priority_change :: "u64 \<Rightarrow> process \<Rightarrow> process res" where
  "clampped_priority_change delta proc = (let p = p_priority proc + delta in
     bind_res
      (if p_class proc = SCHED_CLASS_IDLE then Ok (CLAMP_CASE NORMAL_LEVEL_MIN NORMAL_LEVEL_MAX 0)
       else if p_class proc = SCHED_CLASS_NORMAL then Ok (CLAMP_CASE NORMAL_LEVEL_MIN NORMAL_LEVEL_MAX p)
       else if p_class proc = SCHED_CLASS_DRIVER then Ok (CLAMP_CASE DRIVER_LEVEL_MIN DRIVER_LEVEL_MAX p)
       else if p_class proc = SCHED_CLASS_RT then Ok (CLAMP_CASE RT_LEVEL_MIN RT_LEVEL_MAX p)
       else if p_class proc = SCHED_CLASS_RT_DRIVER then Ok (CLAMP_CASE RT_DRIVER_LEVEL_MIN RT_DRIVER_LEVEL_MAX p)
       else Fail (Panic ''invalid schedule class''))
      (\<lambda>p. Ok (proc\<lparr>p_priority := p\<rparr>)))"

definition change_priority :: "u64 \<Rightarrow> u64 \<Rightarrow> 'a proc_state_scheme \<Rightarrow> 'a proc_state_scheme res" where
  "change_priority proc delta s = bind_res (clampped_priority_change delta (procs s proc)) (\<lambda>p.
     Ok (upd_proc proc (\<lambda>_. p) s))"

definition thread_bump_blocking :: "u64 \<Rightarrow> 'a proc_state_scheme \<Rightarrow> 'a proc_state_scheme res" where
  "thread_bump_blocking proc s = change_priority proc 1 s"

definition do_sched_update_position :: "u64 \<Rightarrow> 'a proc_state_scheme \<Rightarrow> 'a proc_state_scheme" where
  "do_sched_update_position proc s = (let
     s = upd_lists (list_remove (SchedNode proc)) s
   in upd_lists (\<lambda>h. list_insert (SchedNode proc)
        (lprev h (ReadyHead (smp_current_cpu_id s) (p_priority (procs s proc)))) h) s)"

definition sched_enter :: "u64 \<Rightarrow> 'a proc_state_scheme \<Rightarrow> 'a proc_state_scheme res" where
  "sched_enter proc s = bind_res (get_priority (p_class (procs s proc))) (\<lambda>pr.
     do_sched_set_ready proc (upd_proc proc (\<lambda>p. p\<lparr>p_priority := pr\<rparr>) s))"

definition sched_set_ready :: "u64 \<Rightarrow> 'a proc_state_scheme \<Rightarrow> 'a proc_state_scheme res" where
  "sched_set_ready proc s = do_sched_set_ready proc s"

definition sched_set_blocking :: "u64 \<Rightarrow> 'a proc_state_scheme \<Rightarrow> 'a proc_state_scheme res" where
  "sched_set_blocking proc s = bind_res (do_sched_remove_ready proc s) (thread_bump_blocking proc)"

definition sched_leave :: "u64 \<Rightarrow> 'a proc_state_scheme \<Rightarrow> 'a proc_state_scheme res" where
  "sched_leave proc s = do_sched_remove_ready proc s"

definition READY_LIST :: "nat \<Rightarrow> 'a proc_state_scheme \<Rightarrow> lnode" where
  "READY_LIST l s = ReadyHead (smp_current_cpu_id s) (of_nat l)"

text \<open>The process that embeds a scheduler node.\<close>

fun sched_node_proc :: "lnode \<Rightarrow> u64" where
  "sched_node_proc (SchedNode p) = p"
| "sched_node_proc _ = 0"

text \<open>\<open>sched_pick_next\<close>: the loop counts the level down from 63; \<open>sched_pick_from k\<close> has looked
  at all levels from \<open>k\<close> on.  The result is \<open>NULL\<close> when every list is empty.\<close>

fun sched_pick_from :: "nat \<Rightarrow> 'a proc_state_scheme \<Rightarrow> u64" where
  "sched_pick_from 0 s = 0"
| "sched_pick_from (Suc i) s =
     (if list_is_empty (READY_LIST i s) (lists s) then sched_pick_from i s
      else sched_node_proc (lnext (lists s) (READY_LIST i s)))"

definition sched_pick_next :: "'a proc_state_scheme \<Rightarrow> u64" where
  "sched_pick_next s = sched_pick_from 64 s"

text \<open>\<open>sched_should_preempt\<close>: the highest level above 0 with a ready process, else 0.\<close>

fun sched_top_level :: "nat \<Rightarrow> 'a proc_state_scheme \<Rightarrow> nat" where
  "sched_top_level 0 s = 0"
| "sched_top_level (Suc i) s =
     (if \<not> list_is_empty (READY_LIST (Suc i) s) (lists s) then Suc i else sched_top_level i s)"

definition sched_should_preempt :: "'a proc_state_scheme \<Rightarrow> bool" where
  "sched_should_preempt s =
     (of_nat (sched_top_level 63 s) > p_priority (procs s (current_process s)))"

definition sched_disable :: "'a proc_state_scheme \<Rightarrow> 'a proc_state_scheme" where
  "sched_disable s = s\<lparr>sched_enabled := False\<rparr>"

definition sched_enable :: "'a proc_state_scheme \<Rightarrow> 'a proc_state_scheme" where
  "sched_enable s = s\<lparr>sched_enabled := True\<rparr>"

end
