(* ===== verification/K_futex.thy ===== *)
theory K_futex
  imports K_sched
begin

text \<open>
  \<open>k_futex.c\<close>: the hash table of waiting processes and waking.  The operations that wait are in
  the theory \<open>K_switch\<close>.  The entry of a waiting process lies on its kernel stack, so it is named
  by the process.
\<close>

section \<open>Kernel words\<close>

text \<open>The words of kernel objects that the kernel waits on, their addresses and their values.\<close>

datatype fword = WProcState u64 | WChildCount u64 | WPortWaiting u64 | WReqFinished u64 | WServerReq u64

fun fword_addr :: "fword \<Rightarrow> u64" where
  "fword_addr (WProcState p) = p + 32"
| "fword_addr (WChildCount p) = p + 120"
| "fword_addr (WPortWaiting po) = po + 24"
| "fword_addr (WReqFinished r) = r + 48"
| "fword_addr (WServerReq sr) = sr + 32"

fun fword_val :: "fword \<Rightarrow> 'a proc_state_scheme \<Rightarrow> u64" where
  "fword_val (WProcState p) s = p_state (procs s p)"
| "fword_val (WChildCount p) s = p_exited_child_count (procs s p)"
| "fword_val (WPortWaiting po) s = po_waiting_server_count (ports s po)"
| "fword_val (WReqFinished r) s = of_bool (rq_finished (requests s r))"
| "fword_val (WServerReq sr) s = sr_req (server_refs s sr)"

section \<open>Hash table\<close>

definition futex_calc_hash :: "u64 \<Rightarrow> 'a proc_state_scheme \<Rightarrow> u64" where
  "futex_calc_hash addr s = addr mod futex_size s"

text \<open>\<open>__builtin_clzll\<close>: the number of leading zero bits.\<close>

definition clzll :: "u64 \<Rightarrow> nat" where
  "clzll v = length (takeWhile Not (rev (map (bit v) [0..<64])))"

text \<open>The constant 1 is an \<open>int\<close>: the shift is of a 32-bit value, which is then extended.\<close>

definition round_to_power_of_2 :: "u64 \<Rightarrow> u64" where
  "round_to_power_of_2 val =
     (if val = 1 then 1 else scast (push_bit (64 - clzll val + 1) (1 :: 32 word)))"

definition FUTEX_BUCKET_SIZE :: u64 where "FUTEX_BUCKET_SIZE = 40"

function futex_init_loop :: "u64 \<Rightarrow> 'a proc_state_scheme \<Rightarrow> 'a proc_state_scheme" where
  "futex_init_loop i s =
     (if i < futex_size s * 2
      then (let
        s = s\<lparr>spins := (spins s)(BucketLock i := spinlock_init (spins s (BucketLock i)))\<rparr>;
        s = upd_lists (list_head_init (FutexHead i)) s;
        s = s\<lparr>bucket_waiters := (bucket_waiters s)(i := 0)\<rparr>
      in futex_init_loop (i + 1) s)
      else s)"
  by pat_completeness auto
termination
  by (relation "measure (\<lambda>(i, s). unat (futex_size s * 2) - unat i)") (auto simp: word_count_up upd_lists_def)

declare futex_init_loop.simps [simp del]

definition futex_init :: "'a proc_state_scheme \<Rightarrow> 'a proc_state_scheme res" where
  "futex_init s = (let s = s\<lparr>futex_size := round_to_power_of_2 (256 * smp_cpu_count s)\<rparr> in
     bind_res (kmem_alloc (FUTEX_BUCKET_SIZE * futex_size s * 2) s) (\<lambda>(h, s).
       let s = s\<lparr>futex_hash := h\<rparr> in nonnull h (Ok (futex_init_loop 0 s))))"

section \<open>Waking\<close>

fun futex_node_proc :: "lnode \<Rightarrow> u64" where
  "futex_node_proc (FutexNode p) = p"
| "futex_node_proc _ = 0"

text \<open>The loop of \<open>__do_futex_wake\<close> at node \<open>p\<close>; \<open>nxt\<close> is \<open>__next\<close>, read before the body of the loop.\<close>

partial_function (option) futex_wake_loop ::
    "u64 \<Rightarrow> u64 \<Rightarrow> u64 \<Rightarrow> lnode \<Rightarrow> lnode \<Rightarrow> 'a proc_state_scheme \<Rightarrow> 'a proc_state_scheme res option" where
  "futex_wake_loop key addr cnt p nxt s =
     (if p = FutexHead key then Some (Ok s)
      else if futex_entry_addr s (futex_node_proc p) \<noteq> addr
      then futex_wake_loop key addr cnt nxt (lnext (lists s) nxt) s
      else (let
        s = upd_lists (list_remove p) s;
        s = upd_proc (futex_node_proc p) (\<lambda>q. q\<lparr>p_state := PROCESS_STATE_READY\<rparr>) s
      in case sched_set_ready (futex_node_proc p) s of
          Fail e \<Rightarrow> Some (Fail e)
        | Ok s \<Rightarrow> (let
            cnt = cnt - 1;
            s = s\<lparr>bucket_waiters := (bucket_waiters s)(key := bucket_waiters s key - 1)\<rparr>
          in if bucket_waiters s key = 0 \<or> cnt = 0 then Some (Ok s)
             else futex_wake_loop key addr cnt nxt (lnext (lists s) nxt) s)))"

definition do_futex_wake :: "u64 \<Rightarrow> u64 \<Rightarrow> u64 \<Rightarrow> 'a proc_state_scheme \<Rightarrow> 'a proc_state_scheme res" where
  "do_futex_wake key addr cnt s =
     (if bucket_waiters s key = 0 then Ok s
      else bind_res (spin_lock (BucketLock key) s) (\<lambda>(flag, s). let
        p = lnext (lists s) (FutexHead key);
        nxt = lnext (lists s) p
      in bind_res (ends (futex_wake_loop key addr cnt p nxt s)) (spin_unlock (BucketLock key) flag)))"

definition FUTEX_WAKE_ALL :: u64 where "FUTEX_WAKE_ALL = -1"

definition futex_kwake :: "fword \<Rightarrow> u64 \<Rightarrow> 'a proc_state_scheme \<Rightarrow> 'a proc_state_scheme res" where
  "futex_kwake w cnt s =
     (if futex_size s = 0 then Fail DivZero
      else do_futex_wake (futex_calc_hash (fword_addr w) s + futex_size s) (fword_addr w) cnt s)"

definition process_terminate :: "u64 \<Rightarrow> 'a proc_state_scheme \<Rightarrow> 'a proc_state_scheme" where
  "process_terminate p s = upd_proc p (\<lambda>q. q\<lparr>p_terminate_flag := True\<rparr>) s"

text \<open>The code passes the address space itself to \<open>vm_get_pma_by_vma\<close>, which takes the table
  of the top level: the table walk starts at the address-space object.  \<open>kpa\<close> is the physical
  address behind a kernel pointer.\<close>

definition futex_wake ::
    "(u64 \<Rightarrow> u64) \<Rightarrow> u64 \<Rightarrow> u64 \<Rightarrow> u64 \<Rightarrow> 'a proc_state_scheme \<Rightarrow> 'a proc_state_scheme res" where
  "futex_wake kpa as addr cnt s = nonnull as (
     bind_res (mutex_acquire (AsLock as) s) (\<lambda>s.
     bind_res (user_memory_check_read as addr 8 s) (\<lambda>ok.
       if \<not> ok then
         bind_res (mutex_release (AsLock as) s) (\<lambda>s.
         bind_res (mutex_acquire (ProcLock (current_process s)) s) (\<lambda>s.
         mutex_release (ProcLock (current_process s)) (process_terminate (current_process s) s)))
       else (let paddr = vm_get_pma_by_vma (kpa as) addr s in
         bind_res (mutex_release (AsLock as) s) (\<lambda>s.
           if futex_size s = 0 then Fail DivZero
           else do_futex_wake (futex_calc_hash paddr s) paddr cnt s)))))"

end
