(* ===== verification/K_switch.thy ===== *)
theory K_switch
  imports K_futex
begin

text \<open>
  Switching between processes (\<open>k_proc.c\<close>, \<open>hal_proc.s\<close>), the part of \<open>k_sched.c\<close> that
  switches, and the waiting operations of \<open>k_futex.c\<close>.  An operation that gives up the
  processor takes an argument \<open>env\<close>: everything that runs from the switch until the process is
  switched to again.
\<close>

section \<open>Contexts\<close>

definition process_load_context :: "u64 \<Rightarrow> 'a proc_state_scheme \<Rightarrow> 'a proc_state_scheme res" where
  "process_load_context target s = (let
     prev = current_process s;
     s = s\<lparr>current_process := target\<rparr>
   in bind_res
       (if prev \<noteq> 0 \<and> p_terminate_flag (procs s prev)
        then futex_kwake (WProcState prev) 1 (upd_proc prev (\<lambda>p. p\<lparr>p_state := PROCESS_STATE_EXITED\<rparr>) s)
        else Ok s)
       (\<lambda>s. let
          s = s\<lparr>tss_rsp0 := p_kernel_stack (procs s target)\<rparr>;
          s = s\<lparr>current_kernel_stack := p_kernel_stack (procs s target)\<rparr>
        in bind_res (vm_address_space_load (p_address_space (procs s target)) s) (\<lambda>s. let
          s = s\<lparr>fsbase_msr := p_fsbase (procs s target)\<rparr>;
          s = s\<lparr>cpu := interrupt_load_flag (p_interrupt_flag (procs s target)) (cpu s)\<rparr>
        in Ok (sched_enable s))))"

text \<open>\<open>__process_do_switch\<close> saves where to resume and continues at the target's resume point,
  which is one of two labels; both call \<open>__process_load_context\<close> and go on in the target.\<close>

definition process_do_switch ::
    "('a proc_state_scheme \<Rightarrow> 'a proc_state_scheme res) \<Rightarrow> u64 \<Rightarrow> u64 \<Rightarrow>
     'a proc_state_scheme \<Rightarrow> 'a proc_state_scheme res" where
  "process_do_switch env current target s = (let
     s = upd_proc current (\<lambda>p. p\<lparr>p_resume := AtSwitch\<rparr>) s
   in bind_res (process_load_context target s) env)"

definition process_save_context ::
    "('a proc_state_scheme \<Rightarrow> 'a proc_state_scheme res) \<Rightarrow> u64 \<Rightarrow>
     'a proc_state_scheme \<Rightarrow> 'a proc_state_scheme res" where
  "process_save_context env target s = (let
     current = current_process s;
     s = upd_proc current (\<lambda>p. p\<lparr>p_interrupt_flag := interrupt_save_flag (cpu s)\<rparr>) s;
     s = s\<lparr>cpu := interrupt_disable_preemption (cpu s)\<rparr>;
     s = upd_proc current (\<lambda>p. p\<lparr>p_fsbase := fsbase_msr s\<rparr>) s
   in process_do_switch env current target s)"

definition process_switch_context ::
    "('a proc_state_scheme \<Rightarrow> 'a proc_state_scheme res) \<Rightarrow> u64 \<Rightarrow>
     'a proc_state_scheme \<Rightarrow> 'a proc_state_scheme res" where
  "process_switch_context env target s = process_save_context env target s"

definition process_start :: "u64 \<Rightarrow> u64 \<Rightarrow> u64 \<Rightarrow> 'a proc_state_scheme \<Rightarrow> 'a proc_state_scheme" where
  "process_start target entry data s = upd_proc target (\<lambda>p. p\<lparr>p_resume := AtStart entry data\<rparr>) s"

section \<open>Rescheduling\<close>

definition set_quantum :: "u64 \<Rightarrow> 'a proc_state_scheme \<Rightarrow> 'a proc_state_scheme res" where
  "set_quantum p s = bind_res (get_quantum (procs s p)) (\<lambda>q. Ok (upd_proc p (\<lambda>r. r\<lparr>p_quantum := q\<rparr>) s))"

text \<open>The body of \<open>sched_tick\<close> under the queue lock; \<open>me\<close> is \<open>CURRENT_PROCESS\<close>.\<close>

definition sched_tick_locked ::
    "('a proc_state_scheme \<Rightarrow> 'a proc_state_scheme res) \<Rightarrow> spinid \<Rightarrow> u64 \<Rightarrow> bool \<Rightarrow>
     'a proc_state_scheme \<Rightarrow> 'a proc_state_scheme res" where
  "sched_tick_locked env qlock me flag s =
     (if sched_should_preempt s
      then (let
        nxt = sched_pick_next s;
        s = do_sched_update_position me s
      in bind_res (spin_unlock qlock flag s) (\<lambda>s.
         bind_res (set_quantum nxt (sched_disable s)) (process_switch_context env nxt)))
      else (let
        s = upd_proc me (\<lambda>p. p\<lparr>p_quantum := p_quantum p - 10\<rparr>) s
      in if p_quantum (procs s me) = 0
         then bind_res (change_priority me (-1) s) (\<lambda>s. let
           s = do_sched_update_position me s;
           nxt = sched_pick_next s
         in if nxt \<noteq> me
            then bind_res (spin_unlock qlock flag s) (\<lambda>s.
                 bind_res (set_quantum nxt (sched_disable s)) (process_switch_context env nxt))
            else spin_unlock qlock flag s)
         else spin_unlock qlock flag s))"

definition sched_tick ::
    "('a proc_state_scheme \<Rightarrow> 'a proc_state_scheme res) \<Rightarrow>
     'a proc_state_scheme \<Rightarrow> 'a proc_state_scheme res" where
  "sched_tick env s =
     bind_res (timer_set_timeout 10 (sched_tick_addr s) 0 s) (\<lambda>s. let
       qlock = QueueLock (smp_current_cpu_id s)
     in bind_res (spin_lock qlock s) (\<lambda>(flag, s).
       sched_tick_locked env qlock (current_process s) flag s))"

definition sched_resched ::
    "('a proc_state_scheme \<Rightarrow> 'a proc_state_scheme res) \<Rightarrow>
     'a proc_state_scheme \<Rightarrow> 'a proc_state_scheme res" where
  "sched_resched env s =
     (if \<not> sched_enabled s then Ok s
      else (let qlock = QueueLock (smp_current_cpu_id s) in
        bind_res (spin_lock qlock s) (\<lambda>(flag, s). let
          nxt = sched_pick_next s
        in bind_res (spin_unlock qlock flag s) (\<lambda>s.
           nonnull nxt (bind_res (set_quantum nxt s) (\<lambda>s.
             if nxt \<noteq> current_process s
             then process_switch_context env nxt (sched_disable s)
             else Ok s))))))"

section \<open>Waiting\<close>

definition futex_block ::
    "('a proc_state_scheme \<Rightarrow> 'a proc_state_scheme res) \<Rightarrow> u64 \<Rightarrow> u64 \<Rightarrow> bool \<Rightarrow>
     ('a proc_state_scheme \<Rightarrow> 'a proc_state_scheme res) \<Rightarrow>
     'a proc_state_scheme \<Rightarrow> 'a proc_state_scheme res" where
  "futex_block env key addr flag unlock s = (let
     me = current_process s;
     s = s\<lparr>futex_entry_addr := (futex_entry_addr s)(me := addr)\<rparr>;
     s = upd_lists (list_insert (FutexNode me) (FutexHead key)) s;
     s = upd_proc me (\<lambda>p. p\<lparr>p_state := PROCESS_STATE_BLOCKED\<rparr>) s
   in bind_res (sched_set_blocking me s) (\<lambda>s.
      bind_res (unlock s) (\<lambda>s.
      bind_res (spin_unlock (BucketLock key) flag s) (sched_resched env))))"

definition add_waiters :: "u64 \<Rightarrow> u64 \<Rightarrow> 'a proc_state_scheme \<Rightarrow> 'a proc_state_scheme" where
  "add_waiters key d s = s\<lparr>bucket_waiters := (bucket_waiters s)(key := bucket_waiters s key + d)\<rparr>"

definition futex_kwait ::
    "('a proc_state_scheme \<Rightarrow> 'a proc_state_scheme res) \<Rightarrow> fword \<Rightarrow> u64 \<Rightarrow>
     'a proc_state_scheme \<Rightarrow> 'a proc_state_scheme res" where
  "futex_kwait env w val s =
     (if futex_size s = 0 then Fail DivZero
      else (let key = futex_calc_hash (fword_addr w) s + futex_size s in
        bind_res (spin_lock (BucketLock key) s) (\<lambda>(flag, s). let
          s = add_waiters key 1 s
        in if fword_val w s = val then futex_block env key (fword_addr w) flag Ok s
           else spin_unlock (BucketLock key) flag (add_waiters key (-1) s))))"

text \<open>The user word is read through the direct map, at the address the walk has found.\<close>

definition futex_wait ::
    "('a proc_state_scheme \<Rightarrow> 'a proc_state_scheme res) \<Rightarrow> (u64 \<Rightarrow> u64) \<Rightarrow> u64 \<Rightarrow> u64 \<Rightarrow> u64 \<Rightarrow>
     'a proc_state_scheme \<Rightarrow> 'a proc_state_scheme res" where
  "futex_wait env kpa as addr val s = nonnull as (
     bind_res (mutex_acquire (AsLock as) s) (\<lambda>s.
     bind_res (user_memory_check_read as addr 8 s) (\<lambda>ok.
       if \<not> ok then
         bind_res (mutex_release (AsLock as) s) (\<lambda>s.
         bind_res (mutex_acquire (ProcLock (current_process s)) s) (\<lambda>s.
         bind_res (mutex_release (ProcLock (current_process s)) (process_terminate (current_process s) s)) (\<lambda>s.
         sched_resched env s)))
       else if futex_size s = 0 then Fail DivZero
       else (let
         paddr = vm_get_pma_by_vma (kpa as) addr s;
         key = futex_calc_hash paddr s
       in bind_res (spin_lock (BucketLock key) s) (\<lambda>(flag, s). let
            s = add_waiters key 1 s
          in if rd64 (phys s) paddr = val
             then futex_block env key paddr flag (mutex_release (AsLock as)) s
             else bind_res (spin_unlock (BucketLock key) flag (add_waiters key (-1) s))
                    (mutex_release (AsLock as)))))))"

end
