(* ===== verification/K_kobj.thy ===== *)
theory K_kobj
  imports K_switch
begin

text \<open>
  \<open>k_kobj.c\<close>: the table of kernel objects of a process.  A pointer to an entry is the address
  of the table and the index.  \<open>kobject_cleanup\<close>, which closes ports, is in the theory
  \<open>K_term\<close>.
\<close>

section \<open>Constants\<close>

definition KOBJ_UNALLOCED :: u64 where "KOBJ_UNALLOCED = 0"
definition KOBJ_PREALLOCED :: u64 where "KOBJ_PREALLOCED = 1"
definition KOBJ_TYPE_PORT_SERVER_REF :: u64 where "KOBJ_TYPE_PORT_SERVER_REF = 2"
definition KOBJ_TYPE_PORT_CLIENT_REF :: u64 where "KOBJ_TYPE_PORT_CLIENT_REF = 3"
definition KOBJ_TYPE_PORT_REQUEST :: u64 where "KOBJ_TYPE_PORT_REQUEST = 4"
definition KOBJ_TYPE_ADDRESS_SPACE :: u64 where "KOBJ_TYPE_ADDRESS_SPACE = 5"
definition KOBJ_TYPE_PORT_IFCE :: u64 where "KOBJ_TYPE_PORT_IFCE = 6"

lemmas kobj_type_defs = KOBJ_UNALLOCED_def KOBJ_PREALLOCED_def KOBJ_TYPE_PORT_SERVER_REF_def
  KOBJ_TYPE_PORT_CLIENT_REF_def KOBJ_TYPE_PORT_REQUEST_def KOBJ_TYPE_ADDRESS_SPACE_def KOBJ_TYPE_PORT_IFCE_def

definition KOBJ_INIT_SIZE :: u64 where "KOBJ_INIT_SIZE = 64"
definition KOBJECT_SIZE :: u64 where "KOBJECT_SIZE = 24"

definition OK :: u64 where "OK = 0"
definition INVAL :: u64 where "INVAL = 1"
definition NOENT :: u64 where "NOENT = 2"
definition NOMEM :: u64 where "NOMEM = 3"
definition DENIED :: u64 where "DENIED = 4"
definition TIMEDOUT :: u64 where "TIMEDOUT = 5"
definition PORT_REQ_CANCELED :: u64 where "PORT_REQ_CANCELED = 6"
definition PORT_REQ_TOO_LONG :: u64 where "PORT_REQ_TOO_LONG = 7"
definition PORT_NAME_OCCUPIED :: u64 where "PORT_NAME_OCCUPIED = 8"
definition PORT_CLOSED :: u64 where "PORT_CLOSED = 9"

lemmas error_defs = OK_def INVAL_def NOENT_def NOMEM_def DENIED_def TIMEDOUT_def PORT_REQ_CANCELED_def
  PORT_REQ_TOO_LONG_def PORT_NAME_OCCUPIED_def PORT_CLOSED_def

section \<open>Operations\<close>

definition upd_kobj :: "u64 \<times> nat \<Rightarrow> (kobject \<Rightarrow> kobject) \<Rightarrow> 'a proc_state_scheme \<Rightarrow> 'a proc_state_scheme" where
  "upd_kobj obj f s = s\<lparr>kobjs := (kobjs s)(fst obj := (kobjs s (fst obj))(snd obj := f (kobjs s (fst obj) (snd obj))))\<rparr>"

definition kobj_at :: "u64 \<times> nat \<Rightarrow> 'a proc_state_scheme \<Rightarrow> kobject" where
  "kobj_at obj s = kobjs s (fst obj) (snd obj)"

definition kobj_lock :: "u64 \<times> nat \<Rightarrow> lockid" where
  "kobj_lock obj = KobjLock (fst obj) (snd obj)"

text \<open>The zeroed block of a table, and the loop that initialises the locks of its entries.\<close>

definition clear_kobjs :: "u64 \<Rightarrow> 'a proc_state_scheme \<Rightarrow> 'a proc_state_scheme" where
  "clear_kobjs base s = s\<lparr>kobjs := (kobjs s)(base := (\<lambda>_. \<lparr>ko_type = 0, ko_ptr = 0\<rparr>))\<rparr>"

fun kobj_init_locks :: "u64 \<Rightarrow> nat \<Rightarrow> 'a proc_state_scheme \<Rightarrow> 'a proc_state_scheme" where
  "kobj_init_locks base 0 s = s"
| "kobj_init_locks base (Suc n) s = mutex_init (KobjLock base n) (kobj_init_locks base n s)"

text \<open>When the allocation fails \<open>kobject_init\<close> records the error and goes on with the null table.\<close>

definition kobject_init :: "u64 \<Rightarrow> 'a proc_state_scheme \<Rightarrow> (bool \<times> u64 \<times> 'a proc_state_scheme) res" where
  "kobject_init proc s = bind_res (kmem_alloc_zeroed (KOBJ_INIT_SIZE * KOBJECT_SIZE) s) (\<lambda>(k, s). let
     error = (if k = 0 then NOMEM else OK);
     s = upd_proc proc (\<lambda>p. p\<lparr>p_kobjects := k\<rparr>) s;
     s = upd_proc proc (\<lambda>p. p\<lparr>p_kobject_size := KOBJ_INIT_SIZE\<rparr>) s
   in nonnull k (Ok (True, error, kobj_init_locks k (unat KOBJ_INIT_SIZE) (clear_kobjs k s))))"

fun expand_copy :: "u64 \<Rightarrow> u64 \<Rightarrow> nat list \<Rightarrow> 'a proc_state_scheme \<Rightarrow> 'a proc_state_scheme res" where
  "expand_copy old new [] s = Ok s"
| "expand_copy old new (i # is) s =
     bind_res (mutex_acquire (KobjLock old i) s) (\<lambda>s. let
       s = upd_kobj (new, i) (\<lambda>_. kobj_at (old, i) s) s
     in bind_res (mutex_release (KobjLock old i) s) (expand_copy old new is))"

definition expand_kobjects :: "u64 \<Rightarrow> 'a proc_state_scheme \<Rightarrow> (bool \<times> 'a proc_state_scheme) res" where
  "expand_kobjects proc s = (let
     sz = p_kobject_size (procs s proc);
     new_kobject_size = sz * 3 div 2
   in bind_res (kmem_alloc_zeroed (new_kobject_size * KOBJECT_SIZE) s) (\<lambda>(new, s).
     if new = 0 then Ok (False, s)
     else (let old = p_kobjects (procs s proc) in
       bind_res (expand_copy old new [0..<unat sz] (clear_kobjs new s)) (\<lambda>s. let
         s = kobj_init_locks new (unat new_kobject_size) s
       in bind_res (kmem_free old s) (\<lambda>s. let
         s = upd_proc proc (\<lambda>p. p\<lparr>p_kobjects := new\<rparr>) s;
         s = upd_proc proc (\<lambda>p. p\<lparr>p_kobject_size := new_kobject_size\<rparr>) s
       in Ok (True, s))))))"

text \<open>The loop of \<open>kobject_alloc_lock\<close> finds the first free entry.\<close>

definition kobj_first_free :: "u64 \<Rightarrow> 'a proc_state_scheme \<Rightarrow> nat option" where
  "kobj_first_free proc s = find (\<lambda>i. ko_type (kobjs s (p_kobjects (procs s proc)) i) = KOBJ_UNALLOCED)
     [0..<unat (p_kobject_size (procs s proc))]"

text \<open>The entry and the handle; after an expansion the new entry's lock is not taken.\<close>

definition kobject_alloc_lock ::
    "u64 \<Rightarrow> 'a proc_state_scheme \<Rightarrow> (((u64 \<times> nat) \<times> u64) option \<times> 'a proc_state_scheme) res" where
  "kobject_alloc_lock proc s = (case kobj_first_free proc s of
     Some i \<Rightarrow> (let
       ret = (p_kobjects (procs s proc), i);
       s = upd_kobj ret (\<lambda>k. k\<lparr>ko_type := KOBJ_PREALLOCED\<rparr>) s
     in bind_res (mutex_acquire (kobj_lock ret) s) (\<lambda>s. Ok (Some (ret, of_nat i + 1), s)))
   | None \<Rightarrow> (let i = unat (p_kobject_size (procs s proc)) in
       bind_res (expand_kobjects proc s) (\<lambda>(ok, s).
         if \<not> ok then Ok (None, s)
         else (let ret = (p_kobjects (procs s proc), i)
           in Ok (Some (ret, of_nat i + 1), upd_kobj ret (\<lambda>k. k\<lparr>ko_type := KOBJ_PREALLOCED\<rparr>) s)))))"

definition kobject_lock_fetch ::
    "u64 \<Rightarrow> u64 \<Rightarrow> 'a proc_state_scheme \<Rightarrow> ((u64 \<times> nat) option \<times> 'a proc_state_scheme) res" where
  "kobject_lock_fetch proc handler s =
     (if handler = 0 then Ok (None, s)
      else if p_kobject_size (procs s proc) < handler then Ok (None, s)
      else (let ret = (p_kobjects (procs s proc), unat (handler - 1))
        in if ko_type (kobj_at ret s) = KOBJ_UNALLOCED then Ok (None, s)
           else bind_res (mutex_acquire (kobj_lock ret) s) (\<lambda>s. Ok (Some ret, s))))"

definition kobject_free_release :: "u64 \<times> nat \<Rightarrow> 'a proc_state_scheme \<Rightarrow> 'a proc_state_scheme res" where
  "kobject_free_release obj s = (let
     s = upd_kobj obj (\<lambda>k. k\<lparr>ko_type := KOBJ_UNALLOCED\<rparr>) s;
     s = upd_kobj obj (\<lambda>k. k\<lparr>ko_ptr := 0\<rparr>) s
   in mutex_release (kobj_lock obj) s)"

end
