(* ===== verification/K_proc.thy ===== *)
theory K_proc
  imports K_kobj
begin

text \<open>
  \<open>k_proc.c\<close>: process identifiers, creation and destruction of processes, and the start of
  the scheduler (\<open>sched_start\<close>), which creates the idle process.  \<open>process_init\<close> is in the theory
  \<open>K_cpu\<close>.
\<close>

section \<open>Process identifiers\<close>

definition PID_BITMAP_ENTRIES :: nat where "PID_BITMAP_ENTRIES = 32768"
definition PID_BITMAP_SIZE :: nat where "PID_BITMAP_SIZE = PID_BITMAP_ENTRIES div 64"

definition pid_bitmap_set :: "nat \<Rightarrow> (nat \<Rightarrow> u64) \<Rightarrow> nat \<Rightarrow> u64" where
  "pid_bitmap_set pos b = (let idx = pos div 8; off = pos mod 8 in b(idx := b idx OR push_bit off 1))"

definition pid_bitmap_clear :: "nat \<Rightarrow> (nat \<Rightarrow> u64) \<Rightarrow> nat \<Rightarrow> u64" where
  "pid_bitmap_clear pos b = (let idx = pos div 8; off = pos mod 8 in b(idx := b idx AND NOT (push_bit off 1)))"

text \<open>The two loops of \<open>alloc_pid\<close>: the first word that is not full, and its first clear bit.\<close>

definition pid_find :: "(nat \<Rightarrow> u64) \<Rightarrow> (nat \<times> nat) option" where
  "pid_find b = (case find (\<lambda>idx. b idx \<noteq> NOT 0) [0..<PID_BITMAP_SIZE] of
     None \<Rightarrow> None
   | Some idx \<Rightarrow> map_option (Pair idx) (find (\<lambda>off. b idx AND push_bit off 1 = 0) [0..<64]))"

definition alloc_pid :: "'a proc_state_scheme \<Rightarrow> (u64 \<times> 'a proc_state_scheme) res" where
  "alloc_pid s = bind_res (mutex_acquire PidBitmapLock s) (\<lambda>s.
     case pid_find (pid_bitmap s) of
       Some (idx, off) \<Rightarrow> (let
         ret = idx * 8 + off;
         s = s\<lparr>pid_bitmap := pid_bitmap_set ret (pid_bitmap s)\<rparr>
       in bind_res (mutex_release PidBitmapLock s) (\<lambda>s. Ok (of_nat ret + 1, s)))
     | None \<Rightarrow> bind_res (mutex_release PidBitmapLock s) (\<lambda>s. Ok (- 1, s)))"

definition free_pid :: "u64 \<Rightarrow> 'a proc_state_scheme \<Rightarrow> 'a proc_state_scheme res" where
  "free_pid pid s = bind_res (mutex_acquire PidBitmapLock s) (\<lambda>s.
     mutex_release PidBitmapLock (s\<lparr>pid_bitmap := pid_bitmap_clear (unat pid) (pid_bitmap s)\<rparr>))"

section \<open>Creation and destruction\<close>

definition KERNEL_STACK_SIZE :: u64 where "KERNEL_STACK_SIZE = 16384"
definition PROCESS_SIZE :: u64 where "PROCESS_SIZE = 216"

definition simd_alloc_state_area :: "'a proc_state_scheme \<Rightarrow> (u64 \<times> 'a proc_state_scheme) res" where
  "simd_alloc_state_area s = kmem_alloc_aligned (simd_state_size s) (simd_state_alignment s) s"

definition simd_free_state_area :: "u64 \<Rightarrow> 'a proc_state_scheme \<Rightarrow> 'a proc_state_scheme res" where
  "simd_free_state_area state s = kmem_free state s"

text \<open>The assignments at the end of \<open>process_create\<close>.  Fields that are not named keep what the
  block held before: the state, the scheduling data, and the parent of a process that is
  created without one.\<close>

definition process_fill ::
    "u64 \<Rightarrow> u64 \<Rightarrow> u64 \<Rightarrow> u64 \<Rightarrow> u64 \<Rightarrow> 'a proc_state_scheme \<Rightarrow> 'a proc_state_scheme" where
  "process_fill parent ret pid kernel_stack simd_state s = (let
     s = mutex_init (ProcLock ret) s;
     s = upd_proc ret (\<lambda>p. p\<lparr>p_pid := pid, p_retval := 0, p_terminate_flag := False\<rparr>) s;
     s = upd_lists (list_head_init (SchedNode ret)) s;
     s = upd_proc ret (\<lambda>p. p\<lparr>p_simd_state := simd_state,
           p_kernel_stack := kernel_stack + KERNEL_STACK_SIZE - 8, p_address_space := 0\<rparr>) s;
     s = upd_lists (list_head_init (SiblingNode ret)) s;
     s = upd_lists (list_head_init (ChildHead ret)) s;
     s = upd_proc ret (\<lambda>p. p\<lparr>p_exited_child_count := 0\<rparr>) s
   in if parent \<noteq> 0
      then upd_lists (list_insert (SiblingNode ret) (ChildHead parent))
             (upd_proc ret (\<lambda>p. p\<lparr>p_parent := parent\<rparr>) s)
      else s)"

definition process_create :: "u64 \<Rightarrow> 'a proc_state_scheme \<Rightarrow> (u64 \<times> 'a proc_state_scheme) res" where
  "process_create parent s = bind_res (alloc_pid s) (\<lambda>(pid, s).
     if pid = 0 then Ok (0, s) else
     bind_res (kmem_alloc PROCESS_SIZE s) (\<lambda>(ret, s).
     if ret = 0 then bind_res (free_pid pid s) (\<lambda>s. Ok (0, s)) else
     bind_res (kmem_alloc KERNEL_STACK_SIZE s) (\<lambda>(kernel_stack, s).
     if kernel_stack = 0
     then bind_res (kmem_free ret s) (\<lambda>s. bind_res (free_pid pid s) (\<lambda>s. Ok (0, s))) else
     bind_res (simd_alloc_state_area s) (\<lambda>(simd_state, s).
     if simd_state = 0
     then bind_res (kmem_free kernel_stack s) (\<lambda>s. bind_res (kmem_free ret s) (\<lambda>s. Ok (0, s))) else
     bind_res (kobject_init ret s) (\<lambda>(ok, error, s).
     if \<not> ok
     then bind_res (simd_free_state_area simd_state s) (\<lambda>s.
          bind_res (kmem_free kernel_stack s) (\<lambda>s.
          bind_res (kmem_free ret s) (\<lambda>s.
          bind_res (free_pid pid s) (\<lambda>s. Ok (0, s)))))
     else Ok (ret, process_fill parent ret pid kernel_stack simd_state s))))))"

definition process_destroy :: "u64 \<Rightarrow> 'a proc_state_scheme \<Rightarrow> 'a proc_state_scheme res" where
  "process_destroy process s = (let
     s = upd_lists (list_remove (SiblingNode process)) s;
     as = p_address_space (procs s process)
   in bind_res
       (if as \<noteq> 0
        then (let s = s\<lparr>as_ref_count := (as_ref_count s)(as := as_ref_count s as - 1)\<rparr>
          in if as_ref_count s as = 0 then vm_address_space_destroy as s else Ok s)
        else Ok s) (\<lambda>s.
     bind_res (kmem_free (p_kernel_stack (procs s process) - KERNEL_STACK_SIZE + 8) s) (\<lambda>s.
     bind_res (simd_free_state_area (p_simd_state (procs s process)) s) (\<lambda>s.
     bind_res (free_pid (p_pid (procs s process)) s) (\<lambda>s.
     kmem_free process s)))))"

definition process_raise_exception :: "u64 \<Rightarrow> 'a proc_state_scheme \<Rightarrow> 'a proc_state_scheme" where
  "process_raise_exception process s = process_terminate process s"

section \<open>Starting the scheduler\<close>

text \<open>\<open>sched_start\<close> up to the idle loop, which enables interrupts and halts for ever.\<close>

definition sched_start :: "'a proc_state_scheme \<Rightarrow> 'a proc_state_scheme res" where
  "sched_start s = bind_res (process_create 0 s) (\<lambda>(idle, s). nonnull idle (let
     s = upd_proc idle (\<lambda>p. p\<lparr>p_address_space := p_address_space (procs s (kernel_proc s)),
           p_class := SCHED_CLASS_IDLE, p_priority := 0\<rparr>) s
   in bind_res (set_quantum idle s) (\<lambda>s. let
     s = upd_proc idle (\<lambda>p. p\<lparr>p_state := PROCESS_STATE_READY\<rparr>) s;
     c = smp_current_cpu_id s
   in bind_res (spin_lock (QueueLock c) s) (\<lambda>(flag, s). let
     s = upd_lists (list_insert (SchedNode idle) (ReadyHead c 0)) s
   in bind_res (process_load_context idle s) (\<lambda>s.
      bind_res (spin_unlock (QueueLock c) flag s) (\<lambda>s.
      bind_res (timer_set_timeout 10 (sched_tick_addr s) 0 s) (\<lambda>s.
      Ok (s\<lparr>cpu := interrupt_enable_preemption (cpu s)\<rparr>))))))))"

end
