(* ===== verification/K_port.thy ===== *)
theory K_port
  imports K_proc
begin

text \<open>
  \<open>k_port.c\<close>: named ports, the hash table of their names, and the request protocol between
  clients and servers.  The request of a client lies 16 bytes into its reference.  Operations
  that wait take the rest of the system as an argument, as in the theory \<open>K_switch\<close>.
\<close>

definition PORT_NAME_MAX_LEN :: u64 where "PORT_NAME_MAX_LEN = 128"
definition PORT_HASH_INIT_CAP :: u64 where "PORT_HASH_INIT_CAP = 32"
definition PORT_HASH_LOAD_FACTOR :: u64 where "PORT_HASH_LOAD_FACTOR = 75"

text \<open>Sizes of a list node, a table entry, a port, and the two kinds of references.\<close>

definition LIST_NODE_SIZE :: u64 where "LIST_NODE_SIZE = 16"
definition PORT_HASH_ENTRY_SIZE :: u64 where "PORT_HASH_ENTRY_SIZE = 32"
definition PORT_SIZE :: u64 where "PORT_SIZE = 56"
definition SERVER_REF_SIZE :: u64 where "SERVER_REF_SIZE = 40"
definition CLIENT_REF_SIZE :: u64 where "CLIENT_REF_SIZE = 80"

definition client_req :: "u64 \<Rightarrow> u64" where "client_req ref = ref + 16"

definition upd_port :: "u64 \<Rightarrow> (port_t \<Rightarrow> port_t) \<Rightarrow> 'a proc_state_scheme \<Rightarrow> 'a proc_state_scheme" where
  "upd_port p f s = s\<lparr>ports := (ports s)(p := f (ports s p))\<rparr>"

definition upd_server :: "u64 \<Rightarrow> (port_server_ref_t \<Rightarrow> port_server_ref_t) \<Rightarrow> 'a proc_state_scheme \<Rightarrow> 'a proc_state_scheme" where
  "upd_server p f s = s\<lparr>server_refs := (server_refs s)(p := f (server_refs s p))\<rparr>"

definition upd_client :: "u64 \<Rightarrow> (port_client_ref_t \<Rightarrow> port_client_ref_t) \<Rightarrow> 'a proc_state_scheme \<Rightarrow> 'a proc_state_scheme" where
  "upd_client p f s = s\<lparr>client_refs := (client_refs s)(p := f (client_refs s p))\<rparr>"

definition upd_req :: "u64 \<Rightarrow> (port_request_t \<Rightarrow> port_request_t) \<Rightarrow> 'a proc_state_scheme \<Rightarrow> 'a proc_state_scheme" where
  "upd_req p f s = s\<lparr>requests := (requests s)(p := f (requests s p))\<rparr>"

definition zero_req :: port_request_t where
  "zero_req = \<lparr>rq_sender = 0, rq_val_small = 0, rq_data_sender_vaddr = 0, rq_data_size = 0,
     rq_retval_sender_vaddr = 0, rq_retval_size = 0, rq_finished = False, rq_error = 0\<rparr>"

section \<open>The table of names\<close>

fun port_hash_init_loop :: "u64 \<Rightarrow> nat \<Rightarrow> lnode list_heap \<Rightarrow> lnode list_heap" where
  "port_hash_init_loop t 0 h = h"
| "port_hash_init_loop t (Suc n) h = list_head_init (PortHashHead t n) (port_hash_init_loop t n h)"

definition port_hash_init :: "'a proc_state_scheme \<Rightarrow> 'a proc_state_scheme res" where
  "port_hash_init s = bind_res (kmem_alloc (PORT_HASH_INIT_CAP * LIST_NODE_SIZE) s) (\<lambda>(t, s). let
     s = s\<lparr>port_hash := t\<rparr>
   in verify (t \<noteq> 0) ''failed to alloc port hashmap'' (let
     s = upd_lists (port_hash_init_loop t (unat PORT_HASH_INIT_CAP)) s;
     s = s\<lparr>hash_capacity := PORT_HASH_INIT_CAP, hash_size := 0\<rparr>
   in Ok (mutex_init PortHashLock s)))"

text \<open>The index is computed in 64 bits and kept in 32.\<close>

definition port_hash_idx :: "u64 \<Rightarrow> 'a proc_state_scheme \<Rightarrow> nat res" where
  "port_hash_idx key s =
     (if hash_capacity s = 0 then Fail DivZero
      else Ok (unat (ucast (kstr_hash key (kstrlen PORT_NAME_MAX_LEN key (kmem s)) (kmem s) mod hash_capacity s) :: u32)))"

definition port_hash_do_insert :: "u64 \<Rightarrow> 'a proc_state_scheme \<Rightarrow> 'a proc_state_scheme res" where
  "port_hash_do_insert entry s = bind_res (port_hash_idx (he_key (hash_entries s entry)) s) (\<lambda>idx.
     Ok (upd_lists (list_insert (PortHashNode entry) (PortHashHead (port_hash s) idx)) s))"

fun hash_node_entry :: "lnode \<Rightarrow> u64" where
  "hash_node_entry (PortHashNode e) = e"
| "hash_node_entry _ = 0"

partial_function (option) port_locate_loop :: "u64 \<Rightarrow> lnode \<Rightarrow> lnode \<Rightarrow> 'a proc_state_scheme \<Rightarrow> u64 res option" where
  "port_locate_loop key hn p s =
     (if p = hn then Some (Ok 0)
      else if kstrequ PORT_NAME_MAX_LEN key (he_key (hash_entries s (hash_node_entry p))) (kmem s)
      then Some (Ok (hash_node_entry p))
      else port_locate_loop key hn (lnext (lists s) p) s)"

definition port_hash_do_locate :: "u64 \<Rightarrow> u64 \<Rightarrow> 'a proc_state_scheme \<Rightarrow> u64 res" where
  "port_hash_do_locate key keylen s =
     (if keylen \<ge> PORT_NAME_MAX_LEN then Ok 0
      else bind_res (port_hash_idx key s) (\<lambda>idx. let hn = PortHashHead (port_hash s) idx
        in ends (port_locate_loop key hn (lnext (lists s) hn) s)))"

partial_function (option) port_rehash_loop ::
    "lnode \<Rightarrow> lnode \<Rightarrow> lnode \<Rightarrow> 'a proc_state_scheme \<Rightarrow> 'a proc_state_scheme res option" where
  "port_rehash_loop slot p nxt s =
     (if p = slot then Some (Ok s)
      else case port_hash_do_insert (hash_node_entry p) (upd_lists (list_remove p) s) of
          Fail e \<Rightarrow> Some (Fail e)
        | Ok s \<Rightarrow> port_rehash_loop slot nxt (lnext (lists s) nxt) s)"

definition port_hash_rehash_slot :: "lnode \<Rightarrow> 'a proc_state_scheme \<Rightarrow> 'a proc_state_scheme res" where
  "port_hash_rehash_slot slot s = (let p = lnext (lists s) slot
     in ends (port_rehash_loop slot p (lnext (lists s) p) s))"

fun port_rehash_slots :: "u64 \<Rightarrow> nat list \<Rightarrow> 'a proc_state_scheme \<Rightarrow> 'a proc_state_scheme res" where
  "port_rehash_slots t [] s = Ok s"
| "port_rehash_slots t (i # is) s =
     bind_res (port_hash_rehash_slot (PortHashHead t i) s) (port_rehash_slots t is)"

text \<open>The new table is initialised, but \<open>port_hash\<close> goes on pointing to the old one.\<close>

definition port_hash_rehash :: "'a proc_state_scheme \<Rightarrow> (u64 \<times> 'a proc_state_scheme) res" where
  "port_hash_rehash s = (let
     old = port_hash s;
     new_hash_cap = hash_capacity s * 3 div 2
   in bind_res (kmem_alloc (new_hash_cap * LIST_NODE_SIZE) s) (\<lambda>(new, s).
     if new = 0 then Ok (NOMEM, s)
     else (let
       s = upd_lists (port_hash_init_loop new (unat new_hash_cap)) s;
       old_hash_cap = hash_capacity s;
       s = s\<lparr>hash_capacity := new_hash_cap\<rparr>
     in bind_res (port_rehash_slots old [0..<unat old_hash_cap] s) (\<lambda>s. Ok (OK, s)))))"

text \<open>The result is the error code; \<open>OK\<close> is 0.\<close>

definition port_hash_insert ::
    "u64 \<Rightarrow> u64 \<Rightarrow> u64 \<Rightarrow> 'a proc_state_scheme \<Rightarrow> (u64 \<times> 'a proc_state_scheme) res" where
  "port_hash_insert name namelen val s = bind_res (kmem_alloc PORT_HASH_ENTRY_SIZE s) (\<lambda>(entry, s).
     if entry = 0 then Ok (NOMEM, s) else
     bind_res (kmem_alloc (namelen + 1) s) (\<lambda>(key, s). let
       s = s\<lparr>hash_entries := (hash_entries s)(entry := (hash_entries s entry)\<lparr>he_key := key\<rparr>)\<rparr>
     in if key = 0 then bind_res (kmem_free entry s) (\<lambda>s. Ok (NOMEM, s)) else (let
       s = s\<lparr>kmem := kmemcpy key name namelen (kmem s)\<rparr>;
       s = s\<lparr>kmem := (kmem s)(key + namelen := 0)\<rparr>;
       s = s\<lparr>hash_entries := (hash_entries s)(entry := (hash_entries s entry)\<lparr>he_val := val\<rparr>)\<rparr>;
       discard = (\<lambda>error s. bind_res (mutex_release PortHashLock s) (\<lambda>s.
         bind_res (kmem_free key s) (\<lambda>s. bind_res (kmem_free entry s) (\<lambda>s. Ok (error, s)))))
     in bind_res (mutex_acquire PortHashLock s) (\<lambda>s.
        bind_res (port_hash_do_locate name namelen s) (\<lambda>e.
          if e \<noteq> 0 then discard PORT_NAME_OCCUPIED s
          else bind_res
            (if hash_size s * 100 div hash_capacity s \<ge> PORT_HASH_LOAD_FACTOR
             then port_hash_rehash s else Ok (OK, s)) (\<lambda>(rehash_err, s).
            if rehash_err \<noteq> OK then discard rehash_err s
            else bind_res (port_hash_do_insert entry (s\<lparr>hash_size := hash_size s + 1\<rparr>)) (\<lambda>s.
              bind_res (mutex_release PortHashLock s) (\<lambda>s. Ok (OK, s)))))))))"

definition port_hash_remove :: "u64 \<Rightarrow> u64 \<Rightarrow> 'a proc_state_scheme \<Rightarrow> (u64 \<times> 'a proc_state_scheme) res" where
  "port_hash_remove name namelen s = bind_res (mutex_acquire PortHashLock s) (\<lambda>s.
     bind_res (port_hash_do_locate name namelen s) (\<lambda>entry.
       if entry = 0 then bind_res (mutex_release PortHashLock s) (\<lambda>s. Ok (0, s))
       else bind_res (mutex_release PortHashLock (upd_lists (list_remove (PortHashNode entry)) s)) (\<lambda>s. let
         ret = he_val (hash_entries s entry)
       in bind_res (kmem_free (he_key (hash_entries s entry)) s) (\<lambda>s.
          bind_res (kmem_free entry s) (\<lambda>s. Ok (ret, s))))))"

definition port_hash_fetch :: "u64 \<Rightarrow> u64 \<Rightarrow> 'a proc_state_scheme \<Rightarrow> (u64 \<times> 'a proc_state_scheme) res" where
  "port_hash_fetch name namelen s = bind_res (mutex_acquire PortHashLock s) (\<lambda>s.
     bind_res (port_hash_do_locate name namelen s) (\<lambda>entry.
     bind_res (mutex_release PortHashLock s) (\<lambda>s.
       Ok (if entry \<noteq> 0 then he_val (hash_entries s entry) else 0, s))))"

definition port_hash_fetch_inc_rc :: "u64 \<Rightarrow> u64 \<Rightarrow> 'a proc_state_scheme \<Rightarrow> (u64 \<times> 'a proc_state_scheme) res" where
  "port_hash_fetch_inc_rc name namelen s = bind_res (mutex_acquire PortHashLock s) (\<lambda>s.
     bind_res (port_hash_do_locate name namelen s) (\<lambda>entry. let
       s = (if entry \<noteq> 0 then upd_port (he_val (hash_entries s entry)) (\<lambda>p. p\<lparr>po_ref_count := po_ref_count p + 1\<rparr>) s else s)
     in bind_res (mutex_release PortHashLock s) (\<lambda>s.
       Ok (if entry \<noteq> 0 then he_val (hash_entries s entry) else 0, s))))"

definition port_init :: "'a proc_state_scheme \<Rightarrow> 'a proc_state_scheme res" where
  "port_init s = port_hash_init s"

section \<open>Creating, opening and closing ports\<close>

definition zero_port :: port_t where
  "zero_port = \<lparr>po_name = 0, po_ref_count = 0, po_server_ref_count = 0, po_waiting_server_count = 0\<rparr>"

text \<open>The result is the reference (0 on failure) and the error code.\<close>

definition port_create ::
    "u64 \<Rightarrow> u64 \<Rightarrow> 'a proc_state_scheme \<Rightarrow> (u64 \<times> u64 \<times> 'a proc_state_scheme) res" where
  "port_create name namelen s = bind_res (port_hash_fetch name namelen s) (\<lambda>(old, s).
     if old \<noteq> 0 then Ok (0, PORT_NAME_OCCUPIED, s) else
     bind_res (kmem_alloc_zeroed SERVER_REF_SIZE s) (\<lambda>(ref, s).
     if ref = 0 then Ok (0, NOMEM, s) else
     let s = upd_server ref (\<lambda>_. \<lparr>sr_port = 0, sr_holder = 0, sr_req = 0\<rparr>) s in
     bind_res (kmem_alloc_zeroed PORT_SIZE s) (\<lambda>(port, s).
     if port = 0 then bind_res (kmem_free ref s) (\<lambda>s. Ok (0, NOMEM, s)) else
     let s = upd_port port (\<lambda>_. zero_port) s in
     bind_res (kmem_alloc (namelen + 1) s) (\<lambda>(nm, s). let
       s = upd_port port (\<lambda>p. p\<lparr>po_name := nm\<rparr>) s
     in if nm = 0
     then bind_res (kmem_free port s) (\<lambda>s. bind_res (kmem_free ref s) (\<lambda>s. Ok (0, NOMEM, s)))
     else (let
       s = upd_server ref (\<lambda>r. r\<lparr>sr_port := port, sr_holder := current_process s\<rparr>) s;
       s = s\<lparr>kmem := kmemcpy nm name namelen (kmem s)\<rparr>;
       s = s\<lparr>kmem := (kmem s)(nm + namelen := 0)\<rparr>;
       s = upd_port port (\<lambda>p. p\<lparr>po_ref_count := 1, po_server_ref_count := 1\<rparr>) s;
       s = mutex_init (PortLock port) s;
       s = upd_lists (list_head_init (ServerQueue port)) s
     in bind_res (port_hash_insert name namelen port s) (\<lambda>(insert_error, s).
        if insert_error \<noteq> OK
        then bind_res (kmem_free (po_name (ports s port)) s) (\<lambda>s.
             bind_res (kmem_free port s) (\<lambda>s.
             bind_res (kmem_free ref s) (\<lambda>s. Ok (0, insert_error, s))))
        else Ok (ref, OK, s)))))))"

definition port_free :: "u64 \<Rightarrow> 'a proc_state_scheme \<Rightarrow> 'a proc_state_scheme res" where
  "port_free port s = bind_res (kmem_free (po_name (ports s port)) s) (kmem_free port)"

fun server_node_ref :: "lnode \<Rightarrow> u64" where
  "server_node_ref (ServerNode r) = r"
| "server_node_ref _ = 0"

definition port_dequeue_server :: "u64 \<Rightarrow> 'a proc_state_scheme \<Rightarrow> u64 \<times> 'a proc_state_scheme" where
  "port_dequeue_server port s =
     (if list_is_empty (ServerQueue port) (lists s) then (0, s)
      else (let server = lnext (lists s) (ServerQueue port)
        in (server_node_ref server, upd_lists (list_remove server) s)))"

definition port_send_request :: "u64 \<Rightarrow> u64 \<Rightarrow> 'a proc_state_scheme \<Rightarrow> 'a proc_state_scheme res" where
  "port_send_request server req s =
     futex_kwake (WServerReq server) 1 (upd_server server (\<lambda>r. r\<lparr>sr_req := req\<rparr>) s)"

definition port_open ::
    "u64 \<Rightarrow> u64 \<Rightarrow> 'a proc_state_scheme \<Rightarrow> (u64 \<times> u64 \<times> 'a proc_state_scheme) res" where
  "port_open name namelen s = bind_res (kmem_alloc_zeroed CLIENT_REF_SIZE s) (\<lambda>(ref, s).
     if ref = 0 then Ok (0, NOMEM, s) else (let
       s = upd_client ref (\<lambda>_. \<lparr>cr_port = 0, cr_holder = 0\<rparr>) s;
       s = upd_req (client_req ref) (\<lambda>_. zero_req) s;
       s = upd_client ref (\<lambda>r. r\<lparr>cr_holder := current_process s\<rparr>) s
     in bind_res (port_hash_fetch_inc_rc name namelen s) (\<lambda>(port, s).
       if port = 0 then bind_res (kmem_free ref s) (\<lambda>s. Ok (0, NOENT, s))
       else (let
         s = upd_client ref (\<lambda>r. r\<lparr>cr_port := port\<rparr>) s;
         s = upd_req (client_req ref) (\<lambda>_. zero_req) s
       in Ok (ref, OK, s)))))"

text \<open>A request is finished: its flag is set and a process that waits for it is woken.\<close>

definition finish_request :: "u64 \<Rightarrow> 'a proc_state_scheme \<Rightarrow> 'a proc_state_scheme res" where
  "finish_request req s = futex_kwake (WReqFinished req) 1 (upd_req req (\<lambda>r. r\<lparr>rq_finished := True\<rparr>) s)"

definition port_server_close :: "u64 \<Rightarrow> 'a proc_state_scheme \<Rightarrow> 'a proc_state_scheme res" where
  "port_server_close ref s = nonnull ref (bind_res
     (if sr_req (server_refs s ref) \<noteq> 0
      then (let
        req = sr_req (server_refs s ref);
        s = upd_server ref (\<lambda>r. r\<lparr>sr_req := 0\<rparr>) s;
        s = upd_req req (\<lambda>r. r\<lparr>rq_error := PORT_REQ_CANCELED\<rparr>) s
      in bind_res (finish_request req s) (\<lambda>s. Ok (upd_server ref (\<lambda>r. r\<lparr>sr_req := 0\<rparr>) s)))
      else Ok s) (\<lambda>s. let
     port = sr_port (server_refs s ref);
     s = upd_port port (\<lambda>p. p\<lparr>po_server_ref_count := po_server_ref_count p - 1\<rparr>) s;
     recv_rc = po_server_ref_count (ports s port);
     s = upd_port port (\<lambda>p. p\<lparr>po_ref_count := po_ref_count p - 1\<rparr>) s;
     rc = po_ref_count (ports s port)
   in bind_res
     (if recv_rc = 0
      then bind_res (port_hash_remove (po_name (ports s port))
             (kstrlen PORT_NAME_MAX_LEN (po_name (ports s port)) (kmem s)) s) (\<lambda>(_, s).
           futex_kwake (WPortWaiting port) FUTEX_WAKE_ALL s)
      else Ok s) (\<lambda>s.
     if rc = 0 then port_free port s else kmem_free ref s)))"

definition port_client_close :: "u64 \<Rightarrow> 'a proc_state_scheme \<Rightarrow> 'a proc_state_scheme res" where
  "port_client_close ref s = kmem_free ref s"

section \<open>Requests\<close>

text \<open>The loop of \<open>port_request\<close>: the server that was dequeued, with the port's lock held, or 0
  when the port has no servers left.\<close>

partial_function (option) port_request_loop ::
    "('a proc_state_scheme \<Rightarrow> 'a proc_state_scheme res) \<Rightarrow> u64 \<Rightarrow>
     'a proc_state_scheme \<Rightarrow> (u64 \<times> 'a proc_state_scheme) res option" where
  "port_request_loop env ref s =
     (if po_server_ref_count (ports s (cr_port (client_refs s ref))) = 0 then Some (Ok (0, s))
      else case bind_res
          (if po_waiting_server_count (ports s (cr_port (client_refs s ref))) = 0
           then futex_kwait env (WPortWaiting (cr_port (client_refs s ref))) 0 s else Ok s) (\<lambda>s.
          bind_res (mutex_acquire (PortLock (cr_port (client_refs s ref))) s) (\<lambda>s. let
            (serv, s) = port_dequeue_server (cr_port (client_refs s ref)) s
          in if serv \<noteq> 0 then Ok (serv, s)
             else bind_res (mutex_release (PortLock (cr_port (client_refs s ref))) s) (\<lambda>s. Ok (0, s)))) of
          Fail e \<Rightarrow> Some (Fail e)
        | Ok (serv, s) \<Rightarrow> if serv \<noteq> 0 then Some (Ok (serv, s)) else port_request_loop env ref s)"

text \<open>The end of \<open>port_request\<close>, after the first wait: if the server's request word is not empty
  the exchange has withdrawn the request.\<close>

definition port_request_finish ::
    "('a proc_state_scheme \<Rightarrow> 'a proc_state_scheme res) \<Rightarrow> u64 \<Rightarrow> u64 \<Rightarrow>
     'a proc_state_scheme \<Rightarrow> (u64 \<times> 'a proc_state_scheme) res" where
  "port_request_finish env ref serv s = (let
     pending = sr_req (server_refs s serv);
     s = upd_server serv (\<lambda>r. r\<lparr>sr_req := 0\<rparr>) s
   in if pending \<noteq> 0 then Ok (TIMEDOUT, s)
      else bind_res (futex_kwait env (WReqFinished (client_req ref)) 0 s) (\<lambda>s.
        Ok (rq_error (requests s (client_req ref)), s)))"

text \<open>The result is the error code.\<close>

definition port_request ::
    "('a proc_state_scheme \<Rightarrow> 'a proc_state_scheme res) \<Rightarrow> u64 \<Rightarrow>
     'a proc_state_scheme \<Rightarrow> (u64 \<times> 'a proc_state_scheme) res" where
  "port_request env ref s = bind_res (ends (port_request_loop env ref s)) (\<lambda>(serv, s).
     if serv = 0 then Ok (PORT_CLOSED, s) else
     bind_res (port_send_request serv (client_req ref) s) (\<lambda>s.
     bind_res (mutex_release (PortLock (cr_port (client_refs s ref))) s) (\<lambda>s.
     bind_res (if \<not> rq_finished (requests s (client_req ref))
               then futex_kwait env (WReqFinished (client_req ref)) 0 s else Ok s)
       (port_request_finish env ref serv))))"

text \<open>The holder of the sender of a request; the copies go between its address space and the
  current one.\<close>

definition req_holder :: "u64 \<Rightarrow> 'a proc_state_scheme \<Rightarrow> u64" where
  "req_holder req s = cr_holder (client_refs s (rq_sender (requests s req)))"

definition CURRENT_ADDRESS_SPACE :: "'a proc_state_scheme \<Rightarrow> u64" where
  "CURRENT_ADDRESS_SPACE s = p_address_space (procs s (current_process s))"

text \<open>\<open>process_raise_exception\<close> on a process, with the lock of another one held in the last case
  of \<open>port_receive\<close>.\<close>

definition raise_locked :: "u64 \<Rightarrow> u64 \<Rightarrow> 'a proc_state_scheme \<Rightarrow> 'a proc_state_scheme res" where
  "raise_locked lck process s = bind_res (mutex_acquire (ProcLock lck) s) (\<lambda>s.
     mutex_release (ProcLock lck) (process_raise_exception process s))"

definition port_receive_copy :: "u64 \<Rightarrow> u64 \<Rightarrow> u64 \<Rightarrow> 'a proc_state_scheme \<Rightarrow> 'a proc_state_scheme res" where
  "port_receive_copy ref ret buf s =
     (if rq_data_sender_vaddr (requests s ret) = 0 then Ok s
      else bind_res (user_memory_copy (CURRENT_ADDRESS_SPACE s) buf
          (p_address_space (procs s (req_holder ret s)))
          (rq_data_sender_vaddr (requests s ret)) (rq_data_size (requests s ret)) s) (\<lambda>(copy_ret, s).
        if copy_ret = 0 then Ok s
        else (let s = upd_server ref (\<lambda>r. r\<lparr>sr_req := 0\<rparr>) s
          in if copy_ret = 1 then raise_locked (req_holder ret s) (req_holder ret s) s
             else raise_locked (current_process s) (req_holder ret s) s)))"

text \<open>One turn of the loop of \<open>port_receive\<close> up to the test of the length; the result says
  whether the request is refused.\<close>

definition port_receive_turn ::
    "('a proc_state_scheme \<Rightarrow> 'a proc_state_scheme res) \<Rightarrow> u64 \<Rightarrow> u64 \<Rightarrow>
     'a proc_state_scheme \<Rightarrow> (bool \<times> u64 \<times> 'a proc_state_scheme) res" where
  "port_receive_turn env ref buflen s = (let port = sr_port (server_refs s ref) in
     bind_res (mutex_acquire (PortLock port) s) (\<lambda>s. let
       s = upd_port port (\<lambda>p. p\<lparr>po_waiting_server_count := po_waiting_server_count p + 1\<rparr>) s;
       s = upd_lists (list_insert (ServerNode ref) (lprev (lists s) (ServerQueue port))) s
     in bind_res (mutex_release (PortLock port) s) (\<lambda>s.
     bind_res (futex_kwake (WPortWaiting port) 1 s) (\<lambda>s.
     bind_res (if sr_req (server_refs s ref) = 0 then futex_kwait env (WServerReq ref) 0 s else Ok s) (\<lambda>s. let
       ret = sr_req (server_refs s ref)
     in nonnull ret (
       if rq_data_size (requests s ret) > buflen
       then (let
         s = upd_req ret (\<lambda>r. r\<lparr>rq_error := PORT_REQ_TOO_LONG\<rparr>) s;
         s = upd_server ref (\<lambda>r. r\<lparr>sr_req := 0\<rparr>) s
       in bind_res (finish_request ret s) (\<lambda>s. Ok (True, ret, s)))
       else Ok (False, ret, s)))))))"

partial_function (option) port_receive_loop ::
    "('a proc_state_scheme \<Rightarrow> 'a proc_state_scheme res) \<Rightarrow> u64 \<Rightarrow> u64 \<Rightarrow>
     'a proc_state_scheme \<Rightarrow> (u64 \<times> 'a proc_state_scheme) res option" where
  "port_receive_loop env ref buflen s = (case port_receive_turn env ref buflen s of
       Fail e \<Rightarrow> Some (Fail e)
     | Ok (refused, ret, s) \<Rightarrow> if refused then port_receive_loop env ref buflen s else Some (Ok (ret, s)))"

definition port_receive ::
    "('a proc_state_scheme \<Rightarrow> 'a proc_state_scheme res) \<Rightarrow> u64 \<Rightarrow> u64 \<Rightarrow> u64 \<Rightarrow>
     'a proc_state_scheme \<Rightarrow> (u64 \<times> 'a proc_state_scheme) res" where
  "port_receive env ref buf buflen s = bind_res (ends (port_receive_loop env ref buflen s)) (\<lambda>(ret, s).
     bind_res (port_receive_copy ref ret buf s) (\<lambda>s. Ok (ret, s)))"

definition port_response ::
    "u64 \<Rightarrow> u64 \<Rightarrow> u64 \<Rightarrow> u64 \<Rightarrow> 'a proc_state_scheme \<Rightarrow> (u64 \<times> 'a proc_state_scheme) res" where
  "port_response ref retval_small retval retval_size s = nonnull ref (let
     req = sr_req (server_refs s ref);
     s = upd_server ref (\<lambda>r. r\<lparr>sr_req := 0\<rparr>) s
   in if req = 0 then Ok (PORT_REQ_CANCELED, s) else (let
     s = upd_req req (\<lambda>r. r\<lparr>rq_val_small := retval_small\<rparr>) s;
     finish = (\<lambda>s. bind_res (finish_request req s) (\<lambda>s. Ok (OK, s)))
   in if retval = 0 then finish s
      else if retval_size > rq_retval_size (requests s req) then Ok (INVAL, s)
      else bind_res (user_memory_copy (p_address_space (procs s (req_holder req s)))
          (rq_retval_sender_vaddr (requests s req)) (CURRENT_ADDRESS_SPACE s) retval retval_size s) (\<lambda>(copy_ret, s).
        if copy_ret = 0 then finish s
        else if copy_ret = 1
        then bind_res (raise_locked (req_holder req s) (req_holder req s) s) (\<lambda>s. Ok (PORT_REQ_CANCELED, s))
        else bind_res (raise_locked (current_process s) (current_process s) s) (\<lambda>s. Ok (OK, s)))))"

end
