(* ===== verification/K_port_ifce.thy ===== *)
theory K_port_ifce
  imports K_port
begin

text \<open>
  \<open>k_port_ifce.c\<close>: interfaces of the kernel that are opened and called like ports.  They are kept
  in an open hash table of 512 pointers.  A function pointer of an interface is the family it
  belongs to.  The addresses of the two string literals are fields of the state; what
  \<open>kprintf\<close> writes is appended to \<open>con_out\<close>.
\<close>

datatype ifce_fn = DebugPrint | SetFs

record port_ifce_t =
  if_name :: u64
  if_open_func :: ifce_fn
  if_req_func :: ifce_fn
  if_close_func :: ifce_fn

record ifce_state = proc_state +
  port_ifces :: "u64 \<Rightarrow> port_ifce_t"
  str_debug_print :: u64
  str_setfsbase :: u64
  con_out :: "u8 list"

definition PORT_IFCE_HASH_SIZE :: nat where "PORT_IFCE_HASH_SIZE = 512"
definition PORT_IFCE_SIZE :: u64 where "PORT_IFCE_SIZE = 32"

section \<open>The table\<close>

text \<open>The \<open>do\<close> loops visit the slots from the one of the hash around the table, each once.\<close>

definition ifce_slots :: "u64 \<Rightarrow> 'a ifce_state_scheme \<Rightarrow> nat list" where
  "ifce_slots name s = (let
     hash = kstr_hash name (kstrlen PORT_NAME_MAX_LEN name (kmem s)) (kmem s)
   in map (\<lambda>k. (unat hash mod PORT_IFCE_HASH_SIZE + k) mod PORT_IFCE_HASH_SIZE) [0..<PORT_IFCE_HASH_SIZE])"

fun ifce_insert_loop :: "u64 \<Rightarrow> nat list \<Rightarrow> 'a ifce_state_scheme \<Rightarrow> 'a ifce_state_scheme res" where
  "ifce_insert_loop ifce [] s = Fail (Panic ''failed to create port-like interface'')"
| "ifce_insert_loop ifce (i # is) s =
     (if port_ifce_hash s i = 0 then Ok (s\<lparr>port_ifce_hash := (port_ifce_hash s)(i := ifce)\<rparr>)
      else ifce_insert_loop ifce is s)"

definition port_ifce_hash_insert :: "u64 \<Rightarrow> 'a ifce_state_scheme \<Rightarrow> 'a ifce_state_scheme res" where
  "port_ifce_hash_insert ifce s = ifce_insert_loop ifce (ifce_slots (if_name (port_ifces s ifce)) s) s"

fun ifce_locate_loop :: "u64 \<Rightarrow> nat list \<Rightarrow> 'a ifce_state_scheme \<Rightarrow> u64" where
  "ifce_locate_loop name [] s = 0"
| "ifce_locate_loop name (i # is) s = (let ret = port_ifce_hash s i in
     if ret = 0 then 0
     else if kstrequ PORT_NAME_MAX_LEN (if_name (port_ifces s ret)) name (kmem s) then ret
     else ifce_locate_loop name is s)"

definition port_ifce_hash_locate :: "u64 \<Rightarrow> 'a ifce_state_scheme \<Rightarrow> u64" where
  "port_ifce_hash_locate name s = ifce_locate_loop name (ifce_slots name s) s"

definition port_ifce_create :: "u64 \<Rightarrow> 'a ifce_state_scheme \<Rightarrow> 'a ifce_state_scheme res" where
  "port_ifce_create ifce s = port_ifce_hash_insert ifce s"

definition port_ifce_lookup :: "u64 \<Rightarrow> 'a ifce_state_scheme \<Rightarrow> u64" where
  "port_ifce_lookup name s = port_ifce_hash_locate name s"

section \<open>The interfaces\<close>

text \<open>Memory the kernel reads through a user pointer: the walk of the processor, with a page
  fault where the page is not present.\<close>

fun user_bytes :: "u64 \<Rightarrow> nat \<Rightarrow> 'a vm_state_scheme \<Rightarrow> u8 list res" where
  "user_bytes va 0 s = Ok []"
| "user_bytes va (Suc n) s = (case get_pde_by_vma (cr3 s) va s of
     None \<Rightarrow> Fail PageFault
   | Some pde \<Rightarrow> if e_present (rd64 (phys s) pde) = 0 then Fail PageFault
       else bind_res (user_bytes (va + 1) n s) (\<lambda>bs. Ok (phys s (vm_get_pma_by_vma (cr3 s) va s) # bs)))"

definition port_ifce_debug_print_open :: "'a ifce_state_scheme \<Rightarrow> (u64 \<times> 'a ifce_state_scheme) res" where
  "port_ifce_debug_print_open s = Ok (OK, s)"

definition port_ifce_debug_print_request ::
    "u64 \<Rightarrow> u64 \<Rightarrow> u64 \<Rightarrow> u64 \<Rightarrow> u64 \<Rightarrow> 'a ifce_state_scheme \<Rightarrow> (u64 \<times> 'a ifce_state_scheme) res" where
  "port_ifce_debug_print_request val_small data data_size reply reply_size s =
     bind_res (user_bytes data (unat data_size) s) (\<lambda>bs. Ok (OK, s\<lparr>con_out := con_out s @ bs\<rparr>))"

definition port_ifce_debug_print_close :: "'a ifce_state_scheme \<Rightarrow> 'a ifce_state_scheme res" where
  "port_ifce_debug_print_close s = Ok s"

definition port_ifce_debug_print_init :: "'a ifce_state_scheme \<Rightarrow> 'a ifce_state_scheme res" where
  "port_ifce_debug_print_init s = bind_res (kmem_alloc PORT_IFCE_SIZE s) (\<lambda>(ifce, s).
     verify (ifce \<noteq> 0) ''failed to allocate debug interface''
       (port_ifce_create ifce (s\<lparr>port_ifces := (port_ifces s)(ifce :=
          \<lparr>if_name = str_debug_print s, if_open_func = DebugPrint, if_req_func = DebugPrint,
           if_close_func = DebugPrint\<rparr>)\<rparr>)))"

definition port_ifce_setfs_open :: "'a ifce_state_scheme \<Rightarrow> (u64 \<times> 'a ifce_state_scheme) res" where
  "port_ifce_setfs_open s = Ok (OK, s)"

definition port_ifce_setfs_request ::
    "u64 \<Rightarrow> u64 \<Rightarrow> u64 \<Rightarrow> u64 \<Rightarrow> u64 \<Rightarrow> 'a ifce_state_scheme \<Rightarrow> (u64 \<times> 'a ifce_state_scheme) res" where
  "port_ifce_setfs_request val_small data data_size reply reply_size s = Ok (OK, s\<lparr>fsbase_msr := val_small\<rparr>)"

definition port_ifce_setfs_close :: "'a ifce_state_scheme \<Rightarrow> 'a ifce_state_scheme res" where
  "port_ifce_setfs_close s = Ok s"

definition port_ifce_setfs_init :: "'a ifce_state_scheme \<Rightarrow> 'a ifce_state_scheme res" where
  "port_ifce_setfs_init s = bind_res (kmem_alloc PORT_IFCE_SIZE s) (\<lambda>(ifce, s).
     verify (ifce \<noteq> 0) ''failed to allocate debug interface''
       (port_ifce_create ifce (s\<lparr>port_ifces := (port_ifces s)(ifce :=
          \<lparr>if_name = str_setfsbase s, if_open_func = SetFs, if_req_func = SetFs,
           if_close_func = SetFs\<rparr>)\<rparr>)))"

definition port_ifce_init :: "'a ifce_state_scheme \<Rightarrow> 'a ifce_state_scheme res" where
  "port_ifce_init s = bind_res (port_ifce_debug_print_init (s\<lparr>port_ifce_hash := (\<lambda>_. 0)\<rparr>)) port_ifce_setfs_init"

text \<open>Calls through the function pointers.\<close>

definition ifce_open :: "ifce_fn \<Rightarrow> 'a ifce_state_scheme \<Rightarrow> (u64 \<times> 'a ifce_state_scheme) res" where
  "ifce_open f s = (case f of DebugPrint \<Rightarrow> port_ifce_debug_print_open s | SetFs \<Rightarrow> port_ifce_setfs_open s)"

definition ifce_request ::
    "ifce_fn \<Rightarrow> u64 \<Rightarrow> u64 \<Rightarrow> u64 \<Rightarrow> u64 \<Rightarrow> u64 \<Rightarrow> 'a ifce_state_scheme \<Rightarrow> (u64 \<times> 'a ifce_state_scheme) res" where
  "ifce_request f v d ds r rs s = (case f of
     DebugPrint \<Rightarrow> port_ifce_debug_print_request v d ds r rs s
   | SetFs \<Rightarrow> port_ifce_setfs_request v d ds r rs s)"

definition ifce_close :: "ifce_fn \<Rightarrow> 'a ifce_state_scheme \<Rightarrow> 'a ifce_state_scheme res" where
  "ifce_close f s = (case f of DebugPrint \<Rightarrow> port_ifce_debug_print_close s | SetFs \<Rightarrow> port_ifce_setfs_close s)"

end
