(* ===== verification/Name_Table.thy ===== *)
theory Name_Table
  imports K_port_ifce
begin

text \<open>
  The contract of a table of named objects: \<open>look a s\<close> is the object whose name is the string
  at address \<open>a\<close>, or 0; \<open>ins v s\<close> enters the object \<open>v\<close>, whose name is at \<open>key v s\<close>.  The two
  tables of the kernel, that of the port-like interfaces and that of the ports, are
  instances (theories \<open>Ifce_Spec\<close> and \<open>Port_Spec\<close>).
\<close>

abbreviation name_at :: "u64 \<Rightarrow> 'a proc_state_scheme \<Rightarrow> u8 list" where
  "name_at a s \<equiv> cstring (kmem s) PORT_NAME_MAX_LEN a"

locale name_table =
  fixes inv :: "'s \<Rightarrow> bool" and fits :: "u64 \<Rightarrow> 's \<Rightarrow> bool"
    and look :: "u64 \<Rightarrow> 's \<Rightarrow> u64 res" and ins :: "u64 \<Rightarrow> 's \<Rightarrow> 's res"
    and key :: "u64 \<Rightarrow> 's \<Rightarrow> u64" and str :: "u64 \<Rightarrow> 's \<Rightarrow> u8 list"
  assumes look_cong: "inv s \<Longrightarrow> str a s = str b s \<Longrightarrow> look a s = look b s"
    and ins_law: "inv s \<Longrightarrow> fits v s \<Longrightarrow> look (key v s) s = Ok 0 \<Longrightarrow>
      \<exists>t. ins v s = Ok t \<and> inv t \<and> (\<forall>a. str a t = str a s) \<and> (\<forall>w. key w t = key w s) \<and>
        (\<forall>a. look a t = (if str a s = str (key v s) s then Ok v else look a s))"
begin

lemma ins_found:
  assumes "inv s" "fits v s" "look (key v s) s = Ok 0"
  obtains t where "ins v s = Ok t" "inv t" "look (key v t) t = Ok v"
  using ins_law[OF assms] by metis

lemma ins_twice:
  assumes s: "inv s" "fits v s" "look (key v s) s = Ok 0" and t: "ins v s = Ok t" "fits w t"
    and w: "look (key w s) s = Ok 0" "str (key w s) s \<noteq> str (key v s) s"
  obtains u where "ins w t = Ok u" "inv u"
    "\<forall>a. look a u = (if str a s = str (key w s) s then Ok w else if str a s = str (key v s) s then Ok v else look a s)"
proof -
  have t': "inv t" "\<forall>a. str a t = str a s" "\<forall>w. key w t = key w s"
    "\<forall>a. look a t = (if str a s = str (key v s) s then Ok v else look a s)"
    using ins_law[OF s] t(1) by auto
  then have "look (key w t) t = Ok 0" using w by simp
  from ins_law[OF t'(1) t(2) this] t' that show ?thesis by (metis (no_types, lifting))
qed

end

text \<open>A table from which objects are removed by name: \<open>rem a s\<close> is what the object that \<open>a\<close> names
  stands for, \<open>val v s\<close>, or 0; \<open>owned v s\<close> is what the removal needs of the object.\<close>

locale name_table_rem = name_table inv fits look ins key str
  for inv :: "'s \<Rightarrow> bool" and fits :: "u64 \<Rightarrow> 's \<Rightarrow> bool"
    and look :: "u64 \<Rightarrow> 's \<Rightarrow> u64 res" and ins :: "u64 \<Rightarrow> 's \<Rightarrow> 's res"
    and key :: "u64 \<Rightarrow> 's \<Rightarrow> u64" and str :: "u64 \<Rightarrow> 's \<Rightarrow> u8 list" +
  fixes owned :: "u64 \<Rightarrow> 's \<Rightarrow> bool" and rem :: "u64 \<Rightarrow> 's \<Rightarrow> (u64 \<times> 's) res" and val :: "u64 \<Rightarrow> 's \<Rightarrow> u64"
  assumes rem_law: "inv s \<Longrightarrow> look a s = Ok v \<Longrightarrow> v \<noteq> 0 \<Longrightarrow> owned v s \<Longrightarrow>
      \<exists>t. rem a s = Ok (val v s, t) \<and> inv t \<and> (\<forall>b. str b t = str b s) \<and> (\<forall>w. key w t = key w s) \<and>
        (\<forall>b. look b t = (if str b s = str a s then Ok 0 else look b s))"
begin

text \<open>Entering an object and removing it by its name leaves the table as it was.\<close>

lemma ins_rem:
  assumes "inv s" "fits v s" "v \<noteq> 0" "look (key v s) s = Ok 0" "ins v s = Ok t" "owned v t"
  shows "\<exists>u. rem (key v t) t = Ok (val v t, u) \<and> inv u \<and> (\<forall>b. look b u = look b s)"
proof -
  have t: "inv t" "\<forall>a. str a t = str a s" "\<forall>w. key w t = key w s"
    "\<forall>a. look a t = (if str a s = str (key v s) s then Ok v else look a s)"
    using ins_law[OF assms(1,2,4)] assms(5) by auto
  then have "look (key v t) t = Ok v" by simp
  from rem_law[OF t(1) this assms(3,6)] obtain u where
    u: "rem (key v t) t = Ok (val v t, u)" "inv u"
    "\<forall>b. look b u = (if str b t = str (key v t) t then Ok 0 else look b t)" by blast
  have "look b u = look b s" for b
    using u(3) t assms(4) look_cong[OF assms(1), of b "key v s"] by auto
  then show ?thesis using u by blast
qed

end

end
