(* ===== verification/Ifce_Spec.thy ===== *)
theory Ifce_Spec
  imports Name_Table
begin

text \<open>
  The table of port-like interfaces is a name table: an interface that was created is found by
  its name, and creating it changes the result for no other name.
\<close>

section \<open>Probing\<close>

lemma ifce_insert_find:
  "ifce_insert_loop v is s = (case find (\<lambda>i. port_ifce_hash s i = 0) is of
     None \<Rightarrow> Fail (Panic ''failed to create port-like interface'')
   | Some i \<Rightarrow> Ok (s\<lparr>port_ifce_hash := (port_ifce_hash s)(i := v)\<rparr>))"
  by (induction "is") auto

definition slot_stops :: "u8 list \<Rightarrow> 'a ifce_state_scheme \<Rightarrow> nat \<Rightarrow> bool" where
  "slot_stops x s i \<longleftrightarrow> port_ifce_hash s i = 0 \<or> name_at (if_name (port_ifces s (port_ifce_hash s i))) s = x"

lemma ifce_locate_find:
  "ifce_locate_loop a is s = (case find (slot_stops (name_at a s) s) is of None \<Rightarrow> 0 | Some i \<Rightarrow> port_ifce_hash s i)"
  by (induction "is") (auto simp: slot_stops_def kstrequ_iff Let_def)

definition name_slots :: "u8 list \<Rightarrow> nat list" where
  "name_slots x = map (\<lambda>k. (unat (hash33 0 x) mod PORT_IFCE_HASH_SIZE + k) mod PORT_IFCE_HASH_SIZE) [0..<PORT_IFCE_HASH_SIZE]"

lemma ifce_slots_name: "ifce_slots a s = name_slots (name_at a s)"
  by (simp add: ifce_slots_def name_slots_def kstr_hash_cstring Let_def)

lemma set_name_slots: "set (name_slots x) = {0..<PORT_IFCE_HASH_SIZE}"
proof -
  let ?n = PORT_IFCE_HASH_SIZE and ?h = "unat (hash33 0 x) mod PORT_IFCE_HASH_SIZE"
  have n: "0 < ?n" by (simp add: PORT_IFCE_HASH_SIZE_def)
  have "i \<in> set (name_slots x)" if "i < ?n" for i
  proof -
    have "?h < ?n" using n by simp
    then have "?h + (?n - ?h + i) = ?n + i" by simp
    then have "(?h + (?n - ?h + i) mod ?n) mod ?n = i" using that unfolding mod_add_right_eq by simp
    moreover have "(?n - ?h + i) mod ?n < ?n" using n by simp
    ultimately show ?thesis unfolding name_slots_def set_map set_upt by (intro image_eqI) auto
  qed
  then show ?thesis using n by (auto simp: name_slots_def)
qed

lemma lookup_find:
  "port_ifce_lookup a s =
     (case find (slot_stops (name_at a s) s) (name_slots (name_at a s)) of None \<Rightarrow> 0 | Some i \<Rightarrow> port_ifce_hash s i)"
  by (simp add: port_ifce_lookup_def port_ifce_hash_locate_def ifce_locate_find ifce_slots_name)

lemma lookup_cong: "name_at a s = name_at b s \<Longrightarrow> port_ifce_lookup a s = port_ifce_lookup b s"
  by (simp add: lookup_find)

section \<open>The invariant\<close>

text \<open>Every interface in the table is found by its name.\<close>

definition ifce_inv :: "'a ifce_state_scheme \<Rightarrow> bool" where
  "ifce_inv s \<longleftrightarrow> (\<forall>i < PORT_IFCE_HASH_SIZE. port_ifce_hash s i \<noteq> 0 \<longrightarrow>
     port_ifce_lookup (if_name (port_ifces s (port_ifce_hash s i))) s = port_ifce_hash s i)"

definition ifce_fits :: "u64 \<Rightarrow> 'a ifce_state_scheme \<Rightarrow> bool" where
  "ifce_fits v s \<longleftrightarrow> v \<noteq> 0 \<and> (\<exists>i < PORT_IFCE_HASH_SIZE. port_ifce_hash s i = 0)"

text \<open>\<open>v\<close> is put into the first empty slot of its name.\<close>

lemma create_slot:
  assumes "ifce_fits v s"
  obtains i where "find (\<lambda>i. port_ifce_hash s i = 0) (name_slots (name_at (if_name (port_ifces s v)) s)) = Some i"
    "i < PORT_IFCE_HASH_SIZE" "port_ifce_hash s i = 0"
    "port_ifce_create v s = Ok (s\<lparr>port_ifce_hash := (port_ifce_hash s)(i := v)\<rparr>)"
proof -
  let ?is = "name_slots (name_at (if_name (port_ifces s v)) s)"
  have "find (\<lambda>i. port_ifce_hash s i = 0) ?is \<noteq> None"
    using assms by (auto simp: find_None_iff set_name_slots ifce_fits_def)
  then obtain i where i: "find (\<lambda>i. port_ifce_hash s i = 0) ?is = Some i" by auto
  then have "i \<in> set ?is" "port_ifce_hash s i = 0" by (auto simp: find_Some_iff)
  then show ?thesis using that[OF i] i
    by (simp add: set_name_slots port_ifce_create_def port_ifce_hash_insert_def ifce_insert_find ifce_slots_name)
qed

text \<open>Filling the empty slot \<open>i\<close>: probing for the new name stops there, probing for another
  name stops where it did unless it stopped at \<open>i\<close>.\<close>

definition filled_slot :: "nat \<Rightarrow> u64 \<Rightarrow> 'a ifce_state_scheme \<Rightarrow> 'a ifce_state_scheme" where
  "filled_slot i v s = s\<lparr>port_ifce_hash := (port_ifce_hash s)(i := v)\<rparr>"

lemma stops_filled:
  "slot_stops x (filled_slot i v s) j \<longleftrightarrow>
     (if j = i then v = 0 \<or> name_at (if_name (port_ifces s v)) s = x else slot_stops x s j)"
  by (simp add: slot_stops_def filled_slot_def)

lemma find_new_name:
  assumes "find (\<lambda>i. port_ifce_hash s i = 0) is = Some i"
    "(case find (slot_stops x s) is of None \<Rightarrow> 0 | Some i \<Rightarrow> port_ifce_hash s i) = 0"
    "name_at (if_name (port_ifces s v)) s = x"
  shows "find (slot_stops x (filled_slot i v s)) is = Some i"
  using assms
proof (induction "is")
  case (Cons j js)
  show ?case
  proof (cases "port_ifce_hash s j = 0")
    case True
    then show ?thesis using Cons.prems by (simp add: stops_filled)
  next
    case False
    have "port_ifce_hash s i = 0" using Cons.prems(1) unfolding find_Some_iff by blast
    then have "j \<noteq> i" using False by auto
    moreover have "\<not> slot_stops x s j" using Cons.prems(2) False by (auto split: if_splits)
    ultimately show ?thesis using Cons False by (simp add: stops_filled)
  qed
qed simp

lemma find_other_name:
  assumes "find (slot_stops x s) is \<noteq> Some i" "port_ifce_hash s i = 0"
  shows "find (slot_stops x (filled_slot i v s)) is = find (slot_stops x s) is"
  using assms
proof (induction "is")
  case (Cons j js)
  have "slot_stops x s i" using Cons.prems(2) by (simp add: slot_stops_def)
  then have "j \<noteq> i" using Cons.prems(1) by auto
  then have "slot_stops x (filled_slot i v s) j = slot_stops x s j" by (simp add: stops_filled)
  then show ?case using Cons by (cases "slot_stops x s j") simp_all
qed simp

lemma lookup_created:
  assumes inv: "ifce_inv s" and v: "v \<noteq> 0" "port_ifce_lookup (if_name (port_ifces s v)) s = 0"
    and i: "find (\<lambda>i. port_ifce_hash s i = 0) (name_slots (name_at (if_name (port_ifces s v)) s)) = Some i"
      "i < PORT_IFCE_HASH_SIZE" "port_ifce_hash s i = 0"
  shows "port_ifce_lookup a (filled_slot i v s) =
    (if name_at a s = name_at (if_name (port_ifces s v)) s then v else port_ifce_lookup a s)"
proof -
  let ?x = "name_at a s" and ?t = "filled_slot i v s"
  have t: "name_at a ?t = ?x" "port_ifce_hash ?t j = (if j = i then v else port_ifce_hash s j)" for j
    by (simp_all add: filled_slot_def)
  show ?thesis
  proof (cases "?x = name_at (if_name (port_ifces s v)) s")
    case True
    note e = True[symmetric]
    have "find (slot_stops ?x ?t) (name_slots ?x) = Some i"
      by (rule find_new_name[OF i(1)[unfolded e] v(2)[unfolded lookup_find e] e])
    then show ?thesis using True by (simp add: lookup_find[of a ?t] t)
  next
    case False
    show ?thesis
    proof (cases "find (slot_stops ?x s) (name_slots ?x) = Some i")
      case stop: True
      then have l: "port_ifce_lookup a s = 0" using i(3) by (simp add: lookup_find)
      have "port_ifce_hash ?t j = 0" if "find (slot_stops ?x ?t) (name_slots ?x) = Some j" for j
      proof -
        have j: "slot_stops ?x ?t j" "j \<in> set (name_slots ?x)" using that unfolding find_Some_iff by auto
        have ji: "j \<noteq> i"
        proof
          assume "j = i"
          then show False using j(1) False v(1) by (simp add: stops_filled)
        qed
        have "port_ifce_hash s j = 0"
        proof (rule ccontr)
          assume h: "port_ifce_hash s j \<noteq> 0"
          have "slot_stops ?x s j" using j(1) ji by (simp add: stops_filled)
          then have "name_at (if_name (port_ifces s (port_ifce_hash s j))) s = ?x"
            using h by (simp add: slot_stops_def)
          note e = lookup_cong[OF this]
          have "j < PORT_IFCE_HASH_SIZE" using j(2) by (simp add: set_name_slots)
          then have "port_ifce_lookup (if_name (port_ifces s (port_ifce_hash s j))) s = port_ifce_hash s j"
            using inv h unfolding ifce_inv_def by blast
          then show False using e l h by simp
        qed
        then show ?thesis using ji t(2)[of j] by simp
      qed
      then show ?thesis using False l by (simp add: lookup_find[of a ?t] t(1) split: option.split)
    next
      case go: False
      from find_other_name[OF go i(3), of v] have "port_ifce_lookup a ?t =
          (case find (slot_stops ?x s) (name_slots ?x) of None \<Rightarrow> 0 | Some j \<Rightarrow> port_ifce_hash ?t j)"
        by (simp add: lookup_find[of a ?t] t(1))
      also have "\<dots> = (case find (slot_stops ?x s) (name_slots ?x) of None \<Rightarrow> 0 | Some j \<Rightarrow> port_ifce_hash s j)"
        using go by (simp add: t(2) split: option.split)
      finally show ?thesis using False by (simp add: lookup_find[of a s])
    qed
  qed
qed

lemma ifce_create_law:
  assumes inv: "ifce_inv s" and f: "ifce_fits v s" and n: "port_ifce_lookup (if_name (port_ifces s v)) s = 0"
  obtains t where "port_ifce_create v s = Ok t" "ifce_inv t" "kmem t = kmem s" "port_ifces t = port_ifces s"
    "\<forall>a. port_ifce_lookup a t = (if name_at a s = name_at (if_name (port_ifces s v)) s then v else port_ifce_lookup a s)"
proof -
  obtain i where i: "find (\<lambda>i. port_ifce_hash s i = 0) (name_slots (name_at (if_name (port_ifces s v)) s)) = Some i"
    "i < PORT_IFCE_HASH_SIZE" "port_ifce_hash s i = 0"
    and c: "port_ifce_create v s = Ok (filled_slot i v s)"
    by (rule create_slot[OF f]) (simp add: filled_slot_def)
  let ?t = "filled_slot i v s"
  have v: "v \<noteq> 0" using f by (simp add: ifce_fits_def)
  note L = lookup_created[OF inv v n i]
  have t: "kmem ?t = kmem s" "port_ifces ?t = port_ifces s" "port_ifce_hash ?t j = (if j = i then v else port_ifce_hash s j)" for j
    by (simp_all add: filled_slot_def)
  have "ifce_inv ?t" unfolding ifce_inv_def
  proof (intro allI impI)
    fix j assume j: "j < PORT_IFCE_HASH_SIZE" "port_ifce_hash ?t j \<noteq> 0"
    show "port_ifce_lookup (if_name (port_ifces ?t (port_ifce_hash ?t j))) ?t = port_ifce_hash ?t j"
    proof (cases "j = i")
      case False
      then have h: "port_ifce_lookup (if_name (port_ifces s (port_ifce_hash s j))) s = port_ifce_hash s j"
        "port_ifce_hash s j \<noteq> 0" using inv j t by (auto simp: ifce_inv_def)
      then have "name_at (if_name (port_ifces s (port_ifce_hash s j))) s \<noteq> name_at (if_name (port_ifces s v)) s"
        using n lookup_cong by metis
      then show ?thesis using h False by (simp add: t L)
    qed (simp add: t L)
  qed
  then show ?thesis using that[OF c] t L by simp
qed

interpretation ifce_table: name_table ifce_inv ifce_fits "\<lambda>a s. Ok (port_ifce_lookup a s)" port_ifce_create
  "\<lambda>v s. if_name (port_ifces s v)" "\<lambda>a s. name_at a s"
proof
  show "Ok (port_ifce_lookup a s) = Ok (port_ifce_lookup b s)" if "name_at a s = name_at b s"
    for s :: "'a ifce_state_scheme" and a b using lookup_cong[OF that] by simp
  show "\<exists>t. port_ifce_create v s = Ok t \<and> ifce_inv t \<and> (\<forall>a. name_at a t = name_at a s) \<and>
      (\<forall>w. if_name (port_ifces t w) = if_name (port_ifces s w)) \<and>
      (\<forall>a. Ok (port_ifce_lookup a t) = (if name_at a s = name_at (if_name (port_ifces s v)) s then Ok v else Ok (port_ifce_lookup a s)))"
    if "ifce_inv s" "ifce_fits v s" "Ok (port_ifce_lookup (if_name (port_ifces s v)) s) = Ok 0"
    for s :: "'a ifce_state_scheme" and v
    by (rule ifce_create_law[OF that(1,2)]) (use that(3) in auto)
qed

section \<open>Property\<close>

text \<open>C23: Creating a port-like interface whose name is not taken, in a table with an empty slot,
  succeeds; afterwards looking up a name gives the new interface if the strings are equal
  and what it gave before otherwise, and every interface in the table is found by its name
  again.\<close>

theorem port_ifce_create_lookup:
  assumes "ifce_inv s" "ifce_fits v s" "port_ifce_lookup (if_name (port_ifces s v)) s = 0"
  shows "\<exists>t. port_ifce_create v s = Ok t \<and> ifce_inv t \<and>
    (\<forall>a. port_ifce_lookup a t =
      (if name_at a s = name_at (if_name (port_ifces s v)) s then v else port_ifce_lookup a s))"
proof -
  obtain t where t: "port_ifce_create v s = Ok t" "ifce_inv t"
    and l: "\<forall>a. Ok (port_ifce_lookup a t) = (if name_at a s = name_at (if_name (port_ifces s v)) s
      then Ok v else Ok (port_ifce_lookup a s))"
    using ifce_table.ins_law[OF assms(1,2)] assms(3) by auto
  have "port_ifce_lookup a t = (if name_at a s = name_at (if_name (port_ifces s v)) s then v else port_ifce_lookup a s)" for a
    using spec[OF l, of a] by (simp split: if_splits)
  then show ?thesis using t by blast
qed

text \<open>A table with one interface, and another one to be created.\<close>

definition demo_ifces :: "'a ifce_state_scheme \<Rightarrow> 'a ifce_state_scheme" where
  "demo_ifces s = s\<lparr>port_ifce_hash := (\<lambda>i. if i = 97 then 0x1000 else 0),
     port_ifces := (\<lambda>p. \<lparr>if_name = (if p = 0x1000 then 0x10 else 0x20), if_open_func = SetFs,
        if_req_func = SetFs, if_close_func = SetFs\<rparr>),
     kmem := (\<lambda>a. if a = 0x10 then 97 else if a = 0x20 then 98 else 0)\<rparr>"

lemma demo_names:
  "name_at 0x10 (demo_ifces s) = [97]" "name_at 0x20 (demo_ifces s) = [98]"
  by (simp_all add: cstring_def demo_ifces_def PORT_NAME_MAX_LEN_def bytes_at_def upt_rec[of 0] upt_rec[of "Suc 0"])

lemma demo_ifces_inv: "ifce_inv (demo_ifces s)" "port_ifce_lookup 0x20 (demo_ifces s) = 0"
proof -
  have sl: "name_slots [c] = unat (hash33 0 [c]) mod 512 # map (\<lambda>k. (unat (hash33 0 [c]) mod 512 + k) mod 512) [1..<512]" for c
    unfolding name_slots_def PORT_IFCE_HASH_SIZE_def by (subst upt_conv_Cons) auto
  have h: "unat (hash33 0 [97]) mod 512 = 97" "unat (hash33 0 [98]) mod 512 = 98" by simp_all
  have st: "slot_stops [97] (demo_ifces s) 97" "slot_stops [98] (demo_ifces s) 98"
    using demo_names[of s] by (simp_all add: slot_stops_def) (simp_all add: demo_ifces_def)
  have "port_ifce_lookup 0x10 (demo_ifces s) = 0x1000"
    by (simp add: lookup_find demo_names sl h st) (simp add: demo_ifces_def)
  then show "ifce_inv (demo_ifces s)" by (auto simp: ifce_inv_def demo_ifces_def)
  show "port_ifce_lookup 0x20 (demo_ifces s) = 0"
    by (simp add: lookup_find demo_names sl h st) (simp add: demo_ifces_def)
qed

theorem port_ifce_create_lookup_witness:
  "\<exists>s :: ifce_state. \<exists>t. port_ifce_create 0x2000 (demo_ifces s) = Ok t \<and>
     port_ifce_lookup 0x20 t = 0x2000 \<and> port_ifce_lookup 0x10 t = port_ifce_lookup 0x10 (demo_ifces s)"
proof -
  fix s :: ifce_state
  have v: "if_name (port_ifces (demo_ifces s) 0x2000) = 0x20" by (simp add: demo_ifces_def)
  have "ifce_fits 0x2000 (demo_ifces s)"
    by (auto simp: ifce_fits_def demo_ifces_def PORT_IFCE_HASH_SIZE_def intro!: exI[of _ 0])
  from port_ifce_create_lookup[OF demo_ifces_inv(1) this, unfolded v, OF demo_ifces_inv(2)]
  obtain t where t: "port_ifce_create 0x2000 (demo_ifces s) = Ok t"
    "\<forall>a. port_ifce_lookup a t = (if name_at a (demo_ifces s) = name_at 0x20 (demo_ifces s) then 0x2000
       else port_ifce_lookup a (demo_ifces s))" by blast
  have "port_ifce_lookup 0x20 t = 0x2000" using spec[OF t(2), of "0x20"] by simp
  moreover have "port_ifce_lookup 0x10 t = port_ifce_lookup 0x10 (demo_ifces s)"
    using spec[OF t(2), of "0x10"] unfolding demo_names by simp
  ultimately show ?thesis using t(1) by blast
qed

end
