(* ===== verification/Heap_Frame.thy ===== *)
theory Heap_Frame
  imports Heap_Spec
begin

text \<open>
  What the heap operations leave alone: a successful allocation and a release change the
  chunk list and the chunk headers only, a failed allocation at most reference counts of
  frames.  The components above the heap use these facts for all their own fields.
\<close>

definition heap_only :: "'a kheap_state_scheme \<Rightarrow> 'a kheap_state_scheme \<Rightarrow> bool" where
  "heap_only s t \<longleftrightarrow> (\<exists>kl kw. t = s\<lparr>kh_list := kl, kh_word := kw\<rparr>)"

lemma heap_only_refl [simp]: "heap_only s s"
  unfolding heap_only_def by (intro exI[of _ "kh_list s"] exI[of _ "kh_word s"]) simp

lemma heap_only_upd [simp]:
  "heap_only s (t\<lparr>kh_list := kl\<rparr>) = heap_only s t" "heap_only s (t\<lparr>kh_word := kw\<rparr>) = heap_only s t"
proof -
  have e: "heap_only s (t\<lparr>kh_list := kl, kh_word := kw\<rparr>)" if a: "heap_only s t" for kl kw
  proof -
    obtain kl' kw' where "t = s\<lparr>kh_list := kl', kh_word := kw'\<rparr>" using a unfolding heap_only_def by blast
    then show ?thesis unfolding heap_only_def by (intro exI[of _ kl] exI[of _ kw]) simp
  qed
  have r: "heap_only s t" if a: "heap_only s (t\<lparr>kh_list := kl, kh_word := kw\<rparr>)" for kl kw
  proof -
    obtain kl' kw' where "t\<lparr>kh_list := kl, kh_word := kw\<rparr> = s\<lparr>kh_list := kl', kh_word := kw'\<rparr>"
      using a unfolding heap_only_def by blast
    then have "t\<lparr>kh_list := kl, kh_word := kw\<rparr>\<lparr>kh_list := kh_list t, kh_word := kh_word t\<rparr> =
        s\<lparr>kh_list := kl', kh_word := kw'\<rparr>\<lparr>kh_list := kh_list t, kh_word := kh_word t\<rparr>" by (rule arg_cong)
    then show ?thesis unfolding heap_only_def by (intro exI[of _ "kh_list t"] exI[of _ "kh_word t"]) simp
  qed
  show "heap_only s (t\<lparr>kh_list := kl\<rparr>) = heap_only s t"
    using e[where kl = kl and kw = "kh_word t"] r[where kl = kl and kw = "kh_word t"] by auto
  show "heap_only s (t\<lparr>kh_word := kw\<rparr>) = heap_only s t"
    using e[where kl = "kh_list t" and kw = kw] r[where kl = "kh_list t" and kw = kw] by auto
qed

lemma kheap_take_only: "heap_only s (kheap_take p sz t) = heap_only s t"
  by (simp add: kheap_take_def Let_def set_chunk_size_def set_chunk_magic_def kh_insert_def)

lemma merge_only: "heap_only s (snd (kheap_merge_chunk_into_prev c t)) = heap_only s t"
  by (simp add: kheap_merge_chunk_into_prev_def Let_def set_chunk_size_def)

text \<open>Taking the heap lock, changing the heap and giving the lock back.\<close>

lemma locked_only:
  assumes "mutex_owner s KheapLock = 0" "heap_only (s\<lparr>mutex_owner := (mutex_owner s)(KheapLock := get_current_proc s)\<rparr>) v"
    "mutex_release KheapLock v = Ok t"
  shows "heap_only s t"
proof -
  let ?u = "s\<lparr>mutex_owner := (mutex_owner s)(KheapLock := get_current_proc s)\<rparr>"
  obtain kl kw where "v = ?u\<lparr>kh_list := kl, kh_word := kw\<rparr>" using assms(2) unfolding heap_only_def by blast
  then have "t = s\<lparr>kh_list := kl, kh_word := kw\<rparr>"
    using assms(1,3) by (simp add: mutex_release_def Let_def verify_Ok_iff get_current_proc_def fun_upd_idem)
  then show ?thesis unfolding heap_only_def by blast
qed

lemma merge_step_only:
  assumes "heap_only u v" "bind_res (kheap_free_neighbour n v) (\<lambda>b. k (if b then snd (kheap_merge_chunk_into_prev c v) else v)) = Ok t"
  shows "\<exists>w. heap_only u w \<and> k w = Ok t"
proof -
  obtain b where "k (if b then snd (kheap_merge_chunk_into_prev c v) else v) = Ok t"
    using assms(2) by (auto simp: bind_res_Ok_iff)
  then show ?thesis using assms(1) merge_only by (cases b) auto
qed

lemma kmem_free_only:
  fixes s t :: "'a kheap_state_scheme"
  assumes "kmem_free p s = Ok t"
  shows "heap_only s t"
proof -
  obtain u where a: "mutex_owner s KheapLock = 0" "u = s\<lparr>mutex_owner := (mutex_owner s)(KheapLock := get_current_proc s)\<rparr>"
    and b: "mutex_acquire KheapLock s = Ok u"
    using assms unfolding kmem_free_def by (cases "mutex_acquire KheapLock s") (simp_all add: mutex_acquire_Ok_iff)
  define c where "c = kheap_chunk_from_ptr (if kh_word u (p - ALIGNED_HDR + 8) = KHEAP_MAGIC_ALIGNED then kh_word u (p - ALIGNED_HDR) else p)"
  define u1 where "u1 = set_chunk_magic c KHEAP_MAGIC_FREE u"
  define nxt where "nxt = (if lnext (kh_list u1) c = chunk_list_head u1 then 0 else lnext (kh_list u1) c)"
  define k where "k = (\<lambda>s :: 'a kheap_state_scheme. bind_res (kheap_free_neighbour nxt s) (\<lambda>b.
    mutex_release KheapLock (if b then snd (kheap_merge_chunk_into_prev nxt s) else s)))"
  define prv where "prv = (if lprev (kh_list u1) c = chunk_list_head u1 then 0 else lprev (kh_list u1) c)"
  have 1: "bind_res (kheap_free_neighbour prv u1) (\<lambda>b. k (if b then snd (kheap_merge_chunk_into_prev c u1) else u1)) = Ok t"
    using assms unfolding kmem_free_def b bind_res_simps Let_def verify_Ok_iff
      c_def[symmetric] u1_def[symmetric] nxt_def[symmetric] prv_def[symmetric] k_def by (rule conjunct2)
  have o1: "heap_only u u1" by (simp add: u1_def set_chunk_magic_def)
  obtain w where w: "heap_only u w" "k w = Ok t" using merge_step_only[OF o1 1] by (elim exE conjE)
  obtain v where "heap_only u v" "mutex_release KheapLock v = Ok t"
    using merge_step_only[OF w(1) w(2)[unfolded k_def]] by (elim exE conjE)
  then show ?thesis using locked_only[OF a(1), of v t] a(2) by simp
qed

lemma kmem_alloc_only:
  assumes "kmem_alloc sz s = Ok (p, t)"
  shows "heap_only s t \<or> (\<exists>pm. p = 0 \<and> t = s\<lparr>pm_map := pm\<rparr>)"
proof -
  obtain u where a: "mutex_owner s KheapLock = 0" "u = s\<lparr>mutex_owner := (mutex_owner s)(KheapLock := get_current_proc s)\<rparr>"
    and b: "mutex_acquire KheapLock s = Ok u"
    using assms unfolding kmem_alloc_def bind_res_Ok_iff mutex_acquire_Ok_iff by blast
  let ?n = "ALIGNUP sz 32"
  obtain i where i: "(if i = chunk_list_head u
        then bind_res (kheap_expand ?n u) (\<lambda>(ok, s).
          if \<not> ok then bind_res (mutex_release KheapLock s) (\<lambda>s. Ok (0, s))
          else bind_res (mutex_release KheapLock (kheap_take (lprev (kh_list s) (chunk_list_head s)) ?n s))
            (\<lambda>t. Ok (lprev (kh_list s) (chunk_list_head s) + CHUNK_HDR, t)))
        else bind_res (mutex_release KheapLock (kheap_take i ?n u)) (\<lambda>s. Ok (i + CHUNK_HDR, s))) = Ok (p, t)"
    using assms unfolding kmem_alloc_def b bind_res_simps Let_def
    by (subst (asm) bind_res_Ok_iff) blast
  show ?thesis
  proof (cases "i = chunk_list_head u")
    case True
    then obtain ok v where e: "kheap_expand ?n u = Ok (ok, v)" using i by (auto simp: bind_res_Ok_iff)
    obtain pm where v: "\<not> ok" "v = u\<lparr>pm_map := pm\<rparr>" using kheap_expand_result[OF e] by blast
    have "bind_res (mutex_release KheapLock v) (\<lambda>s. Ok (0, s)) = Ok (p, t)"
      using i v(1) unfolding if_P[OF True] e by simp
    moreover have "mutex_release KheapLock v = Ok (s\<lparr>pm_map := pm\<rparr>)"
      using a v(2) by (simp add: mutex_release_def Let_def get_current_proc_def fun_upd_idem)
    ultimately have "p = 0" "t = s\<lparr>pm_map := pm\<rparr>" by simp_all
    then show ?thesis by blast
  next
    case False
    then have "mutex_release KheapLock (kheap_take i ?n u) = Ok t" using i by (auto simp: bind_res_Ok_iff)
    then show ?thesis using locked_only[OF a(1), of "kheap_take i ?n u" t] a(2) by (simp add: kheap_take_only)
  qed
qed

lemma kmem_alloc_zeroed_only:
  assumes "kmem_alloc_zeroed sz s = Ok (p, t)"
  shows "heap_only s t \<or> (\<exists>pm. p = 0 \<and> t = s\<lparr>pm_map := pm\<rparr>)"
  using assms kmem_alloc_only[of sz s] by (auto simp: kmem_alloc_zeroed_def bind_res_Ok_iff split: if_splits)

end
