(* ===== verification/Sched_Spec.thy ===== *)
theory Sched_Spec
  imports K_switch
begin

text \<open>
  The ready queues and the futex buckets as lists of processes: the relation \<open>proc_rel\<close> ties the
  embedded list nodes to a queue per processor and level and to a list of waiters per
  bucket.  The queue operations are append, remove and the choice of the first process of the
  highest level; waking takes the first waiters of an address.
\<close>

section \<open>Abstraction\<close>

type_synonym queues = "u64 \<Rightarrow> u64 \<Rightarrow> u64 list"

definition proc_heads :: "'a proc_state_scheme \<Rightarrow> lnode set" where
  "proc_heads s = {ReadyHead c l |c l. c < smp_cpu_count s \<and> l < 64} \<union>
     {FutexHead k |k. k < futex_size s * 2}"

fun lay :: "queues \<Rightarrow> (u64 \<Rightarrow> u64 list) \<Rightarrow> lnode \<Rightarrow> lnode list" where
  "lay Q W (ReadyHead c l) = map SchedNode (Q c l)"
| "lay Q W (FutexHead k) = map FutexNode (W k)"
| "lay Q W _ = []"

definition proc_rel :: "'a proc_state_scheme \<Rightarrow> queues \<Rightarrow> (u64 \<Rightarrow> u64 list) \<Rightarrow> bool" where
  "proc_rel s Q W \<longleftrightarrow> rings (lists s) (proc_heads s) (lay Q W) \<and>
     (\<forall>c l p. c < smp_cpu_count s \<and> l < 64 \<and> p \<in> set (Q c l) \<longrightarrow>
        p_cpu (procs s p) = c \<and> p_priority (procs s p) = l) \<and>
     (\<forall>k. k < futex_size s * 2 \<longrightarrow> bucket_waiters s k = of_nat (length (W k)))"

lemma proc_relI:
  assumes "rings (lists s) (proc_heads s) (lay Q W)"
    "\<And>c l p. c < smp_cpu_count s \<Longrightarrow> l < 64 \<Longrightarrow> p \<in> set (Q c l) \<Longrightarrow>
        p_cpu (procs s p) = c \<and> p_priority (procs s p) = l"
    "\<And>k. k < futex_size s * 2 \<Longrightarrow> bucket_waiters s k = of_nat (length (W k))"
  shows "proc_rel s Q W"
  using assms unfolding proc_rel_def by blast

definition queued :: "'a proc_state_scheme \<Rightarrow> queues \<Rightarrow> u64 \<Rightarrow> bool" where
  "queued s Q p \<longleftrightarrow> (\<exists>c l. c < smp_cpu_count s \<and> l < 64 \<and> p \<in> set (Q c l))"

definition queues_free :: "'a proc_state_scheme \<Rightarrow> bool" where
  "queues_free s \<longleftrightarrow> (\<forall>c. c < smp_cpu_count s \<longrightarrow> \<not> sl_locked (spins s (QueueLock c)))"

section \<open>Spinlocks\<close>

lemma cpu_if_same [simp]: "c\<lparr>cpu_if := cpu_if c\<rparr> = c" "c\<lparr>cpu_if := b\<rparr>\<lparr>cpu_if := cpu_if c\<rparr> = c"
  by (cases c; simp)+

lemma interrupt_load_flag_eq: "interrupt_load_flag b c = c\<lparr>cpu_if := b\<rparr>"
  by (simp add: interrupt_load_flag_def interrupt_enable_preemption_def interrupt_disable_preemption_def)

definition taken :: "'a proc_state_scheme \<Rightarrow> spinlock" where
  "taken s = \<lparr>sl_locked = True, sl_owner = cpu_id (cpu s)\<rparr>"

definition given :: "'a proc_state_scheme \<Rightarrow> spinlock" where
  "given s = \<lparr>sl_locked = False, sl_owner = cpu_id (cpu s)\<rparr>"

lemma spin_lock_free:
  "\<not> sl_locked (spins s l) \<Longrightarrow> spin_lock l s =
     Ok (cpu_if (cpu s), s\<lparr>spins := (spins s)(l := taken s), cpu := (cpu s)\<lparr>cpu_if := False\<rparr>\<rparr>)"
  by (cases "spins s l") (simp add: spin_lock_def spinlock_lock_def Let_def interrupt_save_flag_def
      interrupt_disable_preemption_def taken_def)

lemma spin_unlock_taken:
  "spins s l = taken s \<Longrightarrow> spin_unlock l b s =
     Ok (s\<lparr>spins := (spins s)(l := given s), cpu := (cpu s)\<lparr>cpu_if := b\<rparr>\<rparr>)"
  by (simp add: spin_unlock_def spinlock_unlock_def taken_def given_def interrupt_load_flag_eq)

section \<open>The processor with the fewest processes\<close>

lemma word_less_inc: "(i :: u64) < n \<Longrightarrow> j < i + 1 \<longleftrightarrow> j < i \<or> j = i"
  using unat_inc[of i n] by (auto simp: word_less_nat_alt word_unat_eq_iff less_Suc_eq)

text \<open>\<open>ret\<close> is the best of the first \<open>i\<close> processors, or no processor has fewer than the initial
  bound.\<close>

lemma sched_pick_loop_least:
  assumes "\<And>j. j < i \<Longrightarrow> rc \<le> cnt j" "rc = cnt ret \<or> rc = -1" "ret < n"
  shows "sched_pick_loop cnt n i ret rc < n \<and> (\<forall>j < n. cnt (sched_pick_loop cnt n i ret rc) \<le> cnt j)"
  using assms
proof (induction cnt n i ret rc rule: sched_pick_loop.induct)
  case (1 cnt n i ret rc)
  note p = "1.prems"
  show ?case
  proof (cases "i < n")
    case True
    note lt = word_less_inc[OF True]
    show ?thesis
    proof (cases "cnt i < rc")
      case c: True
      have "sched_pick_loop cnt n i ret rc = sched_pick_loop cnt n (i + 1) i (cnt i)"
        using True c by (subst sched_pick_loop.simps) simp
      moreover have "cnt i \<le> cnt j" if "j < i + 1" for j
        using that p(1)[of j] c unfolding lt by (elim disjE) simp_all
      ultimately show ?thesis using "1.IH"(1)[OF True c] True by simp
    next
      case c: False
      have "sched_pick_loop cnt n i ret rc = sched_pick_loop cnt n (i + 1) ret rc"
        using True c by (subst sched_pick_loop.simps) simp
      moreover have "rc \<le> cnt j" if "j < i + 1" for j
        using that p(1)[of j] c unfolding lt by (elim disjE) simp_all
      ultimately show ?thesis using "1.IH"(2)[OF True c _ p(2,3)] by simp
    qed
  next
    case False
    then have e: "sched_pick_loop cnt n i ret rc = ret" by (subst sched_pick_loop.simps) simp
    have "cnt ret \<le> rc" using p(2) by (elim disjE) simp_all
    then have "cnt ret \<le> cnt j" if "j < n" for j
      using order.trans[OF _ p(1)] order.strict_trans2[OF that] False by (simp add: not_less)
    then show ?thesis unfolding e using p(3) by simp
  qed
qed

lemma sched_pick_cpu_least:
  assumes "0 < smp_cpu_count s"
  shows "sched_pick_cpu s < smp_cpu_count s"
    and "c < smp_cpu_count s \<Longrightarrow> process_count s (sched_pick_cpu s) \<le> process_count s c"
  using sched_pick_loop_least[of 0 "-1" "process_count s" 0 "smp_cpu_count s"] assms
  by (simp_all add: sched_pick_cpu_def del: word_not_simps)

section \<open>Queue operations\<close>

text \<open>The effect of making a process ready, as one update.\<close>

definition ready_state :: "u64 \<Rightarrow> 'a proc_state_scheme \<Rightarrow> 'a proc_state_scheme" where
  "ready_state p s = (let c = sched_pick_cpu s in
     s\<lparr>lists := list_insert (SchedNode p) (lprev (lists s) (ReadyHead c (p_priority (procs s p)))) (lists s),
       procs := (procs s)(p := (procs s p)\<lparr>p_cpu := c\<rparr>),
       spins := (spins s)(QueueLock c := given s),
       process_count := (process_count s)(c := process_count s c + 1)\<rparr>)"

definition unready_state :: "u64 \<Rightarrow> 'a proc_state_scheme \<Rightarrow> 'a proc_state_scheme" where
  "unready_state p s = (let c = p_cpu (procs s p) in
     s\<lparr>lists := list_remove (SchedNode p) (lists s),
       spins := (spins s)(QueueLock c := given s),
       process_count := (process_count s)(c := process_count s c - 1)\<rparr>)"

lemma do_sched_set_ready_eq:
  assumes "\<not> sl_locked (spins s (QueueLock (sched_pick_cpu s)))"
  shows "do_sched_set_ready p s = Ok (ready_state p s)"
  using assms
  by (simp add: do_sched_set_ready_def Let_def spin_lock_free spin_unlock_taken upd_lists_def upd_proc_def
      ready_state_def taken_def given_def)

lemma do_sched_remove_ready_eq:
  assumes "\<not> sl_locked (spins s (QueueLock (p_cpu (procs s p))))"
  shows "do_sched_remove_ready p s = Ok (unready_state p s)"
  using assms
  by (simp add: do_sched_remove_ready_def Let_def spin_lock_free spin_unlock_taken upd_lists_def
      unready_state_def taken_def given_def)

lemma ready_state_frame [simp]:
  "smp_cpu_count (ready_state p s) = smp_cpu_count s" "futex_size (ready_state p s) = futex_size s"
  "bucket_waiters (ready_state p s) = bucket_waiters s"
  "futex_entry_addr (ready_state p s) = futex_entry_addr s"
  "current_process (ready_state p s) = current_process s" "cpu (ready_state p s) = cpu s"
  "mutex_owner (ready_state p s) = mutex_owner s" "sched_enabled (ready_state p s) = sched_enabled s"
  "spins (ready_state p s) (BucketLock k) = spins s (BucketLock k)"
  "procs (ready_state p s) = (procs s)(p := (procs s p)\<lparr>p_cpu := sched_pick_cpu s\<rparr>)"
  by (simp_all add: ready_state_def Let_def)

lemma unready_state_frame [simp]:
  "smp_cpu_count (unready_state p s) = smp_cpu_count s" "futex_size (unready_state p s) = futex_size s"
  "bucket_waiters (unready_state p s) = bucket_waiters s"
  "futex_entry_addr (unready_state p s) = futex_entry_addr s"
  "current_process (unready_state p s) = current_process s" "cpu (unready_state p s) = cpu s"
  "mutex_owner (unready_state p s) = mutex_owner s" "sched_enabled (unready_state p s) = sched_enabled s"
  "spins (unready_state p s) (BucketLock k) = spins s (BucketLock k)"
  "procs (unready_state p s) = procs s"
  by (simp_all add: unready_state_def Let_def)

lemma queues_free_ready [simp]: "queues_free s \<Longrightarrow> queues_free (ready_state p s)"
  by (simp add: queues_free_def ready_state_def Let_def given_def)

lemma queues_free_unready [simp]: "queues_free s \<Longrightarrow> queues_free (unready_state p s)"
  by (simp add: queues_free_def unready_state_def Let_def given_def)

lemma proc_headsI [simp]: "ReadyHead c l \<in> proc_heads s \<longleftrightarrow> c < smp_cpu_count s \<and> l < 64"
  "FutexHead k \<in> proc_heads s \<longleftrightarrow> k < futex_size s * 2"
  by (auto simp: proc_heads_def)

lemma proc_headsE:
  assumes "a \<in> proc_heads s"
  obtains c l where "a = ReadyHead c l" "c < smp_cpu_count s" "l < 64"
    | k where "a = FutexHead k" "k < futex_size s * 2"
  using assms by (auto simp: proc_heads_def)

lemma sched_node_fresh:
  assumes "\<not> queued s Q p" "a \<in> proc_heads s"
  shows "SchedNode p \<notin> set (a # lay Q W a)"
  using assms(2,1) by (cases rule: proc_headsE) (auto simp: queued_def)

lemma lay_upd_ready: "(lay Q W)(ReadyHead c l := map SchedNode xs) = lay (Q(c := (Q c)(l := xs))) W"
proof
  fix a show "((lay Q W)(ReadyHead c l := map SchedNode xs)) a = lay (Q(c := (Q c)(l := xs))) W a"
    by (cases a) auto
qed

lemma lay_upd_futex: "(lay Q W)(FutexHead k := map FutexNode xs) = lay Q (W(k := xs))"
proof
  fix a show "((lay Q W)(FutexHead k := map FutexNode xs)) a = lay Q (W(k := xs)) a"
    by (cases a) auto
qed

lemma map_SchedNode_remove1: "map SchedNode (remove1 p xs) = remove1 (SchedNode p) (map SchedNode xs)"
  by (induction xs) auto

lemma map_FutexNode_remove1: "map FutexNode (remove1 p xs) = remove1 (FutexNode p) (map FutexNode xs)"
  by (induction xs) auto

lemma ready_state_rel:
  assumes R: "proc_rel s Q W" and p: "\<not> queued s Q p" "p_priority (procs s p) < 64" and n: "0 < smp_cpu_count s"
  defines "c \<equiv> sched_pick_cpu s" and "l \<equiv> p_priority (procs s p)"
  shows "proc_rel (ready_state p s) (Q(c := (Q c)(l := Q c l @ [p]))) W"
proof -
  have c: "c < smp_cpu_count s" unfolding c_def by (rule sched_pick_cpu_least(1)[OF n])
  have H: "proc_heads (ready_state p s) = proc_heads s" by (simp add: proc_heads_def)
  have h: "ReadyHead c l \<in> proc_heads s" using c p(2) by (simp add: l_def)
  have "rings (lists (ready_state p s)) (proc_heads s) ((lay Q W)(ReadyHead c l := lay Q W (ReadyHead c l) @ [SchedNode p]))"
    unfolding ready_state_def Let_def c_def[symmetric] l_def[symmetric]
    using rings_push_back[OF _ h sched_node_fresh[OF p(1)]] R by (simp add: proc_rel_def)
  also have "(lay Q W)(ReadyHead c l := lay Q W (ReadyHead c l) @ [SchedNode p]) =
      lay (Q(c := (Q c)(l := Q c l @ [p]))) W"
    using lay_upd_ready[of Q W c l "Q c l @ [p]"] by simp
  finally have "rings (lists (ready_state p s)) (proc_heads s) (lay (Q(c := (Q c)(l := Q c l @ [p]))) W)" .
  moreover have "p_cpu (procs (ready_state p s) q) = d \<and> p_priority (procs (ready_state p s) q) = m"
    if "d < smp_cpu_count s" "m < 64" "q \<in> set ((Q(c := (Q c)(l := Q c l @ [p]))) d m)" for d m q
  proof (cases "q = p")
    case True
    then have "d = c \<and> m = l" using that p(1) by (auto simp: queued_def split: if_splits)
    then show ?thesis using True by (simp add: c_def l_def)
  next
    case False
    then have "q \<in> set (Q d m)" using that(3) by (auto split: if_splits)
    then show ?thesis using R that False by (simp add: proc_rel_def)
  qed
  ultimately show ?thesis using R unfolding proc_rel_def H ready_state_frame(1-3) by blast
qed

lemma queued_mem:
  assumes "proc_rel s Q W" "queued s Q p"
  shows "p \<in> set (Q (p_cpu (procs s p)) (p_priority (procs s p)))"
    "p_cpu (procs s p) < smp_cpu_count s" "p_priority (procs s p) < 64"
  using assms by (auto simp: queued_def proc_rel_def)

lemma queued_once:
  assumes "proc_rel s Q W" "c < smp_cpu_count s" "l < 64" "p \<in> set (Q c l)"
  shows "distinct (Q c l)" "c = p_cpu (procs s p)" "l = p_priority (procs s p)"
proof -
  have "ring (lists s) (ReadyHead c l) (lay Q W (ReadyHead c l))"
    using assms(1-3) by (intro ringsD[of "lists s" "proc_heads s"]) (simp_all add: proc_rel_def)
  then have "distinct (map SchedNode (Q c l))" using ring_distinct by fastforce
  then show "distinct (Q c l)" by (simp add: distinct_map)
  show "c = p_cpu (procs s p)" "l = p_priority (procs s p)" using assms by (auto simp: proc_rel_def)
qed

text \<open>Removal from the queues, with the process then changed in any way.\<close>

lemma remove_rings:
  assumes R: "proc_rel s Q W" and q: "queued s Q p"
  defines "c \<equiv> p_cpu (procs s p)" and "l \<equiv> p_priority (procs s p)"
  shows "rings (list_remove (SchedNode p) (lists s)) (proc_heads s) (lay (Q(c := (Q c)(l := remove1 p (Q c l)))) W)"
    and "d < smp_cpu_count s \<Longrightarrow> m < 64 \<Longrightarrow> p \<notin> set ((Q(c := (Q c)(l := remove1 p (Q c l)))) d m)"
proof -
  note q' = queued_mem[OF R q, folded c_def l_def]
  have "rings (list_remove (SchedNode p) (lists s)) (proc_heads s)
      ((lay Q W)(ReadyHead c l := remove1 (SchedNode p) (lay Q W (ReadyHead c l))))"
  proof (rule rings_remove)
    show "rings (lists s) (proc_heads s) (lay Q W)" using R by (simp add: proc_rel_def)
    show "ReadyHead c l \<in> proc_heads s" using q'(2,3) by simp
    show "SchedNode p \<in> set (lay Q W (ReadyHead c l))" using q'(1) by simp
  qed
  then show "rings (list_remove (SchedNode p) (lists s)) (proc_heads s) (lay (Q(c := (Q c)(l := remove1 p (Q c l)))) W)"
    using lay_upd_ready[of Q W c l "remove1 p (Q c l)"] by (simp add: map_SchedNode_remove1)
  assume dm: "d < smp_cpu_count s" "m < 64"
  show "p \<notin> set ((Q(c := (Q c)(l := remove1 p (Q c l)))) d m)"
  proof (cases "d = c \<and> m = l")
    case True
    then show ?thesis using queued_once(1)[OF R q'(2,3,1)] by simp
  next
    case False
    have "p \<notin> set (Q d m)" using queued_once(2,3)[OF R dm] False unfolding c_def l_def by blast
    then show ?thesis using False by auto
  qed
qed

lemma unready_state_rel:
  assumes R: "proc_rel s Q W" and q: "queued s Q p"
  defines "c \<equiv> p_cpu (procs s p)" and "l \<equiv> p_priority (procs s p)"
  shows "proc_rel (unready_state p s) (Q(c := (Q c)(l := remove1 p (Q c l)))) W"
    and "\<not> queued (unready_state p s) (Q(c := (Q c)(l := remove1 p (Q c l)))) p"
proof -
  note r = remove_rings[OF R q, folded c_def l_def]
  have H: "proc_heads (unready_state p s) = proc_heads s" by (simp add: proc_heads_def)
  have L: "lists (unready_state p s) = list_remove (SchedNode p) (lists s)"
    by (simp add: unready_state_def Let_def)
  have "p_cpu (procs s q) = d \<and> p_priority (procs s q) = m"
    if "d < smp_cpu_count s" "m < 64" "q \<in> set ((Q(c := (Q c)(l := remove1 p (Q c l)))) d m)" for d m q
  proof -
    have "q \<in> set (Q d m)" using that(3) set_remove1_subset[of p "Q c l"] by (auto split: if_splits)
    then show ?thesis using R that(1,2) by (simp add: proc_rel_def)
  qed
  then show "proc_rel (unready_state p s) (Q(c := (Q c)(l := remove1 p (Q c l)))) W"
    using r(1) R unfolding proc_rel_def H L unready_state_frame by blast
  show "\<not> queued (unready_state p s) (Q(c := (Q c)(l := remove1 p (Q c l)))) p"
    unfolding queued_def using r(2) by auto
qed

section \<open>The choice of the next process\<close>

definition top_level :: "queues \<Rightarrow> u64 \<Rightarrow> nat \<Rightarrow> bool" where
  "top_level Q c l \<longleftrightarrow> l < 64 \<and> Q c (of_nat l) \<noteq> [] \<and> (\<forall>m. l < m \<and> m < 64 \<longrightarrow> Q c (of_nat m) = [])"

lemma of_nat_level: "l < 64 \<Longrightarrow> (of_nat l :: u64) < 64"
  by (simp add: word_less_nat_alt unat_of_nat)

lemma of_nat_level_less: "l < 64 \<Longrightarrow> m < 64 \<Longrightarrow> (of_nat l :: u64) < of_nat m \<longleftrightarrow> l < m"
  by (simp add: word_less_nat_alt unat_of_nat)

lemma ready_ring:
  assumes "proc_rel s Q W" "smp_current_cpu_id s < smp_cpu_count s" "l < 64"
  shows "ring (lists s) (READY_LIST l s) (map SchedNode (Q (smp_current_cpu_id s) (of_nat l)))"
proof -
  have "ring (lists s) (ReadyHead (smp_current_cpu_id s) (of_nat l)) (lay Q W (ReadyHead (smp_current_cpu_id s) (of_nat l)))"
    by (rule ringsD[of _ "proc_heads s"]) (use assms of_nat_level in \<open>auto simp: proc_rel_def\<close>)
  then show ?thesis by (simp add: READY_LIST_def)
qed

lemma sched_pick_from_top:
  assumes R: "proc_rel s Q W" and c: "smp_current_cpu_id s < smp_cpu_count s"
    and t: "top_level Q (smp_current_cpu_id s) l" "l < k" "k \<le> 64"
  shows "sched_pick_from k s = hd (Q (smp_current_cpu_id s) (of_nat l))"
  using t(2,3)
proof (induction k)
  case (Suc k)
  note r = ready_ring[OF R c, of k]
  show ?case
  proof (cases "k = l")
    case True
    then have "Q (smp_current_cpu_id s) (of_nat k) \<noteq> []" using t(1) by (simp add: top_level_def)
    then show ?thesis using ring_is_empty[OF r] ring_first[OF r] Suc.prems True
      by (auto simp: neq_Nil_conv)
  next
    case False
    then have "Q (smp_current_cpu_id s) (of_nat k) = []" using t(1) Suc.prems by (simp add: top_level_def)
    then show ?thesis using ring_is_empty[OF r] Suc False by simp
  qed
qed simp

lemma sched_pick_next_top:
  assumes "proc_rel s Q W" "smp_current_cpu_id s < smp_cpu_count s" "top_level Q (smp_current_cpu_id s) l"
  shows "sched_pick_next s = hd (Q (smp_current_cpu_id s) (of_nat l))"
  unfolding sched_pick_next_def by (rule sched_pick_from_top[OF assms]) (use assms(3) in \<open>auto simp: top_level_def\<close>)

lemma sched_top_level_spec:
  assumes R: "proc_rel s Q W" and c: "smp_current_cpu_id s < smp_cpu_count s"
    and t: "top_level Q (smp_current_cpu_id s) l" "l \<le> k" "k < 64"
  shows "sched_top_level k s = l"
  using t(2,3)
proof (induction k)
  case (Suc k)
  note r = ready_ring[OF R c, of "Suc k"]
  show ?case
  proof (cases "Suc k = l")
    case True
    then have "Q (smp_current_cpu_id s) (of_nat (Suc k)) \<noteq> []" using t(1) by (simp add: top_level_def)
    then have "sched_top_level (Suc k) s = Suc k" using ring_is_empty[OF r] Suc.prems by simp
    then show ?thesis using True by simp
  next
    case False
    then have "l < Suc k" using Suc.prems by simp
    then have "Q (smp_current_cpu_id s) (of_nat (Suc k)) = []"
      using t(1) Suc.prems(2) unfolding top_level_def by blast
    then show ?thesis using ring_is_empty[OF r] Suc False by simp
  qed
qed simp

lemma sched_should_preempt_spec:
  assumes "proc_rel s Q W" "smp_current_cpu_id s < smp_cpu_count s" "top_level Q (smp_current_cpu_id s) l"
  shows "sched_should_preempt s \<longleftrightarrow> p_priority (procs s (current_process s)) < of_nat l"
  unfolding sched_should_preempt_def
  using sched_top_level_spec[OF assms, of 63] assms(3) by (simp add: top_level_def)

text \<open>A process in the queue of this processor bounds the highest level.\<close>

lemma top_level_exists:
  assumes "Q c (of_nat m) \<noteq> []" "m < 64"
  shows "\<exists>l. top_level Q c l \<and> m \<le> l"
proof -
  let ?S = "{l. l < 64 \<and> Q c (of_nat l) \<noteq> []}"
  have f: "finite ?S" by simp
  have m: "m \<in> ?S" using assms by simp
  have "Max ?S \<in> ?S" using f m by (intro Max_in) auto
  moreover have "Q c (of_nat k) = []" if "Max ?S < k" "k < 64" for k
    using that Max_ge[OF f, of k] by (metis (mono_tags, lifting) mem_Collect_eq not_le)
  ultimately show ?thesis using Max_ge[OF f m] unfolding top_level_def by blast
qed

section \<open>Moving a process\<close>

definition q_remove :: "u64 \<Rightarrow> u64 \<Rightarrow> u64 \<Rightarrow> queues \<Rightarrow> queues" where
  "q_remove c l p Q = Q(c := (Q c)(l := remove1 p (Q c l)))"

definition q_append :: "u64 \<Rightarrow> u64 \<Rightarrow> u64 \<Rightarrow> queues \<Rightarrow> queues" where
  "q_append c l p Q = Q(c := (Q c)(l := Q c l @ [p]))"

lemmas set_ready_rel = ready_state_rel[folded q_append_def]
lemmas unready_rel = unready_state_rel[folded q_remove_def]

lemma update_position_rel:
  assumes R: "proc_rel s Q W" and q: "queued s Q p" and c: "p_cpu (procs s p) = smp_current_cpu_id s"
    and f: "p_cpu (f (procs s p)) = p_cpu (procs s p)" "p_priority (f (procs s p)) < 64"
  shows "proc_rel (do_sched_update_position p (upd_proc p f s))
    (q_append (smp_current_cpu_id s) (p_priority (f (procs s p))) p
      (q_remove (smp_current_cpu_id s) (p_priority (procs s p)) p Q)) W"
proof -
  let ?c = "smp_current_cpu_id s" and ?l = "p_priority (procs s p)" and ?m = "p_priority (f (procs s p))"
  let ?Q1 = "q_remove ?c ?l p Q" and ?h = "list_remove (SchedNode p) (lists s)"
  let ?t = "do_sched_update_position p (upd_proc p f s)"
  note r = remove_rings[OF R q, unfolded c, folded q_remove_def]
  note q' = queued_mem[OF R q, unfolded c]
  have t: "proc_heads ?t = proc_heads s" "smp_cpu_count ?t = smp_cpu_count s" "futex_size ?t = futex_size s"
    "bucket_waiters ?t = bucket_waiters s" "procs ?t = (procs s)(p := f (procs s p))"
    "lists ?t = list_insert (SchedNode p) (lprev ?h (ReadyHead ?c ?m)) ?h"
    by (simp_all add: do_sched_update_position_def Let_def proc_heads_def upd_lists_def upd_proc_def smp_current_cpu_id_def)
  have nq: "\<not> queued s ?Q1 p" using r(2) by (auto simp: queued_def)
  have "rings (lists ?t) (proc_heads s) ((lay ?Q1 W)(ReadyHead ?c ?m := lay ?Q1 W (ReadyHead ?c ?m) @ [SchedNode p]))"
    unfolding t by (rule rings_push_back[OF r(1) _ sched_node_fresh[OF nq]]) (use q' f in simp_all)
  also have "(lay ?Q1 W)(ReadyHead ?c ?m := lay ?Q1 W (ReadyHead ?c ?m) @ [SchedNode p]) = lay (q_append ?c ?m p ?Q1) W"
    using lay_upd_ready[of ?Q1 W ?c ?m "?Q1 ?c ?m @ [p]"] by (simp add: q_append_def)
  finally have rg: "rings (lists ?t) (proc_heads s) (lay (q_append ?c ?m p ?Q1) W)" .
  have "p_cpu (procs ?t x) = d \<and> p_priority (procs ?t x) = k"
    if a: "d < smp_cpu_count s" "k < 64" "x \<in> set (q_append ?c ?m p ?Q1 d k)" for d k x
  proof (cases "x = p")
    case True
    then have "d = ?c \<and> k = ?m" using a nq by (auto simp: queued_def q_append_def split: if_splits)
    then show ?thesis using True f c by (simp add: t)
  next
    case False
    then have "x \<in> set (?Q1 d k)" using a(3) by (auto simp: q_append_def split: if_splits)
    then have "x \<in> set (Q d k)" using set_remove1_subset[of p] by (auto simp: q_remove_def split: if_splits)
    then show ?thesis using R a(1,2) False by (simp add: t proc_rel_def)
  qed
  then show ?thesis using rg R unfolding proc_rel_def t(1-4) by blast
qed

lemma update_position_fields [simp]:
  "procs (do_sched_update_position p s) = procs s" "spins (do_sched_update_position p s) = spins s"
  "cpu (do_sched_update_position p s) = cpu s" "current_process (do_sched_update_position p s) = current_process s"
  "smp_cpu_count (do_sched_update_position p s) = smp_cpu_count s"
  by (simp_all add: do_sched_update_position_def Let_def)

text \<open>Facts that do not look at the lock words, the processor state and the timer.\<close>

lemma proc_rel_cong:
  assumes "lists t = lists s" "smp_cpu_count t = smp_cpu_count s"
    "futex_size t = futex_size s" "bucket_waiters t = bucket_waiters s"
    "\<And>p. p_cpu (procs t p) = p_cpu (procs s p)" "\<And>p. p_priority (procs t p) = p_priority (procs s p)"
  shows "proc_rel t Q W = proc_rel s Q W"
  using assms by (simp add: proc_rel_def proc_heads_def)

lemma clampped_ok:
  assumes "clampped_priority_change d p = Ok q"
  shows "p_cpu q = p_cpu p \<and> p_priority q < 64 \<and> 1 \<le> p_priority q \<and> q = p\<lparr>p_priority := p_priority q\<rparr>"
proof -
  have lim: "1 \<le> CLAMP_CASE lo hi x \<and> CLAMP_CASE lo hi x < 64" if "1 \<le> lo" "lo \<le> hi" "hi < 64" for lo hi x
  proof -
    consider "x > hi" | "\<not> x > hi" "x < lo" | "\<not> x > hi" "\<not> x < lo" by blast
    then show ?thesis
    proof cases
      case 1
      then show ?thesis using order.trans[OF that(1,2)] that(3) by (simp add: CLAMP_CASE_def)
    next
      case 2
      then show ?thesis using that(1) order.strict_trans1[OF that(2,3)] by (simp add: CLAMP_CASE_def)
    next
      case 3
      then have "CLAMP_CASE lo hi x = x" by (simp add: CLAMP_CASE_def)
      then show ?thesis using 3 order.trans[OF that(1), of x] order.strict_trans1[OF _ that(3), of x]
        by (simp add: not_less)
    qed
  qed
  show ?thesis using assms lim[of NORMAL_LEVEL_MIN NORMAL_LEVEL_MAX] lim[of DRIVER_LEVEL_MIN DRIVER_LEVEL_MAX]
      lim[of RT_LEVEL_MIN RT_LEVEL_MAX] lim[of RT_DRIVER_LEVEL_MIN RT_DRIVER_LEVEL_MAX]
    by (auto simp: clampped_priority_change_def Let_def bind_res_Ok_iff level_defs split: if_splits)
qed

lemma clampped_class:
  assumes "p_class p \<le> 4"
  shows "\<exists>q. clampped_priority_change d p = Ok q"
proof -
  obtain n where n: "p_class p = of_nat n" "n \<le> 4"
    using that[of "unat (p_class p)"] assms by (simp add: word_le_nat_alt)
  then have "n = 0 \<or> n = 1 \<or> n = 2 \<or> n = 3 \<or> n = 4" by linarith
  then have "p_class p \<in> {0, 1, 2, 3, 4}" using n(1) by (elim disjE) simp_all
  then show ?thesis by (auto simp: clampped_priority_change_def Let_def class_defs)
qed

section \<open>The tick\<close>

definition timer_room :: "'a timer_state_scheme \<Rightarrow> bool" where
  "timer_room s \<longleftrightarrow> tsc_count s \<noteq> 0 \<and> timer_heap_end s < timer_heap_size s"

lemma timer_set_timeout_room:
  assumes "timer_room s"
  shows "\<exists>e h. timer_set_timeout d c a s = Ok (s\<lparr>timer_heap_end := e, timer_elems := h\<rparr>)"
  using assms by (auto simp: timer_room_def timer_set_timeout_def timer_get_timestamp_def timer_heap_insert_def Let_def)

text \<open>The state in which the tick decides: the timeout is set and the queue lock taken.\<close>

definition tick_state :: "'a proc_state_scheme \<Rightarrow> nat \<Rightarrow> (nat \<Rightarrow> timer_elem) \<Rightarrow> 'a proc_state_scheme" where
  "tick_state s e h = s\<lparr>timer_heap_end := e, timer_elems := h,
     spins := (spins s)(QueueLock (smp_current_cpu_id s) := taken s), cpu := (cpu s)\<lparr>cpu_if := False\<rparr>\<rparr>"

lemma tick_state_fields [simp]:
  "lists (tick_state s e h) = lists s" "procs (tick_state s e h) = procs s"
  "smp_cpu_count (tick_state s e h) = smp_cpu_count s" "futex_size (tick_state s e h) = futex_size s"
  "bucket_waiters (tick_state s e h) = bucket_waiters s" "current_process (tick_state s e h) = current_process s"
  "smp_current_cpu_id (tick_state s e h) = smp_current_cpu_id s"
  "spins (tick_state s e h) (QueueLock (smp_current_cpu_id s)) = taken (tick_state s e h)"
  by (simp_all add: tick_state_def smp_current_cpu_id_def taken_def)

lemma tick_state_rel [simp]: "proc_rel (tick_state s e h) Q W = proc_rel s Q W"
  by (rule proc_rel_cong) simp_all

text \<open>The end of the tick: the queue lock is released with the saved interrupt flag.\<close>

lemma tick_unlock:
  assumes "spins t (QueueLock c) = taken t"
  obtains u where "spin_unlock (QueueLock c) b t = Ok u" "lists u = lists t" "procs u = procs t"
    "smp_cpu_count u = smp_cpu_count t" "futex_size u = futex_size t" "bucket_waiters u = bucket_waiters t"
    "current_process u = current_process t"
  using spin_unlock_taken[OF assms, of b] by simp

lemma sched_tick_start:
  assumes "timer_room s" "\<not> sl_locked (spins s (QueueLock (smp_current_cpu_id s)))"
  obtains e h where "sched_tick env s = sched_tick_locked env (QueueLock (smp_current_cpu_id s))
    (current_process s) (cpu_if (cpu s)) (tick_state s e h)"
proof -
  obtain e h where t: "timer_set_timeout 10 (sched_tick_addr s) 0 s = Ok (s\<lparr>timer_heap_end := e, timer_elems := h\<rparr>)"
    using timer_set_timeout_room[OF assms(1)] by blast
  have "spin_lock (QueueLock (smp_current_cpu_id s)) (s\<lparr>timer_heap_end := e, timer_elems := h\<rparr>) =
      Ok (cpu_if (cpu s), tick_state s e h)"
    using assms(2) by (subst spin_lock_free) (simp_all add: tick_state_def taken_def)
  then show thesis using t by (intro that[of e h]) (simp add: sched_tick_def Let_def smp_current_cpu_id_def tick_state_def)
qed

lemma sched_disable_fields [simp]:
  "lists (sched_disable s) = lists s" "procs (sched_disable s) = procs s"
  "smp_cpu_count (sched_disable s) = smp_cpu_count s" "futex_size (sched_disable s) = futex_size s"
  "bucket_waiters (sched_disable s) = bucket_waiters s" "current_process (sched_disable s) = current_process s"
  by (simp_all add: sched_disable_def)

lemma sched_tick_preempt:
  assumes R: "proc_rel s Q W" and q: "queued s Q (current_process s)"
    and c: "p_cpu (procs s (current_process s)) = smp_current_cpu_id s"
    and t: "timer_room s" "\<not> sl_locked (spins s (QueueLock (smp_current_cpu_id s)))"
    and l: "top_level Q (smp_current_cpu_id s) l" "p_priority (procs s (current_process s)) < of_nat l"
  defines "me \<equiv> current_process s" and "k \<equiv> smp_current_cpu_id s"
  shows "\<exists>u. sched_tick env s = bind_res (set_quantum (hd (Q k (of_nat l))) u) (process_switch_context env (hd (Q k (of_nat l)))) \<and>
    proc_rel u (q_append k (p_priority (procs s me)) me (q_remove k (p_priority (procs s me)) me Q)) W \<and>
    procs u = procs s \<and> current_process u = me"
proof -
  have k: "k < smp_cpu_count s" using queued_mem(2)[OF R q] c by (simp add: k_def)
  obtain e h where T: "sched_tick env s = sched_tick_locked env (QueueLock k) me (cpu_if (cpu s)) (tick_state s e h)"
    unfolding me_def k_def by (rule sched_tick_start[OF t])
  let ?u = "tick_state s e h"
  have d: "sched_should_preempt ?u" "sched_pick_next ?u = hd (Q k (of_nat l))"
    using sched_should_preempt_spec[of ?u Q W l] sched_pick_next_top[of ?u Q W l] R k l by (simp_all add: k_def)
  let ?v = "do_sched_update_position me (tick_state s e h)"
  have "proc_rel (do_sched_update_position me (upd_proc me (\<lambda>p. p) (tick_state s e h)))
    (q_append k (p_priority (procs s me)) me (q_remove k (p_priority (procs s me)) me Q)) W"
    using update_position_rel[of "tick_state s e h" Q W me "\<lambda>p. p"] R q c queued_mem(3)[OF R q]
    by (simp add: me_def k_def queued_def)
  moreover have "upd_proc me (\<lambda>p. p) (tick_state s e h) = tick_state s e h" by (simp add: upd_proc_def)
  ultimately have v: "proc_rel ?v (q_append k (p_priority (procs s me)) me (q_remove k (p_priority (procs s me)) me Q)) W"
    by simp
  have tk: "spins ?v (QueueLock k) = taken ?v" by (simp add: k_def taken_def)
  obtain u where u: "spin_unlock (QueueLock k) (cpu_if (cpu s)) ?v = Ok u" "lists u = lists ?v" "procs u = procs ?v"
    "smp_cpu_count u = smp_cpu_count ?v" "futex_size u = futex_size ?v" "bucket_waiters u = bucket_waiters ?v"
    "current_process u = current_process ?v"
    by (rule tick_unlock[OF tk])
  have "proc_rel (sched_disable u) Q' W = proc_rel ?v Q' W" for Q'
    by (rule proc_rel_cong) (simp_all add: u)
  then show ?thesis using T d u v
    by (intro exI[of _ "sched_disable u"]) (simp add: sched_tick_locked_def Let_def me_def)
qed

lemma sched_tick_no_preempt:
  assumes R: "proc_rel s Q W" and q: "queued s Q (current_process s)"
    and c: "p_cpu (procs s (current_process s)) = smp_current_cpu_id s"
    and t: "timer_room s" "\<not> sl_locked (spins s (QueueLock (smp_current_cpu_id s)))"
    and l: "top_level Q (smp_current_cpu_id s) l" "\<not> p_priority (procs s (current_process s)) < of_nat l"
  obtains e h where "sched_tick env s = (let
      me = current_process s; k = smp_current_cpu_id s;
      s' = upd_proc me (\<lambda>p. p\<lparr>p_quantum := p_quantum p - 10\<rparr>) (tick_state s e h)
    in if p_quantum (procs s me) = 10
         then bind_res (change_priority me (-1) s') (\<lambda>s'. let
           s' = do_sched_update_position me s';
           nxt = sched_pick_next s'
         in if nxt \<noteq> me
            then bind_res (spin_unlock (QueueLock k) (cpu_if (cpu s)) s') (\<lambda>s.
                 bind_res (set_quantum nxt (sched_disable s)) (process_switch_context env nxt))
            else spin_unlock (QueueLock k) (cpu_if (cpu s)) s')
         else spin_unlock (QueueLock k) (cpu_if (cpu s)) s')"
proof -
  have k: "smp_current_cpu_id s < smp_cpu_count s" using queued_mem(2)[OF R q] c by simp
  obtain e h where T: "sched_tick env s = sched_tick_locked env (QueueLock (smp_current_cpu_id s))
      (current_process s) (cpu_if (cpu s)) (tick_state s e h)"
    by (rule sched_tick_start[OF t])
  have "\<not> sched_should_preempt (tick_state s e h)"
    using sched_should_preempt_spec[of "tick_state s e h" Q W l] R k l by simp
  then show thesis using T by (intro that[of e h]) (simp add: sched_tick_locked_def Let_def)
qed

lemma sched_tick_continue:
  assumes "proc_rel s Q W" "queued s Q (current_process s)"
    "p_cpu (procs s (current_process s)) = smp_current_cpu_id s" "timer_room s"
    "\<not> sl_locked (spins s (QueueLock (smp_current_cpu_id s)))"
    "top_level Q (smp_current_cpu_id s) l" "\<not> p_priority (procs s (current_process s)) < of_nat l"
    and n: "p_quantum (procs s (current_process s)) \<noteq> 10"
  defines "me \<equiv> current_process s"
  shows "\<exists>t. sched_tick env s = Ok t \<and> proc_rel t Q W \<and> current_process t = me \<and>
    procs t = (procs s)(me := (procs s me)\<lparr>p_quantum := p_quantum (procs s me) - 10\<rparr>)"
proof -
  let ?f = "\<lambda>p. p\<lparr>p_quantum := p_quantum p - 10\<rparr>"
  obtain e h where T: "sched_tick env s =
      spin_unlock (QueueLock (smp_current_cpu_id s)) (cpu_if (cpu s)) (upd_proc me ?f (tick_state s e h))"
    using sched_tick_no_preempt[OF assms(1-7), of env] n by (auto simp: Let_def me_def)
  let ?v = "upd_proc me ?f (tick_state s e h)"
  have tk: "spins ?v (QueueLock (smp_current_cpu_id s)) = taken ?v" by (simp add: taken_def)
  obtain u where u: "spin_unlock (QueueLock (smp_current_cpu_id s)) (cpu_if (cpu s)) ?v = Ok u" "lists u = lists ?v" "procs u = procs ?v"
    "smp_cpu_count u = smp_cpu_count ?v" "futex_size u = futex_size ?v" "bucket_waiters u = bucket_waiters ?v"
    "current_process u = current_process ?v"
    by (rule tick_unlock[OF tk])
  have "futex_size ?v = futex_size s" by (simp add: upd_proc_def)
  then have "proc_rel u Q W = proc_rel s Q W"
    by (intro proc_rel_cong) (simp_all add: u)
  then show ?thesis using T u assms(1) by (simp add: me_def)
qed

text \<open>A process that uses up its quantum moves down one level and behind the processes there.\<close>

lemma sched_tick_expired:
  assumes R: "proc_rel s Q W" and q: "queued s Q (current_process s)"
    and cpu: "p_cpu (procs s (current_process s)) = smp_current_cpu_id s" and "timer_room s"
    "\<not> sl_locked (spins s (QueueLock (smp_current_cpu_id s)))"
    "top_level Q (smp_current_cpu_id s) l" "\<not> p_priority (procs s (current_process s)) < of_nat l"
    and n: "p_quantum (procs s (current_process s)) = 10"
    and p': "clampped_priority_change (-1) (procs s (current_process s)) = Ok p'"
  defines "me \<equiv> current_process s" and "k \<equiv> smp_current_cpu_id s"
  defines "Q' \<equiv> q_append k (p_priority p') me (q_remove k (p_priority (procs s me)) me Q)"
  assumes l': "top_level Q' k l'"
  shows "\<exists>u. proc_rel u Q' W \<and> current_process u = me \<and> procs u = (procs s)(me := p'\<lparr>p_quantum := 0\<rparr>) \<and>
    sched_tick env s = (let nxt = hd (Q' k (of_nat l')) in
      if nxt = me then Ok u else bind_res (set_quantum nxt (sched_disable u)) (process_switch_context env nxt))"
proof -
  let ?f = "\<lambda>p. p\<lparr>p_quantum := p_quantum p - 10\<rparr>"
  obtain e h where T: "sched_tick env s = bind_res (change_priority me (-1) (upd_proc me ?f (tick_state s e h))) (\<lambda>s'. let
           s' = do_sched_update_position me s';
           nxt = sched_pick_next s'
         in if nxt \<noteq> me
            then bind_res (spin_unlock (QueueLock k) (cpu_if (cpu s)) s') (\<lambda>s.
                 bind_res (set_quantum nxt (sched_disable s)) (process_switch_context env nxt))
            else spin_unlock (QueueLock k) (cpu_if (cpu s)) s')"
    unfolding me_def k_def using sched_tick_no_preempt[OF assms(1-7), of env] n by (auto simp: Let_def)
  let ?p = "p'\<lparr>p_quantum := 0\<rparr>" and ?u = "tick_state s e h"
  have "clampped_priority_change (-1) (?f (procs s me)) = Ok ?p"
    using p' n by (auto simp: clampped_priority_change_def Let_def bind_res_Ok_iff me_def split: if_splits)
  then have c: "change_priority me (-1) (upd_proc me ?f ?u) = Ok (upd_proc me (\<lambda>_. ?p) ?u)"
    by (simp add: change_priority_def upd_proc_def)
  let ?v = "do_sched_update_position me (upd_proc me (\<lambda>_. ?p) ?u)"
  have v: "proc_rel ?v Q' W"
    using update_position_rel[of ?u Q W me "\<lambda>_. ?p"] R q cpu clampped_ok[OF p']
    by (simp add: me_def k_def queued_def Q'_def)
  have k: "smp_current_cpu_id ?v = k" "smp_cpu_count ?v = smp_cpu_count s"
    by (simp_all add: k_def smp_current_cpu_id_def) (simp add: tick_state_def)
  have nx: "sched_pick_next ?v = hd (Q' k (of_nat l'))"
    using sched_pick_next_top[OF v, of l'] l' k queued_mem(2)[OF R q] cpu by (simp add: k_def)
  have tk: "spins ?v (QueueLock k) = taken ?v" by (simp add: k_def taken_def)
  obtain u where u: "spin_unlock (QueueLock k) (cpu_if (cpu s)) ?v = Ok u" "lists u = lists ?v" "procs u = procs ?v"
    "smp_cpu_count u = smp_cpu_count ?v" "futex_size u = futex_size ?v" "bucket_waiters u = bucket_waiters ?v"
    "current_process u = current_process ?v"
    by (rule tick_unlock[OF tk])
  have "proc_rel u Q' W = proc_rel ?v Q' W" by (rule proc_rel_cong) (simp_all add: u)
  then show ?thesis using T c nx u v by (intro exI[of _ u]) (simp add: Let_def me_def)
qed

text \<open>The quantum of a process that was not given a new one runs through all multiples of 10
  before it is 0 again.\<close>

lemma quantum_no_zero:
  assumes "0 < k" "k < 2 ^ 63"
  shows "(0 :: u64) - 10 * of_nat k \<noteq> 0"
proof
  assume "(0 :: u64) - 10 * of_nat k = 0"
  then have "(of_nat (10 * k) :: u64) = 0" by simp
  then have "2 * 2 ^ 63 dvd 2 * (5 * k)" by (subst (asm) word_of_nat_eq_0_iff) simp
  then have "2 ^ 63 dvd 5 * k" by (subst (asm) dvd_times_left_cancel_iff) simp_all
  moreover have "coprime ((2 :: nat) ^ 63) 5" unfolding coprime_power_left_iff by (simp add: coprime_left_2_iff_odd)
  ultimately have "2 ^ 63 dvd k" using coprime_dvd_mult_right_iff by blast
  then show False using assms dvd_imp_le by fastforce
qed

section \<open>Properties\<close>

text \<open>One processor, a process \<open>0x5000\<close> of the normal class at level 1, which is running, and a
  process \<open>0x6000\<close> at level 15.\<close>

definition demo_process :: "u64 \<Rightarrow> u64 \<Rightarrow> process" where
  "demo_process pr q = \<lparr>p_pid = 1, p_retval = 0, p_address_space = 0x7000, p_state = PROCESS_STATE_READY,
     p_terminate_flag = False, p_kobjects = 0, p_kobject_size = 0, p_parent = 0, p_exited_child_count = 0,
     p_resume = AtSwitch, p_interrupt_flag = True, p_simd_state = 0, p_fsbase = 0, p_class = SCHED_CLASS_NORMAL,
     p_cpu = 0, p_priority = pr, p_quantum = q, p_kernel_stack = 0\<rparr>"

definition demo_sched :: "u64 \<Rightarrow> proc_state" where
  "demo_sched q = \<lparr>mutex_owner = (\<lambda>_. 0), current_process = 0x5000, pm_map = (\<lambda>_. 255), pm_upper_limit = 0,
     phys = (\<lambda>_. 0), cr3 = 0, as_pml4_paddr = (\<lambda>_. 0), as_ref_count = (\<lambda>_. 0),
     chunk_list_head = 0x8000, kh_list = \<lparr>lprev = id, lnext = id\<rparr>, kh_word = (\<lambda>_. 0),
     timer_heap = 0x1020, timer_elems = (\<lambda>_. \<lparr>te_deadline = 0, te_callback = 0, te_data = 0\<rparr>),
     timer_heap_end = 1, timer_heap_size = 32, tsc = 0, tsc_count = 1, apic_timer_count = 1,
     lists = \<lparr>lprev = id, lnext = id\<rparr>,
     procs = (\<lambda>p. if p = 0x5000 then demo_process 1 q else demo_process 15 q),
     kernel_proc = 0, spins = (\<lambda>_. \<lparr>sl_locked = False, sl_owner = 0\<rparr>), cpu = \<lparr>cpu_id = 0, cpu_if = True\<rparr>,
     smp_cpu_count = 1, sched_enabled = True, fsbase_msr = 0, tss_rsp0 = 0, current_kernel_stack = 0,
     sched_tick_addr = 0x100, queue = 0x9000, process_count = (\<lambda>_. 0), futex_hash = 0xa000, futex_size = 4,
     bucket_waiters = (\<lambda>_. 0), futex_entry_addr = (\<lambda>_. 0), pid_bitmap = (\<lambda>_. 0),
     simd_state_size = 512, simd_state_alignment = 16,
     kobjs = (\<lambda>_ _. \<lparr>ko_type = 0, ko_ptr = 0\<rparr>), kmem = (\<lambda>_. 0),
     ports = (\<lambda>_. \<lparr>po_name = 0, po_ref_count = 0, po_server_ref_count = 0, po_waiting_server_count = 0\<rparr>),
     server_refs = (\<lambda>_. \<lparr>sr_port = 0, sr_holder = 0, sr_req = 0\<rparr>),
     client_refs = (\<lambda>_. \<lparr>cr_port = 0, cr_holder = 0\<rparr>),
     requests = (\<lambda>_. \<lparr>rq_sender = 0, rq_val_small = 0, rq_data_sender_vaddr = 0, rq_data_size = 0,
       rq_retval_sender_vaddr = 0, rq_retval_size = 0, rq_finished = False, rq_error = 0\<rparr>),
     hash_entries = (\<lambda>_. \<lparr>he_key = 0, he_val = 0\<rparr>), port_hash = 0, hash_capacity = 0, hash_size = 0,
     port_ifce_hash = (\<lambda>_. 0)\<rparr>"

lemma demo_sched_rel: "proc_rel (demo_sched q) (\<lambda>_ _. []) (\<lambda>_. [])"
proof -
  have "lay (\<lambda>_ _. []) (\<lambda>_. []) a = []" for a by (cases a) simp_all
  then show ?thesis by (simp add: proc_rel_def rings_def ring_def demo_sched_def)
qed

lemma demo_sched_fields [simp]:
  "smp_cpu_count (demo_sched q) = 1" "process_count (demo_sched q) = (\<lambda>_. 0)"
  "current_process (demo_sched q) = 0x5000" "cpu (demo_sched q) = \<lparr>cpu_id = 0, cpu_if = True\<rparr>"
  "procs (demo_sched q) = (\<lambda>p. if p = 0x5000 then demo_process 1 q else demo_process 15 q)"
  "spins (demo_sched q) = (\<lambda>_. \<lparr>sl_locked = False, sl_owner = 0\<rparr>)"
  by (simp_all add: demo_sched_def)

lemma one_cpu: "smp_cpu_count s = 1 \<Longrightarrow> sched_pick_cpu s = 0"
  using sched_pick_cpu_least(1)[of s] by (simp add: word_less_nat_alt unat_eq_0)

lemma demo_ready:
  fixes q :: u64
  defines "s1 \<equiv> ready_state 0x5000 (demo_sched q)"
  shows "proc_rel s1 (q_append 0 1 0x5000 (\<lambda>_ _. [])) (\<lambda>_. [])"
    "proc_rel (ready_state 0x6000 s1) (q_append 0 15 0x6000 (q_append 0 1 0x5000 (\<lambda>_ _. []))) (\<lambda>_. [])"
proof -
  show 1: "proc_rel s1 (q_append 0 1 0x5000 (\<lambda>_ _. [])) (\<lambda>_. [])"
    using set_ready_rel[OF demo_sched_rel, of q "0x5000"]
    by (simp add: queued_def one_cpu demo_process_def s1_def)
  have "\<not> queued s1 (q_append 0 1 0x5000 (\<lambda>_ _. [])) 0x6000" by (auto simp: queued_def q_append_def)
  then show "proc_rel (ready_state 0x6000 s1) (q_append 0 15 0x6000 (q_append 0 1 0x5000 (\<lambda>_ _. []))) (\<lambda>_. [])"
    using set_ready_rel[OF 1, of "0x6000"] by (simp add: one_cpu demo_process_def s1_def)
qed

text \<open>C17: Making a process ready appends it to the list of its level on a processor with the
  fewest processes; blocking or leaving removes it from its list, and blocking raises its
  priority by one within its class.  No other queue and no list of waiters changes.\<close>

theorem sched_queue_ops:
  assumes R: "proc_rel s Q W" and f: "queues_free s" and n: "0 < smp_cpu_count s"
    and pr: "p_priority (procs s p) < 64" "p_class (procs s p) \<le> 4"
  defines "c \<equiv> p_cpu (procs s p)" and "l \<equiv> p_priority (procs s p)"
  shows "if queued s Q p
    then (\<exists>t. sched_leave p s = Ok t \<and> proc_rel t (q_remove c l p Q) W \<and> \<not> queued t (q_remove c l p Q) p) \<and>
      (\<exists>t r. sched_set_blocking p s = Ok t \<and> clampped_priority_change 1 (procs s p) = Ok r \<and>
        procs t = (procs s)(p := r) \<and> proc_rel t (q_remove c l p Q) W)
    else (\<exists>t d. sched_set_ready p s = Ok t \<and> p_cpu (procs t p) = d \<and> d < smp_cpu_count s \<and>
      (\<forall>e < smp_cpu_count s. process_count s d \<le> process_count s e) \<and> proc_rel t (q_append d l p Q) W)"
proof (cases "queued s Q p")
  case True
  have lock: "\<not> sl_locked (spins s (QueueLock (p_cpu (procs s p))))"
    using f queued_mem(2)[OF R True] by (simp add: queues_free_def)
  note e = do_sched_remove_ready_eq[OF lock]
  note u = unready_rel[OF R True, folded c_def l_def]
  obtain r where r: "clampped_priority_change 1 (procs s p) = Ok r"
    using clampped_class[OF pr(2)] by blast
  let ?t = "upd_proc p (\<lambda>_. r) (unready_state p s)"
  have b: "sched_set_blocking p s = Ok ?t"
    using e r by (simp add: sched_set_blocking_def thread_bump_blocking_def change_priority_def)
  have "proc_rel ?t (q_remove c l p Q) W"
  proof -
    have "proc_heads ?t = proc_heads (unready_state p s)" by (simp add: proc_heads_def upd_proc_def)
    moreover have "p_cpu (procs ?t x) = d \<and> p_priority (procs ?t x) = k"
      if "d < smp_cpu_count s" "k < 64" "x \<in> set (q_remove c l p Q d k)" for d k x
    proof -
      have "x \<noteq> p" using u(2) that by (auto simp: queued_def)
      then show ?thesis using u(1) that by (simp add: proc_rel_def)
    qed
    moreover have "lists ?t = lists (unready_state p s)" "smp_cpu_count ?t = smp_cpu_count s"
      "futex_size ?t = futex_size s" "bucket_waiters ?t = bucket_waiters s"
      by (simp_all add: upd_proc_def)
    ultimately show ?thesis using u(1)
      by (intro proc_relI) (simp_all add: proc_rel_def del: upd_proc_fields(1))
  qed
  then have "\<exists>t r. sched_set_blocking p s = Ok t \<and> clampped_priority_change 1 (procs s p) = Ok r \<and>
      procs t = (procs s)(p := r) \<and> proc_rel t (q_remove c l p Q) W"
    using b r by (intro exI[of _ ?t] exI[of _ r]) simp
  moreover have "sched_leave p s = Ok (unready_state p s)" using e by (simp add: sched_leave_def)
  ultimately show ?thesis unfolding if_P[OF True] using u by blast
next
  case False
  have lock: "\<not> sl_locked (spins s (QueueLock (sched_pick_cpu s)))"
    using f sched_pick_cpu_least(1)[OF n] by (simp add: queues_free_def)
  have "sched_set_ready p s = Ok (ready_state p s)"
    using do_sched_set_ready_eq[OF lock] by (simp add: sched_set_ready_def)
  then show ?thesis unfolding if_not_P[OF False] using set_ready_rel[OF R False pr(1) n, folded l_def]
      sched_pick_cpu_least[OF n] by (intro exI[of _ "ready_state p s"] exI[of _ "sched_pick_cpu s"]) simp
qed

theorem sched_queue_ops_witness:
  "\<exists>t. sched_set_ready 0x6000 (ready_state 0x5000 (demo_sched 10)) = Ok t \<and>
     proc_rel t (q_append 0 15 0x6000 (q_append 0 1 0x5000 (\<lambda>_ _. []))) (\<lambda>_. [])"
proof -
  let ?s = "ready_state 0x5000 (demo_sched 10)"
  have "queues_free ?s" by (rule queues_free_ready) (simp add: queues_free_def)
  moreover have "0 < smp_cpu_count ?s" "p_priority (procs ?s 0x6000) = 15" "p_class (procs ?s 0x6000) \<le> 4"
    by (simp_all add: demo_process_def class_defs)
  moreover have "\<not> queued ?s (q_append 0 1 0x5000 (\<lambda>_ _. [])) 0x6000" by (auto simp: queued_def q_append_def)
  ultimately show ?thesis using sched_queue_ops[OF demo_ready(1), of 10 "0x6000"] by fastforce
qed

text \<open>C18: The timer tick is preemptive and round robin: when a process of a higher level is ready on
  this processor, the first of the highest level is switched to, with a new quantum, and the
  running one goes to the end of its own level; otherwise the running process keeps the
  processor until its quantum is used up, and then moves one level down (within its class) and
  behind the processes there, and the first process of the highest level is next.\<close>

theorem sched_tick_policy:
  assumes "proc_rel s Q W" "queued s Q (current_process s)"
    "p_cpu (procs s (current_process s)) = smp_current_cpu_id s" "timer_room s"
    "\<not> sl_locked (spins s (QueueLock (smp_current_cpu_id s)))" "top_level Q (smp_current_cpu_id s) l"
    and p': "clampped_priority_change (-1) (procs s (current_process s)) = Ok p'"
  defines "me \<equiv> current_process s" and "k \<equiv> smp_current_cpu_id s" and "m \<equiv> p_priority (procs s (current_process s))"
  defines "Q1 \<equiv> q_append k m me (q_remove k m me Q)" and "Q2 \<equiv> q_append k (p_priority p') me (q_remove k m me Q)"
  assumes l': "top_level Q2 k l'"
  shows "\<exists>u. current_process u = me \<and> (
    if m < of_nat l then proc_rel u Q1 W \<and> procs u = procs s \<and> sched_tick env s =
      bind_res (set_quantum (hd (Q k (of_nat l))) u) (process_switch_context env (hd (Q k (of_nat l))))
    else if p_quantum (procs s me) \<noteq> 10 then proc_rel u Q W \<and>
      procs u = (procs s)(me := (procs s me)\<lparr>p_quantum := p_quantum (procs s me) - 10\<rparr>) \<and> sched_tick env s = Ok u
    else proc_rel u Q2 W \<and> procs u = (procs s)(me := p'\<lparr>p_quantum := 0\<rparr>) \<and>
      sched_tick env s = (let nxt = hd (Q2 k (of_nat l')) in if nxt = me then Ok u
        else bind_res (set_quantum nxt (sched_disable u)) (process_switch_context env nxt)))"
proof -
  consider "m < of_nat l" | "\<not> m < of_nat l" "p_quantum (procs s me) \<noteq> 10"
    | "\<not> m < of_nat l" "p_quantum (procs s me) = 10" by blast
  then show ?thesis
  proof cases
    case 1
    from sched_tick_preempt[OF assms(1-6) 1[unfolded m_def], of env] show ?thesis
      using 1 unfolding me_def k_def m_def Q1_def by (metis (no_types))
  next
    case 2
    from sched_tick_continue[OF assms(1-6), of env] show ?thesis
      using 2 unfolding me_def m_def by (metis (no_types))
  next
    case 3
    from sched_tick_expired[OF assms(1-6) _ _ p', folded m_def k_def me_def, folded Q2_def, OF _ _ l'] show ?thesis
      using 3 by (metis (no_types))
  qed
qed

definition demo_run :: proc_state where
  "demo_run = ready_state 0x6000 (ready_state 0x5000 (demo_sched 10))"

definition demo_q :: queues where
  "demo_q = q_append 0 15 0x6000 (q_append 0 1 0x5000 (\<lambda>_ _. []))"

lemma demo_q_at: "demo_q 0 1 = [0x5000]" "demo_q 0 15 = [0x6000]" "l \<noteq> 1 \<Longrightarrow> l \<noteq> 15 \<Longrightarrow> demo_q 0 l = []"
  by (simp_all add: demo_q_def q_append_def)

lemma demo_q_top: "top_level demo_q 0 15"
proof -
  have "demo_q 0 (of_nat m) = []" if "15 < m" "m < 64" for m
  proof (rule demo_q_at(3))
    show "(of_nat m :: u64) \<noteq> 1" "(of_nat m :: u64) \<noteq> 15"
      using that of_nat_level_less[of 15 m] of_nat_level_less[of 1 m] by auto
  qed
  then show ?thesis using demo_q_at(2) by (simp add: top_level_def)
qed

lemma demo_run_facts:
  "proc_rel demo_run demo_q (\<lambda>_. [])" "current_process demo_run = 0x5000" "smp_current_cpu_id demo_run = 0"
  "procs demo_run 0x5000 = demo_process 1 10" "queued demo_run demo_q 0x5000" "timer_room demo_run"
  "\<not> sl_locked (spins demo_run (QueueLock 0))"
proof -
  show "proc_rel demo_run demo_q (\<lambda>_. [])" unfolding demo_run_def demo_q_def by (rule demo_ready(2))
  show "current_process demo_run = 0x5000" "smp_current_cpu_id demo_run = 0"
    by (simp_all add: demo_run_def smp_current_cpu_id_def)
  show "procs demo_run 0x5000 = demo_process 1 10" by (simp add: demo_run_def one_cpu demo_process_def)
  show "queued demo_run demo_q 0x5000" using demo_q_at(1) unfolding queued_def
    by (intro exI[of _ 0] exI[of _ 1]) (simp add: demo_run_def)
  show "timer_room demo_run" by (simp add: timer_room_def demo_run_def ready_state_def Let_def demo_sched_def)
  show "\<not> sl_locked (spins demo_run (QueueLock 0))"
    by (simp add: demo_run_def ready_state_def Let_def given_def)
qed

theorem sched_tick_policy_witness:
  "\<exists>u. current_process u = 0x5000 \<and>
     sched_tick Ok demo_run = bind_res (set_quantum 0x6000 u) (process_switch_context Ok 0x6000)"
proof -
  note f = demo_run_facts
  have p: "clampped_priority_change (- 1) (procs demo_run (current_process demo_run)) = Ok (demo_process 1 10)"
    by (simp add: f demo_process_def clampped_priority_change_def class_defs CLAMP_CASE_def level_defs)
  have q: "q_append 0 1 0x5000 (q_remove 0 1 0x5000 demo_q) = demo_q"
    by (intro ext) (simp add: q_append_def q_remove_def demo_q_at(1))
  from sched_tick_policy[OF f(1) _ _ f(6) _ _ p, of 15 15 Ok] show ?thesis
    using f demo_q_top demo_q_at(2) q by (auto simp: demo_process_def)
qed

text \<open>A process whose quantum is used up while no other process is ready at its new level or
  above keeps the processor with a quantum of 0; from then on, during the next \<open>2 ^ 63 - 1\<close>
  ticks its quantum is never 0 at the end of a tick, so processes of the same level that become
  ready meanwhile do not get the processor.\<close>

theorem sched_quantum_lost:
  assumes "proc_rel s Q W" "queued s Q (current_process s)"
    "p_cpu (procs s (current_process s)) = smp_current_cpu_id s" "timer_room s"
    "\<not> sl_locked (spins s (QueueLock (smp_current_cpu_id s)))" "top_level Q (smp_current_cpu_id s) l"
    "\<not> p_priority (procs s (current_process s)) < of_nat l"
    and p': "clampped_priority_change (-1) (procs s (current_process s)) = Ok p'"
  defines "me \<equiv> current_process s" and "k \<equiv> smp_current_cpu_id s"
  shows "(p_quantum (procs s me) = 10 \<and> (\<forall>m < 64. p_priority p' \<le> m \<longrightarrow> set (Q k m) \<subseteq> {me}) \<longrightarrow>
      (\<exists>t. sched_tick env s = Ok t \<and> current_process t = me \<and> p_quantum (procs t me) = 0)) \<and>
    (\<forall>n. 0 < n \<and> n < 2 ^ 63 \<and> p_quantum (procs s me) = - (10 * of_nat (n - 1)) \<longrightarrow>
      (\<exists>t. sched_tick env s = Ok t \<and> current_process t = me \<and> proc_rel t Q W \<and>
         p_quantum (procs t me) = - (10 * of_nat n) \<and> p_quantum (procs t me) \<noteq> 0))"
proof (intro conjI impI allI)
  assume a: "p_quantum (procs s me) = 10 \<and> (\<forall>m < 64. p_priority p' \<le> m \<longrightarrow> set (Q k m) \<subseteq> {me})"
  let ?m = "p_priority p'" and ?Q = "q_append k (p_priority p') me (q_remove k (p_priority (procs s me)) me Q)"
  have m: "?m < 64" using clampped_ok[OF p'] by simp
  have "?Q k (of_nat (unat ?m)) \<noteq> []" by (simp add: q_append_def)
  then obtain j where j: "top_level ?Q k j" "unat ?m \<le> j"
    using top_level_exists[of ?Q k "unat ?m"] m by (auto simp: word_less_nat_alt)
  have "j < 64" using j(1) by (simp add: top_level_def)
  then have le: "?m \<le> of_nat j" "(of_nat j :: u64) < 64"
    using j(2) by (simp_all add: word_le_nat_alt word_less_nat_alt unat_of_nat)
  have "set (?Q k (of_nat j)) \<subseteq> insert me (set (Q k (of_nat j)))"
    using set_remove1_subset[of me] by (auto simp: q_append_def q_remove_def split: if_splits)
  also have "\<dots> \<subseteq> {me}" using a le by auto
  finally have sub: "set (?Q k (of_nat j)) \<subseteq> {me}" .
  have "?Q k (of_nat j) \<noteq> []" using j(1) by (simp add: top_level_def)
  from subsetD[OF sub hd_in_set[OF this]] have "hd (?Q k (of_nat j)) = me" by simp
  then show "\<exists>t. sched_tick env s = Ok t \<and> current_process t = me \<and> p_quantum (procs t me) = 0"
    using sched_tick_expired[OF assms(1-7) _ p', of j env] a j(1) by (auto simp: me_def k_def)
next
  fix n assume n: "0 < n \<and> n < 2 ^ 63 \<and> p_quantum (procs s me) = - (10 * of_nat (n - 1))"
  have q: "p_quantum (procs s me) - 10 = - (10 * of_nat n)"
  proof -
    obtain j where "n = Suc j" using n by (cases n) auto
    then show ?thesis using n by (simp add: algebra_simps)
  qed
  have nz: "- (10 * of_nat n) \<noteq> (0 :: u64)" using quantum_no_zero[of n] n by simp
  then have "p_quantum (procs s me) \<noteq> 10" using q by auto
  then show "\<exists>t. sched_tick env s = Ok t \<and> current_process t = me \<and> proc_rel t Q W \<and>
         p_quantum (procs t me) = - (10 * of_nat n) \<and> p_quantum (procs t me) \<noteq> 0"
    using sched_tick_continue[OF assms(1-7), of env] q nz unfolding me_def by auto
qed

definition demo_alone :: proc_state where
  "demo_alone = ready_state 0x5000 (demo_sched 10)"

theorem sched_quantum_lost_witness:
  "\<exists>t. sched_tick Ok demo_alone = Ok t \<and> current_process t = 0x5000 \<and> p_quantum (procs t 0x5000) = 0"
proof -
  let ?Q = "q_append 0 1 0x5000 (\<lambda>_ _. [])"
  have r: "proc_rel demo_alone ?Q (\<lambda>_. [])" unfolding demo_alone_def by (rule demo_ready(1))
  have f: "current_process demo_alone = 0x5000" "smp_current_cpu_id demo_alone = 0"
    "procs demo_alone 0x5000 = demo_process 1 10" "timer_room demo_alone"
    "\<not> sl_locked (spins demo_alone (QueueLock 0))" "smp_cpu_count demo_alone = 1"
    by (simp_all add: demo_alone_def smp_current_cpu_id_def one_cpu demo_process_def timer_room_def)
      (simp_all add: ready_state_def Let_def demo_sched_def given_def)
  have q: "queued demo_alone ?Q 0x5000" unfolding queued_def
    by (intro exI[of _ 0] exI[of _ 1]) (simp add: f q_append_def)
  have Q: "?Q 0 m = (if m = 1 then [0x5000] else [])" for m by (simp add: q_append_def)
  have t: "top_level ?Q 0 1"
  proof -
    have "(of_nat m :: u64) \<noteq> 1" if "1 < m" "m < 64" for m using that of_nat_level_less[of 1 m] by auto
    then show ?thesis by (simp add: top_level_def Q)
  qed
  have p: "clampped_priority_change (- 1) (procs demo_alone (current_process demo_alone)) = Ok (demo_process 1 10)"
    by (simp add: f demo_process_def clampped_priority_change_def class_defs CLAMP_CASE_def level_defs)
  have "(\<forall>m < 64. p_priority (demo_process 1 10) \<le> m \<longrightarrow> set (?Q 0 m) \<subseteq> {0x5000})" by (auto simp: Q)
  then show ?thesis using sched_quantum_lost[OF r _ _ f(4) _ _ _ p, of 1 Ok] f q t
    by (simp add: demo_process_def)
qed

text \<open>A priority change keeps the priority between the lowest and the highest level of the
  class, whatever the step, for every class but the idle one, which it moves to level 1 of the
  normal class; a class outside the five panics.  The quantum of the idle class is odd, so
  steps of 10 never bring it to 0 and the idle process keeps level 0.\<close>

theorem priority_bounds:
  "(p_class p = SCHED_CLASS_NORMAL \<longrightarrow> (\<exists>q. clampped_priority_change d p = Ok q \<and> 1 \<le> p_priority q \<and> p_priority q \<le> 15)) \<and>
   (p_class p = SCHED_CLASS_DRIVER \<longrightarrow> (\<exists>q. clampped_priority_change d p = Ok q \<and> 16 \<le> p_priority q \<and> p_priority q \<le> 31)) \<and>
   (p_class p = SCHED_CLASS_RT \<longrightarrow> (\<exists>q. clampped_priority_change d p = Ok q \<and> 32 \<le> p_priority q \<and> p_priority q \<le> 47)) \<and>
   (p_class p = SCHED_CLASS_RT_DRIVER \<longrightarrow> (\<exists>q. clampped_priority_change d p = Ok q \<and> 48 \<le> p_priority q \<and> p_priority q \<le> 63)) \<and>
   (p_class p = SCHED_CLASS_IDLE \<longrightarrow> (\<exists>q. clampped_priority_change d p = Ok q \<and> p_priority q = 1) \<and>
      (\<exists>q. get_quantum p = Ok q \<and> (\<forall>n. q - 10 * of_nat n \<noteq> 0))) \<and>
   (4 < p_class p \<longrightarrow> clampped_priority_change d p = Fail (Panic ''invalid schedule class''))"
proof -
  have odd: "(- 1 :: u64) - 10 * of_nat n \<noteq> 0" for n
  proof
    assume "(- 1 :: u64) - 10 * of_nat n = 0"
    then have e: "- 1 = 10 * (of_nat n :: u64)" by simp
    have "(of_nat (1 + 10 * n) :: u64) = 1 + 10 * of_nat n" by simp
    also have "\<dots> = 1 + - 1" by (simp only: e)
    finally have "(of_nat (1 + 10 * n) :: u64) = 0" by simp
    then have "2 ^ 64 dvd 1 + 10 * n" by (subst (asm) word_of_nat_eq_0_iff) simp
    then have "even (1 + 10 * n)" by (rule dvd_trans[rotated]) simp
    then show False by simp
  qed
  have lim: "lo \<le> CLAMP_CASE lo hi x \<and> CLAMP_CASE lo hi x \<le> hi" if "lo \<le> hi" for lo hi x
    using that by (auto simp: CLAMP_CASE_def not_less)
  show ?thesis
    using odd lim[of NORMAL_LEVEL_MIN NORMAL_LEVEL_MAX] lim[of DRIVER_LEVEL_MIN DRIVER_LEVEL_MAX]
      lim[of RT_LEVEL_MIN RT_LEVEL_MAX] lim[of RT_DRIVER_LEVEL_MIN RT_DRIVER_LEVEL_MAX]
    by (simp add: clampped_priority_change_def get_quantum_def Let_def class_defs level_defs CLAMP_CASE_def)
qed

theorem priority_bounds_witness:
  "\<exists>q. clampped_priority_change 1 (demo_process 15 0) = Ok q \<and> p_priority q \<le> 15"
  using priority_bounds[of "demo_process 15 0" 1] by (auto simp: demo_process_def)

end
