(* ===== verification/Proc_Spec.thy ===== *)
theory Proc_Spec
  imports K_proc Heap_Frame Sched_Spec
begin

text \<open>
  Process identifiers and kernel-object tables.  The bitmap of identifiers is written with
  eight bits to a word and read with 64, so that the ninth and all later identifiers
  are the same; tables of kernel objects hand out distinct handles, and a table that has to
  grow returns its new entry without the lock the callers give back.
\<close>

section \<open>Identifiers\<close>

lemma find_upt:
  assumes "k < n" "P k" "\<And>j. j < k \<Longrightarrow> \<not> P j"
  shows "find P [0..<n] = Some k"
  using assms by (auto simp: find_Some_iff intro!: exI[of _ k])

lemma bit_exp_u64: "bit (2 ^ k :: u64) j \<longleftrightarrow> j = k \<and> k < 64"
  by (auto simp: bit_exp_iff)

lemma bit_clear_iff: "(w :: u64) AND 2 ^ k = 0 \<longleftrightarrow> \<not> bit w k \<or> 64 \<le> k"
proof
  assume "w AND 2 ^ k = 0"
  then have "\<not> bit (w AND 2 ^ k) k" by simp
  then show "\<not> bit w k \<or> 64 \<le> k" by (auto simp: bit_and_iff bit_exp_u64)
next
  assume "\<not> bit w k \<or> 64 \<le> k"
  then show "w AND 2 ^ k = 0"
    by (intro bit_word_eqI) (auto simp: bit_and_iff bit_exp_u64)
qed

text \<open>Bit \<open>off\<close> of word \<open>idx\<close> is the first clear bit of the first word that is not full.\<close>

definition pid_first :: "nat \<Rightarrow> nat \<Rightarrow> (nat \<Rightarrow> u64) \<Rightarrow> bool" where
  "pid_first idx off b \<longleftrightarrow> idx < PID_BITMAP_SIZE \<and> off < 64 \<and> (\<forall>i < idx. b i = NOT 0) \<and>
     (\<forall>j < off. bit (b idx) j) \<and> \<not> bit (b idx) off"

lemma pid_find_first:
  assumes "pid_first idx off b"
  shows "pid_find b = Some (idx, off)"
proof -
  have "b idx \<noteq> NOT 0" using assms by (auto simp: pid_first_def bit_not_iff)
  then have "find (\<lambda>idx. b idx \<noteq> NOT 0) [0..<PID_BITMAP_SIZE] = Some idx"
    using assms by (intro find_upt) (auto simp: pid_first_def)
  moreover have "find (\<lambda>off. b idx AND push_bit off 1 = 0) [0..<64] = Some off"
    using assms by (intro find_upt) (auto simp: bit_clear_iff pid_first_def)
  ultimately show ?thesis by (simp add: pid_find_def)
qed

lemma alloc_pid_first:
  assumes "pid_first idx off (pid_bitmap s)" "mutex_owner s PidBitmapLock = 0"
  shows "alloc_pid s = Ok (of_nat (idx * 8 + off) + 1, s\<lparr>pid_bitmap := pid_bitmap_set (idx * 8 + off) (pid_bitmap s)\<rparr>)"
  using assms pid_find_first[OF assms(1)]
  by (simp add: alloc_pid_def mutex_acquire_def mutex_try_acquire_def mutex_release_def Let_def
      get_current_proc_def fun_upd_idem)

lemma alloc_pid_full:
  assumes "\<forall>i < PID_BITMAP_SIZE. pid_bitmap s i = NOT 0" "mutex_owner s PidBitmapLock = 0"
  shows "alloc_pid s = Ok (- 1, s)"
proof -
  have "find (\<lambda>idx. pid_bitmap s idx \<noteq> NOT 0) [0..<PID_BITMAP_SIZE] = None"
    using assms(1) by (simp add: find_None_iff)
  then show ?thesis using assms(2)
    by (simp add: pid_find_def alloc_pid_def mutex_acquire_def mutex_try_acquire_def mutex_release_def Let_def
        get_current_proc_def fun_upd_idem)
qed

text \<open>The first word of the bitmap has its first \<open>k\<close> bits set, and bit \<open>k\<close> clear.\<close>

definition pid_low :: "nat \<Rightarrow> (nat \<Rightarrow> u64) \<Rightarrow> bool" where
  "pid_low k b \<longleftrightarrow> (\<forall>j < k. bit (b 0) j) \<and> \<not> bit (b 0) k"

lemma alloc_pid_low:
  assumes "pid_low k (pid_bitmap s)" "k < 64" "mutex_owner s PidBitmapLock = 0"
  shows "alloc_pid s = Ok (of_nat k + 1, s\<lparr>pid_bitmap := pid_bitmap_set k (pid_bitmap s)\<rparr>)"
  using alloc_pid_first[of 0 k s] assms
  by (simp add: pid_first_def pid_low_def PID_BITMAP_SIZE_def PID_BITMAP_ENTRIES_def)

lemma pid_set_low:
  assumes "pid_low k b" "k < 8" "\<not> bit (b 0) (Suc k)"
  shows "pid_low (Suc k) (pid_bitmap_set k b)"
  using assms by (auto simp: pid_low_def pid_bitmap_set_def Let_def bit_or_iff bit_exp_u64 less_Suc_eq)

lemma pid_set_high: "8 \<le> k \<Longrightarrow> pid_bitmap_set k b 0 = b 0"
  by (simp add: pid_bitmap_set_def Let_def) arith

fun alloc_pids :: "nat \<Rightarrow> 'a proc_state_scheme \<Rightarrow> (u64 list \<times> 'a proc_state_scheme) res" where
  "alloc_pids 0 s = Ok ([], s)"
| "alloc_pids (Suc n) s = bind_res (alloc_pid s) (\<lambda>(p, s). bind_res (alloc_pids n s) (\<lambda>(ps, s). Ok (p # ps, s)))"

lemma alloc_pids_nine:
  assumes "pid_low 8 (pid_bitmap s)" "mutex_owner s PidBitmapLock = 0"
  shows "\<exists>t. alloc_pids n s = Ok (replicate n 9, t)"
  using assms
proof (induction n arbitrary: s)
  case (Suc n)
  let ?t = "s\<lparr>pid_bitmap := pid_bitmap_set 8 (pid_bitmap s)\<rparr>"
  have "alloc_pid s = Ok (9, ?t)" using alloc_pid_low[OF Suc.prems(1) _ Suc.prems(2)] by simp
  moreover have "pid_low 8 (pid_bitmap ?t)" using Suc.prems(1) pid_set_high[of 8 "pid_bitmap s"] by (simp add: pid_low_def)
  moreover have "mutex_owner ?t PidBitmapLock = 0" using Suc.prems(2) by simp
  ultimately show ?case using Suc.IH[of ?t] by auto
qed simp

text \<open>Up to the eighth, identifiers count up.\<close>

lemma alloc_pids_count:
  assumes "pid_low k (pid_bitmap s)" "\<forall>j. k \<le> j \<longrightarrow> \<not> bit (pid_bitmap s 0) j" "k + m = 8"
    and "mutex_owner s PidBitmapLock = 0"
  shows "\<exists>t. alloc_pids (m + n) s = Ok (map of_nat [Suc k..<9] @ replicate n 9, t)"
  using assms
proof (induction m arbitrary: k s)
  case 0
  then show ?case using alloc_pids_nine[of s n] by simp
next
  case (Suc m)
  let ?t = "s\<lparr>pid_bitmap := pid_bitmap_set k (pid_bitmap s)\<rparr>"
  have k: "k < 8" using Suc.prems(3) by simp
  have a: "alloc_pid s = Ok (of_nat k + 1, ?t)" using alloc_pid_low[OF Suc.prems(1) _ Suc.prems(4)] k by simp
  have "pid_low (Suc k) (pid_bitmap ?t)" using pid_set_low[OF Suc.prems(1) k] Suc.prems(2) by simp
  moreover have "\<forall>j. Suc k \<le> j \<longrightarrow> \<not> bit (pid_bitmap ?t 0) j"
    using Suc.prems(2) k by (simp add: pid_bitmap_set_def Let_def bit_or_iff bit_exp_u64)
  ultimately obtain t where "alloc_pids (m + n) ?t = Ok (map of_nat [Suc (Suc k)..<9] @ replicate n 9, t)"
    using Suc.IH[of "Suc k" ?t] Suc.prems by auto
  moreover have "[Suc k..<9] = Suc k # [Suc (Suc k)..<9]" using k by (simp add: upt_conv_Cons)
  ultimately show ?case using a by (simp add: add.commute)
qed

section \<open>Properties of identifiers\<close>

text \<open>C21: \<open>alloc_pid\<close> on any bitmap: when \<open>off\<close> is the first clear bit of the first word \<open>idx\<close> that is not
  full, it returns \<open>8 * idx + off + 1\<close>, sets bit \<open>off mod 8\<close> of word \<open>idx + off div 8\<close> and nothing else, and the lock is free
  again; when all words are full it returns -1 and changes nothing.  So from the empty bitmap
  the first eight identifiers are 1 to 8, and every later allocation returns 9.\<close>

theorem pid_allocation:
  assumes l: "mutex_owner s PidBitmapLock = 0"
  shows "(pid_first idx off (pid_bitmap s) \<longrightarrow>
      alloc_pid s = Ok (of_nat (8 * idx + off + 1), s\<lparr>pid_bitmap := (pid_bitmap s)
        (idx + off div 8 := pid_bitmap s (idx + off div 8) OR 2 ^ (off mod 8))\<rparr>)) \<and>
    ((\<forall>i < PID_BITMAP_SIZE. pid_bitmap s i = NOT 0) \<longrightarrow> alloc_pid s = Ok (- 1, s)) \<and>
    (pid_bitmap s = (\<lambda>_. 0) \<longrightarrow>
      (\<exists>t. alloc_pids (8 + n) s = Ok ([1, 2, 3, 4, 5, 6, 7, 8] @ replicate n 9, t)))"
proof (intro conjI impI)
  assume "pid_first idx off (pid_bitmap s)"
  from alloc_pid_first[OF this l] show "alloc_pid s = Ok (of_nat (8 * idx + off + 1), s\<lparr>pid_bitmap := (pid_bitmap s)
        (idx + off div 8 := pid_bitmap s (idx + off div 8) OR 2 ^ (off mod 8))\<rparr>)"
    by (simp add: pid_bitmap_set_def Let_def algebra_simps)
next
  assume "\<forall>i < PID_BITMAP_SIZE. pid_bitmap s i = NOT 0"
  then show "alloc_pid s = Ok (- 1, s)" by (rule alloc_pid_full[OF _ l])
next
  assume "pid_bitmap s = (\<lambda>_. 0)"
  then have "pid_low 0 (pid_bitmap s)" "\<forall>j. 0 \<le> j \<longrightarrow> \<not> bit (pid_bitmap s 0) j" by (simp_all add: pid_low_def)
  from alloc_pids_count[OF this _ l, of 8 n]
  show "\<exists>t. alloc_pids (8 + n) s = Ok ([1, 2, 3, 4, 5, 6, 7, 8] @ replicate n 9, t)" by (simp add: upt_conv_Cons)
qed

text \<open>Two full words, then one with bits 0 and 2 set.\<close>

definition demo_pids :: "nat \<Rightarrow> u64" where
  "demo_pids i = (if i < 2 then NOT 0 else if i = 2 then 5 else 0)"

theorem pid_allocation_witness:
  "alloc_pid ((demo_sched 10)\<lparr>pid_bitmap := demo_pids\<rparr>) =
     Ok (18, (demo_sched 10)\<lparr>pid_bitmap := demo_pids(2 := 7)\<rparr>) \<and>
   alloc_pid ((demo_sched 10)\<lparr>pid_bitmap := (\<lambda>_. NOT 0)\<rparr>) = Ok (- 1, (demo_sched 10)\<lparr>pid_bitmap := (\<lambda>_. NOT 0)\<rparr>) \<and>
   (\<exists>t. alloc_pids 10 (demo_sched 10) = Ok ([1, 2, 3, 4, 5, 6, 7, 8, 9, 9], t))"
proof -
  have "pid_first 2 1 demo_pids"
    by (simp add: pid_first_def demo_pids_def PID_BITMAP_SIZE_def PID_BITMAP_ENTRIES_def bit_numeral_rec)
  moreover have "(5 :: u64) OR 2 = 7" by simp
  moreover have "mutex_owner (demo_sched 10) PidBitmapLock = 0" "pid_bitmap (demo_sched 10) = (\<lambda>_. 0)"
    by (simp_all add: demo_sched_def)
  ultimately show ?thesis
    using pid_allocation[of "(demo_sched 10)\<lparr>pid_bitmap := demo_pids\<rparr>" 2 1]
      pid_allocation[of "(demo_sched 10)\<lparr>pid_bitmap := (\<lambda>_. NOT 0)\<rparr>"]
      pid_allocation[of "demo_sched 10" _ _ 2] by (simp add: demo_pids_def numeral_2_eq_2)
qed

text \<open>Releasing an identifier frees the next one: with the first \<open>k\<close> identifiers in use, after
  the release of identifier \<open>p\<close> the next allocation returns \<open>p + 1\<close>, which is in use when \<open>p\<close> is
  not the last.\<close>

theorem pid_free_next:
  assumes b: "pid_low k (pid_bitmap s)" "k \<le> 8" and p: "0 < p" "p < k" and l: "mutex_owner s PidBitmapLock = 0"
  shows "\<exists>t. free_pid (of_nat p) s = Ok t \<and> (\<exists>u. alloc_pid t = Ok (of_nat p + 1, u))"
proof -
  let ?t = "s\<lparr>pid_bitmap := pid_bitmap_clear p (pid_bitmap s)\<rparr>"
  have "unat (of_nat p :: u64) = p" using p b(2) by (intro unat_of_nat_small) simp
  then have f: "free_pid (of_nat p) s = Ok ?t"
    using l by (simp add: free_pid_def mutex_acquire_def mutex_try_acquire_def mutex_release_def Let_def
        get_current_proc_def fun_upd_idem)
  have "pid_low p (pid_bitmap ?t)"
    using b p by (auto simp: pid_low_def pid_bitmap_clear_def Let_def bit_and_iff bit_not_iff bit_exp_u64)
  then show ?thesis using f alloc_pid_low[of p ?t] p b(2) l by auto
qed

theorem pid_free_next_witness:
  "\<exists>t u. free_pid 1 ((demo_sched 10)\<lparr>pid_bitmap := (\<lambda>_. 3)\<rparr>) = Ok t \<and> alloc_pid t = Ok (2, u)"
proof -
  have "pid_low 2 (pid_bitmap ((demo_sched 10)\<lparr>pid_bitmap := (\<lambda>_. 3)\<rparr>))"
    by (simp add: pid_low_def bit_numeral_rec numeral_2_eq_2 less_Suc_eq)
  then show ?thesis using pid_free_next[of 2 "(demo_sched 10)\<lparr>pid_bitmap := (\<lambda>_. 3)\<rparr>" 1] by (simp add: demo_sched_def)
qed

section \<open>Kernel objects\<close>

lemma expand_copy_spec:
  assumes "old \<noteq> new" "\<forall>j \<in> set is. mutex_owner s (KobjLock old j) = 0"
  shows "expand_copy old new is s =
    Ok (s\<lparr>kobjs := (kobjs s)(new := (\<lambda>j. if j \<in> set is then kobjs s old j else kobjs s new j))\<rparr>)"
  using assms(2)
proof (induction "is" arbitrary: s)
  case Nil
  then show ?case by simp
next
  case (Cons i "is")
  let ?t = "s\<lparr>kobjs := (kobjs s)(new := (kobjs s new)(i := kobjs s old i))\<rparr>"
  have "expand_copy old new (i # is) s = expand_copy old new is ?t"
    using Cons.prems by (simp add: mutex_acquire_free mutex_release_own Let_def upd_kobj_def kobj_at_def
        get_current_proc_def fun_upd_idem)
  also have "\<dots> = Ok (?t\<lparr>kobjs := (kobjs ?t)(new := (\<lambda>j. if j \<in> set is then kobjs ?t old j else kobjs ?t new j))\<rparr>)"
    by (rule Cons.IH) (use Cons.prems in simp)
  also have "\<dots> = Ok (s\<lparr>kobjs := (kobjs s)(new := (\<lambda>j. if j \<in> set (i # is) then kobjs s old j else kobjs s new j))\<rparr>)"
  proof -
    have "(\<lambda>j. if j \<in> set is then kobjs ?t old j else kobjs ?t new j) =
        (\<lambda>j. if j \<in> set (i # is) then kobjs s old j else kobjs s new j)" using assms(1) by (auto simp: fun_eq_iff)
    then show ?thesis by (simp only:) simp
  qed
  finally show ?case .
qed

lemma kobj_init_locks_eq:
  "kobj_init_locks b n s = s\<lparr>mutex_owner := (\<lambda>l. if \<exists>j < n. l = KobjLock b j then 0 else mutex_owner s l)\<rparr>"
proof (induction n)
  case (Suc n)
  have "(\<lambda>l. if \<exists>j < n. l = KobjLock b j then 0 else mutex_owner s l)(KobjLock b n := 0) =
      (\<lambda>l. if \<exists>j < Suc n. l = KobjLock b j then 0 else mutex_owner s l)"
    by (auto simp: fun_eq_iff less_Suc_eq)
  then show ?case using Suc by (simp add: mutex_init_def)
qed simp

lemma heap_rel_kobjs [simp]: "heap_rel (s\<lparr>kobjs := k\<rparr>) bs = heap_rel s bs"
  by (simp add: heap_rel_def)

lemma heap_only_frame:
  assumes "heap_only s t"
  shows "procs t = procs s" "kobjs t = kobjs s" "mutex_owner t = mutex_owner s" "current_process t = current_process s"
    "lists t = lists s" "ports t = ports s" "kmem t = kmem s" "hash_entries t = hash_entries s"
    "hash_capacity t = hash_capacity s" "hash_size t = hash_size s" "port_hash t = port_hash s"
  using assms by (auto simp: heap_only_def)

text \<open>C22: A handle names its object from allocation to release: the entry was free, no other entry
  changes, a look-up of the handle gives the entry, and after the release a look-up
  gives nothing.\<close>

theorem kobject_handle_life:
  assumes i: "kobj_first_free p s = Some i" and l: "mutex_owner s (KobjLock (p_kobjects (procs s p)) i) = 0"
  defines "b \<equiv> p_kobjects (procs s p)" and "h \<equiv> of_nat i + 1"
  shows "ko_type (kobjs s b i) = KOBJ_UNALLOCED \<and> (\<exists>t. kobject_alloc_lock p s = Ok (Some ((b, i), h), t) \<and>
    (\<forall>j. j \<noteq> i \<longrightarrow> kobjs t b j = kobjs s b j) \<and> (\<exists>u. mutex_release (kobj_lock (b, i)) t = Ok u \<and>
      (\<exists>v. kobject_lock_fetch p h u = Ok (Some (b, i), v) \<and> (\<exists>w. kobject_free_release (b, i) v = Ok w \<and>
        kobject_lock_fetch p h w = Ok (None, w)))))"
proof -
  have f: "i < unat (p_kobject_size (procs s p))" "ko_type (kobjs s b i) = KOBJ_UNALLOCED"
    using i by (auto simp: kobj_first_free_def find_Some_iff b_def)
  have n: "unat (of_nat i :: u64) = i" using f(1) unat_le_less_pow[of "p_kobject_size (procs s p)"]
    by (intro unat_of_nat_small) simp
  have lt: "(of_nat i :: u64) < p_kobject_size (procs s p)" using f(1) n by (simp add: word_less_nat_alt)
  have u: "unat h = Suc i" unfolding h_def using unat_inc[OF lt] n by simp
  have h: "h \<noteq> 0" "\<not> p_kobject_size (procs s p) < h" "unat (h - 1) = i"
    using u f(1) n by (auto simp: word_less_nat_alt h_def)
  let ?t = "upd_kobj (b, i) (\<lambda>k. k\<lparr>ko_type := KOBJ_PREALLOCED\<rparr>) s"
  let ?t' = "?t\<lparr>mutex_owner := (mutex_owner s)(KobjLock b i := get_current_proc s)\<rparr>"
  have g: "get_current_proc ?t' = get_current_proc s" "get_current_proc ?t = get_current_proc s" "procs ?t = procs s"
    by (simp_all add: get_current_proc_def upd_kobj_def)
  have a: "kobject_alloc_lock p s = Ok (Some ((b, i), h), ?t')"
    using i l g by (simp add: kobject_alloc_lock_def Let_def kobj_lock_def b_def h_def mutex_acquire_free upd_kobj_def)
  have r: "mutex_release (kobj_lock (b, i)) ?t' = Ok ?t"
  proof -
    have "(mutex_owner s)(KobjLock b i := 0) = mutex_owner s" using l by (simp add: b_def fun_upd_idem)
    moreover have "mutex_owner ?t' (KobjLock b i) = get_current_proc ?t'" unfolding g by simp
    ultimately show ?thesis using mutex_release_own[of ?t' "KobjLock b i"] by (simp add: kobj_lock_def upd_kobj_def)
  qed
  have fe: "kobject_lock_fetch p h ?t = Ok (Some (b, i), ?t')"
    using h l g(2) by (simp add: kobject_lock_fetch_def Let_def g(3) b_def[symmetric] kobj_at_def kobj_lock_def mutex_acquire_free)
      (simp add: upd_kobj_def kobj_type_defs mutex_acquire_free get_current_proc_def)
  obtain w where w: "kobject_free_release (b, i) ?t' = Ok w" "procs w = procs s" "ko_type (kobjs w b i) = KOBJ_UNALLOCED"
    by (simp add: kobject_free_release_def Let_def kobj_lock_def upd_kobj_def mutex_release_own get_current_proc_def)
  have "kobject_lock_fetch p h w = Ok (None, w)"
    using h w(2,3) by (simp add: kobject_lock_fetch_def Let_def kobj_at_def b_def)
  moreover have "\<forall>j. j \<noteq> i \<longrightarrow> kobjs ?t' b j = kobjs s b j" by (simp add: upd_kobj_def)
  ultimately show ?thesis using f(2) a r fe w(1) by blast
qed

theorem kobject_handle_life_witness:
  "\<exists>t. kobject_alloc_lock 0x5000 (upd_proc 0x5000 (\<lambda>p. p\<lparr>p_kobjects := 0xb000, p_kobject_size := 64\<rparr>) (demo_sched 10))
     = Ok (Some ((0xb000, 0), 1), t)"
proof -
  let ?s = "upd_proc 0x5000 (\<lambda>p. p\<lparr>p_kobjects := 0xb000, p_kobject_size := 64\<rparr>) (demo_sched 10)"
  have "kobj_first_free 0x5000 ?s = Some 0" unfolding kobj_first_free_def
    by (rule find_upt) (simp_all add: upd_proc_def demo_sched_def kobj_type_defs)
  then show ?thesis using kobject_handle_life[of "0x5000" ?s 0] by (auto simp: upd_proc_def demo_sched_def)
qed

text \<open>When the table is full and grows, the entries keep their handles and the new handle is one
  more than the old size, but the lock of the new entry is not taken, so that the release by
  the caller panics.\<close>

theorem kobject_expand_unlocked:
  fixes s :: "'a proc_state_scheme"
  assumes full: "kobj_first_free p s = None" and sz: "2 \<le> p_kobject_size (procs s p)" "unat (p_kobject_size (procs s p)) < 2 ^ 62"
    and locks: "\<forall>j < unat (p_kobject_size (procs s p)). mutex_owner s (KobjLock (p_kobjects (procs s p)) j) = 0"
    and heap: "mutex_owner s KheapLock = 0"
    and al: "kmem_alloc_zeroed (p_kobject_size (procs s p) * 3 div 2 * KOBJECT_SIZE) s = Ok (new, u)"
      "new \<noteq> 0" "new \<noteq> p_kobjects (procs s p)"
    and rel: "heap_rel u bs" "(p_kobjects (procs s p) - 32, n, True) \<in> set bs"
  defines "b \<equiv> p_kobjects (procs s p)" and "i \<equiv> unat (p_kobject_size (procs s p))"
  shows "\<exists>t. kobject_alloc_lock p s = Ok (Some ((new, i), of_nat i + 1), t) \<and>
    (\<forall>j < i. kobjs t new j = kobjs s b j) \<and>
    mutex_release (kobj_lock (new, i)) t = Fail (Panic ''invalid release'')"
proof -
  have o: "heap_only s u" using kmem_alloc_zeroed_only[OF al(1)] al(2) by blast
  note fr = heap_only_frame[OF o]
  let ?u1 = "clear_kobjs new u"
  let ?u2 = "?u1\<lparr>kobjs := (kobjs ?u1)(new := (\<lambda>j. if j \<in> set [0..<i] then kobjs ?u1 b j else kobjs ?u1 new j))\<rparr>"
  have c: "expand_copy b new [0..<i] ?u1 = Ok ?u2"
    by (rule expand_copy_spec) (use al(3) locks fr in \<open>auto simp: b_def i_def clear_kobjs_def\<close>)
  let ?m = "unat (p_kobject_size (procs s p) * 3 div 2)"
  have m: "i < ?m"
  proof -
    have "unat (p_kobject_size (procs s p) * 3) = i * 3"
      unfolding i_def using sz(2) by (simp add: unat_word_ariths(2))
    then have "?m = i * 3 div 2" by (simp add: unat_div)
    moreover have "2 \<le> i" using sz(1) by (simp add: i_def word_le_nat_alt)
    ultimately show ?thesis by simp
  qed
  let ?u3 = "kobj_init_locks new ?m ?u2"
  have u3: "heap_rel ?u3 bs" "mutex_owner ?u3 KheapLock = 0" "kobjs ?u3 = kobjs ?u2" "procs ?u3 = procs s"
    "mutex_owner ?u3 (KobjLock new i) = 0" "current_process ?u3 = current_process s"
    using rel(1) heap m by (auto simp: kobj_init_locks_eq clear_kobjs_def fr)
  have bb: "b - 32 + 32 = b" by simp
  obtain v where v: "kmem_free b ?u3 = Ok v" using kmem_free_spec[OF u3(1,2) rel(2)] unfolding bb[unfolded b_def] b_def by auto
  note fv = heap_only_frame[OF kmem_free_only[OF v]]
  let ?w = "upd_proc p (\<lambda>q. q\<lparr>p_kobject_size := p_kobject_size (procs s p) * 3 div 2\<rparr>) (upd_proc p (\<lambda>q. q\<lparr>p_kobjects := new\<rparr>) v)"
  have e: "expand_kobjects p s = Ok (True, ?w)"
    using al c v fr by (simp add: expand_kobjects_def Let_def b_def i_def)
  let ?t = "upd_kobj (new, i) (\<lambda>k. k\<lparr>ko_type := KOBJ_PREALLOCED\<rparr>) ?w"
  have k: "kobject_alloc_lock p s = Ok (Some ((new, i), of_nat i + 1), ?t)"
    using full e by (simp add: kobject_alloc_lock_def Let_def i_def)
  have kt: "kobjs ?t new j = kobjs s b j" if "j < i" for j
    using that fv(2) u3(3) al(3) fr(2) by (simp add: upd_kobj_def upd_proc_def clear_kobjs_def b_def)
  have "mutex_owner ?t (KobjLock new i) = 0" using fv(3) u3(5) by (simp add: upd_kobj_def)
  then have "mutex_release (kobj_lock (new, i)) ?t = Fail (Panic ''invalid release'')"
    unfolding kobj_lock_def by (intro mutex_release_not_own) (simp add: get_current_proc_nonzero[symmetric])
  then show ?thesis using k kt by blast
qed

text \<open>A heap of one free chunk of 4 kB, from which a table of two objects, both in use, is
  allocated.\<close>

definition demo_proc_heap :: proc_state where
  "demo_proc_heap = (demo_sched 10)\<lparr>
     kh_list := list_insert 0x1000 0x8000 (list_head_init 0x8000 \<lparr>lprev = id, lnext = id\<rparr>),
     kh_word := (\<lambda>_. 0)(0x1010 := 0xfe0, 0x1018 := KHEAP_MAGIC_FREE),
     kobjs := (\<lambda>_ _. \<lparr>ko_type = 1, ko_ptr = 0\<rparr>)\<rparr>"

definition demo_full :: proc_state where
  "demo_full = upd_proc 0x5000 (\<lambda>p. p\<lparr>p_kobjects := 0x1020, p_kobject_size := 2\<rparr>) (kheap_take 0x1000 64 demo_proc_heap)"

lemma demo_proc_heap_rel: "heap_rel demo_proc_heap [(0x1000, 0xfe0, False)]" "mutex_owner demo_proc_heap = (\<lambda>_. 0)"
proof -
  have "ring (kh_list demo_proc_heap) (chunk_list_head demo_proc_heap) [0x1000]"
    using ring_push_front[OF ring_init, of "0x1000 :: u64" "0x8000"] by (simp add: demo_proc_heap_def demo_sched_def)
  moreover have "block_ok (kh_word demo_proc_heap) (0x1000, 0xfe0, False)" by (simp add: block_ok_def demo_proc_heap_def)
  moreover have "tiled 0x1000 [(0x1000, 0xfe0, False)] 0x2000" by simp
  ultimately show "heap_rel demo_proc_heap [(0x1000, 0xfe0, False)]"
    unfolding heap_rel_def by (intro conjI exI[of _ "0x1000"] exI[of _ "0x2000"]) (simp_all add: demo_proc_heap_def demo_sched_def)
  show "mutex_owner demo_proc_heap = (\<lambda>_. 0)" by (simp add: demo_proc_heap_def demo_sched_def)
qed

lemma heap_rel_upd_proc [simp]: "heap_rel (upd_proc p f s) bs = heap_rel s bs"
  by (simp add: heap_rel_def upd_proc_def)

lemma demo_full_rel: "heap_rel demo_full [(0x1000, 0x40, True), (0x1060, 0xf80, False)]"
proof -
  have "ALIGNUP 48 32 = 64" "h_alloc (ALIGNUP 48 32) [(0x1000, 0xfe0, False)] = Some (0x1000, [(0x1000, 0x40, True), (0x1060, 0xf80, False)])"
    by (simp_all add: ALIGNUP_def ALIGNDOWN_def)
  then show ?thesis using kmem_alloc_hit(2)[OF demo_proc_heap_rel(1), of 48] demo_proc_heap_rel(2)
    by (simp add: demo_full_def)
qed

theorem kobject_expand_unlocked_witness:
  "\<exists>t. kobject_alloc_lock 0x5000 demo_full = Ok (Some ((0x1080, 2), 3), t) \<and>
     mutex_release (kobj_lock (0x1080, 2)) t = Fail (Panic ''invalid release'')"
proof -
  have k: "heap_only demo_proc_heap (kheap_take 0x1000 64 demo_proc_heap)" by (simp add: kheap_take_only)
  have m: "mutex_owner demo_full = (\<lambda>_. 0)" using heap_only_frame(3)[OF k] demo_proc_heap_rel(2) by (simp add: demo_full_def)
  have p: "p_kobjects (procs demo_full 0x5000) = 0x1020" "p_kobject_size (procs demo_full 0x5000) = 2"
    by (simp_all add: demo_full_def)
  have ko: "kobjs demo_full = (\<lambda>_ _. \<lparr>ko_type = 1, ko_ptr = 0\<rparr>)"
    using heap_only_frame(2)[OF k] by (simp add: demo_full_def upd_proc_def demo_proc_heap_def)
  have full: "kobj_first_free 0x5000 demo_full = None"
    by (simp add: kobj_first_free_def find_None_iff ko kobj_type_defs)
  have "h_alloc (ALIGNUP 72 32) [(0x1000, 0x40, True), (0x1060, 0xf80, False)] =
      Some (0x1060, [(0x1000, 0x40, True), (0x1060, 0x60, True), (0x10e0, 0xf00, False)])"
    by (simp add: ALIGNUP_def ALIGNDOWN_def)
  note H = kmem_alloc_hit[OF demo_full_rel _ this]
  have al: "kmem_alloc_zeroed (2 * 3 div 2 * KOBJECT_SIZE) demo_full = Ok (0x1080, kheap_take 0x1060 (ALIGNUP 72 32) demo_full)"
    using H(1) m by (simp add: kmem_alloc_zeroed_def KOBJECT_SIZE_def)
  show ?thesis
    using kobject_expand_unlocked[OF full, of "0x1080" "kheap_take 0x1060 (ALIGNUP 72 32) demo_full"
        "[(0x1000, 0x40, True), (0x1060, 0x60, True), (0x10e0, 0xf00, False)]" "0x40"] p m al H(2)
    by auto
qed

end
