(* ===== verification/Port_Spec.thy ===== *)
theory Port_Spec
  imports Name_Table Proc_Spec
begin

text \<open>
  The hash table of port names as a name table, what a growth of the table does to it, and the
  request protocol.
\<close>

section \<open>The table of names\<close>

text \<open>The bucket of a name, and the bucket lists of entries, in which no name occurs twice.\<close>

definition name_bucket :: "u8 list \<Rightarrow> 'a proc_state_scheme \<Rightarrow> nat" where
  "name_bucket x s = unat (ucast (hash33 0 x mod hash_capacity s) :: u32)"

definition bucket_heads :: "'a proc_state_scheme \<Rightarrow> lnode set" where
  "bucket_heads s = {PortHashHead (port_hash s) i |i. i < unat (hash_capacity s)}"

fun bucket_lay :: "(nat \<Rightarrow> u64 list) \<Rightarrow> lnode \<Rightarrow> lnode list" where
  "bucket_lay B (PortHashHead t i) = map PortHashNode (B i)"
| "bucket_lay B _ = []"

abbreviation entry_name :: "u64 \<Rightarrow> 'a proc_state_scheme \<Rightarrow> u8 list" where
  "entry_name e s \<equiv> name_at (he_key (hash_entries s e)) s"

definition hash_rel :: "'a proc_state_scheme \<Rightarrow> (nat \<Rightarrow> u64 list) \<Rightarrow> bool" where
  "hash_rel s B \<longleftrightarrow> hash_capacity s \<noteq> 0 \<and> rings (lists s) (bucket_heads s) (bucket_lay B) \<and>
     (\<forall>i < unat (hash_capacity s). distinct (map (\<lambda>e. entry_name e s) (B i))) \<and>
     (\<forall>i < unat (hash_capacity s). \<forall>e \<in> set (B i). e \<noteq> 0 \<and> length (entry_name e s) < 128 \<and>
        name_bucket (entry_name e s) s = i)"

definition hash_inv :: "'a proc_state_scheme \<Rightarrow> bool" where
  "hash_inv s \<longleftrightarrow> (\<exists>B. hash_rel s B)"

definition hash_fits :: "u64 \<Rightarrow> 'a proc_state_scheme \<Rightarrow> bool" where
  "hash_fits v s \<longleftrightarrow> v \<noteq> 0 \<and> length (entry_name v s) < 128 \<and>
     (\<forall>B i. hash_rel s B \<and> i < unat (hash_capacity s) \<longrightarrow> v \<notin> set (B i))"

lemma name_bucket_less: "hash_capacity s \<noteq> 0 \<Longrightarrow> name_bucket x s < unat (hash_capacity s)"
proof -
  assume "hash_capacity s \<noteq> 0"
  then have "unat (hash33 0 x mod hash_capacity s) < unat (hash_capacity s)"
    by (simp add: unat_mod unat_gt_0)
  moreover have "name_bucket x s = unat (hash33 0 x mod hash_capacity s) mod 2 ^ 32"
    by (simp add: name_bucket_def unsigned_ucast_eq take_bit_eq_mod)
  ultimately show ?thesis by (metis mod_less_eq_dividend order_le_less_trans)
qed

lemma port_hash_idx_bucket:
  "hash_capacity s \<noteq> 0 \<Longrightarrow> port_hash_idx a s = Ok (name_bucket (name_at a s) s)"
  by (simp add: port_hash_idx_def name_bucket_def kstr_hash_cstring)

lemma port_locate_chain:
  assumes "chain (lnext (lists s)) x (map PortHashNode es) hn" "hn \<notin> PortHashNode ` set es"
  shows "port_locate_loop a hn (lnext (lists s) x) s =
    Some (Ok (case find (\<lambda>e. name_at a s = entry_name e s) es of None \<Rightarrow> 0 | Some e \<Rightarrow> e))"
  using assms
proof (induction es arbitrary: x)
  case Nil
  then show ?case by (simp add: port_locate_loop.simps)
next
  case (Cons e es)
  then have n: "lnext (lists s) x = PortHashNode e" "PortHashNode e \<noteq> hn" by auto
  show ?case
  proof (cases "name_at a s = entry_name e s")
    case True
    then show ?thesis using n by (subst port_locate_loop.simps) (simp add: kstrequ_iff)
  next
    case False
    then have "port_locate_loop a hn (lnext (lists s) x) s = port_locate_loop a hn (lnext (lists s) (PortHashNode e)) s"
      using n by (subst port_locate_loop.simps) (simp add: kstrequ_iff)
    also have "\<dots> = Some (Ok (case find (\<lambda>e. name_at a s = entry_name e s) es of None \<Rightarrow> 0 | Some e \<Rightarrow> e))"
      by (rule Cons.IH) (use Cons.prems in auto)
    finally show ?thesis using False by simp
  qed
qed

definition port_look :: "u64 \<Rightarrow> 'a proc_state_scheme \<Rightarrow> u64 res" where
  "port_look a s = port_hash_do_locate a (kstrlen PORT_NAME_MAX_LEN a (kmem s)) s"

lemma port_look_find:
  assumes "hash_rel s B"
  shows "port_look a s = Ok (if length (name_at a s) < 128
    then (case find (\<lambda>e. name_at a s = entry_name e s) (B (name_bucket (name_at a s) s)) of None \<Rightarrow> 0 | Some e \<Rightarrow> e)
    else 0)"
proof -
  let ?i = "name_bucket (name_at a s) s" and ?h = "PortHashHead (port_hash s) (name_bucket (name_at a s) s)"
  have c: "hash_capacity s \<noteq> 0" using assms by (simp add: hash_rel_def)
  have k: "PORT_NAME_MAX_LEN \<le> kstrlen PORT_NAME_MAX_LEN a (kmem s) \<longleftrightarrow> \<not> length (name_at a s) < 128"
    by (simp add: word_le_nat_alt unat_kstrlen not_less) (simp add: PORT_NAME_MAX_LEN_def)
  have "ring (lists s) ?h (map PortHashNode (B ?i))"
    using assms name_bucket_less[OF c, of "name_at a s"] ringsD[of "lists s" "bucket_heads s" "bucket_lay B" ?h]
    by (auto simp: hash_rel_def bucket_heads_def)
  then have "port_locate_loop a ?h (lnext (lists s) ?h) s =
      Some (Ok (case find (\<lambda>e. name_at a s = entry_name e s) (B ?i) of None \<Rightarrow> 0 | Some e \<Rightarrow> e))"
    unfolding ring_def by (intro port_locate_chain) auto
  then show ?thesis
    by (simp add: port_look_def port_hash_do_locate_def k port_hash_idx_bucket[OF c] Let_def)
qed

lemma port_look_none:
  assumes R: "hash_rel s B" and l: "length (name_at a s) < 128" and n: "port_look a s = Ok 0"
    and e: "e \<in> set (B (name_bucket (name_at a s) s))"
  shows "name_at a s \<noteq> entry_name e s"
proof
  let ?es = "B (name_bucket (name_at a s) s)"
  assume eq: "name_at a s = entry_name e s"
  have "name_bucket (name_at a s) s < unat (hash_capacity s)" using R by (intro name_bucket_less) (simp add: hash_rel_def)
  then have nz: "\<forall>e \<in> set ?es. e \<noteq> 0" using R unfolding hash_rel_def by blast
  from eq e have "find (\<lambda>e. name_at a s = entry_name e s) ?es \<noteq> None" by (auto simp: find_None_iff)
  then obtain x where x: "find (\<lambda>e. name_at a s = entry_name e s) ?es = Some x" by blast
  then have "x \<in> set ?es" by (auto simp: find_Some_iff)
  then show False using n nz x l by (simp add: port_look_find[OF R])
qed

text \<open>Putting an entry at the front of the bucket of its name.\<close>

lemma port_insert_rel:
  assumes R: "hash_rel s B" and f: "hash_fits v s" and n: "port_look (he_key (hash_entries s v)) s = Ok 0"
  defines "t \<equiv> upd_lists (list_insert (PortHashNode v) (PortHashHead (port_hash s) (name_bucket (entry_name v s) s))) s"
  shows "port_hash_do_insert v s = Ok t"
    "hash_rel t (B(name_bucket (entry_name v s) s := v # B (name_bucket (entry_name v s) s)))"
proof -
  let ?i = "name_bucket (entry_name v s) s"
  let ?h = "PortHashHead (port_hash s) ?i" and ?B = "B(?i := v # B ?i)"
  have c: "hash_capacity s \<noteq> 0" using R by (simp add: hash_rel_def)
  show "port_hash_do_insert v s = Ok t"
    by (simp add: port_hash_do_insert_def port_hash_idx_bucket[OF c] t_def)
  have hd: "?h \<in> bucket_heads s" using name_bucket_less[OF c] by (auto simp: bucket_heads_def)
  have "rings (list_insert (PortHashNode v) ?h (lists s)) (bucket_heads s) ((bucket_lay B)(?h := PortHashNode v # bucket_lay B ?h))"
  proof (rule rings_push_front)
    show "rings (lists s) (bucket_heads s) (bucket_lay B)" using R by (simp add: hash_rel_def)
    show "PortHashNode v \<notin> set (b # bucket_lay B b)" if "b \<in> bucket_heads s" for b
      using that f R by (auto simp: bucket_heads_def hash_fits_def)
  qed (rule hd)
  moreover have "rings h (bucket_heads s) ((bucket_lay B)(?h := PortHashNode v # bucket_lay B ?h)) =
      rings h (bucket_heads s) (bucket_lay ?B)" for h
  proof -
    have "((bucket_lay B)(?h := PortHashNode v # bucket_lay B ?h)) b = bucket_lay ?B b" if "b \<in> bucket_heads s" for b
    proof -
      obtain j where b: "b = PortHashHead (port_hash s) j" using \<open>b \<in> bucket_heads s\<close> by (auto simp: bucket_heads_def)
      show ?thesis unfolding b by (cases "j = ?i") simp_all
    qed
    then show ?thesis unfolding rings_def by simp
  qed
  ultimately have "rings (lists t) (bucket_heads s) (bucket_lay ?B)" by (simp add: t_def)
  moreover have fr: "bucket_heads t = bucket_heads s" "hash_capacity t = hash_capacity s" "kmem t = kmem s"
    "hash_entries t = hash_entries s" "name_bucket x t = name_bucket x s" for x
    by (simp_all add: t_def bucket_heads_def upd_lists_def name_bucket_def)
  moreover have "e \<noteq> 0 \<and> length (entry_name e s) < 128 \<and> name_bucket (entry_name e s) s = j"
    if "j < unat (hash_capacity s)" "e \<in> set (?B j)" for j e
  proof (cases "j = ?i \<and> e = v")
    case True
    then show ?thesis using f by (simp add: hash_fits_def)
  next
    case False
    then have "e \<in> set (B j)" using that(2) by (cases "j = ?i") auto
    then show ?thesis using R that(1) unfolding hash_rel_def by blast
  qed
  moreover have "distinct (map (\<lambda>e. entry_name e s) (?B j))" if "j < unat (hash_capacity s)" for j
  proof -
    have d: "distinct (map (\<lambda>e. entry_name e s) (B j))" using R that unfolding hash_rel_def by blast
    show ?thesis
    proof (cases "j = ?i")
      case True
      have "entry_name v s \<notin> set (map (\<lambda>e. entry_name e s) (B ?i))"
        using port_look_none[OF R _ n] f by (auto simp: hash_fits_def)
      then show ?thesis using d True by simp
    qed (simp add: d)
  qed
  ultimately show "hash_rel t ?B" using c unfolding hash_rel_def fr by blast
qed

lemma port_insert_law:
  assumes i: "hash_inv s" and f: "hash_fits v s" and n: "port_look (he_key (hash_entries s v)) s = Ok 0"
  obtains t where "port_hash_do_insert v s = Ok t" "hash_inv t" "kmem t = kmem s" "hash_entries t = hash_entries s"
    "\<forall>a. port_look a t = (if name_at a s = entry_name v s then Ok v else port_look a s)"
proof -
  obtain B where R: "hash_rel s B" using i by (auto simp: hash_inv_def)
  let ?i = "name_bucket (entry_name v s) s"
  define t where "t = upd_lists (list_insert (PortHashNode v) (PortHashHead (port_hash s) ?i)) s"
  note I = port_insert_rel[OF R f n, folded t_def]
  have fr: "kmem t = kmem s" "hash_entries t = hash_entries s" "name_bucket x t = name_bucket x s" for x
    by (simp_all add: t_def upd_lists_def name_bucket_def)
  have "port_look a t = (if name_at a s = entry_name v s then Ok v else port_look a s)" for a
    using f by (auto simp: port_look_find[OF I(2)] port_look_find[OF R] fr hash_fits_def)
  then show ?thesis using that[OF I(1)] I(2) fr by (auto simp: hash_inv_def)
qed

interpretation port_names: name_table hash_inv hash_fits port_look port_hash_do_insert
  "\<lambda>v s. he_key (hash_entries s v)" "\<lambda>a s. name_at a s"
proof
  show "port_look a s = port_look b s" if "hash_inv s" "name_at a s = name_at b s"
    for s :: "'a proc_state_scheme" and a b
    using that by (auto simp: hash_inv_def port_look_find)
  show "\<exists>t. port_hash_do_insert v s = Ok t \<and> hash_inv t \<and> (\<forall>a. name_at a t = name_at a s) \<and>
      (\<forall>w. he_key (hash_entries t w) = he_key (hash_entries s w)) \<and>
      (\<forall>a. port_look a t = (if name_at a s = entry_name v s then Ok v else port_look a s))"
    if "hash_inv s" "hash_fits v s" "port_look (he_key (hash_entries s v)) s = Ok 0"
    for s :: "'a proc_state_scheme" and v
    by (rule port_insert_law[OF that]) auto
qed

section \<open>Removal\<close>

text \<open>What the removal of the entry \<open>v\<close> needs: the locks are free, and the entry and its key are two
  blocks of the heap.\<close>

definition hash_owned :: "u64 \<Rightarrow> 'a proc_state_scheme \<Rightarrow> bool" where
  "hash_owned v s \<longleftrightarrow> mutex_owner s PortHashLock = 0 \<and> kheap_inv s \<and> {v, he_key (hash_entries s v)} \<subseteq> kheap_live s \<and>
     he_key (hash_entries s v) \<noteq> v"

definition port_rem :: "u64 \<Rightarrow> 'a proc_state_scheme \<Rightarrow> (u64 \<times> 'a proc_state_scheme) res" where
  "port_rem a s = port_hash_remove a (kstrlen PORT_NAME_MAX_LEN a (kmem s)) s"

lemma find_distinct_remove1:
  assumes "distinct (map f es)" "find (\<lambda>e. x = f e) es = Some v"
  shows "find (\<lambda>e. y = f e) (remove1 v es) = (if y = x then None else find (\<lambda>e. y = f e) es)"
  using assms
proof (induction es)
  case (Cons e es)
  show ?case
  proof (cases "x = f e")
    case True
    then have "v = e" using Cons.prems(2) by simp
    moreover have "find (\<lambda>e. x = f e) es = None" using Cons.prems(1) True by (auto simp: find_None_iff)
    ultimately show ?thesis using True by simp
  next
    case False
    then have v: "find (\<lambda>e. x = f e) es = Some v" using Cons.prems(2) by simp
    then have "x = f v" by (auto simp: find_Some_iff)
    then show ?thesis using Cons.IH[OF _ v] Cons.prems(1) False by auto
  qed
qed simp

text \<open>Taking an entry out of its bucket.\<close>

lemma port_unlink_rel:
  assumes R: "hash_rel s B" and v: "i < unat (hash_capacity s)" "v \<in> set (B i)"
  shows "hash_rel (upd_lists (list_remove (PortHashNode v)) s) (B(i := remove1 v (B i)))"
proof -
  let ?h = "PortHashHead (port_hash s) i" and ?B = "B(i := remove1 v (B i))"
  let ?t = "upd_lists (list_remove (PortHashNode v)) s"
  have "rings (list_remove (PortHashNode v) (lists s)) (bucket_heads s)
      ((bucket_lay B)(?h := remove1 (PortHashNode v) (bucket_lay B ?h)))"
    using R v by (intro rings_remove) (auto simp: hash_rel_def bucket_heads_def)
  moreover have "((bucket_lay B)(?h := remove1 (PortHashNode v) (bucket_lay B ?h))) b = bucket_lay ?B b"
    if "b \<in> bucket_heads s" for b
  proof -
    obtain j where b: "b = PortHashHead (port_hash s) j" using \<open>b \<in> bucket_heads s\<close> by (auto simp: bucket_heads_def)
    have "remove1 (PortHashNode v) (map PortHashNode es) = map PortHashNode (remove1 v es)" for es
      by (induction es) auto
    then show ?thesis unfolding b by (cases "j = i") simp_all
  qed
  ultimately have rg: "rings (lists ?t) (bucket_heads s) (bucket_lay ?B)"
    unfolding rings_def by (simp add: upd_lists_def)
  have sub: "distinct (map (\<lambda>e. entry_name e s) (?B j)) \<and> set (?B j) \<subseteq> set (B j)" if "j < unat (hash_capacity s)" for j
  proof -
    have d: "distinct (map (\<lambda>e. entry_name e s) (B j))" using R that unfolding hash_rel_def by blast
    then have "inj_on (\<lambda>e. entry_name e s) (set (B j))" "distinct (B j)" by (auto simp: distinct_map)
    from inj_on_subset[OF this(1) set_remove1_subset] distinct_remove1[OF this(2)]
    have "distinct (map (\<lambda>e. entry_name e s) (remove1 v (B j)))" by (simp only: distinct_map simp_thms)
    then show ?thesis using d set_remove1_subset[of v "B j"] by (cases "j = i") simp_all
  qed
  have old: "e \<noteq> 0 \<and> length (entry_name e s) < 128 \<and> name_bucket (entry_name e s) s = j"
    if "j < unat (hash_capacity s)" "e \<in> set (?B j)" for j e
    using R that sub[OF that(1)] unfolding hash_rel_def by blast
  have fr: "bucket_heads ?t = bucket_heads s" "hash_capacity ?t = hash_capacity s" "kmem ?t = kmem s"
    "hash_entries ?t = hash_entries s" "name_bucket x ?t = name_bucket x s" for x
    by (simp_all add: bucket_heads_def upd_lists_def name_bucket_def)
  show ?thesis unfolding hash_rel_def fr using R rg sub old unfolding hash_rel_def by blast
qed

text \<open>Giving back the two blocks changes the heap only.\<close>

lemma kmem_free_live:
  assumes "kheap_inv s" "a \<in> kheap_live s"
  obtains t where "kmem_free a s = Ok t" "kheap_inv t" "kheap_live t = kheap_live s - {a}" "heap_only s t"
proof -
  obtain bs where r: "heap_rel s bs" "mutex_owner s KheapLock = 0" using assms(1) by (auto simp: kheap_inv_def)
  then obtain n where n: "(a - 32, n, True) \<in> set bs" using assms(2) by (auto simp: kheap_live_rel h_live_mem)
  obtain t where t: "kmem_free a s = Ok t" "heap_rel t (h_free (a - 32) bs)" "mutex_owner t = mutex_owner s"
    using kmem_free_spec[OF r n] by auto
  then show thesis using r h_free_live[OF n heap_rel_distinct[OF r(1)]] kmem_free_only[OF t(1)]
    by (intro that[of t]) (auto simp: kheap_inv_def kheap_live_rel)
qed

lemma heap_only_hash:
  assumes "heap_only s t"
  shows "hash_rel t B = hash_rel s B" "kmem t = kmem s" "hash_entries t = hash_entries s" "mutex_owner t = mutex_owner s"
    "name_bucket x t = name_bucket x s"
  using assms by (auto simp: heap_only_def hash_rel_def name_bucket_def bucket_heads_def)

lemma kheap_inv_upd [simp]:
  "kheap_inv (s\<lparr>lists := l\<rparr>) = kheap_inv (s :: 'a proc_state_scheme)"
  "kheap_live (s\<lparr>lists := l\<rparr>) = kheap_live s"
  by (simp_all add: kheap_inv_def kheap_live_def heap_rel_def)

lemma port_remove_law:
  assumes R: "hash_rel s B" and l: "port_look a s = Ok v" "v \<noteq> 0" and o: "hash_owned v s"
  obtains t where "port_rem a s = Ok (he_val (hash_entries s v), t)" "hash_inv t" "kmem t = kmem s"
    "hash_entries t = hash_entries s" "\<forall>b. port_look b t = (if name_at b s = name_at a s then Ok 0 else port_look b s)"
    "kheap_live t = kheap_live s - {v, he_key (hash_entries s v)}" "kheap_inv t" "mutex_owner t = mutex_owner s"
proof -
  let ?i = "name_bucket (name_at a s) s" and ?f = "\<lambda>es b. find (\<lambda>e. name_at b s = entry_name e s) es"
  let ?u = "upd_lists (list_remove (PortHashNode v)) s" and ?k = "he_key (hash_entries s v)"
  have len: "length (name_at a s) < 128" and fd: "?f (B ?i) a = Some v"
    using l by (auto simp: port_look_find[OF R] split: if_splits option.splits)
  then have mem: "v \<in> set (B ?i)" by (auto simp: find_Some_iff)
  have i: "?i < unat (hash_capacity s)" using R by (intro name_bucket_less) (simp add: hash_rel_def)
  note U = port_unlink_rel[OF R i mem]
  have inv: "kheap_inv ?u" "kheap_live ?u = kheap_live s" "{v, ?k} \<subseteq> kheap_live s" "?k \<noteq> v"
    using o by (auto simp: hash_owned_def upd_lists_def)
  obtain w where w: "kmem_free ?k ?u = Ok w" "kheap_inv w" "kheap_live w = kheap_live s - {?k}" "heap_only ?u w"
    using kmem_free_live[OF inv(1), of ?k] inv by auto
  obtain t where t: "kmem_free v w = Ok t" "kheap_inv t" "kheap_live t = kheap_live s - {?k} - {v}" "heap_only w t"
    using kmem_free_live[OF w(2), of v] w(3) inv by auto
  have fr: "hash_rel t B' = hash_rel ?u B'" "kmem t = kmem s" "hash_entries t = hash_entries s" "mutex_owner t = mutex_owner s"
    "name_bucket x t = name_bucket x s" for B' x
    using heap_only_hash[OF w(4)] heap_only_hash[OF t(4)] by (simp_all add: upd_lists_def name_bucket_def)
  have T: "hash_rel t (B(?i := remove1 v (B ?i)))" using U fr by simp
  have d: "distinct (map (\<lambda>e. entry_name e s) (B ?i))" using R i unfolding hash_rel_def by blast
  have "port_look b t = (if name_at b s = name_at a s then Ok 0 else port_look b s)" for b
    using find_distinct_remove1[OF d fd, of "name_at b s"]
    by (cases "name_at b s = name_at a s") (simp_all add: port_look_find[OF T] port_look_find[OF R] fr)
  moreover have "port_rem a s = Ok (he_val (hash_entries s v), t)"
  proof -
    let ?m = "s\<lparr>mutex_owner := (mutex_owner s)(PortHashLock := get_current_proc s)\<rparr>"
    have "port_look a ?m = port_look a s"
      using port_look_find[of ?m B a] R port_look_find[OF R, of a]
      by (simp add: hash_rel_def name_bucket_def bucket_heads_def)
    then have "port_hash_do_locate a (kstrlen PORT_NAME_MAX_LEN a (kmem s)) ?m = Ok v" using l by (simp add: port_look_def)
    moreover have "mutex_release PortHashLock (upd_lists (list_remove (PortHashNode v)) ?m) = Ok ?u"
      using o by (simp add: hash_owned_def upd_lists_def get_current_proc_def mutex_release_def fun_upd_idem)
    moreover have "hash_entries ?u = hash_entries s" by (simp add: upd_lists_def)
    ultimately show ?thesis using o l(2) w(1) t(1)
      by (simp add: port_rem_def port_hash_remove_def hash_owned_def Let_def)
  qed
  ultimately show thesis using T fr t by (intro that[of t]) (auto simp: hash_inv_def)
qed

lemma port_remove_none:
  assumes R: "hash_rel s B" and l: "port_look a s = Ok 0" and o: "mutex_owner s PortHashLock = 0"
  shows "port_rem a s = Ok (0, s)"
proof -
  let ?m = "s\<lparr>mutex_owner := (mutex_owner s)(PortHashLock := get_current_proc s)\<rparr>"
  have "port_look a ?m = port_look a s"
    using port_look_find[of ?m B a] R port_look_find[OF R, of a]
    by (simp add: hash_rel_def name_bucket_def bucket_heads_def)
  then have "port_hash_do_locate a (kstrlen PORT_NAME_MAX_LEN a (kmem s)) ?m = Ok 0" using l by (simp add: port_look_def)
  then show ?thesis using o
    by (simp add: port_rem_def port_hash_remove_def get_current_proc_def mutex_release_def fun_upd_idem)
qed

interpretation port_table: name_table_rem hash_inv hash_fits port_look port_hash_do_insert
  "\<lambda>v s. he_key (hash_entries s v)" "\<lambda>a s. name_at a s" hash_owned port_rem "\<lambda>v s. he_val (hash_entries s v)"
proof
  show "\<exists>t. port_rem a s = Ok (he_val (hash_entries s v), t) \<and> hash_inv t \<and> (\<forall>b. name_at b t = name_at b s) \<and>
      (\<forall>w. he_key (hash_entries t w) = he_key (hash_entries s w)) \<and>
      (\<forall>b. port_look b t = (if name_at b s = name_at a s then Ok 0 else port_look b s))"
    if "hash_inv s" "port_look a s = Ok v" "v \<noteq> 0" "hash_owned v s" for s :: "'a proc_state_scheme" and a v
  proof -
    obtain B where "hash_rel s B" using \<open>hash_inv s\<close> by (auto simp: hash_inv_def)
    from port_remove_law[OF this that(2-4)] show ?thesis by (metis (no_types, lifting))
  qed
qed

section \<open>The empty table\<close>

lemma port_init_heads:
  "lnext (port_hash_init_loop t n h) (PortHashHead t' i) =
     (if t' = t \<and> i < n then PortHashHead t' i else lnext h (PortHashHead t' i))"
  "lprev (port_hash_init_loop t n h) (PortHashHead t' i) =
     (if t' = t \<and> i < n then PortHashHead t' i else lprev h (PortHashHead t' i))"
  by (induction n) (auto simp: less_Suc_eq)

lemma hash_rel_empty:
  assumes "hash_capacity s \<noteq> 0"
    "\<And>i. i < unat (hash_capacity s) \<Longrightarrow> lnext (lists s) (PortHashHead (port_hash s) i) = PortHashHead (port_hash s) i \<and>
       lprev (lists s) (PortHashHead (port_hash s) i) = PortHashHead (port_hash s) i"
  shows "hash_rel s (\<lambda>_. [])"
  using assms by (auto simp: hash_rel_def rings_def ring_def bucket_heads_def)

section \<open>Growth\<close>

definition lists_only :: "'a proc_state_scheme \<Rightarrow> 'a proc_state_scheme \<Rightarrow> bool" where
  "lists_only s t \<longleftrightarrow> (\<exists>l. t = s\<lparr>lists := l\<rparr>)"

lemma lists_only_refl [simp]: "lists_only s s"
  unfolding lists_only_def by (intro exI[of _ "lists s"]) simp

lemma lists_only_trans: "lists_only s t \<Longrightarrow> lists_only t u \<Longrightarrow> lists_only s u"
  by (auto simp: lists_only_def)

lemma lists_only_upd [simp]: "lists_only s (upd_lists f s)"
  unfolding lists_only_def upd_lists_def by blast

lemma port_do_insert_only: "port_hash_do_insert e s = Ok t \<Longrightarrow> lists_only s t"
  by (auto simp: port_hash_do_insert_def bind_res_Ok_iff)

lemma port_rehash_loop_only:
  assumes "port_rehash_loop slot p nxt s = Some (Ok t)"
  shows "lists_only s t"
proof -
  have "\<forall>t. r = Ok t \<longrightarrow> lists_only s t" if "port_rehash_loop slot p nxt s = Some r" for r
  proof (rule port_rehash_loop.raw_induct[where P = "\<lambda>slot p nxt s r. \<forall>t. r = Ok t \<longrightarrow> lists_only s t", OF _ that])
    fix f :: "lnode \<Rightarrow> lnode \<Rightarrow> lnode \<Rightarrow> 'a proc_state_scheme \<Rightarrow> 'a proc_state_scheme res option" and slot p nxt s r
    assume IH: "\<And>slot p nxt s r. f slot p nxt s = Some r \<Longrightarrow> \<forall>t. r = Ok t \<longrightarrow> lists_only s t"
      and b: "(if p = slot then Some (Ok s)
        else case port_hash_do_insert (hash_node_entry p) (upd_lists (list_remove p) s) of
          Ok s \<Rightarrow> f slot nxt (lnext (lists s) nxt) s | Fail e \<Rightarrow> Some (Fail e)) = Some r"
    show "\<forall>t. r = Ok t \<longrightarrow> lists_only s t"
    proof (cases "p = slot")
      case True
      then show ?thesis using b by auto
    next
      case False
      show ?thesis
      proof (cases "port_hash_do_insert (hash_node_entry p) (upd_lists (list_remove p) s)")
        case (Ok u)
        then have "f slot nxt (lnext (lists u) nxt) u = Some r" using b False by simp
        from IH[OF this] show ?thesis
          using port_do_insert_only[OF Ok] lists_only_trans lists_only_upd by blast
      qed (use b False in auto)
    qed
  qed
  then show ?thesis using assms by blast
qed

lemma port_rehash_slots_only: "port_rehash_slots b is s = Ok t \<Longrightarrow> lists_only s t"
proof (induction "is" arbitrary: s)
  case (Cons i js)
  then obtain u where u: "port_hash_rehash_slot (PortHashHead b i) s = Ok u" "port_rehash_slots b js u = Ok t"
    by (auto simp: bind_res_Ok_iff)
  from u(1) have "lists_only s u"
    unfolding port_hash_rehash_slot_def Let_def ends_def
    by (auto split: option.splits dest: port_rehash_loop_only)
  then show ?case using Cons.IH[OF u(2)] lists_only_trans by blast
qed simp

lemma port_rehash_result:
  assumes "port_hash_rehash s = Ok (OK, t)"
  shows "port_hash t = port_hash s" "hash_capacity t = hash_capacity s * 3 div 2" "kmem t = kmem s"
proof -
  obtain new u where u: "kmem_alloc (hash_capacity s * 3 div 2 * LIST_NODE_SIZE) s = Ok (new, u)"
    and r: "(if new = 0 then Ok (NOMEM, u) else
      bind_res (port_rehash_slots (port_hash s) [0..<unat (hash_capacity u)]
        ((upd_lists (port_hash_init_loop new (unat (hash_capacity s * 3 div 2))) u)\<lparr>hash_capacity := hash_capacity s * 3 div 2\<rparr>))
        (\<lambda>s. Ok (OK, s))) = Ok (OK, t)"
    using assms by (auto simp: port_hash_rehash_def Let_def bind_res_Ok_iff upd_lists_def split: if_splits)
  have "new \<noteq> 0" using r by (auto simp: error_defs)
  then have "lists_only ((upd_lists (port_hash_init_loop new (unat (hash_capacity s * 3 div 2))) u)
      \<lparr>hash_capacity := hash_capacity s * 3 div 2\<rparr>) t"
    using r by (auto simp: bind_res_Ok_iff dest: port_rehash_slots_only)
  moreover have "heap_only s u" using kmem_alloc_only[OF u] \<open>new \<noteq> 0\<close> by blast
  ultimately show "port_hash t = port_hash s" "hash_capacity t = hash_capacity s * 3 div 2" "kmem t = kmem s"
    by (auto simp: lists_only_def heap_only_def upd_lists_def)
qed

section \<open>Properties\<close>

text \<open>C24: The table of port names is a map from strings to entries.  An entry whose name is not
  taken goes into the bucket of its name, and afterwards a look-up finds it for exactly the
  addresses that hold its name, and gives what it gave before for all others.  Removing a name
  that is taken returns the port of its entry, gives the entry and its key, and no other block,
  back to the heap, and afterwards a look-up finds nothing for that name and what it found before for
  all others; removing a name that is not taken returns \<open>NULL\<close> and changes nothing.\<close>

theorem port_names_map:
  assumes "hash_inv s"
  shows "(hash_fits v s \<and> port_look (he_key (hash_entries s v)) s = Ok 0 \<longrightarrow>
      (\<exists>t. port_hash_do_insert v s = Ok t \<and> hash_inv t \<and>
        (\<forall>a. port_look a t = (if name_at a s = entry_name v s then Ok v else port_look a s)))) \<and>
    (port_look a s = Ok v \<and> v \<noteq> 0 \<and> hash_owned v s \<longrightarrow>
      (\<exists>t. port_hash_remove a (kstrlen PORT_NAME_MAX_LEN a (kmem s)) s = Ok (he_val (hash_entries s v), t) \<and> hash_inv t \<and>
        (\<forall>b. port_look b t = (if name_at b s = name_at a s then Ok 0 else port_look b s)) \<and>
        kheap_live t = kheap_live s - {v, he_key (hash_entries s v)} \<and> mutex_owner t = mutex_owner s)) \<and>
    (port_look a s = Ok 0 \<and> mutex_owner s PortHashLock = 0 \<longrightarrow>
      port_hash_remove a (kstrlen PORT_NAME_MAX_LEN a (kmem s)) s = Ok (0, s))"
proof (intro conjI impI; elim conjE)
  obtain B where R: "hash_rel s B" using assms by (auto simp: hash_inv_def)
  assume "hash_fits v s" "port_look (he_key (hash_entries s v)) s = Ok 0"
  from port_names.ins_law[OF assms this] show "\<exists>t. port_hash_do_insert v s = Ok t \<and> hash_inv t \<and>
    (\<forall>a. port_look a t = (if name_at a s = entry_name v s then Ok v else port_look a s))" by blast
next
  obtain B where R: "hash_rel s B" using assms by (auto simp: hash_inv_def)
  assume "port_look a s = Ok v" "v \<noteq> 0" "hash_owned v s"
  then show "\<exists>t. port_hash_remove a (kstrlen PORT_NAME_MAX_LEN a (kmem s)) s =
      Ok (he_val (hash_entries s v), t) \<and> hash_inv t \<and>
      (\<forall>b. port_look b t = (if name_at b s = name_at a s then Ok 0 else port_look b s)) \<and>
      kheap_live t = kheap_live s - {v, he_key (hash_entries s v)} \<and> mutex_owner t = mutex_owner s"
    by (rule port_remove_law[OF R]) (auto simp: port_rem_def)
next
  obtain B where R: "hash_rel s B" using assms by (auto simp: hash_inv_def)
  assume "port_look a s = Ok 0" "mutex_owner s PortHashLock = 0"
  from port_remove_none[OF R this] show "port_hash_remove a (kstrlen PORT_NAME_MAX_LEN a (kmem s)) s = Ok (0, s)"
    by (simp add: port_rem_def)
qed

text \<open>Growing the table of port names does not install the new table: the capacity becomes 3/2 of
  what it was and the table stays where it was, so that after the first growth the name
  \<open>P\<close> is looked up, and entered, at the head 32 of a table that has 32 heads.\<close>

theorem port_rehash_outside:
  assumes "port_hash_rehash s = Ok (OK, t)" "hash_capacity s = PORT_HASH_INIT_CAP"
  shows "port_hash t = port_hash s \<and> hash_capacity t = 48 \<and>
    (\<forall>a. name_at a s = [80] \<longrightarrow> port_hash_idx a t = Ok (unat PORT_HASH_INIT_CAP))"
proof -
  note r = port_rehash_result[OF assms(1)]
  have c: "hash_capacity t = 48" using r(2) assms(2) by (simp add: PORT_HASH_INIT_CAP_def)
  have "port_hash_idx a t = Ok (unat PORT_HASH_INIT_CAP)" if "name_at a s = [80]" for a
  proof -
    have "name_at a t = [80]" using that r(3) by simp
    then show ?thesis using port_hash_idx_bucket[of t a] c by (simp add: name_bucket_def PORT_HASH_INIT_CAP_def)
  qed
  then show ?thesis using r(1) c by blast
qed

section \<open>Witnesses\<close>

text \<open>An empty table, on the heap of the process examples; the names \<open>P\<close> and \<open>Q\<close> are in memory.\<close>

definition demo_ports :: proc_state where
  "demo_ports = demo_proc_heap\<lparr>port_hash := 0x3000, hash_capacity := 32,
     lists := port_hash_init_loop 0x3000 32 (lists demo_proc_heap),
     hash_entries := (\<lambda>_. \<lparr>he_key = 0x10, he_val = 0x7000\<rparr>),
     kmem := (\<lambda>a. if a = 0x10 then 80 else if a = 0x20 then 81 else 0)\<rparr>"

lemma demo_port_names: "name_at 0x10 demo_ports = [80]" "name_at 0x20 demo_ports = [81]"
  by (simp_all add: cstring_def demo_ports_def PORT_NAME_MAX_LEN_def bytes_at_def upt_rec[of 0] upt_rec[of "Suc 0"])

text \<open>The same table with an entry at \<open>0x1020\<close> and its key, the name \<open>P\<close>, at \<open>0x1060\<close>, both blocks of the
  heap.\<close>

definition demo_ports_heap :: proc_state where
  "demo_ports_heap = (kheap_take 0x1040 32 (kheap_take 0x1000 32 demo_ports))\<lparr>
     hash_entries := (\<lambda>_. \<lparr>he_key = 0x1060, he_val = 0x7000\<rparr>),
     kmem := (\<lambda>a. if a = 0x1060 then 80 else if a = 0x20 then 81 else 0)\<rparr>"

lemma demo_ports_heap_frame:
  "lists demo_ports_heap = lists demo_ports" "port_hash demo_ports_heap = port_hash demo_ports"
  "hash_capacity demo_ports_heap = hash_capacity demo_ports" "mutex_owner demo_ports_heap = (\<lambda>_. 0)"
proof -
  have "heap_only demo_ports (kheap_take 0x1040 32 (kheap_take 0x1000 32 demo_ports))" by (simp add: kheap_take_only)
  note fr = heap_only_frame[OF this]
  show "lists demo_ports_heap = lists demo_ports" "port_hash demo_ports_heap = port_hash demo_ports"
    "hash_capacity demo_ports_heap = hash_capacity demo_ports" by (simp_all add: demo_ports_heap_def fr)
  show "mutex_owner demo_ports_heap = (\<lambda>_. 0)" using demo_proc_heap_rel(2) by (simp add: demo_ports_heap_def fr demo_ports_def)
qed

lemma demo_ports_heap_rel: "kheap_inv demo_ports_heap" "kheap_live demo_ports_heap = {0x1020, 0x1060}"
proof -
  have hr: "heap_rel demo_ports [(0x1000, 0xfe0, False)]" and m: "mutex_owner demo_ports = (\<lambda>_. 0)"
    using demo_proc_heap_rel by (simp_all add: demo_ports_def heap_rel_def)
  have a: "ALIGNUP 32 32 = (32 :: u64)" by (simp add: ALIGNUP_def ALIGNDOWN_def)
  have "heap_rel (kheap_take 0x1000 32 demo_ports) [(0x1000, 32, True), (0x1040, 0xfa0, False)]"
    using kmem_alloc_hit(2)[OF hr, of 32 "0x1000" "[(0x1000, 32, True), (0x1040, 0xfa0, False)]"] m a by simp
  moreover have "mutex_owner (kheap_take 0x1000 32 demo_ports) = (\<lambda>_. 0)"
    using heap_only_frame[of demo_ports "kheap_take 0x1000 32 demo_ports"] m by (simp add: kheap_take_only)
  ultimately have "heap_rel (kheap_take 0x1040 32 (kheap_take 0x1000 32 demo_ports))
      [(0x1000, 32, True), (0x1040, 32, True), (0x1080, 0xf60, False)]"
    using kmem_alloc_hit(2)[of "kheap_take 0x1000 32 demo_ports" _ 32 "0x1040"
      "[(0x1000, 32, True), (0x1040, 32, True), (0x1080, 0xf60, False)]"] a by simp
  then have "heap_rel demo_ports_heap [(0x1000, 32, True), (0x1040, 32, True), (0x1080, 0xf60, False)]"
    by (simp add: demo_ports_heap_def heap_rel_def)
  then show "kheap_inv demo_ports_heap" "kheap_live demo_ports_heap = {0x1020, 0x1060}"
    by (auto simp: kheap_inv_def kheap_live_rel demo_ports_heap_frame)
qed

lemma demo_ports_heap_hash:
  "hash_rel demo_ports_heap (\<lambda>_. [])" "hash_fits 0x1020 demo_ports_heap"
  "name_at 0x1060 demo_ports_heap = [80]" "name_at 0x20 demo_ports_heap = [81]"
proof -
  show R: "hash_rel demo_ports_heap (\<lambda>_. [])"
    by (rule hash_rel_empty) (simp_all add: demo_ports_heap_frame demo_ports_def port_init_heads)
  show n: "name_at 0x1060 demo_ports_heap = [80]" "name_at 0x20 demo_ports_heap = [81]"
    by (simp_all add: cstring_def demo_ports_heap_def PORT_NAME_MAX_LEN_def bytes_at_def upt_rec[of 0] upt_rec[of "Suc 0"])
  have "x \<notin> set (B i)" if "hash_rel demo_ports_heap B" "i < unat (hash_capacity demo_ports_heap)" for B i x
  proof -
    let ?h = "PortHashHead (port_hash demo_ports_heap) i"
    have "?h \<in> bucket_heads demo_ports_heap" using that(2) unfolding bucket_heads_def by blast
    then have "ring (lists demo_ports_heap) ?h (map PortHashNode (B i))" "ring (lists demo_ports_heap) ?h []"
      using that(1) R ringsD[of "lists demo_ports_heap" "bucket_heads demo_ports_heap" _ ?h] unfolding hash_rel_def by fastforce+
    then have "map PortHashNode (B i) = []" by (rule ring_unique)
    then show ?thesis by simp
  qed
  moreover have "he_key (hash_entries demo_ports_heap 0x1020) = 0x1060" by (simp add: demo_ports_heap_def)
  ultimately show "hash_fits 0x1020 demo_ports_heap" by (auto simp: hash_fits_def n)
qed

theorem port_names_map_witness:
  "\<exists>t u. port_hash_do_insert 0x1020 demo_ports_heap = Ok t \<and> port_look 0x1060 t = Ok 0x1020 \<and> port_look 0x20 t = Ok 0 \<and>
     port_hash_remove 0x1060 (kstrlen PORT_NAME_MAX_LEN 0x1060 (kmem t)) t = Ok (0x7000, u) \<and> port_look 0x1060 u = Ok 0 \<and>
     port_hash_remove 0x1060 (kstrlen PORT_NAME_MAX_LEN 0x1060 (kmem u)) u = Ok (0, u)"
proof -
  let ?s = demo_ports_heap
  note D = demo_ports_heap_hash
  have e: "he_key (hash_entries ?s 0x1020) = 0x1060" "he_val (hash_entries ?s 0x1020) = 0x7000" by (simp_all add: demo_ports_heap_def)
  have l: "port_look a ?s = Ok 0" for a by (simp add: port_look_find[OF D(1)])
  have i: "hash_inv ?s" using D(1) by (auto simp: hash_inv_def)
  obtain t where t: "port_hash_do_insert 0x1020 ?s = Ok t" "hash_inv t"
    "\<forall>a. port_look a t = (if name_at a ?s = [80] then Ok 0x1020 else Ok 0)"
    using port_names_map[OF i, of "0x1020" 0] D(2) l unfolding e D(3) by auto
  have lt: "port_look 0x1060 t = Ok 0x1020" "port_look 0x20 t = Ok 0"
    using spec[OF t(3), of "0x1060"] spec[OF t(3), of "0x20"] unfolding D(3,4) by simp_all
  from port_do_insert_only[OF t(1)] obtain ls where ls: "t = ?s\<lparr>lists := ls\<rparr>" by (auto simp: lists_only_def)
  have "hash_owned 0x1020 t" unfolding hash_owned_def ls using demo_ports_heap_rel demo_ports_heap_frame(4) e by simp
  then obtain u where u: "port_hash_remove 0x1060 (kstrlen PORT_NAME_MAX_LEN 0x1060 (kmem t)) t = Ok (he_val (hash_entries t 0x1020), u)"
    "hash_inv u" "port_look 0x1060 u = Ok 0" "mutex_owner u = mutex_owner t"
    using port_names_map[OF t(2), of "0x1020" "0x1060"] lt by auto
  moreover have "he_val (hash_entries t 0x1020) = 0x7000" "mutex_owner t PortHashLock = 0"
    using e demo_ports_heap_frame(4) by (simp_all add: ls)
  ultimately show ?thesis using t(1) lt port_names_map[OF u(2), of _ "0x1060"] by auto
qed

lemma port_rehash_slots_empty:
  "\<forall>i \<in> set is. lnext (lists s) (PortHashHead b i) = PortHashHead b i \<Longrightarrow> port_rehash_slots b is s = Ok s"
  by (induction "is") (simp_all add: port_hash_rehash_slot_def port_rehash_loop.simps)

theorem port_rehash_outside_witness:
  "\<exists>t. port_hash_rehash demo_ports = Ok (OK, t) \<and> port_hash t = 0x3000 \<and> hash_capacity t = 48 \<and>
     port_hash_idx 0x10 t = Ok 32"
proof -
  have m: "mutex_owner demo_ports = (\<lambda>_. 0)" using demo_proc_heap_rel(2) by (simp add: demo_ports_def)
  have hr: "heap_rel demo_ports [(0x1000, 0xfe0, False)]"
    using demo_proc_heap_rel(1) by (simp add: demo_ports_def heap_rel_def)
  have "h_alloc (ALIGNUP 768 32) [(0x1000, 0xfe0, False)] =
      Some (0x1000, [(0x1000, 0x300, True), (0x1320, 0xcc0, False)])"
    by (simp add: ALIGNUP_def ALIGNDOWN_def)
  from kmem_alloc_hit(1)[OF hr _ this] m
  have a: "kmem_alloc 768 demo_ports = Ok (0x1020, kheap_take 0x1000 (ALIGNUP 768 32) demo_ports)" by simp
  let ?u = "kheap_take 0x1000 (ALIGNUP 768 32) demo_ports"
  have "heap_only demo_ports ?u" by (simp add: kheap_take_only)
  note fr = heap_only_frame[OF this]
  have c: "hash_capacity demo_ports = 32" "port_hash demo_ports = 0x3000" by (simp_all add: demo_ports_def)
  have "\<exists>t. port_hash_rehash demo_ports = Ok (OK, t)"
  proof -
    let ?v = "(upd_lists (port_hash_init_loop 0x1020 48) ?u)\<lparr>hash_capacity := 48\<rparr>"
    have "port_rehash_slots 0x3000 [0..<32] ?v = Ok ?v"
      by (rule port_rehash_slots_empty) (simp add: fr port_init_heads, simp add: demo_ports_def port_init_heads)
    then show ?thesis using a by (simp add: port_hash_rehash_def Let_def c fr LIST_NODE_SIZE_def upd_lists_def)
  qed
  then obtain t where t: "port_hash_rehash demo_ports = Ok (OK, t)" ..
  then show ?thesis using port_rehash_outside[OF t] c demo_port_names(1) by (auto simp: PORT_HASH_INIT_CAP_def)
qed

end
