(* ===== verification/Request_Spec.thy ===== *)
theory Request_Spec
  imports Port_Spec
begin

text \<open>
  The request protocol between clients and servers: what a response does, and two ways in which
  a request is lost.
\<close>

section \<open>Waking leaves the ports alone\<close>

definition ports_same :: "'a proc_state_scheme \<Rightarrow> 'a proc_state_scheme \<Rightarrow> bool" where
  "ports_same s t \<longleftrightarrow> requests t = requests s \<and> server_refs t = server_refs s \<and> client_refs t = client_refs s \<and>
     ports t = ports s \<and> mutex_owner t = mutex_owner s \<and> current_process t = current_process s \<and> futex_size t = futex_size s"

lemma ports_same_refl [simp]: "ports_same s s"
  by (simp add: ports_same_def)

lemma ports_same_trans: "ports_same s t \<Longrightarrow> ports_same t u \<Longrightarrow> ports_same s u"
  by (simp add: ports_same_def)

lemma ports_same_upd [simp]:
  "ports_same s (upd_lists f s)" "ports_same s (upd_proc p g s)" "ports_same s (s\<lparr>bucket_waiters := w\<rparr>)"
  "ports_same s (s\<lparr>process_count := n\<rparr>)"
  by (simp_all add: ports_same_def upd_lists_def upd_proc_def)

lemma spin_ports_same:
  "spin_lock l s = Ok (b, t) \<Longrightarrow> ports_same s t" "spin_unlock l b s = Ok t \<Longrightarrow> ports_same s t"
  by (auto simp: spin_lock_def spin_unlock_def bind_res_Ok_iff ports_same_def)

lemma set_ready_ports_same:
  assumes "sched_set_ready p s = Ok t"
  shows "ports_same s t"
proof -
  obtain b u where u: "spin_lock (QueueLock (sched_pick_cpu s)) s = Ok (b, u)" and
    t: "spin_unlock (QueueLock (sched_pick_cpu s)) b (upd_proc p (\<lambda>q. q\<lparr>p_cpu := sched_pick_cpu s\<rparr>)
      ((upd_lists (\<lambda>h. list_insert (SchedNode p)
         (lprev h (ReadyHead (sched_pick_cpu s) (p_priority (procs u p)))) h) u)
       \<lparr>process_count := (process_count u)(sched_pick_cpu s := process_count u (sched_pick_cpu s) + 1)\<rparr>)) = Ok t"
    using assms by (auto simp: sched_set_ready_def do_sched_set_ready_def Let_def bind_res_Ok_iff)
  show ?thesis
    using spin_ports_same(1)[OF u] spin_ports_same(2)[OF t]
    by (simp add: ports_same_def upd_lists_def upd_proc_def)
qed

lemma wake_loop_ports_same:
  assumes "futex_wake_loop key addr cnt p nxt s = Some (Ok t)"
  shows "ports_same s t"
proof -
  have "\<forall>t. r = Ok t \<longrightarrow> ports_same s t" if "futex_wake_loop key addr cnt p nxt s = Some r" for r
  proof (rule futex_wake_loop.raw_induct[where P = "\<lambda>key addr cnt p nxt s r. \<forall>t. r = Ok t \<longrightarrow> ports_same s t", OF _ that])
    fix f :: "u64 \<Rightarrow> u64 \<Rightarrow> u64 \<Rightarrow> lnode \<Rightarrow> lnode \<Rightarrow> 'a proc_state_scheme \<Rightarrow> 'a proc_state_scheme res option"
      and key addr cnt p nxt and s :: "'a proc_state_scheme" and r
    let ?q = "futex_node_proc p"
    let ?v = "upd_proc ?q (\<lambda>q. q\<lparr>p_state := PROCESS_STATE_READY\<rparr>) (upd_lists (list_remove p) s)"
    let ?w = "\<lambda>u :: 'a proc_state_scheme. u\<lparr>bucket_waiters := (bucket_waiters u)(key := bucket_waiters u key - 1)\<rparr>"
    assume IH: "\<And>key addr cnt p nxt s r. f key addr cnt p nxt s = Some r \<Longrightarrow> \<forall>t. r = Ok t \<longrightarrow> ports_same s t"
      and b: "(if p = FutexHead key then Some (Ok s)
        else if futex_entry_addr s ?q \<noteq> addr then f key addr cnt nxt (lnext (lists s) nxt) s
        else (let s = upd_lists (list_remove p) s; s = upd_proc ?q (\<lambda>q. q\<lparr>p_state := PROCESS_STATE_READY\<rparr>) s
          in case sched_set_ready ?q s of
              Ok s \<Rightarrow> (let cnt = cnt - 1; s = s\<lparr>bucket_waiters := (bucket_waiters s)(key := bucket_waiters s key - 1)\<rparr>
                in if bucket_waiters s key = 0 \<or> cnt = 0 then Some (Ok s) else f key addr cnt nxt (lnext (lists s) nxt) s)
            | Fail e \<Rightarrow> Some (Fail e))) = Some r"
    show "\<forall>t. r = Ok t \<longrightarrow> ports_same s t"
    proof (cases "p = FutexHead key \<or> futex_entry_addr s ?q \<noteq> addr")
      case True
      then show ?thesis using b IH by (auto split: if_splits)
    next
      case False
      show ?thesis
      proof (cases "sched_set_ready ?q ?v")
        case (Ok u)
        have "ports_same s ?v" by (simp add: ports_same_def upd_lists_def upd_proc_def)
        moreover have "ports_same ?v u" by (rule set_ready_ports_same[OF Ok])
        moreover have "ports_same u (?w u)" by simp
        ultimately have su: "ports_same s (?w u)" using ports_same_trans by blast
        have "(if bucket_waiters (?w u) key = 0 \<or> cnt - 1 = 0 then Some (Ok (?w u))
            else f key addr (cnt - 1) nxt (lnext (lists (?w u)) nxt) (?w u)) = Some r"
          using b False Ok by (simp add: Let_def)
        then have "r = Ok (?w u) \<or> (\<forall>t. r = Ok t \<longrightarrow> ports_same (?w u) t)"
          using IH[of key addr "cnt - 1" nxt _ "?w u" r] by (cases "bucket_waiters (?w u) key = 0 \<or> cnt - 1 = 0") auto
        then show ?thesis using su ports_same_trans by blast
      qed (use b False in \<open>auto simp: Let_def\<close>)
    qed
  qed
  then show ?thesis using assms by blast
qed

lemma futex_kwake_ports_same:
  assumes "futex_kwake w n s = Ok t"
  shows "ports_same s t"
proof -
  let ?k = "futex_calc_hash (fword_addr w) s + futex_size s"
  have d: "do_futex_wake ?k (fword_addr w) n s = Ok t" using assms by (auto simp: futex_kwake_def split: if_splits)
  show ?thesis
  proof (cases "bucket_waiters s ?k = 0")
    case True
    then show ?thesis using d by (simp add: do_futex_wake_def)
  next
    case False
    then obtain b u v where u: "spin_lock (BucketLock ?k) s = Ok (b, u)"
      and v: "ends (futex_wake_loop ?k (fword_addr w) n (lnext (lists u) (FutexHead ?k))
        (lnext (lists u) (lnext (lists u) (FutexHead ?k))) u) = Ok v"
      and t: "spin_unlock (BucketLock ?k) b v = Ok t"
      using d by (auto simp: do_futex_wake_def Let_def bind_res_Ok_iff)
    have "ports_same u v" using v by (auto simp: ends_def split: option.splits dest: wake_loop_ports_same)
    then show ?thesis using spin_ports_same(1)[OF u] spin_ports_same(2)[OF t] ports_same_trans by blast
  qed
qed

section \<open>Properties\<close>

text \<open>A response with a result that is longer than the client's buffer is refused with \<open>INVAL\<close>, but
  the request has been taken from the server by then: it is not finished, nobody is woken,
  and every later response on the reference is answered with \<open>PORT_REQ_CANCELED\<close>.\<close>

theorem port_response_drops:
  assumes "ref \<noteq> 0" "sr_req (server_refs s ref) = r" "r \<noteq> 0" "retval \<noteq> 0" "rq_retval_size (requests s r) < retval_size"
  shows "\<exists>t. port_response ref v retval retval_size s = Ok (INVAL, t) \<and> sr_req (server_refs t ref) = 0 \<and>
    rq_finished (requests t r) = rq_finished (requests s r) \<and> procs t = procs s \<and> lists t = lists s \<and>
    (\<forall>v' rv sz. \<exists>u. port_response ref v' rv sz t = Ok (PORT_REQ_CANCELED, u))"
proof -
  let ?t = "upd_req r (\<lambda>q. q\<lparr>rq_val_small := v\<rparr>) (upd_server ref (\<lambda>q. q\<lparr>sr_req := 0\<rparr>) s)"
  have t: "sr_req (server_refs ?t ref) = 0" "rq_finished (requests ?t r) = rq_finished (requests s r)"
    "procs ?t = procs s" "lists ?t = lists s" "rq_retval_size (requests ?t r) = rq_retval_size (requests s r)"
    by (simp_all add: upd_req_def upd_server_def)
  have "port_response ref v retval retval_size s = Ok (INVAL, ?t)"
    using assms t(5) by (simp add: port_response_def Let_def)
  moreover have "\<exists>u. port_response ref v' rv sz ?t = Ok (PORT_REQ_CANCELED, u)" for v' rv sz
    using assms(1) t(1) by (simp add: port_response_def Let_def)
  ultimately show ?thesis using t by (intro exI[of _ ?t]) simp
qed

text \<open>A client can take away the request of another one.  The server answers the request of the
  client \<open>a\<close>, and is sent the request of the client \<open>b\<close> before \<open>a\<close> runs again; then \<open>a\<close>, whose
  request is finished with the result in place, reports \<open>TIMEDOUT\<close>, and the request of \<open>b\<close>
  is removed from the server without being finished.\<close>

theorem port_request_steals:
  assumes serv: "serv \<noteq> 0" and a: "sr_req (server_refs s serv) = client_req a" "client_req a \<noteq> 0"
    and b: "client_req b \<noteq> client_req a" "client_req b \<noteq> 0" "\<not> rq_finished (requests s (client_req b))"
    and r: "port_response serv v 0 0 s = Ok (OK, t)" and q: "port_send_request serv (client_req b) t = Ok u"
  shows "\<exists>w. port_request_finish env a serv u = Ok (TIMEDOUT, w) \<and> sr_req (server_refs w serv) = 0 \<and>
    rq_finished (requests w (client_req a)) \<and> rq_val_small (requests w (client_req a)) = v \<and>
    rq_error (requests w (client_req a)) = rq_error (requests s (client_req a)) \<and>
    \<not> rq_finished (requests w (client_req b))"
proof -
  let ?x = "upd_req (client_req a) (\<lambda>q. q\<lparr>rq_finished := True\<rparr>)
    (upd_req (client_req a) (\<lambda>q. q\<lparr>rq_val_small := v\<rparr>) (upd_server serv (\<lambda>q. q\<lparr>sr_req := 0\<rparr>) s))"
  have "futex_kwake (WReqFinished (client_req a)) 1 ?x = Ok t"
    using r serv a by (auto simp: port_response_def Let_def finish_request_def bind_res_Ok_iff)
  from futex_kwake_ports_same[OF this] have t: "requests t = requests ?x" by (simp add: ports_same_def)
  let ?y = "upd_server serv (\<lambda>r. r\<lparr>sr_req := client_req b\<rparr>) t"
  have "futex_kwake (WServerReq serv) 1 ?y = Ok u" using q by (simp add: port_send_request_def)
  from futex_kwake_ports_same[OF this] have u: "requests u = requests ?x" "sr_req (server_refs u serv) = client_req b"
    using t by (simp_all add: ports_same_def upd_server_def)
  let ?w = "upd_server serv (\<lambda>r. r\<lparr>sr_req := 0\<rparr>) u"
  have "port_request_finish env a serv u = Ok (TIMEDOUT, ?w)"
    using u(2) b(2) by (simp add: port_request_finish_def Let_def)
  then show ?thesis using u(1) b by (intro exI[of _ ?w]) (simp add: upd_server_def upd_req_def)
qed

section \<open>Witnesses\<close>

text \<open>The server \<open>0x5000\<close> holds the request of the client \<open>0x6000\<close>; nobody waits.\<close>

definition demo_request :: proc_state where
  "demo_request = (demo_sched 10)\<lparr>
     server_refs := (\<lambda>_. \<lparr>sr_port = 0, sr_holder = 0, sr_req = client_req 0x6000\<rparr>),
     requests := (\<lambda>_. zero_req)\<rparr>"

lemma demo_request_fields:
  "sr_req (server_refs demo_request p) = client_req 0x6000" "requests demo_request = (\<lambda>_. zero_req)"
  "bucket_waiters demo_request = (\<lambda>_. 0)" "futex_size demo_request = 4"
  by (simp_all add: demo_request_def demo_sched_def)

theorem port_response_drops_witness:
  "\<exists>t. port_response 0x5000 7 0x400000 1 demo_request = Ok (INVAL, t) \<and>
     \<not> rq_finished (requests t (client_req 0x6000)) \<and>
     (\<exists>u. port_response 0x5000 7 0 0 t = Ok (PORT_REQ_CANCELED, u))"
proof -
  have "rq_retval_size (requests demo_request (client_req 0x6000)) < 1" "client_req 0x6000 \<noteq> 0"
    "\<not> rq_finished (requests demo_request (client_req 0x6000))"
    by (simp_all add: demo_request_fields zero_req_def client_req_def)
  with port_response_drops[of "0x5000" demo_request "client_req 0x6000" "0x400000" 1 7] demo_request_fields(1)[of "0x5000"]
  show ?thesis by auto
qed

theorem port_request_steals_witness:
  "\<exists>t u w. port_response 0x5000 7 0 0 demo_request = Ok (OK, t) \<and> port_send_request 0x5000 (client_req 0x7000) t = Ok u \<and>
     port_request_finish Ok 0x6000 0x5000 u = Ok (TIMEDOUT, w) \<and> rq_finished (requests w (client_req 0x6000)) \<and>
     \<not> rq_finished (requests w (client_req 0x7000))"
proof -
  have k: "futex_kwake w n s = Ok s" if "futex_size s = 4" "bucket_waiters s = (\<lambda>_. 0)" for w n and s :: proc_state
    using that by (simp add: futex_kwake_def do_futex_wake_def)
  let ?t = "upd_req (client_req 0x6000) (\<lambda>q. q\<lparr>rq_finished := True\<rparr>)
    (upd_req (client_req 0x6000) (\<lambda>q. q\<lparr>rq_val_small := 7\<rparr>) (upd_server 0x5000 (\<lambda>q. q\<lparr>sr_req := 0\<rparr>) demo_request))"
  let ?u = "upd_server 0x5000 (\<lambda>r. r\<lparr>sr_req := client_req 0x7000\<rparr>) ?t"
  have c: "client_req 0x6000 \<noteq> 0" "client_req 0x7000 \<noteq> client_req 0x6000" "client_req 0x7000 \<noteq> 0"
    by (simp_all add: client_req_def)
  have f: "futex_size ?t = 4" "bucket_waiters ?t = (\<lambda>_. 0)" "futex_size ?u = 4" "bucket_waiters ?u = (\<lambda>_. 0)"
    by (simp_all add: upd_req_def upd_server_def demo_request_fields)
  have t: "port_response 0x5000 7 0 0 demo_request = Ok (OK, ?t)"
    using c(1) k[OF f(1,2)] by (simp add: port_response_def Let_def finish_request_def demo_request_fields(1))
  have u: "port_send_request 0x5000 (client_req 0x7000) ?t = Ok ?u"
    using k[OF f(3,4)] by (simp add: port_send_request_def)
  have "\<not> rq_finished (requests demo_request (client_req 0x7000))" by (simp add: demo_request_fields zero_req_def)
  from port_request_steals[OF _ demo_request_fields(1) c this t u, of Ok] t u show ?thesis by auto
qed

end
