(* ===== verification/K_term.thy ===== *)
theory K_term
  imports K_port_ifce
begin

text \<open>
  The end of a process: \<open>kobject_cleanup\<close> of \<open>k_kobj.c\<close> and \<open>__process_on_terminate\<close> of
  \<open>k_proc.c\<close>, with the two places it is called from.
\<close>

definition as_acquire :: "u64 \<Rightarrow> 'a lock_state_scheme \<Rightarrow> 'a lock_state_scheme res" where
  "as_acquire as s = nonnull as (mutex_acquire (AsLock as) s)"

definition as_release :: "u64 \<Rightarrow> 'a lock_state_scheme \<Rightarrow> 'a lock_state_scheme res" where
  "as_release as s = nonnull as (mutex_release (AsLock as) s)"

definition as_add_ref :: "u64 \<Rightarrow> u64 \<Rightarrow> 'a vm_state_scheme \<Rightarrow> 'a vm_state_scheme" where
  "as_add_ref as d s = s\<lparr>as_ref_count := (as_ref_count s)(as := as_ref_count s as + d)\<rparr>"

section \<open>Closing the kernel objects\<close>

text \<open>One turn of the loop.  The lock of an address space that has been destroyed is released a
  second time.\<close>

definition kobject_close :: "kobject \<Rightarrow> 'a ifce_state_scheme \<Rightarrow> 'a ifce_state_scheme res" where
  "kobject_close obj s =
     (if ko_type obj = KOBJ_UNALLOCED \<or> ko_type obj = KOBJ_PREALLOCED then Ok s
      else if ko_type obj = KOBJ_TYPE_PORT_SERVER_REF then port_server_close (ko_ptr obj) s
      else if ko_type obj = KOBJ_TYPE_PORT_CLIENT_REF then port_client_close (ko_ptr obj) s
      else if ko_type obj = KOBJ_TYPE_ADDRESS_SPACE then (let as = ko_ptr obj in
        bind_res (as_acquire as s) (\<lambda>s. let s = as_add_ref as (-1) s in
        bind_res (if as_ref_count s as = 0
                  then bind_res (as_release as s) (vm_address_space_destroy as) else Ok s)
          (as_release as)))
      else if ko_type obj = KOBJ_TYPE_PORT_IFCE
      then nonnull (ko_ptr obj) (ifce_close (if_close_func (port_ifces s (ko_ptr obj))) s)
      else Ok s)"

fun kobject_cleanup_loop :: "u64 \<Rightarrow> nat list \<Rightarrow> 'a ifce_state_scheme \<Rightarrow> 'a ifce_state_scheme res" where
  "kobject_cleanup_loop proc [] s = Ok s"
| "kobject_cleanup_loop proc (i # is) s =
     bind_res (kobject_close (kobjs s (p_kobjects (procs s proc)) i) s) (kobject_cleanup_loop proc is)"

definition kobject_cleanup :: "u64 \<Rightarrow> 'a ifce_state_scheme \<Rightarrow> 'a ifce_state_scheme res" where
  "kobject_cleanup proc s = kobject_cleanup_loop proc [0..<unat (p_kobject_size (procs s proc))] s"

section \<open>Termination\<close>

fun sibling_node_proc :: "lnode \<Rightarrow> u64" where
  "sibling_node_proc (SiblingNode p) = p"
| "sibling_node_proc _ = 0"

text \<open>The loop over the children; the result of \<open>mutex_try_acquire\<close> is not looked at.\<close>

partial_function (option) reparent_loop ::
    "u64 \<Rightarrow> lnode \<Rightarrow> lnode \<Rightarrow> 'a proc_state_scheme \<Rightarrow> 'a proc_state_scheme res option" where
  "reparent_loop me p nxt s =
     (if p = ChildHead me then Some (Ok s)
      else (let
        child = sibling_node_proc p;
        parent = p_parent (procs s me);
        s = snd (mutex_try_acquire (ProcLock child) s);
        s = upd_proc child (\<lambda>c. c\<lparr>p_parent := parent\<rparr>) s;
        s = upd_lists (list_remove (SiblingNode child)) s;
        s = upd_lists (list_insert (SiblingNode child) (ChildHead parent)) s
      in case mutex_release (ProcLock child) s of
          Fail e \<Rightarrow> Some (Fail e)
        | Ok s \<Rightarrow> reparent_loop me nxt (lnext (lists s) nxt) s))"

definition reparent_children :: "u64 \<Rightarrow> 'a proc_state_scheme \<Rightarrow> 'a proc_state_scheme res" where
  "reparent_children me s = (let p = lnext (lists s) (ChildHead me)
     in ends (reparent_loop me p (lnext (lists s) p) s))"

text \<open>\<open>__process_on_terminate\<close> up to the call of \<open>sched_resched\<close>.\<close>

definition process_leave :: "'a ifce_state_scheme \<Rightarrow> 'a ifce_state_scheme res" where
  "process_leave s = (let
     me = current_process s;
     parent = p_parent (procs s me)
   in if parent = 0 then Fail (Panic ''process with NULL parent terminated'')
      else (let s = sched_disable s in
        bind_res (mutex_acquire (ProcLock me) s) (\<lambda>s.
        bind_res (kobject_cleanup me s) (\<lambda>s.
        bind_res (mutex_acquire (ProcLock parent) s) (\<lambda>s.
        bind_res (reparent_children me s) (\<lambda>s. let
          s = upd_proc parent (\<lambda>p. p\<lparr>p_exited_child_count := p_exited_child_count p + 1\<rparr>) s
        in bind_res (futex_kwake (WChildCount parent) 1 s) (\<lambda>s.
           bind_res (mutex_release (ProcLock parent) s) (\<lambda>s.
           bind_res (mutex_release (ProcLock me) s) (\<lambda>s.
           bind_res (sched_leave me s) (\<lambda>s. Ok (sched_enable s)))))))))))"

definition process_on_terminate ::
    "('a ifce_state_scheme \<Rightarrow> 'a ifce_state_scheme res) \<Rightarrow>
     'a ifce_state_scheme \<Rightarrow> 'a ifce_state_scheme res" where
  "process_on_terminate env s = bind_res (process_leave s) (\<lambda>s.
     bind_res (sched_resched env s) (\<lambda>s. Fail (Panic ''PROCESS_ON_TERMINATE reached end'')))"

definition process_on_sysret ::
    "('a ifce_state_scheme \<Rightarrow> 'a ifce_state_scheme res) \<Rightarrow>
     'a ifce_state_scheme \<Rightarrow> 'a ifce_state_scheme res" where
  "process_on_sysret env s =
     (if p_terminate_flag (procs s (current_process s)) then process_on_terminate env s else Ok s)"

definition process_on_user_iret ::
    "('a ifce_state_scheme \<Rightarrow> 'a ifce_state_scheme res) \<Rightarrow>
     'a ifce_state_scheme \<Rightarrow> 'a ifce_state_scheme res" where
  "process_on_user_iret env s =
     (if p_terminate_flag (procs s (current_process s)) then process_on_terminate env s else Ok s)"

end
