(* ===== verification/K_syscall.thy ===== *)
theory K_syscall
  imports K_term
begin

text \<open>
  \<open>k_syscall.c\<close>: the system calls, and the entry of \<open>hal_syscall.s\<close>.  Results are 64-bit words; an
  error is the negated code.  The buffers and structures a call keeps on its stack are in \<open>kmem\<close>
  from the address \<open>stk\<close>; \<open>env\<close> and \<open>kpa\<close> are as in the theory \<open>K_switch\<close>.
\<close>

definition USER_ALLOWED_FLAGS :: u64 where
  "USER_ALLOWED_FLAGS = VM_PAGE_WRITABLE OR VM_PAGE_EXECUTABLE"

definition lock_current :: "'a lock_state_scheme \<Rightarrow> 'a lock_state_scheme res" where
  "lock_current s = mutex_acquire (ProcLock (current_process s)) s"

definition unlock_current :: "'a lock_state_scheme \<Rightarrow> 'a lock_state_scheme res" where
  "unlock_current s = mutex_release (ProcLock (current_process s)) s"

text \<open>\<open>obj->type\<close> and \<open>obj->ptr\<close> are set and the object is released; the handle is the result.\<close>

definition kobj_publish ::
    "u64 \<times> nat \<Rightarrow> u64 \<Rightarrow> u64 \<Rightarrow> u64 \<Rightarrow> 'a proc_state_scheme \<Rightarrow> (u64 \<times> 'a proc_state_scheme) res" where
  "kobj_publish obj type ptr h s = (let
     s = upd_kobj obj (\<lambda>k. k\<lparr>ko_type := type\<rparr>) s;
     s = upd_kobj obj (\<lambda>k. k\<lparr>ko_ptr := ptr\<rparr>) s
   in bind_res (mutex_release (kobj_lock obj) s) (\<lambda>s. Ok (h, s)))"

section \<open>Address spaces\<close>

definition syscall_as_create :: "'a proc_state_scheme \<Rightarrow> (u64 \<times> 'a proc_state_scheme) res" where
  "syscall_as_create s = bind_res (lock_current s) (\<lambda>s.
     bind_res (kobject_alloc_lock (current_process s) s) (\<lambda>(r, s).
     bind_res (unlock_current s) (\<lambda>s. case r of
       None \<Rightarrow> Ok (- NOMEM, s)
     | Some (obj, h) \<Rightarrow> bind_res (vm_address_space_create s) (\<lambda>(as, s).
         if as = 0 then bind_res (kobject_free_release obj s) (\<lambda>s. Ok (- NOMEM, s))
         else kobj_publish obj KOBJ_TYPE_ADDRESS_SPACE as h (as_add_ref as 1 s)))))"

text \<open>The address space of a handle, locked; 0 if there is none.\<close>

definition as_lock_fetch :: "u64 \<Rightarrow> 'a proc_state_scheme \<Rightarrow> (u64 \<times> 'a proc_state_scheme) res" where
  "as_lock_fetch h s =
     (if h = 0
      then bind_res (as_acquire (CURRENT_ADDRESS_SPACE s) s) (\<lambda>s. Ok (CURRENT_ADDRESS_SPACE s, s))
      else bind_res (kobject_lock_fetch (current_process s) h s) (\<lambda>(r, s). case r of
        None \<Rightarrow> Ok (0, s)
      | Some obj \<Rightarrow>
          if ko_type (kobj_at obj s) \<noteq> KOBJ_TYPE_ADDRESS_SPACE
          then bind_res (mutex_release (kobj_lock obj) s) (\<lambda>s. Ok (0, s))
          else (let ret = ko_ptr (kobj_at obj s) in
            bind_res (as_acquire ret s) (\<lambda>s.
            bind_res (mutex_release (kobj_lock obj) s) (\<lambda>s. Ok (ret, s))))))"

definition syscall_as_clone :: "u64 \<Rightarrow> 'a proc_state_scheme \<Rightarrow> (u64 \<times> 'a proc_state_scheme) res" where
  "syscall_as_clone src_h s = bind_res (lock_current s) (\<lambda>s.
     bind_res (as_lock_fetch src_h s) (\<lambda>(src, s).
     if src = 0 then bind_res (unlock_current s) (\<lambda>s. Ok (- INVAL, s)) else
     bind_res (kobject_alloc_lock (current_process s) s) (\<lambda>(r, s).
     bind_res (unlock_current s) (\<lambda>s. case r of
       None \<Rightarrow> bind_res (as_release src s) (\<lambda>s. Ok (- NOMEM, s))
     | Some (obj, ret_h) \<Rightarrow> bind_res (vm_address_space_clone src s) (\<lambda>(cloned, s).
         if cloned = 0
         then bind_res (as_release src s) (\<lambda>s.
              bind_res (kobject_free_release obj s) (\<lambda>s. Ok (- NOMEM, s)))
         else bind_res (as_release src s) (\<lambda>s.
              kobj_publish obj KOBJ_TYPE_ADDRESS_SPACE cloned ret_h (as_add_ref cloned 1 s)))))))"

text \<open>The second look-up of the handle is not checked.\<close>

definition syscall_as_destroy :: "u64 \<Rightarrow> 'a proc_state_scheme \<Rightarrow> (u64 \<times> 'a proc_state_scheme) res" where
  "syscall_as_destroy h s =
     (if h = 0 then Ok (- INVAL, s) else
      bind_res (lock_current s) (\<lambda>s.
      bind_res (as_lock_fetch h s) (\<lambda>(as, s).
      bind_res (unlock_current s) (\<lambda>s.
      if as = 0 then Ok (- INVAL, s)
      else (let s = as_add_ref as (-1) s in
        if as_ref_count s as = 0
        then bind_res (lock_current s) (\<lambda>s.
             bind_res (kobject_lock_fetch (current_process s) h s) (\<lambda>(r, s).
             bind_res (as_release as s) (\<lambda>s.
             bind_res (vm_address_space_destroy as s) (\<lambda>s. case r of
               None \<Rightarrow> Fail NullDeref
             | Some obj \<Rightarrow> bind_res (kobject_free_release obj s) (\<lambda>s.
                 bind_res (unlock_current s) (\<lambda>s. Ok (OK, s)))))))
        else bind_res (as_release as s) (\<lambda>s. Ok (OK, s)))))))"

section \<open>Mappings\<close>

text \<open>The loop of \<open>syscall_mmap\<close>: the error code, \<open>OK\<close> when every page is mapped.\<close>

partial_function (option) mmap_loop ::
    "u64 \<Rightarrow> u64 \<Rightarrow> u64 \<Rightarrow> u64 \<Rightarrow> u64 \<Rightarrow> u64 \<Rightarrow> 'a vm_state_scheme \<Rightarrow> (u64 \<times> 'a vm_state_scheme) res option" where
  "mmap_loop as vaddr sz flag mapped vi s =
     (if mapped < sz
      then case pma_alloc s of
          Fail e \<Rightarrow> Some (Fail e)
        | Ok (paddr, s) \<Rightarrow>
          if paddr = 0
          then Some (bind_res (vm_unmap_n as vaddr mapped s) (\<lambda>s. Ok (NOMEM, s)))
          else if vm_is_mapped as vi s
          then Some (bind_res (vm_unmap_n as vaddr mapped s) (\<lambda>s. Ok (INVAL, s)))
          else (case vm_map_page as vi paddr flag s of
              Fail e \<Rightarrow> Some (Fail e)
            | Ok (m, s) \<Rightarrow>
              if m = 0
              then Some (bind_res (vm_unmap_n as vi mapped s) (\<lambda>s. Ok (NOMEM, s)))
              else mmap_loop as vaddr sz flag (mapped + KMEM_PAGE_SIZE) (vi + KMEM_PAGE_SIZE)
                     (phys_set paddr 0 KMEM_PAGE_SIZE s))
      else Some (Ok (OK, s)))"

text \<open>\<open>vm_alloc_vaddr\<close> on the user range.\<close>

definition alloc_user_vaddr :: "u64 \<Rightarrow> u64 \<Rightarrow> 'a vm_state_scheme \<Rightarrow> u64 res" where
  "alloc_user_vaddr as sz s = ends (map_option Ok
     (vm_alloc_vaddr as USERLAND_VADDR_BEGIN USERLAND_VADDR_END sz s))"

definition syscall_mmap ::
    "u64 \<Rightarrow> u64 \<Rightarrow> u64 \<Rightarrow> u64 \<Rightarrow> 'a proc_state_scheme \<Rightarrow> (u64 \<times> 'a proc_state_scheme) res" where
  "syscall_mmap as_handler vaddr sz flag s =
     (if vaddr AND push_bit 47 1 \<noteq> 0 then Ok (- DENIED, s)
      else if (vaddr + sz) AND push_bit 47 1 \<noteq> 0 then Ok (- DENIED, s)
      else if flag AND NOT USER_ALLOWED_FLAGS \<noteq> 0 then Ok (- DENIED, s)
      else bind_res (lock_current s) (\<lambda>s.
        bind_res (as_lock_fetch as_handler s) (\<lambda>(as, s).
        bind_res (unlock_current s) (\<lambda>s.
        bind_res (if vaddr = 0 then alloc_user_vaddr as sz s else Ok vaddr) (\<lambda>vaddr.
        if vaddr = 0 then bind_res (as_release as s) (\<lambda>s. Ok (- NOMEM, s))
        else if VM_OFFSET_PAGE_2M vaddr \<noteq> 0 then bind_res (as_release as s) (\<lambda>s. Ok (- INVAL, s))
        else bind_res (ends (mmap_loop as vaddr sz flag 0 vaddr s)) (\<lambda>(e, s).
          bind_res (as_release as s) (\<lambda>s. Ok (if e = OK then vaddr else - e, s))))))))"

text \<open>The loop of \<open>syscall_mtransfer\<close>, with the error code.\<close>

partial_function (option) mtransfer_loop ::
    "u64 \<Rightarrow> u64 \<Rightarrow> u64 \<Rightarrow> u64 \<Rightarrow> u64 \<Rightarrow> u64 \<Rightarrow> u64 \<Rightarrow> u64 \<Rightarrow> 'a vm_state_scheme \<Rightarrow>
     (u64 \<times> 'a vm_state_scheme) res option" where
  "mtransfer_loop dst src vaddr_d sz flag mapped si di s =
     (if mapped < sz
      then if \<not> vm_is_mapped src si s \<or> vm_is_mapped dst di s
        then Some (bind_res (vm_unmap_n dst vaddr_d mapped s) (\<lambda>s. Ok (INVAL, s)))
        else (let
          pma = vm_get_pma_by_vma (as_pml4_paddr s src) si s;
          s = pma_inc_ref_count pma KMEM_PAGE_SIZE s
        in case vm_map_page dst di pma flag s of
            Fail e \<Rightarrow> Some (Fail e)
          | Ok (m, s) \<Rightarrow>
            if m = 0
            then Some (bind_res (vm_unmap_n dst vaddr_d mapped s) (\<lambda>s. Ok (NOMEM, s)))
            else mtransfer_loop dst src vaddr_d sz flag (mapped + KMEM_PAGE_SIZE)
                   (si + KMEM_PAGE_SIZE) (di + KMEM_PAGE_SIZE) s)
      else Some (Ok (OK, s)))"

text \<open>The checks at the start of \<open>syscall_mtransfer\<close>: the error code, or \<open>OK\<close>.\<close>

definition mtransfer_check :: "u64 \<Rightarrow> u64 \<Rightarrow> u64 \<Rightarrow> u64 \<Rightarrow> u64" where
  "mtransfer_check vaddr_d vaddr_s sz flag =
     (if vaddr_s = 0 \<and> vaddr_d = 0 then INVAL
      else if vaddr_s \<ge> USERLAND_VADDR_END then DENIED
      else if vaddr_d \<ge> USERLAND_VADDR_END then DENIED
      else if vaddr_s + sz > USERLAND_VADDR_END then DENIED
      else if vaddr_d + sz > USERLAND_VADDR_END then DENIED
      else if vaddr_s < USERLAND_VADDR_BEGIN then INVAL
      else if vaddr_d < USERLAND_VADDR_BEGIN then INVAL
      else if VM_OFFSET_PAGE_2M vaddr_s \<noteq> 0 then INVAL
      else if VM_OFFSET_PAGE_2M vaddr_d \<noteq> 0 then INVAL
      else if flag AND NOT USER_ALLOWED_FLAGS \<noteq> 0 then DENIED
      else OK)"

definition syscall_mtransfer ::
    "u64 \<Rightarrow> u64 \<Rightarrow> u64 \<Rightarrow> u64 \<Rightarrow> u64 \<Rightarrow> u64 \<Rightarrow> 'a proc_state_scheme \<Rightarrow> (u64 \<times> 'a proc_state_scheme) res" where
  "syscall_mtransfer dh sh vaddr_d vaddr_s sz flag s = (let c = mtransfer_check vaddr_d vaddr_s sz flag in
     if c \<noteq> OK then Ok (- c, s) else
     bind_res (lock_current s) (\<lambda>s.
     bind_res (as_lock_fetch sh s) (\<lambda>(src, s).
     if src = 0 then bind_res (unlock_current s) (\<lambda>s. Ok (- INVAL, s)) else
     bind_res (as_lock_fetch dh s) (\<lambda>(dst, s).
     if dst = 0
     then bind_res (as_release src s) (\<lambda>s. bind_res (unlock_current s) (\<lambda>s. Ok (- INVAL, s))) else
     bind_res (if vaddr_d = 0 then alloc_user_vaddr dst sz s else Ok vaddr_d) (\<lambda>vaddr_d.
     if vaddr_d = 0
     then bind_res (as_release dst s) (\<lambda>s. bind_res (as_release src s) (\<lambda>s.
          bind_res (unlock_current s) (\<lambda>s. Ok (- NOMEM, s)))) else
     bind_res (unlock_current s) (\<lambda>s.
     bind_res (ends (mtransfer_loop dst src vaddr_d sz flag 0 vaddr_s vaddr_d s)) (\<lambda>(e, s).
     bind_res (if e = OK then vm_unmap_n src vaddr_s sz s else Ok s) (\<lambda>s.
     bind_res (as_release src s) (\<lambda>s. bind_res (as_release dst s) (\<lambda>s.
     Ok (if e = OK then vaddr_d else - e, s)))))))))))"

partial_function (option) munmap_check_loop ::
    "u64 \<Rightarrow> u64 \<Rightarrow> u64 \<Rightarrow> 'a vm_state_scheme \<Rightarrow> bool res option" where
  "munmap_check_loop as vi e s =
     (if vi < e
      then if vm_is_mapped as vi s then munmap_check_loop as (vi + KMEM_PAGE_SIZE) e s
           else Some (Ok False)
      else Some (Ok True))"

definition syscall_munmap ::
    "u64 \<Rightarrow> u64 \<Rightarrow> u64 \<Rightarrow> 'a proc_state_scheme \<Rightarrow> (u64 \<times> 'a proc_state_scheme) res" where
  "syscall_munmap h vaddr sz s =
     (if vaddr AND push_bit 47 1 \<noteq> 0 then Ok (- DENIED, s)
      else if (vaddr + sz) AND push_bit 47 1 \<noteq> 0 then Ok (- DENIED, s)
      else bind_res (as_lock_fetch h s) (\<lambda>(as, s).
        if as = 0 then Ok (- INVAL, s) else
        bind_res (ends (munmap_check_loop as vaddr (vaddr + sz) s)) (\<lambda>ok.
        if \<not> ok then bind_res (as_release as s) (\<lambda>s. Ok (- DENIED, s))
        else bind_res (vm_unmap_n as vaddr sz s) (\<lambda>s.
             bind_res (as_release as s) (\<lambda>s. Ok (0, s))))))"

section \<open>Ports\<close>

text \<open>A user structure or buffer is read to the stack; when it is not readable the process is
  marked for termination and the call goes on with what the stack held.\<close>

definition read_to_stack :: "u64 \<Rightarrow> u64 \<Rightarrow> u64 \<Rightarrow> 'a proc_state_scheme \<Rightarrow> 'a proc_state_scheme res" where
  "read_to_stack stk addr sz s = bind_res (user_memory_read (CURRENT_ADDRESS_SPACE s) addr sz s) (\<lambda>(r, s).
     case r of
       Some bs \<Rightarrow> Ok (s\<lparr>kmem := put_bytes stk bs (kmem s)\<rparr>)
     | None \<Rightarrow> Ok (process_raise_exception (current_process s) s))"

definition write_from_stack :: "u64 \<Rightarrow> u64 \<Rightarrow> nat \<Rightarrow> 'a proc_state_scheme \<Rightarrow> 'a proc_state_scheme res" where
  "write_from_stack stk addr n s =
     bind_res (user_memory_write (CURRENT_ADDRESS_SPACE s) addr (bytes_at (kmem s) stk n) s) (\<lambda>(ok, s).
       Ok (if ok then s else process_raise_exception (current_process s) s))"

definition syscall_port_create ::
    "u64 \<Rightarrow> u64 \<Rightarrow> u64 \<Rightarrow> 'a proc_state_scheme \<Rightarrow> (u64 \<times> 'a proc_state_scheme) res" where
  "syscall_port_create stk name namelen s =
     (if namelen \<ge> PORT_NAME_MAX_LEN then Ok (- INVAL, s) else
      bind_res (read_to_stack stk name namelen s) (\<lambda>s. let
        s = s\<lparr>kmem := (kmem s)(stk + namelen := 0)\<rparr>
      in bind_res (lock_current s) (\<lambda>s.
      bind_res (kobject_alloc_lock (current_process s) s) (\<lambda>(r, s).
      bind_res (unlock_current s) (\<lambda>s. case r of
        None \<Rightarrow> Ok (- NOMEM, s)
      | Some (obj, h) \<Rightarrow> bind_res (port_create stk namelen s) (\<lambda>(ref, error, s).
          if ref = 0 then bind_res (kobject_free_release obj s) (\<lambda>s. Ok (- error, s))
          else kobj_publish obj KOBJ_TYPE_PORT_SERVER_REF ref h s))))))"

definition syscall_port_open ::
    "u64 \<Rightarrow> u64 \<Rightarrow> u64 \<Rightarrow> 'a ifce_state_scheme \<Rightarrow> (u64 \<times> 'a ifce_state_scheme) res" where
  "syscall_port_open stk name namelen s =
     (if namelen \<ge> PORT_NAME_MAX_LEN then Ok (- INVAL, s) else
      bind_res (read_to_stack stk name namelen s) (\<lambda>s. let
        s = s\<lparr>kmem := (kmem s)(stk + namelen := 0)\<rparr>
      in bind_res (lock_current s) (\<lambda>s.
      bind_res (kobject_alloc_lock (current_process s) s) (\<lambda>(r, s).
      bind_res (unlock_current s) (\<lambda>s. case r of
        None \<Rightarrow> Ok (- NOMEM, s)
      | Some (obj, h) \<Rightarrow> (let ifce = port_ifce_lookup stk s in
          if ifce \<noteq> 0
          then bind_res (ifce_open (if_open_func (port_ifces s ifce)) s) (\<lambda>(error, s).
            if error \<noteq> OK then bind_res (kobject_free_release obj s) (\<lambda>s. Ok (- error, s))
            else kobj_publish obj KOBJ_TYPE_PORT_IFCE ifce h s)
          else bind_res (port_open stk namelen s) (\<lambda>(ref, error, s).
            if ref = 0 then bind_res (kobject_free_release obj s) (\<lambda>s. Ok (- error, s))
            else kobj_publish obj KOBJ_TYPE_PORT_CLIENT_REF ref h s)))))))"

text \<open>The object of a handle, looked up under the lock of the process.\<close>

definition fetch_object ::
    "u64 \<Rightarrow> 'a proc_state_scheme \<Rightarrow> ((u64 \<times> nat) option \<times> 'a proc_state_scheme) res" where
  "fetch_object h s = bind_res (lock_current s) (\<lambda>s.
     bind_res (kobject_lock_fetch (current_process s) h s) (\<lambda>(r, s).
     bind_res (unlock_current s) (\<lambda>s. Ok (r, s))))"

definition syscall_port_close :: "u64 \<Rightarrow> 'a ifce_state_scheme \<Rightarrow> (u64 \<times> 'a ifce_state_scheme) res" where
  "syscall_port_close handler s = bind_res (fetch_object handler s) (\<lambda>(r, s). case r of
     None \<Rightarrow> Ok (- INVAL, s)
   | Some obj \<Rightarrow> (let
       type = ko_type (kobj_at obj s);
       ptr = ko_ptr (kobj_at obj s);
       done = (\<lambda>s. bind_res (kobject_free_release obj s) (\<lambda>s. Ok (0, s)))
     in if type = KOBJ_TYPE_PORT_SERVER_REF then bind_res (port_server_close ptr s) done
        else if type = KOBJ_TYPE_PORT_CLIENT_REF then bind_res (port_client_close ptr s) done
        else if type = KOBJ_TYPE_PORT_IFCE
        then bind_res (ifce_close (if_close_func (port_ifces s ptr)) s) done
        else bind_res (mutex_release (kobj_lock obj) s) (\<lambda>s. Ok (- INVAL, s))))"

text \<open>\<open>port_request_user_t\<close> at an address of the kernel: the offsets of its fields, and its size.\<close>

definition UR_SENDER_PID :: u64 where "UR_SENDER_PID = 0"
definition UR_VAL_SMALL :: u64 where "UR_VAL_SMALL = 8"
definition UR_DATA_ADDR :: u64 where "UR_DATA_ADDR = 16"
definition UR_DATA_SIZE :: u64 where "UR_DATA_SIZE = 24"
definition UR_RETVAL_ADDR :: u64 where "UR_RETVAL_ADDR = 32"
definition UR_RETVAL_SIZE :: u64 where "UR_RETVAL_SIZE = 40"
definition UR_SIZE :: nat where "UR_SIZE = 48"

definition ur_get :: "u64 \<Rightarrow> u64 \<Rightarrow> 'a proc_state_scheme \<Rightarrow> u64" where
  "ur_get stk off s = rd64 (kmem s) (stk + off)"

definition ur_put :: "u64 \<Rightarrow> u64 \<Rightarrow> u64 \<Rightarrow> 'a proc_state_scheme \<Rightarrow> 'a proc_state_scheme" where
  "ur_put stk off v s = s\<lparr>kmem := wr64 (stk + off) v (kmem s)\<rparr>"

text \<open>A failed check of a user buffer releases the lock and goes on; the lock is then released
  a second time.\<close>

definition ifce_check ::
    "(u64 \<Rightarrow> u64 \<Rightarrow> u64 \<Rightarrow> 'a proc_state_scheme \<Rightarrow> bool res) \<Rightarrow> u64 \<Rightarrow> u64 \<Rightarrow>
     'a proc_state_scheme \<Rightarrow> 'a proc_state_scheme res" where
  "ifce_check check addr sz s =
     (if addr = 0 then Ok s
      else bind_res (check (CURRENT_ADDRESS_SPACE s) addr sz s) (\<lambda>ok.
        if ok then Ok s
        else bind_res (as_release (CURRENT_ADDRESS_SPACE s) s) (\<lambda>s.
          Ok (process_raise_exception (current_process s) s))))"

definition syscall_ifce_request ::
    "u64 \<Rightarrow> u64 \<times> nat \<Rightarrow> u64 \<Rightarrow> 'a ifce_state_scheme \<Rightarrow> (u64 \<times> 'a ifce_state_scheme) res" where
  "syscall_ifce_request stk obj req s =
     bind_res (as_acquire (CURRENT_ADDRESS_SPACE s) s) (\<lambda>s.
     bind_res (ifce_check user_memory_check_read (ur_get stk UR_DATA_ADDR s) (ur_get stk UR_DATA_SIZE s) s) (\<lambda>s.
     bind_res (ifce_check user_memory_check_write (ur_get stk UR_RETVAL_ADDR s) (ur_get stk UR_RETVAL_SIZE s) s) (\<lambda>s.
     bind_res (as_release (CURRENT_ADDRESS_SPACE s) s) (\<lambda>s. let
       ifce = ko_ptr (kobj_at obj s)
     in bind_res (ifce_request (if_req_func (port_ifces s ifce))
          (ur_get stk UR_VAL_SMALL s) (ur_get stk UR_DATA_ADDR s) (ur_get stk UR_DATA_SIZE s)
          (ur_get stk UR_RETVAL_ADDR s) (ur_get stk UR_RETVAL_SIZE s) s) (\<lambda>(v, s).
        bind_res (write_from_stack stk req UR_SIZE (ur_put stk UR_VAL_SMALL v s)) (\<lambda>s.
        bind_res (mutex_release (kobj_lock obj) s) (\<lambda>s. Ok (OK, s))))))))"

definition syscall_port_request ::
    "('a ifce_state_scheme \<Rightarrow> 'a ifce_state_scheme res) \<Rightarrow> u64 \<Rightarrow> u64 \<Rightarrow> u64 \<Rightarrow>
     'a ifce_state_scheme \<Rightarrow> (u64 \<times> 'a ifce_state_scheme) res" where
  "syscall_port_request env stk handler req s = bind_res (fetch_object handler s) (\<lambda>(r, s). case r of
     None \<Rightarrow> Ok (- INVAL, s)
   | Some obj \<Rightarrow>
     if ko_type (kobj_at obj s) \<noteq> KOBJ_TYPE_PORT_CLIENT_REF \<and> ko_type (kobj_at obj s) \<noteq> KOBJ_TYPE_PORT_IFCE
     then bind_res (mutex_release (kobj_lock obj) s) (\<lambda>s. Ok (- INVAL, s))
     else (let ref = ko_ptr (kobj_at obj s) in
       bind_res (read_to_stack stk req (of_nat UR_SIZE) s) (\<lambda>s.
       if ko_type (kobj_at obj s) = KOBJ_TYPE_PORT_IFCE then syscall_ifce_request stk obj req s
       else (let
         s = upd_req (client_req ref) (\<lambda>_. zero_req\<lparr>rq_sender := ref,
               rq_val_small := ur_get stk UR_VAL_SMALL s,
               rq_data_sender_vaddr := ur_get stk UR_DATA_ADDR s,
               rq_data_size := ur_get stk UR_DATA_SIZE s,
               rq_retval_sender_vaddr := ur_get stk UR_RETVAL_ADDR s,
               rq_retval_size := ur_get stk UR_RETVAL_SIZE s\<rparr>) s
       in bind_res (port_request env ref s) (\<lambda>(error, s). let
            s = ur_put stk UR_VAL_SMALL (rq_val_small (requests s (client_req ref))) s
          in bind_res (mutex_release (kobj_lock obj) s) (\<lambda>s.
             bind_res (write_from_stack stk req UR_SIZE s) (\<lambda>s. Ok (- error, s))))))))"

text \<open>The fields \<open>data_addr\<close> and \<open>retval_addr\<close> are written out as the stack held them.\<close>

definition syscall_port_receive ::
    "('a ifce_state_scheme \<Rightarrow> 'a ifce_state_scheme res) \<Rightarrow> u64 \<Rightarrow> u64 \<Rightarrow> u64 \<Rightarrow> u64 \<Rightarrow> u64 \<Rightarrow>
     'a ifce_state_scheme \<Rightarrow> (u64 \<times> 'a ifce_state_scheme) res" where
  "syscall_port_receive env stk ref_h ureq buf buflen s = bind_res (fetch_object ref_h s) (\<lambda>(r, s). case r of
     None \<Rightarrow> Ok (- INVAL, s)
   | Some obj \<Rightarrow>
     if ko_type (kobj_at obj s) \<noteq> KOBJ_TYPE_PORT_SERVER_REF
     then bind_res (mutex_release (kobj_lock obj) s) (\<lambda>s. Ok (- INVAL, s))
     else bind_res (port_receive env (ko_ptr (kobj_at obj s)) buf buflen s) (\<lambda>(req, s). let
       s = ur_put stk UR_VAL_SMALL (rq_val_small (requests s req)) s;
       s = ur_put stk UR_SENDER_PID (p_pid (procs s (req_holder req s))) s;
       s = ur_put stk UR_DATA_SIZE (rq_data_size (requests s req)) s;
       s = ur_put stk UR_RETVAL_SIZE (rq_retval_size (requests s req)) s
     in bind_res (write_from_stack stk ureq UR_SIZE s) (\<lambda>s.
        bind_res (mutex_release (kobj_lock obj) s) (\<lambda>s. Ok (OK, s)))))"

definition syscall_port_response ::
    "u64 \<Rightarrow> u64 \<Rightarrow> u64 \<Rightarrow> u64 \<Rightarrow> 'a proc_state_scheme \<Rightarrow> (u64 \<times> 'a proc_state_scheme) res" where
  "syscall_port_response ref_handler retval_small retval retval_size s =
     bind_res (fetch_object ref_handler s) (\<lambda>(r, s). case r of
       None \<Rightarrow> Ok (- INVAL, s)
     | Some obj \<Rightarrow>
       if ko_type (kobj_at obj s) \<noteq> KOBJ_TYPE_PORT_SERVER_REF
       then bind_res (mutex_release (kobj_lock obj) s) (\<lambda>s. Ok (- INVAL, s))
       else bind_res (port_response (ko_ptr (kobj_at obj s)) retval_small retval retval_size s) (\<lambda>(error, s).
         bind_res (mutex_release (kobj_lock obj) s) (\<lambda>s. Ok (- error, s))))"

section \<open>Processes\<close>

text \<open>The address of \<open>__process_spawn_start\<close>.  When the handle is not an address space the new
  process is destroyed and the lock of the current one stays held.\<close>

definition syscall_process_spawn ::
    "u64 \<Rightarrow> u64 \<Rightarrow> u64 \<Rightarrow> 'a proc_state_scheme \<Rightarrow> (u64 \<times> 'a proc_state_scheme) res" where
  "syscall_process_spawn spawn_start as_handler user_entry s =
     (if as_handler = 0 then Ok (- INVAL, s) else
      bind_res (lock_current s) (\<lambda>s.
      bind_res (process_create (current_process s) s) (\<lambda>(new_proc, s).
      if new_proc = 0 then bind_res (unlock_current s) (\<lambda>s. Ok (- NOMEM, s)) else
      bind_res (as_lock_fetch as_handler s) (\<lambda>(as, s).
      if as = 0 then bind_res (process_destroy new_proc s) (\<lambda>s. Ok (- INVAL, s)) else
      bind_res (unlock_current s) (\<lambda>s. let
        s = upd_proc new_proc (\<lambda>p. p\<lparr>p_address_space := as\<rparr>) s;
        s = as_add_ref as 1 s
      in bind_res (as_release as s) (\<lambda>s. let
        s = upd_proc new_proc (\<lambda>p. p\<lparr>p_state := PROCESS_STATE_READY, p_class := SCHED_CLASS_NORMAL\<rparr>) s;
        s = process_start new_proc spawn_start user_entry s
      in bind_res (sched_enter new_proc s) (\<lambda>s. Ok (p_pid (procs s new_proc), s))))))))"

definition syscall_process_exit :: "u64 \<Rightarrow> 'a proc_state_scheme \<Rightarrow> (u64 \<times> 'a proc_state_scheme) res" where
  "syscall_process_exit retval s = bind_res (lock_current s) (\<lambda>s. let
     s = upd_proc (current_process s) (\<lambda>p. p\<lparr>p_retval := retval\<rparr>) s
   in bind_res (unlock_current s) (\<lambda>s. Ok (OK, process_terminate (current_process s) s)))"

text \<open>\<open>LIST_FOREACH\<close> over the children, keeping the last one that satisfies the condition.\<close>

partial_function (option) child_scan ::
    "(process \<Rightarrow> bool) \<Rightarrow> u64 \<Rightarrow> lnode \<Rightarrow> u64 \<Rightarrow> 'a proc_state_scheme \<Rightarrow> u64 res option" where
  "child_scan P me p found s =
     (if p = ChildHead me then Some (Ok found)
      else child_scan P me (lnext (lists s) p)
        (if P (procs s (sibling_node_proc p)) then sibling_node_proc p else found) s)"

definition find_child ::
    "(process \<Rightarrow> bool) \<Rightarrow> 'a proc_state_scheme \<Rightarrow> (u64 \<times> 'a proc_state_scheme) res" where
  "find_child P s = bind_res (lock_current s) (\<lambda>s. let me = current_process s in
     bind_res (ends (child_scan P me (lnext (lists s) (ChildHead me)) 0 s)) (\<lambda>proc.
     bind_res (unlock_current s) (\<lambda>s. Ok (proc, s))))"

text \<open>The loop for any child: it waits for the count to change even when a child has been found.\<close>

partial_function (option) wait_any_loop ::
    "('a proc_state_scheme \<Rightarrow> 'a proc_state_scheme res) \<Rightarrow>
     'a proc_state_scheme \<Rightarrow> (u64 \<times> 'a proc_state_scheme) res option" where
  "wait_any_loop env s = (let exited_child = p_exited_child_count (procs s (current_process s)) in
     case bind_res (find_child p_terminate_flag s) (\<lambda>(proc, s).
       bind_res (futex_kwait env (WChildCount (current_process s)) exited_child s) (\<lambda>s. Ok (proc, s))) of
       Fail e \<Rightarrow> Some (Fail e)
     | Ok (proc, s) \<Rightarrow> if proc \<noteq> 0 then Some (Ok (proc, s)) else wait_any_loop env s)"

partial_function (option) wait_exited_loop ::
    "('a proc_state_scheme \<Rightarrow> 'a proc_state_scheme res) \<Rightarrow> u64 \<Rightarrow>
     'a proc_state_scheme \<Rightarrow> 'a proc_state_scheme res option" where
  "wait_exited_loop env proc s =
     (if p_state (procs s proc) = PROCESS_STATE_EXITED then Some (Ok s)
      else case futex_kwait env (WProcState proc) (p_state (procs s proc)) s of
          Fail e \<Rightarrow> Some (Fail e)
        | Ok s \<Rightarrow> wait_exited_loop env proc s)"

text \<open>The end of \<open>syscall_process_wait\<close>, for the child \<open>proc\<close>.\<close>

definition wait_reap ::
    "('a proc_state_scheme \<Rightarrow> 'a proc_state_scheme res) \<Rightarrow> u64 \<Rightarrow> u64 \<Rightarrow> u64 \<Rightarrow>
     'a proc_state_scheme \<Rightarrow> (u64 \<times> 'a proc_state_scheme) res" where
  "wait_reap env stk stat proc s = bind_res (ends (wait_exited_loop env proc s)) (\<lambda>s. let
     s = s\<lparr>kmem := wr64 stk (p_pid (procs s proc)) (kmem s)\<rparr>;
     s = s\<lparr>kmem := wr64 (stk + 8) (p_retval (procs s proc)) (kmem s)\<rparr>
   in bind_res (process_destroy proc s) (\<lambda>s.
      bind_res (user_memory_write (CURRENT_ADDRESS_SPACE s) stat (bytes_at (kmem s) stk 16) s) (\<lambda>(ok, s).
        if ok then Ok (OK, s)
        else bind_res (lock_current s) (\<lambda>s.
          bind_res (unlock_current (process_terminate (current_process s) s)) (\<lambda>s. Ok (OK, s))))))"

definition syscall_process_wait ::
    "('a proc_state_scheme \<Rightarrow> 'a proc_state_scheme res) \<Rightarrow> u64 \<Rightarrow> u64 \<Rightarrow> u64 \<Rightarrow>
     'a proc_state_scheme \<Rightarrow> (u64 \<times> 'a proc_state_scheme) res" where
  "syscall_process_wait env stk pid stat s =
     bind_res (if pid = - 1 then ends (wait_any_loop env s) else find_child (\<lambda>p. p_pid p = pid) s) (\<lambda>(proc, s).
     if proc = 0 then Ok (- INVAL, s) else wait_reap env stk stat proc s)"

text \<open>How a call leaves the kernel: with a result, or in user mode at an entry point.\<close>

datatype sysret = Ret u64 | Enter u64

definition syscall_reincarnate ::
    "('a ifce_state_scheme \<Rightarrow> 'a ifce_state_scheme res) \<Rightarrow> u64 \<Rightarrow> u64 \<Rightarrow>
     'a ifce_state_scheme \<Rightarrow> (sysret \<times> 'a ifce_state_scheme) res" where
  "syscall_reincarnate env as_h user_entry s = bind_res (lock_current s) (\<lambda>s.
     bind_res (as_lock_fetch as_h s) (\<lambda>(as, s).
     if as = 0 then bind_res (unlock_current s) (\<lambda>s. Ok (Ret (- INVAL), s)) else
     bind_res (as_release as s) (\<lambda>s. let
       old_as = CURRENT_ADDRESS_SPACE s;
       s = upd_proc (current_process s) (\<lambda>p. p\<lparr>p_address_space := as\<rparr>) s
     in nonnull old_as (
     bind_res (mutex_acquire_dual as_lock_addr (AsLock old_as) (AsLock as) s) (\<lambda>s. let
       s = as_add_ref as 1 s;
       s = as_add_ref old_as (-1) s;
       rc = as_ref_count s old_as
     in bind_res (mutex_release_dual as_lock_addr (AsLock old_as) (AsLock as) s) (\<lambda>s.
     bind_res (if rc = 0 then vm_address_space_destroy old_as s else Ok s) (\<lambda>s.
     bind_res (vm_address_space_load as s) (\<lambda>s.
     bind_res (unlock_current s) (\<lambda>s.
     bind_res (process_on_sysret env (s\<lparr>cpu := interrupt_disable_preemption (cpu s)\<rparr>)) (\<lambda>s.
     Ok (Enter user_entry, s)))))))))))"

definition syscall_futex_wait ::
    "('a proc_state_scheme \<Rightarrow> 'a proc_state_scheme res) \<Rightarrow> (u64 \<Rightarrow> u64) \<Rightarrow> u64 \<Rightarrow> u64 \<Rightarrow>
     'a proc_state_scheme \<Rightarrow> (u64 \<times> 'a proc_state_scheme) res" where
  "syscall_futex_wait env kpa addr val s =
     bind_res (futex_wait env kpa (CURRENT_ADDRESS_SPACE s) addr val s) (\<lambda>s. Ok (OK, s))"

definition syscall_futex_wake ::
    "(u64 \<Rightarrow> u64) \<Rightarrow> u64 \<Rightarrow> u64 \<Rightarrow> 'a proc_state_scheme \<Rightarrow> (u64 \<times> 'a proc_state_scheme) res" where
  "syscall_futex_wake kpa addr cnt s =
     bind_res (futex_wake kpa (CURRENT_ADDRESS_SPACE s) addr cnt s) (\<lambda>s. Ok (OK, s))"

section \<open>The entry\<close>

datatype sysfn =
    AsCreate | AsClone | AsDestroy | Mmap | Mtransfer | Munmap
  | PortCreate | PortOpen | PortClose | PortRequest | PortReceive | PortResponse
  | ProcessSpawn | ProcessExit | ProcessWait | Reincarnate | FutexWait | FutexWake

text \<open>The table as \<open>syscall_def\<close> fills it, by the numbers of \<open>osrt/syscall.h\<close>.\<close>

definition syscall_def :: "sysfn list" where
  "syscall_def = [AsCreate, AsClone, AsDestroy, Mmap, Mtransfer, Munmap,
     PortCreate, PortOpen, PortClose, PortRequest, PortReceive, PortResponse,
     ProcessSpawn, ProcessExit, ProcessWait, Reincarnate, FutexWait, FutexWake]"

definition syscall_ret ::
    "(u64 \<times> 'a ifce_state_scheme) res \<Rightarrow> (sysret \<times> 'a ifce_state_scheme) res" where
  "syscall_ret r = bind_res r (\<lambda>(v, s). Ok (Ret v, s))"

text \<open>The call through the table; \<open>a\<close> to \<open>f\<close> are the six argument registers.\<close>

definition syscall_call ::
    "('a ifce_state_scheme \<Rightarrow> 'a ifce_state_scheme res) \<Rightarrow> (u64 \<Rightarrow> u64) \<Rightarrow> u64 \<Rightarrow> u64 \<Rightarrow> sysfn \<Rightarrow>
     u64 \<times> u64 \<times> u64 \<times> u64 \<times> u64 \<times> u64 \<Rightarrow>
     'a ifce_state_scheme \<Rightarrow> (sysret \<times> 'a ifce_state_scheme) res" where
  "syscall_call env kpa spawn_start stk fn args s = (case args of (a, b, c, d, e, f) \<Rightarrow> (case fn of
       AsCreate \<Rightarrow> syscall_ret (syscall_as_create s)
     | AsClone \<Rightarrow> syscall_ret (syscall_as_clone a s)
     | AsDestroy \<Rightarrow> syscall_ret (syscall_as_destroy a s)
     | Mmap \<Rightarrow> syscall_ret (syscall_mmap a b c d s)
     | Mtransfer \<Rightarrow> syscall_ret (syscall_mtransfer a b c d e f s)
     | Munmap \<Rightarrow> syscall_ret (syscall_munmap a b c s)
     | PortCreate \<Rightarrow> syscall_ret (syscall_port_create stk a b s)
     | PortOpen \<Rightarrow> syscall_ret (syscall_port_open stk a b s)
     | PortClose \<Rightarrow> syscall_ret (syscall_port_close a s)
     | PortRequest \<Rightarrow> syscall_ret (syscall_port_request env stk a b s)
     | PortReceive \<Rightarrow> syscall_ret (syscall_port_receive env stk a b c d s)
     | PortResponse \<Rightarrow> syscall_ret (syscall_port_response a b c d s)
     | ProcessSpawn \<Rightarrow> syscall_ret (syscall_process_spawn spawn_start a b s)
     | ProcessExit \<Rightarrow> syscall_ret (syscall_process_exit a s)
     | ProcessWait \<Rightarrow> syscall_ret (syscall_process_wait env stk a b s)
     | Reincarnate \<Rightarrow> syscall_reincarnate env a b s
     | FutexWait \<Rightarrow> syscall_ret (syscall_futex_wait env kpa a b s)
     | FutexWake \<Rightarrow> syscall_ret (syscall_futex_wake kpa a b s)))"

text \<open>\<open>__syscall_entry\<close>: the number is compared as a signed one (\<open>jnl\<close>), so a negative one is
  not refused and the call goes through a word in front of the table.\<close>

definition syscall_entry ::
    "('a ifce_state_scheme \<Rightarrow> 'a ifce_state_scheme res) \<Rightarrow> (u64 \<Rightarrow> u64) \<Rightarrow> u64 \<Rightarrow> u64 \<Rightarrow> u64 \<Rightarrow>
     u64 \<times> u64 \<times> u64 \<times> u64 \<times> u64 \<times> u64 \<Rightarrow>
     'a ifce_state_scheme \<Rightarrow> (sysret \<times> 'a ifce_state_scheme) res" where
  "syscall_entry env kpa spawn_start stk rax args s =
     bind_res
       (if sint rax \<ge> int (length syscall_def) then Ok (Ret (- INVAL), s)
        else if sint rax < 0 then Fail WildCall
        else bind_res (syscall_call env kpa spawn_start stk (syscall_def ! nat (sint rax)) args
                 (s\<lparr>cpu := interrupt_enable_preemption (cpu s)\<rparr>)) (\<lambda>(r, s).
             Ok (r, s\<lparr>cpu := interrupt_disable_preemption (cpu s)\<rparr>)))
       (\<lambda>(r, s). case r of
          Enter e \<Rightarrow> Ok (Enter e, s)
        | Ret v \<Rightarrow> bind_res (process_on_sysret env s) (\<lambda>s. Ok (Ret v, s)))"

end
