(* ===== verification/Mmap_Spec.thy ===== *)
theory Mmap_Spec
  imports Vm_alloc K_syscall Sched_Spec
begin

text \<open>
  \<open>syscall_mmap\<close> on a range of free user pages: every page of the range is mapped, with the
  attributes asked for, to a frame of its own that was free; nothing else changes.
\<close>

section \<open>Page numbers\<close>

lemma unat_index: "unat (drop_bit k (va :: u64) AND 511) = unat va div 2 ^ k mod 512"
proof -
  have "(511 :: u64) = mask 9" by (simp add: mask_eq_exp_minus_1)
  then have "drop_bit k va AND 511 = take_bit 9 (drop_bit k va)" by (simp add: take_bit_eq_mask)
  then show ?thesis unfolding unsigned_take_bit_eq unsigned_drop_bit_eq
    by (simp only: unsigned_take_bit_eq unsigned_drop_bit_eq) (simp add: take_bit_eq_mod drop_bit_eq_div unat_u64_less)
qed

lemma low_address_index:
  assumes "unat va < 2 ^ 47"
  shows "PML4IDX va \<noteq> 256"
proof -
  have "unat va div 2 ^ 39 mod 512 < 256" using assms by (simp add: less_mult_imp_div_less)
  then show ?thesis unfolding PML4IDX_def unat_index[symmetric] by auto
qed

lemma page_number:
  assumes "unat va < 2 ^ 47"
  shows "unat va div 2097152 = unat (PDIDX va) + 512 * unat (PDPIDX va) + 262144 * unat (PML4IDX va)"
proof -
  let ?x = "unat va div 2097152"
  have "unat va div 2 ^ 30 = ?x div 512" "unat va div 2 ^ 39 = ?x div 262144" by (simp_all add: div_mult2_eq[symmetric])
  then have "unat (PDIDX va) = ?x mod 512" "unat (PDPIDX va) = ?x div 512 mod 512" "unat (PML4IDX va) = ?x div 262144 mod 512"
    by (simp_all add: PDIDX_def PDPIDX_def PML4IDX_def unat_index)
  moreover have "?x < 67108864" using assms by (simp add: less_mult_imp_div_less)
  then have "?x div 262144 mod 512 = ?x div 262144" by (simp add: less_mult_imp_div_less)
  moreover have "?x div 512 div 512 = ?x div 262144" by (simp add: div_mult2_eq[symmetric])
  moreover have "?x = ?x mod 512 + 512 * (?x div 512)" "?x div 512 = ?x div 512 mod 512 + 512 * (?x div 512 div 512)"
    by (rule mod_mult_div_eq[symmetric])+
  ultimately show ?thesis by linarith
qed

lemma page_of_inj:
  assumes "unat va < 2 ^ 47" "unat vb < 2 ^ 47" "page_of va = page_of vb"
  shows "unat va div 2097152 = unat vb div 2097152"
  using assms page_number[of va] page_number[of vb] by (simp add: page_of_def)

lemma page_of_page_at:
  assumes "2097152 dvd unat vi" "unat vi + n * 2097152 \<le> 2 ^ 47" "k < n" "l < n" "page_of (page_at vi k) = page_of (page_at vi l)"
  shows "k = l"
proof -
  have u: "unat (page_at vi j) = unat vi + j * 2097152 \<and> unat vi + j * 2097152 < 2 ^ 47" if "j < n" for j
  proof -
    have "(j + 1) * 2097152 \<le> n * 2097152" using that by (intro mult_le_mono1) simp
    then have "unat vi + j * 2097152 < 2 ^ 47" using assms(2) by simp
    then show ?thesis using unat_page_at[of vi j] by simp
  qed
  obtain q where q: "unat vi = 2097152 * q" using assms(1) by blast
  have "unat (page_at vi k) div 2097152 = unat (page_at vi l) div 2097152"
    by (rule page_of_inj) (use assms(5) u[OF assms(3)] u[OF assms(4)] in simp_all)
  then have "(2097152 * q + k * 2097152) div 2097152 = (2097152 * q + l * 2097152) div 2097152"
    using u[OF assms(3)] u[OF assms(4)] unfolding q by simp
  then show ?thesis by simp
qed

section \<open>Frames\<close>

lemma ensure_table_mono:
  assumes "ensure_table e s = Ok (ok, t)" "pm_map s i \<noteq> 0"
  shows "0 < pm_map t i"
  using assms(1) by (cases rule: ensure_table_cases) (use assms(2) in \<open>auto simp: word_neq_0_conv[symmetric]\<close>)

lemma map_updates_pm [simp]: "pm_map (map_updates a b c pma attr s) = pm_map s"
  by (simp add: map_updates_def upd_entry_def Let_def)

lemma vm_map_page_mono:
  assumes "vm_map_page as vma pma attr s = Ok (r, t)" "pm_map s i \<noteq> 0"
  shows "pm_map t i \<noteq> 0"
  using assms(1)
proof (cases rule: vm_map_page_cases)
  case oom1
  then show ?thesis using ensure_table_mono[OF oom1(1) assms(2)] by simp
next
  case (oom2 s1)
  have "pm_map s1 i \<noteq> 0" using ensure_table_mono[OF oom2(1) assms(2)] by simp
  then show ?thesis using ensure_table_mono[OF oom2(2), of i] by simp
next
  case (remap s1)
  have "pm_map s1 i \<noteq> 0" using ensure_table_mono[OF remap(1) assms(2)] by simp
  then show ?thesis using ensure_table_mono[OF remap(2), of i] by simp
next
  case (fresh s1 s2)
  have "pm_map s1 i \<noteq> 0" using ensure_table_mono[OF fresh(1) assms(2)] by simp
  then show ?thesis using ensure_table_mono[OF fresh(2), of i] fresh(5) by simp
qed

lemma ensure_table_left:
  assumes "ensure_table p v = Ok (ok, u)" "frames_left (pm_map v) (Suc m)"
  shows "frames_left (pm_map u) m"
  by (rule ensure_table_ok[OF assms(2), of p]) (use assms(1) in simp)

lemma vm_map_page_left:
  assumes "vm_map_page as vma pma attr s = Ok (r, t)" "r \<noteq> 0" "frames_left (pm_map s) (Suc (Suc n))"
  shows "frames_left (pm_map t) n"
  using assms(1)
proof (cases rule: vm_map_page_cases)
  case (remap s1)
  show ?thesis by (rule ensure_table_left[OF remap(2) ensure_table_left[OF remap(1) assms(3)]])
next
  case (fresh s1 s2)
  show ?thesis using ensure_table_left[OF fresh(2) ensure_table_left[OF fresh(1) assms(3)]] fresh(5) by simp
qed (use assms(2) in simp_all)

lemma filled_frame:
  assumes "i < PM_MAP_ELEMENTS" "frame_of x \<noteq> i"
  shows "filled 2097152 (of_nat i * KMEM_PAGE_SIZE) c m x = m x"
  using put_bytes_frame[OF assms(1) _ assms(2), of 0 "replicate 2097152 c" m]
  by (auto simp: filled_def put_bytes_def)

lemma filled_zero:
  assumes "i < PM_MAP_ELEMENTS" "frame_of x = i"
  shows "filled 2097152 (of_nat i * KMEM_PAGE_SIZE) c m x = c"
proof -
  let ?a = "of_nat i * KMEM_PAGE_SIZE :: u64"
  have a: "unat ?a = i * 2097152"
    using assms(1) by (simp add: KMEM_PAGE_SIZE_def PM_MAP_ELEMENTS_def unat_word_ariths(2) unat_of_nat_small)
  have x: "i * 2097152 \<le> unat x" "unat x < i * 2097152 + 2097152"
    using assms(2) div_mult_mod_eq[of "unat x" 2097152] by (auto simp: frame_of_def)
  then have "unat (x - ?a) = unat x - i * 2097152" using unat_sub_le[of ?a x] a by (simp add: word_le_nat_alt)
  moreover have "unat x - i * 2097152 < 2097152" using x by linarith
  ultimately show ?thesis by (simp add: filled_def)
qed

section \<open>Frames that hold no table\<close>

text \<open>\<open>held\<close>: the frame is in use, but none of the tables lies in it.\<close>

definition held :: "u64 \<Rightarrow> 'a vm_state_scheme \<Rightarrow> nat \<Rightarrow> bool" where
  "held r s f \<longleftrightarrow> pm_map s f \<noteq> 0 \<and> (\<forall>q x. tbl (phys s) r q = Some x \<longrightarrow> frame_of x \<noteq> f)"

lemma heldI: "pm_map s f \<noteq> 0 \<Longrightarrow> (\<And>q x. tbl (phys s) r q = Some x \<Longrightarrow> frame_of x \<noteq> f) \<Longrightarrow> held r s f"
  by (auto simp: held_def)

lemma wr64_frame:
  assumes "tables_wf pm m0 root" "tbl m0 root n = Some t" "k < 512" "frame_of b \<noteq> frame_of t"
  shows "wr64 (t + 8 * k) v m b = m b"
proof (cases "b - (t + 8 * k) < 8")
  case True
  then have "unat (b - (t + 8 * k)) < 8" by (simp add: word_less_nat_alt)
  from frame_of_entry[OF tbl_aligned[OF assms(1,2)] assms(3) this] have "frame_of b = frame_of t" by simp
  then show ?thesis using assms(4) by simp
qed (simp add: wr64_def)

lemma ensure_table_held:
  assumes wf: "tables_wf (pm_map s) (phys s) root" and n: "tbl (phys s) root n = Some t" "k < 512" "\<not> is_leaf n"
    and k: "n = N4 \<Longrightarrow> k \<noteq> 256" and r: "ensure_table (t + 8 * k) s = Ok (ok, s')" and h: "held root s (frame_of b)"
  shows "phys s' b = phys s b" "held root s' (frame_of b)"
proof -
  have b: "frame_of b \<noteq> frame_of t" "pm_map s (frame_of b) \<noteq> 0" using h n(1) unfolding held_def by metis+
  show "phys s' b = phys s b"
    using r
  proof (cases rule: ensure_table_cases)
    case (new i)
    have "frame_of b \<noteq> i" using b(2) new(4) by auto
    then have "filled 2097152 (of_nat i * KMEM_PAGE_SIZE) 0 (phys s) b = phys s b" by (rule filled_frame[OF new(3)])
    then show ?thesis using new(5) wr64_frame[OF wf n(1,2) b(1)] by (simp add: linked_def Let_def)
  qed auto
  show "held root s' (frame_of b)"
  proof (rule heldI)
    show "pm_map s' (frame_of b) \<noteq> 0" using ensure_table_mono[OF r b(2)] by (simp add: word_neq_0_conv)
    show "frame_of x \<noteq> frame_of b" if "tbl (phys s') root q = Some x" for q x
      using ensure_table_new(1)[OF wf n k r that] h b(2) by (auto simp: held_def)
  qed
qed

lemma ensure_both_held:
  assumes wf: "tables_wf (pm_map s) (phys s) root" and i: "PML4IDX vma \<noteq> 256"
    and e1: "ensure_table (root + 8 * PML4IDX vma) s = Ok (True, s1)"
    and e2: "ensure_table (get_pdpe (root + 8 * PML4IDX vma) (PDPIDX vma) s1) s1 = Ok (ok, s2)"
    and h: "held root s (frame_of b)"
  shows "phys s2 b = phys s b \<and> held root s2 (frame_of b)"
proof -
  let ?i = "PML4IDX vma" and ?j = "PDPIDX vma"
  have l: "\<not> is_leaf N4" "\<not> is_leaf (N3 ?i)" by (simp_all add: is_leaf_def)
  note E1 = ensure_table_wf[OF wf tbl.simps(1) PML4IDX_less l(1) i e1]
    and H1 = ensure_table_held[OF wf tbl.simps(1) PML4IDX_less l(1) i e1 h]
  have p: "tbl (phys s1) root (N3 ?i) = Some (table_next (phys s1) root ?i)" using E1(4) by simp
  from ensure_table_held[OF E1(1) p PDPIDX_less l(2) _ e2[unfolded get_pdpe_root] H1(2)] H1(1) show ?thesis by simp
qed

lemma vm_map_page_held:
  assumes wf: "tables_wf (pm_map s) (phys s) root" and root: "\<And>i. get_pml4e as i s = root + 8 * i"
    and i: "PML4IDX vma \<noteq> 256" and r: "vm_map_page as vma pma attr s = Ok (r, t)" and h: "held root s (frame_of b)"
  shows "phys t b = phys s b" "held root t (frame_of b)"
proof -
  show "phys t b = phys s b"
    using r
  proof (cases rule: vm_map_page_cases)
    case oom1
    have l: "\<not> is_leaf N4" by (simp add: is_leaf_def)
    show ?thesis by (rule ensure_table_held(1)[OF wf tbl.simps(1) PML4IDX_less l i oom1(1)[unfolded root] h])
  next
    case (oom2 s1)
    show ?thesis using ensure_both_held[OF wf i oom2(1,2)[unfolded root] h] by blast
  next
    case (remap s1)
    show ?thesis using ensure_both_held[OF wf i remap(1,2)[unfolded root] h] by blast
  next
    case (fresh s1 s2)
    note E = ensure_both[OF wf i fresh(1,2)[unfolded root]] and H = ensure_both_held[OF wf i fresh(1,2)[unfolded root] h]
    obtain p d where pq: "get_pdpe (root + 8 * PML4IDX vma) (PDPIDX vma) s1 = p + 8 * PDPIDX vma"
      "get_pde (p + 8 * PDPIDX vma) (PDIDX vma) s2 = d + 8 * PDIDX vma"
      "tbl (phys s2) root (N3 (PML4IDX vma)) = Some p"
      "tbl (phys s2) root (N2 (PML4IDX vma) (PDPIDX vma)) = Some d" using E(4) by blast
    have ne: "frame_of b \<noteq> frame_of root" "frame_of b \<noteq> frame_of p" "frame_of b \<noteq> frame_of d"
      using H pq(3,4) tbl.simps(1)[of "phys s2" root] by (metis held_def)+
    have "phys t b = phys s2 b"
      unfolding fresh(5)[unfolded root pq] map_updates_def upd_entry_def
      using wr64_frame[OF E(1) tbl.simps(1) PML4IDX_less ne(1)] wr64_frame[OF E(1) pq(3) PDPIDX_less ne(2)]
        wr64_frame[OF E(1) pq(4) PDIDX_less ne(3)] by simp
    then show ?thesis using H by simp
  qed
  show "held root t (frame_of b)"
  proof (rule heldI)
    have "pm_map s (frame_of b) \<noteq> 0" using h by (simp add: held_def)
    then show "pm_map t (frame_of b) \<noteq> 0" by (rule vm_map_page_mono[OF r])
    show "frame_of x \<noteq> frame_of b" if "tbl (phys t) root q = Some x" for q x
      using vm_map_page_new_tables[OF wf root i r that] h by (auto simp: held_def)
  qed
qed

text \<open>\<open>keeps\<close>: frames that hold no table keep their bytes and get no table.\<close>

definition keeps :: "u64 \<Rightarrow> 'a vm_state_scheme \<Rightarrow> 'a vm_state_scheme \<Rightarrow> bool" where
  "keeps r s t \<longleftrightarrow> (\<forall>b. held r s (frame_of b) \<longrightarrow> phys t b = phys s b \<and> held r t (frame_of b))"

lemma keeps_refl: "keeps r s s"
  by (simp add: keeps_def)

lemma keeps_trans: "keeps r s t \<Longrightarrow> keeps r t u \<Longrightarrow> keeps r s u"
  by (simp add: keeps_def)

section \<open>One page\<close>

text \<open>A turn of the loop on a page that is not mapped: a frame is taken, the page is mapped to it
  and it is zeroed; the frames that are in use and hold no table keep their bytes.\<close>

lemma mmap_turn:
  assumes wf: "tables_wf (pm_map s) (phys s) (as_root as s)" and p: "PML4IDX vi \<noteq> 256" "vi \<noteq> 0"
    and n: "vm_entry (phys s) (as_root as s) vi = None" and f: "frames_left (pm_map s) (Suc (Suc (Suc m)))"
    and lt: "mapped < sz"
  obtains i e0 t pm m' where "i < PM_MAP_ELEMENTS" "pm_map s i = 0" "pm_map t i \<noteq> 0"
    "t = s\<lparr>pm_map := pm, phys := m'\<rparr>"
    "mmap_loop as vaddr sz flag mapped vi s = mmap_loop as vaddr sz flag (mapped + KMEM_PAGE_SIZE) (vi + KMEM_PAGE_SIZE) t"
    "tables_wf (pm_map t) (phys t) (as_root as s)" "\<And>j. pm_map s j \<noteq> 0 \<Longrightarrow> pm_map t j \<noteq> 0" "frames_left (pm_map t) m"
    "\<And>va. vm_entry (phys t) (as_root as s) va =
      (if page_of va = page_of vi then Some (map_pde (of_nat i * KMEM_PAGE_SIZE) flag e0) else vm_entry (phys s) (as_root as s) va)"
    "held (as_root as s) t i" "keeps (as_root as s) s t" "\<And>x. frame_of x = i \<Longrightarrow> phys t x = 0"
proof -
  let ?r = "as_root as s"
  from frames_left_alloc[OF f] obtain i where i: "i < PM_MAP_ELEMENTS" "pm_map s i = 0" "of_nat i * KMEM_PAGE_SIZE \<noteq> 0"
    "pma_alloc s = Ok (of_nat i * KMEM_PAGE_SIZE, s\<lparr>pm_map := (pm_map s)(i := 1)\<rparr>)"
    "frames_left ((pm_map s)(i := 1)) (Suc (Suc m))" by blast
  let ?a = "of_nat i * KMEM_PAGE_SIZE :: u64" and ?u = "s\<lparr>pm_map := (pm_map s)(i := 1)\<rparr>"
  have ru: "as_root as ?u = ?r" by (simp add: as_root_def RECURSIVE_PML4_def)
  have wu: "tables_wf (pm_map ?u) (phys ?u) (as_root as ?u)" unfolding ru
    by (rule tables_wf_cong[OF wf]) auto
  have nu: "vm_entry (phys ?u) (as_root as ?u) vi = None" unfolding ru using n by simp
  have "frames_left (pm_map ?u) 2" using i(5) by (simp add: frames_left_def)
  then obtain v where v: "vm_map_page as vi ?a flag ?u = Ok (vi, v)" using vm_map_page_ok[OF wu p(1) nu] by blast
  note M = vm_map_page_map[OF wu get_pml4e_root p(1) v, unfolded ru]
    and H = vm_map_page_held[OF wu get_pml4e_root p(1) v, unfolded ru]
  obtain pm m' where vv: "v = s\<lparr>pm_map := pm, phys := m'\<rparr>" using M by auto
  have vi: "pm_map v i \<noteq> 0" by (rule vm_map_page_mono[OF v]) simp
  obtain e0 where e: "\<And>va. vm_entry (phys v) ?r va =
      (if page_of va = page_of vi then Some (map_pde ?a flag e0) else vm_entry (phys s) ?r va)"
    using M n p(2) by (auto simp: map_result_def)
  let ?t = "phys_set ?a 0 KMEM_PAGE_SIZE v"
  have "\<not> vm_is_mapped as vi ?u" unfolding vm_is_mapped_entry[OF p(1) get_pml4e_root] using nu by simp
  then have L: "mmap_loop as vaddr sz flag mapped vi s =
      mmap_loop as vaddr sz flag (mapped + KMEM_PAGE_SIZE) (vi + KMEM_PAGE_SIZE) ?t"
    using lt i(3,4) v p(2) by (subst mmap_loop.simps) simp
  have fr: "frame_of x \<noteq> i" if "tbl (phys v) ?r q = Some x" for q x
  proof -
    from vm_map_page_new_tables[OF wu get_pml4e_root p(1) v that[folded ru]]
    have "tbl (phys s) ?r q = Some x \<or> pm_map ?u (frame_of x) = 0" unfolding ru by simp
    then show ?thesis
    proof
      assume "tbl (phys s) ?r q = Some x"
      then have "pm_map s (frame_of x) \<noteq> 0" using wf unfolding tables_wf_def by blast
      then show ?thesis using i(2) by auto
    qed auto
  qed
  have eq: "filled 2097152 ?a 0 (phys v) b = phys v b" if "tbl (phys v) ?r q = Some x" "frame_of b = frame_of x" for q x b
    by (rule filled_frame[OF i(1)]) (use fr[OF that(1)] that(2) in simp)
  have wv: "tables_wf (pm_map v) (phys v) ?r" using M by blast
  have pt: "phys ?t = filled 2097152 ?a 0 (phys v)" "pm_map ?t = pm_map v" by (simp_all add: phys_set_def KMEM_PAGE_SIZE_nat)
  have E: "vm_entry (phys ?t) ?r va = vm_entry (phys v) ?r va" for va
    unfolding pt by (rule vm_entry_frames_cong[OF wv]) (rule eq)
  have T: "tbl (phys ?t) ?r q = tbl (phys v) ?r q" for q unfolding pt by (rule tbl_frames_cong(1)[OF wv eq])
  have hi: "held ?r ?t i" by (rule heldI) (use vi fr pt T in auto)
  have k: "keeps ?r s ?t" unfolding keeps_def
  proof (intro allI impI)
    fix b assume b: "held ?r s (frame_of b)"
    then have "held ?r ?u (frame_of b)" "frame_of b \<noteq> i" using i(2) by (auto simp: held_def)
    then show "phys ?t b = phys s b \<and> held ?r ?t (frame_of b)"
      using H[of b] filled_frame[OF i(1), of b 0 "phys v"] T by (simp add: pt held_def)
  qed
  show ?thesis
  proof (rule that[where i = i and t = ?t and pm = pm and m' = "filled 2097152 ?a 0 (phys v)" and ?e0.0 = e0])
    show "phys ?t x = 0" if "frame_of x = i" for x unfolding pt by (rule filled_zero[OF i(1) that])
    show "tables_wf (pm_map ?t) (phys ?t) ?r" unfolding pt by (rule tables_wf_cong[OF wv tbl_frames_cong(1)[OF wv eq]])
    show "pm_map ?t j \<noteq> 0" if "pm_map s j \<noteq> 0" for j unfolding pt by (rule vm_map_page_mono[OF v]) (use that in auto)
    show "frames_left (pm_map ?t) m" unfolding pt by (rule vm_map_page_left[OF v p(2)]) (use i(5) in simp)
    show "vm_entry (phys ?t) ?r va = (if page_of va = page_of vi then Some (map_pde ?a flag e0) else vm_entry (phys s) ?r va)" for va
      unfolding E e ..
  qed (use i(1,2) vi L hi k in \<open>simp_all add: phys_set_def vv KMEM_PAGE_SIZE_nat\<close>)
qed

section \<open>The loop\<close>

text \<open>The pages from \<open>vi\<close> on map to the frames \<open>fs\<close>, which were free; nothing else has changed.\<close>

definition range_mapped :: "u64 \<Rightarrow> u64 \<Rightarrow> u64 \<Rightarrow> nat list \<Rightarrow> 'a vm_state_scheme \<Rightarrow> 'a vm_state_scheme \<Rightarrow> bool" where
  "range_mapped root vi flag fs s t \<longleftrightarrow> distinct fs \<and>
     (\<forall>f \<in> set fs. f < PM_MAP_ELEMENTS \<and> pm_map s f = 0 \<and> pm_map t f \<noteq> 0) \<and>
     (\<forall>k < length fs. \<exists>e0. vm_entry (phys t) root (page_at vi k) = Some (map_pde (of_nat (fs ! k) * KMEM_PAGE_SIZE) flag e0)) \<and>
     (\<forall>va. (\<forall>k < length fs. page_of va \<noteq> page_of (page_at vi k)) \<longrightarrow>
        vm_entry (phys t) root va = vm_entry (phys s) root va) \<and>
     (\<forall>j. pm_map s j \<noteq> 0 \<longrightarrow> pm_map t j \<noteq> 0)"

lemma range_mapped_Cons:
  assumes i: "i < PM_MAP_ELEMENTS" "pm_map s i = 0" "pm_map u i \<noteq> 0" "\<And>j. pm_map s j \<noteq> 0 \<Longrightarrow> pm_map u j \<noteq> 0"
    and e: "\<And>va. vm_entry (phys u) root va =
      (if page_of va = page_of vi then Some (map_pde (of_nat i * KMEM_PAGE_SIZE) flag e0) else vm_entry (phys s) root va)"
    and r: "range_mapped root (vi + KMEM_PAGE_SIZE) flag fs u t"
    and d: "\<And>k. k < length fs \<Longrightarrow> page_of vi \<noteq> page_of (page_at vi (Suc k))"
  shows "range_mapped root vi flag (i # fs) s t"
  unfolding range_mapped_def
proof (intro conjI allI ballI impI)
  have fs: "\<forall>f \<in> set fs. f < PM_MAP_ELEMENTS \<and> pm_map u f = 0 \<and> pm_map t f \<noteq> 0"
    and pg: "\<forall>k < length fs. \<exists>e0. vm_entry (phys t) root (page_at vi (Suc k)) = Some (map_pde (of_nat (fs ! k) * KMEM_PAGE_SIZE) flag e0)"
    and out: "\<And>va. \<forall>k < length fs. page_of va \<noteq> page_of (page_at vi (Suc k)) \<Longrightarrow> vm_entry (phys t) root va = vm_entry (phys u) root va"
    and mono: "\<And>j. pm_map u j \<noteq> 0 \<Longrightarrow> pm_map t j \<noteq> 0"
    using r unfolding range_mapped_def page_at_Suc by blast+
  show "distinct (i # fs)" using fs i(3) r by (auto simp: range_mapped_def)
  show "f < PM_MAP_ELEMENTS" "pm_map s f = 0" "pm_map t f \<noteq> 0" if "f \<in> set (i # fs)" for f
    using that fs i mono[OF i(3)] by auto
  show "\<exists>e0. vm_entry (phys t) root (page_at vi k) = Some (map_pde (of_nat ((i # fs) ! k) * KMEM_PAGE_SIZE) flag e0)"
    if "k < length (i # fs)" for k
  proof (cases k)
    case 0
    then show ?thesis using out[of vi] d e[of vi] by auto
  next
    case (Suc l)
    then show ?thesis using pg that by auto
  qed
  show "vm_entry (phys t) root va = vm_entry (phys s) root va"
    if "\<forall>k < length (i # fs). page_of va \<noteq> page_of (page_at vi k)" for va
  proof -
    have "\<forall>k < length fs. page_of va \<noteq> page_of (page_at vi (Suc k))" "page_of va \<noteq> page_of vi"
      using that[rule_format, of "Suc _"] that[rule_format, of 0] by auto
    then show ?thesis using out[of va] e[of va] by simp
  qed
  show "pm_map t j \<noteq> 0" if "pm_map s j \<noteq> 0" for j using mono i(4) that by blast
qed

text \<open>The frames \<open>fs\<close> hold zeros and no table, and the frames that were in use and held no table hold
  what they held.\<close>

definition zeroed_frames :: "u64 \<Rightarrow> nat list \<Rightarrow> 'a vm_state_scheme \<Rightarrow> 'a vm_state_scheme \<Rightarrow> bool" where
  "zeroed_frames root fs s t \<longleftrightarrow> keeps root s t \<and> (\<forall>x. frame_of x \<in> set fs \<longrightarrow> phys t x = 0 \<and> held root t (frame_of x))"

lemma zeroed_Cons:
  assumes "held r u i" "keeps r s u" "\<And>x. frame_of x = i \<Longrightarrow> phys u x = 0" "zeroed_frames r fs u t"
  shows "zeroed_frames r (i # fs) s t"
  unfolding zeroed_frames_def
proof (intro conjI allI impI)
  have k: "keeps r u t" using assms(4) by (simp add: zeroed_frames_def)
  show "keeps r s t" by (rule keeps_trans[OF assms(2) k])
  fix x assume x: "frame_of x \<in> set (i # fs)"
  show "phys t x = 0" "held r t (frame_of x)"
    using x assms(1,3) k assms(4) unfolding keeps_def zeroed_frames_def by auto
qed

lemma mmap_loop_maps:
  assumes "as \<noteq> 0" "tables_wf (pm_map s) (phys s) (as_pml4_paddr s as)"
    and "2097152 dvd unat vi" "0 < unat vi" "unat vi + n * 2097152 \<le> 2 ^ 47" "frames_left (pm_map s) (3 * n)"
    and "\<forall>k < n. vm_entry (phys s) (as_pml4_paddr s as) (page_at vi k) = None"
    and "unat mapped + n * 2097152 < 2 ^ 64" "unat sz \<le> unat mapped + n * 2097152"
    and "n = 0 \<or> unat mapped + (n - 1) * 2097152 < unat sz"
  shows "\<exists>pm m fs. mmap_loop as vaddr sz flag mapped vi s = Some (Ok (OK, s\<lparr>pm_map := pm, phys := m\<rparr>)) \<and>
    length fs = n \<and> tables_wf pm m (as_pml4_paddr s as) \<and>
    range_mapped (as_pml4_paddr s as) vi flag fs s (s\<lparr>pm_map := pm, phys := m\<rparr>) \<and>
    zeroed_frames (as_pml4_paddr s as) fs s (s\<lparr>pm_map := pm, phys := m\<rparr>)"
  using assms
proof (induction n arbitrary: s vi mapped)
  case 0
  then have "\<not> mapped < sz" by (simp add: word_less_nat_alt)
  then show ?case using 0
    by (intro exI[of _ "pm_map s"] exI[of _ "phys s"] exI[of _ "[]"]) (simp add: mmap_loop.simps range_mapped_def zeroed_frames_def keeps_refl)
next
  case (Suc n)
  let ?r = "as_pml4_paddr s as"
  have ro: "as_root as s = ?r" using Suc.prems(1) by (simp add: as_root_def)
  have v: "PML4IDX vi \<noteq> 256" by (rule low_address_index) (use Suc.prems(5) in simp)
  have v0: "vi \<noteq> 0" using Suc.prems(4) by auto
  have n0: "vm_entry (phys s) ?r vi = None" using Suc.prems(7)[rule_format, of 0] by simp
  have f: "frames_left (pm_map s) (Suc (Suc (Suc (3 * n))))" using Suc.prems(6) by (simp add: eval_nat_numeral)
  have lt: "mapped < sz" using Suc.prems(10) by (simp add: word_less_nat_alt)
  obtain i e0 u pm m where u: "i < PM_MAP_ELEMENTS" "pm_map s i = 0" "pm_map u i \<noteq> 0" "u = s\<lparr>pm_map := pm, phys := m\<rparr>"
    and L: "mmap_loop as vaddr sz flag mapped vi s = mmap_loop as vaddr sz flag (mapped + KMEM_PAGE_SIZE) (vi + KMEM_PAGE_SIZE) u"
    and wf: "tables_wf (pm_map u) (phys u) ?r" and mono: "\<And>j. pm_map s j \<noteq> 0 \<Longrightarrow> pm_map u j \<noteq> 0" and fl: "frames_left (pm_map u) (3 * n)"
    and e: "\<And>va. vm_entry (phys u) ?r va =
      (if page_of va = page_of vi then Some (map_pde (of_nat i * KMEM_PAGE_SIZE) flag e0) else vm_entry (phys s) ?r va)"
    and h: "held ?r u i" "keeps ?r s u" "\<And>x. frame_of x = i \<Longrightarrow> phys u x = 0"
    by (rule mmap_turn[where as = as and s = s and vaddr = vaddr and flag = flag, unfolded ro, OF Suc.prems(2) v v0 n0 f lt]) (rule that; assumption)
  have ru: "as_pml4_paddr u as = ?r" using u(4) by simp
  have uv: "unat (vi + KMEM_PAGE_SIZE) = unat vi + 2097152" by (rule next_page) (use Suc.prems(5) in simp)
  have um: "unat (mapped + KMEM_PAGE_SIZE) = unat mapped + 2097152" by (rule next_page) (use Suc.prems(8) in simp)
  have d: "page_of vi \<noteq> page_of (page_at vi (Suc k))" if "k < n" for k
    using page_of_page_at[OF Suc.prems(3,5), of 0 "Suc k"] that by auto
  have "\<exists>pm m fs. mmap_loop as vaddr sz flag (mapped + KMEM_PAGE_SIZE) (vi + KMEM_PAGE_SIZE) u =
      Some (Ok (OK, u\<lparr>pm_map := pm, phys := m\<rparr>)) \<and> length fs = n \<and> tables_wf pm m (as_pml4_paddr u as) \<and>
      range_mapped (as_pml4_paddr u as) (vi + KMEM_PAGE_SIZE) flag fs u (u\<lparr>pm_map := pm, phys := m\<rparr>) \<and>
      zeroed_frames (as_pml4_paddr u as) fs u (u\<lparr>pm_map := pm, phys := m\<rparr>)"
  proof (rule Suc.IH[OF Suc.prems(1)])
    show "\<forall>k < n. vm_entry (phys u) (as_pml4_paddr u as) (page_at (vi + KMEM_PAGE_SIZE) k) = None"
      unfolding ru page_at_Suc e using d[THEN not_sym] Suc.prems(7) by auto
    show "n = 0 \<or> unat (mapped + KMEM_PAGE_SIZE) + (n - 1) * 2097152 < unat sz"
      using Suc.prems(10) unfolding um by (cases n) auto
  qed (use Suc.prems wf fl in \<open>simp_all add: ru uv um\<close>)
  then obtain pm' m' fs where t: "mmap_loop as vaddr sz flag mapped vi s = Some (Ok (OK, s\<lparr>pm_map := pm', phys := m'\<rparr>))"
    "length fs = n" "tables_wf pm' m' ?r" "range_mapped ?r (vi + KMEM_PAGE_SIZE) flag fs u (s\<lparr>pm_map := pm', phys := m'\<rparr>)"
    "zeroed_frames ?r fs u (s\<lparr>pm_map := pm', phys := m'\<rparr>)"
    unfolding L ru by (auto simp: u(4))
  have "range_mapped ?r vi flag (i # fs) s (s\<lparr>pm_map := pm', phys := m'\<rparr>)"
    by (rule range_mapped_Cons[OF u(1,2,3) _ e t(4)]) (rule mono, assumption, rule d, use t(2) in simp)
  moreover have "zeroed_frames ?r (i # fs) s (s\<lparr>pm_map := pm', phys := m'\<rparr>)" by (rule zeroed_Cons[OF h t(5)])
  ultimately show ?case using t by (intro exI[of _ pm'] exI[of _ m'] exI[of _ "i # fs"]) simp
qed

section \<open>Address checks\<close>

lemma bit_47_clear: "unat (x :: u64) < 2 ^ 47 \<Longrightarrow> x AND push_bit 47 1 = 0"
proof -
  assume "unat x < 2 ^ 47"
  then have "take_bit 47 x = x" by (simp add: take_bit_nat_less_self_iff unsigned_take_bit_eq word_unat_eq_iff take_bit_nat_eq_self)
  then have "\<not> bit x 47" by (metis bit_take_bit_iff less_irrefl)
  then show ?thesis by (intro bit_eqI) (auto simp: bit_and_iff bit_push_bit_iff bit_1_iff simp del: push_bit_of_1)
qed

lemma page_offset_zero: "2097152 dvd unat va \<Longrightarrow> VM_OFFSET_PAGE_2M va = 0"
proof -
  assume a: "2097152 dvd unat va"
  have "(0x1fffff :: u64) = mask 21" by (simp add: mask_eq_exp_minus_1)
  then have "VM_OFFSET_PAGE_2M va = take_bit 21 va" by (simp add: VM_OFFSET_PAGE_2M_def take_bit_eq_mask)
  moreover have "unat (take_bit 21 va) = 0" using a
    by (simp only: unsigned_take_bit_eq) (simp add: take_bit_eq_mod mod_eq_0_iff_dvd)
  ultimately show ?thesis by (simp add: word_unat_eq_iff)
qed

lemma user_flags_kept:
  assumes "flag AND NOT USER_ALLOWED_FLAGS = 0"
  shows "0xffff AND (VM_PAGE_PRESENT OR flag AND (VM_PAGE_WRITABLE OR VM_PAGE_PRIVILEGED OR VM_PAGE_EXECUTABLE OR VM_PAGE_GLOBAL)) =
    VM_PAGE_PRESENT OR flag"
proof -
  have u: "USER_ALLOWED_FLAGS = 10" by (simp add: USER_ALLOWED_FLAGS_def VM_PAGE_WRITABLE_def VM_PAGE_EXECUTABLE_def)
  have "flag = flag AND (10 OR NOT 10)" by simp
  also have "\<dots> = flag AND 10" using assms unfolding u by (simp only: bit.conj_disj_distrib or.right_neutral)
  finally have f: "flag = flag AND 10" .
  have "flag AND 270 = flag" by (subst f, subst (2) f) (simp add: and.assoc)
  moreover have "0xffff AND (1 OR flag) = 1 OR flag"
    by (subst f, subst (2) f) (simp add: bit.conj_disj_distrib and.left_commute[of _ flag] and.assoc)
  ultimately show ?thesis
    by (simp add: VM_PAGE_PRESENT_def VM_PAGE_WRITABLE_def VM_PAGE_PRIVILEGED_def VM_PAGE_EXECUTABLE_def VM_PAGE_GLOBAL_def)
qed

lemma mapped_page_reads:
  assumes r: "range_mapped root vaddr flag fs s t" and k: "k < length fs" and al: "2097152 dvd unat vaddr"
    and b: "unat vaddr + length fs * 2097152 < 2 ^ 47" and fl: "flag AND NOT USER_ALLOWED_FLAGS = 0"
  shows "vm_get_pma_by_vma root (page_at vaddr k) t = of_nat (fs ! k) * KMEM_PAGE_SIZE \<and>
    vm_check_attr root (page_at vaddr k) 0xffff t = Ok (VM_PAGE_PRESENT OR flag)"
proof -
  let ?va = "page_at vaddr k" and ?pa = "of_nat (fs ! k) * KMEM_PAGE_SIZE :: u64"
  obtain e0 where e: "vm_entry (phys t) root ?va = Some (map_pde ?pa flag e0)" using r k unfolding range_mapped_def by blast
  have f: "fs ! k < PM_MAP_ELEMENTS" using r k unfolding range_mapped_def by auto
  have kn: "k * 2097152 \<le> length fs * 2097152" using k by simp
  then have u: "unat ?va = unat vaddr + k * 2097152" by (intro unat_page_at) (use b in simp)
  have i: "PML4IDX ?va \<noteq> 256" by (rule low_address_index) (use u b kn in simp)
  have o: "VM_OFFSET_PAGE_2M ?va = 0" by (rule page_offset_zero) (use al u in simp)
  have "e_addr (map_pde ?pa flag e0) = take_bit 40 (drop_bit 12 ?pa)" by (simp add: map_pde_def)
  then have "push_bit 12 (e_addr (map_pde ?pa flag e0)) = ?pa" using page_addr_roundtrip[OF frame_aligned(1,2)[OF f]] by simp
  then have "vm_get_pma_by_vma root ?va t = ?pa" using e o by (simp add: vm_get_pma_by_vma_entry[OF i])
  moreover have "vm_check_attr root ?va 0xffff t = Ok (VM_PAGE_PRESENT OR flag)"
    unfolding vm_check_attr_entry[OF i e] get_attrs_map_pde user_flags_kept[OF fl] ..
  ultimately show ?thesis ..
qed

section \<open>Property\<close>

text \<open>The address space a handle names, not locked: handle 0 is that of the caller, another handle an
  entry of its table of objects.\<close>

definition names_as :: "u64 \<Rightarrow> 'a proc_state_scheme \<Rightarrow> u64 \<Rightarrow> bool" where
  "names_as h s as \<longleftrightarrow> as \<noteq> 0 \<and> mutex_owner s (AsLock as) = 0 \<and>
     (if h = 0 then CURRENT_ADDRESS_SPACE s = as
      else (let p = procs s (current_process s); obj = (p_kobjects p, unat (h - 1)) in
        h \<le> p_kobject_size p \<and> ko_type (kobj_at obj s) = KOBJ_TYPE_ADDRESS_SPACE \<and> ko_ptr (kobj_at obj s) = as \<and>
        mutex_owner s (kobj_lock obj) = 0))"

lemma as_lock_fetch_names:
  assumes "names_as h s as"
  shows "as_lock_fetch h s = Ok (as, s\<lparr>mutex_owner := (mutex_owner s)(AsLock as := get_current_proc s)\<rparr>)"
proof (cases "h = 0")
  case True
  then show ?thesis using assms by (simp add: names_as_def as_lock_fetch_def as_acquire_def CURRENT_ADDRESS_SPACE_def)
next
  case False
  let ?p = "procs s (current_process s)" and ?me = "get_current_proc s"
  let ?l = "KobjLock (p_kobjects ?p) (unat (h - 1))"
  have o: "\<not> p_kobject_size ?p < h" "ko_type (kobjs s (p_kobjects ?p) (unat (h - 1))) = KOBJ_TYPE_ADDRESS_SPACE"
    "ko_ptr (kobjs s (p_kobjects ?p) (unat (h - 1))) = as" "mutex_owner s ?l = 0" "mutex_owner s (AsLock as) = 0" "as \<noteq> 0"
    using assms False by (auto simp: names_as_def Let_def kobj_at_def kobj_lock_def not_less)
  have "(mutex_owner s)(?l := ?me, AsLock as := ?me, ?l := 0) = (mutex_owner s)(AsLock as := ?me)"
    using o(4) by (auto simp: fun_eq_iff)
  then show ?thesis using False o
    by (simp add: as_lock_fetch_def kobject_lock_fetch_def kobj_at_def kobj_lock_def as_acquire_def Let_def kobj_type_defs)
qed

lemma vm_alloc_vaddr_lock [simp]:
  "vm_alloc_vaddr as b e sz (s\<lparr>mutex_owner := f\<rparr>) = vm_alloc_vaddr as b e sz s"
proof -
  have "vm_is_mapped as va (s\<lparr>mutex_owner := f\<rparr>) = vm_is_mapped as va s" for va
    by (simp add: vm_is_mapped_def get_pml4e_def get_pdpe_def get_pde_def RECURSIVE_PML4_def)
  then show ?thesis by (simp add: vm_alloc_vaddr_def)
qed

text \<open>C25: \<open>syscall_mmap\<close> of \<open>n\<close> free, page-aligned user pages in the address space the handle names, at the
  address given or, for address 0, at the one \<open>vm_alloc_vaddr\<close> finds, with three
  frames left for each page, returns the address of the first page.  Afterwards every page of the range
  translates to a frame of its own that was free before, with exactly the attributes asked
  for, and every byte of these frames is 0; every other page of the address space maps as it did, every frame
  in use that holds no table of the address space keeps its bytes, no frame that was in use is
  free, the tables are well formed and the locks are as they were.\<close>

theorem syscall_mmap_maps:
  assumes me: "mutex_owner s (ProcLock (current_process s)) = 0" and as: "names_as h s as"
    and wf: "tables_wf (pm_map s) (phys s) (as_pml4_paddr s as)"
    and ad: "addr = vaddr \<or> addr = 0 \<and> vm_alloc_vaddr as USERLAND_VADDR_BEGIN USERLAND_VADDR_END sz s = Some vaddr"
    and va: "2097152 dvd unat vaddr" "0 < unat vaddr" "unat vaddr + n * 2097152 < 2 ^ 47"
    and sz: "unat sz \<le> n * 2097152" "(n - 1) * 2097152 < unat sz"
    and fl: "flag AND NOT USER_ALLOWED_FLAGS = 0" and fr: "frames_left (pm_map s) (3 * n)"
    and nm: "\<forall>k < n. vm_entry (phys s) (as_pml4_paddr s as) (page_at vaddr k) = None"
  shows "\<exists>t fs. syscall_mmap h addr sz flag s = Ok (vaddr, t) \<and>
    tables_wf (pm_map t) (phys t) (as_pml4_paddr s as) \<and> mutex_owner t = mutex_owner s \<and> as_pml4_paddr t = as_pml4_paddr s \<and>
    length fs = n \<and> distinct fs \<and> (\<forall>f \<in> set fs. pm_map s f = 0) \<and> (\<forall>j. pm_map s j \<noteq> 0 \<longrightarrow> pm_map t j \<noteq> 0) \<and>
    (\<forall>k < n. vm_get_pma_by_vma (as_pml4_paddr s as) (page_at vaddr k) t = of_nat (fs ! k) * KMEM_PAGE_SIZE \<and>
       vm_check_attr (as_pml4_paddr s as) (page_at vaddr k) 0xffff t = Ok (VM_PAGE_PRESENT OR flag)) \<and>
    (\<forall>x. frame_of x \<in> set fs \<longrightarrow> phys t x = 0) \<and>
    (\<forall>x. held (as_pml4_paddr s as) s (frame_of x) \<longrightarrow> phys t x = phys s x) \<and>
    (\<forall>va. (\<forall>k < n. page_of va \<noteq> page_of (page_at vaddr k)) \<longrightarrow>
       vm_entry (phys t) (as_pml4_paddr s as) va = vm_entry (phys s) (as_pml4_paddr s as) va)"
proof -
  have as2: "as \<noteq> 0" "mutex_owner s (AsLock as) = 0" using as by (simp_all add: names_as_def)
  let ?r = "as_pml4_paddr s as" and ?me = "get_current_proc s"
  let ?u = "s\<lparr>mutex_owner := (mutex_owner s)(AsLock as := ?me)\<rparr>"
  have n: "0 < n" using sz by (cases n) auto
  have "\<exists>pm m fs. mmap_loop as vaddr sz flag 0 vaddr ?u = Some (Ok (OK, ?u\<lparr>pm_map := pm, phys := m\<rparr>)) \<and>
      length fs = n \<and> tables_wf pm m (as_pml4_paddr ?u as) \<and>
      range_mapped (as_pml4_paddr ?u as) vaddr flag fs ?u (?u\<lparr>pm_map := pm, phys := m\<rparr>) \<and>
      zeroed_frames (as_pml4_paddr ?u as) fs ?u (?u\<lparr>pm_map := pm, phys := m\<rparr>)"
    by (rule mmap_loop_maps[OF as2(1)]) (use wf va sz fr nm n in \<open>simp_all\<close>)
  then obtain pm m fs where L: "mmap_loop as vaddr sz flag 0 vaddr ?u = Some (Ok (OK, ?u\<lparr>pm_map := pm, phys := m\<rparr>))"
    "length fs = n" "tables_wf pm m ?r" "range_mapped ?r vaddr flag fs ?u (?u\<lparr>pm_map := pm, phys := m\<rparr>)"
    "zeroed_frames ?r fs ?u (?u\<lparr>pm_map := pm, phys := m\<rparr>)" by auto
  let ?t = "s\<lparr>pm_map := pm, phys := m\<rparr>"
  have R: "range_mapped ?r vaddr flag fs s ?t" using L(4) by (simp add: range_mapped_def)
  have Z: "phys ?t x = 0" if "frame_of x \<in> set fs" for x using L(5) that by (simp add: zeroed_frames_def)
  have K: "phys ?t x = phys s x" if "held ?r s (frame_of x)" for x
    using L(5) that by (simp add: zeroed_frames_def keeps_def held_def)
  have bits: "addr AND push_bit 47 1 = 0" "(addr + sz) AND push_bit 47 1 = 0"
    using bit_47_clear[of addr] bit_47_clear[of "addr + sz"] ad va sz by (auto simp: unat_word_ariths(1))
  have o: "VM_OFFSET_PAGE_2M vaddr = 0" "vaddr \<noteq> 0" using page_offset_zero[OF va(1)] va(2) by auto
  have al: "addr = 0 \<Longrightarrow> alloc_user_vaddr as sz ?u = Ok vaddr" "addr \<noteq> 0 \<Longrightarrow> addr = vaddr"
    using ad o(2) by (auto simp: alloc_user_vaddr_def vm_alloc_vaddr_lock)
  have f: "as_lock_fetch h (s\<lparr>mutex_owner := (mutex_owner s)(ProcLock (current_process s) := ?me)\<rparr>) =
      Ok (as, s\<lparr>mutex_owner := (mutex_owner s)(ProcLock (current_process s) := ?me, AsLock as := ?me)\<rparr>)"
  proof -
    have "names_as h (s\<lparr>mutex_owner := (mutex_owner s)(ProcLock (current_process s) := ?me)\<rparr>) as"
      using as by (cases "h = 0") (simp_all add: names_as_def CURRENT_ADDRESS_SPACE_def kobj_at_def kobj_lock_def Let_def)
    from as_lock_fetch_names[OF this] show ?thesis by simp
  qed
  have "(mutex_owner s)(AsLock as := ?me, ProcLock (current_process s) := 0) = (mutex_owner s)(AsLock as := ?me)"
    "(mutex_owner s)(ProcLock (current_process s) := ?me, AsLock as := ?me, ProcLock (current_process s) := 0) =
       (mutex_owner s)(AsLock as := ?me)"
    "(mutex_owner s)(AsLock as := 0) = mutex_owner s" using me as2(2) by (auto simp: fun_eq_iff)
  moreover have "get_current_proc (?u\<lparr>pm_map := pm, phys := m\<rparr>) = ?me" by (simp add: get_current_proc_def)
  ultimately have "syscall_mmap h addr sz flag s = Ok (vaddr, ?t)"
    using bits fl me as2 L(1) al o f
    by (cases "addr = 0") (simp_all add: syscall_mmap_def lock_current_def unlock_current_def as_release_def)
  moreover have "vm_get_pma_by_vma ?r (page_at vaddr k) ?t = of_nat (fs ! k) * KMEM_PAGE_SIZE \<and>
      vm_check_attr ?r (page_at vaddr k) 0xffff ?t = Ok (VM_PAGE_PRESENT OR flag)" if k: "k < n" for k
    by (rule mapped_page_reads[OF R _ va(1) _ fl]) (use k va(3) L(2) in auto)
  ultimately show ?thesis using R L(2,3) Z K unfolding range_mapped_def
    by (intro exI[of _ ?t] exI[of _ fs]) auto
qed

text \<open>The witness: an empty address space with its top-level table in frame 1, which is the caller's own and
  also the object of its handle 1; a request of 3 MB at an address, and one of 4 kB at any address.\<close>

definition demo_mmap :: proc_state where
  "demo_mmap = (demo_sched 10)\<lparr>pm_map := (\<lambda>i. if i < 4 then 255 else 0), as_pml4_paddr := (\<lambda>_. 0x200000),
     procs := (\<lambda>_. (demo_process 1 10)\<lparr>p_kobjects := 0xb000, p_kobject_size := 64\<rparr>),
     kobjs := (\<lambda>_ _. \<lparr>ko_type = KOBJ_TYPE_ADDRESS_SPACE, ko_ptr = 0x7000\<rparr>)\<rparr>"

lemma demo_mmap_facts:
  "mutex_owner demo_mmap = (\<lambda>_. 0)" "as_pml4_paddr demo_mmap = (\<lambda>_. 0x200000)" "phys demo_mmap = (\<lambda>_. 0)"
  "pm_map demo_mmap = (\<lambda>i. if i < 4 then 255 else 0)" "names_as 0 demo_mmap 0x7000" "names_as 1 demo_mmap 0x7000"
  by (simp_all add: demo_mmap_def CURRENT_ADDRESS_SPACE_def demo_sched_def demo_process_def names_as_def kobj_at_def Let_def)

lemma demo_mmap_tables:
  "tables_wf (pm_map demo_mmap) (phys demo_mmap) 0x200000" "vm_entry (phys demo_mmap) 0x200000 va = None"
  "frames_left (pm_map demo_mmap) 6" "VM_PAGE_WRITABLE AND NOT USER_ALLOWED_FLAGS = 0"
proof -
  note f = demo_mmap_facts
  have a: "4096 dvd unat (0x200000 :: u64)" by simp
  have p: "pm_map demo_mmap (frame_of 0x200000) \<noteq> 0" by (simp add: f frame_of_def)
  have z: "e_present (rd64 (phys demo_mmap) (0x200000 + 8 * k)) = 0" for k by (simp add: f rd64_def)
  note E = tables_wf_empty[where pm = "pm_map demo_mmap", OF a p, where m = "phys demo_mmap", OF z]
  show "tables_wf (pm_map demo_mmap) (phys demo_mmap) 0x200000" "vm_entry (phys demo_mmap) 0x200000 va = None" using E by auto
  have "card {4, 5, 6, 7, 8, 9 :: nat} \<le> card {i. i < PM_MAP_ELEMENTS \<and> pm_map demo_mmap i = 0}"
    by (rule card_mono) (auto simp: f PM_MAP_ELEMENTS_def)
  then show "frames_left (pm_map demo_mmap) 6" by (simp add: frames_left_def f)
  show "VM_PAGE_WRITABLE AND NOT USER_ALLOWED_FLAGS = 0"
    by (simp add: USER_ALLOWED_FLAGS_def VM_PAGE_WRITABLE_def VM_PAGE_EXECUTABLE_def)
qed

theorem syscall_mmap_maps_witness:
  "(\<exists>t fs. syscall_mmap 0 0x400000 0x300000 VM_PAGE_WRITABLE demo_mmap = Ok (0x400000, t) \<and> length fs = 2 \<and> distinct fs \<and>
     vm_get_pma_by_vma 0x200000 0x400000 t = of_nat (fs ! 0) * KMEM_PAGE_SIZE \<and>
     vm_get_pma_by_vma 0x200000 0x600000 t = of_nat (fs ! 1) * KMEM_PAGE_SIZE \<and>
     vm_check_attr 0x200000 0x600000 0xffff t = Ok (VM_PAGE_PRESENT OR VM_PAGE_WRITABLE) \<and>
     (\<forall>x. frame_of x \<in> set fs \<longrightarrow> phys t x = 0)) \<and>
   (\<exists>t. syscall_mmap 1 0 0x1000 VM_PAGE_WRITABLE demo_mmap = Ok (USERLAND_VADDR_BEGIN, t))"
proof
  note f = demo_mmap_facts and T = demo_mmap_tables
  obtain t fs where t: "syscall_mmap 0 0x400000 0x300000 VM_PAGE_WRITABLE demo_mmap = Ok (0x400000, t)"
    "length fs = 2" "distinct fs" "\<forall>x. frame_of x \<in> set fs \<longrightarrow> phys t x = 0"
    "\<forall>k < 2. vm_get_pma_by_vma 0x200000 (page_at 0x400000 k) t = of_nat (fs ! k) * KMEM_PAGE_SIZE \<and>
       vm_check_attr 0x200000 (page_at 0x400000 k) 0xffff t = Ok (VM_PAGE_PRESENT OR VM_PAGE_WRITABLE)"
    using syscall_mmap_maps[OF _ f(5), of "0x400000" "0x400000" "0x300000" 2 VM_PAGE_WRITABLE] T unfolding f(1,2) by auto
  have "page_at 0x400000 0 = 0x400000" "page_at 0x400000 1 = 0x600000" by (simp_all add: page_at_def KMEM_PAGE_SIZE_def)
  then show "\<exists>t fs. syscall_mmap 0 0x400000 0x300000 VM_PAGE_WRITABLE demo_mmap = Ok (0x400000, t) \<and> length fs = 2 \<and> distinct fs \<and>
     vm_get_pma_by_vma 0x200000 0x400000 t = of_nat (fs ! 0) * KMEM_PAGE_SIZE \<and>
     vm_get_pma_by_vma 0x200000 0x600000 t = of_nat (fs ! 1) * KMEM_PAGE_SIZE \<and>
     vm_check_attr 0x200000 0x600000 0xffff t = Ok (VM_PAGE_PRESENT OR VM_PAGE_WRITABLE) \<and>
     (\<forall>x. frame_of x \<in> set fs \<longrightarrow> phys t x = 0)"
    using t(1-4) spec[OF t(5), of 0] spec[OF t(5), of 1] by (intro exI[of _ t] exI[of _ fs]) simp
  have z: "\<not> vm_is_mapped 0x7000 va demo_mmap" for va
    by (simp add: vm_is_mapped_def f rd64_def)
  have "vm_alloc_vaddr 0x7000 USERLAND_VADDR_BEGIN USERLAND_VADDR_END 0x1000 demo_mmap = Some USERLAND_VADDR_BEGIN"
    by (simp add: vm_alloc_vaddr_def vm_alloc_loop.simps vm_scan.simps z USERLAND_VADDR_BEGIN_def USERLAND_VADDR_END_def KMEM_PAGE_SIZE_def)
  moreover have "frames_left (pm_map demo_mmap) 3" using T(3) by (simp add: frames_left_def)
  ultimately show "\<exists>t. syscall_mmap 1 0 0x1000 VM_PAGE_WRITABLE demo_mmap = Ok (USERLAND_VADDR_BEGIN, t)"
    using syscall_mmap_maps[OF _ f(6), of 0 USERLAND_VADDR_BEGIN "0x1000" 1 VM_PAGE_WRITABLE] T
    unfolding f(1,2) by (auto simp: USERLAND_VADDR_BEGIN_def)
qed

end
