(* ===== verification/Futex_Spec.thy ===== *)
theory Futex_Spec
  imports Sched_Spec
begin

text \<open>
  Waking: \<open>__do_futex_wake\<close> takes the first waiters of the address off the bucket's list, in list
  order, and makes each of them ready; all other waiters stay.  Waiting puts the process in
  front of the bucket's list.
\<close>

section \<open>Specification\<close>

fun woken :: "(u64 \<Rightarrow> bool) \<Rightarrow> nat \<Rightarrow> u64 list \<Rightarrow> u64 list" where
  "woken P n [] = []"
| "woken P n (x # xs) = (if n = 0 then [] else if P x then x # woken P (n - 1) xs else woken P n xs)"

fun unwoken :: "(u64 \<Rightarrow> bool) \<Rightarrow> nat \<Rightarrow> u64 list \<Rightarrow> u64 list" where
  "unwoken P n [] = []"
| "unwoken P n (x # xs) =
     (if n = 0 then x # xs else if P x then unwoken P (n - 1) xs else x # unwoken P n xs)"

lemma woken_take: "woken P n xs = take n (filter P xs)"
  by (induction P n xs rule: woken.induct) (auto simp: take_Cons')

lemma woken_zero [simp]: "woken P 0 xs = []" "unwoken P 0 xs = xs"
  by (cases xs; simp)+

lemma unwoken_filter: "distinct xs \<Longrightarrow> unwoken P n xs = filter (\<lambda>x. x \<notin> set (woken P n xs)) xs"
proof (induction P n xs rule: unwoken.induct)
  case (2 P n x xs)
  have sub: "set (woken P m xs) \<subseteq> set xs" for m
    unfolding woken_take by (meson filter_is_subset order_trans set_take_subset)
  show ?case
  proof (cases "n = 0 \<or> \<not> P x")
    case True
    then show ?thesis using 2 sub[of n] by (auto simp: filter_id_conv)
  next
    case False
    have "filter (\<lambda>y. y \<notin> set (woken P (n - 1) xs)) xs = filter (\<lambda>y. y \<notin> set (x # woken P (n - 1) xs)) xs"
      using "2.prems" by (intro filter_cong) auto
    then show ?thesis using 2 False by simp
  qed
qed simp

section \<open>Taking one waiter\<close>

text \<open>The state after the body of the loop for the waiter \<open>p\<close>.\<close>

definition wake_one :: "u64 \<Rightarrow> u64 \<Rightarrow> 'a proc_state_scheme \<Rightarrow> 'a proc_state_scheme" where
  "wake_one key p s = s\<lparr>lists := list_remove (FutexNode p) (lists s),
     procs := (procs s)(p := (procs s p)\<lparr>p_state := PROCESS_STATE_READY\<rparr>),
     bucket_waiters := (bucket_waiters s)(key := bucket_waiters s key - 1)\<rparr>"

lemma wake_one_fields [simp]:
  "smp_cpu_count (wake_one k p s) = smp_cpu_count s" "futex_size (wake_one k p s) = futex_size s"
  "futex_entry_addr (wake_one k p s) = futex_entry_addr s" "spins (wake_one k p s) = spins s"
  "cpu (wake_one k p s) = cpu s" "current_process (wake_one k p s) = current_process s"
  "mutex_owner (wake_one k p s) = mutex_owner s"
  "procs (wake_one k p s) = (procs s)(p := (procs s p)\<lparr>p_state := PROCESS_STATE_READY\<rparr>)"
  "process_count (wake_one k p s) = process_count s"
  by (simp_all add: wake_one_def)

lemma wake_one_rel:
  assumes R: "proc_rel s Q W" and k: "k < futex_size s * 2" and p: "p \<in> set (W k)"
  shows "proc_rel (wake_one k p s) Q (W(k := remove1 p (W k)))"
proof (rule proc_relI)
  have "rings (list_remove (FutexNode p) (lists s)) (proc_heads s)
      ((lay Q W)(FutexHead k := remove1 (FutexNode p) (lay Q W (FutexHead k))))"
  proof (rule rings_remove)
    show "rings (lists s) (proc_heads s) (lay Q W)" using R by (simp add: proc_rel_def)
    show "FutexHead k \<in> proc_heads s" using k by simp
    show "FutexNode p \<in> set (lay Q W (FutexHead k))" using p by simp
  qed
  moreover have "proc_heads (wake_one k p s) = proc_heads s" by (simp add: proc_heads_def)
  ultimately show "rings (lists (wake_one k p s)) (proc_heads (wake_one k p s)) (lay Q (W(k := remove1 p (W k))))"
    using lay_upd_futex[of Q W k "remove1 p (W k)"] by (simp add: map_FutexNode_remove1 wake_one_def)
  show "p_cpu (procs (wake_one k p s) x) = c \<and> p_priority (procs (wake_one k p s) x) = l"
    if "c < smp_cpu_count (wake_one k p s)" "l < 64" "x \<in> set (Q c l)" for c l x
    using R that by (cases "x = p") (auto simp: proc_rel_def)
  show "bucket_waiters (wake_one k p s) j = of_nat (length ((W(k := remove1 p (W k))) j))"
    if "j < futex_size (wake_one k p s) * 2" for j
  proof (cases "j = k")
    case True
    obtain n where n: "length (W k) = Suc n" using p by (cases "W k") auto
    then show ?thesis using R k True p by (simp add: proc_rel_def wake_one_def length_remove1)
  next
    case False
    then show ?thesis using R that by (simp add: proc_rel_def wake_one_def)
  qed
qed

lemma futex_ring:
  assumes "proc_rel s Q W" "k < futex_size s * 2"
  shows "ring (lists s) (FutexHead k) (map FutexNode (W k))"
  using ringsD[of "lists s" "proc_heads s" "lay Q W" "FutexHead k"] assms by (simp add: proc_rel_def)

lemma ready_state_waiters:
  "ready_state p (s\<lparr>bucket_waiters := f\<rparr>) = (ready_state p s)\<lparr>bucket_waiters := f\<rparr>"
  by (simp add: ready_state_def Let_def given_def sched_pick_cpu_def)

text \<open>A turn of the loop at a waiter of the address.\<close>

lemma futex_wake_turn:
  assumes a: "futex_entry_addr s p = addr" and f: "queues_free s" and n: "0 < smp_cpu_count s"
  shows "futex_wake_loop key addr cnt (FutexNode p) nxt s = (let
      t = ready_state p (wake_one key p s)
    in if bucket_waiters t key = 0 \<or> cnt - 1 = 0 then Some (Ok t)
       else futex_wake_loop key addr (cnt - 1) nxt (lnext (lists t) nxt) t)"
proof -
  let ?u = "upd_proc p (\<lambda>q. q\<lparr>p_state := PROCESS_STATE_READY\<rparr>) (upd_lists (list_remove (FutexNode p)) s)"
  have u: "smp_cpu_count ?u = smp_cpu_count s" "spins ?u = spins s" by simp_all
  have "\<not> sl_locked (spins ?u (QueueLock (sched_pick_cpu ?u)))"
    using f sched_pick_cpu_least(1)[of ?u] n by (simp add: queues_free_def)
  then have r: "sched_set_ready p ?u = Ok (ready_state p ?u)"
    by (simp add: sched_set_ready_def do_sched_set_ready_eq)
  have w: "ready_state p (wake_one key p s) =
      (ready_state p ?u)\<lparr>bucket_waiters := (bucket_waiters s)(key := bucket_waiters s key - 1)\<rparr>"
    using ready_state_waiters[where p = p and s = ?u and f = "(bucket_waiters s)(key := bucket_waiters s key - 1)"]
    by (simp add: wake_one_def upd_proc_def upd_lists_def)
  show ?thesis using a r w by (subst futex_wake_loop.simps) (simp add: Let_def)
qed

lemma futex_wake_skip:
  assumes "futex_entry_addr s p \<noteq> addr"
  shows "futex_wake_loop key addr cnt (FutexNode p) nxt s =
    futex_wake_loop key addr cnt nxt (lnext (lists s) nxt) s"
  using assms by (subst futex_wake_loop.simps) simp

lemma futex_wake_end: "futex_wake_loop key addr cnt (FutexHead key) nxt s = Some (Ok s)"
  by (subst futex_wake_loop.simps) simp

section \<open>The loop\<close>

text \<open>What waking the processes \<open>ws\<close> does to the process table.\<close>

definition made_ready :: "u64 list \<Rightarrow> 'a proc_state_scheme \<Rightarrow> 'a proc_state_scheme \<Rightarrow> bool" where
  "made_ready ws s t \<longleftrightarrow> (\<forall>p. p \<notin> set ws \<longrightarrow> procs t p = procs s p) \<and>
     (\<forall>p \<in> set ws. p_state (procs t p) = PROCESS_STATE_READY) \<and>
     futex_entry_addr t = futex_entry_addr s \<and> mutex_owner t = mutex_owner s \<and>
     current_process t = current_process s \<and> cpu t = cpu s \<and> smp_cpu_count t = smp_cpu_count s \<and>
     futex_size t = futex_size s \<and> (\<forall>k. spins t (BucketLock k) = spins s (BucketLock k)) \<and> queues_free t"

definition first_node :: "u64 \<Rightarrow> u64 list \<Rightarrow> lnode" where
  "first_node key xs = (case xs of [] \<Rightarrow> FutexHead key | x # _ \<Rightarrow> FutexNode x)"

lemma first_next:
  assumes "proc_rel s Q W" "k < futex_size s * 2" "W k = as @ x # xs"
  shows "lnext (lists s) (FutexNode x) = first_node k xs"
  using ring_next_mid[of "lists s" "FutexHead k" "map FutexNode as" "FutexNode x" "map FutexNode xs"]
    futex_ring[OF assms(1,2)] assms(3) by (simp add: first_node_def split: list.splits)

lemma queued_q_append:
  assumes "queued s (q_append c l p Q) q" "q \<noteq> p"
  shows "queued s Q q"
  using assms by (auto simp: queued_def q_append_def split: if_splits)

lemma queued_append_self:
  assumes "c < smp_cpu_count s" "l < 64"
  shows "queued s (q_append c l p Q) p"
  unfolding queued_def by (rule exI[of _ c], rule exI[of _ l]) (use assms in \<open>simp add: q_append_def\<close>)

lemma queued_keep: "queued s Q q \<Longrightarrow> queued s (q_append c l p Q) q"
  by (auto simp: queued_def q_append_def)

lemma queued_cong: "smp_cpu_count t = smp_cpu_count s \<Longrightarrow> queued t Q q = queued s Q q"
  by (simp add: queued_def)

text \<open>One waiter is woken: it leaves the bucket, joins a queue and is ready.\<close>

lemma wake_one_ready:
  assumes R: "proc_rel s Q W" and k: "k < futex_size s * 2" and W: "W k = as @ x # bs" and f: "queues_free s" "0 < smp_cpu_count s"
    and x: "\<not> queued s Q x" "p_priority (procs s x) < 64" and t: "t = ready_state x (wake_one k x s)"
  obtains Q' where "proc_rel t Q' (W(k := as @ bs))" "made_ready [x] s t" "\<And>p. queued t Q' p \<longleftrightarrow> queued s Q p \<or> p = x" "x \<notin> set bs"
    "\<And>p. p \<noteq> x \<Longrightarrow> procs t p = procs s p" "smp_cpu_count t = smp_cpu_count s" "futex_entry_addr t = futex_entry_addr s"
    "futex_size t = futex_size s" "queues_free t"
proof -
  let ?c = "sched_pick_cpu (wake_one k x s)" and ?l = "p_priority (procs s x)"
  have "distinct (W k)" using ring_distinct[OF futex_ring[OF R k]] unfolding distinct_map by blast
  then have dx: "x \<notin> set as" "x \<notin> set bs" using W by simp_all
  then have "remove1 x (W k) = as @ bs" using W by (simp add: remove1_append)
  then have R1: "proc_rel (wake_one k x s) Q (W(k := as @ bs))" using wake_one_rel[OF R k, of x] W by simp
  have nq: "\<not> queued (wake_one k x s) Q x" using x queued_cong[of "wake_one k x s" s] by simp
  have c: "?c < smp_cpu_count s" using sched_pick_cpu_least(1)[of "wake_one k x s"] f(2) by simp
  have R2: "proc_rel t (q_append ?c ?l x Q) (W(k := as @ bs))" using set_ready_rel[OF R1 nq] x(2) f(2) by (simp add: t)
  have pt: "procs t p = procs s p" if "p \<noteq> x" for p using that by (simp add: t)
  have "queues_free (wake_one k x s)" using f(1) by (simp add: queues_free_def)
  then have ft: "smp_cpu_count t = smp_cpu_count s" "futex_entry_addr t = futex_entry_addr s"
    "futex_size t = futex_size s" "queues_free t" by (simp_all add: t)
  have m: "made_ready [x] s t" unfolding made_ready_def using ft pt by (simp add: t)
  have q: "queued t (q_append ?c ?l x Q) p \<longleftrightarrow> queued s Q p \<or> p = x" for p
    using queued_q_append[of s ?c ?l x Q p] queued_append_self[OF c x(2)] queued_keep[of s Q p] queued_cong[OF ft(1)] by blast
  show thesis by (rule that[OF R2 m q dx(2) pt ft])
qed

text \<open>The loop stops early when nobody waits any more or enough were woken.\<close>

lemma wake_stops:
  assumes R: "proc_rel t Q W" and k: "k < futex_size t * 2" and W: "W k = as @ bs" "length (W k) < 2 ^ 64"
    and stop: "bucket_waiters t k = 0 \<or> cnt - 1 = 0"
  shows "bs = [] \<or> unat cnt = 1"
proof (cases "cnt - 1 = 0")
  case False
  have "of_nat (length (as @ bs)) = (0 :: u64)" using R stop False k W by (simp add: proc_rel_def)
  moreover have "unat (of_nat (length (as @ bs)) :: u64) = length (as @ bs)"
    by (rule unat_of_nat_small) (use W in simp)
  ultimately have "length (as @ bs) = 0" by (simp only: unat_0)
  then show ?thesis by simp
qed (simp add: eq_diff_eq)

lemma futex_wake_loop_spec:
  assumes "proc_rel s Q W" "k < futex_size s * 2" "W k = as @ bs" "queues_free s" "0 < smp_cpu_count s"
    and "\<forall>p \<in> set bs. \<not> queued s Q p \<and> p_priority (procs s p) < 64" "length (W k) < 2 ^ 64" "cnt \<noteq> 0"
    and "nd = first_node k bs" "nxt = lnext (lists s) nd"
  shows "\<exists>t Q'. futex_wake_loop k addr cnt nd nxt s = Some (Ok t) \<and>
    proc_rel t Q' (W(k := as @ unwoken (\<lambda>p. futex_entry_addr s p = addr) (unat cnt) bs)) \<and>
    made_ready (woken (\<lambda>p. futex_entry_addr s p = addr) (unat cnt) bs) s t \<and>
    (\<forall>p. queued t Q' p \<longleftrightarrow> queued s Q p \<or> p \<in> set (woken (\<lambda>p. futex_entry_addr s p = addr) (unat cnt) bs))"
  using assms
proof (induction bs arbitrary: s Q W as cnt nd nxt)
  case Nil
  have "W(k := as) = W" using Nil.prems(3) by auto
  then show ?case using Nil.prems
    by (intro exI[of _ s] exI[of _ Q]) (simp add: first_node_def futex_wake_end made_ready_def)
next
  case (Cons x bs)
  let ?P = "\<lambda>p. futex_entry_addr s p = addr" and ?W = "W(k := as @ bs)"
  have nd: "nd = FutexNode x" "nxt = first_node k bs"
    using Cons.prems(9,10) first_next[OF Cons.prems(1-3)] by (simp_all add: first_node_def)
  have cn: "unat cnt \<noteq> 0" using Cons.prems(8) by (simp add: unat_eq_0)
  show ?case
  proof (cases "?P x")
    case False
    have W: "W k = (as @ [x]) @ bs" using Cons.prems(3) by simp
    have bs: "\<forall>p \<in> set bs. \<not> queued s Q p \<and> p_priority (procs s p) < 64" using Cons.prems(6) by simp
    note IH = Cons.IH[OF Cons.prems(1,2) W Cons.prems(4,5) bs Cons.prems(7,8) nd(2) refl]
    have e: "unwoken ?P (unat cnt) (x # bs) = x # unwoken ?P (unat cnt) bs"
      "woken ?P (unat cnt) (x # bs) = woken ?P (unat cnt) bs" using cn False by simp_all
    show ?thesis unfolding nd(1) futex_wake_skip[OF False] e using IH by (simp add: fun_upd_def)
  next
    case True
    define t where "t = ready_state x (wake_one k x s)"
    note turn = futex_wake_turn[OF True Cons.prems(4,5), of k cnt nxt, folded t_def]
    have x: "\<not> queued s Q x" "p_priority (procs s x) < 64" using Cons.prems(6) by simp_all
    obtain Q1 where w: "proc_rel t Q1 ?W" "made_ready [x] s t" "\<And>p. queued t Q1 p \<longleftrightarrow> queued s Q p \<or> p = x" "x \<notin> set bs"
      "\<And>p. p \<noteq> x \<Longrightarrow> procs t p = procs s p" "smp_cpu_count t = smp_cpu_count s" "futex_entry_addr t = futex_entry_addr s"
      "futex_size t = futex_size s" "queues_free t"
      using wake_one_ready[OF Cons.prems(1-5) x t_def] by blast
    have k: "k < futex_size t * 2" "?W k = as @ bs" "length (?W k) < 2 ^ 64" "0 < smp_cpu_count t" using Cons.prems w(6,8) by auto
    show ?thesis
    proof (cases "bucket_waiters t k = 0 \<or> cnt - 1 = 0")
      case stop: True
      have "bs = [] \<or> unat cnt = 1" by (rule wake_stops[OF w(1) k(1-3) stop])
      then have e: "unwoken ?P (unat cnt) (x # bs) = bs" "woken ?P (unat cnt) (x # bs) = [x]" using True cn by auto
      show ?thesis unfolding e nd(1) using turn stop w(1-3)
        by (intro exI[of _ t] exI[of _ Q1]) (simp add: fun_upd_def)
    next
      case go: False
      have bs: "\<forall>p \<in> set bs. \<not> queued t Q1 p \<and> p_priority (procs t p) < 64"
        using Cons.prems(6) w(3-5) by (metis list.set_intros(2))
      have "cnt - 1 \<noteq> 0" using go by blast
      note IH = Cons.IH[where W = ?W, OF w(1) k(1,2) w(9) k(4) bs k(3) this nd(2) refl]
      then obtain u Q' where u: "futex_wake_loop k addr (cnt - 1) nxt (lnext (lists t) nxt) t = Some (Ok u)"
        "proc_rel u Q' (W(k := as @ unwoken ?P (unat (cnt - 1)) bs))"
        "made_ready (woken ?P (unat (cnt - 1)) bs) t u"
        "\<forall>p. queued u Q' p \<longleftrightarrow> (queued s Q p \<or> p = x) \<or> p \<in> set (woken ?P (unat (cnt - 1)) bs)"
        unfolding w(3,7) fun_upd_upd by (auto simp: fun_upd_def)
      have cm: "unat (cnt - 1) = unat cnt - 1" using cn by (simp add: unat_sub_if' Suc_leI)
      have "made_ready (x # woken ?P (unat (cnt - 1)) bs) s u" using w(2) u(3) unfolding made_ready_def by simp metis
      moreover have e: "unwoken ?P (unat cnt) (x # bs) = unwoken ?P (unat (cnt - 1)) bs"
        "woken ?P (unat cnt) (x # bs) = x # woken ?P (unat (cnt - 1)) bs" using cm cn True by simp_all
      ultimately show ?thesis unfolding e nd(1) using turn go u
        by (intro exI[of _ u] exI[of _ Q']) (simp add: Let_def fun_upd_def)
    qed
  qed
qed

section \<open>Properties\<close>

text \<open>C19: \<open>__do_futex_wake\<close> returns; it takes the first \<open>cnt\<close> waiters of the address off the bucket,
  in list order, sets their state to ready and puts them into the ready queues; all other
  waiters, all other processes and all other buckets stay as they are.\<close>

theorem futex_wake_first:
  fixes addr :: u64
  assumes R: "proc_rel s Q W" and k: "k < futex_size s * 2" and "queues_free s" "0 < smp_cpu_count s"
    and l: "\<not> sl_locked (spins s (BucketLock k))" and "length (W k) < 2 ^ 64" "cnt \<noteq> 0"
    and "\<forall>p \<in> set (W k). \<not> queued s Q p \<and> p_priority (procs s p) < 64"
  defines "ws \<equiv> take (unat cnt) (filter (\<lambda>p. futex_entry_addr s p = addr) (W k))"
  shows "\<exists>t Q'. do_futex_wake k addr cnt s = Ok t \<and> proc_rel t Q' (W(k := filter (\<lambda>p. p \<notin> set ws) (W k))) \<and>
    (\<forall>p. queued t Q' p \<longleftrightarrow> queued s Q p \<or> p \<in> set ws) \<and>
    (\<forall>p \<in> set ws. p_state (procs t p) = PROCESS_STATE_READY) \<and> (\<forall>p. p \<notin> set ws \<longrightarrow> procs t p = procs s p) \<and>
    \<not> sl_locked (spins t (BucketLock k)) \<and> queues_free t"
proof -
  let ?P = "\<lambda>p. futex_entry_addr s p = addr"
  have d: "distinct (W k)" using ring_distinct[OF futex_ring[OF R k]] unfolding distinct_map by blast
  have ws: "ws = woken ?P (unat cnt) (W k)" unfolding ws_def by (rule woken_take[symmetric])
  note uw = unwoken_filter[OF d, of ?P "unat cnt", folded ws]
  show ?thesis
  proof (cases "bucket_waiters s k = 0")
    case True
    have "of_nat (length (W k)) = (0 :: u64)" using R k True by (simp add: proc_rel_def)
    moreover have "unat (of_nat (length (W k)) :: u64) = length (W k)" by (rule unat_of_nat_small) (use assms(6) in simp)
    ultimately have "W k = []" by simp
    then have "ws = []" "W(k := []) = W" "W k = []" by (auto simp: ws_def)
    then show ?thesis using True R l assms(3)
      by (intro exI[of _ s] exI[of _ Q]) (simp add: do_futex_wake_def)
  next
    case False
    define u where "u = s\<lparr>spins := (spins s)(BucketLock k := taken s), cpu := (cpu s)\<lparr>cpu_if := False\<rparr>\<rparr>"
    have u: "lists u = lists s" "procs u = procs s" "futex_entry_addr u = futex_entry_addr s"
      "smp_cpu_count u = smp_cpu_count s" "futex_size u = futex_size s" "bucket_waiters u = bucket_waiters s"
      "spins u (BucketLock k) = taken u" "queues_free u"
      using assms(3) by (simp_all add: u_def taken_def queues_free_def)
    have Ru: "proc_rel u Q W" using R proc_rel_cong[of u s Q W] u by simp
    have nd: "lnext (lists s) (FutexHead k) = first_node k (W k)"
      using ring_first[OF futex_ring[OF R k]] by (auto simp: first_node_def split: list.splits)
    have "\<exists>t Q'. futex_wake_loop k addr cnt (first_node k (W k)) (lnext (lists u) (first_node k (W k))) u = Some (Ok t) \<and>
        proc_rel t Q' (W(k := [] @ unwoken (\<lambda>p. futex_entry_addr u p = addr) (unat cnt) (W k))) \<and>
        made_ready (woken (\<lambda>p. futex_entry_addr u p = addr) (unat cnt) (W k)) u t \<and>
        (\<forall>p. queued t Q' p \<longleftrightarrow> queued u Q p \<or> p \<in> set (woken (\<lambda>p. futex_entry_addr u p = addr) (unat cnt) (W k)))"
      by (rule futex_wake_loop_spec[OF Ru _ _ u(8)]) (use assms u queued_cong[OF u(4)] in \<open>simp_all\<close>)
    then obtain t Q' where t: "futex_wake_loop k addr cnt (first_node k (W k)) (lnext (lists u) (first_node k (W k))) u = Some (Ok t)"
      "proc_rel t Q' (W(k := filter (\<lambda>p. p \<notin> set ws) (W k)))" "made_ready ws u t"
      "\<forall>p. queued t Q' p \<longleftrightarrow> queued s Q p \<or> p \<in> set ws"
      unfolding u(3) append_Nil uw ws[symmetric] queued_cong[OF u(4)] by blast
    have tk: "spins t (BucketLock k) = taken t" using t(3) u(7) by (simp add: made_ready_def taken_def)
    let ?t = "t\<lparr>spins := (spins t)(BucketLock k := given t), cpu := (cpu t)\<lparr>cpu_if := cpu_if (cpu s)\<rparr>\<rparr>"
    have "do_futex_wake k addr cnt s = Ok ?t"
      using False spin_lock_free[OF l] t(1) spin_unlock_taken[OF tk, of "cpu_if (cpu s)"] nd u(1)
      by (simp add: do_futex_wake_def Let_def u_def[symmetric])
    moreover have "proc_rel ?t Q' X = proc_rel t Q' X" for X by (rule proc_rel_cong) simp_all
    moreover have "queued ?t Q' p = queued t Q' p" for p by (rule queued_cong) simp
    moreover have "queues_free ?t" using t(3) by (simp add: made_ready_def queues_free_def)
    ultimately show ?thesis using t(2,3,4) u(2)
      by (intro exI[of _ ?t] exI[of _ Q']) (simp add: made_ready_def given_def)
  qed
qed

section \<open>Waiting\<close>

text \<open>The effect of joining a bucket, as one update.\<close>

definition wait_one :: "u64 \<Rightarrow> u64 \<Rightarrow> u64 \<Rightarrow> 'a proc_state_scheme \<Rightarrow> 'a proc_state_scheme" where
  "wait_one key addr p s = s\<lparr>bucket_waiters := (bucket_waiters s)(key := bucket_waiters s key + 1),
     futex_entry_addr := (futex_entry_addr s)(p := addr),
     lists := list_insert (FutexNode p) (FutexHead key) (lists s),
     procs := (procs s)(p := (procs s p)\<lparr>p_state := PROCESS_STATE_BLOCKED\<rparr>)\<rparr>"

lemma wait_one_rel:
  assumes R: "proc_rel s Q W" and k: "k < futex_size s * 2" and p: "\<And>j. j < futex_size s * 2 \<Longrightarrow> p \<notin> set (W j)"
  shows "proc_rel (wait_one k addr p s) Q (W(k := p # W k))"
proof (rule proc_relI)
  have "rings (list_insert (FutexNode p) (FutexHead k) (lists s)) (proc_heads s)
      ((lay Q W)(FutexHead k := FutexNode p # lay Q W (FutexHead k)))"
  proof (rule rings_push_front)
    show "rings (lists s) (proc_heads s) (lay Q W)" using R by (simp add: proc_rel_def)
    show "FutexHead k \<in> proc_heads s" using k by simp
    show "FutexNode p \<notin> set (b # lay Q W b)" if "b \<in> proc_heads s" for b
      using that by (cases rule: proc_headsE) (auto dest: p)
  qed
  moreover have "proc_heads (wait_one k addr p s) = proc_heads s" by (simp add: proc_heads_def wait_one_def)
  ultimately show "rings (lists (wait_one k addr p s)) (proc_heads (wait_one k addr p s)) (lay Q (W(k := p # W k)))"
    using lay_upd_futex[of Q W k "p # W k"] by (simp add: wait_one_def)
  show "p_cpu (procs (wait_one k addr p s) x) = c \<and> p_priority (procs (wait_one k addr p s) x) = l"
    if "c < smp_cpu_count (wait_one k addr p s)" "l < 64" "x \<in> set (Q c l)" for c l x
    using R that by (cases "x = p") (auto simp: proc_rel_def wait_one_def)
  show "bucket_waiters (wait_one k addr p s) j = of_nat (length ((W(k := p # W k)) j))"
    if "j < futex_size (wait_one k addr p s) * 2" for j
    using R that by (cases "j = k") (auto simp: proc_rel_def wait_one_def)
qed

text \<open>The bucket of a kernel word.\<close>

lemma kwait_key_less:
  assumes "0 < futex_size s" "unat (futex_size s) < 2 ^ 63"
  shows "futex_calc_hash a s + futex_size s < futex_size s * 2"
proof -
  have h: "unat (futex_calc_hash a s) < unat (futex_size s)"
    using assms(1) by (simp add: futex_calc_hash_def unat_mod word_less_nat_alt)
  moreover have "unat (futex_size s * 2) = unat (futex_size s) * 2"
    using assms(2) by (simp add: unat_word_ariths(2))
  moreover have "unat (futex_calc_hash a s + futex_size s) = unat (futex_calc_hash a s) + unat (futex_size s)"
    by (rule unat_add_no_wrap) (use h assms(2) in simp)
  ultimately show ?thesis by (simp add: word_less_nat_alt)
qed

text \<open>The state with the bucket's lock taken.\<close>

definition bucket_locked :: "u64 \<Rightarrow> 'a proc_state_scheme \<Rightarrow> 'a proc_state_scheme" where
  "bucket_locked k s = s\<lparr>spins := (spins s)(BucketLock k := taken s), cpu := (cpu s)\<lparr>cpu_if := False\<rparr>\<rparr>"

lemma fword_val_locked: "fword_val w (add_waiters k d (bucket_locked k s)) = fword_val w s"
  by (cases w) (simp_all add: add_waiters_def bucket_locked_def)

lemma futex_kwait_changed:
  assumes "futex_size s \<noteq> 0" "\<not> sl_locked (spins s (BucketLock (futex_calc_hash (fword_addr w) s + futex_size s)))"
    and "fword_val w s \<noteq> val"
  shows "futex_kwait env w val s =
    Ok (s\<lparr>spins := (spins s)(BucketLock (futex_calc_hash (fword_addr w) s + futex_size s) := given s)\<rparr>)"
proof -
  let ?k = "futex_calc_hash (fword_addr w) s + futex_size s"
  have "futex_kwait env w val s =
      spin_unlock (BucketLock ?k) (cpu_if (cpu s)) (add_waiters ?k (- 1) (add_waiters ?k 1 (bucket_locked ?k s)))"
    using assms(1,3) spin_lock_free[OF assms(2)] fword_val_locked[of w ?k 1 s]
    by (simp add: futex_kwait_def Let_def bucket_locked_def)
  also have "\<dots> = Ok (s\<lparr>spins := (spins s)(BucketLock ?k := given s)\<rparr>)"
    by (subst spin_unlock_taken) (simp_all add: add_waiters_def bucket_locked_def taken_def given_def)
  finally show ?thesis .
qed

text \<open>A queued process that is set to blocking leaves its queue.\<close>

lemma set_blocking_rel:
  assumes R: "proc_rel x Q W" and q: "queued x Q me" and f: "queues_free x" and c: "p_class (procs x me) \<le> 4"
  obtains r where "sched_set_blocking me x = Ok (upd_proc me (\<lambda>_. r) (unready_state me x))"
    "p_state r = p_state (procs x me)"
    "proc_rel (upd_proc me (\<lambda>_. r) (unready_state me x)) (q_remove (p_cpu (procs x me)) (p_priority (procs x me)) me Q) W"
proof -
  obtain r where r: "clampped_priority_change 1 (procs x me) = Ok r" using clampped_class c by metis
  have "\<not> sl_locked (spins x (QueueLock (p_cpu (procs x me))))"
    using f queued_mem(2)[OF R q] by (simp add: queues_free_def)
  note e = do_sched_remove_ready_eq[OF this]
  let ?y = "upd_proc me (\<lambda>_. r) (unready_state me x)"
  let ?Q = "q_remove (p_cpu (procs x me)) (p_priority (procs x me)) me Q"
  have b: "sched_set_blocking me x = Ok ?y"
    using e r by (simp add: sched_set_blocking_def thread_bump_blocking_def change_priority_def)
  note rp = clampped_ok[OF r, THEN conjunct2, THEN conjunct2, THEN conjunct2]
  from arg_cong[OF rp, of p_state] have st: "p_state r = p_state (procs x me)" by simp
  note un = unready_rel[OF R q]
  note ur = un(1)[unfolded proc_rel_def]
  have Ry: "proc_rel ?y ?Q W"
  proof (rule proc_relI)
    have "proc_heads ?y = proc_heads (unready_state me x)" by (simp add: proc_heads_def upd_proc_def)
    then show "rings (lists ?y) (proc_heads ?y) (lay ?Q W)"
      using conjunct1[OF ur] by (simp only: upd_proc_fields)
    show "p_cpu (procs ?y z) = c \<and> p_priority (procs ?y z) = m" if "c < smp_cpu_count ?y" "m < 64" "z \<in> set (?Q c m)" for c m z
    proof -
      have n: "c < smp_cpu_count (unready_state me x)" using that(1) by (simp only: upd_proc_fields)
      then have "z \<noteq> me" using un(2) that(2,3) unfolding queued_def by blast
      moreover have "p_cpu (procs (unready_state me x) z) = c \<and> p_priority (procs (unready_state me x) z) = m"
        using conjunct1[OF conjunct2[OF ur]] n that(2,3) by blast
      ultimately show ?thesis by (simp add: fun_upd_def)
    qed
    show "bucket_waiters ?y j = of_nat (length (W j))" if "j < futex_size ?y * 2" for j
      using conjunct2[OF conjunct2[OF ur]] that by (simp add: upd_proc_def)
  qed
  show ?thesis by (rule that[OF b st Ry])
qed

lemma futex_kwait_same:
  assumes R: "proc_rel s Q W" and fs: "futex_size s \<noteq> 0" and k: "k < futex_size s * 2"
    and kd: "k = futex_calc_hash (fword_addr w) s + futex_size s"
    and f: "queues_free s" and me: "queued s Q (current_process s)" "p_class (procs s (current_process s)) \<le> 4"
    and nw: "\<forall>j < futex_size s * 2. current_process s \<notin> set (W j)" and l: "\<not> sl_locked (spins s (BucketLock k))"
  obtains t where "futex_kwait env w (fword_val w s) s = sched_resched env t" "current_process t = current_process s"
    "proc_rel t (q_remove (p_cpu (procs s (current_process s))) (p_priority (procs s (current_process s))) (current_process s) Q)
      (W(k := current_process s # W k))"
    "futex_entry_addr t (current_process s) = fword_addr w" "p_state (procs t (current_process s)) = PROCESS_STATE_BLOCKED"
proof -
  let ?me = "current_process s" and ?u = "bucket_locked k s"
  let ?x = "wait_one k (fword_addr w) ?me ?u"
  have Ru: "proc_rel ?u Q W" using R proc_rel_cong[of ?u s Q W] by (simp add: bucket_locked_def)
  have Rx: "proc_rel ?x Q (W(k := ?me # W k))"
    by (rule wait_one_rel[OF Ru]) (use k nw in \<open>simp_all add: bucket_locked_def\<close>)
  have qx: "queued ?x Q ?me" using me(1) by (simp add: queued_def wait_one_def bucket_locked_def)
  have fx: "queues_free ?x" using f by (simp add: queues_free_def wait_one_def bucket_locked_def)
  have px: "p_cpu (procs ?x ?me) = p_cpu (procs s ?me)" "p_priority (procs ?x ?me) = p_priority (procs s ?me)"
    "p_class (procs ?x ?me) = p_class (procs s ?me)" "p_state (procs ?x ?me) = PROCESS_STATE_BLOCKED"
    by (simp_all add: wait_one_def bucket_locked_def)
  let ?y = "\<lambda>r. upd_proc ?me (\<lambda>_. r) (unready_state ?me ?x)"
  obtain r where b: "sched_set_blocking ?me ?x = Ok (?y r)" and rs: "p_state r = PROCESS_STATE_BLOCKED"
    and Ry: "proc_rel (?y r) (q_remove (p_cpu (procs s ?me)) (p_priority (procs s ?me)) ?me Q) (W(k := ?me # W k))"
    by (rule set_blocking_rel[OF Rx qx fx, unfolded px]) (use me(2) in auto)
  have "futex_kwait env w (fword_val w s) s = futex_block env k (fword_addr w) (cpu_if (cpu s)) Ok (add_waiters k 1 ?u)"
    using fs spin_lock_free[OF l] fword_val_locked[of w k 1 s] by (simp add: futex_kwait_def Let_def kd bucket_locked_def)
  also have "\<dots> = bind_res (sched_set_blocking ?me ?x) (\<lambda>t.
      bind_res (spin_unlock (BucketLock k) (cpu_if (cpu s)) t) (sched_resched env))"
    by (simp add: futex_block_def Let_def add_waiters_def wait_one_def bucket_locked_def upd_lists_def upd_proc_def)
  finally have W: "futex_kwait env w (fword_val w s) s =
      bind_res (spin_unlock (BucketLock k) (cpu_if (cpu s)) (?y r)) (sched_resched env)" using b by simp
  have tk: "spins (?y r) (BucketLock k) = taken (?y r)" by (simp add: wait_one_def bucket_locked_def taken_def)
  let ?t = "(?y r)\<lparr>spins := (spins (?y r))(BucketLock k := given (?y r)), cpu := (cpu (?y r))\<lparr>cpu_if := cpu_if (cpu s)\<rparr>\<rparr>"
  show ?thesis
  proof (rule that[of ?t])
    show "futex_kwait env w (fword_val w s) s = sched_resched env ?t"
      using W spin_unlock_taken[OF tk, of "cpu_if (cpu s)"] by simp
    show "proc_rel ?t (q_remove (p_cpu (procs s ?me)) (p_priority (procs s ?me)) ?me Q) (W(k := ?me # W k))"
      using Ry proc_rel_cong[of ?t "?y r"] by simp
  qed (use rs in \<open>simp_all add: wait_one_def bucket_locked_def\<close>)
qed

text \<open>C20: A process that waits on a kernel word whose value is the expected one joins the front of
  the word's bucket, leaves the ready queue, is marked blocked and gives up the processor; if
  the value has changed it goes on, with the queues and the buckets as they were.\<close>

theorem futex_kwait_blocks:
  fixes w :: fword
  assumes R: "proc_rel s Q W" and fs: "0 < futex_size s" "unat (futex_size s) < 2 ^ 63"
    and f: "queues_free s" and me: "queued s Q (current_process s)" "p_class (procs s (current_process s)) \<le> 4"
    and nw: "\<forall>j < futex_size s * 2. current_process s \<notin> set (W j)"
  defines "k \<equiv> futex_calc_hash (fword_addr w) s + futex_size s"
  assumes l: "\<not> sl_locked (spins s (BucketLock k))"
  shows "\<exists>t. if fword_val w s = val
    then futex_kwait env w val s = sched_resched env t \<and> current_process t = current_process s \<and>
      proc_rel t (q_remove (p_cpu (procs s (current_process s))) (p_priority (procs s (current_process s))) (current_process s) Q)
        (W(k := current_process s # W k)) \<and>
      futex_entry_addr t (current_process s) = fword_addr w \<and>
      p_state (procs t (current_process s)) = PROCESS_STATE_BLOCKED
    else futex_kwait env w val s = Ok t \<and> proc_rel t Q W \<and> procs t = procs s \<and> current_process t = current_process s"
proof (cases "fword_val w s = val")
  case False
  let ?t = "s\<lparr>spins := (spins s)(BucketLock k := given s)\<rparr>"
  have "futex_kwait env w val s = Ok ?t"
    unfolding k_def by (rule futex_kwait_changed) (use False fs l in \<open>simp_all add: k_def\<close>)
  moreover have "proc_rel ?t Q W = proc_rel s Q W" by (rule proc_rel_cong) simp_all
  ultimately show ?thesis using False R by (intro exI[of _ ?t]) simp
next
  case True
  have "k < futex_size s * 2" unfolding k_def by (rule kwait_key_less[OF fs])
  moreover have "futex_size s \<noteq> 0" using fs(1) by simp
  ultimately show ?thesis unfolding if_P[OF True]
    using futex_kwait_same[OF R _ _ _ f me nw l, of w env] True k_def by metis
qed

theorem futex_kwait_blocks_witness:
  "\<exists>t. futex_kwait Ok (WProcState 0x9000) PROCESS_STATE_READY demo_alone = sched_resched Ok t \<and>
     p_state (procs t 0x5000) = PROCESS_STATE_BLOCKED"
proof -
  let ?Q = "q_append 0 1 0x5000 (\<lambda>_ _. [])"
  have r: "proc_rel demo_alone ?Q (\<lambda>_. [])" unfolding demo_alone_def by (rule demo_ready(1))
  have s0: "queues_free (demo_sched 10)" by (simp add: queues_free_def)
  have f: "current_process demo_alone = 0x5000" "futex_size demo_alone = 4" "queues_free demo_alone"
    "p_class (procs demo_alone 0x5000) \<le> 4" "smp_cpu_count demo_alone = 1"
    "p_state (procs demo_alone 0x9000) = PROCESS_STATE_READY" "\<not> sl_locked (spins demo_alone (BucketLock j))" for j
    using s0 by (simp_all add: demo_alone_def demo_process_def class_defs) (simp add: demo_sched_def)
  have q: "queued demo_alone ?Q (current_process demo_alone)" unfolding queued_def
    by (intro exI[of _ 0] exI[of _ 1]) (simp add: f q_append_def)
  show ?thesis using futex_kwait_blocks[OF r _ _ f(3) q, of "WProcState 0x9000" PROCESS_STATE_READY Ok] f by auto
qed

theorem futex_wake_first_witness:
  "\<exists>t. do_futex_wake 4 0x88 1 (wait_one 4 0x88 0x6000 (demo_sched 10)) = Ok t \<and>
     p_state (procs t 0x6000) = PROCESS_STATE_READY"
proof -
  let ?s = "wait_one 4 0x88 0x6000 (demo_sched 10)"
  have fs: "futex_size (demo_sched 10) = 4" by (simp add: demo_sched_def)
  have r: "proc_rel ?s (\<lambda>_ _. []) ((\<lambda>_. [])(4 := [0x6000]))"
    using wait_one_rel[OF demo_sched_rel[of 10], of 4 "0x6000" "0x88"] fs by simp
  have f: "futex_size ?s = 4" "queues_free ?s" "smp_cpu_count ?s = 1" "\<not> sl_locked (spins ?s (BucketLock 4))"
    "futex_entry_addr ?s 0x6000 = 0x88" "p_priority (procs ?s 0x6000) = 15"
    using fs by (simp_all add: wait_one_def queues_free_def demo_process_def)
  show ?thesis using futex_wake_first[OF r, of 4 1 "0x88"] f by (auto simp: queued_def)
qed

end
