(* ===== verification/Syscall_Spec.thy ===== *)
theory Syscall_Spec
  imports K_syscall Futex_Spec
begin

text \<open>
  Properties of the system calls and of the end of a process: the dispatch, the transfer of
  mappings, waiting for children, and what happens to the children of a process that ends.
\<close>

section \<open>Waiting for a child\<close>

lemma child_scan_chain:
  assumes "chain (lnext (lists s)) x (map SiblingNode cs) (ChildHead me)"
  shows "child_scan P me (lnext (lists s) x) found s = Some (Ok (foldl (\<lambda>f c. if P (procs s c) then c else f) found cs))"
  using assms
proof (induction cs arbitrary: x found)
  case (Cons c cs)
  then have n: "lnext (lists s) x = SiblingNode c" "chain (lnext (lists s)) (SiblingNode c) (map SiblingNode cs) (ChildHead me)" by auto
  show ?case unfolding n(1) using Cons.IH[OF n(2)] by (subst child_scan.simps) simp
qed (simp add: child_scan.simps)

text \<open>The last child that satisfies the condition.\<close>

lemma last_match:
  assumes "\<exists>c \<in> set cs. P c"
  shows "foldl (\<lambda>f c. if P c then c else f) found cs = last (filter P cs)"
  using assms
proof (induction cs arbitrary: found rule: rev_induct)
  case (snoc c cs)
  then show ?case by (cases "P c") (auto simp: filter_empty_conv)
qed simp

lemma find_child_ring:
  assumes l: "mutex_owner s (ProcLock (current_process s)) = 0"
    and r: "ring (lists s) (ChildHead (current_process s)) (map SiblingNode cs)"
    and m: "\<exists>c \<in> set cs. P (procs s c)"
  shows "find_child P s = Ok (last (filter (\<lambda>c. P (procs s c)) cs), s)"
proof -
  let ?me = "current_process s"
  let ?u = "s\<lparr>mutex_owner := (mutex_owner s)(ProcLock ?me := get_current_proc s)\<rparr>"
  have "chain (lnext (lists ?u)) (ChildHead ?me) (map SiblingNode cs) (ChildHead ?me)" using r by (simp add: ring_def)
  from child_scan_chain[OF this, of P 0]
  have "child_scan P ?me (lnext (lists ?u) (ChildHead ?me)) 0 ?u = Some (Ok (last (filter (\<lambda>c. P (procs s c)) cs)))"
    using last_match[OF m] by simp
  moreover have "(mutex_owner s)(ProcLock ?me := 0) = mutex_owner s" using l by auto
  ultimately show ?thesis using l by (simp add: find_child_def lock_current_def unlock_current_def Let_def)
qed

lemma wait_any_found:
  assumes "find_child p_terminate_flag s = Ok (c, s)" "c \<noteq> 0"
    and "futex_kwait env (WChildCount (current_process s)) (p_exited_child_count (procs s (current_process s))) s = r"
  shows "ends (wait_any_loop env s) = bind_res r (\<lambda>s. Ok (c, s))"
  using assms by (subst wait_any_loop.simps) (cases r, auto simp: Let_def)

text \<open>A process that waits for any child goes to sleep even if a child has already ended: the
  child is found, and then the call waits for the count of ended children to change from the
  value it has, in the bucket of that count, before it looks at the child again.\<close>

theorem wait_any_sleeps:
  assumes R: "proc_rel s Q W" and fs: "0 < futex_size s" "unat (futex_size s) < 2 ^ 63" and f: "queues_free s"
    and me: "current_process s = me" "queued s Q me" "p_class (procs s me) \<le> 4" "mutex_owner s (ProcLock me) = 0"
    and nw: "\<forall>j < futex_size s * 2. me \<notin> set (W j)"
    and l: "\<not> sl_locked (spins s (BucketLock (futex_calc_hash (fword_addr (WChildCount me)) s + futex_size s)))"
    and cs: "ring (lists s) (ChildHead me) (map SiblingNode cs)" "0 \<notin> set cs"
    and c: "\<exists>c \<in> set cs. p_terminate_flag (procs s c)"
  shows "\<exists>t c. c \<in> set cs \<and> p_terminate_flag (procs s c) \<and>
    syscall_process_wait env stk (- 1) stat s = bind_res (sched_resched env t) (wait_reap env stk stat c) \<and>
    current_process t = me \<and> p_state (procs t me) = PROCESS_STATE_BLOCKED \<and>
    futex_entry_addr t me = fword_addr (WChildCount me)"
proof -
  let ?c = "last (filter (\<lambda>c. p_terminate_flag (procs s c)) cs)"
  have ne: "filter (\<lambda>c. p_terminate_flag (procs s c)) cs \<noteq> []" using c by (auto simp: filter_empty_conv)
  then have cc: "?c \<in> set cs" "p_terminate_flag (procs s ?c)" using last_in_set[OF ne] by auto
  then have c0: "?c \<noteq> 0" using cs(2) by auto
  have fc: "find_child p_terminate_flag s = Ok (?c, s)" using find_child_ring[of s cs p_terminate_flag] me cs(1) c by simp
  obtain t where t: "futex_kwait env (WChildCount me) (fword_val (WChildCount me) s) s = sched_resched env t"
    "current_process t = me" "futex_entry_addr t me = fword_addr (WChildCount me)" "p_state (procs t me) = PROCESS_STATE_BLOCKED"
    by (rule futex_kwait_same[OF R _ kwait_key_less[OF fs] refl f, where w = "WChildCount me" and env = env])
      (use fs(1) me nw l in auto)
  have "ends (wait_any_loop env s) = bind_res (sched_resched env t) (\<lambda>s. Ok (?c, s))"
    by (rule wait_any_found[OF fc c0]) (use t(1) me(1) in simp)
  then have "syscall_process_wait env stk (- 1) stat s = bind_res (sched_resched env t) (wait_reap env stk stat ?c)"
    using c0 by (simp add: syscall_process_wait_def bind_res_assoc)
  then show ?thesis using cc t by blast
qed

text \<open>A process at \<open>0x5000\<close> with one child, at \<open>0x6000\<close>, that has ended, and a parent at \<open>0x7000\<close>.\<close>

definition demo_family :: proc_state where
  "demo_family = (demo_sched 10)\<lparr>lists := list_insert (SiblingNode 0x6000) (ChildHead 0x5000) \<lparr>lprev = id, lnext = id\<rparr>,
     procs := (\<lambda>p. if p = 0x5000 then (demo_process 1 10)\<lparr>p_parent := 0x7000\<rparr>
       else if p = 0x6000 then (demo_process 15 10)\<lparr>p_terminate_flag := True, p_parent := 0x5000\<rparr> else demo_process 15 10)\<rparr>"

lemma demo_family_fields [simp]:
  "lists demo_family = list_insert (SiblingNode 0x6000) (ChildHead 0x5000) \<lparr>lprev = id, lnext = id\<rparr>"
  "current_process demo_family = 0x5000" "smp_cpu_count demo_family = 1" "futex_size demo_family = 4"
  "mutex_owner demo_family = (\<lambda>_. 0)" "spins demo_family = (\<lambda>_. \<lparr>sl_locked = False, sl_owner = 0\<rparr>)"
  "bucket_waiters demo_family = (\<lambda>_. 0)" "sched_pick_cpu demo_family = 0"
  "procs demo_family = (\<lambda>p. if p = 0x5000 then (demo_process 1 10)\<lparr>p_parent := 0x7000\<rparr>
     else if p = 0x6000 then (demo_process 15 10)\<lparr>p_terminate_flag := True, p_parent := 0x5000\<rparr> else demo_process 15 10)"
  using one_cpu[of demo_family] by (simp_all add: demo_family_def demo_sched_def)

lemma demo_family_ring: "ring (lists demo_family) (ChildHead 0x5000) [SiblingNode 0x6000]"
  by (simp add: ring_def list_insert_fields)

lemma demo_family_rel: "proc_rel demo_family (\<lambda>_ _. []) (\<lambda>_. [])"
proof (rule proc_relI)
  have l: "lay (\<lambda>_ _. []) (\<lambda>_. []) a = []" for a by (cases a) simp_all
  have "lnext (lists demo_family) a = a \<and> lprev (lists demo_family) a = a" if "a \<in> proc_heads demo_family" for a
    using that by (cases rule: proc_headsE) (simp_all add: list_insert_fields)
  then show "rings (lists demo_family) (proc_heads demo_family) (lay (\<lambda>_ _. []) (\<lambda>_. []))"
    by (simp add: rings_def ring_def l del: demo_family_fields)
qed simp_all

theorem wait_any_sleeps_witness:
  "\<exists>t. syscall_process_wait Ok 0xf000 (- 1) 0 (ready_state 0x5000 demo_family) =
      bind_res (sched_resched Ok t) (wait_reap Ok 0xf000 0 0x6000) \<and>
    p_state (procs t 0x5000) = PROCESS_STATE_BLOCKED"
proof -
  let ?s = "ready_state 0x5000 demo_family" and ?Q = "q_append 0 1 0x5000 (\<lambda>_ _. [])"
  have r: "proc_rel ?s ?Q (\<lambda>_. [])"
    using set_ready_rel[OF demo_family_rel, of "0x5000"] by (simp add: queued_def demo_process_def)
  have f: "queues_free ?s" by (rule queues_free_ready) (simp add: queues_free_def)
  have q: "queued ?s ?Q 0x5000" unfolding queued_def
    by (intro exI[of _ 0] exI[of _ 1]) (simp add: q_append_def)
  have c: "ring (lists ?s) (ChildHead 0x5000) (map SiblingNode [0x6000])"
    by (simp add: ready_state_def Let_def ring_def list_insert_fields demo_process_def)
  show ?thesis using wait_any_sleeps[OF r _ _ f refl, of "[0x6000]" Ok "0xf000" 0] q c
    by (auto simp: demo_process_def class_defs)
qed

section \<open>The children of a process that ends\<close>

definition adopted :: "u64 \<Rightarrow> u64 \<Rightarrow> 'a proc_state_scheme \<Rightarrow> 'a proc_state_scheme" where
  "adopted c pa s = upd_lists (list_insert (SiblingNode c) (ChildHead pa))
     (upd_lists (list_remove (SiblingNode c)) (upd_proc c (\<lambda>p. p\<lparr>p_parent := pa\<rparr>) s))"

lemma adopted_fields [simp]:
  "procs (adopted c pa s) = (procs s)(c := (procs s c)\<lparr>p_parent := pa\<rparr>)" "mutex_owner (adopted c pa s) = mutex_owner s"
  "lists (adopted c pa s) = list_insert (SiblingNode c) (ChildHead pa) (list_remove (SiblingNode c) (lists s))"
  "current_process (adopted c pa s) = current_process s"
  by (simp_all add: adopted_def)

lemma reparent_turn:
  assumes "mutex_owner s (ProcLock c) = 0" "p_parent (procs s me) = pa"
  shows "reparent_loop me (SiblingNode c) nxt s = reparent_loop me nxt (lnext (lists (adopted c pa s)) nxt) (adopted c pa s)"
proof -
  let ?u = "s\<lparr>mutex_owner := (mutex_owner s)(ProcLock c := get_current_proc s)\<rparr>"
  have a: "adopted c pa ?u = (adopted c pa s)\<lparr>mutex_owner := (mutex_owner s)(ProcLock c := get_current_proc s)\<rparr>"
    by (simp add: adopted_def upd_lists_def upd_proc_def)
  have "get_current_proc (adopted c pa s) = get_current_proc s" by (simp add: get_current_proc_def)
  moreover have "(mutex_owner s)(ProcLock c := 0) = mutex_owner s" using assms(1) by auto
  ultimately have "mutex_release (ProcLock c) (adopted c pa ?u) = Ok (adopted c pa s)"
    unfolding a by (simp add: adopted_def upd_lists_def upd_proc_def)
  then show ?thesis using assms by (subst reparent_loop.simps) (simp add: mutex_try_acquire_def Let_def adopted_def)
qed

text \<open>The child lists of the process and of its parent.\<close>

definition families :: "u64 \<Rightarrow> u64 list \<Rightarrow> u64 \<Rightarrow> u64 list \<Rightarrow> lnode \<Rightarrow> lnode list" where
  "families me cs pa ps a = (if a = ChildHead me then map SiblingNode cs else if a = ChildHead pa then map SiblingNode ps else [])"

lemma adopted_rings:
  assumes R: "rings (lists s) {ChildHead me, ChildHead pa} (families me (c # cs) pa ps)" and ne: "me \<noteq> pa"
  shows "rings (lists (adopted c pa s)) {ChildHead me, ChildHead pa} (families me cs pa (c # ps))"
proof -
  let ?H = "{ChildHead me, ChildHead pa}" and ?L = "families me (c # cs) pa ps"
  have m: "ChildHead me \<in> ?H" "SiblingNode c \<in> set (?L (ChildHead me))" "ChildHead pa \<in> ?H" by (simp_all add: families_def)
  have d: "distinct (c # cs)" using ringsD[OF R m(1)] by (auto simp: ring_def families_def distinct_map)
  have x: "SiblingNode c \<notin> set (?L (ChildHead pa))" using rings_disjoint[OF R m(1,3)] ne m(2) by auto
  have e: "?L(ChildHead me := remove1 (SiblingNode c) (?L (ChildHead me))) = families me cs pa ps"
    using ne by (auto simp: families_def fun_eq_iff)
  note R1 = rings_remove[OF R m(1,2), unfolded e]
  have "rings (list_insert (SiblingNode c) (ChildHead pa) (list_remove (SiblingNode c) (lists s))) ?H
      ((families me cs pa ps)(ChildHead pa := SiblingNode c # families me cs pa ps (ChildHead pa)))"
    by (rule rings_push_front[OF R1 m(3)]) (use d x ne in \<open>auto simp: families_def\<close>)
  moreover have "(families me cs pa ps)(ChildHead pa := SiblingNode c # families me cs pa ps (ChildHead pa)) = families me cs pa (c # ps)"
    using ne by (auto simp: families_def fun_eq_iff)
  ultimately show ?thesis by simp
qed

lemma first_child:
  assumes "rings h {ChildHead me, ChildHead pa} (families me cs pa ps)"
  shows "lnext h (ChildHead me) = (case cs of [] \<Rightarrow> ChildHead me | c # _ \<Rightarrow> SiblingNode c)"
  using ringsD[OF assms, of "ChildHead me"] by (cases cs) (auto simp: ring_def families_def)

lemma second_child:
  assumes "rings h {ChildHead me, ChildHead pa} (families me (c # cs) pa ps)" "me \<noteq> pa"
  shows "lnext h (SiblingNode c) = (case cs of [] \<Rightarrow> ChildHead me | c # _ \<Rightarrow> SiblingNode c)"
  using ringsD[OF assms(1), of "ChildHead me"] by (cases cs) (auto simp: ring_def families_def)

lemma reparent_loop_spec:
  assumes "rings (lists s) {ChildHead me, ChildHead pa} (families me cs pa ps)" "me \<noteq> pa"
    and "p_parent (procs s me) = pa" "me \<notin> set cs" "\<forall>c \<in> set cs. mutex_owner s (ProcLock c) = 0"
  shows "\<exists>t. reparent_children me s = Ok t \<and> rings (lists t) {ChildHead me, ChildHead pa} (families me [] pa (rev cs @ ps)) \<and>
    procs t = (\<lambda>p. if p \<in> set cs then (procs s p)\<lparr>p_parent := pa\<rparr> else procs s p) \<and>
    mutex_owner t = mutex_owner s \<and> current_process t = current_process s"
  using assms
proof (induction cs arbitrary: s ps)
  case Nil
  then show ?case using first_child[OF Nil.prems(1)]
    by (intro exI[of _ s]) (simp add: reparent_children_def reparent_loop.simps)
next
  case (Cons c cs)
  let ?a = "adopted c pa s"
  have R: "rings (lists ?a) {ChildHead me, ChildHead pa} (families me cs pa (c # ps))"
    by (rule adopted_rings[OF Cons.prems(1,2)])
  have "reparent_children me s = ends (reparent_loop me (SiblingNode c) (lnext (lists s) (SiblingNode c)) s)"
    using first_child[OF Cons.prems(1)] by (simp add: reparent_children_def Let_def)
  also have "\<dots> = ends (reparent_loop me (lnext (lists ?a) (ChildHead me)) (lnext (lists ?a) (lnext (lists ?a) (ChildHead me))) ?a)"
    unfolding first_child[OF R] second_child[OF Cons.prems(1,2)]
    by (subst reparent_turn[OF _ Cons.prems(3)]) (use Cons.prems(5) in auto)
  finally have E: "reparent_children me s = reparent_children me ?a" by (simp add: reparent_children_def Let_def)
  have "\<exists>t. reparent_children me ?a = Ok t \<and> rings (lists t) {ChildHead me, ChildHead pa} (families me [] pa (rev cs @ c # ps)) \<and>
    procs t = (\<lambda>p. if p \<in> set cs then (procs ?a p)\<lparr>p_parent := pa\<rparr> else procs ?a p) \<and>
    mutex_owner t = mutex_owner ?a \<and> current_process t = current_process ?a"
    by (rule Cons.IH[OF R Cons.prems(2)]) (use Cons.prems in auto)
  then show ?case unfolding E by (auto simp: fun_eq_iff)
qed

section \<open>Properties\<close>

text \<open>C26: When a process ends, its children become children of its parent: their list is empty, the
  children stand in front of the parent's own ones in reverse order, exactly they have a new
  parent, and no lock changes hands.  If the lock of the first child is held by another
  process, the kernel panics.\<close>

theorem reparent_children_moves:
  assumes R: "rings (lists s) {ChildHead me, ChildHead pa} (families me cs pa ps)" and ne: "me \<noteq> pa"
    and p: "p_parent (procs s me) = pa" "me \<notin> set cs"
  shows "if \<forall>c \<in> set cs. mutex_owner s (ProcLock c) = 0
    then \<exists>t. reparent_children me s = Ok t \<and> rings (lists t) {ChildHead me, ChildHead pa} (families me [] pa (rev cs @ ps)) \<and>
      (\<forall>p. procs t p = (if p \<in> set cs then (procs s p)\<lparr>p_parent := pa\<rparr> else procs s p)) \<and> mutex_owner t = mutex_owner s
    else mutex_owner s (ProcLock (hd cs)) \<in> {0, get_current_proc s} \<or>
      reparent_children me s = Fail (Panic ''invalid release'')"
proof (cases "\<forall>c \<in> set cs. mutex_owner s (ProcLock c) = 0")
  case True
  obtain t where "reparent_children me s = Ok t" "rings (lists t) {ChildHead me, ChildHead pa} (families me [] pa (rev cs @ ps))"
    "procs t = (\<lambda>p. if p \<in> set cs then (procs s p)\<lparr>p_parent := pa\<rparr> else procs s p)" "mutex_owner t = mutex_owner s"
    using reparent_loop_spec[OF R ne p True] by blast
  then show ?thesis unfolding if_P[OF True] by simp
next
  case False
  then obtain c cs' where cs: "cs = c # cs'" by (cases cs) auto
  have "reparent_children me s = Fail (Panic ''invalid release'')"
    if o: "mutex_owner s (ProcLock c) \<noteq> 0" "mutex_owner s (ProcLock c) \<noteq> get_current_proc s"
  proof -
    have g: "get_current_proc (adopted c pa s) = get_current_proc s" by (simp add: get_current_proc_def)
    have "mutex_release (ProcLock c) (adopted c pa s) = Fail (Panic ''invalid release'')"
      by (rule mutex_release_not_own) (use o g in simp)
    then have "reparent_loop me (SiblingNode c) nxt s = Some (Fail (Panic ''invalid release''))" for nxt
      using o p(1) by (subst reparent_loop.simps) (simp add: mutex_try_acquire_def Let_def adopted_def)
    then show ?thesis using first_child[OF R] cs by (simp add: reparent_children_def)
  qed
  then show ?thesis unfolding if_not_P[OF False] using cs by auto
qed

theorem reparent_children_moves_witness:
  "\<exists>t. reparent_children 0x5000 demo_family = Ok t \<and> ring (lists t) (ChildHead 0x7000) [SiblingNode 0x6000] \<and>
    p_parent (procs t 0x6000) = 0x7000"
proof -
  have r: "rings (lists demo_family) {ChildHead 0x5000, ChildHead 0x7000} (families 0x5000 [0x6000] 0x7000 [])"
    using demo_family_ring by (simp add: rings_def families_def) (simp add: ring_def list_insert_fields)
  obtain t where t: "reparent_children 0x5000 demo_family = Ok t" "\<forall>p. procs t p = (if p \<in> set [0x6000] then (procs demo_family p)\<lparr>p_parent := 0x7000\<rparr> else procs demo_family p)"
    "rings (lists t) {ChildHead 0x5000, ChildHead 0x7000} (families 0x5000 [] 0x7000 (rev [0x6000] @ []))"
    using reparent_children_moves[OF r] by (auto simp: demo_process_def)
  then show ?thesis using ringsD[OF t(3), of "ChildHead 0x7000"] by (simp add: families_def)
qed

text \<open>The number of a system call is compared as a signed one.  Numbers below 18 select a call and
  numbers from 18 up to \<open>2 ^ 63 - 1\<close> are refused with \<open>INVAL\<close>, but every number from
  \<open>2 ^ 63\<close> on passes the test and makes the kernel call through a word in front of the table.\<close>

theorem syscall_entry_numbers:
  "syscall_entry env kpa spawn stk rax args s =
    (if 2 ^ 63 \<le> unat rax then Fail WildCall
     else if unat rax < 18
     then bind_res (syscall_call env kpa spawn stk (syscall_def ! unat rax) args (s\<lparr>cpu := interrupt_enable_preemption (cpu s)\<rparr>))
       (\<lambda>(r, t). let t = t\<lparr>cpu := interrupt_disable_preemption (cpu t)\<rparr> in case r of
          Enter e \<Rightarrow> Ok (Enter e, t)
        | Ret v \<Rightarrow> bind_res (process_on_sysret env t) (\<lambda>u. Ok (Ret v, u)))
     else bind_res (process_on_sysret env s) (\<lambda>u. Ok (Ret (- INVAL), u)))"
proof -
  have n: "length syscall_def = 18" by (simp add: syscall_def_def)
  have s: "sint rax = (if 2 ^ 63 \<le> unat rax then int (unat rax) - 2 ^ 64 else int (unat rax))"
    by (rule sint_unat)
  consider (neg) "2 ^ 63 \<le> unat rax" | (ok) "\<not> 2 ^ 63 \<le> unat rax" "unat rax < 18" | (big) "\<not> 2 ^ 63 \<le> unat rax" "\<not> unat rax < 18" by blast
  then show ?thesis
  proof cases
    case neg
    then have "sint rax < 0" using s uint_lt2p[of rax] by simp
    then show ?thesis using neg by (simp add: syscall_entry_def n)
  next
    case ok
    have i: "sint rax = int (unat rax)" using s unfolding if_not_P[OF ok(1)] .
    then have "\<not> 18 \<le> sint rax" "\<not> sint rax < 0" "nat (sint rax) = unat rax" unfolding i using ok(2) by linarith+
    then show ?thesis using ok
      by (simp add: syscall_entry_def n bind_res_assoc Let_def)
        (intro arg_cong[where f = "bind_res _"], auto simp: fun_eq_iff)
  next
    case big
    have i: "sint rax = int (unat rax)" using s unfolding if_not_P[OF big(1)] .
    have "sint rax \<ge> 18" unfolding i using big(2) by linarith
    then show ?thesis using big by (simp add: syscall_entry_def n)
  qed
qed

text \<open>A transfer of mappings never chooses the destination itself: a call with the destination 0,
  which is meant to ask for a free range, is refused before anything is looked at, because 0
  lies below the first user address.\<close>

theorem mtransfer_never_places:
  "syscall_mtransfer dh sh 0 vaddr_s sz flag s = Ok (- INVAL, s) \<or> syscall_mtransfer dh sh 0 vaddr_s sz flag s = Ok (- DENIED, s)"
proof -
  have "mtransfer_check 0 vaddr_s sz flag \<in> {INVAL, DENIED}"
    by (simp add: mtransfer_check_def USERLAND_VADDR_BEGIN_def)
  then show ?thesis by (auto simp: syscall_mtransfer_def Let_def error_defs)
qed

end
