(* ===== verification/C_string.thy ===== *)
theory C_string
  imports K_string
begin

text \<open>
  \<open>osrt/c/string.c\<close>, the strings of user programs, on byte memory.  Functions that write return
  the new memory; \<open>strtok\<close> also takes and returns its saved pointer.  The comparison
  functions are built on \<open>repne movsb\<close>, an instruction with a prefix that the architecture
  does not define for it: its effect is the argument \<open>rm\<close>, which gives the counter left over
  and the new memory.
\<close>

section \<open>The instructions\<close>

definition memcpy_rep_movsb :: "u64 \<Rightarrow> u64 \<Rightarrow> u64 \<Rightarrow> mem \<Rightarrow> mem" where
  "memcpy_rep_movsb dst src n m = rep_movsb (unat n) dst src m"

definition memset_rep_stosb :: "u64 \<Rightarrow> u8 \<Rightarrow> u64 \<Rightarrow> mem \<Rightarrow> mem" where
  "memset_rep_stosb dst c n m = rep_stosb (unat n) dst c m"

definition memcmp_repne_cmpsb ::
    "(nat \<Rightarrow> u64 \<Rightarrow> u64 \<Rightarrow> mem \<Rightarrow> nat \<times> mem) \<Rightarrow> u64 \<Rightarrow> u64 \<Rightarrow> u64 \<Rightarrow> mem \<Rightarrow> u64 \<times> mem" where
  "memcmp_repne_cmpsb rm dst src n m = (let (scanned, m) = rm (unat n) dst src m in (n - of_nat scanned, m))"

definition memchr_repne_scasb :: "u64 \<Rightarrow> u8 \<Rightarrow> u64 \<Rightarrow> mem \<Rightarrow> u64" where
  "memchr_repne_scasb s c n m = n - of_nat (repne_scasb (unat n) s c m)"

section \<open>Copying\<close>

definition SIZE_MAX :: u64 where
  "SIZE_MAX = - 1"

definition memcpy :: "u64 \<Rightarrow> u64 \<Rightarrow> u64 \<Rightarrow> mem \<Rightarrow> u64 \<times> mem" where
  "memcpy s1 s2 n m = (s1, memcpy_rep_movsb s1 s2 n m)"

text \<open>The two loops of \<open>memmove\<close>; the counter can wrap around, so that they need not end.\<close>

partial_function (option) memmove_up :: "u64 \<Rightarrow> u64 \<Rightarrow> u64 \<Rightarrow> u64 \<Rightarrow> u64 \<Rightarrow> mem \<Rightarrow> mem option" where
  "memmove_up s1 s2 n overlap moved m =
     (if moved < n then (let
        remaining = n - moved;
        chunk_size = (if remaining < overlap then remaining else overlap);
        m = memcpy_rep_movsb (s1 + moved) (s2 + moved) chunk_size m
      in memmove_up s1 s2 n overlap (moved + overlap) m)
      else Some m)"

partial_function (option) memmove_down :: "u64 \<Rightarrow> u64 \<Rightarrow> u64 \<Rightarrow> u64 \<Rightarrow> u64 \<Rightarrow> mem \<Rightarrow> mem option" where
  "memmove_down s1 s2 n overlap moved m =
     (if moved < n then (let
        remaining = n - moved;
        chunk_size = (if remaining < overlap then remaining else overlap);
        p1 = s1 + n - moved;
        p2 = s2 + n - moved;
        m = memcpy_rep_movsb (p1 - chunk_size) (p2 - chunk_size) chunk_size m
      in memmove_down s1 s2 n overlap (moved + overlap) m)
      else Some m)"

definition memmove :: "u64 \<Rightarrow> u64 \<Rightarrow> u64 \<Rightarrow> mem \<Rightarrow> (u64 \<times> mem) option" where
  "memmove s1 s2 n m = map_option (\<lambda>m. (s1, m))
     (if s1 = s2 then Some m
      else if s1 < s2 \<and> s1 + n \<le> s2 then Some (memcpy_rep_movsb s1 s2 n m)
      else if s2 < s1 \<and> s2 + n \<le> s1 then Some (memcpy_rep_movsb s1 s2 n m)
      else if s1 < s2 then memmove_up s1 s2 n ((s1 + n) - s2) 0 m
      else if s2 < s1 then memmove_down s1 s2 n ((s2 + n) - s1) 0 m
      else Some m)"

definition strlen :: "u64 \<Rightarrow> mem \<Rightarrow> u64" where
  "strlen s m = memchr_repne_scasb s 0 SIZE_MAX m"

definition strncpy :: "u64 \<Rightarrow> u64 \<Rightarrow> u64 \<Rightarrow> mem \<Rightarrow> u64 \<times> mem" where
  "strncpy s1 s2 n m = (let
     s2_len = memchr_repne_scasb s2 0 n m;
     fill_len = n - s2_len;
     m = memcpy_rep_movsb s1 s2 s2_len m;
     m = (if fill_len \<noteq> 0 then memset_rep_stosb (s1 + s2_len) 0 fill_len m else m)
   in (s1, m))"

definition strcpy :: "u64 \<Rightarrow> u64 \<Rightarrow> mem \<Rightarrow> u64 \<times> mem" where
  "strcpy s1 s2 m = strncpy s1 s2 (strlen s2 m) m"

definition strncat :: "u64 \<Rightarrow> u64 \<Rightarrow> u64 \<Rightarrow> mem \<Rightarrow> u64 \<times> mem" where
  "strncat s1 s2 n m = (let
     s1_len = memchr_repne_scasb s1 0 SIZE_MAX m;
     s2_len = memchr_repne_scasb s2 0 n m;
     m = memcpy_rep_movsb (s1 + s1_len) s2 s2_len m;
     m = m(s1 + (s1_len + s2_len) := 0)
   in (s1, m))"

definition strcat :: "u64 \<Rightarrow> u64 \<Rightarrow> mem \<Rightarrow> u64 \<times> mem" where
  "strcat s1 s2 m = strncat s1 s2 SIZE_MAX m"

text \<open>\<open>memset\<close> converts its \<open>int\<close> argument to a byte.\<close>

definition memset :: "u64 \<Rightarrow> u32 \<Rightarrow> u64 \<Rightarrow> mem \<Rightarrow> u64 \<times> mem" where
  "memset s c n m = (s, memset_rep_stosb s (ucast c) n m)"

section \<open>Comparing\<close>

definition memcmp :: "(nat \<Rightarrow> u64 \<Rightarrow> u64 \<Rightarrow> mem \<Rightarrow> nat \<times> mem) \<Rightarrow> u64 \<Rightarrow> u64 \<Rightarrow> u64 \<Rightarrow> mem \<Rightarrow> int \<times> mem" where
  "memcmp rm s1 s2 n m = (let (diff_idx, m) = memcmp_repne_cmpsb rm s1 s2 n m
   in if n = diff_idx then (0, m)
      else (let c1 = m (s1 + diff_idx); c2 = m (s2 + diff_idx)
        in if c1 = c2 then (0, m) else (if c1 > c2 then 1 else - 1, m)))"

definition strncmp :: "(nat \<Rightarrow> u64 \<Rightarrow> u64 \<Rightarrow> mem \<Rightarrow> nat \<times> mem) \<Rightarrow> u64 \<Rightarrow> u64 \<Rightarrow> u64 \<Rightarrow> mem \<Rightarrow> int \<times> mem" where
  "strncmp rm s1 s2 n m = (let
     s1_cmp_size = memchr_repne_scasb s1 0 n m;
     s2_cmp_size = memchr_repne_scasb s2 0 n m;
     cmp_size = (if s1_cmp_size < s2_cmp_size then s1_cmp_size else s2_cmp_size)
   in memcmp rm s1 s2 (cmp_size + 1) m)"

definition strcmp :: "(nat \<Rightarrow> u64 \<Rightarrow> u64 \<Rightarrow> mem \<Rightarrow> nat \<times> mem) \<Rightarrow> u64 \<Rightarrow> u64 \<Rightarrow> mem \<Rightarrow> int \<times> mem" where
  "strcmp rm s1 s2 m = strncmp rm s1 s2 SIZE_MAX m"

definition strcoll :: "(nat \<Rightarrow> u64 \<Rightarrow> u64 \<Rightarrow> mem \<Rightarrow> nat \<times> mem) \<Rightarrow> u64 \<Rightarrow> u64 \<Rightarrow> mem \<Rightarrow> int \<times> mem" where
  "strcoll rm s1 s2 m = strcmp rm s1 s2 m"

definition strxfrm :: "u64 \<Rightarrow> u64 \<Rightarrow> u64 \<Rightarrow> mem \<Rightarrow> u64 \<times> mem" where
  "strxfrm s1 s2 n m = (let m = (if n = 0 \<and> s1 = 0 then m else snd (strncpy s1 s2 n m)) in (strlen s2 m, m))"

section \<open>Searching\<close>

definition memchr :: "u64 \<Rightarrow> u32 \<Rightarrow> u64 \<Rightarrow> mem \<Rightarrow> u64" where
  "memchr s c n m = (let idx = memchr_repne_scasb s (ucast c) n m in if idx = n then 0 else s + idx)"

definition strchr :: "u64 \<Rightarrow> u32 \<Rightarrow> mem \<Rightarrow> u64" where
  "strchr s c m = memchr s c (strlen s m + 1) m"

text \<open>The table \<open>s2_map\<close> of the characters of a string.\<close>

function s2_map_loop :: "mem \<Rightarrow> u64 \<Rightarrow> u64 \<Rightarrow> u64 \<Rightarrow> (u8 \<Rightarrow> bool) \<Rightarrow> u8 \<Rightarrow> bool" where
  "s2_map_loop m s2 s2_len i tab =
     (if i < s2_len then s2_map_loop m s2 s2_len (i + 1) (tab(m (s2 + i) := True)) else tab)"
  by pat_completeness auto
termination
  by (relation "measure (\<lambda>(m, s, l, i, t). unat l - unat i)") (auto simp: word_count_up)

definition s2_map :: "u64 \<Rightarrow> mem \<Rightarrow> u8 \<Rightarrow> bool" where
  "s2_map s2 m = s2_map_loop m s2 (strlen s2 m) 0 (\<lambda>_. False)"

text \<open>The scan of \<open>strcspn\<close>, \<open>strpbrk\<close> and \<open>strspn\<close>: up to the first character with the property.\<close>

function scan_loop :: "(u8 \<Rightarrow> bool) \<Rightarrow> mem \<Rightarrow> u64 \<Rightarrow> u64 \<Rightarrow> u64 \<Rightarrow> u64" where
  "scan_loop P m s len ret =
     (if ret < len then if P (m (s + ret)) then ret else scan_loop P m s len (ret + 1) else ret)"
  by pat_completeness auto
termination
  by (relation "measure (\<lambda>(P, m, s, l, i). unat l - unat i)") (auto simp: word_count_up)

definition strcspn :: "u64 \<Rightarrow> u64 \<Rightarrow> mem \<Rightarrow> u64" where
  "strcspn s1 s2 m = scan_loop (s2_map s2 m) m s1 (strlen s1 m) 0"

definition strpbrk :: "u64 \<Rightarrow> u64 \<Rightarrow> mem \<Rightarrow> u64" where
  "strpbrk s1 s2 m = (let
     s1_len = strlen s1 m;
     i = scan_loop (s2_map s2 m) m s1 s1_len 0
   in if i < s1_len then s1 + i else 0)"

definition strspn :: "u64 \<Rightarrow> u64 \<Rightarrow> mem \<Rightarrow> u64" where
  "strspn s1 s2 m = scan_loop (\<lambda>c. \<not> s2_map s2 m c) m s1 (strlen s1 m) 0"

text \<open>A \<open>char\<close> is signed and \<open>c\<close> is an \<open>unsigned char\<close>; both are widened for the comparison.\<close>

function strrchr_loop :: "mem \<Rightarrow> u64 \<Rightarrow> u8 \<Rightarrow> u64 \<Rightarrow> u64" where
  "strrchr_loop m s c i =
     (if i > 0 then if (scast (m (s + i)) :: u32) = ucast c then s + i else strrchr_loop m s c (i - 1)
      else if (scast (m s) :: u32) = ucast c then s else 0)"
  by pat_completeness auto
termination
  by (relation "measure (\<lambda>(m, s, c, i). unat i)") (auto simp: unat_minus_one unat_gt_0 word_gt_0)

definition strrchr :: "u64 \<Rightarrow> u32 \<Rightarrow> mem \<Rightarrow> u64" where
  "strrchr s c m = strrchr_loop m s (ucast c) (strlen s m)"

function strstr_loop ::
    "(nat \<Rightarrow> u64 \<Rightarrow> u64 \<Rightarrow> mem \<Rightarrow> nat \<times> mem) \<Rightarrow> u64 \<Rightarrow> u64 \<Rightarrow> u64 \<Rightarrow> u64 \<Rightarrow> u64 \<Rightarrow> mem \<Rightarrow> u64 \<times> mem" where
  "strstr_loop rm s1 s2 s2_len bnd i m =
     (if i \<le> bnd then (let (c, m) = strncmp rm (s1 + i) s2 s2_len m
        in if c = 0 then (s1 + i, m)
           else if i < bnd then strstr_loop rm s1 s2 s2_len bnd (i + 1) m else (0, m))
      else (0, m))"
  by pat_completeness auto
termination
  by (relation "measure (\<lambda>(rm, s1, s2, l, b, i, m). unat b - unat i)") (auto simp: word_count_up)

definition strstr :: "(nat \<Rightarrow> u64 \<Rightarrow> u64 \<Rightarrow> mem \<Rightarrow> nat \<times> mem) \<Rightarrow> u64 \<Rightarrow> u64 \<Rightarrow> mem \<Rightarrow> u64 \<times> mem" where
  "strstr rm s1 s2 m = (let s1_len = strlen s1 m; s2_len = strlen s2 m
   in if s2_len = 0 then (s1, m)
      else if s2_len > s1_len then (0, m)
      else strstr_loop rm s1 s2 s2_len (s1_len - s2_len) 0 m)"

definition strtok :: "u64 \<Rightarrow> u64 \<Rightarrow> u64 \<Rightarrow> mem \<Rightarrow> u64 \<times> u64 \<times> mem" where
  "strtok s1 s2 saved m = (let
     tab = s2_map s2 m;
     s = (if s1 \<noteq> 0 then s1 else saved)
   in if s = 0 then (0, saved, m)
      else (let
        s_len = strlen s m;
        i = scan_loop (\<lambda>c. \<not> tab c) m s s_len 0
      in if \<not> i < s_len then (0, saved, m)
         else (let
           s_len = s_len - i;
           ret = s + i;
           j = scan_loop tab m ret s_len 0
         in if j < s_len then (ret, ret + (j + 1), m(ret + j := 0)) else (ret, 0, m))))"

section \<open>Errors\<close>

definition ERROR_END :: u32 where "ERROR_END = 10"
definition EINVAL :: u32 where "EINVAL = 1"
definition ENOENT :: u32 where "ENOENT = 2"
definition ENOMEM :: u32 where "ENOMEM = 3"
definition EPERM :: u32 where "EPERM = 4"
definition EDOM :: u32 where "EDOM = ERROR_END + 1"
definition EILSEQ :: u32 where "EILSEQ = ERROR_END + 2"
definition ERANGE :: u32 where "ERANGE = ERROR_END + 3"
definition EOVERFLOW :: u32 where "EOVERFLOW = ERROR_END + 4"

definition strerror :: "u32 \<Rightarrow> string" where
  "strerror errnum =
     (if errnum = 0 then ''OK''
      else if errnum = ENOMEM then ''Out of memory''
      else if errnum = EPERM then ''Forbidden''
      else if errnum = EINVAL then ''Invalid argument''
      else if errnum = ENOENT then ''No entity''
      else if errnum = EDOM then ''EDOM''
      else if errnum = EILSEQ then ''EILSEQ''
      else if errnum = ERANGE then ''Range error;''
      else if errnum = EOVERFLOW then ''Overflow''
      else ''Unknown error'')"

section \<open>Strings in memory\<close>

declare s2_map_loop.simps [simp del] scan_loop.simps [simp del] strrchr_loop.simps [simp del] strstr_loop.simps [simp del]

text \<open>The string \<open>xs\<close>, with its terminator, stands at \<open>p\<close>.\<close>

definition cstr_at :: "mem \<Rightarrow> u64 \<Rightarrow> u8 list \<Rightarrow> bool" where
  "cstr_at m p xs \<longleftrightarrow> bytes_at m p (Suc (length xs)) = xs @ [0] \<and> 0 \<notin> set xs \<and> Suc (length xs) < 2 ^ 64"

lemma bytes_at_append: "bytes_at m p (a + b) = bytes_at m p a @ bytes_at m (p + of_nat a) b"
  by (rule nth_equalityI) (auto simp: nth_append add.assoc simp flip: of_nat_add)

lemma cstr_at_nth:
  assumes "cstr_at m p xs" "i \<le> length xs"
  shows "m (p + of_nat i) = (xs @ [0]) ! i"
proof -
  have "bytes_at m p (Suc (length xs)) ! i = (xs @ [0]) ! i" using assms(1) by (simp add: cstr_at_def)
  then show ?thesis using assms(2) by simp
qed

lemma cstr_at_end:
  assumes "cstr_at m p xs" and that: "i \<le> length xs"
  shows "m (p + of_nat i) = 0 \<longleftrightarrow> i = length xs"
proof (cases "i = length xs")
  case True
  then show ?thesis using cstr_at_nth[OF assms] by simp
next
  case False
  then have "i < length xs" using that by simp
  moreover have "0 \<notin> set xs" using assms(1) by (simp add: cstr_at_def)
  ultimately show ?thesis using cstr_at_nth[OF assms] False nth_mem[of i xs] by (metis nth_append)
qed

lemma memchr_impl_nat:
  "unat (memchr_repne_scasb s c n m) = (if \<exists>i<unat n. m (s + of_nat i) = c then Suc (LEAST i. m (s + of_nat i) = c) else unat n)"
proof -
  have le: "repne_scasb k s c m \<le> k" for k s by (induction k arbitrary: s) (auto intro: le_SucI)
  have "unat (n - of_nat (repne_scasb (unat n) s c m)) = unat n - repne_scasb (unat n) s c m"
    using le[of "unat n" s] unat_u64_less[of n] by (subst unat_sub) (auto simp: word_le_nat_alt unat_of_nat)
  then show ?thesis by (simp only: memchr_repne_scasb_def repne_scasb_spec)
qed

lemma memchr_impl_cstr:
  assumes "cstr_at m s xs"
  shows "unat (memchr_repne_scasb s 0 n m) = min (unat n) (Suc (length xs))"
proof -
  have L: "(LEAST i. m (s + of_nat i) = 0) = length xs"
    by (rule Least_equality) (use cstr_at_end[OF assms] linear in auto)
  have "(\<exists>i<unat n. m (s + of_nat i) = 0) \<longleftrightarrow> length xs < unat n"
    using cstr_at_end[OF assms] by (metis linorder_not_less order.strict_trans2 order_refl less_or_eq_imp_le)
  then show ?thesis unfolding memchr_impl_nat L by (auto simp: min_def)
qed

lemma unat_SIZE_MAX: "unat SIZE_MAX = 2 ^ 64 - 1"
  using unat_minus_one[of "0 :: u64"] unat_sub_if'[of 0 "1 :: u64"] by (simp add: SIZE_MAX_def)

text \<open>\<open>strlen\<close> counts the terminator.\<close>

lemma strlen_cstr:
  assumes "cstr_at m s xs" shows "unat (strlen s m) = Suc (length xs)"
  using memchr_impl_cstr[OF assms, of SIZE_MAX] assms by (simp add: strlen_def unat_SIZE_MAX cstr_at_def)

lemma u64_offset:
  fixes a p :: u64
  obtains i where "a = p + of_nat i" "i < 2 ^ 64"
  using that[of "unat (a - p)"] unat_u64_less[of "a - p"] by simp

lemma offset_minus:
  assumes "i < 2 ^ 64" "k < 2 ^ 64"
  shows "unat (p + of_nat i - (p + of_nat k) :: u64) = (if k \<le> i then i - k else 2 ^ 64 + i - k)"
proof -
  have "p + of_nat i - (p + of_nat k) = of_nat i - (of_nat k :: u64)" by simp
  then show ?thesis using assms by (simp add: unat_sub_if' word_le_nat_alt unat_of_nat) linarith
qed

lemma filled_at:
  assumes "i < 2 ^ 64" "k < 2 ^ 64" "k + n \<le> 2 ^ 64"
  shows "filled n (p + of_nat k) c m (p + of_nat i) = (if k \<le> i \<and> i < k + n then c else m (p + of_nat i))"
  using assms unfolding filled_def offset_minus[OF assms(1,2)] by auto

lemma copied_at:
  assumes "i < 2 ^ 64" "k < 2 ^ 64" "k + n \<le> 2 ^ 64"
  shows "copied n (p + of_nat k) q m (p + of_nat i) =
    (if k \<le> i \<and> i < k + n then m (q + of_nat (i - k)) else m (p + of_nat i))"
proof -
  have "p + of_nat i - (p + of_nat k) = of_nat (i - k)" if "k \<le> i" using that by (simp add: of_nat_diff)
  then show ?thesis using assms unfolding copied_def offset_minus[OF assms(1,2)] by auto
qed

lemma strncpy_at:
  assumes c: "cstr_at m s2 xs" and f: "min (unat n) (Suc (length xs)) \<le> unat (s1 - s2)" and i: "i < 2 ^ 64"
  shows "snd (strncpy s1 s2 n m) (s1 + of_nat i) =
    (if i < unat n then if i \<le> length xs then (xs @ [0]) ! i else 0 else m (s1 + of_nat i))"
proof -
  let ?l = "memchr_repne_scasb s2 0 n m"
  define k where "k = min (unat n) (Suc (length xs))"
  have k: "unat ?l = k" unfolding k_def by (rule memchr_impl_cstr[OF c])
  then have le: "?l \<le> n" by (simp add: word_le_nat_alt k_def)
  have n: "unat n < 2 ^ 64" "k \<le> unat n" using unat_u64_less[of n] by (simp_all add: k_def)
  have d: "unat (n - ?l) = unat n - k" using unat_sub_le[OF le] k by simp
  have l: "?l = of_nat k" using k by (metis word_unat_eq_iff of_nat_unat ucast_id)
  have m1: "memcpy_rep_movsb s1 s2 ?l m = copied k (s1 + of_nat 0) s2 m"
    unfolding memcpy_rep_movsb_def k using f n by (subst rep_movsb_copied) (auto simp: k_def)
  have m2: "memset_rep_stosb (s1 + ?l) 0 (n - ?l) m' = filled (unat n - k) (s1 + of_nat k) 0 m'" for m'
    unfolding memset_rep_stosb_def d using l n by (subst rep_stosb_filled) auto
  have "n - ?l \<noteq> 0 \<longleftrightarrow> k < unat n" using d n(2) by (metis unat_eq_0 zero_less_diff not_gr_zero)
  then have "snd (strncpy s1 s2 n m) = (if k < unat n then filled (unat n - k) (s1 + of_nat k) 0 (copied k (s1 + of_nat 0) s2 m)
      else copied k (s1 + of_nat 0) s2 m)"
    by (simp only: strncpy_def Let_def m1 m2 snd_conv)
  moreover have "copied k (s1 + of_nat 0) s2 m (s1 + of_nat i) = (if i < k then m (s2 + of_nat i) else m (s1 + of_nat i))"
    using copied_at[of i 0 k s1 s2 m] i n by simp
  moreover have "m (s2 + of_nat i) = (xs @ [0]) ! i" if "i < k" using cstr_at_nth[OF c] that by (simp add: k_def)
  ultimately show ?thesis using filled_at[of i k "unat n - k" s1 0] i n
    by (auto simp: k_def min_def split: if_splits)
qed

text \<open>A list stands at an address when each of its bytes does.\<close>

lemma bytes_atI:
  assumes "length ys = n" "\<And>i. i < n \<Longrightarrow> m (p + of_nat i) = ys ! i"
  shows "bytes_at m p n = ys"
  by (rule nth_equalityI) (use assms in auto)

lemma strcpy_at:
  assumes c: "cstr_at m s2 xs" and f: "Suc (length xs) \<le> unat (s1 - s2)" and i: "i < 2 ^ 64"
  shows "snd (strcpy s1 s2 m) (s1 + of_nat i) = (if i \<le> length xs then (xs @ [0]) ! i else m (s1 + of_nat i))"
  unfolding strcpy_def using strncpy_at[OF c _ i, of "strlen s2 m" s1] f by (simp add: strlen_cstr[OF c] less_Suc_eq_le)

lemma strcat_at:
  assumes x: "cstr_at m s1 xs" and y: "cstr_at m s2 ys"
    and f: "Suc (length ys) \<le> unat (s1 + of_nat (Suc (length xs)) - s2)" "length xs + length ys + 3 \<le> 2 ^ 64"
    and i: "i < 2 ^ 64"
  shows "snd (strcat s1 s2 m) (s1 + of_nat i) =
    (if length xs < i \<and> i \<le> length xs + length ys + 1 then (ys @ [0]) ! (i - Suc (length xs))
     else if i = length xs + length ys + 2 then 0 else m (s1 + of_nat i))"
proof -
  let ?a = "Suc (length xs)" and ?b = "Suc (length ys)"
  have a: "memchr_repne_scasb s1 0 SIZE_MAX m = of_nat ?a"
    using strlen_cstr[OF x] unfolding strlen_def by (metis of_nat_unat ucast_id)
  have b: "memchr_repne_scasb s2 0 SIZE_MAX m = of_nat ?b"
    using strlen_cstr[OF y] unfolding strlen_def by (metis of_nat_unat ucast_id)
  have ub: "unat (of_nat ?b :: u64) = ?b" using f(2) by (simp add: unat_of_nat del: of_nat_Suc)
  have c: "memcpy_rep_movsb (s1 + of_nat ?a) s2 (of_nat ?b) m = copied ?b (s1 + of_nat ?a) s2 m"
    unfolding memcpy_rep_movsb_def ub using f by (intro rep_movsb_copied) auto
  have "snd (strcat s1 s2 m) = (copied ?b (s1 + of_nat ?a) s2 m)(s1 + of_nat (?a + ?b) := 0)"
    unfolding strcat_def strncat_def Let_def a b c snd_conv of_nat_add ..
  moreover have "s1 + of_nat i = s1 + of_nat (?a + ?b) \<longleftrightarrow> i = ?a + ?b"
    using word_add_of_nat_eq_iff[of i "?a + ?b" s1] i f(2) by simp
  moreover have "copied ?b (s1 + of_nat ?a) s2 m (s1 + of_nat i) =
      (if ?a \<le> i \<and> i < ?a + ?b then m (s2 + of_nat (i - ?a)) else m (s1 + of_nat i))"
    by (rule copied_at[OF i]) (use f(2) in auto)
  moreover have "m (s2 + of_nat (i - ?a)) = (ys @ [0]) ! (i - ?a)" if "i < ?a + ?b"
    using cstr_at_nth[OF y, of "i - ?a"] that by simp
  ultimately show ?thesis by auto
qed

section \<open>Searching\<close>

lemma s2_map_loop_spec:
  "i \<le> n \<Longrightarrow> s2_map_loop m s n i tab c \<longleftrightarrow> tab c \<or> c \<in> set (bytes_at m (s + i) (unat n - unat i))"
proof (induction m s n i tab arbitrary: c rule: s2_map_loop.induct)
  case (1 m s n i tab)
  show ?case
  proof (cases "i < n")
    case True
    then have "i + 1 \<le> n" by (simp add: inc_le)
    note IH = "1.IH"[OF True this, of c]
    show ?thesis unfolding s2_map_loop.simps[of m s n i tab] bytes_at_step[OF True] if_P[OF True] IH by auto
  next
    case False
    then have "i = n" using "1.prems" by simp
    then show ?thesis by (simp add: s2_map_loop.simps bytes_at_done)
  qed
qed

lemma scan_loop_spec:
  "i \<le> n \<Longrightarrow> unat (scan_loop P m s n i) = unat i + length (takeWhile (\<lambda>c. \<not> P c) (bytes_at m (s + i) (unat n - unat i)))"
proof (induction P m s n i rule: scan_loop.induct)
  case (1 P m s n i)
  show ?case
  proof (cases "i < n")
    case True
    then have "i + 1 \<le> n" by (simp add: inc_le)
    then show ?thesis unfolding scan_loop.simps[of P m s n i] bytes_at_step[OF True]
      using "1.IH"[OF True] True unat_inc[OF True] by (cases "P (m (s + i))") auto
  next
    case False
    then have "i = n" using "1.prems" by simp
    then show ?thesis by (simp add: scan_loop.simps bytes_at_done)
  qed
qed

lemma s2_map_cstr: "cstr_at m s2 ys \<Longrightarrow> s2_map s2 m c \<longleftrightarrow> c \<in> set ys \<or> c = 0"
  using s2_map_loop_spec[of 0 "strlen s2 m" m s2 "\<lambda>_. False" c] by (auto simp: s2_map_def strlen_cstr cstr_at_def)

lemma scan_cstr:
  "cstr_at m s xs \<Longrightarrow> unat (scan_loop P m s (strlen s m) 0) = length (takeWhile (\<lambda>c. \<not> P c) (xs @ [0]))"
  using scan_loop_spec[of 0 "strlen s m" P m s] by (simp add: strlen_cstr cstr_at_def)

lemma strcspn_cstr:
  assumes "cstr_at m s1 xs" "cstr_at m s2 ys"
  shows "unat (strcspn s1 s2 m) = length (takeWhile (\<lambda>c. c \<notin> set ys) xs)"
proof -
  have "takeWhile (\<lambda>c. \<not> s2_map s2 m c) (xs @ [0]) = takeWhile (\<lambda>c. c \<notin> set ys) xs"
  proof -
    have "0 \<notin> set xs" using assms(1) by (simp add: cstr_at_def)
    then have "takeWhile (\<lambda>c. c \<notin> set ys \<and> c \<noteq> 0) xs = takeWhile (\<lambda>c. c \<notin> set ys) xs" by (intro takeWhile_cong) auto
    moreover have "takeWhile P (zs @ [0]) = takeWhile P zs" if "\<not> P 0" for P and zs :: "u8 list"
      using that by (induction zs) auto
    ultimately show ?thesis by (simp add: s2_map_cstr[OF assms(2)])
  qed
  then show ?thesis unfolding strcspn_def scan_cstr[OF assms(1)] by simp
qed

lemma strspn_cstr:
  assumes "cstr_at m s1 xs" "cstr_at m s2 ys"
  shows "unat (strspn s1 s2 m) =
    (if set xs \<subseteq> set ys then Suc (length xs) else length (takeWhile (\<lambda>c. c \<in> set ys) xs))"
proof -
  have "0 \<notin> set xs" using assms(1) by (simp add: cstr_at_def)
  then have "takeWhile (\<lambda>c. c \<in> set ys \<or> c = 0) xs = takeWhile (\<lambda>c. c \<in> set ys) xs" by (intro takeWhile_cong) auto
  moreover have "length (takeWhile P (zs @ [0])) = (if \<forall>z \<in> set zs. P z then Suc (length zs) else length (takeWhile P zs))"
    if "P 0" for P and zs :: "u8 list"
    using that by (induction zs) auto
  moreover have "(\<forall>z \<in> set xs. z \<in> set ys \<or> z = 0) \<longleftrightarrow> set xs \<subseteq> set ys" using \<open>0 \<notin> set xs\<close> by auto
  ultimately show ?thesis unfolding strspn_def scan_cstr[OF assms(1)] by (simp add: s2_map_cstr[OF assms(2)])
qed

section \<open>Moving\<close>

text \<open>Copies in blocks of \<open>k\<close> bytes from the front are one copy from the front.\<close>

lemma memmove_up_eq:
  assumes "0 < overlap" "unat n + unat overlap < 2 ^ 64"
  shows "memmove_up s1 s2 n overlap moved m = Some (rep_movsb (unat n - unat moved) (s1 + moved) (s2 + moved) m)"
proof (induction "unat n - unat moved" arbitrary: moved m rule: less_induct)
  case less
  show ?case
  proof (cases "moved < n")
    case False
    then show ?thesis by (simp add: memmove_up.simps word_less_nat_alt)
  next
    case True
    define c where "c = (if n - moved < overlap then n - moved else overlap)"
    have um: "unat moved < unat n" using True by (simp add: word_less_nat_alt)
    have nm: "unat (n - moved) = unat n - unat moved" using True by (simp add: unat_sub_le)
    have mo: "unat (moved + overlap) = unat moved + unat overlap" using um assms(2) by (intro unat_add_no_wrap) simp
    have c: "unat c = min (unat n - unat moved) (unat overlap)" by (simp add: c_def nm word_less_nat_alt min_def)
    have o: "0 < unat overlap" using assms(1) by (simp add: unat_gt_0 word_gt_0)
    have "memmove_up s1 s2 n overlap moved m = memmove_up s1 s2 n overlap (moved + overlap) (rep_movsb (unat c) (s1 + moved) (s2 + moved) m)"
      using True by (subst memmove_up.simps) (simp add: memcpy_rep_movsb_def Let_def c_def)
    also have "\<dots> = Some (rep_movsb (unat n - unat (moved + overlap)) (s1 + (moved + overlap)) (s2 + (moved + overlap))
        (rep_movsb (unat c) (s1 + moved) (s2 + moved) m))"
      by (rule less.hyps) (use um o mo in auto)
    also have "\<dots> = Some (rep_movsb (unat n - unat moved) (s1 + moved) (s2 + moved) m)"
    proof (cases "unat n - unat moved \<le> unat overlap")
      case True
      then show ?thesis using c mo by (simp add: min_def)
    next
      case False
      then have "unat n - unat moved = unat overlap + (unat n - unat (moved + overlap))" "unat c = unat overlap" using mo c by simp_all
      then show ?thesis using rep_movsb_append[of "unat overlap" "unat n - unat (moved + overlap)" "s1 + moved" "s2 + moved" m]
        by (simp add: add.assoc of_nat_unat ucast_id)
    qed
    finally show ?thesis .
  qed
qed

text \<open>A block that is copied below a copied block extends it.\<close>

lemma copied_below:
  assumes d: "c \<le> unat (P - Q)" "c + k + unat (P - Q) \<le> 2 ^ 64"
  shows "copied c P Q (copied k (P + of_nat c) (Q + of_nat c) m) = copied (c + k) P Q m"
proof
  fix a
  let ?d = "unat (P - Q)"
  obtain i where a: "a = P + of_nat i" "i < 2 ^ 64" using u64_offset by blast
  have c64: "c < 2 ^ 64" using d(1) unat_u64_less[of "P - Q"] by simp
  have inner: "copied k (P + of_nat c) (Q + of_nat c) m (P + of_nat j) =
      (if c \<le> j \<and> j < c + k then m (Q + of_nat j) else m (P + of_nat j))" if "j < 2 ^ 64" for j
    using copied_at[OF that c64, of k P "Q + of_nat c" m] d by (auto simp: add.assoc simp flip: of_nat_add)
  have q: "Q + of_nat i = P + of_nat (2 ^ 64 - ?d + i)" if "i < c"
  proof -
    have "of_nat (2 ^ 64 - ?d + i) = of_nat (2 ^ 64) - of_nat ?d + (of_nat i :: u64)"
      using unat_u64_less[of "P - Q"] by (simp add: of_nat_diff)
    moreover have "of_nat (2 ^ 64) = (0 :: u64)" using word_exp_length_eq_0[where 'a = 64] by simp
    ultimately show ?thesis by simp
  qed
  have "copied k (P + of_nat c) (Q + of_nat c) m (Q + of_nat i) = m (Q + of_nat i)" if "i < c"
  proof -
    have "2 ^ 64 - ?d + i < 2 ^ 64" "\<not> 2 ^ 64 - ?d + i < c + k" using that d by auto
    then show ?thesis unfolding q[OF that] using inner[of "2 ^ 64 - ?d + i"] by (simp only: simp_thms if_False)
  qed
  then show "copied c P Q (copied k (P + of_nat c) (Q + of_nat c) m) a = copied (c + k) P Q m a"
    using copied_at[of i 0 c P Q] copied_at[of i 0 "c + k" P Q m] inner[OF a(2)] a d c64 by auto
qed

lemma memmove_down_eq:
  fixes overlap n :: u64
  assumes o: "0 < overlap" "unat n + unat overlap < 2 ^ 64" "unat overlap \<le> unat (s1 - s2)" "unat n + unat (s1 - s2) \<le> 2 ^ 64"
  defines "K \<equiv> \<lambda>moved :: u64. min (unat moved) (unat n)"
  shows "memmove_down s1 s2 n overlap moved (copied (K moved) (s1 + of_nat (unat n - K moved)) (s2 + of_nat (unat n - K moved)) m)
    = Some (copied (unat n) s1 s2 m)"
proof (induction "unat n - unat moved" arbitrary: moved rule: less_induct)
  case less
  let ?N = "unat n"
  show ?case
  proof (cases "moved < n")
    case False
    then have "K moved = ?N" by (simp add: K_def word_less_nat_alt min_def)
    then show ?thesis using False by (simp add: memmove_down.simps)
  next
    case True
    define c where "c = (if n - moved < overlap then n - moved else overlap)"
    define k where "k = ?N - unat moved - unat c"
    have um: "unat moved < ?N" using True by (simp add: word_less_nat_alt)
    have nm: "unat (n - moved) = ?N - unat moved" using True by (simp add: unat_sub_le)
    have mo: "unat (moved + overlap) = unat moved + unat overlap" using um o(2) by (intro unat_add_no_wrap) simp
    have c: "unat c = min (?N - unat moved) (unat overlap)" by (simp add: c_def nm word_less_nat_alt min_def)
    have ov: "0 < unat overlap" using o(1) by (simp add: unat_gt_0 word_gt_0)
    have K: "K moved = unat moved" "K (moved + overlap) = unat c + unat moved" "?N - (unat c + unat moved) = k"
      using um c mo by (auto simp: K_def k_def min_def)
    have kc: "?N - unat moved = k + unat c" "k + unat c + unat moved = ?N" using um c by (auto simp: k_def)
    have p: "s + n - moved = s + of_nat k + of_nat (unat c)" "s + n - moved - c = s + of_nat k" for s :: u64
    proof -
      have "n - moved = of_nat (k + unat c)" using kc(1) nm by (metis of_nat_unat ucast_id)
      then show e: "s + n - moved = s + of_nat k + of_nat (unat c)" by (simp add: add_diff_eq[symmetric] add.assoc)
      show "s + n - moved - c = s + of_nat k" unfolding e by simp
    qed
    have pq: "unat (s1 + of_nat k - (s2 + of_nat k)) = unat (s1 - s2)" by simp
    let ?m = "\<lambda>k p q. copied k p q m"
    have "memcpy_rep_movsb (s1 + of_nat k) (s2 + of_nat k) c (?m (unat moved) (s1 + of_nat k + of_nat (unat c)) (s2 + of_nat k + of_nat (unat c)))
        = ?m (unat c + unat moved) (s1 + of_nat k) (s2 + of_nat k)"
    proof -
      have "rep_movsb (unat c) (s1 + of_nat k) (s2 + of_nat k) m' = copied (unat c) (s1 + of_nat k) (s2 + of_nat k) m'" for m'
        by (rule rep_movsb_copied) (use c o(3) pq unat_u64_less[of c] in auto)
      moreover have "copied (unat c) (s1 + of_nat k) (s2 + of_nat k)
          (?m (unat moved) (s1 + of_nat k + of_nat (unat c)) (s2 + of_nat k + of_nat (unat c)))
          = ?m (unat c + unat moved) (s1 + of_nat k) (s2 + of_nat k)"
        by (rule copied_below) (use c o kc pq in auto)
      ultimately show ?thesis by (simp only: memcpy_rep_movsb_def)
    qed
    moreover have "s + of_nat (?N - K moved) = s + of_nat k + of_nat (unat c)" for s :: u64
      unfolding K kc(1) by (simp add: add.assoc)
    moreover have "memmove_down s1 s2 n overlap moved x =
        memmove_down s1 s2 n overlap (moved + overlap) (memcpy_rep_movsb (s1 + of_nat k) (s2 + of_nat k) c x)" for x
      by (subst memmove_down.simps) (simp only: Let_def if_P[OF True] c_def[symmetric] p(2))
    ultimately have "memmove_down s1 s2 n overlap moved (copied (K moved) (s1 + of_nat (?N - K moved)) (s2 + of_nat (?N - K moved)) m) =
        memmove_down s1 s2 n overlap (moved + overlap) (?m (K (moved + overlap)) (s1 + of_nat (?N - K (moved + overlap))) (s2 + of_nat (?N - K (moved + overlap))))"
      unfolding K by (simp only:)
    also have "\<dots> = Some (copied ?N s1 s2 m)" by (rule less) (use um ov mo in simp)
    finally show ?thesis .
  qed
qed

text \<open>\<open>memmove\<close> moves a block that lies \<open>d\<close> bytes below its destination if it is at most \<open>2 * d\<close> bytes long.\<close>

lemma memmove_copied:
  assumes w: "unat s1 + unat n < 2 ^ 64" "unat s2 + unat n < 2 ^ 64" "unat n \<le> 2 ^ 63"
    and c: "s1 \<le> s2 \<or> unat n \<le> 2 * (unat s1 - unat s2)"
  shows "memmove s1 s2 n m = Some (s1, copied (unat n) s1 s2 m)"
proof -
  have e: "unat (s1 + n) = unat s1 + unat n" "unat (s2 + n) = unat s2 + unat n" using w by (simp_all add: unat_add_no_wrap)
  have cp: "memcpy_rep_movsb s1 s2 n m = copied (unat n) s1 s2 m" if "s1 < s2 \<or> s2 + n \<le> s1"
    unfolding memcpy_rep_movsb_def
    by (rule rep_movsb_copied) (use that w e in \<open>auto simp: unat_sub_if' word_less_nat_alt word_le_nat_alt\<close>)
  consider (eq) "s1 = s2" | (free) "s1 \<noteq> s2" "s1 < s2 \<and> s1 + n \<le> s2 \<or> s2 < s1 \<and> s2 + n \<le> s1"
    | (up) "s1 < s2" "s2 < s1 + n" | (down) "s2 < s1" "s1 < s2 + n" by fastforce
  then show ?thesis
  proof cases
    case eq
    then show ?thesis by (auto simp: memmove_def copied_def fun_eq_iff)
  next
    case free
    then show ?thesis using cp by (auto simp: memmove_def)
  next
    case up
    have o: "unat (s1 + n - s2) = unat s1 + unat n - unat s2" using up e by (simp add: unat_sub_le)
    have "memmove_up s1 s2 n (s1 + n - s2) 0 m = Some (memcpy_rep_movsb s1 s2 n m)"
      using memmove_up_eq[of "s1 + n - s2" n s1 s2 0 m] up e o w by (simp add: word_less_nat_alt memcpy_rep_movsb_def)
    then show ?thesis using up cp by (auto simp: memmove_def)
  next
    case down
    have d: "unat (s1 - s2) = unat s1 - unat s2" using down by (simp add: unat_sub_le)
    have o: "unat (s2 + n - s1) = unat s2 + unat n - unat s1" using down e by (simp add: unat_sub_le)
    have l: "unat s2 < unat s1" "unat s1 < unat s2 + unat n" using down e by (simp_all add: word_less_nat_alt)
    have "copied 0 p q m = m" for p q by (simp add: copied_def)
    then have "memmove_down s1 s2 n (s2 + n - s1) 0 m = Some (copied (unat n) s1 s2 m)"
      using memmove_down_eq[of "s2 + n - s1" n s1 s2 0 m] c l o d w down by (simp add: word_less_nat_alt word_le_nat_alt)
    then show ?thesis using down by (auto simp: memmove_def)
  qed
qed

section \<open>Properties\<close>

text \<open>\<open>memmove\<close> returns and leaves at the destination the bytes the source had, also when the two
  overlap, if the destination is not above the source or at least half the size above it.\<close>

theorem memmove_moves:
  assumes "unat s1 + unat n < 2 ^ 64" "unat s2 + unat n < 2 ^ 64" "unat n \<le> 2 ^ 63"
    and "s1 \<le> s2 \<or> unat n \<le> 2 * (unat s1 - unat s2)"
  shows "\<exists>t. memmove s1 s2 n m = Some (s1, t) \<and> bytes_at t s1 (unat n) = bytes_at m s2 (unat n) \<and>
    (\<forall>a. unat n \<le> unat (a - s1) \<longrightarrow> t a = m a)"
proof -
  have "bytes_at (copied (unat n) s1 s2 m) s1 (unat n) = bytes_at m s2 (unat n)"
    using unat_u64_less[of n] by (intro bytes_atI) (simp_all add: copied_def unat_of_nat)
  then show ?thesis using memmove_copied[OF assms] by (auto simp: copied_def)
qed

theorem memmove_moves_witness:
  "\<exists>t. memmove 12 10 4 (\<lambda>a. ucast a) = Some (12, t) \<and> bytes_at t 12 4 = [10, 11, 12, 13]"
proof -
  have "bytes_at (\<lambda>a. ucast a) (10 :: u64) 4 = [10, 11, 12, 13]" by (simp add: bytes_at_def upt_rec)
  then show ?thesis using memmove_moves[of 12 4 10 "\<lambda>a. ucast a"] by auto
qed

text \<open>\<open>strncpy\<close> fills exactly its \<open>n\<close> bytes, with the string and then with zeros, for every \<open>n\<close>.\<close>

theorem strncpy_pads:
  assumes "cstr_at m s2 xs" and "min (unat n) (Suc (length xs)) \<le> unat (s1 - s2)"
  shows "fst (strncpy s1 s2 n m) = s1 \<and>
    bytes_at (snd (strncpy s1 s2 n m)) s1 (unat n) = take (unat n) (xs @ replicate (unat n) 0) \<and>
    (\<forall>a. unat n \<le> unat (a - s1) \<longrightarrow> snd (strncpy s1 s2 n m) a = m a)"
proof (intro conjI allI impI)
  show "fst (strncpy s1 s2 n m) = s1" by (simp add: strncpy_def Let_def)
  have "snd (strncpy s1 s2 n m) (s1 + of_nat i) = (xs @ replicate (unat n) 0) ! i" if "i < unat n" for i
    using strncpy_at[OF assms, of i] that unat_u64_less[of n] by (auto simp: nth_append)
  then show "bytes_at (snd (strncpy s1 s2 n m)) s1 (unat n) = take (unat n) (xs @ replicate (unat n) 0)"
    by (intro bytes_atI) (simp_all del: take_append)
  fix a
  assume "unat n \<le> unat (a - s1)"
  then show "snd (strncpy s1 s2 n m) a = m a"
    using strncpy_at[OF assms, of "unat (a - s1)"] unat_u64_less[of "a - s1"] by simp
qed

definition demo_text :: mem where
  "demo_text = (\<lambda>a. if a = 0x10 then 104 else if a = 0x11 then 105 else if a = 0x20 then 111 else if a = 0x22 then 7 else 0)"

lemma demo_text_cstr: "cstr_at demo_text 0x10 [104, 105]" "cstr_at demo_text 0x20 [111]"
  by (simp_all add: cstr_at_def demo_text_def bytes_at_def upt_rec)

theorem strncpy_pads_witness:
  "bytes_at (snd (strncpy 0x20 0x10 4 demo_text)) 0x20 4 = [104, 105, 0, 0]"
proof -
  have "replicate 4 0 = [0, 0, 0, 0 :: u8]" by (simp add: numeral_eq_Suc)
  then show ?thesis using strncpy_pads[OF demo_text_cstr(1), of 4 "0x20"] by simp
qed

text \<open>\<open>strcpy\<close> copies a string with its terminator and touches nothing else.  \<open>strcat\<close> does not
  append: it leaves the first string as it is and writes the second one behind its terminator.\<close>

theorem strcpy_strcat:
  assumes y: "cstr_at m s2 ys"
  shows "(Suc (length ys) \<le> unat (s1 - s2) \<longrightarrow> cstr_at (snd (strcpy s1 s2 m)) s1 ys \<and>
      (\<forall>a. length ys < unat (a - s1) \<longrightarrow> snd (strcpy s1 s2 m) a = m a)) \<and>
    (cstr_at m s1 xs \<and> Suc (length ys) \<le> unat (s1 + of_nat (Suc (length xs)) - s2) \<and> length xs + length ys + 3 \<le> 2 ^ 64 \<longrightarrow>
      cstr_at (snd (strcat s1 s2 m)) s1 xs \<and> cstr_at (snd (strcat s1 s2 m)) (s1 + of_nat (Suc (length xs))) ys)"
proof (intro conjI impI allI)
  assume f: "Suc (length ys) \<le> unat (s1 - s2)"
  note c = strcpy_at[OF y f]
  have l: "Suc (length ys) < 2 ^ 64" "0 \<notin> set ys" using y by (simp_all add: cstr_at_def)
  have "bytes_at (snd (strcpy s1 s2 m)) s1 (Suc (length ys)) = ys @ [0]" by (rule bytes_atI) (use c l in auto)
  then show "cstr_at (snd (strcpy s1 s2 m)) s1 ys" using l by (simp add: cstr_at_def)
  show "snd (strcpy s1 s2 m) a = m a" if "length ys < unat (a - s1)" for a
    using c[of "unat (a - s1)"] that unat_u64_less[of "a - s1"] by simp
next
  assume h: "cstr_at m s1 xs \<and> Suc (length ys) \<le> unat (s1 + of_nat (Suc (length xs)) - s2) \<and> length xs + length ys + 3 \<le> 2 ^ 64"
  note c = strcat_at[OF conjunct1[OF h] y conjunct1[OF conjunct2[OF h]] conjunct2[OF conjunct2[OF h]]]
  have l: "0 \<notin> set xs" "0 \<notin> set ys" using h y by (simp_all add: cstr_at_def)
  have x: "m (s1 + of_nat i) = (xs @ [0]) ! i" if "i \<le> length xs" for i using cstr_at_nth[OF conjunct1[OF h] that] .
  have "bytes_at (snd (strcat s1 s2 m)) s1 (Suc (length xs)) = xs @ [0]" by (rule bytes_atI) (use c h x in auto)
  then show "cstr_at (snd (strcat s1 s2 m)) s1 xs" using l h by (simp add: cstr_at_def)
  have "snd (strcat s1 s2 m) (s1 + of_nat (Suc (length xs)) + of_nat i) = (ys @ [0]) ! i" if "i < Suc (length ys)" for i
    using c[of "Suc (length xs) + i"] that h by (simp only: of_nat_add add.assoc) simp
  then have "bytes_at (snd (strcat s1 s2 m)) (s1 + of_nat (Suc (length xs))) (Suc (length ys)) = ys @ [0]"
    by (intro bytes_atI) auto
  then show "cstr_at (snd (strcat s1 s2 m)) (s1 + of_nat (Suc (length xs))) ys" using l h by (simp add: cstr_at_def)
qed

theorem strcpy_strcat_witness:
  "cstr_at (snd (strcpy 0x30 0x20 demo_text)) 0x30 [111] \<and> cstr_at (snd (strcat 0x10 0x20 demo_text)) 0x10 [104, 105]"
  using strcpy_strcat[OF demo_text_cstr(2), of "0x30" "[]"] strcpy_strcat[OF demo_text_cstr(2), of "0x10" "[104, 105]"] demo_text_cstr(1)
  by simp

end
