(* ===== verification/Vga_text.thy ===== *)
theory Vga_text
  imports C_string
begin

text \<open>
  The text console of \<open>kernel/arch/amd64/ig_vga_text.c\<close>: the position of the next character, the
  bytes of the video memory and the position in the registers of the cursor.
\<close>

record vga_state =
  pos_x :: u64
  pos_y :: u64
  vga_mem :: mem
  vga_cursor :: u16

definition DIMX :: u64 where "DIMX = 80"
definition DIMY :: u64 where "DIMY = 25"
definition TAB_WIDTH :: u64 where "TAB_WIDTH = 8"

text \<open>The array of cells.\<close>

definition VMEM :: u64 where
  "VMEM = 0xFFFFFFFF800B8000"

definition vga_text_dim_x :: u64 where "vga_text_dim_x = DIMX"
definition vga_text_dim_y :: u64 where "vga_text_dim_y = DIMY"

definition update_cursor :: "u64 \<Rightarrow> u64 \<Rightarrow> 'a vga_state_scheme \<Rightarrow> 'a vga_state_scheme" where
  "update_cursor x y s = s\<lparr>vga_cursor := ucast (y * DIMX + x)\<rparr>"

definition vga_text_scroll :: "u64 \<Rightarrow> 'a vga_state_scheme \<Rightarrow> 'a vga_state_scheme" where
  "vga_text_scroll lc s = (let
     dst = VMEM;
     src = dst + 2 * (lc * DIMX);
     e = dst + 2 * (DIMX * DIMY);
     s = s\<lparr>vga_mem := kmemmov dst src (e - src) (vga_mem s)\<rparr>;
     src = dst + 2 * ((DIMY - lc) * DIMX);
     s = s\<lparr>vga_mem := kmemset src 0 (e - src) (vga_mem s)\<rparr>;
     s = s\<lparr>pos_y := pos_y s - lc\<rparr>
   in update_cursor (pos_x s) (pos_y s) s)"

definition vga_text_clear :: "'a vga_state_scheme \<Rightarrow> 'a vga_state_scheme" where
  "vga_text_clear s = s\<lparr>vga_mem := kmemset VMEM 0 (DIMX * DIMY * 2) (vga_mem s), pos_x := 0, pos_y := 0\<rparr>"

definition newline :: "'a vga_state_scheme \<Rightarrow> 'a vga_state_scheme" where
  "newline s = (let s = s\<lparr>pos_y := pos_y s + 1, pos_x := 0\<rparr>
     in if pos_y s \<ge> DIMY then vga_text_scroll 1 s else s)"

definition wr16 :: "u64 \<Rightarrow> u16 \<Rightarrow> mem \<Rightarrow> mem" where
  "wr16 a v m = m(a := ucast v, a + 1 := ucast (drop_bit 8 v))"

text \<open>One turn of the loop of \<open>vga_text_write\<close>; \<open>char\<close> is signed and the sum is cut to 16 bits.\<close>

definition vga_put :: "u16 \<Rightarrow> u8 \<Rightarrow> 'a vga_state_scheme \<Rightarrow> 'a vga_state_scheme" where
  "vga_put color c s =
     (if c = 10 then newline s
      else if c = 9
      then (if pos_x s = 0 then s\<lparr>pos_x := TAB_WIDTH\<rparr>
            else s\<lparr>pos_x := ((pos_x s - 1) div TAB_WIDTH + 1) * TAB_WIDTH\<rparr>)
      else (let
        s = s\<lparr>vga_mem := wr16 (VMEM + 2 * (pos_y s * DIMX + pos_x s)) (push_bit 8 color + scast c) (vga_mem s)\<rparr>;
        s = s\<lparr>pos_x := pos_x s + 1\<rparr>
      in if pos_x s \<ge> DIMX then newline s else s))"

definition vga_text_write :: "u64 \<Rightarrow> u64 \<Rightarrow> u8 list \<Rightarrow> 'a vga_state_scheme \<Rightarrow> 'a vga_state_scheme" where
  "vga_text_write fg bg cs s = (let
     color = ucast (fg OR push_bit 8 bg);
     s = fold (vga_put color) cs s
   in update_cursor (pos_x s) (pos_y s) s)"

definition vga_text_init :: "'a vga_state_scheme \<Rightarrow> 'a vga_state_scheme" where
  "vga_text_init s = s\<lparr>pos_x := 0, pos_y := 0\<rparr>"

section \<open>The position\<close>

text \<open>The screen has 80 columns and 25 lines.  A tab can leave the column at 80, which is behind the line:
  \<open>vga_near\<close> admits that.\<close>

definition vga_on_screen :: "'a vga_state_scheme \<Rightarrow> bool" where
  "vga_on_screen s \<longleftrightarrow> pos_x s < 80 \<and> pos_y s < 25"

definition vga_near :: "'a vga_state_scheme \<Rightarrow> bool" where
  "vga_near s \<longleftrightarrow> pos_x s \<le> 80 \<and> pos_y s < 25"

lemmas vga_defs = DIMX_def DIMY_def TAB_WIDTH_def VMEM_def

lemma update_cursor_fields [simp]:
  "pos_x (update_cursor x y s) = pos_x s" "pos_y (update_cursor x y s) = pos_y s"
  "vga_mem (update_cursor x y s) = vga_mem s" "vga_cursor (update_cursor x y s) = ucast (y * DIMX + x)"
  by (simp_all add: update_cursor_def)

text \<open>The lines move up by one and the last one is cleared.\<close>

lemma scroll_mem:
  "vga_mem (vga_text_scroll 1 s) = filled 160 (VMEM + of_nat 3840) 0 (copied 3840 (VMEM + of_nat 0) (VMEM + 160) (vga_mem s))"
proof -
  have "kmemmov VMEM (VMEM + 160) 3840 (vga_mem s) = copied 3840 VMEM (VMEM + 160) (vga_mem s)"
    using kmemmov_copied[of "VMEM + 160" 3840 VMEM "vga_mem s"] by (simp add: VMEM_def)
  then show ?thesis by (simp add: vga_text_scroll_def Let_def DIMX_def DIMY_def kmemset_filled)
qed

lemma scroll_pos: "pos_x (vga_text_scroll lc s) = pos_x s" "pos_y (vga_text_scroll lc s) = pos_y s - lc"
  by (simp_all add: vga_text_scroll_def Let_def)

lemma scroll_at:
  assumes "i < 2 ^ 64"
  shows "vga_mem (vga_text_scroll 1 s) (VMEM + of_nat i) =
    (if i < 3840 then vga_mem s (VMEM + of_nat (i + 160)) else if i < 4000 then 0 else vga_mem s (VMEM + of_nat i))"
  unfolding scroll_mem using filled_at[OF assms, of 3840 160 VMEM 0] copied_at[OF assms, of 0 3840 VMEM "VMEM + 160" "vga_mem s"]
  by (auto simp: ac_simps)

text \<open>Two memories that agree from the byte \<open>n\<close> of the video memory on.\<close>

definition same_from :: "nat \<Rightarrow> mem \<Rightarrow> mem \<Rightarrow> bool" where
  "same_from n m m' \<longleftrightarrow> (\<forall>i. n \<le> i \<and> i < 2 ^ 64 \<longrightarrow> m (VMEM + of_nat i) = m' (VMEM + of_nat i))"

lemma same_from_refl [simp]: "same_from n m m"
  by (simp add: same_from_def)

lemma same_from_trans: "same_from a m m' \<Longrightarrow> same_from b m' m'' \<Longrightarrow> a \<le> n \<Longrightarrow> b \<le> n \<Longrightarrow> same_from n m m''"
  by (simp add: same_from_def)

lemma same_from_scroll [simp]: "same_from 4000 (vga_mem s) (vga_mem (vga_text_scroll 1 s))"
  unfolding same_from_def by (auto simp: scroll_at)

lemma same_from_wr16:
  assumes "k \<le> 2000" shows "same_from (2 * k + 2) m (wr16 (VMEM + 2 * of_nat k) v m)"
proof -
  have e: "VMEM + 2 * of_nat k = VMEM + of_nat (2 * k)" "VMEM + of_nat (2 * k) + 1 = VMEM + of_nat (Suc (2 * k))"
    by (simp_all add: add.commute)
  have "VMEM + of_nat i \<noteq> VMEM + of_nat (2 * k)" "VMEM + of_nat i \<noteq> VMEM + of_nat (Suc (2 * k))" if "2 * k + 2 \<le> i" "i < 2 ^ 64" for i
    using word_add_of_nat_eq_iff[of i "2 * k" VMEM] word_add_of_nat_eq_iff[of i "Suc (2 * k)" VMEM] that assms
    by (simp_all del: of_nat_Suc of_nat_mult)
  then show ?thesis unfolding e same_from_def wr16_def by (simp del: of_nat_Suc of_nat_mult)
qed

lemma newline_facts:
  assumes "pos_y s < 25"
  shows "pos_x (newline s) = 0" "pos_y (newline s) < 25" "same_from 4000 (vga_mem s) (vga_mem (newline s))"
proof -
  let ?t = "s\<lparr>pos_y := pos_y s + 1, pos_x := 0\<rparr>"
  have n: "newline s = (if pos_y s + 1 \<ge> 25 then vga_text_scroll 1 ?t else ?t)" by (simp add: newline_def DIMY_def)
  show "pos_x (newline s) = 0" by (simp add: n scroll_pos)
  show "pos_y (newline s) < 25" using assms by (simp add: n scroll_pos not_le)
  show "same_from 4000 (vga_mem s) (vga_mem (newline s))" using same_from_scroll[of ?t] by (simp add: n)
qed

lemma cell_index:
  assumes "vga_near s"
  obtains k where "k = unat (pos_y s) * 80 + unat (pos_x s)" "k \<le> 2000"
    "VMEM + 2 * (pos_y s * DIMX + pos_x s) = VMEM + 2 * of_nat k"
proof
  have "unat (pos_x s) \<le> 80" "unat (pos_y s) \<le> 24" using assms by (simp_all add: vga_near_def word_le_nat_alt word_less_nat_alt)
  then show "unat (pos_y s) * 80 + unat (pos_x s) \<le> 2000" by linarith
  show "VMEM + 2 * (pos_y s * DIMX + pos_x s) = VMEM + 2 * of_nat (unat (pos_y s) * 80 + unat (pos_x s))" by (simp add: DIMX_def)
qed (rule refl)

lemma tab_stop:
  assumes "(x :: u64) \<le> 80" "x \<noteq> 0" shows "((x - 1) div 8 + 1) * 8 \<le> 80"
proof -
  have x: "unat x \<le> 80" "0 < unat x" using assms by (simp_all add: word_le_nat_alt unat_gt_0)
  then have "unat ((x - 1) div 8) = (unat x - 1) div 8" using assms(2) by (simp add: unat_div_distrib unat_minus_one)
  moreover have d: "(unat x - 1) div 8 \<le> 9" using x by (simp add: div_le_mono[of "unat x - 1" 79 8, simplified])
  ultimately have "(x - 1) div 8 = of_nat ((unat x - 1) div 8)" by (metis of_nat_unat ucast_id)
  then have "((x - 1) div 8 + 1) * 8 = of_nat (((unat x - 1) div 8 + 1) * 8)" by simp
  moreover have "unat (of_nat (((unat x - 1) div 8 + 1) * 8) :: u64) = ((unat x - 1) div 8 + 1) * 8"
    by (rule unat_of_nat_small) (use d in simp)
  ultimately show ?thesis using d unfolding word_le_nat_alt by (simp only:) simp
qed

lemma vga_put_facts:
  assumes ok: "vga_near s"
  shows "vga_near (vga_put color c s)" "same_from 4002 (vga_mem s) (vga_mem (vga_put color c s))"
    and "c \<noteq> 9 \<Longrightarrow> pos_x s < 80 \<Longrightarrow> pos_x (vga_put color c s) < 80 \<and> same_from 4000 (vga_mem s) (vga_mem (vga_put color c s))"
proof -
  have xy: "pos_x s \<le> 80" "pos_y s < 25" using ok by (simp_all add: vga_near_def)
  obtain k where k: "k = unat (pos_y s) * 80 + unat (pos_x s)" "k \<le> 2000"
    "VMEM + 2 * (pos_y s * DIMX + pos_x s) = VMEM + 2 * of_nat k" by (rule cell_index[OF ok])
  let ?t = "s\<lparr>vga_mem := wr16 (VMEM + 2 * of_nat k) (push_bit 8 color + scast c) (vga_mem s), pos_x := pos_x s + 1\<rparr>"
  have w: "same_from (2 * k + 2) (vga_mem s) (vga_mem ?t)" using same_from_wr16[OF k(2)] by simp
  have put: "vga_put color c s = (if pos_x s + 1 \<ge> 80 then newline ?t else ?t)" if "c \<noteq> 10" "c \<noteq> 9"
    using that k(3) by (simp add: vga_put_def Let_def DIMX_def)
  have n: "pos_x (newline u) = 0" "pos_y (newline u) < 25" "same_from 4000 (vga_mem u) (vga_mem (newline u))" if "pos_y u = pos_y s" for u :: "'a vga_state_scheme"
    using newline_facts[of u] that xy by simp_all
  have m: "same_from b (vga_mem s) (vga_mem (vga_put color c s))" if "c \<noteq> 10" "c \<noteq> 9" "2 * k + 2 \<le> b" "4000 \<le> b" for b
    unfolding put[OF that(1,2)] using same_from_trans[OF w n(3)[of ?t] that(3,4)] same_from_trans[OF w same_from_refl that(3,3)] by simp
  consider (nl) "c = 10" | (tab) "c = 9" | (other) "c \<noteq> 10" "c \<noteq> 9" by blast
  then have "vga_near (vga_put color c s) \<and> same_from 4002 (vga_mem s) (vga_mem (vga_put color c s)) \<and>
    (c \<noteq> 9 \<longrightarrow> pos_x s < 80 \<longrightarrow> pos_x (vga_put color c s) < 80 \<and> same_from 4000 (vga_mem s) (vga_mem (vga_put color c s)))"
  proof cases
    case nl
    have "same_from 4002 (vga_mem s) (vga_mem (newline s))" by (rule same_from_trans[OF same_from_refl[of 4000] n(3)[OF refl]]) simp_all
    then show ?thesis using nl n[OF refl] by (simp add: vga_put_def vga_near_def)
  next
    case tab
    then show ?thesis using tab_stop[OF xy(1)] xy by (simp add: vga_put_def vga_near_def TAB_WIDTH_def)
  next
    case other
    have "2 * k + 2 \<le> 4000" if "pos_x s < 80"
      using that xy k(1) by (simp add: word_less_nat_alt)
    moreover have "vga_near (vga_put color c s)" unfolding put[OF other] using n[of ?t] xy by (auto simp: vga_near_def not_le)
    moreover have "pos_x (vga_put color c s) < 80" unfolding put[OF other] using n[of ?t] by (auto simp: not_le)
    ultimately show ?thesis using m[OF other, of 4002] m[OF other, of 4000] k(2) by simp
  qed
  then show "vga_near (vga_put color c s)" "same_from 4002 (vga_mem s) (vga_mem (vga_put color c s))"
    "c \<noteq> 9 \<Longrightarrow> pos_x s < 80 \<Longrightarrow> pos_x (vga_put color c s) < 80 \<and> same_from 4000 (vga_mem s) (vga_mem (vga_put color c s))"
    by blast+
qed

lemma vga_fold_facts:
  assumes "vga_near s"
  shows "vga_near (fold (vga_put color) cs s) \<and> same_from 4002 (vga_mem s) (vga_mem (fold (vga_put color) cs s)) \<and>
    (9 \<notin> set cs \<and> pos_x s < 80 \<longrightarrow> pos_x (fold (vga_put color) cs s) < 80 \<and> same_from 4000 (vga_mem s) (vga_mem (fold (vga_put color) cs s)))"
  using assms
proof (induction cs arbitrary: s)
  case (Cons c cs)
  note p = vga_put_facts[OF Cons.prems, where color = color and c = c] and IH = Cons.IH[OF vga_put_facts(1)[OF Cons.prems, where color = color and c = c]]
  have "same_from 4002 (vga_mem s) (vga_mem (fold (vga_put color) (c # cs) s))"
    using same_from_trans[OF p(2), of 4002] IH by simp
  moreover have "same_from 4000 (vga_mem s) (vga_mem (fold (vga_put color) (c # cs) s))" if "9 \<notin> set (c # cs)" "pos_x s < 80"
    using same_from_trans[OF conjunct2[OF p(3)], of 4000] IH p(3) that by simp
  ultimately show ?case using IH p(3) by auto
qed simp

section \<open>Writing in pieces\<close>

text \<open>The cursor shows the position; then writing nothing changes nothing.\<close>

definition cursor_ok :: "'a vga_state_scheme \<Rightarrow> bool" where
  "cursor_ok s \<longleftrightarrow> vga_cursor s = ucast (pos_y s * DIMX + pos_x s)"

lemma update_cursor_idem: "cursor_ok s \<Longrightarrow> update_cursor (pos_x s) (pos_y s) s = s"
  by (cases s) (simp add: cursor_ok_def update_cursor_def)

lemma vga_put_cursor:
  "\<exists>w. vga_put color c (s\<lparr>vga_cursor := v\<rparr>) = (vga_put color c s)\<lparr>vga_cursor := w\<rparr>"
  by (rule exI[of _ "vga_cursor (vga_put color c (s\<lparr>vga_cursor := v\<rparr>))"])
    (simp add: vga_put_def newline_def vga_text_scroll_def update_cursor_def Let_def)

lemma fold_put_cursor:
  "\<exists>w. fold (vga_put color) cs (s\<lparr>vga_cursor := v\<rparr>) = (fold (vga_put color) cs s)\<lparr>vga_cursor := w\<rparr>"
proof (induction cs arbitrary: s v)
  case Nil
  show ?case by (rule exI[of _ v]) simp
next
  case (Cons c cs)
  obtain w where "vga_put color c (s\<lparr>vga_cursor := v\<rparr>) = (vga_put color c s)\<lparr>vga_cursor := w\<rparr>" using vga_put_cursor by blast
  then show ?case using Cons.IH[where s = "vga_put color c s" and v = w] by simp
qed

lemma vga_write_append:
  "vga_text_write fg bg ys (vga_text_write fg bg xs s) = vga_text_write fg bg (xs @ ys) s"
proof -
  let ?c = "ucast (fg OR push_bit 8 bg)" and ?s = "fold (vga_put (ucast (fg OR push_bit 8 bg))) xs s"
  obtain w where w: "fold (vga_put ?c) ys (update_cursor (pos_x ?s) (pos_y ?s) ?s) = (fold (vga_put ?c) ys ?s)\<lparr>vga_cursor := w\<rparr>"
    unfolding update_cursor_def[of "pos_x ?s"] using fold_put_cursor by blast
  show ?thesis unfolding vga_text_write_def Let_def w by (simp add: update_cursor_def)
qed

lemma vga_write_Nil: "cursor_ok s \<Longrightarrow> vga_text_write fg bg [] s = s"
  by (simp add: vga_text_write_def Let_def update_cursor_idem)

lemma vga_write_cursor_ok: "cursor_ok (vga_text_write fg bg xs s)"
  by (simp add: vga_text_write_def Let_def cursor_ok_def)

section \<open>Properties\<close>

text \<open>C38: Text without tabs, written from a position on the screen, keeps the position on the screen, column below 80 and
  line below 25, and changes no byte outside the 4000 bytes of the video memory.  Text with tabs keeps the line below 25, but
  the column can come to 80, behind the line, and the one cell of two bytes behind the video memory can be written;
  no other byte outside is.  The cursor shows the position in both cases.\<close>

theorem vga_write_bounds:
  fixes s :: "'a vga_state_scheme" and fg bg :: u64 and cs :: "u8 list"
  assumes "pos_x s \<le> 80" "pos_y s < 25"
  defines "t \<equiv> vga_text_write fg bg cs s"
  shows "(vga_on_screen s \<and> 9 \<notin> set cs \<longrightarrow> vga_on_screen t \<and>
      (\<forall>i. 4000 \<le> i \<and> i < 2 ^ 64 \<longrightarrow> vga_mem t (VMEM + of_nat i) = vga_mem s (VMEM + of_nat i))) \<and>
    pos_x t \<le> 80 \<and> pos_y t < 25 \<and>
    (\<forall>i. 4002 \<le> i \<and> i < 2 ^ 64 \<longrightarrow> vga_mem t (VMEM + of_nat i) = vga_mem s (VMEM + of_nat i)) \<and>
    vga_cursor t = ucast (pos_y t * DIMX + pos_x t)"
proof -
  have "vga_near s" using assms(1,2) by (simp add: vga_near_def)
  from vga_fold_facts[OF this, of "ucast (fg OR push_bit 8 bg)" cs] show ?thesis
    by (simp add: t_def vga_text_write_def Let_def vga_near_def vga_on_screen_def same_from_def)
qed

text \<open>At the end of the last line.\<close>

definition demo_vga :: vga_state where
  "demo_vga = \<lparr>pos_x = 79, pos_y = 24, vga_mem = (\<lambda>a. ucast a), vga_cursor = 0\<rparr>"

theorem vga_write_bounds_witness:
  "vga_on_screen demo_vga \<and> vga_on_screen (vga_text_write 7 0 [104, 105] demo_vga) \<and>
   vga_mem (vga_text_write 7 0 [104, 105] demo_vga) (VMEM + of_nat 4000) = vga_mem demo_vga (VMEM + of_nat 4000) \<and>
   pos_x (vga_text_write 7 0 [9] demo_vga) = 80 \<and>
   vga_mem (vga_text_write 7 0 [9, 65] demo_vga) (VMEM + of_nat 4000) \<noteq> vga_mem demo_vga (VMEM + of_nat 4000) \<and>
   vga_mem (vga_text_write 7 0 [9, 65] demo_vga) (VMEM + of_nat 4002) = vga_mem demo_vga (VMEM + of_nat 4002)"
proof -
  have d: "pos_x demo_vga = 79" "pos_y demo_vga = 24" "vga_on_screen demo_vga" by (simp_all add: demo_vga_def vga_on_screen_def)
  have w: "vga_mem (vga_text_write 7 0 [9, 65] demo_vga) (VMEM + of_nat 4000) = 65"
    using scroll_at[of 4000 "\<lparr>pos_x = 0, pos_y = 25, vga_mem = wr16 (VMEM + 4000) (push_bit 8 7 + 65) (\<lambda>a. ucast a), vga_cursor = 0\<rparr>"]
    by (simp add: vga_text_write_def vga_put_def newline_def demo_vga_def DIMX_def DIMY_def TAB_WIDTH_def wr16_def Let_def)
  have t: "pos_x (vga_text_write 7 0 [9] demo_vga) = 80"
    by (simp add: vga_text_write_def vga_put_def demo_vga_def TAB_WIDTH_def)
  have o: "vga_mem demo_vga (VMEM + of_nat 4000) \<noteq> 65" by (simp add: demo_vga_def VMEM_def)
  note B = vga_write_bounds[where s = demo_vga and fg = 7 and bg = 0, unfolded d(1,2)]
  have p: "vga_on_screen (vga_text_write 7 0 [104, 105] demo_vga)"
    "\<forall>i. 4000 \<le> i \<and> i < 2 ^ 64 \<longrightarrow>
      vga_mem (vga_text_write 7 0 [104, 105] demo_vga) (VMEM + of_nat i) = vga_mem demo_vga (VMEM + of_nat i)"
    using B[where cs = "[104, 105]", THEN conjunct1] d(3) by simp_all
  have "vga_mem (vga_text_write 7 0 [104, 105] demo_vga) (VMEM + of_nat 4000) = vga_mem demo_vga (VMEM + of_nat 4000)"
    by (rule p(2)[rule_format]) simp
  moreover have "vga_mem (vga_text_write 7 0 [9, 65] demo_vga) (VMEM + of_nat 4002) = vga_mem demo_vga (VMEM + of_nat 4002)"
    by (rule B[where cs = "[9, 65]", THEN conjunct2, THEN conjunct2, THEN conjunct2, THEN conjunct1, rule_format]) simp_all
  ultimately show ?thesis using w t o d(3) p(1) by metis
qed

text \<open>A line feed on the last line moves every line up by one and clears the last one; on the
  other lines it only moves to the start of the next line.\<close>

theorem vga_newline_scrolls:
  assumes "pos_y s < 25"
  shows "if pos_y s < 24 then newline s = s\<lparr>pos_y := pos_y s + 1, pos_x := 0\<rparr>
    else pos_x (newline s) = 0 \<and> pos_y (newline s) = 24 \<and>
      (\<forall>r < 24. \<forall>i < 160. vga_mem (newline s) (VMEM + of_nat (160 * r + i)) = vga_mem s (VMEM + of_nat (160 * Suc r + i))) \<and>
      (\<forall>i < 160. vga_mem (newline s) (VMEM + of_nat (160 * 24 + i)) = 0)"
proof (cases "pos_y s < 24")
  case True
  then have "\<not> pos_y s + 1 \<ge> 25" using unat_inc[OF True] by (simp add: word_le_nat_alt word_less_nat_alt)
  then show ?thesis using True by (simp add: newline_def DIMY_def)
next
  case False
  let ?t = "s\<lparr>pos_y := pos_y s + 1, pos_x := 0\<rparr>"
  have y: "pos_y s = 24"
  proof -
    have "unat (pos_y s) = 24" using False assms by (simp add: word_less_nat_alt)
    then show ?thesis by (simp add: word_unat_eq_iff)
  qed
  have n: "newline s = vga_text_scroll 1 ?t" by (simp add: newline_def DIMY_def y)
  have "vga_mem (newline s) (VMEM + of_nat (160 * r + i)) = vga_mem s (VMEM + of_nat (160 * Suc r + i))" if "r < 24" "i < 160" for r i
  proof -
    have "160 * r + i < 3840" using that by linarith
    moreover have "160 * r + i + 160 = 160 * Suc r + i" by simp
    ultimately show ?thesis unfolding n using scroll_at[of "160 * r + i" ?t] by (simp only:) simp
  qed
  moreover have "vga_mem (newline s) (VMEM + of_nat (160 * 24 + i)) = 0" if "i < 160" for i
    unfolding n using scroll_at[of "160 * 24 + i" ?t] that by simp
  ultimately show ?thesis unfolding if_not_P[OF False] by (simp add: n scroll_pos y)
qed

theorem vga_newline_scrolls_witness:
  "pos_y (newline demo_vga) = 24 \<and> vga_mem (newline demo_vga) (VMEM + 160 * 3) = ucast (VMEM + 160 * 4)"
proof -
  have p: "pos_y demo_vga < 25" "\<not> pos_y demo_vga < 24" by (simp_all add: demo_vga_def)
  note v = vga_newline_scrolls[OF p(1), unfolded if_not_P[OF p(2)]]
  have "vga_mem (newline demo_vga) (VMEM + of_nat (160 * 3 + 0)) = vga_mem demo_vga (VMEM + of_nat (160 * Suc 3 + 0))"
    by (rule v[THEN conjunct2, THEN conjunct2, THEN conjunct1, rule_format]) simp_all
  then show ?thesis using v by (simp add: demo_vga_def)
qed

end
