(* ===== verification/Digits.thy ===== *)
theory Digits
  imports Prelude
begin

text \<open>Numbers as lists of digits, for the theories about printed text.\<close>

text \<open>The digits of a number in base \<open>b\<close>, most significant first.\<close>

fun digits :: "nat \<Rightarrow> nat \<Rightarrow> nat list" where
  "digits b n = (if n < b \<or> b < 2 then [n] else digits b (n div b) @ [n mod b])"

fun undigits :: "nat \<Rightarrow> nat list \<Rightarrow> nat" where
  "undigits b ds = foldl (\<lambda>v d. v * b + d) 0 ds"

declare digits.simps [simp del]

lemma undigits_digits: "undigits b (digits b n) = n" if "2 \<le> b"
  using that by (induction b n rule: digits.induct) (subst digits.simps, auto)

lemma digits_less: "2 \<le> b \<Longrightarrow> \<forall>d \<in> set (digits b n). d < b"
  by (induction b n rule: digits.induct) (subst digits.simps, auto)

lemma digits_length: "2 \<le> b \<Longrightarrow> n < b ^ k \<Longrightarrow> 0 < k \<Longrightarrow> length (digits b n) \<le> k"
proof (induction b n arbitrary: k rule: digits.induct)
  case (1 b n)
  show ?case
  proof (cases "n < b")
    case True
    then show ?thesis using "1.prems" by (subst digits.simps) simp
  next
    case False
    then have k: "2 \<le> k" using "1.prems" by (cases k; cases "k - 1") auto
    then obtain j where j: "k = Suc j" "0 < j" by (cases k) auto
    have "n div b < b ^ j" using "1.prems" j by (simp add: div_less_iff_less_mult mult.commute)
    then have "length (digits b (n div b)) \<le> j" using "1.IH" False "1.prems"(1) j(2) by simp
    then show ?thesis using False "1.prems"(1) j by (subst digits.simps) simp
  qed
qed

lemma digits_ne: "digits b n \<noteq> []"
  by (subst digits.simps) simp

text \<open>Without leading zeros: no digits for the number 0.\<close>

definition digs :: "nat \<Rightarrow> nat \<Rightarrow> nat list" where
  "digs b n = (if n = 0 then [] else digits b n)"

lemma digs_0 [simp]: "digs b 0 = []"
  by (simp add: digs_def)

lemma digs_step: "2 \<le> b \<Longrightarrow> n \<noteq> 0 \<Longrightarrow> digs b n = digs b (n div b) @ [n mod b]"
  by (subst (1) digs_def, subst digits.simps) (auto simp: digs_def div_eq_0_iff)

lemma digs_less: "2 \<le> b \<Longrightarrow> d \<in> set (digs b n) \<Longrightarrow> d < b"
  using digits_less[of b n] by (auto simp: digs_def split: if_splits)

lemma digs_length: "2 \<le> b \<Longrightarrow> n < b ^ k \<Longrightarrow> 0 < k \<Longrightarrow> length (digs b n) \<le> k"
  using digits_length[of b n k] by (simp add: digs_def)

lemma undigits_digs: "2 \<le> b \<Longrightarrow> undigits b (digs b n) = n"
  using undigits_digits[of b n] by (simp add: digs_def)

end
