(* ===== verification/K_console.thy ===== *)
theory K_console
  imports Vga_text K_mutex Digits
begin

text \<open>
  \<open>kernel/k_console.c\<close>: the console with its only driver, the text console of the theory
  \<open>Vga_text\<close>, and the formatted output of the kernel.  The text and the format are read from
  the memory \<open>m\<close>; \<open>ap\<close> gives the words of the variable arguments.  The buffer of a number is an
  array of bytes and the pointers into it are its indices.
\<close>

record con_state = vga_state +
  con_driver :: bool
  con_lock :: spinlock
  con_cpu :: cpu_state

section \<open>The driver\<close>

definition con_init :: "'a con_state_scheme \<Rightarrow> 'a con_state_scheme" where
  "con_init s = s\<lparr>con_lock := spinlock_init (con_lock s)\<rparr>"

definition con_set_driver :: "'a con_state_scheme \<Rightarrow> 'a con_state_scheme" where
  "con_set_driver s = s\<lparr>con_driver := True\<rparr>"

text \<open>A call through the driver with interrupts off.\<close>

definition with_driver :: "('a con_state_scheme \<Rightarrow> 'a con_state_scheme) \<Rightarrow> 'a con_state_scheme \<Rightarrow> 'a con_state_scheme res" where
  "with_driver f s =
     (if \<not> con_driver s then Fail NullDeref
      else (let
        flag = interrupt_save_flag (con_cpu s);
        s = s\<lparr>con_cpu := interrupt_disable_preemption (con_cpu s)\<rparr>;
        s = f s
      in Ok (s\<lparr>con_cpu := interrupt_load_flag flag (con_cpu s)\<rparr>)))"

definition con_dim_x :: "'a con_state_scheme \<Rightarrow> u64 res" where
  "con_dim_x s = (if con_driver s then Ok vga_text_dim_x else Fail NullDeref)"

definition con_dim_y :: "'a con_state_scheme \<Rightarrow> u64 res" where
  "con_dim_y s = (if con_driver s then Ok vga_text_dim_y else Fail NullDeref)"

definition con_write :: "u64 \<Rightarrow> u64 \<Rightarrow> u8 list \<Rightarrow> 'a con_state_scheme \<Rightarrow> 'a con_state_scheme res" where
  "con_write fg bg cs = with_driver (vga_text_write fg bg cs)"

definition con_scroll :: "u64 \<Rightarrow> 'a con_state_scheme \<Rightarrow> 'a con_state_scheme res" where
  "con_scroll lc = with_driver (vga_text_scroll lc)"

definition con_clear :: "'a con_state_scheme \<Rightarrow> 'a con_state_scheme res" where
  "con_clear = with_driver vga_text_clear"

section \<open>Numbers\<close>

definition alphabet :: "u8 list" where
  "alphabet = [48, 49, 50, 51, 52, 53, 54, 55, 56, 57, 97, 98, 99, 100, 101, 102]"

text \<open>The digits, least significant first; a base of 0 or 1 does not occur.\<close>

function itoa_digits :: "(nat \<Rightarrow> u8) \<Rightarrow> nat \<Rightarrow> u64 \<Rightarrow> u64 \<Rightarrow> (nat \<Rightarrow> u8) \<times> nat" where
  "itoa_digits buf p i base =
     (if i \<noteq> 0 \<and> 2 \<le> base then itoa_digits (buf(p := alphabet ! unat (i mod base))) (p + 1) (i div base) base
      else (buf, p))"
  by pat_completeness auto
termination
proof (relation "measure (\<lambda>(buf, p, i, base). unat i)")
  fix buf :: "nat \<Rightarrow> u8" and p :: nat and i base :: u64
  assume a: "i \<noteq> 0 \<and> 2 \<le> base"
  then have "1 < unat base" "0 < unat i" by (simp_all add: word_le_nat_alt unat_gt_0)
  then show "((buf(p := alphabet ! unat (i mod base)), p + 1, i div base, base), buf, p, i, base) \<in> measure (\<lambda>(buf, p, i, base). unat i)"
    by (simp add: unat_div_distrib)
qed simp

fun itoa_reverse :: "(nat \<Rightarrow> u8) \<Rightarrow> nat \<Rightarrow> nat \<Rightarrow> (nat \<Rightarrow> u8)" where
  "itoa_reverse buf b e = (if e > b then itoa_reverse (buf(e := buf b, b := buf e)) (b + 1) (e - 1) else buf)"

definition itoa :: "(nat \<Rightarrow> u8) \<Rightarrow> u64 \<Rightarrow> u64 \<Rightarrow> (nat \<Rightarrow> u8) \<times> nat" where
  "itoa buf i base =
     (if i = 0 \<and> base = 10 then (buf(0 := 48), 1)
      else (let
        (buf, p) = itoa_digits buf 0 i base;
        (buf, e) = (if base = 16 then (\<lambda>j. if p \<le> j \<and> j \<le> 15 then 48 else buf j, 15) else (buf, p - 1));
        ret = e + 1
      in (itoa_reverse buf 0 e, ret)))"

text \<open>The first \<open>n\<close> bytes of a buffer.\<close>

definition buf_text :: "(nat \<Rightarrow> u8) \<Rightarrow> nat \<Rightarrow> u8 list" where
  "buf_text buf n = map buf [0..<n]"

section \<open>Formatted output\<close>

definition KSTRLEN_MAX_SIZE_UNKNOWN :: u64 where "KSTRLEN_MAX_SIZE_UNKNOWN = 1048576"
definition CON_COLOR_BLACK :: u64 where "CON_COLOR_BLACK = 0"
definition CON_COLOR_LIGHT_GRAY :: u64 where "CON_COLOR_LIGHT_GRAY = 7"

abbreviation kv_write :: "u8 list \<Rightarrow> 'a con_state_scheme \<Rightarrow> 'a con_state_scheme res" where
  "kv_write \<equiv> con_write CON_COLOR_LIGHT_GRAY CON_COLOR_BLACK"

text \<open>The label \<open>fmt_s\<close>, with \<open>p\<close> at the \<open>s\<close>; \<open>k\<close> counts the arguments that were taken.\<close>

definition fmt_s :: "mem \<Rightarrow> (nat \<Rightarrow> u64) \<Rightarrow> nat \<Rightarrow> u64 \<Rightarrow> 'a con_state_scheme \<Rightarrow> (nat \<times> u64 \<times> 'a con_state_scheme) res" where
  "fmt_s m ap k p s = (let
     p = p + 1;
     str = ap k; k = k + 1;
     (ss, k, p) = (if m p = 110 then (ap k, k + 1, p + 1) else (kstrlen KSTRLEN_MAX_SIZE_UNKNOWN str m, k, p))
   in bind_res (kv_write (bytes_at m str (unat ss)) s) (\<lambda>s. Ok (k, p, s)))"

text \<open>The flags of a number: whether it is signed, its base and size, and the position behind.\<close>

definition fmt_int_flags :: "mem \<Rightarrow> u64 \<Rightarrow> bool \<times> u64 \<times> u64 \<times> u64" where
  "fmt_int_flags m p = (let
     (signess, p) = (if m p = 83 then (True, p + 1) else (False, p))
   in if m p = 120 \<or> m p = 100
      then (let
        base = (if m p = 120 then 16 else 10);
        p = p + 1;
        (sz, p) = (if m p = 98 then (1, p + 1) else if m p = 115 then (2, p + 1)
          else if m p = 108 then (4, p + 1) else if m p = 113 then (8, p + 1) else (8, p))
      in (signess, base, sz, p))
      else (signess, 10, 8, p))"

text \<open>The label \<open>fmt_int\<close>; the buffer on the stack has any contents.\<close>

definition fmt_int :: "mem \<Rightarrow> (nat \<Rightarrow> u64) \<Rightarrow> (nat \<Rightarrow> u8) \<Rightarrow> nat \<Rightarrow> u64 \<Rightarrow> 'a con_state_scheme \<Rightarrow> (nat \<times> u64 \<times> 'a con_state_scheme) res" where
  "fmt_int m ap buf k p s = (let
     (signess, base, sz, p) = fmt_int_flags m p;
     v = (if signess then (if sz \<le> 4 then scast (ucast (ap k) :: u32) else ap k)
          else (if sz \<le> 4 then ucast (ucast (ap k) :: u32) else ap k));
     neg = (signess \<and> sint v < 0);
     v = (if neg then - v else v);
     (buf, n) = itoa buf v base
   in bind_res (if neg then kv_write [45] s else Ok s) (\<lambda>s.
      bind_res (kv_write (buf_text buf n) s) (\<lambda>s. Ok (k + 1, p, s))))"

text \<open>The switch behind a \<open>%\<close>, at \<open>p\<close>: the arguments taken, the new \<open>rs\<close> and the new \<open>p\<close>.\<close>

definition fmt_switch :: "mem \<Rightarrow> (nat \<Rightarrow> u64) \<Rightarrow> (nat \<Rightarrow> u8) \<Rightarrow> nat \<Rightarrow> u64 \<Rightarrow> u64 \<Rightarrow> 'a con_state_scheme \<Rightarrow> (nat \<times> u64 \<times> u64 \<times> 'a con_state_scheme) res" where
  "fmt_switch m ap buf k rs p s =
     (if m p = 0 then Ok (k, rs, p, s)
      else if m p = 37 then Ok (k, p, p + 1, s)
      else if m p = 115 then bind_res (fmt_s m ap k p s) (\<lambda>(k, p, s). Ok (k, p, p, s))
      else if m p = 120 \<or> m p = 100 \<or> m p = 83 then bind_res (fmt_int m ap buf k p s) (\<lambda>(k, p, s). Ok (k, p, p, s))
      else Ok (k, p + 1, p + 1, s))"

partial_function (option) kvprintf_loop ::
    "mem \<Rightarrow> (nat \<Rightarrow> u64) \<Rightarrow> (nat \<Rightarrow> u8) \<Rightarrow> nat \<Rightarrow> u64 \<Rightarrow> u64 \<Rightarrow> 'a con_state_scheme \<Rightarrow> (u64 \<times> u64 \<times> 'a con_state_scheme) res option" where
  "kvprintf_loop m ap buf k rs p s =
     (if m p = 0 then Some (Ok (rs, p, s))
      else if m p \<noteq> 37 then kvprintf_loop m ap buf k rs (p + 1) s
      else case bind_res (kv_write (bytes_at m rs (unat (p - rs))) s) (fmt_switch m ap buf k rs (p + 1)) of
          Fail e \<Rightarrow> Some (Fail e)
        | Ok (k, rs, p, s) \<Rightarrow> kvprintf_loop m ap buf k rs p s)"

definition kvprintf :: "mem \<Rightarrow> (nat \<Rightarrow> u64) \<Rightarrow> (nat \<Rightarrow> u8) \<Rightarrow> u64 \<Rightarrow> 'a con_state_scheme \<Rightarrow> 'a con_state_scheme res" where
  "kvprintf m ap buf fmt s =
     bind_res (spinlock_lock (con_lock s) (con_cpu s)) (\<lambda>(flag, l, c).
     bind_res (ends (kvprintf_loop m ap buf 0 fmt fmt (s\<lparr>con_lock := l, con_cpu := c\<rparr>))) (\<lambda>(rs, p, s).
     bind_res (if p \<noteq> rs then kv_write (bytes_at m rs (unat (p - rs))) s else Ok s) (\<lambda>s.
     bind_res (spinlock_unlock (con_lock s) flag (con_cpu s)) (\<lambda>(l, c).
     Ok (s\<lparr>con_lock := l, con_cpu := c\<rparr>)))))"

definition kprintf :: "mem \<Rightarrow> (nat \<Rightarrow> u64) \<Rightarrow> (nat \<Rightarrow> u8) \<Rightarrow> u64 \<Rightarrow> 'a con_state_scheme \<Rightarrow> 'a con_state_scheme res" where
  "kprintf m ap buf fmt s = kvprintf m ap buf fmt s"

section \<open>The text of a number\<close>

declare itoa_digits.simps [simp del] itoa_reverse.simps [simp del]

text \<open>The loop leaves the digits in reverse.\<close>

definition low_digits :: "u64 \<Rightarrow> u64 \<Rightarrow> u8 list" where
  "low_digits base i = (if i = 0 then [] else rev (map (\<lambda>d. alphabet ! d) (digits (unat base) (unat i))))"

definition stored :: "nat \<Rightarrow> u8 list \<Rightarrow> (nat \<Rightarrow> u8) \<Rightarrow> nat \<Rightarrow> u8" where
  "stored p ds buf j = (if p \<le> j \<and> j < p + length ds then ds ! (j - p) else buf j)"

lemma stored_Nil: "stored p [] buf = buf"
  by (auto simp: stored_def fun_eq_iff)

lemma stored_Cons: "stored (p + 1) ds (buf(p := d)) = stored p (d # ds) buf"
  by (auto simp: stored_def fun_eq_iff nth_Cons')

lemma low_digits_step:
  assumes "2 \<le> base" "i \<noteq> 0"
  shows "low_digits base i = alphabet ! unat (i mod base) # low_digits base (i div base)"
proof -
  let ?b = "unat base"
  have b: "2 \<le> ?b" using assms(1) by (simp add: word_le_nat_alt)
  have u: "unat (i div base) = unat i div ?b" "unat (i mod base) = unat i mod ?b"
    by (simp_all add: unat_div_distrib unat_mod_distrib)
  have z: "i div base = 0 \<longleftrightarrow> unat i < ?b" using u(1) b by (metis div_eq_0_iff unat_eq_0 not_numeral_le_zero)
  show ?thesis
  proof (cases "unat i < ?b")
    case True
    then have "digits ?b (unat i) = [unat i]" by (subst digits.simps) simp
    then show ?thesis using True z assms(2) u by (simp add: low_digits_def)
  next
    case False
    then have "digits ?b (unat i) = digits ?b (unat i div ?b) @ [unat i mod ?b]" using b by (subst digits.simps) simp
    then show ?thesis using False z assms(2) u by (simp add: low_digits_def)
  qed
qed

lemma itoa_digits_spec:
  "2 \<le> base \<Longrightarrow> itoa_digits buf p i base = (stored p (low_digits base i) buf, p + length (low_digits base i))"
proof (induction buf p i base rule: itoa_digits.induct)
  case (1 buf p i base)
  show ?case
  proof (cases "i = 0")
    case True
    then show ?thesis by (simp add: itoa_digits.simps low_digits_def stored_Nil)
  next
    case False
    note IH = "1.IH"[OF conjI[OF False "1.prems"] "1.prems"]
    have "itoa_digits buf p i base = itoa_digits (buf(p := alphabet ! unat (i mod base))) (p + 1) (i div base) base"
      using False "1.prems"(1) by (subst itoa_digits.simps) (simp only: simp_thms if_True)
    then show ?thesis unfolding IH low_digits_step[OF "1.prems" False] stored_Cons by simp
  qed
qed

text \<open>The second loop reverses the buffer.\<close>

lemma itoa_reverse_spec:
  "itoa_reverse buf b e j = (if b \<le> j \<and> j \<le> e then buf (b + e - j) else buf j)"
proof (induction buf b e rule: itoa_reverse.induct)
  case (1 buf b e)
  show ?case
  proof (cases "e > b")
    case True
    have "itoa_reverse buf b e j = itoa_reverse (buf(e := buf b, b := buf e)) (b + 1) (e - 1) j"
      using True by (subst itoa_reverse.simps) (simp only: if_True)
    also have "\<dots> = (if b + 1 \<le> j \<and> j \<le> e - 1 then (buf(e := buf b, b := buf e)) (b + 1 + (e - 1) - j)
        else (buf(e := buf b, b := buf e)) j)" by (rule "1.IH"[OF True])
    also have "b + 1 + (e - 1) = b + e" using True by simp
    finally show ?thesis using True by auto
  next
    case False
    then have "b + e - j = j" if "b \<le> j" "j \<le> e" using that by simp
    then show ?thesis using False by (subst itoa_reverse.simps) auto
  qed
qed

lemma buf_text_reverse: "buf_text (itoa_reverse buf 0 e) (Suc e) = rev (buf_text buf (Suc e))"
  by (rule nth_equalityI) (auto simp: buf_text_def itoa_reverse_spec rev_nth simp del: upt_Suc)

text \<open>What the kernel prints: no leading zeros in base 10, 16 places in base 16.\<close>

definition number_text :: "u64 \<Rightarrow> u64 \<Rightarrow> u8 list" where
  "number_text i base = (let ds = digits (unat base) (unat i)
     in map (\<lambda>d. alphabet ! d) (replicate (if base = 16 then 16 - length ds else 0) 0 @ ds))"

lemma itoa_text:
  assumes b: "base = 10 \<or> base = 16"
  shows "buf_text (fst (itoa buf i base)) (snd (itoa buf i base)) = number_text i base"
proof (cases "i = 0 \<and> base = 10")
  case True
  then show ?thesis by (simp add: itoa_def number_text_def digits.simps buf_text_def alphabet_def)
next
  case False
  let ?A = "\<lambda>d. alphabet ! d" and ?D = "digits (unat base) (unat i)"
  define ds where "ds = low_digits base i"
  define buf1 where "buf1 = stored 0 ds buf"
  have d: "itoa_digits buf 0 i base = (buf1, length ds)"
    using itoa_digits_spec[of base buf 0 i] b by (auto simp: ds_def buf1_def)
  have at: "buf1 j = ds ! j" if "j < length ds" for j using that by (simp add: buf1_def stored_def)
  show ?thesis
  proof (cases "base = 16")
    case True
    have l: "length ?D \<le> 16" using digits_length[of 16 "unat i" 16] unat_u64_less[of i] True by simp
    let ?buf = "\<lambda>j. if length ds \<le> j \<and> j \<le> 15 then 48 else buf1 j"
    have "itoa buf i base = (itoa_reverse ?buf 0 15, 16)" using False d True by (simp add: itoa_def)
    moreover have "buf_text ?buf 16 = ds @ replicate (16 - length ds) 48"
      using l by (intro nth_equalityI) (auto simp: buf_text_def at nth_append ds_def low_digits_def)
    moreover have "rev (ds @ replicate (16 - length ds) 48) = number_text i base"
    proof (cases "i = 0")
      case z: True
      have "?D = [0]" unfolding z by (subst digits.simps) (simp add: True)
      then show ?thesis using True z by (simp add: ds_def low_digits_def number_text_def alphabet_def numeral_eq_Suc)
    next
      case False
      then show ?thesis using True by (simp add: ds_def low_digits_def number_text_def alphabet_def Let_def)
    qed
    ultimately show ?thesis using buf_text_reverse[of ?buf 15] by simp
  next
    case n16: False
    then have i: "i \<noteq> 0" using False b by auto
    then have ds: "ds = rev (map ?A ?D)" "0 < length ds" using digits_ne[of "unat base" "unat i"] by (simp_all add: ds_def low_digits_def)
    have "itoa buf i base = (itoa_reverse buf1 0 (length ds - 1), length ds)" using i d n16 ds(2) by (simp add: itoa_def)
    moreover have "buf_text buf1 (length ds) = ds" by (rule nth_equalityI) (auto simp: buf_text_def at)
    ultimately show ?thesis using buf_text_reverse[of buf1 "length ds - 1"] ds n16 by (simp add: number_text_def)
  qed
qed

section \<open>Writing to the console\<close>

text \<open>The driver changes none of the fields of the console.\<close>

lemma vga_put_con: "con_driver (vga_put color c s) = con_driver s" "con_cpu (vga_put color c s) = con_cpu s"
  "con_lock (vga_put color c s) = con_lock s"
  by (simp_all add: vga_put_def newline_def vga_text_scroll_def update_cursor_def Let_def)

lemma vga_write_con [simp]: "con_driver (vga_text_write fg bg xs s) = con_driver s" "con_cpu (vga_text_write fg bg xs s) = con_cpu s"
  "con_lock (vga_text_write fg bg xs s) = con_lock s"
proof -
  have "con_driver (fold (vga_put color) xs s) = con_driver s \<and> con_cpu (fold (vga_put color) xs s) = con_cpu s \<and>
    con_lock (fold (vga_put color) xs s) = con_lock s" for color
    by (induction xs arbitrary: s) (simp_all add: vga_put_con)
  then show "con_driver (vga_text_write fg bg xs s) = con_driver s" "con_cpu (vga_text_write fg bg xs s) = con_cpu s"
    "con_lock (vga_text_write fg bg xs s) = con_lock s"
    by (simp_all add: vga_text_write_def Let_def update_cursor_def)
qed

abbreviation sent :: "u8 list \<Rightarrow> 'a con_state_scheme \<Rightarrow> 'a con_state_scheme" where
  "sent \<equiv> vga_text_write CON_COLOR_LIGHT_GRAY CON_COLOR_BLACK"

lemma vga_put_cpu: "vga_put color c (s\<lparr>con_cpu := x\<rparr>) = (vga_put color c s)\<lparr>con_cpu := x\<rparr>"
  by (simp add: vga_put_def newline_def vga_text_scroll_def update_cursor_def Let_def)

lemma vga_write_cpu: "vga_text_write fg bg xs (s\<lparr>con_cpu := x\<rparr>) = (vga_text_write fg bg xs s)\<lparr>con_cpu := x\<rparr>"
proof -
  have "fold (vga_put color) xs (s\<lparr>con_cpu := x\<rparr>) = (fold (vga_put color) xs s)\<lparr>con_cpu := x\<rparr>" for color
    by (induction xs arbitrary: s) (simp_all add: vga_put_cpu)
  then show ?thesis by (simp add: vga_text_write_def Let_def update_cursor_def)
qed

lemma kv_write_sent: "con_driver s \<Longrightarrow> kv_write xs s = Ok (sent xs s)"
proof -
  assume d: "con_driver s"
  have "interrupt_load_flag (interrupt_save_flag c) (interrupt_disable_preemption c) = c" for c
    by (cases c) (simp add: interrupt_load_flag_def interrupt_save_flag_def interrupt_disable_preemption_def interrupt_enable_preemption_def)
  moreover have "(sent xs s)\<lparr>con_cpu := con_cpu s\<rparr> = sent xs s"
    using vga_write_con(2)[of CON_COLOR_LIGHT_GRAY CON_COLOR_BLACK xs s] by (metis vga_write_cpu con_state.surjective con_state.update_convs(3) con_state.select_convs(3))
  ultimately show ?thesis using d by (simp add: con_write_def with_driver_def Let_def vga_write_cpu)
qed

section \<open>Formats\<close>

text \<open>The language of formats that the comment in front of \<open>kprintf\<close> describes.\<close>

datatype fmt_item = Lit "u8 list" | Percent | Str | StrN | Num bool bool "u8 option"

definition size_letters :: "u8 set" where
  "size_letters = {98, 115, 108, 113}"

fun item_text :: "fmt_item \<Rightarrow> u8 list" where
  "item_text (Lit xs) = xs"
| "item_text Percent = [37, 37]"
| "item_text Str = [37, 115]"
| "item_text StrN = [37, 115, 110]"
| "item_text (Num sg hx sf) = [37] @ (if sg then [83] else []) @ [if hx then 120 else 100] @ (case sf of None \<Rightarrow> [] | Some c \<Rightarrow> [c])"

text \<open>A directive must not run on into the text behind it.\<close>

fun item_ok :: "fmt_item \<Rightarrow> u8 \<Rightarrow> bool" where
  "item_ok (Lit xs) c \<longleftrightarrow> 0 \<notin> set xs \<and> 37 \<notin> set xs"
| "item_ok Percent c \<longleftrightarrow> True"
| "item_ok Str c \<longleftrightarrow> c \<noteq> 110"
| "item_ok StrN c \<longleftrightarrow> True"
| "item_ok (Num sg hx sf) c \<longleftrightarrow> (case sf of None \<Rightarrow> c \<notin> size_letters | Some d \<Rightarrow> d \<in> size_letters)"

fun item_args :: "fmt_item \<Rightarrow> nat" where
  "item_args (Lit xs) = 0"
| "item_args Percent = 0"
| "item_args Str = 1"
| "item_args StrN = 2"
| "item_args (Num sg hx sf) = 1"

definition number_out :: "bool \<Rightarrow> bool \<Rightarrow> u8 option \<Rightarrow> u64 \<Rightarrow> u8 list" where
  "number_out sg hx sf a = (let
     narrow = (sf \<notin> {None, Some 113});
     v = (if \<not> narrow then a else if sg then scast (ucast a :: u32) else ucast (ucast a :: u32));
     base = (if hx then 16 else 10)
   in if sg \<and> sint v < 0 then 45 # number_text (- v) base else number_text v base)"

fun item_out :: "mem \<Rightarrow> (nat \<Rightarrow> u64) \<Rightarrow> nat \<Rightarrow> fmt_item \<Rightarrow> u8 list" where
  "item_out m ap k (Lit xs) = xs"
| "item_out m ap k Percent = [37]"
| "item_out m ap k Str = cstring m KSTRLEN_MAX_SIZE_UNKNOWN (ap k)"
| "item_out m ap k StrN = bytes_at m (ap k) (unat (ap (k + 1)))"
| "item_out m ap k (Num sg hx sf) = number_out sg hx sf (ap k)"

definition fmt_text :: "fmt_item list \<Rightarrow> u8 list" where
  "fmt_text is = concat (map item_text is)"

fun fmt_ok :: "fmt_item list \<Rightarrow> bool" where
  "fmt_ok [] \<longleftrightarrow> True"
| "fmt_ok (i # is) \<longleftrightarrow> item_ok i (hd (fmt_text is @ [0])) \<and> fmt_ok is"

fun fmt_out :: "mem \<Rightarrow> (nat \<Rightarrow> u64) \<Rightarrow> nat \<Rightarrow> fmt_item list \<Rightarrow> u8 list" where
  "fmt_out m ap k [] = []"
| "fmt_out m ap k (i # is) = item_out m ap k i @ fmt_out m ap (k + item_args i) is"

text \<open>The loop with the write behind it.\<close>

definition kv_run :: "mem \<Rightarrow> (nat \<Rightarrow> u64) \<Rightarrow> (nat \<Rightarrow> u8) \<Rightarrow> nat \<Rightarrow> u64 \<Rightarrow> u64 \<Rightarrow> 'a con_state_scheme \<Rightarrow> 'a con_state_scheme res" where
  "kv_run m ap buf k rs p s = bind_res (ends (kvprintf_loop m ap buf k rs p s)) (\<lambda>(rs, p, s).
     if p \<noteq> rs then kv_write (bytes_at m rs (unat (p - rs))) s else Ok s)"

lemma kv_run_end:
  assumes "m p = 0" "con_driver s" "cursor_ok s"
  shows "kv_run m ap buf k rs p s = Ok (sent (bytes_at m rs (unat (p - rs))) s)"
  using assms by (auto simp: kv_run_def kvprintf_loop.simps ends_def kv_write_sent bytes_at_done vga_write_Nil)

lemma kv_run_char: "m p \<noteq> 0 \<Longrightarrow> m p \<noteq> 37 \<Longrightarrow> kv_run m ap buf k rs p s = kv_run m ap buf k rs (p + 1) s"
  unfolding kv_run_def by (subst kvprintf_loop.simps) simp

lemma kv_run_lit:
  assumes "bytes_at m p (length xs) = xs" "0 \<notin> set xs" "37 \<notin> set xs"
  shows "kv_run m ap buf k rs p s = kv_run m ap buf k rs (p + of_nat (length xs)) s"
  using assms
proof (induction xs arbitrary: p)
  case (Cons x xs)
  then have "m p = x" "bytes_at m (p + 1) (length xs) = xs" by (simp_all add: bytes_at_Suc)
  moreover have "kv_run m ap buf k rs p s = kv_run m ap buf k rs (p + 1) s"
    by (rule kv_run_char) (use calculation Cons.prems in auto)
  ultimately show ?case using Cons.IH[of "p + 1"] Cons.prems by (simp add: add.assoc)
qed simp

lemma kv_run_directive:
  assumes "m p = 37" "con_driver s"
  shows "kv_run m ap buf k rs p s = bind_res (fmt_switch m ap buf k rs (p + 1) (sent (bytes_at m rs (unat (p - rs))) s))
    (\<lambda>(k, rs, p, s). kv_run m ap buf k rs p s)"
  unfolding kv_run_def
  by (subst kvprintf_loop.simps)
    (cases "fmt_switch m ap buf k rs (p + 1) (sent (bytes_at m rs (unat (p - rs))) s)",
      auto simp: assms kv_write_sent ends_def)

fun suffix_size :: "u8 option \<Rightarrow> u64" where
  "suffix_size None = 8"
| "suffix_size (Some d) = (if d = 98 then 1 else if d = 115 then 2 else if d = 108 then 4 else 8)"

lemma fmt_int_flags_num:
  assumes "bytes_at m p (length ys) = ys" "ys = tl (item_text (Num sg hx sf)) @ [c]" "item_ok (Num sg hx sf) c"
  shows "fmt_int_flags m p = (sg, if hx then 16 else 10, suffix_size sf, p + of_nat (length ys - 1))"
proof (cases sf)
  case None
  then show ?thesis using assms by (cases sg; cases hx) (auto simp: bytes_at_Suc fmt_int_flags_def size_letters_def add.assoc)
next
  case (Some d)
  then show ?thesis using assms by (cases sg; cases hx) (auto simp: bytes_at_Suc fmt_int_flags_def size_letters_def add.assoc)
qed

lemma fmt_int_num:
  assumes t: "bytes_at m p (length ys) = ys" "ys = tl (item_text (Num sg hx sf)) @ [c]" "item_ok (Num sg hx sf) c"
    and d: "con_driver s"
  shows "fmt_int m ap buf k p s = Ok (k + 1, p + of_nat (length ys - 1), sent (number_out sg hx sf (ap k)) s)"
proof -
  define base where "base = (if hx then 16 else 10 :: u64)"
  define sz where "sz = suffix_size sf"
  define v where "v = (if sg then (if sz \<le> 4 then scast (ucast (ap k) :: u32) else ap k)
    else (if sz \<le> 4 then ucast (ucast (ap k) :: u32) else ap k))"
  define w where "w = (if sg \<and> sint v < 0 then - v else v)"
  have "sz \<le> 4 \<longleftrightarrow> sf \<notin> {None, Some 113}" using t(3) by (cases sf) (auto simp: sz_def size_letters_def)
  then have o: "number_out sg hx sf (ap k) = (if sg \<and> sint v < 0 then [45] else []) @ number_text w base"
    by (auto simp: number_out_def v_def w_def base_def Let_def)
  obtain b n where bn: "itoa buf w base = (b, n)" by fastforce
  then have "buf_text b n = number_text w base" using itoa_text[of base buf w] by (simp add: base_def)
  then have "fmt_int m ap buf k p s = bind_res (if sg \<and> sint v < 0 then kv_write [45] s else Ok s) (\<lambda>s.
      bind_res (kv_write (number_text w base) s) (\<lambda>s. Ok (k + 1, p + of_nat (length ys - 1), s)))"
    unfolding fmt_int_def fmt_int_flags_num[OF t] Let_def prod.case base_def[symmetric] sz_def[symmetric]
    unfolding v_def[symmetric] w_def[symmetric] bn prod.case by (simp only:)
  then show ?thesis using d unfolding o by (simp add: kv_write_sent vga_write_append)
qed

text \<open>A directive takes its arguments and writes its output, except that the second \<open>%\<close> of \<open>%%\<close> is left
  for the text that follows.\<close>

lemma fmt_switch_item:
  assumes i: "\<And>xs. i \<noteq> Lit xs" and t: "bytes_at m p (length (item_text i @ [c])) = item_text i @ [c]" and ok: "item_ok i c"
    and d: "con_driver s"
  defines "q \<equiv> p + of_nat (length (item_text i))"
  shows "fmt_switch m ap buf k rs (p + 1) s =
    (if i = Percent then Ok (k, p + 1, q, s) else Ok (k + item_args i, q, q, sent (item_out m ap k i) s))"
proof (cases i)
  case (Lit xs)
  then show ?thesis using i by blast
next
  case Percent
  then show ?thesis using t by (simp add: bytes_at_Suc fmt_switch_def q_def add.assoc)
next
  case Str
  then have "m (p + 1) = 115" "m (p + 1 + 1) \<noteq> 110" using t ok by (simp_all add: bytes_at_Suc add.assoc)
  then show ?thesis using Str d
    by (simp add: fmt_switch_def fmt_s_def q_def kv_write_sent unat_kstrlen cstring_bytes[symmetric] add.assoc)
next
  case StrN
  then have "m (p + 1) = 115" "m (p + 1 + 1) = 110" using t by (simp_all add: bytes_at_Suc add.assoc)
  then show ?thesis using StrN d by (simp add: fmt_switch_def fmt_s_def q_def kv_write_sent add.assoc)
next
  case (Num sg hx sf)
  let ?ys = "tl (item_text i) @ [c]"
  have y: "item_text i = 37 # tl (item_text i)" using Num by simp
  have b: "bytes_at m (p + 1) (length ?ys) = ?ys"
    using t by (subst (asm) (1 2) y) (simp add: bytes_at_Suc del: item_text.simps)
  have c: "m (p + 1) = 83 \<or> m (p + 1) = 120 \<or> m (p + 1) = 100"
    using b Num by (cases sg; cases hx) (auto simp: bytes_at_Suc)
  have "fmt_int m ap buf k (p + 1) s = Ok (k + 1, p + 1 + of_nat (length ?ys - 1), sent (number_out sg hx sf (ap k)) s)"
    by (rule fmt_int_num[OF b _ _ d]) (use Num ok in simp_all)
  moreover have "p + 1 + of_nat (length ?ys - 1) = q" unfolding q_def by (subst y) (simp add: add.assoc)
  ultimately show ?thesis using c Num by (auto simp: fmt_switch_def)
qed

text \<open>The text from \<open>rs\<close> that was passed over comes first.\<close>

lemma bytes_at_split:
  assumes "bytes_at m p (Suc (length (xs @ ys))) = (xs @ ys) @ [c]"
  shows "bytes_at m p (length xs) = xs" "bytes_at m (p + of_nat (length xs)) (Suc (length ys)) = ys @ [c]"
    "bytes_at m p (length (xs @ [hd (ys @ [c])])) = xs @ [hd (ys @ [c])]"
proof -
  have "bytes_at m p (length xs) @ bytes_at m (p + of_nat (length xs)) (Suc (length ys)) = xs @ (ys @ [c])"
    using assms bytes_at_append[of m p "length xs" "Suc (length ys)"] by simp
  then show a: "bytes_at m p (length xs) = xs" "bytes_at m (p + of_nat (length xs)) (Suc (length ys)) = ys @ [c]"
    using append_eq_append_conv[of "bytes_at m p (length xs)" xs] by simp_all
  then have "m (p + of_nat (length xs)) = hd (ys @ [c])" by (simp add: bytes_at_Suc del: list.simps(1)) (metis list.sel(1))
  then show "bytes_at m p (length (xs @ [hd (ys @ [c])])) = xs @ [hd (ys @ [c])]"
    using a(1) bytes_at_append[of m p "length xs" 1] by (simp add: bytes_at_Suc bytes_at_done)
qed

lemma kv_run_items:
  assumes "con_driver s" "cursor_ok s" "bytes_at m p (Suc (length (fmt_text is))) = fmt_text is @ [0]" "fmt_ok is"
    and "p = rs + of_nat j" "j + length (fmt_text is) < 2 ^ 64"
  shows "kv_run m ap buf k rs p s = Ok (sent (bytes_at m rs j @ fmt_out m ap k is) s)"
  using assms
proof (induction "is" arbitrary: k rs p s j)
  case Nil
  then have "m p = 0" by (simp add: fmt_text_def bytes_at_Suc bytes_at_done)
  then show ?case using Nil.prems kv_run_end[of m p s] by (simp add: unat_of_nat_small)
next
  case (Cons i "is")
  let ?T = "item_text i" and ?U = "fmt_text is"
  have T: "fmt_text (i # is) = ?T @ ?U" by (simp add: fmt_text_def)
  note sp = bytes_at_split[OF Cons.prems(3)[unfolded T]]
  have ok: "item_ok i (hd (?U @ [0]))" "fmt_ok is" using Cons.prems(4) by simp_all
  show ?case
  proof (cases "\<exists>xs. i = Lit xs")
    case True
    then obtain xs where i: "i = Lit xs" ..
    have "kv_run m ap buf k rs p s = kv_run m ap buf k rs (p + of_nat (length xs)) s"
      using kv_run_lit[of m p xs] sp(1) ok(1) i by simp
    also have "\<dots> = Ok (sent (bytes_at m rs (j + length xs) @ fmt_out m ap k is) s)"
      by (rule Cons.IH) (use Cons.prems sp(2) ok(2) i T in \<open>simp_all add: add.assoc\<close>)
    finally show ?thesis using sp(1) Cons.prems(5) i by (simp add: bytes_at_append)
  next
    case False
    let ?s = "sent (bytes_at m rs j) s" and ?q = "p + of_nat (length ?T)"
    have p: "m p = 37" using sp(1) False by (cases i) (simp_all add: bytes_at_Suc)
    have "unat (p - rs) = j" using Cons.prems(5,6) by (simp add: unat_of_nat_small)
    then have r: "kv_run m ap buf k rs p s = bind_res (fmt_switch m ap buf k rs (p + 1) ?s) (\<lambda>(k, rs, p, s). kv_run m ap buf k rs p s)"
      using kv_run_directive[of m p s ap buf k rs] p Cons.prems(1) by simp
    have w: "fmt_switch m ap buf k rs (p + 1) ?s =
      (if i = Percent then Ok (k, p + 1, ?q, ?s) else Ok (k + item_args i, ?q, ?q, sent (item_out m ap k i) ?s))"
      by (rule fmt_switch_item) (use False sp(3) ok(1) Cons.prems(1) in auto)
    have l: "length ?T + length ?U < 2 ^ 64" using Cons.prems(6) T by simp
    show ?thesis
    proof (cases "i = Percent")
      case True
      have "kv_run m ap buf k (p + 1) ?q ?s = Ok (sent (bytes_at m (p + 1) 1 @ fmt_out m ap k is) ?s)"
        by (rule Cons.IH) (use Cons.prems(1) sp(2) ok(2) l True in \<open>simp_all add: vga_write_cursor_ok add.assoc\<close>)
      moreover have "bytes_at m (p + 1) 1 = [37]" using sp(1) True by (simp add: bytes_at_Suc bytes_at_done)
      ultimately show ?thesis using True by (simp add: r w vga_write_append)
    next
      case n: False
      have "kv_run m ap buf (k + item_args i) ?q ?q (sent (item_out m ap k i) ?s) =
          Ok (sent (bytes_at m ?q 0 @ fmt_out m ap (k + item_args i) is) (sent (item_out m ap k i) ?s))"
        by (rule Cons.IH) (use Cons.prems(1) sp(2) ok(2) l in \<open>simp_all add: vga_write_cursor_ok\<close>)
      then show ?thesis using n by (simp add: r w vga_write_append bytes_at_done)
    qed
  qed
qed

lemma vga_write_lock: "vga_text_write fg bg xs (s\<lparr>con_lock := x\<rparr>) = (vga_text_write fg bg xs s)\<lparr>con_lock := x\<rparr>"
proof -
  have "vga_put color c (s\<lparr>con_lock := x\<rparr>) = (vga_put color c s)\<lparr>con_lock := x\<rparr>" for color c and s :: "'a con_state_scheme"
    by (simp add: vga_put_def newline_def vga_text_scroll_def update_cursor_def Let_def)
  then have "fold (vga_put color) xs (s\<lparr>con_lock := x\<rparr>) = (fold (vga_put color) xs s)\<lparr>con_lock := x\<rparr>" for color
    by (induction xs arbitrary: s) simp_all
  then show ?thesis by (simp add: vga_text_write_def Let_def update_cursor_def)
qed

lemma kvprintf_run:
  assumes "spinlock_lock (con_lock s) (con_cpu s) = Ok (flag, l, c)"
  shows "kvprintf m ap buf fmt s = bind_res (kv_run m ap buf 0 fmt fmt (s\<lparr>con_lock := l, con_cpu := c\<rparr>)) (\<lambda>s.
     bind_res (spinlock_unlock (con_lock s) flag (con_cpu s)) (\<lambda>(l, c). Ok (s\<lparr>con_lock := l, con_cpu := c\<rparr>)))"
  unfolding kvprintf_def kv_run_def assms
  by (cases "ends (kvprintf_loop m ap buf 0 fmt fmt (s\<lparr>con_lock := l, con_cpu := c\<rparr>))") auto

section \<open>Properties\<close>

text \<open>C34: A decimal number is printed without leading zeros and a hexadecimal one with sixteen
  places, in at most 20 of the 64 bytes of the buffer, and reading the digits back gives the number.\<close>

theorem itoa_reads_back:
  assumes "base = 10 \<or> base = 16"
  shows "let (b, n) = itoa buf i base; ds = digits (unat base) (unat i)
    in buf_text b n = map (\<lambda>d. alphabet ! d) (replicate (n - length ds) 0 @ ds) \<and>
       n = (if base = 16 then 16 else length ds) \<and> n \<le> 20 \<and>
       (\<forall>d \<in> set ds. d < unat base) \<and> undigits (unat base) ds = unat i"
proof -
  let ?ds = "digits (unat base) (unat i)"
  obtain b n where bn: "itoa buf i base = (b, n)" by fastforce
  have u: "2 \<le> unat base" using assms by auto
  have l: "length ?ds \<le> (if base = 16 then 16 else 20)"
    using assms unat_u64_less[of i] digits_length[of 16 "unat i" 16] digits_length[of 10 "unat i" 20] by auto
  have t: "buf_text b n = number_text i base" using itoa_text[OF assms, of buf i] bn by simp
  have "n = length (number_text i base)" using arg_cong[OF t, of length] by (simp add: buf_text_def)
  then have n: "n = (if base = 16 then 16 else length ?ds)" using l by (cases "base = 16") (simp_all add: number_text_def Let_def)
  have "buf_text b n = map (\<lambda>d. alphabet ! d) (replicate (n - length ?ds) 0 @ ?ds)"
    unfolding t using n by (simp add: number_text_def Let_def)
  moreover have "n \<le> 20" using n l by (simp split: if_splits)
  ultimately show ?thesis using n digits_less[OF u] undigits_digits[OF u] unfolding bn Let_def by blast
qed

theorem itoa_reads_back_witness:
  "let (b, n) = itoa (\<lambda>j. 7) 1905 10 in buf_text b n = [49, 57, 48, 53] \<and> n = 4"
proof -
  obtain b n where bn: "itoa (\<lambda>j. 7) 1905 10 = (b, n)" by fastforce
  have d: "digits 10 1905 = [1, 9, 0, 5]" by (simp add: digits.simps)
  have "buf_text b n = map (\<lambda>d. alphabet ! d) (replicate (n - 4) 0 @ [1, 9, 0, 5])" "n = 4"
    using itoa_reads_back[of 10 "\<lambda>j. 7" 1905] unfolding bn Let_def prod.case by (auto simp: d)
  then show ?thesis unfolding bn by (auto simp: alphabet_def)
qed

text \<open>C27: With a driver set and the lock free, \<open>kvprintf\<close> terminates for every format of the language its
  comment describes, writes the text of each item in order with the arguments it takes, and gives
  the lock and the interrupt flag back.\<close>

theorem kvprintf_renders:
  assumes "con_driver s" "cursor_ok s" "\<not> sl_locked (con_lock s)"
    and "bytes_at m fmt (Suc (length (fmt_text is))) = fmt_text is @ [0]" "fmt_ok is" "length (fmt_text is) < 2 ^ 64"
  shows "kvprintf m ap buf fmt s =
    Ok ((vga_text_write CON_COLOR_LIGHT_GRAY CON_COLOR_BLACK (fmt_out m ap 0 is) s)
        \<lparr>con_lock := (con_lock s)\<lparr>sl_owner := cpu_id (con_cpu s)\<rparr>\<rparr>)"
proof -
  let ?l = "(con_lock s)\<lparr>sl_locked := True, sl_owner := cpu_id (con_cpu s)\<rparr>" and ?c = "(con_cpu s)\<lparr>cpu_if := False\<rparr>"
  let ?s = "s\<lparr>con_lock := ?l, con_cpu := ?c\<rparr>"
  have k: "spinlock_lock (con_lock s) (con_cpu s) = Ok (cpu_if (con_cpu s), ?l, ?c)"
    using assms(3) by (simp add: spinlock_lock_def Let_def interrupt_save_flag_def interrupt_disable_preemption_def)
  have r: "kv_run m ap buf 0 fmt fmt ?s = Ok (sent (bytes_at m fmt 0 @ fmt_out m ap 0 is) ?s)"
    by (rule kv_run_items) (use assms in \<open>simp_all add: cursor_ok_def\<close>)
  have "spinlock_unlock ?l (cpu_if (con_cpu s)) ?c = Ok (?l\<lparr>sl_locked := False\<rparr>, con_cpu s)"
    by (rule spinlock_roundtrip(1)[OF k])
  moreover have "?l\<lparr>sl_locked := False\<rparr> = (con_lock s)\<lparr>sl_owner := cpu_id (con_cpu s)\<rparr>" using assms(3) by (cases "con_lock s") simp
  moreover have "(sent (fmt_out m ap 0 is) s)\<lparr>con_lock := x, con_cpu := con_cpu s\<rparr> = (sent (fmt_out m ap 0 is) s)\<lparr>con_lock := x\<rparr>" for x
    using vga_write_con(2)[of CON_COLOR_LIGHT_GRAY CON_COLOR_BLACK "fmt_out m ap 0 is" s] by (cases "sent (fmt_out m ap 0 is) s") simp
  ultimately show ?thesis
    by (simp add: kvprintf_run[OF k] r bytes_at_done vga_write_lock vga_write_cpu)
qed

definition demo_items :: "fmt_item list" where
  "demo_items = [Lit [110, 61], Num True False None, Percent, Lit [33]]"

definition demo_con :: "con_state" where
  "demo_con = \<lparr>pos_x = 0, pos_y = 0, vga_mem = (\<lambda>a. 0), vga_cursor = 0, con_driver = True,
     con_lock = \<lparr>sl_locked = False, sl_owner = 0\<rparr>, con_cpu = \<lparr>cpu_id = 2, cpu_if = True\<rparr>\<rparr>"

text \<open>The format \<open>n=%Sd%%!\<close> with the argument \<open>-42\<close>.\<close>

theorem kvprintf_renders_witness:
  "kvprintf (\<lambda>a. if a < 9 then [110, 61, 37, 83, 100, 37, 37, 33, 0] ! unat a else 0) (\<lambda>k. - 42) (\<lambda>j. 0) 0 demo_con =
    Ok ((vga_text_write CON_COLOR_LIGHT_GRAY CON_COLOR_BLACK [110, 61, 45, 52, 50, 37, 33] demo_con)
        \<lparr>con_lock := (con_lock demo_con)\<lparr>sl_owner := 2\<rparr>\<rparr>)"
proof -
  let ?m = "\<lambda>a :: u64. if a < 9 then [110, 61, 37, 83, 100, 37, 37, 33, 0] ! unat a else 0 :: u8"
  have s: "con_driver demo_con" "cursor_ok demo_con" "\<not> sl_locked (con_lock demo_con)"
    by (simp_all add: demo_con_def cursor_ok_def)
  have t: "fmt_text demo_items = [110, 61, 37, 83, 100, 37, 37, 33]" by (simp add: fmt_text_def demo_items_def)
  have b: "bytes_at ?m 0 (Suc (length (fmt_text demo_items))) = fmt_text demo_items @ [0]"
    unfolding t by (simp add: bytes_at_Suc bytes_at_done)
  have f: "fmt_ok demo_items" by (simp add: demo_items_def fmt_text_def size_letters_def)
  have d: "digits 10 42 = [4, 2]" by (simp add: digits.simps)
  have o: "fmt_out ?m (\<lambda>k. - 42) 0 demo_items = [110, 61, 45, 52, 50, 37, 33]"
    by (simp add: demo_items_def number_out_def number_text_def d alphabet_def Let_def)
  have "length (fmt_text demo_items) < 2 ^ 64" by (simp add: t)
  then show ?thesis using kvprintf_renders[OF s b f, of "\<lambda>k. - 42" "\<lambda>j. 0", unfolded o] by (simp add: demo_con_def)
qed

end
