(* ===== verification/K_panic.thy ===== *)
theory K_panic
  imports K_paging K_console
begin

text \<open>
  \<open>kernel/k_panic.c\<close>: the table of symbols that the boot loader leaves in memory, the binary search in it, the trace of the stack frames
  and the panic.  The memory \<open>m\<close> is read at the kernel's virtual addresses; \<open>lit\<close> gives the addresses of string literals.  In
  the rest of the model a panic is a value of \<open>fault\<close>.
\<close>

record sym_state =
  have_sym_table :: bool
  sym_table :: u64
  sym_str_table :: u64
  sym_start :: u64
  sym_end :: u64

definition kern_sym_table_load :: "u64 \<Rightarrow> u64 \<Rightarrow> 'a sym_state_scheme \<Rightarrow> 'a sym_state_scheme" where
  "kern_sym_table_load b e s = s\<lparr>have_sym_table := True, sym_start := b, sym_end := e\<rparr>"

text \<open>\<open>struct sym_table_s\<close>: the offset of the strings and then pairs of words.\<close>

definition st_str_table_offset :: "mem \<Rightarrow> u64 \<Rightarrow> u64" where
  "st_str_table_offset m t = rd64 m t"

definition st_address :: "mem \<Rightarrow> u64 \<Rightarrow> u64 \<Rightarrow> u64" where
  "st_address m t i = rd64 m (t + 8 + 16 * i)"

definition st_str_pos :: "mem \<Rightarrow> u64 \<Rightarrow> u64 \<Rightarrow> u64" where
  "st_str_pos m t i = rd64 m (t + 16 + 16 * i)"

definition symbol_table_load :: "mem \<Rightarrow> u64 \<Rightarrow> u64 \<Rightarrow> 'a sym_state_scheme \<Rightarrow> 'a sym_state_scheme" where
  "symbol_table_load m b e s =
     (if b + st_str_table_offset m b \<ge> e then s
      else s\<lparr>sym_table := b, sym_str_table := b + st_str_table_offset m b\<rparr>)"

text \<open>The search; it returns the index of the entry.\<close>

partial_function (option) sym_search :: "mem \<Rightarrow> u64 \<Rightarrow> u64 \<Rightarrow> u64 \<Rightarrow> u64 \<Rightarrow> u64 option" where
  "sym_search m t address b e =
     (if e - b = 1 then Some b
      else (let mid = (e - b) div 2 + b
        in if st_address m t mid > address then sym_search m t address b mid
           else sym_search m t address mid e))"

text \<open>The name, 0 for none, and the offset within the symbol.\<close>

definition sym_table_lookup ::
    "mem \<Rightarrow> u64 \<Rightarrow> u64 \<Rightarrow> 'a sym_state_scheme \<Rightarrow> (u64 \<times> u64 \<times> 'a sym_state_scheme) res" where
  "sym_table_lookup m address offset s =
     (if \<not> have_sym_table s then Ok (0, offset, s)
      else (let
        s = symbol_table_load m (vm_get_vma_for_pma (sym_start s)) (vm_get_vma_for_pma (sym_end s)) s;
        t = sym_table s
      in nonnull t
        (let e = (st_str_table_offset m t - 8) div 16
         in if address < st_address m t 0 then Ok (0, offset, s)
            else bind_res (ends (map_option Ok (sym_search m t address 0 e))) (\<lambda>i.
              Ok (sym_str_table s + st_str_pos m t i, address - st_address m t i, s)))))"

text \<open>\<open>__stack_trace\<close> from the frame \<open>rbp\<close> on.  \<open>offset\<close> is a variable that is set only when there is a table.\<close>

definition kargs :: "u64 list \<Rightarrow> nat \<Rightarrow> u64" where
  "kargs xs k = (if k < length xs then xs ! k else 0)"

definition trace_line ::
    "mem \<Rightarrow> (string \<Rightarrow> u64) \<Rightarrow> (nat \<Rightarrow> u8) \<Rightarrow> u64 \<Rightarrow> u64 \<Rightarrow> 'a sym_state_scheme \<Rightarrow> 'b con_state_scheme \<Rightarrow> (u64 \<times> 'a sym_state_scheme \<times> 'b con_state_scheme) res" where
  "trace_line m lit buf rip offset s c = bind_res (sym_table_lookup m rip offset s) (\<lambda>(sym, offset, s).
     bind_res (if sym \<noteq> 0 then kprintf m (kargs [rip, sym, offset]) buf (lit (CHR 0x09 # ''at 0x%x <%s+0x%x>'' @ [CHR 0x0A])) c
         else kprintf m (kargs [rip]) buf (lit (CHR 0x09 # ''at 0x%x'' @ [CHR 0x0A])) c) (\<lambda>c.
     Ok (offset, s, c)))"

partial_function (option) stack_trace_loop ::
    "mem \<Rightarrow> (string \<Rightarrow> u64) \<Rightarrow> (nat \<Rightarrow> u8) \<Rightarrow> u64 \<Rightarrow> u64 \<Rightarrow> 'a sym_state_scheme \<Rightarrow> 'b con_state_scheme \<Rightarrow> ('a sym_state_scheme \<times> 'b con_state_scheme) res option" where
  "stack_trace_loop m lit buf rbp offset s c =
     (if rbp = 0 then Some (Ok (s, c))
      else case trace_line m lit buf (rd64 m (rbp + 8)) offset s c of
          Fail e \<Rightarrow> Some (Fail e)
        | Ok (offset, s, c) \<Rightarrow> stack_trace_loop m lit buf (rd64 m rbp) offset s c)"

definition stack_trace ::
    "mem \<Rightarrow> (string \<Rightarrow> u64) \<Rightarrow> (nat \<Rightarrow> u8) \<Rightarrow> u64 \<Rightarrow> u64 \<Rightarrow> 'a sym_state_scheme \<Rightarrow> 'b con_state_scheme \<Rightarrow> ('a sym_state_scheme \<times> 'b con_state_scheme) res" where
  "stack_trace m lit buf rbp offset s c =
     bind_res (kprintf m (kargs []) buf (lit (CHR 0x0A # ''stacktrace:'' @ [CHR 0x0A])) c) (\<lambda>c.
     ends (stack_trace_loop m lit buf rbp offset s c))"

text \<open>\<open>__panic\<close>: the state in which the processor halts for good.\<close>

definition panic ::
    "mem \<Rightarrow> (string \<Rightarrow> u64) \<Rightarrow> (nat \<Rightarrow> u8) \<Rightarrow> u64 \<Rightarrow> u64 \<Rightarrow> u64 \<Rightarrow> u64 \<Rightarrow> u64 \<Rightarrow> (nat \<Rightarrow> u64) \<Rightarrow> 'a sym_state_scheme \<Rightarrow> 'b con_state_scheme \<Rightarrow>
     ('a sym_state_scheme \<times> 'b con_state_scheme) res" where
  "panic m lit buf rbp offset func lineno fmt ap s c = (let
     c = c\<lparr>con_cpu := interrupt_disable_preemption (con_cpu c)\<rparr>
   in bind_res (kprintf m (kargs [func, lineno, cpu_id (con_cpu c)]) buf (lit (''%s:%d:[CPU%d]PANIC:'' @ [CHR 0x09])) c) (\<lambda>c.
      bind_res (kvprintf m ap buf fmt c) (\<lambda>c.
      bind_res (stack_trace m lit buf rbp offset s c) (\<lambda>(s, c).
      Ok (s, c\<lparr>con_cpu := interrupt_disable_preemption (con_cpu c)\<rparr>)))))"

declare stack_trace_loop.simps [code] sym_search.simps [code]

text \<open>A panic while the lock of the console is taken prints nothing: the processor waits for the lock for ever.\<close>

lemma panic_silent: "sl_locked (con_lock c) \<Longrightarrow> panic m lit buf rbp offset func lineno fmt ap s c = Fail Blocked"
  by (simp add: panic_def kprintf_def kvprintf_def spinlock_lock_def Let_def)

section \<open>The search\<close>

lemma mid_between:
  fixes b e :: u64
  assumes "b < e" "e - b \<noteq> 1"
  shows "b < (e - b) div 2 + b" "(e - b) div 2 + b < e"
proof -
  have d: "unat (e - b) = unat e - unat b" using assms(1) by (simp add: unat_sub_le)
  have be: "unat b < unat e" using assms(1) by (simp add: word_less_nat_alt)
  moreover have "unat (e - b) \<noteq> 1" using assms(2) by (metis unat_1 word_unat_eq_iff)
  ultimately have g: "2 \<le> unat e - unat b" using d by linarith
  have h: "unat ((e - b) div 2) = (unat e - unat b) div 2" using d by (simp add: unat_div_distrib)
  have "(unat e - unat b) div 2 + unat b < unat e" using be g by linarith
  moreover have "unat ((e - b) div 2 + b) = (unat e - unat b) div 2 + unat b"
    using h calculation unat_u64_less[of e] by (subst unat_add_no_wrap) auto
  ultimately show "b < (e - b) div 2 + b" "(e - b) div 2 + b < e" using g by (simp_all add: word_less_nat_alt)
qed

text \<open>The search ends at an entry that begins at or before the address and whose successor does not.\<close>

lemma sym_search_finds:
  assumes "b < e" "st_address m t b \<le> address" "e = n \<or> address < st_address m t e" "e \<le> n"
  shows "\<exists>i. sym_search m t address b e = Some i \<and> i < n \<and> st_address m t i \<le> address \<and>
    (i + 1 = n \<or> address < st_address m t (i + 1))"
  using assms
proof (induction "unat e - unat b" arbitrary: b e rule: less_induct)
  case less
  show ?case
  proof (cases "e - b = 1")
    case True
    then have e: "e = b + 1" by (simp add: diff_eq_eq add.commute)
    then show ?thesis using less.prems by (subst sym_search.simps) (auto simp: True)
  next
    case False
    let ?mid = "(e - b) div 2 + b"
    note m = mid_between[OF less.prems(1) False]
    have u: "unat b < unat ?mid" "unat ?mid < unat e" using m by (simp_all only: word_less_nat_alt)
    have s: "sym_search m t address b e =
        (if st_address m t ?mid > address then sym_search m t address b ?mid else sym_search m t address ?mid e)"
      using False by (subst sym_search.simps) (simp add: Let_def)
    show ?thesis
    proof (cases "st_address m t ?mid > address")
      case True
      then show ?thesis unfolding s if_P[OF True]
        by (intro less.hyps) (use u m less.prems in auto)
    next
      case F: False
      then show ?thesis unfolding s if_not_P[OF F]
        by (intro less.hyps) (use u m less.prems in auto)
    qed
  qed
qed

lemma sorted_last:
  assumes "\<And>i j. i \<le> j \<Longrightarrow> j < n \<Longrightarrow> f i \<le> f j" "i + 1 = n \<or> a < f (i + 1)" "i < n" "j < n" "f j \<le> (a :: u64)"
  shows "j \<le> (i :: u64)"
proof (rule ccontr)
  assume "\<not> j \<le> i"
  then have j: "i + 1 \<le> j" by (simp add: inc_le)
  then have "i + 1 \<noteq> n" using assms(4) by auto
  then have "a < f (i + 1)" using assms(2) by simp
  then show False using assms(1)[OF j assms(4)] assms(5) by simp
qed

section \<open>Properties\<close>

text \<open>In a table of symbols that is sorted by address the search ends and finds the last symbol
  that begins at or before the address, with the distance from its start; an address in front
  of the first symbol has no name.\<close>

theorem sym_lookup_last:
  assumes h: "have_sym_table s" and t: "t = vm_get_vma_for_pma (sym_start s)" "t \<noteq> 0"
    and f: "t + st_str_table_offset m t < vm_get_vma_for_pma (sym_end s)"
    and n: "n = (st_str_table_offset m t - 8) div 16" "0 < n"
    and sorted: "\<And>i j. i \<le> j \<Longrightarrow> j < n \<Longrightarrow> st_address m t i \<le> st_address m t j"
  shows "\<exists>nm off u. sym_table_lookup m address offset s = Ok (nm, off, u) \<and>
    (if address < st_address m t 0 then nm = 0 \<and> off = offset
     else \<exists>i < n. nm = t + st_str_table_offset m t + st_str_pos m t i \<and> off = address - st_address m t i \<and>
       st_address m t i \<le> address \<and> (\<forall>j < n. st_address m t j \<le> address \<longrightarrow> j \<le> i))"
proof -
  let ?u = "s\<lparr>sym_table := t, sym_str_table := t + st_str_table_offset m t\<rparr>"
  have l: "symbol_table_load m (vm_get_vma_for_pma (sym_start s)) (vm_get_vma_for_pma (sym_end s)) s = ?u"
    using f t by (simp add: symbol_table_load_def)
  show ?thesis
  proof (cases "address < st_address m t 0")
    case True
    then show ?thesis using h t(2) by (simp add: sym_table_lookup_def l Let_def nonnull_def)
  next
    case False
    then have "st_address m t 0 \<le> address" by simp
    from sym_search_finds[OF n(2) this disjI1[OF refl] order_refl]
    obtain i where i: "sym_search m t address 0 n = Some i" "i < n" "st_address m t i \<le> address"
        "i + 1 = n \<or> address < st_address m t (i + 1)" by blast
    then have "\<forall>j < n. st_address m t j \<le> address \<longrightarrow> j \<le> i" using sorted_last[of n "st_address m t" i address, OF sorted] by blast
    moreover have "sym_table_lookup m address offset s =
        Ok (t + st_str_table_offset m t + st_str_pos m t i, address - st_address m t i, ?u)"
      using h t(2) False i(1) n by (simp add: sym_table_lookup_def l Let_def nonnull_def ends_def)
    ultimately show ?thesis using False i by auto
  qed
qed

text \<open>A table of two symbols at the start of physical memory.\<close>

definition demo_symbols :: mem where
  "demo_symbols = wr64 0xffff808000000000 40 (wr64 0xffff808000000008 100 (wr64 0xffff808000000010 0
     (wr64 0xffff808000000018 200 (wr64 0xffff808000000020 5 (\<lambda>_. 0)))))"

lemma demo_symbols_words:
  "rd64 demo_symbols 0xffff808000000000 = 40" "rd64 demo_symbols 0xffff808000000008 = 100"
  "rd64 demo_symbols 0xffff808000000010 = 0" "rd64 demo_symbols 0xffff808000000018 = 200"
  "rd64 demo_symbols 0xffff808000000020 = 5"
  by (simp_all add: demo_symbols_def rd64_wr64_other)

theorem sym_lookup_last_witness:
  "\<exists>u. sym_table_lookup demo_symbols 250 7
     \<lparr>have_sym_table = True, sym_table = 0, sym_str_table = 0, sym_start = 0, sym_end = 0x100\<rparr> =
     Ok (0xffff808000000000 + 40 + 5, 50, u)"
proof -
  let ?s = "\<lparr>have_sym_table = True, sym_table = 0, sym_str_table = 0, sym_start = 0, sym_end = 0x100\<rparr>"
  let ?t = "0xffff808000000000 :: u64"
  have v: "vm_get_vma_for_pma 0 = ?t" "vm_get_vma_for_pma 0x100 = 0xffff808000000100"
    by (simp_all add: vm_get_vma_for_pma_def PM_MAP_BASE_def)
  have o: "st_str_table_offset demo_symbols ?t = 40" by (simp add: st_str_table_offset_def demo_symbols_words)
  have a: "st_address demo_symbols ?t 0 = 100" "st_address demo_symbols ?t 1 = 200" "st_str_pos demo_symbols ?t 1 = 5"
    by (simp_all add: st_address_def st_str_pos_def demo_symbols_words)
  have two: "i = 0 \<or> i = 1" if "i < 2" for i :: u64
  proof -
    have "unat i = 0 \<or> unat i = 1" using that by (simp add: word_less_nat_alt) linarith
    then show ?thesis by (metis unat_eq_0 unat_1 word_unat_eq_iff)
  qed
  have "\<exists>nm off u. sym_table_lookup demo_symbols 250 7 ?s = Ok (nm, off, u) \<and>
    (if 250 < st_address demo_symbols ?t 0 then nm = 0 \<and> off = 7
     else \<exists>i < 2. nm = ?t + st_str_table_offset demo_symbols ?t + st_str_pos demo_symbols ?t i \<and>
       off = 250 - st_address demo_symbols ?t i \<and>
       st_address demo_symbols ?t i \<le> 250 \<and> (\<forall>j < 2. st_address demo_symbols ?t j \<le> 250 \<longrightarrow> j \<le> i))"
  proof (rule sym_lookup_last)
    show "st_address demo_symbols ?t i \<le> st_address demo_symbols ?t j" if "i \<le> j" "j < 2" for i j
    proof -
      have "i < 2" using that by simp
      from two[OF this] two[OF that(2)] that(1) show ?thesis using a by auto
    qed
  qed (use v o in simp_all)
  then obtain nm off u i where r: "sym_table_lookup demo_symbols 250 7 ?s = Ok (nm, off, u)" "i < 2" "\<forall>j < 2. st_address demo_symbols ?t j \<le> 250 \<longrightarrow> j \<le> i"
      "nm = ?t + 40 + st_str_pos demo_symbols ?t i" "off = 250 - st_address demo_symbols ?t i"
    using a o by auto
  have "i = 1" using r(3)[rule_format, of 1] two[OF r(2)] a by auto
  then show ?thesis using r a by simp
qed

end
