(* ===== verification/Tables.thy ===== *)
theory Tables
  imports Phys K_string
begin

text \<open>
  What the readers of firmware and boot-loader tables share: loads of 16 and 32 bits, the fields of
  a structure that lies in memory as a list of bytes, and the interface of a loop that walks over
  records one after the other.
\<close>

section \<open>Loads\<close>

definition rd16 :: "mem \<Rightarrow> u64 \<Rightarrow> u16" where
  "rd16 m a = ucast (m a) OR push_bit 8 (ucast (m (a + 1)))"

definition rd32 :: "mem \<Rightarrow> u64 \<Rightarrow> u32" where
  "rd32 m a = ucast (m a) OR push_bit 8 (ucast (m (a + 1))) OR push_bit 16 (ucast (m (a + 2)))
     OR push_bit 24 (ucast (m (a + 3)))"

lemma unat_add_of_nat:
  fixes p :: u64 assumes "unat p + n < 2 ^ 64" shows "unat (p + of_nat n) = unat p + n"
proof -
  have "unat (of_nat n :: u64) = n" using assms by (intro unat_of_nat_small) simp
  then show ?thesis using assms unat_add_no_wrap[of p "of_nat n"] by simp
qed

text \<open>A list of bytes as a memory that begins at 0.\<close>

definition image_mem :: "u8 list \<Rightarrow> mem" where
  "image_mem xs a = (if unat a < length xs then xs ! unat a else 0)"

lemma bytes_at_image:
  assumes "bytes_at m p (length xs) = xs" "k < length xs" "length xs < 2 ^ 64"
  shows "m (p + of_nat k) = image_mem xs (of_nat k)"
proof -
  have "m (p + of_nat k) = xs ! k" using assms(1,2) nth_bytes_at[of k "length xs" m p] by simp
  then show ?thesis using assms(2,3) by (simp add: image_mem_def unat_of_nat_small)
qed

lemma rd64_image:
  assumes "bytes_at m p (length xs) = xs" "k + 8 \<le> length xs" "length xs < 2 ^ 64"
  shows "rd64 m (p + of_nat k) = rd64 (image_mem xs) (of_nat k)"
proof (rule rd64_eqI)
  fix q r :: nat assume q: "q < 8" "r < 8"
  have "m (p + of_nat (k + q)) = image_mem xs (of_nat (k + q))" by (rule bytes_at_image) (use assms q in auto)
  then show "bit (m (p + of_nat k + of_nat q)) r = bit (rd64 (image_mem xs) (of_nat k)) (8 * q + r)"
    by (simp add: bit_rd64[OF q] add.assoc)
qed

lemma rd32_image:
  assumes "bytes_at m p (length xs) = xs" "k + 4 \<le> length xs" "length xs < 2 ^ 64"
  shows "rd32 m (p + of_nat k) = rd32 (image_mem xs) (of_nat k)"
proof -
  have e: "m (p + of_nat (k + q)) = image_mem xs (of_nat (k + q))" if "q < 4" for q
    by (rule bytes_at_image) (use assms that in auto)
  show ?thesis using e[of 0] e[of 1] e[of 2] e[of 3] by (simp add: rd32_def ac_simps)
qed

section \<open>Walks\<close>

text \<open>The records a walk from \<open>p\<close> on meets: it stops at \<open>stop\<close> and goes from one to the next by \<open>nxt\<close>.\<close>

fun visits :: "(u64 \<Rightarrow> bool) \<Rightarrow> (u64 \<Rightarrow> u64) \<Rightarrow> u64 \<Rightarrow> u64 list \<Rightarrow> bool" where
  "visits stop nxt p [] \<longleftrightarrow> stop p"
| "visits stop nxt p (x # xs) \<longleftrightarrow> \<not> stop p \<and> x = p \<and> visits stop nxt (nxt p) xs"

fun fold_res :: "('a \<Rightarrow> 's \<Rightarrow> 's res) \<Rightarrow> 'a list \<Rightarrow> 's \<Rightarrow> 's res" where
  "fold_res f [] s = Ok s"
| "fold_res f (x # xs) s = bind_res (f x s) (fold_res f xs)"

lemma fold_res_total: "(\<And>x s. x \<in> set xs \<Longrightarrow> f x s = Ok (g x s)) \<Longrightarrow> fold_res f xs s = Ok (fold g xs s)"
  by (induction xs arbitrary: s) simp_all

text \<open>A loop over records: \<open>stop\<close> is its condition, \<open>body\<close> its body, \<open>nxt\<close> its step.  It does the body
  once for every record of the walk; a walk that always goes forward ends.\<close>

locale record_loop =
  fixes loop :: "u64 \<Rightarrow> 's \<Rightarrow> 's res option"
    and stop :: "u64 \<Rightarrow> bool"
    and nxt :: "u64 \<Rightarrow> u64"
    and body :: "u64 \<Rightarrow> 's \<Rightarrow> 's res"
  assumes unfold: "loop p s = (if stop p then Some (Ok s)
    else case body p s of Fail e \<Rightarrow> Some (Fail e) | Ok s \<Rightarrow> loop (nxt p) s)"
begin

lemma walk: "visits stop nxt p ps \<Longrightarrow> loop p s = Some (fold_res body ps s)"
proof (induction ps arbitrary: p s)
  case Nil
  then show ?case by (subst unfold) simp
next
  case (Cons x xs)
  then show ?case by (subst unfold) (cases "body p s", simp_all)
qed

lemma forward_visits:
  assumes "\<And>p. \<not> stop p \<Longrightarrow> p < nxt p"
  shows "\<exists>ps. visits stop nxt p ps"
proof (induction "2 ^ 64 - unat p" arbitrary: p rule: less_induct)
  case less
  show ?case
  proof (cases "stop p")
    case True
    then show ?thesis by (intro exI[of _ "[]"]) simp
  next
    case False
    have "unat p < unat (nxt p)" using assms[OF False] by (simp add: word_less_nat_alt)
    then have "2 ^ 64 - unat (nxt p) < 2 ^ 64 - unat p" using unat_u64_less[of "nxt p"] by simp
    then obtain ps where "visits stop nxt (nxt p) ps" using less by blast
    then show ?thesis using False by (intro exI[of _ "p # ps"]) simp
  qed
qed

lemma forward_ends:
  assumes "\<And>p. \<not> stop p \<Longrightarrow> p < nxt p"
  shows "\<exists>r. loop p s = Some r"
  using forward_visits[of p, OF assms] walk by blast

end

text \<open>Records that lie next to each other, of the lengths \<open>ls\<close>, and with the bytes of \<open>rs\<close>.\<close>

fun starts :: "u64 \<Rightarrow> nat list \<Rightarrow> u64 list" where
  "starts p [] = []"
| "starts p (l # ls) = p # starts (p + of_nat l) ls"

fun records_at :: "mem \<Rightarrow> u64 \<Rightarrow> u8 list list \<Rightarrow> bool" where
  "records_at m p [] \<longleftrightarrow> True"
| "records_at m p (xs # rs) \<longleftrightarrow> bytes_at m p (length xs) = xs \<and> records_at m (p + of_nat (length xs)) rs"

end
