(* ===== verification/K_acpi.thy ===== *)
theory K_acpi
  imports Tables K_heap
begin

text \<open>
  \<open>kernel/k_acpi.c\<close>: the description tables of the firmware.  \<open>acpi_mem\<close> is the memory at the
  kernel's virtual addresses and \<open>madt\<close> the copy of the interrupt table in the kernel heap.  Messages
  to the console are left out.
\<close>

record acpi_state = kheap_state +
  acpi_mem :: mem
  madt :: u64

section \<open>Tables\<close>

text \<open>Offsets in \<open>acpi_sdt_header_t\<close> and in the records.\<close>

definition sdt_length :: "mem \<Rightarrow> u64 \<Rightarrow> u32" where
  "sdt_length m t = rd32 m (t + 4)"

definition SDT_HEADER_SIZE :: u64 where "SDT_HEADER_SIZE = 36"
definition MADT_LAPIC_SIZE :: u64 where "MADT_LAPIC_SIZE = 8"

fun checksum_loop :: "mem \<Rightarrow> u64 \<Rightarrow> nat \<Rightarrow> u8 \<Rightarrow> u8" where
  "checksum_loop m t 0 acc = acc"
| "checksum_loop m t (Suc n) acc = checksum_loop m (t + 1) n (acc + m t)"

definition verify_checksum :: "mem \<Rightarrow> u64 \<Rightarrow> bool" where
  "verify_checksum m t = (checksum_loop m t (unat (sdt_length m t)) 0 = 0)"

text \<open>The bytes of a signature are signed characters.\<close>

definition HASH_SIGN :: "u8 \<Rightarrow> u8 \<Rightarrow> u8 \<Rightarrow> u8 \<Rightarrow> u32" where
  "HASH_SIGN c1 c2 c3 c4 = scast c1 OR push_bit 8 (scast c2) OR push_bit 16 (scast c3) OR push_bit 24 (scast c4)"

definition hash_sign :: "mem \<Rightarrow> u64 \<Rightarrow> u32" where
  "hash_sign m t = HASH_SIGN (m t) (m (t + 1)) (m (t + 2)) (m (t + 3))"

definition acpi_load_madt :: "u64 \<Rightarrow> 'a acpi_state_scheme \<Rightarrow> 'a acpi_state_scheme res" where
  "acpi_load_madt sdt s = bind_res (kmem_alloc (ucast (sdt_length (acpi_mem s) sdt)) s) (\<lambda>(p, s). let
     s = s\<lparr>madt := p\<rparr>
   in if p = 0 then Ok s
      else Ok (s\<lparr>acpi_mem := kmemcpy p sdt (ucast (sdt_length (acpi_mem s) sdt)) (acpi_mem s)\<rparr>))"

definition acpi_load_sdt :: "u64 \<Rightarrow> 'a acpi_state_scheme \<Rightarrow> 'a acpi_state_scheme res" where
  "acpi_load_sdt sdt_pma s = (let sdt = vm_get_vma_for_pma sdt_pma
   in nonnull sdt
     (if hash_sign (acpi_mem s) sdt = HASH_SIGN 65 80 73 67 then acpi_load_madt sdt s else Ok s))"

definition acpi_load_rsdt :: "u64 \<Rightarrow> 'a acpi_state_scheme \<Rightarrow> 'a acpi_state_scheme res" where
  "acpi_load_rsdt rsdt_pma s = (let rsdt = vm_get_vma_for_pma rsdt_pma
   in if rsdt = 0 then Ok s
      else (let rsdt_size = ucast (sdt_length (acpi_mem s) rsdt) :: u64
        in if \<not> verify_checksum (acpi_mem s) rsdt then Ok s
           else (let entries = (rsdt_size - SDT_HEADER_SIZE) div 4
             in fold_res (\<lambda>i s. acpi_load_sdt (ucast (rd32 (acpi_mem s) (rsdt + SDT_HEADER_SIZE + 4 * of_nat i))) s)
                  [0..<unat entries] s)))"

definition acpi_load_xsdt :: "u64 \<Rightarrow> 'a acpi_state_scheme \<Rightarrow> 'a acpi_state_scheme res" where
  "acpi_load_xsdt xsdt_pma s = (let xsdt = vm_get_vma_for_pma xsdt_pma
   in if xsdt = 0 then Ok s
      else (let xsdt_size = ucast (sdt_length (acpi_mem s) xsdt) :: u64
        in if \<not> verify_checksum (acpi_mem s) xsdt then Ok s
           else (let entries = (xsdt_size - SDT_HEADER_SIZE) div 8
             in fold_res (\<lambda>i s. acpi_load_sdt (rd64 (acpi_mem s) (xsdt + SDT_HEADER_SIZE + 8 * of_nat i)) s)
                  [0..<unat entries] s)))"

section \<open>The interrupt table\<close>

text \<open>0 is the null pointer.\<close>

definition acpi_madt_lapic_info :: "u64 \<Rightarrow> u64" where
  "acpi_madt_lapic_info t = (if t = 0 then 0 else t + SDT_HEADER_SIZE)"

definition acpi_madt_first_record :: "u64 \<Rightarrow> u64" where
  "acpi_madt_first_record t = (if t = 0 then 0 else t + SDT_HEADER_SIZE + MADT_LAPIC_SIZE)"

definition acpi_madt_next_record :: "mem \<Rightarrow> u64 \<Rightarrow> u64 \<Rightarrow> u64 res" where
  "acpi_madt_next_record m t r = nonnull t (let
     e = t + ucast (sdt_length m t);
     p = r
   in verify (p > t \<and> p \<le> e) ''invalid this pointer''
     (let p = p + ucast (m (r + 1)) in Ok (if p < e then p else 0)))"

text \<open>The loop of \<open>find_lapic_base\<close> (\<open>kernel/k_int.c\<close>): the last override counts.\<close>

definition lapic_body :: "mem \<Rightarrow> u64 \<Rightarrow> u64 \<Rightarrow> u64 \<Rightarrow> (u64 \<times> u64) res" where
  "lapic_body m t r base = (let
     base = (if m r \<noteq> 5 then base else rd64 m (r + 4))
   in bind_res (acpi_madt_next_record m t r) (\<lambda>r. Ok (r, base)))"

partial_function (option) lapic_loop :: "mem \<Rightarrow> u64 \<Rightarrow> u64 \<Rightarrow> u64 \<Rightarrow> u64 res option" where
  "lapic_loop m t r base =
     (if r = 0 then Some (Ok base)
      else case lapic_body m t r base of Fail e \<Rightarrow> Some (Fail e) | Ok (r, base) \<Rightarrow> lapic_loop m t r base)"

definition find_lapic_base :: "mem \<Rightarrow> u64 \<Rightarrow> u64 res" where
  "find_lapic_base m t = (let p = acpi_madt_lapic_info t
   in nonnull p (ends (lapic_loop m t (acpi_madt_first_record t) (ucast (rd32 m p)))))"

section \<open>Checksums\<close>

text \<open>The checksum holds when the bytes of the table add up to 0.\<close>

lemma checksum_loop_sum: "checksum_loop m t n acc = acc + sum_list (bytes_at m t n)"
  by (induction n arbitrary: t acc) (simp_all add: bytes_at_Suc bytes_at_done ac_simps)

lemma verify_checksum_sum: "verify_checksum m t \<longleftrightarrow> sum_list (bytes_at m t (unat (sdt_length m t))) = 0"
  by (simp add: verify_checksum_def checksum_loop_sum)

section \<open>The walk over the records\<close>

definition madt_next :: "mem \<Rightarrow> u64 \<Rightarrow> u64 \<Rightarrow> u64" where
  "madt_next m e r = (let p = r + ucast (m (r + 1)) in if p < e then p else 0)"

definition lapic_step :: "mem \<Rightarrow> u64 \<Rightarrow> u64 \<Rightarrow> u64 \<Rightarrow> u64 res" where
  "lapic_step m t r base = bind_res (acpi_madt_next_record m t r) (\<lambda>_. Ok (if m r = 5 then rd64 m (r + 4) else base))"

interpretation madt_walk: record_loop "lapic_loop m t" "\<lambda>r. r = 0" "madt_next m (t + ucast (sdt_length m t))" "lapic_step m t" for m t
proof
  fix p s
  show "lapic_loop m t p s = (if p = 0 then Some (Ok s) else case lapic_step m t p s of Fail e \<Rightarrow> Some (Fail e)
      | Ok s \<Rightarrow> lapic_loop m t (madt_next m (t + ucast (sdt_length m t)) p) s)"
    by (subst lapic_loop.simps)
      (auto simp: lapic_body_def lapic_step_def acpi_madt_next_record_def madt_next_def Let_def nonnull_def verify_def)
qed

text \<open>The bytes of a record: its type, its length, its contents.\<close>

definition madt_record :: "u8 list \<Rightarrow> bool" where
  "madt_record xs \<longleftrightarrow> 2 \<le> length xs \<and> length xs < 256 \<and> xs ! 1 = of_nat (length xs) \<and> (xs ! 0 = 5 \<longrightarrow> 12 \<le> length xs)"

text \<open>What the table says: the base of the header unless a record overrides it.\<close>

fun lapic_base :: "u64 \<Rightarrow> u8 list list \<Rightarrow> u64" where
  "lapic_base base [] = base"
| "lapic_base base (xs # rs) = lapic_base (if xs ! 0 = 5 then rd64 (image_mem xs) 4 else base) rs"

lemma madt_record_at:
  assumes "madt_record xs" "bytes_at m p (length xs) = xs"
  shows "m p = xs ! 0" "ucast (m (p + 1)) = (of_nat (length xs) :: u64)" "xs ! 0 = 5 \<Longrightarrow> rd64 m (p + 4) = rd64 (image_mem xs) 4"
proof -
  have l: "2 \<le> length xs" "length xs < 256" "xs ! 1 = of_nat (length xs)" using assms(1) by (simp_all add: madt_record_def)
  have n: "m (p + of_nat k) = xs ! k" if "k < length xs" for k
    using that nth_bytes_at[of k "length xs" m p] assms(2) by simp
  show "m p = xs ! 0" using n[of 0] l(1) by fastforce
  have "unat (of_nat (length xs) :: u8) = length xs" using l(2) by (simp add: unat_of_nat)
  then show "ucast (m (p + 1)) = (of_nat (length xs) :: u64)"
    using n[of 1] l by (metis of_nat_1 of_nat_unat Suc_1 Suc_le_eq)
  show "rd64 m (p + 4) = rd64 (image_mem xs) 4" if "xs ! 0 = 5"
    using rd64_image[of m p xs 4] assms that l(2) by (simp add: madt_record_def)
qed

lemma madt_visits:
  assumes "rs \<noteq> []" "\<forall>xs \<in> set rs. madt_record xs" "records_at m p rs" "0 < unat p"
    and "unat p + length (concat rs) < 2 ^ 64" "e = p + of_nat (length (concat rs))"
  shows "visits (\<lambda>r. r = 0) (madt_next m e) p (starts p (map length rs))"
  using assms
proof (induction rs arbitrary: p)
  case (Cons xs rs)
  let ?q = "p + of_nat (length xs)"
  have q: "unat ?q = unat p + length xs" by (rule unat_add_of_nat) (use Cons.prems(5) in simp)
  have e: "unat e = unat p + length (concat (xs # rs))" unfolding Cons.prems(6) by (rule unat_add_of_nat) (use Cons.prems(5) in simp)
  have "ucast (m (p + 1)) = (of_nat (length xs) :: u64)" using madt_record_at(2)[of xs m p] Cons.prems by simp
  then have n: "madt_next m e p = (if rs = [] then 0 else ?q)"
    using q e Cons.prems(2) by (cases rs) (auto simp: madt_next_def Let_def word_less_nat_alt madt_record_def)
  have p: "p \<noteq> 0" using Cons.prems(4) by auto
  show ?case
  proof (cases "rs = []")
    case True
    then show ?thesis using n p by simp
  next
    case False
    have "visits (\<lambda>r. r = 0) (madt_next m e) ?q (starts ?q (map length rs))"
      by (rule Cons.IH) (use Cons.prems False q in \<open>simp_all add: add.assoc\<close>)
    then show ?thesis using n p False by simp
  qed
qed simp

lemma lapic_fold:
  assumes "t \<noteq> 0" "\<forall>xs \<in> set rs. madt_record xs" "records_at m p rs" "unat t < unat p"
    and "unat p + length (concat rs) \<le> unat (t + ucast (sdt_length m t))"
  shows "fold_res (lapic_step m t) (starts p (map length rs)) base = Ok (lapic_base base rs)"
  using assms
proof (induction rs arbitrary: p base)
  case (Cons xs rs)
  let ?q = "p + of_nat (length xs)"
  note r = madt_record_at[of xs m p]
  have q: "unat ?q = unat p + length xs"
    by (rule unat_add_of_nat) (use Cons.prems(5) unat_u64_less[of "t + ucast (sdt_length m t)"] in simp)
  have "acpi_madt_next_record m t p = Ok (madt_next m (t + ucast (sdt_length m t)) p)"
    using Cons.prems(1,4,5) by (simp add: acpi_madt_next_record_def nonnull_def verify_def madt_next_def Let_def word_less_nat_alt word_le_nat_alt)
  then have "lapic_step m t p base = Ok (if xs ! 0 = 5 then rd64 (image_mem xs) 4 else base)"
    using r Cons.prems(2,3) by (simp add: lapic_step_def)
  moreover have "fold_res (lapic_step m t) (starts ?q (map length rs)) b = Ok (lapic_base b rs)" for b
    by (rule Cons.IH) (use Cons.prems q in simp_all)
  ultimately show ?case by simp
qed simp

section \<open>Properties\<close>

text \<open>C36: On a table whose records fill it, \<open>find_lapic_base\<close> ends, looks at every record once, and
  returns the address of the last record that overrides the one in the header.\<close>

theorem find_lapic_base_last:
  assumes "t \<noteq> 0" "rs \<noteq> []" "\<forall>xs \<in> set rs. madt_record xs" "records_at m (t + 44) rs"
    and "unat (sdt_length m t) = 44 + length (concat rs)" "unat t + 44 + length (concat rs) < 2 ^ 64"
  shows "find_lapic_base m t = Ok (lapic_base (ucast (rd32 m (t + 36))) rs)"
proof -
  let ?p = "t + 44" and ?e = "t + ucast (sdt_length m t)"
  have t: "unat ?p = unat t + 44" using unat_add_of_nat[of t 44] assms(6) by simp
  have p: "acpi_madt_first_record t = ?p" "acpi_madt_lapic_info t = t + 36"
    using assms(1) by (simp_all add: acpi_madt_first_record_def acpi_madt_lapic_info_def SDT_HEADER_SIZE_def MADT_LAPIC_SIZE_def)
  have "ucast (sdt_length m t) = (of_nat (44 + length (concat rs)) :: u64)"
    unfolding assms(5)[symmetric] by (simp add: unsigned_ucast_eq)
  then have e: "?e = ?p + of_nat (length (concat rs))" by simp
  then have ue: "unat ?e = unat ?p + length (concat rs)" using unat_add_of_nat[of ?p "length (concat rs)"] t assms(6) by (simp add: add.assoc)
  have "visits (\<lambda>r. r = 0) (madt_next m ?e) ?p (starts ?p (map length rs))"
    by (rule madt_visits[OF assms(2-4)]) (use t e assms(6) in auto)
  then have "lapic_loop m t ?p b = Some (fold_res (lapic_step m t) (starts ?p (map length rs)) b)" for b
    by (rule madt_walk.walk)
  moreover have "fold_res (lapic_step m t) (starts ?p (map length rs)) b = Ok (lapic_base b rs)" for b
    by (rule lapic_fold[OF assms(1,3,4)]) (use t ue in auto)
  moreover have "t + 36 \<noteq> 0"
  proof
    assume "t + 36 = 0"
    moreover have "unat (t + 36) = unat t + 36" using unat_add_of_nat[of t 36] assms(6) by simp
    ultimately show False by simp
  qed
  ultimately show ?thesis by (simp add: find_lapic_base_def p nonnull_def ends_def Let_def)
qed

text \<open>A processor record and one that moves the base to \<open>0x1FEE00000\<close>.\<close>

definition demo_records :: "u8 list list" where
  "demo_records = [[0, 8, 0, 0, 1, 0, 0, 0], [5, 12, 0, 0, 0, 0, 0xE0, 0xFE, 1, 0, 0, 0]]"

definition demo_madt :: mem where
  "demo_madt a = image_mem ([65, 80, 73, 67, 64, 0, 0, 0] @ replicate 28 0 @ [0, 0, 0xE0, 0xFE, 0, 0, 0, 0] @ concat demo_records) (a - 4096)"

theorem find_lapic_base_last_witness: "find_lapic_base demo_madt 4096 = Ok 0x1FEE00000"
proof -
  have l: "unat (sdt_length demo_madt 4096) = 44 + length (concat demo_records)"
    by (simp add: sdt_length_def demo_madt_def rd32_def image_mem_def demo_records_def)
  have r: "records_at demo_madt (4096 + 44) demo_records"
    by (simp add: demo_records_def bytes_at_Suc bytes_at_done demo_madt_def image_mem_def nth_append)
  have "lapic_base b demo_records = 0x1FEE00000" for b
    by (simp add: demo_records_def rd64_def image_mem_def)
  moreover have "\<forall>xs \<in> set demo_records. madt_record xs" by (simp add: demo_records_def madt_record_def)
  moreover have "length (concat demo_records) = 20" "demo_records \<noteq> []" by (simp_all add: demo_records_def)
  ultimately show ?thesis using find_lapic_base_last[of 4096 demo_records demo_madt, OF _ _ _ r l] by simp
qed

end
