(* ===== verification/K_int.thy ===== *)
theory K_int
  imports K_acpi K_timer
begin

text \<open>
  \<open>kernel/k_int.c\<close> and the rest of \<open>kernel/k_timer.c\<close>: the descriptor table, the handlers of one
  processor, its queue of deferred calls, the local APIC and the calibration of the timer.  What
  the processor writes to devices is the list \<open>dev_out\<close>; what it reads from the APIC is \<open>apic_in\<close>.
  The only functions the kernel registers as handlers are the two of the timer, so a handler is a
  constructor; \<open>Stray\<close> is any other word that was in memory.  Messages to the console are left out.
\<close>

section \<open>State\<close>

record idt_gate =
  off_low :: u16
  selector :: u16
  ist :: u8
  resv1 :: u8
  gate_type :: u8
  gate_z :: u8
  dpl :: u8
  gate_p :: u8
  off_mid :: u16
  off_high :: u32
  ign :: u32

datatype irq_handler_t = NoHandler | PitHandler | TimerIrqHandler | Stray u64

datatype dev_write = PortOut u16 u8 | ApicOut u64 u32

record int_state = timer_state +
  idt :: "nat \<Rightarrow> idt_gate"
  dev_out :: "dev_write list"
  apic_in :: "u64 \<Rightarrow> u32"
  apic_reg_base :: u64
  irq_handlers :: u64
  irq_handler_tab :: "u64 \<Rightarrow> irq_handler_t"
  defer_queue :: u64
  defer_elems :: "u64 \<Rightarrow> u64 \<times> u64"
  defer_queue_end :: u64
  defer_queue_size :: u64
  pit_flag :: bool
  int_cpu :: cpu_state

definition IDT_GATES :: u64 where "IDT_GATES = 256"
definition IRQ_OFFSET :: u64 where "IRQ_OFFSET = 32"
definition DEFER_QUEUE_INIT_SIZE :: u64 where "DEFER_QUEUE_INIT_SIZE = 32"

definition APIC_REG_TASK_PRIORITY :: u64 where "APIC_REG_TASK_PRIORITY = 0x80"
definition APIC_REG_EOI :: u64 where "APIC_REG_EOI = 0xB0"
definition APIC_REG_DEST_FORMAT :: u64 where "APIC_REG_DEST_FORMAT = 0xE0"
definition APIC_REG_SPURIOUS :: u64 where "APIC_REG_SPURIOUS = 0xF0"
definition APIC_REG_TIMER_LVT :: u64 where "APIC_REG_TIMER_LVT = 0x320"
definition APIC_REG_TIMER_INIT_CNT :: u64 where "APIC_REG_TIMER_INIT_CNT = 0x380"
definition APIC_REG_TIMER_CURR_CNT :: u64 where "APIC_REG_TIMER_CURR_CNT = 0x390"
definition APIC_REG_TIMER_DIV_CFG :: u64 where "APIC_REG_TIMER_DIV_CFG = 0x3E0"

definition outb :: "u16 \<Rightarrow> u8 \<Rightarrow> 'a int_state_scheme \<Rightarrow> 'a int_state_scheme" where
  "outb port val s = s\<lparr>dev_out := dev_out s @ [PortOut port val]\<rparr>"

definition apic_read_reg :: "u64 \<Rightarrow> 'a int_state_scheme \<Rightarrow> u32" where
  "apic_read_reg offset s = apic_in s offset"

definition apic_write_reg :: "u64 \<Rightarrow> u32 \<Rightarrow> 'a int_state_scheme \<Rightarrow> 'a int_state_scheme" where
  "apic_write_reg offset val s = s\<lparr>dev_out := dev_out s @ [ApicOut offset val]\<rparr>"

section \<open>The descriptor table\<close>

text \<open>\<open>isr v\<close> is the address of the entry code of the vector \<open>v\<close> in \<open>hal_int.s\<close>.\<close>

definition DECL_ISR :: "(nat \<Rightarrow> u64) \<Rightarrow> nat \<Rightarrow> (nat \<Rightarrow> idt_gate) \<Rightarrow> nat \<Rightarrow> idt_gate" where
  "DECL_ISR isr no t = t(no := \<lparr>off_low = ucast (isr no), selector = 0x08, ist = 0, resv1 = 0, gate_type = 0x0E,
     gate_z = 0, dpl = 0, gate_p = 1, off_mid = ucast (drop_bit 16 (isr no)), off_high = ucast (drop_bit 32 (isr no)), ign = 0\<rparr>)"

definition DECL_IRQ :: "(nat \<Rightarrow> u64) \<Rightarrow> nat \<Rightarrow> (nat \<Rightarrow> idt_gate) \<Rightarrow> nat \<Rightarrow> idt_gate" where
  "DECL_IRQ irq no t = t(no := \<lparr>off_low = ucast (irq no), selector = 0x08, ist = 0, resv1 = 0, gate_type = 0x0E,
     gate_z = 0, dpl = 0, gate_p = 1, off_mid = ucast (drop_bit 16 (irq no)), off_high = ucast (drop_bit 32 (irq no)), ign = 0\<rparr>)"

definition isr_init :: "(nat \<Rightarrow> u64) \<Rightarrow> 'a int_state_scheme \<Rightarrow> 'a int_state_scheme" where
  "isr_init isr s = (let
     s = s\<lparr>idt := fold (DECL_ISR isr) [0..<32] (idt s)\<rparr>;
     s = s\<lparr>idt := fold (DECL_IRQ isr) [32..<256] (idt s)\<rparr>
   in fold (\<lambda>(port, val). outb port val)
     [(0x20, 0x11), (0xA0, 0x11), (0x21, 0x20), (0xA1, 0x28), (0x21, 0x04), (0xA1, 0x02),
      (0x21, 0x01), (0xA1, 0x01), (0xA1, 0xff), (0x21, 0xff)] s)"

definition isr_shortname :: "string list" where
  "isr_shortname = [''#DE'', ''#DB'', ''NMI'', ''#BP'', ''OF'', ''#BR'', ''#UD'', ''#NM'', ''#DF'', '''', ''#TS'',
     ''#NP'', ''#SS'', ''#GP'', ''#PF'', '''', ''#MF'', ''#AC'', ''#MC'', ''#XF'', '''', '''',
     '''', '''', '''', '''', '''', '''', '''', ''#VC'', ''#SX'', '''']"

definition page_fault_handler :: "'a int_state_scheme res" where
  "page_fault_handler = Fail (Panic ''Page Fault'')"

definition isr_handler :: "nat \<Rightarrow> 'a int_state_scheme res" where
  "isr_handler vector =
     (if vector = 14 then page_fault_handler
      else Fail (Panic (''ISR handler not implemented: '' @ isr_shortname ! vector)))"

section \<open>Deferred calls\<close>

text \<open>An element has 16 bytes; the elements move with the block.  The end of the queue is its distance from
  the start of the block, in elements; like the comparison in \<open>defer_queue_push\<close> it is unsigned.\<close>

definition defer_queue_init :: "'a int_state_scheme \<Rightarrow> 'a int_state_scheme res" where
  "defer_queue_init s = bind_res (kmem_alloc (DEFER_QUEUE_INIT_SIZE * 16) s) (\<lambda>(p, s). let
     s = s\<lparr>defer_queue := p\<rparr>
   in verify (p \<noteq> 0) ''OOM in defer_queue_init(): defer queue''
     (Ok (s\<lparr>defer_queue_end := 0, defer_queue_size := DEFER_QUEUE_INIT_SIZE\<rparr>)))"

definition defer_queue_expand :: "'a int_state_scheme \<Rightarrow> 'a int_state_scheme res" where
  "defer_queue_expand s = (let new_size = defer_queue_size s * 3 div 2
   in bind_res (kmem_realloc (defer_queue s) (new_size * 16) s) (\<lambda>(new_queue, _, s).
     verify (new_queue \<noteq> 0) ''OOM in defer_queue_expand()''
       (Ok (s\<lparr>defer_queue := new_queue, defer_queue_size := new_size\<rparr>))))"

definition defer_queue_push :: "u64 \<times> u64 \<Rightarrow> 'a int_state_scheme \<Rightarrow> 'a int_state_scheme res" where
  "defer_queue_push element s =
     bind_res (if defer_queue_end s \<ge> defer_queue_size s then defer_queue_expand s else Ok s) (\<lambda>s. let
       ptr = defer_queue_end s;
       s = s\<lparr>defer_queue_end := ptr + 1\<rparr>
     in Ok (s\<lparr>defer_elems := (defer_elems s)(ptr := element)\<rparr>))"

definition defer_queue_pop :: "'a int_state_scheme \<Rightarrow> (u64 \<times> u64) \<times> 'a int_state_scheme" where
  "defer_queue_pop s = (let s = s\<lparr>defer_queue_end := defer_queue_end s - 1\<rparr> in (defer_elems s (defer_queue_end s), s))"

definition defer_queue_empty :: "'a int_state_scheme \<Rightarrow> bool" where
  "defer_queue_empty s = (defer_queue_end s = 0)"

section \<open>Handlers\<close>

definition interrupt_set_handler :: "u64 \<Rightarrow> irq_handler_t \<Rightarrow> 'a int_state_scheme \<Rightarrow> 'a int_state_scheme res" where
  "interrupt_set_handler vector handler s =
     verify (vector \<ge> IRQ_OFFSET \<and> vector < IDT_GATES) ''vector out of range''
       (nonnull (irq_handlers s) (Ok (s\<lparr>irq_handler_tab := (irq_handler_tab s)(vector - IRQ_OFFSET := handler)\<rparr>)))"

definition interrupt_clear_handler :: "u64 \<Rightarrow> 'a int_state_scheme \<Rightarrow> 'a int_state_scheme res" where
  "interrupt_clear_handler vector s =
     verify (vector \<ge> IRQ_OFFSET \<and> vector < IDT_GATES) ''vector out of range''
       (nonnull (irq_handlers s) (Ok (s\<lparr>irq_handler_tab := (irq_handler_tab s)(vector - IRQ_OFFSET := NoHandler)\<rparr>)))"

definition pit_handler :: "'a int_state_scheme \<Rightarrow> 'a int_state_scheme" where
  "pit_handler s = s\<lparr>pit_flag := False\<rparr>"

text \<open>\<open>call\<close> is the call of a timer's function.\<close>

definition call_handler ::
    "(u64 \<Rightarrow> u64 \<Rightarrow> 'a int_state_scheme \<Rightarrow> 'a int_state_scheme res) \<Rightarrow> irq_handler_t \<Rightarrow> 'a int_state_scheme \<Rightarrow> 'a int_state_scheme res" where
  "call_handler call h s = (case h of
       NoHandler \<Rightarrow> Ok s
     | PitHandler \<Rightarrow> Ok (pit_handler s)
     | TimerIrqHandler \<Rightarrow> timer_irq_handler call s
     | Stray a \<Rightarrow> Fail WildCall)"

definition irq_handler ::
    "(u64 \<Rightarrow> u64 \<Rightarrow> 'a int_state_scheme \<Rightarrow> 'a int_state_scheme res) \<Rightarrow> u64 \<Rightarrow> 'a int_state_scheme \<Rightarrow> 'a int_state_scheme res" where
  "irq_handler call irq s = nonnull (irq_handlers s)
     (bind_res (call_handler call (irq_handler_tab s (irq - IRQ_OFFSET)) s) (\<lambda>s. Ok (apic_write_reg APIC_REG_EOI 0 s)))"

section \<open>The timer device\<close>

text \<open>Waiting for the interval timer: \<open>irqs\<close> are the interrupts the processor takes meanwhile.\<close>

fun pit_wait ::
    "(u64 \<Rightarrow> u64 \<Rightarrow> 'a int_state_scheme \<Rightarrow> 'a int_state_scheme res) \<Rightarrow> u64 list \<Rightarrow> 'a int_state_scheme \<Rightarrow> 'a int_state_scheme res" where
  "pit_wait call [] s = (if pit_flag s then Fail NoReturn else Ok s)"
| "pit_wait call (v # vs) s = (if pit_flag s then bind_res (irq_handler call v s) (pit_wait call vs) else Ok s)"

text \<open>\<open>b\<close> and \<open>e\<close> are the two readings of the time-stamp counter.\<close>

definition pit_calibrate ::
    "(u64 \<Rightarrow> u64 \<Rightarrow> 'a int_state_scheme \<Rightarrow> 'a int_state_scheme res) \<Rightarrow> u64 list \<Rightarrow> u64 \<Rightarrow> u64 \<Rightarrow> 'a int_state_scheme \<Rightarrow> 'a int_state_scheme res" where
  "pit_calibrate call irqs b e s = (let
     s = s\<lparr>int_cpu := interrupt_disable_preemption (int_cpu s)\<rparr>;
     s = apic_write_reg APIC_REG_TIMER_DIV_CFG 3 s;
     s = outb 0x21 0xfe s
   in bind_res (interrupt_set_handler 32 PitHandler s) (\<lambda>s. let
     s = outb 0x43 48 s;
     s = apic_write_reg APIC_REG_TIMER_INIT_CNT 0xFFFFFFFF s;
     s = outb 0x40 0x9c s;
     s = outb 0x40 0x2e s;
     s = s\<lparr>int_cpu := interrupt_enable_preemption (int_cpu s)\<rparr>
   in bind_res (pit_wait call irqs s) (\<lambda>s. let
     s = s\<lparr>int_cpu := interrupt_disable_preemption (int_cpu s)\<rparr>;
     s = apic_write_reg APIC_REG_TIMER_LVT (push_bit 16 1) s
   in bind_res (interrupt_clear_handler 32 s) (\<lambda>s. let
     s = outb 0x21 0xff s;
     s = s\<lparr>int_cpu := interrupt_enable_preemption (int_cpu s)\<rparr>
   in Ok (timer_calibrate (apic_read_reg APIC_REG_TIMER_CURR_CNT s) b e s)))))"

definition init_apic_timer :: "'a int_state_scheme \<Rightarrow> 'a int_state_scheme" where
  "init_apic_timer s = (let
     s = apic_write_reg APIC_REG_TIMER_DIV_CFG 3 s;
     cnt = ucast (apic_timer_count s div 10);
     s = apic_write_reg APIC_REG_TIMER_INIT_CNT cnt s
   in apic_write_reg APIC_REG_TIMER_LVT (48 OR 0x20000) s)"

definition timer_init_bsp ::
    "(u64 \<Rightarrow> u64 \<Rightarrow> 'a int_state_scheme \<Rightarrow> 'a int_state_scheme res) \<Rightarrow> u64 list \<Rightarrow> u64 \<Rightarrow> u64 \<Rightarrow> 'a int_state_scheme \<Rightarrow> 'a int_state_scheme res" where
  "timer_init_bsp call irqs b e s =
     bind_res (timer_heap_init s) (\<lambda>s.
     bind_res (pit_calibrate call irqs b e s) (\<lambda>s.
     bind_res (interrupt_set_handler 48 TimerIrqHandler s) (\<lambda>s.
     Ok (init_apic_timer s))))"

definition timer_init_ap :: "'a int_state_scheme \<Rightarrow> 'a int_state_scheme res" where
  "timer_init_ap s = bind_res (timer_heap_init s) (\<lambda>s. interrupt_set_handler 48 TimerIrqHandler (init_apic_timer s))"

section \<open>Start of a processor\<close>

text \<open>The table of handlers is not cleared: \<open>old\<close> is what the block held.\<close>

definition handlers_alloc :: "string \<Rightarrow> (u64 \<Rightarrow> irq_handler_t) \<Rightarrow> 'a int_state_scheme \<Rightarrow> 'a int_state_scheme res" where
  "handlers_alloc msg old s = bind_res (kmem_alloc (8 * (IDT_GATES - IRQ_OFFSET)) s) (\<lambda>(p, s). let
     s = s\<lparr>irq_handlers := p, irq_handler_tab := old\<rparr>
   in verify (p \<noteq> 0) msg (Ok s))"

definition apic_enable :: "'a int_state_scheme \<Rightarrow> 'a int_state_scheme" where
  "apic_enable s = (let
     val = apic_read_reg APIC_REG_SPURIOUS s;
     s = apic_write_reg APIC_REG_SPURIOUS (val OR 0x1FF) s;
     s = apic_write_reg APIC_REG_DEST_FORMAT 0xFFFFFFFF s;
     s = apic_write_reg APIC_REG_TASK_PRIORITY 0 s
   in s\<lparr>int_cpu := interrupt_enable_preemption (int_cpu s)\<rparr>)"

definition check_apic :: "u64 \<Rightarrow> bool" where
  "check_apic rdx = (rdx AND push_bit 9 1 \<noteq> 0)"

text \<open>\<open>rdx\<close> is the answer of \<open>cpuid\<close>, \<open>m\<close> and \<open>t\<close> the memory with the interrupt table.\<close>

definition interrupt_init_bsp ::
    "(u64 \<Rightarrow> u64 \<Rightarrow> 'a int_state_scheme \<Rightarrow> 'a int_state_scheme res) \<Rightarrow> u64 \<Rightarrow> mem \<Rightarrow> u64 \<Rightarrow> (u64 \<Rightarrow> irq_handler_t) \<Rightarrow>
     u64 list \<Rightarrow> u64 \<Rightarrow> u64 \<Rightarrow> 'a int_state_scheme \<Rightarrow> 'a int_state_scheme res" where
  "interrupt_init_bsp call rdx m t old irqs b e s =
     bind_res (handlers_alloc ''OOM in interrupt_init_bsp(): irq_handlers'' old s) (\<lambda>s.
     if \<not> check_apic rdx then Ok s
     else bind_res (defer_queue_init s) (\<lambda>s.
     bind_res (find_lapic_base m t) (\<lambda>apic_base. let
       s = s\<lparr>apic_reg_base := vm_get_vma_for_pma apic_base\<rparr>
     in bind_res (if vm_is_mapped 0 (apic_reg_base s) s then Ok (apic_reg_base s, s)
        else vm_map_page 0 (apic_reg_base s) apic_base
          (VM_PAGE_WRITABLE OR VM_PAGE_PRIVILEGED OR VM_PAGE_GLOBAL) s) (\<lambda>(_, s).
     if apic_reg_base s = 0 then Ok s
     else timer_init_bsp call irqs b e (apic_enable s)))))"

definition interrupt_init_ap :: "(u64 \<Rightarrow> irq_handler_t) \<Rightarrow> 'a int_state_scheme \<Rightarrow> 'a int_state_scheme res" where
  "interrupt_init_ap old s =
     bind_res (handlers_alloc ''OOM in interrupt_init_ap(): irq_handlers'' old s) (\<lambda>s.
     bind_res (defer_queue_init s) (\<lambda>s. timer_init_ap (apic_enable s)))"

end
