(* ===== verification/Int_Spec.thy ===== *)
theory Int_Spec
  imports K_int Heap_Frame
begin

text \<open>
  Properties of \<open>K_int\<close>: the descriptor table leads every vector to its entry code, the queue of
  deferred calls is a stack, and what the start of a processor leaves behind.
\<close>

section \<open>The descriptor table\<close>

text \<open>The address a gate leads to.\<close>

definition gate_offset :: "idt_gate \<Rightarrow> u64" where
  "gate_offset g = ucast (off_low g) OR push_bit 16 (ucast (off_mid g)) OR push_bit 32 (ucast (off_high g))"

lemma word_pieces:
  fixes x :: u64
  shows "ucast (ucast x :: u16) OR push_bit 16 (ucast (ucast (drop_bit 16 x) :: u16)) OR push_bit 32 (ucast (ucast (drop_bit 32 x) :: u32)) = x"
proof (rule bit_word_eqI)
  fix n :: nat assume "n < LENGTH(64)"
  then show "bit (ucast (ucast x :: u16) OR push_bit 16 (ucast (ucast (drop_bit 16 x) :: u16)) OR
      push_bit 32 (ucast (ucast (drop_bit 32 x) :: u32)) :: u64) n = bit x n"
    by (cases "n < 32") (auto simp: bit_or_iff bit_push_bit_iff bit_unsigned_iff bit_drop_bit_eq)
qed

lemma decl_gates:
  "fold (DECL_ISR isr) ns t v = (if v \<in> set ns then DECL_ISR isr v t v else t v)"
  "fold (DECL_IRQ isr) ns t v = (if v \<in> set ns then DECL_ISR isr v t v else t v)"
  by (induction ns arbitrary: t) (auto simp: DECL_ISR_def DECL_IRQ_def)

lemma outs_idt: "idt (fold (\<lambda>(port, val). outb port val) ps s) = idt s"
  by (induction ps arbitrary: s) (auto simp: outb_def)

lemma outs_dev: "dev_out (fold (\<lambda>(port, val). outb port val) ps s) = dev_out s @ map (\<lambda>(port, val). PortOut port val) ps"
  by (induction ps arbitrary: s) (auto simp: outb_def)

lemma isr_init_idt: "idt (isr_init isr s) v = (if v < 256 then DECL_ISR isr v (idt s) v else idt s v)"
  unfolding isr_init_def Let_def outs_idt int_state.simps decl_gates set_upt by (auto simp: DECL_ISR_def)

section \<open>The queue of deferred calls\<close>

text \<open>The elements in the queue, the newest first.\<close>

definition defer_stack :: "'a int_state_scheme \<Rightarrow> (u64 \<times> u64) list" where
  "defer_stack s = rev (map (\<lambda>i. defer_elems s (of_nat i)) [0..<unat (defer_queue_end s)])"

lemma kmem_realloc_int:
  assumes "kmem_realloc p n (s :: 'a int_state_scheme) = Ok (q, k, t)"
  shows "defer_elems t = defer_elems s \<and> defer_queue_end t = defer_queue_end s"
proof -
  obtain r u where a: "kmem_alloc n s = Ok (r, u)" and f: "r = 0 \<and> t = u \<or> r \<noteq> 0 \<and> kmem_free p u = Ok t"
    using assms by (auto simp: kmem_realloc_def Let_def kmem_try_realloc_def bind_res_Ok_iff verify_Ok_iff split: if_splits)
  have u: "defer_elems u = defer_elems s \<and> defer_queue_end u = defer_queue_end s"
    using kmem_alloc_only[OF a] by (auto simp: heap_only_def)
  then show ?thesis using f kmem_free_only[of p u t] by (auto simp: heap_only_def)
qed

lemma defer_queue_push_Ok:
  assumes "defer_queue_push x s = Ok t"
  obtains u where "defer_elems u = defer_elems s" "defer_queue_end u = defer_queue_end s"
    "t = u\<lparr>defer_queue_end := defer_queue_end u + 1, defer_elems := (defer_elems u)(defer_queue_end u := x)\<rparr>"
proof -
  obtain u where u: "(if defer_queue_end s \<ge> defer_queue_size s then defer_queue_expand s else Ok s) = Ok u"
    and t: "t = u\<lparr>defer_queue_end := defer_queue_end u + 1, defer_elems := (defer_elems u)(defer_queue_end u := x)\<rparr>"
    using assms unfolding defer_queue_push_def Let_def bind_res_Ok_iff by auto
  have "defer_elems u = defer_elems s \<and> defer_queue_end u = defer_queue_end s"
  proof (cases "defer_queue_end s \<ge> defer_queue_size s")
    case True
    then obtain q k v where "kmem_realloc (defer_queue s) (defer_queue_size s * 3 div 2 * 16) s = Ok (q, k, v)"
      "u = v\<lparr>defer_queue := q, defer_queue_size := defer_queue_size s * 3 div 2\<rparr>"
      using u unfolding if_P[OF True] defer_queue_expand_def Let_def bind_res_Ok_iff by (auto simp: verify_Ok_iff)
    then show ?thesis using kmem_realloc_int by fastforce
  qed (use u in auto)
  then show ?thesis using t that by blast
qed

lemma of_nat_below:
  fixes e :: u64 assumes "i < unat e" shows "of_nat i \<noteq> e"
  using assms unat_of_nat_small[of i, where 'a = 64] unat_u64_less[of e] by auto

lemma defer_push_stack:
  assumes "defer_queue_push x s = Ok t" "unat (defer_queue_end s) + 1 < 2 ^ 64"
  shows "defer_stack t = x # defer_stack s" "unat (defer_queue_end t) = unat (defer_queue_end s) + 1"
proof -
  obtain u where u: "defer_elems u = defer_elems s" "defer_queue_end u = defer_queue_end s"
    and t: "t = u\<lparr>defer_queue_end := defer_queue_end u + 1, defer_elems := (defer_elems u)(defer_queue_end u := x)\<rparr>"
    using defer_queue_push_Ok[OF assms(1)] by blast
  let ?e = "defer_queue_end s"
  have e: "unat (?e + 1) = unat ?e + 1" using assms(2) unat_add_no_wrap[of ?e 1] by simp
  show "unat (defer_queue_end t) = unat ?e + 1" using t u e by simp
  show "defer_stack t = x # defer_stack s" unfolding defer_stack_def t using u e of_nat_below by simp
qed

lemma defer_pop_stack:
  assumes "defer_stack s = x # xs"
  shows "\<exists>t. defer_queue_pop s = (x, t) \<and> defer_stack t = xs"
proof -
  let ?e = "defer_queue_end s"
  have n: "unat ?e = Suc (unat (?e - 1))"
  proof -
    have "?e \<noteq> 0" using assms by (auto simp: defer_stack_def)
    then show ?thesis by (simp add: unat_minus_one unat_gt_0)
  qed
  let ?t = "s\<lparr>defer_queue_end := ?e - 1\<rparr>"
  have "defer_stack s = defer_elems s (?e - 1) # defer_stack ?t" unfolding defer_stack_def n by simp
  then show ?thesis using assms by (simp add: defer_queue_pop_def)
qed

text \<open>A stack whose \<open>push\<close> may stop: \<open>room s n\<close> says that \<open>n\<close> more elements can be numbered.\<close>

fun pops :: "('s \<Rightarrow> 'x \<times> 's) \<Rightarrow> nat \<Rightarrow> 's \<Rightarrow> 'x list \<times> 's" where
  "pops pop 0 s = ([], s)"
| "pops pop (Suc n) s = (let (x, s) = pop s; (xs, s) = pops pop n s in (x # xs, s))"

locale lifo =
  fixes stack :: "'s \<Rightarrow> 'x list"
    and push :: "'x \<Rightarrow> 's \<Rightarrow> 's res"
    and pop :: "'s \<Rightarrow> 'x \<times> 's"
    and room :: "'s \<Rightarrow> nat \<Rightarrow> bool"
  assumes push_top: "push x s = Ok t \<Longrightarrow> room s (Suc n) \<Longrightarrow> stack t = x # stack s \<and> room t n"
    and pop_top: "stack s = x # xs \<Longrightarrow> \<exists>t. pop s = (x, t) \<and> stack t = xs"
begin

lemma push_all: "fold_res push xs s = Ok t \<Longrightarrow> room s (length xs) \<Longrightarrow> stack t = rev xs @ stack s"
proof (induction xs arbitrary: s)
  case (Cons x xs)
  then obtain u where "push x s = Ok u" "fold_res push xs u = Ok t" by (auto simp: bind_res_Ok_iff)
  then show ?case using Cons.IH[of u] push_top[of x s u "length xs"] Cons.prems(2) by simp
qed simp

lemma pop_all: "stack s = xs @ ys \<Longrightarrow> \<exists>t. pops pop (length xs) s = (xs, t) \<and> stack t = ys"
proof (induction xs arbitrary: s)
  case (Cons x xs)
  then obtain u where u: "pop s = (x, u)" "stack u = xs @ ys" using pop_top by fastforce
  from Cons.IH[OF u(2)] obtain t where "pops pop (length xs) u = (xs, t)" "stack t = ys" by blast
  then show ?case using u(1) by (intro exI[of _ t]) simp
qed simp

lemma push_pop_all:
  assumes "fold_res push xs s = Ok t" "room s (length xs)"
  shows "\<exists>u. pops pop (length xs) t = (rev xs, u) \<and> stack u = stack s"
  using pop_all[OF push_all[OF assms]] by simp

end

interpretation dq: lifo defer_stack defer_queue_push defer_queue_pop "\<lambda>s n. unat (defer_queue_end s) + n < 2 ^ 64"
proof unfold_locales
  fix x n and s t :: "'a int_state_scheme"
  assume p: "defer_queue_push x s = Ok t" and r: "unat (defer_queue_end s) + Suc n < 2 ^ 64"
  then have "unat (defer_queue_end s) + 1 < 2 ^ 64" by simp
  from defer_push_stack[OF p this] r
  show "defer_stack t = x # defer_stack s \<and> unat (defer_queue_end t) + n < 2 ^ 64" by simp
next
  fix s :: "'a int_state_scheme" and x xs
  show "defer_stack s = x # xs \<Longrightarrow> \<exists>t. defer_queue_pop s = (x, t) \<and> defer_stack t = xs" by (rule defer_pop_stack)
qed

section \<open>Allocation\<close>

text \<open>An allocation that finds a block changes nothing but the heap.\<close>

lemma alloc_only:
  assumes "heap_rel s bs" "mutex_owner s KheapLock = 0" "h_alloc n bs = Some (c, bs')" "n = ALIGNUP sz 32"
  obtains kl kw where "kmem_alloc sz s = Ok (c + 32, s\<lparr>kh_list := kl, kh_word := kw\<rparr>)"
    "heap_rel (s\<lparr>kh_list := kl, kh_word := kw\<rparr>) bs'" "c + 32 \<noteq> 0"
proof -
  note H = kmem_alloc_hit[OF assms(1,2), of sz c bs'] and h = h_alloc_find[of n bs]
  obtain kl kw where k: "kheap_take c (ALIGNUP sz 32) s = s\<lparr>kh_list := kl, kh_word := kw\<rparr>"
    using kheap_take_only[of s c "ALIGNUP sz 32" s] by (auto simp: heap_only_def)
  obtain xs m ys where "bs = xs @ (c, m, False) # ys" using h assms(3) by auto
  then have "(c, m, False) \<in> set bs" by simp
  from heap_rel_block(5)[OF assms(1) this] have "unat (c + 32) = unat c + 32" by (simp add: unat_word_ariths(1))
  then have "c + 32 \<noteq> 0" by (metis add_eq_0_iff_both_eq_0 unat_0 zero_neq_numeral)
  then show ?thesis using H assms(3,4) k that by simp
qed

lemma heap_rel_upd:
  fixes s :: "'a int_state_scheme"
  shows "heap_rel (s\<lparr>irq_handlers := a\<rparr>) bs = heap_rel s bs"
    "heap_rel (s\<lparr>irq_handler_tab := b\<rparr>) bs = heap_rel s bs"
    "heap_rel (s\<lparr>defer_queue := c\<rparr>) bs = heap_rel s bs"
    "heap_rel (s\<lparr>defer_queue_end := d\<rparr>) bs = heap_rel s bs"
    "heap_rel (s\<lparr>defer_queue_size := e\<rparr>) bs = heap_rel s bs"
    "heap_rel (s\<lparr>timer_heap := f\<rparr>) bs = heap_rel s bs"
    "heap_rel (s\<lparr>timer_heap_end := g\<rparr>) bs = heap_rel s bs"
    "heap_rel (s\<lparr>timer_heap_size := h\<rparr>) bs = heap_rel s bs"
    "heap_rel (s\<lparr>timer_elems := i\<rparr>) bs = heap_rel s bs"
    "heap_rel (s\<lparr>dev_out := j\<rparr>) bs = heap_rel s bs"
    "heap_rel (s\<lparr>int_cpu := k\<rparr>) bs = heap_rel s bs"
  by (simp_all add: heap_rel_def)

lemma apic_enable_eq:
  "apic_enable s = s\<lparr>dev_out := dev_out s @ [ApicOut 0xF0 (apic_in s 0xF0 OR 0x1FF), ApicOut 0xE0 0xFFFFFFFF, ApicOut 0x80 0],
     int_cpu := (int_cpu s)\<lparr>cpu_if := True\<rparr>\<rparr>"
  by (simp add: apic_enable_def apic_read_reg_def apic_write_reg_def APIC_REG_SPURIOUS_def APIC_REG_DEST_FORMAT_def
      APIC_REG_TASK_PRIORITY_def Let_def interrupt_enable_preemption_def)

lemma init_apic_timer_eq:
  "init_apic_timer s = s\<lparr>dev_out := dev_out s @ [ApicOut 0x3E0 3, ApicOut 0x380 (ucast (apic_timer_count s div 10)), ApicOut 0x320 0x20030]\<rparr>"
  by (simp add: init_apic_timer_def apic_write_reg_def APIC_REG_TIMER_DIV_CFG_def APIC_REG_TIMER_INIT_CNT_def
      APIC_REG_TIMER_LVT_def Let_def)

section \<open>Properties\<close>

text \<open>A processor with a free heap chunk of 4 kB at \<open>0x1000\<close>.\<close>

definition demo_int :: int_state where
  "demo_int = kheap_state.extend demo_heap \<lparr>timer_heap = 0, timer_elems = (\<lambda>_. \<lparr>te_deadline = 0, te_callback = 0, te_data = 0\<rparr>),
     timer_heap_end = 0, timer_heap_size = 0, tsc = 0, tsc_count = 5000, apic_timer_count = 62500,
     idt = (\<lambda>_. \<lparr>off_low = 0, selector = 0, ist = 0, resv1 = 0, gate_type = 0, gate_z = 0, dpl = 0, gate_p = 0,
       off_mid = 0, off_high = 0, ign = 0\<rparr>),
     dev_out = [], apic_in = (\<lambda>_. 0), apic_reg_base = 0, irq_handlers = 0, irq_handler_tab = (\<lambda>_. NoHandler),
     defer_queue = 0x3000, defer_elems = (\<lambda>_. (0, 0)), defer_queue_end = 0, defer_queue_size = 32, pit_flag = True,
     int_cpu = \<lparr>cpu_id = 0, cpu_if = False\<rparr>\<rparr>"

text \<open>After \<open>isr_init\<close> every gate of the table is present, can be entered from the kernel only and leads to
  the entry code of its vector, and the old interrupt controllers are masked last.\<close>

theorem isr_init_gates:
  assumes "v < 256"
  shows "let t = isr_init isr s; g = idt t v
    in gate_offset g = isr v \<and> gate_p g = 1 \<and> gate_type g = 14 \<and> dpl g = 0 \<and> selector g = 8 \<and> ist g = 0 \<and>
       (\<exists>ws. dev_out t = dev_out s @ ws @ [PortOut 0xA1 0xff, PortOut 0x21 0xff])"
proof -
  have idt_dev: "dev_out (u\<lparr>idt := x, idt := y\<rparr>) = dev_out u" for u :: "'a int_state_scheme" and x y by simp
  have "dev_out (isr_init isr s) = dev_out s @ map (\<lambda>(port, val). PortOut port val)
     [(0x20, 0x11), (0xA0, 0x11), (0x21, 0x20), (0xA1, 0x28), (0x21, 0x04), (0xA1, 0x02),
      (0x21, 0x01), (0xA1, 0x01), (0xA1, 0xff), (0x21, 0xff)]"
    unfolding isr_init_def Let_def outs_dev idt_dev by (rule refl)
  then have "\<exists>ws. dev_out (isr_init isr s) = dev_out s @ ws @ [PortOut 0xA1 0xff, PortOut 0x21 0xff]"
    by (intro exI[of _ "map (\<lambda>(port, val). PortOut port val) [(0x20, 0x11), (0xA0, 0x11), (0x21, 0x20), (0xA1, 0x28),
      (0x21, 0x04), (0xA1, 0x02), (0x21, 0x01), (0xA1, 0x01)]"]) simp
  moreover have "idt (isr_init isr s) v = DECL_ISR isr v (idt s) v" using assms by (simp only: isr_init_idt if_True)
  ultimately show ?thesis by (simp add: Let_def DECL_ISR_def gate_offset_def word_pieces)
qed

theorem isr_init_gates_witness:
  "gate_offset (idt (isr_init (\<lambda>v. 0xFFFFFFFF80100000 + 16 * of_nat v) demo_int) 48) = 0xFFFFFFFF80100300"
  using isr_init_gates[of 48 "\<lambda>v. 0xFFFFFFFF80100000 + 16 * of_nat v" demo_int] by (simp add: Let_def)

text \<open>The queue of deferred calls is a stack, also when it grows: after pushing any calls, taking as many
  gives them back in reverse and leaves the queue as it was.\<close>

theorem defer_queue_lifo:
  assumes "fold_res defer_queue_push xs s = Ok t" "unat (defer_queue_end s) + length xs < 2 ^ 64"
  shows "\<exists>u. pops defer_queue_pop (length xs) t = (rev xs, u) \<and> defer_stack u = defer_stack s"
  by (rule dq.push_pop_all[OF assms])

theorem defer_queue_lifo_witness:
  "\<exists>t u. fold_res defer_queue_push [(1, 10), (2, 20)] demo_int = Ok t \<and> pops defer_queue_pop 2 t = ([(2, 20), (1, 10)], u) \<and> defer_stack u = []"
proof -
  have e: "defer_queue_end demo_int = 0" "defer_queue_size demo_int = 32" by (simp_all add: demo_int_def kheap_state.defs)
  then have "\<exists>t. fold_res defer_queue_push [(1, 10), (2, 20)] demo_int = Ok t" by (simp add: defer_queue_push_def Let_def word_le_nat_alt)
  then obtain t where t: "fold_res defer_queue_push [(1, 10), (2, 20)] demo_int = Ok t" ..
  have "defer_stack demo_int = []" using e by (simp add: defer_stack_def)
  moreover have "unat (defer_queue_end demo_int) + length [(1, 10), (2, 20)] < 2 ^ 64" using e by simp
  ultimately show ?thesis using defer_queue_lifo[OF t] t by (simp add: numeral_2_eq_2)
qed

text \<open>C37: The start of a further processor succeeds when the heap has room for its three tables.  Then only the
  timer's vector has a handler: the other entries are what the heap block held before, and
  an interrupt through such a stray word is a wild call.\<close>

theorem interrupt_init_ap_handlers:
  assumes "heap_rel s bs" "mutex_owner s KheapLock = 0"
    and "h_alloc 1792 bs = Some (c, bs1)" "h_alloc 512 bs1 = Some (c', bs2)" "h_alloc 1536 bs2 = Some (c'', bs3)"
  shows "\<exists>t. interrupt_init_ap old s = Ok t \<and> heap_rel t bs3 \<and> irq_handler_tab t = old(16 := TimerIrqHandler) \<and>
    cpu_if (int_cpu t) \<and> timer_heap_empty t \<and> defer_stack t = [] \<and>
    dev_out t = dev_out s @ [ApicOut 0xF0 (apic_in s 0xF0 OR 0x1FF), ApicOut 0xE0 0xFFFFFFFF, ApicOut 0x80 0,
      ApicOut 0x3E0 3, ApicOut 0x380 (ucast (apic_timer_count s div 10)), ApicOut 0x320 0x20030] \<and>
    (\<forall>w a call. w \<noteq> 48 \<and> old (w - 32) = Stray a \<longrightarrow> irq_handler call w t = Fail WildCall)"
proof -
  have n: "1792 = ALIGNUP (8 * (IDT_GATES - IRQ_OFFSET)) 32" "512 = ALIGNUP (DEFER_QUEUE_INIT_SIZE * 16) 32" "1536 = ALIGNUP (TIMER_ELEM_SIZE * 64) 32"
    by (simp_all add: IDT_GATES_def IRQ_OFFSET_def DEFER_QUEUE_INIT_SIZE_def TIMER_ELEM_SIZE_def ALIGNUP_def ALIGNDOWN_def)
  obtain kl kw where a: "kmem_alloc (8 * (IDT_GATES - IRQ_OFFSET)) s = Ok (c + 32, s\<lparr>kh_list := kl, kh_word := kw\<rparr>)"
      "heap_rel (s\<lparr>kh_list := kl, kh_word := kw\<rparr>) bs1" "c + 32 \<noteq> 0"
    using alloc_only[OF assms(1-3) n(1)] by blast
  define s1 where "s1 = s\<lparr>kh_list := kl, kh_word := kw, irq_handlers := c + 32, irq_handler_tab := old\<rparr>"
  have h: "handlers_alloc msg old s = Ok s1" for msg using a by (simp add: handlers_alloc_def s1_def Let_def)
  have r1: "heap_rel s1 bs1" "mutex_owner s1 KheapLock = 0" using a(2) assms(2) by (simp_all add: s1_def heap_rel_upd)
  obtain kl kw where b: "kmem_alloc (DEFER_QUEUE_INIT_SIZE * 16) s1 = Ok (c' + 32, s1\<lparr>kh_list := kl, kh_word := kw\<rparr>)"
      "heap_rel (s1\<lparr>kh_list := kl, kh_word := kw\<rparr>) bs2" "c' + 32 \<noteq> 0"
    using alloc_only[OF r1 assms(4) n(2)] by blast
  define s2 where "s2 = apic_enable (s1\<lparr>kh_list := kl, kh_word := kw, defer_queue := c' + 32, defer_queue_end := 0, defer_queue_size := DEFER_QUEUE_INIT_SIZE\<rparr>)"
  have q: "bind_res (defer_queue_init s1) (\<lambda>s. timer_init_ap (apic_enable s)) = timer_init_ap s2"
    using b by (simp add: defer_queue_init_def s2_def Let_def)
  have r2: "heap_rel s2 bs2" "mutex_owner s2 KheapLock = 0" using b(2) r1(2) by (simp_all add: s2_def apic_enable_eq heap_rel_upd)
  obtain kl kw where d: "kmem_alloc (TIMER_ELEM_SIZE * 64) s2 = Ok (c'' + 32, s2\<lparr>kh_list := kl, kh_word := kw\<rparr>)"
      "heap_rel (s2\<lparr>kh_list := kl, kh_word := kw\<rparr>) bs3" "c'' + 32 \<noteq> 0"
    using alloc_only[OF r2 assms(5) n(3)] by blast
  define t where "t = (init_apic_timer (s2\<lparr>kh_list := kl, kh_word := kw, timer_heap := c'' + 32, timer_heap_end := 1, timer_heap_size := HEAP_INIT_SIZE,
    timer_elems := (timer_elems s2)(0 := \<lparr>te_deadline = 0, te_callback = 0, te_data = 0\<rparr>)\<rparr>))\<lparr>irq_handler_tab := old(16 := TimerIrqHandler)\<rparr>"
  have s2: "irq_handlers s2 = c + 32" "irq_handler_tab s2 = old" "defer_queue_end s2 = 0" "cpu_if (int_cpu s2)" "apic_timer_count s2 = apic_timer_count s"
    "dev_out s2 = dev_out s @ [ApicOut 0xF0 (apic_in s 0xF0 OR 0x1FF), ApicOut 0xE0 0xFFFFFFFF, ApicOut 0x80 0]"
    by (simp_all add: s2_def apic_enable_eq s1_def)
  have "timer_init_ap s2 = Ok t"
    using d a(3) s2(1,2) by (simp add: timer_init_ap_def timer_heap_init_def t_def init_apic_timer_eq interrupt_set_handler_def
        nonnull_def verify_def Let_def IRQ_OFFSET_def IDT_GATES_def)
  then have "interrupt_init_ap old s = Ok t" by (simp add: interrupt_init_ap_def h q)
  moreover have "heap_rel t bs3" using d(2) by (simp add: t_def init_apic_timer_eq heap_rel_upd)
  moreover have "irq_handler call w t = Fail WildCall" if "w \<noteq> 48" "old (w - 32) = Stray x" for call w x
  proof -
    have "w - 32 \<noteq> 16" using that(1) by (simp add: diff_eq_eq)
    then show ?thesis using that(2) a(3) s2(1) by (simp add: irq_handler_def t_def init_apic_timer_eq call_handler_def nonnull_def IRQ_OFFSET_def)
  qed
  ultimately show ?thesis
    using s2 by (intro exI[of _ t]) (simp add: t_def init_apic_timer_eq timer_heap_empty_def defer_stack_def)
qed

theorem interrupt_init_ap_handlers_witness:
  "\<exists>t. interrupt_init_ap (\<lambda>_. Stray 0xBAD) demo_int = Ok t \<and> irq_handler_tab t 16 = TimerIrqHandler \<and>
    irq_handler (\<lambda>f d s. Ok s) 33 t = Fail WildCall"
proof -
  have r: "heap_rel demo_int [(0x1000, 0xfe0, False)]" "mutex_owner demo_int KheapLock = 0"
    using demo_heap_rel by (simp_all add: demo_int_def heap_rel_def kheap_state.defs demo_heap_def)
  from interrupt_init_ap_handlers[OF r, where old = "\<lambda>_. Stray 0xBAD"]
  show ?thesis by fastforce
qed

end
