(* ===== verification/Ig_mboot2.thy ===== *)
theory Ig_mboot2
  imports Tables K_panic
begin


















section \<open>The walks\<close>



section \<open>What the walks compute\<close>











section \<open>Properties\<close>






end
