(* ===== verification/Rt_syscall.thy ===== *)
theory Rt_syscall
  imports C_string K_syscall
begin

text \<open>
  The user-space runtime below the C library: \<open>osrt/rt/syscall.c\<close> and \<open>syscall.s\<close>, \<open>memory.c\<close>, \<open>port.c\<close>
  and \<open>console.c\<close>.  The kernel is the argument \<open>kern\<close>, which answers a request and may change the memory
  of the program and its own state \<open>rt_kernel\<close>; what a request means to the kernel of this
  development is \<open>syscall_entry\<close>.
\<close>

section \<open>Requests\<close>

type_synonym sysargs = "u64 \<times> u64 \<times> u64 \<times> u64 \<times> u64 \<times> u64"
type_synonym sysreq = "u64 \<times> sysargs"
type_synonym 'k kernel = "sysreq \<Rightarrow> mem \<Rightarrow> 'k \<Rightarrow> u64 \<times> mem \<times> 'k"

record 'k rt_state =
  umem :: mem
  errno :: u32
  rt_kernel :: 'k

text \<open>The registers in which \<open>__do_syscall\<close> leaves the number and the arguments, and the order in which
  \<open>__syscall_entry\<close> hands them to the C function.\<close>

record sysregs =
  rg_rax :: u64
  rg_rdi :: u64
  rg_rsi :: u64
  rg_r8 :: u64
  rg_r9 :: u64
  rg_r10 :: u64
  rg_r12 :: u64

definition do_syscall_regs :: "sysreq \<Rightarrow> sysregs" where
  "do_syscall_regs req = (case req of (syscall_no, arg1, arg2, arg3, arg4, arg5, arg6) \<Rightarrow>
     \<lparr>rg_rax = syscall_no, rg_rdi = arg1, rg_rsi = arg2, rg_r8 = arg3, rg_r9 = arg4, rg_r10 = arg5, rg_r12 = arg6\<rparr>)"

definition entry_args :: "sysregs \<Rightarrow> sysargs" where
  "entry_args r = (rg_rdi r, rg_rsi r, rg_r8 r, rg_r9 r, rg_r10 r, rg_r12 r)"

definition do_syscall :: "'k kernel \<Rightarrow> sysreq \<Rightarrow> 'k rt_state \<Rightarrow> u64 \<times> 'k rt_state" where
  "do_syscall kern req s = (let (r, m, k) = kern req (umem s) (rt_kernel s) in (r, s\<lparr>umem := m, rt_kernel := k\<rparr>))"

section \<open>Wrappers\<close>

text \<open>The numbers of \<open>enum __OSRT_SYSCALLS\<close>.  A wrapper is the request it makes.\<close>

definition usys_as_create :: sysreq where "usys_as_create = (0, 0, 0, 0, 0, 0, 0)"
definition usys_as_clone :: "u64 \<Rightarrow> sysreq" where "usys_as_clone as = (1, as, 0, 0, 0, 0, 0)"
definition usys_as_destroy :: "u64 \<Rightarrow> sysreq" where "usys_as_destroy as = (2, as, 0, 0, 0, 0, 0)"
definition usys_mmap :: "u64 \<Rightarrow> u64 \<Rightarrow> u64 \<Rightarrow> u32 \<Rightarrow> sysreq" where
  "usys_mmap as vaddr sz flag = (3, as, vaddr, sz, ucast flag, 0, 0)"
definition usys_mtransfer :: "u64 \<Rightarrow> u64 \<Rightarrow> u64 \<Rightarrow> u64 \<Rightarrow> u64 \<Rightarrow> u32 \<Rightarrow> sysreq" where
  "usys_mtransfer dst src vaddr_dst vaddr_src sz flag = (4, dst, src, vaddr_dst, vaddr_src, sz, ucast flag)"
definition usys_munmap :: "u64 \<Rightarrow> u64 \<Rightarrow> u64 \<Rightarrow> sysreq" where "usys_munmap as vaddr sz = (5, as, vaddr, sz, 0, 0, 0)"
definition usys_port_create :: "u64 \<Rightarrow> u64 \<Rightarrow> sysreq" where "usys_port_create nm len = (6, nm, len, 0, 0, 0, 0)"
definition usys_port_open :: "u64 \<Rightarrow> u64 \<Rightarrow> sysreq" where "usys_port_open nm len = (7, nm, len, 0, 0, 0, 0)"
definition usys_port_close :: "u64 \<Rightarrow> sysreq" where "usys_port_close port = (8, port, 0, 0, 0, 0, 0)"
definition usys_port_request :: "u64 \<Rightarrow> u64 \<Rightarrow> sysreq" where "usys_port_request port req = (9, port, req, 0, 0, 0, 0)"
definition usys_port_receive :: "u64 \<Rightarrow> u64 \<Rightarrow> u64 \<Rightarrow> u64 \<Rightarrow> sysreq" where
  "usys_port_receive port buffer buf buflen = (10, port, buffer, buf, buflen, 0, 0)"
definition usys_port_response :: "u64 \<Rightarrow> u64 \<Rightarrow> u64 \<Rightarrow> u64 \<Rightarrow> sysreq" where
  "usys_port_response req retval ret_data ret_data_size = (11, req, retval, ret_data, ret_data_size, 0, 0)"
definition usys_process_spawn :: "u64 \<Rightarrow> u64 \<Rightarrow> sysreq" where "usys_process_spawn as entry = (12, as, entry, 0, 0, 0, 0)"
definition usys_process_exit :: "u64 \<Rightarrow> sysreq" where "usys_process_exit retval = (13, retval, 0, 0, 0, 0, 0)"
definition usys_process_wait :: "u64 \<Rightarrow> u64 \<Rightarrow> sysreq" where "usys_process_wait pid st = (14, pid, st, 0, 0, 0, 0)"
definition usys_reincarnate :: "u64 \<Rightarrow> u64 \<Rightarrow> sysreq" where "usys_reincarnate as entry = (15, as, entry, 0, 0, 0, 0)"
definition usys_futex_wait :: "u64 \<Rightarrow> u64 \<Rightarrow> sysreq" where "usys_futex_wait a val = (16, a, val, 0, 0, 0, 0)"
definition usys_futex_wake :: "u64 \<Rightarrow> u64 \<Rightarrow> sysreq" where "usys_futex_wake a n = (16, a, n, 0, 0, 0, 0)"

lemmas usys_defs = usys_as_create_def usys_as_clone_def usys_as_destroy_def usys_mmap_def usys_mtransfer_def usys_munmap_def
  usys_port_create_def usys_port_open_def usys_port_close_def usys_port_request_def usys_port_receive_def usys_port_response_def
  usys_process_spawn_def usys_process_exit_def usys_process_wait_def usys_reincarnate_def usys_futex_wait_def usys_futex_wake_def

section \<open>Errors\<close>

text \<open>A signed result below 0 is the negative of an error number.\<close>

definition set_errno :: "u64 \<Rightarrow> 'k rt_state \<Rightarrow> 'k rt_state" where
  "set_errno ret s = s\<lparr>errno := ucast (- ret)\<rparr>"

definition map_page :: "'k kernel \<Rightarrow> u64 \<Rightarrow> u64 \<Rightarrow> u32 \<Rightarrow> 'k rt_state \<Rightarrow> u64 \<times> 'k rt_state" where
  "map_page kern addr sz flags s = (let (ret, s) = do_syscall kern (usys_mmap 0 addr sz flags) s
   in if sint ret < 0 then (0, set_errno ret s) else (addr, s))"

definition unmap_page :: "'k kernel \<Rightarrow> u64 \<Rightarrow> u64 \<Rightarrow> 'k rt_state \<Rightarrow> 'k rt_state" where
  "unmap_page kern addr sz s = (let (ret, s) = do_syscall kern (usys_munmap 0 addr sz) s
   in if sint ret < 0 then set_errno ret s else s)"

text \<open>\<open>kobject_t\<close> is unsigned, so the tests of the next three functions never succeed; the result of
  \<open>port_close\<close> is cut to an \<open>int\<close>.\<close>

definition rt_port_create :: "'k kernel \<Rightarrow> u64 \<Rightarrow> 'k rt_state \<Rightarrow> u64 \<times> 'k rt_state" where
  "rt_port_create kern port_name s = (let (ret, s) = do_syscall kern (usys_port_create port_name (strlen port_name (umem s))) s
   in if ret < 0 then (- 1, set_errno ret s) else (ret, s))"

definition rt_port_open :: "'k kernel \<Rightarrow> u64 \<Rightarrow> 'k rt_state \<Rightarrow> u64 \<times> 'k rt_state" where
  "rt_port_open kern port_name s = (let (ret, s) = do_syscall kern (usys_port_open port_name (strlen port_name (umem s))) s
   in if ret < 0 then (- 1, set_errno ret s) else (ret, s))"

definition rt_port_close :: "'k kernel \<Rightarrow> u64 \<Rightarrow> 'k rt_state \<Rightarrow> u32 \<times> 'k rt_state" where
  "rt_port_close kern port s = (let (ret, s) = do_syscall kern (usys_port_close port) s
   in if ret < 0 then (- 1, set_errno ret s) else (ucast ret, s))"

definition rt_port_request :: "'k kernel \<Rightarrow> u64 \<Rightarrow> u64 \<Rightarrow> 'k rt_state \<Rightarrow> int \<times> 'k rt_state" where
  "rt_port_request kern port req s = (let (ret, s) = do_syscall kern (usys_port_request port req) s
   in if sint ret < 0 then (- 1, set_errno ret s) else (0, s))"

definition rt_port_receive :: "'k kernel \<Rightarrow> u64 \<Rightarrow> u64 \<Rightarrow> u64 \<Rightarrow> u64 \<Rightarrow> 'k rt_state \<Rightarrow> int \<times> 'k rt_state" where
  "rt_port_receive kern port buffer data_buffer buffer_size s = (let
     (ret, s) = do_syscall kern (usys_port_receive port buffer data_buffer buffer_size) s
   in if sint ret < 0 then (- 1, set_errno ret s) else (0, s))"

definition rt_port_response :: "'k kernel \<Rightarrow> u64 \<Rightarrow> u64 \<Rightarrow> u64 \<Rightarrow> u64 \<Rightarrow> 'k rt_state \<Rightarrow> int \<times> 'k rt_state" where
  "rt_port_response kern req retval ret_data ret_data_size s = (let
     (ret, s) = do_syscall kern (usys_port_response req retval ret_data ret_data_size) s
   in if sint ret < 0 then (- 1, set_errno ret s) else (0, s))"

text \<open>The request of \<open>console_write\<close> lies on the stack at \<open>stk\<close>; the fields that are not named are 0.  \<open>nm\<close> is the
  address of the literal \<open>kern.debug_print\<close>.\<close>

definition put_request :: "u64 \<Rightarrow> u64 \<Rightarrow> u64 \<Rightarrow> mem \<Rightarrow> mem" where
  "put_request stk data_addr data_size m =
     wr64 (stk + 40) 0 (wr64 (stk + 32) 0 (wr64 (stk + 24) data_size (wr64 (stk + 16) data_addr (wr64 (stk + 8) 0 (wr64 stk 0 m)))))"

definition console_write :: "'k kernel \<Rightarrow> u64 \<Rightarrow> u64 \<Rightarrow> u64 \<Rightarrow> u64 \<Rightarrow> 'k rt_state \<Rightarrow> 'k rt_state" where
  "console_write kern nm stk str str_size s = (let
     (port, s) = do_syscall kern (usys_port_open nm (strlen nm (umem s))) s
   in if port < 0 then set_errno port s
      else (let
        s = s\<lparr>umem := put_request stk str str_size (umem s)\<rparr>;
        (ret, s) = do_syscall kern (usys_port_request port stk) s;
        ret = ucast ret :: u32
      in if sint ret < 0 then s\<lparr>errno := - ret\<rparr>
         else snd (do_syscall kern (usys_port_close port) s)))"

section \<open>Error numbers\<close>

lemma ucast_u32_u64: "ucast (ucast (e :: u32) :: u64) = e"
  by (rule bit_word_eqI) (simp add: bit_unsigned_iff)

lemma ucast_minus_u32: "ucast (- x :: u64) = (- ucast x :: u32)"
proof transfer
  fix x :: int
  have "take_bit 32 (- take_bit 64 x) = take_bit 32 (- take_bit 32 (take_bit 64 x))" by (rule take_bit_minus[symmetric])
  also have "\<dots> = take_bit 32 (- x)" by (simp only: take_bit_take_bit min_def take_bit_minus) (simp add: take_bit_minus)
  finally show "take_bit LENGTH(32) (take_bit LENGTH(64) (- x)) = take_bit LENGTH(32) (- take_bit LENGTH(64) x)"
    by (simp add: take_bit_take_bit)
qed

section \<open>Properties\<close>

text \<open>The six arguments reach the C function in their order.\<close>

lemma syscall_registers:
  "entry_args (do_syscall_regs (no, as)) = as" "rg_rax (do_syscall_regs (no, as)) = no"
  by (cases as, simp add: do_syscall_regs_def entry_args_def)+

text \<open>The wrapper of the wake call makes the request of the wait call.\<close>

lemma usys_futex_wake_waits: "usys_futex_wake a n = usys_futex_wait a n"
  by (simp add: usys_defs)

text \<open>C32: When the kernel answers with the error \<open>e\<close>, that is with \<open>- e\<close>, the functions on signed results report it in
  \<open>errno\<close> and return -1 or the null pointer, but \<open>port_create\<close> and \<open>port_open\<close> return the negative number as a
  handle and leave \<open>errno\<close> alone.\<close>

theorem runtime_errors:
  assumes k: "\<And>req m st. kern req m st = (- ucast e, m, st)" and e: "0 < unat e" "unat e < 2 ^ 31"
  shows "map_page kern p n fl s = (0, s\<lparr>errno := e\<rparr>) \<and> rt_port_request kern p n s = (- 1, s\<lparr>errno := e\<rparr>) \<and>
    rt_port_receive kern p n a b s = (- 1, s\<lparr>errno := e\<rparr>) \<and> rt_port_response kern p n a b s = (- 1, s\<lparr>errno := e\<rparr>) \<and>
    unmap_page kern p n s = s\<lparr>errno := e\<rparr> \<and>
    rt_port_open kern p s = (- ucast e, s) \<and> rt_port_create kern p s = (- ucast e, s) \<and> rt_port_close kern p s = (- e, s)"
proof -
  have d: "do_syscall kern req u = (- ucast e, u)" for req u by (simp add: do_syscall_def k)
  have "take_bit 64 (unat e) = unat e" by (rule take_bit_nat_eq_self) (use e in simp)
  then have n: "unat (- ucast e :: u64) = 2 ^ 64 - unat e"
    using e unat_sub_if'[of 0 "ucast e :: u64"] by (simp add: unsigned_ucast_eq)
  then have "2 ^ 63 \<le> unat (- ucast e :: u64)" using e by simp
  then have neg: "sint (- ucast e :: u64) < 0"
    unfolding sint_unat using unat_u64_less[of "- ucast e"] by (simp del: of_nat_unat unat_of_nat)
  have u: "ucast (ucast e :: u64) = e" "ucast (- ucast e :: u64) = - e" by (simp_all add: ucast_u32_u64 ucast_minus_u32)
  show ?thesis using neg u
    by (simp add: map_page_def rt_port_request_def rt_port_receive_def rt_port_response_def unmap_page_def rt_port_open_def
        rt_port_create_def rt_port_close_def d set_errno_def)
qed

theorem runtime_errors_witness:
  "rt_port_request (\<lambda>req m st. (- 2, m, st)) 5 0x1000 \<lparr>umem = (\<lambda>_. 0), errno = 0, rt_kernel = ()\<rparr> =
     (- 1, \<lparr>umem = (\<lambda>_. 0), errno = 2, rt_kernel = ()\<rparr>) \<and>
   rt_port_open (\<lambda>req m st. (- 2, m, st)) 5 \<lparr>umem = (\<lambda>_. 0), errno = 0, rt_kernel = ()\<rparr> =
     (- 2, \<lparr>umem = (\<lambda>_. 0), errno = 0, rt_kernel = ()\<rparr>)"
  using runtime_errors[of "\<lambda>req m st. (- 2, m, st)" 2 5 "0x1000" 0 "\<lparr>umem = (\<lambda>_. 0), errno = 0, rt_kernel = ()\<rparr>"] by simp

end
