(* ===== verification/Rt_process.thy ===== *)
theory Rt_process
  imports Rt_syscall Tables
begin

text \<open>
  \<open>osrt/rt/process.c\<close>, \<open>_crt.c\<close> and \<open>crt1.s\<close>: loading a program from memory into a new address space, laying out its
  arguments, starting it and waiting for it, and the code around its \<open>main\<close>.  Everything happens in the memory of the parent;
  finished pages are handed over by requests to the kernel.
\<close>

section \<open>Files\<close>

text \<open>The fields of \<open>elf_ehdr_t\<close> and \<open>elf_phdr_t\<close>.\<close>

definition e_entry :: "mem \<Rightarrow> u64 \<Rightarrow> u64" where "e_entry m elf = rd64 m (elf + 24)"
definition e_phoff :: "mem \<Rightarrow> u64 \<Rightarrow> u64" where "e_phoff m elf = rd64 m (elf + 32)"
definition e_phnum :: "mem \<Rightarrow> u64 \<Rightarrow> u16" where "e_phnum m elf = rd16 m (elf + 56)"
definition p_type :: "mem \<Rightarrow> u64 \<Rightarrow> u32" where "p_type m p = rd32 m p"
definition p_flags :: "mem \<Rightarrow> u64 \<Rightarrow> u32" where "p_flags m p = rd32 m (p + 4)"
definition p_offset :: "mem \<Rightarrow> u64 \<Rightarrow> u64" where "p_offset m p = rd64 m (p + 8)"
definition p_vaddr :: "mem \<Rightarrow> u64 \<Rightarrow> u64" where "p_vaddr m p = rd64 m (p + 16)"
definition p_filesz :: "mem \<Rightarrow> u64 \<Rightarrow> u64" where "p_filesz m p = rd64 m (p + 32)"
definition p_memsz :: "mem \<Rightarrow> u64 \<Rightarrow> u64" where "p_memsz m p = rd64 m (p + 40)"

definition PT_LOAD :: u32 where "PT_LOAD = 1"
definition PF_X :: u32 where "PF_X = 1"
definition PF_W :: u32 where "PF_W = 2"
definition OSRT_PAGE_SIZE :: u64 where "OSRT_PAGE_SIZE = 2048 * 1024"
definition OSRT_PAGE_ATTR_WRITABLE :: u32 where "OSRT_PAGE_ATTR_WRITABLE = 2"
definition OSRT_PAGE_ATTR_EXECUTABLE :: u32 where "OSRT_PAGE_ATTR_EXECUTABLE = 8"
definition AS_CURRENT :: u64 where "AS_CURRENT = 0"

definition verify_ehdr :: "mem \<Rightarrow> u64 \<Rightarrow> bool" where
  "verify_ehdr m ehdr = (rd32 m ehdr = 0x464c457f)"

definition PS_ALIGNUP :: "u64 \<Rightarrow> u64" where
  "PS_ALIGNUP x = ((x - 1) div OSRT_PAGE_SIZE + 1) * OSRT_PAGE_SIZE"

definition segment_flags :: "u32 \<Rightarrow> u32" where
  "segment_flags fl = (let
     flags = (if fl AND PF_W \<noteq> 0 then OSRT_PAGE_ATTR_WRITABLE else 0);
     flags = (if fl AND PF_X \<noteq> 0 then flags OR OSRT_PAGE_ATTR_EXECUTABLE else flags)
   in flags)"

definition load_segment :: "'k kernel \<Rightarrow> u64 \<Rightarrow> u64 \<Rightarrow> u64 \<Rightarrow> 'k rt_state \<Rightarrow> bool \<times> 'k rt_state" where
  "load_segment kern as elf phdr s = (let
     flags = segment_flags (p_flags (umem s) phdr);
     mem_size = PS_ALIGNUP (p_memsz (umem s) phdr);
     (this_vaddr, s) = do_syscall kern (usys_mmap AS_CURRENT 0 mem_size OSRT_PAGE_ATTR_WRITABLE) s
   in if sint this_vaddr < 0 then (False, set_errno this_vaddr s)
      else (let
        s = s\<lparr>umem := snd (memcpy this_vaddr (elf + p_offset (umem s) phdr) (p_filesz (umem s) phdr) (umem s))\<rparr>;
        (ret, s) = do_syscall kern (usys_mtransfer as AS_CURRENT (p_vaddr (umem s) phdr) this_vaddr (p_memsz (umem s) phdr) flags) s
      in if sint ret < 0
         then (let (_, s) = do_syscall kern (usys_munmap AS_CURRENT this_vaddr (p_memsz (umem s) phdr)) s in (False, set_errno ret s))
         else (True, s)))"

text \<open>The program headers from \<open>phdr\<close> on, \<open>n\<close> of them; a header has 56 bytes.\<close>

fun load_segments :: "'k kernel \<Rightarrow> u64 \<Rightarrow> u64 \<Rightarrow> u64 \<Rightarrow> nat \<Rightarrow> 'k rt_state \<Rightarrow> bool \<times> 'k rt_state" where
  "load_segments kern as elf phdr 0 s = (True, s)"
| "load_segments kern as elf phdr (Suc n) s =
     (if p_type (umem s) phdr \<noteq> PT_LOAD then load_segments kern as elf (phdr + 56) n s
      else (let (ret, s) = load_segment kern as elf phdr s
        in if \<not> ret then (False, s) else load_segments kern as elf (phdr + 56) n s))"

definition elf_load_from_memory :: "'k kernel \<Rightarrow> u64 \<Rightarrow> u64 \<Rightarrow> 'k rt_state \<Rightarrow> u64 \<times> 'k rt_state" where
  "elf_load_from_memory kern as elf s =
     (if \<not> verify_ehdr (umem s) elf then (0, s\<lparr>errno := EINVAL\<rparr>)
      else (let (ok, s) = load_segments kern as elf (elf + e_phoff (umem s) elf) (unat (e_phnum (umem s) elf)) s
        in if \<not> ok then (0, s) else (e_entry (umem s) elf, s)))"

section \<open>Arguments\<close>

definition rt_ALIGNDOWN :: "u64 \<Rightarrow> u64 \<Rightarrow> u64" where "rt_ALIGNDOWN x a = x div a * a"
definition rt_ALIGNUP :: "u64 \<Rightarrow> u64 \<Rightarrow> u64" where "rt_ALIGNUP x a = ((x - 1) div a + 1) * a"
definition USERLAND_END_ADDR :: u64 where "USERLAND_END_ADDR = 0x800000000000"
definition STACK_SIZE :: u64 where "STACK_SIZE = 8 * 1024 * 1024"
definition INIT_DATA_SIZE :: u64 where "INIT_DATA_SIZE = 24"

definition wr32 :: "u64 \<Rightarrow> u32 \<Rightarrow> mem \<Rightarrow> mem" where
  "wr32 a v m = (\<lambda>b. if b - a < 4 then ucast (drop_bit (8 * unat (b - a)) v) else m b)"

text \<open>The sum of the lengths of the arguments, each with the byte added to its length.\<close>

fun arg_total :: "mem \<Rightarrow> u64 \<Rightarrow> nat \<Rightarrow> nat \<Rightarrow> u64 \<Rightarrow> u64" where
  "arg_total m argv 0 i acc = acc"
| "arg_total m argv (Suc n) i acc = arg_total m argv n (Suc i) (acc + (strlen (rd64 m (argv + 8 * of_nat i)) m + 1))"

text \<open>The loop that copies the arguments: \<open>shift\<close> is what turns an address of the block into the one it will
  have in the new program.\<close>

fun put_args :: "u64 \<Rightarrow> u64 \<Rightarrow> u64 \<Rightarrow> nat \<Rightarrow> nat \<Rightarrow> u64 \<Rightarrow> mem \<Rightarrow> mem" where
  "put_args shift argv argv_p 0 i p m = m"
| "put_args shift argv argv_p (Suc n) i p m = (let
     m = wr64 (argv_p + 8 * of_nat i) (p + shift) m;
     m = snd (strcpy p (rd64 m (argv + 8 * of_nat i)) m)
   in put_args shift argv argv_p n (Suc i) (p + (strlen (rd64 m (argv + 8 * of_nat i)) m + 1)) m)"

text \<open>\<open>argc\<close> is an \<open>int\<close>: a negative one leaves the loops at once, and \<open>argc + 1\<close> wraps where C leaves it undefined.  The failure
  at the end is the assertion about the address of the stack.\<close>

definition setup_as_for_proc :: "'k kernel \<Rightarrow> u64 \<Rightarrow> u64 \<Rightarrow> u32 \<Rightarrow> u64 \<Rightarrow> 'k rt_state \<Rightarrow> (u64 \<times> 'k rt_state) res" where
  "setup_as_for_proc kern as elf argc argv s = (let
     (entry, s) = elf_load_from_memory kern as elf s
   in if entry = 0 then Ok (0, s)
      else (let
        arg_total_len = arg_total (umem s) argv (nat (sint argc)) 0 0;
        argv_len = scast (argc + 1) * 8;
        init_data_size = rt_ALIGNUP (INIT_DATA_SIZE + arg_total_len + argv_len) OSRT_PAGE_SIZE;
        dst_init_data_addr = USERLAND_END_ADDR - init_data_size;
        (init_data, s) = do_syscall kern (usys_mmap AS_CURRENT 0 init_data_size OSRT_PAGE_ATTR_WRITABLE) s
      in if sint init_data < 0 then Ok (0, set_errno init_data s)
         else (let
           data = init_data + init_data_size - INIT_DATA_SIZE;
           p = data - arg_total_len;
           argv_p = data - arg_total_len - argv_len;
           shift = dst_init_data_addr - init_data;
           m = put_args shift argv argv_p (nat (sint argc)) 0 p (umem s);
           m = wr64 (argv_p + 8 * scast argc) 0 m;
           m = wr32 data argc m;
           m = wr64 (data + 8) (argv_p + shift) m;
           m = wr64 (data + 16) (rt_ALIGNDOWN (dst_init_data_addr - 1) 16) m;
           s = s\<lparr>umem := m\<rparr>;
           (ret, s) = do_syscall kern (usys_mtransfer as AS_CURRENT dst_init_data_addr init_data init_data_size 0) s
         in if sint ret < 0 then Ok (0, set_errno ret s)
            else (let
              stack_bottom_addr = USERLAND_END_ADDR - init_data_size - STACK_SIZE;
              (ret, s) = do_syscall kern (usys_mmap as stack_bottom_addr STACK_SIZE OSRT_PAGE_ATTR_WRITABLE) s
            in if sint ret < 0 then Ok (0, set_errno ret s)
               else if ret \<noteq> stack_bottom_addr then Fail (Panic ''ret == stack_bottom_addr'') else Ok (entry, s)))))"

section \<open>Processes\<close>

text \<open>The state of the child is returned in a structure on the stack at \<open>stk\<close>.\<close>

definition process_wait :: "'k kernel \<Rightarrow> u64 \<Rightarrow> u64 \<Rightarrow> u64 \<Rightarrow> 'k rt_state \<Rightarrow> bool \<times> 'k rt_state" where
  "process_wait kern stk pid ret s = (let (r, s) = do_syscall kern (usys_process_wait pid stk) s
   in if sint r < 0 then (False, set_errno r s)
      else (True, s\<lparr>umem := wr64 ret (rd64 (umem s) (stk + 8)) (umem s)\<rparr>))"

text \<open>\<open>kobject_t\<close> and \<open>pid_t\<close> are unsigned.\<close>

definition process_spawn_from_memory :: "'k kernel \<Rightarrow> u64 \<Rightarrow> u32 \<Rightarrow> u64 \<Rightarrow> 'k rt_state \<Rightarrow> (u64 \<times> 'k rt_state) res" where
  "process_spawn_from_memory kern elf argc argv s = (let
     (as, s) = do_syscall kern usys_as_create s
   in if as < 0 then Ok (- 1, set_errno as s)
      else bind_res (setup_as_for_proc kern as elf argc argv s) (\<lambda>(entry, s).
        if entry = 0 then (let (_, s) = do_syscall kern (usys_as_destroy as) s in Ok (- 1, s))
        else (let (ret, s) = do_syscall kern (usys_process_spawn as entry) s
          in if ret < 0 then (let (_, s) = do_syscall kern (usys_as_destroy as) s in Ok (- 1, set_errno ret s))
             else Ok (ret, s))))"

text \<open>The state in which the kernel has the request; the call does not return.\<close>

definition process_exit :: "'k kernel \<Rightarrow> u64 \<Rightarrow> 'k rt_state \<Rightarrow> 'k rt_state" where
  "process_exit kern retval s = snd (do_syscall kern (usys_process_exit retval) s)"

section \<open>The start of a program\<close>

text \<open>\<open>_crt.c\<close>.  The functions of an array between two addresses are called in order; \<open>call\<close> is a call through a pointer.\<close>

type_synonym 'k callee = "u64 \<Rightarrow> 'k rt_state \<Rightarrow> 'k rt_state res"

partial_function (option) crt_run :: "'k callee \<Rightarrow> u64 \<Rightarrow> u64 \<Rightarrow> 'k rt_state \<Rightarrow> 'k rt_state res option" where
  "crt_run call f e s =
     (if f = e then Some (Ok s)
      else case (if rd64 (umem s) f = 0 then Fail WildCall else call (rd64 (umem s) f) s) of
          Fail x \<Rightarrow> Some (Fail x)
        | Ok s \<Rightarrow> crt_run call (f + 8) e s)"

text \<open>The arrays of the program: their first address and the address behind them.\<close>

record crt_arrays =
  preinit_array :: "u64 \<times> u64"
  init_array :: "u64 \<times> u64"
  fini_array :: "u64 \<times> u64"

definition crt_preinit :: "'k callee \<Rightarrow> crt_arrays \<Rightarrow> 'k rt_state \<Rightarrow> 'k rt_state res" where
  "crt_preinit call c s = ends (crt_run call (fst (preinit_array c)) (snd (preinit_array c)) s)"

definition crt_init :: "'k callee \<Rightarrow> crt_arrays \<Rightarrow> 'k rt_state \<Rightarrow> 'k rt_state res" where
  "crt_init call c s = ends (crt_run call (fst (init_array c)) (snd (init_array c)) s)"

definition crt_fini :: "'k callee \<Rightarrow> crt_arrays \<Rightarrow> 'k rt_state \<Rightarrow> 'k rt_state res" where
  "crt_fini call c s = ends (crt_run call (fst (fini_array c)) (snd (fini_array c)) s)"

definition rt_exit :: "'k callee \<Rightarrow> crt_arrays \<Rightarrow> 'k kernel \<Rightarrow> u64 \<Rightarrow> 'k rt_state \<Rightarrow> 'k rt_state res" where
  "rt_exit call c kern retval s = bind_res (crt_fini call c s) (\<lambda>s. Ok (snd (do_syscall kern (usys_process_exit retval) s)))"

text \<open>\<open>_Exit\<close> of \<open>stdlib.c\<close>.\<close>

definition rt_Exit :: "'k callee \<Rightarrow> crt_arrays \<Rightarrow> 'k kernel \<Rightarrow> u32 \<Rightarrow> 'k rt_state \<Rightarrow> 'k rt_state res" where
  "rt_Exit call c kern status s = rt_exit call c kern (scast status) s"

definition INIT_DATA :: u64 where "INIT_DATA = USERLAND_END_ADDR - INIT_DATA_SIZE"

definition main_wrapper ::
    "(u32 \<Rightarrow> u64 \<Rightarrow> 'k rt_state \<Rightarrow> (u32 \<times> 'k rt_state) res) \<Rightarrow> 'k callee \<Rightarrow> crt_arrays \<Rightarrow> 'k kernel \<Rightarrow> 'k rt_state \<Rightarrow> 'k rt_state res" where
  "main_wrapper main call c kern s =
     bind_res (main (rd32 (umem s) INIT_DATA) (rd64 (umem s) (INIT_DATA + 8)) s) (\<lambda>(ret, s). rt_exit call c kern (scast ret) s)"

text \<open>\<open>_start\<close> of \<open>crt1.s\<close>; the stack pointer it loads is \<open>start_rsp\<close>.\<close>

definition start_rsp :: "mem \<Rightarrow> u64" where "start_rsp m = rd64 m 0x7ffffffffff8"

definition crt_start ::
    "(u32 \<Rightarrow> u64 \<Rightarrow> 'k rt_state \<Rightarrow> (u32 \<times> 'k rt_state) res) \<Rightarrow> 'k callee \<Rightarrow> crt_arrays \<Rightarrow> 'k kernel \<Rightarrow> 'k rt_state \<Rightarrow> 'k rt_state res" where
  "crt_start main call c kern s =
     bind_res (crt_preinit call c s) (\<lambda>s. bind_res (crt_init call c s) (main_wrapper main call c kern))"

declare crt_run.simps [code]

section \<open>What is handed over\<close>

text \<open>A kernel that grants every request: it maps zeroed memory, at the address \<open>area\<close> gives or at the one that is asked for, answers
  \<open>syscall_mmap\<close> and \<open>syscall_mtransfer\<close> with the address of the mapping, as \<open>k_syscall.c\<close> does, and the other requests with 0, and
  records the requests with the bytes that they transfer.  It never refuses a request, which the kernel may.\<close>

type_synonym transfer_log = "(sysreq \<times> u8 list) list"

definition log_kernel :: "(nat \<Rightarrow> u64) \<Rightarrow> transfer_log kernel" where
  "log_kernel area req m log = (case req of (no, a1, a2, a3, a4, a5, a6) \<Rightarrow>
     if no = 3 \<and> a2 \<noteq> 0 then (a2, m, log @ [(req, [])])
     else if no = 3 then (area (length log), filled (unat a3) (area (length log)) 0 m, log @ [(req, [])])
     else if no = 4 then (a3, m, log @ [(req, bytes_at m a4 (unat a5))])
     else (0, m, log @ [(req, [])]))"

text \<open>The file occupies \<open>n\<close> bytes from \<open>elf\<close> on.\<close>

definition in_file :: "u64 \<Rightarrow> nat \<Rightarrow> u64 \<Rightarrow> bool" where
  "in_file elf n a \<longleftrightarrow> unat (a - elf) < n"

definition same_file :: "u64 \<Rightarrow> nat \<Rightarrow> mem \<Rightarrow> mem \<Rightarrow> bool" where
  "same_file elf n m m' \<longleftrightarrow> (\<forall>a. in_file elf n a \<longrightarrow> m a = m' a)"

text \<open>The contents of a segment in the new program, and what makes a header sensible.\<close>

definition segment_image :: "mem \<Rightarrow> u64 \<Rightarrow> u64 \<Rightarrow> u8 list" where
  "segment_image m elf p = bytes_at m (elf + p_offset m p) (unat (p_filesz m p)) @ replicate (unat (p_memsz m p) - unat (p_filesz m p)) 0"

definition segment_ok :: "mem \<Rightarrow> nat \<Rightarrow> nat \<Rightarrow> u64 \<Rightarrow> bool" where
  "segment_ok m n room p \<longleftrightarrow> (p_type m p = PT_LOAD \<longrightarrow> unat (p_filesz m p) \<le> unat (p_memsz m p) \<and>
     unat (p_offset m p) + unat (p_filesz m p) \<le> n \<and> unat (p_memsz m p) \<le> 2 ^ 63 \<and> unat (PS_ALIGNUP (p_memsz m p)) \<le> room \<and> 0 \<le> sint (p_vaddr m p))"

text \<open>The areas the kernel gives have \<open>room\<close> bytes, do not overlap the file and look like addresses.\<close>

definition areas_apart :: "(nat \<Rightarrow> u64) \<Rightarrow> nat \<Rightarrow> u64 \<Rightarrow> nat \<Rightarrow> bool" where
  "areas_apart area room elf n \<longleftrightarrow> (\<forall>l. 0 \<le> sint (area l) \<and> (\<forall>x. unat (x - area l) < room \<longrightarrow> \<not> in_file elf n x))"

lemma in_fileI: "k < n \<Longrightarrow> n < 2 ^ 64 \<Longrightarrow> in_file elf n (elf + of_nat k)"
  by (simp add: in_file_def unat_of_nat_small)

lemma same_file_at: "same_file elf n m m' \<Longrightarrow> k < n \<Longrightarrow> n < 2 ^ 64 \<Longrightarrow> m (elf + of_nat k) = m' (elf + of_nat k)"
  by (simp add: same_file_def in_fileI)

lemma same_file_fields:
  assumes "same_file elf n m m'" "k + 56 \<le> n" "n < 2 ^ 64"
  defines "p \<equiv> elf + of_nat k"
  shows "p_type m p = p_type m' p" "p_flags m p = p_flags m' p" "p_offset m p = p_offset m' p" "p_vaddr m p = p_vaddr m' p"
    "p_filesz m p = p_filesz m' p" "p_memsz m p = p_memsz m' p"
proof -
  have e: "m (p + of_nat i) = m' (p + of_nat i)" if "i < 56" for i
    using same_file_at[OF assms(1), of "k + i"] assms(2,3) that by (simp add: p_def add.assoc)
  have r64: "rd64 m (p + of_nat i) = rd64 m' (p + of_nat i)" if "i + 8 \<le> 56" for i
    by (rule rd64_cong) (use e that in \<open>simp add: add.assoc flip: of_nat_add\<close>)
  show "p_offset m p = p_offset m' p" "p_vaddr m p = p_vaddr m' p" "p_filesz m p = p_filesz m' p" "p_memsz m p = p_memsz m' p"
    using r64[of 8] r64[of 16] r64[of 32] r64[of 40] by (simp_all add: p_offset_def p_vaddr_def p_filesz_def p_memsz_def)
  show "p_type m p = p_type m' p" using e[of 0] e[of 1] e[of 2] e[of 3] by (simp add: p_type_def rd32_def)
  show "p_flags m p = p_flags m' p" using e[of 4] e[of 5] e[of 6] e[of 7] by (simp add: p_flags_def rd32_def add.assoc)
qed

lemma PS_ALIGNUP_value:
  assumes "x \<noteq> 0" "unat x \<le> 2 ^ 63"
  shows "unat (PS_ALIGNUP x) = ((unat x - 1) div 2097152 + 1) * 2097152"
proof -
  let ?P = "2097152 :: nat" and ?q = "(unat x - 1) div 2097152"
  have "unat ((x - 1) div OSRT_PAGE_SIZE) = ?q" using assms(1) by (simp add: unat_div_distrib unat_minus_one OSRT_PAGE_SIZE_def)
  then have d: "(x - 1) div OSRT_PAGE_SIZE = of_nat ?q" by (metis of_nat_unat ucast_id)
  have "PS_ALIGNUP x = of_nat ((?q + 1) * ?P)" unfolding PS_ALIGNUP_def d by (simp add: OSRT_PAGE_SIZE_def)
  moreover have "(?q + 1) * ?P < 2 ^ 64" using div_times_less_eq_dividend[of "unat x - 1" ?P] assms(2) by simp
  ultimately show ?thesis using unat_of_nat_small[of "(?q + 1) * ?P", where 'a = 64] by (simp only: len_bit0 len_num1) simp
qed

lemma unat_PS_ALIGNUP: "unat x \<le> 2 ^ 63 \<Longrightarrow> unat x \<le> unat (PS_ALIGNUP x)"
  using PS_ALIGNUP_value[of x] dividend_less_div_times[of 2097152 "unat x - 1"] by (cases "x = 0") (auto simp: unat_gt_0)

lemma PS_ALIGNUP_bound:
  assumes "unat x \<le> 2 ^ 63" "x \<noteq> 0"
  shows "unat (PS_ALIGNUP x) < unat x + 2097152"
proof -
  have "(unat x - 1) div 2097152 * 2097152 \<le> unat x - 1" "0 < unat x" using assms(2) by (simp_all add: unat_gt_0)
  then show ?thesis unfolding PS_ALIGNUP_value[OF assms(2,1)] add_mult_distrib by linarith
qed

text \<open>Zeroing and filling memory that is not the file's.\<close>

lemma same_file_trans: "same_file elf n m m' \<Longrightarrow> same_file elf n m' m'' \<Longrightarrow> same_file elf n m m''"
  by (simp add: same_file_def)

lemma file_apart:
  assumes "\<And>x. unat (x - a) < room \<Longrightarrow> \<not> in_file elf n x"
  shows "k \<le> room \<Longrightarrow> same_file elf n m (filled k a c m)"
    and "k \<le> room \<Longrightarrow> same_file elf n m (copied k a b m)"
  using assms by (fastforce simp: same_file_def filled_def copied_def)+

lemma copy_segment:
  assumes ap: "\<And>x. unat (x - a) < room \<Longrightarrow> \<not> in_file elf n x"
    and sz: "off + fs \<le> n" "n < 2 ^ 64" "fs \<le> room"
  shows "rep_movsb fs a (elf + of_nat off) m = copied fs a (elf + of_nat off) m"
proof (rule rep_movsb_copied)
  show "fs < 2 ^ 64" using sz by simp
  have "fs \<le> unat (a - (elf + of_nat off))"
  proof (rule ccontr)
    assume c: "\<not> fs \<le> unat (a - (elf + of_nat off))"
    let ?d = "unat (a - (elf + of_nat off))"
    have "a = elf + of_nat (off + ?d)" by simp
    then have "in_file elf n a" using in_fileI[of "off + ?d" n elf] c sz by simp
    then show False using ap[of a] c sz(3) by simp
  qed
  then show "fs \<le> unat (a - (elf + of_nat off)) \<or> a = elf + of_nat off" ..
qed

lemma segment_bytes:
  assumes ap: "\<And>x. unat (x - a) < room \<Longrightarrow> \<not> in_file elf n x"
    and sz: "off + fs \<le> n" "n < 2 ^ 64" "fs \<le> ms" "ms \<le> k" "k \<le> room" "ms < 2 ^ 64"
  shows "bytes_at (copied fs a (elf + of_nat off) (filled k a 0 m)) a ms = bytes_at m (elf + of_nat off) fs @ replicate (ms - fs) 0"
proof (rule nth_equalityI)
  fix i assume "i < length (bytes_at (copied fs a (elf + of_nat off) (filled k a 0 m)) a ms)"
  then have i: "i < ms" "unat (of_nat i :: u64) = i" using sz(6) by (simp_all add: unat_of_nat_small)
  have "i < fs \<Longrightarrow> filled k a 0 m (elf + of_nat off + of_nat i) = m (elf + of_nat off + of_nat i)"
    using same_file_at[OF file_apart(1)[OF ap sz(5), where m = m and c = 0], where k = "off + i"] sz(1,2) by (simp add: add.assoc)
  then show "bytes_at (copied fs a (elf + of_nat off) (filled k a 0 m)) a ms ! i = (bytes_at m (elf + of_nat off) fs @ replicate (ms - fs) 0) ! i"
    using i sz(4) by (cases "i < fs") (simp add: copied_def nth_append, simp add: copied_def filled_def nth_append)
qed (use sz(3) in simp)

lemma load_segment_log:
  assumes ap: "areas_apart area room elf n"
    and k: "k + 56 \<le> n" "n < 2 ^ 64" and ok: "segment_ok (umem s) n room (elf + of_nat k)" "p_type (umem s) (elf + of_nat k) = PT_LOAD"
  defines "p \<equiv> elf + of_nat k" and "va \<equiv> area (length (rt_kernel s))"
  shows "\<exists>t. load_segment (log_kernel area) as elf p s = (True, t) \<and> same_file elf n (umem s) (umem t) \<and> errno t = errno s \<and>
    rt_kernel t = rt_kernel s @
      [(usys_mmap AS_CURRENT 0 (PS_ALIGNUP (p_memsz (umem s) p)) OSRT_PAGE_ATTR_WRITABLE, []),
       (usys_mtransfer as AS_CURRENT (p_vaddr (umem s) p) va (p_memsz (umem s) p) (segment_flags (p_flags (umem s) p)), segment_image (umem s) elf p)]"
proof -
  let ?m = "umem s" and ?K = "unat (PS_ALIGNUP (p_memsz (umem s) p))"
  have ap': "\<And>x. unat (x - va) < room \<Longrightarrow> \<not> in_file elf n x" and pos: "0 \<le> sint va" using ap by (auto simp: areas_apart_def va_def)
  define m1 where "m1 = filled ?K va 0 ?m"
  define fs off ms where "fs = unat (p_filesz ?m p)" and "off = unat (p_offset ?m p)" and "ms = unat (p_memsz ?m p)"
  define m2 where "m2 = copied fs va (elf + of_nat off) m1"
  have z: "fs \<le> ms" "off + fs \<le> n" "ms \<le> ?K" "?K \<le> room" "ms < 2 ^ 64" "fs \<le> room"
    using ok unat_PS_ALIGNUP[of "p_memsz ?m p"] by (simp_all add: segment_ok_def p_def fs_def off_def ms_def)
  have pv: "0 \<le> sint (p_vaddr ?m p)" using ok by (simp add: segment_ok_def p_def)
  have s1: "same_file elf n ?m m1" unfolding m1_def by (rule file_apart(1)[OF ap' z(4)])
  have s2: "same_file elf n m1 m2" unfolding m2_def by (rule file_apart(2)[OF ap' z(6)])
  note f1 = same_file_fields[OF s1 k, folded p_def, symmetric]
  note f2 = same_file_fields[OF same_file_trans[OF s1 s2] k, folded p_def, symmetric]
  have cp: "snd (memcpy va (elf + p_offset m1 p) (p_filesz m1 p) m1) = m2"
    using copy_segment[OF ap' z(2) k(2) z(6), where m = m1]
    by (simp add: memcpy_def memcpy_rep_movsb_def f1 m2_def fs_def off_def)
  have img: "bytes_at m2 va ms = segment_image ?m elf p"
    unfolding m2_def m1_def segment_image_def fs_def[symmetric] ms_def[symmetric]
    using segment_bytes[OF ap' z(2) k(2) z(1,3,4,5), where m = ?m] by (simp add: off_def)
  let ?log = "rt_kernel s @ [(usys_mmap AS_CURRENT 0 (PS_ALIGNUP (p_memsz ?m p)) OSRT_PAGE_ATTR_WRITABLE, [])]"
  have c1: "do_syscall (log_kernel area) (usys_mmap AS_CURRENT 0 (PS_ALIGNUP (p_memsz ?m p)) OSRT_PAGE_ATTR_WRITABLE) s =
      (va, s\<lparr>umem := m1, rt_kernel := ?log\<rparr>)"
    by (simp add: do_syscall_def log_kernel_def usys_mmap_def m1_def va_def)
  have c2: "do_syscall (log_kernel area) (usys_mtransfer as AS_CURRENT vd va (p_memsz ?m p) fl) (s\<lparr>rt_kernel := ?log, umem := m2\<rparr>) =
      (vd, s\<lparr>umem := m2, rt_kernel := ?log @ [(usys_mtransfer as AS_CURRENT vd va (p_memsz ?m p) fl, segment_image ?m elf p)]\<rparr>)" for vd fl
    using img by (simp add: do_syscall_def log_kernel_def usys_mtransfer_def ms_def)
  have "load_segment (log_kernel area) as elf p s = (True, s\<lparr>umem := m2, rt_kernel := ?log @
      [(usys_mtransfer as AS_CURRENT (p_vaddr ?m p) va (p_memsz ?m p) (segment_flags (p_flags ?m p)), segment_image ?m elf p)]\<rparr>)"
    using pos pv unfolding load_segment_def Let_def c1 prod.case
    by (simp add: cp f2 c2)
  then show ?thesis using same_file_trans[OF s1 s2] by (intro exI) (auto simp: )
qed

text \<open>The requests for the program headers from \<open>p\<close> on, when \<open>l\<close> requests were made before.\<close>

fun segment_requests :: "mem \<Rightarrow> u64 \<Rightarrow> u64 \<Rightarrow> (nat \<Rightarrow> u64) \<Rightarrow> nat \<Rightarrow> u64 \<Rightarrow> nat \<Rightarrow> transfer_log" where
  "segment_requests m as elf area l p 0 = []"
| "segment_requests m as elf area l p (Suc c) =
     (if p_type m p \<noteq> PT_LOAD then segment_requests m as elf area l (p + 56) c
      else (usys_mmap AS_CURRENT 0 (PS_ALIGNUP (p_memsz m p)) OSRT_PAGE_ATTR_WRITABLE, []) #
        (usys_mtransfer as AS_CURRENT (p_vaddr m p) (area l) (p_memsz m p) (segment_flags (p_flags m p)), segment_image m elf p) #
        segment_requests m as elf area (l + 2) (p + 56) c)"

lemma segment_image_same:
  assumes s: "same_file elf n m m'" and k: "k + 56 \<le> n" "n < 2 ^ 64" and ok: "segment_ok m n room (elf + of_nat k)"
  shows "p_type m (elf + of_nat k) = PT_LOAD \<Longrightarrow> segment_image m elf (elf + of_nat k) = segment_image m' elf (elf + of_nat k)"
    "segment_ok m' n room (elf + of_nat k)"
proof -
  note f = same_file_fields[OF s k]
  let ?o = "p_offset m (elf + of_nat k)" and ?f = "p_filesz m (elf + of_nat k)"
  have "m (elf + ?o + of_nat i) = m' (elf + ?o + of_nat i)" if "p_type m (elf + of_nat k) = PT_LOAD" "i < unat ?f" for i
    using same_file_at[OF s, of "unat ?o + i"] that ok k(2) by (simp add: segment_ok_def add.assoc)
  then have "bytes_at m (elf + ?o) (unat ?f) = bytes_at m' (elf + ?o) (unat ?f)" if "p_type m (elf + of_nat k) = PT_LOAD"
    using that by (intro nth_equalityI) simp_all
  then show "p_type m (elf + of_nat k) = PT_LOAD \<Longrightarrow> segment_image m elf (elf + of_nat k) = segment_image m' elf (elf + of_nat k)"
    using f by (simp add: segment_image_def)
  show "segment_ok m' n room (elf + of_nat k)" using ok f by (simp add: segment_ok_def)
qed

lemma segment_requests_same:
  assumes "same_file elf n m m'" "k + 56 * c \<le> n" "n < 2 ^ 64"
    and "\<forall>j < c. segment_ok m n room (elf + of_nat (k + 56 * j))"
  shows "segment_requests m as elf area l (elf + of_nat k) c = segment_requests m' as elf area l (elf + of_nat k) c"
  using assms(2,4)
proof (induction c arbitrary: k l)
  case (Suc c)
  have k: "k + 56 \<le> n" using Suc.prems(1) by simp
  have ok: "segment_ok m n room (elf + of_nat k)" using Suc.prems(2)[rule_format, of 0] by simp
  have q: "elf + of_nat k + 56 = elf + of_nat (k + 56)" by simp
  have "segment_requests m as elf area l' (elf + of_nat (k + 56)) c = segment_requests m' as elf area l' (elf + of_nat (k + 56)) c" for l'
  proof (rule Suc.IH)
    show "k + 56 + 56 * c \<le> n" using Suc.prems(1) by simp
    show "\<forall>j < c. segment_ok m n room (elf + of_nat (k + 56 + 56 * j))"
      using Suc.prems(2)[rule_format, of "Suc _"] by (simp add: add.assoc)
  qed
  then show ?case unfolding segment_requests.simps q
    using same_file_fields[OF assms(1) k assms(3)] segment_image_same(1)[OF assms(1) k assms(3) ok] by simp
qed simp

lemma load_segments_log:
  assumes ap: "areas_apart area room elf n"
    and k: "k + 56 * c \<le> n" "n < 2 ^ 64" and ok: "\<forall>j < c. segment_ok (umem s) n room (elf + of_nat (k + 56 * j))"
  shows "\<exists>t. load_segments (log_kernel area) as elf (elf + of_nat k) c s = (True, t) \<and> same_file elf n (umem s) (umem t) \<and> errno t = errno s \<and>
    rt_kernel t = rt_kernel s @ segment_requests (umem s) as elf area (length (rt_kernel s)) (elf + of_nat k) c"
  using k(1) ok
proof (induction c arbitrary: k s)
  case 0
  then show ?case by (simp add: same_file_def)
next
  case (Suc c)
  let ?p = "elf + of_nat k"
  have q: "?p + 56 = elf + of_nat (k + 56)" by simp
  have k': "k + 56 + 56 * c \<le> n" "k + 56 \<le> n" using Suc.prems(1) by simp_all
  have ok0: "segment_ok (umem s) n room ?p" using Suc.prems(2)[rule_format, of 0] by simp
  have oks: "\<forall>j < c. segment_ok (umem s) n room (elf + of_nat (k + 56 + 56 * j))"
    using Suc.prems(2)[rule_format, of "Suc _"] by (simp add: add.assoc)
  show ?case
  proof (cases "p_type (umem s) ?p = PT_LOAD")
    case False
    then show ?thesis using Suc.IH[OF k'(1) oks] unfolding load_segments.simps segment_requests.simps q by simp
  next
    case True
    obtain u where u: "load_segment (log_kernel area) as elf ?p s = (True, u)" "same_file elf n (umem s) (umem u)" "errno u = errno s"
      "rt_kernel u = rt_kernel s @ [(usys_mmap AS_CURRENT 0 (PS_ALIGNUP (p_memsz (umem s) ?p)) OSRT_PAGE_ATTR_WRITABLE, []),
        (usys_mtransfer as AS_CURRENT (p_vaddr (umem s) ?p) (area (length (rt_kernel s))) (p_memsz (umem s) ?p) (segment_flags (p_flags (umem s) ?p)),
         segment_image (umem s) elf ?p)]"
      using load_segment_log[where area = area, OF ap k'(2) k(2) ok0 True, where as = as] by blast
    have "\<forall>j < c. segment_ok (umem u) n room (elf + of_nat (k + 56 + 56 * j))"
    proof (intro allI impI)
      fix j assume j: "j < c"
      show "segment_ok (umem u) n room (elf + of_nat (k + 56 + 56 * j))"
        by (rule segment_image_same(2)[OF u(2) _ k(2) oks[rule_format, OF j]]) (use j k'(1) in simp)
    qed
    from Suc.IH[OF k'(1) this] obtain t where t: "load_segments (log_kernel area) as elf (elf + of_nat (k + 56)) c u = (True, t)"
      "same_file elf n (umem u) (umem t)" "errno t = errno u"
      "rt_kernel t = rt_kernel u @ segment_requests (umem u) as elf area (length (rt_kernel u)) (elf + of_nat (k + 56)) c" by blast
    have "segment_requests (umem u) as elf area l (elf + of_nat (k + 56)) c = segment_requests (umem s) as elf area l (elf + of_nat (k + 56)) c" for l
      by (rule segment_requests_same[OF u(2) k'(1) k(2) oks, symmetric])
    then show ?thesis using True u t same_file_trans[OF u(2) t(2)] unfolding load_segments.simps segment_requests.simps q
      by (intro exI[of _ t]) simp
  qed
qed

section \<open>Properties\<close>

text \<open>C29: Loading a program hands over, for every loadable header in order, memory whose contents are the bytes of the
  file followed by zeros up to the size in memory, at the address and with the rights of the header, and
  returns the entry point; the file and \<open>errno\<close> stay as they are.  The kernel's areas must not overlap the
  file, and the headers must lie within it.\<close>

theorem elf_load_image:
  assumes areas: "areas_apart area room elf n"
    and f: "64 \<le> n" "n < 2 ^ 64" "verify_ehdr (umem s) elf" "unat (e_phoff (umem s) elf) + 56 * unat (e_phnum (umem s) elf) \<le> n"
    and segs: "\<forall>j < unat (e_phnum (umem s) elf). segment_ok (umem s) n room (elf + e_phoff (umem s) elf + 56 * of_nat j)"
  shows "\<exists>t. elf_load_from_memory (log_kernel area) as elf s = (e_entry (umem s) elf, t) \<and> errno t = errno s \<and>
    same_file elf n (umem s) (umem t) \<and>
    rt_kernel t = rt_kernel s @ segment_requests (umem s) as elf area (length (rt_kernel s)) (elf + e_phoff (umem s) elf) (unat (e_phnum (umem s) elf))"
proof -
  let ?k = "unat (e_phoff (umem s) elf)" and ?c = "unat (e_phnum (umem s) elf)"
  have p: "elf + of_nat ?k = elf + e_phoff (umem s) elf" by simp
  have "\<forall>j < ?c. segment_ok (umem s) n room (elf + of_nat (?k + 56 * j))"
    using segs by (simp add: add.assoc mult.commute)
  from load_segments_log[where area = area, OF areas f(4,2) this, where as = as]
  obtain t where t: "load_segments (log_kernel area) as elf (elf + e_phoff (umem s) elf) ?c s = (True, t)" "same_file elf n (umem s) (umem t)"
    "errno t = errno s" "rt_kernel t = rt_kernel s @ segment_requests (umem s) as elf area (length (rt_kernel s)) (elf + e_phoff (umem s) elf) ?c"
    unfolding p by blast
  have "rd64 (umem s) (elf + of_nat 24) = rd64 (umem t) (elf + of_nat 24)"
  proof (rule rd64_cong)
    fix q :: nat assume "q < 8"
    then show "umem s (elf + of_nat 24 + of_nat q) = umem t (elf + of_nat 24 + of_nat q)"
      using same_file_at[OF t(2), of "24 + q"] f(1,2) by (simp add: add.assoc)
  qed
  then have "e_entry (umem t) elf = e_entry (umem s) elf" by (simp add: e_entry_def)
  then show ?thesis using t f(3) by (intro exI[of _ t]) (simp add: elf_load_from_memory_def Let_def)
qed

text \<open>A file of one executable segment with two bytes of code and two more bytes in memory, at \<open>0x1000\<close>.\<close>

definition demo_elf :: mem where
  "demo_elf a = image_mem (
     [127, 69, 76, 70, 2, 1, 1, 0, 0, 0, 0, 0, 0, 0, 0, 0, 2, 0, 62, 0, 1, 0, 0, 0, 0, 0, 64, 0, 0, 0, 0, 0] @
     [64, 0, 0, 0, 0, 0, 0, 0, 0, 0, 0, 0, 0, 0, 0, 0, 0, 0, 0, 0, 64, 0, 56, 0, 1, 0, 0, 0, 0, 0, 0, 0] @
     [1, 0, 0, 0, 5, 0, 0, 0, 120, 0, 0, 0, 0, 0, 0, 0, 0, 0, 64, 0, 0, 0, 0, 0, 0, 0, 0, 0, 0, 0, 0, 0, 2, 0, 0, 0, 0, 0, 0, 0, 4, 0, 0, 0, 0, 0, 0, 0, 0, 0, 0, 0, 0, 0, 0, 0] @ [0xEB, 0xFE]) (a - 0x1000)"

lemma demo_elf_fields:
  "verify_ehdr demo_elf 0x1000" "e_entry demo_elf 0x1000 = 0x400000" "e_phoff demo_elf 0x1000 = 64" "e_phnum demo_elf 0x1000 = 1"
  "p_type demo_elf 0x1040 = 1" "p_flags demo_elf 0x1040 = 5" "p_offset demo_elf 0x1040 = 120" "p_vaddr demo_elf 0x1040 = 0x400000"
  "p_filesz demo_elf 0x1040 = 2" "p_memsz demo_elf 0x1040 = 4" "demo_elf 0x1078 = 0xEB" "demo_elf 0x1079 = 0xFE"
  by (simp_all add: verify_ehdr_def e_entry_def e_phoff_def e_phnum_def p_type_def p_flags_def p_offset_def p_vaddr_def p_filesz_def
      p_memsz_def rd16_def rd32_def rd64_def demo_elf_def image_mem_def)

lemma demo_areas_apart: "areas_apart (\<lambda>_. 0x40000000) 0x200000 0x1000 122"
proof -
  have "\<not> unat (x - 0x1000) < 122" if "unat (x - 0x40000000) < 0x200000" for x :: u64
    using that unat_sub_if'[of "x - 0x40000000 + 0x40000000" "0x1000 :: u64"] unat_add_no_wrap[of "x - 0x40000000" "0x40000000 :: u64"] by simp
  then show ?thesis by (simp add: areas_apart_def in_file_def)
qed

theorem elf_load_image_witness:
  "\<exists>t. elf_load_from_memory (log_kernel (\<lambda>_. 0x40000000)) 7 0x1000 \<lparr>umem = demo_elf, errno = 0, rt_kernel = []\<rparr> = (0x400000, t) \<and>
    rt_kernel t = [(usys_mmap 0 0 0x200000 2, []), (usys_mtransfer 7 0 0x400000 0x40000000 4 8, [0xEB, 0xFE, 0, 0])]"
proof -
  let ?s = "\<lparr>umem = demo_elf, errno = 0, rt_kernel = [] :: transfer_log\<rparr>"
  note d = demo_elf_fields
  have a: "PS_ALIGNUP 4 = 0x200000" by (simp add: PS_ALIGNUP_def OSRT_PAGE_SIZE_def)
  have ok: "\<forall>j < unat (e_phnum (umem ?s) 0x1000). segment_ok (umem ?s) 122 0x200000 (0x1000 + e_phoff (umem ?s) 0x1000 + 56 * of_nat j)"
    by (simp add: d segment_ok_def a)
  have "unat (2 :: u64) = Suc (Suc 0)" "unat (4 :: u64) = Suc (Suc (Suc (Suc 0)))" by simp_all
  then have "segment_image demo_elf 0x1000 0x1040 = [0xEB, 0xFE, 0, 0]" unfolding segment_image_def d by (simp only:) (simp add: d bytes_at_Suc bytes_at_done)
  then have "segment_requests demo_elf 7 0x1000 (\<lambda>_. 0x40000000) 0 0x1040 1 =
      [(usys_mmap 0 0 0x200000 2, []), (usys_mtransfer 7 0 0x400000 0x40000000 4 8, [0xEB, 0xFE, 0, 0])]"
    by (simp add: d PT_LOAD_def a segment_flags_def PF_W_def PF_X_def OSRT_PAGE_ATTR_WRITABLE_def OSRT_PAGE_ATTR_EXECUTABLE_def AS_CURRENT_def)
  then show ?thesis using elf_load_image[OF demo_areas_apart _ _ _ _ ok, of 7] by (auto simp: d)
qed

end
