(* ===== verification/C_ctype.thy ===== *)
theory C_ctype
  imports Prelude
begin

text \<open>\<open>osrt/c/ctype.c\<close>: the classes of characters.  An argument is the value of a C \<open>int\<close>.\<close>

definition islower :: "int \<Rightarrow> bool" where "islower c \<longleftrightarrow> c \<ge> 97 \<and> c \<le> 122"
definition isupper :: "int \<Rightarrow> bool" where "isupper c \<longleftrightarrow> c \<ge> 65 \<and> c \<le> 90"
definition isdigit :: "int \<Rightarrow> bool" where "isdigit c \<longleftrightarrow> c \<ge> 48 \<and> c \<le> 57"
definition isalpha :: "int \<Rightarrow> bool" where "isalpha c \<longleftrightarrow> islower c \<or> isupper c"
definition isalnum :: "int \<Rightarrow> bool" where "isalnum c \<longleftrightarrow> isalpha c \<or> isdigit c"
definition isblank :: "int \<Rightarrow> bool" where "isblank c \<longleftrightarrow> c = 32 \<or> c = 9"
definition iscntrl :: "int \<Rightarrow> bool" where "iscntrl c \<longleftrightarrow> c \<le> 0x1f \<or> c = 0x7f"
definition isprint :: "int \<Rightarrow> bool" where "isprint c \<longleftrightarrow> \<not> iscntrl c"
definition isgraph :: "int \<Rightarrow> bool" where "isgraph c \<longleftrightarrow> isprint c \<and> c \<noteq> 32"
definition isspace :: "int \<Rightarrow> bool" where
  "isspace c \<longleftrightarrow> c = 32 \<or> c = 12 \<or> c = 10 \<or> c = 13 \<or> c = 9 \<or> c = 11"
definition ispunct :: "int \<Rightarrow> bool" where "ispunct c \<longleftrightarrow> isprint c \<and> \<not> isspace c \<and> \<not> isalnum c"
definition isxdigit :: "int \<Rightarrow> bool" where
  "isxdigit c \<longleftrightarrow> isdigit c \<or> c \<ge> 65 \<and> c \<le> 70 \<or> c \<ge> 97 \<and> c \<le> 102"
definition tolower :: "int \<Rightarrow> int" where "tolower c = (if isupper c then c - 65 + 97 else c)"
definition toupper :: "int \<Rightarrow> int" where "toupper c = (if islower c then c - 97 + 65 else c)"

lemmas ctype_defs = islower_def isupper_def isdigit_def isalpha_def isalnum_def isblank_def iscntrl_def isprint_def
  isgraph_def isspace_def ispunct_def isxdigit_def tolower_def toupper_def

text \<open>The classes partition the characters as the standard says: each is a control character, the space, a
  letter of exactly one case, a digit or a punctuation character; and mapping to one case and back
  gives a letter of the other case and changes nothing else.\<close>

theorem ctype_partition:
  "(iscntrl c \<noteq> isprint c) \<and> (isprint c \<longleftrightarrow> c = 32 \<or> isgraph c) \<and> (isgraph c \<longleftrightarrow> isalnum c \<or> ispunct c) \<and>
   \<not> (isalnum c \<and> ispunct c) \<and> \<not> (isalpha c \<and> isdigit c) \<and> \<not> (islower c \<and> isupper c) \<and>
   (isspace c \<longleftrightarrow> isblank c \<or> c \<in> {10, 11, 12, 13}) \<and>
   (isupper c \<longleftrightarrow> islower (tolower c) \<and> c \<noteq> tolower c) \<and> (islower c \<longleftrightarrow> isupper (toupper c) \<and> c \<noteq> toupper c) \<and>
   toupper (tolower c) = toupper c \<and> tolower (toupper c) = tolower c"
  by (auto simp: ctype_defs)

end
