(* ===== verification/C_stdlib.thy ===== *)
theory C_stdlib
  imports C_string C_ctype "HOL-Library.Signed_Division"
begin

text \<open>
  \<open>osrt/c/stdlib.c\<close>: the pseudo-random numbers, the functions to call at the end of a program, and
  integer arithmetic.  A registered function is its address.  The two tables begin in static
  storage; \<open>malloc\<close> and \<open>realloc\<close> are arguments: the contents of a new block, or failure, and
  whether a block could be resized with its contents kept.
\<close>

section \<open>Random numbers\<close>

definition rand :: "u32 \<Rightarrow> u32" where
  "rand x = (let
     x = x XOR push_bit 13 x;
     x = x XOR drop_bit 17 x;
     x = x XOR push_bit 5 x
   in x)"

definition srand :: "u32 \<Rightarrow> u32 \<Rightarrow> u32" where
  "srand seed st = seed"

section \<open>Functions to call at the end\<close>

record exit_table =
  et_static :: bool
  et_func :: "u64 \<Rightarrow> u64"
  et_count :: u64
  et_size :: u64

record exit_state =
  atexit_tab :: exit_table
  quick_tab :: exit_table
  exit_errno :: u32

definition INIT_ATEXIT_SIZE :: u64 where "INIT_ATEXIT_SIZE = 32"

text \<open>Growing a table to \<open>new_size\<close> entries; \<open>None\<close> is a failed allocation.\<close>

definition table_grow ::
    "(u64 \<Rightarrow> (u64 \<Rightarrow> u64) option) \<Rightarrow> (u64 \<Rightarrow> bool) \<Rightarrow> u64 \<Rightarrow> exit_table \<Rightarrow> exit_table option" where
  "table_grow mal rea new_size t =
     (if et_static t
      then (case mal (8 * new_size) of None \<Rightarrow> None
        | Some f \<Rightarrow> Some (t\<lparr>et_static := False, et_func := f, et_size := new_size\<rparr>))
      else if rea (8 * new_size) then Some (t\<lparr>et_size := new_size\<rparr>) else None)"

definition table_add :: "u64 \<Rightarrow> exit_table \<Rightarrow> exit_table" where
  "table_add func t = t\<lparr>et_func := (et_func t)(et_count t := func), et_count := et_count t + 1\<rparr>"

definition atexit ::
    "(u64 \<Rightarrow> (u64 \<Rightarrow> u64) option) \<Rightarrow> (u64 \<Rightarrow> bool) \<Rightarrow> u64 \<Rightarrow> exit_state \<Rightarrow> int \<times> exit_state" where
  "atexit mal rea func s =
     (if et_count (atexit_tab s) = et_size (atexit_tab s)
      then (case table_grow mal rea (et_size (atexit_tab s) * 3 div 2) (atexit_tab s) of
          None \<Rightarrow> (- 1, s\<lparr>exit_errno := ENOMEM\<rparr>)
        | Some t \<Rightarrow> (0, s\<lparr>atexit_tab := table_add func t\<rparr>))
      else (0, s\<lparr>atexit_tab := table_add func (atexit_tab s)\<rparr>))"

text \<open>The new size of the second table is computed from the size of the first.\<close>

definition at_quick_exit ::
    "(u64 \<Rightarrow> (u64 \<Rightarrow> u64) option) \<Rightarrow> (u64 \<Rightarrow> bool) \<Rightarrow> u64 \<Rightarrow> exit_state \<Rightarrow> int \<times> exit_state" where
  "at_quick_exit mal rea func s =
     (if et_count (quick_tab s) = et_size (quick_tab s)
      then (case table_grow mal rea (et_size (atexit_tab s) * 3 div 2) (quick_tab s) of
          None \<Rightarrow> (- 1, s\<lparr>exit_errno := ENOMEM\<rparr>)
        | Some t \<Rightarrow> (0, s\<lparr>quick_tab := table_add func t\<rparr>))
      else (0, s\<lparr>quick_tab := table_add func (quick_tab s)\<rparr>))"

text \<open>The functions of a table, in the order of the calls.\<close>

fun exit_calls :: "exit_table \<Rightarrow> nat \<Rightarrow> u64 list" where
  "exit_calls t 0 = []"
| "exit_calls t (Suc i) = et_func t (of_nat i) # exit_calls t i"

text \<open>\<open>exit\<close> and \<open>quick_exit\<close>: the calls, and the status handed to \<open>_Exit\<close>.\<close>

definition exit_fn :: "int \<Rightarrow> exit_state \<Rightarrow> u64 list \<times> int" where
  "exit_fn status s = (exit_calls (atexit_tab s) (unat (et_count (atexit_tab s))), status)"

definition quick_exit :: "int \<Rightarrow> exit_state \<Rightarrow> u64 list \<times> int" where
  "quick_exit status s = (exit_calls (quick_tab s) (unat (et_count (quick_tab s))), status)"

definition getenv :: "u64 \<Rightarrow> u64" where "getenv name = 0"

definition system :: "u64 \<Rightarrow> int" where "system str = (if str \<noteq> 0 then - 1 else 0)"

section \<open>Arithmetic\<close>

text \<open>The negation of the least value is the least value.\<close>

definition abs_int :: "'a::len word \<Rightarrow> 'a word" where
  "abs_int j = (if sint j < 0 then - j else j)"

definition labs :: "u64 \<Rightarrow> u64" where "labs j = (if sint j < 0 then - j else j)"
definition llabs :: "u64 \<Rightarrow> u64" where "llabs j = (if sint j < 0 then - j else j)"

text \<open>The division instruction faults on a zero divisor and on the one quotient that does not fit
  into the \<open>n\<close> bits.\<close>

definition idiv :: "nat \<Rightarrow> int \<Rightarrow> int \<Rightarrow> (int \<times> int) res" where
  "idiv n numer denom =
     (if denom = 0 \<or> numer = - (2 ^ (n - 1)) \<and> denom = - 1 then Fail DivZero
      else Ok (numer sdiv denom, numer smod denom))"

definition div_int :: "int \<Rightarrow> int \<Rightarrow> (int \<times> int) res" where "div_int = idiv 32"
definition ldiv :: "int \<Rightarrow> int \<Rightarrow> (int \<times> int) res" where "ldiv = idiv 64"
definition lldiv :: "int \<Rightarrow> int \<Rightarrow> (int \<times> int) res" where "lldiv = idiv 64"

section \<open>Shifts and exclusive or\<close>

lemma xor_push_bit_inj:
  fixes x y :: "'a::len word"
  assumes "x XOR push_bit k x = y XOR push_bit k y" "0 < k"
  shows "x = y"
proof (rule bit_word_eqI)
  fix n show "n < LENGTH('a) \<Longrightarrow> bit x n = bit y n"
  proof (induction n rule: less_induct)
    case (less n)
    have "bit (x XOR push_bit k x) n = bit (y XOR push_bit k y) n" using assms(1) by simp
    then show ?case using less assms(2) by (cases "k \<le> n") (auto simp: bit_xor_iff bit_push_bit_iff)
  qed
qed

lemma xor_drop_bit_inj:
  fixes x y :: "'a::len word"
  assumes "x XOR drop_bit k x = y XOR drop_bit k y" "0 < k"
  shows "x = y"
proof (rule bit_word_eqI)
  fix n show "n < LENGTH('a) \<Longrightarrow> bit x n = bit y n"
  proof (induction "LENGTH('a) - n" arbitrary: n rule: less_induct)
    case less
    have "bit (x XOR drop_bit k x) n = bit (y XOR drop_bit k y) n" using assms(1) by simp
    moreover have "bit x (k + n) = bit y (k + n)"
      using less assms(2) bit_imp_le_length[of x "k + n"] bit_imp_le_length[of y "k + n"] by (cases "k + n < LENGTH('a)") auto
    ultimately show ?case by (auto simp: bit_xor_iff bit_drop_bit_eq)
  qed
qed

lemma rand_inj: "rand x = rand y \<Longrightarrow> x = y"
  unfolding rand_def Let_def by (drule xor_push_bit_inj, simp, drule xor_drop_bit_inj, simp, drule xor_push_bit_inj, simp, assumption)

lemma rand_0: "rand 0 = 0"
  by (simp add: rand_def)

section \<open>The table of functions\<close>

lemma exit_calls_cong: "(\<And>i. i < n \<Longrightarrow> et_func t (of_nat i) = et_func u (of_nat i)) \<Longrightarrow> exit_calls t n = exit_calls u n"
  by (induction n) simp_all

lemma exit_calls_add:
  assumes "unat (et_count t) + 1 < 2 ^ 64"
  shows "exit_calls (table_add f t) (unat (et_count (table_add f t))) = f # exit_calls t (unat (et_count t))"
proof -
  let ?c = "et_count t"
  have c: "unat (?c + 1) = Suc (unat ?c)" using assms unat_add_no_wrap[of ?c 1] by simp
  have "(of_nat i :: u64) \<noteq> ?c" if "i < unat ?c" for i
    using that unat_of_nat_small[of i, where 'a = 64] unat_u64_less[of ?c] by auto
  then have "exit_calls (table_add f t) (unat ?c) = exit_calls t (unat ?c)"
    by (intro exit_calls_cong) (simp add: table_add_def)
  then show ?thesis by (simp add: table_add_def c)
qed

lemma atexit_all:
  assumes "unat (et_count (atexit_tab s)) + length fs \<le> unat (et_size (atexit_tab s))"
    and t_def: "t = fold (\<lambda>f s. snd (atexit mal rea f s)) fs s"
  shows "fst (exit_fn st t) = rev fs @ fst (exit_fn st s) \<and> et_count (atexit_tab t) = et_count (atexit_tab s) + of_nat (length fs) \<and>
    et_size (atexit_tab t) = et_size (atexit_tab s) \<and> et_static (atexit_tab t) = et_static (atexit_tab s) \<and> quick_tab t = quick_tab s"
  using assms(1) unfolding t_def
proof (induction fs arbitrary: s)
  case (Cons f fs)
  let ?t = "atexit_tab s"
  have lt: "unat (et_count ?t) < unat (et_size ?t)" using Cons.prems by simp
  then have c: "unat (et_count ?t) + 1 < 2 ^ 64" using unat_u64_less[of "et_size ?t"] by simp
  have a: "snd (atexit mal rea f s) = s\<lparr>atexit_tab := table_add f ?t\<rparr>" using lt by (auto simp: atexit_def)
  define u where "u = s\<lparr>atexit_tab := table_add f ?t\<rparr>"
  have u: "et_count (atexit_tab u) = et_count ?t + 1" "et_size (atexit_tab u) = et_size ?t" "et_static (atexit_tab u) = et_static ?t"
    "quick_tab u = quick_tab s" "fst (exit_fn st u) = f # fst (exit_fn st s)"
    using exit_calls_add[OF c, of f] by (simp_all add: u_def exit_fn_def) (simp_all add: table_add_def)
  have "unat (et_count ?t + 1) = unat (et_count ?t) + 1" using c unat_add_no_wrap[of "et_count ?t" 1] by simp
  then have "unat (et_count (atexit_tab u)) + length fs \<le> unat (et_size (atexit_tab u))" using u(1,2) Cons.prems by simp
  note IH = Cons.IH[OF this]
  have "fold (\<lambda>f s. snd (atexit mal rea f s)) (f # fs) s = fold (\<lambda>f s. snd (atexit mal rea f s)) fs u" by (simp add: a u_def)
  then show ?case using IH u by (simp add: add.assoc)
qed simp

section \<open>Properties\<close>

text \<open>The generator is a permutation of the 32-bit words that fixes 0, so a sequence that does not begin with
  0 never reaches it, and one that begins with 0 never leaves it.\<close>

theorem rand_permutation:
  "inj rand \<and> surj rand \<and> ((rand ^^ n) seed = 0 \<longleftrightarrow> seed = 0)"
proof -
  have i: "inj rand" by (rule injI) (rule rand_inj)
  then have s: "surj rand" by (rule finite_UNIV_inj_surj[rotated]) simp
  have z: "rand x = 0 \<longleftrightarrow> x = 0" for x using rand_inj[of x 0] rand_0 by auto
  have "(rand ^^ n) seed = 0 \<longleftrightarrow> seed = 0" by (induction n) (simp_all add: z)
  then show ?thesis using i s by blast
qed

text \<open>Up to 32 functions registered with \<open>atexit\<close> are called by \<open>exit\<close> in reverse order.  The 33rd moves the
  table to a new block without the old entries: it is called first, and then whatever words
  the block held.\<close>

theorem atexit_order:
  assumes "atexit_tab s = \<lparr>et_static = True, et_func = g, et_count = 0, et_size = 32\<rparr>" "length fs \<le> 32"
    and "t = fold (\<lambda>f s. snd (atexit mal rea f s)) fs s"
  shows "exit_fn st t = (rev fs, st) \<and>
    (length fs = 32 \<longrightarrow> (case mal 384 of
        None \<Rightarrow> fst (atexit mal rea h t) = - 1 \<and> exit_fn st (snd (atexit mal rea h t)) = (rev fs, st)
      | Some junk \<Rightarrow> fst (atexit mal rea h t) = 0 \<and> exit_fn st (snd (atexit mal rea h t)) = (h # rev (map (\<lambda>i. junk (of_nat i)) [0..<32]), st)))"
proof -
  have 1: "fst (exit_fn st t) = rev fs" "et_count (atexit_tab t) = of_nat (length fs)" "et_size (atexit_tab t) = 32" "et_static (atexit_tab t)"
    using atexit_all[OF _ assms(3), of st] assms(1,2) by (auto simp: exit_fn_def)
  have 2: "exit_fn st t = (rev fs, st)" using 1(1) by (simp add: exit_fn_def)
  have e: "exit_calls u n = rev (map (\<lambda>i. et_func u (of_nat i)) [0..<n])" for u n by (induction n) simp_all
  have "case mal 384 of
        None \<Rightarrow> fst (atexit mal rea h t) = - 1 \<and> exit_fn st (snd (atexit mal rea h t)) = (rev fs, st)
      | Some junk \<Rightarrow> fst (atexit mal rea h t) = 0 \<and> exit_fn st (snd (atexit mal rea h t)) = (h # rev (map (\<lambda>i. junk (of_nat i)) [0..<32]), st)"
    if l: "length fs = 32"
  proof (cases "mal 384")
    case None
    then have "atexit mal rea h t = (- 1, t\<lparr>exit_errno := ENOMEM\<rparr>)" using 1 l by (simp add: atexit_def table_grow_def)
    then show ?thesis using None 2 by (simp add: exit_fn_def)
  next
    case (Some junk)
    let ?u = "(atexit_tab t)\<lparr>et_static := False, et_func := junk, et_size := 48\<rparr>"
    have u: "et_count ?u = 32" using 1 l by simp
    have "atexit mal rea h t = (0, t\<lparr>atexit_tab := table_add h ?u\<rparr>)" using Some 1 l by (simp add: atexit_def table_grow_def)
    then show ?thesis using Some exit_calls_add[of ?u h] u e[of ?u 32] by (simp add: exit_fn_def del: upt_conv_Cons exit_calls.simps)
  qed
  then show ?thesis using 2 by blast
qed

text \<open>Division truncates: the quotient times the divisor plus the remainder is the numerator, and the remainder
  is smaller than the divisor and has the sign of the numerator.\<close>

theorem div_int_truncates:
  assumes "denom \<noteq> 0" "numer \<noteq> - (2 ^ 31) \<or> denom \<noteq> - 1"
  shows "\<exists>q r. div_int numer denom = Ok (q, r) \<and> q * denom + r = numer \<and> \<bar>r\<bar> < \<bar>denom\<bar> \<and> (r = 0 \<or> sgn r = sgn numer)"
proof -
  have "\<bar>numer smod denom\<bar> < \<bar>denom\<bar>" using smod_int_range[OF assms(1), of numer] by auto
  moreover have "sgn (numer smod denom) = sgn numer" if "numer smod denom \<noteq> 0"
  proof -
    have "0 < \<bar>numer\<bar> mod \<bar>denom\<bar>" using that assms(1) by (auto simp: smod_int_alt_def intro: order.not_eq_order_implies_strict)
    then show ?thesis by (simp add: smod_int_alt_def sgn_mult)
  qed
  ultimately show ?thesis using assms sdiv_mult_smod_eq[of numer denom] by (auto simp: div_int_def idiv_def)
qed

theorem div_int_truncates_witness:
  "div_int (- 7) 2 = Ok (- 3, - 1)"
proof -
  obtain q r where "div_int (- 7) 2 = Ok (q, r)" "q * 2 + r = - 7" "\<bar>r\<bar> < 2" "r = 0 \<or> sgn r = - 1"
    using div_int_truncates[of 2 "- 7"] by auto
  moreover have "r \<noteq> 0" using calculation(2) by presburger
  moreover have "r = - 1" using calculation by (auto simp: sgn_if split: if_splits)
  ultimately show ?thesis by simp
qed

definition demo_exit :: exit_state where
  "demo_exit = \<lparr>atexit_tab = \<lparr>et_static = True, et_func = (\<lambda>_. 0), et_count = 0, et_size = 32\<rparr>,
     quick_tab = \<lparr>et_static = True, et_func = (\<lambda>_. 0), et_count = 0, et_size = 32\<rparr>, exit_errno = 0\<rparr>"

theorem atexit_order_witness:
  "exit_fn 0 (fold (\<lambda>f s. snd (atexit (\<lambda>_. None) (\<lambda>_. False) f s)) [11, 22, 33] demo_exit) = ([33, 22, 11], 0)"
  using atexit_order[of demo_exit "\<lambda>_. 0" "[11, 22, 33]" _ "\<lambda>_. None" "\<lambda>_. False" 0, OF _ _ refl] by (simp add: demo_exit_def)

end
