(* ===== verification/C_vfprintf.thy ===== *)
theory C_vfprintf
  imports C_stdlib Rt_syscall Tables Digits
begin

text \<open>
  \<open>osrt/c/vfprintf.c\<close>, the formatter behind \<open>printf\<close> and \<open>snprintf\<close>.  A stream is the function that writes
  bytes from an address.  The format, the strings and the two buffers on the stack (\<open>buf\<close> of
  \<open>printf_core\<close> and \<open>pb\<close> of \<open>pad\<close>) are in the memory of the program; \<open>lit\<close> gives the addresses of string
  literals.  \<open>ap k\<close> is the \<open>k\<close>-th variable argument: an integer or a pointer, or the first eight bytes of a floating-point
  argument, which is never printed.  An \<open>int\<close> of the code is an integer, and \<open>wrap32\<close> is the
  conversion to the type \<open>int\<close>.  A loop over the format may run through all of memory without an end, so that these
  loops are partial functions.
\<close>

section \<open>Flags and states\<close>

abbreviation ch :: "char \<Rightarrow> u8" where "ch c \<equiv> of_char c"

definition ALT_FORM :: u32 where "ALT_FORM = push_bit 3 1"
definition ZERO_PAD :: u32 where "ZERO_PAD = push_bit 16 1"
definition LEFT_ADJ :: u32 where "LEFT_ADJ = push_bit 13 1"
definition PAD_POS :: u32 where "PAD_POS = push_bit 0 1"
definition MARK_POS :: u32 where "MARK_POS = push_bit 11 1"
definition GROUPED :: u32 where "GROUPED = push_bit 7 1"
definition FLAGMASK :: u32 where
  "FLAGMASK = ALT_FORM OR ZERO_PAD OR LEFT_ADJ OR PAD_POS OR MARK_POS OR GROUPED"

definition INT_MAX :: int where "INT_MAX = 0x7fffffff"
definition NL_ARGMAX :: nat where "NL_ARGMAX = 4096"

definition wrap32 :: "int \<Rightarrow> int" where "wrap32 x = sint (of_int x :: u32)"

text \<open>The first constructor is also the 0 of an entry that is not in the table.\<close>

datatype pf_type = BARE | LPRE | LLPRE | HPRE | HHPRE | BIGLPRE | ZTPRE | JPRE | STOP | PTR | INT_T | UINT | ULLONG | LONG | ULONG
  | SHORT | USHORT | CHAR_T | UCHAR | LLONG | SIZET | IMAX | UMAX | PDIFF | UIPTR | DBL | LDBL | NOARG | MAXSTATE

fun states_row :: "pf_type \<Rightarrow> (string \<times> pf_type) list" where
  "states_row BARE = [(''di'', INT_T), (''ouxX'', UINT), (''efgaEFGA'', DBL), (''c'', CHAR_T), (''C'', INT_T), (''sS'', PTR), (''p'', UIPTR),
     (''n'', PTR), (''m'', NOARG), (''l'', LPRE), (''h'', HPRE), (''L'', BIGLPRE), (''z'', ZTPRE), (''j'', JPRE), (''t'', ZTPRE)]"
| "states_row LPRE = [(''di'', LONG), (''ouxX'', ULONG), (''efgaEFGA'', DBL), (''c'', INT_T), (''s'', PTR), (''n'', PTR), (''l'', LLPRE)]"
| "states_row LLPRE = [(''di'', LLONG), (''ouxX'', ULLONG), (''n'', PTR)]"
| "states_row HPRE = [(''di'', SHORT), (''ouxX'', USHORT), (''n'', PTR), (''h'', HHPRE)]"
| "states_row HHPRE = [(''di'', CHAR_T), (''ouxX'', UCHAR), (''n'', PTR)]"
| "states_row BIGLPRE = [(''efgaEFGA'', LDBL), (''n'', PTR)]"
| "states_row ZTPRE = [(''di'', PDIFF), (''ouxX'', SIZET), (''n'', PTR)]"
| "states_row JPRE = [(''di'', IMAX), (''ouxX'', UMAX), (''n'', PTR)]"
| "states_row _ = []"

definition states :: "pf_type \<Rightarrow> u8 \<Rightarrow> pf_type" where
  "states st c = (case find (\<lambda>(cs, _). c \<in> set (map of_char cs)) (states_row st) of None \<Rightarrow> BARE | Some (_, x) \<Rightarrow> x)"

text \<open>\<open>st - 1 < STOP\<close>\<close>

definition is_prefix :: "pf_type \<Rightarrow> bool" where
  "is_prefix st \<longleftrightarrow> st \<in> {LPRE, LLPRE, HPRE, HHPRE, BIGLPRE, ZTPRE, JPRE, STOP}"

definition OOB :: "u8 \<Rightarrow> bool" where "OOB c \<longleftrightarrow> c < ch CHR ''A'' \<or> ch CHR ''z'' < c"

section \<open>Arguments\<close>

text \<open>\<open>pop_arg\<close>: the value for an argument of a type, and whether an argument is taken.\<close>

fun pop_arg :: "pf_type \<Rightarrow> u64 \<Rightarrow> u64 option" where
  "pop_arg PTR x = Some x"
| "pop_arg INT_T x = Some (scast (ucast x :: u32))"
| "pop_arg UINT x = Some (ucast (ucast x :: u32))"
| "pop_arg LONG x = Some x"
| "pop_arg ULONG x = Some x"
| "pop_arg ULLONG x = Some x"
| "pop_arg SHORT x = Some (scast (ucast x :: u16))"
| "pop_arg USHORT x = Some (ucast (ucast x :: u16))"
| "pop_arg CHAR_T x = Some (scast (ucast x :: u8))"
| "pop_arg UCHAR x = Some (ucast (ucast x :: u8))"
| "pop_arg LLONG x = Some x"
| "pop_arg SIZET x = Some x"
| "pop_arg IMAX x = Some x"
| "pop_arg UMAX x = Some x"
| "pop_arg PDIFF x = Some x"
| "pop_arg UIPTR x = Some x"
| "pop_arg DBL x = Some x"
| "pop_arg LDBL x = Some x"
| "pop_arg _ x = None"

definition va_int :: "u64 \<Rightarrow> int" where "va_int x = sint (ucast x :: u32)"

section \<open>Output\<close>

type_synonym 'd stream = "u64 \<Rightarrow> u64 \<Rightarrow> 'd rt_state \<Rightarrow> u64 \<times> 'd rt_state"

definition out_fn :: "'d stream \<Rightarrow> u64 \<Rightarrow> u64 \<Rightarrow> 'd rt_state \<Rightarrow> 'd rt_state" where
  "out_fn f s l st = snd (f s l st)"

text \<open>The count of \<open>pad\<close> is compared with an unsigned size, so that a negative one is large.\<close>

function pad_loop :: "'d stream \<Rightarrow> u64 \<Rightarrow> u32 \<Rightarrow> 'd rt_state \<Rightarrow> 'd rt_state" where
  "pad_loop f pb l st = (if 256 \<le> l then pad_loop f pb (l - 256) (out_fn f pb 256 st) else out_fn f pb (ucast l) st)"
  by pat_completeness auto
termination
  by (relation "measure (\<lambda>(f, pb, l, st). unat l)") (auto simp: unat_sub word_less_nat_alt word_le_nat_alt)

definition pad :: "'d stream \<Rightarrow> u64 \<Rightarrow> u8 \<Rightarrow> int \<Rightarrow> int \<Rightarrow> u32 \<Rightarrow> 'd rt_state \<Rightarrow> 'd rt_state" where
  "pad f pb c w l fl st =
     (if fl AND (LEFT_ADJ OR ZERO_PAD) \<noteq> 0 \<or> l \<ge> w then st
      else (let
        l = of_int (w - l) :: u32;
        st = st\<lparr>umem := snd (memset pb (ucast c) (if 256 < l then 256 else ucast l) (umem st))\<rparr>
      in pad_loop f pb l st))"

definition xdigits :: string where "xdigits = ''0123456789ABCDEF''"

function fmt_x :: "u64 \<Rightarrow> u64 \<Rightarrow> u8 \<Rightarrow> mem \<Rightarrow> u64 \<times> mem" where
  "fmt_x x s lower m =
     (if x \<noteq> 0 then fmt_x (drop_bit 4 x) (s - 1) lower (m(s - 1 := ch (xdigits ! unat (x AND 15)) OR lower)) else (s, m))"
  by pat_completeness auto
termination
  by (relation "measure (\<lambda>(x, s, lower, m). unat x)") (simp_all add: drop_bit_eq_div unat_div unat_gt_0)

function fmt_o :: "u64 \<Rightarrow> u64 \<Rightarrow> mem \<Rightarrow> u64 \<times> mem" where
  "fmt_o x s m = (if x \<noteq> 0 then fmt_o (drop_bit 3 x) (s - 1) (m(s - 1 := 48 + ucast (x AND 7))) else (s, m))"
  by pat_completeness auto
termination
  by (relation "measure (\<lambda>(x, s, m). unat x)") (simp_all add: drop_bit_eq_div unat_div unat_gt_0)

text \<open>No \<open>uintmax_t\<close> is larger than \<open>ULONG_MAX\<close>: the first loop of \<open>fmt_u\<close> makes no turn.\<close>

function fmt_u :: "u64 \<Rightarrow> u64 \<Rightarrow> mem \<Rightarrow> u64 \<times> mem" where
  "fmt_u y s m = (if y \<noteq> 0 then fmt_u (y div 10) (s - 1) (m(s - 1 := 48 + ucast (y mod 10))) else (s, m))"
  by pat_completeness auto
termination
  by (relation "measure (\<lambda>(x, s, m). unat x)") (simp_all add: unat_div unat_gt_0)

declare pad_loop.simps [simp del] fmt_x.simps [simp del] fmt_o.simps [simp del] fmt_u.simps [simp del]

section \<open>Reading the format\<close>

definition cdigit :: "u8 \<Rightarrow> bool" where "cdigit c \<longleftrightarrow> isdigit (sint c)"

partial_function (option) scan_text :: "mem \<Rightarrow> u64 \<Rightarrow> u64 option" where
  "scan_text m s = (if m s \<noteq> 0 \<and> m s \<noteq> ch CHR ''%'' then scan_text m (s + 1) else Some s)"

partial_function (option) scan_percent :: "mem \<Rightarrow> u64 \<Rightarrow> u64 \<Rightarrow> (u64 \<times> u64) option" where
  "scan_percent m z s =
     (if m s = ch CHR ''%'' \<and> m (s + 1) = ch CHR ''%'' then scan_percent m (z + 1) (s + 2) else Some (z, s))"

definition flag_bit :: "u8 \<Rightarrow> u32" where "flag_bit c = push_bit (unat (c - 32)) 1"

definition is_flag :: "u8 \<Rightarrow> bool" where "is_flag c \<longleftrightarrow> 32 \<le> c \<and> c < 64 \<and> FLAGMASK AND flag_bit c \<noteq> 0"

partial_function (option) read_flags :: "mem \<Rightarrow> u32 \<Rightarrow> u64 \<Rightarrow> (u32 \<times> u64) option" where
  "read_flags m fl s = (if is_flag (m s) then read_flags m (fl OR flag_bit (m s)) (s + 1) else Some (fl, s))"

partial_function (option) getint :: "mem \<Rightarrow> int \<Rightarrow> u64 \<Rightarrow> (int \<times> u64) option" where
  "getint m i s =
     (if cdigit (m s)
      then getint m (if i < 0 \<or> i > INT_MAX div 10 \<or> sint (m s) - 48 > INT_MAX - 10 * i then - 1 else 10 * i + (sint (m s) - 48)) (s + 1)
      else Some (i, s))"

text \<open>The variables of \<open>printf_core\<close> that live through a turn of its loop; \<open>pf_k\<close> counts the
  arguments that were taken.\<close>

record pf_vars =
  pf_s :: u64
  pf_l10n :: bool
  pf_cnt :: int
  pf_l :: int
  pf_k :: nat
  nl_type :: "nat \<Rightarrow> pf_type"
  nl_arg :: "nat \<Rightarrow> u64"

text \<open>The ways out of the loop: the end of the format, the two labels and the early return.\<close>

datatype exit = End | Inval | Overflow | Ret0

text \<open>A part of a turn has a result, or it leaves the loop with the variables at that point, or it does not return.\<close>

type_synonym 'a pf = "(exit \<times> pf_vars + 'a) res"

definition bind_pf :: "'a pf \<Rightarrow> ('a \<Rightarrow> 'b pf) \<Rightarrow> 'b pf" where
  "bind_pf r f = bind_res r (\<lambda>x. case x of Inl j \<Rightarrow> Ok (Inl j) | Inr y \<Rightarrow> f y)"

definition scanned :: "'a option \<Rightarrow> 'a pf" where
  "scanned r = (case r of None \<Rightarrow> Fail NoReturn | Some x \<Rightarrow> Ok (Inr x))"

definition read_argpos :: "mem \<Rightarrow> pf_vars \<Rightarrow> nat option \<times> pf_vars" where
  "read_argpos m v =
     (if cdigit (m (pf_s v + 1)) \<and> m (pf_s v + 2) = ch CHR ''$''
      then (Some (unat (m (pf_s v + 1) - 48)), v\<lparr>pf_l10n := True, pf_s := pf_s v + 3\<rparr>)
      else (None, v\<lparr>pf_s := pf_s v + 1\<rparr>))"

text \<open>An asterisk at \<open>s\<close>: a position, or the next argument; \<open>f\<close> says whether there is a stream.\<close>

definition read_star :: "bool \<Rightarrow> bool \<Rightarrow> (nat \<Rightarrow> u64) \<Rightarrow> mem \<Rightarrow> u64 \<Rightarrow> pf_vars \<Rightarrow> (int \<times> pf_vars) pf" where
  "read_star l10n f ap m s v =
     (if cdigit (m (s + 1)) \<and> m (s + 2) = ch CHR ''$''
      then (let i = unat (m (s + 1) - 48)
        in Ok (Inr (va_int (nl_arg v i), v\<lparr>pf_l10n := pf_l10n v \<or> l10n, nl_type := (nl_type v)(i := INT_T), pf_s := s + 3\<rparr>)))
      else if \<not> pf_l10n v
      then Ok (Inr (if f then (va_int (ap (pf_k v)), v\<lparr>pf_k := pf_k v + 1, pf_s := s + 1\<rparr>) else (0, v\<lparr>pf_s := s + 1\<rparr>)))
      else Ok (Inl (Inval, v)))"

definition read_width :: "bool \<Rightarrow> (nat \<Rightarrow> u64) \<Rightarrow> mem \<Rightarrow> u32 \<Rightarrow> pf_vars \<Rightarrow> (int \<times> u32 \<times> pf_vars) pf" where
  "read_width f ap m fl v =
     (if m (pf_s v) = ch CHR ''*''
      then bind_pf (read_star True f ap m (pf_s v) v) (\<lambda>(w, v).
        Ok (Inr (if w < 0 then (wrap32 (- w), fl OR LEFT_ADJ, v) else (w, fl, v))))
      else bind_pf (scanned (getint m 0 (pf_s v))) (\<lambda>(w, s).
        if w < 0 then Ok (Inl (Overflow, v\<lparr>pf_s := s\<rparr>)) else Ok (Inr (w, fl, v\<lparr>pf_s := s\<rparr>))))"

text \<open>The precision and whether it was given.\<close>

definition read_prec :: "bool \<Rightarrow> (nat \<Rightarrow> u64) \<Rightarrow> mem \<Rightarrow> pf_vars \<Rightarrow> (int \<times> bool \<times> pf_vars) pf" where
  "read_prec f ap m v =
     (if m (pf_s v) = ch CHR ''.'' \<and> m (pf_s v + 1) = ch CHR ''*''
      then bind_pf (read_star False f ap m (pf_s v + 1) v) (\<lambda>(p, v). Ok (Inr (p, p \<ge> 0, v)))
      else if m (pf_s v) = ch CHR ''.''
      then bind_pf (scanned (getint m 0 (pf_s v + 1))) (\<lambda>(p, s). Ok (Inr (p, True, v\<lparr>pf_s := s\<rparr>)))
      else Ok (Inr (- 1, False, v)))"

fun state_rank :: "pf_type \<Rightarrow> nat" where
  "state_rank BARE = 3"
| "state_rank LPRE = 2"
| "state_rank HPRE = 2"
| "state_rank _ = 1"

lemma find_in: "find P xs = Some x \<Longrightarrow> x \<in> set xs"
  by (metis find_Some_iff nth_mem)

lemma states_in: "states st c \<in> insert BARE (snd ` set (states_row st))"
  unfolding states_def by (auto split: option.splits dest!: find_in intro: rev_image_eqI)

lemma states_rank: "is_prefix (states st c) \<Longrightarrow> state_rank (states st c) < state_rank st"
proof -
  have "\<forall>x \<in> insert BARE (snd ` set (states_row st)). is_prefix x \<longrightarrow> state_rank x < state_rank st"
    by (cases st) (simp_all add: is_prefix_def)
  then show "is_prefix (states st c) \<Longrightarrow> state_rank (states st c) < state_rank st" using states_in by blast
qed

text \<open>The machine over the letters of the specifier: the type, the state before it and the rest.\<close>

function spec_loop :: "mem \<Rightarrow> pf_type \<Rightarrow> u64 \<Rightarrow> (pf_type \<times> pf_type \<times> u64) option" where
  "spec_loop m st s =
     (if OOB (m s) then None
      else if is_prefix (states st (m s)) then spec_loop m (states st (m s)) (s + 1)
      else Some (states st (m s), st, s + 1))"
  by pat_completeness auto
termination
  by (relation "measure (\<lambda>(m, st, s). state_rank st)") (simp_all add: states_rank)

declare spec_loop.simps [simp del]

definition read_spec :: "mem \<Rightarrow> pf_vars \<Rightarrow> (pf_type \<times> pf_type \<times> pf_vars) pf" where
  "read_spec m v = (case spec_loop m BARE (pf_s v) of
       None \<Rightarrow> Ok (Inl (Inval, v))
     | Some (st, ps, s) \<Rightarrow> if st = BARE then Ok (Inl (Inval, v\<lparr>pf_s := s\<rparr>)) else Ok (Inr (st, ps, v\<lparr>pf_s := s\<rparr>)))"

text \<open>The check of the argument; without a stream and without a position the function returns 0.\<close>

definition fetch_arg :: "bool \<Rightarrow> (nat \<Rightarrow> u64) \<Rightarrow> pf_type \<Rightarrow> nat option \<Rightarrow> pf_vars \<Rightarrow> (u64 \<times> pf_vars) pf" where
  "fetch_arg f ap st argpos v =
     (if st = NOARG then (if argpos \<noteq> None then Ok (Inl (Inval, v)) else Ok (Inr (0, v)))
      else case argpos of
          Some i \<Rightarrow> Ok (Inr (nl_arg v i, v\<lparr>nl_type := (nl_type v)(i := st)\<rparr>))
        | None \<Rightarrow> if f then (case pop_arg st (ap (pf_k v)) of None \<Rightarrow> Ok (Inr (0, v)) | Some x \<Rightarrow> Ok (Inr (x, v\<lparr>pf_k := pf_k v + 1\<rparr>)))
            else Ok (Inl (Ret0, v)))"

section \<open>Conversions\<close>

text \<open>What the switch leaves for the output: the text between \<open>fd_a\<close> and \<open>fd_z\<close>, the precision, the prefix and the flags; or
  the next turn (\<open>Skip\<close>).\<close>

datatype field = Skip | Field (fd_a: u64) (fd_z: u64) (fd_p: int) (fd_prefix: u64) (fd_pl: int) (fd_fl: u32)

definition BUF_SIZE :: u64 where "BUF_SIZE = 43"

definition PREFIX :: string where "PREFIX = ''-+   0X0x''"

text \<open>The end of the cases for numbers; \<open>z - a\<close> is a signed difference.\<close>

definition number_field :: "u64 \<Rightarrow> bool \<Rightarrow> int \<Rightarrow> u64 \<Rightarrow> int \<Rightarrow> u32 \<Rightarrow> u64 \<Rightarrow> u64 \<Rightarrow> exit + field" where
  "number_field i xp p prefix pl fl a z =
     (if xp \<and> p < 0 then Inl Overflow
      else (let fl = (if xp then fl AND NOT ZERO_PAD else fl)
        in if i = 0 \<and> p = 0 then Inr (Field z z p prefix pl fl)
           else Inr (Field a z (max p (wrap32 (sint (z - a) + (if i = 0 then 1 else 0)))) prefix pl fl)))"

text \<open>\<open>%n\<close> stores \<open>n\<close> bytes of the count.\<close>

definition store_bytes :: "nat \<Rightarrow> u64 \<Rightarrow> u64 \<Rightarrow> mem \<Rightarrow> mem" where
  "store_bytes n a x m = (\<lambda>b. if unat (b - a) < n then ucast (drop_bit (8 * unat (b - a)) x) else m b)"

fun count_size :: "pf_type \<Rightarrow> nat" where
  "count_size BARE = 4"
| "count_size LPRE = 8"
| "count_size LLPRE = 8"
| "count_size HPRE = 2"
| "count_size HHPRE = 1"
| "count_size ZTPRE = 8"
| "count_size JPRE = 8"
| "count_size _ = 0"

text \<open>A larger precision for \<open>%p\<close>: the comparison is unsigned, so that the default of -1 stays.\<close>

definition pointer_prec :: "int \<Rightarrow> int" where
  "pointer_prec p = (if of_int p > (16 :: u64) then p else 16)"

definition hex_field :: "u64 \<Rightarrow> u64 \<Rightarrow> u8 \<Rightarrow> u64 \<Rightarrow> bool \<Rightarrow> int \<Rightarrow> u32 \<Rightarrow> mem \<Rightarrow> (exit + field) \<times> mem" where
  "hex_field prefix z t i xp p fl m = (let
     (a, m) = fmt_x i z (t AND 32) m;
     (prefix, pl) = (if i \<noteq> 0 \<and> fl AND ALT_FORM \<noteq> 0 then (prefix + ucast (drop_bit 4 t), 2) else (prefix, 0))
   in (number_field i xp p prefix pl fl a z, m))"

definition text_field :: "u64 \<Rightarrow> u64 \<Rightarrow> int \<Rightarrow> u32 \<Rightarrow> mem \<Rightarrow> exit + field" where
  "text_field prefix a p fl m = (let z = memchr a 0 (of_int (if p < 0 then INT_MAX else p)) m
   in if p < 0 \<and> z = 0 then Inl Overflow
      else Inr (Field a z (wrap32 (sint (z - a))) prefix 0 (fl AND NOT ZERO_PAD)))"

definition convert ::
    "u64 \<Rightarrow> (string \<Rightarrow> u64) \<Rightarrow> int \<Rightarrow> pf_type \<Rightarrow> u8 \<Rightarrow> u64 \<Rightarrow> bool \<Rightarrow> int \<Rightarrow> u32 \<Rightarrow> 'd rt_state \<Rightarrow> ((exit + field) \<times> 'd rt_state) res" where
  "convert buf lit cnt ps t i xp p fl st = (let
     z = buf + BUF_SIZE;
     prefix = lit PREFIX;
     t = (if ps \<noteq> BARE \<and> t AND 15 = 3 then t AND NOT 32 else t);
     fl = (if fl AND LEFT_ADJ \<noteq> 0 then fl AND NOT ZERO_PAD else fl);
     m = umem st;
     leave = (\<lambda>(r, m). Ok (r, st\<lparr>umem := m\<rparr>))
   in if t = ch CHR ''n''
      then (if count_size ps = 0 then Ok (Inr Skip, st)
        else nonnull i (leave (Inr Skip, store_bytes (count_size ps) i (of_int cnt) m)))
      else if t = ch CHR ''p'' then leave (hex_field prefix z (ch CHR ''x'') i xp (pointer_prec p) (fl OR ALT_FORM) m)
      else if t = ch CHR ''x'' \<or> t = ch CHR ''X'' then leave (hex_field prefix z t i xp p fl m)
      else if t = ch CHR ''o''
      then (let
        (a, m) = fmt_o i z m;
        p = (if fl AND ALT_FORM \<noteq> 0 \<and> p < sint (z - a) + 1 then wrap32 (sint (z - a) + 1) else p)
      in leave (number_field i xp p prefix 0 fl a z, m))
      else if t = ch CHR ''d'' \<or> t = ch CHR ''i''
      then (let
        (i, prefix, pl) = (if sint i < 0 then (- i, prefix, 1)
          else if fl AND MARK_POS \<noteq> 0 then (i, prefix + 1, 1)
          else if fl AND PAD_POS \<noteq> 0 then (i, prefix + 2, 1)
          else (i, prefix, 0));
        (a, m) = fmt_u i z m
      in leave (number_field i xp p prefix pl fl a z, m))
      else if t = ch CHR ''u'' then (let (a, m) = fmt_u i z m in leave (number_field i xp p prefix 0 fl a z, m))
      else if t = ch CHR ''c''
      then leave (Inr (Field (z - 1) z 1 prefix 0 (fl AND NOT ZERO_PAD)), m(z - 1 := ucast i))
      else if t = ch CHR ''m'' then leave (text_field prefix (lit (strerror (errno st))) p fl m, m)
      else if t = ch CHR ''s'' then leave (text_field prefix (if i \<noteq> 0 then i else lit ''(null)'') p fl m, m)
      else Ok (Inr Skip, st))"

text \<open>The output of a field; the result is the new \<open>l\<close>.\<close>

definition emit :: "'d stream \<Rightarrow> u64 \<Rightarrow> int \<Rightarrow> int \<Rightarrow> field \<Rightarrow> 'd rt_state \<Rightarrow> (exit + int) \<times> 'd rt_state" where
  "emit f pb cnt w fd st = (let
     a = fd_a fd; z = fd_z fd; pl = fd_pl fd; fl = fd_fl fd;
     p = (if fd_p fd < sint (z - a) then wrap32 (sint (z - a)) else fd_p fd)
   in if p > INT_MAX - pl then (Inl Overflow, st)
      else (let w = (if w < pl + p then pl + p else w)
        in if w > INT_MAX - cnt then (Inl Overflow, st)
           else (let
             st = pad f pb (ch CHR '' '') w (pl + p) fl st;
             st = out_fn f (fd_prefix fd) (of_int pl) st;
             st = pad f pb (ch CHR ''0'') w (pl + p) (fl XOR ZERO_PAD) st;
             st = pad f pb (ch CHR ''0'') p (wrap32 (sint (z - a))) 0 st;
             st = out_fn f a (z - a) st;
             st = pad f pb (ch CHR '' '') w (pl + p) (fl XOR LEFT_ADJ) st
           in (Inr w, st))))"

section \<open>The loop\<close>

text \<open>A turn ends with another turn, with the end of the loop, or not at all.\<close>

datatype 'd step = Go pf_vars "'d rt_state" | Stop exit pf_vars "'d rt_state" | Crash fault

definition step_bind :: "'d rt_state \<Rightarrow> 'a pf \<Rightarrow> ('a \<Rightarrow> 'd step) \<Rightarrow> 'd step" where
  "step_bind st r f = (case r of Fail e \<Rightarrow> Crash e | Ok (Inl (j, v)) \<Rightarrow> Stop j v st | Ok (Inr x) \<Rightarrow> f x)"

text \<open>A directive, after its argument has been fetched.\<close>

definition print_field ::
    "'d stream \<Rightarrow> u64 \<Rightarrow> u64 \<Rightarrow> (string \<Rightarrow> u64) \<Rightarrow> int \<Rightarrow> pf_type \<Rightarrow> u8 \<Rightarrow> u64 \<Rightarrow> bool \<Rightarrow> int \<Rightarrow> u32 \<Rightarrow> pf_vars \<Rightarrow> 'd rt_state \<Rightarrow> 'd step" where
  "print_field f buf pb lit w ps t i xp p fl v st = (case convert buf lit (pf_cnt v) ps t i xp p fl st of
       Fail e \<Rightarrow> Crash e
     | Ok (Inl j, st) \<Rightarrow> Stop j v st
     | Ok (Inr Skip, st) \<Rightarrow> Go v st
     | Ok (Inr fd, st) \<Rightarrow> (case emit f pb (pf_cnt v) w fd st of
           (Inl j, st) \<Rightarrow> Stop j v st
         | (Inr l, st) \<Rightarrow> Go (v\<lparr>pf_l := l\<rparr>) st))"

text \<open>The first argument is the stream, or \<open>None\<close> for a null pointer.\<close>

definition directive ::
    "'d stream option \<Rightarrow> u64 \<Rightarrow> u64 \<Rightarrow> (string \<Rightarrow> u64) \<Rightarrow> (nat \<Rightarrow> u64) \<Rightarrow> pf_vars \<Rightarrow> 'd rt_state \<Rightarrow> 'd step" where
  "directive f buf pb lit ap v st = (let
     m = umem st;
     (argpos, v) = read_argpos m v
   in step_bind st (scanned (read_flags m 0 (pf_s v))) (\<lambda>(fl, s).
      step_bind st (read_width (f \<noteq> None) ap m fl (v\<lparr>pf_s := s\<rparr>)) (\<lambda>(w, fl, v).
      step_bind st (read_prec (f \<noteq> None) ap m v) (\<lambda>(p, xp, v).
      step_bind st (read_spec m v) (\<lambda>(ty, ps, v).
      step_bind st (fetch_arg (f \<noteq> None) ap ty argpos v) (\<lambda>(i, v).
        case f of None \<Rightarrow> Go v st
        | Some f \<Rightarrow> print_field f buf pb lit w ps (m (pf_s v - 1)) i xp p fl v st))))))"

definition turn ::
    "'d stream option \<Rightarrow> u64 \<Rightarrow> u64 \<Rightarrow> (string \<Rightarrow> u64) \<Rightarrow> (nat \<Rightarrow> u64) \<Rightarrow> pf_vars \<Rightarrow> 'd rt_state \<Rightarrow> 'd step" where
  "turn f buf pb lit ap v st =
     (if pf_l v > INT_MAX - pf_cnt v then Stop Overflow v st
      else (let v = v\<lparr>pf_cnt := pf_cnt v + pf_l v\<rparr>; m = umem st; a = pf_s v
        in if m a = 0 then Stop End v st
           else step_bind st (scanned (scan_text m a)) (\<lambda>s.
             step_bind st (scanned (scan_percent m s s)) (\<lambda>(z, s).
             if sint (z - a) > INT_MAX - pf_cnt v then Stop Overflow v st
             else (let
               v = v\<lparr>pf_s := s, pf_l := wrap32 (sint (z - a))\<rparr>;
               st = (case f of None \<Rightarrow> st | Some f \<Rightarrow> out_fn f a (of_int (pf_l v)) st)
             in if pf_l v \<noteq> 0 then Go v st else directive f buf pb lit ap v st)))))"

partial_function (option) core_loop ::
    "'d stream option \<Rightarrow> u64 \<Rightarrow> u64 \<Rightarrow> (string \<Rightarrow> u64) \<Rightarrow> (nat \<Rightarrow> u64) \<Rightarrow> pf_vars \<Rightarrow> 'd rt_state \<Rightarrow> 'd step option" where
  "core_loop f buf pb lit ap v st = (case turn f buf pb lit ap v st of
       Go v st \<Rightarrow> core_loop f buf pb lit ap v st
     | Stop j v st \<Rightarrow> Some (Stop j v st)
     | Crash e \<Rightarrow> Some (Crash e))"

text \<open>The two loops over the positions behind the end of the format.\<close>

function nl_pop :: "(nat \<Rightarrow> u64) \<Rightarrow> nat \<Rightarrow> pf_vars \<Rightarrow> nat \<times> pf_vars" where
  "nl_pop ap i v =
     (if i \<le> NL_ARGMAX \<and> nl_type v i \<noteq> BARE
      then nl_pop ap (i + 1) (case pop_arg (nl_type v i) (ap (pf_k v)) of
          None \<Rightarrow> v | Some x \<Rightarrow> v\<lparr>nl_arg := (nl_arg v)(i := x), pf_k := pf_k v + 1\<rparr>)
      else (i, v))"
  by pat_completeness auto
termination
  by (relation "measure (\<lambda>(ap, i, v). NL_ARGMAX + 1 - i)") auto

function nl_rest :: "(nat \<Rightarrow> pf_type) \<Rightarrow> nat \<Rightarrow> nat" where
  "nl_rest ty i = (if i \<le> NL_ARGMAX \<and> ty i = BARE then nl_rest ty (i + 1) else i)"
  by pat_completeness auto
termination
  by (relation "measure (\<lambda>(ty, i). NL_ARGMAX + 1 - i)") auto

declare nl_pop.simps [simp del] nl_rest.simps [simp del]

definition core_exit :: "bool \<Rightarrow> (nat \<Rightarrow> u64) \<Rightarrow> 'd step \<Rightarrow> (int \<times> pf_vars \<times> 'd rt_state) res" where
  "core_exit f ap r = (case r of
       Go v st \<Rightarrow> Fail NoReturn
     | Crash e \<Rightarrow> Fail e
     | Stop j v st \<Rightarrow> (let
         inval = (\<lambda>v. (- 1, v, st\<lparr>errno := EINVAL\<rparr>))
       in Ok (case j of
         Ret0 \<Rightarrow> (0, v, st)
       | Inval \<Rightarrow> inval v
       | Overflow \<Rightarrow> (- 1, v, st\<lparr>errno := EOVERFLOW\<rparr>)
       | End \<Rightarrow> (if f then (pf_cnt v, v, st)
           else if \<not> pf_l10n v then (0, v, st)
           else (let (i, v) = nl_pop ap 1 v; i = nl_rest (nl_type v) i
             in if i \<le> NL_ARGMAX then inval v else (1, v, st))))))"

definition printf_core ::
    "'d stream option \<Rightarrow> u64 \<Rightarrow> u64 \<Rightarrow> (string \<Rightarrow> u64) \<Rightarrow> u64 \<Rightarrow> (nat \<Rightarrow> u64) \<Rightarrow> nat \<Rightarrow> (nat \<Rightarrow> pf_type) \<Rightarrow> (nat \<Rightarrow> u64) \<Rightarrow> 'd rt_state \<Rightarrow>
     (int \<times> pf_vars \<times> 'd rt_state) res" where
  "printf_core f buf pb lit fmt ap k ty arg st =
     (case core_loop f buf pb lit ap \<lparr>pf_s = fmt, pf_l10n = False, pf_cnt = 0, pf_l = 0, pf_k = k, nl_type = ty, nl_arg = arg\<rparr> st of
        None \<Rightarrow> Fail NoReturn
      | Some r \<Rightarrow> core_exit (f \<noteq> None) ap r)"

text \<open>\<open>junk\<close> is what the array of arguments holds before it is filled.\<close>

definition vfprintf ::
    "u64 \<Rightarrow> u64 \<Rightarrow> (string \<Rightarrow> u64) \<Rightarrow> (nat \<Rightarrow> u64) \<Rightarrow> 'd stream \<Rightarrow> u64 \<Rightarrow> (nat \<Rightarrow> u64) \<Rightarrow> 'd rt_state \<Rightarrow> (int \<times> 'd rt_state) res" where
  "vfprintf buf pb lit junk f fmt ap st =
     bind_res (printf_core None buf pb lit fmt ap 0 (\<lambda>_. BARE) junk st) (\<lambda>(r, v, st).
       if r < 0 then Ok (- 1, st)
       else bind_res (printf_core (Some f) buf pb lit fmt ap (pf_k v) (nl_type v) (nl_arg v) st) (\<lambda>(ret, _, st). Ok (ret, st)))"

declare core_loop.simps [code] scan_text.simps [code] scan_percent.simps [code] read_flags.simps [code] getint.simps [code]

end
