(* ===== verification/Format_Spec.thy ===== *)
theory Format_Spec
  imports C_vfprintf K_user_mem
begin

text \<open>
  What the parts of \<open>vfprintf\<close> do, in terms of lists of bytes: padding and fields on every stream that keeps its
  promise, the digits of numbers, and the reading of directives.  The promise is the locale \<open>sink\<close>; the buffer of
  \<open>snprintf\<close> is an instance of it (\<open>C_stdio\<close>).
\<close>

section \<open>Regions of memory\<close>

definition area :: "u64 \<Rightarrow> nat \<Rightarrow> u64 set" where "area a n = {x. unat (x - a) < n}"

definition same :: "u64 set \<Rightarrow> mem \<Rightarrow> mem \<Rightarrow> bool" where "same A m m' \<longleftrightarrow> (\<forall>x. x \<notin> A \<longrightarrow> m' x = m x)"

lemma same_refl [simp]: "same A m m"
  by (simp add: same_def)

lemma same_trans: "same A m m' \<Longrightarrow> same B m' m'' \<Longrightarrow> same (A \<union> B) m m''"
  by (simp add: same_def)

lemma same_mono: "same A m m' \<Longrightarrow> A \<subseteq> B \<Longrightarrow> same B m m'"
  by (auto simp: same_def)

lemma area_nth: "i < n \<Longrightarrow> n \<le> 2 ^ 64 \<Longrightarrow> a + of_nat i \<in> area a n"
  by (simp add: area_def unat_of_nat_small)

lemma area_mono: "k \<le> n \<Longrightarrow> area a k \<subseteq> area a n"
  by (auto simp: area_def)

lemma bytes_at_same:
  assumes "same A m m'" "area a n \<inter> A = {}" "n \<le> 2 ^ 64"
  shows "bytes_at m' a n = bytes_at m a n"
proof (rule nth_equalityI)
  fix i assume "i < length (bytes_at m' a n)"
  then have i: "i < n" by simp
  then have "a + of_nat i \<notin> A" using area_nth[OF i assms(3), of a] assms(2) by blast
  then show "bytes_at m' a n ! i = bytes_at m a n ! i" using assms(1) i by (simp add: same_def)
qed simp

lemma bytes_at_const: "(\<forall>x \<in> area a n. m x = c) \<Longrightarrow> n \<le> 2 ^ 64 \<Longrightarrow> bytes_at m a n = replicate n c"
  by (rule nth_equalityI) (simp_all add: area_nth)

lemma ucast_u8_u32: "(ucast (ucast (c :: u8) :: u32) :: u8) = c"
  by (rule bit_word_eqI) (simp add: bit_ucast_iff)

lemma INT_MAX_value: "INT_MAX = 2147483647"
  by (simp add: INT_MAX_def)

lemma wrap32_id: "- 2147483648 \<le> x \<Longrightarrow> x \<le> INT_MAX \<Longrightarrow> wrap32 x = x"
  unfolding wrap32_def by (simp only: signed_of_int) (simp add: signed_take_bit_int_eq_self_iff INT_MAX_value)

lemma sint_of_nat_small: "int n \<le> INT_MAX \<Longrightarrow> sint (of_nat n :: u64) = int n"
  by (simp only: signed_of_nat) (simp add: signed_take_bit_int_eq_self_iff INT_MAX_value)

section \<open>Streams\<close>

text \<open>The bytes that \<open>pad\<close> adds.\<close>

definition padding :: "u32 \<Rightarrow> u8 \<Rightarrow> int \<Rightarrow> int \<Rightarrow> u8 list" where
  "padding fl c w l = (if fl AND (LEFT_ADJ OR ZERO_PAD) \<noteq> 0 then [] else replicate (nat (w - l)) c)"

text \<open>The bytes that \<open>emit\<close> writes, for a prefix \<open>ps\<close> and a text \<open>ts\<close>.\<close>

definition field_bytes :: "u32 \<Rightarrow> int \<Rightarrow> int \<Rightarrow> u8 list \<Rightarrow> u8 list \<Rightarrow> u8 list" where
  "field_bytes fl w p ps ts = (let l = int (length ps) + p
   in padding fl 32 w l @ ps @ padding (fl XOR ZERO_PAD) 48 w l @ replicate (nat (p - int (length ts))) 48 @ ts @
      padding (fl XOR LEFT_ADJ) 32 w l)"

text \<open>A stream \<open>f\<close> that has taken the bytes \<open>xs\<close> is in a state with \<open>R xs\<close>.  Writing takes the bytes at an address
  and changes no memory but \<open>priv\<close>; the rest of the memory does not matter to the stream.\<close>

locale sink =
  fixes f :: "'d stream" and R :: "u8 list \<Rightarrow> 'd rt_state \<Rightarrow> bool" and priv :: "u64 set"
  assumes writes: "R xs st \<Longrightarrow> area a (unat l) \<inter> priv = {} \<Longrightarrow> \<exists>st'. f a l st = (l, st') \<and>
      R (xs @ bytes_at (umem st) a (unat l)) st' \<and> errno st' = errno st \<and> same priv (umem st) (umem st')"
    and scratch: "R xs st \<Longrightarrow> \<forall>x \<in> priv. m x = umem st x \<Longrightarrow> R xs (st\<lparr>umem := m\<rparr>)"
begin

text \<open>A state after \<open>ys\<close> more bytes.\<close>

definition gives :: "u64 set \<Rightarrow> u8 list \<Rightarrow> 'd rt_state \<Rightarrow> 'd rt_state \<Rightarrow> bool" where
  "gives A ys st st' \<longleftrightarrow> (\<forall>xs. R xs st \<longrightarrow> R (xs @ ys) st') \<and> errno st' = errno st \<and> same A (umem st) (umem st')"

lemma gives_refl: "gives A [] st st"
  by (simp add: gives_def)

lemma gives_trans: "gives A ys st st' \<Longrightarrow> gives B zs st' st'' \<Longrightarrow> gives (A \<union> B) (ys @ zs) st st''"
  using same_trans[of A "umem st" "umem st'" B "umem st''"] by (auto simp: gives_def)

lemma gives_mono: "gives A ys st st' \<Longrightarrow> A \<subseteq> B \<Longrightarrow> gives B ys st st'"
  using same_mono by (auto simp: gives_def)

lemma gives_Cons:
  assumes "gives A ys st st'" "gives A zs st' st''"
  shows "gives A (ys @ zs) st st''"
  using gives_trans[OF assms] by simp

lemma gives_same: "gives A ys st st' \<Longrightarrow> same A (umem st) (umem st')"
  by (simp add: gives_def)

lemma gives_scratch: "\<forall>x \<in> priv. m x = umem st x \<Longrightarrow> same A (umem st) m \<Longrightarrow> gives A [] st (st\<lparr>umem := m\<rparr>)"
  using scratch by (simp add: gives_def)

lemma out_gives:
  assumes "R xs st" "area a (unat l) \<inter> priv = {}"
  shows "gives priv (bytes_at (umem st) a (unat l)) st (out_fn f a l st)"
proof -
  have "R ys st \<Longrightarrow> R (ys @ bytes_at (umem st) a (unat l)) (out_fn f a l st)" for ys
    using writes[OF _ assms(2), of ys st] by (auto simp: out_fn_def)
  moreover have "errno (out_fn f a l st) = errno st \<and> same priv (umem st) (umem (out_fn f a l st))"
    using writes[OF assms] by (auto simp: out_fn_def)
  ultimately show ?thesis by (simp add: gives_def)
qed

lemma gives_R: "gives A ys st st' \<Longrightarrow> R xs st \<Longrightarrow> R (xs @ ys) st'"
  by (simp add: gives_def)

section \<open>Padding\<close>

lemma pad_loop_gives:
  assumes "R xs st" "\<forall>x \<in> area pb (min 256 (unat l)). umem st x = c" "area pb 256 \<inter> priv = {}"
  shows "gives priv (replicate (unat l) c) st (pad_loop f pb l st)"
  using assms
proof (induction "unat l" arbitrary: l xs st rule: less_induct)
  case less
  show ?case
  proof (cases "256 \<le> l")
    case True
    let ?st = "out_fn f pb 256 st"
    define N where "N = unat (256 :: u64)"
    have N: "N = 256" by (simp add: N_def)
    have u: "unat l = N + unat (l - 256)" using True unat_sub_le[of 256 l] N by (simp add: word_le_nat_alt)
    then have c: "\<forall>x \<in> area pb N. umem st x = c" using less.prems(2) N by (simp add: min_def)
    have "bytes_at (umem st) pb N = replicate N c" by (rule bytes_at_const[OF c]) (simp add: N)
    then have g: "gives priv (replicate N c) st ?st"
      using out_gives[OF less.prems(1), of pb 256, folded N_def] less.prems(3)[folded N] by simp
    have "umem ?st x = c" if "x \<in> area pb (min 256 (unat (l - 256)))" for x
    proof -
      have x: "x \<in> area pb N" using that area_mono[of "min 256 (unat (l - 256))" N pb] N by auto
      then have "x \<notin> priv" using less.prems(3) N by blast
      then show ?thesis using gives_same[OF g] c x by (simp add: same_def)
    qed
    then have c': "\<forall>x \<in> area pb (min 256 (unat (l - 256))). umem ?st x = c" by blast
    have lt: "unat (l - 256) < unat l" using u N by simp
    have "gives priv (replicate (unat (l - 256)) c) ?st (pad_loop f pb (l - 256) ?st)"
      by (rule less.hyps[OF lt gives_R[OF g less.prems(1)] c' less.prems(3)])
    from gives_Cons[OF g this] have "gives priv (replicate (unat l) c) st (pad_loop f pb (l - 256) ?st)"
      by (simp only: u replicate_add)
    then show ?thesis using True by (simp add: pad_loop.simps[of f pb l])
  next
    case False
    then have l: "unat l < 256" by (simp add: word_le_nat_alt)
    have "bytes_at (umem st) pb (unat l) = replicate (unat l) c"
      by (rule bytes_at_const) (use less.prems(2) l in \<open>simp_all add: min_def\<close>)
    moreover have "area pb (unat l) \<subseteq> area pb 256" by (rule area_mono) (use l in simp)
    then have "area pb (unat l) \<inter> priv = {}" using less.prems(3) by blast
    ultimately have "gives priv (replicate (unat l) c) st (out_fn f pb (ucast l) st)"
      using out_gives[OF less.prems(1), of pb "ucast l", unfolded unat_ucast_u32] by simp
    then show ?thesis using False by (simp add: pad_loop.simps[of f pb l])
  qed
qed

lemma pad_gives:
  assumes "R xs st" "area pb 256 \<inter> priv = {}" "w - l < 2 ^ 32"
  shows "gives (priv \<union> area pb 256) (padding fl c w l) st (pad f pb c w l fl st)"
proof (cases "fl AND (LEFT_ADJ OR ZERO_PAD) \<noteq> 0 \<or> l \<ge> w")
  case True
  then show ?thesis using gives_refl by (auto simp: pad_def padding_def)
next
  case False
  define n k where "n = (of_int (w - l) :: u32)" and "k = (if 256 < n then 256 else ucast n :: u64)"
  let ?m = "snd (memset pb (ucast c) k (umem st))"
  let ?st = "st\<lparr>umem := ?m\<rparr>"
  have n: "unat n = nat (w - l)" using False assms(3) unfolding n_def by (simp only: unsigned_of_int) (simp add: take_bit_int_eq_self)
  have k: "unat k = min 256 (unat n)"
    using unat_ucast_u32[of n] by (cases "256 < n") (simp_all add: k_def word_less_nat_alt min_def)
  have "unat k < 2 ^ 64" using k by simp
  then have m: "?m = filled (unat k) pb c (umem st)"
    by (simp only: memset_def memset_rep_stosb_def snd_conv rep_stosb_filled ucast_u8_u32)
  have g: "gives (area pb 256) [] st ?st"
  proof (rule gives_scratch)
    show "\<forall>x \<in> priv. ?m x = umem st x" using m assms(2) k by (fastforce simp: filled_def area_def)
    show "same (area pb 256) (umem st) ?m" using m k by (simp add: same_def filled_def area_def)
  qed
  have "\<forall>x \<in> area pb (min 256 (unat n)). umem ?st x = c" using m by (simp add: filled_def area_def k)
  from pad_loop_gives[OF gives_R[OF g assms(1)] this assms(2)]
  have "gives priv (replicate (unat n) c) ?st (pad_loop f pb n ?st)" by simp
  moreover have "(fl AND (LEFT_ADJ OR ZERO_PAD) \<noteq> 0) = False" "(l \<ge> w) = False" using False by auto
  ultimately show ?thesis using gives_trans[OF g] n
    by (simp only: pad_def padding_def Un_commute[of priv] Let_def k_def n_def if_False append_Nil simp_thms)
qed

lemma text_gives:
  assumes "R xs st" "same A m (umem st)" "bytes_at m a (length ts) = ts" "area a (length ts) \<inter> A = {}" "length ts < 2 ^ 64" "priv \<subseteq> A"
  shows "gives A ts st (out_fn f a (of_nat (length ts)) st)"
proof -
  have u: "unat (of_nat (length ts) :: u64) = length ts" using assms(5) by (simp add: unat_of_nat_small)
  have "bytes_at (umem st) a (length ts) = ts" using bytes_at_same[OF assms(2,4)] assms(3,5) by simp
  moreover have "area a (length ts) \<inter> priv = {}" using assms(4,6) by blast
  ultimately have "gives priv ts st (out_fn f a (of_nat (length ts)) st)"
    using out_gives[OF assms(1), of a "of_nat (length ts)", unfolded u] by simp
  then show ?thesis by (rule gives_mono) (rule assms(6))
qed

lemma emit_gives:
  assumes r: "R xs st" and pb: "area pb 256 \<inter> priv = {}"
    and ts: "bytes_at (umem st) a (length ts) = ts" "area a (length ts) \<inter> (priv \<union> area pb 256) = {}"
    and ps: "bytes_at (umem st) q (length ps) = ps" "area q (length ps) \<inter> (priv \<union> area pb 256) = {}"
    and P: "P = max p (int (length ts))" and W: "W = max w (int (length ps) + P)" and cnt: "0 \<le> cnt" "cnt + W \<le> INT_MAX"
  shows "\<exists>st'. emit f pb cnt w (Field a (a + of_nat (length ts)) p q (int (length ps)) fl) st = (Inr W, st') \<and>
    gives (priv \<union> area pb 256) (field_bytes fl W P ps ts) st st'"
proof -
  let ?A = "priv \<union> area pb 256" and ?pl = "int (length ps)" and ?z = "a + of_nat (length ts)"
  have b: "0 \<le> P" "?pl + P \<le> W" "W \<le> INT_MAX" "int (length ts) \<le> P" using P W cnt by auto
  then have n: "sint (?z - a) = int (length ts)" "wrap32 (int (length ts)) = int (length ts)"
    using sint_of_nat_small[of "length ts"] wrap32_id[of "int (length ts)"] by auto
  have len: "length ts < 2 ^ 64" "length ps < 2 ^ 64" using b by (simp_all add: INT_MAX_value)
  have w: "W - (?pl + P) < 2 ^ 32" "P - int (length ts) < 2 ^ 32" using b by (simp_all add: INT_MAX_value)
  define st1 where "st1 = pad f pb (ch CHR '' '') W (?pl + P) fl st"
  define st2 where "st2 = out_fn f q (of_int ?pl) st1"
  define st3 where "st3 = pad f pb (ch CHR ''0'') W (?pl + P) (fl XOR ZERO_PAD) st2"
  define st4 where "st4 = pad f pb (ch CHR ''0'') P (int (length ts)) 0 st3"
  define st5 where "st5 = out_fn f a (?z - a) st4"
  define st6 where "st6 = pad f pb (ch CHR '' '') W (?pl + P) (fl XOR LEFT_ADJ) st5"
  have e: "emit f pb cnt w (Field a ?z p q ?pl fl) st = (Inr W, st6)"
    using b cnt P W n(2) unfolding emit_def Let_def field.sel n(1)
    by (auto simp: st1_def st2_def st3_def st4_def st5_def st6_def max_def)
  have g1: "gives ?A (padding fl 32 W (?pl + P)) st st1" unfolding st1_def using pad_gives[OF r pb w(1)] by simp
  note r1 = gives_R[OF g1 r]
  have g2: "gives ?A ps st1 st2" unfolding st2_def
    using text_gives[OF r1 gives_same[OF g1] ps len(2)] by simp
  note r2 = gives_R[OF g2 r1]
  have g3: "gives ?A (padding (fl XOR ZERO_PAD) 48 W (?pl + P)) st2 st3" unfolding st3_def using pad_gives[OF r2 pb w(1)] by simp
  note r3 = gives_R[OF g3 r2]
  have g4: "gives ?A (replicate (nat (P - int (length ts))) 48) st3 st4"
    unfolding st4_def using pad_gives[OF r3 pb w(2), of 0 48] by (simp add: padding_def)
  note G4 = gives_Cons[OF gives_Cons[OF gives_Cons[OF g1 g2] g3] g4]
  have g5: "gives ?A ts st4 st5" unfolding st5_def
    using text_gives[OF gives_R[OF g4 r3] gives_same[OF G4] ts len(1)] by simp
  have g6: "gives ?A (padding (fl XOR LEFT_ADJ) 32 W (?pl + P)) st5 st6"
    unfolding st6_def using pad_gives[OF gives_R[OF g5 gives_R[OF g4 r3]] pb w(1)] by simp
  have "gives ?A (field_bytes fl W P ps ts) st st6"
    using gives_Cons[OF gives_Cons[OF G4 g5] g6] by (simp add: field_bytes_def Let_def)
  with e show ?thesis by blast
qed

end

section \<open>Flags\<close>

lemma flag_test:
  "fl AND ALT_FORM \<noteq> 0 \<longleftrightarrow> bit fl 3" "fl AND ZERO_PAD \<noteq> 0 \<longleftrightarrow> bit fl 16" "fl AND LEFT_ADJ \<noteq> 0 \<longleftrightarrow> bit fl 13"
  "fl AND PAD_POS \<noteq> 0 \<longleftrightarrow> bit fl 0" "fl AND MARK_POS \<noteq> 0 \<longleftrightarrow> bit fl 11"
  by (simp_all only: bit_iff_and_push_bit_not_eq_0 ALT_FORM_def ZERO_PAD_def LEFT_ADJ_def PAD_POS_def MARK_POS_def)

lemma pad_test: "fl AND (LEFT_ADJ OR ZERO_PAD) \<noteq> 0 \<longleftrightarrow> bit fl 13 \<or> bit fl 16"
proof -
  have "fl AND (LEFT_ADJ OR ZERO_PAD) = (fl AND LEFT_ADJ) OR (fl AND ZERO_PAD)" by (simp add: bit.conj_disj_distrib)
  then show ?thesis using flag_test[of fl] by (simp add: or_eq_0_iff)
qed

lemma flag_bits:
  "bit ALT_FORM n \<longleftrightarrow> n = 3" "bit ZERO_PAD n \<longleftrightarrow> n = 16" "bit LEFT_ADJ n \<longleftrightarrow> n = 13"
  unfolding ALT_FORM_def ZERO_PAD_def LEFT_ADJ_def by (simp_all only: bit_push_bit_iff bit_1_iff) auto

text \<open>A field of width \<open>w\<close>: to the left, filled with zeros behind the prefix, or to the right.\<close>

definition layout :: "bool \<Rightarrow> bool \<Rightarrow> nat \<Rightarrow> u8 list \<Rightarrow> u8 list \<Rightarrow> u8 list" where
  "layout left zero w ps body = (let n = w - (length ps + length body)
   in if left then ps @ body @ replicate n 32 else if zero then ps @ replicate n 48 @ body else replicate n 32 @ ps @ body)"

lemma field_bytes_layout:
  assumes "\<not> (bit fl 13 \<and> bit fl 16)" "int (length ts) \<le> P" "W = max w (int (length ps) + P)"
  shows "field_bytes fl W P ps ts = layout (bit fl 13) (bit fl 16) (nat w) ps (replicate (nat P - length ts) 48 @ ts)"
proof -
  have n: "nat (W - (int (length ps) + P)) = nat w - (length ps + (nat P - length ts + length ts))"
    "nat (P - int (length ts)) = nat P - length ts" using assms(2,3) by auto
  then show ?thesis using assms(1)
    by (simp only: field_bytes_def layout_def padding_def pad_test Let_def) (auto simp: flag_bits bit_xor_iff)
qed

section \<open>Digits\<close>

lemma put_bytes_push:
  assumes "length xs + 1 < 2 ^ 64"
  shows "put_bytes (s - 1 - of_nat (length xs)) xs (m(s - 1 := c)) = put_bytes (s - of_nat (length (xs @ [c]))) (xs @ [c]) m"
proof
  fix b
  let ?n = "length xs" and ?y = "b - (s - of_nat (length (xs @ [c])))"
  have e: "b - (s - 1 - of_nat ?n) = ?y" by simp
  have n: "unat (of_nat ?n :: u64) = ?n" using assms by (simp add: unat_of_nat_small)
  have "b = s - 1 \<longleftrightarrow> ?y = of_nat ?n" by (auto simp: algebra_simps)
  then have "b = s - 1 \<longleftrightarrow> unat ?y = ?n" using n by (metis word_unat_eq_iff)
  then show "put_bytes (s - 1 - of_nat ?n) xs (m(s - 1 := c)) b = put_bytes (s - of_nat (length (xs @ [c]))) (xs @ [c]) m b"
    by (simp only: put_bytes_def e) (auto simp: nth_append)
qed

definition digit_char :: "nat \<Rightarrow> u8" where "digit_char d = 48 + of_nat d"

definition hex_char :: "u8 \<Rightarrow> nat \<Rightarrow> u8" where "hex_char lower d = ch (xdigits ! d) OR lower"

lemma digs_u64: "2 \<le> b \<Longrightarrow> length (digs b (unat (x :: u64))) \<le> 64"
proof -
  assume "2 \<le> b"
  then have "(2 :: nat) ^ 64 \<le> b ^ 64" by (rule power_mono) simp
  moreover have "unat x < 2 ^ 64" using unsigned_less[of x] by simp
  ultimately show ?thesis using \<open>2 \<le> b\<close> by (intro digs_length) auto
qed

text \<open>A loop that stores the digits from the last to the first.\<close>

lemma digit_loop:
  assumes "\<And>x s m. L x s m = (if x \<noteq> 0 then L (q x) (s - 1) (m(s - 1 := c x)) else (s, m))"
    and "2 \<le> b" "\<And>x :: u64. unat (q x) = unat x div b" "\<And>x. c x = d (unat x mod b)"
  shows "L x s m = (s - of_nat (length (digs b (unat x))),
    put_bytes (s - of_nat (length (digs b (unat x)))) (map d (digs b (unat x))) m)"
proof (induction "unat x" arbitrary: x s m rule: less_induct)
  case less
  show ?case
  proof (cases "x = 0")
    case True
    then show ?thesis by (subst assms(1)) (simp add: put_bytes_def)
  next
    case False
    then have x: "unat x \<noteq> 0" by (simp add: unat_eq_0)
    then have lt: "unat (q x) < unat x" using assms(2) by (simp add: assms(3))
    let ?ds = "map d (digs b (unat (q x)))"
    have g: "map d (digs b (unat x)) = ?ds @ [c x]" "length (digs b (unat x)) = length (?ds @ [c x])"
      using digs_step[OF assms(2) x] by (simp_all add: assms(3,4))
    have "length ?ds + 1 < 2 ^ 64" using digs_u64[OF assms(2), of "q x"] by simp
    then have p: "put_bytes (s - 1 - of_nat (length ?ds)) ?ds (m(s - 1 := c x)) = put_bytes (s - of_nat (length (?ds @ [c x]))) (?ds @ [c x]) m"
      by (rule put_bytes_push)
    have "L x s m = L (q x) (s - 1) (m(s - 1 := c x))" using assms(1)[of x s m] False by simp
    also have "\<dots> = (s - 1 - of_nat (length ?ds), put_bytes (s - 1 - of_nat (length ?ds)) ?ds (m(s - 1 := c x)))"
      using less[OF lt] by simp
    finally show ?thesis unfolding g p by simp
  qed
qed

lemma fmt_x_digits:
  "fmt_x x s lower m = (s - of_nat (length (digs 16 (unat x))),
    put_bytes (s - of_nat (length (digs 16 (unat x)))) (map (hex_char lower) (digs 16 (unat x))) m)"
proof (rule digit_loop[of "\<lambda>x s m. fmt_x x s lower m"])
  have "(15 :: u64) = mask 4" by (simp add: mask_eq_exp_minus_1)
  then have "unat (x AND 15) = unat x mod 16" for x :: u64
    by (simp only: take_bit_eq_mask[symmetric] unsigned_take_bit_eq) (simp add: take_bit_eq_mod)
  then show "ch (xdigits ! unat (x AND 15)) OR lower = hex_char lower (unat x mod 16)" for x :: u64 by (simp add: hex_char_def)
  show "unat (drop_bit 4 x) = unat x div 16" for x :: u64 by (simp add: drop_bit_eq_div unat_div)
qed (subst fmt_x.simps, simp_all)

lemma fmt_o_digits:
  "fmt_o x s m = (s - of_nat (length (digs 8 (unat x))),
    put_bytes (s - of_nat (length (digs 8 (unat x)))) (map digit_char (digs 8 (unat x))) m)"
proof (rule digit_loop)
  have "(7 :: u64) = mask 3" by (simp add: mask_eq_exp_minus_1)
  then have "unat (x AND 7) = unat x mod 8" for x :: u64
    by (simp only: take_bit_eq_mask[symmetric] unsigned_take_bit_eq) (simp add: take_bit_eq_mod)
  then show "48 + ucast (x AND 7) = digit_char (unat x mod 8)" for x :: u64 by (metis digit_char_def of_nat_unat)
  show "unat (drop_bit 3 x) = unat x div 8" for x :: u64 by (simp add: drop_bit_eq_div unat_div)
qed (subst fmt_o.simps, simp_all)

lemma fmt_u_digits:
  "fmt_u x s m = (s - of_nat (length (digs 10 (unat x))),
    put_bytes (s - of_nat (length (digs 10 (unat x)))) (map digit_char (digs 10 (unat x))) m)"
proof (rule digit_loop)
  have "unat (x mod 10) = unat x mod 10" for x :: u64 by (simp add: unat_mod)
  then show "48 + ucast (x mod 10) = digit_char (unat x mod 10)" for x :: u64 by (metis digit_char_def of_nat_unat)
  show "unat (x div 10) = unat x div 10" for x :: u64 using unat_div[of x 10] by simp
qed (subst fmt_u.simps, simp_all)

lemma digs_buffer: "8 \<le> b \<Longrightarrow> length (digs b (unat (x :: u64))) \<le> 22"
proof -
  assume b: "8 \<le> b"
  then have "(8 :: nat) ^ 22 \<le> b ^ 22" by (rule power_mono) simp
  moreover have "unat x < 8 ^ 22" using unsigned_less[of x, where 'a = nat] by simp
  ultimately show ?thesis using b by (intro digs_length) auto
qed

lemma digs_Nil: "2 \<le> b \<Longrightarrow> digs b n = [] \<longleftrightarrow> n = 0"
  by (cases "n = 0") (simp_all add: digs_step)

text \<open>Text at the end of the buffer.\<close>

lemma buffer_text:
  fixes buf :: u64
  assumes "length ts \<le> 43"
  defines "a \<equiv> buf + BUF_SIZE - of_nat (length ts)"
  shows "same (area buf 43) m (put_bytes a ts m)" "bytes_at (put_bytes a ts m) a (length ts) = ts" "area a (length ts) \<subseteq> area buf 43"
    "buf + BUF_SIZE = a + of_nat (length ts)"
proof -
  have l: "unat (of_nat (43 - length ts) :: u64) = 43 - length ts" by (simp add: unat_of_nat_small del: of_nat_diff)
  have "a = buf + of_nat (43 - length ts)" using assms(1) by (simp add: a_def BUF_SIZE_def)
  then have e: "x - buf = (x - a) + of_nat (43 - length ts)" for x by simp
  show s: "area a (length ts) \<subseteq> area buf 43"
  proof
    fix x assume "x \<in> area a (length ts)"
    then have x: "unat (x - a) < length ts" by (simp add: area_def)
    have "unat (x - buf) = unat (x - a) + (43 - length ts)"
      unfolding e by (rule unat_add_of_nat) (use x assms(1) in simp)
    then show "x \<in> area buf 43" using x assms(1) by (simp add: area_def)
  qed
  then show "same (area buf 43) m (put_bytes a ts m)" by (auto simp: same_def put_bytes_def area_def)
  show "bytes_at (put_bytes a ts m) a (length ts) = ts"
    using assms(1) by (intro nth_equalityI) (simp_all add: put_bytes_def unat_of_nat_small)
  show "buf + BUF_SIZE = a + of_nat (length ts)" by (simp add: a_def)
qed

section \<open>Numbers\<close>

text \<open>The body of a number with a precision; a negative one counts as none.\<close>

definition num_body :: "int \<Rightarrow> u8 list \<Rightarrow> u8 list" where
  "num_body p ts = replicate ((if p < 0 then 1 else nat p) - length ts) 48 @ ts"

text \<open>Prefix, digits and precision of the number \<open>i\<close> under the conversion \<open>t\<close>.\<close>

definition number_parts :: "bool \<Rightarrow> bool \<Rightarrow> bool \<Rightarrow> int \<Rightarrow> u8 \<Rightarrow> u64 \<Rightarrow> u8 list \<times> u8 list \<times> int" where
  "number_parts alt mark space p t i =
     (if t = ch CHR ''d'' \<or> t = ch CHR ''i''
      then (map of_char (if sint i < 0 then ''-'' else if mark then ''+'' else if space then '' '' else []),
        map digit_char (digs 10 (nat \<bar>sint i\<bar>)), p)
      else if t = ch CHR ''u'' then ([], map digit_char (digs 10 (unat i)), p)
      else if t = ch CHR ''o''
      then (let ds = map digit_char (digs 8 (unat i)) in ([], ds, if alt then max p (int (length ds) + 1) else p))
      else if t = ch CHR ''p''
      then (map of_char (if i \<noteq> 0 then ''0x'' else []), map (hex_char 32) (digs 16 (unat i)), if p < 0 then p else max p 16)
      else (map of_char (if alt \<and> i \<noteq> 0 then if t = ch CHR ''x'' then ''0x'' else ''0X'' else []), map (hex_char (t AND 32)) (digs 16 (unat i)), p))"

lemma number_field_body:
  assumes "z = a + of_nat n" "n \<le> 43" "i = 0 \<longleftrightarrow> n = 0" "xp \<Longrightarrow> 0 \<le> p" "p \<le> INT_MAX"
  shows "number_field i xp p q pl fl a z =
    Inr (Field a z (max (int ((if p < 0 then 1 else nat p))) (int n)) q pl (if xp then fl AND NOT ZERO_PAD else fl))"
proof -
  have d: "sint (z - a) = int n" using assms(1,2) sint_of_nat_small[of n] by (simp add: INT_MAX_value)
  have w: "wrap32 (int n) = int n" "wrap32 (1 + int n) = 1 + int n"
    using assms(2) wrap32_id[of "int n"] wrap32_id[of "1 + int n"] by (simp_all add: INT_MAX_value)
  have z: "n = 0 \<Longrightarrow> a = z" using assms(1) by simp
  show ?thesis
    unfolding number_field_def Let_def d using w z assms(2-5) by (cases "i = 0") (auto simp: max_def)
qed

lemma body_length: "int (length (num_body p ts)) = max (int (if p < 0 then 1 else nat p)) (int (length ts))"
  by (simp add: num_body_def)

lemma length_PREFIX: "length PREFIX = 9"
  by (simp add: PREFIX_def)

lemma prefix_bytes:
  assumes "bytes_at m q 9 = map of_char PREFIX" "off + k \<le> 9"
  shows "bytes_at m (q + of_nat off) k = map of_char (take k (drop off PREFIX))" "area (q + of_nat off) k \<subseteq> area q 9"
proof -
  have n: "m (q + of_nat (off + i)) = of_char (PREFIX ! (off + i))" if "i < k" for i
  proof -
    have "bytes_at m q 9 ! (off + i) = map of_char PREFIX ! (off + i)" using assms(1) by simp
    then show ?thesis using assms(2) that by (simp add: length_PREFIX)
  qed
  show "bytes_at m (q + of_nat off) k = map of_char (take k (drop off PREFIX))"
    using n assms(2) by (intro nth_equalityI) (simp_all add: length_PREFIX add.assoc)
  show "area (q + of_nat off) k \<subseteq> area q 9"
  proof
    fix x assume "x \<in> area (q + of_nat off) k"
    then have x: "unat (x - (q + of_nat off)) < k" by (simp add: area_def)
    have "x - q = (x - (q + of_nat off)) + of_nat off" by simp
    then have "unat (x - q) = unat (x - (q + of_nat off)) + off"
      using unat_add_of_nat[of "x - (q + of_nat off)" off] x assms(2) by simp
    then show "x \<in> area q 9" using x assms(2) by (simp add: area_def)
  qed
qed

text \<open>What the switch leaves for a prefix \<open>ps\<close>, digits \<open>ts\<close> and a precision \<open>P\<close>.\<close>

definition leaves :: "u64 \<Rightarrow> u64 \<Rightarrow> mem \<Rightarrow> u32 \<Rightarrow> bool \<Rightarrow> u8 list \<Rightarrow> u8 list \<Rightarrow> int \<Rightarrow> exit + field \<Rightarrow> mem \<Rightarrow> bool" where
  "leaves buf q m fl xp ps ts P r m' \<longleftrightarrow> (\<exists>a q' fl'. r = Inr (Field a (a + of_nat (length ts)) P q' (int (length ps)) fl') \<and>
     same (area buf 43) m m' \<and> bytes_at m' a (length ts) = ts \<and> area a (length ts) \<subseteq> area buf 43 \<and>
     bytes_at m' q' (length ps) = ps \<and> area q' (length ps) \<subseteq> area q 9 \<and>
     bit fl' 13 = bit fl 13 \<and> bit fl' 16 = (bit fl 16 \<and> \<not> bit fl 13 \<and> \<not> xp))"

lemma clear_bits: "bit (fl AND NOT ZERO_PAD) n \<longleftrightarrow> bit fl n \<and> n \<noteq> 16"
  using bit_imp_le_length[of fl n] by (auto simp: bit_and_iff bit_not_iff flag_bits)

lemma number_leaves:
  assumes L: "bytes_at m q 9 = map of_char PREFIX" "area q 9 \<inter> area buf 43 = {}"
    and ts: "length ts \<le> 43" "i = 0 \<longleftrightarrow> ts = []" and p: "xp \<Longrightarrow> 0 \<le> p" "p \<le> INT_MAX"
    and ps: "off + length ps \<le> 9" "ps = map of_char (take (length ps) (drop off PREFIX))"
    and fl: "bit fl1 13 = bit fl 13" "bit fl1 16 = (bit fl 16 \<and> \<not> bit fl 13)" and q': "q' = q + of_nat off"
    and a: "a = buf + BUF_SIZE - of_nat (length ts)"
  shows "leaves buf q m fl xp ps ts (int (length (num_body p ts)))
    (number_field i xp p q' (int (length ps)) fl1 a (buf + BUF_SIZE)) (put_bytes a ts m)"
proof -
  note B = buffer_text[OF ts(1), of buf, folded a]
  have n: "number_field i xp p q' (int (length ps)) fl1 a (buf + BUF_SIZE) =
      Inr (Field a (a + of_nat (length ts)) (int (length (num_body p ts))) q' (int (length ps)) (if xp then fl1 AND NOT ZERO_PAD else fl1))"
    unfolding body_length B(4) by (rule number_field_body) (use ts p in simp_all)
  have "bytes_at (put_bytes a ts m) q 9 = map of_char PREFIX" using bytes_at_same[OF B(1)[of m] L(2)] L(1) by simp
  note Q = prefix_bytes[OF this ps(1), folded q']
  show ?thesis unfolding leaves_def n
    by (intro exI conjI, rule refl, rule B, rule B, rule B, simp only: Q(1) ps(2)[symmetric], rule Q)
      (use fl in \<open>simp_all add: clear_bits\<close>)
qed

lemma unat_of_int_small: "0 \<le> k \<Longrightarrow> k < 2 ^ 64 \<Longrightarrow> unat (of_int k :: u64) = nat k"
  by (simp only: unsigned_of_int) (simp add: take_bit_int_eq_self)

lemma unat_abs: "unat (if sint i < 0 then - i else i) = nat \<bar>sint (i :: u64)\<bar>"
proof -
  have r: "- (2 ^ 63) \<le> sint i" "sint i < 2 ^ 63" using sint_ge[of i] sint_lt[of i] by simp_all
  have "(if sint i < 0 then - i else i) = of_int \<bar>sint i\<bar>" by simp
  then show ?thesis using r by (simp only:) (rule unat_of_int_small, auto)
qed

lemma pointer_prec_eq:
  assumes "- (2 ^ 31) \<le> p" "p \<le> INT_MAX"
  shows "pointer_prec p = (if p < 0 then p else max p 16)"
proof -
  have "uint (of_int p :: u64) = (if p < 0 then p + 2 ^ 64 else p)"
  proof (cases "p < 0")
    case True
    have "uint (of_int p :: u64) = (p + 2 ^ 64) mod 2 ^ 64" by (simp add: uint_word_of_int)
    also have "\<dots> = p + 2 ^ 64" by (rule mod_pos_pos_trivial) (use True assms in simp_all)
    finally show ?thesis using True by simp
  next
    case False
    then show ?thesis using assms by (simp add: uint_word_of_int INT_MAX_value)
  qed
  then show ?thesis using assms by (auto simp: pointer_prec_def word_less_def)
qed

lemma hex_leaves:
  assumes L: "bytes_at m q 9 = map of_char PREFIX" "area q 9 \<inter> area buf 43 = {}" and t: "t = ch CHR ''x'' \<or> t = ch CHR ''X''"
    and p: "xp \<Longrightarrow> 0 \<le> p" "p \<le> INT_MAX" and fl: "bit fl1 13 = bit fl 13" "bit fl1 16 = (bit fl 16 \<and> \<not> bit fl 13)"
    and ts: "ps = map of_char (if bit fl1 3 \<and> i \<noteq> 0 then if t = ch CHR ''x'' then ''0x'' else ''0X'' else [])"
      "ts = map (hex_char (t AND 32)) (digs 16 (unat i))"
  shows "\<exists>r m'. hex_field q (buf + BUF_SIZE) t i xp p fl1 m = (r, m') \<and> leaves buf q m fl xp ps ts (int (length (num_body p ts))) r m'"
proof -
  let ?z = "buf + BUF_SIZE"
  define off where "off = (if bit fl1 3 \<and> i \<noteq> 0 then if t = ch CHR ''x'' then 7 else 5 else 0 :: nat)"
  have i0: "i = 0 \<longleftrightarrow> unat i = 0" by (simp add: unat_eq_0)
  let ?c = "if i \<noteq> 0 \<and> fl1 AND ALT_FORM \<noteq> 0 then (q + ucast (drop_bit 4 t), 2) else (q, 0)"
  have c: "?c = (q + of_nat off, int (length ps))"
    unfolding flag_test using t by (elim disjE) (simp_all add: off_def ts(1))
  have "fmt_x i ?z (t AND 32) m = (?z - of_nat (length ts), put_bytes (?z - of_nat (length ts)) ts m)"
    unfolding fmt_x_digits ts(2) by simp
  then have e: "hex_field q ?z t i xp p fl1 m =
      (number_field i xp p (q + of_nat off) (int (length ps)) fl1 (?z - of_nat (length ts)) ?z, put_bytes (?z - of_nat (length ts)) ts m)"
    unfolding hex_field_def Let_def c by (simp only: prod.case)
  have o: "off + length ps \<le> 9" "ps = map of_char (take (length ps) (drop off PREFIX))"
    using t by (auto simp: off_def ts(1) PREFIX_def)
  have "leaves buf q m fl xp ps ts (int (length (num_body p ts)))
      (number_field i xp p (q + of_nat off) (int (length ps)) fl1 (?z - of_nat (length ts)) ?z) (put_bytes (?z - of_nat (length ts)) ts m)"
    by (rule number_leaves[OF L _ _ p o fl refl refl]) (use ts(2) i0 digs_buffer[of 16 i] in \<open>simp_all add: digs_Nil\<close>)
  with e show ?thesis by blast
qed

text \<open>The flags after \<open>-\<close> has cancelled \<open>0\<close>.\<close>

definition adjusted :: "u32 \<Rightarrow> u32" where
  "adjusted fl = (if fl AND LEFT_ADJ \<noteq> 0 then fl AND NOT ZERO_PAD else fl)"

lemma adjusted_bits:
  "bit (adjusted fl) 13 = bit fl 13" "bit (adjusted fl) 16 = (bit fl 16 \<and> \<not> bit fl 13)" "bit (adjusted fl) 3 = bit fl 3"
  "bit (adjusted fl) 11 = bit fl 11" "bit (adjusted fl) 0 = bit fl 0"
  by (auto simp: adjusted_def flag_test clear_bits)

text \<open>The cases for numbers leave the prefix and the digits of \<open>number_parts\<close>.\<close>

lemma convert_u:
  assumes t: "t = ch CHR ''u''" and L: "bytes_at (umem st) (lit PREFIX) 9 = map of_char PREFIX" "area (lit PREFIX) 9 \<inter> area buf 43 = {}"
    and p: "xp \<Longrightarrow> 0 \<le> p" "p \<le> INT_MAX" and N: "number_parts (bit fl 3) (bit fl 11) (bit fl 0) p t i = (ps, ts, P)"
  shows "\<exists>r m'. convert buf lit cnt ty t i xp p fl st = Ok (r, st\<lparr>umem := m'\<rparr>) \<and>
    leaves buf (lit PREFIX) (umem st) fl xp ps ts (int (length (num_body P ts))) r m'"
proof -
  let ?m = "umem st" and ?q = "lit PREFIX" and ?z = "buf + BUF_SIZE"
  have e: "convert buf lit cnt ty t i xp p fl st =
      (case fmt_u i ?z ?m of (a, m) \<Rightarrow> Ok (number_field i xp p ?q 0 (adjusted fl) a ?z, st\<lparr>umem := m\<rparr>))"
    using t unfolding convert_def Let_def adjusted_def[symmetric] by (simp split: prod.split)
  have ts: "ps = []" "ts = map digit_char (digs 10 (unat i))" "P = p" using N t by (simp_all add: number_parts_def)
  have "leaves buf ?q ?m fl xp ps ts (int (length (num_body P ts)))
      (number_field i xp p ?q (int (length ps)) (adjusted fl) (?z - of_nat (length ts)) ?z) (put_bytes (?z - of_nat (length ts)) ts ?m)"
    unfolding ts(3)
    by (rule number_leaves[OF L, where off = 0]) (use ts p adjusted_bits digs_buffer[of 10 i] in \<open>simp_all add: digs_Nil unat_eq_0\<close>)
  then show ?thesis unfolding e fmt_u_digits using ts by (intro exI) simp
qed

lemma convert_d:
  assumes t: "t = ch CHR ''d'' \<or> t = ch CHR ''i''" and L: "bytes_at (umem st) (lit PREFIX) 9 = map of_char PREFIX" "area (lit PREFIX) 9 \<inter> area buf 43 = {}"
    and p: "xp \<Longrightarrow> 0 \<le> p" "p \<le> INT_MAX" and N: "number_parts (bit fl 3) (bit fl 11) (bit fl 0) p t i = (ps, ts, P)"
  shows "\<exists>r m'. convert buf lit cnt ty t i xp p fl st = Ok (r, st\<lparr>umem := m'\<rparr>) \<and>
    leaves buf (lit PREFIX) (umem st) fl xp ps ts (int (length (num_body P ts))) r m'"
proof -
  let ?m = "umem st" and ?q = "lit PREFIX" and ?z = "buf + BUF_SIZE" and ?fl = "adjusted fl"
  define j where "j = (if sint i < 0 then - i else i)"
  define off where "off = (if sint i < 0 then 0 else if bit fl 11 then 1 else if bit fl 0 then 2 else 0 :: nat)"
  have ts: "ps = map of_char (if sint i < 0 then ''-'' else if bit fl 11 then ''+'' else if bit fl 0 then '' '' else [])"
    "ts = map digit_char (digs 10 (unat j))" "P = p" using N t by (auto simp: number_parts_def j_def unat_abs)
  let ?c = "if sint i < 0 then (- i, ?q, 1) else if ?fl AND MARK_POS \<noteq> 0 then (i, ?q + 1, 1)
    else if ?fl AND PAD_POS \<noteq> 0 then (i, ?q + 2, 1) else (i, ?q, 0)"
  have "convert buf lit cnt ty t i xp p fl st =
      (case ?c of (i, q, pl) \<Rightarrow> case fmt_u i ?z ?m of (a, m) \<Rightarrow> Ok (number_field i xp p q pl ?fl a ?z, st\<lparr>umem := m\<rparr>))"
    using t unfolding convert_def Let_def adjusted_def[symmetric] by (elim disjE) (simp_all split: prod.split)
  moreover have "?c = (j, ?q + of_nat off, int (length ps))" unfolding flag_test adjusted_bits by (simp add: ts(1) j_def off_def)
  ultimately have e: "convert buf lit cnt ty t i xp p fl st =
      (case fmt_u j ?z ?m of (a, m) \<Rightarrow> Ok (number_field j xp p (?q + of_nat off) (int (length ps)) ?fl a ?z, st\<lparr>umem := m\<rparr>))"
    by (simp only: prod.case)
  have "leaves buf ?q ?m fl xp ps ts (int (length (num_body P ts)))
      (number_field j xp p (?q + of_nat off) (int (length ps)) ?fl (?z - of_nat (length ts)) ?z) (put_bytes (?z - of_nat (length ts)) ts ?m)"
    unfolding ts(3)
    by (rule number_leaves[OF L, where off = off])
      (use ts(1,2) p adjusted_bits digs_buffer[of 10 j] in \<open>simp_all add: digs_Nil unat_eq_0 off_def PREFIX_def\<close>)
  then show ?thesis unfolding e fmt_u_digits using ts(2) by (intro exI) simp
qed

lemma convert_o:
  assumes t: "t = ch CHR ''o''" and L: "bytes_at (umem st) (lit PREFIX) 9 = map of_char PREFIX" "area (lit PREFIX) 9 \<inter> area buf 43 = {}"
    and p: "xp \<Longrightarrow> 0 \<le> p" "p \<le> INT_MAX" and N: "number_parts (bit fl 3) (bit fl 11) (bit fl 0) p t i = (ps, ts, P)"
  shows "\<exists>r m'. convert buf lit cnt ty t i xp p fl st = Ok (r, st\<lparr>umem := m'\<rparr>) \<and>
    leaves buf (lit PREFIX) (umem st) fl xp ps ts (int (length (num_body P ts))) r m'"
proof -
  let ?m = "umem st" and ?q = "lit PREFIX" and ?z = "buf + BUF_SIZE" and ?fl = "adjusted fl"
  define p1 where "p1 = (if ?fl AND ALT_FORM \<noteq> 0 \<and> p < int (length ts) + 1 then int (length ts) + 1 else p)"
  have ts: "ps = []" "ts = map digit_char (digs 8 (unat i))" "P = p1"
    using N t adjusted_bits[of fl] by (auto simp: number_parts_def p1_def flag_test Let_def max_def)
  have l: "length ts \<le> 22" using ts(2) digs_buffer[of 8 i] by simp
  have n: "sint (of_nat (length ts) :: u64) = int (length ts)" "wrap32 (int (length ts) + 1) = int (length ts) + 1"
    using l sint_of_nat_small[of "length ts"] wrap32_id[of "int (length ts) + 1"] by (simp_all add: INT_MAX_value)
  have "fmt_o i ?z ?m = (?z - of_nat (length ts), put_bytes (?z - of_nat (length ts)) ts ?m)" unfolding fmt_o_digits ts(2) by simp
  then have e: "convert buf lit cnt ty t i xp p fl st =
      Ok (number_field i xp p1 ?q 0 ?fl (?z - of_nat (length ts)) ?z, st\<lparr>umem := put_bytes (?z - of_nat (length ts)) ts ?m\<rparr>)"
    using t n unfolding convert_def Let_def adjusted_def[symmetric] p1_def by simp
  have "p1 \<le> INT_MAX" "xp \<Longrightarrow> 0 \<le> p1" using p l by (auto simp: p1_def INT_MAX_value)
  then have "leaves buf ?q ?m fl xp ps ts (int (length (num_body P ts)))
      (number_field i xp p1 ?q (int (length ps)) ?fl (?z - of_nat (length ts)) ?z) (put_bytes (?z - of_nat (length ts)) ts ?m)"
    unfolding ts(3)
    by (intro number_leaves[OF L, where off = 0]) (use ts adjusted_bits l in \<open>simp_all add: digs_Nil unat_eq_0\<close>)
  then show ?thesis unfolding e using ts(1) by (intro exI) simp
qed

lemma convert_p:
  assumes t: "t = ch CHR ''p''" and L: "bytes_at (umem st) (lit PREFIX) 9 = map of_char PREFIX" "area (lit PREFIX) 9 \<inter> area buf 43 = {}"
    and p: "xp \<Longrightarrow> 0 \<le> p" "p \<le> INT_MAX" "- (2 ^ 31) \<le> p" and N: "number_parts (bit fl 3) (bit fl 11) (bit fl 0) p t i = (ps, ts, P)"
  shows "\<exists>r m'. convert buf lit cnt ty t i xp p fl st = Ok (r, st\<lparr>umem := m'\<rparr>) \<and>
    leaves buf (lit PREFIX) (umem st) fl xp ps ts (int (length (num_body P ts))) r m'"
proof -
  let ?m = "umem st" and ?q = "lit PREFIX" and ?z = "buf + BUF_SIZE" and ?fl = "adjusted fl OR ALT_FORM"
  note pp = pointer_prec_eq[OF p(3,2)]
  have ts: "ps = map of_char (if i \<noteq> 0 then ''0x'' else [])" "ts = map (hex_char 32) (digs 16 (unat i))" "P = pointer_prec p"
    using N t pp by (auto simp: number_parts_def)
  have e: "convert buf lit cnt ty t i xp p fl st = (case hex_field ?q ?z (ch CHR ''x'') i xp P ?fl ?m of (r, m) \<Rightarrow> Ok (r, st\<lparr>umem := m\<rparr>))"
    using t unfolding convert_def Let_def adjusted_def[symmetric] ts(3) by simp
  have "\<exists>r m'. hex_field ?q ?z (ch CHR ''x'') i xp P ?fl ?m = (r, m') \<and> leaves buf ?q ?m fl xp ps ts (int (length (num_body P ts))) r m'"
  proof (rule hex_leaves[OF L])
    show "xp \<Longrightarrow> 0 \<le> P" "P \<le> INT_MAX" using p pp by (auto simp: ts(3) INT_MAX_value)
  qed (use adjusted_bits in \<open>simp_all add: ts(1,2) bit_or_iff flag_bits\<close>)
  with e show ?thesis by (elim exE conjE) (intro exI, simp)
qed

lemma convert_x:
  assumes t: "t = ch CHR ''x'' \<or> t = ch CHR ''X''" and L: "bytes_at (umem st) (lit PREFIX) 9 = map of_char PREFIX" "area (lit PREFIX) 9 \<inter> area buf 43 = {}"
    and p: "xp \<Longrightarrow> 0 \<le> p" "p \<le> INT_MAX" and N: "number_parts (bit fl 3) (bit fl 11) (bit fl 0) p t i = (ps, ts, P)"
  shows "\<exists>r m'. convert buf lit cnt ty t i xp p fl st = Ok (r, st\<lparr>umem := m'\<rparr>) \<and>
    leaves buf (lit PREFIX) (umem st) fl xp ps ts (int (length (num_body P ts))) r m'"
proof -
  let ?m = "umem st" and ?q = "lit PREFIX" and ?z = "buf + BUF_SIZE" and ?fl = "adjusted fl"
  have ts: "ps = map of_char (if bit ?fl 3 \<and> i \<noteq> 0 then if t = ch CHR ''x'' then ''0x'' else ''0X'' else [])"
    "ts = map (hex_char (t AND 32)) (digs 16 (unat i))" "P = p" using N t adjusted_bits(3)[of fl] by (auto simp: number_parts_def)
  have e: "convert buf lit cnt ty t i xp p fl st = (case hex_field ?q ?z t i xp P ?fl ?m of (r, m) \<Rightarrow> Ok (r, st\<lparr>umem := m\<rparr>))"
    using t unfolding convert_def Let_def adjusted_def[symmetric] ts(3) by (elim disjE) simp_all
  obtain r m' where "hex_field ?q ?z t i xp P ?fl ?m = (r, m')" "leaves buf ?q ?m fl xp ps ts (int (length (num_body P ts))) r m'"
    unfolding ts(3) using hex_leaves[OF L t p adjusted_bits(1,2) ts(1,2)] by blast
  with e show ?thesis by (intro exI[of _ r] exI[of _ m']) simp
qed

lemma convert_number:
  assumes t: "t \<in> set (map of_char ''diouxXp'')"
    and L: "bytes_at (umem st) (lit PREFIX) 9 = map of_char PREFIX" "area (lit PREFIX) 9 \<inter> area buf 43 = {}"
    and p: "xp \<Longrightarrow> 0 \<le> p" "p \<le> INT_MAX" "- (2 ^ 31) \<le> p" and N: "number_parts (bit fl 3) (bit fl 11) (bit fl 0) p t i = (ps, ts, P)"
  shows "\<exists>r m'. convert buf lit cnt ty t i xp p fl st = Ok (r, st\<lparr>umem := m'\<rparr>) \<and>
    leaves buf (lit PREFIX) (umem st) fl xp ps ts (int (length (num_body P ts))) r m'"
proof -
  consider "t = ch CHR ''d'' \<or> t = ch CHR ''i''" | "t = ch CHR ''u''" | "t = ch CHR ''o''" | "t = ch CHR ''p''"
    | "t = ch CHR ''x'' \<or> t = ch CHR ''X''" using t by auto
  then show ?thesis
  proof cases
    case 1 show ?thesis by (rule convert_d[where lit = lit, OF 1 L p(1,2) N])
  next
    case 2 show ?thesis by (rule convert_u[where lit = lit, OF 2 L p(1,2) N])
  next
    case 3 show ?thesis by (rule convert_o[where lit = lit, OF 3 L p(1,2) N])
  next
    case 4 show ?thesis by (rule convert_p[where lit = lit, OF 4 L p N])
  next
    case 5 show ?thesis by (rule convert_x[where lit = lit, OF 5 L p(1,2) N])
  qed
qed

section \<open>Formats\<close>

text \<open>A number in a directive is written out or it is an argument; a format is made of text with percent signs
  behind it, and of directives: flags, width, precision, letters for the length, conversion.\<close>

datatype num = Digs "nat list" | Star

datatype piece = Txt "u8 list" nat | Dir "u8 list" num "num option" "u8 list" u8

fun num_text :: "num \<Rightarrow> u8 list" where
  "num_text (Digs ds) = map digit_char ds"
| "num_text Star = [ch CHR ''*'']"

fun prec_text :: "num option \<Rightarrow> u8 list" where
  "prec_text None = []"
| "prec_text (Some n) = ch CHR ''.'' # num_text n"

fun piece_text :: "piece \<Rightarrow> u8 list" where
  "piece_text (Txt xs n) = xs @ replicate (2 * n) (ch CHR ''%'')"
| "piece_text (Dir fs w p ls c) = ch CHR ''%'' # fs @ num_text w @ prec_text p @ ls @ [c]"

definition len_type :: "u8 list \<Rightarrow> pf_type option" where
  "len_type ls = map_of [([], BARE), (map of_char ''l'', LPRE), (map of_char ''ll'', LLPRE), (map of_char ''h'', HPRE),
     (map of_char ''hh'', HHPRE), (map of_char ''j'', JPRE), (map of_char ''z'', ZTPRE), (map of_char ''t'', ZTPRE)] ls"

fun num_ok :: "num \<Rightarrow> bool" where
  "num_ok (Digs ds) \<longleftrightarrow> (\<forall>d \<in> set ds. d < 10) \<and> int (undigits 10 ds) \<le> INT_MAX"
| "num_ok Star \<longleftrightarrow> True"

text \<open>A width does not begin with 0, which would be a flag.\<close>

fun piece_ok :: "piece \<Rightarrow> bool" where
  "piece_ok (Txt xs n) \<longleftrightarrow> 0 \<notin> set xs \<and> ch CHR ''%'' \<notin> set xs \<and> (xs \<noteq> [] \<or> 0 < n)"
| "piece_ok (Dir fs w p ls c) \<longleftrightarrow> (\<forall>x \<in> set fs. is_flag x) \<and> num_ok w \<and> w \<notin> Digs ` {ds. ds \<noteq> [] \<and> hd ds = 0} \<and>
     (case p of None \<Rightarrow> True | Some n \<Rightarrow> num_ok n) \<and>
     (c \<in> set (map of_char ''diouxX'') \<and> len_type ls \<noteq> None \<or> c \<in> set (map of_char ''csp'') \<and> ls = [])"

section \<open>Reading a directive\<close>

definition stands :: "mem \<Rightarrow> u64 \<Rightarrow> u8 list \<Rightarrow> bool" where "stands m s xs \<longleftrightarrow> bytes_at m s (length xs) = xs"

lemma stands_Nil [simp]: "stands m s []"
  by (simp add: stands_def bytes_at_done)

lemma stands_Cons [simp]: "stands m s (x # xs) \<longleftrightarrow> m s = x \<and> stands m (s + 1) xs"
  by (simp add: stands_def bytes_at_Suc)

lemma stands_append [simp]: "stands m s (xs @ ys) \<longleftrightarrow> stands m s xs \<and> stands m (s + of_nat (length xs)) ys"
  by (auto simp: stands_def bytes_at_append)

lemma read_flags_at:
  "stands m s fs \<Longrightarrow> \<forall>x \<in> set fs. is_flag x \<Longrightarrow> \<not> is_flag (m (s + of_nat (length fs))) \<Longrightarrow>
   read_flags m fl s = Some (fold (\<lambda>x fl. fl OR flag_bit x) fs fl, s + of_nat (length fs))"
proof (induction fs arbitrary: s fl)
  case (Cons x fs)
  then show ?case by (subst read_flags.simps) (simp add: add.assoc)
qed (simp add: read_flags.simps)

lemma digit_char_facts:
  assumes "d < 10"
  shows "cdigit (digit_char d)" "sint (digit_char d) = 48 + int d" "\<not> is_flag (digit_char d) \<or> d = 0" "digit_char d \<noteq> ch CHR ''*''"
    "digit_char d \<noteq> ch CHR ''%''"
proof -
  have "d = 0 \<or> d = 1 \<or> d = 2 \<or> d = 3 \<or> d = 4 \<or> d = 5 \<or> d = 6 \<or> d = 7 \<or> d = 8 \<or> d = 9" using assms by presburger
  then show "cdigit (digit_char d)" "sint (digit_char d) = 48 + int d" "\<not> is_flag (digit_char d) \<or> d = 0" "digit_char d \<noteq> ch CHR ''*''"
    "digit_char d \<noteq> ch CHR ''%''"
    by (elim disjE; simp add: digit_char_def cdigit_def isdigit_def is_flag_def flag_bit_def FLAGMASK_def ALT_FORM_def ZERO_PAD_def
        LEFT_ADJ_def PAD_POS_def MARK_POS_def GROUPED_def)+
qed

lemma undigits_mono: "i \<le> foldl (\<lambda>v d. v * 10 + d) i (ds :: nat list)"
proof (induction ds arbitrary: i)
  case (Cons d ds)
  then have "i * 10 + d \<le> foldl (\<lambda>v d. v * 10 + d) i (d # ds)" by simp
  then show ?case by (simp add: order_trans[rotated])
qed simp

lemma getint_at:
  "stands m s (map digit_char ds) \<Longrightarrow> \<forall>d \<in> set ds. d < 10 \<Longrightarrow> \<not> cdigit (m (s + of_nat (length ds))) \<Longrightarrow>
   int (foldl (\<lambda>v d. v * 10 + d) i ds) \<le> INT_MAX \<Longrightarrow>
   getint m (int i) s = Some (int (foldl (\<lambda>v d. v * 10 + d) i ds), s + of_nat (length ds))"
proof (induction ds arbitrary: s i)
  case Nil
  then show ?case by (simp add: getint.simps)
next
  case (Cons d ds)
  note D = digit_char_facts[of d]
  have "int (i * 10 + d) \<le> INT_MAX" using undigits_mono[of "i * 10 + d" ds] Cons.prems(4) by simp
  then have b: "\<not> int i > INT_MAX div 10" "\<not> sint (digit_char d) - 48 > INT_MAX - 10 * int i"
    using D(2) Cons.prems(2) by (simp_all add: INT_MAX_value)
  have "getint m (int i) s = getint m (10 * int i + (sint (digit_char d) - 48)) (s + 1)"
    using Cons.prems(1,2) D(1) b by (subst getint.simps) simp
  also have "\<dots> = getint m (int (i * 10 + d)) (s + 1)" using D(2) Cons.prems(2) by (simp add: mult.commute)
  finally show ?case using Cons.IH[of "s + 1" "i * 10 + d"] Cons.prems by (simp add: add.assoc)
qed

definition letter :: "u8 \<Rightarrow> bool" where "letter x \<longleftrightarrow> x \<in> set (map of_char ''diouxXcsplhjzt'')"

lemma letter_facts: "letter x \<Longrightarrow> \<not> cdigit x \<and> \<not> is_flag x \<and> x \<noteq> ch CHR ''*'' \<and> x \<noteq> ch CHR ''.'' \<and> x \<noteq> ch CHR ''$'' \<and> x \<noteq> ch CHR ''%'' \<and> \<not> OOB x"
  unfolding letter_def
  by (simp, elim disjE; simp add: cdigit_def isdigit_def is_flag_def flag_bit_def FLAGMASK_def ALT_FORM_def ZERO_PAD_def
      LEFT_ADJ_def PAD_POS_def MARK_POS_def GROUPED_def OOB_def)

lemma flag_char_facts: "is_flag x \<Longrightarrow> x \<noteq> ch CHR ''$'' \<and> x \<noteq> ch CHR ''%''"
  by (auto simp: is_flag_def flag_bit_def FLAGMASK_def ALT_FORM_def ZERO_PAD_def LEFT_ADJ_def PAD_POS_def MARK_POS_def GROUPED_def)

fun num_val :: "bool \<Rightarrow> (nat \<Rightarrow> u64) \<Rightarrow> nat \<Rightarrow> num \<Rightarrow> int" where
  "num_val f ap k (Digs ds) = int (undigits 10 ds)"
| "num_val f ap k Star = (if f then va_int (ap k) else 0)"

definition star :: "bool \<Rightarrow> num \<Rightarrow> nat" where "star f n = (if f \<and> n = Star then 1 else 0)"

lemma read_star_next:
  assumes "\<not> cdigit (m (s + 1))" "\<not> pf_l10n v"
  shows "read_star l10n f ap m s v = Ok (Inr (num_val f ap (pf_k v) Star, v\<lparr>pf_k := pf_k v + star f Star, pf_s := s + 1\<rparr>))"
  using assms by (simp add: read_star_def star_def)

lemma getint_num:
  assumes "stands m s (map digit_char ds @ [x])" "num_ok (Digs ds)" "\<not> cdigit x"
  shows "getint m 0 s = Some (num_val f ap k (Digs ds), s + of_nat (length ds))"
  using getint_at[of m s ds 0] assms by simp

lemma read_width_at:
  assumes "stands m (pf_s v) (num_text w @ [x])" "num_ok w" "\<not> cdigit x" "x \<noteq> ch CHR ''*''" "\<not> pf_l10n v"
    and W_def: "W = num_val f ap (pf_k v) w"
  shows "read_width f ap m fl v = Ok (Inr (if W < 0 then wrap32 (- W) else W, if W < 0 then fl OR LEFT_ADJ else fl,
    v\<lparr>pf_s := pf_s v + of_nat (length (num_text w)), pf_k := pf_k v + star f w\<rparr>))"
proof (cases w)
  case (Digs ds)
  have "m (pf_s v) \<noteq> ch CHR ''*''"
  proof (cases ds)
    case Nil
    then show ?thesis using assms(1,4) Digs by simp
  next
    case (Cons d ds')
    then show ?thesis using assms(1,2) Digs digit_char_facts(4)[of d] by simp
  qed
  moreover have "getint m 0 (pf_s v) = Some (W, pf_s v + of_nat (length ds))"
    unfolding W_def Digs by (rule getint_num[where x = x]) (use assms Digs in simp_all)
  ultimately show ?thesis using Digs by (simp add: read_width_def bind_pf_def scanned_def W_def star_def)
next
  case Star
  then have "m (pf_s v) = ch CHR ''*''" "\<not> cdigit (m (pf_s v + 1))" using assms(1,3) by simp_all
  then show ?thesis using read_star_next[OF _ assms(5), where m = m and s = "pf_s v"] Star
    by (simp add: read_width_def bind_pf_def W_def)
qed

fun prec_val :: "bool \<Rightarrow> (nat \<Rightarrow> u64) \<Rightarrow> nat \<Rightarrow> num option \<Rightarrow> int" where
  "prec_val f ap k None = - 1"
| "prec_val f ap k (Some n) = num_val f ap k n"

definition pstar :: "bool \<Rightarrow> num option \<Rightarrow> nat" where "pstar f p = (case p of None \<Rightarrow> 0 | Some n \<Rightarrow> star f n)"

lemma read_prec_at:
  assumes "stands m (pf_s v) (prec_text p @ [x])" "\<forall>n. p = Some n \<longrightarrow> num_ok n" "letter x" "\<not> pf_l10n v"
    and P_def: "P = prec_val f ap (pf_k v) p"
  shows "read_prec f ap m v = Ok (Inr (P, 0 \<le> P,
    v\<lparr>pf_s := pf_s v + of_nat (length (prec_text p)), pf_k := pf_k v + pstar f p\<rparr>))"
proof (cases p)
  case None
  then show ?thesis using assms(1) letter_facts[OF assms(3)] by (simp add: read_prec_def P_def pstar_def)
next
  case (Some n)
  show ?thesis
  proof (cases n)
    case (Digs ds)
    have "m (pf_s v + 1) \<noteq> ch CHR ''*''"
    proof (cases ds)
      case Nil
      then show ?thesis using assms(1) letter_facts[OF assms(3)] Some Digs by simp
    next
      case (Cons d ds')
      then show ?thesis using assms(1,2) Some Digs digit_char_facts(4)[of d] by simp
    qed
    moreover have "m (pf_s v) = ch CHR ''.''" using assms(1) Some by simp
    moreover have "getint m 0 (pf_s v + 1) = Some (P, pf_s v + 1 + of_nat (length ds))"
      unfolding P_def Some Digs prec_val.simps by (rule getint_num[where x = x]) (use assms(1,2) letter_facts[OF assms(3)] Some Digs in \<open>simp_all add: add.assoc\<close>)
    moreover have "0 \<le> P" by (simp add: P_def Some Digs)
    ultimately show ?thesis using Some Digs by (simp add: read_prec_def bind_pf_def scanned_def pstar_def star_def add.assoc)
  next
    case Star
    then have "m (pf_s v) = ch CHR ''.''" "m (pf_s v + 1) = ch CHR ''*''" "\<not> cdigit (m (pf_s v + 1 + 1))"
      using assms(1) letter_facts[OF assms(3)] Some by (simp_all add: add.assoc)
    then show ?thesis using read_star_next[OF _ assms(4), where m = m and s = "pf_s v + 1"] Some Star
      by (simp add: read_prec_def bind_pf_def P_def pstar_def add.assoc)
  qed
qed

text \<open>The value an argument stands for.\<close>

fun len_bits :: "pf_type \<Rightarrow> nat" where
  "len_bits BARE = 32"
| "len_bits HPRE = 16"
| "len_bits HHPRE = 8"
| "len_bits _ = 64"

definition arg_value :: "pf_type \<Rightarrow> u8 \<Rightarrow> u64 \<Rightarrow> u64" where
  "arg_value ps c x =
     (if c = ch CHR ''d'' \<or> c = ch CHR ''i'' then of_int (signed_take_bit (len_bits ps - 1) (uint x))
      else if c = ch CHR ''c'' then of_int (signed_take_bit 7 (uint x))
      else if c = ch CHR ''s'' \<or> c = ch CHR ''p'' then x
      else of_int (take_bit (len_bits ps) (uint x)))"

lemma pop_values:
  "pop_arg INT_T x = Some (of_int (signed_take_bit 31 (uint x)))" "pop_arg SHORT x = Some (of_int (signed_take_bit 15 (uint x)))"
  "pop_arg CHAR_T x = Some (of_int (signed_take_bit 7 (uint x)))" "pop_arg UINT x = Some (of_int (take_bit 32 (uint x)))"
  "pop_arg USHORT x = Some (of_int (take_bit 16 (uint x)))" "pop_arg UCHAR x = Some (of_int (take_bit 8 (uint x)))"
  "x = of_int (signed_take_bit 63 (uint x))" "x = of_int (take_bit 64 (uint x))"
  subgoal unfolding pop_arg.simps scast_eq signed_ucast_eq by (simp only: len_bit0 len_num1) simp
  subgoal unfolding pop_arg.simps scast_eq signed_ucast_eq by (simp only: len_bit0 len_num1) simp
  subgoal unfolding pop_arg.simps scast_eq signed_ucast_eq by (simp only: len_bit0 len_num1) simp
  subgoal unfolding pop_arg.simps option.inject by (rule bit_word_eqI) (auto simp: bit_ucast_iff bit_word_of_int_iff bit_take_bit_iff bit_uint_iff)
  subgoal unfolding pop_arg.simps option.inject by (rule bit_word_eqI) (auto simp: bit_ucast_iff bit_word_of_int_iff bit_take_bit_iff bit_uint_iff)
  subgoal unfolding pop_arg.simps option.inject by (rule bit_word_eqI) (auto simp: bit_ucast_iff bit_word_of_int_iff bit_take_bit_iff bit_uint_iff)
  subgoal using sint_uint[of x] scast_eq[of x, where 'a = 64] by (simp add: scast_id)
  subgoal using uint_lt2p[of x] by (simp add: take_bit_int_eq_self)
  done

text \<open>The conversions of the specification, each with the type of its argument.\<close>

definition conv_ok :: "pf_type \<Rightarrow> u8 \<Rightarrow> bool" where
  "conv_ok ps c \<longleftrightarrow> c \<in> set (map of_char ''diouxX'') \<and> ps \<in> {BARE, LPRE, LLPRE, HPRE, HHPRE, JPRE, ZTPRE} \<or> c \<in> set (map of_char ''csp'') \<and> ps = BARE"

lemma conv_type:
  assumes "conv_ok ps c"
  shows "pop_arg (states ps c) x = Some (arg_value ps c x)" "\<not> is_prefix (states ps c)" "states ps c \<noteq> BARE" "states ps c \<noteq> NOARG"
    "letter c"
proof -
  have "pop_arg (states ps c) x = Some (arg_value ps c x) \<and> \<not> is_prefix (states ps c) \<and> states ps c \<noteq> BARE \<and> states ps c \<noteq> NOARG \<and> letter c"
    using assms pop_values(7,8)[of x, symmetric] unfolding conv_ok_def
    by (simp, elim disjE conjE; simp add: states_def is_prefix_def arg_value_def letter_def pop_values del: pop_arg.simps(2,3,7,8,9,10))
  then show "pop_arg (states ps c) x = Some (arg_value ps c x)" "\<not> is_prefix (states ps c)" "states ps c \<noteq> BARE" "states ps c \<noteq> NOARG"
    "letter c" by blast+
qed

lemma len_type_cases:
  assumes "len_type ls = Some ps"
  shows "ps \<in> {BARE, LPRE, LLPRE, HPRE, HHPRE, JPRE, ZTPRE} \<and> (\<forall>x \<in> set ls. letter x) \<and>
    (stands m s ls \<longrightarrow> spec_loop m BARE s = spec_loop m ps (s + of_nat (length ls)))"
proof -
  have "(ls, ps) \<in> set [([], BARE), (map of_char ''l'', LPRE), (map of_char ''ll'', LLPRE), (map of_char ''h'', HPRE),
     (map of_char ''hh'', HHPRE), (map of_char ''j'', JPRE), (map of_char ''z'', ZTPRE), (map of_char ''t'', ZTPRE)]"
    using assms unfolding len_type_def by (rule map_of_SomeD)
  then show ?thesis
    by (simp, elim disjE conjE;
        simp add: letter_def spec_loop.simps[of m _ s] spec_loop.simps[of m _ "s + 1"] OOB_def states_def is_prefix_def add.commute[of s 2])
qed

lemma read_spec_at:
  assumes "stands m (pf_s v) (ls @ [c])" "len_type ls = Some ps" "conv_ok ps c"
  shows "read_spec m v = Ok (Inr (states ps c, ps, v\<lparr>pf_s := pf_s v + of_nat (length ls) + 1\<rparr>))"
proof -
  note C = conv_type[OF assms(3)]
  have c: "m (pf_s v + of_nat (length ls)) = c" "\<not> OOB c" using assms(1) letter_facts[OF C(5)] by simp_all
  have "spec_loop m BARE (pf_s v) = spec_loop m ps (pf_s v + of_nat (length ls))" using len_type_cases[OF assms(2)] assms(1) by simp
  also have "\<dots> = Some (states ps c, ps, pf_s v + of_nat (length ls) + 1)" using c C(2) by (subst spec_loop.simps) simp
  finally show ?thesis using C(3) by (simp add: read_spec_def)
qed

end
