(* ===== verification/Vfprintf_Spec.thy ===== *)
theory Vfprintf_Spec
  imports Format_Spec
begin

text \<open>
  The text of a format with its arguments (\<open>format_out\<close>), piece by piece, and the proof that \<open>vfprintf\<close> ends and writes
  this text to every stream that keeps the contract \<open>sink\<close> of the theory \<open>Format_Spec\<close> (\<open>vfprintf_gives\<close>).
\<close>

section \<open>A directive is read\<close>

lemma other_char_facts:
  "\<not> is_flag (ch CHR ''.'')" "\<not> is_flag (ch CHR ''*'')" "\<not> cdigit (ch CHR ''.'')" "\<not> cdigit (ch CHR ''*'')"
  by (simp_all add: cdigit_def isdigit_def is_flag_def flag_bit_def FLAGMASK_def ALT_FORM_def ZERO_PAD_def
      LEFT_ADJ_def PAD_POS_def MARK_POS_def GROUPED_def)

text \<open>The parts of a directive begin with characters that end the part before.\<close>

lemma dir_parts:
  assumes ok: "piece_ok (Dir fs w p ls c)" and ps: "len_type ls = Some ps" "conv_ok ps c"
  obtains y ys x xs u us where "ls @ [c] = y # ys" "letter y" "prec_text p @ ls @ [c] = x # xs" "\<not> cdigit x" "x \<noteq> ch CHR ''*''"
    "num_text w @ prec_text p @ ls @ [c] = u # us" "\<not> is_flag u" "u \<noteq> ch CHR ''%''"
    "\<forall>x \<in> set (fs @ num_text w @ prec_text p @ ls @ [c]). x \<noteq> ch CHR ''$''"
    "x \<noteq> ch CHR ''%''"
proof -
  have l: "\<forall>x \<in> set (ls @ [c]). letter x" using len_type_cases[OF ps(1)] conv_type(5)[OF ps(2)] by simp
  obtain y ys where y: "ls @ [c] = y # ys" by (cases "ls @ [c]") auto
  have ly: "letter y" using l y by simp
  note L = letter_facts[OF ly]
  obtain x xs where x: "prec_text p @ ls @ [c] = x # xs" "x = ch CHR ''.'' \<or> x = y"
    using y by (cases p) auto
  have fx: "\<not> cdigit x" "x \<noteq> ch CHR ''*''" "\<not> is_flag x" "x \<noteq> ch CHR ''%''" using x(2) L other_char_facts by auto
  have dg: "d \<in> set ds \<Longrightarrow> d < 10" if "w = Digs ds \<or> p = Some (Digs ds)" for d ds using ok that by auto
  obtain u us where u: "num_text w @ prec_text p @ ls @ [c] = u # us" "\<not> is_flag u \<and> u \<noteq> ch CHR ''%''"
  proof (cases w)
    case (Digs ds)
    show thesis
    proof (cases ds)
      case Nil
      then show thesis using that[of x xs] x(1) fx Digs by simp
    next
      case (Cons d ds')
      have "d \<noteq> 0" using ok Digs Cons by auto
      moreover have "d < 10" using dg[of ds d] Digs Cons by simp
      ultimately show thesis using that[of "digit_char d"] digit_char_facts(3,5)[of d] Digs Cons by simp
    qed
  next
    case Star
    then show thesis using that other_char_facts by simp
  qed
  have nd: "\<forall>x \<in> set (num_text n). x \<noteq> ch CHR ''$''" if "w = n \<or> p = Some n" for n
  proof (cases n)
    case (Digs ds)
    have "digit_char d \<noteq> ch CHR ''$''" if "d \<in> set ds" for d
    proof -
      have "d < 10" using dg[of ds d] that \<open>w = n \<or> p = Some n\<close> Digs by auto
      then show ?thesis using digit_char_facts(2)[of d] by auto
    qed
    then show ?thesis using Digs by auto
  qed simp
  have nw: "\<forall>x \<in> set (num_text w). x \<noteq> ch CHR ''$''" using nd by blast
  have np: "\<forall>x \<in> set (prec_text p). x \<noteq> ch CHR ''$''" using nd by (cases p) auto
  have nf: "\<forall>x \<in> set fs. x \<noteq> ch CHR ''$''" using ok flag_char_facts by auto
  have nl: "\<forall>x \<in> set (ls @ [c]). x \<noteq> ch CHR ''$''" using l letter_facts by blast
  have "\<forall>x \<in> set (fs @ num_text w @ prec_text p @ ls @ [c]). x \<noteq> ch CHR ''$''"
    using nw np nf nl by (simp only: set_append ball_Un simp_thms)
  with that[OF y ly x(1) fx(1,2) u(1)] u(2) fx(4) show thesis by blast
qed

lemma no_position:
  assumes "piece_ok (Dir fs w p ls c)" "len_type ls = Some ps" "conv_ok ps c" "stands m s (piece_text (Dir fs w p ls c))"
  shows "\<not> (cdigit (m (s + 1)) \<and> m (s + 2) = ch CHR ''$'')"
proof -
  let ?t = "fs @ num_text w @ prec_text p @ ls @ [c]"
  have ne: "\<forall>x \<in> set ?t. x \<noteq> ch CHR ''$''" by (rule dir_parts[OF assms(1-3)])
  obtain z zs where z: "?t = z # zs" by (cases ?t) auto
  have st: "stands m (s + 1) ?t" using assms(4) by simp
  then have m1: "m (s + 1) = z" unfolding z by simp
  show ?thesis
  proof (cases zs)
    case Nil
    then have "z = c" using z by (metis append_is_Nil_conv append_self_conv2 last.simps last_appendR not_Cons_self2)
    then show ?thesis using m1 letter_facts[OF conv_type(5)[OF assms(3)]] by simp
  next
    case (Cons z' zs')
    then have "m (s + 2) = z'" using st unfolding z by (simp add: add.assoc)
    moreover have "z' \<in> set ?t" unfolding z Cons by simp
    ultimately show ?thesis using ne by blast
  qed
qed

text \<open>The result of reading a directive: the field is printed, or, without a stream, the function returns.\<close>

lemma directive_reads:
  assumes ok: "piece_ok (Dir fs w p ls c)" and ps: "len_type ls = Some ps" "conv_ok ps c"
    and at: "stands (umem st) (pf_s v) (piece_text (Dir fs w p ls c))" and l: "\<not> pf_l10n v"
    and fl: "fl = fold (\<lambda>x fl. fl OR flag_bit x) fs 0"
    and W: "W = num_val (f \<noteq> None) ap (pf_k v) w" and P: "P = prec_val (f \<noteq> None) ap (pf_k v + star (f \<noteq> None) w) p"
    and v': "v' = v\<lparr>pf_s := pf_s v + of_nat (length (piece_text (Dir fs w p ls c))), pf_k := pf_k v + star (f \<noteq> None) w + pstar (f \<noteq> None) p\<rparr>"
  shows "directive f buf pb lit ap v st = (case f of None \<Rightarrow> Stop Ret0 v' st
    | Some g \<Rightarrow> print_field g buf pb lit (if W < 0 then wrap32 (- W) else W) ps c (arg_value ps c (ap (pf_k v'))) (0 \<le> P) P
        (if W < 0 then fl OR LEFT_ADJ else fl) (v'\<lparr>pf_k := pf_k v' + 1\<rparr>) st)"
proof -
  let ?b = "f \<noteq> None" and ?m = "umem st" and ?s = "pf_s v + 1"
  let ?s1 = "?s + of_nat (length fs)"
  let ?s2 = "?s1 + of_nat (length (num_text w))"
  let ?s3 = "?s2 + of_nat (length (prec_text p))"
  let ?fl = "if W < 0 then fl OR LEFT_ADJ else fl"
  obtain y ys x xs u us where y: "ls @ [c] = y # ys" "letter y" and x: "prec_text p @ ls @ [c] = x # xs" "\<not> cdigit x" "x \<noteq> ch CHR ''*''"
    and u: "num_text w @ prec_text p @ ls @ [c] = u # us" "\<not> is_flag u" by (rule dir_parts[OF ok ps])
  have st: "stands ?m ?s fs" "stands ?m ?s1 (u # us)" "stands ?m ?s1 (num_text w)" "stands ?m ?s2 (x # xs)"
    "stands ?m ?s2 (prec_text p)" "stands ?m ?s3 (ls @ [c])"
    using at unfolding u(1)[symmetric] x(1)[symmetric] by (simp_all add: add.assoc)
  have a: "read_argpos ?m v = (None, v\<lparr>pf_s := ?s\<rparr>)" using no_position[OF ok ps at] by (auto simp: read_argpos_def)
  have f: "read_flags ?m 0 ?s = Some (fl, ?s1)" unfolding fl by (rule read_flags_at) (use st ok u(2) in simp_all)
  let ?v1 = "v\<lparr>pf_s := ?s1\<rparr>"
  let ?v2 = "v\<lparr>pf_s := ?s2, pf_k := pf_k v + star ?b w\<rparr>"
  let ?v3 = "v\<lparr>pf_s := ?s3, pf_k := pf_k v + star ?b w + pstar ?b p\<rparr>"
  have w: "read_width ?b ap ?m fl ?v1 = Ok (Inr (if W < 0 then wrap32 (- W) else W, ?fl, ?v2))"
    using read_width_at[of ?m ?v1 w x W ?b ap fl] st(3,4) ok x l W by simp
  have q: "read_prec ?b ap ?m ?v2 = Ok (Inr (P, 0 \<le> P, ?v3))"
  proof -
    have "stands ?m (pf_s ?v2) (prec_text p @ [y])" using st(5,6) unfolding y(1) by simp
    then show ?thesis using read_prec_at[of ?m ?v2 p y P ?b ap] ok l P y(2) by (auto split: option.splits)
  qed
  have n: "pf_s v + of_nat (length (piece_text (Dir fs w p ls c))) = ?s3 + of_nat (length ls) + 1" by (simp add: algebra_simps)
  have s: "read_spec ?m ?v3 = Ok (Inr (states ps c, ps, v'))"
    using read_spec_at[of ?m ?v3 ls c ps] st(6) ps unfolding v' n by simp
  have e: "pf_s v' - 1 = ?s3 + of_nat (length ls)" unfolding v' n by simp
  have m: "?m (pf_s v' - 1) = c" unfolding e using st(6) by simp
  note C = conv_type[OF ps(2)]
  show ?thesis
  proof (cases f)
    case None
    then show ?thesis using a f w q s C(4)
      by (simp add: directive_def step_bind_def scanned_def fetch_arg_def)
  next
    case (Some g)
    have fa: "fetch_arg ?b ap (states ps c) None v' = Ok (Inr (arg_value ps c (ap (pf_k v')), v'\<lparr>pf_k := pf_k v' + 1\<rparr>))"
      using C(1,4) Some by (simp add: fetch_arg_def)
    show ?thesis using a f w q s fa m
      by (simp add: directive_def step_bind_def scanned_def Some)
  qed
qed

section \<open>Fields\<close>

lemma fold_flag_bits:
  "\<forall>x \<in> set fs. is_flag x \<Longrightarrow> n < 32 \<Longrightarrow> bit (fold (\<lambda>x fl. fl OR flag_bit x) fs fl) n \<longleftrightarrow> bit fl n \<or> of_nat n + 32 \<in> set fs"
proof (induction fs arbitrary: fl)
  case (Cons x fs)
  have n: "unat (of_nat n :: u8) = n" using Cons.prems(2) by (simp add: unat_of_nat_small)
  have "x \<ge> 32 \<and> x < 64" using Cons.prems(1) by (simp add: is_flag_def)
  then have r: "unat (x - 32) < 32"
    using unat_sub_le[of 32 x] by (simp only: word_le_nat_alt word_less_nat_alt) (simp, arith)
  have "unat (x - 32) = n \<longleftrightarrow> x - 32 = of_nat n" using n by (metis word_unat_eq_iff)
  also have "\<dots> \<longleftrightarrow> of_nat n + 32 = x" by (auto simp: algebra_simps)
  finally have e: "unat (x - 32) = n \<longleftrightarrow> of_nat n + 32 = x" .
  have "bit (flag_bit x) n \<longleftrightarrow> unat (x - 32) = n"
    using Cons.prems(2) unfolding flag_bit_def by (simp only: bit_push_bit_iff bit_1_iff) auto
  then show ?case using Cons.IH[of "fl OR flag_bit x"] Cons.prems e by (auto simp: bit_or_iff)
qed simp

definition ready :: "u64 set \<Rightarrow> u32 \<Rightarrow> bool \<Rightarrow> u8 list \<Rightarrow> u8 list \<Rightarrow> int \<Rightarrow> exit + field \<Rightarrow> mem \<Rightarrow> bool" where
  "ready A fl zero ps ts P r m \<longleftrightarrow> (\<exists>a q fl'. r = Inr (Field a (a + of_nat (length ts)) P q (int (length ps)) fl') \<and>
     bytes_at m a (length ts) = ts \<and> area a (length ts) \<inter> A = {} \<and> bytes_at m q (length ps) = ps \<and> area q (length ps) \<inter> A = {} \<and>
     bit fl' 13 = bit fl 13 \<and> bit fl' 16 = zero)"

lemma leaves_ready:
  assumes "leaves buf q m fl xp ps ts P r m'" "area buf 43 \<inter> A = {}" "area q 9 \<inter> A = {}"
  shows "ready A fl (bit fl 16 \<and> \<not> bit fl 13 \<and> \<not> xp) ps ts P r m'" "same (area buf 43) m m'"
  using assms unfolding leaves_def ready_def by blast+

lemma convert_char:
  assumes "p \<le> INT_MAX"
  shows "\<exists>r m'. convert buf lit cnt BARE (ch CHR ''c'') i xp p fl st = Ok (r, st\<lparr>umem := m'\<rparr>) \<and>
    leaves buf (lit PREFIX) (umem st) fl True [] [ucast i] 1 r m'"
proof -
  let ?fl = "if fl AND LEFT_ADJ \<noteq> 0 then fl AND NOT ZERO_PAD else fl" and ?a = "buf + BUF_SIZE - 1"
  have "put_bytes ?a [ucast i] (umem st) = (umem st)(?a := ucast i)"
    by (rule ext) (simp add: put_bytes_def unat_eq_0)
  then have e: "convert buf lit cnt BARE (ch CHR ''c'') i xp p fl st =
      Ok (Inr (Field ?a (buf + BUF_SIZE) 1 (lit PREFIX) 0 (?fl AND NOT ZERO_PAD)), st\<lparr>umem := put_bytes ?a [ucast i] (umem st)\<rparr>)"
    unfolding convert_def Let_def by simp
  note B = buffer_text[of "[ucast i]" buf, simplified]
  have "leaves buf (lit PREFIX) (umem st) fl True [] [ucast i] 1
      (Inr (Field ?a (buf + BUF_SIZE) 1 (lit PREFIX) 0 (?fl AND NOT ZERO_PAD))) (put_bytes ?a [ucast i] (umem st))"
    unfolding leaves_def
    by (intro exI[of _ ?a] exI[of _ "lit PREFIX"] exI[of _ "?fl AND NOT ZERO_PAD"])
      (use B in \<open>simp_all add: clear_bits bytes_at_done area_def flag_test\<close>)
  with e show ?thesis by blast
qed

lemma convert_string:
  assumes a: "a = (if i \<noteq> 0 then i else lit ''(null)'')" and c: "cstr_at (umem st) a ts" and n: "unat a + Suc (length ts) < 2 ^ 64"
    and p: "p < 0 \<and> int (Suc (length ts)) < INT_MAX \<or> int (Suc (length ts)) < p \<and> p \<le> INT_MAX" and A: "area a (Suc (length ts)) \<inter> A = {}"
  shows "\<exists>r. convert buf lit cnt BARE (ch CHR ''s'') i xp p fl st = Ok (r, st) \<and>
    ready A fl False [] (ts @ [0]) (int (Suc (length ts))) r (umem st)"
proof -
  let ?fl = "if fl AND LEFT_ADJ \<noteq> 0 then fl AND NOT ZERO_PAD else fl" and ?n = "of_int (if p < 0 then INT_MAX else p) :: u64"
  let ?z = "a + of_nat (Suc (length ts))"
  have un: "unat ?n = nat (if p < 0 then INT_MAX else p)" by (rule unat_of_int_small) (use p in \<open>auto simp: INT_MAX_value\<close>)
  then have "unat (memchr_repne_scasb a 0 ?n (umem st)) = Suc (length ts)" unfolding memchr_impl_cstr[OF c] using p by (auto simp: min_def)
  then have "memchr_repne_scasb a 0 ?n (umem st) = of_nat (Suc (length ts))" by (metis of_nat_unat ucast_id)
  moreover have "(of_nat (Suc (length ts)) :: u64) \<noteq> ?n"
  proof
    assume "of_nat (Suc (length ts)) = ?n"
    then have "unat (of_nat (Suc (length ts)) :: u64) = nat (if p < 0 then INT_MAX else p)" using un by simp
    then show False using n p unat_of_nat_small[of "Suc (length ts)", where 'a = 64] by (auto split: if_splits)
  qed
  ultimately have m: "memchr a 0 ?n (umem st) = ?z" by (simp add: memchr_def Let_def)
  have "unat ?z = unat a + Suc (length ts)" by (rule unat_add_of_nat) (use n in simp)
  then have z: "?z \<noteq> 0" by (metis add_is_0 nat.distinct(1) unat_0)
  have "int (Suc (length ts)) \<le> INT_MAX" using p by auto
  then have d: "sint (?z - a) = int (Suc (length ts))" "wrap32 (int (Suc (length ts))) = int (Suc (length ts))"
    using sint_of_nat_small[of "Suc (length ts)"] wrap32_id[of "int (Suc (length ts))"] by simp_all
  have "text_field (lit PREFIX) a p ?fl (umem st) = Inr (Field a ?z (int (Suc (length ts))) (lit PREFIX) 0 (?fl AND NOT ZERO_PAD))"
    unfolding text_field_def Let_def m d using z by simp
  then have e: "convert buf lit cnt BARE (ch CHR ''s'') i xp p fl st =
      Ok (Inr (Field a ?z (int (Suc (length ts))) (lit PREFIX) 0 (?fl AND NOT ZERO_PAD)), st)"
    unfolding convert_def Let_def a by simp
  have "bytes_at (umem st) a (length (ts @ [0])) = ts @ [0]" using c by (simp add: cstr_at_def)
  then have "ready A fl False [] (ts @ [0]) (int (Suc (length ts))) (Inr (Field a ?z (int (Suc (length ts))) (lit PREFIX) 0 (?fl AND NOT ZERO_PAD))) (umem st)"
    unfolding ready_def using A
    by (intro exI[of _ a] exI[of _ "lit PREFIX"] exI[of _ "?fl AND NOT ZERO_PAD"]) (simp add: clear_bits bytes_at_done area_def flag_test)
  with e show ?thesis by blast
qed

section \<open>The text of a format\<close>

text \<open>\<open>str q\<close> is the string at the address \<open>q\<close>.  The zero behind a string is printed with it.\<close>

fun piece_args :: "piece \<Rightarrow> nat" where
  "piece_args (Txt xs n) = 0"
| "piece_args (Dir fs w p ls c) = star True w + pstar True p + 1"

fun piece_out :: "(u64 \<Rightarrow> u8 list) \<Rightarrow> (string \<Rightarrow> u64) \<Rightarrow> (nat \<Rightarrow> u64) \<Rightarrow> nat \<Rightarrow> piece \<Rightarrow> u8 list" where
  "piece_out str lit ap k (Txt xs n) = xs @ replicate n (ch CHR ''%'')"
| "piece_out str lit ap k (Dir fs w p ls c) = (let
     W = num_val True ap k w;
     P = prec_val True ap (k + star True w) p;
     x = ap (k + star True w + pstar True p);
     i = arg_value (the (len_type ls)) c x;
     left = (ch CHR ''-'' \<in> set fs \<or> W < 0);
     zero = (ch CHR ''0'' \<in> set fs \<and> \<not> left \<and> P < 0)
   in if c = ch CHR ''c'' then layout left False (nat \<bar>W\<bar>) [] [ucast i]
      else if c = ch CHR ''s'' then layout left False (nat \<bar>W\<bar>) [] (str (if x \<noteq> 0 then x else lit ''(null)'') @ [0])
      else (case number_parts (ch CHR ''#'' \<in> set fs) (ch CHR ''+'' \<in> set fs) (ch CHR '' '' \<in> set fs) P c i of
          (ps, ts, P) \<Rightarrow> layout left zero (nat \<bar>W\<bar>) ps (num_body P ts)))"

fun format_out :: "(u64 \<Rightarrow> u8 list) \<Rightarrow> (string \<Rightarrow> u64) \<Rightarrow> (nat \<Rightarrow> u64) \<Rightarrow> nat \<Rightarrow> piece list \<Rightarrow> u8 list" where
  "format_out str lit ap k [] = []"
| "format_out str lit ap k (i # is) = piece_out str lit ap k i @ format_out str lit ap (k + piece_args i) is"

definition format_text :: "piece list \<Rightarrow> u8 list" where
  "format_text is = concat (map piece_text is)"

text \<open>Text must not run on into the next piece.\<close>

fun format_ok :: "piece list \<Rightarrow> bool" where
  "format_ok (Txt xs n # Txt ys k # is) \<longleftrightarrow> piece_ok (Txt xs n) \<and> 0 < n \<and> ys \<noteq> [] \<and> format_ok (Txt ys k # is)"
| "format_ok (i # is) \<longleftrightarrow> piece_ok i \<and> format_ok is"
| "format_ok [] \<longleftrightarrow> True"

text \<open>The strings for the directives stand in memory outside of \<open>A\<close> and are short enough.\<close>

fun strings_ok :: "u64 set \<Rightarrow> mem \<Rightarrow> (u64 \<Rightarrow> u8 list) \<Rightarrow> (string \<Rightarrow> u64) \<Rightarrow> (nat \<Rightarrow> u64) \<Rightarrow> nat \<Rightarrow> piece list \<Rightarrow> bool" where
  "strings_ok A m str lit ap k [] \<longleftrightarrow> True"
| "strings_ok A m str lit ap k (Txt xs n # is) \<longleftrightarrow> strings_ok A m str lit ap k is"
| "strings_ok A m str lit ap k (Dir fs w p ls c # is) \<longleftrightarrow> (c = ch CHR ''s'' \<longrightarrow> (let
     P = prec_val True ap (k + star True w) p;
     x = ap (k + star True w + pstar True p);
     q = (if x \<noteq> 0 then x else lit ''(null)'');
     n = Suc (length (str q))
   in cstr_at m q (str q) \<and> area q n \<inter> A = {} \<and> unat q + n < 2 ^ 64 \<and> (P < 0 \<and> int n < INT_MAX \<or> int n < P))) \<and>
     strings_ok A m str lit ap (k + piece_args (Dir fs w p ls c)) is"

lemma layout_length: "length (layout left zero w ps body) = max w (length ps + length body)"
  by (auto simp: layout_def Let_def max_def)

lemma stands_same:
  assumes "same A m m'" "area a (length xs) \<inter> A = {}" "length xs \<le> 2 ^ 64"
  shows "stands m' a xs = stands m a xs"
  unfolding stands_def bytes_at_same[OF assms] ..

context sink
begin

lemma print_gives:
  assumes r: "R xs st" and pb: "area pb 256 \<inter> priv = {}" "area buf 43 \<inter> priv = {}"
    and c: "convert buf lit (pf_cnt v) ps t i xp p fl st = Ok (r, st\<lparr>umem := m'\<rparr>)" "same (area buf 43) (umem st) m'"
    and rd: "ready (priv \<union> area pb 256) fl zero pre ts P r m'" "zero \<longrightarrow> \<not> bit fl 13" "int (length ts) \<le> P"
    and out: "out = layout (bit fl 13) zero (nat w) pre (replicate (nat P - length ts) 48 @ ts)" "0 \<le> w"
    and cnt: "0 \<le> pf_cnt v" "pf_cnt v + int (length out) \<le> INT_MAX"
  shows "\<exists>st'. print_field f buf pb lit w ps t i xp p fl v st = Go (v\<lparr>pf_l := int (length out)\<rparr>) st' \<and>
    gives (priv \<union> area pb 256 \<union> area buf 43) out st st'"
proof -
  let ?A = "priv \<union> area pb 256" and ?st = "st\<lparr>umem := m'\<rparr>"
  obtain a q fl' where fd: "r = Inr (Field a (a + of_nat (length ts)) P q (int (length pre)) fl')" "bytes_at m' a (length ts) = ts"
      "area a (length ts) \<inter> ?A = {}" "bytes_at m' q (length pre) = pre" "area q (length pre) \<inter> ?A = {}" "bit fl' 13 = bit fl 13" "bit fl' 16 = zero"
    using rd(1) unfolding ready_def by blast
  have g: "gives (area buf 43) [] st ?st"
    by (rule gives_scratch) (use c(2) pb(2) in \<open>auto simp: same_def\<close>)
  define W where "W = max w (int (length pre) + P)"
  have l: "int (length out) = W" using rd(3) out(2) unfolding out(1) layout_length W_def by simp
  have "\<exists>st'. emit f pb (pf_cnt v) w (Field a (a + of_nat (length ts)) P q (int (length pre)) fl') ?st = (Inr W, st') \<and>
      gives ?A (field_bytes fl' W P pre ts) ?st st'"
    by (rule emit_gives[OF gives_R[OF g r] pb(1)]) (use fd rd(3) cnt l W_def in simp_all)
  moreover have "field_bytes fl' W P pre ts = out"
    unfolding out(1) using field_bytes_layout[of fl' ts P W w pre, OF _ rd(3) W_def] fd(6,7) rd(2) by auto
  ultimately obtain st' where e: "emit f pb (pf_cnt v) w (Field a (a + of_nat (length ts)) P q (int (length pre)) fl') ?st = (Inr W, st')"
    "gives ?A out ?st st'" by auto
  have "print_field f buf pb lit w ps t i xp p fl v st = Go (v\<lparr>pf_l := int (length out)\<rparr>) st'"
    unfolding print_field_def c(1) fd(1) l using e(1) by simp
  moreover have "gives (?A \<union> area buf 43) out st st'" using gives_trans[OF g e(2)] by (simp add: Un_commute)
  ultimately show ?thesis by blast
qed

end

lemma format_flags:
  assumes "\<forall>x \<in> set fs. is_flag x"
  defines "fl \<equiv> fold (\<lambda>x fl. fl OR flag_bit x) fs 0"
  shows "bit fl 3 \<longleftrightarrow> ch CHR ''#'' \<in> set fs" "bit fl 16 \<longleftrightarrow> ch CHR ''0'' \<in> set fs" "bit fl 13 \<longleftrightarrow> ch CHR ''-'' \<in> set fs"
    "bit fl 0 \<longleftrightarrow> ch CHR '' '' \<in> set fs" "bit fl 11 \<longleftrightarrow> ch CHR ''+'' \<in> set fs"
  using fold_flag_bits[OF assms(1), where fl = 0] by (simp_all add: fl_def)

lemma left_bits: "bit (fl OR LEFT_ADJ) n \<longleftrightarrow> bit fl n \<or> n = 13"
  by (simp add: bit_or_iff flag_bits)

lemma va_int_range: "- (2 ^ 31) \<le> va_int x" "va_int x \<le> INT_MAX"
  using sint_ge[of "ucast x :: u32"] sint_lt[of "ucast x :: u32"] by (simp_all add: va_int_def INT_MAX_value)

lemma num_val_range: "num_ok n \<Longrightarrow> - (2 ^ 31) \<le> num_val b ap k n \<and> num_val b ap k n \<le> INT_MAX"
  using va_int_range by (cases n) (auto simp: INT_MAX_value)

lemma num_body_split: "num_body P ts = replicate (length (num_body P ts) - length ts) 48 @ ts"
  by (simp add: num_body_def)

lemma conv_ok_piece:
  assumes "piece_ok (Dir fs w p ls c)"
  obtains ps where "len_type ls = Some ps" "conv_ok ps c"
proof -
  have "\<exists>ps. len_type ls = Some ps"
    using assms by (auto simp: len_type_def)
  then obtain ps where ps: "len_type ls = Some ps" by blast
  have "ps = BARE" if "ls = []" using ps that by (simp add: len_type_def)
  then have "conv_ok ps c" using assms len_type_cases[OF ps] unfolding conv_ok_def piece_ok.simps by blast
  with ps show thesis by (rule that)
qed

text \<open>The field of a directive, by its conversion.\<close>

lemma directive_convert:
  assumes ps: "len_type ls = Some ps" "conv_ok ps c" and W: "W = num_val True ap k w" and P: "P = prec_val True ap (k + star True w) p"
    and x: "x = ap (k + star True w + pstar True p)" and i: "i = arg_value ps c x"
    and F: "bit fl 3 \<longleftrightarrow> ch CHR ''#'' \<in> set fs" "bit fl 16 \<longleftrightarrow> ch CHR ''0'' \<in> set fs" "bit fl 13 \<longleftrightarrow> ch CHR ''-'' \<in> set fs \<or> W < 0"
      "bit fl 0 \<longleftrightarrow> ch CHR '' '' \<in> set fs" "bit fl 11 \<longleftrightarrow> ch CHR ''+'' \<in> set fs"
    and PR: "- (2 ^ 31) \<le> P" "P \<le> INT_MAX"
    and dis: "area buf 43 \<inter> A = {}" "area (lit PREFIX) 9 \<inter> A = {}" "area (lit PREFIX) 9 \<inter> area buf 43 = {}"
    and pr: "bytes_at (umem st) (lit PREFIX) 9 = map of_char PREFIX"
    and so: "strings_ok (A \<union> area buf 43) (umem st) str lit ap k [Dir fs w p ls c]"
    and out: "out = piece_out str lit ap k (Dir fs w p ls c)"
  shows "\<exists>zero pre ts Q r m'. convert buf lit cnt ps c i (0 \<le> P) P fl st = Ok (r, st\<lparr>umem := m'\<rparr>) \<and> same (area buf 43) (umem st) m' \<and>
      ready A fl zero pre ts Q r m' \<and> (zero \<longrightarrow> \<not> bit fl 13) \<and> int (length ts) \<le> Q \<and>
      out = layout (bit fl 13) zero (nat \<bar>W\<bar>) pre (replicate (nat Q - length ts) 48 @ ts)"
proof -
  have the: "the (len_type ls) = ps" using ps by simp
  consider (c) "c = ch CHR ''c''" "ps = BARE" | (s) "c = ch CHR ''s''" "ps = BARE" | (n) "c \<in> set (map of_char ''diouxXp'')" "c \<noteq> ch CHR ''c''" "c \<noteq> ch CHR ''s''"
    using ps(2) unfolding conv_ok_def by auto
  then show ?thesis
  proof cases
    case c
    obtain r m' where C: "convert buf lit cnt ps c i (0 \<le> P) P fl st = Ok (r, st\<lparr>umem := m'\<rparr>)"
      "leaves buf (lit PREFIX) (umem st) fl True [] [ucast i] 1 r m'" using convert_char[OF PR(2)] c by blast
    have o: "out = layout (bit fl 13) False (nat \<bar>W\<bar>) [] [ucast i]" unfolding out using c F by (simp add: the i x W Let_def)
    show ?thesis using leaves_ready[OF C(2) dis(1,2)] o
      by (intro exI[of _ False] exI[of _ "[]"] exI[of _ "[ucast i]"] exI[of _ 1] exI[of _ r] exI[of _ m']) (simp add: C(1))
  next
    case s
    let ?q = "if x \<noteq> 0 then x else lit ''(null)''"
    have ix: "i = x" using s i by (simp add: arg_value_def)
    have S: "cstr_at (umem st) ?q (str ?q)" "unat ?q + Suc (length (str ?q)) < 2 ^ 64"
      "P < 0 \<and> int (Suc (length (str ?q))) < INT_MAX \<or> int (Suc (length (str ?q))) < P \<and> P \<le> INT_MAX" "area ?q (Suc (length (str ?q))) \<inter> A = {}"
      using so s PR(2) unfolding strings_ok.simps Let_def P[symmetric] x[symmetric] by blast+
    obtain r where C: "convert buf lit cnt ps c i (0 \<le> P) P fl st = Ok (r, st)"
      "ready A fl False [] (str ?q @ [0]) (int (Suc (length (str ?q)))) r (umem st)"
      using convert_string[OF _ S, of i] s ix by blast
    have o: "out = layout (bit fl 13) False (nat \<bar>W\<bar>) [] (str ?q @ [0])" unfolding out using s F by (simp add: the x W Let_def)
    show ?thesis using C o
      by (intro exI[of _ False] exI[of _ "[]"] exI[of _ "str ?q @ [0]"] exI[of _ "int (Suc (length (str ?q)))"] exI[of _ r] exI[of _ "umem st"]) simp
  next
    case n
    obtain pre ts Q where N: "number_parts (bit fl 3) (bit fl 11) (bit fl 0) P c i = (pre, ts, Q)" by (metis prod_cases3)
    obtain r m' where C: "convert buf lit cnt ps c i (0 \<le> P) P fl st = Ok (r, st\<lparr>umem := m'\<rparr>)"
      "leaves buf (lit PREFIX) (umem st) fl (0 \<le> P) pre ts (int (length (num_body Q ts))) r m'"
      using convert_number[where lit = lit and buf = buf and st = st and xp = "0 \<le> P" and cnt = cnt and ty = ps, OF n(1) pr dis(3) _ PR(2,1) N] by blast
    let ?z = "bit fl 16 \<and> \<not> bit fl 13 \<and> \<not> 0 \<le> P"
    have o: "out = layout (bit fl 13) ?z (nat \<bar>W\<bar>) pre (num_body Q ts)"
      unfolding out piece_out.simps Let_def the P[symmetric] W[symmetric] x[symmetric] i[symmetric] using n(2,3) N F by (simp add: linorder_not_le)
    have "out = layout (bit fl 13) ?z (nat \<bar>W\<bar>) pre (replicate (nat (int (length (num_body Q ts))) - length ts) 48 @ ts)"
      unfolding nat_int num_body_split[symmetric] by (rule o)
    moreover have "int (length ts) \<le> int (length (num_body Q ts))" by (simp add: body_length)
    moreover have "?z \<longrightarrow> \<not> bit fl 13" by blast
    ultimately show ?thesis using leaves_ready[OF C(2) dis(1,2)] C(1) by blast
  qed
qed

context sink
begin

text \<open>The memory that the formatter may change.\<close>

definition dirty :: "u64 \<Rightarrow> u64 \<Rightarrow> u64 set" where
  "dirty buf pb = priv \<union> area pb 256 \<union> area buf 43"

lemma directive_gives:
  assumes r: "R xs st" and ok: "piece_ok (Dir fs w p ls c)" and at: "stands (umem st) (pf_s v) (piece_text (Dir fs w p ls c))" and l: "\<not> pf_l10n v"
    and bufs: "area pb 256 \<inter> priv = {}" "area buf 43 \<inter> priv = {}" "area buf 43 \<inter> area pb 256 = {}"
    and pr: "bytes_at (umem st) (lit PREFIX) 9 = map of_char PREFIX" "area (lit PREFIX) 9 \<inter> dirty buf pb = {}"
    and so: "strings_ok (dirty buf pb) (umem st) str lit ap (pf_k v) [Dir fs w p ls c]"
    and out: "out = piece_out str lit ap (pf_k v) (Dir fs w p ls c)" "0 \<le> pf_cnt v" "pf_cnt v + int (length out) \<le> INT_MAX"
  shows "\<exists>st'. directive (Some f) buf pb lit ap v st = Go (v\<lparr>pf_s := pf_s v + of_nat (length (piece_text (Dir fs w p ls c))),
      pf_k := pf_k v + piece_args (Dir fs w p ls c), pf_l := int (length out)\<rparr>) st' \<and> gives (dirty buf pb) out st st'"
proof -
  obtain ps where ps: "len_type ls = Some ps" "conv_ok ps c" by (rule conv_ok_piece[OF ok])
  define fl where "fl = fold (\<lambda>x fl. fl OR flag_bit x) fs 0"
  define W where "W = num_val True ap (pf_k v) w"
  define P where "P = prec_val True ap (pf_k v + star True w) p"
  define x where "x = ap (pf_k v + star True w + pstar True p)"
  define i where "i = arg_value ps c x"
  define fl' where "fl' = (if W < 0 then fl OR LEFT_ADJ else fl)"
  let ?v = "v\<lparr>pf_s := pf_s v + of_nat (length (piece_text (Dir fs w p ls c))), pf_k := pf_k v + piece_args (Dir fs w p ls c)\<rparr>"
  have W': "W = num_val (Some f \<noteq> None) ap (pf_k v) w" "P = prec_val (Some f \<noteq> None) ap (pf_k v + star (Some f \<noteq> None) w) p"
    by (simp_all add: W_def P_def)
  have D: "directive (Some f) buf pb lit ap v st =
      print_field f buf pb lit (if W < 0 then wrap32 (- W) else W) ps c i (0 \<le> P) P fl' ?v st"
    using directive_reads[OF ok ps at l fl_def W' refl, of buf pb lit] by (simp add: i_def x_def fl'_def add.assoc)
  have F: "bit fl' 3 \<longleftrightarrow> ch CHR ''#'' \<in> set fs" "bit fl' 16 \<longleftrightarrow> ch CHR ''0'' \<in> set fs" "bit fl' 13 \<longleftrightarrow> ch CHR ''-'' \<in> set fs \<or> W < 0"
    "bit fl' 0 \<longleftrightarrow> ch CHR '' '' \<in> set fs" "bit fl' 11 \<longleftrightarrow> ch CHR ''+'' \<in> set fs"
    using format_flags[of fs] ok by (simp_all add: fl'_def fl_def left_bits)
  have P: "- (2 ^ 31) \<le> P" "P \<le> INT_MAX"
    using num_val_range ok by (cases p; simp add: P_def INT_MAX_value)+
  have dis: "area buf 43 \<inter> (priv \<union> area pb 256) = {}" "area (lit PREFIX) 9 \<inter> (priv \<union> area pb 256) = {}"
    "area (lit PREFIX) 9 \<inter> area buf 43 = {}" using bufs pr(2) by (auto simp: dirty_def)
  have "\<exists>zero pre ts Q r m'. convert buf lit (pf_cnt ?v) ps c i (0 \<le> P) P fl' st = Ok (r, st\<lparr>umem := m'\<rparr>) \<and> same (area buf 43) (umem st) m' \<and>
      ready (priv \<union> area pb 256) fl' zero pre ts Q r m' \<and> (zero \<longrightarrow> \<not> bit fl' 13) \<and> int (length ts) \<le> Q \<and>
      out = layout (bit fl' 13) zero (nat \<bar>W\<bar>) pre (replicate (nat Q - length ts) 48 @ ts)"
    by (rule directive_convert[OF ps W_def P_def x_def i_def F P dis(1,2) dis(3) pr(1) _ out(1)]) (rule so[unfolded dirty_def])
  then obtain zero pre ts Q r m' where C: "convert buf lit (pf_cnt ?v) ps c i (0 \<le> P) P fl' st = Ok (r, st\<lparr>umem := m'\<rparr>)"
      "same (area buf 43) (umem st) m'" "ready (priv \<union> area pb 256) fl' zero pre ts Q r m'" "zero \<longrightarrow> \<not> bit fl' 13" "int (length ts) \<le> Q"
      "out = layout (bit fl' 13) zero (nat \<bar>W\<bar>) pre (replicate (nat Q - length ts) 48 @ ts)" by blast
  have "nat \<bar>W\<bar> \<le> length out" unfolding C(6) layout_length by simp
  then have "\<bar>W\<bar> \<le> INT_MAX" using out(2,3) by linarith
  then have w: "(if W < 0 then wrap32 (- W) else W) = \<bar>W\<bar>" using wrap32_id[of "- W"] by auto
  have cnt: "0 \<le> pf_cnt ?v" "pf_cnt ?v + int (length out) \<le> INT_MAX" using out(2,3) by simp_all
  show ?thesis unfolding D w
    using print_gives[OF r bufs(1,2) C(1-5) C(6) _ cnt] by (simp add: dirty_def)
qed

end

section \<open>The turns of the loop\<close>

lemma scan_text_at:
  "stands m s xs \<Longrightarrow> 0 \<notin> set xs \<Longrightarrow> ch CHR ''%'' \<notin> set xs \<Longrightarrow> m (s + of_nat (length xs)) = 0 \<or> m (s + of_nat (length xs)) = ch CHR ''%'' \<Longrightarrow>
   scan_text m s = Some (s + of_nat (length xs))"
proof (induction xs arbitrary: s)
  case Nil
  then have "m s = 0 \<or> m s = ch CHR ''%''" by simp
  then have "(m s \<noteq> 0 \<and> m s \<noteq> ch CHR ''%'') = False" by blast
  then show ?case by (simp only: scan_text.simps[of m s] if_False) simp
next
  case (Cons x xs)
  then have "scan_text m s = scan_text m (s + 1)" by (subst scan_text.simps) auto
  then show ?case using Cons by (simp add: add.assoc)
qed

lemma scan_percent_at:
  assumes "x = ch CHR ''%''" "stands m s (replicate (2 * n) x)" "\<not> (m (s + of_nat (2 * n)) = x \<and> m (s + of_nat (2 * n) + 1) = x)"
  shows "scan_percent m z s = Some (z + of_nat n, s + of_nat (2 * n))"
  using assms(2,3)
proof (induction n arbitrary: s z)
  case 0
  then have "\<not> (m s = x \<and> m (s + 1) = x)" by simp
  then have "scan_percent m z s = Some (z, s)" unfolding scan_percent.simps[of m z s] assms(1)[symmetric] by (simp only: if_False)
  then show ?case by simp
next
  case (Suc n)
  have two: "2 * Suc n = Suc (Suc (2 * n))" by simp
  have a: "s + 1 + 1 = s + 2" by (simp add: add.assoc)
  have st: "m s = x" "m (s + 1) = x" "stands m (s + 2) (replicate (2 * n) x)"
    using Suc.prems(1) unfolding two replicate_Suc stands_Cons a by blast+
  have e: "s + of_nat (2 * Suc n) = s + 2 + of_nat (2 * n)" by simp
  have "scan_percent m z s = scan_percent m (z + 1) (s + 2)"
    unfolding scan_percent.simps[of m z s] st(1,2) assms(1)[symmetric] by (simp only: simp_thms if_True)
  also have "\<dots> = Some (z + 1 + of_nat n, s + 2 + of_nat (2 * n))"
    by (rule Suc.IH[OF st(3)]) (rule Suc.prems(2)[unfolded e])
  finally show ?case unfolding e of_nat_Suc by (simp only: add.assoc)
qed

lemma turn_text:
  assumes at: "stands (umem st) (pf_s v) (piece_text (Txt xs n))" and ok: "piece_ok (Txt xs n)"
    and e: "e = pf_s v + of_nat (length (piece_text (Txt xs n)))" "\<not> (umem st e = ch CHR ''%'' \<and> umem st (e + 1) = ch CHR ''%'')"
      "n = 0 \<longrightarrow> umem st e = 0 \<or> umem st e = ch CHR ''%''"
    and c: "c = pf_cnt v + pf_l v" "0 \<le> c" "c + int (length xs + n) \<le> INT_MAX"
  shows "turn F buf pb lit ap v st = Go (v\<lparr>pf_cnt := c, pf_s := e, pf_l := int (length xs + n)\<rparr>)
    (case F of None \<Rightarrow> st | Some f \<Rightarrow> out_fn f (pf_s v) (of_nat (length xs + n)) st)"
proof -
  let ?m = "umem st" and ?s = "pf_s v + of_nat (length xs)"
  have st: "stands ?m (pf_s v) xs" "stands ?m ?s (replicate (2 * n) (ch CHR ''%''))" using at by simp_all
  have e': "e = ?s + of_nat (2 * n)" using e(1) by (simp add: add.assoc)
  have x: "0 \<notin> set xs" "ch CHR ''%'' \<notin> set xs" "0 < length xs + n" using ok by auto
  have nx: "?m ?s = 0 \<or> ?m ?s = ch CHR ''%''" using e(3) e' st(2) by (cases n) auto
  have ne: "?m (pf_s v) \<noteq> 0" using st x nx by (cases xs; cases n) auto
  have s1: "scan_text ?m (pf_s v) = Some ?s" by (rule scan_text_at[OF st(1) x(1,2) nx])
  define z where "z = ?s + of_nat n"
  define L where "L = int (length xs + n)"
  have s2: "scan_percent ?m ?s ?s = Some (z, e)" unfolding e' z_def by (rule scan_percent_at[OF refl st(2)]) (use e(2) e' in simp)
  have "z - pf_s v = of_nat (length xs + n)" by (simp add: z_def)
  moreover have "int (length xs + n) \<le> INT_MAX" using c(2,3) by linarith
  ultimately have d: "sint (z - pf_s v) = L" "wrap32 L = L"
    using sint_of_nat_small[of "length xs + n"] wrap32_id[of "int (length xs + n)"] unfolding L_def by (simp_all only:)
  have i: "of_nat (length xs + n) = (of_int L :: u64)" by (simp add: L_def)
  have g: "\<not> pf_l v > INT_MAX - pf_cnt v" "\<not> L > INT_MAX - c" "L \<noteq> 0" using c x(3) unfolding L_def by linarith+
  show ?thesis unfolding L_def[symmetric] i
    using g ne s1 s2 d c(1) by (cases F) (simp_all add: turn_def Let_def scanned_def step_bind_def)
qed

lemma turn_directive:
  assumes "umem st (pf_s v) = ch CHR ''%''" "umem st (pf_s v + 1) \<noteq> ch CHR ''%''" "c = pf_cnt v + pf_l v" "0 \<le> c" "c \<le> INT_MAX"
  shows "turn F buf pb lit ap v st = directive F buf pb lit ap (v\<lparr>pf_cnt := c, pf_l := 0\<rparr>)
    (case F of None \<Rightarrow> st | Some f \<Rightarrow> out_fn f (pf_s v) 0 st)"
proof -
  have "scan_text (umem st) (pf_s v) = Some (pf_s v)" "scan_percent (umem st) (pf_s v) (pf_s v) = Some (pf_s v, pf_s v)"
    using assms(1,2) by (subst scan_text.simps scan_percent.simps, simp)+
  moreover have "wrap32 0 = 0" by (simp add: wrap32_def)
  ultimately show ?thesis using assms by (cases F) (simp_all add: turn_def scanned_def step_bind_def Let_def)
qed
section \<open>The loop\<close>

lemma unat_add_less:
  fixes y :: u64
  assumes "unat (y - of_nat k) < n" "k + n \<le> 2 ^ 64"
  shows "unat y < k + n"
proof -
  have "unat ((y - of_nat k) + of_nat k) = unat (y - of_nat k) + k" by (rule unat_add_of_nat) (use assms in simp)
  then show ?thesis using assms(1) by simp
qed

lemma area_tail: "k + n \<le> 2 ^ 64 \<Longrightarrow> area (s + of_nat k) n \<subseteq> area s (k + n)"
proof
  fix x assume "k + n \<le> 2 ^ 64" "x \<in> area (s + of_nat k) n"
  then show "x \<in> area s (k + n)" using unat_add_less[of "x - s" k n] by (simp add: area_def diff_diff_add)
qed

text \<open>All that the formatter reads stands in memory outside of \<open>A\<close>: the format, the strings and the prefixes.\<close>

definition in_place :: "u64 set \<Rightarrow> mem \<Rightarrow> u64 \<Rightarrow> (u64 \<Rightarrow> u8 list) \<Rightarrow> (string \<Rightarrow> u64) \<Rightarrow> (nat \<Rightarrow> u64) \<Rightarrow> nat \<Rightarrow> piece list \<Rightarrow> bool" where
  "in_place A m s str lit ap k is \<longleftrightarrow> stands m s (format_text is @ [0]) \<and> area s (Suc (length (format_text is))) \<inter> A = {} \<and>
     length (format_text is) < 2 ^ 64 \<and> strings_ok A m str lit ap k is \<and>
     bytes_at m (lit PREFIX) 9 = map of_char PREFIX \<and> area (lit PREFIX) 9 \<inter> A = {}"

lemma cstr_at_same:
  assumes "same A m m'" "area q (Suc (length xs)) \<inter> A = {}" "cstr_at m q xs"
  shows "cstr_at m' q xs"
proof -
  have "bytes_at m' q (Suc (length xs)) = bytes_at m q (Suc (length xs))" by (rule bytes_at_same[OF assms(1,2)]) (use assms(3) in \<open>simp add: cstr_at_def\<close>)
  then show ?thesis using assms(3) by (simp add: cstr_at_def)
qed

lemma strings_ok_same: "same A m m' \<Longrightarrow> strings_ok A m str lit ap k is \<Longrightarrow> strings_ok A m' str lit ap k is"
proof (induction "is" arbitrary: k)
  case (Cons i "is")
  then show ?case by (cases i) (auto simp: Let_def intro: cstr_at_same[of A m m'])
qed simp

lemma in_place_same:
  assumes "same A m m'" "in_place A m s str lit ap k is"
  shows "in_place A m' s str lit ap k is"
proof -
  have "stands m' s (format_text is @ [0]) = stands m s (format_text is @ [0])"
    by (rule stands_same[OF assms(1)]) (use assms(2) in \<open>simp_all add: in_place_def\<close>)
  moreover have "bytes_at m' (lit PREFIX) 9 = bytes_at m (lit PREFIX) 9"
    by (rule bytes_at_same[OF assms(1)]) (use assms(2) in \<open>simp_all add: in_place_def\<close>)
  ultimately show ?thesis using assms(2) strings_ok_same[OF assms(1)] unfolding in_place_def by (simp only:)
qed

lemma format_text_Cons: "format_text (i # is) = piece_text i @ format_text is"
  by (simp add: format_text_def)

lemma strings_ok_tail: "strings_ok A m str lit ap k (i # is) \<Longrightarrow> strings_ok A m str lit ap (k + piece_args i) is"
  by (cases i) auto

lemma strings_ok_head: "strings_ok A m str lit ap k (i # is) \<Longrightarrow> strings_ok A m str lit ap k [i]"
  by (cases i) auto

lemma in_place_tail:
  assumes "in_place A m s str lit ap k (i # is)"
  shows "in_place A m (s + of_nat (length (piece_text i))) str lit ap (k + piece_args i) is"
proof -
  let ?n = "length (piece_text i)"
  have l: "?n + Suc (length (format_text is)) \<le> 2 ^ 64" "length (format_text is) < 2 ^ 64"
    using assms by (simp_all add: in_place_def format_text_Cons)
  have "area (s + of_nat ?n) (Suc (length (format_text is))) \<subseteq> area s (?n + Suc (length (format_text is)))"
    by (rule area_tail[OF l(1)])
  then have "area (s + of_nat ?n) (Suc (length (format_text is))) \<inter> A = {}" using assms by (auto simp: in_place_def format_text_Cons)
  then show ?thesis using assms l(2) strings_ok_tail[of A m str lit ap k i "is"] by (simp add: in_place_def format_text_Cons)
qed

lemma in_place_head:
  assumes "in_place A m s str lit ap k (i # is)"
  shows "stands m s (piece_text i)" "strings_ok A m str lit ap k [i]" "area s (length (piece_text i)) \<inter> A = {}"
    "length (piece_text i) < 2 ^ 64" "bytes_at m (lit PREFIX) 9 = map of_char PREFIX" "area (lit PREFIX) 9 \<inter> A = {}"
proof -
  have "area s (length (piece_text i)) \<subseteq> area s (Suc (length (format_text (i # is))))"
    by (rule area_mono) (simp add: format_text_Cons)
  then show "area s (length (piece_text i)) \<inter> A = {}" using assms by (auto simp: in_place_def)
qed (use assms strings_ok_head in \<open>auto simp: in_place_def format_text_Cons\<close>)

lemma dir_start:
  assumes "piece_ok (Dir fs w p ls c)" "stands m s (piece_text (Dir fs w p ls c))"
  shows "m s = ch CHR ''%''" "m (s + 1) \<noteq> ch CHR ''%''"
proof -
  obtain ps where ps: "len_type ls = Some ps" "conv_ok ps c" by (rule conv_ok_piece[OF assms(1)])
  obtain u us where u: "num_text w @ prec_text p @ ls @ [c] = u # us" "u \<noteq> ch CHR ''%''" by (rule dir_parts[OF assms(1) ps])
  show "m s = ch CHR ''%''" using assms(2) by simp
  have st: "stands m (s + 1) (fs @ u # us)" using assms(2) unfolding u(1)[symmetric] by simp
  show "m (s + 1) \<noteq> ch CHR ''%''"
  proof (cases fs)
    case Nil
    then show ?thesis using st u(2) by simp
  next
    case (Cons x xs)
    then show ?thesis using st assms(1) flag_char_facts[of x] by simp
  qed
qed

lemma format_ok_Cons: "format_ok (i # is) \<Longrightarrow> piece_ok i \<and> format_ok is"
  by (cases i; cases "is"; cases "hd is") (auto simp del: piece_ok.simps)

text \<open>What stands behind a text.\<close>

lemma after_text:
  assumes ok: "format_ok (Txt xs n # is)" and at: "stands m e (format_text is @ [0])"
  shows "\<not> (m e = ch CHR ''%'' \<and> m (e + 1) = ch CHR ''%'')" "n = 0 \<longrightarrow> m e = 0 \<or> m e = ch CHR ''%''"
proof -
  have "\<not> (m e = ch CHR ''%'' \<and> m (e + 1) = ch CHR ''%'') \<and> (n = 0 \<longrightarrow> m e = 0 \<or> m e = ch CHR ''%'')"
  proof (cases "is")
    case Nil
    then show ?thesis using at by (simp add: format_text_def)
  next
    case (Cons i js)
    show ?thesis
    proof (cases i)
      case (Txt ys k)
      then have y: "0 < n" "ys \<noteq> []" "piece_ok (Txt ys k)" using ok format_ok_Cons[of "Txt ys k" js] Cons by auto
      then have "m e = hd ys" using at Cons Txt by (cases ys) (simp_all add: format_text_def)
      moreover have "hd ys \<noteq> ch CHR ''%''" using y by (cases ys) auto
      ultimately show ?thesis using y(1) by simp
    next
      case (Dir fs w p ls c)
      then have "piece_ok (Dir fs w p ls c)" "stands m e (piece_text (Dir fs w p ls c))"
        using format_ok_Cons[OF ok] format_ok_Cons[of i js] at Cons by (simp_all add: format_text_Cons)
      then show ?thesis using dir_start[of fs w p ls c m e] by blast
    qed
  qed
  then show "\<not> (m e = ch CHR ''%'' \<and> m (e + 1) = ch CHR ''%'')" "n = 0 \<longrightarrow> m e = 0 \<or> m e = ch CHR ''%''" by blast+
qed

lemma format_tail: "in_place A m s str lit ap k (i # is) \<Longrightarrow> stands m (s + of_nat (length (piece_text i))) (format_text is @ [0])"
  using in_place_tail[of A m s str lit ap k i "is"] unfolding in_place_def by blast

lemma turn_end: "umem st (pf_s v) = 0 \<Longrightarrow> pf_cnt v + pf_l v \<le> INT_MAX \<Longrightarrow> turn F buf pb lit ap v st = Stop End (v\<lparr>pf_cnt := pf_cnt v + pf_l v\<rparr>) st"
  by (simp add: turn_def Let_def)
context sink
begin

lemma text_turn:
  assumes r: "R xs st" and ok: "format_ok (Txt ys n # is)" and at: "in_place (dirty buf pb) (umem st) (pf_s v) str lit ap k (Txt ys n # is)"
    and c: "c = pf_cnt v + pf_l v" "0 \<le> c" "c + int (length (piece_out str lit ap k (Txt ys n))) \<le> INT_MAX"
    and v': "v' = v\<lparr>pf_cnt := c, pf_s := pf_s v + of_nat (length (piece_text (Txt ys n))), pf_l := int (length (piece_out str lit ap k (Txt ys n)))\<rparr>"
  shows "turn None buf pb lit ap v st = Go v' st"
    "\<exists>st'. turn (Some f) buf pb lit ap v st = Go v' st' \<and> gives (dirty buf pb) (piece_out str lit ap k (Txt ys n)) st st'"
proof -
  let ?out = "ys @ replicate n (ch CHR ''%'')" and ?A = "dirty buf pb"
  note H = in_place_head[OF at]
  have l: "length ?out = length ys + n" by simp
  have t: "turn F buf pb lit ap v st = Go v' (case F of None \<Rightarrow> st | Some f \<Rightarrow> out_fn f (pf_s v) (of_nat (length ys + n)) st)" for F
    using turn_text[OF H(1) _ refl after_text[OF ok format_tail[OF at]] c(1,2)] format_ok_Cons[OF ok] c(3) unfolding v' by simp
  have "piece_text (Txt ys n) = ?out @ replicate n (ch CHR ''%'')" by (simp add: mult_2 replicate_add)
  then have st: "stands (umem st) (pf_s v) ?out" "length ?out \<le> length (piece_text (Txt ys n))" using H(1) by (simp_all only: stands_append length_append)
  have "area (pf_s v) (length ?out) \<inter> ?A = {}" using area_mono[OF st(2), of "pf_s v"] H(3) by blast
  moreover have "length ?out < 2 ^ 64" using st(2) H(4) by linarith
  ultimately have "gives ?A ?out st (out_fn f (pf_s v) (of_nat (length ?out)) st)"
    using text_gives[OF r same_refl, of "pf_s v" ?out ?A] st(1) by (auto simp: stands_def dirty_def)
  then show "\<exists>st'. turn (Some f) buf pb lit ap v st = Go v' st' \<and> gives ?A (piece_out str lit ap k (Txt ys n)) st st'"
    using t[of "Some f"] unfolding l by simp
  show "turn None buf pb lit ap v st = Go v' st" using t[of None] by simp
qed

lemma directive_turn:
  assumes r: "R xs st" and ok: "piece_ok i" "i = Dir fs w p ls c" and at: "in_place (dirty buf pb) (umem st) (pf_s v) str lit ap (pf_k v) (i # is)"
    and bufs: "area pb 256 \<inter> priv = {}" "area buf 43 \<inter> priv = {}" "area buf 43 \<inter> area pb 256 = {}" and l: "\<not> pf_l10n v"
    and b: "b = pf_cnt v + pf_l v" "0 \<le> b" "b + int (length out) \<le> INT_MAX" and out: "out = piece_out str lit ap (pf_k v) i"
  shows "\<exists>st'. turn (Some f) buf pb lit ap v st = Go (v\<lparr>pf_cnt := b, pf_s := pf_s v + of_nat (length (piece_text i)),
      pf_k := pf_k v + piece_args i, pf_l := int (length out)\<rparr>) st' \<and> gives (dirty buf pb) out st st'"
proof -
  let ?A = "dirty buf pb" and ?st = "out_fn f (pf_s v) 0 st" and ?v = "v\<lparr>pf_cnt := b, pf_l := 0\<rparr>"
  note H = in_place_head[OF at]
  have t: "turn (Some f) buf pb lit ap v st = directive (Some f) buf pb lit ap ?v ?st"
    using turn_directive[of st v b "Some f"] dir_start[of fs w p ls c] H(1) ok b by simp
  have "gives priv [] st ?st" using out_gives[OF r, of "pf_s v" 0] by (simp add: bytes_at_done area_def)
  then have g: "gives ?A [] st ?st" by (rule gives_mono) (auto simp: dirty_def)
  note at' = in_place_same[OF gives_same[OF g] at]
  note H' = in_place_head[OF at']
  have "\<exists>st'. directive (Some f) buf pb lit ap ?v ?st = Go (?v\<lparr>pf_s := pf_s ?v + of_nat (length (piece_text i)),
      pf_k := pf_k ?v + piece_args i, pf_l := int (length out)\<rparr>) st' \<and> gives ?A out ?st st'"
    unfolding ok(2)
    by (rule directive_gives[where lit = lit, OF gives_R[OF g r] _ _ _ bufs H'(5,6)]) (use ok H'(1,2) l b out in simp_all)
  then obtain st' where d: "directive (Some f) buf pb lit ap ?v ?st = Go (?v\<lparr>pf_s := pf_s ?v + of_nat (length (piece_text i)),
      pf_k := pf_k ?v + piece_args i, pf_l := int (length out)\<rparr>) st'" "gives ?A out ?st st'" by blast
  have "gives ?A out st st'" using gives_Cons[OF g d(2)] by simp
  with d(1) t show ?thesis by simp
qed

text \<open>With the stream the loop prints the text of the format and stops at its end.\<close>

lemma loop_gives:
  assumes bufs: "area pb 256 \<inter> priv = {}" "area buf 43 \<inter> priv = {}" "area buf 43 \<inter> area pb 256 = {}"
  shows "R xs st \<Longrightarrow> format_ok is \<Longrightarrow> in_place (dirty buf pb) (umem st) (pf_s v) str lit ap (pf_k v) is \<Longrightarrow> \<not> pf_l10n v \<Longrightarrow>
    0 \<le> pf_cnt v + pf_l v \<Longrightarrow> pf_cnt v + pf_l v + int (length (format_out str lit ap (pf_k v) is)) \<le> INT_MAX \<Longrightarrow>
    \<exists>v' st'. core_loop (Some f) buf pb lit ap v st = Some (Stop End v' st') \<and>
      pf_cnt v' = pf_cnt v + pf_l v + int (length (format_out str lit ap (pf_k v) is)) \<and> gives (dirty buf pb) (format_out str lit ap (pf_k v) is) st st'"
proof (induction "is" arbitrary: xs v st)
  case Nil
  then have "umem st (pf_s v) = 0" by (simp add: in_place_def format_text_def)
  then show ?case using turn_end[of st v] Nil gives_refl by (subst core_loop.simps) simp
next
  case (Cons i "is")
  let ?A = "dirty buf pb" and ?o = "piece_out str lit ap (pf_k v) i" and ?b = "pf_cnt v + pf_l v"
  let ?v = "v\<lparr>pf_cnt := ?b, pf_s := pf_s v + of_nat (length (piece_text i)), pf_k := pf_k v + piece_args i, pf_l := int (length ?o)\<rparr>"
  have n: "?b + int (length ?o) \<le> INT_MAX" "0 \<le> pf_cnt ?v + pf_l ?v"
    "pf_cnt ?v + pf_l ?v + int (length (format_out str lit ap (pf_k ?v) is)) \<le> INT_MAX" using Cons.prems(5,6) by simp_all
  have "\<exists>st1. turn (Some f) buf pb lit ap v st = Go ?v st1 \<and> gives ?A ?o st st1"
  proof (cases i)
    case (Txt ys n)
    have "?v = v\<lparr>pf_cnt := ?b, pf_s := pf_s v + of_nat (length (piece_text i)), pf_l := int (length ?o)\<rparr>" by (simp add: Txt)
    then show ?thesis using text_turn(2)[OF Cons.prems(1-3)[unfolded Txt] refl Cons.prems(5) n(1)[unfolded Txt] refl] unfolding Txt by simp
  next
    case (Dir fs w p ls c)
    show ?thesis
      by (rule directive_turn[OF Cons.prems(1) _ Dir Cons.prems(3) bufs Cons.prems(4) refl Cons.prems(5) n(1) refl]) (use format_ok_Cons[OF Cons.prems(2)] in blast)
  qed
  then obtain st1 where t: "turn (Some f) buf pb lit ap v st = Go ?v st1" "gives ?A ?o st st1" by blast
  have "in_place ?A (umem st1) (pf_s ?v) str lit ap (pf_k ?v) is"
    using in_place_tail[OF in_place_same[OF gives_same[OF t(2)] Cons.prems(3)]] by simp
  with Cons.IH[OF gives_R[OF t(2) Cons.prems(1)], of ?v] format_ok_Cons[OF Cons.prems(2)] Cons.prems(4) n(2,3)
  obtain v' st' where l: "core_loop (Some f) buf pb lit ap ?v st1 = Some (Stop End v' st')"
    "pf_cnt v' = pf_cnt ?v + pf_l ?v + int (length (format_out str lit ap (pf_k ?v) is))" "gives ?A (format_out str lit ap (pf_k ?v) is) st1 st'" by auto
  have "core_loop (Some f) buf pb lit ap v st = Some (Stop End v' st')" using t(1) l(1) by (subst core_loop.simps) simp
  then show ?case using l(2) gives_Cons[OF t(2) l(3)] by simp
qed

text \<open>Without it the first pass ends with the format or with its first directive.\<close>

lemma loop_first:
  "R xs st \<Longrightarrow> format_ok is \<Longrightarrow> in_place (dirty buf pb) (umem st) (pf_s v) str lit ap k is \<Longrightarrow> \<not> pf_l10n v \<Longrightarrow>
    0 \<le> pf_cnt v + pf_l v \<Longrightarrow> pf_cnt v + pf_l v + int (length (format_out str lit ap k is)) \<le> INT_MAX \<Longrightarrow>
    \<exists>j v'. core_loop None buf pb lit ap v st = Some (Stop j v' st) \<and> (j = End \<or> j = Ret0) \<and> \<not> pf_l10n v' \<and>
      pf_k v' = pf_k v \<and> nl_type v' = nl_type v \<and> nl_arg v' = nl_arg v"
proof (induction "is" arbitrary: v k)
  case Nil
  then have "umem st (pf_s v) = 0" by (simp add: in_place_def format_text_def)
  then show ?case using turn_end[of st v] Nil by (subst core_loop.simps) simp
next
  case (Cons i "is")
  let ?o = "piece_out str lit ap k i" and ?b = "pf_cnt v + pf_l v"
  note H = in_place_head[OF Cons.prems(3)]
  have ok: "piece_ok i" "format_ok is" using format_ok_Cons[OF Cons.prems(2)] by blast+
  have n: "?b + int (length ?o) \<le> INT_MAX" using Cons.prems(6) by simp
  show ?case
  proof (cases i)
    case (Txt ys n)
    let ?v = "v\<lparr>pf_cnt := ?b, pf_s := pf_s v + of_nat (length (piece_text i)), pf_l := int (length ?o)\<rparr>"
    have "turn None buf pb lit ap v st = Go ?v st"
      unfolding Txt by (rule text_turn(1)[OF Cons.prems(1-3)[unfolded Txt] refl Cons.prems(5)]) (use n Txt in simp_all)
    then have "core_loop None buf pb lit ap v st = core_loop None buf pb lit ap ?v st" by (subst core_loop.simps) simp
    moreover have "in_place (dirty buf pb) (umem st) (pf_s ?v) str lit ap k is"
      using in_place_tail[OF Cons.prems(3)] by (simp add: Txt)
    ultimately show ?thesis using Cons.IH[OF Cons.prems(1) ok(2), of ?v k] Cons.prems(4-6) by (simp add: Txt)
  next
    case (Dir fs w p ls c)
    let ?v = "v\<lparr>pf_cnt := ?b, pf_l := 0\<rparr>"
    have p: "piece_ok (Dir fs w p ls c)" using ok(1) Dir by simp
    obtain ps where ps: "len_type ls = Some ps" "conv_ok ps c" by (rule conv_ok_piece[OF p])
    have t: "turn None buf pb lit ap v st = directive None buf pb lit ap ?v st"
      using turn_directive[of st v ?b "None"] dir_start[OF p] H(1) Dir Cons.prems(5) n by simp
    obtain v' where "directive None buf pb lit ap ?v st = Stop Ret0 v' st" "\<not> pf_l10n v'" "pf_k v' = pf_k v" "nl_type v' = nl_type v" "nl_arg v' = nl_arg v"
      using directive_reads[OF p ps _ _ refl refl refl refl, of st ?v None buf pb lit ap] H(1) Dir Cons.prems(4)
      by (simp add: star_def pstar_def split: option.splits)
    with t show ?thesis by (subst core_loop.simps) simp
  qed
qed

lemma vfprintf_gives:
  assumes bufs: "area pb 256 \<inter> priv = {}" "area buf 43 \<inter> priv = {}" "area buf 43 \<inter> area pb 256 = {}"
    and r: "R xs st" and ok: "format_ok is" "in_place (dirty buf pb) (umem st) fmt str lit ap 0 is"
    and out: "out = format_out str lit ap 0 is" "int (length out) \<le> INT_MAX"
  shows "\<exists>st'. vfprintf buf pb lit junk f fmt ap st = Ok (int (length out), st') \<and> gives (dirty buf pb) out st st'"
proof -
  let ?v = "\<lparr>pf_s = fmt, pf_l10n = False, pf_cnt = 0, pf_l = 0, pf_k = 0, nl_type = \<lambda>_. BARE, nl_arg = junk\<rparr>"
  have "\<exists>j v'. core_loop None buf pb lit ap ?v st = Some (Stop j v' st) \<and> (j = End \<or> j = Ret0) \<and> \<not> pf_l10n v' \<and>
      pf_k v' = pf_k ?v \<and> nl_type v' = nl_type ?v \<and> nl_arg v' = nl_arg ?v"
    by (rule loop_first[OF r ok(1)]) (use ok(2) out in simp_all)
  then obtain j v1 where p1: "core_loop None buf pb lit ap ?v st = Some (Stop j v1 st)" "j = End \<or> j = Ret0" "\<not> pf_l10n v1"
      "pf_k v1 = 0" "nl_type v1 = (\<lambda>_. BARE)" "nl_arg v1 = junk" by auto
  have "\<exists>v' st'. core_loop (Some f) buf pb lit ap ?v st = Some (Stop End v' st') \<and>
      pf_cnt v' = pf_cnt ?v + pf_l ?v + int (length (format_out str lit ap (pf_k ?v) is)) \<and> gives (dirty buf pb) (format_out str lit ap (pf_k ?v) is) st st'"
    by (rule loop_gives[OF bufs r ok(1)]) (use ok(2) out in simp_all)
  then obtain v2 st' where p2: "core_loop (Some f) buf pb lit ap ?v st = Some (Stop End v2 st')" "pf_cnt v2 = int (length out)" "gives (dirty buf pb) out st st'"
    using out(1) by auto
  have "printf_core None buf pb lit fmt ap 0 (\<lambda>_. BARE) junk st = Ok (0, v1, st)" using p1 by (auto simp: printf_core_def core_exit_def)
  moreover have "printf_core (Some f) buf pb lit fmt ap 0 (\<lambda>_. BARE) junk st = Ok (int (length out), v2, st')"
    using p2 by (simp add: printf_core_def core_exit_def)
  ultimately show ?thesis using p1(4-6) p2(3) by (simp add: vfprintf_def)
qed

end

end
