(* ===== verification/C_stdio.thy ===== *)
theory C_stdio
  imports Vfprintf_Spec
begin

text \<open>
  \<open>osrt/c/signal.c\<close>, \<open>stdio.c\<close> and \<open>assert.c\<close>, and \<open>abort\<close>: signals, output to strings and to the console.  A
  function that is called through a pointer is an argument.  The arguments \<open>buf\<close>, \<open>pb\<close>, \<open>lit\<close> and \<open>junk\<close> are those
  of the formatter of \<open>C_vfprintf\<close>; \<open>kern\<close>, \<open>nm\<close> and \<open>stk\<close> are those of \<open>console_write\<close>.
\<close>

section \<open>Output\<close>

definition console_write_impl :: "'k kernel \<Rightarrow> u64 \<Rightarrow> u64 \<Rightarrow> 'k stream" where
  "console_write_impl kern nm stk data sz s = (sz, console_write kern nm stk data sz s)"

definition fprintf ::
    "u64 \<Rightarrow> u64 \<Rightarrow> (string \<Rightarrow> u64) \<Rightarrow> (nat \<Rightarrow> u64) \<Rightarrow> 'k stream \<Rightarrow> u64 \<Rightarrow> (nat \<Rightarrow> u64) \<Rightarrow> 'k rt_state \<Rightarrow> (int \<times> 'k rt_state) res" where
  "fprintf buf pb lit junk stream format ap st = vfprintf buf pb lit junk stream format ap st"

text \<open>\<open>stdout\<close> is the console.\<close>

definition vprintf ::
    "u64 \<Rightarrow> u64 \<Rightarrow> (string \<Rightarrow> u64) \<Rightarrow> (nat \<Rightarrow> u64) \<Rightarrow> 'k kernel \<Rightarrow> u64 \<Rightarrow> u64 \<Rightarrow> u64 \<Rightarrow> (nat \<Rightarrow> u64) \<Rightarrow> 'k rt_state \<Rightarrow> (int \<times> 'k rt_state) res" where
  "vprintf buf pb lit junk kern nm stk format arg st = vfprintf buf pb lit junk (console_write_impl kern nm stk) format arg st"

definition printf ::
    "u64 \<Rightarrow> u64 \<Rightarrow> (string \<Rightarrow> u64) \<Rightarrow> (nat \<Rightarrow> u64) \<Rightarrow> 'k kernel \<Rightarrow> u64 \<Rightarrow> u64 \<Rightarrow> u64 \<Rightarrow> (nat \<Rightarrow> u64) \<Rightarrow> 'k rt_state \<Rightarrow> (int \<times> 'k rt_state) res" where
  "printf buf pb lit junk kern nm stk format ap st = vprintf buf pb lit junk kern nm stk format ap st"

text \<open>The arguments of a call that names them; no format below reads behind them.\<close>

definition va_args :: "u64 list \<Rightarrow> nat \<Rightarrow> u64" where
  "va_args xs k = (if k < length xs then xs ! k else 0)"

definition perror ::
    "u64 \<Rightarrow> u64 \<Rightarrow> (string \<Rightarrow> u64) \<Rightarrow> (nat \<Rightarrow> u64) \<Rightarrow> 'k kernel \<Rightarrow> u64 \<Rightarrow> u64 \<Rightarrow> u64 \<Rightarrow> 'k rt_state \<Rightarrow> 'k rt_state res" where
  "perror buf pb lit junk kern nm stk str st =
     bind_res (fprintf buf pb lit junk (console_write_impl kern nm stk) (lit (''%s: %s'' @ [CHR 0x0A])) (va_args [str, lit (strerror (errno st))]) st)
       (\<lambda>(_, st). Ok st)"

record sn_data =
  sn_p :: u64
  sn_n :: u64

definition sn_write_impl :: "sn_data stream" where
  "sn_write_impl data sz st = (let
     f = rt_kernel st;
     write_size = (if sz < sn_n f then sz else sn_n f)
   in if sn_p f \<noteq> 0 \<and> sn_n f \<noteq> 0
      then (sz, st\<lparr>umem := snd (memcpy (sn_p f) data write_size (umem st)), rt_kernel := f\<lparr>sn_p := sn_p f + write_size, sn_n := sn_n f - write_size\<rparr>\<rparr>)
      else (sz, st))"

text \<open>The stream lives on the stack of \<open>vsnprintf\<close>; the rest of the program's state is not touched.\<close>

definition vsnprintf ::
    "u64 \<Rightarrow> u64 \<Rightarrow> (string \<Rightarrow> u64) \<Rightarrow> (nat \<Rightarrow> u64) \<Rightarrow> u64 \<Rightarrow> u64 \<Rightarrow> u64 \<Rightarrow> (nat \<Rightarrow> u64) \<Rightarrow> 'k rt_state \<Rightarrow> (int \<times> 'k rt_state) res" where
  "vsnprintf buf pb lit junk s n format arg st =
     bind_res (vfprintf buf pb lit junk sn_write_impl format arg \<lparr>umem = umem st, errno = errno st, rt_kernel = \<lparr>sn_p = s, sn_n = n\<rparr>\<rparr>)
       (\<lambda>(ret, f). Ok (ret, st\<lparr>umem := umem f, errno := errno f\<rparr>))"

definition vsprintf ::
    "u64 \<Rightarrow> u64 \<Rightarrow> (string \<Rightarrow> u64) \<Rightarrow> (nat \<Rightarrow> u64) \<Rightarrow> u64 \<Rightarrow> u64 \<Rightarrow> (nat \<Rightarrow> u64) \<Rightarrow> 'k rt_state \<Rightarrow> (int \<times> 'k rt_state) res" where
  "vsprintf buf pb lit junk s format arg st = vsnprintf buf pb lit junk s (- 1) format arg st"

definition snprintf ::
    "u64 \<Rightarrow> u64 \<Rightarrow> (string \<Rightarrow> u64) \<Rightarrow> (nat \<Rightarrow> u64) \<Rightarrow> u64 \<Rightarrow> u64 \<Rightarrow> u64 \<Rightarrow> (nat \<Rightarrow> u64) \<Rightarrow> 'k rt_state \<Rightarrow> (int \<times> 'k rt_state) res" where
  "snprintf buf pb lit junk s n format ap st = vsnprintf buf pb lit junk s n format ap st"

definition sprintf ::
    "u64 \<Rightarrow> u64 \<Rightarrow> (string \<Rightarrow> u64) \<Rightarrow> (nat \<Rightarrow> u64) \<Rightarrow> u64 \<Rightarrow> u64 \<Rightarrow> (nat \<Rightarrow> u64) \<Rightarrow> 'k rt_state \<Rightarrow> (int \<times> 'k rt_state) res" where
  "sprintf buf pb lit junk s format ap st = vsprintf buf pb lit junk s format ap st"

section \<open>Signals\<close>

text \<open>The table has six entries; a look-up outside of them reads the memory around the table.  \<open>sig_world\<close> is the rest of
  the program: its memory and the kernel.\<close>

record 'k sig_state = exit_state +
  signal_handlers :: "int \<Rightarrow> u64"
  sig_world :: "'k rt_state"

definition SIG_DFL :: u64 where "SIG_DFL = 1"
definition SIG_ERR :: u64 where "SIG_ERR = 2"
definition SIG_IGN :: u64 where "SIG_IGN = 3"
definition SIGABRT :: int where "SIGABRT = 0"
definition SIGNAL_MAX :: int where "SIGNAL_MAX = 6"
definition EXIT_FAILURE :: int where "EXIT_FAILURE = 1"

definition signal :: "int \<Rightarrow> u64 \<Rightarrow> 'k sig_state \<Rightarrow> u64 \<times> 'k sig_state" where
  "signal sig handler s =
     (if sig \<ge> SIGNAL_MAX then (SIG_ERR, s\<lparr>exit_errno := EINVAL\<rparr>)
      else (signal_handlers s sig, s\<lparr>signal_handlers := (signal_handlers s)(sig := handler)\<rparr>))"

text \<open>A program goes on, or it ends with calls of registered functions and a status.\<close>

datatype 'k outcome = Goes "'k sig_state" | Ends "u64 list" int

definition raise :: "(u64 \<Rightarrow> int \<Rightarrow> 'k sig_state \<Rightarrow> 'k outcome res) \<Rightarrow> int \<Rightarrow> 'k sig_state \<Rightarrow> 'k outcome res" where
  "raise call sig s = (let ret = signal_handlers s sig
   in if ret = SIG_DFL then (case exit_fn EXIT_FAILURE (exit_state.truncate s) of (fs, st) \<Rightarrow> Ok (Ends fs st))
      else if ret = SIG_IGN then Ok (Goes s)
      else if ret = 0 then Fail WildCall
      else call ret sig s)"

definition abort :: "(u64 \<Rightarrow> int \<Rightarrow> 'k sig_state \<Rightarrow> 'k outcome res) \<Rightarrow> 'k sig_state \<Rightarrow> 'k outcome res" where
  "abort call s = bind_res (raise call SIGABRT s) (\<lambda>r. case r of
       Goes s \<Rightarrow> Ok (Ends [] EXIT_FAILURE)
     | Ends fs st \<Rightarrow> Ok (Ends fs st))"

text \<open>\<open>__assert\<close>.  There is one \<open>errno\<close>: the printing function reads it and sets it.\<close>

definition assert_fn ::
    "u64 \<Rightarrow> u64 \<Rightarrow> (string \<Rightarrow> u64) \<Rightarrow> (nat \<Rightarrow> u64) \<Rightarrow> 'k kernel \<Rightarrow> u64 \<Rightarrow> u64 \<Rightarrow> (u64 \<Rightarrow> int \<Rightarrow> 'k sig_state \<Rightarrow> 'k outcome res) \<Rightarrow>
     int \<Rightarrow> u64 \<Rightarrow> u64 \<Rightarrow> int \<Rightarrow> u64 \<Rightarrow> 'k sig_state \<Rightarrow> 'k outcome res" where
  "assert_fn buf pb lit junk kern nm stk call val expr file line func s =
     (if val \<noteq> 0 then Ok (Goes s)
      else bind_res (printf buf pb lit junk kern nm stk (lit ''assertion failed: %s at %s:%d:%s'') (va_args [expr, file, of_int line, func])
          ((sig_world s)\<lparr>errno := exit_errno s\<rparr>))
        (\<lambda>(_, w). abort call (s\<lparr>sig_world := w, exit_errno := errno w\<rparr>)))"

section \<open>Writing to a string\<close>

text \<open>The stream of a buffer of \<open>N\<close> bytes at \<open>B\<close> after the bytes \<open>out\<close>.\<close>

definition sn_after :: "u64 \<Rightarrow> nat \<Rightarrow> u8 list \<Rightarrow> sn_data" where
  "sn_after B N out = \<lparr>sn_p = B + of_nat (length out), sn_n = of_nat (N - length out)\<rparr>"

text \<open>The bytes from \<open>a\<close> on lie outside of the buffer.\<close>

definition outside :: "u64 \<Rightarrow> nat \<Rightarrow> u64 \<Rightarrow> u64 \<Rightarrow> bool" where
  "outside B N a l \<longleftrightarrow> (\<forall>i < unat l. N \<le> unat (a + of_nat i - B))"

lemma unat_sub_of_nat:
  fixes y :: u64
  assumes "k < 2 ^ 64"
  shows "unat (y - of_nat k) = (if k \<le> unat y then unat y - k else 2 ^ 64 + unat y - k)"
proof -
  have "unat (of_nat k :: u64) = k" using assms by (simp add: unat_of_nat_small)
  then show ?thesis using unat_sub_if'[of y "of_nat k"] by (auto simp: word_le_nat_alt)
qed

lemma put_bytes_append:
  assumes "length out + w < 2 ^ 64" "w \<le> unat (B + of_nat (length out) - a)" "outside B (length out + w) a (of_nat w)"
  shows "rep_movsb w (B + of_nat (length out)) a (put_bytes B out m) = put_bytes B (out @ bytes_at m a w) m"
proof
  fix x
  let ?k = "length out" and ?y = "x - B"
  have e: "x - (B + of_nat ?k) = ?y - of_nat ?k" by simp
  have u: "unat (?y - of_nat ?k) = (if ?k \<le> unat ?y then unat ?y - ?k else 2 ^ 64 + unat ?y - ?k)"
    by (rule unat_sub_of_nat) (use assms(1) in simp)
  have o: "\<forall>i < w. ?k + w \<le> unat (a + of_nat i - B)" using assms(1,3) by (simp add: outside_def unat_of_nat_small)
  have "put_bytes B out m (a + z) = m (a + z)" if z: "unat z < w" for z
  proof -
    have "?k + w \<le> unat (a + of_nat (unat z) - B)" using o z by blast
    then show ?thesis by (simp add: put_bytes_def)
  qed
  note s = this
  have "rep_movsb w (B + of_nat ?k) a (put_bytes B out m) = copied w (B + of_nat ?k) a (put_bytes B out m)"
    by (rule rep_movsb_copied) (use assms(1,2) in simp_all)
  then have r: "rep_movsb w (B + of_nat ?k) a (put_bytes B out m) x =
      (if unat (?y - of_nat ?k) < w then m (a + (?y - of_nat ?k)) else put_bytes B out m x)"
    using s by (simp add: copied_def e)
  show "rep_movsb w (B + of_nat ?k) a (put_bytes B out m) x = put_bytes B (out @ bytes_at m a w) m x"
  proof (cases "?k \<le> unat ?y")
    case True
    then show ?thesis using u r
      by (cases "unat ?y - ?k < w") (auto simp: put_bytes_def nth_append)
  next
    case False
    then show ?thesis using u r assms(1) by (auto simp: put_bytes_def nth_append)
  qed
qed

lemma sn_write_step:
  assumes "length out \<le> N" "B \<noteq> 0" "unat B + N < 2 ^ 64" "outside B N a l" "umem st = put_bytes B out m" "rt_kernel st = sn_after B N out"
    and new: "new = take N (out @ bytes_at m a (unat l))"
  shows "sn_write_impl a l st = (l, st\<lparr>umem := put_bytes B new m, rt_kernel := sn_after B N new\<rparr>)"
proof -
  let ?k = "length out" and ?w = "min (unat l) (N - length out)"
  have n: "unat (of_nat (N - ?k) :: u64) = N - ?k" using assms(3) by (simp add: unat_of_nat_small)
  have w: "(if l < of_nat (N - ?k) then l else of_nat (N - ?k)) = (of_nat ?w :: u64)"
    using n by (cases "unat l < N - ?k") (auto simp: word_less_nat_alt min_def)
  have uw: "unat (of_nat ?w :: u64) = ?w" using assms(3) by (simp add: unat_of_nat_small)
  show ?thesis
  proof (cases "?k = N")
    case True
    then have "new = out" by (simp add: new)
    then show ?thesis using True assms(5,6) by (simp add: sn_write_impl_def sn_after_def Let_def)
  next
    case False
    have "unat (B + of_nat ?k) = unat B + ?k" by (rule unat_add_of_nat) (use assms(1,3) in simp)
    then have p: "B + of_nat ?k \<noteq> 0" "(of_nat (N - ?k) :: u64) \<noteq> 0"
      using assms(1,2) n False by (auto simp: unat_eq_0[symmetric] simp del: of_nat_diff)
    have "rep_movsb ?w (B + of_nat ?k) a (put_bytes B out m) = put_bytes B (out @ bytes_at m a ?w) m"
    proof (rule put_bytes_append)
      show "?k + ?w < 2 ^ 64" using assms(1,3) by simp
      show "outside B (?k + ?w) a (of_nat ?w)" unfolding outside_def uw
      proof (intro allI impI)
        fix i assume "i < ?w"
        then have "N \<le> unat (a + of_nat i - B)" using assms(4) by (simp add: outside_def)
        then show "?k + ?w \<le> unat (a + of_nat i - B)" using assms(1) by linarith
      qed
      show "?w \<le> unat (B + of_nat ?k - a)"
      proof (rule ccontr)
        assume "\<not> ?thesis"
        then have "unat (B + of_nat ?k - a) < unat l" by simp
        then have "N \<le> unat (a + of_nat (unat (B + of_nat ?k - a)) - B)" using assms(4) unfolding outside_def by blast
        moreover have "a + of_nat (unat (B + of_nat ?k - a)) - B = of_nat ?k" by simp
        moreover have "unat (of_nat ?k :: u64) = ?k" using assms(1,3) by (simp add: unat_of_nat_small)
        ultimately show False using False assms(1) by (simp only:)
      qed
    qed
    moreover have "new = out @ bytes_at m a ?w"
      using assms(1) by (simp add: new take_bytes_at min.commute)
    moreover have "of_nat (N - ?k) - of_nat ?w = (of_nat (N - (?k + ?w)) :: u64)"
      by (simp flip: of_nat_diff add: diff_diff_left)
    moreover have "sn_write_impl a l st = (l, st\<lparr>umem := rep_movsb ?w (B + of_nat ?k) a (put_bytes B out m),
        rt_kernel := \<lparr>sn_p = B + of_nat ?k + of_nat ?w, sn_n = of_nat (N - ?k) - of_nat ?w\<rparr>\<rparr>)"
      using p by (simp only: sn_write_impl_def assms(5,6) sn_after_def sn_data.simps w Let_def memcpy_def memcpy_rep_movsb_def snd_conv uw simp_thms if_True)
    ultimately show ?thesis by (simp add: sn_after_def add.assoc del: of_nat_diff)
  qed
qed

lemma take_take_append: "take n (take n xs @ ys) = take n (xs @ ys)"
  by (cases "n \<le> length xs") (auto simp: min_def)

text \<open>The buffer holds the first \<open>N\<close> bytes of what was written, over its contents \<open>m\<close>.\<close>

definition sn_holds :: "u64 \<Rightarrow> nat \<Rightarrow> mem \<Rightarrow> u8 list \<Rightarrow> sn_data rt_state \<Rightarrow> bool" where
  "sn_holds B N m xs st \<longleftrightarrow> B \<noteq> 0 \<and> unat B + N < 2 ^ 64 \<and> rt_kernel st = sn_after B N (take N xs) \<and>
     (\<forall>x \<in> area B N. umem st x = put_bytes B (take N xs) m x)"

lemma put_bytes_self: "\<forall>x \<in> area B (length out). M x = put_bytes B out m x \<Longrightarrow> put_bytes B out M = M"
  by (rule ext) (auto simp: put_bytes_def area_def)

lemma sn_writes:
  assumes r: "sn_holds B N m xs st" and a: "area a (unat l) \<inter> area B N = {}"
  shows "\<exists>st'. sn_write_impl a l st = (l, st') \<and> sn_holds B N m (xs @ bytes_at (umem st) a (unat l)) st' \<and>
    errno st' = errno st \<and> same (area B N) (umem st) (umem st')"
proof -
  let ?out = "take N xs" and ?M = "umem st"
  define new where "new = take N (?out @ bytes_at ?M a (unat l))"
  have b: "B \<noteq> 0" "unat B + N < 2 ^ 64" "rt_kernel st = sn_after B N ?out" "\<forall>x \<in> area B N. ?M x = put_bytes B ?out m x"
    using r by (simp_all add: sn_holds_def)
  have "area B (length ?out) \<subseteq> area B N" by (rule area_mono) simp
  then have "\<forall>x \<in> area B (length ?out). ?M x = put_bytes B ?out m x" using b(4) by blast
  then have M: "?M = put_bytes B ?out ?M" by (rule put_bytes_self[symmetric])
  have "outside B N a l" unfolding outside_def
  proof (intro allI impI)
    fix i assume "i < unat l"
    moreover have "unat l < 2 ^ 64" using unsigned_less[of l] by simp
    ultimately have "a + of_nat i \<in> area a (unat l)" by (intro area_nth) simp_all
    then have "a + of_nat i \<notin> area B N" using a by blast
    then show "N \<le> unat (a + of_nat i - B)" by (simp add: area_def)
  qed
  then have s: "sn_write_impl a l st = (l, st\<lparr>umem := put_bytes B new ?M, rt_kernel := sn_after B N new\<rparr>)"
    using sn_write_step[OF _ b(1,2) _ M b(3) new_def] by simp
  have e: "new = take N (xs @ bytes_at ?M a (unat l))" unfolding new_def by (rule take_take_append)
  have "length ?out \<le> length new" unfolding e by (simp add: min_def)
  then have "\<forall>x \<in> area B N. put_bytes B new ?M x = put_bytes B new m x"
    using b(4) by (auto simp: put_bytes_def split: if_splits)
  moreover have "same (area B N) ?M (put_bytes B new ?M)" by (auto simp: same_def put_bytes_def area_def new_def)
  ultimately show ?thesis using s b(1,2) e by (simp add: sn_holds_def)
qed

interpretation sn: sink sn_write_impl "sn_holds B N m" "area B N" for B N m
  by unfold_locales (simp_all add: sn_writes, simp add: sn_holds_def)

section \<open>Properties\<close>

text \<open>Setting a handler and raising the signal: the default ends the program with the functions registered for the end, the
  second constant ignores the signal, any other function is called.  The table starts with null
  pointers, which are neither: \<open>abort\<close> in a program that has set no handler calls through one.\<close>

theorem signal_raise:
  assumes "sig < SIGNAL_MAX"
  shows "raise call sig (snd (signal sig h s)) =
      (if h = SIG_DFL then Ok (Ends (exit_calls (atexit_tab s) (unat (et_count (atexit_tab s)))) EXIT_FAILURE)
       else if h = SIG_IGN then Ok (Goes (snd (signal sig h s)))
       else if h = 0 then Fail WildCall else call h sig (snd (signal sig h s)))"
    and "signal_handlers s SIGABRT = 0 \<Longrightarrow> abort call s = Fail WildCall"
  using assms by (auto simp: raise_def signal_def abort_def exit_fn_def exit_state.defs Let_def SIG_DFL_def SIG_IGN_def)

text \<open>C28: \<open>snprintf\<close> puts the first \<open>n\<close> bytes of the text of its format into the buffer and returns the length of the
  whole text.  Besides the buffer only the two arrays on the stack change: it never writes behind the
  buffer, and it never ends the text with a zero.\<close>

theorem snprintf_prints:
  assumes "s \<noteq> 0" "unat s + unat n < 2 ^ 64"
    and "area pb 256 \<inter> area s (unat n) = {}" "area buf 43 \<inter> area s (unat n) = {}" "area buf 43 \<inter> area pb 256 = {}"
    and "format_ok is" "in_place (area s (unat n) \<union> area pb 256 \<union> area buf 43) (umem st) format str lit ap 0 is"
    and out: "out = format_out str lit ap 0 is" "int (length out) \<le> INT_MAX"
  shows "\<exists>m. snprintf buf pb lit junk s n format ap st = Ok (int (length out), st\<lparr>umem := m\<rparr>) \<and>
    same (area pb 256 \<union> area buf 43) (put_bytes s (take (unat n) out) (umem st)) m"
proof -
  let ?N = "unat n" and ?M = "umem st"
  let ?st = "\<lparr>umem = ?M, errno = errno st, rt_kernel = \<lparr>sn_p = s, sn_n = n\<rparr>\<rparr>"
  have r: "sn_holds s ?N ?M [] ?st" using assms(1,2) by (simp add: sn_holds_def sn_after_def put_bytes_def)
  from sn.vfprintf_gives[where junk = junk, OF assms(3-5) r assms(6) _ out] assms(7)
  obtain st' where v: "vfprintf buf pb lit junk sn_write_impl format ap ?st = Ok (int (length out), st')"
    "sn.gives s ?N ?M (area s ?N \<union> area pb 256 \<union> area buf 43) out ?st st'" by (auto simp: sn.dirty_def)
  have h: "sn_holds s ?N ?M out st'" using sn.gives_R[OF v(2) r] by simp
  have e: "errno st' = errno st" "same (area s ?N \<union> area pb 256 \<union> area buf 43) ?M (umem st')" using v(2) by (simp_all add: sn.gives_def)
  have "put_bytes s (take ?N out) ?M x = ?M x" if "x \<notin> area s ?N" for x
    using that by (auto simp: put_bytes_def area_def)
  then have "same (area pb 256 \<union> area buf 43) (put_bytes s (take ?N out) ?M) (umem st')"
    using h e(2) unfolding same_def sn_holds_def by (metis Un_iff)
  moreover have "snprintf buf pb lit junk s n format ap st = Ok (int (length out), st\<lparr>umem := umem st'\<rparr>)"
    using v(1) e(1) by (simp add: snprintf_def vsnprintf_def)
  ultimately show ?thesis by blast
qed

text \<open>The number 42 in the format \<open>n=%4d%%\<close>, for a buffer of six bytes.\<close>

definition print_format :: "piece list" where
  "print_format = [Txt (map of_char ''n='') 0, Dir [] (Digs [4]) None [] (ch CHR ''d''), Txt [] 1]"

definition print_mem :: mem where
  "print_mem = put_bytes 0x1000 (map of_char ''n=%4d%%'' @ [0]) (put_bytes 0x1100 (map of_char PREFIX) (\<lambda>_. 0))"

lemma area_far: "unat a + n \<le> unat b \<Longrightarrow> unat b + k \<le> 2 ^ 64 \<Longrightarrow> area a n \<inter> area b k = {}"
proof -
  assume n: "unat a + n \<le> unat b" "unat b + k \<le> 2 ^ 64"
  have "\<not> unat (x - b) < k" if "unat (x - a) < n" for x
  proof
    assume "unat (x - b) < k"
    moreover have "unat x = unat a + unat (x - a)" using unat_add_of_nat[of a "unat (x - a)"] that n unsigned_less[of b] by simp
    moreover have "unat x = unat b + unat (x - b)" using unat_add_of_nat[of b "unat (x - b)"] \<open>unat (x - b) < k\<close> n by simp
    ultimately show False using that n by linarith
  qed
  then show ?thesis by (auto simp: area_def)
qed

lemma print_in_place:
  "in_place (area 0x2000 6 \<union> area 0x4000 256 \<union> area 0x3000 43) print_mem 0x1000 (\<lambda>_. []) (\<lambda>_. 0x1100) (\<lambda>_. 42) 0 print_format"
proof -
  have t: "format_text print_format = map of_char ''n=%4d%%''"
    by (simp add: format_text_def print_format_def digit_char_def numeral_2_eq_2)
  have l: "Suc (length (format_text print_format)) = 8" "length (format_text print_format) < 2 ^ 64" unfolding t by simp_all
  have "stands print_mem 0x1000 (format_text print_format @ [0])"
    unfolding t by (simp add: print_mem_def put_bytes_def)
  moreover have "bytes_at print_mem 0x1100 9 = map of_char PREFIX"
    by (simp add: print_mem_def PREFIX_def bytes_at_def put_bytes_def upt_rec)
  moreover have "area 0x1000 8 \<inter> (area 0x2000 6 \<union> area 0x4000 256 \<union> area 0x3000 43) = {}"
    using area_far[of "0x1000" 8 "0x2000" 6] area_far[of "0x1000" 8 "0x4000" 256] area_far[of "0x1000" 8 "0x3000" 43] by auto
  moreover have "area 0x1100 9 \<inter> (area 0x2000 6 \<union> area 0x4000 256 \<union> area 0x3000 43) = {}"
    using area_far[of "0x1100" 9 "0x2000" 6] area_far[of "0x1100" 9 "0x4000" 256] area_far[of "0x1100" 9 "0x3000" 43] by auto
  moreover have "strings_ok A m str lit ap k print_format" for A m str lit ap k by (simp add: print_format_def)
  ultimately show ?thesis unfolding in_place_def l(1) using l(2) by blast
qed

theorem snprintf_prints_witness:
  "\<exists>m. snprintf 0x3000 0x4000 (\<lambda>_. 0x1100) (\<lambda>_. 0) 0x2000 6 0x1000 (\<lambda>_. 42) \<lparr>umem = print_mem, errno = 0, rt_kernel = ()\<rparr> =
      Ok (7, \<lparr>umem = m, errno = 0, rt_kernel = ()\<rparr>) \<and>
    same (area 0x4000 256 \<union> area 0x3000 43) (put_bytes 0x2000 (map of_char ''n=  42'') print_mem) m"
proof -
  have o: "format_out (\<lambda>_. []) (\<lambda>_. 0x1100) (\<lambda>_. 42) 0 print_format = map of_char ''n=  42%''"
    by code_simp
  have "area 0x4000 256 \<inter> area 0x2000 6 = {}" "area 0x3000 43 \<inter> area 0x2000 6 = {}" "area 0x3000 43 \<inter> area 0x4000 256 = {}"
    using area_far[of "0x2000" 6 "0x4000" 256] area_far[of "0x2000" 6 "0x3000" 43] area_far[of "0x3000" 43 "0x4000" 256] by auto
  moreover have "format_ok print_format" by (auto simp: print_format_def INT_MAX_def len_type_def)
  ultimately show ?thesis
    using snprintf_prints[of "0x2000" 6 "0x4000" "0x3000" print_format "\<lparr>umem = print_mem, errno = 0, rt_kernel = ()\<rparr>" "0x1000"
      "\<lambda>_. []" "\<lambda>_. 0x1100" "\<lambda>_. 42" "map of_char ''n=  42%''" "\<lambda>_. 0"] print_in_place o by (simp add: INT_MAX_def)
qed

end
