(* ===== verification/Args_Spec.thy ===== *)
theory Args_Spec
  imports Rt_process C_stdio
begin

text \<open>
  The arguments of a program, from the parent's memory through the block that \<open>setup_as_for_proc\<close> lays out and hands over to
  the \<open>main\<close> of the new program.
\<close>

section \<open>Reading and writing in a block\<close>

lemma area_off:
  assumes "k + n \<le> 2 ^ 64"
  shows "x \<in> area (B + of_nat k) n \<longleftrightarrow> k \<le> unat (x - B) \<and> unat (x - B) < k + n"
proof (cases "n = 0")
  case False
  have e: "x - (B + of_nat k) = x - B - of_nat k" by simp
  have "unat (x - B - of_nat k) = (if k \<le> unat (x - B) then unat (x - B) - k else 2 ^ 64 + unat (x - B) - k)"
    by (rule unat_sub_of_nat) (use assms False in simp)
  then show ?thesis using assms by (simp only: area_def mem_Collect_eq e split: if_split) arith
qed (simp add: area_def)

lemma rd64_same: "same A m m' \<Longrightarrow> area a 8 \<inter> A = {} \<Longrightarrow> rd64 m' a = rd64 m a"
proof (rule rd64_cong)
  fix q assume "same A m m'" "area a 8 \<inter> A = {}" and "q < (8 :: nat)"
  then show "m' (a + of_nat q) = m (a + of_nat q)" using area_nth[of q 8 a] by (auto simp: same_def)
qed

lemma wr64_same: "same (area a 8) m (wr64 a v m)"
  by (simp add: same_def area_def wr64_def word_less_nat_alt)

lemma wr32_same: "same (area a 4) m (wr32 a v m)"
  by (simp add: same_def area_def wr32_def word_less_nat_alt)

lemma rd32_same: "same A m m' \<Longrightarrow> area a 4 \<inter> A = {} \<Longrightarrow> rd32 m' a = rd32 m a"
proof -
  assume s: "same A m m'" "area a 4 \<inter> A = {}"
  have "m' (a + of_nat q) = m (a + of_nat q)" if "q < 4" for q using s area_nth[of q 4 a] that by (auto simp: same_def)
  from this[of 0] this[of 1] this[of 2] this[of 3] show "rd32 m' a = rd32 m a" by (simp add: rd32_def)
qed

lemma rd32_wr32: "rd32 (wr32 a v m) a = v"
proof (rule bit_word_eqI)
  fix n assume "n < LENGTH(32)"
  then consider "n < 8" | "8 \<le> n" "n < 16" | "16 \<le> n" "n < 24" | "24 \<le> n" "n < 32" by fastforce
  then show "bit (rd32 (wr32 a v m) a) n = bit v n"
    by cases (simp_all add: rd32_def wr32_def bit_or_iff bit_push_bit_iff bit_unsigned_iff bit_drop_bit_eq, linarith+)
qed

lemma strcpy_writes:
  assumes c: "cstr_at m q xs" and d: "area q (Suc (length xs)) \<inter> area p (Suc (length xs)) = {}"
  shows "cstr_at (snd (strcpy p q m)) p xs" "same (area p (Suc (length xs))) m (snd (strcpy p q m))"
proof -
  let ?m = "snd (strcpy p q m)"
  have l: "Suc (length xs) < 2 ^ 64" using c by (simp add: cstr_at_def)
  have f: "Suc (length xs) \<le> unat (p - q)"
  proof (rule ccontr)
    assume "\<not> ?thesis"
    then have "p \<in> area q (Suc (length xs))" by (simp add: area_def)
    moreover have "p \<in> area p (Suc (length xs))" by (simp add: area_def)
    ultimately show False using d by blast
  qed
  note at = strcpy_at[OF c f]
  have "bytes_at ?m p (Suc (length xs)) = xs @ [0]"
    by (rule bytes_atI) (use at l in \<open>simp_all add: less_Suc_eq_le\<close>)
  then show "cstr_at ?m p xs" using c by (simp add: cstr_at_def)
  show "same (area p (Suc (length xs))) m ?m" unfolding same_def
  proof (intro allI impI)
    fix x assume "x \<notin> area p (Suc (length xs))"
    then have "\<not> unat (x - p) \<le> length xs" by (simp add: area_def less_Suc_eq_le)
    then show "?m x = m x" using at[of "unat (x - p)"] unsigned_less[of "x - p"] by simp
  qed
qed

section \<open>The strings of the block\<close>

text \<open>An argument takes its bytes, the zero, and one byte more, since \<open>strlen\<close> counts the zero.\<close>

definition arg_room :: "u8 list list \<Rightarrow> nat" where "arg_room xss = sum_list (map (\<lambda>xs. length xs + 2) xss)"

lemma arg_room_simps [simp]: "arg_room [] = 0" "arg_room (xs # xss) = length xs + 2 + arg_room xss"
  by (simp_all add: arg_room_def)

text \<open>The strings \<open>xss\<close> in a table at \<open>argv\<close>, none of it in \<open>A\<close>.\<close>

definition args_at :: "u64 set \<Rightarrow> mem \<Rightarrow> u64 \<Rightarrow> nat \<Rightarrow> u8 list list \<Rightarrow> bool" where
  "args_at A m argv i xss \<longleftrightarrow> (\<forall>j < length xss. area (argv + 8 * of_nat (i + j)) 8 \<inter> A = {} \<and>
     cstr_at m (rd64 m (argv + 8 * of_nat (i + j))) (xss ! j) \<and> area (rd64 m (argv + 8 * of_nat (i + j))) (Suc (length (xss ! j))) \<inter> A = {})"

lemma args_at_same:
  assumes "same A m m'" "args_at A m argv i xss"
  shows "args_at A m' argv i xss"
proof -
  have "rd64 m' (argv + 8 * of_nat (i + j)) = rd64 m (argv + 8 * of_nat (i + j))" if "j < length xss" for j
    by (rule rd64_same[OF assms(1)]) (use assms(2) that in \<open>simp add: args_at_def\<close>)
  then show ?thesis using assms cstr_at_same[OF assms(1)] by (simp add: args_at_def)
qed

lemma args_at_Cons:
  assumes "args_at A m argv i (xs # xss)"
  shows "cstr_at m (rd64 m (argv + 8 * of_nat i)) xs" "area (argv + 8 * of_nat i) 8 \<inter> A = {}"
    "area (rd64 m (argv + 8 * of_nat i)) (Suc (length xs)) \<inter> A = {}" "args_at A m argv (Suc i) xss"
proof -
  have "area (argv + 8 * of_nat (i + j)) 8 \<inter> A = {} \<and> cstr_at m (rd64 m (argv + 8 * of_nat (i + j))) ((xs # xss) ! j) \<and>
      area (rd64 m (argv + 8 * of_nat (i + j))) (Suc (length ((xs # xss) ! j))) \<inter> A = {}" if "j < Suc (length xss)" for j
    using assms that unfolding args_at_def by simp
  from this[of 0] this[of "Suc _"] show "cstr_at m (rd64 m (argv + 8 * of_nat i)) xs" "area (argv + 8 * of_nat i) 8 \<inter> A = {}"
      "area (rd64 m (argv + 8 * of_nat i)) (Suc (length xs)) \<inter> A = {}" "args_at A m argv (Suc i) xss"
    unfolding args_at_def by simp_all
qed

lemma strlen_word: "cstr_at m s xs \<Longrightarrow> strlen s m = of_nat (Suc (length xs))"
  using strlen_cstr[of m s xs] by (metis of_nat_unat ucast_id)

lemma arg_total_sum: "args_at A m argv i xss \<Longrightarrow> arg_total m argv (length xss) i acc = acc + of_nat (arg_room xss)"
proof (induction xss arbitrary: i acc)
  case (Cons xs xss)
  note A = args_at_Cons[OF Cons.prems]
  show ?case using Cons.IH[OF A(4)] strlen_word[OF A(1)] by (simp add: algebra_simps)
qed simp

text \<open>One turn of the loop writes a pointer to the table and a string to its place, and nothing else.\<close>

lemma put_arg_turn:
  assumes H: "args_at A m argv i (xs # xss)" and T: "area t 8 \<subseteq> A" "area p (Suc (length xs)) \<subseteq> A" "area t 8 \<inter> area p (Suc (length xs)) = {}"
    and t: "t = tab + 8 * of_nat i"
  obtains m' where "put_args shift argv tab (length (xs # xss)) i p m = put_args shift argv tab (length xss) (Suc i) (p + of_nat (length xs + 2)) m'"
    "same (area t 8 \<union> area p (Suc (length xs))) m m'" "rd64 m' t = p + shift" "cstr_at m' p xs"
proof -
  note H = args_at_Cons[OF H]
  define m1 where "m1 = wr64 t (p + shift) m"
  define q where "q = rd64 m (argv + 8 * of_nat i)"
  define m2 where "m2 = snd (strcpy p q m1)"
  have s1: "same (area t 8) m m1" unfolding m1_def by (rule wr64_same)
  have q1: "rd64 m1 (argv + 8 * of_nat i) = q" unfolding q_def by (rule rd64_same[OF s1]) (use H(2) T(1) in blast)
  have c1: "cstr_at m1 q xs" unfolding q_def by (rule cstr_at_same[OF s1 _ H(1)]) (use H(3) T(1) in blast)
  have d1: "area q (Suc (length xs)) \<inter> area p (Suc (length xs)) = {}" using H(3) T(2) unfolding q_def by blast
  note w = strcpy_writes[OF c1 d1, folded m2_def]
  have s2: "same (area t 8 \<union> area p (Suc (length xs))) m m2" by (rule same_trans[OF s1 w(2)])
  then have sA: "same A m m2" by (rule same_mono) (use T in blast)
  have q2: "rd64 m2 (argv + 8 * of_nat i) = q" unfolding q_def by (rule rd64_same[OF sA H(2)])
  have c2: "cstr_at m2 q xs" unfolding q_def by (rule cstr_at_same[OF sA H(3) H(1)])
  have "p + (of_nat (Suc (length xs)) + 1) = p + of_nat (length xs + 2)" by simp
  then have "put_args shift argv tab (length (xs # xss)) i p m = put_args shift argv tab (length xss) (Suc i) (p + of_nat (length xs + 2)) m2"
    unfolding list.size(4) add_Suc_right add_0_right put_args.simps Let_def t[symmetric] m1_def[symmetric] q1 m2_def[symmetric] q2 strlen_word[OF c2]
    by (simp only:)
  moreover have "rd64 m2 t = p + shift" using rd64_same[OF w(2) T(3)] by (simp add: m1_def)
  ultimately show thesis using that s2 w(1) by blast
qed

text \<open>After the loop: the table points to the strings, in a block at \<open>B\<close> that is in \<open>A\<close>.\<close>

lemma put_args_block:
  assumes "args_at A m argv i xss" "area B S \<subseteq> A" "S \<le> 2 ^ 64" "k + 8 * (i + length xss) \<le> l" "l + arg_room xss \<le> S"
  shows "\<exists>qs. length qs = length xss \<and> same (area (B + of_nat (k + 8 * i)) (8 * length xss) \<union> area (B + of_nat l) (arg_room xss)) m
      (put_args shift argv (B + of_nat k) (length xss) i (B + of_nat l) m) \<and>
    (\<forall>j < length xss. l \<le> qs ! j \<and> qs ! j + Suc (length (xss ! j)) \<le> l + arg_room xss \<and>
      rd64 (put_args shift argv (B + of_nat k) (length xss) i (B + of_nat l) m) (B + of_nat (k + 8 * (i + j))) = B + of_nat (qs ! j) + shift \<and>
      cstr_at (put_args shift argv (B + of_nat k) (length xss) i (B + of_nat l) m) (B + of_nat (qs ! j)) (xss ! j))"
  using assms(1,4,5)
proof (induction xss arbitrary: i l m)
  case Nil
  then show ?case by simp
next
  case (Cons xs xss)
  let ?n = "Suc (length xs)" and ?t = "B + of_nat (k + 8 * i)" and ?p = "B + of_nat l" and ?l = "l + (length xs + 2)"
  let ?T = "area ?t 8" and ?P = "area ?p ?n"
    and ?R = "area (B + of_nat (k + 8 * Suc i)) (8 * length xss) \<union> area (B + of_nat ?l) (arg_room xss)"
  have T: "x \<in> ?T \<longleftrightarrow> k + 8 * i \<le> unat (x - B) \<and> unat (x - B) < k + 8 * i + 8" for x
    by (rule area_off) (use Cons.prems(2,3) assms(3) in simp)
  have P: "x \<in> ?P \<longleftrightarrow> l \<le> unat (x - B) \<and> unat (x - B) < l + ?n" for x
    by (rule area_off) (use Cons.prems(3) assms(3) in simp)
  have R: "x \<in> ?R \<longleftrightarrow> (k + 8 * Suc i \<le> unat (x - B) \<and> unat (x - B) < k + 8 * Suc i + 8 * length xss) \<or>
      (?l \<le> unat (x - B) \<and> unat (x - B) < ?l + arg_room xss)" for x
    unfolding Un_iff using area_off[of "k + 8 * Suc i" "8 * length xss" x B] area_off[of ?l "arg_room xss" x B] Cons.prems(2,3) assms(3) by simp
  have K: "x \<in> area ?t (8 * length (xs # xss)) \<longleftrightarrow> k + 8 * i \<le> unat (x - B) \<and> unat (x - B) < k + 8 * i + 8 * length (xs # xss)"
    "x \<in> area ?p (arg_room (xs # xss)) \<longleftrightarrow> l \<le> unat (x - B) \<and> unat (x - B) < l + arg_room (xs # xss)" for x
    by (rule area_off, use Cons.prems(2,3) assms(3) in simp)+
  have TP: "?T \<subseteq> A" "?P \<subseteq> A" "?T \<inter> ?P = {}" using assms(2) Cons.prems(2,3) T P by (auto simp: area_def[of B])
  have TR: "?T \<inter> ?R = {}" "?P \<inter> ?R = {}" using Cons.prems(2) unfolding disjoint_iff T P R by auto
  have sub: "?T \<union> ?P \<union> ?R \<subseteq> area ?t (8 * length (xs # xss)) \<union> area ?p (arg_room (xs # xss))"
    unfolding subset_iff Un_iff[of _ "?T \<union> ?P"] Un_iff[of _ ?T] Un_iff[of _ "area ?t (8 * length (xs # xss))"] T P R K by auto
  obtain m2 where m2: "put_args shift argv (B + of_nat k) (length (xs # xss)) i ?p m =
      put_args shift argv (B + of_nat k) (length xss) (Suc i) (?p + of_nat (length xs + 2)) m2"
    "same (?T \<union> ?P) m m2" "rd64 m2 ?t = ?p + shift" "cstr_at m2 ?p xs"
    by (rule put_arg_turn[OF Cons.prems(1) TP, of "B + of_nat k"]) simp
  let ?m' = "put_args shift argv (B + of_nat k) (length xss) (Suc i) (B + of_nat ?l) m2"
  have step: "put_args shift argv (B + of_nat k) (length (xs # xss)) i ?p m = ?m'" using m2(1) by (simp only: of_nat_add add.assoc)
  have "same A m m2" by (rule same_mono[OF m2(2)]) (use TP in blast)
  then have "args_at A m2 argv (Suc i) xss" using args_at_same args_at_Cons(4)[OF Cons.prems(1)] by blast
  moreover have "k + 8 * (Suc i + length xss) \<le> ?l" "?l + arg_room xss \<le> S" using Cons.prems(2,3) by simp_all
  ultimately obtain qs where qs: "length qs = length xss" "same ?R m2 ?m'"
    "\<forall>j < length xss. ?l \<le> qs ! j \<and> qs ! j + Suc (length (xss ! j)) \<le> ?l + arg_room xss \<and>
      rd64 ?m' (B + of_nat (k + 8 * (Suc i + j))) = B + of_nat (qs ! j) + shift \<and> cstr_at ?m' (B + of_nat (qs ! j)) (xss ! j)"
    using Cons.IH by blast
  have r0: "rd64 ?m' ?t = ?p + shift" "cstr_at ?m' ?p xs" using rd64_same[OF qs(2) TR(1)] cstr_at_same[OF qs(2) TR(2) m2(4)] m2(3) by simp_all
  have "same (area ?t (8 * length (xs # xss)) \<union> area ?p (arg_room (xs # xss))) m ?m'"
    by (rule same_mono[OF same_trans[OF m2(2) qs(2)] sub])
  moreover have "l \<le> (l # qs) ! j \<and> (l # qs) ! j + Suc (length ((xs # xss) ! j)) \<le> l + arg_room (xs # xss) \<and>
      rd64 ?m' (B + of_nat (k + 8 * (i + j))) = B + of_nat ((l # qs) ! j) + shift \<and> cstr_at ?m' (B + of_nat ((l # qs) ! j)) ((xs # xss) ! j)"
    if "j < length (xs # xss)" for j
    using r0 qs(3)[rule_format, of "j - 1"] that by (cases j) simp_all
  ultimately show ?case unfolding step using qs(1) by (intro exI[of _ "l # qs"]) simp
qed

section \<open>The block\<close>

lemma filled_same: "same (area B n) m (filled n B c m)"
  by (simp add: same_def area_def filled_def)

text \<open>What the new program sees: the count, a table of strings and the null pointer behind them.\<close>

definition args_seen :: "mem \<Rightarrow> u8 list list \<Rightarrow> bool" where
  "args_seen m xss \<longleftrightarrow> rd32 m INIT_DATA = of_nat (length xss) \<and>
     (\<forall>i < length xss. cstr_at m (rd64 m (rd64 m (INIT_DATA + 8) + 8 * of_nat i)) (xss ! i)) \<and>
     rd64 m (rd64 m (INIT_DATA + 8) + 8 * of_nat (length xss)) = 0"

text \<open>The block at \<open>B\<close>, in terms of offsets; \<open>D\<close> is the address it will have.\<close>

definition block_ok :: "mem \<Rightarrow> u64 \<Rightarrow> u64 \<Rightarrow> nat \<Rightarrow> nat \<Rightarrow> u8 list list \<Rightarrow> bool" where
  "block_ok m B D S k xss \<longleftrightarrow> rd32 m (B + of_nat (S - 24)) = of_nat (length xss) \<and> rd64 m (B + of_nat (S - 16)) = D + of_nat k \<and>
     rd64 m (B + of_nat (S - 8)) = rt_ALIGNDOWN (D - 1) 16 \<and> k + 8 * Suc (length xss) \<le> S - 24 \<and> rd64 m (B + of_nat (k + 8 * length xss)) = 0 \<and>
     (\<forall>j < length xss. \<exists>q. q + Suc (length (xss ! j)) \<le> S - 24 \<and> rd64 m (B + of_nat (k + 8 * j)) = D + of_nat q \<and> cstr_at m (B + of_nat q) (xss ! j))"

lemma block_written:
  assumes a: "args_at (area B S) m argv 0 xss" and S: "24 + arg_room xss + 8 * Suc (length xss) \<le> S" "S \<le> 2 ^ 63"
    and k: "k = S - 24 - arg_room xss - 8 * Suc (length xss)" "l = S - 24 - arg_room xss"
    and m1: "m1 = put_args (D - B) argv (B + of_nat k) (length xss) 0 (B + of_nat l) m"
  shows "block_ok (wr64 (B + of_nat (S - 8)) (rt_ALIGNDOWN (D - 1) 16) (wr64 (B + of_nat (S - 16)) (B + of_nat k + (D - B))
      (wr32 (B + of_nat (S - 24)) (of_nat (length xss)) (wr64 (B + of_nat (k + 8 * length xss)) 0 m1)))) B D S k xss"
proof -
  let ?n = "length xss"
  have b: "k + 8 * (0 + ?n) \<le> l" "l + arg_room xss \<le> S" "k + 8 * ?n + 8 = l" "l + arg_room xss = S - 24" using S k by simp_all
  obtain qs where qs: "length qs = ?n"
    "\<forall>j < ?n. l \<le> qs ! j \<and> qs ! j + Suc (length (xss ! j)) \<le> l + arg_room xss \<and>
      rd64 m1 (B + of_nat (k + 8 * (0 + j))) = B + of_nat (qs ! j) + (D - B) \<and> cstr_at m1 (B + of_nat (qs ! j)) (xss ! j)"
    using put_args_block[OF a order_refl _ b(1,2), of "D - B"] S(2) unfolding m1[symmetric] by auto
  define m2 where "m2 = wr64 (B + of_nat (k + 8 * ?n)) 0 m1"
  define m3 where "m3 = wr32 (B + of_nat (S - 24)) (of_nat ?n) m2"
  define m4 where "m4 = wr64 (B + of_nat (S - 16)) (B + of_nat k + (D - B)) m3"
  define m5 where "m5 = wr64 (B + of_nat (S - 8)) (rt_ALIGNDOWN (D - 1) 16) m4"
  note W = wr64_same[of "B + of_nat (k + 8 * ?n)" m1 0, folded m2_def] wr32_same[of "B + of_nat (S - 24)" m2 "of_nat ?n", folded m3_def]
    wr64_same[of "B + of_nat (S - 16)" m3 "B + of_nat k + (D - B)", folded m4_def] wr64_same[of "B + of_nat (S - 8)" m4 "rt_ALIGNDOWN (D - 1) 16", folded m5_def]
  have dj: "area (B + of_nat i) c \<inter> area (B + of_nat j) d = {}" if "i + c \<le> j \<or> j + d \<le> i" "i + c \<le> S" "j + d \<le> S" for i j c d
    using area_off[of i c _ B] area_off[of j d _ B] that S(2) by fastforce
  have s: "S - 24 + 4 \<le> S - 16" "S - 16 + 8 = S - 8" "S - 8 + 8 = S" using S by simp_all
  have r5: "rd64 m5 (B + of_nat (S - 8)) = rt_ALIGNDOWN (D - 1) 16" by (simp only: m5_def rd64_wr64_same)
  have r4: "rd64 m5 (B + of_nat (S - 16)) = D + of_nat k"
    using rd64_same[OF W(4) dj[of "S - 16" 8 "S - 8" 8]] s by (simp add: m4_def)
  have r3: "rd32 m5 (B + of_nat (S - 24)) = of_nat ?n"
    using rd32_same[OF W(4) dj[of "S - 24" 4 "S - 8" 8]] rd32_same[OF W(3) dj[of "S - 24" 4 "S - 16" 8]] s by (simp add: m3_def rd32_wr32)
  have up: "rd64 m5 (B + of_nat i) = rd64 m2 (B + of_nat i)" if "i + 8 \<le> S - 24" for i
    using rd64_same[OF W(4) dj[of i 8 "S - 8" 8]] rd64_same[OF W(3) dj[of i 8 "S - 16" 8]] rd64_same[OF W(2) dj[of i 8 "S - 24" 4]] that s by simp
  have r2: "rd64 m5 (B + of_nat (k + 8 * ?n)) = 0" using up[of "k + 8 * ?n"] b by (simp only: m2_def rd64_wr64_same)
  have r1: "rd64 m5 (B + of_nat (k + 8 * j)) = D + of_nat (qs ! j)" if "j < ?n" for j
    using up[of "k + 8 * j"] rd64_same[OF W(1) dj[of "k + 8 * j" 8 "k + 8 * ?n" 8]] qs(2) that b by simp
  have c1: "cstr_at m5 (B + of_nat (qs ! j)) (xss ! j)" if j: "j < ?n" for j
  proof -
    let ?q = "qs ! j" and ?c = "Suc (length (xss ! j))"
    have q: "l \<le> ?q" "?q + ?c \<le> S - 24" "cstr_at m1 (B + of_nat ?q) (xss ! j)" using qs(2) j b(4) by auto
    have "cstr_at m2 (B + of_nat ?q) (xss ! j)" by (rule cstr_at_same[OF W(1) dj q(3)]) (use q b in simp_all)
    then have "cstr_at m3 (B + of_nat ?q) (xss ! j)" by (rule cstr_at_same[OF W(2) dj, rotated -1]) (use q S(1) in arith)+
    then have "cstr_at m4 (B + of_nat ?q) (xss ! j)" by (rule cstr_at_same[OF W(3) dj, rotated -1]) (use q S(1) in arith)+
    then show ?thesis by (rule cstr_at_same[OF W(4) dj, rotated -1]) (use q S(1) in arith)+
  qed
  have "\<exists>q. q + Suc (length (xss ! j)) \<le> S - 24 \<and> rd64 m5 (B + of_nat (k + 8 * j)) = D + of_nat q \<and> cstr_at m5 (B + of_nat q) (xss ! j)"
    if "j < ?n" for j using r1[OF that] c1[OF that] qs(2) that b(4) by auto
  then have "block_ok m5 B D S k xss" unfolding block_ok_def using r2 r3 r4 r5 b by simp
  then show ?thesis unfolding m5_def m4_def m3_def m2_def .
qed

text \<open>The same bytes at the other address.\<close>

lemma block_seen:
  assumes b: "block_ok m B D S k xss" and U: "bytes_at U D S = bytes_at m B S" and S: "24 \<le> S" "S \<le> 2 ^ 63" and D: "D = USERLAND_END_ADDR - of_nat S"
  shows "args_seen U xss" "start_rsp U = rt_ALIGNDOWN (D - 1) 16"
proof -
  have e: "U (D + of_nat i) = m (B + of_nat i)" if "i < S" for i using arg_cong[OF U, of "\<lambda>xs. xs ! i"] that by simp
  have r64: "rd64 U (D + of_nat i) = rd64 m (B + of_nat i)" if "i + 8 \<le> S" for i
  proof (rule rd64_eqI)
    fix q r assume "q < (8 :: nat)" "r < (8 :: nat)"
    then show "bit (U (D + of_nat i + of_nat q)) r = bit (rd64 m (B + of_nat i)) (8 * q + r)"
      using e[of "i + q"] that by (simp add: bit_rd64 add.assoc)
  qed
  have r32: "rd32 U (D + of_nat (S - 24)) = rd32 m (B + of_nat (S - 24))"
    using e[of "S - 24 + 0"] e[of "S - 24 + 1"] e[of "S - 24 + 2"] e[of "S - 24 + 3"] S(1) by (simp add: rd32_def add.assoc)
  have c: "cstr_at U (D + of_nat q) xs" if "cstr_at m (B + of_nat q) xs" "q + Suc (length xs) \<le> S" for q xs
  proof -
    have "bytes_at U (D + of_nat q) (Suc (length xs)) = bytes_at m (B + of_nat q) (Suc (length xs))"
      by (rule nth_equalityI) (use e[of "q + _"] that(2) in \<open>simp_all add: add.assoc\<close>)
    then show ?thesis using that(1) by (simp add: cstr_at_def)
  qed
  have a: "INIT_DATA = D + of_nat (S - 24)" "INIT_DATA + 8 = D + of_nat (S - 16)" "0x7ffffffffff8 = D + of_nat (S - 8)"
    using S(1) by (simp_all add: D INIT_DATA_def INIT_DATA_SIZE_def USERLAND_END_ADDR_def)
  have t: "D + of_nat k + 8 * of_nat j = D + of_nat (k + 8 * j)" for j by simp
  have v: "rd64 U (INIT_DATA + 8) = D + of_nat k" unfolding a(2) using r64[of "S - 16"] b S(1) by (simp add: block_ok_def)
  show "start_rsp U = rt_ALIGNDOWN (D - 1) 16" unfolding start_rsp_def a(3) using r64[of "S - 8"] b S(1) by (simp add: block_ok_def)
  have "cstr_at U (rd64 U (D + of_nat (k + 8 * j))) (xss ! j)" if "j < length xss" for j
    using b that r64[of "k + 8 * j"] c unfolding block_ok_def by fastforce
  moreover have "k + 8 * length xss + 8 \<le> S" using b by (auto simp: block_ok_def)
  then have "rd64 U (D + of_nat (k + 8 * length xss)) = 0" using r64 b unfolding block_ok_def by metis
  ultimately show "args_seen U xss" unfolding args_seen_def v t using r32 b by (simp add: a(1) block_ok_def)
qed
text \<open>The size of the block, and the addresses around it.\<close>

lemma block_size:
  assumes S: "S = unat (PS_ALIGNUP (of_nat (24 + r + 8 * (n + 1))))" "24 + r + 8 * (n + 1) \<le> 2 ^ 40"
  shows "24 + r + 8 * Suc n \<le> S" "S \<le> 2 ^ 41" "unat (of_nat S :: u64) = S"
    "rt_ALIGNUP (INIT_DATA_SIZE + of_nat r + (of_nat n + 1) * 8) OSRT_PAGE_SIZE = of_nat S"
proof -
  let ?r = "24 + r + 8 * Suc n"
  let ?raw = "of_nat ?r :: u64"
  have u: "unat ?raw = ?r" by (rule unat_of_nat_small) (use S(2) in simp)
  have "?r \<le> S" "S < ?r + 2097152" using unat_PS_ALIGNUP[of ?raw] PS_ALIGNUP_bound[of ?raw] u S by (auto simp: unat_gt_0[symmetric])
  then show "?r \<le> S" "S \<le> 2 ^ 41" "unat (of_nat S :: u64) = S" using S(2) by (simp_all add: unat_of_nat_small)
  have "INIT_DATA_SIZE + of_nat r + (of_nat n + 1) * 8 = ?raw" by (simp add: INIT_DATA_SIZE_def algebra_simps)
  moreover have "rt_ALIGNUP ?raw OSRT_PAGE_SIZE = PS_ALIGNUP ?raw" by (simp only: rt_ALIGNUP_def PS_ALIGNUP_def)
  moreover have "PS_ALIGNUP ?raw = of_nat S" unfolding S(1) by (simp only: of_nat_unat ucast_id Suc_eq_plus1)
  ultimately show "rt_ALIGNUP (INIT_DATA_SIZE + of_nat r + (of_nat n + 1) * 8) OSRT_PAGE_SIZE = of_nat S" by (simp only:)
qed

text \<open>A number of arguments as an \<open>int\<close>.\<close>

lemma int_arg:
  assumes "n + 1 < 2 ^ 31"
  shows "nat (sint (of_nat n :: u32)) = n" "scast (of_nat n :: u32) = (of_nat n :: u64)"
    "scast (of_nat n + 1 :: u32) = (of_nat n + 1 :: u64)"
proof -
  have s: "sint (of_nat k :: u32) = int k" if "k < 2 ^ 31" for k
  proof -
    have "- (2 ^ 31) \<le> int k" "int k < 2 ^ 31" using that by simp_all
    then have "signed_take_bit 31 (int k) = int k" by (rule signed_take_bit_int_eq_self)
    then show ?thesis unfolding signed_of_nat by simp
  qed
  have n: "n < 2 ^ 31" "Suc n < 2 ^ 31" using assms by simp_all
  show "nat (sint (of_nat n :: u32)) = n" unfolding s[OF n(1)] by simp
  show "scast (of_nat n :: u32) = (of_nat n :: u64)" unfolding scast_eq s[OF n(1)] by simp
  have "of_nat n + 1 = (of_nat (Suc n) :: u32)" by simp
  then show "scast (of_nat n + 1 :: u32) = (of_nat n + 1 :: u64)" unfolding scast_eq s[OF n(2)] by (simp only: s[OF n(2)]) simp
qed

lemma stack_address:
  assumes "S \<le> 2 ^ 41" "D = USERLAND_END_ADDR - of_nat S"
  shows "D - STACK_SIZE \<noteq> 0" "\<not> sint (D - STACK_SIZE) < 0" "\<not> sint D < 0"
proof -
  have "D = of_nat (2 ^ 47 - S)" using assms by (simp add: USERLAND_END_ADDR_def)
  then have "unat D = 2 ^ 47 - S" by (simp only: unat_of_nat_small) (rule unat_of_nat_small, simp)
  then show "\<not> sint D < 0" by (simp add: sint_unat)
  have "D - STACK_SIZE = of_nat (2 ^ 47 - S - 2 ^ 23)" using assms by (simp add: USERLAND_END_ADDR_def STACK_SIZE_def)
  then have "unat (D - STACK_SIZE) = 2 ^ 47 - S - 2 ^ 23" by (simp only: unat_of_nat_small) (rule unat_of_nat_small, simp)
  then show "D - STACK_SIZE \<noteq> 0" "\<not> sint (D - STACK_SIZE) < 0" using assms(1) by (auto simp: sint_unat unat_gt_0[symmetric])
qed

lemma block_addresses:
  assumes "24 + r + 8 * Suc n \<le> S" and k: "k = S - 24 - r - 8 * Suc n" "l = S - 24 - r"
  shows "B + of_nat S - INIT_DATA_SIZE = B + of_nat (S - 24)" "B + of_nat (S - 24) - of_nat r = B + of_nat l" "B + of_nat l - (of_nat n + 1) * 8 = B + of_nat k"
    "B + of_nat (S - 24) + 8 = B + of_nat (S - 16)" "B + of_nat (S - 24) + 16 = B + of_nat (S - 8)" "B + of_nat k + 8 * of_nat n = B + of_nat (k + 8 * n)"
  using assms(1) by (simp_all add: INIT_DATA_SIZE_def k algebra_simps)

section \<open>Properties\<close>

text \<open>C30: The arguments of a program reach its \<open>main\<close>.  After a program has been loaded, \<open>setup_as_for_proc\<close> asks for memory, hands over a
  block of it to the end of the new address space, and asks for a stack below it.  In every state
  whose memory has the bytes of the block there, \<open>main\<close> is called with the number of the
  arguments and a table of the same strings with a null pointer behind it, and the stack
  pointer at the start lies at the top of the stack.\<close>

theorem arguments_reach_main:
  assumes load: "elf_load_from_memory (log_kernel ar) as elf s = (entry, t)" "entry \<noteq> 0"
    and S: "S = unat (PS_ALIGNUP (of_nat (24 + arg_room xss + 8 * (length xss + 1))))" "24 + arg_room xss + 8 * (length xss + 1) \<le> 2 ^ 40"
    and B: "B = ar (length (rt_kernel t))" "0 \<le> sint B" and args: "args_at (area B S) (umem t) argv 0 xss"
    and D: "D = USERLAND_END_ADDR - of_nat S" and n: "length xss + 1 < 2 ^ 31"
  shows "\<exists>u bs. setup_as_for_proc (log_kernel ar) as elf (of_nat (length xss)) argv s = Ok (entry, u) \<and>
    rt_kernel u = rt_kernel t @ [(usys_mmap AS_CURRENT 0 (of_nat S) OSRT_PAGE_ATTR_WRITABLE, []), (usys_mtransfer as AS_CURRENT D B (of_nat S) 0, bs),
      (usys_mmap as (D - STACK_SIZE) STACK_SIZE OSRT_PAGE_ATTR_WRITABLE, [])] \<and>
    (\<forall>w. bytes_at (umem w) D S = bs \<longrightarrow> args_seen (umem w) xss \<and> start_rsp (umem w) = rt_ALIGNDOWN (D - 1) 16 \<and>
      main_wrapper main call c kern w = bind_res (main (of_nat (length xss)) (rd64 (umem w) (INIT_DATA + 8)) w) (\<lambda>(ret, s). rt_exit call c kern (scast ret) s))"
proof -
  let ?n = "length xss"
  note Z = block_size[OF S]
  have sz: "S \<le> 2 ^ 63" using Z(2) by simp
  define k l where "k = S - 24 - arg_room xss - 8 * Suc ?n" and "l = S - 24 - arg_room xss"
  note ad = block_addresses[OF Z(1) k_def l_def, of B]
  let ?m0 = "filled S B 0 (umem t)"
  have a0: "args_at (area B S) ?m0 argv 0 xss" by (rule args_at_same[OF filled_same args])
  define m1 where "m1 = put_args (D - B) argv (B + of_nat k) ?n 0 (B + of_nat l) ?m0"
  define m5 where "m5 = wr64 (B + of_nat (S - 8)) (rt_ALIGNDOWN (D - 1) 16) (wr64 (B + of_nat (S - 16)) (B + of_nat k + (D - B))
      (wr32 (B + of_nat (S - 24)) (of_nat ?n) (wr64 (B + of_nat (k + 8 * ?n)) 0 m1)))"
  have ok: "block_ok m5 B D S k xss" unfolding m5_def by (rule block_written[OF a0 Z(1) sz k_def l_def m1_def])
  define bs where "bs = bytes_at m5 B S"
  let ?l0 = "rt_kernel t @ [(usys_mmap AS_CURRENT 0 (of_nat S) OSRT_PAGE_ATTR_WRITABLE, [])]"
  let ?l1 = "?l0 @ [(usys_mtransfer as AS_CURRENT D B (of_nat S) 0, bs)]"
  let ?l2 = "?l1 @ [(usys_mmap as (D - STACK_SIZE) STACK_SIZE OSRT_PAGE_ATTR_WRITABLE, [])]"
  note st = stack_address[OF Z(2) D]
  have c0: "do_syscall (log_kernel ar) (usys_mmap AS_CURRENT 0 (of_nat S) OSRT_PAGE_ATTR_WRITABLE) t = (B, t\<lparr>umem := ?m0, rt_kernel := ?l0\<rparr>)"
    using B(1) Z(3) by (simp add: do_syscall_def log_kernel_def usys_mmap_def)
  have c1: "do_syscall (log_kernel ar) (usys_mtransfer as AS_CURRENT D B (of_nat S) 0) (t\<lparr>umem := m5, rt_kernel := ?l0\<rparr>) = (D, t\<lparr>umem := m5, rt_kernel := ?l1\<rparr>)"
    using Z(3) by (simp add: do_syscall_def log_kernel_def usys_mtransfer_def bs_def)
  have c2: "do_syscall (log_kernel ar) (usys_mmap as (D - STACK_SIZE) STACK_SIZE OSRT_PAGE_ATTR_WRITABLE) (t\<lparr>umem := m5, rt_kernel := ?l1\<rparr>) =
      (D - STACK_SIZE, t\<lparr>umem := m5, rt_kernel := ?l2\<rparr>)"
    using st(1) by (simp add: do_syscall_def log_kernel_def usys_mmap_def)
  have t5: "t\<lparr>umem := x, rt_kernel := y, umem := z\<rparr> = t\<lparr>umem := z, rt_kernel := y\<rparr>" "umem (t\<lparr>umem := x, rt_kernel := y\<rparr>) = x" for x y z by simp_all
  have "setup_as_for_proc (log_kernel ar) as elf (of_nat ?n) argv s = Ok (entry, t\<lparr>umem := m5, rt_kernel := ?l2\<rparr>)"
    unfolding setup_as_for_proc_def load(1) Let_def prod.case int_arg[OF n] arg_total_sum[OF args] add_0_left Z(4) D[symmetric] c0
    using load(2) B(2) st(2,3)
    by (simp only: linorder_not_less[symmetric] rt_state.simps ad m1_def[symmetric] m5_def[symmetric] if_False prod.case t5 c1 c2 simp_thms)
  moreover have "args_seen (umem w) xss \<and> start_rsp (umem w) = rt_ALIGNDOWN (D - 1) 16 \<and>
      main_wrapper main call c kern w = bind_res (main (of_nat ?n) (rd64 (umem w) (INIT_DATA + 8)) w) (\<lambda>(ret, s). rt_exit call c kern (scast ret) s)"
    if w: "bytes_at (umem w) D S = bs" for w
    using block_seen[OF ok w[unfolded bs_def] _ sz D] Z(1) by (simp add: main_wrapper_def args_seen_def)
  ultimately show ?thesis by (intro exI[of _ "t\<lparr>umem := m5, rt_kernel := ?l2\<rparr>"] exI[of _ bs]) simp
qed
text \<open>A file without segments and one argument.\<close>

definition args_mem :: mem where
  "args_mem = put_bytes 0x1000 [0x7f, 69, 76, 70] (put_bytes 0x1018 [0, 0, 64] (put_bytes 0x2000 [0, 0x30] (put_bytes 0x3000 [104, 105, 0] (\<lambda>_. 0))))"

abbreviation args_state :: "transfer_log rt_state" where
  "args_state \<equiv> \<lparr>umem = args_mem, errno = 0, rt_kernel = []\<rparr>"

lemma args_mem_reads:
  "verify_ehdr args_mem 0x1000" "e_phnum args_mem 0x1000 = 0" "e_entry args_mem 0x1000 = 0x400000" "rd64 args_mem 0x2000 = 0x3000"
  "cstr_at args_mem 0x3000 [104, 105]"
  by (simp_all add: verify_ehdr_def e_phnum_def e_entry_def rd32_def rd16_def rd64_def args_mem_def put_bytes_def cstr_at_def bytes_at_def upt_rec)

lemma args_mem_args: "args_at (area 0x10000000 2097152) args_mem 0x2000 0 [[104, 105]]"
  using area_far[of "0x2000" 8 "0x10000000" 2097152] area_far[of "0x3000" 3 "0x10000000" 2097152]
  by (simp add: args_at_def args_mem_reads numeral_3_eq_3)

theorem arguments_reach_main_witness:
  "\<exists>u bs. setup_as_for_proc (log_kernel (\<lambda>_. 0x10000000)) 7 0x1000 1 0x2000 args_state = Ok (0x400000, u) \<and>
    rt_kernel u = [(usys_mmap AS_CURRENT 0 0x200000 OSRT_PAGE_ATTR_WRITABLE, []), (usys_mtransfer 7 AS_CURRENT 0x7fffffe00000 0x10000000 0x200000 0, bs),
      (usys_mmap 7 0x7fffff600000 STACK_SIZE OSRT_PAGE_ATTR_WRITABLE, [])] \<and>
    (\<forall>w :: transfer_log rt_state. bytes_at (umem w) 0x7fffffe00000 2097152 = bs \<longrightarrow> args_seen (umem w) [[104, 105]])"
proof -
  have l: "elf_load_from_memory (log_kernel (\<lambda>_. 0x10000000)) 7 0x1000 args_state = (0x400000, args_state)"
    by (simp add: elf_load_from_memory_def args_mem_reads)
  have S: "2097152 = unat (PS_ALIGNUP (of_nat (24 + arg_room [[104, 105]] + 8 * (length [[104, 105 :: u8]] + 1))))"
    by (simp add: PS_ALIGNUP_def OSRT_PAGE_SIZE_def)
  have D: "0x7fffffe00000 = USERLAND_END_ADDR - of_nat 2097152" "0x7fffffe00000 - STACK_SIZE = 0x7fffff600000"
    by (simp_all add: USERLAND_END_ADDR_def STACK_SIZE_def)
  show ?thesis
    using arguments_reach_main[OF l _ S _ _ _ _ D(1) _, of "0x10000000" "0x2000" "\<lambda>_ _ s. Ok (0, s)" "\<lambda>_ s. Ok s"
      "\<lparr>preinit_array = (0, 0), init_array = (0, 0), fini_array = (0, 0)\<rparr>" "log_kernel (\<lambda>_. 0)"] args_mem_args
    by (auto simp: D(2))
qed

end
