(* ===== verification/Console_Spec.thy ===== *)
theory Console_Spec
  imports Args_Spec
begin

text \<open>
  \<open>printf\<close> on the console: \<open>console_write\<close> opens the port for printing, sends one request for the bytes and closes the port.  With a
  kernel that takes the bytes of such requests the console is a stream of the formatter.
\<close>

text \<open>A kernel that gives a handle for every port, and collects the bytes of the requests.\<close>

definition print_kernel :: "u8 list kernel" where
  "print_kernel req m log = (case req of (no, a1, a2, a3, a4, a5, a6) \<Rightarrow>
     if no = 7 then (1, m, log)
     else if no = 9 then (0, m, log @ bytes_at m (rd64 m (a2 + 16)) (unat (rd64 m (a2 + 24))))
     else (0, m, log))"

lemma put_request_same: "same (area stk 48) m (put_request stk a l m)"
proof -
  have w: "same (area stk 48) m (wr64 (stk + of_nat k) v m)" if "k + 8 \<le> 48" for k v m
    by (rule same_mono[OF wr64_same]) (use area_tail[of k 8 stk] area_mono[of "k + 8" 48 stk] that in auto)
  have t: "same (area stk 48) m m' \<Longrightarrow> same (area stk 48) m (wr64 (stk + of_nat k) v m')" if "k + 8 \<le> 48" for k v m'
    using same_trans[of "area stk 48" m m' "area stk 48"] w[OF that] by (metis sup.idem)
  show ?thesis unfolding put_request_def
    using t[of 0] t[of 8] t[of 16] t[of 24] t[of 32] t[of 40] by simp
qed

lemma put_request_reads:
  "rd64 (put_request stk a l m) (stk + 16) = a" "rd64 (put_request stk a l m) (stk + 24) = l"
proof -
  have o: "rd64 (wr64 (stk + of_nat i) v m) (stk + of_nat j) = rd64 m (stk + of_nat j)" if "j + 8 \<le> i" "i + 8 \<le> 48" for i j v m
    by (rule rd64_same[OF wr64_same]) (use area_off[of i 8 _ stk] area_off[of j 8 _ stk] that in fastforce)
  show "rd64 (put_request stk a l m) (stk + 16) = a" "rd64 (put_request stk a l m) (stk + 24) = l"
    using o[of 16 40] o[of 16 32] o[of 16 24] o[of 24 40] o[of 24 32] by (simp_all add: put_request_def)
qed

lemma console_writes:
  assumes "area a (unat l) \<inter> area stk 48 = {}"
  shows "console_write_impl print_kernel nm stk a l st =
    (l, st\<lparr>umem := put_request stk a l (umem st), rt_kernel := rt_kernel st @ bytes_at (umem st) a (unat l)\<rparr>)"
proof -
  have "unat l < 2 ^ 64" using unsigned_less[of l] by simp
  then have "bytes_at (put_request stk a l (umem st)) a (unat l) = bytes_at (umem st) a (unat l)"
    by (intro bytes_at_same[OF put_request_same assms]) simp
  then show ?thesis
    by (simp add: console_write_impl_def console_write_def do_syscall_def print_kernel_def usys_port_open_def usys_port_request_def usys_port_close_def
        put_request_reads)
qed

interpretation console: sink "console_write_impl print_kernel nm stk" "\<lambda>xs st. rt_kernel st = log @ xs" "area stk 48" for nm stk log
  by unfold_locales (simp_all add: console_writes put_request_same)

text \<open>\<open>printf\<close> adds the text of its format to what is on the console and returns its length; besides the arrays of the formatter only
  the request on the stack changes.\<close>

theorem printf_prints:
  assumes "area pb 256 \<inter> area stk 48 = {}" "area buf 43 \<inter> area stk 48 = {}" "area buf 43 \<inter> area pb 256 = {}"
    and "format_ok is" "in_place (area stk 48 \<union> area pb 256 \<union> area buf 43) (umem st) format str lit ap 0 is"
    and out: "out = format_out str lit ap 0 is" "int (length out) \<le> INT_MAX"
  shows "\<exists>m. printf buf pb lit junk print_kernel nm stk format ap st = Ok (int (length out), st\<lparr>umem := m, rt_kernel := rt_kernel st @ out\<rparr>) \<and>
    same (area stk 48 \<union> area pb 256 \<union> area buf 43) (umem st) m"
proof -
  have r: "rt_kernel st = rt_kernel st @ []" by simp
  from console.vfprintf_gives[where junk = junk and nm = nm, OF assms(1-3) r assms(4) _ out] assms(5)
  obtain st' where v: "vfprintf buf pb lit junk (console_write_impl print_kernel nm stk) format ap st = Ok (int (length out), st')"
    "console.gives (rt_kernel st) (area stk 48 \<union> area pb 256 \<union> area buf 43) out st st'" by (auto simp: console.dirty_def)
  have "rt_kernel st' = rt_kernel st @ out" using console.gives_R[OF v(2) r] by simp
  moreover have "errno st' = errno st" "same (area stk 48 \<union> area pb 256 \<union> area buf 43) (umem st) (umem st')" using v(2) by (simp_all add: console.gives_def)
  ultimately show ?thesis using v(1)
    by (intro exI[of _ "umem st'"]) (simp add: printf_def vprintf_def)
qed

end
