(* ===== verification/Cmd_programs.thy ===== *)
theory Cmd_programs
  imports Rt_process C_stdio
begin

text \<open>
  The two programs of the repository: \<open>cmd/init.c\<close>, which the kernel starts first, and \<open>cmd/stub_proc.c\<close>, which it spawns: a driver for
  the keyboard controller that sends every byte to the port of its parent.  The instructions for device ports act on the
  state \<open>rt_kernel\<close> of all that is outside of the program.  A failed assertion ends the program
  (\<open>Panic\<close>); what it prints before is \<open>assert_fn\<close>.
\<close>

section \<open>Printing\<close>

text \<open>What the printing functions of a program need: the arrays of the formatter, the addresses of literals, the kernel, and an
  address on the stack.\<close>

record 'k prog =
  pr_buf :: u64
  pr_pb :: u64
  pr_lit :: "string \<Rightarrow> u64"
  pr_junk :: "nat \<Rightarrow> u64"
  pr_kern :: "'k kernel"
  pr_stk :: u64

definition prog_printf :: "'k prog \<Rightarrow> string \<Rightarrow> u64 list \<Rightarrow> 'k rt_state \<Rightarrow> 'k rt_state res" where
  "prog_printf e format args s =
     bind_res (printf (pr_buf e) (pr_pb e) (pr_lit e) (pr_junk e) (pr_kern e) (pr_lit e ''kern.debug_print'') (pr_stk e)
       (pr_lit e format) (va_args args) s) (\<lambda>(_, s). Ok s)"

definition prog_perror :: "'k prog \<Rightarrow> string \<Rightarrow> 'k rt_state \<Rightarrow> 'k rt_state res" where
  "prog_perror e str s =
     perror (pr_buf e) (pr_pb e) (pr_lit e) (pr_junk e) (pr_kern e) (pr_lit e ''kern.debug_print'') (pr_stk e) (pr_lit e str) s"

definition nl :: string where "nl = [CHR 0x0A]"

section \<open>The keyboard controller\<close>

record 'k ports =
  port_in :: "u16 \<Rightarrow> 'k \<Rightarrow> u8 \<times> 'k"
  port_out :: "u16 \<Rightarrow> u8 \<Rightarrow> 'k \<Rightarrow> 'k"

definition PS2_PORT_DATA :: u16 where "PS2_PORT_DATA = 0x60"
definition PS2_PORT_STATUS :: u16 where "PS2_PORT_STATUS = 0x64"
definition PS2_PORT_COMMAND :: u16 where "PS2_PORT_COMMAND = 0x64"

definition stub_outb :: "'k ports \<Rightarrow> u16 \<Rightarrow> u8 \<Rightarrow> 'k rt_state \<Rightarrow> 'k rt_state" where
  "stub_outb io port val s = s\<lparr>rt_kernel := port_out io port val (rt_kernel s)\<rparr>"

definition stub_inb :: "'k ports \<Rightarrow> u16 \<Rightarrow> 'k rt_state \<Rightarrow> u8 \<times> 'k rt_state" where
  "stub_inb io port s = (let (ret, k) = port_in io port (rt_kernel s) in (ret, s\<lparr>rt_kernel := k\<rparr>))"

definition ps2_send_command :: "'k ports \<Rightarrow> u8 \<Rightarrow> 'k rt_state \<Rightarrow> 'k rt_state" where
  "ps2_send_command io command s = stub_outb io PS2_PORT_COMMAND command s"

definition ps2_recv_status :: "'k ports \<Rightarrow> 'k rt_state \<Rightarrow> u8 \<times> 'k rt_state" where
  "ps2_recv_status io s = stub_inb io PS2_PORT_STATUS s"

text \<open>The two waiting loops end when the device is ready.\<close>

partial_function (option) ps2_send_data :: "'k ports \<Rightarrow> u8 \<Rightarrow> 'k rt_state \<Rightarrow> 'k rt_state res option" where
  "ps2_send_data io data s = (let (status, s) = ps2_recv_status io s
   in if status AND 2 \<noteq> 0 then ps2_send_data io data s else Some (Ok (stub_outb io PS2_PORT_DATA data s)))"

partial_function (option) ps2_recv_data :: "'k ports \<Rightarrow> 'k rt_state \<Rightarrow> (u8 \<times> 'k rt_state) res option" where
  "ps2_recv_data io s = (let (status, s) = ps2_recv_status io s
   in if status AND 1 = 0 then ps2_recv_data io s else Some (Ok (stub_inb io PS2_PORT_DATA s)))"

definition init_ps2_keyboard :: "'k ports \<Rightarrow> 'k rt_state \<Rightarrow> 'k rt_state res" where
  "init_ps2_keyboard io s = (let
     s = ps2_send_command io 0xad s;
     s = ps2_send_command io 0xa7 s;
     (_, s) = stub_inb io PS2_PORT_DATA s;
     s = ps2_send_command io 0x20 s
   in bind_res (ends (ps2_recv_data io s)) (\<lambda>(conf_byte, s). let
     conf_byte = conf_byte AND 0xbc;
     s = ps2_send_command io 0x60 s
   in bind_res (ends (ps2_send_data io conf_byte s)) (\<lambda>s. let
     s = ps2_send_command io 0xaa s
   in bind_res (ends (ps2_recv_data io s)) (\<lambda>(self_test_byte, s).
     verify (self_test_byte = 0x55) ''self_test_byte == 0x55'' (let
     s = ps2_send_command io 0x60 s
   in bind_res (ends (ps2_send_data io conf_byte s)) (\<lambda>s. let
     s = ps2_send_command io 0xae s
   in bind_res (ends (ps2_send_data io 0xff s)) (\<lambda>s.
     bind_res (ends (ps2_recv_data io s)) (\<lambda>(self_test_byte, s).
     verify (self_test_byte = 0xfa) ''self_test_byte == 0xfa'' (
     bind_res (ends (ps2_recv_data io s)) (\<lambda>(self_test_byte, s).
     verify (self_test_byte = 0xaa) ''self_test_byte == 0xaa'' (Ok s)))))))))))"

definition getc :: "'k ports \<Rightarrow> 'k rt_state \<Rightarrow> (u8 \<times> 'k rt_state) res option" where
  "getc io s = ps2_recv_data io s"

section \<open>The spawned program\<close>

definition constructor1 :: "'k prog \<Rightarrow> 'k rt_state \<Rightarrow> 'k rt_state res" where
  "constructor1 e s = prog_printf e (''constructor1'' @ nl) [] s"
definition constructor2 :: "'k prog \<Rightarrow> 'k rt_state \<Rightarrow> 'k rt_state res" where
  "constructor2 e s = prog_printf e (''constructor2'' @ nl) [] s"
definition destructor1 :: "'k prog \<Rightarrow> 'k rt_state \<Rightarrow> 'k rt_state res" where
  "destructor1 e s = prog_printf e (''destructor1'' @ nl) [] s"
definition destructor2 :: "'k prog \<Rightarrow> 'k rt_state \<Rightarrow> 'k rt_state res" where
  "destructor2 e s = prog_printf e (''destructor2'' @ nl) [] s"

text \<open>The loop over the arguments: \<open>n\<close> of them are left, the next is \<open>i\<close>.\<close>

fun stub_print_args :: "'k prog \<Rightarrow> u64 \<Rightarrow> nat \<Rightarrow> nat \<Rightarrow> 'k rt_state \<Rightarrow> 'k rt_state res" where
  "stub_print_args e argv 0 i s = Ok s"
| "stub_print_args e argv (Suc n) i s =
     bind_res (prog_printf e (''argv[%d] = %s'' @ nl) [of_nat i, rd64 (umem s) (argv + 8 * of_nat i)] s) (stub_print_args e argv n (Suc i))"

text \<open>A turn of the main loop; the request lies on the stack at \<open>req\<close>, and the fields that are not set keep what is
  there.  The first component says whether the loop goes on.\<close>

definition stub_turn :: "'k prog \<Rightarrow> u64 \<Rightarrow> u64 \<Rightarrow> u8 \<Rightarrow> 'k rt_state \<Rightarrow> (bool \<times> 'k rt_state) res" where
  "stub_turn e req port data s =
     bind_res (prog_printf e (''received ps2 data: %d'' @ nl) [ucast data] s) (\<lambda>s. let
       s = s\<lparr>umem := wr64 (req + 8) (ucast data) (wr64 (req + 24) 0 (wr64 (req + 16) 0 (umem s)))\<rparr>;
       (ret, s) = rt_port_request (pr_kern e) port req s
     in if ret < 0 then bind_res (prog_perror e ''port_request()'' s) (\<lambda>s. Ok (False, s))
        else if rd64 (umem s) (req + 8) \<noteq> ucast data
        then bind_res (prog_printf e ''invalid response: %lu vs %d'' [rd64 (umem s) (req + 8), ucast data] s) (\<lambda>s. Ok (True, s))
        else Ok (True, s))"

partial_function (option) stub_loop :: "'k prog \<Rightarrow> 'k ports \<Rightarrow> u64 \<Rightarrow> u64 \<Rightarrow> 'k rt_state \<Rightarrow> 'k rt_state res option" where
  "stub_loop e io req port s = Option.bind (getc io s) (\<lambda>r. case bind_res r (\<lambda>(data, s). stub_turn e req port data s) of
       Fail x \<Rightarrow> Some (Fail x)
     | Ok (go, s) \<Rightarrow> if go then stub_loop e io req port s else Some (Ok s))"

text \<open>\<open>main\<close>; \<open>port_t\<close> is unsigned, so that the test of the port never succeeds.\<close>

definition stub_main :: "'k prog \<Rightarrow> 'k ports \<Rightarrow> u64 \<Rightarrow> u32 \<Rightarrow> u64 \<Rightarrow> 'k rt_state \<Rightarrow> (u32 \<times> 'k rt_state) res" where
  "stub_main e io req argc argv s =
     bind_res (prog_printf e (''stub process spawned'' @ nl) [] s) (\<lambda>s.
     bind_res (prog_printf e (''argc = %d, argv at %p'' @ nl) [ucast argc, argv] s) (\<lambda>s.
     bind_res (stub_print_args e argv (nat (sint argc)) 0 s) (\<lambda>s. let
       (port, s) = rt_port_open (pr_kern e) (pr_lit e ''/stubinit/testport'') s
     in if port < 0 then bind_res (prog_perror e ''port_open()'' s) (\<lambda>s. Ok (- 1, s))
        else bind_res (init_ps2_keyboard io s) (\<lambda>s.
          bind_res (prog_printf e (''ps2 controller initialized'' @ nl) [] s) (\<lambda>s.
          bind_res (ends (stub_loop e io req port s)) (\<lambda>s. Ok (0xdeadbeef, s)))))))"

section \<open>The first program\<close>

text \<open>The loop that answers requests: the program has ended (\<open>Inl\<close>), or it goes on.\<close>

fun init_serve :: "'k prog \<Rightarrow> u64 \<Rightarrow> u64 \<Rightarrow> nat \<Rightarrow> 'k rt_state \<Rightarrow> ('k rt_state + 'k rt_state) res" where
  "init_serve e buffer port 0 s = Ok (Inr s)"
| "init_serve e buffer port (Suc n) s =
     bind_res (prog_printf e (''receiving'' @ nl) [] s) (\<lambda>s. let
       (ret, s) = rt_port_receive (pr_kern e) port buffer 0 0 s
     in if ret < 0
        then bind_res (prog_perror e ''port_receive()'' s) (\<lambda>s. Ok (Inl (process_exit (pr_kern e) (- 1) s)))
        else bind_res (prog_printf e (''received request from port by %ld: value %lu'' @ nl) [rd64 (umem s) buffer, rd64 (umem s) (buffer + 8)] s) (\<lambda>s. let
          (ret, s) = rt_port_response (pr_kern e) port (rd64 (umem s) (buffer + 8)) 0 0 s
        in if ret \<noteq> 0 then bind_res (prog_perror e ''port_response()'' s) (\<lambda>s. Ok (Inr s))
           else init_serve e buffer port n s))"

text \<open>The end of the program: \<open>retval\<close> is a variable on the stack, \<open>stk\<close> the structure of \<open>process_wait\<close>.\<close>

definition init_finish :: "'k prog \<Rightarrow> u64 \<Rightarrow> u64 \<Rightarrow> u64 \<Rightarrow> 'k rt_state \<Rightarrow> 'k rt_state res" where
  "init_finish e stk retval pid s = (let
     (ok, s) = process_wait (pr_kern e) stk pid retval s;
     val = ucast (rd64 (umem s) retval) :: u32
   in bind_res (if \<not> ok then prog_perror e ''process_wait()'' s
       else if val \<noteq> 0xdeadbeef then prog_printf e (''expecting 0xdeadbeef; got 0x%x'' @ nl) [ucast val] s
       else prog_printf e (''received retval: 0x%x'' @ nl) [ucast val] s) (\<lambda>s.
     bind_res (prog_printf e (''exiting init to trigger a panic'' @ nl) [] s) (\<lambda>s.
     Ok (process_exit (pr_kern e) 0 s))))"

text \<open>\<open>__init_main\<close>; the program in memory is at \<open>elf\<close>, its five arguments are at \<open>argv\<close>.  \<open>port_t\<close> and \<open>pid_t\<close> are unsigned.\<close>

definition init_main :: "'k prog \<Rightarrow> u64 \<Rightarrow> u64 \<Rightarrow> u64 \<Rightarrow> u64 \<Rightarrow> u64 \<Rightarrow> 'k rt_state \<Rightarrow> 'k rt_state res" where
  "init_main e elf argv buffer stk retval s =
     bind_res (prog_printf e (''init start'' @ nl) [] s) (\<lambda>s. let
       (port, s) = rt_port_create (pr_kern e) (pr_lit e ''/stubinit/testport'') s
     in if port < 0 then bind_res (prog_perror e ''port_create()'' s) (\<lambda>s. Ok (process_exit (pr_kern e) (- 1) s))
        else bind_res (process_spawn_from_memory (pr_kern e) elf 5 argv s) (\<lambda>(pid, s).
          bind_res (if pid < 0 then prog_perror e ''process_spawn_from_memory()'' s
              else prog_printf e (''process spawned: pid = %ld'' @ nl) [pid] s) (\<lambda>s.
          bind_res (init_serve e buffer port 10 s) (\<lambda>r. case r of
              Inl s \<Rightarrow> Ok s
            | Inr s \<Rightarrow> init_finish e stk retval pid (snd (rt_port_close (pr_kern e) port s))))))"

text \<open>\<open>main\<close>, which is never called.\<close>

definition init_unused_main :: "'k prog \<Rightarrow> 'k rt_state \<Rightarrow> 'k rt_state res" where
  "init_unused_main e s = prog_printf e (''main in stub_init called'' @ nl) [] s"

declare ps2_send_data.simps [code] ps2_recv_data.simps [code] stub_loop.simps [code]
section \<open>Waiting\<close>

text \<open>The state after \<open>n\<close> reads of the status.\<close>

fun polls :: "'k ports \<Rightarrow> nat \<Rightarrow> 'k rt_state \<Rightarrow> 'k rt_state" where
  "polls io 0 s = s"
| "polls io (Suc n) s = polls io n (snd (ps2_recv_status io s))"

definition first_poll :: "(u8 \<Rightarrow> bool) \<Rightarrow> 'k ports \<Rightarrow> nat \<Rightarrow> 'k rt_state \<Rightarrow> bool" where
  "first_poll P io n s \<longleftrightarrow> P (fst (ps2_recv_status io (polls io n s))) \<and> (\<forall>i < n. \<not> P (fst (ps2_recv_status io (polls io i s))))"

lemma first_poll_0: "first_poll P io 0 s \<longleftrightarrow> P (fst (ps2_recv_status io s))"
  by (simp add: first_poll_def)

lemma first_poll_Suc: "first_poll P io (Suc n) s \<longleftrightarrow> \<not> P (fst (ps2_recv_status io s)) \<and> first_poll P io n (snd (ps2_recv_status io s))"
  unfolding first_poll_def by (auto simp: less_Suc_eq_0_disj)

text \<open>A byte is sent exactly when the device becomes ready, after the reads that say it is not, and with one write.\<close>

lemma ps2_send_data_ready:
  "first_poll (\<lambda>st. st AND 2 = 0) io n s \<Longrightarrow> ps2_send_data io data s = Some (Ok (stub_outb io PS2_PORT_DATA data (polls io (Suc n) s)))"
proof (induction n arbitrary: s)
  case 0
  then show ?case by (subst ps2_send_data.simps) (auto simp: first_poll_0 split: prod.splits)
next
  case (Suc n)
  then have "ps2_send_data io data s = ps2_send_data io data (snd (ps2_recv_status io s))"
    by (subst ps2_send_data.simps) (auto simp: first_poll_Suc split: prod.splits)
  with Suc show ?case by (simp add: first_poll_Suc)
qed

lemma ps2_send_data_waits: "ps2_send_data io data s = Some r \<Longrightarrow> \<exists>n. first_poll (\<lambda>st. st AND 2 = 0) io n s"
proof (induction rule: ps2_send_data.raw_induct[rotated 1, consumes 1])
  case (1 f io data s r)
  obtain st s' where p: "ps2_recv_status io s = (st, s')" by (cases "ps2_recv_status io s")
  show ?case
  proof (cases "st AND 2 = 0")
    case True
    then have "first_poll (\<lambda>st. st AND 2 = 0) io 0 s" by (simp add: first_poll_0 p)
    then show ?thesis by blast
  next
    case False
    then have "f io data s' = Some r" using 1(2) p by simp
    then obtain n where "first_poll (\<lambda>st. st AND 2 = 0) io n s'" using 1(1) by blast
    then have "first_poll (\<lambda>st. st AND 2 = 0) io (Suc n) s" using False by (simp add: first_poll_Suc p)
    then show ?thesis by blast
  qed
qed

lemma ps2_recv_data_ready:
  "first_poll (\<lambda>st. st AND 1 \<noteq> 0) io n s \<Longrightarrow> ps2_recv_data io s = Some (Ok (stub_inb io PS2_PORT_DATA (polls io (Suc n) s)))"
proof (induction n arbitrary: s)
  case 0
  then show ?case by (subst ps2_recv_data.simps) (auto simp: first_poll_0 split: prod.splits)
next
  case (Suc n)
  then have "ps2_recv_data io s = ps2_recv_data io (snd (ps2_recv_status io s))"
    by (subst ps2_recv_data.simps) (auto simp: first_poll_Suc split: prod.splits)
  with Suc show ?case by (simp add: first_poll_Suc)
qed

theorem ps2_send_data_returns:
  "(\<exists>n. first_poll (\<lambda>st. st AND 2 = 0) io n s \<and> ps2_send_data io data s = Some (Ok (stub_outb io PS2_PORT_DATA data (polls io (Suc n) s)))) \<or>
   (\<forall>n. fst (ps2_recv_status io (polls io n s)) AND 2 \<noteq> 0) \<and> ps2_send_data io data s = None"
proof (cases "ps2_send_data io data s")
  case None
  have "fst (ps2_recv_status io (polls io n s)) AND 2 \<noteq> 0" for n
  proof (induction n rule: less_induct)
    case (less n)
    then show ?case using None ps2_send_data_ready[of io n s data] by (auto simp: first_poll_def)
  qed
  with None show ?thesis by blast
next
  case (Some r)
  then show ?thesis using ps2_send_data_waits ps2_send_data_ready by blast
qed

end
