(* ===== verification/K_cpu.thy ===== *)
theory K_cpu
  imports K_int K_syscall
begin

text \<open>
  What the kernel tells one processor about itself: the segment descriptors of
  \<open>kernel/k_descriptor.c\<close>, the registers of the system-call instruction (\<open>syscall_init\<close>), the set-up of
  processes (\<open>process_init\<close>) and the extensions of \<open>kernel/k_simd.c\<close>.  The registers are fields of
  the state; the answers of \<open>cpuid\<close> are arguments.
\<close>

section \<open>State\<close>

text \<open>A descriptor is a 64-bit word; that of the task-state segment has two more words.\<close>

record gdt_t =
  null_desc :: u64
  code_kern :: u64
  data_kern :: u64
  data_user :: u64
  code_user :: u64
  tss_desc :: u64
  tss_base_h :: u32
  tss_mbz_2 :: u32

record cpu_regs = ifce_state +
  gdts :: "u64 \<Rightarrow> gdt_t"
  percpu_gdt :: u64
  percpu_tss :: u64
  gdtr :: "u16 \<times> u64"
  idtr :: "u16 \<times> u64"
  task_register :: u16
  msrs :: "u32 \<Rightarrow> u64"
  cr0_reg :: u64
  cr4_reg :: u64
  xcr :: "u32 \<Rightarrow> u64"
  use_avx :: bool
  use_avx512 :: bool
  use_xsave :: bool

definition GDT_SIZE :: u64 where "GDT_SIZE = 56"
definition TSS_SIZE :: u64 where "TSS_SIZE = 104"

definition wrmsr :: "u32 \<Rightarrow> u64 \<Rightarrow> 'a cpu_regs_scheme \<Rightarrow> 'a cpu_regs_scheme" where
  "wrmsr i v s = s\<lparr>msrs := (msrs s)(i := v)\<rparr>"

definition upd_gdt :: "u64 \<Rightarrow> (gdt_t \<Rightarrow> gdt_t) \<Rightarrow> 'a cpu_regs_scheme \<Rightarrow> 'a cpu_regs_scheme" where
  "upd_gdt g f s = s\<lparr>gdts := (gdts s)(g := f (gdts s g))\<rparr>"

section \<open>Segment descriptors\<close>

text \<open>The bit fields of \<open>gdt_code_desc_t\<close>, \<open>gdt_data_desc_t\<close> and \<open>gdt_tss_selector_t\<close>.\<close>

definition code_set_mb3 :: "u64 \<Rightarrow> u64 \<Rightarrow> u64" where "code_set_mb3 = bf_set 43 2"
definition desc_set_dpl :: "u64 \<Rightarrow> u64 \<Rightarrow> u64" where "desc_set_dpl = bf_set 45 2"
definition desc_set_p :: "u64 \<Rightarrow> u64 \<Rightarrow> u64" where "desc_set_p = bf_set 47 1"
definition code_set_l :: "u64 \<Rightarrow> u64 \<Rightarrow> u64" where "code_set_l = bf_set 53 1"
definition data_set_w :: "u64 \<Rightarrow> u64 \<Rightarrow> u64" where "data_set_w = bf_set 41 1"
definition data_set_mb1 :: "u64 \<Rightarrow> u64 \<Rightarrow> u64" where "data_set_mb1 = bf_set 44 1"
definition tss_set_limit_l :: "u64 \<Rightarrow> u64 \<Rightarrow> u64" where "tss_set_limit_l = bf_set 0 16"
definition tss_set_base_l1 :: "u64 \<Rightarrow> u64 \<Rightarrow> u64" where "tss_set_base_l1 = bf_set 16 24"
definition tss_set_type :: "u64 \<Rightarrow> u64 \<Rightarrow> u64" where "tss_set_type = bf_set 40 4"
definition tss_set_base_l2 :: "u64 \<Rightarrow> u64 \<Rightarrow> u64" where "tss_set_base_l2 = bf_set 56 8"

definition zero_gdt :: gdt_t where
  "zero_gdt = \<lparr>null_desc = 0, code_kern = 0, data_kern = 0, data_user = 0, code_user = 0, tss_desc = 0,
     tss_base_h = 0, tss_mbz_2 = 0\<rparr>"

definition descriptor_init :: "'a cpu_regs_scheme \<Rightarrow> 'a cpu_regs_scheme res" where
  "descriptor_init s = bind_res (kmem_alloc GDT_SIZE s) (\<lambda>(gdt, s). verify (gdt \<noteq> 0) ''OOM'' (let
     s = upd_gdt gdt (\<lambda>_. zero_gdt) s;
     s = upd_gdt gdt (null_desc_update (\<lambda>_. 0xffff)) s;
     s = upd_gdt gdt (code_kern_update (desc_set_p 1)) s;
     s = upd_gdt gdt (code_kern_update (code_set_l 1)) s;
     s = upd_gdt gdt (code_kern_update (desc_set_dpl 0)) s;
     s = upd_gdt gdt (code_kern_update (code_set_mb3 3)) s;
     s = upd_gdt gdt (data_kern_update (desc_set_p 1)) s;
     s = upd_gdt gdt (data_kern_update (data_set_mb1 1)) s;
     s = upd_gdt gdt (data_kern_update (data_set_w 1)) s;
     s = upd_gdt gdt (code_user_update (desc_set_p 1)) s;
     s = upd_gdt gdt (code_user_update (code_set_l 1)) s;
     s = upd_gdt gdt (code_user_update (desc_set_dpl 3)) s;
     s = upd_gdt gdt (code_user_update (code_set_mb3 3)) s;
     s = upd_gdt gdt (data_user_update (desc_set_p 1)) s;
     s = upd_gdt gdt (data_user_update (data_set_mb1 1)) s;
     s = upd_gdt gdt (data_user_update (data_set_w 1)) s;
     s = upd_gdt gdt (data_user_update (desc_set_dpl 3)) s;
     s = s\<lparr>gdtr := (ucast GDT_SIZE, gdt)\<rparr>
   in Ok (s\<lparr>percpu_gdt := gdt\<rparr>)))"

definition descriptor_load_tss :: "u64 \<Rightarrow> 'a cpu_regs_scheme \<Rightarrow> 'a cpu_regs_scheme res" where
  "descriptor_load_tss tss s = (let g = percpu_gdt s in nonnull g (let
     s = upd_gdt g (tss_desc_update (tss_set_limit_l TSS_SIZE)) s;
     s = upd_gdt g (tss_desc_update (tss_set_base_l1 tss)) s;
     s = upd_gdt g (tss_desc_update (tss_set_base_l2 (drop_bit 24 tss))) s;
     s = upd_gdt g (tss_base_h_update (\<lambda>_. ucast (drop_bit 32 tss))) s;
     s = upd_gdt g (tss_desc_update (desc_set_p 1)) s;
     s = upd_gdt g (tss_desc_update (tss_set_type 9)) s
   in Ok (s\<lparr>task_register := 0x28\<rparr>)))"

text \<open>\<open>idt_addr\<close> is the address of the static table of gates.\<close>

definition isr_load :: "u64 \<Rightarrow> 'a cpu_regs_scheme \<Rightarrow> 'a cpu_regs_scheme" where
  "isr_load idt_addr s = s\<lparr>idtr := (ucast (16 * IDT_GATES), idt_addr)\<rparr>"

section \<open>System calls and processes\<close>

text \<open>\<open>entry\<close> is the address of \<open>__syscall_entry\<close>.\<close>

definition syscall_init :: "u64 \<Rightarrow> 'a cpu_regs_scheme \<Rightarrow> 'a cpu_regs_scheme" where
  "syscall_init entry s = (let
     s = wrmsr 0xc0000080 (msrs s 0xc0000080 OR 1) s;
     s = wrmsr 0xc0000081 (push_bit 32 0x08 OR push_bit 48 0x10) s;
     s = wrmsr 0xc0000082 entry s
   in wrmsr 0xc0000084 (push_bit 9 1) s)"

text \<open>The end of \<open>process_init\<close>: the kernel process.\<close>

definition kernel_process_init :: "'a cpu_regs_scheme \<Rightarrow> 'a cpu_regs_scheme res" where
  "kernel_process_init s = bind_res (process_create 0 s) (\<lambda>(kp, s). let
     s = s\<lparr>kernel_proc := kp\<rparr>
   in verify (kp \<noteq> 0) ''failed to allocate kernel process'' (
     bind_res (vm_address_space_create s) (\<lambda>(as, s). let
       s = upd_proc kp (\<lambda>p. p\<lparr>p_address_space := as\<rparr>) s
     in verify (as \<noteq> 0) ''failed to allocate address space for kernel proc'' (Ok s))))"

text \<open>\<open>ebx\<close> is the answer of \<open>cpuid(7)\<close>.  The contents of the task-state segment are not kept, but for
  the stack pointer in \<open>tss_rsp0\<close>.\<close>

definition process_init :: "u32 \<Rightarrow> 'a cpu_regs_scheme \<Rightarrow> 'a cpu_regs_scheme res" where
  "process_init ebx s = (let
     s = s\<lparr>pid_bitmap := (\<lambda>_. 0)\<rparr>;
     s = mutex_init PidBitmapLock s
   in bind_res (kmem_alloc TSS_SIZE s) (\<lambda>(tss, s). nonnull tss (let
     s = s\<lparr>tss_rsp0 := 0\<rparr>
   in bind_res (descriptor_load_tss tss s) (\<lambda>s. let
     s = s\<lparr>percpu_tss := tss\<rparr>;
     s = (if ebx AND 1 \<noteq> 0 then s\<lparr>cr4_reg := cr4_reg s OR push_bit 16 1\<rparr> else s)
   in kernel_process_init s))))"

section \<open>Extensions of the processor\<close>

definition have_sse2 :: "u32 \<Rightarrow> bool" where "have_sse2 cpuid_edx = (cpuid_edx AND push_bit 26 1 \<noteq> 0)"
definition have_sse3 :: "u32 \<Rightarrow> bool" where "have_sse3 cpuid_ecx = (cpuid_ecx AND 1 \<noteq> 0)"
definition have_ssse3 :: "u32 \<Rightarrow> bool" where "have_ssse3 cpuid_ecx = (cpuid_ecx AND push_bit 9 1 \<noteq> 0)"
definition have_sse41 :: "u32 \<Rightarrow> bool" where "have_sse41 cpuid_ecx = (cpuid_ecx AND push_bit 19 1 \<noteq> 0)"
definition have_sse42 :: "u32 \<Rightarrow> bool" where "have_sse42 cpuid_ecx = (cpuid_ecx AND push_bit 20 1 \<noteq> 0)"
definition have_sse4a :: "u32 \<Rightarrow> bool" where "have_sse4a cpuid_ecx = (cpuid_ecx AND push_bit 6 1 \<noteq> 0)"
definition have_xop :: "u32 \<Rightarrow> bool" where "have_xop cpuid_ecx = (cpuid_ecx AND push_bit 11 1 \<noteq> 0)"
definition have_fma4 :: "u32 \<Rightarrow> bool" where "have_fma4 cpuid_ecx = (cpuid_ecx AND push_bit 16 1 \<noteq> 0)"
definition have_cvt16 :: "u32 \<Rightarrow> bool" where "have_cvt16 cpuid_ecx = (cpuid_ecx AND push_bit 29 1 \<noteq> 0)"
definition have_avx :: "u32 \<Rightarrow> bool" where "have_avx cpuid_ecx = (cpuid_ecx AND push_bit 28 1 \<noteq> 0)"
definition have_avx512 :: "u32 \<Rightarrow> bool" where "have_avx512 cpuid_eax_0d = (cpuid_eax_0d AND push_bit 5 7 \<noteq> 0)"
definition have_xsave :: "u32 \<Rightarrow> bool" where "have_xsave cpuid_ecx = (cpuid_ecx AND push_bit 26 1 \<noteq> 0)"

text \<open>\<open>cpuid l\<close> is the answer \<open>(eax, ebx, ecx, edx)\<close> to the request \<open>l\<close>.  The first component of the result is
  what is written to the console.\<close>

type_synonym cpuid_t = "u32 \<Rightarrow> u32 \<times> u32 \<times> u32 \<times> u32"

definition check_simd :: "cpuid_t \<Rightarrow> 'a cpu_regs_scheme \<Rightarrow> (string \<times> 'a cpu_regs_scheme) res" where
  "check_simd cpuid s = (let
     out = ''Checking for SIMD features...'';
     (eax, ebx, ecx, edx) = cpuid 1;
     s = s\<lparr>use_avx := have_avx ecx\<rparr>;
     s = s\<lparr>use_xsave := have_xsave ecx\<rparr>;
     out = out @ (if have_sse2 edx then ''SSE2 '' else ''sse2 '')
   in verify (have_sse2 edx) ''All AMD64 enabled cpu should have SSE2'' (let
     out = out @ (if have_sse3 ecx then ''SSE3 '' else ''sse3 '');
     out = out @ (if have_ssse3 ecx then ''SSSE3 '' else ''ssse3 '');
     out = out @ (if have_sse41 ecx then ''SSE4.1 '' else ''sse4.1 '');
     out = out @ (if have_sse42 ecx then ''SSE4.2 '' else ''sse4.2 '');
     out = out @ (if have_sse4a ecx then ''SSE4A '' else ''sse4a '');
     out = out @ (if have_xop ecx then ''XOP '' else ''xop '');
     out = out @ (if have_cvt16 ecx then ''CVT16 '' else ''cvt16 '');
     out = out @ (if have_fma4 ecx then ''FMA4 '' else ''fma4 '');
     out = out @ (if use_avx s then ''AVX '' else ''avx '');
     out = out @ (if use_xsave s then ''XSAVE '' else ''xsave '');
     (eax, ebx, ecx, edx) = cpuid 0x0d;
     s = s\<lparr>use_avx512 := have_avx512 eax\<rparr>;
     out = out @ (if use_avx512 s then ''AVX512 '' else ''avx512 '')
   in if use_xsave s
      then Ok (out @ [CHR 0x0A], s\<lparr>simd_state_size := ucast ecx, simd_state_alignment := 64\<rparr>)
      else Ok (out @ [CHR 0x0A], s\<lparr>simd_state_size := 512, simd_state_alignment := 16\<rparr>)))"

text \<open>The second access to \<open>cr4\<close> in the code reads the register once more.  The instruction that
  writes \<open>xcr0\<close> takes the register number from \<open>ecx\<close> and the upper half of the value from \<open>edx\<close>, and the
  code says nothing of either: they are the arguments \<open>rcx\<close> and \<open>rdx\<close>.\<close>

definition simd_init :: "cpuid_t \<Rightarrow> u32 \<Rightarrow> u32 \<Rightarrow> 'a cpu_regs_scheme \<Rightarrow> 'a cpu_regs_scheme res" where
  "simd_init cpuid rcx rdx s = bind_res (check_simd cpuid s) (\<lambda>(_, s). let
     cr_val = cr0_reg s;
     cr_val = cr_val AND 0xfffffffb;
     cr_val = cr_val OR 0x2;
     s = s\<lparr>cr0_reg := cr_val\<rparr>;
     cr_val = cr4_reg s;
     cr_val = cr_val OR push_bit 9 3;
     cr_val = cr4_reg s
   in if \<not> use_avx s then Ok s
      else (let
        xcr0 = xcr s 0 AND 0xffffffff;
        xcr0 = xcr0 OR 7;
        xcr0 = (if use_avx512 s then xcr0 OR push_bit 5 7 else xcr0)
      in Ok (s\<lparr>xcr := (xcr s)(rcx := push_bit 32 (ucast rdx) OR (xcr0 AND 0xffffffff))\<rparr>)))"

text \<open>The instruction that saves or restores the vector registers, with the address of the area.  No code calls
  these two functions.\<close>

datatype simd_instr = Xsave u64 | Fxsave u64 | Xrstor u64 | Fxrstor u64

definition simd_save_state :: "u64 \<Rightarrow> 'a cpu_regs_scheme \<Rightarrow> simd_instr" where
  "simd_save_state state s = (if use_xsave s then Xsave state else Fxsave state)"

definition simd_load_state :: "u64 \<Rightarrow> 'a cpu_regs_scheme \<Rightarrow> simd_instr" where
  "simd_load_state state s = (if use_xsave s then Xrstor state else Fxrstor state)"

end
