(* ===== verification/Cpu_Spec.thy ===== *)
theory Cpu_Spec
  imports K_cpu Int_Spec Proc_Spec
begin

text \<open>
  Properties of \<open>K_cpu\<close>: the selectors in use name descriptors of the right kind, and what \<open>process_init\<close> does when it is run again.
\<close>

section \<open>Segments\<close>

text \<open>How the processor reads a descriptor: present or not, code with its privilege level and mode, data with
  its privilege level and whether it can be written, or a system segment with its type.\<close>

datatype segment = Absent | Code u64 bool | Data u64 bool | System u64 u64

definition segment_kind :: "u64 \<Rightarrow> segment" where
  "segment_kind w = (
     if bf_get 47 1 w = 0 then Absent
     else if bf_get 44 1 w = 0 then System (bf_get 45 2 w) (bf_get 40 4 w)
     else if bf_get 43 1 w = 1 then Code (bf_get 45 2 w) (bf_get 53 1 w = 1)
     else Data (bf_get 45 2 w) (bf_get 41 1 w = 1))"

text \<open>The words of the table in memory order, and the one a selector names.\<close>

definition gdt_words :: "gdt_t \<Rightarrow> u64 list" where
  "gdt_words g = [null_desc g, code_kern g, data_kern g, data_user g, code_user g, tss_desc g,
     ucast (tss_base_h g) OR push_bit 32 (ucast (tss_mbz_2 g))]"

definition selects :: "gdt_t \<Rightarrow> u64 \<Rightarrow> segment" where
  "selects g sel = (let i = unat (drop_bit 3 sel) in if i < length (gdt_words g) then segment_kind (gdt_words g ! i) else Absent)"

definition tss_base :: "gdt_t \<Rightarrow> u64" where
  "tss_base g = bf_get 16 24 (tss_desc g) OR push_bit 24 (bf_get 56 8 (tss_desc g)) OR push_bit 32 (ucast (tss_base_h g))"

text \<open>The selectors that \<open>syscall\<close> and \<open>sysretq\<close> load, from the register \<open>STAR\<close>.\<close>

definition syscall_cs :: "u64 \<Rightarrow> u64" where "syscall_cs star = bf_get 32 16 star"
definition syscall_ss :: "u64 \<Rightarrow> u64" where "syscall_ss star = bf_get 32 16 star + 8"
definition sysret_cs :: "u64 \<Rightarrow> u64" where "sysret_cs star = bf_get 48 16 star + 16"
definition sysret_ss :: "u64 \<Rightarrow> u64" where "sysret_ss star = bf_get 48 16 star + 8"

lemmas desc_field_defs = code_set_mb3_def desc_set_dpl_def desc_set_p_def code_set_l_def data_set_w_def data_set_mb1_def
  tss_set_limit_l_def tss_set_base_l1_def tss_set_type_def tss_set_base_l2_def

lemma tss_base_join:
  fixes a :: u64
  assumes "bf_get 16 24 w = take_bit 24 a" "bf_get 56 8 w = take_bit 8 (drop_bit 24 a)"
  shows "bf_get 16 24 w OR push_bit 24 (bf_get 56 8 w) OR push_bit 32 (ucast (ucast (drop_bit 32 a) :: u32)) = a"
proof (rule bit_word_eqI)
  fix n assume "n < LENGTH(64)"
  then show "bit (bf_get 16 24 w OR push_bit 24 (bf_get 56 8 w) OR push_bit 32 (ucast (ucast (drop_bit 32 a) :: u32))) n = bit a n"
    unfolding assms by (auto simp: bit_or_iff bit_push_bit_iff bit_take_bit_iff bit_drop_bit_eq bit_unsigned_iff)
qed

text \<open>The table that \<open>descriptor_init\<close> builds.\<close>

definition kernel_gdt :: gdt_t where
  "kernel_gdt = \<lparr>null_desc = 0xffff, code_kern = 0x00209800 * 0x100000000, data_kern = 0x00009200 * 0x100000000,
     data_user = 0x0000F200 * 0x100000000, code_user = 0x0020F800 * 0x100000000, tss_desc = 0, tss_base_h = 0, tss_mbz_2 = 0\<rparr>"

lemma descriptor_init_Ok:
  assumes "descriptor_init s = Ok t"
  shows "percpu_gdt t \<noteq> 0" "gdtr t = (56, percpu_gdt t)" "gdts t (percpu_gdt t) = kernel_gdt"
  using assms
  by (auto simp: descriptor_init_def bind_res_Ok_iff verify_Ok_iff Let_def upd_gdt_def zero_gdt_def kernel_gdt_def
      desc_field_defs bf_set_def GDT_SIZE_def mask_eq_exp_minus_1)

lemma descriptor_load_tss_Ok:
  assumes "percpu_gdt s \<noteq> 0"
  shows "\<exists>t. descriptor_load_tss tss s = Ok t \<and> task_register t = 0x28 \<and> gdtr t = gdtr s \<and> msrs t = msrs s \<and>
    percpu_gdt t = percpu_gdt s \<and>
    (\<exists>w. gdts t (percpu_gdt s) = (gdts s (percpu_gdt s))\<lparr>tss_desc := w, tss_base_h := ucast (drop_bit 32 tss)\<rparr> \<and>
       w = tss_set_type 9 (desc_set_p 1 (tss_set_base_l2 (drop_bit 24 tss) (tss_set_base_l1 tss (tss_set_limit_l 104
         (tss_desc (gdts s (percpu_gdt s))))))))"
  using assms by (auto simp: descriptor_load_tss_def Let_def upd_gdt_def TSS_SIZE_def)

lemma syscall_init_fields [simp]:
  "percpu_gdt (syscall_init e s) = percpu_gdt s" "gdts (syscall_init e s) = gdts s" "gdtr (syscall_init e s) = gdtr s"
  "msrs (syscall_init e s) 0xc0000081 = 0x0010000800000000"
  by (simp_all add: syscall_init_def Let_def wrmsr_def)

text \<open>C40: Every selector the kernel gives to the processor names a descriptor of the kind it is used as: the
  code segment of the kernel in the gates of the descriptor table and in \<open>syscall\<close>, its data segment, the segments of
  user programs in \<open>sysretq\<close>, and the task-state segment at the address of the structure.\<close>

theorem selectors_typed:
  assumes "descriptor_init s = Ok t" "v < 256"
  shows "\<exists>u. descriptor_load_tss tss (syscall_init entry t) = Ok u \<and>
    (let g = gdts u (snd (gdtr u)); star = msrs u 0xc0000081 in
      selects g (ucast (selector (idt (isr_init isr i) v))) = Code 0 True \<and>
      selects g (syscall_cs star) = Code 0 True \<and> selects g (syscall_ss star) = Data 0 True \<and>
      selects g (sysret_cs star) = Code 3 True \<and> selects g (sysret_ss star) = Data 3 True \<and>
      selects g (ucast (task_register u)) = System 0 9 \<and> tss_base g = tss)"
proof -
  let ?t = "syscall_init entry t"
  note g = descriptor_init_Ok[OF assms(1)]
  obtain u w where u: "descriptor_load_tss tss ?t = Ok u" "task_register u = 0x28" "gdtr u = (56, percpu_gdt t)"
      "msrs u 0xc0000081 = 0x0010000800000000"
      "gdts u (percpu_gdt t) = kernel_gdt\<lparr>tss_desc := w, tss_base_h := ucast (drop_bit 32 tss)\<rparr>"
    and w: "w = tss_set_type 9 (desc_set_p 1 (tss_set_base_l2 (drop_bit 24 tss) (tss_set_base_l1 tss (tss_set_limit_l 104 0))))"
    using descriptor_load_tss_Ok[of ?t tss] g by (auto simp: kernel_gdt_def)
  have f: "bf_get 16 24 w = take_bit 24 tss" "bf_get 56 8 w = take_bit 8 (drop_bit 24 tss)" "bf_get 47 1 w = 1"
      "bf_get 44 1 w = 0" "bf_get 45 2 w = 0" "bf_get 40 4 w = 9"
    unfolding w desc_field_defs by (simp_all add: bf_get_set_same bf_get_set_other take_bit_eq_mod)
  have "tss_base (gdts u (percpu_gdt t)) = tss" using tss_base_join[OF f(1,2)] u(5) by (simp add: tss_base_def)
  moreover have "segment_kind w = System 0 9" using f by (simp add: segment_kind_def)
  moreover have "selector (idt (isr_init isr i) v) = 8"
    using assms(2) by (simp only: isr_init_idt if_True) (simp add: DECL_ISR_def)
  moreover have "segment_kind (code_kern kernel_gdt) = Code 0 True" "segment_kind (data_kern kernel_gdt) = Data 0 True"
      "segment_kind (code_user kernel_gdt) = Code 3 True" "segment_kind (data_user kernel_gdt) = Data 3 True"
    by (simp_all add: kernel_gdt_def segment_kind_def bf_get_def)
  moreover have "syscall_cs 0x0010000800000000 = 8" "syscall_ss 0x0010000800000000 = 16"
      "sysret_cs 0x0010000800000000 = 32" "sysret_ss 0x0010000800000000 = 24"
    by (simp_all add: syscall_cs_def syscall_ss_def sysret_cs_def sysret_ss_def bf_get_def)
  ultimately show ?thesis
    using u by (intro exI[of _ u]) (simp add: Let_def selects_def gdt_words_def)
qed

definition demo_cpu :: cpu_regs where
  "demo_cpu = proc_state.extend demo_proc_heap \<lparr>
     port_ifces = (\<lambda>_. \<lparr>if_name = 0, if_open_func = SetFs, if_req_func = SetFs, if_close_func = SetFs\<rparr>),
     str_debug_print = 0, str_setfsbase = 0, con_out = [],
     gdts = (\<lambda>_. zero_gdt), percpu_gdt = 0, percpu_tss = 0, gdtr = (0, 0), idtr = (0, 0), task_register = 0, msrs = (\<lambda>_. 0),
     cr0_reg = 0, cr4_reg = 0, xcr = (\<lambda>_. 0), use_avx = False, use_avx512 = False, use_xsave = False\<rparr>"

lemma demo_cpu_rel: "heap_rel demo_cpu [(0x1000, 0xfe0, False)]" "mutex_owner demo_cpu KheapLock = 0"
proof -
  have f: "kh_list demo_cpu = kh_list demo_proc_heap" "kh_word demo_cpu = kh_word demo_proc_heap"
      "chunk_list_head demo_cpu = chunk_list_head demo_proc_heap" "mutex_owner demo_cpu = mutex_owner demo_proc_heap"
    by (simp_all add: demo_cpu_def proc_state.defs)
  show "heap_rel demo_cpu [(0x1000, 0xfe0, False)]" using demo_proc_heap_rel(1) unfolding heap_rel_def f .
  show "mutex_owner demo_cpu KheapLock = 0" using demo_proc_heap_rel(2) f by simp
qed

lemma descriptor_init_ok: "kmem_alloc GDT_SIZE s = Ok (p, v) \<Longrightarrow> p \<noteq> 0 \<Longrightarrow> \<exists>t. descriptor_init s = Ok t"
  by (simp add: descriptor_init_def Let_def)

theorem selectors_typed_witness:
  "\<exists>t u. descriptor_init demo_cpu = Ok t \<and> descriptor_load_tss 0xFFFFFFFF80201000 (syscall_init 0x1000 t) = Ok u \<and>
     selects (gdts u (snd (gdtr u))) (ucast (task_register u)) = System 0 9 \<and> tss_base (gdts u (snd (gdtr u))) = 0xFFFFFFFF80201000"
proof -
  have e: "64 = ALIGNUP GDT_SIZE 32" by (simp add: GDT_SIZE_def ALIGNUP_def ALIGNDOWN_def)
  have h: "h_alloc 64 [(0x1000, 0xfe0, False)] = Some (0x1000, [(0x1000, 64, True), (0x1060, 0xf80, False)])" by simp
  obtain v where v: "kmem_alloc GDT_SIZE demo_cpu = Ok (0x1000 + 32, v)" by (rule alloc_only[OF demo_cpu_rel h e])
  have "(0x1000 + 32 :: u64) \<noteq> 0" by simp
  from descriptor_init_ok[OF v this] obtain t where t: "descriptor_init demo_cpu = Ok t" ..
  have "48 < (256 :: nat)" by simp
  from selectors_typed[OF t this, of "0xFFFFFFFF80201000" "0x1000"]
  obtain u where "descriptor_load_tss 0xFFFFFFFF80201000 (syscall_init 0x1000 t) = Ok u"
      "selects (gdts u (snd (gdtr u))) (ucast (task_register u)) = System 0 9" "tss_base (gdts u (snd (gdtr u))) = 0xFFFFFFFF80201000"
    unfolding Let_def by blast
  with t show ?thesis by blast
qed

section \<open>Identifiers\<close>

lemma kmem_alloc_pids: "kmem_alloc sz s = Ok (p, t) \<Longrightarrow> pid_bitmap t = pid_bitmap s \<and> procs t = procs s"
  by (drule kmem_alloc_only) (auto simp: heap_only_def)

lemma kmem_alloc_zeroed_pids: "kmem_alloc_zeroed sz s = Ok (p, t) \<Longrightarrow> pid_bitmap t = pid_bitmap s \<and> procs t = procs s"
  by (drule kmem_alloc_zeroed_only) (auto simp: heap_only_def)

lemma simd_area_pids: "simd_alloc_state_area s = Ok (p, t) \<Longrightarrow> pid_bitmap t = pid_bitmap s \<and> procs t = procs s"
  by (auto simp: simd_alloc_state_area_def kmem_alloc_aligned_def bind_res_Ok_iff Let_def split: if_splits dest: kmem_alloc_pids)

lemma kobj_init_locks_pids: "pid_bitmap (kobj_init_locks b n s) = pid_bitmap s \<and> procs (kobj_init_locks b n s) = procs s"
  by (induction n) (simp_all add: mutex_init_def)

lemma kobject_init_pids:
  "kobject_init q s = Ok (ok, e, t) \<Longrightarrow> ok \<and> pid_bitmap t = pid_bitmap s"
  by (auto simp: kobject_init_def bind_res_Ok_iff Let_def nonnull_Ok_iff kobj_init_locks_pids clear_kobjs_def upd_proc_def
      dest: kmem_alloc_zeroed_pids)

text \<open>A process that is created takes the identifier that \<open>alloc_pid\<close> finds.\<close>

lemma process_create_pid:
  assumes "process_create parent s = Ok (p, t)" "p \<noteq> 0" "pid_find (pid_bitmap s) = Some (i, j)"
  shows "pid_bitmap t = pid_bitmap_set (i * 8 + j) (pid_bitmap s)" "p_pid (procs t p) = of_nat (i * 8 + j) + 1"
proof -
  obtain u where u: "alloc_pid s = Ok (of_nat (i * 8 + j) + 1, u)" "pid_bitmap u = pid_bitmap_set (i * 8 + j) (pid_bitmap s)"
    using assms(1,3) by (auto simp: process_create_def alloc_pid_def bind_res_Ok_iff mutex_acquire_Ok_iff mutex_release_def Let_def verify_Ok_iff)
  obtain ks sa s1 s2 s3 s4 e where
    a: "kmem_alloc PROCESS_SIZE u = Ok (p, s1)" "kmem_alloc KERNEL_STACK_SIZE s1 = Ok (ks, s2)" "simd_alloc_state_area s2 = Ok (sa, s3)"
      "kobject_init p s3 = Ok (True, e, s4)" "t = process_fill parent p (of_nat (i * 8 + j) + 1) ks sa s4"
    using assms(1,2) u(1) by (auto simp: process_create_def bind_res_Ok_iff split: if_splits)
  have "pid_bitmap s4 = pid_bitmap u"
    using a(1,2)[THEN kmem_alloc_pids] simd_area_pids[OF a(3)] kobject_init_pids[OF a(4)] by simp
  then show "pid_bitmap t = pid_bitmap_set (i * 8 + j) (pid_bitmap s)" "p_pid (procs t p) = of_nat (i * 8 + j) + 1"
    using u(2) a(5) by (simp_all add: process_fill_def Let_def mutex_init_def upd_proc_def upd_lists_def)
qed

lemma vm_address_space_create_pids:
  assumes "vm_address_space_create s = Ok (as, t)"
  shows "pid_bitmap t = pid_bitmap s \<and> procs t = procs s \<and> kernel_proc t = kernel_proc s"
proof -
  have f: "pid_bitmap (free_pt x u) = pid_bitmap u \<and> procs (free_pt x u) = procs u \<and> kernel_proc (free_pt x u) = kernel_proc u" for x and u :: "'a proc_state_scheme"
    by (simp add: free_pt_def pma_free_def pma_dec_ref_count_def Let_def)
  have a: "pid_bitmap u = pid_bitmap s \<and> procs u = procs s \<and> kernel_proc u = kernel_proc s" if "alloc_pt s = Ok (x, u)" for x u
    using that by (auto simp: alloc_pt_def pma_alloc_def pma_alloc_locked_def Let_def bind_res_Ok_iff mutex_acquire_Ok_iff mutex_release_Ok_iff split: option.splits if_splits)
  have k: "pid_bitmap v = pid_bitmap u \<and> procs v = procs u \<and> kernel_proc v = kernel_proc u" if "kmem_alloc n u = Ok (x, v)" for n x and u v :: "'a proc_state_scheme"
    using that by (drule_tac kmem_alloc_only) (auto simp: heap_only_def)
  show ?thesis
    using assms by (auto simp: vm_address_space_create_def bind_res_Ok_iff Let_def phys_set_def phys_copy_def upd_entry_def
        mutex_init_def f split: if_splits dest!: a k)
qed

text \<open>\<open>process_init\<close> runs on every processor, and every time it forgets the identifiers in use: afterwards the only
  one taken is 1, that of a new kernel process.\<close>

theorem process_init_restarts:
  assumes "process_init ebx s = Ok t"
  shows "pid_bitmap t = (\<lambda>_. 0)(0 := 1) \<and> p_pid (procs t (kernel_proc t)) = 1"
proof -
  let ?s = "mutex_init PidBitmapLock (s\<lparr>pid_bitmap := (\<lambda>_. 0)\<rparr>)"
  obtain tss s1 s2 s3 where
    a: "kmem_alloc TSS_SIZE ?s = Ok (tss, s1)" "descriptor_load_tss tss (s1\<lparr>tss_rsp0 := 0\<rparr>) = Ok s2"
      "s3 = s2\<lparr>percpu_tss := tss\<rparr> \<or> s3 = s2\<lparr>percpu_tss := tss, cr4_reg := cr4_reg s2 OR push_bit 16 1\<rparr>" "kernel_process_init s3 = Ok t"
    using assms by (auto simp: process_init_def Let_def bind_res_Ok_iff nonnull_Ok_iff split: if_splits)
  have "pid_bitmap s2 = pid_bitmap s1" using a(2) by (auto simp: descriptor_load_tss_def nonnull_Ok_iff Let_def upd_gdt_def)
  then have z: "pid_bitmap s3 = (\<lambda>_. 0)" using a(3) kmem_alloc_pids[OF a(1)] by (auto simp: mutex_init_def)
  obtain kp s4 as s5 where
    b: "process_create 0 s3 = Ok (kp, s4)" "kp \<noteq> 0" "vm_address_space_create (s4\<lparr>kernel_proc := kp\<rparr>) = Ok (as, s5)"
      "t = upd_proc kp (\<lambda>p. p\<lparr>p_address_space := as\<rparr>) s5"
    using a(4) by (auto simp: kernel_process_init_def Let_def bind_res_Ok_iff verify_Ok_iff)
  have "pid_find (\<lambda>_. 0) = Some (0, 0)"
    using upt_conv_Cons[of 0 64] upt_conv_Cons[of 0 512] by (simp add: pid_find_def PID_BITMAP_SIZE_def PID_BITMAP_ENTRIES_def)
  then show ?thesis
    using process_create_pid[OF b(1,2), of 0 0] z vm_address_space_create_pids[OF b(3)] b(4)
    by (simp add: pid_bitmap_set_def upd_proc_def)
qed

end
