(* ===== verification/Ig_smp.thy ===== *)
theory Ig_smp
  imports Int_Spec K_user_mem
begin

text \<open>
  \<open>kernel/arch/amd64/ig_smp.c\<close> and \<open>timer_spin_wait\<close>: counting the processors of the interrupt table and
  starting the others.  What happens elsewhere while the processor waits is a list of steps:
  each is a change of the state and the reading of the time-stamp counter that follows it.  The code
  at the address the start-up interrupt names is in assembler; it ends in the call of
  \<open>ig_smp_ap_entry\<close>.  Messages to the console are left out.
\<close>

section \<open>Waiting\<close>

fun spin_loop :: "u64 \<Rightarrow> (('a int_state_scheme \<Rightarrow> 'a int_state_scheme) \<times> u64) list \<Rightarrow> 'a int_state_scheme \<Rightarrow> 'a int_state_scheme res" where
  "spin_loop deadline [] s = Fail NoReturn"
| "spin_loop deadline ((f, t) # ws) s = (let s = (f s)\<lparr>tsc := t\<rparr>
     in bind_res (timer_get_timestamp s) (\<lambda>now. if now < deadline then spin_loop deadline ws s else Ok s))"

definition timer_spin_wait ::
    "(('a int_state_scheme \<Rightarrow> 'a int_state_scheme) \<times> u64) list \<Rightarrow> u64 \<Rightarrow> 'a int_state_scheme \<Rightarrow> 'a int_state_scheme res" where
  "timer_spin_wait ws wait_ms s = (let s = s\<lparr>int_cpu := interrupt_enable_preemption (int_cpu s)\<rparr>
     in bind_res (timer_get_timestamp s) (\<lambda>now. spin_loop (now + wait_ms) ws s))"

section \<open>State\<close>

record cpu_t =
  kern_id :: u32
  lapic :: u32

text \<open>\<open>percpu_self\<close> and \<open>percpu_id\<close> are two words of each block of per-processor data; the other words of the
  block are not part of the state.  \<open>ap_gsbase\<close> is the register of the processor that is being started;
  \<open>low_mem\<close> is memory below 1 MB.\<close>

record smp_state = int_state +
  ap_percpu_data :: u64
  next_cpuid :: u64
  ap_started :: bool
  ap_stack :: u64
  ap_gsbase :: u64
  percpu_self :: "u64 \<Rightarrow> u64"
  percpu_id :: "u64 \<Rightarrow> u64"
  cpus :: u64
  cpu_table :: "u64 \<Rightarrow> cpu_t"
  cpu_count :: u64
  low_mem :: mem

definition APIC_REG_ID :: u64 where "APIC_REG_ID = 0x20"
definition APIC_REG_ICR0 :: u64 where "APIC_REG_ICR0 = 0x300"
definition APIC_REG_ICR1 :: u64 where "APIC_REG_ICR1 = 0x310"
definition PERCPU_SIZE :: u64 where "PERCPU_SIZE = 120"
definition AP_STACK_SIZE :: u64 where "AP_STACK_SIZE = 16384"

definition flat_gdt :: "u64 list" where
  "flat_gdt = [0, 0x00CF9A000000FFFF, 0x00CF92000000FFFF]"

section \<open>A processor that starts\<close>

text \<open>The code clears the whole block first: of that, the model has the two words it keeps.\<close>

definition ig_percpu_init_ap :: "'a smp_state_scheme \<Rightarrow> 'a smp_state_scheme res" where
  "ig_percpu_init_ap s = (let p = ap_percpu_data s in nonnull p (let
     s = s\<lparr>percpu_self := (percpu_self s)(p := 0), percpu_id := (percpu_id s)(p := 0)\<rparr>;
     s = s\<lparr>percpu_self := (percpu_self s)(p := p)\<rparr>;
     s = s\<lparr>percpu_id := (percpu_id s)(p := next_cpuid s), next_cpuid := next_cpuid s + 1\<rparr>
   in Ok (s\<lparr>ap_gsbase := p\<rparr>)))"

text \<open>Up to the call of \<open>ig_entry_ap\<close>.  \<open>regs\<close> are the registers of the processor's own APIC.\<close>

definition ig_smp_ap_entry :: "(u64 \<Rightarrow> u32) \<Rightarrow> 'a smp_state_scheme \<Rightarrow> 'a smp_state_scheme res" where
  "ig_smp_ap_entry regs s = bind_res (ig_percpu_init_ap s) (\<lambda>s. let
     me = percpu_self s (ap_gsbase s);
     i = percpu_id s me
   in nonnull (cpus s) (let
     s = s\<lparr>cpu_table := (cpu_table s)(i := (cpu_table s i)\<lparr>kern_id := ucast i\<rparr>)\<rparr>;
     s = s\<lparr>cpu_table := (cpu_table s)(i := (cpu_table s i)\<lparr>lapic := drop_bit 24 (regs APIC_REG_ID)\<rparr>)\<rparr>
   in Ok (s\<lparr>ap_started := True\<rparr>)))"

section \<open>Starting a processor\<close>

text \<open>The two copies below \<open>0x7000\<close>: the pointer to the segment table, ten bytes, and the table itself.\<close>

definition le_bytes :: "nat \<Rightarrow> u64 \<Rightarrow> u8 list" where
  "le_bytes n v = map (\<lambda>k. ucast (drop_bit (8 * k) v)) [0..<n]"

definition put_flat_gdt :: "mem \<Rightarrow> mem" where
  "put_flat_gdt m = (let
     m = put_bytes (0x7000 - 24 - 10) (le_bytes 2 24 @ le_bytes 8 (0x7000 - 24)) m
   in put_bytes (0x7000 - 24) (concat (map (le_bytes 8) flat_gdt)) m)"

text \<open>\<open>tramp\<close> are the bytes of the start-up code; \<open>w1\<close>, \<open>w2\<close> and \<open>w3\<close> are what happens during the three waits.\<close>

type_synonym 's wait_steps = "(('s \<Rightarrow> 's) \<times> u64) list"

definition ig_smp_start_ap ::
    "u8 list \<Rightarrow> 'a smp_state_scheme wait_steps \<Rightarrow> 'a smp_state_scheme wait_steps \<Rightarrow> 'a smp_state_scheme wait_steps \<Rightarrow>
     u32 \<Rightarrow> 'a smp_state_scheme \<Rightarrow> 'a smp_state_scheme res" where
  "ig_smp_start_ap tramp w1 w2 w3 target_lapic_id s = (let
     s = s\<lparr>ap_started := False\<rparr>;
     icr1_value = apic_read_reg APIC_REG_ICR1 s;
     icr1_value = icr1_value AND NOT (push_bit 24 0xF);
     icr1_value = icr1_value OR push_bit 24 (target_lapic_id AND 0xF);
     s = apic_write_reg APIC_REG_ICR1 icr1_value s;
     s = apic_write_reg APIC_REG_ICR0 0x00004500 s
   in bind_res (timer_spin_wait w1 10 s) (\<lambda>s. let
     s = s\<lparr>low_mem := put_flat_gdt (low_mem s)\<rparr>
   in bind_res (kmem_alloc AP_STACK_SIZE s) (\<lambda>(stack, s). let
     s = s\<lparr>ap_stack := stack\<rparr>
   in bind_res (kmem_alloc PERCPU_SIZE s) (\<lambda>(data, s). let
     s = s\<lparr>ap_percpu_data := data\<rparr>;
     s = s\<lparr>low_mem := put_bytes 0x7000 tramp (low_mem s)\<rparr>;
     s = apic_write_reg APIC_REG_ICR0 0x00004607 s
   in bind_res (timer_spin_wait w2 1 s) (\<lambda>s.
     if \<not> ap_started s
     then (let s = apic_write_reg APIC_REG_ICR0 0x00004607 s
       in bind_res (timer_spin_wait w3 1000 s) (\<lambda>s.
         if \<not> ap_started s then kmem_free (ap_stack s) s else Ok s))
     else Ok s)))))"

section \<open>The interrupt table\<close>

text \<open>\<open>for (r = acpi_madt_first_record(); r; r = acpi_madt_next_record(r))\<close>, from \<open>r\<close> on.\<close>

partial_function (option) madt_for :: "mem \<Rightarrow> u64 \<Rightarrow> (u64 \<Rightarrow> 's \<Rightarrow> 's res) \<Rightarrow> u64 \<Rightarrow> 's \<Rightarrow> 's res option" where
  "madt_for m t body r s =
     (if r = 0 then Some (Ok s)
      else case bind_res (body r s) (\<lambda>s. bind_res (acpi_madt_next_record m t r) (\<lambda>r. Ok (r, s))) of
          Fail e \<Rightarrow> Some (Fail e)
        | Ok (r, s) \<Rightarrow> madt_for m t body r s)"

definition count_cpu :: "mem \<Rightarrow> u64 \<Rightarrow> 'a smp_state_scheme \<Rightarrow> 'a smp_state_scheme res" where
  "count_cpu m r s = (if m r \<noteq> 0 then Ok s else Ok (s\<lparr>cpu_count := cpu_count s + 1\<rparr>))"

definition ig_smp_init :: "mem \<Rightarrow> u64 \<Rightarrow> 'a smp_state_scheme \<Rightarrow> 'a smp_state_scheme res" where
  "ig_smp_init m t s = bind_res (ends (madt_for m t (count_cpu m) (acpi_madt_first_record t) s)) (\<lambda>s.
     bind_res (kmem_alloc (8 * cpu_count s) s) (\<lambda>(p, s). let
       s = s\<lparr>cpus := p\<rparr>
     in verify (p \<noteq> 0) ''failed to alloc cpu table'' (Ok s)))"

text \<open>\<open>ws\<close> gives what happens during the waits for the processor of a record.\<close>

type_synonym 's ap_waits = "u64 \<Rightarrow> 's wait_steps \<times> 's wait_steps \<times> 's wait_steps"

definition start_cpu ::
    "u8 list \<Rightarrow> 'a smp_state_scheme ap_waits \<Rightarrow> u32 \<Rightarrow> mem \<Rightarrow> u64 \<Rightarrow> 'a smp_state_scheme \<Rightarrow> 'a smp_state_scheme res" where
  "start_cpu tramp ws self_lapic_id m r s =
     (if m r \<noteq> 0 then Ok s
      else if ucast (m (r + 3)) = self_lapic_id then Ok s
      else (case ws r of (w1, w2, w3) \<Rightarrow> ig_smp_start_ap tramp w1 w2 w3 (ucast (m (r + 3))) s))"

definition ig_smp_start_all_aps ::
    "u8 list \<Rightarrow> 'a smp_state_scheme ap_waits \<Rightarrow> mem \<Rightarrow> u64 \<Rightarrow> 'a smp_state_scheme \<Rightarrow> 'a smp_state_scheme res" where
  "ig_smp_start_all_aps tramp ws m t s = (let
     self_lapic_id = drop_bit 24 (apic_read_reg APIC_REG_ID s)
   in ends (madt_for m t (start_cpu tramp ws self_lapic_id m) (acpi_madt_first_record t) s))"

section \<open>Waiting ends\<close>

text \<open>A wait returns at the first reading that is not before the deadline.\<close>

lemma spin_loop_first:
  assumes "\<forall>(f, t) \<in> set (ws @ [w]). \<forall>s. tsc_count (f s) = tsc_count (s :: 'a int_state_scheme)" "tsc_count s \<noteq> 0"
    and "\<forall>(f, t) \<in> set ws. t div tsc_count s * 10 < deadline" "deadline \<le> snd w div tsc_count s * 10"
  shows "spin_loop deadline (ws @ w # vs) s = Ok (fold (\<lambda>(f, t) s. (f s)\<lparr>tsc := t\<rparr>) (ws @ [w]) s)"
  using assms
proof (induction ws arbitrary: s)
  case Nil
  then show ?case by (cases w) (auto simp: timer_get_timestamp_def Let_def)
next
  case (Cons x ws)
  obtain f t where x: "x = (f, t)" by (cases x)
  have c: "tsc_count ((f s)\<lparr>tsc := t\<rparr>) = tsc_count s" using Cons.prems(1) x by simp
  have "spin_loop deadline (ws @ w # vs) ((f s)\<lparr>tsc := t\<rparr>) = Ok (fold (\<lambda>(f, t) s. (f s)\<lparr>tsc := t\<rparr>) (ws @ [w]) ((f s)\<lparr>tsc := t\<rparr>))"
    by (rule Cons.IH) (use Cons.prems c x in auto)
  then show ?case using Cons.prems(1-3) x c by (simp add: timer_get_timestamp_def Let_def)
qed

lemma timer_spin_wait_once:
  assumes "\<forall>s. tsc_count (f s) = tsc_count (s :: 'a int_state_scheme)" "tsc_count s \<noteq> 0"
    and "\<not> t div tsc_count s * 10 < tsc s div tsc_count s * 10 + ms"
  shows "timer_spin_wait ((f, t) # ws) ms s = Ok ((f (s\<lparr>int_cpu := interrupt_enable_preemption (int_cpu s)\<rparr>))\<lparr>tsc := t\<rparr>)"
  using assms spin_loop_first[of "[]" "(f, t)"  "s\<lparr>int_cpu := interrupt_enable_preemption (int_cpu s)\<rparr>" "tsc s div tsc_count s * 10 + ms" ws]
  by (simp add: timer_spin_wait_def timer_get_timestamp_def Let_def not_less)

section \<open>The walk\<close>

interpretation madt_each: record_loop "madt_for m t body" "\<lambda>r. r = 0" "madt_next m (t + ucast (sdt_length m t))"
  "\<lambda>r s. bind_res (body r s) (\<lambda>s. bind_res (acpi_madt_next_record m t r) (\<lambda>_. Ok s))" for m t body
proof
  fix p s
  show "madt_for m t body p s = (if p = 0 then Some (Ok s)
      else case bind_res (body p s) (\<lambda>s. bind_res (acpi_madt_next_record m t p) (\<lambda>_. Ok s)) of Fail e \<Rightarrow> Some (Fail e)
      | Ok s \<Rightarrow> madt_for m t body (madt_next m (t + ucast (sdt_length m t)) p) s)"
    by (subst madt_for.simps)
      (auto simp: acpi_madt_next_record_def madt_next_def Let_def nonnull_def verify_def bind_res_def split: res.splits)
qed

text \<open>A table with its records.\<close>

definition madt_at :: "mem \<Rightarrow> u64 \<Rightarrow> u8 list list \<Rightarrow> bool" where
  "madt_at m t rs \<longleftrightarrow> t \<noteq> 0 \<and> rs \<noteq> [] \<and> (\<forall>xs \<in> set rs. madt_record xs) \<and> records_at m (t + 44) rs \<and>
     unat (sdt_length m t) = 44 + length (concat rs) \<and> unat t + 44 + length (concat rs) < 2 ^ 64"

definition record_addrs :: "u64 \<Rightarrow> u8 list list \<Rightarrow> u64 list" where
  "record_addrs t rs = starts (t + 44) (map length rs)"

lemma madt_step_next:
  assumes "t \<noteq> 0" "unat t < unat p" "unat p + length (concat rs) \<le> unat (t + ucast (sdt_length m t))"
  shows "fold_res (\<lambda>r s. bind_res (body r s) (\<lambda>s. bind_res (acpi_madt_next_record m t r) (\<lambda>_. Ok s))) (starts p (map length rs)) s =
    fold_res body (starts p (map length rs)) s"
  using assms
proof (induction rs arbitrary: p s)
  case (Cons xs rs)
  let ?q = "p + of_nat (length xs)"
  have q: "unat ?q = unat p + length xs"
    by (rule unat_add_of_nat) (use Cons.prems(3) unat_u64_less[of "t + ucast (sdt_length m t)"] in simp)
  have n: "\<exists>r. acpi_madt_next_record m t p = Ok r"
    using Cons.prems by (simp add: acpi_madt_next_record_def nonnull_def verify_def Let_def word_less_nat_alt word_le_nat_alt)
  have "fold_res (\<lambda>r s. bind_res (body r s) (\<lambda>s. bind_res (acpi_madt_next_record m t r) (\<lambda>_. Ok s))) (starts ?q (map length rs)) u =
      fold_res body (starts ?q (map length rs)) u" for u
    by (rule Cons.IH) (use Cons.prems q in simp_all)
  then show ?case using n by (cases "body p s") auto
qed simp

lemma madt_for_fold:
  assumes "madt_at m t rs"
  shows "madt_for m t body (acpi_madt_first_record t) s = Some (fold_res body (record_addrs t rs) s)"
proof -
  let ?p = "t + 44" and ?e = "t + ucast (sdt_length m t)"
  have a: "t \<noteq> 0" "rs \<noteq> []" "\<forall>xs \<in> set rs. madt_record xs" "records_at m ?p rs"
      "unat (sdt_length m t) = 44 + length (concat rs)" "unat t + 44 + length (concat rs) < 2 ^ 64"
    using assms by (simp_all add: madt_at_def)
  have t: "unat ?p = unat t + 44" using unat_add_of_nat[of t 44] a(6) by simp
  have "ucast (sdt_length m t) = (of_nat (44 + length (concat rs)) :: u64)"
    unfolding a(5)[symmetric] by (simp add: unsigned_ucast_eq)
  then have e: "?e = ?p + of_nat (length (concat rs))" by simp
  have ue: "unat ?e = unat ?p + length (concat rs)"
    using unat_add_of_nat[of ?p "length (concat rs)"] t a(6) e by (simp add: add.assoc)
  have "visits (\<lambda>r. r = 0) (madt_next m ?e) ?p (record_addrs t rs)"
    unfolding record_addrs_def by (rule madt_visits[OF a(2-4)]) (use t e a(6) in auto)
  moreover have "acpi_madt_first_record t = ?p"
    using a(1) by (simp add: acpi_madt_first_record_def SDT_HEADER_SIZE_def MADT_LAPIC_SIZE_def)
  ultimately show ?thesis
    using madt_each.walk[of m t ?p "record_addrs t rs" body s] madt_step_next[OF a(1), of ?p rs m body s] t ue by (simp add: record_addrs_def)
qed

section \<open>Counting\<close>

lemma count_cpu_fold:
  "fold_res (count_cpu m) ps s = Ok (s\<lparr>cpu_count := cpu_count s + of_nat (length (filter (\<lambda>r. m r = 0) ps))\<rparr>)"
  by (induction ps arbitrary: s) (simp_all add: count_cpu_def)

section \<open>Starting one processor\<close>

text \<open>The effect of \<open>ig_smp_ap_entry\<close> on the processor that waits for it.\<close>

definition ap_runs :: "(u64 \<Rightarrow> u32) \<Rightarrow> 'a smp_state_scheme \<Rightarrow> 'a smp_state_scheme" where
  "ap_runs regs s = (case ig_smp_ap_entry regs s of Ok t \<Rightarrow> t | Fail _ \<Rightarrow> s)"

text \<open>The interrupts that start the processor with the number \<open>i\<close>: the destination has four bits.\<close>

definition ipis :: "u32 \<Rightarrow> u32 \<Rightarrow> dev_write list" where
  "ipis icr1 i = [ApicOut 0x310 ((icr1 AND NOT 0xF000000) OR push_bit 24 (i AND 0xF)), ApicOut 0x300 0x4500, ApicOut 0x300 0x4607]"

text \<open>How the other processors take interrupts, after the documentation of the APIC.  A write of the lower half of
  the command register sends an interrupt to the processor in bits 24 to 31 of the upper half as last
  written; bits 8 to 10 are its kind.  A processor that was reset by the kind 5 (INIT) begins, with the kind 6
  (start-up), in the page its lowest byte names; it comes to \<open>ig_smp_ap_entry\<close> if the start-up code is
  there, with the table of segments below it.  All other interrupts have no effect.\<close>

fun ipis_sent :: "u32 \<Rightarrow> dev_write list \<Rightarrow> (u32 \<times> u32) list" where
  "ipis_sent d [] = []"
| "ipis_sent d (PortOut _ _ # ws) = ipis_sent d ws"
| "ipis_sent d (ApicOut a v # ws) =
     (if a = 0x310 then ipis_sent (drop_bit 24 v) ws else if a = 0x300 then (d, v) # ipis_sent d ws else ipis_sent d ws)"

definition ipi_kind :: "u32 \<Rightarrow> u32" where
  "ipi_kind v = drop_bit 8 v AND 7"

definition was_reset :: "u32 \<Rightarrow> (u32 \<times> u32) list \<Rightarrow> bool" where
  "was_reset i sent = (case filter (\<lambda>(j, v). j = i) sent of [] \<Rightarrow> False | (_, v) # _ \<Rightarrow> ipi_kind v = 5)"

definition flat_gdt_image :: "u8 list" where
  "flat_gdt_image = [24, 0, 0xE8, 0x6F, 0, 0, 0, 0, 0, 0] @ [0, 0, 0, 0, 0, 0, 0, 0] @
     [0xFF, 0xFF, 0, 0, 0, 0x9A, 0xCF, 0, 0xFF, 0xFF, 0, 0, 0, 0x92, 0xCF, 0]"

definition boots :: "u8 list \<Rightarrow> mem \<Rightarrow> u64 \<Rightarrow> bool" where
  "boots tramp m a \<longleftrightarrow> bytes_at m a (length tramp) = tramp \<and> bytes_at m (a - 34) 34 = flat_gdt_image"

text \<open>\<open>ids\<close> are the APIC numbers of the processors that are there; \<open>regs i\<close> are the registers of the APIC of \<open>i\<close>.\<close>

definition answer_ipi :: "u8 list \<Rightarrow> u32 list \<Rightarrow> (u32 \<Rightarrow> u64 \<Rightarrow> u32) \<Rightarrow> 'a smp_state_scheme \<Rightarrow> 'a smp_state_scheme" where
  "answer_ipi tramp ids regs s = (case rev (ipis_sent 0 (dev_out s)) of
       [] \<Rightarrow> s
     | (i, v) # sent \<Rightarrow>
         if i \<in> set ids \<and> ipi_kind v = 6 \<and> was_reset i sent \<and> boots tramp (low_mem s) (push_bit 12 (ucast (v AND 0xFF)))
         then ap_runs (regs i) s else s)"

lemma ipis_sent_append:
  "ipis_sent d (xs @ ApicOut 0x310 v # ws) = ipis_sent d xs @ ipis_sent (drop_bit 24 v) ws"
  by (induction d xs rule: ipis_sent.induct) simp_all

lemma ap_runs_tsc: "tsc_count (ap_runs regs s) = tsc_count s"
  by (auto simp: ap_runs_def ig_smp_ap_entry_def ig_percpu_init_ap_def Let_def nonnull_def split: res.splits)

lemma nibble_bits: "bit (0xF000000 :: u32) n \<longleftrightarrow> 24 \<le> n \<and> n < 28" "bit (0xF :: u32) n \<longleftrightarrow> n < 4"
proof -
  have e: "0xF000000 = push_bit 24 (mask 4 :: u32)" "0xF = (mask 4 :: u32)" by (simp_all add: mask_numeral)
  show "bit (0xF000000 :: u32) n \<longleftrightarrow> 24 \<le> n \<and> n < 28" unfolding e(1) by (auto simp: bit_push_bit_iff bit_mask_iff)
  show "bit (0xF :: u32) n \<longleftrightarrow> n < 4" unfolding e(2) by (auto simp: bit_mask_iff)
qed

lemma ipi_destination:
  assumes "drop_bit 28 icr1 = 0" "i < 16"
  shows "drop_bit 24 ((icr1 AND NOT 0xF000000) OR push_bit 24 (i AND 0xF)) = (i :: u32)"
proof -
  have "take_bit 4 i = i"
    using assms(2) by (simp add: word_unat_eq_iff unsigned_take_bit_eq take_bit_nat_eq_self word_less_nat_alt)
  then have a: "\<not> bit i n" if "4 \<le> n" for n using that by (metis bit_take_bit_iff not_less)
  have c: "\<not> bit icr1 n" if "28 \<le> n" for n
    using arg_cong[OF assms(1), of "\<lambda>w. bit w (n - 28)"] that by (simp add: bit_drop_bit_eq)
  have "bit i n \<Longrightarrow> n < 4" "bit icr1 (24 + n) \<Longrightarrow> n < 4" for n
    by (rule ccontr, simp add: a) (rule ccontr, simp add: c)
  then have "drop_bit 24 ((icr1 AND NOT F) OR push_bit 24 (i AND G)) = i"
    if "\<And>n. bit F n \<longleftrightarrow> 24 \<le> n \<and> n < 28" "\<And>n. bit G n \<longleftrightarrow> n < 4" for F G
    by (intro bit_word_eqI) (auto simp: bit_simps that; fastforce)
  from this[OF nibble_bits] show ?thesis .
qed

lemma gdt_stands:
  assumes "length tramp < 2 ^ 32"
  shows "bytes_at (put_bytes 0x7000 tramp (put_flat_gdt m)) 0x6FDE 34 = flat_gdt_image"
proof -
  let ?A = "le_bytes 2 24 @ le_bytes 8 0x6FE8" and ?B = "concat (map (le_bytes 8) flat_gdt)"
  have l: "length (le_bytes n v) = n" "length ?B = 24" for n v by (simp_all add: le_bytes_def flat_gdt_def)
  have below: "\<not> unat (0x6FDE + of_nat k - a :: u64) < n" if "k < j" "unat a = 0x6FDE + j" "n < 2 ^ 32" "j < 100" for k j n a
  proof
    let ?d = "0x6FDE + of_nat k - a :: u64"
    assume "unat ?d < n"
    then have "unat (a + of_nat (unat ?d)) = unat a + unat ?d" using that unat_add_of_nat[of a "unat ?d"] by simp
    moreover have "unat (0x6FDE + of_nat k :: u64) = 0x6FDE + k" using that unat_add_of_nat[of "0x6FDE" k] by simp
    ultimately show False using that by simp
  qed
  have "\<not> unat (0x6FDE + of_nat k - 0x7000 :: u64) < length tramp" if "k < 34" for k
    using below[of k 34 "0x7000" "length tramp"] that assms by simp
  then have "bytes_at (put_bytes 0x7000 tramp (put_flat_gdt m)) 0x6FDE 34 = bytes_at (put_flat_gdt m) 0x6FDE 34"
    by (intro nth_equalityI) (auto simp: put_bytes_def)
  also have "\<dots> = ?A @ ?B"
  proof (rule nth_equalityI)
    fix k assume "k < length (bytes_at (put_flat_gdt m) 0x6FDE 34)"
    then have k: "k < 34" by simp
    have "unat (0x6FDE + of_nat k :: u64) = 0x6FDE + k" using k unat_add_of_nat[of "0x6FDE" k] by simp
    moreover have "0x6FDE + of_nat k - 0x6FE8 = (of_nat (k - 10) :: u64)" if "10 \<le> k" using that by (simp add: of_nat_diff)
    moreover have "unat (of_nat (k - 10) :: u64) = k - 10" "unat (of_nat k :: u64) = k" using k by (simp_all add: unat_of_nat)
    moreover have "\<not> unat (0x6FDE + of_nat k - 0x6FE8 :: u64) < 24" if "k < 10"
      using that below[of k 10 "0x6FE8" 24] by simp
    ultimately show "bytes_at (put_flat_gdt m) 0x6FDE 34 ! k = (?A @ ?B) ! k"
      using k l by (cases "k < 10") (auto simp: put_flat_gdt_def put_bytes_def nth_append)
  qed (simp add: l)
  also have "\<dots> = flat_gdt_image" by (simp add: le_bytes_def flat_gdt_def flat_gdt_image_def upt_rec)
  finally show ?thesis .
qed

lemma boots_after:
  assumes "length tramp < 2 ^ 32"
  shows "boots tramp (put_bytes 0x7000 tramp (put_flat_gdt m)) 0x7000"
  using gdt_stands[OF assms] assms by (simp add: boots_def bytes_at_put_bytes)

text \<open>The reset alone starts nothing; the start-up interrupt behind it starts the processor it names.\<close>

lemma answer_reset:
  "dev_out s = xs @ take 2 (ipis icr1 i) \<Longrightarrow> answer_ipi tramp ids regs s = s"
  by (simp add: answer_ipi_def ipis_def ipis_sent_append ipi_kind_def)

lemma answer_startup:
  assumes "dev_out s = xs @ ipis icr1 i" "drop_bit 28 icr1 = 0" "i < 16" "i \<in> set ids"
    and "low_mem s = put_bytes 0x7000 tramp (put_flat_gdt m)" "length tramp < 2 ^ 32"
  shows "answer_ipi tramp ids regs s = ap_runs (regs i) s"
proof -
  have "rev (ipis_sent 0 (dev_out s)) = (i, 0x4607) # (i, 0x4500) # rev (ipis_sent 0 xs)"
    unfolding assms(1) ipis_def ipis_sent_append ipi_destination[OF assms(2,3)] by simp
  then show ?thesis
    using assms(4,5) boots_after[OF assms(6), of m] by (simp add: answer_ipi_def ipi_kind_def was_reset_def)
qed

lemma answer_tsc: "tsc_count (answer_ipi tramp ids regs s) = tsc_count s"
  by (auto simp: answer_ipi_def ap_runs_tsc split: list.splits)

lemma ap_runs_Ok:
  assumes "ap_percpu_data s \<noteq> 0" "cpus s \<noteq> 0"
  shows "ap_runs regs s = s\<lparr>percpu_self := (percpu_self s)(ap_percpu_data s := ap_percpu_data s),
    percpu_id := (percpu_id s)(ap_percpu_data s := next_cpuid s), next_cpuid := next_cpuid s + 1, ap_gsbase := ap_percpu_data s,
    cpu_table := (cpu_table s)(next_cpuid s := (cpu_table s (next_cpuid s))\<lparr>kern_id := ucast (next_cpuid s), lapic := drop_bit 24 (regs 0x20)\<rparr>),
    ap_started := True\<rparr>"
  using assms by (simp add: ap_runs_def ig_smp_ap_entry_def ig_percpu_init_ap_def Let_def APIC_REG_ID_def)

lemma h_alloc_last:
  assumes "\<forall>(c, n, u) \<in> set bs. u" "unat n + 64 \<le> unat M"
  shows "h_alloc n (bs @ [(c, M, False)]) = Some (c, bs @ [(c, n, True), (c + 32 + n, M - n - 32, False)])"
  using assms(1)
proof (induction bs)
  case Nil
  have "unat (M - n) = unat M - unat n" using assms(2) by (intro unat_sub_le) (simp add: word_le_nat_alt)
  then show ?case using assms(2) by (simp add: word_le_nat_alt)
qed auto

lemma cpu_t_full: "(r :: cpu_t)\<lparr>kern_id := a, lapic := b\<rparr> = \<lparr>kern_id = a, lapic = b\<rparr>"
  by (cases r) simp

lemma heap_rel_smp:
  fixes s :: "'a smp_state_scheme"
  shows "heap_rel (s\<lparr>ap_started := a\<rparr>) bs = heap_rel s bs" "heap_rel (s\<lparr>tsc := b\<rparr>) bs = heap_rel s bs"
    "heap_rel (s\<lparr>low_mem := d\<rparr>) bs = heap_rel s bs" "heap_rel (s\<lparr>ap_stack := e\<rparr>) bs = heap_rel s bs"
    "heap_rel (s\<lparr>ap_percpu_data := f\<rparr>) bs = heap_rel s bs" "heap_rel (s\<lparr>percpu_self := g\<rparr>) bs = heap_rel s bs"
    "heap_rel (s\<lparr>percpu_id := h\<rparr>) bs = heap_rel s bs" "heap_rel (s\<lparr>next_cpuid := i\<rparr>) bs = heap_rel s bs"
    "heap_rel (s\<lparr>ap_gsbase := j\<rparr>) bs = heap_rel s bs" "heap_rel (s\<lparr>cpu_table := k\<rparr>) bs = heap_rel s bs"
  by (simp_all add: heap_rel_def)

lemma start_ap_Ok:
  fixes s :: "'a smp_state_scheme"
  assumes heap: "heap_rel s (bs @ [(c, M, False)])" "\<forall>(c, n, u) \<in> set bs. u" "16640 \<le> unat M" "mutex_owner s KheapLock = 0"
    and tm: "tsc_count s \<noteq> 0" "\<not> a div tsc_count s * 10 < tsc s div tsc_count s * 10 + 10"
      "\<not> b div tsc_count s * 10 < a div tsc_count s * 10 + 1" and cp: "cpus s \<noteq> 0"
    and ipi: "drop_bit 28 (apic_in s 0x310) = 0" "i < 16" "i \<in> set ids" "length tramp < 2 ^ 32"
  shows "\<exists>t. ig_smp_start_ap tramp [(answer_ipi tramp ids regs, a)] [(answer_ipi tramp ids regs, b)] w3 i s = Ok t \<and>
    heap_rel t ((bs @ [(c, 16384, True), (c + 16416, 128, True)]) @ [(c + 16576, M - 16576, False)]) \<and>
    mutex_owner t = mutex_owner s \<and> tsc t = b \<and> tsc_count t = tsc_count s \<and> cpus t = cpus s \<and> apic_in t = apic_in s \<and>
    dev_out t = dev_out s @ ipis (apic_in s 0x310) i \<and> next_cpuid t = next_cpuid s + 1 \<and>
    cpu_table t = (cpu_table s)(next_cpuid s := \<lparr>kern_id = ucast (next_cpuid s), lapic = drop_bit 24 (regs i 0x20)\<rparr>)"
proof -
  define s1 where "s1 = s\<lparr>ap_started := False, dev_out := dev_out s @ take 2 (ipis (apic_in s 0x310) i),
    int_cpu := (int_cpu s)\<lparr>cpu_if := True\<rparr>, tsc := a, low_mem := put_flat_gdt (low_mem s)\<rparr>"
  have r1: "heap_rel s1 (bs @ [(c, M, False)])" "mutex_owner s1 KheapLock = 0"
    using heap by (simp_all add: s1_def heap_rel_smp heap_rel_upd)
  have n: "16384 = ALIGNUP AP_STACK_SIZE 32" "128 = ALIGNUP PERCPU_SIZE 32"
    by (simp_all add: AP_STACK_SIZE_def PERCPU_SIZE_def ALIGNUP_def ALIGNDOWN_def)
  have h1: "h_alloc 16384 (bs @ [(c, M, False)]) = Some (c, (bs @ [(c, 16384, True)]) @ [(c + 16416, M - 16416, False)])"
    using h_alloc_last[OF heap(2), of 16384 M c] heap(3) by (simp add: add.assoc)
  obtain kl kw where a1: "kmem_alloc AP_STACK_SIZE s1 = Ok (c + 32, s1\<lparr>kh_list := kl, kh_word := kw\<rparr>)"
      "heap_rel (s1\<lparr>kh_list := kl, kh_word := kw\<rparr>) ((bs @ [(c, 16384, True)]) @ [(c + 16416, M - 16416, False)])"
    using alloc_only[OF r1 h1 n(1)] by blast
  define s2 where "s2 = s1\<lparr>kh_list := kl, kh_word := kw, ap_stack := c + 32\<rparr>"
  have r2: "heap_rel s2 ((bs @ [(c, 16384, True)]) @ [(c + 16416, M - 16416, False)])" "mutex_owner s2 KheapLock = 0"
    using a1(2) r1(2) by (simp_all add: s2_def heap_rel_smp)
  have "unat (M - 16416) = unat M - 16416" using heap(3) unat_sub_le[of 16416 M] by (simp add: word_le_nat_alt)
  then have h2: "h_alloc 128 ((bs @ [(c, 16384, True)]) @ [(c + 16416, M - 16416, False)]) =
      Some (c + 16416, (bs @ [(c, 16384, True), (c + 16416, 128, True)]) @ [(c + 16576, M - 16576, False)])"
    using h_alloc_last[of "bs @ [(c, 16384, True)]" 128 "M - 16416" "c + 16416"] heap(2,3) by (simp add: add.assoc)
  obtain kl kw where a2: "kmem_alloc PERCPU_SIZE s2 = Ok (c + 16416 + 32, s2\<lparr>kh_list := kl, kh_word := kw\<rparr>)" "c + 16416 + 32 \<noteq> 0"
      "heap_rel (s2\<lparr>kh_list := kl, kh_word := kw\<rparr>) ((bs @ [(c, 16384, True), (c + 16416, 128, True)]) @ [(c + 16576, M - 16576, False)])"
    using alloc_only[OF r2 h2 n(2)] by blast
  define s3 where "s3 = s2\<lparr>kh_list := kl, kh_word := kw, ap_percpu_data := c + 16416 + 32, low_mem := put_bytes 0x7000 tramp (low_mem s2),
    dev_out := dev_out s @ ipis (apic_in s 0x310) i\<rparr>"
  let ?ans = "answer_ipi tramp ids regs"
  have w1: "timer_spin_wait [(?ans, a)] 10 (apic_write_reg APIC_REG_ICR0 0x00004500 (apic_write_reg APIC_REG_ICR1
      (apic_read_reg APIC_REG_ICR1 (s\<lparr>ap_started := False\<rparr>) AND NOT (push_bit 24 0xF) OR push_bit 24 (i AND 0xF)) (s\<lparr>ap_started := False\<rparr>))) =
      Ok (s1\<lparr>low_mem := low_mem s\<rparr>)"
    using tm by (subst timer_spin_wait_once) (simp_all add: answer_tsc s1_def apic_write_reg_def apic_read_reg_def APIC_REG_ICR0_def
        APIC_REG_ICR1_def answer_reset[of _ "dev_out s" "apic_in s 0x310" i] ipis_def interrupt_enable_preemption_def)
  have "timer_spin_wait [(?ans, b)] 1 s3 = Ok ((?ans (s3\<lparr>int_cpu := interrupt_enable_preemption (int_cpu s3)\<rparr>))\<lparr>tsc := b\<rparr>)"
    by (rule timer_spin_wait_once) (use tm in \<open>simp_all add: answer_tsc s3_def s2_def s1_def\<close>)
  moreover have "?ans (s3\<lparr>int_cpu := interrupt_enable_preemption (int_cpu s3)\<rparr>) =
      ap_runs (regs i) (s3\<lparr>int_cpu := interrupt_enable_preemption (int_cpu s3)\<rparr>)"
    by (rule answer_startup[of _ "dev_out s" "apic_in s 0x310" _ _ _ "low_mem s"])
      (use ipi in \<open>simp_all add: s3_def s2_def s1_def\<close>)
  ultimately have w2: "timer_spin_wait [(?ans, b)] 1 s3 =
      Ok ((ap_runs (regs i) (s3\<lparr>int_cpu := interrupt_enable_preemption (int_cpu s3)\<rparr>))\<lparr>tsc := b\<rparr>)" by simp
  have e: "ap_runs (regs i) (s3\<lparr>int_cpu := interrupt_enable_preemption (int_cpu s3)\<rparr>) = s3\<lparr>int_cpu := interrupt_enable_preemption (int_cpu s3),
      percpu_self := (percpu_self s)(c + 16416 + 32 := c + 16416 + 32), percpu_id := (percpu_id s)(c + 16416 + 32 := next_cpuid s),
      next_cpuid := next_cpuid s + 1, ap_gsbase := c + 16416 + 32,
      cpu_table := (cpu_table s)(next_cpuid s := \<lparr>kern_id = ucast (next_cpuid s), lapic = drop_bit 24 (regs i 0x20)\<rparr>), ap_started := True\<rparr>"
    using a2(2) cp by (subst ap_runs_Ok) (simp_all add: s3_def s2_def s1_def cpu_t_full)
  have k1: "s1\<lparr>low_mem := low_mem s, low_mem := put_flat_gdt (low_mem (s1\<lparr>low_mem := low_mem s\<rparr>))\<rparr> = s1" by (simp add: s1_def)
  have k3: "apic_write_reg APIC_REG_ICR0 0x00004607 (s2\<lparr>kh_list := kl, kh_word := kw, ap_percpu_data := c + 16416 + 32,
      low_mem := put_bytes 0x7000 tramp (low_mem (s2\<lparr>kh_list := kl, kh_word := kw, ap_percpu_data := c + 16416 + 32\<rparr>))\<rparr>) = s3"
    by (simp add: s3_def apic_write_reg_def APIC_REG_ICR0_def s2_def s1_def ipis_def)
  have "ig_smp_start_ap tramp [(answer_ipi tramp ids regs, a)] [(answer_ipi tramp ids regs, b)] w3 i s =
      Ok ((ap_runs (regs i) (s3\<lparr>int_cpu := interrupt_enable_preemption (int_cpu s3)\<rparr>))\<lparr>tsc := b\<rparr>)"
    unfolding ig_smp_start_ap_def Let_def w1 bind_res_simps k1 a1(1) prod.case s2_def[symmetric] a2(1) k3 w2 e by simp
  moreover have "heap_rel s3 ((bs @ [(c, 16384, True), (c + 16416, 128, True)]) @ [(c + 16576, M - 16576, False)])"
    using a2(3) by (simp add: s3_def heap_rel_smp heap_rel_upd)
  ultimately show ?thesis
    unfolding e by (simp add: heap_rel_smp heap_rel_upd) (simp add: s3_def s2_def s1_def)
qed

section \<open>Starting all of them\<close>

text \<open>The records of the other processors.\<close>

definition others :: "mem \<Rightarrow> u32 \<Rightarrow> u64 list \<Rightarrow> u64 list" where
  "others m self ps = filter (\<lambda>r. m r = 0 \<and> ucast (m (r + 3)) \<noteq> self) ps"

text \<open>Readings of the time-stamp counter, two for every processor: the first is 10 ms after the one before, the
  second 1 ms after that.\<close>

fun paced :: "u64 \<Rightarrow> u64 \<Rightarrow> (u64 \<times> u64) list \<Rightarrow> bool" where
  "paced c now [] = True"
| "paced c now ((a, b) # ts) =
     (\<not> a div c * 10 < now div c * 10 + 10 \<and> \<not> b div c * 10 < a div c * 10 + 1 \<and> paced c b ts)"

text \<open>The table of processors after processors with the APIC numbers \<open>ls\<close> have entered, from the number \<open>n\<close> on.\<close>

fun entered :: "(u64 \<Rightarrow> cpu_t) \<Rightarrow> u64 \<Rightarrow> u32 list \<Rightarrow> u64 \<Rightarrow> cpu_t" where
  "entered tab n [] = tab"
| "entered tab n (l # ls) = entered (tab(n := \<lparr>kern_id = ucast n, lapic = l\<rparr>)) (n + 1) ls"

lemma start_fold:
  fixes s :: "'a smp_state_scheme"
  assumes "heap_rel s (bs @ [(c, M, False)])" "\<forall>(c, n, u) \<in> set bs. u" "mutex_owner s KheapLock = 0"
    and "16576 * length (others m self ps) + 64 \<le> unat M" "tsc_count s \<noteq> 0" "paced (tsc_count s) (tsc s) (map tm (others m self ps))"
    and "cpus s \<noteq> 0" "ws = (\<lambda>r. ([(answer_ipi tramp ids regs, fst (tm r))], [(answer_ipi tramp ids regs, snd (tm r))], w3 r))"
    and "drop_bit 28 (apic_in s 0x310) = 0" "length tramp < 2 ^ 32"
    and "\<forall>r \<in> set (others m self ps). ucast (m (r + 3)) < (16 :: u32) \<and> ucast (m (r + 3)) \<in> set ids"
    and "\<forall>i \<in> set ids. drop_bit 24 (regs i 0x20) = i"
  shows "\<exists>u. fold_res (start_cpu tramp ws self m) ps s = Ok u \<and>
    dev_out u = dev_out s @ concat (map (\<lambda>r. ipis (apic_in s 0x310) (ucast (m (r + 3)))) (others m self ps)) \<and>
    next_cpuid u = next_cpuid s + of_nat (length (others m self ps)) \<and>
    cpu_table u = entered (cpu_table s) (next_cpuid s) (map (\<lambda>r. ucast (m (r + 3))) (others m self ps))"
  using assms
proof (induction ps arbitrary: s bs c M)
  case Nil
  then show ?case by (simp add: others_def)
next
  case (Cons r ps)
  show ?case
  proof (cases "m r = 0 \<and> ucast (m (r + 3)) \<noteq> self")
    case False
    then have "start_cpu tramp ws self m r s = Ok s" "others m self (r # ps) = others m self ps"
      by (auto simp: start_cpu_def others_def)
    then show ?thesis using Cons.IH[OF Cons.prems(1-3)] Cons.prems by simp
  next
    case True
    obtain a b where t: "tm r = (a, b)" by (cases "tm r")
    have o: "others m self (r # ps) = r # others m self ps" using True by (simp add: others_def)
    have M: "16640 \<le> unat M" using Cons.prems(4) o by simp
    obtain v where v: "ig_smp_start_ap tramp [(answer_ipi tramp ids regs, a)] [(answer_ipi tramp ids regs, b)] (w3 r) (ucast (m (r + 3))) s = Ok v"
        "heap_rel v ((bs @ [(c, 16384, True), (c + 16416, 128, True)]) @ [(c + 16576, M - 16576, False)])"
        "mutex_owner v = mutex_owner s" "tsc v = b" "tsc_count v = tsc_count s" "cpus v = cpus s" "apic_in v = apic_in s"
        "dev_out v = dev_out s @ ipis (apic_in s 0x310) (ucast (m (r + 3)))" "next_cpuid v = next_cpuid s + 1"
        "cpu_table v = (cpu_table s)(next_cpuid s := \<lparr>kern_id = ucast (next_cpuid s), lapic = ucast (m (r + 3))\<rparr>)"
      using start_ap_Ok[OF Cons.prems(1,2) M Cons.prems(3,5), of a b "ucast (m (r + 3))" ids tramp regs "w3 r"] Cons.prems(6,7,9-12) o t
      by auto
    have st: "start_cpu tramp ws self m r s = Ok v" using True v(1) t Cons.prems(8) by (simp add: start_cpu_def)
    have u: "unat (M - 16576) = unat M - 16576" using M unat_sub_le[of 16576 M] by (simp add: word_le_nat_alt)
    have "\<exists>u. fold_res (start_cpu tramp ws self m) ps v = Ok u \<and>
      dev_out u = dev_out v @ concat (map (\<lambda>r. ipis (apic_in v 0x310) (ucast (m (r + 3)))) (others m self ps)) \<and>
      next_cpuid u = next_cpuid v + of_nat (length (others m self ps)) \<and>
      cpu_table u = entered (cpu_table v) (next_cpuid v) (map (\<lambda>r. ucast (m (r + 3))) (others m self ps))"
    proof (rule Cons.IH[OF v(2)])
      show "\<forall>(c, n, u) \<in> set (bs @ [(c, 16384, True), (c + 16416, 128, True)]). u" using Cons.prems(2) by auto
      show "16576 * length (others m self ps) + 64 \<le> unat (M - 16576)" using Cons.prems(4) o u by simp
      show "\<forall>r \<in> set (others m self ps). ucast (m (r + 3)) < (16 :: u32) \<and> ucast (m (r + 3)) \<in> set ids"
        using Cons.prems(11) o by simp
      show "paced (tsc_count v) (tsc v) (map tm (others m self ps))" using Cons.prems(6) o t v(4,5) by simp
    qed (use Cons.prems v in simp_all)
    then show ?thesis using st v o by (auto simp: add.assoc)
  qed
qed

section \<open>Properties\<close>

definition other_cpus :: "mem \<Rightarrow> u64 \<Rightarrow> u8 list list \<Rightarrow> 'a int_state_scheme \<Rightarrow> u64 list" where
  "other_cpus m t rs s = others m (drop_bit 24 (apic_in s 0x20)) (record_addrs t rs)"

text \<open>Counting the processors.\<close>

theorem smp_init_counts:
  assumes "madt_at m t rs"
  shows "ig_smp_init m t s = (let n = cpu_count s + of_nat (length (filter (\<lambda>r. m r = 0) (record_addrs t rs)))
    in bind_res (kmem_alloc (8 * n) (s\<lparr>cpu_count := n\<rparr>)) (\<lambda>(p, s).
      verify (p \<noteq> 0) ''failed to alloc cpu table'' (Ok (s\<lparr>cpus := p\<rparr>))))"
  by (simp add: ig_smp_init_def madt_for_fold[OF assms] count_cpu_fold Let_def)

text \<open>C39: Every processor of the interrupt table but the one that runs is started, in the order of the table.
  The processors act only on the interrupts they are sent: during each wait the one that the last interrupt
  names runs \<open>ig_smp_ap_entry\<close> if it was reset, the interrupt is a start-up interrupt and the start-up code and
  its segments stand in the page that it names.  If the processors of the table are there, have APIC numbers
  below 16 and the upper bits of the command register are clear (the code writes four bits of the destination),
  and the heap has room, each processor gets its interrupts, the next kernel number, and its entry in the table
  of processors with the APIC number of its record.\<close>

theorem smp_starts_all:
  assumes "madt_at m t rs" "heap_rel s (bs @ [(c, M, False)])" "\<forall>(c, n, u) \<in> set bs. u" "mutex_owner s KheapLock = 0"
    and "16576 * length (other_cpus m t rs s) + 64 \<le> unat M" "tsc_count s \<noteq> 0" "paced (tsc_count s) (tsc s) (map tm (other_cpus m t rs s))"
    and "cpus s \<noteq> 0" "drop_bit 28 (apic_in s APIC_REG_ICR1) = 0" "length tramp < 2 ^ 32"
    and "\<forall>r \<in> set (other_cpus m t rs s). ucast (m (r + 3)) < (16 :: u32) \<and> ucast (m (r + 3)) \<in> set ids"
    and "\<forall>i \<in> set ids. drop_bit 24 (regs i APIC_REG_ID) = i"
  shows "\<exists>u. ig_smp_start_all_aps tramp
      (\<lambda>r. ([(answer_ipi tramp ids regs, fst (tm r))], [(answer_ipi tramp ids regs, snd (tm r))], w3 r)) m t s = Ok u \<and>
    dev_out u = dev_out s @ concat (map (\<lambda>r. ipis (apic_in s APIC_REG_ICR1) (ucast (m (r + 3)))) (other_cpus m t rs s)) \<and>
    next_cpuid u = next_cpuid s + of_nat (length (other_cpus m t rs s)) \<and>
    cpu_table u = entered (cpu_table s) (next_cpuid s) (map (\<lambda>r. ucast (m (r + 3))) (other_cpus m t rs s))"
  using start_fold[OF assms(2-4), of m "drop_bit 24 (apic_in s 0x20)" "record_addrs t rs" tm _ tramp ids regs w3, OF _ _ _ _ refl]
    assms(5-12)
  unfolding other_cpus_def ig_smp_start_all_aps_def Let_def madt_for_fold[OF assms(1)] apic_read_reg_def APIC_REG_ID_def
    APIC_REG_ICR1_def ends_simps by blast

text \<open>Three processors, of which the one with the APIC number 0 runs, and an I/O APIC.\<close>

definition demo_cpu_records :: "u8 list list" where
  "demo_cpu_records = [[0, 8, 0, 0, 1, 0, 0, 0], [0, 8, 1, 1, 1, 0, 0, 0], [1, 12, 0, 0, 0, 0, 0xC0, 0xFE, 0, 0, 0, 0],
     [0, 8, 2, 2, 1, 0, 0, 0]]"

definition demo_cpu_madt :: mem where
  "demo_cpu_madt a = image_mem ([65, 80, 73, 67, 80, 0, 0, 0] @ replicate 28 0 @ [0, 0, 0xE0, 0xFE, 0, 0, 0, 0] @ concat demo_cpu_records) (a - 4096)"

definition demo_smp :: smp_state where
  "demo_smp = int_state.extend (demo_int\<lparr>chunk_list_head := 0x80000,
     kh_list := list_insert 0x1000 0x80000 (list_head_init 0x80000 \<lparr>lprev = id, lnext = id\<rparr>),
     kh_word := (\<lambda>_. 0)(0x1010 := 0xffe0, 0x1018 := KHEAP_MAGIC_FREE), tsc_count := 5000\<rparr>)
     \<lparr>ap_percpu_data = 0, next_cpuid = 1, ap_started = False, ap_stack = 0, ap_gsbase = 0, percpu_self = (\<lambda>_. 0), percpu_id = (\<lambda>_. 0),
      cpus = 0x9000, cpu_table = (\<lambda>_. \<lparr>kern_id = 0, lapic = 0\<rparr>), cpu_count = 3, low_mem = (\<lambda>_. 0)\<rparr>"

lemma demo_smp_rel: "heap_rel demo_smp ([] @ [(0x1000, 0xffe0, False)])" "mutex_owner demo_smp KheapLock = 0"
proof -
  have "ring (kh_list demo_smp) (chunk_list_head demo_smp) [0x1000]"
    using ring_push_front[OF ring_init, of "0x1000 :: u64" "0x80000"]
    by (simp add: demo_smp_def int_state.defs demo_int_def kheap_state.defs demo_heap_def)
  moreover have "block_ok (kh_word demo_smp) (0x1000, 0xffe0, False)"
    by (simp add: block_ok_def demo_smp_def int_state.defs demo_int_def kheap_state.defs demo_heap_def)
  moreover have "tiled 0x1000 [(0x1000, 0xffe0, False)] 0x11000" by simp
  ultimately show "heap_rel demo_smp ([] @ [(0x1000, 0xffe0, False)])"
    unfolding heap_rel_def by (intro conjI exI[of _ "0x1000"] exI[of _ "0x11000"])
      (simp_all add: demo_smp_def int_state.defs demo_int_def kheap_state.defs demo_heap_def)
  show "mutex_owner demo_smp KheapLock = 0" by (simp add: demo_smp_def int_state.defs demo_int_def kheap_state.defs demo_heap_def)
qed

theorem smp_starts_all_witness:
  "\<exists>u. ig_smp_start_all_aps [0xFA, 0xF4] (\<lambda>r.
       ([(answer_ipi [0xFA, 0xF4] [1, 2, 5] (\<lambda>i _. push_bit 24 i), if r = 4148 then 10000 else 20000)],
        [(answer_ipi [0xFA, 0xF4] [1, 2, 5] (\<lambda>i _. push_bit 24 i), if r = 4148 then 15000 else 25000)], [])) demo_cpu_madt 4096 demo_smp = Ok u \<and>
     next_cpuid u = 3 \<and> cpu_table u 1 = \<lparr>kern_id = 1, lapic = 1\<rparr> \<and> cpu_table u 2 = \<lparr>kern_id = 2, lapic = 2\<rparr> \<and>
     dev_out u = ipis 0 1 @ ipis 0 2"
proof -
  have t: "madt_at demo_cpu_madt 4096 demo_cpu_records"
    unfolding madt_at_def by (simp add: demo_cpu_records_def madt_record_def bytes_at_Suc bytes_at_done demo_cpu_madt_def
        image_mem_def nth_append sdt_length_def rd32_def)
  have o: "other_cpus demo_cpu_madt 4096 demo_cpu_records demo_smp = [4148, 4168]"
    by (simp add: other_cpus_def others_def record_addrs_def demo_cpu_records_def demo_cpu_madt_def image_mem_def nth_append
        demo_smp_def int_state.defs demo_int_def kheap_state.defs demo_heap_def)
  have f: "tsc_count demo_smp = 5000" "tsc demo_smp = 0" "cpus demo_smp = 0x9000" "next_cpuid demo_smp = 1" "dev_out demo_smp = []"
      "apic_in demo_smp = (\<lambda>_. 0)"
    by (simp_all add: demo_smp_def int_state.defs demo_int_def kheap_state.defs demo_heap_def)
  have x: "demo_cpu_madt (4148 + 3) = 1" "demo_cpu_madt (4168 + 3) = 2"
    by (simp_all add: demo_cpu_madt_def demo_cpu_records_def image_mem_def nth_append)
  show ?thesis
    using smp_starts_all[OF t demo_smp_rel(1) _ demo_smp_rel(2), of "\<lambda>r. if r = 4148 then (10000, 15000) else (20000, 25000)" "[0xFA, 0xF4]" "[1, 2, 5]" "\<lambda>i _. push_bit 24 i" "\<lambda>_. []"] x
    by (auto simp: o f if_distrib[of fst] if_distrib[of snd] cong: if_cong)
qed

end
