(* ===== verification/Ig_init_loader.thy ===== *)
theory Ig_init_loader
  imports Mmap_Spec K_proc Tables
begin

text \<open>
  \<open>kernel/ig_init_loader.c\<close>: the first program is copied from the module of the boot loader into
  the address space that is loaded.  The file is read through the direct map, at the
  physical address \<open>p\<close>; the program is written at its own virtual addresses, through the tables of
  the processor.  \<open>init_set_module\<close> is in the theory \<open>Ig_mboot2\<close>.  Messages to the console are left out.
\<close>

section \<open>Memory at virtual addresses\<close>

definition virt_pa :: "u64 \<Rightarrow> 'a vm_state_scheme \<Rightarrow> u64 option" where
  "virt_pa va s = (case get_pde_by_vma (cr3 s) va s of
     None \<Rightarrow> None
   | Some pde \<Rightarrow> (let e = rd64 (phys s) pde
       in if e_present e = 0 then None else Some (push_bit 12 (e_addr e) + VM_OFFSET_PAGE_2M va)))"

definition vput :: "u64 \<Rightarrow> u8 \<Rightarrow> 'a vm_state_scheme \<Rightarrow> 'a vm_state_scheme res" where
  "vput va c s = (case virt_pa va s of None \<Rightarrow> Fail PageFault | Some pa \<Rightarrow> Ok (s\<lparr>phys := (phys s)(pa := c)\<rparr>))"

text \<open>\<open>kmemset(va, c, n)\<close> and \<open>kmemcpy(va, src, n)\<close>, with a virtual destination and a physical source.\<close>

fun virt_memset :: "nat \<Rightarrow> u64 \<Rightarrow> u8 \<Rightarrow> 'a vm_state_scheme \<Rightarrow> 'a vm_state_scheme res" where
  "virt_memset 0 va c s = Ok s"
| "virt_memset (Suc n) va c s = bind_res (vput va c s) (virt_memset n (va + 1) c)"

fun virt_memcpy :: "nat \<Rightarrow> u64 \<Rightarrow> u64 \<Rightarrow> 'a vm_state_scheme \<Rightarrow> 'a vm_state_scheme res" where
  "virt_memcpy 0 va src s = Ok s"
| "virt_memcpy (Suc n) va src s = bind_res (vput va (phys s src) s) (virt_memcpy n (va + 1) (src + 1))"

section \<open>The file\<close>

definition ELF_MAGIC :: u32 where "ELF_MAGIC = 0x464c457f"

definition eh_magic :: "mem \<Rightarrow> u64 \<Rightarrow> u32" where "eh_magic m h = rd32 m h"
definition eh_class :: "mem \<Rightarrow> u64 \<Rightarrow> u8" where "eh_class m h = m (h + 4)"
definition eh_entry :: "mem \<Rightarrow> u64 \<Rightarrow> u64" where "eh_entry m h = rd64 m (h + 24)"
definition eh_phoff :: "mem \<Rightarrow> u64 \<Rightarrow> u64" where "eh_phoff m h = rd64 m (h + 32)"
definition eh_phnum :: "mem \<Rightarrow> u64 \<Rightarrow> u16" where "eh_phnum m h = rd16 m (h + 56)"
definition ph_type :: "mem \<Rightarrow> u64 \<Rightarrow> u32" where "ph_type m ph = rd32 m ph"
definition ph_offset :: "mem \<Rightarrow> u64 \<Rightarrow> u64" where "ph_offset m ph = rd64 m (ph + 8)"
definition ph_vaddr :: "mem \<Rightarrow> u64 \<Rightarrow> u64" where "ph_vaddr m ph = rd64 m (ph + 16)"
definition ph_filesz :: "mem \<Rightarrow> u64 \<Rightarrow> u64" where "ph_filesz m ph = rd64 m (ph + 32)"
definition ph_memsz :: "mem \<Rightarrow> u64 \<Rightarrow> u64" where "ph_memsz m ph = rd64 m (ph + 40)"

section \<open>Loading\<close>

definition init_map_page :: "u64 \<Rightarrow> u64 \<Rightarrow> 'a vm_state_scheme \<Rightarrow> (bool \<times> 'a vm_state_scheme) res" where
  "init_map_page as vma s =
     (if vm_is_mapped as vma s then Ok (True, s)
      else bind_res (pma_alloc s) (\<lambda>(pa, s).
        if pa = 0 then Ok (False, s)
        else bind_res (vm_map_page as vma pa (VM_PAGE_WRITABLE OR VM_PAGE_EXECUTABLE) s) (\<lambda>(r, s). Ok (r \<noteq> 0, s))))"

text \<open>The loop over the pages of a segment: the flag is false when the function returns \<open>NULL\<close>.\<close>

function init_map_pages :: "u64 \<Rightarrow> u64 \<Rightarrow> u64 \<Rightarrow> 'a vm_state_scheme \<Rightarrow> (bool \<times> 'a vm_state_scheme) res" where
  "init_map_pages as vma memsz s =
     (if memsz = 0 then Ok (True, s)
      else bind_res (init_map_page as vma s) (\<lambda>(ok, s).
        if \<not> ok then Ok (False, s)
        else init_map_pages as (vma + KMEM_PAGE_SIZE) (if memsz \<le> KMEM_PAGE_SIZE then 0 else memsz - KMEM_PAGE_SIZE) s))"
  by pat_completeness auto
termination
proof (relation "measure (\<lambda>(as, vma, memsz, s). unat memsz)")
  fix memsz :: u64
  assume "memsz \<noteq> 0"
  then have "unat (if memsz \<le> KMEM_PAGE_SIZE then 0 else memsz - KMEM_PAGE_SIZE) < unat memsz"
    using unat_sub_le[of KMEM_PAGE_SIZE memsz] by (auto simp: KMEM_PAGE_SIZE_nat word_le_nat_alt unat_gt_0)
  then show "((as, vma + KMEM_PAGE_SIZE, if memsz \<le> KMEM_PAGE_SIZE then 0 else memsz - KMEM_PAGE_SIZE, s'), as, vma, memsz, s)
      \<in> measure (\<lambda>(as, vma, memsz, s). unat memsz)" for as vma and s s' :: "'a vm_state_scheme"
    by simp
qed simp

declare init_map_pages.simps [simp del]

text \<open>One turn of the loop over the program headers.\<close>

definition init_load_segment :: "u64 \<Rightarrow> u64 \<Rightarrow> u64 \<Rightarrow> 'a vm_state_scheme \<Rightarrow> (bool \<times> 'a vm_state_scheme) res" where
  "init_load_segment as p ph s =
     (if ph_type (phys s) ph \<noteq> 1 then Ok (True, s)
      else bind_res (init_map_pages as (ph_vaddr (phys s) ph) (ph_memsz (phys s) ph) s) (\<lambda>(ok, s).
        if \<not> ok then Ok (False, s)
        else (let vma = ph_vaddr (phys s) ph
          in bind_res (virt_memset (unat (ph_memsz (phys s) ph)) vma 0 s) (\<lambda>s.
             bind_res (virt_memcpy (unat (ph_filesz (phys s) ph)) vma (p + ph_offset (phys s) ph) s) (\<lambda>s. Ok (True, s))))))"

text \<open>The loop over the headers, from the \<open>i\<close>-th on; the number of headers is read in every turn.\<close>

function init_load_segments :: "u64 \<Rightarrow> u64 \<Rightarrow> u64 \<Rightarrow> nat \<Rightarrow> 'a vm_state_scheme \<Rightarrow> (bool \<times> 'a vm_state_scheme) res" where
  "init_load_segments as p ph i s =
     (if i < unat (eh_phnum (phys s) p)
      then bind_res (init_load_segment as p (ph + 56 * of_nat i) s) (\<lambda>(ok, s).
        if \<not> ok then Ok (False, s) else init_load_segments as p ph (Suc i) s)
      else Ok (True, s))"
  by pat_completeness auto
termination
proof (relation "measure (\<lambda>(as, p, ph, i, s). 65536 - i)")
  show "((as, p, ph, Suc i, s'), as, p, ph, i, s) \<in> measure (\<lambda>(as, p, ph, i, s). 65536 - i)"
    if "i < unat (eh_phnum (phys s) p)" for as p ph i and s s' :: "'a vm_state_scheme"
    using that unat_le_less_pow[of "eh_phnum (phys s) p"] by simp
qed simp

declare init_load_segments.simps [simp del]

text \<open>The result is the entry point, or 0 for \<open>NULL\<close>.\<close>

definition init_load_elf :: "u64 \<Rightarrow> u64 \<Rightarrow> 'a vm_state_scheme \<Rightarrow> (u64 \<times> 'a vm_state_scheme) res" where
  "init_load_elf as p s =
     (if eh_magic (phys s) p \<noteq> ELF_MAGIC then Ok (0, s)
      else if eh_class (phys s) p \<noteq> 2 then Ok (0, s)
      else (let entry = eh_entry (phys s) p; ph = p + eh_phoff (phys s) p
        in bind_res (init_load_segments as p ph 0 s) (\<lambda>(ok, s).
           Ok (if ok then entry else 0, s))))"

definition init_load :: "u64 \<Rightarrow> u64 \<Rightarrow> 'a vm_state_scheme \<Rightarrow> (u64 \<times> 'a vm_state_scheme) res" where
  "init_load init_begin as s = (if init_begin = 0 then Ok (0, s) else init_load_elf as init_begin s)"

text \<open>\<open>start\<close> is the address of \<open>__init_start\<close>.\<close>

definition init_start :: "u64 \<Rightarrow> u64 \<Rightarrow> u64 \<Rightarrow> 'a proc_state_scheme \<Rightarrow> 'a proc_state_scheme res" where
  "init_start init_begin start self s =
     bind_res (init_load init_begin (p_address_space (procs s self)) s) (\<lambda>(entry, s).
     verify (entry \<noteq> 0) ''failed to load init'' (let
       s = process_start self start entry s;
       s = upd_proc self (\<lambda>p. p\<lparr>p_state := PROCESS_STATE_READY\<rparr>) s
     in bind_res (sched_enter self s) sched_start))"

end
