(* ===== verification/Ig_entry.thy ===== *)
theory Ig_entry
  imports Cpu_Spec Ig_smp Ig_init_loader
begin

text \<open>
  \<open>kernel/ig_entry.c\<close>: the order in which the kernel starts, on the first processor and on the others.
  The components below were modelled on their own states; here they work on one state.  The
  timers, the heap and the memory are shared, the interrupt controller and the processors that start
  are the part \<open>smp_part\<close>, the firmware tables the part \<open>acpi_part\<close>.  Both functions end in the idle loop of
  \<open>sched_start\<close>, so the panic at their end is never reached.  Messages to the console are left out.
\<close>

section \<open>One state\<close>

record boot_state = cpu_regs +
  smp_part :: smp_state
  acpi_part :: acpi_state

text \<open>An operation on the processors sees the timers, the heap and the memory of the whole state, and its interrupt
  flag; the number of processors it counts is the one the scheduler uses.\<close>

definition smp_view :: "'a boot_state_scheme \<Rightarrow> smp_state" where
  "smp_view s = (timer_state.extend (timer_state.truncate s) (timer_state.more (smp_part s)))\<lparr>int_cpu := cpu s\<rparr>"

definition on_smp :: "(smp_state \<Rightarrow> smp_state res) \<Rightarrow> 'a boot_state_scheme \<Rightarrow> 'a boot_state_scheme res" where
  "on_smp f s = bind_res (f (smp_view s)) (\<lambda>t.
     Ok ((timer_state.extend (timer_state.truncate t) (timer_state.more s))\<lparr>cpu := int_cpu t, smp_cpu_count := cpu_count t, smp_part := t\<rparr>))"

definition acpi_view :: "'a boot_state_scheme \<Rightarrow> acpi_state" where
  "acpi_view s = kheap_state.extend (kheap_state.truncate s) (kheap_state.more (acpi_part s))"

definition on_acpi :: "(acpi_state \<Rightarrow> acpi_state res) \<Rightarrow> 'a boot_state_scheme \<Rightarrow> 'a boot_state_scheme res" where
  "on_acpi f s = bind_res (f (acpi_view s)) (\<lambda>t.
     Ok ((kheap_state.extend (kheap_state.truncate t) (kheap_state.more s))\<lparr>acpi_part := t\<rparr>))"

section \<open>Entry\<close>

text \<open>What the code finds on the machine: addresses of code and tables, answers of \<open>cpuid\<close>, what the heap block of a
  handler table held, the interrupts and readings of the calibration, registers the code leaves
  open, and the other processors.\<close>

record machine =
  isr_addr :: "nat \<Rightarrow> u64"
  idt_addr :: u64
  syscall_entry_addr :: u64
  init_start_addr :: u64
  cpuid_of :: cpuid_t
  old_handlers :: "u64 \<Rightarrow> irq_handler_t"
  timer_call :: "u64 \<Rightarrow> u64 \<Rightarrow> smp_state \<Rightarrow> smp_state res"
  pit_irqs :: "u64 list"
  pit_begin :: u64
  pit_end :: u64
  xsetbv_regs :: "u32 \<times> u32"
  trampoline :: "u8 list"
  ap_steps :: "smp_state ap_waits"
  init_module :: u64

definition cpuid_edx :: "cpuid_t \<Rightarrow> u32 \<Rightarrow> u32" where "cpuid_edx f l = snd (snd (snd (f l)))"
definition cpuid_ebx :: "cpuid_t \<Rightarrow> u32 \<Rightarrow> u32" where "cpuid_ebx f l = fst (snd (f l))"

definition boot_interrupts :: "machine \<Rightarrow> 'a boot_state_scheme \<Rightarrow> 'a boot_state_scheme res" where
  "boot_interrupts w s = on_smp (interrupt_init_bsp (timer_call w) (ucast (cpuid_edx (cpuid_of w) 1)) (acpi_mem (acpi_part s))
     (madt (acpi_part s)) (old_handlers w) (pit_irqs w) (pit_begin w) (pit_end w)) s"

text \<open>The last part of \<open>ig_entry_bsp\<close>: the first process.\<close>

definition boot_init_process :: "machine \<Rightarrow> 'a boot_state_scheme \<Rightarrow> 'a boot_state_scheme res" where
  "boot_init_process w s =
     bind_res (vm_address_space_create s) (\<lambda>(as, s).
     bind_res (process_create 0 s) (\<lambda>(proc, s). nonnull proc (let
       s = upd_proc proc (\<lambda>p. p\<lparr>p_address_space := as\<rparr>) s;
       s = upd_proc proc (\<lambda>p. p\<lparr>p_class := SCHED_CLASS_NORMAL\<rparr>) s
     in bind_res (vm_address_space_load (p_address_space (procs s proc)) s)
          (init_start (init_module w) (init_start_addr w) proc))))"

definition ig_entry_bsp :: "machine \<Rightarrow> u64 \<Rightarrow> u64 \<Rightarrow> 'a boot_state_scheme \<Rightarrow> 'a boot_state_scheme res" where
  "ig_entry_bsp w rsdp xsdp s =
     bind_res (vm_init s) (\<lambda>s.
     bind_res (kmem_heap_init s) (\<lambda>s.
     bind_res (on_smp (\<lambda>s. Ok (isr_init (isr_addr w) s)) s) (\<lambda>s. let
       s = isr_load (idt_addr w) s
     in
     bind_res (if xsdp \<noteq> 0 then on_acpi (acpi_load_xsdt xsdp) s
               else if rsdp \<noteq> 0 then on_acpi (acpi_load_rsdt rsdp) s else Ok s) (\<lambda>s.
     bind_res (boot_interrupts w s) (\<lambda>s.
     bind_res (on_smp (ig_smp_init (acpi_mem (acpi_part s)) (madt (acpi_part s))) s) (\<lambda>s.
     bind_res (descriptor_init s) (\<lambda>s.
     bind_res (futex_init s) (\<lambda>s. let
       s = syscall_init (syscall_entry_addr w) s
     in
     bind_res (process_init (cpuid_ebx (cpuid_of w) 7) s) (\<lambda>s.
     bind_res (sched_init s) (\<lambda>s.
     bind_res (simd_init (cpuid_of w) (fst (xsetbv_regs w)) (snd (xsetbv_regs w)) s) (\<lambda>s.
     bind_res (port_init s) (\<lambda>s.
     bind_res (port_ifce_init s) (\<lambda>s.
     bind_res (on_smp (ig_smp_start_all_aps (trampoline w) (ap_steps w) (acpi_mem (acpi_part s)) (madt (acpi_part s))) s)
       (boot_init_process w))))))))))))))"

definition ig_entry_ap :: "machine \<Rightarrow> 'a boot_state_scheme \<Rightarrow> 'a boot_state_scheme res" where
  "ig_entry_ap w s =
     bind_res (descriptor_init s) (\<lambda>s. let
       s = isr_load (idt_addr w) s
     in
     bind_res (on_smp (interrupt_init_ap (old_handlers w)) s) (\<lambda>s. let
       s = syscall_init (syscall_entry_addr w) s
     in
     bind_res (process_init (cpuid_ebx (cpuid_of w) 7) s) sched_start))"

end
