(* ===== verification/Loader_Spec.thy ===== *)
theory Loader_Spec
  imports Ig_init_loader
begin

text \<open>
  The loader of the first program: the pages of a segment are mapped to fresh frames, and the bytes of the
  file and the zeros behind them appear at the addresses of the segment.
\<close>

section \<open>Mapping the pages\<close>

abbreviation "WX \<equiv> VM_PAGE_WRITABLE OR VM_PAGE_EXECUTABLE"

lemma init_turn:
  assumes wf: "tables_wf (pm_map s) (phys s) (as_root as s)" and p: "PML4IDX vi \<noteq> 256" "vi \<noteq> 0"
    and n: "vm_entry (phys s) (as_root as s) vi = None" and f: "frames_left (pm_map s) (Suc (Suc (Suc m)))"
  obtains i e0 t pm m' where "i < PM_MAP_ELEMENTS" "pm_map s i = 0" "pm_map t i \<noteq> 0"
    "t = s\<lparr>pm_map := pm, phys := m'\<rparr>" "init_map_page as vi s = Ok (True, t)"
    "tables_wf (pm_map t) (phys t) (as_root as s)" "\<And>j. pm_map s j \<noteq> 0 \<Longrightarrow> pm_map t j \<noteq> 0" "frames_left (pm_map t) m"
    "\<And>va. vm_entry (phys t) (as_root as s) va =
      (if page_of va = page_of vi then Some (map_pde (of_nat i * KMEM_PAGE_SIZE) WX e0) else vm_entry (phys s) (as_root as s) va)"
    "held (as_root as s) t i" "keeps (as_root as s) s t"
proof -
  let ?r = "as_root as s"
  from frames_left_alloc[OF f] obtain i where i: "i < PM_MAP_ELEMENTS" "pm_map s i = 0" "of_nat i * KMEM_PAGE_SIZE \<noteq> 0"
    "pma_alloc s = Ok (of_nat i * KMEM_PAGE_SIZE, s\<lparr>pm_map := (pm_map s)(i := 1)\<rparr>)"
    "frames_left ((pm_map s)(i := 1)) (Suc (Suc m))" by blast
  let ?a = "of_nat i * KMEM_PAGE_SIZE :: u64" and ?u = "s\<lparr>pm_map := (pm_map s)(i := 1)\<rparr>"
  have ru: "as_root as ?u = ?r" by (simp add: as_root_def RECURSIVE_PML4_def)
  have wu: "tables_wf (pm_map ?u) (phys ?u) (as_root as ?u)" unfolding ru by (rule tables_wf_cong[OF wf]) auto
  have nu: "vm_entry (phys ?u) (as_root as ?u) vi = None" unfolding ru using n by simp
  have "frames_left (pm_map ?u) 2" using i(5) by (simp add: frames_left_def)
  then obtain v where v: "vm_map_page as vi ?a WX ?u = Ok (vi, v)" using vm_map_page_ok[OF wu p(1) nu] by blast
  note M = vm_map_page_map[OF wu get_pml4e_root p(1) v, unfolded ru]
    and H = vm_map_page_held[OF wu get_pml4e_root p(1) v, unfolded ru]
  obtain pm m' where vv: "v = s\<lparr>pm_map := pm, phys := m'\<rparr>" using M by auto
  obtain e0 where e: "\<And>va. vm_entry (phys v) ?r va =
      (if page_of va = page_of vi then Some (map_pde ?a WX e0) else vm_entry (phys s) ?r va)"
    using M n p(2) by (auto simp: map_result_def)
  have "\<not> vm_is_mapped as vi s" unfolding vm_is_mapped_entry[OF p(1) get_pml4e_root] using n by simp
  then have L: "init_map_page as vi s = Ok (True, v)" using i(3,4) v p(2) by (simp add: init_map_page_def)
  have "held ?r ?u i"
  proof (rule heldI)
    show "frame_of x \<noteq> i" if "tbl (phys ?u) ?r q = Some x" for q x
      using that wf i(2) unfolding tables_wf_def by auto
  qed simp
  then have hi: "held ?r v i" using H(2)[of ?a] frame_aligned(3)[OF i(1)] by simp
  have k: "keeps ?r s v" unfolding keeps_def
  proof (intro allI impI)
    fix b assume "held ?r s (frame_of b)"
    then have "held ?r ?u (frame_of b)" by (simp add: held_def)
    from H[OF this] show "phys v b = phys s b \<and> held ?r v (frame_of b)" by simp
  qed
  show ?thesis
  proof (rule that[where i = i and t = v and pm = pm and m' = m' and ?e0.0 = e0])
    show "pm_map v j \<noteq> 0" if "pm_map s j \<noteq> 0" for j by (rule vm_map_page_mono[OF v]) (use that in auto)
    show "frames_left (pm_map v) m" by (rule vm_map_page_left[OF v p(2)]) (use i(5) in simp)
  qed (use i(1,2) vv L M e hi k in \<open>auto simp: held_def\<close>)
qed

text \<open>The loop maps exactly the pages from \<open>vi\<close> on, each to a frame of its own.\<close>

lemma init_map_pages_maps:
  assumes "as \<noteq> 0" "tables_wf (pm_map s) (phys s) (as_pml4_paddr s as)"
    and "2097152 dvd unat vi" "0 < unat vi" "unat vi + n * 2097152 \<le> 2 ^ 47" "frames_left (pm_map s) (3 * n)"
    and "\<forall>k < n. vm_entry (phys s) (as_pml4_paddr s as) (page_at vi k) = None"
    and "unat memsz \<le> n * 2097152" "n = 0 \<or> (n - 1) * 2097152 < unat memsz"
  shows "\<exists>pm m fs. init_map_pages as vi memsz s = Ok (True, s\<lparr>pm_map := pm, phys := m\<rparr>) \<and>
    length fs = n \<and> tables_wf pm m (as_pml4_paddr s as) \<and>
    range_mapped (as_pml4_paddr s as) vi WX fs s (s\<lparr>pm_map := pm, phys := m\<rparr>) \<and>
    keeps (as_pml4_paddr s as) s (s\<lparr>pm_map := pm, phys := m\<rparr>) \<and>
    (\<forall>f \<in> set fs. held (as_pml4_paddr s as) (s\<lparr>pm_map := pm, phys := m\<rparr>) f)"
  using assms
proof (induction n arbitrary: s vi memsz)
  case 0
  then have "memsz = 0" by (simp add: unat_eq_0)
  then show ?case using 0
    by (intro exI[of _ "pm_map s"] exI[of _ "phys s"] exI[of _ "[]"]) (simp add: init_map_pages.simps range_mapped_def keeps_refl)
next
  case (Suc n)
  let ?r = "as_pml4_paddr s as" and ?sz = "if memsz \<le> KMEM_PAGE_SIZE then 0 else memsz - KMEM_PAGE_SIZE"
  have ro: "as_root as s = ?r" using Suc.prems(1) by (simp add: as_root_def)
  have v: "PML4IDX vi \<noteq> 256" by (rule low_address_index) (use Suc.prems(5) in simp)
  have v0: "vi \<noteq> 0" using Suc.prems(4) by auto
  have n0: "vm_entry (phys s) ?r vi = None" using Suc.prems(7)[rule_format, of 0] by simp
  have f: "frames_left (pm_map s) (Suc (Suc (Suc (3 * n))))" using Suc.prems(6) by (simp add: eval_nat_numeral)
  have m0: "memsz \<noteq> 0" using Suc.prems(9) by auto
  have usz: "unat ?sz = unat memsz - 2097152"
    using unat_sub_le[of KMEM_PAGE_SIZE memsz] by (auto simp: word_le_nat_alt KMEM_PAGE_SIZE_nat)
  obtain i e0 u pm m where u: "i < PM_MAP_ELEMENTS" "pm_map s i = 0" "pm_map u i \<noteq> 0" "u = s\<lparr>pm_map := pm, phys := m\<rparr>"
    and L: "init_map_page as vi s = Ok (True, u)"
    and wf: "tables_wf (pm_map u) (phys u) ?r" and mono: "\<And>j. pm_map s j \<noteq> 0 \<Longrightarrow> pm_map u j \<noteq> 0" and fl: "frames_left (pm_map u) (3 * n)"
    and e: "\<And>va. vm_entry (phys u) ?r va =
      (if page_of va = page_of vi then Some (map_pde (of_nat i * KMEM_PAGE_SIZE) WX e0) else vm_entry (phys s) ?r va)"
    and hi: "held ?r u i" and k: "keeps ?r s u"
    by (rule init_turn[where as = as and s = s, unfolded ro, OF Suc.prems(2) v v0 n0 f]) (rule that; assumption)
  have ru: "as_pml4_paddr u as = ?r" using u(4) by simp
  have uv: "unat (vi + KMEM_PAGE_SIZE) = unat vi + 2097152" by (rule next_page) (use Suc.prems(5) in simp)
  have d: "page_of vi \<noteq> page_of (page_at vi (Suc k))" if "k < n" for k
    using page_of_page_at[OF Suc.prems(3,5), of 0 "Suc k"] that by auto
  have "\<exists>pm m fs. init_map_pages as (vi + KMEM_PAGE_SIZE) ?sz u = Ok (True, u\<lparr>pm_map := pm, phys := m\<rparr>) \<and>
      length fs = n \<and> tables_wf pm m (as_pml4_paddr u as) \<and>
      range_mapped (as_pml4_paddr u as) (vi + KMEM_PAGE_SIZE) WX fs u (u\<lparr>pm_map := pm, phys := m\<rparr>) \<and>
      keeps (as_pml4_paddr u as) u (u\<lparr>pm_map := pm, phys := m\<rparr>) \<and>
      (\<forall>f \<in> set fs. held (as_pml4_paddr u as) (u\<lparr>pm_map := pm, phys := m\<rparr>) f)"
  proof (rule Suc.IH[OF Suc.prems(1)])
    show "\<forall>k < n. vm_entry (phys u) (as_pml4_paddr u as) (page_at (vi + KMEM_PAGE_SIZE) k) = None"
      unfolding ru page_at_Suc e using d[THEN not_sym] Suc.prems(7) by auto
    show "unat ?sz \<le> n * 2097152" using Suc.prems(8) unfolding usz by simp
    show "n = 0 \<or> (n - 1) * 2097152 < unat ?sz" using Suc.prems(9) unfolding usz by (cases n) auto
  qed (use Suc.prems wf fl in \<open>simp_all add: ru uv\<close>)
  then obtain pm' m' fs where t: "init_map_pages as (vi + KMEM_PAGE_SIZE) ?sz u = Ok (True, s\<lparr>pm_map := pm', phys := m'\<rparr>)"
    "length fs = n" "tables_wf pm' m' ?r" "range_mapped ?r (vi + KMEM_PAGE_SIZE) WX fs u (s\<lparr>pm_map := pm', phys := m'\<rparr>)"
    "keeps ?r u (s\<lparr>pm_map := pm', phys := m'\<rparr>)" "\<forall>f \<in> set fs. held ?r (s\<lparr>pm_map := pm', phys := m'\<rparr>) f"
    unfolding ru by (auto simp: u(4))
  have "range_mapped ?r vi WX (i # fs) s (s\<lparr>pm_map := pm', phys := m'\<rparr>)"
    by (rule range_mapped_Cons[OF u(1,2,3) _ e t(4)]) (rule mono, assumption, rule d, use t(2) in simp)
  moreover have "init_map_pages as vi memsz s = Ok (True, s\<lparr>pm_map := pm', phys := m'\<rparr>)"
    using t(1) L m0 by (simp add: init_map_pages.simps[of as vi])
  moreover have "held ?r (s\<lparr>pm_map := pm', phys := m'\<rparr>) i"
    using t(5) hi frame_aligned(3)[OF u(1)] unfolding keeps_def by metis
  ultimately show ?case using t keeps_trans[OF k t(5)]
    by (intro exI[of _ pm'] exI[of _ m'] exI[of _ "i # fs"]) simp
qed

section \<open>Writing through the tables\<close>

lemma virt_pa_entry:
  assumes "PML4IDX va \<noteq> 256"
  shows "virt_pa va s = map_option (\<lambda>e. push_bit 12 (e_addr e) + VM_OFFSET_PAGE_2M va) (vm_entry (phys s) (cr3 s) va)"
  unfolding virt_pa_def get_pde_by_vma_tbl[OF assms] vm_entry_pages vm_pages_def
  by (cases "tbl (phys s) (cr3 s) (N2 (PML4IDX va) (PDPIDX va))") (simp_all add: Let_def del: tbl.simps)

text \<open>The \<open>n\<close> bytes from \<open>va\<close> on are at the physical addresses \<open>T\<close>, outside of the tables of the processor.\<close>

definition window :: "'a vm_state_scheme \<Rightarrow> nat \<Rightarrow> u64 \<Rightarrow> (nat \<Rightarrow> u64) \<Rightarrow> bool" where
  "window s n va T \<longleftrightarrow> tables_wf (pm_map s) (phys s) (cr3 s) \<and> (\<forall>j < n. PML4IDX (va + of_nat j) \<noteq> 256 \<and>
     virt_pa (va + of_nat j) s = Some (T j) \<and> held (cr3 s) s (frame_of (T j)))"

lemma window_tables:
  assumes "window s n va T" "\<And>b. b \<notin> T ` {..<n} \<Longrightarrow> m' b = phys s b"
  shows "tbl m' (cr3 s) q = tbl (phys s) (cr3 s) q" "vm_entry m' (cr3 s) v = vm_entry (phys s) (cr3 s) v"
proof -
  have wf: "tables_wf (pm_map s) (phys s) (cr3 s)" using assms(1) by (simp add: window_def)
  have eq: "m' a = phys s a" if "tbl (phys s) (cr3 s) q = Some x" "frame_of a = frame_of x" for q x a
  proof (rule assms(2))
    show "a \<notin> T ` {..<n}"
    proof
      assume "a \<in> T ` {..<n}"
      then obtain j where "j < n" "a = T j" by auto
      then have "held (cr3 s) s (frame_of a)" using assms(1) by (simp add: window_def)
      then show False using that unfolding held_def by metis
    qed
  qed
  show "tbl m' (cr3 s) q = tbl (phys s) (cr3 s) q" by (rule tbl_frames_cong(1)[OF wf eq])
  show "vm_entry m' (cr3 s) v = vm_entry (phys s) (cr3 s) v" by (rule vm_entry_frames_cong[OF wf eq])
qed

lemma window_write:
  assumes "window s n va T" "\<And>b. b \<notin> T ` {..<n} \<Longrightarrow> m' b = phys s b"
  shows "window (s\<lparr>phys := m'\<rparr>) n va T"
proof -
  note T = window_tables[of s n va T m', OF assms]
  have "tables_wf (pm_map s) (phys s) (cr3 s)" using assms(1) by (simp add: window_def)
  then have "tables_wf (pm_map s) m' (cr3 s)" by (rule tables_wf_cong) (rule T)
  moreover have "virt_pa x (s\<lparr>phys := m'\<rparr>) = virt_pa x s" if "PML4IDX x \<noteq> 256" for x
    using T(2) by (simp add: virt_pa_entry[OF that])
  ultimately show ?thesis using assms(1) by (simp add: window_def held_def T(1))
qed

lemma window_tl:
  assumes "window s (Suc n) va T"
  shows "window s n (va + 1) (\<lambda>j. T (Suc j))"
proof -
  have "PML4IDX (va + of_nat (Suc j)) \<noteq> 256 \<and> virt_pa (va + of_nat (Suc j)) s = Some (T (Suc j)) \<and> held (cr3 s) s (frame_of (T (Suc j)))"
    if "j < n" for j using assms that unfolding window_def by blast
  then show ?thesis using assms by (simp add: window_def add.assoc)
qed

lemma window_vput:
  assumes "window s (Suc n) va T"
  shows "vput va c s = Ok (s\<lparr>phys := (phys s)(T 0 := c)\<rparr>)" "window (s\<lparr>phys := (phys s)(T 0 := c)\<rparr>) n (va + 1) (\<lambda>j. T (Suc j))"
proof -
  have "virt_pa (va + of_nat 0) s = Some (T 0)" using assms unfolding window_def by blast
  then have "virt_pa va s = Some (T 0)" by simp
  then show "vput va c s = Ok (s\<lparr>phys := (phys s)(T 0 := c)\<rparr>)" by (simp add: vput_def)
  have "window (s\<lparr>phys := (phys s)(T 0 := c)\<rparr>) (Suc n) va T"
    by (rule window_write[OF assms]) auto
  then show "window (s\<lparr>phys := (phys s)(T 0 := c)\<rparr>) n (va + 1) (\<lambda>j. T (Suc j))" by (rule window_tl)
qed

lemma image_lessThan_Suc: "T ` {..<Suc n} = insert (T 0) ((\<lambda>j. T (Suc j)) ` {..<n})"
  unfolding lessThan_Suc_eq_insert_0 by auto

lemma virt_memset_window:
  assumes "window s n va T"
  shows "virt_memset n va c s = Ok (s\<lparr>phys := (\<lambda>b. if b \<in> T ` {..<n} then c else phys s b)\<rparr>)"
  using assms
proof (induction n arbitrary: s va T)
  case (Suc n)
  note W = window_vput[OF Suc.prems, of c]
  show ?case
    by (auto simp: W(1) Suc.IH[OF W(2)] image_lessThan_Suc simp del: image_insert intro!: arg_cong[where f = "\<lambda>m. s\<lparr>phys := m\<rparr>"])
qed simp

lemma virt_memcpy_window:
  assumes "window s n va T" "inj_on T {..<n}" "\<forall>j < n. src + of_nat j \<notin> T ` {..<n}"
  shows "\<exists>m'. virt_memcpy n va src s = Ok (s\<lparr>phys := m'\<rparr>) \<and> (\<forall>j < n. m' (T j) = phys s (src + of_nat j)) \<and>
    (\<forall>b. b \<notin> T ` {..<n} \<longrightarrow> m' b = phys s b)"
  using assms
proof (induction n arbitrary: s va T src)
  case 0
  then show ?case by (intro exI[of _ "phys s"]) simp
next
  case (Suc n)
  let ?s = "s\<lparr>phys := (phys s)(T 0 := phys s src)\<rparr>" and ?T = "\<lambda>j. T (Suc j)"
  note W = window_vput[OF Suc.prems(1), of "phys s src"]
  have i: "inj_on ?T {..<n}" using Suc.prems(2) by (auto simp: inj_on_def)
  have t0: "T 0 \<notin> ?T ` {..<n}"
  proof
    assume "T 0 \<in> ?T ` {..<n}"
    then obtain j where "j < n" "T (Suc j) = T 0" by auto
    then show False using inj_onD[OF Suc.prems(2), of "Suc j" 0] by simp
  qed
  have o: "src + 1 + of_nat j \<notin> T ` {..<Suc n}" if "j < n" for j
    using Suc.prems(3)[rule_format, of "Suc j"] that by (simp add: add.assoc)
  then have "\<forall>j < n. src + 1 + of_nat j \<notin> ?T ` {..<n}" unfolding image_lessThan_Suc by blast
  from Suc.IH[OF W(2) i this] obtain m' where m': "virt_memcpy n (va + 1) (src + 1) ?s = Ok (?s\<lparr>phys := m'\<rparr>)"
    "\<forall>j < n. m' (T (Suc j)) = phys ?s (src + 1 + of_nat j)" "\<forall>b. b \<notin> ?T ` {..<n} \<longrightarrow> m' b = phys ?s b" by blast
  have a: "m' (T j) = phys s (src + of_nat j)" if "j < Suc n" for j
  proof (cases j)
    case 0
    then show ?thesis using m'(3) t0 by simp
  next
    case (Suc k)
    then have "src + 1 + of_nat k \<noteq> T 0" using o[of k] that unfolding image_lessThan_Suc by auto
    then show ?thesis using m'(2) Suc that by (simp add: add.assoc)
  qed
  have b: "m' b = phys s b" if "b \<notin> T ` {..<Suc n}" for b
    using that m'(3) unfolding image_lessThan_Suc by simp
  have "virt_memcpy (Suc n) va src s = Ok (s\<lparr>phys := m'\<rparr>)" using m'(1) W(1) by simp
  with a b show ?case by blast
qed

section \<open>The bytes of the mapped pages\<close>

definition frame_byte :: "nat list \<Rightarrow> nat \<Rightarrow> u64" where
  "frame_byte fs j = of_nat (fs ! (j div 2097152)) * KMEM_PAGE_SIZE + of_nat (j mod 2097152)"

lemma unat_frame_byte:
  assumes "fs ! (j div 2097152) < PM_MAP_ELEMENTS"
  shows "unat (frame_byte fs j) = fs ! (j div 2097152) * 2097152 + j mod 2097152"
    and "frame_of (frame_byte fs j) = fs ! (j div 2097152)"
proof -
  have "fs ! (j div 2097152) * 2097152 + j mod 2097152 < 2 ^ 64"
    using assms mod_less_divisor[of 2097152 j] by (simp add: PM_MAP_ELEMENTS_def)
  then show u: "unat (frame_byte fs j) = fs ! (j div 2097152) * 2097152 + j mod 2097152"
    using unat_add_of_nat[of "of_nat (fs ! (j div 2097152)) * KMEM_PAGE_SIZE" "j mod 2097152"] frame_addr(1)[OF assms]
    by (simp add: frame_byte_def)
  show "frame_of (frame_byte fs j) = fs ! (j div 2097152)" by (simp add: frame_of_def u)
qed

lemma frame_byte_inj:
  assumes "distinct fs" "\<forall>f \<in> set fs. f < PM_MAP_ELEMENTS" "n \<le> length fs * 2097152"
  shows "inj_on (frame_byte fs) {..<n}"
proof (rule inj_onI)
  fix i j assume a: "i \<in> {..<n}" "j \<in> {..<n}" "frame_byte fs i = frame_byte fs j"
  have k: "i div 2097152 < length fs" "j div 2097152 < length fs"
    using a(1,2) assms(3) by (auto intro!: less_mult_imp_div_less)
  then have f: "fs ! (i div 2097152) < PM_MAP_ELEMENTS" "fs ! (j div 2097152) < PM_MAP_ELEMENTS" using assms(2) by auto
  then have "fs ! (i div 2097152) = fs ! (j div 2097152)" using unat_frame_byte(2) a(3) by metis
  moreover from this have "i mod 2097152 = j mod 2097152" using unat_frame_byte(1)[OF f(1)] unat_frame_byte(1)[OF f(2)] a(3) by simp
  moreover have "i div 2097152 = j div 2097152" using calculation(1) k assms(1) by (simp add: nth_eq_iff_index_eq)
  ultimately show "i = j" by (metis div_mult_mod_eq)
qed

lemma page_of_number:
  assumes "unat x div 2097152 = unat y div 2097152"
  shows "page_of x = page_of y"
proof -
  have "unat (PDIDX z) = unat z div 2097152 mod 512" "unat (PDPIDX z) = unat z div 2097152 div 512 mod 512"
      "unat (PML4IDX z) = unat z div 2097152 div 262144 mod 512" for z
    using unat_index[of 21 z] unat_index[of 30 z] unat_index[of 39 z]
    by (simp_all add: PDIDX_def PDPIDX_def PML4IDX_def div_mult2_eq[symmetric])
  then show ?thesis using assms by (simp add: page_of_def word_unat_eq_iff)
qed

lemma page_offset: "unat (VM_OFFSET_PAGE_2M va) = unat va mod 2097152"
proof -
  have "(0x1fffff :: u64) = mask 21" by (simp add: mask_eq_exp_minus_1)
  then have "VM_OFFSET_PAGE_2M va = take_bit 21 va" by (simp add: VM_OFFSET_PAGE_2M_def take_bit_eq_mask)
  then show ?thesis by (simp only: unsigned_take_bit_eq) (simp add: take_bit_eq_mod)
qed

lemma mapped_window:
  assumes r: "range_mapped (cr3 t) va WX fs s t" and wf: "tables_wf (pm_map t) (phys t) (cr3 t)"
    and h: "\<forall>f \<in> set fs. held (cr3 t) t f"
    and va: "2097152 dvd unat va" "unat va + length fs * 2097152 \<le> 2 ^ 47" and n: "n \<le> length fs * 2097152"
  shows "window t n va (frame_byte fs)" "inj_on (frame_byte fs) {..<n}"
proof -
  have d: "distinct fs" "\<forall>f \<in> set fs. f < PM_MAP_ELEMENTS" using r by (auto simp: range_mapped_def)
  show "inj_on (frame_byte fs) {..<n}" by (rule frame_byte_inj[OF d n])
  have "PML4IDX (va + of_nat j) \<noteq> 256 \<and> virt_pa (va + of_nat j) t = Some (frame_byte fs j) \<and> held (cr3 t) t (frame_of (frame_byte fs j))"
    if j: "j < n" for j
  proof -
    let ?k = "j div 2097152" and ?va = "va + of_nat j"
    let ?pa = "of_nat (fs ! ?k) * KMEM_PAGE_SIZE :: u64"
    have k: "?k < length fs" using j n by (auto intro!: less_mult_imp_div_less)
    then have f: "fs ! ?k < PM_MAP_ELEMENTS" "fs ! ?k \<in> set fs" using d(2) by auto
    have u: "unat ?va = unat va + j" by (rule unat_add_of_nat) (use va(2) j n in simp)
    then have i: "PML4IDX ?va \<noteq> 256" by (intro low_address_index) (use va(2) j n in simp)
    have "?k * 2097152 \<le> j" by simp
    then have "unat (page_at va ?k) = unat va + ?k * 2097152" by (intro unat_page_at) (use va(2) j n in simp)
    moreover obtain c where c: "unat va = 2097152 * c" using va(1) by blast
    ultimately have "page_of ?va = page_of (page_at va ?k)" by (intro page_of_number) (simp add: u)
    moreover obtain e0 where "vm_entry (phys t) (cr3 t) (page_at va ?k) = Some (map_pde ?pa WX e0)"
      using r k unfolding range_mapped_def by blast
    ultimately have e: "vm_entry (phys t) (cr3 t) ?va = Some (map_pde ?pa WX e0)" by (simp add: vm_entry_def)
    have "push_bit 12 (e_addr (map_pde ?pa WX e0)) = ?pa"
      using page_addr_roundtrip[OF frame_aligned(1,2)[OF f(1)]] by (simp add: map_pde_def)
    moreover have "VM_OFFSET_PAGE_2M ?va = of_nat (j mod 2097152)"
      using page_offset[of ?va] u c by (simp add: word_unat_eq_iff unat_of_nat_small)
    ultimately have "virt_pa ?va t = Some (frame_byte fs j)" using e by (simp add: virt_pa_entry[OF i] frame_byte_def)
    then show ?thesis using i h f unat_frame_byte(2)[OF f(1)] by simp
  qed
  then show "window t n va (frame_byte fs)" using wf by (simp add: window_def)
qed

section \<open>A segment\<close>

definition virt_read :: "u64 \<Rightarrow> 'a vm_state_scheme \<Rightarrow> u8 option" where
  "virt_read va s = map_option (phys s) (virt_pa va s)"

lemma window_le: "window s n va T \<Longrightarrow> k \<le> n \<Longrightarrow> window s k va T"
  by (simp add: window_def)

text \<open>Clearing the window and copying to its start.\<close>

lemma fill_window:
  assumes w: "window s n va T" and i: "inj_on T {..<n}" and k: "k \<le> n" and o: "\<forall>j < k. src + of_nat j \<notin> T ` {..<n}"
  obtains m' where "bind_res (virt_memset n va 0 s) (virt_memcpy k va src) = Ok (s\<lparr>phys := m'\<rparr>)"
    "window (s\<lparr>phys := m'\<rparr>) n va T" "\<And>b. b \<notin> T ` {..<n} \<Longrightarrow> m' b = phys s b"
    "\<And>j. j < n \<Longrightarrow> m' (T j) = (if j < k then phys s (src + of_nat j) else 0)"
proof -
  let ?s = "s\<lparr>phys := (\<lambda>b. if b \<in> T ` {..<n} then 0 else phys s b)\<rparr>"
  have sub: "T ` {..<k} \<subseteq> T ` {..<n}" using k by auto
  have w2: "window ?s n va T" by (rule window_write[OF w]) auto
  have "inj_on T {..<k}" by (rule inj_on_subset[OF i]) (use k in auto)
  moreover have "\<forall>j < k. src + of_nat j \<notin> T ` {..<k}" using o sub by blast
  ultimately obtain m' where m': "virt_memcpy k va src ?s = Ok (?s\<lparr>phys := m'\<rparr>)"
    "\<forall>j < k. m' (T j) = phys ?s (src + of_nat j)" "\<forall>b. b \<notin> T ` {..<k} \<longrightarrow> m' b = phys ?s b"
    using virt_memcpy_window[OF window_le[OF w2 k]] by blast
  have "m' b = phys ?s b" if "b \<notin> T ` {..<n}" for b using m'(3) that sub by blast
  from window_write[OF w2 this] have w3: "window (s\<lparr>phys := m'\<rparr>) n va T" by simp
  show thesis
  proof (rule that[OF _ w3])
    show "bind_res (virt_memset n va 0 s) (virt_memcpy k va src) = Ok (s\<lparr>phys := m'\<rparr>)"
      using m'(1) by (simp add: virt_memset_window[OF w])
    show "m' b = phys s b" if "b \<notin> T ` {..<n}" for b
    proof -
      have "b \<notin> T ` {..<k}" using that sub by blast
      then show ?thesis using m'(3) that by simp
    qed
    show "m' (T j) = (if j < k then phys s (src + of_nat j) else 0)" if "j < n" for j
    proof (cases "j < k")
      case True
      then show ?thesis using m'(2) o by simp
    next
      case False
      have "T j \<notin> T ` {..<k}"
      proof
        assume "T j \<in> T ` {..<k}"
        then obtain j' where j': "j' < k" "T j = T j'" by auto
        then show False using inj_onD[OF i j'(2)] that k False by simp
      qed
      then show ?thesis using m'(3) that False by simp
    qed
  qed
qed

text \<open>The bytes of newly mapped pages are not in frames that were in use.\<close>

lemma frame_byte_fresh:
  assumes "range_mapped r va flag fs s t" "n \<le> length fs * 2097152" "pm_map s (frame_of b) \<noteq> 0"
  shows "b \<notin> frame_byte fs ` {..<n}"
proof
  assume "b \<in> frame_byte fs ` {..<n}"
  then obtain j where j: "j < n" "b = frame_byte fs j" by auto
  then have "j div 2097152 < length fs" using assms(2) by (auto intro!: less_mult_imp_div_less)
  then have "fs ! (j div 2097152) \<in> set fs" by simp
  then have "fs ! (j div 2097152) < PM_MAP_ELEMENTS \<and> pm_map s (fs ! (j div 2097152)) = 0" using assms(1) unfolding range_mapped_def by blast
  then show False using assms(3) j(2) unat_frame_byte(2)[of fs j] by simp
qed

text \<open>The fields of a program header are the same in two memories that agree on its bytes.\<close>

lemma rd64_field:
  assumes "\<forall>j < 56. m' (ph + of_nat j) = m (ph + of_nat j)" "k + 8 \<le> 56"
  shows "rd64 m' (ph + of_nat k) = rd64 m (ph + of_nat k)"
proof (rule rd64_cong)
  fix q :: nat assume "q < 8"
  then show "m' (ph + of_nat k + of_nat q) = m (ph + of_nat k + of_nat q)"
    using assms(1)[rule_format, of "k + q"] assms(2) by (simp add: add.assoc)
qed

lemma ph_fields_cong:
  assumes "\<forall>j < 56. m' (ph + of_nat j) = m (ph + of_nat j)"
  shows "ph_offset m' ph = ph_offset m ph" "ph_vaddr m' ph = ph_vaddr m ph" "ph_filesz m' ph = ph_filesz m ph" "ph_memsz m' ph = ph_memsz m ph"
  using rd64_field[OF assms, of 8] rd64_field[OF assms, of 16] rd64_field[OF assms, of 32] rd64_field[OF assms, of 40]
  by (simp_all add: ph_offset_def ph_vaddr_def ph_filesz_def ph_memsz_def)

text \<open>C31: A loadable segment that starts at a page boundary, with free pages and frames enough, is loaded into the
  address space: its first bytes are those of the file, the rest is zero, all at the addresses of
  the segment; the pages outside of the segment, the file and every other frame without a table are as before.\<close>

theorem init_segment_loaded:
  fixes s :: "'a vm_state_scheme"
  assumes as: "as \<noteq> 0" "as_pml4_paddr s as = cr3 s" "tables_wf (pm_map s) (phys s) (cr3 s)"
    and hdr: "ph_type (phys s) ph = 1" "va = ph_vaddr (phys s) ph" "memsz = unat (ph_memsz (phys s) ph)" "filesz = unat (ph_filesz (phys s) ph)"
      "src = p + ph_offset (phys s) ph"
    and va: "2097152 dvd unat va" "0 < unat va" "unat va + n * 2097152 \<le> 2 ^ 47"
    and sz: "memsz \<le> n * 2097152" "(n - 1) * 2097152 < memsz" "filesz \<le> memsz"
    and fr: "frames_left (pm_map s) (3 * n)" and nm: "\<forall>k < n. vm_entry (phys s) (cr3 s) (page_at va k) = None"
    and src: "\<forall>j < 56. held (cr3 s) s (frame_of (ph + of_nat j))" "\<forall>j < filesz. held (cr3 s) s (frame_of (src + of_nat j))"
  shows "\<exists>t. init_load_segment as p ph s = Ok (True, t) \<and> tables_wf (pm_map t) (phys t) (cr3 s) \<and>
    (\<forall>j < memsz. virt_read (va + of_nat j) t = Some (if j < filesz then phys s (src + of_nat j) else 0)) \<and>
    (\<forall>b. held (cr3 s) s (frame_of b) \<longrightarrow> phys t b = phys s b) \<and>
    (\<forall>v. (\<forall>k < n. page_of v \<noteq> page_of (page_at va k)) \<longrightarrow> vm_entry (phys t) (cr3 s) v = vm_entry (phys s) (cr3 s) v)"
proof -
  let ?r = "cr3 s"
  obtain pm m fs where L: "init_map_pages as va (ph_memsz (phys s) ph) s = Ok (True, s\<lparr>pm_map := pm, phys := m\<rparr>)" "length fs = n"
      "tables_wf pm m ?r" "range_mapped ?r va WX fs s (s\<lparr>pm_map := pm, phys := m\<rparr>)" "keeps ?r s (s\<lparr>pm_map := pm, phys := m\<rparr>)"
      "\<forall>f \<in> set fs. held ?r (s\<lparr>pm_map := pm, phys := m\<rparr>) f"
    using init_map_pages_maps[OF as(1), of s va n "ph_memsz (phys s) ph"] as va sz fr nm hdr(3) by auto
  define u where "u = s\<lparr>pm_map := pm, phys := m\<rparr>"
  have cu: "cr3 u = ?r" "phys u = m" "pm_map u = pm" by (simp_all add: u_def)
  note W = mapped_window[of u va fs s memsz, unfolded cu, OF L(4)[folded u_def] L(3) L(6)[folded u_def] va(1)]
  have w: "window u memsz va (frame_byte fs)" "inj_on (frame_byte fs) {..<memsz}" using W va(3) sz(1) L(2) by auto
  have fresh: "b \<notin> frame_byte fs ` {..<memsz}" if "held ?r s (frame_of b)" for b
    by (rule frame_byte_fresh[OF L(4)]) (use that sz(1) L(2) in \<open>simp_all add: held_def\<close>)
  have kept: "phys u b = phys s b" if "held ?r s (frame_of b)" for b using L(5) that unfolding keeps_def u_def by blast
  have off: "\<forall>j < filesz. src + of_nat j \<notin> frame_byte fs ` {..<memsz}" using fresh src(2) by blast
  obtain m' where F: "bind_res (virt_memset memsz va 0 u) (virt_memcpy filesz va src) = Ok (u\<lparr>phys := m'\<rparr>)"
      "window (u\<lparr>phys := m'\<rparr>) memsz va (frame_byte fs)" "\<And>b. b \<notin> frame_byte fs ` {..<memsz} \<Longrightarrow> m' b = phys u b"
      "\<And>j. j < memsz \<Longrightarrow> m' (frame_byte fs j) = (if j < filesz then phys u (src + of_nat j) else 0)"
    by (rule fill_window[OF w sz(3) off]) (rule that; assumption)
  have hs: "ph_vaddr (phys u) ph = va" "ph_memsz (phys u) ph = ph_memsz (phys s) ph"
    using ph_fields_cong[of "phys u" ph "phys s"] kept src(1) hdr(2) by simp_all
  let ?z = "\<lambda>b. if b \<in> frame_byte fs ` {..<memsz} then 0 else phys u b" and ?t = "u\<lparr>phys := m'\<rparr>"
  have z: "ph_filesz ?z ph = ph_filesz (phys s) ph" "ph_offset ?z ph = ph_offset (phys s) ph"
    using ph_fields_cong[of ?z ph "phys s"] kept fresh src(1) by simp_all
  have ms: "virt_memset memsz va 0 u = Ok (u\<lparr>phys := ?z\<rparr>)" by (rule virt_memset_window[OF w(1)])
  have run: "init_load_segment as p ph s = Ok (True, ?t)"
    using F(1) L(1)[folded u_def] unfolding ms
    by (simp add: init_load_segment_def hdr(1) hdr(2)[symmetric] hs hdr(3)[symmetric] ms z hdr(4,5)[symmetric])
  have rd: "virt_read (va + of_nat j) ?t = Some (if j < filesz then phys s (src + of_nat j) else 0)" if "j < memsz" for j
  proof -
    have "virt_pa (va + of_nat j) ?t = Some (frame_byte fs j)" using F(2) that unfolding window_def by blast
    then show ?thesis using F(4)[OF that] kept src(2) by (simp add: virt_read_def)
  qed
  have en: "vm_entry (phys ?t) ?r v = vm_entry (phys s) ?r v" if "\<forall>k < n. page_of v \<noteq> page_of (page_at va k)" for v
    using window_tables(2)[OF w(1) F(3), of v] L(4) that unfolding range_mapped_def cu by (simp add: L(2) u_def)
  have wf: "tables_wf (pm_map ?t) (phys ?t) ?r" using F(2) by (simp add: window_def cu)
  have "phys ?t b = phys s b" if "held ?r s (frame_of b)" for b using F(3) fresh kept that by simp
  then show ?thesis using run wf rd en by blast
qed

text \<open>The witness: a header and three bytes of a file in the frame at \<open>0x400000\<close>, and empty tables.\<close>

definition demo_image :: mem where
  "demo_image = (\<lambda>_. 0)(0x400000 := 1, 0x400008 := 64, 0x400012 := 0x80, 0x400020 := 3, 0x400028 := 5,
     0x400040 := 7, 0x400041 := 8, 0x400042 := 9)"

definition demo_load :: vm_state where
  "demo_load = demo_vm\<lparr>phys := demo_image\<rparr>"

lemma demo_image_frame: "frame_of b \<noteq> 2 \<Longrightarrow> demo_image b = 0"
  by (auto simp: demo_image_def frame_of_def)

lemma demo_load_tables:
  "tbl demo_image 0x200000 n = (if n = N4 then Some 0x200000 else None)" "tables_wf (pm_map demo_load) demo_image 0x200000"
  "vm_entry demo_image 0x200000 va = None" "frame_of b = 2 \<Longrightarrow> held 0x200000 demo_load (frame_of b)"
proof -
  have "rd64 demo_image (0x200000 + 8 * k) = 0" if "k < 512" for k
  proof -
    have "rd64 demo_image (0x200000 + 8 * k) = rd64 (\<lambda>_. 0) (0x200000 + 8 * k)"
    proof (rule rd64_cong)
      fix q :: nat assume "q < 8"
      then have "unat (0x200000 + 8 * k + of_nat q - (0x200000 + 8 * k)) < 8" by (simp add: unat_of_nat_small)
      from frame_of_entry[OF _ that this] have "frame_of (0x200000 + 8 * k + of_nat q) = 1" by (simp add: frame_of_def)
      then show "demo_image (0x200000 + 8 * k + of_nat q) = 0" by (simp add: demo_image_frame)
    qed
    then show ?thesis by (simp add: rd64_def)
  qed
  then have b: "tbl_below demo_image 0x200000 k = None" for k by (simp add: tbl_below_def)
  show T: "tbl demo_image 0x200000 n = (if n = N4 then Some 0x200000 else None)" for n by (cases n) (simp_all add: b)
  show "tables_wf (pm_map demo_load) demo_image 0x200000"
    by (auto simp: tables_wf_def T demo_load_def demo_vm_def frame_of_def split: if_splits)
  show "vm_entry demo_image 0x200000 va = None" by (simp add: vm_entry_pages vm_pages_def T del: tbl.simps)
  show "held 0x200000 demo_load (frame_of b)" if "frame_of b = 2"
    using that by (auto simp: held_def demo_load_def demo_vm_def T frame_of_def split: if_splits)
qed

lemma demo_image_source: "j < 2097152 \<Longrightarrow> frame_of (0x400000 + of_nat j) = 2"
  using unat_add_of_nat[of "0x400000" j] by (simp add: frame_of_def)

theorem init_segment_loaded_witness:
  "\<exists>t. init_load_segment 64 0x400000 0x400000 demo_load = Ok (True, t) \<and>
     map (\<lambda>va. virt_read va t) [0x800000, 0x800001, 0x800002, 0x800003, 0x800004] = [Some 7, Some 8, Some 9, Some 0, Some 0]"
proof -
  have f: "phys demo_load = demo_image" "cr3 demo_load = 0x200000" "as_pml4_paddr demo_load = (\<lambda>_. 0x200000)"
    by (simp_all add: demo_load_def demo_vm_def)
  have h: "ph_type demo_image 0x400000 = 1" "ph_offset demo_image 0x400000 = 64" "ph_vaddr demo_image 0x400000 = 0x800000"
    "ph_filesz demo_image 0x400000 = 3" "ph_memsz demo_image 0x400000 = 5"
    by (simp_all add: ph_type_def ph_offset_def ph_vaddr_def ph_filesz_def ph_memsz_def rd32_def rd64_def demo_image_def)
  have "card {4, 5, 6 :: nat} \<le> card {i. i < PM_MAP_ELEMENTS \<and> pm_map demo_load i = 0}"
    by (rule card_mono) (auto simp: demo_load_def demo_vm_def PM_MAP_ELEMENTS_def)
  then have l: "frames_left (pm_map demo_load) (3 * 1)" by (simp add: frames_left_def demo_load_def demo_vm_def)
  have hd: "held 0x200000 demo_load (frame_of (0x400000 + of_nat j))" if "j < 2097152" for j
    by (rule demo_load_tables(4)[OF demo_image_source[OF that]])
  have "held 0x200000 demo_load (frame_of (0x400040 + of_nat j))" if "j < 3" for j
    using hd[of "64 + j"] that by (simp add: add.assoc[symmetric])
  then obtain t where t: "init_load_segment 64 0x400000 0x400000 demo_load = Ok (True, t)"
    "\<forall>j < 5. virt_read (0x800000 + of_nat j) t = Some (if j < 3 then demo_image (0x400040 + of_nat j) else 0)"
    using init_segment_loaded[of 64 demo_load "0x400000" "0x800000" 5 3 "0x400040" "0x400000" 1] f h l hd demo_load_tables(2,3) by auto
  have "demo_image 0x400040 = 7" "demo_image 0x400041 = 8" "demo_image 0x400042 = 9" by (simp_all add: demo_image_def)
  then show ?thesis
    using t(1) t(2)[rule_format, of 0] t(2)[rule_format, of 1] t(2)[rule_format, of 2] t(2)[rule_format, of 3] t(2)[rule_format, of 4]
    by (intro exI[of _ t]) simp
qed

end
