(* ===== verification/Spec2Isabelle.thy ===== *)
theory Spec2Isabelle
  imports Heap_Spec Timer_Spec Ifce_Spec Request_Spec Mmap_Spec Syscall_Spec Proc_Spec K_console K_panic Int_Spec Ig_mboot2 Console_Spec Cmd_programs Ig_entry Loader_Spec
begin

text \<open>
  \<^bold>\<open>Yomotsu: the Renzan kernel and its user-space runtime.\<close>

  Renzan is a small kernel for AMD64 with several processors (\<open>kernel/\<close>) and a runtime with a C library for
  its programs (\<open>osrt/\<close>).  The kernel manages memory in frames of 2 MB, gives each process an address
  space, schedules processes on the processors and lets them talk through named ports.  This
  development models the C code function by function, with the names of the source, and proves what
  the functions do, also where that is not what they were meant to do.

  \<^bold>\<open>How the code is modelled.\<close>  Integers keep their width (\<open>u8\<close> to \<open>u64\<close> are words), memory is a function
  from addresses to bytes (\<open>mem\<close>), pointers are addresses with 0 for \<open>NULL\<close>.  Code that can stop returns \<open>'a res\<close>: \<open>Ok\<close>
  with a value, or \<open>Fail\<close> with a \<open>fault\<close>: \<open>Panic\<close> (the macros \<open>PANIC\<close> and \<open>VERIFY\<close>), \<open>NullDeref\<close>, \<open>PageFault\<close>, \<open>WildCall\<close>,
  \<open>DivZero\<close>, \<open>Blocked\<close> (a lock that is not free) and \<open>NoReturn\<close> (a loop that does not end).  The state is passed
  explicitly.  It is a record that grows from layer to layer, so that an operation of a lower layer
  works on the states of all layers above it and visibly leaves their fields alone:
    \<^item> \<open>lock_state\<close> (owners of mutexes, the running process), \<open>pma_state\<close> (reference counts of frames), \<open>vm_state\<close>
      (physical memory, \<open>cr3\<close>, address spaces), \<open>kheap_state\<close> (chunks of the heap), \<open>timer_state\<close> (the heap of timers);
    \<^item> above the timers: \<open>proc_state\<close> (processes, queues, futexes, kernel objects, ports), \<open>ifce_state\<close>, \<open>cpu_regs\<close>, and on
      another branch \<open>int_state\<close> (interrupts and devices) and \<open>smp_state\<close> (the other processors); above the heap: \<open>acpi_state\<close>;
      above the frames: \<open>mb2_state\<close>.  \<open>boot_state\<close> joins the branches for the start of the system;
    \<^item> the console has its own \<open>con_state\<close>, a user program its \<open>rt_state\<close> and \<open>exit_state\<close>.
  Intrusive lists are two functions of pointers over the nodes.  Loops are recursive functions with a
  termination proof where they always end, and \<open>partial_function (option)\<close> otherwise; then \<open>ends\<close> turns a
  missing result into \<open>NoReturn\<close>, and the theorems about such loops prove that they return.  The one use of fuel is the
  iteration over a list, and \<open>list_operations\<close> shows that the length of the list is enough.
  What the code does not decide is an argument: \<open>env\<close> is all that runs between a switch to another process
  and the switch back, \<open>call\<close> a call through a function pointer, \<open>kpa\<close> the physical address behind a kernel pointer (the
  futex code starts its table walk at the address-space object), \<open>stk\<close> an address on the stack, \<open>lit\<close> the addresses of string literals, \<open>irqs\<close> the interrupts
  during a wait, \<open>kern\<close> the kernel as a program sees it, \<open>rm\<close> the effect of an instruction prefix that the
  architecture leaves open, \<open>ap\<close> the variable arguments of a call, \<open>buf\<close> and \<open>pb\<close> the arrays on the stack of the formatter.

  \<^bold>\<open>The theories and the code.\<close>
    \<^item> \<open>Prelude\<close>, \<open>Machine\<close>, \<open>Phys\<close>, \<open>Tables\<close>: results, rounding macros, string instructions, words and bit fields in
      memory, records that lie in memory one after the other.
    \<^item> \<open>K_list\<close> (\<open>k_list.h\<close>), \<open>K_string\<close> (\<open>k_string.c\<close>), \<open>K_mutex\<close> (\<open>k_mutex.c\<close>, \<open>k_spinlock.c\<close>).
    \<^item> \<open>k_memory.c\<close>: frames in \<open>K_pma\<close>, page tables in \<open>K_paging\<close>, \<open>Paging_Map\<close> and \<open>Vm_alloc\<close>, the heap in \<open>K_heap\<close>, \<open>Heap_Spec\<close>
      and \<open>Heap_Frame\<close>, address spaces in \<open>K_addrspace\<close>; \<open>K_user_mem\<close> is \<open>k_user_mem.c\<close>.
    \<^item> \<open>K_timer\<close> and \<open>Timer_Spec\<close> (\<open>k_timer.c\<close>), \<open>Proc_State\<close> (\<open>k_proc.h\<close> and the other headers of the process layer), \<open>K_sched\<close> and
      \<open>Sched_Spec\<close> (\<open>k_sched.c\<close>), \<open>K_futex\<close> and \<open>Futex_Spec\<close> (\<open>k_futex.c\<close>), \<open>K_switch\<close>, \<open>K_proc\<close>, \<open>K_term\<close> and \<open>Proc_Spec\<close> (\<open>k_proc.c\<close>,
      \<open>hal_proc.s\<close>), \<open>K_kobj\<close> (\<open>k_kobj.c\<close>).
    \<^item> \<open>K_port\<close>, \<open>Port_Spec\<close> and \<open>Request_Spec\<close> (\<open>k_port.c\<close>), \<open>K_port_ifce\<close> and \<open>Ifce_Spec\<close> (\<open>k_port_ifce.c\<close>), \<open>Name_Table\<close>, \<open>K_syscall\<close>,
      \<open>Syscall_Spec\<close> and \<open>Mmap_Spec\<close> (\<open>k_syscall.c\<close>, \<open>hal_syscall.s\<close>).
    \<^item> \<open>K_int\<close> and \<open>Int_Spec\<close> (\<open>k_int.c\<close> and the devices of \<open>k_timer.c\<close>), \<open>K_acpi\<close> (\<open>k_acpi.c\<close>), \<open>K_cpu\<close> and \<open>Cpu_Spec\<close> (\<open>k_descriptor.c\<close>,
      \<open>k_simd.c\<close>, \<open>syscall_init\<close>, \<open>process_init\<close>), \<open>Digits\<close>, \<open>K_console\<close> and \<open>Vga_text\<close> (\<open>k_console.c\<close>, \<open>ig_vga_text.c\<close>), \<open>K_panic\<close> (\<open>k_panic.c\<close>).
    \<^item> The start: \<open>Ig_mboot2\<close> (\<open>ig_mboot2.c\<close>), \<open>Ig_smp\<close> (\<open>ig_smp.c\<close>), \<open>Ig_init_loader\<close> and \<open>Loader_Spec\<close>
      (\<open>ig_init_loader.c\<close>) and \<open>Ig_entry\<close> (\<open>ig_entry.c\<close>).
    \<^item> The runtime: \<open>Rt_syscall\<close>, \<open>Rt_process\<close> and \<open>Args_Spec\<close> (\<open>osrt/rt/\<close>), \<open>C_string\<close>, \<open>C_ctype\<close>, \<open>C_stdlib\<close> and \<open>C_stdio\<close> (\<open>osrt/c/\<close>), and
      \<open>C_vfprintf\<close> with \<open>Format_Spec\<close> and \<open>Vfprintf_Spec\<close> (\<open>osrt/c/vfprintf.c\<close>); \<open>Console_Spec\<close> is about \<open>printf\<close> on the console, and \<open>Cmd_programs\<close> has the two programs of \<open>cmd/\<close>.

  \<^bold>\<open>Interfaces.\<close>  Where one component relies on another, or several share a contract, the contract is a
  locale: \<open>inductive_invariant\<close> for interleaved systems, \<open>allocator\<close> and \<open>exclusive_allocator\<close> for frames and for
  blocks of the heap, \<open>priority_queue\<close> for the timers, \<open>name_table\<close> for the tables of ports and of interfaces and \<open>name_table_rem\<close>, which extends it with removal, for ports, \<open>record_loop\<close> for
  the walks over firmware and boot-loader tables, \<open>lifo\<close> for the deferred calls, \<open>sink\<close> for the streams of the formatter.  Each is interpreted on
  the definitions of the code.

  \<^bold>\<open>What is proved.\<close>
    \<^item> Memory: \<open>vm_map_page\<close> and \<open>vm_unmap_page\<close> update a map from pages to entries, and the tables stay a tree of
      distinct frames; \<open>kmem_alloc\<close> and \<open>kmem_free\<close> refine first fit with splitting and merging on a list of blocks, and blocks in use
      never overlap; frames are given out once by one processor, but two processors can be given the same frame;
      user memory reads back what was written; \<open>syscall_mmap\<close> maps exactly the pages of its range to fresh frames
      full of zeros and leaves all other frames in use alone.
    \<^item> Processes: when \<open>mutex_acquire\<close> returns; for two mutexes taken in the order of addresses no mutex has two
      holders, waiting is without circles and every chain of waits ends in a thread that can move; timers leave
      in the order of their deadlines; queues are lists, the tick is preemptive by level and round robin
      within a level; waiting and waking on futexes; identifiers, on any bitmap, and handles; children of a process that ends.
    \<^item> Names: tables of ports and interfaces are maps from names to objects, under insertion and, for ports, removal.
    \<^item> Start: the frames that are free after the boot information is read; the walk over the interrupt table ends; every
      selector names a descriptor of the right kind; the other processors are started by the interrupts they are sent; a
      segment of the first program is at its addresses, byte for byte and padded with zeros.
    \<^item> Text: \<open>kvprintf\<close> ends and renders its format; numbers read back; text without tabs stays on the screen; the symbol that is found is the last one at or before the address.
    \<^item> Programs: errors are reported; a program that is
      loaded is the image of its file, and its arguments reach its \<open>main\<close>; \<open>vfprintf\<close> prints, on every stream that keeps the contract \<open>sink\<close>, the text that a specification by
      pieces gives to the format, and \<open>snprintf\<close> leaves the part of it that fits in the buffer, \<open>printf\<close> all of it on the console.
  Theorems of the second kind say where the code fails its purpose: extraction from the heap of timers can read
  through a null pointer, identifiers after the eighth collide, a table of objects that grows loses its lock, growing the
  kernel heap takes one lock twice, the wake wrapper calls wait, the last frame of a module that crosses a frame boundary stays
  free, a tab can take the text behind the screen, and others.

  \<^bold>\<open>Simplifications.\<close>  \<open>mutex_acquire_loop\<close> is the loop of \<open>mutex_acquire\<close> with the call of \<open>sched_resched\<close> that ends each of its
  passes, also the one that succeeds.  The other components use \<open>mutex_acquire\<close>, which \<open>mutex_acquire_is_loop\<close> shows to be this loop
  for a \<open>sched_resched\<close> that comes back with nothing changed; so they are about one process that is not preempted there, and
  a mutex that another one holds is \<open>Blocked\<close>.  The interleavings are in the models of \<open>mutex_acquire_dual\<close> and \<open>pma_alloc\<close>.
  \<open>elf_load_image\<close> and \<open>arguments_reach_main\<close> are about \<open>log_kernel\<close>, a kernel that refuses no request and records all of them; the
  number of arguments is an \<open>int\<close>, and \<open>argc + 1\<close> is assumed not to overflow there.  Of the block of per-processor data, which
  \<open>ig_percpu_init_ap\<close> clears as a whole, the state has the two words that are set afterwards.  \<open>smp_starts_all\<close> is about processors
  that follow \<open>answer_ipi\<close>, the documented effect of the interrupts INIT and start-up, with APIC numbers below 16: the code
  writes four bits of the destination only.

  \<^bold>\<open>Not modelled.\<close>  Code in assembler before the C code runs and the entry code of interrupts, the
  effect of the instructions that save and restore the vector registers, the contents of heap blocks that the
  records above do not name, messages of the kernel to the console (but for \<open>kvprintf\<close> itself, a panic and the port that prints), and third-party
  code: \<open>dlmalloc.c\<close> (its functions are arguments where they are used).  Atomic operations are
  sequentially consistent; caches and the translation buffer are left out.
\<close>

end
